(* ===== verification/Prelude.thy ===== *)
theory Prelude
  imports "HOL-Library.Word" "HOL-Library.Sublist"
begin

text \<open>
  Shared vocabulary of the development: the faults that C code can run into, the
  result type that carries them, sequencing of fallible steps, the integer conversions
  of the platform (LP64: 32-bit \<open>int\<close>, 64-bit \<open>size_t\<close> and \<open>long\<close>), and bounds-checked
  access to a block of memory.
\<close>

section \<open>Faults and results\<close>

text \<open>
  A C function either returns or performs an operation whose behaviour the C standard
  leaves undefined. The second case is a value of the model: the kind of the first such
  operation.
\<close>

datatype fault =
    Out_Of_Bounds   \<comment> \<open>read or write outside a block\<close>
  | Null_Deref      \<comment> \<open>access through a null pointer\<close>
  | Bad_Free        \<comment> \<open>free of a block that is not allocated\<close>
  | Bad_Format      \<comment> \<open>printf conversion that does not match its argument\<close>
  | Int_Overflow    \<comment> \<open>signed overflow\<close>
  | Type_Confusion  \<comment> \<open>object accessed at an incompatible type\<close>
  | Assert_Failed   \<comment> \<open>assertion whose condition is false\<close>

type_synonym 'a res = "fault + 'a"

definition res_bind :: "'e + 'a \<Rightarrow> ('a \<Rightarrow> 'e + 'b) \<Rightarrow> 'e + 'b" where
  "res_bind m f = (case m of Inl e \<Rightarrow> Inl e | Inr x \<Rightarrow> f x)"

lemma res_bind_Inl [simp]: "res_bind (Inl e) f = Inl e"
  by (simp add: res_bind_def)

lemma res_bind_Inr [simp]: "res_bind (Inr x) f = f x"
  by (simp add: res_bind_def)

lemma res_bind_cong [fundef_cong]:
  "m = m' \<Longrightarrow> (\<And>x. m' = Inr x \<Longrightarrow> f x = g x) \<Longrightarrow> res_bind m f = res_bind m' g"
  by (cases m') (auto simp: res_bind_def)

lemma res_bind_Inr_iff: "res_bind m f = Inr y \<longleftrightarrow> (\<exists>x. m = Inr x \<and> f x = Inr y)"
  by (cases m) (auto simp: res_bind_def)

lemma res_bind_Inl_iff: "res_bind m f = Inl e \<longleftrightarrow> m = Inl e \<or> (\<exists>x. m = Inr x \<and> f x = Inl e)"
  by (cases m) (auto simp: res_bind_def)

lemma res_bind_assoc: "res_bind (res_bind m f) g = res_bind m (\<lambda>x. res_bind (f x) g)"
  by (cases m) (auto simp: res_bind_def)

lemma res_bind_if:
  "res_bind (if P then m else m') f = (if P then res_bind m f else res_bind m' f)"
  by simp

text \<open>Inversion of successful chains, used as a bundle by the component proofs.\<close>

named_theorems res_elims
named_theorems blk_simps
named_theorems cstr_simps

lemma res_bind_InrE [elim!, res_elims]:
  assumes "res_bind m f = Inr y"
  obtains x where "m = Inr x" and "f x = Inr y"
  using assms by (auto simp: res_bind_Inr_iff)

section \<open>Integer conversions\<close>

text \<open>Conversion of any integer value to a 32-bit \<open>int\<close> (two's complement truncation).\<close>

definition int32_of :: "int \<Rightarrow> int" where
  "int32_of n = signed_take_bit 31 n"

text \<open>Conversion of an \<open>int\<close> to \<open>size_t\<close>.\<close>

definition size_t_of :: "int \<Rightarrow> nat" where
  "size_t_of n = nat (n mod 2 ^ 64)"

definition INT_MAX :: int where
  "INT_MAX = 2147483647"

lemma int32_of_id: "- (2 ^ 31) \<le> n \<Longrightarrow> n < 2 ^ 31 \<Longrightarrow> int32_of n = n"
  by (simp add: int32_of_def signed_take_bit_int_eq_self)

lemma int32_of_range: "- (2 ^ 31) \<le> int32_of n" "int32_of n < 2 ^ 31"
  using signed_take_bit_int_greater_eq_minus_exp [of 31 n] signed_take_bit_int_less_exp [of 31 n]
  by (simp_all add: int32_of_def)

lemma size_t_of_nonneg: "0 \<le> n \<Longrightarrow> n \<le> INT_MAX \<Longrightarrow> size_t_of n = nat n"
  by (simp add: size_t_of_def INT_MAX_def)

lemma size_t_of_neg: "n < 0 \<Longrightarrow> - INT_MAX \<le> n \<Longrightarrow> size_t_of n = nat (2 ^ 64 + n)"
proof -
  assume "n < 0" "- INT_MAX \<le> n"
  then have "n mod 2 ^ 64 = (n + 2 ^ 64) mod 2 ^ 64" by simp
  also have "\<dots> = n + 2 ^ 64"
    using \<open>n < 0\<close> \<open>- INT_MAX \<le> n\<close> by (intro mod_pos_pos_trivial) (simp_all add: INT_MAX_def)
  finally show ?thesis by (simp add: size_t_of_def add.commute)
qed

section \<open>Blocks of memory\<close>

text \<open>
  A block is the list of its bytes. Reads and writes name an index that may be negative
  (\<open>buf[count - 1]\<close> with \<open>count = 0\<close>); outside the block they fault.
\<close>

type_synonym block = "char list"

definition get_byte :: "block \<Rightarrow> int \<Rightarrow> char res" where
  "get_byte b i = (if 0 \<le> i \<and> i < int (length b) then Inr (b ! nat i) else Inl Out_Of_Bounds)"

definition put_byte :: "block \<Rightarrow> int \<Rightarrow> char \<Rightarrow> block res" where
  "put_byte b i c =
     (if 0 \<le> i \<and> i < int (length b) then Inr (b[nat i := c]) else Inl Out_Of_Bounds)"

text \<open>Writing a run of bytes; writing none touches nothing.\<close>

definition put_bytes :: "block \<Rightarrow> int \<Rightarrow> char list \<Rightarrow> block res" where
  "put_bytes b i ds =
     (if ds = [] then Inr b
      else if 0 \<le> i \<and> i + int (length ds) \<le> int (length b)
      then Inr (take (nat i) b @ ds @ drop (nat i + length ds) b)
      else Inl Out_Of_Bounds)"

text \<open>Reading a run of \<open>n\<close> bytes.\<close>

definition get_bytes :: "block \<Rightarrow> int \<Rightarrow> nat \<Rightarrow> char list res" where
  "get_bytes b i n =
     (if n = 0 then Inr []
      else if 0 \<le> i \<and> i + int n \<le> int (length b) then Inr (take n (drop (nat i) b))
      else Inl Out_Of_Bounds)"

lemma put_byte_length: "put_byte b i c = Inr b' \<Longrightarrow> length b' = length b"
  by (auto simp: put_byte_def split: if_splits)

lemma put_bytes_length: "put_bytes b i ds = Inr b' \<Longrightarrow> length b' = length b"
  by (auto simp: put_bytes_def split: if_splits)

lemma put_byte_ok [blk_simps]:
  "0 \<le> i \<Longrightarrow> i < int (length b) \<Longrightarrow> put_byte b i c = Inr (b[nat i := c])"
  by (simp add: put_byte_def)

lemma get_byte_ok [blk_simps]:
  "0 \<le> i \<Longrightarrow> i < int (length b) \<Longrightarrow> get_byte b i = Inr (b ! nat i)"
  by (simp add: get_byte_def)

lemma put_bytes_front:
  "length ds \<le> length b \<Longrightarrow> put_bytes b 0 ds = Inr (ds @ drop (length ds) b)"
  by (simp add: put_bytes_def)

lemma put_byte_append [blk_simps]:
  "i = int (length p) \<Longrightarrow> put_byte (p @ x # q) i c = Inr (p @ c # q)"
  by (simp add: put_byte_def)

lemma get_byte_append [blk_simps]:
  "i = int (length p) \<Longrightarrow> get_byte (p @ x # q) i = Inr x"
  by (simp add: get_byte_def)

lemma put_bytes_append [blk_simps]:
  "i = int (length p) \<Longrightarrow> length ds = length q \<Longrightarrow>
   put_bytes (p @ q @ r) i ds = Inr (p @ ds @ r)"
  by (cases "ds = []") (simp_all add: put_bytes_def)

lemma get_bytes_append [blk_simps]:
  "i = int (length p) \<Longrightarrow> n = length q \<Longrightarrow> get_bytes (p @ q @ r) i n = Inr q"
  by (cases "q = []") (simp_all add: get_bytes_def)

section \<open>Splitting lists\<close>

lemma takeWhile_neq_append: "d \<notin> set t \<Longrightarrow> takeWhile (\<lambda>c. c \<noteq> d) (t @ d # r) = t"
  by (induction t) auto

lemma dropWhile_neq_append: "d \<notin> set t \<Longrightarrow> dropWhile (\<lambda>c. c \<noteq> d) (t @ d # r) = d # r"
  by (induction t) auto

lemma takeWhile_neq_all: "d \<notin> set t \<Longrightarrow> takeWhile (\<lambda>c. c \<noteq> d) t = t"
  by (induction t) auto

lemma dropWhile_neq_all: "d \<notin> set t \<Longrightarrow> dropWhile (\<lambda>c. c \<noteq> d) t = []"
  by (induction t) auto

lemmas split_at_char = takeWhile_neq_append dropWhile_neq_append takeWhile_neq_all dropWhile_neq_all

end
