(* ===== verification/C_String.thy ===== *)
theory C_String
  imports Prelude
begin

text \<open>
  The functions of the C library's string part that the client calls (\<open>strlen\<close>,
  \<open>strncpy\<close>, \<open>strstr\<close>, \<open>strncmp\<close>, \<open>strtok_r\<close>, \<open>atoi\<close>, \<open>strtoul\<close>), on blocks of bytes.
  A string is terminated by the byte 0; reading a block that holds none is out of bounds.
\<close>

section \<open>Terminated strings\<close>

abbreviation NUL :: char where
  "NUL \<equiv> CHR 0x00"

abbreviation CR :: char where
  "CR \<equiv> CHR 0x0D"

abbreviation LF :: char where
  "LF \<equiv> CHR 0x0A"

definition cstr :: "char list \<Rightarrow> string" where
  "cstr b = takeWhile (\<lambda>c. c \<noteq> NUL) b"

text \<open>The string that starts at an offset of a block.\<close>

definition str_at :: "block \<Rightarrow> nat \<Rightarrow> string res" where
  "str_at b i =
     (if i \<le> length b \<and> NUL \<in> set (drop i b) then Inr (cstr (drop i b)) else Inl Out_Of_Bounds)"

definition nul_free :: "string \<Rightarrow> bool" where
  "nul_free s \<longleftrightarrow> NUL \<notin> set s"

lemma cstr_nul_free [cstr_simps]: "nul_free s \<Longrightarrow> cstr s = s"
  unfolding nul_free_def cstr_def by (subst takeWhile_eq_all_conv) auto

lemma cstr_append_NUL [cstr_simps]: "nul_free s \<Longrightarrow> cstr (s @ NUL # r) = s"
  unfolding nul_free_def cstr_def by (subst takeWhile_append2) auto

lemma nul_free_cstr [simp]: "nul_free (cstr b)"
  unfolding nul_free_def cstr_def using set_takeWhileD by fastforce

lemma nul_free_append [simp]: "nul_free (s @ t) \<longleftrightarrow> nul_free s \<and> nul_free t"
  by (auto simp: nul_free_def)

lemma nul_free_Cons [simp]: "nul_free (c # t) \<longleftrightarrow> c \<noteq> NUL \<and> nul_free t"
  by (auto simp: nul_free_def)

lemma nul_free_Nil [simp]: "nul_free []"
  by (simp add: nul_free_def)

lemma nul_free_take [intro]: "nul_free s \<Longrightarrow> nul_free (take n s)"
  unfolding nul_free_def by (meson in_set_takeD)

lemma nul_free_drop [intro]: "nul_free s \<Longrightarrow> nul_free (drop n s)"
  unfolding nul_free_def by (meson in_set_dropD)

lemma str_at_append [cstr_simps]:
  "i = length p \<Longrightarrow> nul_free s \<Longrightarrow> str_at (p @ s @ NUL # r) i = Inr s"
  by (simp add: str_at_def cstr_append_NUL)

lemma str_at_here [cstr_simps]: "nul_free s \<Longrightarrow> str_at (s @ NUL # r) 0 = Inr s"
  using str_at_append [of 0 "[]" s r] by simp

lemma str_at_zero_byte: "i < length b \<Longrightarrow> b ! i = NUL \<Longrightarrow> str_at b i = Inr []"
  by (simp add: str_at_def cstr_def Cons_nth_drop_Suc [symmetric])

lemma str_at_InrD:
  "str_at b i = Inr s \<Longrightarrow> \<exists>r. drop i b = s @ NUL # r \<and> nul_free s \<and> i + length s < length b"
proof -
  assume a: "str_at b i = Inr s"
  then have s: "s = cstr (drop i b)" and m: "NUL \<in> set (drop i b)"
    by (auto simp: str_at_def split: if_splits)
  from m obtain p r where p: "drop i b = p @ NUL # r" "NUL \<notin> set p"
    by (meson split_list_first)
  then have "s = p" by (simp add: s cstr_append_NUL nul_free_def)
  moreover have "i + length p < length b" using arg_cong [OF p(1), of length] by simp
  ultimately show ?thesis using p by (auto simp: nul_free_def)
qed

lemma str_at_Inr_iff:
  "(\<exists>s. str_at b i = Inr s) \<longleftrightarrow> i \<le> length b \<and> NUL \<in> set (drop i b)"
  by (auto simp: str_at_def)

section \<open>Copying\<close>

text \<open>\<open>strncpy\<close> writes exactly \<open>n\<close> bytes, padding with zeros.\<close>

definition strncpy :: "block \<Rightarrow> string \<Rightarrow> nat \<Rightarrow> block res" where
  "strncpy dst src n = put_bytes dst 0 (take n (cstr src @ replicate n NUL))"

lemma strncpy_ok:
  "nul_free src \<Longrightarrow> n \<le> length src \<Longrightarrow> n \<le> length dst \<Longrightarrow>
   strncpy dst src n = Inr (take n src @ drop n dst)"
  by (simp add: strncpy_def cstr_nul_free put_bytes_front)

lemma strncpy_all:
  "nul_free src \<Longrightarrow> n = length src \<Longrightarrow> n \<le> length dst \<Longrightarrow>
   strncpy dst src n = Inr (src @ drop n dst)"
  by (simp add: strncpy_ok)

lemma strncpy_overflow:
  "length dst < n \<Longrightarrow> strncpy dst src n = Inl Out_Of_Bounds"
  by (auto simp: strncpy_def put_bytes_def)

text \<open>\<open>snprintf (buf, n, "%s", s)\<close>: at most \<open>n - 1\<close> bytes and the terminator.\<close>

definition snprintf_str :: "block \<Rightarrow> nat \<Rightarrow> string \<Rightarrow> block res" where
  "snprintf_str dst n s = (if n = 0 then Inr dst else put_bytes dst 0 (take (n - 1) (cstr s) @ [NUL]))"

lemma snprintf_str_fits:
  "nul_free s \<Longrightarrow> length dst = n \<Longrightarrow> 0 < n \<Longrightarrow> n \<le> length s + 1 \<Longrightarrow>
   snprintf_str dst n s = Inr (take (n - 1) s @ [NUL])"
  by (simp add: snprintf_str_def cstr_nul_free put_bytes_front)

section \<open>Searching\<close>

text \<open>\<open>strstr\<close>: the offset of the first occurrence.\<close>

fun strstr :: "string \<Rightarrow> string \<Rightarrow> nat option" where
  "strstr [] t = (if t = [] then Some 0 else None)"
| "strstr (c # s) t = (if prefix t (c # s) then Some 0 else map_option Suc (strstr s t))"

lemma strstr_SomeD: "strstr s t = Some k \<Longrightarrow> k + length t \<le> length s \<and> take (length t) (drop k s) = t"
proof (induction s t arbitrary: k rule: strstr.induct)
  case (1 t)
  then show ?case by (auto split: if_splits)
next
  case (2 c s t)
  show ?case
  proof (cases "prefix t (c # s)")
    case True
    then obtain r where r: "c # s = t @ r" by (auto simp: prefix_def)
    have "length t \<le> length (c # s)" unfolding r by simp
    moreover have "take (length t) (c # s) = t" unfolding r by simp
    ultimately show ?thesis using True 2 by simp
  next
    case False
    then obtain j where "strstr s t = Some j" "k = Suc j" using 2 by auto
    with 2 False show ?thesis by auto
  qed
qed

lemma strstr_first: "strstr s t = Some k \<Longrightarrow> j < k \<Longrightarrow> \<not> prefix t (drop j s)"
proof (induction s t arbitrary: k j rule: strstr.induct)
  case (1 t)
  then show ?case by (auto split: if_splits)
next
  case (2 c s t)
  then have np: "\<not> prefix t (c # s)" by auto
  then obtain i where "strstr s t = Some i" "k = Suc i" using 2 by auto
  with 2 np show ?case by (cases j) auto
qed

lemma strstr_Nil2 [simp]: "strstr s [] = Some 0"
  by (cases s) auto

lemma strstr_prefix: "strstr (t @ r) t = Some 0"
  by (cases "t @ r") (simp, metis prefixI strstr.simps(2))

lemma strstr_None_iff: "strstr s t = None \<longleftrightarrow> \<not> sublist t s"
  by (induction s t rule: strstr.induct) (auto simp: sublist_Cons_right)

lemma strstr_char:
  "strstr s [c] = (if c \<in> set s then Some (length (takeWhile (\<lambda>x. x \<noteq> c) s)) else None)"
  by (induction s) auto

section \<open>Comparing\<close>

text \<open>\<open>strncmp (a, b, n) == 0\<close>.\<close>

definition strncmp_eq :: "string \<Rightarrow> string \<Rightarrow> nat \<Rightarrow> bool" where
  "strncmp_eq a b n \<longleftrightarrow> take n (cstr a) = take n (cstr b)"

lemma strncmp_eq_prefix:
  "nul_free s \<Longrightarrow> nul_free t \<Longrightarrow> n = length t \<Longrightarrow> strncmp_eq s t n \<longleftrightarrow> prefix t s"
  by (auto simp: strncmp_eq_def cstr_nul_free prefix_def) (metis append_take_drop_id)

section \<open>Numbers\<close>

text \<open>
  \<open>strtoul\<close> and \<open>atoi\<close> in the C locale: leading white space, an optional sign, for base 16
  an optional \<open>0x\<close> before a digit, then the longest run of digits of the base. \<open>strtoul\<close>
  saturates at \<open>ULONG_MAX\<close> and negates in \<open>unsigned long\<close>; \<open>atoi\<close> is \<open>(int) strtol\<close>.
\<close>

definition is_space :: "char \<Rightarrow> bool" where
  "is_space c \<longleftrightarrow> c = CHR '' '' \<or> (9 \<le> (of_char c :: nat) \<and> (of_char c :: nat) \<le> 13)"

definition digit_val :: "char \<Rightarrow> nat option" where
  "digit_val c =
     (let n = (of_char c :: nat)
      in if 48 \<le> n \<and> n \<le> 57 then Some (n - 48)
         else if 65 \<le> n \<and> n \<le> 90 then Some (n - 55)
         else if 97 \<le> n \<and> n \<le> 122 then Some (n - 87)
         else None)"

definition is_base_digit :: "nat \<Rightarrow> char \<Rightarrow> bool" where
  "is_base_digit b c = (case digit_val c of Some d \<Rightarrow> d < b | None \<Rightarrow> False)"

fun digits_val :: "nat \<Rightarrow> nat \<Rightarrow> string \<Rightarrow> nat" where
  "digits_val b acc [] = acc"
| "digits_val b acc (c # s) =
     (case digit_val c of
        Some d \<Rightarrow> (if d < b then digits_val b (acc * b + d) s else acc)
      | None \<Rightarrow> acc)"

fun split_sign :: "string \<Rightarrow> bool \<times> string" where
  "split_sign (c # s) =
     (if c = CHR ''-'' then (True, s) else if c = CHR ''+'' then (False, s) else (False, c # s))"
| "split_sign [] = (False, [])"

fun skip_hex_prefix :: "string \<Rightarrow> string" where
  "skip_hex_prefix (z # x # d # s) =
     (if z = CHR ''0'' \<and> (x = CHR ''x'' \<or> x = CHR ''X'') \<and> is_base_digit 16 d then d # s
      else z # x # d # s)"
| "skip_hex_prefix s = s"

definition ULONG_MAX :: nat where
  "ULONG_MAX = 18446744073709551615"

definition strtoul :: "nat \<Rightarrow> string \<Rightarrow> nat" where
  "strtoul base s =
     (let (neg, s1) = split_sign (dropWhile is_space s);
          v = digits_val base 0 (if base = 16 then skip_hex_prefix s1 else s1)
      in if ULONG_MAX < v then ULONG_MAX
         else if neg then (ULONG_MAX + 1 - v) mod (ULONG_MAX + 1) else v)"

definition LONG_MAX :: int where
  "LONG_MAX = 9223372036854775807"

definition atoi :: "string \<Rightarrow> int" where
  "atoi s =
     (let (neg, s1) = split_sign (dropWhile is_space s);
          v = int (digits_val 10 0 s1)
      in int32_of (if neg then max (- LONG_MAX - 1) (- v) else min LONG_MAX v))"

text \<open>
  \<open>strtok_r\<close> with a single delimiter: leading delimiters are skipped, the token runs to the
  next delimiter, which is consumed.
\<close>

definition strtok_next :: "char \<Rightarrow> string \<Rightarrow> (string \<times> string) option" where
  "strtok_next d s =
     (let s1 = dropWhile (\<lambda>c. c = d) s
      in if s1 = [] then None
         else Some (takeWhile (\<lambda>c. c \<noteq> d) s1, drop 1 (dropWhile (\<lambda>c. c \<noteq> d) s1)))"

lemma strtok_next_shorter:
  assumes "strtok_next d s = Some (t, r)"
  shows "length r < length s"
proof -
  obtain s1 where s1: "s1 = dropWhile (\<lambda>c. c = d) s" by blast
  have ne: "s1 \<noteq> []" and r: "r = drop 1 (dropWhile (\<lambda>c. c \<noteq> d) s1)"
    using assms by (auto simp: strtok_next_def Let_def s1 split: if_splits)
  have "length (dropWhile (\<lambda>c. c \<noteq> d) s1) \<le> length s1"
    by (rule length_dropWhile_le)
  moreover have "length s1 \<le> length s" unfolding s1 by (rule length_dropWhile_le)
  moreover have "0 < length s1" using ne by simp
  moreover have "length r = length (dropWhile (\<lambda>c. c \<noteq> d) s1) - 1" unfolding r by simp
  ultimately show ?thesis by linarith
qed

lemma dropWhile_eq_self: "t \<noteq> [] \<Longrightarrow> d \<notin> set t \<Longrightarrow> dropWhile (\<lambda>c. c = d) (t @ r) = t @ r"
  by (cases t) auto

lemma strtok_next_token:
  "t \<noteq> [] \<Longrightarrow> d \<notin> set t \<Longrightarrow> strtok_next d (t @ d # r) = Some (t, r)"
  by (simp add: strtok_next_def dropWhile_eq_self split_at_char)

lemma strtok_next_last: "t \<noteq> [] \<Longrightarrow> d \<notin> set t \<Longrightarrow> strtok_next d t = Some (t, [])"
  using dropWhile_eq_self [of t d "[]"] by (simp add: strtok_next_def split_at_char)

lemma strtok_next_Nil [simp]: "strtok_next d [] = None"
  by (simp add: strtok_next_def)

section \<open>Printed numbers\<close>

text \<open>The reference printer of the round trips: digits of a number in a base up to 16.\<close>

definition digit_char :: "nat \<Rightarrow> char" where
  "digit_char d = (char_of (if d < 10 then 48 + d else 87 + d))"

fun show_base :: "nat \<Rightarrow> nat \<Rightarrow> string" where
  "show_base b n =
     (if n < b \<or> b < 2 then [digit_char n] else show_base b (n div b) @ [digit_char (n mod b)])"

declare show_base.simps [simp del]

lemma digit_val_char: "d < 16 \<Longrightarrow> digit_val (digit_char d) = Some d"
  by (auto simp: digit_val_def digit_char_def Let_def)

lemma show_base_not_Nil: "show_base b n \<noteq> []"
  by (subst show_base.simps) simp

lemma show_base_digits:
  "2 \<le> b \<Longrightarrow> b \<le> 16 \<Longrightarrow> c \<in> set (show_base b n) \<Longrightarrow> \<exists>d < b. c = digit_char d"
proof (induction b n rule: show_base.induct)
  case (1 b n)
  show ?case
  proof (cases "n < b")
    case True
    with 1 have "c = digit_char n" by (subst (asm) show_base.simps) simp
    with True show ?thesis by blast
  next
    case False
    with 1 have c: "c \<in> set (show_base b (n div b)) \<or> c = digit_char (n mod b)"
      by (auto simp: show_base.simps [of b n])
    have "n mod b < b" using 1 by simp
    with c show ?thesis
    proof (elim disjE)
      assume "c \<in> set (show_base b (n div b))"
      with 1 False show ?thesis by simp
    qed blast
  qed
qed

lemma digits_val_show:
  "2 \<le> b \<Longrightarrow> b \<le> 16 \<Longrightarrow>
   digits_val b acc (show_base b n @ r) = digits_val b (acc * b ^ length (show_base b n) + n) r"
proof (induction b n arbitrary: acc r rule: show_base.induct)
  case (1 b n)
  show ?case
  proof (cases "n < b")
    case True
    with 1 show ?thesis
      by (simp add: show_base.simps [of b n] digit_val_char)
  next
    case False
    have m: "n mod b < b" using 1 by simp
    then have dv: "digit_val (digit_char (n mod b)) = Some (n mod b)"
      using \<open>b \<le> 16\<close> by (intro digit_val_char) linarith
    have len: "show_base b n = show_base b (n div b) @ [digit_char (n mod b)]"
      using False 1 by (subst show_base.simps) simp
    have "digits_val b acc (show_base b n @ r) =
          digits_val b (acc * b ^ length (show_base b (n div b)) + n div b) (digit_char (n mod b) # r)"
      using 1 False by (simp add: len)
    also have "\<dots> = digits_val b ((acc * b ^ length (show_base b (n div b)) + n div b) * b + n mod b) r"
      using m dv by simp
    also have "(acc * b ^ length (show_base b (n div b)) + n div b) * b + n mod b =
               acc * b ^ length (show_base b n) + n"
      using div_mult_mod_eq [of n b] by (simp add: len algebra_simps)
    finally show ?thesis .
  qed
qed

lemma digits_val_stop: "r = [] \<or> \<not> is_base_digit b (hd r) \<Longrightarrow> digits_val b acc r = acc"
  by (cases r) (auto simp: is_base_digit_def split: option.splits)

lemma digit_char_neq:
  assumes "d < 16" and "\<not> (48 \<le> (of_char c :: nat) \<and> (of_char c :: nat) \<le> 57)"
    and "\<not> (97 \<le> (of_char c :: nat) \<and> (of_char c :: nat) \<le> 102)"
  shows "digit_char d \<noteq> c"
proof
  assume "digit_char d = c"
  then have "(of_char c :: nat) = of_char (digit_char d)" by simp
  also have "\<dots> = (if d < 10 then 48 + d else 87 + d)"
    using assms(1) by (simp add: digit_char_def)
  finally show False using assms by (auto split: if_splits)
qed

lemma digit_char_props:
  assumes "d < 16"
  shows "digit_char d \<noteq> CHR ''-''" "digit_char d \<noteq> CHR ''+''" "digit_char d \<noteq> CHR ''.''"
    "digit_char d \<noteq> CHR '':''" "digit_char d \<noteq> CHR ''x''" "digit_char d \<noteq> CHR ''X''"
    "digit_char d \<noteq> CR" "digit_char d \<noteq> LF" "digit_char d \<noteq> NUL" "\<not> is_space (digit_char d)"
proof -
  show "\<not> is_space (digit_char d)"
    using assms digit_char_neq [OF assms, of "CHR '' ''"]
    by (auto simp: is_space_def digit_char_def split: if_splits)
qed (rule digit_char_neq [OF assms]; simp)+

lemma show_base_notin:
  assumes b: "2 \<le> b" "b \<le> 16" and "\<not> (48 \<le> (of_char c :: nat) \<and> (of_char c :: nat) \<le> 57)"
    and "\<not> (97 \<le> (of_char c :: nat) \<and> (of_char c :: nat) \<le> 102)"
  shows "c \<notin> set (show_base b n)"
proof
  assume "c \<in> set (show_base b n)"
  then obtain d where d: "d < b" "c = digit_char d" using show_base_digits [OF b] by blast
  then have "d < 16" using b by linarith
  then show False using digit_char_neq [OF _ assms(3,4)] d(2) by blast
qed

lemma show_base_chars:
  assumes "2 \<le> b" "b \<le> 16"
  shows "nul_free (show_base b n)" "CHR ''.'' \<notin> set (show_base b n)"
    "CHR '':'' \<notin> set (show_base b n)" "CHR ''/'' \<notin> set (show_base b n)"
    "CR \<notin> set (show_base b n)" "LF \<notin> set (show_base b n)"
  unfolding nul_free_def by (rule show_base_notin [OF assms]; simp)+

lemma show_base_hd:
  "2 \<le> b \<Longrightarrow> b \<le> 16 \<Longrightarrow> \<exists>d t. d < b \<and> show_base b n = digit_char d # t"
  by (metis list.exhaust list.set_intros(1) show_base_digits show_base_not_Nil)

lemma split_sign_show:
  "2 \<le> b \<Longrightarrow> b \<le> 16 \<Longrightarrow>
   split_sign (dropWhile is_space (show_base b n @ r)) = (False, show_base b n @ r)"
proof -
  assume b: "2 \<le> b" "b \<le> 16"
  then obtain d t where dt: "d < b" "show_base b n = digit_char d # t"
    using show_base_hd by blast
  then have "d < 16" using b by linarith
  with dt show ?thesis by (simp add: digit_char_props)
qed

lemma skip_hex_prefix_show: "skip_hex_prefix (show_base 16 n @ r) = show_base 16 n @ r"
  if "r = [] \<or> \<not> is_base_digit 16 (hd r)" "r \<noteq> [] \<Longrightarrow> hd r \<noteq> CHR ''x'' \<and> hd r \<noteq> CHR ''X''"
proof -
  have "x \<noteq> CHR ''x'' \<and> x \<noteq> CHR ''X''" if "show_base 16 n @ r = z # x # s" for z x s
  proof (cases "x \<in> set (show_base 16 n)")
    case True
    then obtain d where "d < 16" "x = digit_char d"
      using show_base_digits [of 16 x n] by auto
    then show ?thesis by (simp add: digit_char_props)
  next
    case False
    with that have "hd r = x" "r \<noteq> []"
      by (cases "show_base 16 n"; cases "tl (show_base 16 n)"; auto simp: show_base_not_Nil)+
    with \<open>r \<noteq> [] \<Longrightarrow> _\<close> show ?thesis by blast
  qed
  then show ?thesis
    by (cases "show_base 16 n @ r" rule: skip_hex_prefix.cases) auto
qed

text \<open>What the two conversions return on a printed number followed by anything else.\<close>

lemma strtoul_show10:
  assumes "n \<le> ULONG_MAX" and "r = [] \<or> \<not> is_base_digit 10 (hd r)"
  shows "strtoul 10 (show_base 10 n @ r) = n"
  using assms
  by (simp add: strtoul_def split_sign_show digits_val_show digits_val_stop)

lemma strtoul_show16:
  assumes "n \<le> ULONG_MAX" and "r = [] \<or> \<not> is_base_digit 16 (hd r)"
    and "r \<noteq> [] \<Longrightarrow> hd r \<noteq> CHR ''x'' \<and> hd r \<noteq> CHR ''X''"
  shows "strtoul 16 (show_base 16 n @ r) = n"
  using assms
  by (simp add: strtoul_def split_sign_show digits_val_show digits_val_stop skip_hex_prefix_show)

lemma strtoul_le: "strtoul b s \<le> ULONG_MAX"
  by (auto simp: strtoul_def Let_def ULONG_MAX_def split: prod.splits)

lemma atoi_show:
  assumes "int n < 2 ^ 31" and "r = [] \<or> \<not> is_base_digit 10 (hd r)"
  shows "atoi (show_base 10 n @ r) = int n"
  using assms
  by (simp add: atoi_def split_sign_show digits_val_show digits_val_stop LONG_MAX_def int32_of_id)

lemma show_base_length: "2 \<le> b \<Longrightarrow> n < b ^ Suc k \<Longrightarrow> length (show_base b n) \<le> Suc k"
proof (induction k arbitrary: n)
  case 0
  then show ?case by (simp add: show_base.simps [of b n])
next
  case (Suc k)
  then have "n div b < b ^ Suc k" by (simp add: less_mult_imp_div_less mult.commute)
  with Suc show ?case by (simp add: show_base.simps [of b n])
qed

lemma digit_char_0: "digit_char 0 = CHR ''0''"
  by code_simp

end
