(* ===== verification/Httpc_World.thy ===== *)
theory Httpc_World
  imports C_String
begin

text \<open>
  The data of \<open>httpc.h\<close> and the world around the client: what the peer delivers, what the
  kernel accepts, the blocks and descriptors the process holds, and the sequence of system
  and library calls made so far. The answers of code outside \<open>src/httpc\<close> (kernel, resolver,
  MbedTLS, nghttp2) are the fields of the record \<open>ext\<close>, a parameter of every
  definition that needs them.
\<close>

section \<open>Constants and enumerations\<close>

definition HTTPC_ERR_OK :: int where
  "HTTPC_ERR_OK = 0"

definition HTTPC_ERR_FAIL :: int where
  "HTTPC_ERR_FAIL = -1"

definition HTTPC_ERR_PARAM :: int where
  "HTTPC_ERR_PARAM = -2"

definition HTTPC_ERR_MEM :: int where
  "HTTPC_ERR_MEM = -3"

definition HTTPC_ERR_SEND :: int where
  "HTTPC_ERR_SEND = -4"

definition HTTPC_ERR_RST :: int where
  "HTTPC_ERR_RST = -5"

lemmas httpc_err_defs =
  HTTPC_ERR_OK_def HTTPC_ERR_FAIL_def HTTPC_ERR_PARAM_def HTTPC_ERR_MEM_def
  HTTPC_ERR_SEND_def HTTPC_ERR_RST_def

definition HTTPC_CFG_SOCKET_TIMEOUT :: int where
  "HTTPC_CFG_SOCKET_TIMEOUT = 10"

datatype httpc_mode = HTTPC_MODE_UNKONW | HTTPC_MODE_NORMAL | HTTPC_MODE_CHUNK | HTTPC_MODE_MAX

datatype httpc_ver = HTTP_VER_1_1 | HTTP_VER_2_0

section \<open>Structures\<close>

text \<open>
  A pointer to an allocated object is the identity of its block with the object in it,
  \<open>None\<close> when it is null. Every object has one owner, so its contents travel with the
  pointer; allocation is tracked by identity.
\<close>

type_synonym 'a ptr = "(nat \<times> 'a) option"

record httpc_tls_info =
  cert :: "string option"
  cert_len :: nat
  pk :: "string option"
  pk_len :: nat

datatype authmode = VERIFY_NONE | VERIFY_REQUIRED

text \<open>
  The MbedTLS context, reduced to the settings the client makes before the handshake.
\<close>

record tls_ctx =
  net_fd :: int
  tls_hostname :: "string option"
  tls_authmode :: authmode
  tls_ca :: "string option"
  tls_alpn :: "string list"
  tls_max_version :: "nat \<times> nat"
  tls_bio :: bool

record mem_node =
  buf :: "block option"
  buf_len :: int
  buf_used :: int

record httpc =
  host :: "block ptr"
  path :: "block ptr"
  header_node :: "mem_node option"
  socket :: int
  response_code :: int
  content_length :: int
  chunked :: int
  enable_mbedtls :: bool
  mbedtls_ctx :: "tls_ctx ptr"

text \<open>An object fresh from \<open>calloc\<close>: all fields zero.\<close>

definition httpc_zero :: httpc where
  "httpc_zero =
     \<lparr>host = None, path = None, header_node = None, socket = 0, response_code = 0,
      content_length = 0, chunked = 0, enable_mbedtls = False, mbedtls_ctx = None\<rparr>"

text \<open>
  The contract of a caller's header buffer: it exists, its length is the declared one.
\<close>

definition node_wf :: "mem_node \<Rightarrow> bool" where
  "node_wf n \<longleftrightarrow>
     (\<exists>b. buf n = Some b \<and> int (length b) = buf_len n) \<and>
     0 < buf_len n \<and> buf_len n \<le> INT_MAX \<and> 0 \<le> buf_used n"

section \<open>The world\<close>

text \<open>
  What successive reads of the connection deliver: runs of bytes (a read returns at most
  one run, and at most as many bytes as it asked for) and failed reads with their return
  value. After the last event the peer has closed and reads return 0.
\<close>

datatype rx_event = Rx_Data string | Rx_Err int

type_synonym sockaddr = "32 word \<times> int"

datatype sockopt = SO_SNDTIMEO | SO_RCVTIMEO

datatype syscall =
    Sys_setsockopt int sockopt int
  | Sys_connect int sockaddr
  | Sys_getaddrinfo string "string option"
  | Sys_fcntl_nonblock int
  | Sys_shutdown int int
  | Sys_close int
  | Tls_handshake tls_ctx
  | Tls_close_notify
  | H2_submit_settings

record world =
  rx :: "rx_event list"
  tx_plan :: "int list"     \<comment> \<open>what successive writes return; once used up, writes are complete\<close>
  sent :: string            \<comment> \<open>bytes the kernel or the TLS layer has accepted\<close>
  alloc_plan :: "bool list" \<comment> \<open>whether successive allocations succeed; once used up, they do\<close>
  live :: "nat list"        \<comment> \<open>allocated blocks\<close>
  next_id :: nat
  open_fds :: "int list"
  calls :: "syscall list"

datatype address_family = AF_INET | AF_INET6 | AF_OTHER

record addrinfo =
  ai_family :: address_family
  ai_addr :: sockaddr

record ext =
  x_socket :: int
  x_inet_pton :: "string \<Rightarrow> int \<times> 32 word"
  x_connect :: "int \<Rightarrow> sockaddr \<Rightarrow> int"
  x_getaddrinfo :: "string \<Rightarrow> string option \<Rightarrow> int \<times> addrinfo list"
  x_getsockopt_error :: "int \<Rightarrow> int \<times> int"
  x_crt_parse :: "string \<Rightarrow> nat \<Rightarrow> int"
  x_handshake :: "tls_ctx \<Rightarrow> int"
  x_verify_result :: "tls_ctx \<Rightarrow> 32 word"
  x_fcntl_getfl :: "int \<Rightarrow> int"
  x_fcntl_setfl :: "int \<Rightarrow> int \<Rightarrow> int"
  x_session_client_new :: int

section \<open>Reading and writing a connection\<close>

fun sys_recv :: "nat \<Rightarrow> rx_event list \<Rightarrow> int \<times> string \<times> rx_event list" where
  "sys_recv n [] = (0, [], [])"
| "sys_recv n (Rx_Err e # es) = (min e 0, [], es)"
| "sys_recv n (Rx_Data [] # es) = sys_recv n es"
| "sys_recv n (Rx_Data (c # cs) # es) =
     (if n = 0 then (0, [], Rx_Data (c # cs) # es)
      else (int (min n (length (c # cs))), take n (c # cs), Rx_Data (drop n (c # cs)) # es))"

text \<open>A read of at most \<open>n\<close> bytes: the return value, the bytes, the world after it.\<close>

definition conn_read :: "nat \<Rightarrow> world \<Rightarrow> int \<times> string \<times> world" where
  "conn_read n w = (case sys_recv n (rx w) of (r, d, es) \<Rightarrow> (r, d, w\<lparr>rx := es\<rparr>))"

text \<open>A write of \<open>ds\<close>: a plan entry that is negative fails, another bounds what is accepted.\<close>

definition conn_write :: "string \<Rightarrow> world \<Rightarrow> int \<times> world" where
  "conn_write ds w =
     (let r = (case tx_plan w of [] \<Rightarrow> int (length ds) | k # _ \<Rightarrow> min k (int (length ds)))
      in (r, w\<lparr>tx_plan := tl (tx_plan w), sent := sent w @ take (nat r) ds\<rparr>))"

section \<open>Allocation and descriptors\<close>

definition httpc_calloc :: "'a \<Rightarrow> world \<Rightarrow> 'a ptr \<times> world" where
  "httpc_calloc x w =
     (case alloc_plan w of
        False # ps \<Rightarrow> (None, w\<lparr>alloc_plan := ps\<rparr>)
      | _ \<Rightarrow> (Some (next_id w, x),
              w\<lparr>alloc_plan := tl (alloc_plan w), live := next_id w # live w,
                next_id := next_id w + 1\<rparr>))"

text \<open>The macro \<open>safe_free\<close>: frees a non-null pointer and nulls the variable.\<close>

definition safe_free :: "'a ptr \<Rightarrow> world \<Rightarrow> ('a ptr \<times> world) res" where
  "safe_free p w =
     (case p of
        None \<Rightarrow> Inr (None, w)
      | Some (i, _) \<Rightarrow>
          if i \<in> set (live w) then Inr (None, w\<lparr>live := remove1 i (live w)\<rparr>) else Inl Bad_Free)"

definition log_call :: "syscall \<Rightarrow> world \<Rightarrow> world" where
  "log_call c w = w\<lparr>calls := calls w @ [c]\<rparr>"

definition sys_close :: "int \<Rightarrow> world \<Rightarrow> world" where
  "sys_close fd w = log_call (Sys_close fd) (w\<lparr>open_fds := remove1 fd (open_fds w)\<rparr>)"

definition world_wf :: "world \<Rightarrow> bool" where
  "world_wf w \<longleftrightarrow> distinct (live w) \<and> (\<forall>i \<in> set (live w). i < next_id w)"

named_theorems world_simps

lemma log_call_simps [world_simps, simp]:
  "rx (log_call c w) = rx w" "tx_plan (log_call c w) = tx_plan w" "sent (log_call c w) = sent w"
  "alloc_plan (log_call c w) = alloc_plan w" "live (log_call c w) = live w"
  "next_id (log_call c w) = next_id w" "open_fds (log_call c w) = open_fds w"
  "calls (log_call c w) = calls w @ [c]"
  by (simp_all add: log_call_def)

lemma sys_close_simps [world_simps, simp]:
  "rx (sys_close fd w) = rx w" "tx_plan (sys_close fd w) = tx_plan w" "sent (sys_close fd w) = sent w"
  "alloc_plan (sys_close fd w) = alloc_plan w" "live (sys_close fd w) = live w"
  "next_id (sys_close fd w) = next_id w" "open_fds (sys_close fd w) = remove1 fd (open_fds w)"
  "calls (sys_close fd w) = calls w @ [Sys_close fd]"
  by (simp_all add: sys_close_def)

lemma httpc_calloc_cases:
  obtains (fail) ps where "alloc_plan w = False # ps"
      "httpc_calloc x w = (None, w\<lparr>alloc_plan := ps\<rparr>)"
  | (ok) "httpc_calloc x w =
       (Some (next_id w, x),
        w\<lparr>alloc_plan := tl (alloc_plan w), live := next_id w # live w, next_id := next_id w + 1\<rparr>)"
proof (cases "\<exists>ps. alloc_plan w = False # ps")
  case True
  then show ?thesis using fail by (auto simp: httpc_calloc_def)
next
  case False
  then have "httpc_calloc x w =
       (Some (next_id w, x),
        w\<lparr>alloc_plan := tl (alloc_plan w), live := next_id w # live w, next_id := next_id w + 1\<rparr>)"
    unfolding httpc_calloc_def by (auto split: list.splits bool.splits)
  then show ?thesis by (rule ok)
qed

lemma httpc_calloc_plan_Nil [simp]:
  "alloc_plan w = [] \<Longrightarrow> httpc_calloc x w =
     (Some (next_id w, x), w\<lparr>live := next_id w # live w, next_id := next_id w + 1\<rparr>)"
  by (simp add: httpc_calloc_def)

lemma safe_free_None [simp]: "safe_free None w = Inr (None, w)"
  by (simp add: safe_free_def)

lemma safe_free_live:
  "i \<in> set (live w) \<Longrightarrow> safe_free (Some (i, x)) w = Inr (None, w\<lparr>live := remove1 i (live w)\<rparr>)"
  by (simp add: safe_free_def)

lemma safe_free_dead: "i \<notin> set (live w) \<Longrightarrow> safe_free (Some (i, x)) w = Inl Bad_Free"
  by (simp add: safe_free_def)

section \<open>A concrete environment\<close>

text \<open>
  An environment in which every call succeeds, and a process that holds nothing; the
  witnesses instantiate the parameters with them.
\<close>

definition ext_up :: ext where
  "ext_up =
     \<lparr>x_socket = 3, x_inet_pton = (\<lambda>s. (1, 2130706433)), x_connect = (\<lambda>fd sa. 0),
      x_getaddrinfo = (\<lambda>h p. (0, [\<lparr>ai_family = AF_INET6, ai_addr = (0, 80)\<rparr>,
                                   \<lparr>ai_family = AF_INET, ai_addr = (16909060, 80)\<rparr>])),
      x_getsockopt_error = (\<lambda>fd. (0, 0)), x_crt_parse = (\<lambda>s n. 0), x_handshake = (\<lambda>t. 0),
      x_verify_result = (\<lambda>t. 0), x_fcntl_getfl = (\<lambda>fd. 2), x_fcntl_setfl = (\<lambda>fd fl. 0),
      x_session_client_new = 0\<rparr>"

definition world_init :: world where
  "world_init =
     \<lparr>rx = [], tx_plan = [], sent = [], alloc_plan = [], live = [], next_id = 0,
      open_fds = [], calls = []\<rparr>"

text \<open>The socket descriptor of \<open>ext_up\<close> in a client whose other fields are zero.\<close>

definition client_up :: httpc where
  "client_up = httpc_zero\<lparr>socket := 3\<rparr>"

lemmas demo_defs = ext_up_def world_init_def client_up_def httpc_zero_def

end
