(* ===== verification/Httpc_Transport.thy ===== *)
theory Httpc_Transport
  imports Httpc_World
begin

text \<open>
  Sending and receiving on a connection (\<open>httpc_send\<close>, \<open>httpc_recv\<close>, \<open>httpc_send_header\<close>,
  \<open>httpc_send_data\<close>), the reset of the header buffer, and the interface of a byte stream that
  the reading operations rely on.
\<close>

section \<open>The operations\<close>

text \<open>
  The socket and the TLS session are the two transports. Going through the TLS context
  when there is none dereferences a null pointer.
\<close>

definition transport_ready :: "httpc \<Rightarrow> bool" where
  "transport_ready c \<longleftrightarrow> 0 \<le> socket c \<and> (enable_mbedtls c \<longrightarrow> mbedtls_ctx c \<noteq> None)"

definition httpc_send :: "httpc option \<Rightarrow> block option \<Rightarrow> int \<Rightarrow> world \<Rightarrow> (int \<times> world) res" where
  "httpc_send h b sz w =
     (case (h, b) of
        (Some c, Some bs) \<Rightarrow>
          (if socket c < 0 then Inr (HTTPC_ERR_PARAM, w)
           else if enable_mbedtls c \<and> mbedtls_ctx c = None then Inl Null_Deref
           else res_bind (get_bytes bs 0 (size_t_of sz)) (\<lambda>ds. Inr (conn_write ds w)))
      | _ \<Rightarrow> Inr (HTTPC_ERR_PARAM, w))"

text \<open>
  \<open>httpc_recv\<close> for a client that is not null: the bytes delivered. The caller's buffer is
  written by \<open>httpc_recv\<close> itself; the single local byte of \<open>httpc_read_one_line\<close> takes
  the delivered byte directly.
\<close>

definition httpc_recv_data :: "httpc \<Rightarrow> nat \<Rightarrow> world \<Rightarrow> (int \<times> string \<times> world) res" where
  "httpc_recv_data c n w =
     (if socket c < 0 then Inr (HTTPC_ERR_PARAM, [], w)
      else if enable_mbedtls c \<and> mbedtls_ctx c = None then Inl Null_Deref
      else Inr (conn_read n w))"

definition httpc_recv ::
  "httpc option \<Rightarrow> block option \<Rightarrow> int \<Rightarrow> world \<Rightarrow> (int \<times> block option \<times> world) res" where
  "httpc_recv h b sz w =
     (case (h, b) of
        (Some c, Some bs) \<Rightarrow>
          res_bind (httpc_recv_data c (size_t_of sz) w) (\<lambda>(r, ds, w').
          res_bind (put_bytes bs 0 ds) (\<lambda>bs'.
          Inr (r, Some bs', w')))
      | _ \<Rightarrow> Inr (HTTPC_ERR_PARAM, b, w))"

text \<open>Both senders print the buffer with \<open>%s\<close> first, so it has to hold a terminator.\<close>

definition httpc_send_header :: "httpc option \<Rightarrow> world \<Rightarrow> (int \<times> world) res" where
  "httpc_send_header h w =
     (case h of
        None \<Rightarrow> Inr (HTTPC_ERR_PARAM, w)
      | Some c \<Rightarrow>
          (case header_node c of
             None \<Rightarrow> Inr (HTTPC_ERR_PARAM, w)
           | Some node \<Rightarrow>
               (case buf node of
                  None \<Rightarrow> Inr (HTTPC_ERR_PARAM, w)
                | Some b \<Rightarrow>
                    res_bind (str_at b 0) (\<lambda>_. httpc_send (Some c) (Some b) (buf_used node) w))))"

definition httpc_send_data ::
  "httpc option \<Rightarrow> block option \<Rightarrow> int \<Rightarrow> world \<Rightarrow> (int \<times> world) res" where
  "httpc_send_data h b sz w =
     (case (h, b) of
        (Some c, Some bs) \<Rightarrow> res_bind (str_at bs 0) (\<lambda>_. httpc_send (Some c) (Some bs) sz w)
      | _ \<Rightarrow> Inr (HTTPC_ERR_PARAM, w))"

definition httpc_mem_node_reset :: "mem_node option \<Rightarrow> mem_node option res" where
  "httpc_mem_node_reset n =
     (case n of
        None \<Rightarrow> Inr None
      | Some node \<Rightarrow>
          (case buf node of
             None \<Rightarrow> Inl Null_Deref
           | Some b \<Rightarrow>
               res_bind (put_bytes b 0 (replicate (size_t_of (buf_len node)) NUL)) (\<lambda>b'.
               Inr (Some (node\<lparr>buf := Some b', buf_used := 0\<rparr>)))))"

section \<open>The byte-stream interface\<close>

text \<open>
  What the reading operations need of a transport: a read never hands over more than asked
  for, returns the number of bytes when there are any and a value that is not positive
  otherwise; while the stream is intact (\<open>good\<close>) and not exhausted a read hands over the
  next bytes of it.
\<close>

locale byte_stream =
  fixes rcv :: "nat \<Rightarrow> 'w \<Rightarrow> (int \<times> string \<times> 'w) res"
    and pending :: "'w \<Rightarrow> string"
    and good :: "'w \<Rightarrow> bool"
  assumes rcv_total: "\<exists>r ds w'. rcv n w = Inr (r, ds, w')"
    and rcv_bound: "rcv n w = Inr (r, ds, w') \<Longrightarrow> length ds \<le> n"
    and rcv_count: "rcv n w = Inr (r, ds, w') \<Longrightarrow> ds \<noteq> [] \<Longrightarrow> r = int (length ds)"
    and rcv_empty: "rcv n w = Inr (r, [], w') \<Longrightarrow> r \<le> 0"
    and rcv_progress: "good w \<Longrightarrow> pending w \<noteq> [] \<Longrightarrow> 0 < n \<Longrightarrow> rcv n w = Inr (r, ds, w') \<Longrightarrow>
           ds \<noteq> [] \<and> good w' \<and> pending w = ds @ pending w'"
begin

lemma rcv_one_positive:
  assumes "rcv 1 w = Inr (r, ds, w')" and "0 < r"
  shows "\<exists>c. ds = [c] \<and> r = 1"
proof -
  have "ds \<noteq> []" using assms rcv_empty by fastforce
  moreover have "length ds \<le> 1" using assms(1) rcv_bound by blast
  ultimately obtain c where "ds = [c]" by (cases ds) auto
  then show ?thesis using assms rcv_count by fastforce
qed

lemma rcv_one_good:
  assumes "good w" and "pending w = c # s"
  shows "\<exists>w'. rcv 1 w = Inr (1, [c], w') \<and> pending w' = s \<and> good w'"
proof -
  obtain r ds w' where r: "rcv 1 w = Inr (r, ds, w')" using rcv_total by blast
  have p: "ds \<noteq> []" "good w'" "pending w = ds @ pending w'"
    using rcv_progress [OF assms(1) _ _ r] assms(2) by simp_all
  then have "0 < r" using rcv_count [OF r] by simp
  then show ?thesis using rcv_one_positive [OF r] r p assms(2) by auto
qed

end

text \<open>The stream of a connection: the bytes of its events, intact while no read has to fail.\<close>

fun rx_bytes :: "rx_event list \<Rightarrow> string" where
  "rx_bytes [] = []"
| "rx_bytes (Rx_Data d # es) = d @ rx_bytes es"
| "rx_bytes (Rx_Err e # es) = rx_bytes es"

fun rx_intact :: "rx_event list \<Rightarrow> bool" where
  "rx_intact [] \<longleftrightarrow> True"
| "rx_intact (Rx_Data d # es) \<longleftrightarrow> rx_intact es"
| "rx_intact (Rx_Err e # es) \<longleftrightarrow> rx_bytes es = []"

lemma sys_recv_cases:
  "case sys_recv n es of (r, ds, es') \<Rightarrow>
     length ds \<le> n \<and> (ds \<noteq> [] \<longrightarrow> r = int (length ds)) \<and> (ds = [] \<longrightarrow> r \<le> 0) \<and>
     rx_bytes es = ds @ rx_bytes es' \<and>
     (rx_intact es \<and> rx_bytes es \<noteq> [] \<and> 0 < n \<longrightarrow> ds \<noteq> [] \<and> rx_intact es')"
proof (induction n es rule: sys_recv.induct)
  case (1 n)
  show ?case by simp
next
  case (2 n e es)
  show ?case by simp
next
  case (3 n es)
  then show ?case by simp
next
  case (4 n c cs es)
  have "c # cs @ rx_bytes es = (take n (c # cs) @ drop n (c # cs)) @ rx_bytes es"
    by (simp only: append_take_drop_id append_Cons)
  then show ?case by (simp add: min.commute)
qed

lemma sys_recv_facts:
  assumes "sys_recv n es = (r, ds, es')"
  shows "length ds \<le> n" "ds \<noteq> [] \<longrightarrow> r = int (length ds)" "ds = [] \<longrightarrow> r \<le> 0"
    "rx_bytes es = ds @ rx_bytes es'"
    "rx_intact es \<and> rx_bytes es \<noteq> [] \<and> 0 < n \<longrightarrow> ds \<noteq> [] \<and> rx_intact es'"
  using sys_recv_cases [of n es] unfolding assms prod.case by blast+

lemma conn_read_facts:
  assumes "conn_read n w = (r, ds, w')"
  shows "length ds \<le> n" "ds \<noteq> [] \<longrightarrow> r = int (length ds)" "ds = [] \<longrightarrow> r \<le> 0"
    "rx_bytes (rx w) = ds @ rx_bytes (rx w')"
    "rx_intact (rx w) \<and> rx_bytes (rx w) \<noteq> [] \<and> 0 < n \<longrightarrow> ds \<noteq> [] \<and> rx_intact (rx w')"
    "w' = w\<lparr>rx := rx w'\<rparr>"
proof -
  obtain es' where s: "sys_recv n (rx w) = (r, ds, es')" and w': "w' = w\<lparr>rx := es'\<rparr>"
    using assms by (auto simp: conn_read_def split: prod.splits)
  have e: "rx w' = es'" by (simp add: w')
  note f = sys_recv_facts [OF s]
  show "length ds \<le> n" "ds \<noteq> [] \<longrightarrow> r = int (length ds)" "ds = [] \<longrightarrow> r \<le> 0"
    "rx_bytes (rx w) = ds @ rx_bytes (rx w')"
    "rx_intact (rx w) \<and> rx_bytes (rx w) \<noteq> [] \<and> 0 < n \<longrightarrow> ds \<noteq> [] \<and> rx_intact (rx w')"
    unfolding e by (fact f)+
  show "w' = w\<lparr>rx := rx w'\<rparr>" by (simp add: w')
qed

interpretation conn: byte_stream "\<lambda>n w. Inr (conn_read n w)" "\<lambda>w. rx_bytes (rx w)" "\<lambda>w. rx_intact (rx w)"
proof unfold_locales
  fix n r ds and w w' :: world
  show "\<exists>r ds w'. Inr (conn_read n w) = Inr (r, ds, w')"
    by (metis prod_cases3)
  show "r \<le> 0" if "Inr (conn_read n w) = Inr (r, [], w')"
    using that conn_read_facts(3) [of n w r "[]" w'] by simp
  assume "Inr (conn_read n w) = Inr (r, ds, w')"
  then have f: "conn_read n w = (r, ds, w')" by simp
  note facts = conn_read_facts [OF f]
  show "length ds \<le> n" by (fact facts)
  show "r = int (length ds)" if "ds \<noteq> []" using that facts by blast
  show "ds \<noteq> [] \<and> rx_intact (rx w') \<and> rx_bytes (rx w) = ds @ rx_bytes (rx w')"
    if "rx_intact (rx w)" "rx_bytes (rx w) \<noteq> []" "0 < n"
    using that facts by blast
qed

text \<open>
  The same connection, read only up to a given list of later events: the stream is what the
  events in front of them hold, and reading it leaves the later events alone.
\<close>

definition rx_all_data :: "rx_event list \<Rightarrow> bool" where
  "rx_all_data es \<longleftrightarrow> (\<forall>e \<in> set es. \<exists>d. e = Rx_Data d)"

definition seg_good :: "rx_event list \<Rightarrow> world \<Rightarrow> bool" where
  "seg_good post w \<longleftrightarrow> (\<exists>pre. rx w = pre @ post \<and> rx_all_data pre)"

definition seg_pending :: "rx_event list \<Rightarrow> world \<Rightarrow> string" where
  "seg_pending post w = rx_bytes (take (length (rx w) - length post) (rx w))"

lemma rx_all_data_Cons [simp]: "rx_all_data (e # es) \<longleftrightarrow> (\<exists>d. e = Rx_Data d) \<and> rx_all_data es"
  by (auto simp: rx_all_data_def)

lemma rx_all_data_Nil [simp]: "rx_all_data []"
  by (simp add: rx_all_data_def)

lemma sys_recv_prefix:
  "rx_all_data pre \<Longrightarrow> rx_bytes pre \<noteq> [] \<Longrightarrow> 0 < n \<Longrightarrow>
   \<exists>r ds pre'. sys_recv n (pre @ post) = (r, ds, pre' @ post) \<and> ds \<noteq> [] \<and> rx_all_data pre' \<and>
     rx_bytes pre = ds @ rx_bytes pre'"
proof (induction pre)
  case Nil
  then show ?case by simp
next
  case (Cons e pre)
  then obtain d where e: "e = Rx_Data d" by auto
  show ?case
  proof (cases d)
    case Nil
    with Cons e show ?thesis by simp
  next
    case (Cons c cs)
    have "rx_bytes (e # pre) = take n (c # cs) @ drop n (c # cs) @ rx_bytes pre"
      by (simp only: e Cons rx_bytes.simps append_assoc [symmetric] append_take_drop_id)
    then show ?thesis
      using Cons.prems e Cons by (intro exI [of _ "Rx_Data (drop n (c # cs)) # pre"] exI) auto
  qed
qed

lemma sys_recv_skip: "rx_all_data pre \<Longrightarrow> rx_bytes pre = [] \<Longrightarrow> sys_recv n (pre @ post) = sys_recv n post"
  by (induction pre) auto

interpretation seg: byte_stream "\<lambda>n w. Inr (conn_read n w)" "seg_pending post" "seg_good post"
  for post
proof unfold_locales
  fix n r ds and w w' :: world
  show "\<exists>r ds w'. Inr (conn_read n w) = Inr (r, ds, w')"
    by (metis prod_cases3)
  show "r \<le> 0" if "Inr (conn_read n w) = Inr (r, [], w')"
    using that conn_read_facts(3) [of n w r "[]" w'] by simp
  assume e: "Inr (conn_read n w) = Inr (r, ds, w')"
  then have f: "conn_read n w = (r, ds, w')" by simp
  show "length ds \<le> n" by (rule conn_read_facts [OF f])
  show "r = int (length ds)" if "ds \<noteq> []" using that conn_read_facts [OF f] by blast
  show "ds \<noteq> [] \<and> seg_good post w' \<and> seg_pending post w = ds @ seg_pending post w'"
    if g: "seg_good post w" and ne: "seg_pending post w \<noteq> []" and n: "0 < n"
  proof -
    obtain pre where pre: "rx w = pre @ post" "rx_all_data pre" using g by (auto simp: seg_good_def)
    then have sp: "seg_pending post w = rx_bytes pre" by (simp add: seg_pending_def)
    then obtain r' ds' pre' where s: "sys_recv n (pre @ post) = (r', ds', pre' @ post)" "ds' \<noteq> []"
      "rx_all_data pre'" "rx_bytes pre = ds' @ rx_bytes pre'"
      using sys_recv_prefix [OF pre(2) _ n, of post] ne by auto
    then have "ds = ds'" "rx w' = pre' @ post" using e by (auto simp: conn_read_def pre)
    then show ?thesis using s sp by (auto simp: seg_good_def seg_pending_def)
  qed
qed

lemma httpc_recv_data_ready:
  "transport_ready c \<Longrightarrow> httpc_recv_data c = (\<lambda>n w. Inr (conn_read n w))"
  by (auto simp: httpc_recv_data_def transport_ready_def fun_eq_iff)

end
