(* ===== verification/Httpc_Uri.thy ===== *)
theory Httpc_Uri
  imports Httpc_Transport
begin

text \<open>
  Parsing the request address and connecting: \<open>httpc_ipv4_address_check\<close> and
  \<open>httpc_parse_uri\<close>. Caller strings (the address, the port) are values without the
  terminating zero; the local arrays and the allocated strings are blocks.
\<close>

section \<open>Literal IPv4 addresses\<close>

definition ipv4_bad_token :: "string \<Rightarrow> bool" where
  "ipv4_bad_token tok \<longleftrightarrow> (atoi tok = 0 \<and> \<not> strncmp_eq ''0'' tok 1) \<or> 255 < atoi tok"

function ipv4_token_loop :: "string \<Rightarrow> nat \<Rightarrow> nat" where
  "ipv4_token_loop s index =
     (case strtok_next CHR ''.'' s of
        None \<Rightarrow> index
      | Some (tok, rest) \<Rightarrow>
          (if ipv4_bad_token tok then 0 else ipv4_token_loop rest (index + 1)))"
  by pat_completeness auto
termination
  by (relation "measure (\<lambda>(s, index). length s)") (auto dest: strtok_next_shorter)

declare ipv4_token_loop.simps [simp del]

definition is_port_digit :: "char \<Rightarrow> bool" where
  "is_port_digit c \<longleftrightarrow> \<not> ((of_char c :: nat) < 48 \<or> 57 < (of_char c :: nat))"

text \<open>The two local arrays: \<open>ip_addr\<close> of 16 bytes and \<open>ip_port\<close> of 6, both zeroed.\<close>

definition ipv4_split :: "string \<Rightarrow> (block \<times> block) res" where
  "ipv4_split u =
     (let ip_addr = replicate 16 NUL; ip_port = replicate 6 NUL
      in case strstr u '':'' of
           Some k \<Rightarrow>
             res_bind (strncpy ip_addr u k) (\<lambda>ip_addr.
             (let ptr = drop (k + 1) u
              in if length ptr \<le> 5
                 then res_bind (strncpy ip_port ptr (length ptr)) (\<lambda>ip_port. Inr (ip_addr, ip_port))
                 else Inr (ip_addr, ip_port)))
         | None \<Rightarrow> res_bind (strncpy ip_addr u (length u)) (\<lambda>ip_addr. Inr (ip_addr, ip_port)))"

definition httpc_ipv4_address_check ::
  "string option \<Rightarrow> block \<Rightarrow> block \<Rightarrow> (int \<times> block \<times> block) res" where
  "httpc_ipv4_address_check uri addr port =
     (case uri of
        None \<Rightarrow> Inr (HTTPC_ERR_PARAM, addr, port)
      | Some u \<Rightarrow>
          if 15 + 5 + 1 < length u then Inr (HTTPC_ERR_PARAM, addr, port)
          else
            res_bind (ipv4_split u) (\<lambda>(ip_addr, ip_port).
            res_bind (str_at ip_addr 0) (\<lambda>ip_str.
            res_bind (strncpy addr ip_str (length ip_str)) (\<lambda>addr.
            res_bind (str_at ip_port 0) (\<lambda>port_str.
            res_bind (if list_all is_port_digit port_str
                      then strncpy port port_str (length port_str)
                      else put_byte port 0 NUL) (\<lambda>port.
            res_bind (str_at addr 0) (\<lambda>_.
            res_bind (str_at port 0) (\<lambda>_.
            Inr (if ipv4_token_loop ip_str 0 = 4 then HTTPC_ERR_OK else HTTPC_ERR_FAIL,
                 addr, port)))))))))"

section \<open>Parsing the address and connecting\<close>

text \<open>The label \<open>exit\<close>: both strings are freed and the code is returned.\<close>

definition parse_uri_exit :: "httpc \<Rightarrow> int \<Rightarrow> world \<Rightarrow> (int \<times> httpc option \<times> world) res" where
  "parse_uri_exit c ret w =
     res_bind (safe_free (path c) w) (\<lambda>(p, w).
     res_bind (safe_free (host c) w) (\<lambda>(h, w).
     Inr (ret, Some (c\<lparr>path := p, host := h\<rparr>), w)))"

text \<open>The loop over the resolver's answers: it ends with the first successful connection.\<close>

fun dns_connect_loop :: "ext \<Rightarrow> int \<Rightarrow> addrinfo list \<Rightarrow> world \<Rightarrow> world" where
  "dns_connect_loop X fd [] w = w"
| "dns_connect_loop X fd (a # as) w =
     (if ai_family a = AF_INET then
        (let w' = log_call (Sys_connect fd (ai_addr a)) w
         in if x_connect X fd (ai_addr a) = 0 then w' else dns_connect_loop X fd as w')
      else dns_connect_loop X fd as w)"

definition connect_literal ::
  "ext \<Rightarrow> httpc \<Rightarrow> string \<Rightarrow> block \<Rightarrow> string option \<Rightarrow> world \<Rightarrow> (int \<times> httpc option \<times> world) res" where
  "connect_literal X c ipv4_addr ipv4_port port w =
     res_bind (get_byte ipv4_port 0) (\<lambda>p0.
     res_bind (if p0 = NUL
               then (case port of None \<Rightarrow> Inl Null_Deref | Some p \<Rightarrow> Inr (atoi p))
               else res_bind (str_at ipv4_port 0) (\<lambda>p. Inr (atoi p))) (\<lambda>n.
     (case x_inet_pton X ipv4_addr of
        (ret, ip) \<Rightarrow>
          if ret \<le> 0 then Inl Bad_Format
          else
            (let sa = (ip, n mod 2 ^ 16);
                 w = log_call (Sys_connect (socket c) sa) w
             in if x_connect X (socket c) sa = 0 then Inr (HTTPC_ERR_OK, Some c, w)
                else parse_uri_exit c HTTPC_ERR_FAIL w))))"

definition connect_by_name ::
  "ext \<Rightarrow> httpc \<Rightarrow> string \<Rightarrow> string option \<Rightarrow> world \<Rightarrow> (int \<times> httpc option \<times> world) res" where
  "connect_by_name X c hs port w =
     (case x_getaddrinfo X hs port of
        (ret, result) \<Rightarrow>
          (let w = log_call (Sys_getaddrinfo hs port) w
           in if ret < 0 then parse_uri_exit c HTTPC_ERR_FAIL w
              else Inr (HTTPC_ERR_OK, Some c, dns_connect_loop X (socket c) result w)))"

definition parse_uri_connect ::
  "ext \<Rightarrow> httpc \<Rightarrow> block \<Rightarrow> string option \<Rightarrow> world \<Rightarrow> (int \<times> httpc option \<times> world) res" where
  "parse_uri_connect X c hb port w =
     res_bind (str_at hb 0) (\<lambda>hs.
     res_bind (httpc_ipv4_address_check (Some hs) (replicate 24 NUL) (replicate 12 NUL))
       (\<lambda>(ret, ipv4_addr, ipv4_port).
     if ret = HTTPC_ERR_OK
     then res_bind (str_at ipv4_addr 0) (\<lambda>a. connect_literal X c a ipv4_port port w)
     else connect_by_name X c hs port w))"

text \<open>Splitting what follows the scheme at its first slash into host and path.\<close>

definition parse_uri_split ::
  "ext \<Rightarrow> httpc \<Rightarrow> string \<Rightarrow> string option \<Rightarrow> world \<Rightarrow> (int \<times> httpc option \<times> world) res" where
  "parse_uri_split X c host_ptr port w =
     (let path_ptr = strstr host_ptr ''/'';
          len = (case path_ptr of None \<Rightarrow> length host_ptr + 1 | Some k \<Rightarrow> k + 1);
          c = c\<lparr>host := None\<rparr>
      in case httpc_calloc (replicate len NUL) w of
           (None, w) \<Rightarrow> parse_uri_exit c HTTPC_ERR_MEM w
         | (Some (i, b), w) \<Rightarrow>
             res_bind (snprintf_str b len host_ptr) (\<lambda>hb.
             (let c = c\<lparr>host := Some (i, hb), path := None\<rparr>;
                  p = (case path_ptr of None \<Rightarrow> ''/'' | Some k \<Rightarrow> drop k host_ptr);
                  len = (case path_ptr of None \<Rightarrow> 2 | Some k \<Rightarrow> length (drop k host_ptr) + 1)
              in case httpc_calloc (replicate len NUL) w of
                   (None, w) \<Rightarrow> parse_uri_exit c HTTPC_ERR_MEM w
                 | (Some (j, b), w) \<Rightarrow>
                     res_bind (snprintf_str b len p) (\<lambda>pb.
                     parse_uri_connect X (c\<lparr>path := Some (j, pb)\<rparr>) hb port w))))"

definition httpc_parse_uri ::
  "ext \<Rightarrow> httpc option \<Rightarrow> string option \<Rightarrow> string option \<Rightarrow> world \<Rightarrow>
   (int \<times> httpc option \<times> world) res" where
  "httpc_parse_uri X h uri port w =
     (case h of
        None \<Rightarrow> Inl Null_Deref
      | Some c \<Rightarrow>
          (case uri of
             None \<Rightarrow> parse_uri_exit c HTTPC_ERR_PARAM w
           | Some u \<Rightarrow>
               if strncmp_eq u ''http://'' 7
               then parse_uri_split X (c\<lparr>enable_mbedtls := False\<rparr>) (drop 7 u) port w
               else if strncmp_eq u ''https://'' 8
               then parse_uri_split X (c\<lparr>enable_mbedtls := True\<rparr>) (drop 8 u) port w
               else parse_uri_exit c HTTPC_ERR_PARAM w))"

section \<open>Facts about the literal-address check\<close>

text \<open>The part of the address in front of the first colon, and what follows it.\<close>

definition host_part :: "string \<Rightarrow> string" where
  "host_part u = takeWhile (\<lambda>c. c \<noteq> CHR '':'') u"

definition port_part :: "string \<Rightarrow> string" where
  "port_part u = drop (length (host_part u) + 1) u"

lemma strstr_colon:
  "strstr u '':'' = (if CHR '':'' \<in> set u then Some (length (host_part u)) else None)"
  by (simp add: strstr_char host_part_def)

lemma host_part_no_colon: "CHR '':'' \<notin> set u \<Longrightarrow> host_part u = u"
  by (simp add: host_part_def split_at_char)

lemma host_part_take: "take (length (host_part u)) u = host_part u"
  unfolding host_part_def by (metis takeWhile_eq_take)

lemma host_part_le: "length (host_part u) \<le> length u"
  by (simp add: host_part_def length_takeWhile_le)

lemma nul_free_host_part: "nul_free u \<Longrightarrow> nul_free (host_part u)"
  by (metis host_part_take nul_free_take)

lemma nul_free_port_part: "nul_free u \<Longrightarrow> nul_free (port_part u)"
  by (simp add: nul_free_drop port_part_def)

text \<open>The port the check keeps: up to five characters.\<close>

definition port_kept :: "string \<Rightarrow> string" where
  "port_kept u = (if CHR '':'' \<in> set u \<and> length (port_part u) \<le> 5 then port_part u else [])"

lemma port_kept_le: "length (port_kept u) \<le> 5"
  by (simp add: port_kept_def)

lemma nul_free_port_kept: "nul_free u \<Longrightarrow> nul_free (port_kept u)"
  by (simp add: nul_free_port_part port_kept_def)

lemma ipv4_split_eq:
  assumes "nul_free u"
  shows "ipv4_split u =
    (if length (host_part u) \<le> 16
     then Inr (host_part u @ replicate (16 - length (host_part u)) NUL,
               port_kept u @ replicate (6 - length (port_kept u)) NUL)
     else Inl Out_Of_Bounds)"
proof (cases "CHR '':'' \<in> set u")
  case True
  have k: "strncpy (replicate 16 NUL) u (length (host_part u)) =
      (if length (host_part u) \<le> 16
       then Inr (host_part u @ replicate (16 - length (host_part u)) NUL) else Inl Out_Of_Bounds)"
    using strncpy_ok [OF assms host_part_le, of "replicate 16 NUL"]
    by (simp add: strncpy_overflow host_part_take)
  have p: "strncpy (replicate 6 NUL) (port_part u) (length (port_part u)) =
      Inr (port_part u @ replicate (6 - length (port_part u)) NUL)" if "length (port_part u) \<le> 5"
    using that strncpy_all [OF nul_free_port_part [OF assms] refl, of "replicate 6 NUL"] by simp
  have "ipv4_split u = res_bind (strncpy (replicate 16 NUL) u (length (host_part u))) (\<lambda>ip_addr.
      if length (port_part u) \<le> 5
      then res_bind (strncpy (replicate 6 NUL) (port_part u) (length (port_part u)))
             (\<lambda>ip_port. Inr (ip_addr, ip_port))
      else Inr (ip_addr, replicate 6 NUL))"
    using True by (simp only: ipv4_split_def strstr_colon Let_def if_True option.case port_part_def)
  then show ?thesis
    using True p by (simp add: k port_kept_def)
next
  case False
  have k: "strncpy (replicate 16 NUL) u (length u) =
      (if length u \<le> 16 then Inr (u @ replicate (16 - length u) NUL) else Inl Out_Of_Bounds)"
    using strncpy_all [OF assms refl, of "replicate 16 NUL"] by (simp add: strncpy_overflow)
  show ?thesis
    using False by (simp add: ipv4_split_def strstr_colon k port_kept_def host_part_no_colon)
qed

lemma str_at_padded: "nul_free s \<Longrightarrow> 0 < n \<Longrightarrow> str_at (s @ replicate n NUL) 0 = Inr s"
  by (cases n) (simp_all add: str_at_here)

lemma str_at_unterminated: "nul_free s \<Longrightarrow> str_at s 0 = Inl Out_Of_Bounds"
  by (simp add: str_at_def nul_free_def)

text \<open>The whole check, as one equation.\<close>

lemma ipv4_check_eq:
  assumes u: "nul_free u"
  shows "httpc_ipv4_address_check (Some u) (replicate 24 NUL) (replicate 12 NUL) =
    (if 21 < length u then Inr (HTTPC_ERR_PARAM, replicate 24 NUL, replicate 12 NUL)
     else if 16 \<le> length (host_part u) then Inl Out_Of_Bounds
     else Inr (if ipv4_token_loop (host_part u) 0 = 4 then HTTPC_ERR_OK else HTTPC_ERR_FAIL,
               host_part u @ replicate (24 - length (host_part u)) NUL,
               if list_all is_port_digit (port_kept u)
               then port_kept u @ replicate (12 - length (port_kept u)) NUL
               else replicate 12 NUL))"
proof (cases "21 < length u")
  case True
  then show ?thesis by (simp add: httpc_ipv4_address_check_def)
next
  case False
  note hf = nul_free_host_part [OF u] and pf = nul_free_port_kept [OF u]
  show ?thesis
  proof (cases "16 \<le> length (host_part u)")
    case True
    then have "length (host_part u) \<noteq> 16 \<Longrightarrow> ipv4_split u = Inl Out_Of_Bounds"
      by (simp add: ipv4_split_eq [OF u])
    moreover have "length (host_part u) = 16 \<Longrightarrow> str_at (host_part u) 0 = Inl Out_Of_Bounds"
      by (rule str_at_unterminated [OF hf])
    ultimately show ?thesis
      using False True by (auto simp: httpc_ipv4_address_check_def ipv4_split_eq [OF u])
  next
    case short: False
    then have h16: "length (host_part u) \<le> 16" by simp
    have a: "strncpy (replicate 24 NUL) (host_part u) (length (host_part u)) =
        Inr (host_part u @ replicate (24 - length (host_part u)) NUL)"
      using short strncpy_all [OF hf refl, of "replicate 24 NUL"] by simp
    have p: "strncpy (replicate 12 NUL) (port_kept u) (length (port_kept u)) =
        Inr (port_kept u @ replicate (12 - length (port_kept u)) NUL)"
      using port_kept_le [of u] strncpy_all [OF pf refl, of "replicate 12 NUL"] by simp
    have z: "put_byte (replicate 12 NUL) 0 NUL = Inr (replicate 12 NUL)"
      by (simp add: put_byte_def numeral_eq_Suc)
    have s12: "str_at (replicate 12 NUL) 0 = Inr []"
      by (simp add: str_at_def cstr_def numeral_eq_Suc)
    have "str_at (host_part u @ replicate (16 - length (host_part u)) NUL) 0 = Inr (host_part u)"
      "str_at (host_part u @ replicate (24 - length (host_part u)) NUL) 0 = Inr (host_part u)"
      "str_at (port_kept u @ replicate (6 - length (port_kept u)) NUL) 0 = Inr (port_kept u)"
      "str_at (port_kept u @ replicate (12 - length (port_kept u)) NUL) 0 = Inr (port_kept u)"
      using short port_kept_le [of u] by (simp_all add: str_at_padded hf pf)
    then show ?thesis
      using False short h16 by (simp add: httpc_ipv4_address_check_def ipv4_split_eq [OF u] a p z s12)
  qed
qed


text \<open>Dotted-quad notation, the reference the check is compared with.\<close>

definition dotted_quad :: "nat \<Rightarrow> nat \<Rightarrow> nat \<Rightarrow> nat \<Rightarrow> string" where
  "dotted_quad a b c d =
     show_base 10 a @ CHR ''.'' # show_base 10 b @ CHR ''.'' # show_base 10 c @ CHR ''.'' # show_base 10 d"

lemma octet_not_bad: "n \<le> 255 \<Longrightarrow> \<not> ipv4_bad_token (show_base 10 n)"
proof -
  assume n: "n \<le> 255"
  have "atoi (show_base 10 n @ []) = int n" using n by (intro atoi_show) auto
  moreover have "strncmp_eq ''0'' (show_base 10 0) 1"
    by (simp add: show_base.simps strncmp_eq_def cstr_def digit_char_0)
  ultimately show ?thesis using n by (cases "n = 0") (auto simp: ipv4_bad_token_def)
qed

lemma token_loop_octet:
  "n \<le> 255 \<Longrightarrow> ipv4_token_loop (show_base 10 n @ CHR ''.'' # r) i = ipv4_token_loop r (Suc i)"
  using strtok_next_token [OF show_base_not_Nil show_base_chars(2), of 10 n r]
  by (subst ipv4_token_loop.simps) (simp add: octet_not_bad)

lemma token_loop_last: "n \<le> 255 \<Longrightarrow> ipv4_token_loop (show_base 10 n) i = Suc i"
  using strtok_next_last [OF show_base_not_Nil show_base_chars(2), of 10 n]
  by (subst ipv4_token_loop.simps) (simp add: octet_not_bad ipv4_token_loop.simps [of "[]"])

lemma token_loop_quad:
  "a \<le> 255 \<Longrightarrow> b \<le> 255 \<Longrightarrow> c \<le> 255 \<Longrightarrow> d \<le> 255 \<Longrightarrow>
   ipv4_token_loop (dotted_quad a b c d) 0 = 4"
  by (simp add: dotted_quad_def token_loop_octet token_loop_last)

lemma show_base_length_octet: "n \<le> 255 \<Longrightarrow> length (show_base 10 n) \<le> 3"
proof -
  assume n: "n \<le> 255"
  have "n div 10 div 10 < 10" using n by simp
  then show ?thesis
    using show_base.simps [of 10 n] show_base.simps [of 10 "n div 10"]
      show_base.simps [of 10 "n div 10 div 10"] by auto
qed

lemma dotted_quad_facts:
  assumes "a \<le> 255" "b \<le> 255" "c \<le> 255" "d \<le> 255"
  shows "length (dotted_quad a b c d) \<le> 15" "CHR '':'' \<notin> set (dotted_quad a b c d)"
    "nul_free (dotted_quad a b c d)"
  using show_base_length_octet [OF assms(1)] show_base_length_octet [OF assms(2)]
    show_base_length_octet [OF assms(3)] show_base_length_octet [OF assms(4)]
  by (simp_all add: dotted_quad_def show_base_chars)

lemma is_port_digit_show: "list_all is_port_digit (show_base 10 n)"
  unfolding list_all_iff
proof
  fix c assume "c \<in> set (show_base 10 n)"
  then obtain d where "d < 10" "c = digit_char d" using show_base_digits [of 10 c n] by auto
  then show "is_port_digit c" by (simp add: is_port_digit_def digit_char_def)
qed

text \<open>
  A name of 16 to 21 characters overruns the local array.
\<close>

theorem ipv4_check_fault_iff:
  "nul_free u \<Longrightarrow>
   (\<exists>e. httpc_ipv4_address_check (Some u) (replicate 24 NUL) (replicate 12 NUL) = Inl e) \<longleftrightarrow>
   length u \<le> 21 \<and> 16 \<le> length (takeWhile (\<lambda>c. c \<noteq> CHR '':'') u)"
  by (auto simp: ipv4_check_eq host_part_def [symmetric])

theorem ipv4_check_fault_iff_witness:
  "\<exists>e. httpc_ipv4_address_check (Some ''raw.example-host.org'') (replicate 24 NUL) (replicate 12 NUL) = Inl e"
  by (subst ipv4_check_fault_iff) simp_all

lemma ipv4_check_accepts_quad:
  assumes "a \<le> 255" "b \<le> 255" "c \<le> 255" "d \<le> 255" and "length (show_base 10 p) \<le> 5"
  shows "httpc_ipv4_address_check (Some (dotted_quad a b c d @ '':'' @ show_base 10 p))
           (replicate 24 NUL) (replicate 12 NUL) =
         Inr (HTTPC_ERR_OK,
              dotted_quad a b c d @ replicate (24 - length (dotted_quad a b c d)) NUL,
              show_base 10 p @ replicate (12 - length (show_base 10 p)) NUL)"
proof -
  let ?q = "dotted_quad a b c d"
  let ?u = "?q @ CHR '':'' # show_base 10 p"
  note q = dotted_quad_facts [OF assms(1-4)]
  have "nul_free ?u" using q by (simp add: show_base_chars)
  moreover have h: "host_part ?u = ?q" using q by (simp add: host_part_def split_at_char)
  moreover have "port_kept ?u = show_base 10 p" using assms(5) by (simp add: port_kept_def port_part_def h)
  moreover have "length ?u \<le> 21" using q assms(5) by simp
  ultimately show ?thesis
    using q by (simp add: ipv4_check_eq [of ?u] token_loop_quad assms is_port_digit_show)
qed


section \<open>Facts about the parser\<close>

definition uri_host :: "string \<Rightarrow> string" where
  "uri_host hp = takeWhile (\<lambda>c. c \<noteq> CHR ''/'') hp"

definition uri_path :: "string \<Rightarrow> string" where
  "uri_path hp = (if CHR ''/'' \<in> set hp then drop (length (uri_host hp)) hp else ''/'')"

lemma uri_host_take: "take (length (uri_host hp)) hp = uri_host hp"
  unfolding uri_host_def by (metis takeWhile_eq_take)

lemma uri_host_append: "CHR ''/'' \<notin> set h \<Longrightarrow> uri_host (h @ CHR ''/'' # r) = h"
  by (simp add: uri_host_def split_at_char)

lemma uri_host_whole: "CHR ''/'' \<notin> set h \<Longrightarrow> uri_host h = h"
  by (simp add: uri_host_def split_at_char)

lemma uri_path_append: "CHR ''/'' \<notin> set h \<Longrightarrow> uri_path (h @ CHR ''/'' # r) = CHR ''/'' # r"
  by (simp add: uri_path_def uri_host_append)

lemma uri_path_whole: "CHR ''/'' \<notin> set h \<Longrightarrow> uri_path h = ''/''"
  by (simp add: uri_path_def)

lemma nul_free_uri [simp]: "nul_free hp \<Longrightarrow> nul_free (uri_host hp)" "nul_free hp \<Longrightarrow> nul_free (uri_path hp)"
  by (metis uri_host_take nul_free_take) (auto simp: uri_path_def)

text \<open>\<open>snprintf\<close> into a block of exactly the needed length copies the whole string.\<close>

lemma snprintf_exact:
  "nul_free s \<Longrightarrow> n \<le> length s \<Longrightarrow> snprintf_str (replicate (n + 1) NUL) (n + 1) s = Inr (take n s @ [NUL])"
  using snprintf_str_fits [of s "replicate (n + 1) NUL" "n + 1"] by simp

text \<open>The parser after the scheme, as a case analysis on its two allocations.\<close>

lemma parse_uri_split_eq:
  assumes hp: "nul_free hp"
  shows "parse_uri_split X c hp port w =
    (case httpc_calloc (replicate (length (uri_host hp) + 1) NUL) w of
       (None, w) \<Rightarrow> parse_uri_exit (c\<lparr>host := None\<rparr>) HTTPC_ERR_MEM w
     | (Some (i, _), w) \<Rightarrow>
         (case httpc_calloc (replicate (length (uri_path hp) + 1) NUL) w of
            (None, w) \<Rightarrow>
              parse_uri_exit (c\<lparr>host := Some (i, uri_host hp @ [NUL]), path := None\<rparr>) HTTPC_ERR_MEM w
          | (Some (j, _), w) \<Rightarrow>
              parse_uri_connect X (c\<lparr>host := Some (i, uri_host hp @ [NUL]),
                                     path := Some (j, uri_path hp @ [NUL])\<rparr>)
                (uri_host hp @ [NUL]) port w))"
proof -
  define path_ptr where "path_ptr = strstr hp ''/''"
  have len: "(case path_ptr of None \<Rightarrow> length hp + 1 | Some k \<Rightarrow> k + 1) = length (uri_host hp) + 1"
    by (simp add: path_ptr_def strstr_char uri_host_def split_at_char)
  have p: "(case path_ptr of None \<Rightarrow> ''/'' | Some k \<Rightarrow> drop k hp) = uri_path hp"
    by (simp add: path_ptr_def strstr_char uri_host_def uri_path_def)
  have plen: "(case path_ptr of None \<Rightarrow> 2 | Some k \<Rightarrow> length (drop k hp) + 1) = length (uri_path hp) + 1"
    by (simp add: path_ptr_def strstr_char uri_host_def uri_path_def)
  have upd: "c\<lparr>host := None, host := x, path := None\<rparr> = c\<lparr>host := x, path := None\<rparr>"
    "c\<lparr>host := x, path := None, path := y\<rparr> = c\<lparr>host := x, path := y\<rparr>" for x y
    by simp_all
  have le: "length (uri_host hp) \<le> length hp" by (simp add: uri_host_def length_takeWhile_le)
  have hb: "snprintf_str (replicate (length (uri_host hp) + 1) NUL) (length (uri_host hp) + 1) hp =
      Inr (uri_host hp @ [NUL])"
    using snprintf_exact [OF hp le] by (simp add: uri_host_take)
  have pb: "snprintf_str (replicate (length (uri_path hp) + 1) NUL) (length (uri_path hp) + 1) (uri_path hp) =
      Inr (uri_path hp @ [NUL])"
    using snprintf_exact [of "uri_path hp" "length (uri_path hp)"] hp by simp
  have eq: "parse_uri_split X c hp port w =
     (case httpc_calloc (replicate (length (uri_host hp) + 1) NUL) w of
           (None, w) \<Rightarrow> parse_uri_exit (c\<lparr>host := None\<rparr>) HTTPC_ERR_MEM w
         | (Some (i, b), w) \<Rightarrow>
             res_bind (snprintf_str b (length (uri_host hp) + 1) hp) (\<lambda>hb.
             (case httpc_calloc (replicate (length (uri_path hp) + 1) NUL) w of
                   (None, w) \<Rightarrow> parse_uri_exit (c\<lparr>host := Some (i, hb), path := None\<rparr>) HTTPC_ERR_MEM w
                 | (Some (j, b), w) \<Rightarrow>
                     res_bind (snprintf_str b (length (uri_path hp) + 1) (uri_path hp)) (\<lambda>pb.
                     parse_uri_connect X (c\<lparr>host := Some (i, hb), path := Some (j, pb)\<rparr>) hb port w))))"
    unfolding parse_uri_split_def Let_def path_ptr_def [symmetric] len p plen upd by (rule refl)
  show ?thesis
  proof (cases rule: httpc_calloc_cases [of w "replicate (length (uri_host hp) + 1) NUL"])
    case (fail ps)
    then show ?thesis by (simp add: eq)
  next
    case ok
    show ?thesis
      by (cases rule: httpc_calloc_cases [of "w\<lparr>alloc_plan := tl (alloc_plan w),
            live := next_id w # live w, next_id := next_id w + 1\<rparr>"
            "replicate (length (uri_path hp) + 1) NUL"])
        (simp_all add: eq ok [simplified] hb [simplified] pb [simplified])
  qed
qed


text \<open>Connecting changes neither the heap nor the descriptors, or runs the exit path.\<close>

definition same_resources :: "world \<Rightarrow> world \<Rightarrow> bool" where
  "same_resources w w' \<longleftrightarrow>
     live w' = live w \<and> next_id w' = next_id w \<and> open_fds w' = open_fds w \<and>
     alloc_plan w' = alloc_plan w \<and> rx w' = rx w \<and> tx_plan w' = tx_plan w \<and> sent w' = sent w"

lemma same_resources_refl [simp]: "same_resources w w"
  by (simp add: same_resources_def)

lemma same_resources_log [simp]: "same_resources w (log_call c w') \<longleftrightarrow> same_resources w w'"
  by (simp add: same_resources_def)

lemma dns_connect_loop_resources: "same_resources w0 w \<Longrightarrow> same_resources w0 (dns_connect_loop X fd as w)"
  by (induction as arbitrary: w) (auto simp: Let_def)

lemma connect_literal_cases:
  assumes "connect_literal X c a pb port w = Inr (ret, c', w')"
  shows "(ret = HTTPC_ERR_OK \<and> c' = Some c \<and> same_resources w w') \<or>
    (\<exists>w1. same_resources w w1 \<and> parse_uri_exit c HTTPC_ERR_FAIL w1 = Inr (ret, c', w'))"
proof -
  obtain n r ip where r: "x_inet_pton X a = (r, ip)" "0 < r"
    and e: "(let sa = (ip, n mod 2 ^ 16); w = log_call (Sys_connect (socket c) sa) w
             in if x_connect X (socket c) sa = 0 then Inr (HTTPC_ERR_OK, Some c, w)
                else parse_uri_exit c HTTPC_ERR_FAIL w) = Inr (ret, c', w')"
    using assms by (auto simp: connect_literal_def not_le split: prod.splits if_splits)
  show ?thesis
  proof (cases "x_connect X (socket c) (ip, n mod 2 ^ 16) = 0")
    case True
    with e show ?thesis by (auto simp: Let_def)
  next
    case False
    with e have "parse_uri_exit c HTTPC_ERR_FAIL (log_call (Sys_connect (socket c) (ip, n mod 2 ^ 16)) w) =
        Inr (ret, c', w')"
      by (simp add: Let_def)
    then show ?thesis by (intro disjI2 exI conjI) simp_all
  qed
qed

lemma connect_by_name_cases:
  assumes "connect_by_name X c hs port w = Inr (ret, c', w')"
  shows "(ret = HTTPC_ERR_OK \<and> c' = Some c \<and> same_resources w w') \<or>
    (\<exists>w1. same_resources w w1 \<and> parse_uri_exit c HTTPC_ERR_FAIL w1 = Inr (ret, c', w'))"
proof -
  obtain r as where g: "x_getaddrinfo X hs port = (r, as)" by fastforce
  show ?thesis
  proof (cases "r < 0")
    case True
    then have "parse_uri_exit c HTTPC_ERR_FAIL (log_call (Sys_getaddrinfo hs port) w) = Inr (ret, c', w')"
      using assms by (simp add: connect_by_name_def g Let_def)
    then show ?thesis by (intro disjI2 exI conjI) simp_all
  next
    case False
    then show ?thesis
      using assms by (auto simp: connect_by_name_def g Let_def intro: dns_connect_loop_resources)
  qed
qed

lemma parse_uri_connect_cases:
  assumes "parse_uri_connect X c hb port w = Inr (ret, c', w')"
  shows "(ret = HTTPC_ERR_OK \<and> c' = Some c \<and> same_resources w w') \<or>
    (\<exists>w1. same_resources w w1 \<and> parse_uri_exit c HTTPC_ERR_FAIL w1 = Inr (ret, c', w'))"
proof -
  obtain hs rt a p where
    e: "(if rt = HTTPC_ERR_OK
         then res_bind (str_at a 0) (\<lambda>a. connect_literal X c a p port w)
         else connect_by_name X c hs port w) = Inr (ret, c', w')"
    using assms by (auto simp: parse_uri_connect_def)
  show ?thesis
  proof (cases "rt = HTTPC_ERR_OK")
    case True
    with e obtain a' where "connect_literal X c a' p port w = Inr (ret, c', w')" by auto
    then show ?thesis by (rule connect_literal_cases)
  next
    case False
    with e have "connect_by_name X c hs port w = Inr (ret, c', w')" by simp
    then show ?thesis by (rule connect_by_name_cases)
  qed
qed

lemma parse_uri_exit_fresh:
  assumes "parse_uri_exit (c\<lparr>host := Some (i, hb), path := Some (j, pb)\<rparr>) e w = Inr (ret, c', w')"
    and "live w = j # i # l"
  shows "ret = e \<and> c' = Some (c\<lparr>host := None, path := None\<rparr>) \<and> live w' = l \<and>
    open_fds w' = open_fds w \<and> next_id w' = next_id w \<and> calls w' = calls w"
  using assms by (auto simp: parse_uri_exit_def safe_free_def split: if_splits)

lemma parse_uri_split_balance:
  assumes eq: "parse_uri_split X c hp port w = Inr (ret, c', w')"
    and "nul_free hp" and pc: "path c = None"
  shows "(ret = HTTPC_ERR_OK \<and> (\<exists>i j. c' = Some (c\<lparr>host := Some (i, uri_host hp @ [NUL]),
             path := Some (j, uri_path hp @ [NUL])\<rparr>) \<and> live w' = j # i # live w)) \<or>
         (ret < 0 \<and> c' = Some (c\<lparr>host := None, path := None\<rparr>) \<and> live w' = live w)"
    (is ?res)
    and "open_fds w' = open_fds w"
proof -
  note e = eq [unfolded parse_uri_split_eq [OF \<open>nul_free hp\<close>]]
  have "?res \<and> open_fds w' = open_fds w"
  proof (cases rule: httpc_calloc_cases [of w "replicate (length (uri_host hp) + 1) NUL"])
    case (fail ps)
    then show ?thesis
      using e pc by (auto simp: parse_uri_exit_def httpc_err_defs)
  next
    case ok
    define w1 where "w1 = w\<lparr>alloc_plan := tl (alloc_plan w), live := next_id w # live w,
      next_id := next_id w + 1\<rparr>"
    have l1: "live w1 = next_id w # live w" "open_fds w1 = open_fds w" by (simp_all add: w1_def)
    let ?h = "Some (next_id w, uri_host hp @ [NUL])"
    note e1 = e [unfolded ok [folded w1_def], simplified]
    show ?thesis
    proof (cases rule: httpc_calloc_cases [of w1 "replicate (length (uri_path hp) + 1) NUL"])
      case (fail ps)
      then show ?thesis
        using e1 l1 by (auto simp: parse_uri_exit_def safe_free_def httpc_err_defs)
    next
      case ok
      define w2 where "w2 = w1\<lparr>alloc_plan := tl (alloc_plan w1), live := next_id w1 # live w1,
        next_id := next_id w1 + 1\<rparr>"
      have l2: "live w2 = next_id w1 # next_id w # live w" "open_fds w2 = open_fds w"
        by (simp_all add: w2_def l1)
      let ?c = "c\<lparr>host := ?h, path := Some (next_id w1, uri_path hp @ [NUL])\<rparr>"
      have "parse_uri_connect X ?c (uri_host hp @ [NUL]) port w2 = Inr (ret, c', w')"
        using e1 ok by (simp add: w2_def)
      from parse_uri_connect_cases [OF this] show ?thesis
      proof (elim disjE exE conjE)
        assume "ret = HTTPC_ERR_OK" "c' = Some ?c" "same_resources w2 w'"
        then show ?thesis using l2 by (auto simp: same_resources_def)
      next
        fix w3
        assume s: "same_resources w2 w3" and x: "parse_uri_exit ?c HTTPC_ERR_FAIL w3 = Inr (ret, c', w')"
        have "live w3 = next_id w1 # next_id w # live w" using s l2 by (simp add: same_resources_def)
        from parse_uri_exit_fresh [OF x this] s l2 show ?thesis
          by (simp add: same_resources_def httpc_err_defs)
      qed
    qed
  qed
  then show ?res "open_fds w' = open_fds w" by blast+
qed


definition scheme_of :: "bool \<Rightarrow> string" where
  "scheme_of secure = (if secure then ''https://'' else ''http://'')"

lemma parse_uri_scheme:
  assumes "nul_free r"
  shows "httpc_parse_uri X (Some c) (Some (scheme_of secure @ r)) port w =
    parse_uri_split X (c\<lparr>enable_mbedtls := secure\<rparr>) r port w"
  using assms by (cases secure) (simp_all add: httpc_parse_uri_def scheme_of_def strncmp_eq_def cstr_nul_free)

lemma parse_uri_cases:
  assumes "nul_free u"
  obtains (scheme) secure r where "u = scheme_of secure @ r" "nul_free r"
  | (unknown) "httpc_parse_uri X (Some c) (Some u) port w = parse_uri_exit c HTTPC_ERR_PARAM w"
proof -
  have p: "strncmp_eq u ''http://'' 7 = prefix ''http://'' u" "strncmp_eq u ''https://'' 8 = prefix ''https://'' u"
    using assms by (intro strncmp_eq_prefix; simp)+
  consider "prefix ''http://'' u" | "prefix ''https://'' u" | "\<not> prefix ''http://'' u" "\<not> prefix ''https://'' u"
    by blast
  then show thesis
  proof cases
    case 1
    then obtain r where "u = scheme_of False @ r" by (auto simp: prefix_def scheme_of_def)
    with assms show ?thesis by (intro scheme [of False r]) auto
  next
    case 2
    then obtain r where "u = scheme_of True @ r" by (auto simp: prefix_def scheme_of_def)
    with assms show ?thesis by (intro scheme [of True r]) auto
  next
    case 3
    with p show ?thesis by (intro unknown) (simp add: httpc_parse_uri_def)
  qed
qed

text \<open>
  C19. httpc_parse_uri either succeeds and holds exactly the two new strings host and path, or fails and
  leaves the heap as it was with both pointers null, on every branch.
\<close>

theorem parse_uri_no_leak:
  assumes r: "httpc_parse_uri X (Some c) (Some u) port w = Inr (ret, c', w')"
    and u: "nul_free u" and fresh: "host c = None" "path c = None"
  shows "(ret = HTTPC_ERR_OK \<and>
           (\<exists>cc i hb j pb. c' = Some cc \<and> host cc = Some (i, hb) \<and> path cc = Some (j, pb) \<and>
              live w' = j # i # live w)) \<or>
         (ret \<noteq> HTTPC_ERR_OK \<and> live w' = live w \<and>
           (\<exists>cc. c' = Some cc \<and> host cc = None \<and> path cc = None))"
  using u
proof (cases rule: parse_uri_cases [where X = X and c = c and port = port and w = w])
  case (scheme secure rest)
  then have s: "parse_uri_split X (c\<lparr>enable_mbedtls := secure\<rparr>) rest port w = Inr (ret, c', w')"
    using r by (simp add: parse_uri_scheme)
  show ?thesis
    using parse_uri_split_balance(1) [OF s scheme(2)] fresh by (auto simp: HTTPC_ERR_OK_def split: if_splits)
next
  case unknown
  then show ?thesis
    using r fresh by (auto simp: parse_uri_exit_def httpc_err_defs)
qed

text \<open>A run of the parser on a named host, evaluated.\<close>

lemma parse_uri_run:
  "httpc_parse_uri ext_up (Some client_up) (Some ''http://httpbin.org/get'') (Some ''80'') world_init =
   Inr (HTTPC_ERR_OK,
        Some (client_up\<lparr>host := Some (0, ''httpbin.org'' @ [NUL]), path := Some (1, ''/get'' @ [NUL])\<rparr>),
        world_init\<lparr>live := [1, 0], next_id := 2,
          calls := [Sys_getaddrinfo ''httpbin.org'' (Some ''80''), Sys_connect 3 (16909060, 80)]\<rparr>)"
  by code_simp

theorem parse_uri_no_leak_witness:
  "\<exists>c' w'. httpc_parse_uri ext_up (Some client_up) (Some ''http://httpbin.org/get'') (Some ''80'')
       world_init = Inr (HTTPC_ERR_OK, c', w') \<and> (\<exists>i j. live w' = [j, i])"
  using parse_uri_run parse_uri_no_leak [OF parse_uri_run]
  by (auto simp: demo_defs)

text \<open>
  C20. A successful httpc_parse_uri of scheme, host and path stores exactly these parts and selects TLS
  exactly for https.
\<close>

theorem parse_uri_splits:
  assumes r: "httpc_parse_uri X (Some c) (Some (scheme_of secure @ h @ p)) port w = Inr (HTTPC_ERR_OK, c', w')"
    and h: "nul_free h" "CHR ''/'' \<notin> set h" and p: "nul_free p" "p = [] \<or> hd p = CHR ''/''"
    and fresh: "path c = None"
  shows "\<exists>cc i j. c' = Some cc \<and> enable_mbedtls cc = secure \<and> socket cc = socket c \<and>
           host cc = Some (i, h @ [NUL]) \<and> path cc = Some (j, (if p = [] then ''/'' else p) @ [NUL])"
proof -
  have nf: "nul_free (h @ p)" using h p by simp
  have parts: "uri_host (h @ p) = h" "uri_path (h @ p) = (if p = [] then ''/'' else p)"
    using h p by (cases p; simp add: uri_host_whole uri_path_whole uri_host_append uri_path_append)+
  have "parse_uri_split X (c\<lparr>enable_mbedtls := secure\<rparr>) (h @ p) port w = Inr (HTTPC_ERR_OK, c', w')"
    using r nf by (simp only: parse_uri_scheme)
  from parse_uri_split_balance(1) [OF this nf] fresh show ?thesis
    by (auto simp: parts HTTPC_ERR_OK_def split: if_splits)
qed


theorem parse_uri_splits_witness:
  "\<exists>cc w'. httpc_parse_uri ext_up (Some client_up) (Some (scheme_of False @ ''httpbin.org'' @ ''/get''))
       (Some ''80'') world_init = Inr (HTTPC_ERR_OK, Some cc, w') \<and>
     (\<exists>j. path cc = Some (j, ''/get'' @ [NUL]))"
proof -
  have u: "scheme_of False @ ''httpbin.org'' @ ''/get'' = ''http://httpbin.org/get''"
    by (simp add: scheme_of_def)
  show ?thesis
    unfolding u
    using parse_uri_run parse_uri_splits [of ext_up client_up False "''httpbin.org''" "''/get''",
        unfolded u, OF parse_uri_run]
    by (auto simp: demo_defs)
qed

text \<open>An address that is a dotted quad with a port is connected to directly.\<close>

lemma atoi_show_end: "int n < 2 ^ 31 \<Longrightarrow> atoi (show_base 10 n) = int n"
  using atoi_show [of n "[]"] by simp

lemma connect_quad:
  assumes oct: "a \<le> 255" "b \<le> 255" "c \<le> 255" "d \<le> 255"
    and port: "n < 100000" "length (show_base 10 n) \<le> 5"
    and pton: "x_inet_pton X (dotted_quad a b c d) = (1, ip)"
    and conn: "x_connect X (socket cl) (ip, int n mod 2 ^ 16) = 0"
  shows "parse_uri_connect X cl ((dotted_quad a b c d @ CHR '':'' # show_base 10 n) @ [NUL]) p w =
    Inr (HTTPC_ERR_OK, Some cl, log_call (Sys_connect (socket cl) (ip, int n mod 2 ^ 16)) w)"
proof -
  let ?q = "dotted_quad a b c d" and ?s = "show_base 10 n"
  note q = dotted_quad_facts [OF oct]
  have sn: "nul_free ?s" by (simp add: show_base_chars)
  obtain x t where s: "?s = x # t" "x \<noteq> NUL" using sn show_base_not_Nil [of 10 n] by (cases ?s) auto
  have hs: "str_at ((?q @ CHR '':'' # ?s) @ [NUL]) 0 = Inr (?q @ CHR '':'' # ?s)"
    using q sn by (intro str_at_here) simp
  have chk: "httpc_ipv4_address_check (Some (?q @ CHR '':'' # ?s)) (replicate 24 NUL) (replicate 12 NUL) =
     Inr (HTTPC_ERR_OK, ?q @ replicate (24 - length ?q) NUL, ?s @ replicate (12 - length ?s) NUL)"
    using ipv4_check_accepts_quad [OF oct port(2)] by simp
  have a: "str_at (?q @ replicate (24 - length ?q) NUL) 0 = Inr ?q"
    using q by (intro str_at_padded) auto
  have b: "str_at (?s @ replicate (12 - length ?s) NUL) 0 = Inr ?s"
    using sn port(2) by (intro str_at_padded) auto
  have g: "get_byte (?s @ replicate (12 - length ?s) NUL) 0 = Inr x"
    by (simp add: s get_byte_def)
  have at: "atoi ?s = int n" using port(1) by (intro atoi_show_end) simp
  show ?thesis
    unfolding parse_uri_connect_def hs
    using s(2) conn by (simp add: chk a connect_literal_def g b at pton Let_def)
qed

text \<open>
  A URI with a literal IPv4 address connects to that address without the resolver.
\<close>

theorem parse_uri_connects_literal:
  assumes oct: "a \<le> 255" "b \<le> 255" "c \<le> 255" "d \<le> 255"
    and port: "n < 100000" "length (show_base 10 n) \<le> 5"
    and pton: "x_inet_pton X (dotted_quad a b c d) = (1, ip)"
    and conn: "x_connect X (socket cl) (ip, int n mod 2 ^ 16) = 0"
    and rest: "nul_free r" and plan: "alloc_plan w = []"
  shows "\<exists>cc w'. httpc_parse_uri X (Some cl)
       (Some (scheme_of secure @ dotted_quad a b c d @ '':'' @ show_base 10 n @ ''/'' @ r)) p w =
     Inr (HTTPC_ERR_OK, Some cc, w') \<and> enable_mbedtls cc = secure \<and>
     calls w' = calls w @ [Sys_connect (socket cl) (ip, int n mod 2 ^ 16)]"
proof -
  let ?h = "dotted_quad a b c d @ CHR '':'' # show_base 10 n"
  let ?hp = "?h @ CHR ''/'' # r"
  have nf: "nul_free ?hp" using dotted_quad_facts [OF oct] rest by (simp add: show_base_chars)
  have ns: "CHR ''/'' \<notin> set ?h" by (simp add: dotted_quad_def show_base_chars)
  have parts: "uri_host ?hp = ?h" "uri_path ?hp = CHR ''/'' # r"
    using uri_host_append [OF ns, of r] uri_path_append [OF ns, of r] by simp_all
  show ?thesis
    using connect_quad [OF oct port pton] conn plan
    by (simp add: parse_uri_scheme [OF nf, simplified] parse_uri_split_eq [OF nf, simplified]
        parts [simplified] httpc_calloc_def)
qed

theorem parse_uri_connects_literal_witness:
  "\<exists>cc w'. httpc_parse_uri ext_up (Some client_up)
       (Some (scheme_of True @ dotted_quad 127 0 0 1 @ '':'' @ show_base 10 8443 @ ''/'' @ ''index'')) None
       world_init = Inr (HTTPC_ERR_OK, Some cc, w') \<and>
     calls w' = [Sys_connect 3 (2130706433, 8443)]"
proof -
  have len: "length (show_base 10 8443) \<le> 5" by (simp add: show_base.simps)
  show ?thesis
    using parse_uri_connects_literal [of 127 0 0 1 8443 ext_up 2130706433 client_up "''index''" world_init
        True None, OF _ _ _ _ _ len]
    by (auto simp: demo_defs)
qed

text \<open>
  A host name of 16 to 21 characters without a port overruns the local array.
\<close>

theorem parse_uri_host_overflow:
  assumes "nul_free h" "CHR ''/'' \<notin> set h" "CHR '':'' \<notin> set h"
    and "16 \<le> length h" "length h \<le> 21" and "alloc_plan w = []" and "nul_free r"
  shows "httpc_parse_uri X (Some c) (Some (scheme_of secure @ h @ ''/'' @ r)) p w = Inl Out_Of_Bounds"
proof -
  have nf: "nul_free (h @ CHR ''/'' # r)" using assms by simp
  have "host_part h = h" using assms(3) by (rule host_part_no_colon)
  then show ?thesis
    using assms uri_host_append [OF assms(2), of r] uri_path_append [OF assms(2), of r]
    by (simp add: parse_uri_scheme [OF nf, simplified] parse_uri_split_eq [OF nf, simplified]
        httpc_calloc_def parse_uri_connect_def str_at_here ipv4_check_eq)
qed

theorem parse_uri_host_overflow_witness:
  "httpc_parse_uri ext_up (Some client_up) (Some (scheme_of True @ ''www.wikipedia.org'' @ ''/'' @ ''wiki''))
     (Some ''443'') world_init = Inl Out_Of_Bounds"
  by (rule parse_uri_host_overflow) (simp_all add: demo_defs)

text \<open>When every connection attempt to a resolved name fails the parser still reports success.\<close>

lemma dns_connect_loop_all_fail:
  assumes "\<And>a. a \<in> set as \<Longrightarrow> ai_family a = AF_INET \<Longrightarrow> x_connect X fd (ai_addr a) \<noteq> 0"
  shows "calls (dns_connect_loop X fd as w) =
    calls w @ map (\<lambda>a. Sys_connect fd (ai_addr a)) (filter (\<lambda>a. ai_family a = AF_INET) as)"
  using assms by (induction as arbitrary: w) (auto simp: Let_def)

text \<open>
  When every connection to the resolved addresses fails, httpc_parse_uri still succeeds.
\<close>

theorem parse_uri_ignores_connect_failures:
  assumes "nul_free h" "CHR ''/'' \<notin> set h" "CHR '':'' \<notin> set h" "length h < 16"
    and "ipv4_token_loop h 0 \<noteq> 4"
    and "alloc_plan w = []" and "nul_free r"
    and "x_getaddrinfo X h p = (0, as)"
    and "\<And>a. a \<in> set as \<Longrightarrow> ai_family a = AF_INET \<Longrightarrow> x_connect X (socket c) (ai_addr a) \<noteq> 0"
  shows "\<exists>cc w'. httpc_parse_uri X (Some c) (Some (scheme_of secure @ h @ ''/'' @ r)) p w =
      Inr (HTTPC_ERR_OK, Some cc, w') \<and>
    calls w' = calls w @ Sys_getaddrinfo h p #
      map (\<lambda>a. Sys_connect (socket c) (ai_addr a)) (filter (\<lambda>a. ai_family a = AF_INET) as)"
proof -
  have nf: "nul_free (h @ CHR ''/'' # r)" using assms by simp
  have "host_part h = h" using assms(3) by (rule host_part_no_colon)
  then show ?thesis
    using assms uri_host_append [OF assms(2), of r] uri_path_append [OF assms(2), of r]
    by (simp add: parse_uri_scheme [OF nf, simplified] parse_uri_split_eq [OF nf, simplified]
        httpc_calloc_def parse_uri_connect_def str_at_here ipv4_check_eq connect_by_name_def Let_def
        dns_connect_loop_all_fail httpc_err_defs)
qed

theorem parse_uri_ignores_connect_failures_witness:
  "\<exists>cc w'. httpc_parse_uri (ext_up\<lparr>x_connect := (\<lambda>fd sa. -1)\<rparr>) (Some client_up)
       (Some (scheme_of False @ ''httpbin.org'' @ ''/'' @ ''get'')) (Some ''80'') world_init =
       Inr (HTTPC_ERR_OK, Some cc, w')"
proof -
  have t: "ipv4_token_loop ''httpbin.org'' 0 \<noteq> 4" by code_simp
  show ?thesis
    using parse_uri_ignores_connect_failures [of "''httpbin.org''" world_init "''get''"
        "ext_up\<lparr>x_connect := (\<lambda>fd sa. -1)\<rparr>" "Some ''80''" _ client_up False]
    by (auto simp: demo_defs t [simplified])
qed

end
