(* ===== verification/Httpc_Recv.thy ===== *)
theory Httpc_Recv
  imports Httpc_Transport
begin

text \<open>
  Reading from a connection: one line of a response header (\<open>httpc_read_one_line\<close>) and one
  chunk of a chunked body (\<open>httpc_chunked_recv\<close>).
\<close>

section \<open>Reading a line\<close>

text \<open>
  The loop of \<open>httpc_read_one_line\<close> over any byte stream: \<open>buf\<close> is the block \<open>b\<close> at offset
  \<open>off\<close>. It runs at most \<open>size\<close> times.
\<close>

function read_line_loop ::
  "(nat \<Rightarrow> 'w \<Rightarrow> (int \<times> string \<times> 'w) res) \<Rightarrow> block \<Rightarrow> int \<Rightarrow> int \<Rightarrow> int \<Rightarrow> char \<Rightarrow> 'w \<Rightarrow>
   (int \<times> block \<times> 'w) res" where
  "read_line_loop rcv b off sz count last_byte w =
     res_bind (rcv 1 w) (\<lambda>(ret, ds, w).
       if ret \<le> 0 then Inr (count, b, w)
       else
         (let byte = hd ds
          in if byte = LF \<and> last_byte = CR then Inr (count, b, w)
             else
               res_bind (put_byte b (off + count) byte) (\<lambda>b.
               if sz \<le> count + 1 then Inr (count + 1, b, w)
               else read_line_loop rcv b off sz (count + 1) byte w)))"
  by pat_completeness auto
termination
  by (relation "measure (\<lambda>(rcv, b, off, sz, count, last_byte, w). nat (sz - count))") auto

declare read_line_loop.simps [simp del]

text \<open>The operation for a client and a buffer that are not null, and with their null checks.\<close>

abbreviation read_line_into :: "httpc \<Rightarrow> block \<Rightarrow> int \<Rightarrow> int \<Rightarrow> world \<Rightarrow> (int \<times> block \<times> world) res" where
  "read_line_into c b off sz w \<equiv> read_line_loop (httpc_recv_data c) b off sz 0 NUL w"

definition httpc_read_one_line ::
  "httpc option \<Rightarrow> block option \<Rightarrow> int \<Rightarrow> int \<Rightarrow> world \<Rightarrow> (int \<times> block option \<times> world) res" where
  "httpc_read_one_line h b off sz w =
     (case (h, b) of
        (Some c, Some bs) \<Rightarrow>
          res_bind (read_line_into c bs off sz w) (\<lambda>(count, bs, w).
          Inr (count, Some bs, w))
      | _ \<Rightarrow> Inr (HTTPC_ERR_PARAM, b, w))"

section \<open>Reading a chunk\<close>

text \<open>The label \<open>exit\<close>: the line buffer is freed.\<close>

definition chunked_exit ::
  "block ptr \<Rightarrow> int \<Rightarrow> block option \<Rightarrow> world \<Rightarrow> (int \<times> block option \<times> world) res" where
  "chunked_exit tmp_buf ret b w =
     res_bind (safe_free tmp_buf w) (\<lambda>(_, w). Inr (ret, b, w))"

text \<open>The body of the chunk, once its length is known.\<close>

definition chunked_body ::
  "httpc \<Rightarrow> nat \<times> block \<Rightarrow> int \<Rightarrow> block \<Rightarrow> int \<Rightarrow> world \<Rightarrow> (int \<times> block option \<times> world) res" where
  "chunked_body c tmp len b sz w =
     (if len < 0 then chunked_exit (Some tmp) HTTPC_ERR_FAIL (Some b) w
      else if len = 0 then chunked_exit (Some tmp) HTTPC_ERR_FAIL (Some b) w
      else if sz < len then chunked_exit (Some tmp) HTTPC_ERR_FAIL (Some b) w
      else
        res_bind (httpc_recv (Some c) (Some b) len w) (\<lambda>(count, b, w).
        if count < 0 then chunked_exit (Some tmp) HTTPC_ERR_FAIL b w
        else
          res_bind (httpc_recv (Some c) (Some (snd tmp)) 2 w) (\<lambda>(_, _, w).
          chunked_exit (Some tmp) count b w)))"

definition httpc_chunked_recv ::
  "httpc option \<Rightarrow> block option \<Rightarrow> int \<Rightarrow> world \<Rightarrow> (int \<times> block option \<times> world) res" where
  "httpc_chunked_recv h b sz w =
     (case (h, b) of
        (Some c, Some bs) \<Rightarrow>
          (case httpc_calloc (replicate 1024 NUL) w of
             (None, w) \<Rightarrow> chunked_exit None HTTPC_ERR_MEM b w
           | (Some (i, tmp_buf), w) \<Rightarrow>
               res_bind (httpc_read_one_line h (Some tmp_buf) 0 1024 w) (\<lambda>(count, tmp, w).
               if count < 0 then chunked_exit (Some (i, tmp_buf)) HTTPC_ERR_FAIL b w
               else
                 res_bind (case tmp of None \<Rightarrow> Inl Null_Deref
                           | Some t \<Rightarrow> put_byte t (count - 1) NUL) (\<lambda>tmp_buf.
                 res_bind (str_at tmp_buf 0) (\<lambda>s.
                 chunked_body c (i, tmp_buf) (int32_of (int (strtoul 16 s))) bs sz w))))
      | _ \<Rightarrow> chunked_exit None HTTPC_ERR_PARAM b w)"

section \<open>Facts about the line loop\<close>

text \<open>No line feed directly after a carriage return, given the character before.\<close>

fun no_crlf :: "char \<Rightarrow> string \<Rightarrow> bool" where
  "no_crlf l [] \<longleftrightarrow> True"
| "no_crlf l (c # s) \<longleftrightarrow> \<not> (l = CR \<and> c = LF) \<and> no_crlf c s"

lemma no_crlf_snoc: "no_crlf l s \<Longrightarrow> c \<noteq> LF \<Longrightarrow> no_crlf l (s @ [c])"
  by (induction l s rule: no_crlf.induct) auto

lemma no_crlf_no_LF: "LF \<notin> set s \<Longrightarrow> no_crlf l s"
  by (induction l s rule: no_crlf.induct) auto

text \<open>One turn of the loop, for a known read.\<close>

lemma read_line_loop_step:
  "rcv 1 w = Inr (r, ds, v) \<Longrightarrow> read_line_loop rcv b off sz count last_byte w =
     (if r \<le> 0 then Inr (count, b, v)
      else if hd ds = LF \<and> last_byte = CR then Inr (count, b, v)
      else res_bind (put_byte b (off + count) (hd ds)) (\<lambda>b.
             if sz \<le> count + 1 then Inr (count + 1, b, v)
             else read_line_loop rcv b off sz (count + 1) (hd ds) v))"
  by (subst read_line_loop.simps) (simp only: res_bind_Inr prod.case Let_def)

text \<open>Memory safety of the loop for a buffer of at least one byte.\<close>

lemma read_line_loop_frame:
  "read_line_loop rcv b off sz count last_byte w = Inr (n, b', w') \<Longrightarrow> 0 \<le> off \<Longrightarrow> 0 \<le> count \<Longrightarrow>
   length b' = length b \<and> count \<le> n \<and> (count < sz \<longrightarrow> n \<le> sz) \<and>
   take (nat (off + count)) b' = take (nat (off + count)) b \<and>
   drop (nat (off + n)) b' = drop (nat (off + n)) b"
proof (induction rcv b off sz count last_byte w rule: read_line_loop.induct)
  case (1 rcv b off sz count last_byte w)
  obtain r ds v where r: "rcv 1 w = Inr (r, ds, v)"
    using 1(2) by (subst (asm) read_line_loop.simps) auto
  note e = 1(2) [unfolded read_line_loop.simps [of rcv b], unfolded r, simplified]
  show ?case
  proof (cases "r \<le> 0 \<or> hd ds = LF \<and> last_byte = CR")
    case True
    then show ?thesis using e 1(3,4) by (auto simp: Let_def split: if_splits)
  next
    case False
    then obtain b1 where b1: "put_byte b (off + count) (hd ds) = Inr b1"
      and e1: "(if sz \<le> count + 1 then Inr (count + 1, b1, v)
                else read_line_loop rcv b1 off sz (count + 1) (hd ds) v) = Inr (n, b', w')"
      using e by (auto simp: Let_def split: if_splits)
    have b1': "b1 = b[nat (off + count) := hd ds]" "off + count < int (length b)"
      using b1 by (auto simp: put_byte_def split: if_splits)
    have suc: "nat (off + (count + 1)) = Suc (nat (off + count))" using 1(3,4) by simp
    show ?thesis
    proof (cases "sz \<le> count + 1")
      case True
      then show ?thesis using e1 b1' suc 1(3,4) by (auto simp: add.assoc)
    next
      case False: False
      have ih: "length b' = length b1 \<and> count + 1 \<le> n \<and> (count + 1 < sz \<longrightarrow> n \<le> sz) \<and>
          take (nat (off + (count + 1))) b' = take (nat (off + (count + 1))) b1 \<and>
          drop (nat (off + n)) b' = drop (nat (off + n)) b1"
        using 1(1) [OF r refl refl _ refl _ b1 False] \<open>\<not> (r \<le> 0 \<or> _)\<close> e1 False 1(3,4) by simp
      have "take (nat (off + count)) b' = take (nat (off + count)) (take (nat (off + (count + 1))) b')"
        by (simp add: suc)
      also have "\<dots> = take (nat (off + count)) b"
        using ih b1' suc by simp
      finally show ?thesis using ih b1' 1(3,4) False by auto
    qed
  qed
qed


text \<open>
  A buffer of at least \<open>size > 0\<close> bytes is never overrun: the loop always returns.
\<close>

context byte_stream
begin

lemma read_line_total:
  "0 \<le> off \<Longrightarrow> 0 \<le> count \<Longrightarrow> count < sz \<Longrightarrow> off + sz \<le> int (length b) \<Longrightarrow>
   \<exists>n b' w'. read_line_loop rcv b off sz count last_byte w = Inr (n, b', w')"
proof (induction "nat (sz - count)" arbitrary: b count last_byte w rule: less_induct)
  case less
  obtain r ds v where r: "rcv 1 w = Inr (r, ds, v)" using rcv_total by blast
  show ?case
  proof (cases "r \<le> 0 \<or> hd ds = LF \<and> last_byte = CR")
    case True
    then show ?thesis by (auto simp: read_line_loop_step [where rcv = rcv, OF r])
  next
    case go: False
    have put: "put_byte b (off + count) (hd ds) = Inr (b[nat (off + count) := hd ds])"
      using less.prems by (intro put_byte_ok) auto
    show ?thesis
    proof (cases "sz \<le> count + 1")
      case True
      then show ?thesis using go by (auto simp: read_line_loop_step [where rcv = rcv, OF r] put)
    next
      case False
      have "\<exists>n b' w'. read_line_loop rcv (b[nat (off + count) := hd ds]) off sz (count + 1) (hd ds) v =
          Inr (n, b', w')"
        using less.prems False by (intro less.hyps) auto
      then show ?thesis using go False by (auto simp: read_line_loop_step [where rcv = rcv, OF r] put)
    qed
  qed
qed

text \<open>The line loop reads exactly one line, whatever the sizes in which it arrives.\<close>

lemma read_line_run:
  assumes "good w" and "pending w = s @ LF # rest" and "no_crlf last_byte s"
    and "last (last_byte # s) = CR"
    and "count + int (length s) < sz" and "off + count = int (length p)" and "length s \<le> length q"
  shows "\<exists>w'. read_line_loop rcv (p @ q) off sz count last_byte w =
           Inr (count + int (length s), p @ s @ drop (length s) q, w') \<and>
         good w' \<and> pending w' = rest"
  using assms
proof (induction s arbitrary: w last_byte count p q)
  case Nil
  then obtain w' where "rcv 1 w = Inr (1, [LF], w')" "pending w' = rest" "good w'"
    using rcv_one_good [of w LF rest] by auto
  then show ?case
    using Nil by (simp add: read_line_loop_step)
next
  case (Cons c s)
  obtain w1 where r: "rcv 1 w = Inr (1, [c], w1)" and w1: "pending w1 = s @ LF # rest" "good w1"
    using rcv_one_good [of w c "s @ LF # rest"] Cons.prems by auto
  obtain x q' where q: "q = x # q'" using Cons.prems(7) by (cases q) auto
  have put: "put_byte (p @ q) (off + count) c = Inr ((p @ [c]) @ q')"
    using Cons.prems(6) by (simp add: q put_byte_append)
  have more: "\<not> sz \<le> count + 1" using Cons.prems(5) by simp
  have step: "read_line_loop rcv (p @ q) off sz count last_byte w =
      read_line_loop rcv ((p @ [c]) @ q') off sz (count + 1) c w1"
    using Cons.prems(3) put more by (auto simp: read_line_loop_step [where rcv = rcv, OF r])
  have "\<exists>w'. read_line_loop rcv ((p @ [c]) @ q') off sz (count + 1) c w1 =
      Inr (count + 1 + int (length s), (p @ [c]) @ s @ drop (length s) q', w') \<and>
      good w' \<and> pending w' = rest"
    using Cons.prems w1 by (intro Cons.IH) (auto simp: q split: if_splits)
  then show ?case unfolding step by (simp add: q algebra_simps)
qed

end


text \<open>The loop changes nothing of the world that a read does not change.\<close>

lemma read_line_loop_world:
  assumes rcv: "\<And>n w r ds w'. rcv n w = Inr (r, ds, w') \<Longrightarrow> f w' = f w"
  shows "read_line_loop rcv b off sz count last_byte w = Inr (n, b', w') \<Longrightarrow> f w' = f w"
proof (induction "nat (sz - count)" arbitrary: b count last_byte w rule: less_induct)
  case less
  obtain r ds v where r: "rcv 1 w = Inr (r, ds, v)"
    using less.prems by (subst (asm) read_line_loop.simps) auto
  note e = less.prems [unfolded read_line_loop_step [where rcv = rcv, OF r]]
  have "f w' = f v"
  proof (cases "r \<le> 0 \<or> hd ds = LF \<and> last_byte = CR")
    case True
    with e show ?thesis by (auto split: if_splits)
  next
    case False
    with e obtain b1 where b1: "(if sz \<le> count + 1 then Inr (count + 1, b1, v)
        else read_line_loop rcv b1 off sz (count + 1) (hd ds) v) = Inr (n, b', w')"
      by (auto split: if_splits)
    show ?thesis
    proof (cases "sz \<le> count + 1")
      case True
      with b1 show ?thesis by simp
    next
      case False
      with b1 show ?thesis by (intro less.hyps) auto
    qed
  qed
  with rcv [OF r] show ?case by simp
qed

lemma conn_line_world:
  "read_line_loop (\<lambda>n w. Inr (conn_read n w)) b off sz count last_byte w = Inr (n, b', w') \<Longrightarrow>
   w' = w\<lparr>rx := rx w'\<rparr>"
proof -
  assume a: "read_line_loop (\<lambda>n w. Inr (conn_read n w)) b off sz count last_byte w = Inr (n, b', w')"
  have "w'\<lparr>rx := []\<rparr> = w\<lparr>rx := []\<rparr>"
    by (rule read_line_loop_world [where f = "\<lambda>w. w\<lparr>rx := []\<rparr>", OF _ a])
      (auto simp: conn_read_def split: prod.splits)
  then show ?thesis by (metis world.surjective world.update_convs(1))
qed

text \<open>
  httpc_read_one_line reads exactly one CR LF terminated line, whatever the sizes in which the bytes arrive, and leaves the rest in the stream.
\<close>

theorem read_one_line_reads_line:
  assumes ready: "transport_ready c" and "rx_intact (rx w)"
    and "rx_bytes (rx w) = line @ [CR, LF] @ rest" and "no_crlf NUL line"
    and "int (length line) + 1 < sz" and "0 \<le> off" and "off + sz \<le> int (length bs)"
  shows "\<exists>w'. httpc_read_one_line (Some c) (Some bs) off sz w =
      Inr (int (length line) + 1,
           Some (take (nat off) bs @ line @ [CR] @ drop (nat off + length line + 1) bs), w') \<and>
    rx_intact (rx w') \<and> rx_bytes (rx w') = rest"
proof -
  have "no_crlf NUL (line @ [CR])" using assms(4) by (rule no_crlf_snoc) simp
  then have "\<exists>w'. read_line_loop (\<lambda>n w. Inr (conn_read n w)) (take (nat off) bs @ drop (nat off) bs)
      off sz 0 NUL w =
      Inr (0 + int (length (line @ [CR])), take (nat off) bs @ (line @ [CR]) @
           drop (length (line @ [CR])) (drop (nat off) bs), w') \<and>
      rx_intact (rx w') \<and> rx_bytes (rx w') = rest"
    using assms by (intro conn.read_line_run) auto
  then obtain w' where "read_line_loop (\<lambda>n w. Inr (conn_read n w)) bs off sz 0 NUL w =
      Inr (int (length line) + 1, take (nat off) bs @ line @ [CR] @ drop (nat off + length line + 1) bs, w')"
    "rx_intact (rx w')" "rx_bytes (rx w') = rest"
    by (force simp: add.commute)
  then show ?thesis
    by (simp add: httpc_read_one_line_def httpc_recv_data_ready [OF ready])
qed

theorem read_one_line_reads_line_witness:
  "\<exists>w'. httpc_read_one_line (Some client_up) (Some (replicate 32 NUL)) 4 28
       (world_init\<lparr>rx := [Rx_Data ''Host'', Rx_Data '': a'', Rx_Data [CR], Rx_Data [LF, CHR ''x'']]\<rparr>) =
     Inr (8, Some (replicate 4 NUL @ ''Host: a'' @ [CR] @ replicate 20 NUL), w') \<and>
     rx_bytes (rx w') = ''x''"
  using read_one_line_reads_line [of client_up
      "world_init\<lparr>rx := [Rx_Data ''Host'', Rx_Data '': a'', Rx_Data [CR], Rx_Data [LF, CHR ''x'']]\<rparr>"
      "''Host: a''" "''x''" 28 4 "replicate 32 NUL"]
  by (auto simp: demo_defs transport_ready_def)

text \<open>
  Whatever the peer sends, a line stays inside the buffer it is given.
\<close>

theorem read_one_line_bounds:
  assumes ready: "transport_ready c" and "0 < sz" and "0 \<le> off" and "off + sz \<le> int (length bs)"
  shows "\<exists>n bs' w'. httpc_read_one_line (Some c) (Some bs) off sz w = Inr (n, Some bs', w') \<and>
    0 \<le> n \<and> n \<le> sz \<and> length bs' = length bs \<and>
    take (nat off) bs' = take (nat off) bs \<and> drop (nat (off + n)) bs' = drop (nat (off + n)) bs"
proof -
  obtain n bs' w' where r: "read_line_loop (\<lambda>n w. Inr (conn_read n w)) bs off sz 0 NUL w = Inr (n, bs', w')"
    using conn.read_line_total [of off 0 sz bs NUL w] assms by auto
  from read_line_loop_frame [OF r] assms r show ?thesis
    by (auto simp: httpc_read_one_line_def httpc_recv_data_ready [OF ready])
qed

theorem read_one_line_bounds_witness:
  "\<exists>n bs' w'. httpc_read_one_line (Some client_up) (Some (replicate 3 NUL)) 1 2
       (world_init\<lparr>rx := [Rx_Data ''overlong'']\<rparr>) = Inr (n, Some bs', w') \<and>
     n \<le> 2 \<and> take 1 bs' = [NUL]"
  using read_one_line_bounds [of client_up 2 1 "replicate 3 NUL" "world_init\<lparr>rx := [Rx_Data ''overlong'']\<rparr>"]
  by (auto simp: demo_defs transport_ready_def numeral_eq_Suc)


section \<open>Facts about chunks\<close>

text \<open>The encoding of a chunk: its length in hexadecimal, its data, each ended by CRLF.\<close>

definition chunk_header :: "nat \<Rightarrow> string" where
  "chunk_header n = show_base 16 n @ [CR, LF]"

lemma hex_length: "n \<le> nat INT_MAX \<Longrightarrow> length (show_base 16 n) \<le> 8"
proof -
  assume "n \<le> nat INT_MAX"
  then have "n < 16 ^ Suc 7" by (simp add: INT_MAX_def)
  then have "length (show_base 16 n) \<le> Suc 7" by (intro show_base_length) auto
  then show ?thesis by simp
qed

lemma seg_goodI: "rx w = pre @ post \<Longrightarrow> rx_all_data pre \<Longrightarrow> seg_good post w"
  by (auto simp: seg_good_def)

lemma seg_pending_eq: "rx w = pre @ post \<Longrightarrow> seg_pending post w = rx_bytes pre"
  by (simp add: seg_pending_def)

text \<open>Reading the header of a chunk leaves the events behind it untouched.\<close>

lemma chunked_header:
  assumes ready: "transport_ready c" and plan: "alloc_plan w = []"
    and rx: "rx w = pre @ post" "rx_all_data pre" "rx_bytes pre = chunk_header n"
    and n: "n \<le> nat INT_MAX"
  shows "\<exists>tb pre'. length tb = 1024 \<and> rx_all_data pre' \<and> rx_bytes pre' = [] \<and>
    httpc_chunked_recv (Some c) (Some bs) sz w =
      chunked_body c (next_id w, tb) (int n) bs sz
        (w\<lparr>live := next_id w # live w, next_id := next_id w + 1, rx := pre' @ post\<rparr>)"
proof -
  let ?w = "w\<lparr>live := next_id w # live w, next_id := next_id w + 1\<rparr>"
  let ?s = "show_base 16 n @ [CR]"
  let ?p = "chunk_header n"
  have len: "length (show_base 16 n) \<le> 8" using n by (rule hex_length)
  have sg: "seg_good post ?w" and sp: "seg_pending post ?w = ?s @ LF # []"
    using rx by (auto intro: seg_goodI simp: seg_pending_def chunk_header_def)
  have nc: "no_crlf NUL ?s"
    by (rule no_crlf_snoc [OF no_crlf_no_LF]) (simp_all add: show_base_chars)
  have "\<exists>w'. read_line_loop (\<lambda>n w. Inr (conn_read n w)) ([] @ replicate 1024 NUL) 0 1024 0 NUL ?w =
      Inr (0 + int (length ?s), [] @ ?s @ drop (length ?s) (replicate 1024 NUL), w') \<and>
      seg_good post w' \<and> seg_pending post w' = []"
    by (rule seg.read_line_run [OF sg sp nc]) (use len in simp_all)
  then obtain w' where loop: "read_line_loop (\<lambda>n w. Inr (conn_read n w)) (replicate 1024 NUL) 0 1024 0 NUL ?w =
      Inr (int (length (show_base 16 n)) + 1, show_base 16 n @ CR # replicate (1023 - length (show_base 16 n)) NUL, w')"
    and w': "seg_good post w'" "seg_pending post w' = []"
    by (force simp: add.commute)
  obtain pre' where pre': "rx w' = pre' @ post" "rx_all_data pre'" using w'(1) by (auto simp: seg_good_def)
  have empty: "rx_bytes pre' = []" using w'(2) by (simp add: seg_pending_eq [OF pre'(1)])
  have weq: "w' = ?w\<lparr>rx := pre' @ post\<rparr>"
    using conn_line_world [OF loop] by (simp add: pre')
  let ?tb = "show_base 16 n @ NUL # replicate (1023 - length (show_base 16 n)) NUL"
  have put: "put_byte (show_base 16 n @ CR # replicate (1023 - length (show_base 16 n)) NUL)
      (int (length (show_base 16 n)) + 1 - 1) NUL = Inr ?tb"
    by (rule put_byte_append) simp
  have str: "str_at ?tb 0 = Inr (show_base 16 n)" by (rule str_at_here) (simp add: show_base_chars)
  have val: "int32_of (int (strtoul 16 (show_base 16 n))) = int n"
    using strtoul_show16 [of n "[]"] n by (simp add: ULONG_MAX_def INT_MAX_def int32_of_id)
  have "httpc_chunked_recv (Some c) (Some bs) sz w = chunked_body c (next_id w, ?tb) (int n) bs sz
      (w\<lparr>live := next_id w # live w, next_id := next_id w + 1, rx := pre' @ post\<rparr>)"
    using plan loop put str val
    by (simp add: httpc_chunked_recv_def httpc_read_one_line_def httpc_recv_data_ready [OF ready] weq)
  then show ?thesis using len pre' empty by (intro exI [of _ ?tb] exI [of _ pre']) simp
qed

text \<open>Reading inside one run of bytes.\<close>

lemma httpc_recv_run:
  assumes ready: "transport_ready c" and rx: "rx w = pre @ Rx_Data d # es" "rx_all_data pre" "rx_bytes pre = []"
    and "d \<noteq> []" and k: "0 < k" "k \<le> INT_MAX" and fits: "min (nat k) (length d) \<le> length bs"
  shows "httpc_recv (Some c) (Some bs) k w =
    Inr (int (min (nat k) (length d)),
         Some (take (nat k) d @ drop (min (nat k) (length d)) bs), w\<lparr>rx := Rx_Data (drop (nat k) d) # es\<rparr>)"
proof -
  obtain x xs where d: "d = x # xs" using \<open>d \<noteq> []\<close> by (cases d) auto
  have s: "size_t_of k = nat k" using k by (intro size_t_of_nonneg) auto
  have "sys_recv (nat k) (rx w) = (int (min (nat k) (length d)), take (nat k) d, Rx_Data (drop (nat k) d) # es)"
    using k(1) by (simp add: rx sys_recv_skip d)
  moreover have "put_bytes bs 0 (take (nat k) d) = Inr (take (nat k) d @ drop (min (nat k) (length d)) bs)"
    using fits by (subst put_bytes_front) (simp_all add: min.commute)
  ultimately show ?thesis
    by (simp add: httpc_recv_def s httpc_recv_data_ready [OF ready] conn_read_def)
qed

text \<open>The body of a chunk whose data and terminator arrive in the given runs.\<close>

lemma chunked_body_short:
  assumes ready: "transport_ready c" and d: "d1 \<noteq> []" "length d1 \<le> n" and x: "2 \<le> length x"
    and size: "int n \<le> sz" "sz \<le> int (length bs)" "sz \<le> INT_MAX"
    and rx: "rx w = pre @ post" "rx_all_data pre" "rx_bytes pre = []"
    and post: "post = Rx_Data d1 # Rx_Data x # es \<or> post = Rx_Data (d1 @ x) # es \<and> length d1 = n"
    and tb: "length tb = 1024" and live: "live w = i # l"
  shows "chunked_body c (i, tb) (int n) bs sz w =
    Inr (int (length d1), Some (d1 @ drop (length d1) bs), w\<lparr>rx := Rx_Data (drop 2 x) # es, live := l\<rparr>)"
proof -
  have n: "0 < int n" "int n \<le> INT_MAX" using d size by (cases d1; simp)+
  have tlen: "2 \<le> length tb" using tb by simp
  have fit: "length d1 \<le> length bs" using d size by simp
  obtain pre2 post2 where first: "httpc_recv (Some c) (Some bs) (int n) w =
      Inr (int (length d1), Some (d1 @ drop (length d1) bs), w\<lparr>rx := pre2 @ Rx_Data x # es\<rparr>)"
    "rx_all_data pre2" "rx_bytes pre2 = []"
  proof (cases "post = Rx_Data d1 # Rx_Data x # es")
    case True
    then show ?thesis
      using httpc_recv_run [OF ready rx(1) [unfolded True] rx(2,3) d(1) n, of bs] d(2) fit
      by (intro that [of "[Rx_Data []]"]) (simp_all add: min_absorb2)
  next
    case False
    then have p: "post = Rx_Data (d1 @ x) # es" "length d1 = n" using post by auto
    then show ?thesis
      using httpc_recv_run [OF ready rx(1) [unfolded p(1)] rx(2,3) _ n, of bs] d(1) fit
      by (intro that [of "[]"]) (auto simp: min_absorb1)
  qed
  have second: "\<exists>tb'. httpc_recv (Some c) (Some tb) 2 (w\<lparr>rx := pre2 @ Rx_Data x # es\<rparr>) =
      Inr (2, tb', w\<lparr>rx := Rx_Data (drop 2 x) # es\<rparr>)"
    using httpc_recv_run [OF ready _ first(2,3), of "w\<lparr>rx := pre2 @ Rx_Data x # es\<rparr>" x es 2 tb] x tlen
    by (cases "x = []") (auto simp: INT_MAX_def min_absorb1)
  show ?thesis
    using first(1) second size n live
    by (auto simp: chunked_body_def chunked_exit_def safe_free_def)
qed

text \<open>
  C3. A chunk of at least one byte that fits the size of the caller, printed with its hexadecimal length and
  read by httpc_chunked_recv on a connected client, gives back its data, frees the line buffer and leaves
  the stream behind the terminator of the chunk, if the line buffer can be allocated and the data and its CR
  LF arrive together in one run of bytes; the line with the length may come in any pieces.
\<close>

theorem chunked_recv_roundtrip:
  assumes ready: "transport_ready c" and plan: "alloc_plan w = []"
    and rx: "rx w = pre @ Rx_Data (d @ [CR, LF] @ r) # es" "rx_all_data pre"
      "rx_bytes pre = show_base 16 (length d) @ [CR, LF]"
    and d: "d \<noteq> []" and size: "int (length d) \<le> sz" "sz \<le> int (length bs)" "sz \<le> INT_MAX"
  shows "httpc_chunked_recv (Some c) (Some bs) sz w =
    Inr (int (length d), Some (d @ drop (length d) bs),
         w\<lparr>rx := Rx_Data r # es, next_id := next_id w + 1\<rparr>)"
proof -
  have n: "length d \<le> nat INT_MAX" using size by simp
  obtain tb pre' where h: "length tb = 1024" "rx_all_data pre'" "rx_bytes pre' = []"
    "httpc_chunked_recv (Some c) (Some bs) sz w =
      chunked_body c (next_id w, tb) (int (length d)) bs sz
        (w\<lparr>live := next_id w # live w, next_id := next_id w + 1, rx := pre' @ Rx_Data (d @ [CR, LF] @ r) # es\<rparr>)"
    using chunked_header [OF ready plan rx(1,2) rx(3) [folded chunk_header_def] n] by blast
  have "chunked_body c (next_id w, tb) (int (length d)) bs sz
        (w\<lparr>live := next_id w # live w, next_id := next_id w + 1, rx := pre' @ Rx_Data (d @ [CR, LF] @ r) # es\<rparr>)
     = Inr (int (length d), Some (d @ drop (length d) bs),
         w\<lparr>live := next_id w # live w, next_id := next_id w + 1, rx := pre' @ Rx_Data (d @ [CR, LF] @ r) # es,
           rx := Rx_Data (drop 2 ([CR, LF] @ r)) # es, live := live w\<rparr>)"
    by (rule chunked_body_short [OF ready d order_refl _ size _ h(2,3) _ h(1),
          where post = "Rx_Data (d @ [CR, LF] @ r) # es"]) simp_all
  then show ?thesis
    unfolding h(4) by (auto intro!: world.equality)
qed

lemma show_hex_10: "show_base 16 10 = ''a''" "show_base 16 (length ''0123456789'') = ''a''"
  by code_simp+

lemmas show_hex_10s = show_hex_10 show_hex_10 [simplified]

theorem chunked_recv_roundtrip_witness:
  "httpc_chunked_recv (Some client_up) (Some (replicate 16 NUL)) 16
     (world_init\<lparr>rx := [Rx_Data ''a'', Rx_Data [CR], Rx_Data [LF], Rx_Data (''0123456789'' @ [CR, LF] @ ''5'')]\<rparr>) =
   Inr (10, Some (''0123456789'' @ replicate 6 NUL), world_init\<lparr>rx := [Rx_Data ''5''], next_id := 1\<rparr>)"
proof -
  let ?w = "world_init\<lparr>rx := [Rx_Data ''a'', Rx_Data [CR], Rx_Data [LF], Rx_Data (''0123456789'' @ [CR, LF] @ ''5'')]\<rparr>"
  have "httpc_chunked_recv (Some client_up) (Some (replicate 16 NUL)) 16 ?w =
    Inr (int (length ''0123456789''), Some (''0123456789'' @ drop (length ''0123456789'') (replicate 16 NUL)),
         ?w\<lparr>rx := [Rx_Data ''5''], next_id := next_id ?w + 1\<rparr>)"
    by (rule chunked_recv_roundtrip [where pre = "[Rx_Data ''a'', Rx_Data [CR], Rx_Data [LF]]"])
      (simp_all add: demo_defs transport_ready_def show_hex_10s INT_MAX_def)
  then show ?thesis by (simp add: world_init_def)
qed

text \<open>
  When the data of a chunk arrives in two runs, the call returns the first and drops two
  bytes of the second as if they were the terminator.
\<close>

theorem chunked_recv_short_read:
  assumes ready: "transport_ready c" and plan: "alloc_plan w = []"
    and rx: "rx w = pre @ Rx_Data d1 # Rx_Data d2 # es" "rx_all_data pre"
      "rx_bytes pre = show_base 16 n @ [CR, LF]"
    and d: "d1 \<noteq> []" "2 \<le> length d2" "length d1 < n"
    and size: "int n \<le> sz" "sz \<le> int (length bs)" "sz \<le> INT_MAX"
  shows "httpc_chunked_recv (Some c) (Some bs) sz w =
    Inr (int (length d1), Some (d1 @ drop (length d1) bs),
         w\<lparr>rx := Rx_Data (drop 2 d2) # es, next_id := next_id w + 1\<rparr>)"
proof -
  let ?post = "Rx_Data d1 # Rx_Data d2 # es"
  have n: "n \<le> nat INT_MAX" using size by simp
  obtain tb pre' where h: "length tb = 1024" "rx_all_data pre'" "rx_bytes pre' = []"
    "httpc_chunked_recv (Some c) (Some bs) sz w =
      chunked_body c (next_id w, tb) (int n) bs sz
        (w\<lparr>live := next_id w # live w, next_id := next_id w + 1, rx := pre' @ ?post\<rparr>)"
    using chunked_header [OF ready plan rx(1,2) rx(3) [folded chunk_header_def] n] by blast
  have "chunked_body c (next_id w, tb) (int n) bs sz
        (w\<lparr>live := next_id w # live w, next_id := next_id w + 1, rx := pre' @ ?post\<rparr>)
     = Inr (int (length d1), Some (d1 @ drop (length d1) bs),
         w\<lparr>live := next_id w # live w, next_id := next_id w + 1, rx := pre' @ ?post,
           rx := Rx_Data (drop 2 d2) # es, live := live w\<rparr>)"
    by (rule chunked_body_short [OF ready d(1) _ d(2) size _ h(2,3) _ h(1), where post = ?post])
      (use d(3) in simp_all)
  then show ?thesis
    unfolding h(4) by (auto intro!: world.equality)
qed

theorem chunked_recv_short_read_witness:
  "httpc_chunked_recv (Some client_up) (Some (replicate 16 NUL)) 16
     (world_init\<lparr>rx := [Rx_Data (''a'' @ [CR, LF]), Rx_Data ''0123'', Rx_Data (''456789'' @ [CR, LF])]\<rparr>) =
   Inr (4, Some (''0123'' @ replicate 12 NUL),
        world_init\<lparr>rx := [Rx_Data (''6789'' @ [CR, LF])], next_id := 1\<rparr>)"
proof -
  let ?w = "world_init\<lparr>rx := [Rx_Data (''a'' @ [CR, LF]), Rx_Data ''0123'', Rx_Data (''456789'' @ [CR, LF])]\<rparr>"
  have "httpc_chunked_recv (Some client_up) (Some (replicate 16 NUL)) 16 ?w =
    Inr (int (length ''0123''), Some (''0123'' @ drop (length ''0123'') (replicate 16 NUL)),
         ?w\<lparr>rx := [Rx_Data (drop 2 (''456789'' @ [CR, LF]))], next_id := next_id ?w + 1\<rparr>)"
    by (rule chunked_recv_short_read [where pre = "[Rx_Data (''a'' @ [CR, LF])]" and n = 10])
      (simp_all add: demo_defs transport_ready_def show_hex_10s INT_MAX_def)
  then show ?thesis by (simp add: world_init_def)
qed

text \<open>
  The chunk of length 0 ends the body: the call reports failure and consumes its line.
\<close>

theorem chunked_recv_last:
  assumes ready: "transport_ready c" and plan: "alloc_plan w = []"
    and rx: "rx w = pre @ post" "rx_all_data pre" "rx_bytes pre = ''0'' @ [CR, LF]"
  shows "\<exists>w'. httpc_chunked_recv (Some c) (Some bs) sz w = Inr (HTTPC_ERR_FAIL, Some bs, w') \<and>
    rx_bytes (rx w') = rx_bytes post \<and> live w' = live w"
proof -
  have z: "rx_bytes pre = chunk_header 0"
    using rx(3) by (simp add: chunk_header_def show_base.simps digit_char_0)
  have app: "rx_bytes (a @ b) = rx_bytes a @ rx_bytes b" for a b
    by (induction a rule: rx_bytes.induct) auto
  show ?thesis
    using chunked_header [OF ready plan rx(1,2) z, of bs sz]
    by (auto simp: chunked_body_def chunked_exit_def safe_free_def app)
qed

theorem chunked_recv_last_witness:
  "\<exists>w'. httpc_chunked_recv (Some client_up) (Some (replicate 16 NUL)) 16
       (world_init\<lparr>rx := [Rx_Data ''0'', Rx_Data [CR, LF], Rx_Data [CR, LF]]\<rparr>) =
       Inr (HTTPC_ERR_FAIL, Some (replicate 16 NUL), w') \<and>
     rx_bytes (rx w') = [CR, LF] \<and> live w' = []"
  using chunked_recv_last [of client_up
      "world_init\<lparr>rx := [Rx_Data ''0'', Rx_Data [CR, LF], Rx_Data [CR, LF]]\<rparr>"
      "[Rx_Data ''0'', Rx_Data [CR, LF]]" "[Rx_Data [CR, LF]]"]
  by (simp add: demo_defs transport_ready_def)

text \<open>
  A connection that is closed before the chunk header makes the call write in front of its buffer.
\<close>

theorem chunked_recv_closed_overrun:
  assumes ready: "transport_ready c" and plan: "alloc_plan w = []"
    and closed: "rx w = [] \<or> (\<exists>e es. rx w = Rx_Err e # es)"
  shows "httpc_chunked_recv (Some c) (Some bs) sz w = Inl Out_Of_Bounds"
proof -
  let ?w = "w\<lparr>live := next_id w # live w, next_id := next_id w + 1\<rparr>"
  obtain r v where r: "conn_read 1 ?w = (r, [], v)" "r \<le> 0"
    using closed by (auto simp: conn_read_def)
  then have "(\<lambda>n w. Inr (conn_read n w)) 1 ?w = (Inr (r, [], v) :: (int \<times> string \<times> world) res)"
    by simp
  from read_line_loop_step [where rcv = "\<lambda>n w. Inr (conn_read n w)", OF this, of "replicate 1024 NUL" 0 1024 0 NUL]
  have "read_line_loop (\<lambda>n w. Inr (conn_read n w)) (replicate 1024 NUL) 0 1024 0 NUL ?w =
      Inr (0, replicate 1024 NUL, v)"
    using r(2) by simp
  then show ?thesis
    using plan by (simp add: httpc_chunked_recv_def httpc_read_one_line_def
        httpc_recv_data_ready [OF ready] put_byte_def)
qed

theorem chunked_recv_closed_overrun_witness:
  "httpc_chunked_recv (Some client_up) (Some (replicate 16 NUL)) 16 world_init = Inl Out_Of_Bounds"
  by (rule chunked_recv_closed_overrun) (simp_all add: demo_defs transport_ready_def)

end
