(* ===== verification/Httpc_Header.thy ===== *)
theory Httpc_Header
  imports Httpc_Recv
begin

text \<open>
  The header buffer: filling it with a request (\<open>httpc_header_set\<close>), filling it with a
  response (\<open>httpc_handle_response\<close>) and looking a field up in it (\<open>httpc_header_get\<close>).
\<close>

section \<open>Looking a field up\<close>

text \<open>
  The response is stored as consecutive terminated strings. The scan looks for the field
  in the string at offset \<open>count\<close> and goes on behind its terminator. Its result is the
  offset of the occurrence.
\<close>

function header_scan :: "block \<Rightarrow> int \<Rightarrow> string \<Rightarrow> nat \<Rightarrow> nat option res" where
  "header_scan b used fld count =
     (if int count \<le> used then
        res_bind (str_at b count) (\<lambda>s.
        (case strstr s fld of
           Some k \<Rightarrow> Inr (Some (count + k))
         | None \<Rightarrow> header_scan b used fld (count + length s + 1)))
      else Inr None)"
  by pat_completeness auto
termination
  by (relation "measure (\<lambda>(b, used, fld, count). nat (used + 1 - int count))") auto

declare header_scan.simps [simp del]

text \<open>The result is an offset into the header buffer, \<open>None\<close> for the null pointer.\<close>

definition httpc_header_get :: "httpc option \<Rightarrow> string option \<Rightarrow> nat option res" where
  "httpc_header_get h fld =
     (case h of None \<Rightarrow> Inr None | Some c \<Rightarrow>
       (case header_node c of None \<Rightarrow> Inr None | Some node \<Rightarrow>
         (case (buf node, fld) of
            (Some b, Some f) \<Rightarrow>
              res_bind (header_scan b (buf_used node) f 0) (\<lambda>p.
              (case p of
                 None \<Rightarrow> Inr None
               | Some i \<Rightarrow>
                   (let i = i + length f + 1
                    in res_bind (get_byte b (int i)) (\<lambda>x.
                       Inr (Some (if x = CHR '' '' then i + 1 else i))))))
          | _ \<Rightarrow> Inr None)))"

section \<open>Filling in a request\<close>

text \<open>
  \<open>s\<close> is the text that the format and its arguments produce. \<open>vsnprintf\<close> writes at most
  the given number of bytes and returns the length of the whole text.
\<close>

definition httpc_header_set :: "httpc option \<Rightarrow> string \<Rightarrow> (int \<times> httpc option) res" where
  "httpc_header_set h s =
     (case h of None \<Rightarrow> Inr (HTTPC_ERR_PARAM, h) | Some c \<Rightarrow>
       (case header_node c of None \<Rightarrow> Inr (HTTPC_ERR_PARAM, h) | Some node \<Rightarrow>
         (case buf node of None \<Rightarrow> Inr (HTTPC_ERR_PARAM, h) | Some b \<Rightarrow>
            (let n = size_t_of (buf_len node - buf_used node);
                 len = (if int (length s) \<le> INT_MAX then int (length s) else -1)
             in res_bind (if n = 0 then Inr b
                          else put_bytes b (buf_used node) (take (n - 1) s @ [NUL])) (\<lambda>b.
                (let used = buf_used node + len
                 in if INT_MAX < used then Inl Int_Overflow
                    else
                      (let c = c\<lparr>header_node := Some (node\<lparr>buf := Some b, buf_used := used\<rparr>)\<rparr>
                       in if buf_len node \<le> used then Inr (HTTPC_ERR_FAIL, Some c)
                          else Inr (len, Some c))))))))"

section \<open>Receiving a response header\<close>

text \<open>
  The loop of \<open>httpc_handle_response\<close>: lines are read one behind the other, the last byte
  of each (its carriage return) becomes the terminator. The result is the block and
  \<open>buf_used\<close>.
\<close>

function response_loop ::
  "httpc \<Rightarrow> block \<Rightarrow> int \<Rightarrow> int \<Rightarrow> world \<Rightarrow> (block \<times> int \<times> world) res" where
  "response_loop c b len used w =
     res_bind (read_line_into c b used (len - used) w) (\<lambda>(count, b, w).
     if count \<le> 0 then Inr (b, used, w)
     else
       res_bind (get_byte b used) (\<lambda>first.
       if first = CR \<and> count = 1 then res_bind (put_byte b used NUL) (\<lambda>b. Inr (b, used, w))
       else
         res_bind (put_byte b (used + count - 1) NUL) (\<lambda>b.
         res_bind (str_at b (nat used)) (\<lambda>_.
         if len \<le> used + count then Inr (b, used + count, w)
         else response_loop c b len (used + count) w))))"
  by pat_completeness auto
termination
  by (relation "measure (\<lambda>(c, b, len, used, w). nat (len - used))") auto

declare response_loop.simps [simp del]

text \<open>Skipping blanks in front of the status code.\<close>

function skip_blanks :: "block \<Rightarrow> nat \<Rightarrow> nat res" where
  "skip_blanks b i =
     res_bind (get_byte b (int i)) (\<lambda>x. if x = CHR '' '' then skip_blanks b (i + 1) else Inr i)"
  by pat_completeness auto
termination
  by (relation "measure (\<lambda>(b, i). length b - i)") (auto simp: get_byte_def split: if_splits)

declare skip_blanks.simps [simp del]

definition parse_number :: "block \<Rightarrow> nat \<Rightarrow> int res" where
  "parse_number b i = res_bind (str_at b i) (\<lambda>s. Inr (int32_of (int (strtoul 10 s))))"

text \<open>What follows the loop: status code, then content length and transfer encoding.\<close>

definition response_body_fields :: "httpc \<Rightarrow> block \<Rightarrow> (int \<times> httpc) res" where
  "response_body_fields c b =
     (let c = c\<lparr>content_length := 0\<rparr>
      in res_bind (httpc_header_get (Some c) (Some ''Content-Length'')) (\<lambda>p.
         res_bind (case p of None \<Rightarrow> Inr 0 | Some j \<Rightarrow> parse_number b j) (\<lambda>cl.
         (let c = c\<lparr>content_length := cl, chunked := 0\<rparr>
          in if cl \<noteq> 0 then Inr (HTTPC_ERR_OK, c)
             else
               res_bind (httpc_header_get (Some c) (Some ''Transfer-Encoding'')) (\<lambda>p.
               (case p of
                  None \<Rightarrow> Inr (HTTPC_ERR_FAIL, c)
                | Some j \<Rightarrow>
                    res_bind (str_at b j) (\<lambda>t.
                    Inr (HTTPC_ERR_OK, if t = ''chunked'' then c\<lparr>chunked := 1\<rparr> else c))))))))"

definition response_fields :: "httpc \<Rightarrow> block \<Rightarrow> (int \<times> httpc) res" where
  "response_fields c b =
     res_bind (str_at b 0) (\<lambda>s.
     (case strstr s ''HTTP/1.'' of
        None \<Rightarrow> Inr (-1, c)
      | Some k \<Rightarrow>
          res_bind (skip_blanks b (k + 8)) (\<lambda>i.
          res_bind (parse_number b i) (\<lambda>code.
          response_body_fields (c\<lparr>response_code := code\<rparr>) b))))"

definition httpc_handle_response ::
  "httpc option \<Rightarrow> world \<Rightarrow> (int \<times> httpc option \<times> world) res" where
  "httpc_handle_response h w =
     (case h of None \<Rightarrow> Inr (HTTPC_ERR_PARAM, h, w) | Some c \<Rightarrow>
       (case header_node c of None \<Rightarrow> Inr (HTTPC_ERR_PARAM, h, w) | Some node \<Rightarrow>
         (case buf node of None \<Rightarrow> Inr (HTTPC_ERR_PARAM, h, w) | Some _ \<Rightarrow>
            res_bind (httpc_mem_node_reset (Some node)) (\<lambda>node.
            (case node of None \<Rightarrow> Inl Null_Deref | Some node \<Rightarrow>
              (case buf node of None \<Rightarrow> Inl Null_Deref | Some b \<Rightarrow>
                 res_bind (response_loop c b (buf_len node) (buf_used node) w) (\<lambda>(b, used, w).
                 (let node = node\<lparr>buf := Some b, buf_used := used\<rparr>
                  in res_bind (response_fields (c\<lparr>header_node := Some node\<rparr>) b) (\<lambda>(ret, c).
                     Inr (ret, Some c, w))))))))))"

section \<open>Facts about filling in a request\<close>

text \<open>The header buffer holds the text \<open>t\<close> and \<open>q\<close> behind it.\<close>

definition header_holds :: "httpc \<Rightarrow> string \<Rightarrow> string \<Rightarrow> bool" where
  "header_holds c t q \<longleftrightarrow>
     (\<exists>n. header_node c = Some n \<and> buf n = Some (t @ q) \<and> buf_used n = int (length t) \<and>
       buf_len n = int (length t + length q) \<and> buf_len n \<le> INT_MAX)"

definition with_header :: "httpc \<Rightarrow> block \<Rightarrow> int \<Rightarrow> httpc" where
  "with_header c b used =
     c\<lparr>header_node := Some \<lparr>buf = Some b, buf_len = int (length b), buf_used = used\<rparr>\<rparr>"

lemma header_holds_node:
  assumes "header_holds c t q"
  shows "header_node c = Some \<lparr>buf = Some (t @ q), buf_len = int (length t + length q), buf_used = int (length t)\<rparr>"
  using assms by (auto simp: header_holds_def)

lemma header_set_fits:
  assumes h: "header_holds c t q" and fit: "length s < length q"
  shows "httpc_header_set (Some c) s =
    Inr (int (length s), Some (with_header c (t @ s @ NUL # drop (length s + 1) q) (int (length t + length s))))"
proof -
  note n = header_holds_node [OF h]
  have max: "int (length t + length q) \<le> INT_MAX" using h by (auto simp: header_holds_def)
  have sz: "size_t_of (int (length q)) = length q"
    using max by (subst size_t_of_nonneg) simp_all
  have "put_bytes (t @ q) (int (length t)) (s @ [NUL]) = Inr (t @ (s @ [NUL]) @ drop (length s + 1) q)"
    using put_bytes_append [of "int (length t)" t "s @ [NUL]" "take (length s + 1) q" "drop (length s + 1) q"] fit
    by simp
  moreover have "q \<noteq> []" using fit by auto
  ultimately show ?thesis
    using fit max by (simp add: httpc_header_set_def n sz with_header_def Let_def)
qed

text \<open>Several texts one after the other, as a caller builds a request.\<close>

fun header_set_all :: "httpc \<Rightarrow> string list \<Rightarrow> httpc res" where
  "header_set_all c [] = Inr c"
| "header_set_all c (s # ss) =
     res_bind (httpc_header_set (Some c) s) (\<lambda>(r, h).
     (case h of None \<Rightarrow> Inl Null_Deref | Some c \<Rightarrow> header_set_all c ss))"

lemma with_header_idem [simp]: "with_header (with_header c b u) b' u' = with_header c b' u'"
  by (simp add: with_header_def)

lemma header_holds_with:
  "int (length t + length q) \<le> INT_MAX \<Longrightarrow> header_holds (with_header c (t @ q) (int (length t))) t q"
  by (simp add: header_holds_def with_header_def)

lemma header_set_all_fits:
  "header_holds c t q \<Longrightarrow> length (concat ss) < length q \<Longrightarrow> ss \<noteq> [] \<Longrightarrow>
   header_set_all c ss =
     Inr (with_header c (t @ concat ss @ NUL # drop (length (concat ss) + 1) q) (int (length t + length (concat ss))))"
proof (induction ss arbitrary: c t q)
  case Nil
  then show ?case by simp
next
  case (Cons s ss)
  let ?q = "NUL # drop (length s + 1) q"
  let ?c = "with_header c ((t @ s) @ ?q) (int (length (t @ s)))"
  have max: "int (length t + length q) \<le> INT_MAX" using Cons.prems(1) by (auto simp: header_holds_def)
  have fit: "length s < length q" using Cons.prems(2) by simp
  have h: "header_holds ?c (t @ s) ?q"
    using max fit by (intro header_holds_with) simp
  have step: "header_set_all c (s # ss) = header_set_all ?c ss"
    by (simp add: header_set_fits [OF Cons.prems(1) fit])
  show ?case
  proof (cases "ss = []")
    case True
    then show ?thesis by (simp add: header_set_fits [OF Cons.prems(1) fit])
  next
    case False
    have "header_set_all ?c ss = Inr (with_header ?c ((t @ s) @ concat ss @ NUL # drop (length (concat ss) + 1) ?q)
        (int (length (t @ s) + length (concat ss))))"
      using False Cons.prems(2) fit by (intro Cons.IH [OF h]) auto
    then show ?thesis unfolding step by (simp add: add.commute add.left_commute)
  qed
qed

text \<open>A text that does not fit: the buffer is filled, the call fails, \<open>buf_used\<close> passes the end.\<close>

lemma header_set_full:
  assumes h: "header_holds c t q" and full: "length q \<le> length s" "q \<noteq> []"
    and max: "int (length t + length s) \<le> INT_MAX"
  shows "httpc_header_set (Some c) s =
    Inr (HTTPC_ERR_FAIL, Some (c\<lparr>header_node := Some
           \<lparr>buf = Some (t @ take (length q - 1) s @ [NUL]), buf_len = int (length t + length q),
            buf_used = int (length t + length s)\<rparr>\<rparr>))"
proof -
  note n = header_holds_node [OF h]
  have sz: "size_t_of (int (length q)) = length q"
    using max full by (subst size_t_of_nonneg) simp_all
  have "put_bytes (t @ q) (int (length t)) (take (length q - 1) s @ [NUL]) =
      Inr (t @ (take (length q - 1) s @ [NUL]))"
    using put_bytes_append [of "int (length t)" t "take (length q - 1) s @ [NUL]" q "[]"] full
    by (cases q) simp_all
  then show ?thesis
    using full max by (simp add: httpc_header_set_def n sz Let_def)
qed

lemma size_t_of_minus:
  assumes "0 < k" and "k \<le> INT_MAX"
  shows "INT_MAX < int (size_t_of (- k))"
proof -
  have "size_t_of (- k) = nat (2 ^ 64 + - k)" using assms by (intro size_t_of_neg) auto
  then show ?thesis using assms by (simp add: INT_MAX_def)
qed

text \<open>
  After that the next call writes behind the buffer, and sending reads behind it.
\<close>

theorem header_set_overrun_after_full:
  assumes n: "header_node c = Some \<lparr>buf = Some b, buf_len = int (length b), buf_used = used\<rparr>"
    and used: "int (length b) < used" "used \<le> INT_MAX"
  shows "httpc_header_set (Some c) s = Inl Out_Of_Bounds"
proof -
  have "INT_MAX < int (size_t_of (int (length b) - used))"
    using size_t_of_minus [of "used - int (length b)"] used by simp
  then have "size_t_of (int (length b) - used) \<noteq> 0" by (auto simp: INT_MAX_def)
  then show ?thesis using used by (simp add: httpc_header_set_def n Let_def put_bytes_def)
qed

theorem header_set_overrun_after_full_witness:
  "httpc_header_set (Some (client_up\<lparr>header_node :=
       Some \<lparr>buf = Some (''GET'' @ [NUL]), buf_len = 4, buf_used = 16\<rparr>\<rparr>)) ''x'' = Inl Out_Of_Bounds"
  by (rule header_set_overrun_after_full [where b = "''GET'' @ [NUL]" and used = 16]) (simp_all add: INT_MAX_def)

text \<open>
  A text that does not fit is cut off with a terminator in the last byte, and the call fails with buf_used at or behind the end.
\<close>

theorem header_set_truncates:
  assumes n: "header_node c = Some \<lparr>buf = Some (t @ q), buf_len = int (length t + length q), buf_used = int (length t)\<rparr>"
    and "q \<noteq> []" and "length q \<le> length s" and "int (length t + length s) \<le> INT_MAX"
  shows "\<exists>c' n'. httpc_header_set (Some c) s = Inr (HTTPC_ERR_FAIL, Some c') \<and> header_node c' = Some n' \<and>
    buf n' = Some (t @ take (length q - 1) s @ [NUL]) \<and> buf_len n' = int (length t + length q) \<and>
    buf_len n' \<le> buf_used n'"
proof -
  have "header_holds c t q" using assms by (simp add: header_holds_def)
  from header_set_full [OF this assms(3,2,4)] assms(3) show ?thesis by simp
qed

theorem header_set_truncates_witness:
  "\<exists>c' n'. httpc_header_set (Some (client_up\<lparr>header_node :=
       Some \<lparr>buf = Some (''GET'' @ replicate 5 NUL), buf_len = 8, buf_used = 3\<rparr>\<rparr>)) '' /index'' =
       Inr (HTTPC_ERR_FAIL, Some c') \<and> header_node c' = Some n' \<and> buf n' = Some (''GET /in'' @ [NUL]) \<and>
       buf_len n' \<le> buf_used n'"
proof -
  let ?c = "client_up\<lparr>header_node := Some \<lparr>buf = Some (''GET'' @ replicate 5 NUL), buf_len = 8, buf_used = 3\<rparr>\<rparr>"
  have "\<exists>c' n'. httpc_header_set (Some ?c) '' /index'' = Inr (HTTPC_ERR_FAIL, Some c') \<and>
    header_node c' = Some n' \<and> buf n' = Some (''GET'' @ take (length (replicate 5 NUL) - 1) '' /index'' @ [NUL]) \<and>
    buf_len n' = int (length ''GET'' + length (replicate 5 NUL)) \<and> buf_len n' \<le> buf_used n'"
    by (rule header_set_truncates) (simp_all add: INT_MAX_def)
  moreover have "''GET'' @ take (length (replicate 5 NUL) - 1) '' /index'' @ [NUL] = ''GET /in'' @ [NUL]"
    by simp
  ultimately show ?thesis by metis
qed

section \<open>Facts about looking a field up\<close>

text \<open>The stored form of lines, and where the scan finds a field in them.\<close>

definition stored :: "string list \<Rightarrow> string" where
  "stored ls = concat (map (\<lambda>l. l @ [NUL]) ls)"

fun field_offset :: "string \<Rightarrow> string list \<Rightarrow> nat option" where
  "field_offset f [] = None"
| "field_offset f (l # ls) =
     (case strstr l f of
        Some k \<Rightarrow> Some k
      | None \<Rightarrow> map_option (\<lambda>i. length l + 1 + i) (field_offset f ls))"

lemma stored_simps [simp]: "stored [] = []" "stored (l # ls) = l @ NUL # stored ls"
  by (simp_all add: stored_def)

lemma stored_append: "stored (ls @ ms) = stored ls @ stored ms"
  by (simp add: stored_def)

lemma header_scan_step:
  "int count \<le> used \<Longrightarrow> str_at b count = Inr s \<Longrightarrow> header_scan b used f count =
     (case strstr s f of
        Some k \<Rightarrow> Inr (Some (count + k))
      | None \<Rightarrow> header_scan b used f (count + length s + 1))"
  by (subst header_scan.simps) simp

lemma header_scan_end: "used < int count \<Longrightarrow> header_scan b used f count = Inr None"
  by (subst header_scan.simps) simp

lemma header_scan_stored:
  assumes "f \<noteq> []" and "\<forall>l \<in> set ls. nul_free l" and "count = length p"
    and "used = int (length p + length (stored ls))"
  shows "header_scan (p @ stored ls @ NUL # r) used f count =
    Inr (map_option (\<lambda>i. length p + i) (field_offset f ls))"
  using assms(2-)
proof (induction ls arbitrary: p count)
  case Nil
  have "str_at (p @ NUL # r) (length p) = Inr []" using str_at_append [of "length p" p "[]" r] by simp
  with Nil \<open>f \<noteq> []\<close> show ?case
    by (simp add: header_scan_step [of "length p" "int (length p)" "p @ NUL # r" "[]"] header_scan_end)
next
  case (Cons l ls)
  have s: "str_at (p @ (l @ NUL # stored ls) @ NUL # r) count = Inr l"
    using Cons.prems str_at_append [of count p l "stored ls @ NUL # r"] by simp
  have "header_scan ((p @ l @ [NUL]) @ stored ls @ NUL # r) used f (count + length l + 1) =
      Inr (map_option (\<lambda>i. length (p @ l @ [NUL]) + i) (field_offset f ls))"
    using Cons.prems by (intro Cons.IH) auto
  moreover have "header_scan (p @ (l @ NUL # stored ls) @ NUL # r) used f count =
      (case strstr l f of Some k \<Rightarrow> Inr (Some (count + k))
       | None \<Rightarrow> header_scan (p @ (l @ NUL # stored ls) @ NUL # r) used f (count + length l + 1))"
    using Cons.prems by (intro header_scan_step [OF _ s]) simp
  ultimately show ?case
    using Cons.prems(2) by (simp add: option.map_comp o_def add.assoc split: option.split)
qed

text \<open>A field that is present in a line of the form \<open>name: value\<close>.\<close>

lemma strstr_field: "strstr (f @ r) f = Some 0"
  by (rule strstr_prefix)

lemma field_offset_at:
  assumes "\<forall>l \<in> set ls. \<not> sublist f l" and "strstr m f = Some k"
  shows "field_offset f (ls @ m # ms) = Some (length (stored ls) + k)"
  using assms by (induction ls) (auto simp: strstr_None_iff [symmetric])

lemma field_offset_absent: "\<forall>l \<in> set ls. \<not> sublist f l \<Longrightarrow> field_offset f ls = None"
  by (induction ls) (auto simp: strstr_None_iff [symmetric])

lemma field_offset_None_iff: "field_offset f ls = None \<longleftrightarrow> (\<forall>l \<in> set ls. \<not> sublist f l)"
  by (induction ls) (auto simp: strstr_None_iff [symmetric] split: option.splits)

definition response_header :: "httpc \<Rightarrow> string list \<Rightarrow> string \<Rightarrow> bool" where
  "response_header c ls r \<longleftrightarrow>
     (\<exists>n. header_node c = Some n \<and> buf n = Some (stored ls @ NUL # r) \<and>
       buf_used n = int (length (stored ls))) \<and> (\<forall>l \<in> set ls. nul_free l)"

lemma header_get_absent:
  "response_header c ls r \<Longrightarrow> f \<noteq> [] \<Longrightarrow> \<forall>l \<in> set ls. \<not> sublist f l \<Longrightarrow>
   httpc_header_get (Some c) (Some f) = Inr None"
  using header_scan_stored [of f ls 0 "[]"]
  by (auto simp: response_header_def httpc_header_get_def field_offset_absent)

section \<open>Facts about receiving a response\<close>

text \<open>The header of a response on the wire: its lines and the blank line.\<close>

definition response_stream :: "string list \<Rightarrow> string" where
  "response_stream ls = concat (map (\<lambda>l. l @ [CR, LF]) ls) @ [CR, LF]"

definition header_line :: "string \<Rightarrow> bool" where
  "header_line l \<longleftrightarrow> l \<noteq> [] \<and> nul_free l \<and> no_crlf NUL l"

lemma response_stream_simps:
  "response_stream [] = [CR, LF]"
  "response_stream (l # ls) = l @ [CR, LF] @ response_stream ls"
  by (simp_all add: response_stream_def)

text \<open>A line of the stream, read behind the lines that are stored already.\<close>

lemma read_line_at:
  assumes ready: "transport_ready c" and "rx_intact (rx w)"
    and "rx_bytes (rx w) = l @ [CR, LF] @ rest" and "no_crlf NUL l"
    and "int (length l) + 1 < sz" and "used = int (length p)" and "length l < length q"
  shows "\<exists>w'. read_line_into c (p @ q) used sz w =
      Inr (int (length l) + 1, p @ l @ CR # drop (length l + 1) q, w') \<and>
    rx_intact (rx w') \<and> rx_bytes (rx w') = rest"
proof -
  have "no_crlf NUL (l @ [CR])" using assms(4) by (rule no_crlf_snoc) simp
  then have "\<exists>w'. read_line_loop (\<lambda>n w. Inr (conn_read n w)) (p @ q) used sz 0 NUL w =
      Inr (0 + int (length (l @ [CR])), p @ (l @ [CR]) @ drop (length (l @ [CR])) q, w') \<and>
      rx_intact (rx w') \<and> rx_bytes (rx w') = rest"
    using assms by (intro conn.read_line_run) auto
  then show ?thesis by (auto simp: httpc_recv_data_ready [OF ready] add.commute)
qed

lemma response_loop_run:
  assumes ready: "transport_ready c"
  shows "rx_intact (rx w) \<Longrightarrow> rx_bytes (rx w) = response_stream ls @ rest \<Longrightarrow>
    \<forall>l \<in> set ls. header_line l \<Longrightarrow> used = int (length p) \<Longrightarrow> len = int (length p + length q) \<Longrightarrow>
    length (stored ls) + 1 < length q \<Longrightarrow>
    \<exists>w'. response_loop c (p @ q) len used w =
        Inr (p @ stored ls @ NUL # drop (length (stored ls) + 1) q, used + int (length (stored ls)), w') \<and>
      rx_intact (rx w') \<and> rx_bytes (rx w') = rest"
proof (induction ls arbitrary: w p q used)
  case Nil
  have "\<exists>w'. read_line_into c (p @ q) used (len - used) w =
      Inr (int (length ([] :: string)) + 1, p @ [] @ CR # drop (length ([] :: string) + 1) q, w') \<and>
    rx_intact (rx w') \<and> rx_bytes (rx w') = rest"
    using Nil by (intro read_line_at [OF ready]) (auto simp: response_stream_simps)
  then obtain w' where r: "read_line_into c (p @ q) used (len - used) w = Inr (1, p @ CR # drop 1 q, w')"
    "rx_intact (rx w')" "rx_bytes (rx w') = rest"
    by auto
  have "response_loop c (p @ q) len used w = Inr (p @ NUL # drop 1 q, used, w')"
    unfolding response_loop.simps [of c "p @ q"] r(1) res_bind_Inr prod.case
    by (simp add: Nil(4) get_byte_append put_byte_append)
  then show ?case using r by simp
next
  case (Cons l ls)
  have l: "l \<noteq> []" "nul_free l" "no_crlf NUL l" using Cons.prems(3) by (auto simp: header_line_def)
  obtain w1 where r: "read_line_into c (p @ q) used (len - used) w =
      Inr (int (length l) + 1, p @ l @ CR # drop (length l + 1) q, w1)"
    and w1: "rx_intact (rx w1)" "rx_bytes (rx w1) = response_stream ls @ rest"
    using read_line_at [OF ready Cons.prems(1), of l "response_stream ls @ rest" "len - used" used p q]
      Cons.prems l by (auto simp: response_stream_simps)
  obtain x xs where x: "l = x # xs" using l(1) by (cases l) auto
  have first: "get_byte (p @ l @ CR # drop (length l + 1) q) used = Inr x"
    using Cons.prems(4) by (simp add: x get_byte_append)
  have put: "put_byte (p @ l @ CR # drop (length l + 1) q) (used + (int (length l) + 1) - 1) NUL =
      Inr ((p @ l) @ NUL # drop (length l + 1) q)"
    using Cons.prems(4) put_byte_append [of "used + (int (length l) + 1) - 1" "p @ l" CR] by simp
  have str: "str_at ((p @ l) @ NUL # drop (length l + 1) q) (nat used) = Inr l"
    using Cons.prems(4) str_at_append [of "nat used" p l] l(2) by simp
  let ?p = "p @ l @ [NUL]" and ?q = "drop (length l + 1) q"
  have step: "response_loop c (p @ q) len used w = response_loop c (?p @ ?q) len (used + (int (length l) + 1)) w1"
    using Cons.prems(4-6) first put str x
    unfolding response_loop.simps [of c "p @ q"] r res_bind_Inr prod.case by simp
  have "\<exists>w'. response_loop c (?p @ ?q) len (used + (int (length l) + 1)) w1 =
        Inr (?p @ stored ls @ NUL # drop (length (stored ls) + 1) ?q,
             used + (int (length l) + 1) + int (length (stored ls)), w') \<and>
      rx_intact (rx w') \<and> rx_bytes (rx w') = rest"
    using Cons.prems w1 by (intro Cons.IH) auto
  then show ?case unfolding step by (simp add: algebra_simps)
qed

text \<open>The whole operation reduces to the interpretation of the stored lines.\<close>

definition with_response :: "httpc \<Rightarrow> string list \<Rightarrow> string \<Rightarrow> httpc" where
  "with_response c ls r =
     c\<lparr>header_node := Some \<lparr>buf = Some (stored ls @ NUL # r), buf_len = int (length (stored ls @ NUL # r)),
                            buf_used = int (length (stored ls))\<rparr>\<rparr>"

lemma with_response_header:
  "\<forall>l \<in> set ls. nul_free l \<Longrightarrow> response_header (with_response c ls r) ls r"
  by (simp add: response_header_def with_response_def)

lemma mem_node_reset_wf:
  assumes "node_wf n"
  shows "httpc_mem_node_reset (Some n) =
    Inr (Some (n\<lparr>buf := Some (replicate (nat (buf_len n)) NUL), buf_used := 0\<rparr>))"
proof -
  obtain b where b: "buf n = Some b" "int (length b) = buf_len n" "0 < buf_len n" "buf_len n \<le> INT_MAX"
    using assms by (auto simp: node_wf_def)
  then have s: "size_t_of (buf_len n) = nat (buf_len n)" by (intro size_t_of_nonneg) auto
  have "put_bytes b 0 (replicate (nat (buf_len n)) NUL) = Inr (replicate (nat (buf_len n)) NUL)"
    using b by (subst put_bytes_front) auto
  then show ?thesis using b s by (simp add: httpc_mem_node_reset_def)
qed

lemma handle_response_run:
  assumes ready: "transport_ready c" and n: "header_node c = Some n" "node_wf n"
    and rx: "rx_intact (rx w)" "rx_bytes (rx w) = response_stream ls @ rest"
    and ls: "\<forall>l \<in> set ls. header_line l" and fits: "int (length (stored ls)) + 1 < buf_len n"
  shows "\<exists>r w'. httpc_handle_response (Some c) w =
      res_bind (response_fields (with_response c ls r) (stored ls @ NUL # r)) (\<lambda>(ret, c). Inr (ret, Some c, w')) \<and>
    rx_intact (rx w') \<and> rx_bytes (rx w') = rest"
proof -
  let ?b = "replicate (nat (buf_len n)) NUL"
  let ?r = "drop (length (stored ls) + 1) ?b"
  obtain b where b: "buf n = Some b" "int (length b) = buf_len n" using n by (auto simp: node_wf_def)
  have short: "Suc (length (stored ls)) < nat (buf_len n)" using fits by simp
  obtain w' where loop: "response_loop c ([] @ ?b) (buf_len n) 0 w =
      Inr ([] @ stored ls @ NUL # ?r, 0 + int (length (stored ls)), w')"
    and w': "rx_intact (rx w')" "rx_bytes (rx w') = rest"
    using response_loop_run [OF ready rx ls, of 0 "[]" "buf_len n" ?b] fits short by auto
  have len: "buf_len n = int (length (stored ls @ NUL # ?r))" using fits by simp
  have "n\<lparr>buf := Some (stored ls @ NUL # ?r), buf_used := int (length (stored ls))\<rparr> =
      \<lparr>buf = Some (stored ls @ NUL # ?r), buf_len = int (length (stored ls @ NUL # ?r)),
       buf_used = int (length (stored ls))\<rparr>"
    using len by (intro mem_node.equality) simp_all
  then have "httpc_handle_response (Some c) w =
      res_bind (response_fields (with_response c ls ?r) (stored ls @ NUL # ?r)) (\<lambda>(ret, c). Inr (ret, Some c, w'))"
    using n(1) b loop
    by (simp add: httpc_handle_response_def mem_node_reset_wf [OF n(2)] with_response_def)
  with w' show ?thesis by blast
qed

text \<open>The status line gives the response code; what is left are the two fields.\<close>

definition status_line :: "nat \<Rightarrow> string \<Rightarrow> string" where
  "status_line code reason = ''HTTP/1.1 '' @ show_base 10 code @ reason"

lemma strstr_status: "strstr (status_line code reason) ''HTTP/1.'' = Some 0"
  using strstr_prefix [of "''HTTP/1.''" "''1 '' @ show_base 10 code @ reason"] by (simp add: status_line_def)

lemma skip_blanks_one:
  assumes "length p = i" and "x \<noteq> CHR '' ''"
  shows "skip_blanks (p @ CHR '' '' # x # q) i = Inr (i + 1)"
proof -
  have a: "get_byte (p @ CHR '' '' # x # q) (int i) = Inr (CHR '' '')"
    using assms by (intro get_byte_append) simp
  have b: "get_byte (p @ CHR '' '' # x # q) (int (i + 1)) = Inr x"
    using assms get_byte_append [of "int (i + 1)" "p @ '' ''" x q] by simp
  have "skip_blanks (p @ CHR '' '' # x # q) (i + 1) = Inr (i + 1)"
    using assms(2) by (subst skip_blanks.simps) (simp add: b [simplified])
  then show ?thesis by (subst skip_blanks.simps) (simp add: a)
qed

lemma parse_number_shown:
  assumes "length p = i" and "int n \<le> INT_MAX" and "t = [] \<or> \<not> is_base_digit 10 (hd t)" and "nul_free t"
  shows "parse_number (p @ show_base 10 n @ t @ NUL # r) i = Inr (int n)"
proof -
  have "str_at (p @ (show_base 10 n @ t) @ NUL # r) i = Inr (show_base 10 n @ t)"
    using assms by (intro str_at_append) (simp_all add: show_base_chars)
  then show ?thesis
    using assms strtoul_show10 [of n t] by (simp add: parse_number_def ULONG_MAX_def INT_MAX_def int32_of_id)
qed

lemma response_fields_status:
  assumes code: "int code \<le> INT_MAX" and t: "t = [] \<or> \<not> is_base_digit 10 (hd t)" "nul_free t"
  shows "response_fields c (status_line code t @ NUL # r) =
    response_body_fields (c\<lparr>response_code := int code\<rparr>) (status_line code t @ NUL # r)"
proof -
  let ?b = "status_line code t @ NUL # r"
  obtain x xs where x: "show_base 10 code = x # xs" "x \<noteq> CHR '' ''"
    using show_base_not_Nil [of 10 code] show_base_notin [of 10 "CHR '' ''" code]
    by (cases "show_base 10 code") auto
  have "nul_free (status_line code t)" using t(2) by (simp add: status_line_def show_base_chars)
  then have str: "str_at ?b 0 = Inr (status_line code t)"
    by (rule str_at_here)
  have skip: "skip_blanks ?b (0 + 8) = Inr 9"
    using skip_blanks_one [of "''HTTP/1.1''" 8 x "xs @ t @ NUL # r"] x
    by (simp add: status_line_def)
  have num: "parse_number ?b 9 = Inr (int code)"
    using parse_number_shown [of "''HTTP/1.1 ''" 9 code t r] code t
    by (simp add: status_line_def)
  show ?thesis
    unfolding response_fields_def [of c ?b] str res_bind_Inr strstr_status option.case skip num ..
qed

text \<open>Where the value of a stored field is.\<close>

lemma header_get_at:
  assumes h: "response_header c (ls @ (f @ '': '' @ v) # ms) r"
    and "f \<noteq> []" and "\<forall>l \<in> set ls. \<not> sublist f l"
  shows "httpc_header_get (Some c) (Some f) = Inr (Some (length (stored ls) + length f + 2))"
    and "str_at (stored (ls @ (f @ '': '' @ v) # ms) @ NUL # r) (length (stored ls) + length f + 2) = Inr v"
proof -
  let ?m = "f @ CHR '':'' # CHR '' '' # v"
  let ?L = "ls @ ?m # ms"
  obtain n where n: "header_node c = Some n" "buf n = Some (stored ?L @ NUL # r)"
      "buf_used n = int (length (stored ?L))" and nf: "\<forall>l \<in> set ?L. nul_free l"
    using h by (auto simp: response_header_def)
  have scan: "header_scan (stored ?L @ NUL # r) (int (length (stored ?L))) f 0 = Inr (Some (length (stored ls)))"
    using header_scan_stored [of f ?L 0 "[]" "int (length (stored ?L))" r] nf assms(2,3)
      field_offset_at [of ls f ?m 0 ms] by (simp add: strstr_prefix)
  let ?p = "stored ls @ f @ '':''"
  have b: "stored ?L @ NUL # r = ?p @ CHR '' '' # v @ NUL # stored ms @ NUL # r"
    by (simp add: stored_append)
  have g: "get_byte (stored ?L @ NUL # r) (int (length (stored ls) + length f + 1)) = Inr (CHR '' '')"
    unfolding b by (rule get_byte_append) simp
  have "nul_free v" using nf by simp
  then show "str_at (stored (ls @ (f @ '': '' @ v) # ms) @ NUL # r) (length (stored ls) + length f + 2) = Inr v"
    using str_at_append [of "length (stored ls) + length f + 2" "?p @ '' ''" v "stored ms @ NUL # r"]
    by (simp add: stored_append)
  show "httpc_header_get (Some c) (Some f) = Inr (Some (length (stored ls) + length f + 2))"
    using scan g n by (simp add: httpc_header_get_def Let_def)
qed

lemma response_header_update [simp]:
  "response_header (c\<lparr>response_code := x\<rparr>) ls r = response_header c ls r"
  "response_header (c\<lparr>content_length := y\<rparr>) ls r = response_header c ls r"
  "response_header (c\<lparr>chunked := z\<rparr>) ls r = response_header c ls r"
  by (simp_all add: response_header_def)

lemma shown_stored:
  "stored ls @ p @ show_base 10 n @ NUL # q = (stored ls @ p) @ show_base 10 n @ [] @ NUL # q"
  by simp

text \<open>The number in a stored field.\<close>

lemma field_number:
  assumes "int m \<le> INT_MAX"
  shows "parse_number (stored (ls @ (f @ '': '' @ show_base 10 m) # ms) @ NUL # r) (length (stored ls) + length f + 2) =
    Inr (int m)"
  using parse_number_shown [of "stored ls @ f @ '': ''" "length (stored ls) + length f + 2" m "[]" "stored ms @ NUL # r"]
    assms by (simp add: stored_append)

definition length_line :: "nat \<Rightarrow> string" where
  "length_line m = ''Content-Length: '' @ show_base 10 m"

text \<open>
  C1. For a response on a connected client that arrives without read errors, however it is split into reads:
  a status line whose code fits an int and has no further digit behind it, other non-empty lines, and a
  field Content-Length with a positive length that fits an int. If no line before that field contains the
  text Content-Length, and all lines with their terminators and one byte more are shorter than the header
  buffer, httpc_handle_response succeeds, sets the response code and the content length, clears chunked, and
  leaves exactly the body in the stream.
\<close>

theorem handle_response_content_length:
  assumes ready: "transport_ready c" and n: "header_node c = Some n" "node_wf n"
    and rx: "rx_intact (rx w)"
      "rx_bytes (rx w) = response_stream ((status_line code t # ls) @ length_line m # ms) @ body"
    and ls: "\<forall>l \<in> set ((status_line code t # ls) @ length_line m # ms). header_line l"
    and fits: "int (length (stored ((status_line code t # ls) @ length_line m # ms))) + 1 < buf_len n"
    and code: "int code \<le> INT_MAX" and t: "t = [] \<or> \<not> is_base_digit 10 (hd t)"
    and m: "0 < m" "int m \<le> INT_MAX" and first: "\<forall>l \<in> set (status_line code t # ls). \<not> sublist ''Content-Length'' l"
  shows "\<exists>c' w'. httpc_handle_response (Some c) w = Inr (HTTPC_ERR_OK, Some c', w') \<and>
    response_code c' = int code \<and> content_length c' = int m \<and> chunked c' = 0 \<and> rx_bytes (rx w') = body"
proof -
  let ?L = "(status_line code t # ls) @ length_line m # ms"
  obtain r w' where run: "httpc_handle_response (Some c) w =
      res_bind (response_fields (with_response c ?L r) (stored ?L @ NUL # r)) (\<lambda>(ret, c). Inr (ret, Some c, w'))"
    and w': "rx_bytes (rx w') = body"
    using handle_response_run [OF ready n rx ls fits] by blast
  let ?c = "(with_response c ?L r)\<lparr>response_code := int code, content_length := 0\<rparr>"
  have nf: "\<forall>l \<in> set ?L. nul_free l" using ls by (auto simp: header_line_def)
  then have hdr: "response_header ?c ((status_line code t # ls) @ (''Content-Length'' @ '': '' @ show_base 10 m) # ms) r"
    using with_response_header [OF nf, of c r] by (simp add: length_line_def)
  note at = header_get_at [OF hdr _ first]
  have "nul_free t" using ls by (simp add: header_line_def status_line_def)
  from response_fields_status [OF code t this, of "with_response c ?L r" "stored (ls @ length_line m # ms) @ NUL # r"]
  have "response_fields (with_response c ?L r) (stored ?L @ NUL # r) =
      Inr (HTTPC_ERR_OK, ?c\<lparr>content_length := int m, chunked := 0\<rparr>)"
    using at(1) field_number [OF m(2), of "status_line code t # ls" "''Content-Length''" ms r] m(1)
    by (simp add: response_body_fields_def Let_def length_line_def)
  then show ?thesis using run w' by simp
qed

lemma show_dec_samples: "show_base 10 200 = ''200''" "show_base 10 5 = ''5''"
  by code_simp+

lemma sample_status: "status_line 200 '' OK'' = ''HTTP/1.1 200 OK''"
  by (simp add: status_line_def show_dec_samples)

lemma sample_length: "length_line 5 = ''Content-Length: 5''"
  by (simp add: length_line_def show_dec_samples)

definition client_buf :: "nat \<Rightarrow> httpc" where
  "client_buf n = client_up\<lparr>header_node := Some \<lparr>buf = Some (replicate n NUL), buf_len = int n, buf_used = 0\<rparr>\<rparr>"

lemma client_buf_ready: "transport_ready (client_buf n)"
  by (simp add: client_buf_def transport_ready_def demo_defs)

lemma client_buf_node: "0 < n \<Longrightarrow> int n \<le> INT_MAX \<Longrightarrow>
  header_node (client_buf n) = Some \<lparr>buf = Some (replicate n NUL), buf_len = int n, buf_used = 0\<rparr> \<and>
  node_wf \<lparr>buf = Some (replicate n NUL), buf_len = int n, buf_used = 0\<rparr>"
  by (simp add: client_buf_def node_wf_def)

theorem handle_response_content_length_witness:
  "\<exists>c' w'. httpc_handle_response (Some (client_buf 64))
      (world_init\<lparr>rx := [Rx_Data (''HTTP/1.1 200 OK'' @ [CR, LF] @ ''Server: a'' @ [CR]),
                         Rx_Data ([LF] @ ''Content-Length: 5'' @ [CR, LF, CR, LF] @ ''hello'')]\<rparr>) =
      Inr (HTTPC_ERR_OK, Some c', w') \<and>
    response_code c' = 200 \<and> content_length c' = 5 \<and> chunked c' = 0 \<and> rx_bytes (rx w') = ''hello''"
proof -
  let ?w = "world_init\<lparr>rx := [Rx_Data (''HTTP/1.1 200 OK'' @ [CR, LF] @ ''Server: a'' @ [CR]),
                         Rx_Data ([LF] @ ''Content-Length: 5'' @ [CR, LF, CR, LF] @ ''hello'')]\<rparr>"
  have "\<exists>c' w'. httpc_handle_response (Some (client_buf 64)) ?w = Inr (HTTPC_ERR_OK, Some c', w') \<and>
    response_code c' = int 200 \<and> content_length c' = int 5 \<and> chunked c' = 0 \<and> rx_bytes (rx w') = ''hello''"
    by (rule handle_response_content_length [where t = "'' OK''" and ls = "[''Server: a'']" and ms = "[]",
          OF client_buf_ready client_buf_node [THEN conjunct1] client_buf_node [THEN conjunct2]])
      (simp_all add: INT_MAX_def sample_status sample_length world_init_def response_stream_simps header_line_def
        strstr_None_iff [symmetric] is_base_digit_def digit_val_def)
  then show ?thesis by simp
qed

text \<open>
  C28. For a response on a connected client that arrives without read errors, however it is split into
  reads, with a status line whose code fits an int and has no further digit behind it and with
  Transfer-Encoding: chunked: if no line contains the text Content-Length, no line before that field
  contains Transfer-Encoding, and all lines with their terminators and one byte more are shorter than the
  header buffer, httpc_handle_response succeeds, sets the response code and chunked, and leaves exactly the
  body in the stream.
\<close>

theorem handle_response_chunked:
  assumes ready: "transport_ready c" and n: "header_node c = Some n" "node_wf n"
    and rx: "rx_intact (rx w)"
      "rx_bytes (rx w) = response_stream ((status_line code t # ls) @ ''Transfer-Encoding: chunked'' # ms) @ body"
    and ls: "\<forall>l \<in> set ((status_line code t # ls) @ ''Transfer-Encoding: chunked'' # ms).
        header_line l \<and> \<not> sublist ''Content-Length'' l"
    and fits: "int (length (stored ((status_line code t # ls) @ ''Transfer-Encoding: chunked'' # ms))) + 1 < buf_len n"
    and code: "int code \<le> INT_MAX" and t: "t = [] \<or> \<not> is_base_digit 10 (hd t)"
    and first: "\<forall>l \<in> set (status_line code t # ls). \<not> sublist ''Transfer-Encoding'' l"
  shows "\<exists>c' w'. httpc_handle_response (Some c) w = Inr (HTTPC_ERR_OK, Some c', w') \<and>
    response_code c' = int code \<and> content_length c' = 0 \<and> chunked c' = 1 \<and> rx_bytes (rx w') = body"
proof -
  let ?L = "(status_line code t # ls) @ ''Transfer-Encoding: chunked'' # ms"
  have hl: "\<forall>l \<in> set ?L. header_line l" using ls by blast
  obtain r w' where run: "httpc_handle_response (Some c) w =
      res_bind (response_fields (with_response c ?L r) (stored ?L @ NUL # r)) (\<lambda>(ret, c). Inr (ret, Some c, w'))"
    and w': "rx_bytes (rx w') = body"
    using handle_response_run [OF ready n rx hl fits] by blast
  let ?c = "(with_response c ?L r)\<lparr>response_code := int code, content_length := 0\<rparr>"
  let ?d = "?c\<lparr>content_length := 0, chunked := 0\<rparr>"
  have nf: "\<forall>l \<in> set ?L. nul_free l" using hl by (auto simp: header_line_def)
  note wh = with_response_header [OF nf, of c r]
  have absent: "httpc_header_get (Some ?c) (Some ''Content-Length'') = Inr None"
    by (rule header_get_absent [of _ ?L r]) (use wh ls in simp_all)
  have hdr: "response_header ?d ((status_line code t # ls) @ (''Transfer-Encoding'' @ '': '' @ ''chunked'') # ms) r"
    using wh by simp
  note at = header_get_at [OF hdr _ first]
  have "nul_free t" using hl by (simp add: header_line_def status_line_def)
  from response_fields_status [OF code t this, of "with_response c ?L r" "stored (ls @ ''Transfer-Encoding: chunked'' # ms) @ NUL # r"]
  have "response_fields (with_response c ?L r) (stored ?L @ NUL # r) = Inr (HTTPC_ERR_OK, ?d\<lparr>chunked := 1\<rparr>)"
    using at absent by (simp add: response_body_fields_def Let_def)
  then show ?thesis using run w' by simp
qed

theorem handle_response_chunked_witness:
  "\<exists>c' w'. httpc_handle_response (Some (client_buf 64))
      (world_init\<lparr>rx := [Rx_Data (''HTTP/1.1 200 OK'' @ [CR, LF] @ ''Server: a'' @ [CR]),
                         Rx_Data ([LF] @ ''Transfer-Encoding: chunked'' @ [CR, LF, CR, LF]), Rx_Data ''0'']\<rparr>) =
      Inr (HTTPC_ERR_OK, Some c', w') \<and>
    response_code c' = 200 \<and> content_length c' = 0 \<and> chunked c' = 1 \<and> rx_bytes (rx w') = ''0''"
proof -
  let ?w = "world_init\<lparr>rx := [Rx_Data (''HTTP/1.1 200 OK'' @ [CR, LF] @ ''Server: a'' @ [CR]),
                         Rx_Data ([LF] @ ''Transfer-Encoding: chunked'' @ [CR, LF, CR, LF]), Rx_Data ''0'']\<rparr>"
  have "\<exists>c' w'. httpc_handle_response (Some (client_buf 64)) ?w = Inr (HTTPC_ERR_OK, Some c', w') \<and>
    response_code c' = int 200 \<and> content_length c' = 0 \<and> chunked c' = 1 \<and> rx_bytes (rx w') = ''0''"
    by (rule handle_response_chunked [where t = "'' OK''" and ls = "[''Server: a'']" and ms = "[]",
          OF client_buf_ready client_buf_node [THEN conjunct1] client_buf_node [THEN conjunct2]])
      (simp_all add: INT_MAX_def sample_status world_init_def response_stream_simps header_line_def
        strstr_None_iff [symmetric] is_base_digit_def digit_val_def)
  then show ?thesis by simp
qed

text \<open>
  A response that announces a body of length 0 is reported as a failure.
\<close>

theorem handle_response_zero_length:
  assumes ready: "transport_ready c" and n: "header_node c = Some n" "node_wf n"
    and rx: "rx_intact (rx w)"
      "rx_bytes (rx w) = response_stream ((status_line code t # ls) @ length_line 0 # ms) @ body"
    and ls: "\<forall>l \<in> set ((status_line code t # ls) @ length_line 0 # ms).
        header_line l \<and> \<not> sublist ''Transfer-Encoding'' l"
    and fits: "int (length (stored ((status_line code t # ls) @ length_line 0 # ms))) + 1 < buf_len n"
    and code: "int code \<le> INT_MAX" and t: "t = [] \<or> \<not> is_base_digit 10 (hd t)"
    and first: "\<forall>l \<in> set (status_line code t # ls). \<not> sublist ''Content-Length'' l"
  shows "\<exists>c' w'. httpc_handle_response (Some c) w = Inr (HTTPC_ERR_FAIL, Some c', w') \<and>
    response_code c' = int code \<and> rx_bytes (rx w') = body"
proof -
  let ?L = "(status_line code t # ls) @ length_line 0 # ms"
  have hl: "\<forall>l \<in> set ?L. header_line l" using ls by blast
  obtain r w' where run: "httpc_handle_response (Some c) w =
      res_bind (response_fields (with_response c ?L r) (stored ?L @ NUL # r)) (\<lambda>(ret, c). Inr (ret, Some c, w'))"
    and w': "rx_bytes (rx w') = body"
    using handle_response_run [OF ready n rx hl fits] by blast
  let ?c = "(with_response c ?L r)\<lparr>response_code := int code, content_length := 0\<rparr>"
  let ?d = "?c\<lparr>content_length := 0, chunked := 0\<rparr>"
  have nf: "\<forall>l \<in> set ?L. nul_free l" using hl by (auto simp: header_line_def)
  note wh = with_response_header [OF nf, of c r]
  have absent: "httpc_header_get (Some ?d) (Some ''Transfer-Encoding'') = Inr None"
    by (rule header_get_absent [of _ ?L r]) (use wh ls in simp_all)
  have hdr: "response_header ?c ((status_line code t # ls) @ (''Content-Length'' @ '': '' @ show_base 10 0) # ms) r"
    using wh by (simp add: length_line_def)
  note at = header_get_at [OF hdr _ first]
  have "nul_free t" using hl by (simp add: header_line_def status_line_def)
  from response_fields_status [OF code t this, of "with_response c ?L r" "stored (ls @ length_line 0 # ms) @ NUL # r"]
  have "response_fields (with_response c ?L r) (stored ?L @ NUL # r) = Inr (HTTPC_ERR_FAIL, ?d)"
    using at(1) absent field_number [of 0 "status_line code t # ls" "''Content-Length''" ms r]
    by (simp add: response_body_fields_def Let_def length_line_def INT_MAX_def)
  then show ?thesis using run w' by simp
qed

theorem handle_response_zero_length_witness:
  "\<exists>c' w'. httpc_handle_response (Some (client_buf 64))
      (world_init\<lparr>rx := [Rx_Data (''HTTP/1.1 200 OK'' @ [CR, LF] @ ''Server: a'' @ [CR]),
                         Rx_Data ([LF] @ ''Content-Length: 0'' @ [CR, LF, CR, LF])]\<rparr>) =
      Inr (HTTPC_ERR_FAIL, Some c', w') \<and> response_code c' = 200 \<and> rx_bytes (rx w') = []"
proof -
  let ?w = "world_init\<lparr>rx := [Rx_Data (''HTTP/1.1 200 OK'' @ [CR, LF] @ ''Server: a'' @ [CR]),
                         Rx_Data ([LF] @ ''Content-Length: 0'' @ [CR, LF, CR, LF])]\<rparr>"
  have "\<exists>c' w'. httpc_handle_response (Some (client_buf 64)) ?w = Inr (HTTPC_ERR_FAIL, Some c', w') \<and>
    response_code c' = int 200 \<and> rx_bytes (rx w') = []"
    by (rule handle_response_zero_length [where t = "'' OK''" and ls = "[''Server: a'']" and ms = "[]",
          OF client_buf_ready client_buf_node [THEN conjunct1] client_buf_node [THEN conjunct2]])
      (simp_all add: INT_MAX_def sample_status world_init_def response_stream_simps header_line_def
        length_line_def show_base.simps digit_char_0
        strstr_None_iff [symmetric] is_base_digit_def digit_val_def)
  then show ?thesis by simp
qed

text \<open>
  C30. For a stored response of lines without zero bytes, one of which is a field with its value, and no
  earlier line of which contains the name of the field anywhere: httpc_header_get returns the start of the
  value in the buffer.
\<close>

theorem header_get_value:
  assumes n: "header_node c = Some \<lparr>buf = Some b, buf_len = len,
      buf_used = int (length (stored (ls @ (f @ '': '' @ v) # ms)))\<rparr>"
    and b: "b = stored (ls @ (f @ '': '' @ v) # ms) @ NUL # r"
    and nf: "\<forall>l \<in> set (ls @ (f @ '': '' @ v) # ms). nul_free l"
    and f: "f \<noteq> []" "\<forall>l \<in> set ls. \<not> sublist f l"
  shows "\<exists>i. httpc_header_get (Some c) (Some f) = Inr (Some i) \<and> str_at b i = Inr v"
proof -
  have h: "response_header c (ls @ (f @ '': '' @ v) # ms) r"
    using nf by (simp add: response_header_def n b)
  show ?thesis using header_get_at [OF h f] unfolding b by blast
qed

theorem header_get_value_witness:
  "\<exists>i. httpc_header_get (Some (client_up\<lparr>header_node := Some
       \<lparr>buf = Some (''HTTP/1.1 200'' @ [NUL] @ ''Server: a'' @ [NUL, NUL]), buf_len = 24, buf_used = 23\<rparr>\<rparr>))
       (Some ''Server'') = Inr (Some i) \<and>
     str_at (''HTTP/1.1 200'' @ [NUL] @ ''Server: a'' @ [NUL, NUL]) i = Inr ''a''"
  by (rule header_get_value [where ls = "[''HTTP/1.1 200'']" and ms = "[]" and r = "[]"])
    (simp_all add: strstr_None_iff [symmetric])

section \<open>Safety of the response parser\<close>

text \<open>A line costs at least as many bytes of the stream as it stores.\<close>

lemma conn_line_consumes:
  "read_line_loop (\<lambda>n w. Inr (conn_read n w)) b off sz count last_byte w = Inr (n, b', w') \<Longrightarrow>
   n + int (length (rx_bytes (rx w'))) \<le> count + int (length (rx_bytes (rx w)))"
proof (induction "nat (sz - count)" arbitrary: b count last_byte w rule: less_induct)
  case less
  let ?rcv = "\<lambda>n w. Inr (conn_read n w) :: (int \<times> string \<times> world) res"
  obtain r ds v where cr: "conn_read 1 w = (r, ds, v)" by (cases "conn_read 1 w") auto
  then have r: "?rcv 1 w = Inr (r, ds, v)" by simp
  have len: "rx_bytes (rx w) = ds @ rx_bytes (rx v)" by (rule conn_read_facts [OF cr])
  note e = less.prems [unfolded read_line_loop_step [where rcv = ?rcv, OF r]]
  show ?case
  proof (cases "r \<le> 0 \<or> hd ds = LF \<and> last_byte = CR")
    case True
    with e show ?thesis by (auto simp: len split: if_splits)
  next
    case False
    then have one: "length ds = 1" using conn.rcv_one_positive [OF r] by auto
    from False e obtain b1 where b1: "(if sz \<le> count + 1 then Inr (count + 1, b1, v)
        else read_line_loop ?rcv b1 off sz (count + 1) (hd ds) v) = Inr (n, b', w')"
      by (auto split: if_splits)
    show ?thesis
    proof (cases "sz \<le> count + 1")
      case True
      with b1 show ?thesis by (simp add: len one)
    next
      case more: False
      with b1 have "read_line_loop ?rcv b1 off sz (count + 1) (hd ds) v = Inr (n, b', w')" by simp
      from less.hyps [OF _ this] more show ?thesis by (simp add: len one)
    qed
  qed
qed

text \<open>The buffer between two lines: zeros from \<open>used\<close> on, a terminator before it.\<close>

definition buffer_ok :: "block \<Rightarrow> int \<Rightarrow> bool" where
  "buffer_ok b used \<longleftrightarrow> 0 \<le> used \<and> used < int (length b) \<and> b ! nat used = NUL \<and>
     (0 < used \<longrightarrow> b ! nat (used - 1) = NUL)"

definition zeros_from :: "block \<Rightarrow> int \<Rightarrow> bool" where
  "zeros_from b used \<longleftrightarrow> (\<forall>i < length b. used \<le> int i \<longrightarrow> b ! i = NUL)"

lemma line_keeps_zeros:
  assumes line: "read_line_loop rcv b used sz 0 NUL w = Inr (n, b1, w1)" and "0 \<le> used"
    and z: "zeros_from b used"
  shows "length b1 = length b" "0 \<le> n" "zeros_from b1 (used + n)" "n = 0 \<longrightarrow> b1 = b"
    "0 < sz \<longrightarrow> n \<le> sz" "i < nat used \<Longrightarrow> b1 ! i = b ! i"
proof -
  note f = read_line_loop_frame [OF line \<open>0 \<le> used\<close> order_refl]
  show len: "length b1 = length b" and n: "0 \<le> n" using f by auto
  show "0 < sz \<longrightarrow> n \<le> sz" using f by auto
  show "b1 ! i = b ! i" if "i < nat used"
  proof -
    have "take (nat used) b1 ! i = take (nat used) b ! i" using f by simp
    then show ?thesis using that by simp
  qed
  show "zeros_from b1 (used + n)"
    unfolding zeros_from_def
  proof (intro allI impI)
    fix i assume i: "i < length b1" "used + n \<le> int i"
    define k where "k = nat (used + n)"
    have k: "k \<le> i" using i by (simp add: k_def)
    have "drop k b1 = drop k b" using f by (simp add: k_def)
    then have "drop k b1 ! (i - k) = drop k b ! (i - k)" by simp
    then have "b1 ! i = b ! i" using k i len by simp
    then show "b1 ! i = NUL" using z i n len by (simp add: zeros_from_def)
  qed
  show "n = 0 \<longrightarrow> b1 = b"
  proof
    assume "n = 0"
    then have "take (nat used) b1 = take (nat used) b" "drop (nat used) b1 = drop (nat used) b" using f by auto
    then show "b1 = b" by (metis append_take_drop_id)
  qed
qed

lemma str_at_before:
  assumes "i \<le> k" and "k < length b" and "b ! k = NUL"
  obtains s where "str_at b i = Inr s" and "i + length s \<le> k" and "b ! (i + length s) = NUL" and "nul_free s"
proof -
  have "NUL \<in> set (drop i b)"
  proof -
    have "k - i < length (drop i b)" "drop i b ! (k - i) = NUL" using assms by auto
    then show ?thesis by (metis nth_mem)
  qed
  then obtain s where s: "str_at b i = Inr s" using assms by (auto simp: str_at_def)
  from str_at_InrD [OF s] obtain r where r: "drop i b = s @ NUL # r" "nul_free s" "i + length s < length b" by blast
  have nth: "b ! (i + length s) = NUL"
    using r(1) r(3) by (metis add_leD1 less_imp_le nth_append_length nth_drop)
  have "i + length s \<le> k"
  proof (rule ccontr)
    assume "\<not> i + length s \<le> k"
    then have "k - i < length s" using assms(1) by linarith
    then have "s ! (k - i) = drop i b ! (k - i)" by (simp add: r(1) nth_append)
    also have "\<dots> = NUL" using assms by simp
    finally show False using r(2) \<open>k - i < length s\<close> by (metis nth_mem nul_free_def)
  qed
  with s nth r show thesis by (intro that)
qed

lemma response_loop_safe:
  assumes ready: "transport_ready c"
  shows "buffer_ok b used \<Longrightarrow> zeros_from b used \<Longrightarrow> len = int (length b) \<Longrightarrow>
    used + int (length (rx_bytes (rx w))) < len \<Longrightarrow>
    \<exists>b' used' w'. response_loop c b len used w = Inr (b', used', w') \<and> length b' = length b \<and>
      buffer_ok b' used' \<and> w' = w\<lparr>rx := rx w'\<rparr>"
proof (induction "nat (len - used)" arbitrary: b used w rule: less_induct)
  case less
  have u: "0 \<le> used" "used < len" using less.prems by (auto simp: buffer_ok_def)
  obtain n b1 w1 where line: "read_line_loop (\<lambda>n w. Inr (conn_read n w)) b used (len - used) 0 NUL w = Inr (n, b1, w1)"
    using conn.read_line_total [of used 0 "len - used" b NUL w] u less.prems(3) by auto
  note z = line_keeps_zeros [OF line u(1) less.prems(2)]
  note cons = conn_line_consumes [OF line]
  have w1: "w1 = w\<lparr>rx := rx w1\<rparr>" by (rule conn_line_world [OF line])
  have ri: "read_line_into c b used (len - used) w = Inr (n, b1, w1)"
    using line by (simp add: httpc_recv_data_ready [OF ready])
  note unf = response_loop.simps [of c b len used w, unfolded ri res_bind_Inr prod.case]
  show ?case
  proof (cases "n \<le> 0")
    case True
    then have "b1 = b" using z by simp
    then have "response_loop c b len used w = Inr (b, used, w1)" using True by (simp add: unf)
    then show ?thesis using less.prems(1) w1 by blast
  next
    case False
    have room: "used + n < len" using cons less.prems(4) by simp
    have get: "get_byte b1 used = Inr (b1 ! nat used)" using u z less.prems(3) by (intro get_byte_ok) auto
    show ?thesis
    proof (cases "b1 ! nat used = CR \<and> n = 1")
      case True
      have put: "put_byte b1 used NUL = Inr (b1[nat used := NUL])"
        using u z less.prems(3) by (intro put_byte_ok) auto
      have "buffer_ok (b1[nat used := NUL]) used"
        using less.prems(1) z(1,6) u by (auto simp: buffer_ok_def nth_list_update)
      moreover have "response_loop c b len used w = Inr (b1[nat used := NUL], used, w1)"
        using False True get put by (simp add: unf)
      ultimately show ?thesis using z(1) w1 by (metis length_list_update)
    next
      case go: False
      have put: "put_byte b1 (used + n - 1) NUL = Inr (b1[nat (used + n - 1) := NUL])"
        using u z less.prems(3) False room by (intro put_byte_ok) auto
      let ?b = "b1[nat (used + n - 1) := NUL]"
      have ok: "buffer_ok ?b (used + n)"
        using False room u z less.prems(3) by (auto simp: buffer_ok_def zeros_from_def nth_list_update)
      have zb: "zeros_from ?b (used + n)" using z(3) by (auto simp: zeros_from_def nth_list_update)
      obtain s where str: "str_at ?b (nat used) = Inr s"
        by (rule str_at_before [of "nat used" "nat (used + n - 1)" ?b]) (use False u z room less.prems(3) in auto)
      have "response_loop c b len used w = response_loop c ?b len (used + n) w1"
        unfolding unf if_not_P [OF False] get res_bind_Inr if_not_P [OF go] put str using room by simp
      moreover have "\<exists>b' used' w'. response_loop c ?b len (used + n) w1 = Inr (b', used', w') \<and> length b' = length ?b \<and>
          buffer_ok b' used' \<and> w' = w1\<lparr>rx := rx w'\<rparr>"
        using False room u less.prems(3,4) ok zb z cons by (intro less.hyps) auto
      ultimately show ?thesis using z w1 by (metis length_list_update world.update_convs(1) world.surjective)
    qed
  qed
qed

text \<open>The scan and what follows it stay in front of the last terminator.\<close>

lemma header_scan_safe:
  assumes "f \<noteq> []" and ok: "buffer_ok b used"
  shows "\<exists>p. header_scan b used f count = Inr p \<and> (\<forall>i. p = Some i \<longrightarrow> int (i + length f) < used)"
proof (induction "nat (used + 1 - int count)" arbitrary: count rule: less_induct)
  case less
  show ?case
  proof (cases "int count \<le> used")
    case False
    then show ?thesis by (simp add: header_scan_end)
  next
    case True
    obtain s where s: "str_at b count = Inr s" "count + length s \<le> nat used" "nul_free s"
      by (rule str_at_before [of count "nat used" b]) (use True ok in \<open>auto simp: buffer_ok_def\<close>)
    have drop: "\<exists>r. drop count b = s @ r" using str_at_InrD [OF s(1)] by blast
    have shorter: "s \<noteq> [] \<longrightarrow> int (count + length s) < used"
    proof (rule impI, rule ccontr)
      assume "s \<noteq> []" and "\<not> int (count + length s) < used"
      then have e: "count + length s = nat used" using s(2) by linarith
      obtain r where "drop count b = s @ r" using drop by blast
      then have "b ! (count + (length s - 1)) = s ! (length s - 1)"
        using \<open>s \<noteq> []\<close> ok e by (metis append_eq_conv_conj diff_less length_greater_0_conv less_one nth_append nth_drop
            add_leD1 buffer_ok_def nat_less_iff less_imp_le)
      moreover have "count + (length s - 1) = nat (used - 1)" "0 < used" using e \<open>s \<noteq> []\<close>
        by (cases s; simp; linarith)+
      ultimately have "s ! (length s - 1) = NUL" using ok by (simp add: buffer_ok_def)
      then show False using s(3) \<open>s \<noteq> []\<close> by (metis diff_less length_greater_0_conv nth_mem nul_free_def zero_less_one)
    qed
    note step = header_scan_step [OF True s(1)]
    show ?thesis
    proof (cases "strstr s f")
      case None
      have "\<exists>p. header_scan b used f (count + length s + 1) = Inr p \<and> (\<forall>i. p = Some i \<longrightarrow> int (i + length f) < used)"
        using True by (intro less.hyps) simp
      then show ?thesis by (simp add: step None)
    next
      case (Some k)
      then have "k + length f \<le> length s" using strstr_SomeD by blast
      moreover from this have "s \<noteq> []" using \<open>f \<noteq> []\<close> by auto
      ultimately show ?thesis using shorter by (simp add: step Some)
    qed
  qed
qed

lemma header_get_safe:
  assumes n: "header_node c = Some n" "buf n = Some b" "buf_used n = used" and ok: "buffer_ok b used" and "f \<noteq> []"
  shows "\<exists>p. httpc_header_get (Some c) (Some f) = Inr p \<and> (\<forall>i. p = Some i \<longrightarrow> int i \<le> used)"
proof -
  obtain p where p: "header_scan b used f 0 = Inr p" "\<forall>i. p = Some i \<longrightarrow> int (i + length f) < used"
    using header_scan_safe [OF \<open>f \<noteq> []\<close> ok] by blast
  show ?thesis
  proof (cases p)
    case None
    then show ?thesis using p n by (simp add: httpc_header_get_def)
  next
    case (Some i)
    let ?j = "i + length f + 1"
    have j: "int ?j \<le> used" using p(2) Some by simp
    then have "int ?j < int (length b)" using ok by (simp add: buffer_ok_def)
    note g = get_byte_ok [OF of_nat_0_le_iff this, unfolded nat_int]
    have "int ?j = used \<longrightarrow> b ! ?j = NUL" using ok unfolding buffer_ok_def by (metis nat_int)
    then have "b ! ?j = CHR '' '' \<longrightarrow> int (?j + 1) \<le> used" using j by auto
    then show ?thesis using p n g j Some by (simp add: httpc_header_get_def Let_def)
  qed
qed

lemma skip_blanks_safe:
  assumes "buffer_ok b used"
  shows "int i \<le> used \<Longrightarrow> \<exists>j. skip_blanks b i = Inr j \<and> int j \<le> used"
proof (induction "nat used - i" arbitrary: i rule: less_induct)
  case less
  have g: "get_byte b (int i) = Inr (b ! i)"
    using less.prems assms by (subst get_byte_ok) (auto simp: buffer_ok_def)
  show ?case
  proof (cases "b ! i = CHR '' ''")
    case True
    then have "int i \<noteq> used" using assms by (auto simp: buffer_ok_def)
    then have "\<exists>j. skip_blanks b (i + 1) = Inr j \<and> int j \<le> used" using less.prems by (intro less.hyps) auto
    then show ?thesis using True g by (subst skip_blanks.simps) simp
  next
    case False
    then show ?thesis using g less.prems by (subst skip_blanks.simps) simp
  qed
qed

lemma parse_number_safe: "buffer_ok b used \<Longrightarrow> int i \<le> used \<Longrightarrow> \<exists>v. parse_number b i = Inr v"
  by (rule str_at_before [of i "nat used" b]) (auto simp: buffer_ok_def parse_number_def)

lemma str_at_safe: "buffer_ok b used \<Longrightarrow> int i \<le> used \<Longrightarrow> \<exists>s. str_at b i = Inr s"
  by (rule str_at_before [of i "nat used" b]) (auto simp: buffer_ok_def)

lemma response_body_fields_safe:
  assumes n: "header_node c = Some n" "buf n = Some b" "buf_used n = used" and ok: "buffer_ok b used"
  shows "\<exists>ret c'. response_body_fields c b = Inr (ret, c') \<and> header_node c' = Some n"
proof -
  let ?c1 = "c\<lparr>content_length := 0\<rparr>"
  obtain p where p: "httpc_header_get (Some ?c1) (Some ''Content-Length'') = Inr p" "\<forall>i. p = Some i \<longrightarrow> int i \<le> used"
    using header_get_safe [of ?c1 n b used "''Content-Length''"] n ok by auto
  obtain cl where cl: "(case p of None \<Rightarrow> Inr 0 | Some j \<Rightarrow> parse_number b j) = Inr cl"
    using p(2) parse_number_safe [OF ok] by (cases p) auto
  let ?c2 = "?c1\<lparr>content_length := cl, chunked := 0\<rparr>"
  obtain q where q: "httpc_header_get (Some ?c2) (Some ''Transfer-Encoding'') = Inr q" "\<forall>i. q = Some i \<longrightarrow> int i \<le> used"
    using header_get_safe [of ?c2 n b used "''Transfer-Encoding''"] n ok by auto
  have t: "\<forall>j. q = Some j \<longrightarrow> (\<exists>t. str_at b j = Inr t)" using q str_at_safe [OF ok] by blast
  show ?thesis
    unfolding response_body_fields_def Let_def p res_bind_Inr cl q
    using n t by (cases "cl = 0"; cases q) auto
qed

lemma response_fields_safe:
  assumes n: "header_node c = Some n" "buf n = Some b" "buf_used n = used" and ok: "buffer_ok b used"
  shows "\<exists>ret c'. response_fields c b = Inr (ret, c') \<and> header_node c' = Some n"
proof -
  have str0: "\<exists>s. str_at b j = Inr s" if "int j \<le> used" for j
    by (rule str_at_before [of j "nat used" b]) (use that ok in \<open>auto simp: buffer_ok_def\<close>)
  obtain s where s: "str_at b 0 = Inr s" using str0 [of 0] ok by (auto simp: buffer_ok_def)
  show ?thesis
  proof (cases "strstr s ''HTTP/1.''")
    case None
    then show ?thesis using n by (simp add: response_fields_def s)
  next
    case (Some k)
    then have "strstr s ''HTTP/1.'' = Some k" .
    moreover have "header_scan b used ''HTTP/1.'' 0 = Inr (Some (0 + k))"
      using Some s ok by (subst header_scan_step [of 0 used b s]) (auto simp: buffer_ok_def)
    ultimately have "int (k + 8) \<le> used"
      using header_scan_safe [of "''HTTP/1.''" b used 0] ok by auto
    from skip_blanks_safe [OF ok this] obtain i where i: "skip_blanks b (k + 8) = Inr i" "int i \<le> used" by blast
    obtain code where code: "parse_number b i = Inr code" using parse_number_safe [OF ok i(2)] by blast
    show ?thesis
      unfolding response_fields_def s res_bind_Inr Some option.case i code
      by (rule response_body_fields_safe [OF _ n(2,3) ok]) (simp add: n)
  qed
qed

text \<open>
  C2. Whatever bytes or errors the peer delivers, as long as they are fewer than the header buffer holds,
  httpc_handle_response performs no undefined operation, returns, and leaves a well-formed header buffer
  that is not full.
\<close>

theorem handle_response_safe:
  assumes ready: "transport_ready c" and n: "header_node c = Some n" "node_wf n"
    and short: "int (length (rx_bytes (rx w))) < buf_len n"
  shows "\<exists>ret c' w' n'. httpc_handle_response (Some c) w = Inr (ret, Some c', w') \<and> w' = w\<lparr>rx := rx w'\<rparr> \<and>
    header_node c' = Some n' \<and> node_wf n' \<and> buf_len n' = buf_len n \<and> buf_used n' < buf_len n"
proof -
  let ?b = "replicate (nat (buf_len n)) NUL"
  obtain b where b: "buf n = Some b" "0 < buf_len n" "buf_len n \<le> INT_MAX" using n(2) by (auto simp: node_wf_def)
  have "buffer_ok ?b 0" "zeros_from ?b 0" using b by (auto simp: buffer_ok_def zeros_from_def)
  then obtain b' used' w' where loop: "response_loop c ?b (buf_len n) 0 w = Inr (b', used', w')"
    and len: "length b' = length ?b" and ok: "buffer_ok b' used'" and w': "w' = w\<lparr>rx := rx w'\<rparr>"
    using response_loop_safe [OF ready, of ?b 0 "buf_len n" w] short b by auto
  let ?n = "n\<lparr>buf := Some b', buf_used := used'\<rparr>"
  obtain ret c' where f: "response_fields (c\<lparr>header_node := Some ?n\<rparr>) b' = Inr (ret, c')" "header_node c' = Some ?n"
    using response_fields_safe [of "c\<lparr>header_node := Some ?n\<rparr>" ?n b' used'] ok by auto
  have "httpc_handle_response (Some c) w = Inr (ret, Some c', w')"
    using n(1) b loop f(1) by (simp add: httpc_handle_response_def mem_node_reset_wf [OF n(2)])
  then show ?thesis using f(2) w' len ok b
    by (intro exI [of _ ret] exI [of _ c'] exI [of _ w'] exI [of _ ?n]) (simp add: node_wf_def buffer_ok_def)
qed

theorem handle_response_safe_witness:
  "\<exists>ret c' w' n'. httpc_handle_response (Some (client_buf 32))
      (world_init\<lparr>rx := [Rx_Data (''HTTP/1.'' @ [CR]), Rx_Err (-1), Rx_Data ''Content-Length'']\<rparr>) = Inr (ret, Some c', w') \<and>
    header_node c' = Some n' \<and> node_wf n' \<and> buf_used n' < 32"
  using handle_response_safe [OF client_buf_ready client_buf_node [THEN conjunct1] client_buf_node [THEN conjunct2],
      of 32 "world_init\<lparr>rx := [Rx_Data (''HTTP/1.'' @ [CR]), Rx_Err (-1), Rx_Data ''Content-Length'']\<rparr>"]
  by (auto simp: INT_MAX_def world_init_def)

section \<open>A header that fills the buffer\<close>

context byte_stream
begin

lemma read_line_fill:
  assumes "good w" and "pending w = s @ rest" and "no_crlf last_byte s" and "s \<noteq> []"
    and "count + int (length s) = sz" and "off + count = int (length p)" and "length s = length q"
  shows "\<exists>w'. read_line_loop rcv (p @ q) off sz count last_byte w = Inr (sz, p @ s, w') \<and>
         good w' \<and> pending w' = rest"
  using assms
proof (induction s arbitrary: w last_byte count p q)
  case Nil
  then show ?case by simp
next
  case (Cons c s)
  obtain w1 where r: "rcv 1 w = Inr (1, [c], w1)" and w1: "pending w1 = s @ rest" "good w1"
    using rcv_one_good [of w c "s @ rest"] Cons.prems by auto
  obtain x q' where q: "q = x # q'" using Cons.prems(7) by (cases q) auto
  have put: "put_byte (p @ q) (off + count) c = Inr ((p @ [c]) @ q')"
    using Cons.prems(6) by (simp add: q put_byte_append)
  note step = read_line_loop_step [where rcv = rcv, OF r]
  show ?case
  proof (cases "s = []")
    case True
    then show ?thesis using Cons.prems w1 put by (auto simp: step q)
  next
    case False
    then have more: "\<not> sz \<le> count + 1" using Cons.prems(5) by (cases s) auto
    have "read_line_loop rcv (p @ q) off sz count last_byte w =
        read_line_loop rcv ((p @ [c]) @ q') off sz (count + 1) c w1"
      using Cons.prems(3) put more by (auto simp: step)
    moreover have "\<exists>w'. read_line_loop rcv ((p @ [c]) @ q') off sz (count + 1) c w1 =
        Inr (sz, (p @ [c]) @ s, w') \<and> good w' \<and> pending w' = rest"
      using Cons.prems w1 False by (intro Cons.IH) (auto simp: q)
    ultimately show ?thesis by simp
  qed
qed

end

text \<open>
  A status line at least as long as the buffer: the loop stops with \<open>buf_used = buf_len\<close>, and
  the search for the next field starts behind the buffer.
\<close>

text \<open>
  A status line that fills the header buffer makes the search for Content-Length read behind the buffer.
\<close>

theorem handle_response_full_overread:
  assumes ready: "transport_ready c" and n: "header_node c = Some n" "node_wf n"
    and rx: "rx_intact (rx w)" "rx_bytes (rx w) = l @ x # rest" "int (length l) + 1 = buf_len n"
    and l: "no_crlf NUL (l @ [x])" "l = status_line code t" "nul_free l" "\<not> sublist ''Content-Length'' l"
    and code: "int code \<le> INT_MAX" and t: "t = [] \<or> \<not> is_base_digit 10 (hd t)"
  shows "httpc_handle_response (Some c) w = Inl Out_Of_Bounds"
proof -
  let ?b = "replicate (nat (buf_len n)) NUL"
  let ?L = "stored [status_line code t]"
  obtain b where b: "buf n = Some b" "0 < buf_len n" "buf_len n \<le> INT_MAX" using n(2) by (auto simp: node_wf_def)
  have "\<exists>w'. read_line_loop (\<lambda>n w. Inr (conn_read n w)) ([] @ ?b) 0 (buf_len n) 0 NUL w =
      Inr (buf_len n, [] @ (l @ [x]), w') \<and> rx_intact (rx w') \<and> rx_bytes (rx w') = rest"
    using rx l(1) by (intro conn.read_line_fill) auto
  then obtain w' where line: "read_line_into c ?b 0 (buf_len n) w = Inr (buf_len n, l @ [x], w')"
    by (auto simp: httpc_recv_data_ready [OF ready])
  have lne: "l \<noteq> []" using l(2) by (simp add: status_line_def)
  obtain y ys where y: "l = y # ys" using lne by (cases l) auto
  have one: "buf_len n \<noteq> 1" using rx(3) y by simp
  have get: "get_byte (l @ [x]) 0 = Inr y" by (simp add: y get_byte_def)
  have put: "put_byte (l @ [x]) (0 + buf_len n - 1) NUL = Inr (l @ [NUL])"
    using rx(3) by (intro put_byte_append) simp
  have str: "str_at (l @ [NUL]) (nat 0) = Inr l" using l(3) str_at_here [of l "[]"] by simp
  have loop: "response_loop c ?b (buf_len n) 0 w = Inr (?L, buf_len n, w')"
    using line b one l(2) get put str
    by (subst response_loop.simps) simp
  let ?c = "c\<lparr>header_node := Some (n\<lparr>buf := Some ?L, buf_used := buf_len n\<rparr>)\<rparr>"
  have "header_scan ?L (buf_len n) ''Content-Length'' 0 = header_scan ?L (buf_len n) ''Content-Length'' (0 + length l + 1)"
    using l(2,3,4) str b by (subst header_scan_step [of 0 _ _ l]) (simp_all add: strstr_None_iff [symmetric])
  moreover have "header_scan ?L (buf_len n) ''Content-Length'' (length l + 1) = Inl Out_Of_Bounds"
    using rx(3) l(2) by (subst header_scan.simps) (simp add: str_at_def)
  ultimately have "httpc_header_get (Some (?c\<lparr>response_code := int code, content_length := 0\<rparr>)) (Some ''Content-Length'') =
      Inl Out_Of_Bounds"
    by (simp add: httpc_header_get_def)
  moreover have "nul_free t" using l(2,3) by (simp add: status_line_def)
  from response_fields_status [OF code t this, of ?c "[]"]
  have "response_fields ?c ?L = response_body_fields (?c\<lparr>response_code := int code\<rparr>) ?L" by simp
  ultimately have "response_fields ?c ?L = Inl Out_Of_Bounds" by (simp add: response_body_fields_def)
  then show ?thesis
    using n(1) b loop by (simp add: httpc_handle_response_def mem_node_reset_wf [OF n(2)])
qed

theorem handle_response_full_overread_witness:
  "httpc_handle_response (Some (client_buf 16))
     (world_init\<lparr>rx := [Rx_Data (''HTTP/1.1 200 OK'' @ [CR, LF] @ ''Content-Length: 5'' @ [CR, LF, CR, LF])]\<rparr>) =
   Inl Out_Of_Bounds"
  by (rule handle_response_full_overread [where t = "'' OK''" and l = "''HTTP/1.1 200 OK''" and code = 200 and x = CR,
        OF client_buf_ready client_buf_node [THEN conjunct1] client_buf_node [THEN conjunct2]])
    (simp_all add: INT_MAX_def sample_status world_init_def strstr_None_iff [symmetric]
      is_base_digit_def digit_val_def)

end
