(* ===== verification/Httpc_Session.thy ===== *)
theory Httpc_Session
  imports Httpc_Header
begin

text \<open>
  One request and its response: \<open>httpc_send_request\<close> sends the header buffer and the data
  and parses the response header, \<open>httpc_recv_response\<close> reads the body,
  \<open>httpc_connection_status_get\<close> asks the kernel for the error of the socket.
\<close>

section \<open>The operations\<close>

definition httpc_send_request ::
  "httpc option \<Rightarrow> block option \<Rightarrow> int \<Rightarrow> world \<Rightarrow> (int \<times> httpc option \<times> world) res" where
  "httpc_send_request h send_buf send_size w =
     (case h of None \<Rightarrow> Inr (HTTPC_ERR_PARAM, h, w) | Some _ \<Rightarrow>
       res_bind (httpc_send_header h w) (\<lambda>(ret, w).
       if ret < HTTPC_ERR_OK then Inr (HTTPC_ERR_SEND, h, w)
       else
         res_bind (if send_buf = None then Inr (ret, w) else httpc_send_data h send_buf send_size w) (\<lambda>(ret, w).
         if ret < HTTPC_ERR_OK then Inr (HTTPC_ERR_SEND, h, w)
         else httpc_handle_response h w)))"

definition httpc_recv_response ::
  "httpc option \<Rightarrow> httpc_mode \<Rightarrow> block option \<Rightarrow> int \<Rightarrow> world \<Rightarrow> (int \<times> block option \<times> world) res" where
  "httpc_recv_response h mode b sz w =
     (case h of None \<Rightarrow> Inr (HTTPC_ERR_PARAM, b, w) | Some _ \<Rightarrow>
       (case mode of
          HTTPC_MODE_NORMAL \<Rightarrow> httpc_recv h b sz w
        | HTTPC_MODE_CHUNK \<Rightarrow> httpc_chunked_recv h b sz w
        | _ \<Rightarrow> Inr (HTTPC_ERR_FAIL, b, w)))"

definition ECONNRESET :: int where
  "ECONNRESET = 104"

definition httpc_connection_status_get :: "ext \<Rightarrow> httpc option \<Rightarrow> int" where
  "httpc_connection_status_get x h =
     (case h of None \<Rightarrow> HTTPC_ERR_PARAM | Some c \<Rightarrow>
       (if socket c < 0 then HTTPC_ERR_PARAM
        else
          (case x_getsockopt_error x (socket c) of (ret, optval) \<Rightarrow>
             if ret < 0 then HTTPC_ERR_FAIL
             else if optval = ECONNRESET then HTTPC_ERR_RST else HTTPC_ERR_OK)))"

section \<open>Sending\<close>

lemma httpc_send_ready:
  assumes "transport_ready c" and "n \<le> length bs" and "int n \<le> INT_MAX"
  shows "httpc_send (Some c) (Some bs) (int n) w = Inr (conn_write (take n bs) w)"
proof -
  have s: "size_t_of (int n) = n" using assms(3) by (subst size_t_of_nonneg) simp_all
  have "get_bytes bs 0 n = Inr (take n bs)" using assms(2) by (simp add: get_bytes_def)
  then show ?thesis using assms(1) by (simp add: httpc_send_def transport_ready_def s)
qed

text \<open>Sending a buffer that holds the text \<open>t\<close>, terminated.\<close>

lemma send_header_text:
  assumes "transport_ready c" and h: "header_holds c t (NUL # q)" and "nul_free t"
  shows "httpc_send_header (Some c) w = Inr (conn_write t w)"
proof -
  have "int (length t) \<le> INT_MAX" using h by (auto simp: header_holds_def)
  moreover have "str_at (t @ NUL # q) 0 = Inr t" using \<open>nul_free t\<close> by (rule str_at_here)
  ultimately show ?thesis
    using httpc_send_ready [OF assms(1), of "length t" "t @ NUL # q" w]
    by (simp add: httpc_send_header_def header_holds_node [OF h])
qed

lemma send_data_text:
  assumes "transport_ready c" and "int (length d) \<le> INT_MAX"
  shows "httpc_send_data (Some c) (Some (d @ NUL # q)) (int (length d)) w = Inr (conn_write d w)"
proof -
  have "\<exists>s. str_at (d @ NUL # q) 0 = Inr s" by (simp add: str_at_Inr_iff)
  then show ?thesis
    using httpc_send_ready [OF assms(1), of "length d" "d @ NUL # q" w] assms(2)
    by (auto simp: httpc_send_data_def)
qed

lemma conn_write_all: "tx_plan w = [] \<Longrightarrow> conn_write ds w = (int (length ds), w\<lparr>sent := sent w @ ds\<rparr>)"
  by (auto simp: conn_write_def intro!: world.equality)

lemma conn_write_fails: "tx_plan w = k # ks \<Longrightarrow> k < 0 \<Longrightarrow> conn_write ds w = (k, w\<lparr>tx_plan := ks\<rparr>)"
  by (auto simp: conn_write_def intro!: world.equality)

lemma conn_write_short:
  "tx_plan w = k # ks \<Longrightarrow> 0 \<le> k \<Longrightarrow> k \<le> int (length ds) \<Longrightarrow>
   conn_write ds w = (k, w\<lparr>tx_plan := ks, sent := sent w @ take (nat k) ds\<rparr>)"
  by (simp add: conn_write_def)

text \<open>A request composed with \<open>httpc_header_set\<close> in an empty buffer.\<close>

lemma composed_header:
  assumes n: "header_node c = Some \<lparr>buf = Some b, buf_len = int (length b), buf_used = 0\<rparr>"
    and ss: "ss \<noteq> []" "length (concat ss) < length b" and max: "int (length b) \<le> INT_MAX"
  shows "\<exists>c' q. header_set_all c ss = Inr c' \<and> header_holds c' (concat ss) (NUL # q) \<and>
    (transport_ready c \<longrightarrow> transport_ready c')"
proof -
  have h: "header_holds c [] b" using n max by (simp add: header_holds_def)
  let ?q = "drop (length (concat ss) + 1) b"
  let ?c = "with_header c ([] @ concat ss @ NUL # ?q) (int (length (concat ss)))"
  have "header_set_all c ss = Inr ?c" using header_set_all_fits [OF h ss(2,1)] by simp
  moreover have "header_holds ?c (concat ss) (NUL # ?q)"
    using ss(2) max header_holds_with [of "concat ss" "NUL # ?q" c] by simp
  moreover have "transport_ready c \<longrightarrow> transport_ready ?c"
    by (simp add: transport_ready_def with_header_def)
  ultimately show ?thesis by blast
qed

text \<open>
  C7. On a connected client whose transport takes every write whole, pieces of a request without zero bytes
  that are together shorter than the empty header buffer, composed with httpc_header_set, and data followed
  by a zero byte: httpc_send_request puts the pieces and then the data on the wire, in order and once, and
  then parses the response.
\<close>

theorem send_request_sends:
  assumes ready: "transport_ready c"
    and n: "header_node c = Some \<lparr>buf = Some b, buf_len = int (length b), buf_used = 0\<rparr>" "int (length b) \<le> INT_MAX"
    and ss: "ss \<noteq> []" "length (concat ss) < length b" "nul_free (concat ss)"
    and plan: "tx_plan w = []" and d: "int (length d) \<le> INT_MAX"
  shows "\<exists>c'. header_set_all c ss = Inr c' \<and>
    httpc_send_request (Some c') (Some (d @ [NUL])) (int (length d)) w =
      httpc_handle_response (Some c') (w\<lparr>sent := sent w @ concat ss @ d\<rparr>)"
proof -
  obtain c' q where c': "header_set_all c ss = Inr c'" "header_holds c' (concat ss) (NUL # q)" "transport_ready c'"
    using composed_header [OF n(1) ss(1,2) n(2)] ready by blast
  have "httpc_send_request (Some c') (Some (d @ [NUL])) (int (length d)) w =
      httpc_handle_response (Some c') (w\<lparr>sent := sent w @ concat ss @ d\<rparr>)"
    using plan by (simp add: httpc_send_request_def send_header_text [OF c'(3,2) ss(3)] send_data_text [OF c'(3) d]
        conn_write_all httpc_err_defs)
  with c'(1) show ?thesis by blast
qed

theorem send_request_sends_witness:
  "\<exists>c'. header_set_all (client_buf 64) [''POST /a HTTP/1.1'' @ [CR, LF], ''Content-Length: 2'' @ [CR, LF, CR, LF]] = Inr c' \<and>
    httpc_send_request (Some c') (Some (''hi'' @ [NUL])) 2 world_init =
      httpc_handle_response (Some c') (world_init\<lparr>sent :=
        ''POST /a HTTP/1.1'' @ [CR, LF] @ ''Content-Length: 2'' @ [CR, LF, CR, LF] @ ''hi''\<rparr>)"
  using send_request_sends [OF client_buf_ready, of 64 "replicate 64 NUL"
      "[''POST /a HTTP/1.1'' @ [CR, LF], ''Content-Length: 2'' @ [CR, LF, CR, LF]]" world_init "''hi''"]
  by (simp add: client_buf_def INT_MAX_def world_init_def)

text \<open>A write that fails is reported as \<open>HTTPC_ERR_SEND\<close>; nothing is sent after it, nothing is read.\<close>

text \<open>
  A failed write of the header is reported as HTTPC_ERR_SEND; nothing is sent after it and nothing is read.
\<close>

theorem send_request_write_fails:
  assumes ready: "transport_ready c" and h: "header_holds c t (NUL # q)" and t: "nul_free t"
    and plan: "tx_plan w = k # ks" "k < 0"
  shows "httpc_send_request (Some c) d sz w = Inr (HTTPC_ERR_SEND, Some c, w\<lparr>tx_plan := ks\<rparr>)"
  by (simp add: httpc_send_request_def send_header_text [OF ready h t] conn_write_fails [OF plan] plan httpc_err_defs)

theorem send_request_write_fails_witness:
  "httpc_send_request (Some (client_up\<lparr>header_node :=
       Some \<lparr>buf = Some (''GET'' @ [NUL]), buf_len = 4, buf_used = 3\<rparr>\<rparr>)) None 0 (world_init\<lparr>tx_plan := [-1]\<rparr>) =
   Inr (HTTPC_ERR_SEND, Some (client_up\<lparr>header_node :=
       Some \<lparr>buf = Some (''GET'' @ [NUL]), buf_len = 4, buf_used = 3\<rparr>\<rparr>), world_init)"
  using send_request_write_fails [of "client_up\<lparr>header_node :=
       Some \<lparr>buf = Some (''GET'' @ [NUL]), buf_len = 4, buf_used = 3\<rparr>\<rparr>" "''GET''" "[]"
       "world_init\<lparr>tx_plan := [-1]\<rparr>" "-1" "[]" None 0]
  by (simp add: transport_ready_def header_holds_def demo_defs INT_MAX_def)

text \<open>
  A write that accepts only a part of the header counts as success: the rest of the header is
  never sent, and the data follows the part that was.
\<close>

theorem send_request_short_write:
  assumes ready: "transport_ready c" and h: "header_holds c t (NUL # q)" and t: "nul_free t"
    and plan: "tx_plan w = [k]" "0 \<le> k" "k < int (length t)" and d: "int (length d) \<le> INT_MAX"
  shows "httpc_send_request (Some c) (Some (d @ [NUL])) (int (length d)) w =
    httpc_handle_response (Some c) (w\<lparr>tx_plan := [], sent := sent w @ take (nat k) t @ d\<rparr>)"
proof -
  have w: "conn_write t w = (k, w\<lparr>tx_plan := [], sent := sent w @ take (nat k) t\<rparr>)"
    using plan by (intro conn_write_short) auto
  have "conn_write d (w\<lparr>tx_plan := [], sent := sent w @ take (nat k) t\<rparr>) =
      (int (length d), w\<lparr>tx_plan := [], sent := sent w @ take (nat k) t @ d\<rparr>)"
    by (subst conn_write_all) simp_all
  then show ?thesis
    using plan(2) by (simp add: httpc_send_request_def send_header_text [OF ready h t] w
        send_data_text [OF ready d] httpc_err_defs)
qed

theorem send_request_short_write_witness:
  "httpc_send_request (Some (client_up\<lparr>header_node :=
       Some \<lparr>buf = Some (''GET /'' @ [NUL]), buf_len = 6, buf_used = 5\<rparr>\<rparr>)) (Some (''x'' @ [NUL])) 1
       (world_init\<lparr>tx_plan := [2]\<rparr>) =
   httpc_handle_response (Some (client_up\<lparr>header_node :=
       Some \<lparr>buf = Some (''GET /'' @ [NUL]), buf_len = 6, buf_used = 5\<rparr>\<rparr>)) (world_init\<lparr>sent := ''GEx''\<rparr>)"
  using send_request_short_write [of "client_up\<lparr>header_node :=
       Some \<lparr>buf = Some (''GET /'' @ [NUL]), buf_len = 6, buf_used = 5\<rparr>\<rparr>" "''GET /''" "[]"
       "world_init\<lparr>tx_plan := [2]\<rparr>" 2 "''x''"]
  by (simp add: transport_ready_def header_holds_def demo_defs INT_MAX_def)

text \<open>
  Data without a terminator is read past its end, although its size is given.
\<close>

theorem send_request_data_overread:
  assumes ready: "transport_ready c" and h: "header_holds c t (NUL # q)" and t: "nul_free t"
    and plan: "tx_plan w = []" and d: "nul_free d"
  shows "httpc_send_request (Some c) (Some d) sz w = Inl Out_Of_Bounds"
proof -
  have "str_at d 0 = Inl Out_Of_Bounds" using d by (simp add: str_at_def nul_free_def)
  then show ?thesis
    using plan by (simp add: httpc_send_request_def send_header_text [OF ready h t] conn_write_all
        httpc_send_data_def httpc_err_defs)
qed

theorem send_request_data_overread_witness:
  "httpc_send_request (Some (client_up\<lparr>header_node :=
       Some \<lparr>buf = Some (''GET'' @ [NUL]), buf_len = 4, buf_used = 3\<rparr>\<rparr>)) (Some ''data'') 4 world_init = Inl Out_Of_Bounds"
  by (rule send_request_data_overread [where t = "''GET''" and q = "[]"])
    (simp_all add: transport_ready_def header_holds_def demo_defs INT_MAX_def)

section \<open>Receiving the body\<close>

text \<open>
  C33. In normal mode httpc_recv_response hands over the next bytes of the stream, in order, at most size of
  them, and its return value is their number.
\<close>

theorem recv_response_in_order:
  assumes ready: "transport_ready c" and sz: "0 \<le> sz" "sz \<le> int (length bs)" "sz \<le> INT_MAX"
  shows "\<exists>r d w'. httpc_recv_response (Some c) HTTPC_MODE_NORMAL (Some bs) sz w =
      Inr (r, Some (d @ drop (length d) bs), w') \<and>
    rx_bytes (rx w) = d @ rx_bytes (rx w') \<and> int (length d) \<le> sz \<and>
    (if d = [] then r \<le> 0 else r = int (length d)) \<and>
    (rx_intact (rx w) \<and> rx_bytes (rx w) \<noteq> [] \<and> 0 < sz \<longrightarrow> d \<noteq> [] \<and> rx_intact (rx w'))"
proof -
  have s: "size_t_of sz = nat sz" using sz by (intro size_t_of_nonneg) auto
  obtain r d w' where r: "conn_read (nat sz) w = (r, d, w')" by (cases "conn_read (nat sz) w") auto
  note f = conn_read_facts [OF r]
  have "put_bytes bs 0 d = Inr (d @ drop (length d) bs)" using f(1) sz by (intro put_bytes_front) linarith
  then have "httpc_recv_response (Some c) HTTPC_MODE_NORMAL (Some bs) sz w = Inr (r, Some (d @ drop (length d) bs), w')"
    by (simp add: httpc_recv_response_def httpc_recv_def httpc_recv_data_ready [OF ready] s r)
  moreover have "int (length d) \<le> sz" using f(1) sz by linarith
  moreover have "if d = [] then r \<le> 0 else r = int (length d)" using f(2,3) by simp
  moreover have "rx_intact (rx w) \<and> rx_bytes (rx w) \<noteq> [] \<and> 0 < sz \<longrightarrow> d \<noteq> [] \<and> rx_intact (rx w')"
    using f(5) zero_less_nat_eq by blast
  ultimately show ?thesis using f(4) by blast
qed

theorem recv_response_in_order_witness:
  "\<exists>r d w'. httpc_recv_response (Some client_up) HTTPC_MODE_NORMAL (Some (replicate 4 NUL)) 4
      (world_init\<lparr>rx := [Rx_Data ''hello'']\<rparr>) = Inr (r, Some (d @ drop (length d) (replicate 4 NUL)), w') \<and>
    ''hello'' = d @ rx_bytes (rx w') \<and> d \<noteq> []"
proof -
  have ready: "transport_ready client_up" by (simp add: demo_defs transport_ready_def)
  obtain r d w' where r: "httpc_recv_response (Some client_up) HTTPC_MODE_NORMAL (Some (replicate 4 NUL)) 4
      (world_init\<lparr>rx := [Rx_Data ''hello'']\<rparr>) = Inr (r, Some (d @ drop (length d) (replicate 4 NUL)), w')"
    and e: "rx_bytes [Rx_Data ''hello''] = d @ rx_bytes (rx w')" and ne: "rx_bytes [Rx_Data ''hello''] \<noteq> [] \<longrightarrow> d \<noteq> []"
    using recv_response_in_order [OF ready, of 4 "replicate 4 NUL" "world_init\<lparr>rx := [Rx_Data ''hello'']\<rparr>"]
    by (auto simp: INT_MAX_def)
  have "d \<noteq> []" using ne by simp
  with r e show ?thesis unfolding rx_bytes.simps append_Nil2 by blast
qed

text \<open>The status distinguishes a reset from every other state of the socket.\<close>

theorem connection_status_reset_iff:
  "httpc_connection_status_get x (Some c) = HTTPC_ERR_RST \<longleftrightarrow>
     0 \<le> socket c \<and> 0 \<le> fst (x_getsockopt_error x (socket c)) \<and> snd (x_getsockopt_error x (socket c)) = ECONNRESET"
  by (auto simp: httpc_connection_status_get_def httpc_err_defs split: prod.splits)

end
