(* ===== verification/Httpc_Tls.thy ===== *)
theory Httpc_Tls
  imports Httpc_World
begin

text \<open>
  The TLS session of a client: \<open>httpc_tls_init\<close> configures the context and performs the
  handshake, \<open>httpc_tls_deinit\<close> closes and releases it. The answers of the certificate parser
  and of the handshake are parameters; the context records the settings the client makes.
\<close>

section \<open>The operations\<close>

definition s_mebdtls_alpn_list :: "string list" where
  "s_mebdtls_alpn_list = [''http/1.1'', ''h2'']"

definition MBEDTLS_SSL_MAX_HOST_NAME_LEN :: nat where
  "MBEDTLS_SSL_MAX_HOST_NAME_LEN = 255"

text \<open>\<open>mbedtls_ssl_set_hostname\<close> keeps the old name (none in a new context) when the new one is too long.\<close>

definition mbedtls_ssl_set_hostname :: "tls_ctx \<Rightarrow> string option \<Rightarrow> tls_ctx" where
  "mbedtls_ssl_set_hostname t hostname =
     (case hostname of
        None \<Rightarrow> t\<lparr>tls_hostname := None\<rparr>
      | Some s \<Rightarrow> if MBEDTLS_SSL_MAX_HOST_NAME_LEN < length s then t else t\<lparr>tls_hostname := Some s\<rparr>)"

definition mbedtls_net_free :: "tls_ctx \<Rightarrow> world \<Rightarrow> world" where
  "mbedtls_net_free t w = (if net_fd t = -1 then w else sys_close (net_fd t) (log_call (Sys_shutdown (net_fd t) 2) w))"

definition httpc_tls_deinit :: "httpc option \<Rightarrow> world \<Rightarrow> (httpc option \<times> world) res" where
  "httpc_tls_deinit h w =
     (case h of None \<Rightarrow> Inr (h, w) | Some c \<Rightarrow>
       (case mbedtls_ctx c of None \<Rightarrow> Inr (h, w) | Some (i, t) \<Rightarrow>
          res_bind (safe_free (mbedtls_ctx c) (mbedtls_net_free t (log_call Tls_close_notify w))) (\<lambda>(p, w).
          Inr (Some (c\<lparr>mbedtls_ctx := p\<rparr>), w))))"

text \<open>The label \<open>exit\<close>.\<close>

definition tls_exit :: "int \<Rightarrow> httpc option \<Rightarrow> world \<Rightarrow> (int \<times> httpc option \<times> world) res" where
  "tls_exit ret h w = res_bind (httpc_tls_deinit h w) (\<lambda>(h, w). Inr (ret, h, w))"

text \<open>
  The configuration up to \<open>mbedtls_ssl_set_bio\<close>. The return values of these calls are not
  looked at.
\<close>

definition tls_ctx_new :: tls_ctx where
  "tls_ctx_new =
     \<lparr>net_fd = -1, tls_hostname = None, tls_authmode = VERIFY_NONE, tls_ca = None, tls_alpn = [],
      tls_max_version = (0, 0), tls_bio = False\<rparr>"

definition tls_configure :: "string option \<Rightarrow> httpc_ver \<Rightarrow> tls_ctx" where
  "tls_configure hostname version =
     (let t = mbedtls_ssl_set_hostname tls_ctx_new hostname;
          t = t\<lparr>tls_max_version := (3, 3), tls_authmode := VERIFY_NONE\<rparr>;
          t = (if version = HTTP_VER_2_0 then t\<lparr>tls_alpn := s_mebdtls_alpn_list\<rparr> else t)
      in t\<lparr>tls_bio := True\<rparr>)"

text \<open>The handshake; \<open>i\<close> is the block of the context.\<close>

definition tls_handshake :: "ext \<Rightarrow> httpc \<Rightarrow> nat \<Rightarrow> tls_ctx \<Rightarrow> world \<Rightarrow> (int \<times> httpc option \<times> world) res" where
  "tls_handshake X c i t w =
     (let t = t\<lparr>net_fd := socket c\<rparr>;
          h = Some (c\<lparr>mbedtls_ctx := Some (i, t)\<rparr>);
          w = log_call (Tls_handshake t) w
      in if x_handshake X t = 0 then Inr (HTTPC_ERR_OK, h, w)
         else
           (let ret = sint (x_verify_result X t)
            in if ret = 0 then tls_exit ret h w
               else (case httpc_calloc () w of (p, w) \<Rightarrow>
                       res_bind (safe_free p w) (\<lambda>(_, w). tls_exit ret h w))))"

definition httpc_tls_init ::
  "ext \<Rightarrow> httpc option \<Rightarrow> httpc_ver \<Rightarrow> httpc_tls_info option \<Rightarrow> world \<Rightarrow> (int \<times> httpc option \<times> world) res" where
  "httpc_tls_init X h version ssl_info w =
     (case h of None \<Rightarrow> tls_exit HTTPC_ERR_FAIL h w | Some c \<Rightarrow>
       (case httpc_calloc () w of
          (None, w) \<Rightarrow> tls_exit HTTPC_ERR_FAIL (Some (c\<lparr>mbedtls_ctx := None\<rparr>)) w
        | (Some (i, _), w) \<Rightarrow>
            res_bind (case host c of None \<Rightarrow> Inr None
                      | Some (_, hb) \<Rightarrow> res_bind (str_at hb 0) (\<lambda>s. Inr (Some s))) (\<lambda>hostname.
            (let t = tls_configure hostname version
             in case ssl_info of
                  None \<Rightarrow> tls_handshake X c i t w
                | Some info \<Rightarrow>
                    (let ret = (case cert info of None \<Rightarrow> 0 | Some s \<Rightarrow> x_crt_parse X s (cert_len info));
                         t' = (case cert info of None \<Rightarrow> t
                               | Some s \<Rightarrow> t\<lparr>tls_authmode := VERIFY_REQUIRED, tls_ca := Some s\<rparr>)
                     in if ret \<noteq> 0 then tls_exit ret (Some (c\<lparr>mbedtls_ctx := Some (i, t)\<rparr>)) w
                        else if pk info \<noteq> None then Inl Type_Confusion
                        else tls_handshake X c i t' w)))))"

section \<open>The context and the settings of the handshake\<close>

text \<open>What the settings have to be for a client, a version and the given certificates.\<close>

definition trusted_cert :: "httpc_tls_info option \<Rightarrow> string option" where
  "trusted_cert ssl_info = (case ssl_info of None \<Rightarrow> None | Some info \<Rightarrow> cert info)"

definition tls_settings :: "httpc \<Rightarrow> string \<Rightarrow> httpc_ver \<Rightarrow> httpc_tls_info option \<Rightarrow> tls_ctx" where
  "tls_settings c hs version ssl_info =
     \<lparr>net_fd = socket c, tls_hostname = (if length hs \<le> MBEDTLS_SSL_MAX_HOST_NAME_LEN then Some hs else None),
      tls_authmode = (if trusted_cert ssl_info = None then VERIFY_NONE else VERIFY_REQUIRED),
      tls_ca = trusted_cert ssl_info,
      tls_alpn = (if version = HTTP_VER_2_0 then s_mebdtls_alpn_list else []),
      tls_max_version = (3, 3), tls_bio = True\<rparr>"

lemma tls_configure_eq:
  "tls_configure (Some hs) version =
     \<lparr>net_fd = -1, tls_hostname = (if length hs \<le> MBEDTLS_SSL_MAX_HOST_NAME_LEN then Some hs else None),
      tls_authmode = VERIFY_NONE, tls_ca = None,
      tls_alpn = (if version = HTTP_VER_2_0 then s_mebdtls_alpn_list else []),
      tls_max_version = (3, 3), tls_bio = True\<rparr>"
  by (simp add: tls_configure_def mbedtls_ssl_set_hostname_def tls_ctx_new_def Let_def)

text \<open>The three ways the exit path is taken.\<close>

lemma tls_exit_no_ctx: "mbedtls_ctx c = None \<Longrightarrow> tls_exit ret (Some c) w = Inr (ret, Some c, w)"
  by (simp add: tls_exit_def httpc_tls_deinit_def)

lemma tls_exit_ctx:
  assumes "mbedtls_ctx c = Some (i, t)" and "live w = i # l"
  shows "tls_exit ret (Some c) w = Inr (ret, Some (c\<lparr>mbedtls_ctx := None\<rparr>),
    (mbedtls_net_free t (log_call Tls_close_notify w))\<lparr>live := l\<rparr>)"
proof -
  have "live (mbedtls_net_free t (log_call Tls_close_notify w)) = i # l"
    using assms(2) by (simp add: mbedtls_net_free_def)
  then show ?thesis using assms(1) by (simp add: tls_exit_def httpc_tls_deinit_def safe_free_def)
qed

text \<open>The buffer for the verification message does not outlive the call.\<close>

lemma verify_buffer:
  "\<exists>w1. (case httpc_calloc () w of (p, w) \<Rightarrow> res_bind (safe_free p w) (\<lambda>(_, w). f w)) = f w1 \<and>
    live w1 = live w \<and> open_fds w1 = open_fds w \<and> calls w1 = calls w \<and> rx w1 = rx w \<and> sent w1 = sent w"
proof (cases rule: httpc_calloc_cases [of w "()"])
  case (fail ps)
  then show ?thesis by auto
next
  case ok
  then show ?thesis by (auto simp: safe_free_def)
qed

lemma tls_handshake_cases:
  fixes c :: httpc and t :: tls_ctx
  assumes l: "live w = i # l"
  defines "T \<equiv> t\<lparr>net_fd := socket c\<rparr>"
  obtains (up) "x_handshake X T = 0"
      "tls_handshake X c i t w = Inr (HTTPC_ERR_OK, Some (c\<lparr>mbedtls_ctx := Some (i, T)\<rparr>), log_call (Tls_handshake T) w)"
  | (down) w' where "x_handshake X T \<noteq> 0"
      "tls_handshake X c i t w = Inr (sint (x_verify_result X T), Some (c\<lparr>mbedtls_ctx := None\<rparr>), w')"
      "live w' = l"
      "open_fds w' = (if socket c = -1 then open_fds w else remove1 (socket c) (open_fds w))"
      "calls w' = calls w @ [Tls_handshake T, Tls_close_notify] @ (if socket c = -1 then [] else [Sys_shutdown (socket c) 2, Sys_close (socket c)])"
proof (cases "x_handshake X T = 0")
  case True
  then show ?thesis using up by (simp add: tls_handshake_def T_def Let_def)
next
  case False
  let ?h = "c\<lparr>mbedtls_ctx := Some (i, T)\<rparr>" and ?w = "log_call (Tls_handshake T) w"
  let ?ret = "sint (x_verify_result X T)"
  obtain w1 where w1: "tls_handshake X c i t w = tls_exit ?ret (Some ?h) w1"
    "live w1 = live ?w" "open_fds w1 = open_fds ?w" "calls w1 = calls ?w"
  proof (cases "?ret = 0")
    case True
    then show ?thesis using False that [of ?w] by (simp add: tls_handshake_def T_def Let_def)
  next
    case f: False
    have "tls_handshake X c i t w = (case httpc_calloc () ?w of (p, w) \<Rightarrow>
        res_bind (safe_free p w) (\<lambda>(_, w). tls_exit ?ret (Some ?h) w))"
      using False f by (simp add: tls_handshake_def T_def Let_def)
    then show ?thesis using verify_buffer [where w = ?w and f = "tls_exit ?ret (Some ?h)"] that by metis
  qed
  have "tls_exit ?ret (Some ?h) w1 = Inr (?ret, Some (?h\<lparr>mbedtls_ctx := None\<rparr>),
      (mbedtls_net_free T (log_call Tls_close_notify w1))\<lparr>live := l\<rparr>)"
    using l w1(2) by (intro tls_exit_ctx) simp_all
  then have "tls_handshake X c i t w = Inr (?ret, Some (c\<lparr>mbedtls_ctx := None\<rparr>),
      (mbedtls_net_free T (log_call Tls_close_notify w1))\<lparr>live := l\<rparr>)"
    using w1(1) by simp
  from down [OF False this] show ?thesis
    using w1(3,4) by (simp add: mbedtls_net_free_def T_def)
qed

text \<open>The whole operation, for a client whose host name is a string.\<close>

lemma tls_init_cases:
  assumes host: "host c = Some (k, hs @ NUL # r)" "nul_free hs"
    and init: "httpc_tls_init X (Some c) version info w = Inr (ret, h, w')"
  defines "T \<equiv> tls_settings c hs version info"
  obtains (no_memory) "ret = HTTPC_ERR_FAIL" "h = Some (c\<lparr>mbedtls_ctx := None\<rparr>)" "live w' = live w"
      "open_fds w' = open_fds w" "calls w' = calls w" "alloc_plan w \<noteq> []"
  | (bad_cert) "ret \<noteq> 0" "trusted_cert info \<noteq> None" "h = Some (c\<lparr>mbedtls_ctx := None\<rparr>)" "live w' = live w"
      "open_fds w' = open_fds w" "calls w' = calls w @ [Tls_close_notify]"
  | (up) i where "x_handshake X T = 0" "ret = HTTPC_ERR_OK" "h = Some (c\<lparr>mbedtls_ctx := Some (i, T)\<rparr>)"
      "live w' = i # live w" "open_fds w' = open_fds w" "calls w' = calls w @ [Tls_handshake T]"
  | (down) "x_handshake X T \<noteq> 0" "ret = sint (x_verify_result X T)" "h = Some (c\<lparr>mbedtls_ctx := None\<rparr>)"
      "live w' = live w"
      "open_fds w' = (if socket c = -1 then open_fds w else remove1 (socket c) (open_fds w))"
      "calls w' = calls w @ [Tls_handshake T, Tls_close_notify] @ (if socket c = -1 then [] else [Sys_shutdown (socket c) 2, Sys_close (socket c)])"
proof (cases rule: httpc_calloc_cases [of w "()"])
  case (fail ps)
  then show ?thesis using init by (intro no_memory) (auto simp: httpc_tls_init_def tls_exit_no_ctx)
next
  case ok
  let ?i = "next_id w"
  define w1 where "w1 = w\<lparr>alloc_plan := tl (alloc_plan w), live := ?i # live w, next_id := ?i + 1\<rparr>"
  have w1: "live w1 = ?i # live w" "open_fds w1 = open_fds w" "calls w1 = calls w" by (simp_all add: w1_def)
  have str: "str_at (hs @ NUL # r) 0 = Inr hs" using host(2) by (rule str_at_here)
  let ?t = "tls_configure (Some hs) version"
  define t' where "t' = (case trusted_cert info of None \<Rightarrow> ?t
    | Some s \<Rightarrow> ?t\<lparr>tls_authmode := VERIFY_REQUIRED, tls_ca := Some s\<rparr>)"
  have T: "t'\<lparr>net_fd := socket c\<rparr> = T"
    by (simp add: t'_def T_def tls_settings_def tls_configure_eq split: option.split)
  have calloc: "httpc_calloc () w = (Some (?i, ()), w1)" by (simp only: ok w1_def)
  note e = init [unfolded httpc_tls_init_def option.case calloc prod.case host(1) str res_bind_Inr Let_def]
  have "(\<exists>e. e \<noteq> 0 \<and> trusted_cert info \<noteq> None \<and>
        tls_exit e (Some (c\<lparr>mbedtls_ctx := Some (?i, ?t)\<rparr>)) w1 = Inr (ret, h, w')) \<or>
      tls_handshake X c ?i t' w1 = Inr (ret, h, w')"
  proof (cases info)
    case None
    with e show ?thesis by (simp add: t'_def trusted_cert_def)
  next
    case (Some x)
    with e show ?thesis
      by (cases "cert x") (auto simp: t'_def trusted_cert_def split: if_splits)
  qed
  then show ?thesis
  proof (elim disjE exE conjE)
    fix e assume e: "e \<noteq> 0" "trusted_cert info \<noteq> None" "tls_exit e (Some (c\<lparr>mbedtls_ctx := Some (?i, ?t)\<rparr>)) w1 = Inr (ret, h, w')"
    have "tls_exit e (Some (c\<lparr>mbedtls_ctx := Some (?i, ?t)\<rparr>)) w1 =
      Inr (e, Some (c\<lparr>mbedtls_ctx := Some (?i, ?t), mbedtls_ctx := None\<rparr>),
        (mbedtls_net_free ?t (log_call Tls_close_notify w1))\<lparr>live := live w\<rparr>)"
      using w1 by (intro tls_exit_ctx) simp_all
    then show ?thesis
      using e w1 by (intro bad_cert) (auto simp: mbedtls_net_free_def tls_configure_eq)
  next
    assume s: "tls_handshake X c ?i t' w1 = Inr (ret, h, w')"
    show ?thesis
    proof (cases rule: tls_handshake_cases [OF w1(1), where X = X and t = t' and c = c, unfolded T])
      case 1
      with s w1 show ?thesis by (intro that(3)) auto
    next
      case (2 w2)
      with s w1 show ?thesis by (intro that(4)) auto
    qed
  qed
qed




text \<open>When the call fails, nothing of it stays allocated and the client has no session.\<close>

theorem tls_init_failure_frees:
  assumes host: "host c = Some (k, hs @ NUL # r)" "nul_free hs"
    and init: "httpc_tls_init X (Some c) version info w = Inr (ret, h, w')" and fail: "ret \<noteq> HTTPC_ERR_OK"
  shows "h = Some (c\<lparr>mbedtls_ctx := None\<rparr>) \<and> live w' = live w"
  using host init by (cases rule: tls_init_cases) (use fail in auto)

lemma tls_run_bad_cert:
  "httpc_tls_init (ext_up\<lparr>x_crt_parse := (\<lambda>s n. -1)\<rparr>) (Some (client_up\<lparr>host := Some (7, ''a.org'' @ [NUL])\<rparr>)) HTTP_VER_1_1
     (Some \<lparr>cert = Some ''CA'', cert_len = 3, pk = None, pk_len = 0\<rparr>) world_init =
   Inr (-1, Some (client_up\<lparr>host := Some (7, ''a.org'' @ [NUL])\<rparr>), world_init\<lparr>next_id := 1, calls := [Tls_close_notify]\<rparr>)"
  by code_simp

theorem tls_init_failure_frees_witness:
  "\<exists>h w'. httpc_tls_init (ext_up\<lparr>x_crt_parse := (\<lambda>s n. -1)\<rparr>) (Some (client_up\<lparr>host := Some (7, ''a.org'' @ [NUL])\<rparr>))
       HTTP_VER_1_1 (Some \<lparr>cert = Some ''CA'', cert_len = 3, pk = None, pk_len = 0\<rparr>) world_init = Inr (-1, h, w') \<and>
     live w' = []"
proof (intro exI conjI)
  note freed = tls_init_failure_frees [OF _ _ tls_run_bad_cert, where k = 7 and hs = "''a.org''" and r = "[]"]
  show "live (world_init\<lparr>next_id := 1, calls := [Tls_close_notify]\<rparr>) = []"
    using conjunct2 [OF freed] by (simp add: HTTPC_ERR_OK_def world_init_def)
qed (rule tls_run_bad_cert)

text \<open>
  A handshake that fails for another reason than the certificate is reported as success: the
  context is gone and the socket closed.
\<close>

theorem tls_init_reports_lost_handshake:
  assumes host: "host c = Some (k, hs @ NUL # r)" "nul_free hs"
    and init: "httpc_tls_init X (Some c) version None w = Inr (ret, Some c', w')" and plan: "alloc_plan w = []"
    and down: "x_handshake X (tls_settings c hs version None) \<noteq> 0"
      "x_verify_result X (tls_settings c hs version None) = 0"
    and fd: "socket c \<noteq> -1"
  shows "ret = HTTPC_ERR_OK \<and> mbedtls_ctx c' = None \<and> Sys_close (socket c) \<in> set (calls w') \<and>
    open_fds w' = remove1 (socket c) (open_fds w)"
  using host init
proof (cases rule: tls_init_cases)
  case no_memory
  with plan show ?thesis by blast
next
  case bad_cert
  then show ?thesis by (simp add: trusted_cert_def)
next
  case up
  with down show ?thesis by blast
next
  case down
  then show ?thesis using assms(6,7) by (simp add: HTTPC_ERR_OK_def)
qed

lemma tls_run_lost:
  "httpc_tls_init (ext_up\<lparr>x_handshake := (\<lambda>t. -1)\<rparr>) (Some (client_up\<lparr>host := Some (7, ''a.org'' @ [NUL])\<rparr>)) HTTP_VER_1_1
     None (world_init\<lparr>open_fds := [3]\<rparr>) =
   Inr (0, Some (client_up\<lparr>host := Some (7, ''a.org'' @ [NUL])\<rparr>), world_init\<lparr>next_id := 1, calls := [Tls_handshake
       \<lparr>net_fd = 3, tls_hostname = Some ''a.org'', tls_authmode = VERIFY_NONE, tls_ca = None,
        tls_alpn = [], tls_max_version = (3, 3), tls_bio = True\<rparr>, Tls_close_notify, Sys_shutdown 3 2, Sys_close 3]\<rparr>)"
  by code_simp

theorem tls_init_reports_lost_handshake_witness:
  "\<exists>c' w'. httpc_tls_init (ext_up\<lparr>x_handshake := (\<lambda>t. -1)\<rparr>) (Some (client_up\<lparr>host := Some (7, ''a.org'' @ [NUL])\<rparr>))
       HTTP_VER_1_1 None (world_init\<lparr>open_fds := [3]\<rparr>) = Inr (0, Some c', w') \<and> mbedtls_ctx c' = None \<and> open_fds w' = []"
proof (intro exI conjI)
  note lost = tls_init_reports_lost_handshake [OF _ _ tls_run_lost, where k = 7 and hs = "''a.org''" and r = "[]"]
  show "mbedtls_ctx (client_up\<lparr>host := Some (7, ''a.org'' @ [NUL])\<rparr>) = None"
    by (rule conjunct1 [OF conjunct2 [OF lost]]) (simp_all add: demo_defs)
qed (rule tls_run_lost, simp add: world_init_def)

text \<open>A private key is handed to the certificate parser, as if its context were a certificate.\<close>

theorem tls_init_private_key_confusion:
  assumes host: "host c = Some (k, hs @ NUL # r)" "nul_free hs" and plan: "alloc_plan w = []"
    and key: "pk info = Some key" and cert: "cert info = None \<or> x_crt_parse X (the (cert info)) (cert_len info) = 0"
  shows "httpc_tls_init X (Some c) version (Some info) w = Inl Type_Confusion"
proof -
  have str: "str_at (hs @ NUL # r) 0 = Inr hs" using host(2) by (rule str_at_here)
  show ?thesis using cert by (auto simp: httpc_tls_init_def plan host(1) str key Let_def split: option.splits)
qed

theorem tls_init_private_key_confusion_witness:
  "httpc_tls_init ext_up (Some (client_up\<lparr>host := Some (7, ''a.org'' @ [NUL])\<rparr>)) HTTP_VER_1_1
     (Some \<lparr>cert = None, cert_len = 0, pk = Some ''KEY'', pk_len = 4\<rparr>) world_init = Inl Type_Confusion"
  by (rule tls_init_private_key_confusion [where k = 7 and hs = "''a.org''" and r = "[]" and key = "''KEY''"])
    (simp_all add: demo_defs)

text \<open>A session that comes up.\<close>

lemma tls_init_up:
  assumes host: "host c = Some (k, hs @ NUL # r)" "nul_free hs" and plan: "alloc_plan w = []"
    and cert: "trusted_cert info = None \<or> x_crt_parse X (the (trusted_cert info)) (cert_len (the info)) = 0"
    and key: "info = None \<or> pk (the info) = None" and up: "x_handshake X (tls_settings c hs version info) = 0"
  shows "httpc_tls_init X (Some c) version info w =
    Inr (HTTPC_ERR_OK, Some (c\<lparr>mbedtls_ctx := Some (next_id w, tls_settings c hs version info)\<rparr>),
         log_call (Tls_handshake (tls_settings c hs version info)) (w\<lparr>live := next_id w # live w, next_id := next_id w + 1\<rparr>))"
proof -
  have str: "str_at (hs @ NUL # r) 0 = Inr hs" using host(2) by (rule str_at_here)
  let ?t = "tls_configure (Some hs) version"
  let ?i = "next_id w" and ?w = "w\<lparr>live := next_id w # live w, next_id := next_id w + 1\<rparr>"
  define t' where "t' = (case trusted_cert info of None \<Rightarrow> ?t
    | Some s \<Rightarrow> ?t\<lparr>tls_authmode := VERIFY_REQUIRED, tls_ca := Some s\<rparr>)"
  have T: "t'\<lparr>net_fd := socket c\<rparr> = tls_settings c hs version info"
    by (simp add: t'_def tls_settings_def tls_configure_eq split: option.split)
  have "httpc_tls_init X (Some c) version info w = tls_handshake X c ?i t' ?w"
    using cert key plan
    by (cases info; cases "cert (the info)")
      (simp_all add: httpc_tls_init_def host(1) str t'_def trusted_cert_def Let_def)
  then show ?thesis using up by (simp add: tls_handshake_def T Let_def)
qed

text \<open>
  The name of a host of more than 255 characters is refused by MbedTLS; the client does not
  notice, and the handshake then accepts any certificate of the trusted authority.
\<close>

theorem tls_init_long_host_unnamed:
  assumes host: "host c = Some (k, hs @ [NUL])" "nul_free hs" and long: "255 < length hs"
    and plan: "alloc_plan w = []" and cert: "cert info = Some ca" "x_crt_parse X ca (cert_len info) = 0" "pk info = None"
    and up: "\<forall>t. x_handshake X t = 0"
  shows "\<exists>c' w' i t. httpc_tls_init X (Some c) version (Some info) w = Inr (HTTPC_ERR_OK, Some c', w') \<and>
    mbedtls_ctx c' = Some (i, t) \<and> tls_authmode t = VERIFY_REQUIRED \<and> tls_hostname t = None"
proof -
  have t: "trusted_cert (Some info) = Some ca" using cert by (simp add: trusted_cert_def)
  show ?thesis
    using tls_init_up [OF host plan, of "Some info" X version] t cert up long
    by (simp add: tls_settings_def MBEDTLS_SSL_MAX_HOST_NAME_LEN_def)
qed

theorem tls_init_long_host_unnamed_witness:
  "\<exists>c' w' i t. httpc_tls_init ext_up (Some (client_up\<lparr>host := Some (7, replicate 256 CHR ''a'' @ [NUL])\<rparr>)) HTTP_VER_1_1
       (Some \<lparr>cert = Some ''CA'', cert_len = 3, pk = None, pk_len = 0\<rparr>) world_init = Inr (0, Some c', w') \<and>
     mbedtls_ctx c' = Some (i, t) \<and> tls_authmode t = VERIFY_REQUIRED \<and> tls_hostname t = None"
proof -
  have "\<exists>c' w' i t. httpc_tls_init ext_up (Some (client_up\<lparr>host := Some (7, replicate 256 CHR ''a'' @ [NUL])\<rparr>)) HTTP_VER_1_1
       (Some \<lparr>cert = Some ''CA'', cert_len = 3, pk = None, pk_len = 0\<rparr>) world_init = Inr (HTTPC_ERR_OK, Some c', w') \<and>
     mbedtls_ctx c' = Some (i, t) \<and> tls_authmode t = VERIFY_REQUIRED \<and> tls_hostname t = None"
    by (rule tls_init_long_host_unnamed [where k = 7 and hs = "replicate 256 CHR ''a''" and ca = "''CA''"])
      (simp_all add: demo_defs nul_free_def)
  then show ?thesis by (simp add: HTTPC_ERR_OK_def)
qed

end
