(* ===== verification/Httpc_Lifecycle.thy ===== *)
theory Httpc_Lifecycle
  imports Httpc_Uri Httpc_Session Httpc_Tls
begin

text \<open>
  The life of a client: \<open>httpc_init\<close> allocates it, opens the socket, parses the address and
  sets TLS up; \<open>httpc_deinit\<close> releases everything. The client object itself is a block of the
  heap.
\<close>

section \<open>The operations\<close>

text \<open>The labels \<open>parse_fail\<close> and \<open>malloc_fail\<close>: the result is the null pointer.\<close>

definition init_malloc_fail :: "nat \<Rightarrow> httpc \<Rightarrow> world \<Rightarrow> (httpc ptr \<times> world) res" where
  "init_malloc_fail i c w = safe_free (Some (i, c)) w"

definition init_parse_fail :: "nat \<Rightarrow> httpc \<Rightarrow> world \<Rightarrow> (httpc ptr \<times> world) res" where
  "init_parse_fail i c w = init_malloc_fail i c (if 0 \<le> socket c then sys_close (socket c) w else w)"

definition init_timeouts :: "httpc_ver \<Rightarrow> int \<Rightarrow> world \<Rightarrow> world" where
  "init_timeouts version fd w =
     (if version = HTTP_VER_1_1
      then log_call (Sys_setsockopt fd SO_RCVTIMEO HTTPC_CFG_SOCKET_TIMEOUT)
             (log_call (Sys_setsockopt fd SO_SNDTIMEO HTTPC_CFG_SOCKET_TIMEOUT) w)
      else w)"

definition init_connect ::
  "ext \<Rightarrow> nat \<Rightarrow> httpc \<Rightarrow> string option \<Rightarrow> string option \<Rightarrow> mem_node option \<Rightarrow> httpc_ver \<Rightarrow>
   httpc_tls_info option \<Rightarrow> world \<Rightarrow> (httpc ptr \<times> world) res" where
  "init_connect X i c uri port node version ssl_info w =
     res_bind (httpc_parse_uri X (Some c) uri port w) (\<lambda>(ret, h, w).
     (case h of None \<Rightarrow> Inl Null_Deref | Some c \<Rightarrow>
        if ret < HTTPC_ERR_OK then init_parse_fail i c w
        else
          res_bind (if enable_mbedtls c then httpc_tls_init X (Some c) version ssl_info w
                    else Inr (0, Some c, w)) (\<lambda>(ret, h, w).
          (case h of None \<Rightarrow> Inl Null_Deref | Some c \<Rightarrow>
             if ret \<noteq> 0 then init_parse_fail i c w
             else Inr (Some (i, c\<lparr>header_node := node\<rparr>), w)))))"

definition httpc_init ::
  "ext \<Rightarrow> string option \<Rightarrow> string option \<Rightarrow> mem_node option \<Rightarrow> httpc_ver \<Rightarrow> httpc_tls_info option \<Rightarrow>
   world \<Rightarrow> (httpc ptr \<times> world) res" where
  "httpc_init X uri port node version ssl_info w =
     (case httpc_calloc httpc_zero w of
        (None, w) \<Rightarrow> Inr (None, w)
      | (Some (i, c), w) \<Rightarrow>
          (let c = c\<lparr>socket := x_socket X\<rparr>
           in if socket c < 0 then init_malloc_fail i c w
              else init_connect X i c uri port node version ssl_info
                     (init_timeouts version (socket c) (w\<lparr>open_fds := socket c # open_fds w\<rparr>))))"

definition httpc_deinit :: "httpc ptr \<Rightarrow> world \<Rightarrow> world res" where
  "httpc_deinit p w =
     (case p of None \<Rightarrow> Inr w | Some (i, c) \<Rightarrow>
        res_bind (if enable_mbedtls c then httpc_tls_deinit (Some c) w else Inr (Some c, w)) (\<lambda>(h, w).
        (case h of None \<Rightarrow> Inl Null_Deref | Some c \<Rightarrow>
           res_bind (safe_free (path c) (sys_close (socket c) w)) (\<lambda>(_, w).
           res_bind (safe_free (host c) w) (\<lambda>(_, w).
           res_bind (safe_free (Some (i, c)) w) (\<lambda>(_, w). Inr w))))))"

section \<open>A client in good order\<close>

text \<open>
  What a successful initialisation hands over: the client holds its own block, host, path and,
  for HTTPS, the TLS context, all different and live, and an open descriptor.
\<close>

definition ptr_ids :: "'a ptr \<Rightarrow> nat list" where
  "ptr_ids p = (case p of None \<Rightarrow> [] | Some (i, _) \<Rightarrow> [i])"

definition client_blocks :: "nat \<Rightarrow> httpc \<Rightarrow> nat list" where
  "client_blocks i c = ptr_ids (mbedtls_ctx c) @ ptr_ids (path c) @ ptr_ids (host c) @ [i]"

text \<open>Initialisation over plain HTTP, by cases.\<close>

lemma parse_uri_fd_kept:
  assumes r: "httpc_parse_uri X (Some c) (Some u) port w = Inr (ret, Some c', w')" and u: "nul_free u"
    and fresh: "host c = None" "path c = None"
  shows "socket c' = socket c \<and> open_fds w' = open_fds w \<and> mbedtls_ctx c' = mbedtls_ctx c \<and>
    (ret = HTTPC_ERR_OK \<longrightarrow> (\<exists>secure hp i j. u = scheme_of secure @ hp \<and> nul_free hp \<and>
        enable_mbedtls c' = secure \<and> host c' = Some (i, uri_host hp @ [NUL]) \<and> path c' = Some (j, uri_path hp @ [NUL]) \<and>
        live w' = j # i # live w)) \<and>
    (ret \<noteq> HTTPC_ERR_OK \<longrightarrow> ret < 0 \<and> live w' = live w \<and> host c' = None \<and> path c' = None)"
  using u
proof (cases rule: parse_uri_cases [where X = X and c = c and port = port and w = w])
  case (scheme secure hp)
  then have s: "parse_uri_split X (c\<lparr>enable_mbedtls := secure\<rparr>) hp port w = Inr (ret, Some c', w')"
    using r by (simp add: parse_uri_scheme)
  have fd: "open_fds w' = open_fds w"
    using parse_uri_split_balance(2) [OF s scheme(2)] fresh by simp
  then show ?thesis
    using parse_uri_split_balance(1) [OF s scheme(2)] fresh fd scheme by (auto simp: HTTPC_ERR_OK_def split: if_splits)
next
  case unknown
  then show ?thesis
    using r fresh by (auto simp: parse_uri_exit_def httpc_err_defs)
qed

text \<open>What a successful initialisation hands over.\<close>

definition session_state :: "ext \<Rightarrow> httpc \<Rightarrow> int list \<Rightarrow> int list \<Rightarrow> bool" where
  "session_state X c fds fds' \<longleftrightarrow>
     (if enable_mbedtls c \<and> mbedtls_ctx c = None then fds' = fds
      else fds' = socket c # fds \<and>
        (\<forall>k t. mbedtls_ctx c = Some (k, t) \<longrightarrow> enable_mbedtls c \<and> net_fd t = socket c \<and> x_handshake X t = 0))"

definition client_ready :: "ext \<Rightarrow> string \<Rightarrow> mem_node option \<Rightarrow> nat \<Rightarrow> httpc \<Rightarrow> world \<Rightarrow> world \<Rightarrow> bool" where
  "client_ready X u node i c w w' \<longleftrightarrow>
     (\<exists>hp h p. u = scheme_of (enable_mbedtls c) @ hp \<and> nul_free hp \<and>
        host c = Some (h, uri_host hp @ [NUL]) \<and> path c = Some (p, uri_path hp @ [NUL]) \<and>
        live w' = client_blocks i c @ live w) \<and>
     socket c = x_socket X \<and> 0 \<le> x_socket X \<and> header_node c = node \<and>
     session_state X c (open_fds w) (open_fds w')"

lemma client_blocks_simps:
  "host c = Some (h, hb) \<Longrightarrow> path c = Some (p, pb) \<Longrightarrow> client_blocks i c = ptr_ids (mbedtls_ctx c) @ [p, h, i]"
  "ptr_ids None = []" "ptr_ids (Some (k, x)) = [k]"
  by (simp_all add: client_blocks_def ptr_ids_def)

lemma init_connect_success:
  assumes r: "init_connect X i c (Some u) port node version info w = Inr (Some (i', c'), w')" and u: "nul_free u"
    and fresh: "host c = None" "path c = None" "mbedtls_ctx c = None" and fd: "socket c = x_socket X" "0 \<le> x_socket X"
    and w: "live w = i # live w0" "open_fds w = socket c # open_fds w0"
  shows "i' = i \<and> client_ready X u node i c' w0 w'"
proof -
  have nofail: "init_parse_fail i x v \<noteq> Inr (Some (i', c'), w')" for x v
    by (auto simp: init_parse_fail_def init_malloc_fail_def safe_free_def)
  obtain ret c1 w1 where p: "httpc_parse_uri X (Some c) (Some u) port w = Inr (ret, Some c1, w1)"
    and e: "(if ret < HTTPC_ERR_OK then init_parse_fail i c1 w1
        else res_bind (if enable_mbedtls c1 then httpc_tls_init X (Some c1) version info w1 else Inr (0, Some c1, w1))
          (\<lambda>(ret, h, w). (case h of None \<Rightarrow> Inl Null_Deref | Some c \<Rightarrow>
             if ret \<noteq> 0 then init_parse_fail i c w else Inr (Some (i, c\<lparr>header_node := node\<rparr>), w)))) =
        Inr (Some (i', c'), w')"
    using r by (auto simp: init_connect_def split: option.splits)
  note kept = parse_uri_fd_kept [OF p u fresh(1,2)]
  have ok: "\<not> ret < HTTPC_ERR_OK" using e nofail by (auto split: if_splits)
  then have ret: "ret = HTTPC_ERR_OK" using kept by (auto simp: HTTPC_ERR_OK_def)
  obtain hp h q where hp: "u = scheme_of (enable_mbedtls c1) @ hp" "nul_free hp"
    "host c1 = Some (h, uri_host hp @ [NUL])" "path c1 = Some (q, uri_path hp @ [NUL])" "live w1 = q # h # live w"
    using kept ret by blast
  have nh: "nul_free (uri_host hp)"
    using hp(2) unfolding uri_host_def nul_free_def by (meson set_takeWhileD)
  have "\<exists>c2. Inr (Some (i, c2\<lparr>header_node := node\<rparr>), w') = (Inr (Some (i', c'), w') :: (httpc ptr \<times> world) res) \<and>
      ((\<not> enable_mbedtls c1 \<and> c2 = c1 \<and> w' = w1) \<or>
       (enable_mbedtls c1 \<and> httpc_tls_init X (Some c1) version info w1 = Inr (0, Some c2, w')))"
    using e ok nofail by (auto split: if_splits option.splits)
  then obtain c2 where c2: "i' = i" "c' = c2\<lparr>header_node := node\<rparr>"
    and s: "(\<not> enable_mbedtls c1 \<and> c2 = c1 \<and> w' = w1) \<or>
       (enable_mbedtls c1 \<and> httpc_tls_init X (Some c1) version info w1 = Inr (0, Some c2, w'))"
    by auto
  from s show ?thesis
  proof (elim disjE conjE)
    assume "\<not> enable_mbedtls c1" "c2 = c1" "w' = w1"
    then show ?thesis
      using c2 hp kept fresh fd w by (auto simp: client_ready_def session_state_def client_blocks_simps)
  next
    assume tls: "enable_mbedtls c1" and t: "httpc_tls_init X (Some c1) version info w1 = Inr (0, Some c2, w')"
    show ?thesis
      using hp(3) nh t
    proof (cases rule: tls_init_cases)
      case (up k)
      then show ?thesis
        using tls c2 hp kept fresh fd w
        by (auto simp: client_ready_def session_state_def client_blocks_simps tls_settings_def)
    next
      case down
      then show ?thesis
        using tls c2 hp kept fresh fd w
        by (auto simp: client_ready_def session_state_def client_blocks_simps)
    qed (simp_all add: HTTPC_ERR_FAIL_def)
  qed
qed

lemma init_success:
  assumes r: "httpc_init X (Some u) port node version info w = Inr (Some (i, c), w')" and u: "nul_free u"
  shows "client_ready X u node i c w w'"
proof (cases rule: httpc_calloc_cases [of w httpc_zero])
  case (fail ps)
  then show ?thesis using r by (simp add: httpc_init_def)
next
  case ok
  define w1 where "w1 = w\<lparr>alloc_plan := tl (alloc_plan w), live := next_id w # live w, next_id := next_id w + 1\<rparr>"
  define c0 where "c0 = httpc_zero\<lparr>socket := x_socket X\<rparr>"
  have c0: "socket c0 = x_socket X" "host c0 = None" "path c0 = None" "mbedtls_ctx c0 = None"
    by (simp_all add: c0_def httpc_zero_def)
  let ?w = "init_timeouts version (x_socket X) (w1\<lparr>open_fds := x_socket X # open_fds w1\<rparr>)"
  have w: "live ?w = next_id w # live w" "open_fds ?w = socket c0 # open_fds w"
    by (simp_all add: init_timeouts_def w1_def c0)
  have e: "(if x_socket X < 0 then init_malloc_fail (next_id w) c0 w1
        else init_connect X (next_id w) c0 (Some u) port node version info ?w) = Inr (Some (i, c), w')"
    using r unfolding httpc_init_def ok [folded w1_def] prod.case option.case Let_def c0_def [symmetric] c0(1) .
  have fd: "0 \<le> x_socket X" using e by (auto simp: init_malloc_fail_def safe_free_def split: if_splits)
  then have "init_connect X (next_id w) c0 (Some u) port node version info ?w = Inr (Some (i, c), w')"
    using e by simp
  from init_connect_success [OF this u c0(2-4) c0(1) fd w] show ?thesis by blast
qed

text \<open>Releasing a client whose blocks lie on top of the heap.\<close>

lemma deinit_releases:
  assumes c: "host c = Some (h, hb)" "path c = Some (p, pb)" "mbedtls_ctx c \<noteq> None \<longrightarrow> enable_mbedtls c"
    and w: "live w = client_blocks i c @ l"
  shows "\<exists>w'. httpc_deinit (Some (i, c)) w = Inr w' \<and> live w' = l \<and>
    open_fds w' = (case mbedtls_ctx c of
        Some (k, t) \<Rightarrow> remove1 (socket c) (if net_fd t = -1 then open_fds w else remove1 (net_fd t) (open_fds w))
      | None \<Rightarrow> remove1 (socket c) (open_fds w)) \<and>
    calls w' = calls w @ (case mbedtls_ctx c of
        Some (k, t) \<Rightarrow> [Tls_close_notify] @ (if net_fd t = -1 then [] else [Sys_shutdown (net_fd t) 2, Sys_close (net_fd t)])
      | None \<Rightarrow> []) @ [Sys_close (socket c)]"
proof (cases "mbedtls_ctx c")
  case None
  then have l: "live w = p # h # i # l" using w c by (simp add: client_blocks_simps)
  show ?thesis
    using None c by (simp add: httpc_deinit_def httpc_tls_deinit_def safe_free_def l)
next
  case (Some kt)
  obtain k t where kt: "mbedtls_ctx c = Some (k, t)" using Some by (cases kt) auto
  then have l: "live w = k # p # h # i # l" using w c by (simp add: client_blocks_simps)
  show ?thesis
    using kt c by (simp add: httpc_deinit_def httpc_tls_deinit_def mbedtls_net_free_def safe_free_def l)
qed

text \<open>
  C34. A successful httpc_init, over HTTP and over HTTPS, on a descriptor that was not open before, followed
  by httpc_deinit restores the heap and the open descriptors exactly.
\<close>

theorem init_deinit_balance:
  assumes init: "httpc_init X (Some u) port node version info w = Inr (Some (i, c), w1)" and u: "nul_free u"
    and fd: "x_socket X \<notin> set (open_fds w)"
  shows "\<exists>w2. httpc_deinit (Some (i, c)) w1 = Inr w2 \<and> live w2 = live w \<and> open_fds w2 = open_fds w"
proof -
  have ready: "client_ready X u node i c w w1" by (rule init_success [OF init u])
  then obtain hp h p where c: "host c = Some (h, uri_host hp @ [NUL])" "path c = Some (p, uri_path hp @ [NUL])"
    "live w1 = client_blocks i c @ live w"
    by (auto simp: client_ready_def)
  have s: "session_state X c (open_fds w) (open_fds w1)" "socket c = x_socket X"
    using ready by (auto simp: client_ready_def)
  have "mbedtls_ctx c \<noteq> None \<longrightarrow> enable_mbedtls c" using s(1) by (auto simp: session_state_def)
  from deinit_releases [OF c(1,2) this c(3)] show ?thesis
    using s fd by (auto simp: session_state_def remove1_idem split: option.splits if_splits)
qed

lemma init_run_eq:
  "httpc_init ext_up (Some ''https://a.org/x'') (Some ''443'') None HTTP_VER_1_1 None world_init =
     Inr (Some (0, client_up\<lparr>host := Some (1, ''a.org'' @ [NUL]), path := Some (2, ''/x'' @ [NUL]), enable_mbedtls := True,
            mbedtls_ctx := Some (3, tls_settings client_up ''a.org'' HTTP_VER_1_1 None)\<rparr>),
          world_init\<lparr>live := [3, 2, 1, 0], next_id := 4, open_fds := [3],
            calls := [Sys_setsockopt 3 SO_SNDTIMEO 10, Sys_setsockopt 3 SO_RCVTIMEO 10,
              Sys_getaddrinfo ''a.org'' (Some ''443''), Sys_connect 3 (16909060, 80),
              Tls_handshake (tls_settings client_up ''a.org'' HTTP_VER_1_1 None)]\<rparr>)"
  by code_simp

lemma init_run:
  "\<exists>c w1. httpc_init ext_up (Some ''https://a.org/x'') (Some ''443'') None HTTP_VER_1_1 None world_init = Inr (Some (0, c), w1) \<and>
     enable_mbedtls c"
  by (simp add: init_run_eq)

theorem init_deinit_balance_witness:
  "\<exists>c w1 w2. httpc_init ext_up (Some ''https://a.org/x'') (Some ''443'') None HTTP_VER_1_1 None world_init =
       Inr (Some (0, c), w1) \<and> httpc_deinit (Some (0, c)) w1 = Inr w2 \<and> live w2 = [] \<and> open_fds w2 = []"
proof -
  obtain c w1 where i: "httpc_init ext_up (Some ''https://a.org/x'') (Some ''443'') None HTTP_VER_1_1 None world_init =
      Inr (Some (0, c), w1)"
    using init_run by blast
  have "\<exists>w2. httpc_deinit (Some (0, c)) w1 = Inr w2 \<and> live w2 = live world_init \<and> open_fds w2 = open_fds world_init"
    by (rule init_deinit_balance [OF i]) (simp_all add: demo_defs)
  with i show ?thesis by (auto simp: world_init_def)
qed

text \<open>
  What a client holds after a successful initialisation.
\<close>

theorem init_hands_over:
  assumes init: "httpc_init X (Some (scheme_of secure @ h @ p)) port node version info w = Inr (Some (i, c), w1)"
    and h: "nul_free h" "CHR ''/'' \<notin> set h" and p: "nul_free p" "p = [] \<or> hd p = CHR ''/''"
  shows "enable_mbedtls c = secure \<and> socket c = x_socket X \<and> 0 \<le> socket c \<and> header_node c = node \<and>
    (\<exists>j. host c = Some (j, h @ [NUL])) \<and> (\<exists>j. path c = Some (j, (if p = [] then ''/'' else p) @ [NUL])) \<and>
    (\<forall>k t. mbedtls_ctx c = Some (k, t) \<longrightarrow> secure \<and> net_fd t = socket c \<and> x_handshake X t = 0)"
proof -
  have u: "nul_free (scheme_of secure @ h @ p)" using h p by (simp add: scheme_of_def)
  have parts: "uri_host (h @ p) = h" "uri_path (h @ p) = (if p = [] then ''/'' else p)"
    using h p by (cases p; simp add: uri_host_whole uri_path_whole uri_host_append uri_path_append)+
  have inj: "scheme_of a @ s = scheme_of b @ t \<Longrightarrow> a = b \<and> s = t" for a b and s t :: string
    by (cases a; cases b) (simp_all add: scheme_of_def)
  show ?thesis
    using init_success [OF init u] parts
    by (auto simp: client_ready_def session_state_def dest!: inj split: if_splits)
qed

theorem init_hands_over_witness:
  "\<exists>c w1. httpc_init ext_up (Some (scheme_of True @ ''a.org'' @ ''/x'')) (Some ''443'') None HTTP_VER_1_1 None world_init =
       Inr (Some (0, c), w1) \<and> enable_mbedtls c \<and> socket c = 3 \<and> (\<exists>j. host c = Some (j, ''a.org'' @ [NUL]))"
proof -
  have u: "scheme_of True @ ''a.org'' @ ''/x'' = ''https://a.org/x''" by (simp add: scheme_of_def)
  obtain c w1 where i: "httpc_init ext_up (Some (scheme_of True @ ''a.org'' @ ''/x'')) (Some ''443'') None HTTP_VER_1_1 None
      world_init = Inr (Some (0, c), w1)"
    unfolding u using init_run by blast
  from init_hands_over [OF this] have "enable_mbedtls c \<and> socket c = 3 \<and> (\<exists>j. host c = Some (j, ''a.org'' @ [NUL]))"
    by (auto simp: ext_up_def)
  with i show ?thesis by blast
qed

text \<open>A TLS client closes its descriptor twice.\<close>

theorem deinit_closes_twice:
  assumes init: "httpc_init X (Some u) port node version info w = Inr (Some (i, c), w1)" and u: "nul_free u"
    and tls: "mbedtls_ctx c \<noteq> None"
  shows "\<exists>w2. httpc_deinit (Some (i, c)) w1 = Inr w2 \<and>
    calls w2 = calls w1 @ [Tls_close_notify, Sys_shutdown (socket c) 2, Sys_close (socket c), Sys_close (socket c)]"
proof -
  have ready: "client_ready X u node i c w w1" by (rule init_success [OF init u])
  then obtain hp h p where c: "host c = Some (h, uri_host hp @ [NUL])" "path c = Some (p, uri_path hp @ [NUL])"
    "live w1 = client_blocks i c @ live w"
    by (auto simp: client_ready_def)
  obtain k t where kt: "mbedtls_ctx c = Some (k, t)" using tls by auto
  have s: "enable_mbedtls c" "net_fd t = socket c" "0 \<le> socket c"
    using ready kt by (auto simp: client_ready_def session_state_def)
  from deinit_releases [OF c(1,2) _ c(3)] kt s show ?thesis by auto
qed

theorem deinit_closes_twice_witness:
  "\<exists>c w1 w2. httpc_init ext_up (Some ''https://a.org/x'') (Some ''443'') None HTTP_VER_1_1 None world_init =
       Inr (Some (0, c), w1) \<and> httpc_deinit (Some (0, c)) w1 = Inr w2 \<and>
     calls w2 = calls w1 @ [Tls_close_notify, Sys_shutdown 3 2, Sys_close 3, Sys_close 3]"
proof -
  let ?c = "client_up\<lparr>host := Some (1, ''a.org'' @ [NUL]), path := Some (2, ''/x'' @ [NUL]), enable_mbedtls := True,
            mbedtls_ctx := Some (3, tls_settings client_up ''a.org'' HTTP_VER_1_1 None)\<rparr>"
  have "\<exists>w1. httpc_init ext_up (Some ''https://a.org/x'') (Some ''443'') None HTTP_VER_1_1 None world_init = Inr (Some (0, ?c), w1)"
    using init_run_eq by blast
  then obtain w1 where i: "httpc_init ext_up (Some ''https://a.org/x'') (Some ''443'') None HTTP_VER_1_1 None world_init = Inr (Some (0, ?c), w1)" ..
  have "\<exists>w2. httpc_deinit (Some (0, ?c)) w1 = Inr w2 \<and>
    calls w2 = calls w1 @ [Tls_close_notify, Sys_shutdown (socket ?c) 2, Sys_close (socket ?c), Sys_close (socket ?c)]"
    by (rule deinit_closes_twice [OF i]) simp_all
  then show ?thesis using i by (auto simp: client_up_def)
qed

text \<open>After a lost handshake the caller holds a client whose every transfer dereferences null.\<close>

theorem init_lost_handshake_unusable:
  assumes init: "httpc_init X (Some u) port node version info w = Inr (Some (i, c), w1)" and u: "nul_free u"
    and https: "enable_mbedtls c" and lost: "\<forall>t. x_handshake X t \<noteq> 0"
  shows "httpc_send (Some c) (Some b) sz w' = Inl Null_Deref \<and> open_fds w1 = open_fds w"
proof -
  have "session_state X c (open_fds w) (open_fds w1)" "0 \<le> socket c"
    using init_success [OF init u] by (auto simp: client_ready_def)
  then have "mbedtls_ctx c = None \<and> open_fds w1 = open_fds w"
    using lost https by (cases "mbedtls_ctx c") (auto simp: session_state_def)
  then show ?thesis using https \<open>0 \<le> socket c\<close> by (simp add: httpc_send_def)
qed

theorem init_lost_handshake_unusable_witness:
  "\<exists>c w1. httpc_init (ext_up\<lparr>x_handshake := (\<lambda>t. -1)\<rparr>) (Some ''https://a.org/x'') (Some ''443'') None HTTP_VER_1_1 None world_init =
       Inr (Some (0, c), w1) \<and> httpc_send (Some c) (Some ''GET'') 3 w1 = Inl Null_Deref"
proof -
  let ?X = "ext_up\<lparr>x_handshake := (\<lambda>t. -1)\<rparr>"
  let ?c = "client_up\<lparr>host := Some (1, ''a.org'' @ [NUL]), path := Some (2, ''/x'' @ [NUL]), enable_mbedtls := True\<rparr>"
  have i: "httpc_init ?X (Some ''https://a.org/x'') (Some ''443'') None HTTP_VER_1_1 None world_init =
     Inr (Some (0, ?c),
          world_init\<lparr>live := [2, 1, 0], next_id := 4, open_fds := [],
            calls := [Sys_setsockopt 3 SO_SNDTIMEO 10, Sys_setsockopt 3 SO_RCVTIMEO 10,
              Sys_getaddrinfo ''a.org'' (Some ''443''), Sys_connect 3 (16909060, 80),
              Tls_handshake (tls_settings client_up ''a.org'' HTTP_VER_1_1 None), Tls_close_notify, Sys_shutdown 3 2, Sys_close 3]\<rparr>)"
    by code_simp
  have "httpc_send (Some ?c) (Some ''GET'') 3 w1 = Inl Null_Deref" for w1
    using init_lost_handshake_unusable [OF i] by simp
  with i show ?thesis by blast
qed

section \<open>Failing initialisations\<close>

lemma init_parse_fail_releases:
  "live w = i # l \<Longrightarrow> \<exists>w'. init_parse_fail i c w = Inr (None, w') \<and> live w' = l \<and>
     open_fds w' = (if 0 \<le> socket c then remove1 (socket c) (open_fds w) else open_fds w)"
  by (simp add: init_parse_fail_def init_malloc_fail_def safe_free_def)

lemma init_connect_plain_failure:
  assumes r: "init_connect X i c (Some (scheme_of False @ s)) port node version info w = Inr (None, w')" and u: "nul_free s"
    and fresh: "host c = None" "path c = None" and fd: "0 \<le> socket c"
    and w: "live w = i # live w0" "open_fds w = socket c # open_fds w0"
  shows "live w' = live w0 \<and> open_fds w' = open_fds w0"
proof -
  have u': "nul_free (scheme_of False @ s)" using u by (simp add: scheme_of_def)
  obtain ret c1 w1 where p: "httpc_parse_uri X (Some c) (Some (scheme_of False @ s)) port w = Inr (ret, Some c1, w1)"
    and e: "(if ret < HTTPC_ERR_OK then init_parse_fail i c1 w1
        else res_bind (if enable_mbedtls c1 then httpc_tls_init X (Some c1) version info w1 else Inr (0, Some c1, w1))
          (\<lambda>(ret, h, w). (case h of None \<Rightarrow> Inl Null_Deref | Some c \<Rightarrow>
             if ret \<noteq> 0 then init_parse_fail i c w else Inr (Some (i, c\<lparr>header_node := node\<rparr>), w)))) =
        Inr (None, w')"
    using r by (auto simp: init_connect_def split: option.splits)
  note kept = parse_uri_fd_kept [OF p u' fresh]
  have inj: "scheme_of False @ s \<noteq> scheme_of True @ t" for t by (simp add: scheme_of_def)
  have plain: "ret = HTTPC_ERR_OK \<longrightarrow> \<not> enable_mbedtls c1" using kept inj by (metis (full_types))
  have "ret < HTTPC_ERR_OK"
    using e plain kept by (auto simp: HTTPC_ERR_OK_def split: if_splits)
  then have "live w1 = i # live w0" "init_parse_fail i c1 w1 = Inr (None, w')"
    using kept e w by (auto simp: HTTPC_ERR_OK_def)
  with init_parse_fail_releases [of w1 i "live w0" c1] kept w fd show ?thesis by simp
qed

text \<open>
  An initialisation over HTTP that fails leaves the heap and the descriptors as they were.
\<close>

theorem init_plain_failure_balanced:
  assumes r: "httpc_init X (Some (scheme_of False @ s)) port node version info w = Inr (None, w')" and u: "nul_free s"
  shows "live w' = live w \<and> open_fds w' = open_fds w"
proof (cases rule: httpc_calloc_cases [of w httpc_zero])
  case (fail ps)
  then show ?thesis using r by (auto simp: httpc_init_def)
next
  case ok
  define w1 where "w1 = w\<lparr>alloc_plan := tl (alloc_plan w), live := next_id w # live w, next_id := next_id w + 1\<rparr>"
  define c0 where "c0 = httpc_zero\<lparr>socket := x_socket X\<rparr>"
  have c0: "socket c0 = x_socket X" "host c0 = None" "path c0 = None"
    by (simp_all add: c0_def httpc_zero_def)
  let ?w = "init_timeouts version (x_socket X) (w1\<lparr>open_fds := x_socket X # open_fds w1\<rparr>)"
  have w: "live ?w = next_id w # live w" "open_fds ?w = socket c0 # open_fds w"
    by (simp_all add: init_timeouts_def w1_def c0)
  have e: "(if x_socket X < 0 then init_malloc_fail (next_id w) c0 w1
        else init_connect X (next_id w) c0 (Some (scheme_of False @ s)) port node version info ?w) = Inr (None, w')"
    using r unfolding httpc_init_def ok [folded w1_def] prod.case option.case Let_def c0_def [symmetric] c0(1) .
  show ?thesis
  proof (cases "x_socket X < 0")
    case True
    then show ?thesis using e by (auto simp: init_malloc_fail_def safe_free_def w1_def)
  next
    case False
    then have "init_connect X (next_id w) c0 (Some (scheme_of False @ s)) port node version info ?w = Inr (None, w')"
      using e by simp
    from init_connect_plain_failure [OF this u c0(2,3) _ w] False show ?thesis by (simp add: c0)
  qed
qed

theorem init_plain_failure_balanced_witness:
  "\<exists>w'. httpc_init (ext_up\<lparr>x_getaddrinfo := (\<lambda>h p. (-2, []))\<rparr>) (Some (scheme_of False @ ''a.org/x'')) (Some ''80'') None
      HTTP_VER_1_1 None world_init = Inr (None, w') \<and> live w' = [] \<and> open_fds w' = []"
proof -
  have i: "httpc_init (ext_up\<lparr>x_getaddrinfo := (\<lambda>h p. (-2, []))\<rparr>) (Some (scheme_of False @ ''a.org/x'')) (Some ''80'') None
      HTTP_VER_1_1 None world_init = Inr (None, world_init\<lparr>next_id := 3, calls := [Sys_setsockopt 3 SO_SNDTIMEO 10,
        Sys_setsockopt 3 SO_RCVTIMEO 10, Sys_getaddrinfo ''a.org'' (Some ''80''), Sys_close 3]\<rparr>)"
    by code_simp
  from init_plain_failure_balanced [OF i] i show ?thesis by (simp add: world_init_def)
qed

text \<open>
  When the TLS set-up fails, host and path stay allocated without an owner.
\<close>

theorem init_tls_failure_leaks:
  assumes p: "httpc_parse_uri X (Some c) (Some u) port w = Inr (HTTPC_ERR_OK, Some c1, w1)" and u: "nul_free u"
    and fresh: "host c = None" "path c = None" and tls: "enable_mbedtls c1"
    and t: "httpc_tls_init X (Some c1) version info w1 = Inr (ret, Some c2, w2)" "ret \<noteq> 0"
    and w: "live w = i # l"
  shows "\<exists>w'. init_connect X i c (Some u) port node version info w = Inr (None, w') \<and>
    length (live w') = length l + 2"
proof -
  obtain hp h q where hp: "nul_free hp" "host c1 = Some (h, uri_host hp @ [NUL])"
    "path c1 = Some (q, uri_path hp @ [NUL])" "live w1 = q # h # live w"
    using parse_uri_fd_kept [OF p u fresh] by blast
  have nh: "nul_free (uri_host hp)"
    using hp(1) unfolding uri_host_def nul_free_def by (meson set_takeWhileD)
  have l2: "live w2 = q # h # i # l"
    using hp(2) nh t(1)
  proof (cases rule: tls_init_cases)
    case up
    with t(2) show ?thesis by (simp add: HTTPC_ERR_OK_def)
  qed (simp_all add: hp w)
  have "init_connect X i c (Some u) port node version info w = init_parse_fail i c2 w2"
    using t tls by (simp add: init_connect_def p HTTPC_ERR_OK_def)
  moreover have "\<exists>w'. init_parse_fail i c2 w2 = Inr (None, w') \<and> length (live w') = length l + 2"
    by (simp add: init_parse_fail_def init_malloc_fail_def safe_free_def l2)
  ultimately show ?thesis by simp
qed

theorem init_tls_failure_leaks_witness:
  "\<exists>w'. init_connect (ext_up\<lparr>x_crt_parse := (\<lambda>s n. -1)\<rparr>) 0 client_up (Some ''https://a.org/x'') (Some ''443'') None
       HTTP_VER_1_1 (Some \<lparr>cert = Some ''CA'', cert_len = 3, pk = None, pk_len = 0\<rparr>)
       (world_init\<lparr>live := [0], next_id := 1\<rparr>) = Inr (None, w') \<and> length (live w') = 2"
proof -
  let ?X = "ext_up\<lparr>x_crt_parse := (\<lambda>s n. -1)\<rparr>"
  let ?c = "client_up\<lparr>host := Some (1, ''a.org'' @ [NUL]), path := Some (2, ''/x'' @ [NUL]), enable_mbedtls := True\<rparr>"
  let ?w = "world_init\<lparr>live := [2, 1, 0], next_id := 3,
    calls := [Sys_getaddrinfo ''a.org'' (Some ''443''), Sys_connect 3 (16909060, 80)]\<rparr>"
  have p: "httpc_parse_uri ?X (Some client_up) (Some ''https://a.org/x'') (Some ''443'') (world_init\<lparr>live := [0], next_id := 1\<rparr>) =
      Inr (HTTPC_ERR_OK, Some ?c, ?w)"
    by code_simp
  have t: "httpc_tls_init ?X (Some ?c) HTTP_VER_1_1 (Some \<lparr>cert = Some ''CA'', cert_len = 3, pk = None, pk_len = 0\<rparr>) ?w =
      Inr (-1, Some ?c, ?w\<lparr>next_id := 4, calls := [Sys_getaddrinfo ''a.org'' (Some ''443''), Sys_connect 3 (16909060, 80),
        Tls_close_notify]\<rparr>)"
    by code_simp
  have "\<exists>w'. init_connect ?X 0 client_up (Some ''https://a.org/x'') (Some ''443'') None
       HTTP_VER_1_1 (Some \<lparr>cert = Some ''CA'', cert_len = 3, pk = None, pk_len = 0\<rparr>)
       (world_init\<lparr>live := [0], next_id := 1\<rparr>) = Inr (None, w') \<and> length (live w') = length ([] :: nat list) + 2"
    by (rule init_tls_failure_leaks [OF p _ _ _ _ t]) (simp_all add: demo_defs)
  then show ?thesis unfolding list.size(3) add_0 .
qed

end
