(* ===== verification/Nghttp2_Base.thy ===== *)
theory Nghttp2_Base
  imports Prelude
begin

text \<open>
  What the parts of nghttp2 share: the error codes of \<open>nghttp2.h\<close>, their texts
  (\<open>nghttp2_strerror\<close>, \<open>nghttp2_http2_strerror\<close>), 32-bit \<open>int\<close> arithmetic, and integers in network
  byte order (\<open>nghttp2_helper.c\<close>).
\<close>

unbundle bit_operations_syntax

section \<open>Codes\<close>

definition NGHTTP2_ERR_INVALID_ARGUMENT :: int where
  "NGHTTP2_ERR_INVALID_ARGUMENT = -501"

definition NGHTTP2_ERR_BUFFER_ERROR :: int where
  "NGHTTP2_ERR_BUFFER_ERROR = -502"

definition NGHTTP2_ERR_UNSUPPORTED_VERSION :: int where
  "NGHTTP2_ERR_UNSUPPORTED_VERSION = -503"

definition NGHTTP2_ERR_WOULDBLOCK :: int where
  "NGHTTP2_ERR_WOULDBLOCK = -504"

definition NGHTTP2_ERR_PROTO :: int where
  "NGHTTP2_ERR_PROTO = -505"

definition NGHTTP2_ERR_INVALID_FRAME :: int where
  "NGHTTP2_ERR_INVALID_FRAME = -506"

definition NGHTTP2_ERR_EOF :: int where
  "NGHTTP2_ERR_EOF = -507"

definition NGHTTP2_ERR_DEFERRED :: int where
  "NGHTTP2_ERR_DEFERRED = -508"

definition NGHTTP2_ERR_STREAM_ID_NOT_AVAILABLE :: int where
  "NGHTTP2_ERR_STREAM_ID_NOT_AVAILABLE = -509"

definition NGHTTP2_ERR_STREAM_CLOSED :: int where
  "NGHTTP2_ERR_STREAM_CLOSED = -510"

definition NGHTTP2_ERR_STREAM_CLOSING :: int where
  "NGHTTP2_ERR_STREAM_CLOSING = -511"

definition NGHTTP2_ERR_STREAM_SHUT_WR :: int where
  "NGHTTP2_ERR_STREAM_SHUT_WR = -512"

definition NGHTTP2_ERR_INVALID_STREAM_ID :: int where
  "NGHTTP2_ERR_INVALID_STREAM_ID = -513"

definition NGHTTP2_ERR_INVALID_STREAM_STATE :: int where
  "NGHTTP2_ERR_INVALID_STREAM_STATE = -514"

definition NGHTTP2_ERR_DEFERRED_DATA_EXIST :: int where
  "NGHTTP2_ERR_DEFERRED_DATA_EXIST = -515"

definition NGHTTP2_ERR_START_STREAM_NOT_ALLOWED :: int where
  "NGHTTP2_ERR_START_STREAM_NOT_ALLOWED = -516"

definition NGHTTP2_ERR_GOAWAY_ALREADY_SENT :: int where
  "NGHTTP2_ERR_GOAWAY_ALREADY_SENT = -517"

definition NGHTTP2_ERR_INVALID_HEADER_BLOCK :: int where
  "NGHTTP2_ERR_INVALID_HEADER_BLOCK = -518"

definition NGHTTP2_ERR_INVALID_STATE :: int where
  "NGHTTP2_ERR_INVALID_STATE = -519"

definition NGHTTP2_ERR_TEMPORAL_CALLBACK_FAILURE :: int where
  "NGHTTP2_ERR_TEMPORAL_CALLBACK_FAILURE = -521"

definition NGHTTP2_ERR_FRAME_SIZE_ERROR :: int where
  "NGHTTP2_ERR_FRAME_SIZE_ERROR = -522"

definition NGHTTP2_ERR_HEADER_COMP :: int where
  "NGHTTP2_ERR_HEADER_COMP = -523"

definition NGHTTP2_ERR_FLOW_CONTROL :: int where
  "NGHTTP2_ERR_FLOW_CONTROL = -524"

definition NGHTTP2_ERR_INSUFF_BUFSIZE :: int where
  "NGHTTP2_ERR_INSUFF_BUFSIZE = -525"

definition NGHTTP2_ERR_PAUSE :: int where
  "NGHTTP2_ERR_PAUSE = -526"

definition NGHTTP2_ERR_TOO_MANY_INFLIGHT_SETTINGS :: int where
  "NGHTTP2_ERR_TOO_MANY_INFLIGHT_SETTINGS = -527"

definition NGHTTP2_ERR_PUSH_DISABLED :: int where
  "NGHTTP2_ERR_PUSH_DISABLED = -528"

definition NGHTTP2_ERR_DATA_EXIST :: int where
  "NGHTTP2_ERR_DATA_EXIST = -529"

definition NGHTTP2_ERR_SESSION_CLOSING :: int where
  "NGHTTP2_ERR_SESSION_CLOSING = -530"

definition NGHTTP2_ERR_HTTP_HEADER :: int where
  "NGHTTP2_ERR_HTTP_HEADER = -531"

definition NGHTTP2_ERR_HTTP_MESSAGING :: int where
  "NGHTTP2_ERR_HTTP_MESSAGING = -532"

definition NGHTTP2_ERR_REFUSED_STREAM :: int where
  "NGHTTP2_ERR_REFUSED_STREAM = -533"

definition NGHTTP2_ERR_INTERNAL :: int where
  "NGHTTP2_ERR_INTERNAL = -534"

definition NGHTTP2_ERR_CANCEL :: int where
  "NGHTTP2_ERR_CANCEL = -535"

definition NGHTTP2_ERR_SETTINGS_EXPECTED :: int where
  "NGHTTP2_ERR_SETTINGS_EXPECTED = -536"

definition NGHTTP2_ERR_TOO_MANY_SETTINGS :: int where
  "NGHTTP2_ERR_TOO_MANY_SETTINGS = -537"

definition NGHTTP2_ERR_FATAL :: int where
  "NGHTTP2_ERR_FATAL = -900"

definition NGHTTP2_ERR_NOMEM :: int where
  "NGHTTP2_ERR_NOMEM = -901"

definition NGHTTP2_ERR_CALLBACK_FAILURE :: int where
  "NGHTTP2_ERR_CALLBACK_FAILURE = -902"

definition NGHTTP2_ERR_BAD_CLIENT_MAGIC :: int where
  "NGHTTP2_ERR_BAD_CLIENT_MAGIC = -903"

definition NGHTTP2_ERR_FLOODED :: int where
  "NGHTTP2_ERR_FLOODED = -904"

lemmas nghttp2_err_defs =
  NGHTTP2_ERR_INVALID_ARGUMENT_def
  NGHTTP2_ERR_BUFFER_ERROR_def
  NGHTTP2_ERR_UNSUPPORTED_VERSION_def
  NGHTTP2_ERR_WOULDBLOCK_def
  NGHTTP2_ERR_PROTO_def
  NGHTTP2_ERR_INVALID_FRAME_def
  NGHTTP2_ERR_EOF_def
  NGHTTP2_ERR_DEFERRED_def
  NGHTTP2_ERR_STREAM_ID_NOT_AVAILABLE_def
  NGHTTP2_ERR_STREAM_CLOSED_def
  NGHTTP2_ERR_STREAM_CLOSING_def
  NGHTTP2_ERR_STREAM_SHUT_WR_def
  NGHTTP2_ERR_INVALID_STREAM_ID_def
  NGHTTP2_ERR_INVALID_STREAM_STATE_def
  NGHTTP2_ERR_DEFERRED_DATA_EXIST_def
  NGHTTP2_ERR_START_STREAM_NOT_ALLOWED_def
  NGHTTP2_ERR_GOAWAY_ALREADY_SENT_def
  NGHTTP2_ERR_INVALID_HEADER_BLOCK_def
  NGHTTP2_ERR_INVALID_STATE_def
  NGHTTP2_ERR_TEMPORAL_CALLBACK_FAILURE_def
  NGHTTP2_ERR_FRAME_SIZE_ERROR_def
  NGHTTP2_ERR_HEADER_COMP_def
  NGHTTP2_ERR_FLOW_CONTROL_def
  NGHTTP2_ERR_INSUFF_BUFSIZE_def
  NGHTTP2_ERR_PAUSE_def
  NGHTTP2_ERR_TOO_MANY_INFLIGHT_SETTINGS_def
  NGHTTP2_ERR_PUSH_DISABLED_def
  NGHTTP2_ERR_DATA_EXIST_def
  NGHTTP2_ERR_SESSION_CLOSING_def
  NGHTTP2_ERR_HTTP_HEADER_def
  NGHTTP2_ERR_HTTP_MESSAGING_def
  NGHTTP2_ERR_REFUSED_STREAM_def
  NGHTTP2_ERR_INTERNAL_def
  NGHTTP2_ERR_CANCEL_def
  NGHTTP2_ERR_SETTINGS_EXPECTED_def
  NGHTTP2_ERR_TOO_MANY_SETTINGS_def
  NGHTTP2_ERR_FATAL_def
  NGHTTP2_ERR_NOMEM_def
  NGHTTP2_ERR_CALLBACK_FAILURE_def
  NGHTTP2_ERR_BAD_CLIENT_MAGIC_def
  NGHTTP2_ERR_FLOODED_def

text \<open>The error codes of HTTP/2 itself, which are not negative.\<close>

definition NGHTTP2_NO_ERROR :: nat where
  "NGHTTP2_NO_ERROR = 0"

definition NGHTTP2_PROTOCOL_ERROR :: nat where
  "NGHTTP2_PROTOCOL_ERROR = 1"

definition NGHTTP2_INTERNAL_ERROR :: nat where
  "NGHTTP2_INTERNAL_ERROR = 2"

definition NGHTTP2_FLOW_CONTROL_ERROR :: nat where
  "NGHTTP2_FLOW_CONTROL_ERROR = 3"

definition NGHTTP2_SETTINGS_TIMEOUT :: nat where
  "NGHTTP2_SETTINGS_TIMEOUT = 4"

definition NGHTTP2_STREAM_CLOSED :: nat where
  "NGHTTP2_STREAM_CLOSED = 5"

definition NGHTTP2_FRAME_SIZE_ERROR :: nat where
  "NGHTTP2_FRAME_SIZE_ERROR = 6"

definition NGHTTP2_REFUSED_STREAM :: nat where
  "NGHTTP2_REFUSED_STREAM = 7"

definition NGHTTP2_CANCEL :: nat where
  "NGHTTP2_CANCEL = 8"

definition NGHTTP2_COMPRESSION_ERROR :: nat where
  "NGHTTP2_COMPRESSION_ERROR = 9"

definition NGHTTP2_CONNECT_ERROR :: nat where
  "NGHTTP2_CONNECT_ERROR = 10"

definition NGHTTP2_ENHANCE_YOUR_CALM :: nat where
  "NGHTTP2_ENHANCE_YOUR_CALM = 11"

definition NGHTTP2_INADEQUATE_SECURITY :: nat where
  "NGHTTP2_INADEQUATE_SECURITY = 12"

definition NGHTTP2_HTTP_1_1_REQUIRED :: nat where
  "NGHTTP2_HTTP_1_1_REQUIRED = 13"

lemmas h2_error_code_defs =
  NGHTTP2_NO_ERROR_def
  NGHTTP2_PROTOCOL_ERROR_def
  NGHTTP2_INTERNAL_ERROR_def
  NGHTTP2_FLOW_CONTROL_ERROR_def
  NGHTTP2_SETTINGS_TIMEOUT_def
  NGHTTP2_STREAM_CLOSED_def
  NGHTTP2_FRAME_SIZE_ERROR_def
  NGHTTP2_REFUSED_STREAM_def
  NGHTTP2_CANCEL_def
  NGHTTP2_COMPRESSION_ERROR_def
  NGHTTP2_CONNECT_ERROR_def
  NGHTTP2_ENHANCE_YOUR_CALM_def
  NGHTTP2_INADEQUATE_SECURITY_def
  NGHTTP2_HTTP_1_1_REQUIRED_def

section \<open>Texts of the codes\<close>

definition nghttp2_strerror :: "int \<Rightarrow> string" where
  "nghttp2_strerror error_code =
     (if error_code = 0 then ''Success''
      else if error_code = NGHTTP2_ERR_INVALID_ARGUMENT then ''Invalid argument''
      else if error_code = NGHTTP2_ERR_BUFFER_ERROR then ''Out of buffer space''
      else if error_code = NGHTTP2_ERR_UNSUPPORTED_VERSION then ''Unsupported SPDY version''
      else if error_code = NGHTTP2_ERR_WOULDBLOCK then ''Operation would block''
      else if error_code = NGHTTP2_ERR_PROTO then ''Protocol error''
      else if error_code = NGHTTP2_ERR_INVALID_FRAME then ''Invalid frame octets''
      else if error_code = NGHTTP2_ERR_EOF then ''EOF''
      else if error_code = NGHTTP2_ERR_DEFERRED then ''Data transfer deferred''
      else if error_code = NGHTTP2_ERR_STREAM_ID_NOT_AVAILABLE then ''No more Stream ID available''
      else if error_code = NGHTTP2_ERR_STREAM_CLOSED then ''Stream was already closed or invalid''
      else if error_code = NGHTTP2_ERR_STREAM_CLOSING then ''Stream is closing''
      else if error_code = NGHTTP2_ERR_STREAM_SHUT_WR then ''The transmission is not allowed for this stream''
      else if error_code = NGHTTP2_ERR_INVALID_STREAM_ID then ''Stream ID is invalid''
      else if error_code = NGHTTP2_ERR_INVALID_STREAM_STATE then ''Invalid stream state''
      else if error_code = NGHTTP2_ERR_DEFERRED_DATA_EXIST then ''Another DATA frame has already been deferred''
      else if error_code = NGHTTP2_ERR_START_STREAM_NOT_ALLOWED then ''request HEADERS is not allowed''
      else if error_code = NGHTTP2_ERR_GOAWAY_ALREADY_SENT then ''GOAWAY has already been sent''
      else if error_code = NGHTTP2_ERR_INVALID_HEADER_BLOCK then ''Invalid header block''
      else if error_code = NGHTTP2_ERR_INVALID_STATE then ''Invalid state''
      else if error_code = NGHTTP2_ERR_TEMPORAL_CALLBACK_FAILURE then ''The user callback function failed due to the temporal error''
      else if error_code = NGHTTP2_ERR_FRAME_SIZE_ERROR then ''The length of the frame is invalid''
      else if error_code = NGHTTP2_ERR_HEADER_COMP then ''Header compression/decompression error''
      else if error_code = NGHTTP2_ERR_FLOW_CONTROL then ''Flow control error''
      else if error_code = NGHTTP2_ERR_INSUFF_BUFSIZE then ''Insufficient buffer size given to function''
      else if error_code = NGHTTP2_ERR_PAUSE then ''Callback was paused by the application''
      else if error_code = NGHTTP2_ERR_TOO_MANY_INFLIGHT_SETTINGS then ''Too many inflight SETTINGS''
      else if error_code = NGHTTP2_ERR_PUSH_DISABLED then ''Server push is disabled by peer''
      else if error_code = NGHTTP2_ERR_DATA_EXIST then ''DATA or HEADERS frame has already been submitted for the stream''
      else if error_code = NGHTTP2_ERR_SESSION_CLOSING then ''The current session is closing''
      else if error_code = NGHTTP2_ERR_HTTP_HEADER then ''Invalid HTTP header field was received''
      else if error_code = NGHTTP2_ERR_HTTP_MESSAGING then ''Violation in HTTP messaging rule''
      else if error_code = NGHTTP2_ERR_REFUSED_STREAM then ''Stream was refused''
      else if error_code = NGHTTP2_ERR_INTERNAL then ''Internal error''
      else if error_code = NGHTTP2_ERR_CANCEL then ''Cancel''
      else if error_code = NGHTTP2_ERR_SETTINGS_EXPECTED then ''When a local endpoint expects to receive SETTINGS frame, it receives an other type of frame''
      else if error_code = NGHTTP2_ERR_NOMEM then ''Out of memory''
      else if error_code = NGHTTP2_ERR_CALLBACK_FAILURE then ''The user callback function failed''
      else if error_code = NGHTTP2_ERR_BAD_CLIENT_MAGIC then ''Received bad client magic byte string''
      else if error_code = NGHTTP2_ERR_FLOODED then ''Flooding was detected in this HTTP/2 session, and it must be closed''
      else if error_code = NGHTTP2_ERR_TOO_MANY_SETTINGS then ''SETTINGS frame contained more than the maximum allowed entries''
      else ''Unknown error code'')"

definition nghttp2_http2_strerror :: "nat \<Rightarrow> string" where
  "nghttp2_http2_strerror error_code =
     (if error_code = NGHTTP2_NO_ERROR then ''NO_ERROR''
      else if error_code = NGHTTP2_PROTOCOL_ERROR then ''PROTOCOL_ERROR''
      else if error_code = NGHTTP2_INTERNAL_ERROR then ''INTERNAL_ERROR''
      else if error_code = NGHTTP2_FLOW_CONTROL_ERROR then ''FLOW_CONTROL_ERROR''
      else if error_code = NGHTTP2_SETTINGS_TIMEOUT then ''SETTINGS_TIMEOUT''
      else if error_code = NGHTTP2_STREAM_CLOSED then ''STREAM_CLOSED''
      else if error_code = NGHTTP2_FRAME_SIZE_ERROR then ''FRAME_SIZE_ERROR''
      else if error_code = NGHTTP2_REFUSED_STREAM then ''REFUSED_STREAM''
      else if error_code = NGHTTP2_CANCEL then ''CANCEL''
      else if error_code = NGHTTP2_COMPRESSION_ERROR then ''COMPRESSION_ERROR''
      else if error_code = NGHTTP2_CONNECT_ERROR then ''CONNECT_ERROR''
      else if error_code = NGHTTP2_ENHANCE_YOUR_CALM then ''ENHANCE_YOUR_CALM''
      else if error_code = NGHTTP2_INADEQUATE_SECURITY then ''INADEQUATE_SECURITY''
      else if error_code = NGHTTP2_HTTP_1_1_REQUIRED then ''HTTP_1_1_REQUIRED''
      else ''unknown'')"

section \<open>Arithmetic of 32-bit int\<close>

definition INT32_MIN :: int where
  "INT32_MIN = -2147483648"

definition INT32_MAX :: int where
  "INT32_MAX = 2147483647"

definition i32 :: "int \<Rightarrow> int res" where
  "i32 n = (if INT32_MIN \<le> n \<and> n \<le> INT32_MAX then Inr n else Inl Int_Overflow)"

definition is_i32 :: "int \<Rightarrow> bool" where
  "is_i32 n \<longleftrightarrow> INT32_MIN \<le> n \<and> n \<le> INT32_MAX"

lemma i32_ok [simp]: "is_i32 n \<Longrightarrow> i32 n = Inr n"
  by (simp add: i32_def is_i32_def)

lemmas i32_defs = is_i32_def INT32_MIN_def INT32_MAX_def

section \<open>Network byte order\<close>

type_synonym byte = "8 word"

definition nghttp2_put_uint16be :: "16 word \<Rightarrow> byte list" where
  "nghttp2_put_uint16be n = [ucast (drop_bit 8 n), ucast n]"

definition nghttp2_put_uint32be :: "32 word \<Rightarrow> byte list" where
  "nghttp2_put_uint32be n = [ucast (drop_bit 24 n), ucast (drop_bit 16 n), ucast (drop_bit 8 n), ucast n]"

text \<open>Reading takes the bytes from the pointer to the end of the memory behind it.\<close>

fun nghttp2_get_uint16 :: "byte list \<Rightarrow> 16 word res" where
  "nghttp2_get_uint16 (a # b # r) = Inr (push_bit 8 (ucast a) OR ucast b)"
| "nghttp2_get_uint16 _ = Inl Out_Of_Bounds"

fun nghttp2_get_uint32 :: "byte list \<Rightarrow> 32 word res" where
  "nghttp2_get_uint32 (a # b # c # d # r) =
     Inr (push_bit 24 (ucast a) OR push_bit 16 (ucast b) OR push_bit 8 (ucast c) OR ucast d)"
| "nghttp2_get_uint32 _ = Inl Out_Of_Bounds"

lemma get_put_uint16 [simp]: "nghttp2_get_uint16 (nghttp2_put_uint16be n @ r) = Inr n"
  by (simp add: nghttp2_put_uint16be_def, rule bit_word_eqI) (auto simp: bit_simps)

lemma get_put_uint32 [simp]:
  fixes n :: "32 word"
  shows "nghttp2_get_uint32 (nghttp2_put_uint32be n @ r) = Inr n"
proof -
  have "push_bit 24 (ucast (ucast (drop_bit 24 n) :: byte) :: 32 word) OR push_bit 16 (ucast (ucast (drop_bit 16 n) :: byte)) OR
      push_bit 8 (ucast (ucast (drop_bit 8 n) :: byte)) OR ucast (ucast n :: byte) = n"
  proof (rule bit_word_eqI)
    fix m assume "m < LENGTH(32)"
    then consider "m < 8" | "8 \<le> m" "m < 16" | "16 \<le> m" "m < 24" | "24 \<le> m" "m < 32" by fastforce
    then show "bit (push_bit 24 (ucast (ucast (drop_bit 24 n) :: byte) :: 32 word) OR push_bit 16 (ucast (ucast (drop_bit 16 n) :: byte)) OR
      push_bit 8 (ucast (ucast (drop_bit 8 n) :: byte)) OR ucast (ucast n :: byte)) m = bit n m"
      by cases (auto simp: bit_simps)
  qed
  then show ?thesis by (simp add: nghttp2_put_uint32be_def)
qed

lemma put_uint_length [simp]:
  "length (nghttp2_put_uint16be m) = 2" "length (nghttp2_put_uint32be n) = 4"
  by (simp_all add: nghttp2_put_uint16be_def nghttp2_put_uint32be_def)

lemma byte_bit_beyond:
  "\<not> bit (b :: byte) (8 + n)" "\<not> bit (b :: byte) (16 + n)" "\<not> bit (b :: byte) (24 + n)"
  by (auto dest!: bit_imp_le_length)

lemma put_get_uint32:
  "nghttp2_get_uint32 (a # b # c # d # r) = Inr n \<Longrightarrow> nghttp2_put_uint32be n = [a, b, c, d]"
  unfolding nghttp2_get_uint32.simps sum.inject nghttp2_put_uint32be_def
  by (auto intro!: bit_word_eqI simp: bit_simps byte_bit_beyond)

lemma put_get_uint16:
  "nghttp2_get_uint16 (a # b # r) = Inr n \<Longrightarrow> nghttp2_put_uint16be n = [a, b]"
  unfolding nghttp2_get_uint16.simps sum.inject nghttp2_put_uint16be_def
  by (auto intro!: bit_word_eqI simp: bit_simps byte_bit_beyond)

lemma get_uint16_total: "2 \<le> length bs \<Longrightarrow> \<exists>n. nghttp2_get_uint16 bs = Inr n"
  by (cases bs rule: nghttp2_get_uint16.cases) auto

lemma get_uint32_total: "4 \<le> length bs \<Longrightarrow> \<exists>n. nghttp2_get_uint32 bs = Inr n"
  by (cases bs rule: nghttp2_get_uint32.cases) auto

end
