(* ===== verification/Nghttp2_Buf.thy ===== *)
theory Nghttp2_Buf
  imports Nghttp2_Base
begin

text \<open>
  The buffers of nghttp2 (nghttp2_buf.c, nghttp2_buf.h, nghttp2_mem.c): a single buffer with
  its positions, and the chain of chunks that a frame is written to.
\<close>

section \<open>Allocator\<close>

text \<open>
  The answers of the allocator are a finite list: no memory, or a block whose contents are
  what the allocator leaves in it. With the list used up there is no memory. The number of
  live blocks goes up with an allocation and down with a release.
\<close>

type_synonym bytes = "byte list"

record memory =
  mem_answers :: "(nat \<Rightarrow> byte) option list"
  mem_live :: int

definition nghttp2_mem_malloc :: "nat \<Rightarrow> memory \<Rightarrow> bytes option \<times> memory" where
  "nghttp2_mem_malloc sz m =
     (case mem_answers m of
        [] \<Rightarrow> (None, m)
      | None # as \<Rightarrow> (None, m\<lparr>mem_answers := as\<rparr>)
      | Some f # as \<Rightarrow> (Some (map f [0..<sz]), m\<lparr>mem_answers := as, mem_live := mem_live m + 1\<rparr>))"

definition nghttp2_mem_free :: "bytes option \<Rightarrow> memory \<Rightarrow> memory" where
  "nghttp2_mem_free p m = (case p of None \<Rightarrow> m | Some _ \<Rightarrow> m\<lparr>mem_live := mem_live m - 1\<rparr>)"

definition nghttp2_mem_realloc :: "bytes option \<Rightarrow> nat \<Rightarrow> memory \<Rightarrow> bytes option \<times> memory" where
  "nghttp2_mem_realloc p sz m =
     (case p of
        None \<Rightarrow> nghttp2_mem_malloc sz m
      | Some old \<Rightarrow>
          (case nghttp2_mem_malloc sz m of
             (None, m1) \<Rightarrow> (None, m1)
           | (Some new, m1) \<Rightarrow> (Some (take sz old @ drop (length old) new), nghttp2_mem_free p m1)))"

text \<open>Reading and writing a run of bytes of a block; no pointer may leave the block.\<close>

definition rd :: "bytes \<Rightarrow> nat \<Rightarrow> nat \<Rightarrow> bytes res" where
  "rd s off n = (if off + n \<le> length s then Inr (take n (drop off s)) else Inl Out_Of_Bounds)"

definition wr :: "bytes \<Rightarrow> nat \<Rightarrow> bytes \<Rightarrow> bytes res" where
  "wr s off d =
     (if off + length d \<le> length s then Inr (take off s @ d @ drop (off + length d) s)
      else Inl Out_Of_Bounds)"

text \<open>Subtraction of \<open>size_t\<close> values.\<close>

definition size_sub :: "nat \<Rightarrow> nat \<Rightarrow> nat" where
  "size_sub a b = (if b \<le> a then a - b else 2 ^ 64 - (b - a))"

definition ssize_t_of :: "nat \<Rightarrow> int" where
  "ssize_t_of n = (if n < 2 ^ 63 then int n else int n - 2 ^ 64)"

text \<open>\<open>nghttp2_cpymem\<close> copies and returns the pointer behind the copy.\<close>

definition nghttp2_cpymem :: "bytes \<Rightarrow> nat \<Rightarrow> bytes \<Rightarrow> (bytes \<times> nat) res" where
  "nghttp2_cpymem s dest src =
     (if src = [] then Inr (s, dest) else res_bind (wr s dest src) (\<lambda>s'. Inr (s', dest + length src)))"

section \<open>One buffer\<close>

text \<open>
  The pointers of a buffer are kept as offsets from \<open>begin\<close>; \<open>begin\<close> and \<open>end\<close> are the block
  itself, or none when \<open>begin\<close> is null.
\<close>

record nghttp2_buf =
  buf_block :: "bytes option"
  buf_pos :: nat
  buf_last :: nat
  buf_mark :: nat

definition buf_store :: "nghttp2_buf \<Rightarrow> bytes" where
  "buf_store b = (case buf_block b of None \<Rightarrow> [] | Some s \<Rightarrow> s)"

definition nghttp2_buf_cap :: "nghttp2_buf \<Rightarrow> nat" where
  "nghttp2_buf_cap b = length (buf_store b)"

definition nghttp2_buf_len :: "nghttp2_buf \<Rightarrow> nat" where
  "nghttp2_buf_len b = size_sub (buf_last b) (buf_pos b)"

definition nghttp2_buf_avail :: "nghttp2_buf \<Rightarrow> nat" where
  "nghttp2_buf_avail b = size_sub (nghttp2_buf_cap b) (buf_last b)"

definition nghttp2_buf_shift_right :: "nghttp2_buf \<Rightarrow> nat \<Rightarrow> nghttp2_buf res" where
  "nghttp2_buf_shift_right b amt =
     (if buf_pos b + amt \<le> nghttp2_buf_cap b \<and> buf_last b + amt \<le> nghttp2_buf_cap b
      then Inr (b\<lparr>buf_pos := buf_pos b + amt, buf_last := buf_last b + amt\<rparr>) else Inl Out_Of_Bounds)"

definition nghttp2_buf_shift_left :: "nghttp2_buf \<Rightarrow> nat \<Rightarrow> nghttp2_buf res" where
  "nghttp2_buf_shift_left b amt =
     (if amt \<le> buf_pos b \<and> amt \<le> buf_last b
      then Inr (b\<lparr>buf_pos := buf_pos b - amt, buf_last := buf_last b - amt\<rparr>) else Inl Out_Of_Bounds)"

definition nghttp2_buf_init :: nghttp2_buf where
  "nghttp2_buf_init = \<lparr>buf_block = None, buf_pos = 0, buf_last = 0, buf_mark = 0\<rparr>"

definition nghttp2_buf_reserve :: "nghttp2_buf \<Rightarrow> nat \<Rightarrow> memory \<Rightarrow> int \<times> nghttp2_buf \<times> memory" where
  "nghttp2_buf_reserve b new_cap m =
     (if new_cap \<le> nghttp2_buf_cap b then (0, b, m)
      else
        (case nghttp2_mem_realloc (buf_block b) (max new_cap (nghttp2_buf_cap b * 2)) m of
           (None, m1) \<Rightarrow> (NGHTTP2_ERR_NOMEM, b, m1)
         | (Some s, m1) \<Rightarrow> (0, b\<lparr>buf_block := Some s\<rparr>, m1)))"

definition nghttp2_buf_init2 :: "nat \<Rightarrow> memory \<Rightarrow> int \<times> nghttp2_buf \<times> memory" where
  "nghttp2_buf_init2 initial m = nghttp2_buf_reserve nghttp2_buf_init initial m"

definition nghttp2_buf_free :: "nghttp2_buf \<Rightarrow> memory \<Rightarrow> nghttp2_buf \<times> memory" where
  "nghttp2_buf_free b m = (b\<lparr>buf_block := None\<rparr>, nghttp2_mem_free (buf_block b) m)"

definition nghttp2_buf_reset :: "nghttp2_buf \<Rightarrow> nghttp2_buf" where
  "nghttp2_buf_reset b = b\<lparr>buf_pos := 0, buf_last := 0, buf_mark := 0\<rparr>"

text \<open>Wrapping memory of the caller: the block is the caller's.\<close>

definition nghttp2_buf_wrap_init :: "bytes option \<Rightarrow> nghttp2_buf" where
  "nghttp2_buf_wrap_init begin = \<lparr>buf_block = begin, buf_pos = 0, buf_last = 0, buf_mark = 0\<rparr>"

text \<open>Writing at \<open>last\<close>, with and without moving it.\<close>

definition buf_cpy :: "nghttp2_buf \<Rightarrow> bytes \<Rightarrow> nghttp2_buf res" where
  "buf_cpy b d =
     res_bind (nghttp2_cpymem (buf_store b) (buf_last b) d) (\<lambda>(s, l).
     Inr (b\<lparr>buf_block := (if d = [] then buf_block b else Some s), buf_last := l\<rparr>))"

definition buf_poke :: "nghttp2_buf \<Rightarrow> nat \<Rightarrow> bytes \<Rightarrow> nghttp2_buf res" where
  "buf_poke b off d = res_bind (wr (buf_store b) off d) (\<lambda>s. Inr (b\<lparr>buf_block := Some s\<rparr>))"

definition buf_read :: "nghttp2_buf \<Rightarrow> bytes res" where
  "buf_read b = rd (buf_store b) (buf_pos b) (nghttp2_buf_len b)"

section \<open>Chains of buffers\<close>

text \<open>
  The chain is the list of its buffers; \<open>cur\<close> is an index into it. A chunk owns its
  \<open>nghttp2_buf_chain\<close> structure and the block of its buffer.
\<close>

record nghttp2_bufs =
  bufs_head :: "nghttp2_buf list"
  bufs_cur :: nat
  bufs_chunk_length :: nat
  bufs_max_chunk :: nat
  bufs_chunk_used :: nat
  bufs_chunk_keep :: nat
  bufs_offset :: nat

definition SIZEOF_BUF_CHAIN :: nat where
  "SIZEOF_BUF_CHAIN = 48"

definition buf_chain_new :: "nat \<Rightarrow> memory \<Rightarrow> int \<times> nghttp2_buf option \<times> memory" where
  "buf_chain_new chunk_length m =
     (case nghttp2_mem_malloc SIZEOF_BUF_CHAIN m of
        (None, m1) \<Rightarrow> (NGHTTP2_ERR_NOMEM, None, m1)
      | (Some chain, m1) \<Rightarrow>
          (case nghttp2_buf_init2 chunk_length m1 of
             (rv, b, m2) \<Rightarrow>
               if rv \<noteq> 0 then (NGHTTP2_ERR_NOMEM, None, nghttp2_mem_free (Some chain) m2)
               else (0, Some b, m2)))"

definition buf_chain_del :: "nghttp2_buf \<Rightarrow> memory \<Rightarrow> memory" where
  "buf_chain_del chain m = nghttp2_mem_free (Some []) (snd (nghttp2_buf_free chain m))"

text \<open>The initializers write the fields of the structure only on success.\<close>

definition nghttp2_bufs_init3 ::
  "nghttp2_bufs \<Rightarrow> nat \<Rightarrow> nat \<Rightarrow> nat \<Rightarrow> nat \<Rightarrow> memory \<Rightarrow> (int \<times> nghttp2_bufs \<times> memory) res" where
  "nghttp2_bufs_init3 bufs chunk_length max_chunk chunk_keep offset m =
     (if chunk_keep = 0 \<or> max_chunk < chunk_keep \<or> chunk_length < offset
      then Inr (NGHTTP2_ERR_INVALID_ARGUMENT, bufs, m)
      else
        (case buf_chain_new chunk_length m of
           (rv, None, m1) \<Rightarrow> Inr (rv, bufs, m1)
         | (rv, Some chain, m1) \<Rightarrow>
             res_bind (nghttp2_buf_shift_right chain offset) (\<lambda>c.
             Inr (0, \<lparr>bufs_head = [c], bufs_cur = 0, bufs_chunk_length = chunk_length,
               bufs_max_chunk = max_chunk, bufs_chunk_used = 1, bufs_chunk_keep = chunk_keep,
               bufs_offset = offset\<rparr>, m1))))"

definition nghttp2_bufs_init2 ::
  "nghttp2_bufs \<Rightarrow> nat \<Rightarrow> nat \<Rightarrow> nat \<Rightarrow> memory \<Rightarrow> (int \<times> nghttp2_bufs \<times> memory) res" where
  "nghttp2_bufs_init2 bufs chunk_length max_chunk offset m =
     nghttp2_bufs_init3 bufs chunk_length max_chunk max_chunk offset m"

definition nghttp2_bufs_init ::
  "nghttp2_bufs \<Rightarrow> nat \<Rightarrow> nat \<Rightarrow> memory \<Rightarrow> (int \<times> nghttp2_bufs \<times> memory) res" where
  "nghttp2_bufs_init bufs chunk_length max_chunk m = nghttp2_bufs_init2 bufs chunk_length max_chunk 0 m"

definition nghttp2_bufs_free :: "nghttp2_bufs \<Rightarrow> memory \<Rightarrow> nghttp2_bufs \<times> memory" where
  "nghttp2_bufs_free bufs m = (bufs\<lparr>bufs_head := []\<rparr>, fold buf_chain_del (bufs_head bufs) m)"

definition nghttp2_bufs_realloc :: "nghttp2_bufs \<Rightarrow> nat \<Rightarrow> memory \<Rightarrow> (int \<times> nghttp2_bufs \<times> memory) res" where
  "nghttp2_bufs_realloc bufs chunk_length m =
     (if chunk_length < bufs_offset bufs then Inr (NGHTTP2_ERR_INVALID_ARGUMENT, bufs, m)
      else
        (case buf_chain_new chunk_length m of
           (rv, None, m1) \<Rightarrow> Inr (rv, bufs, m1)
         | (rv, Some chain, m1) \<Rightarrow>
             (case nghttp2_bufs_free bufs m1 of
                (bufs1, m2) \<Rightarrow>
                  res_bind (nghttp2_buf_shift_right chain (bufs_offset bufs1)) (\<lambda>c.
                  Inr (0, bufs1\<lparr>bufs_head := [c], bufs_cur := 0, bufs_chunk_length := chunk_length,
                    bufs_chunk_used := 1\<rparr>, m2)))))"

definition nghttp2_bufs_wrap_init ::
  "nghttp2_bufs \<Rightarrow> bytes option \<Rightarrow> memory \<Rightarrow> int \<times> nghttp2_bufs \<times> memory" where
  "nghttp2_bufs_wrap_init bufs begin m =
     (case nghttp2_mem_malloc SIZEOF_BUF_CHAIN m of
        (None, m1) \<Rightarrow> (NGHTTP2_ERR_NOMEM, bufs, m1)
      | (Some _, m1) \<Rightarrow>
          (let c = nghttp2_buf_wrap_init begin
           in (0, \<lparr>bufs_head = [c], bufs_cur = 0, bufs_chunk_length = nghttp2_buf_cap c,
                bufs_max_chunk = 1, bufs_chunk_used = 1, bufs_chunk_keep = 1, bufs_offset = 0\<rparr>, m1)))"

definition nghttp2_bufs_wrap_init2 ::
  "nghttp2_bufs \<Rightarrow> bytes option list \<Rightarrow> memory \<Rightarrow> int \<times> nghttp2_bufs \<times> memory" where
  "nghttp2_bufs_wrap_init2 bufs vec m =
     (if vec = [] then nghttp2_bufs_wrap_init bufs None m
      else
        (case nghttp2_mem_malloc (SIZEOF_BUF_CHAIN * length vec) m of
           (None, m1) \<Rightarrow> (NGHTTP2_ERR_NOMEM, bufs, m1)
         | (Some _, m1) \<Rightarrow>
             (0, \<lparr>bufs_head = map nghttp2_buf_wrap_init vec, bufs_cur = 0, bufs_chunk_length = 0,
               bufs_max_chunk = length vec, bufs_chunk_used = length vec,
               bufs_chunk_keep = length vec, bufs_offset = 0\<rparr>, m1)))"

text \<open>The chains of a wrapped memory are one block.\<close>

definition nghttp2_bufs_wrap_free :: "nghttp2_bufs \<Rightarrow> memory \<Rightarrow> memory" where
  "nghttp2_bufs_wrap_free bufs m = (if bufs_head bufs = [] then m else nghttp2_mem_free (Some []) m)"

section \<open>Writing to a chain\<close>

fun seek_last_present :: "nghttp2_buf list \<Rightarrow> nat \<Rightarrow> nat \<Rightarrow> nat" where
  "seek_last_present [] ci cur = cur"
| "seek_last_present (b # bs) ci cur =
     (if nghttp2_buf_len b = 0 then cur else seek_last_present bs (ci + 1) ci)"

definition nghttp2_bufs_seek_last_present :: "nghttp2_bufs \<Rightarrow> nghttp2_bufs" where
  "nghttp2_bufs_seek_last_present bufs =
     bufs\<lparr>bufs_cur := seek_last_present (drop (bufs_cur bufs) (bufs_head bufs)) (bufs_cur bufs) (bufs_cur bufs)\<rparr>"

definition nghttp2_bufs_len :: "nghttp2_bufs \<Rightarrow> nat" where
  "nghttp2_bufs_len bufs = foldl (\<lambda>len b. (len + nghttp2_buf_len b) mod 2 ^ 64) 0 (bufs_head bufs)"

definition bufs_cur_buf :: "nghttp2_bufs \<Rightarrow> nghttp2_buf res" where
  "bufs_cur_buf bufs =
     (if bufs_cur bufs < length (bufs_head bufs) then Inr (bufs_head bufs ! bufs_cur bufs) else Inl Null_Deref)"

definition bufs_set_cur :: "nghttp2_bufs \<Rightarrow> nghttp2_buf \<Rightarrow> nghttp2_bufs" where
  "bufs_set_cur bufs b = bufs\<lparr>bufs_head := (bufs_head bufs)[bufs_cur bufs := b]\<rparr>"

definition bufs_alloc_chain :: "nghttp2_bufs \<Rightarrow> memory \<Rightarrow> (int \<times> nghttp2_bufs \<times> memory) res" where
  "bufs_alloc_chain bufs m =
     (if \<not> bufs_cur bufs < length (bufs_head bufs) then Inl Null_Deref
      else if bufs_cur bufs + 1 < length (bufs_head bufs)
      then Inr (0, bufs\<lparr>bufs_cur := bufs_cur bufs + 1\<rparr>, m)
      else if bufs_max_chunk bufs = bufs_chunk_used bufs then Inr (NGHTTP2_ERR_BUFFER_ERROR, bufs, m)
      else
        (case buf_chain_new (bufs_chunk_length bufs) m of
           (rv, None, m1) \<Rightarrow> Inr (rv, bufs, m1)
         | (rv, Some chain, m1) \<Rightarrow>
             res_bind (nghttp2_buf_shift_right chain (bufs_offset bufs)) (\<lambda>c.
             Inr (0, bufs\<lparr>bufs_chunk_used := bufs_chunk_used bufs + 1,
               bufs_head := bufs_head bufs @ [c], bufs_cur := bufs_cur bufs + 1\<rparr>, m1))))"

definition nghttp2_bufs_advance :: "nghttp2_bufs \<Rightarrow> memory \<Rightarrow> (int \<times> nghttp2_bufs \<times> memory) res" where
  "nghttp2_bufs_advance bufs m = bufs_alloc_chain bufs m"

lemma buf_chain_new_answers:
  "buf_chain_new n m = (rv, Some c, m') \<Longrightarrow> length (mem_answers m') < length (mem_answers m)"
  by (auto simp: buf_chain_new_def nghttp2_mem_malloc_def nghttp2_buf_init2_def nghttp2_buf_reserve_def
      nghttp2_mem_realloc_def nghttp2_mem_free_def nghttp2_buf_init_def
      split: option.splits list.splits if_splits prod.splits)

lemma alloc_chain_measure:
  assumes "bufs_alloc_chain bufs m = Inr (0, bufs', m')"
  shows "length (mem_answers m') + (length (bufs_head bufs') - bufs_cur bufs') <
    length (mem_answers m) + (length (bufs_head bufs) - bufs_cur bufs)"
  using assms
  by (auto simp: bufs_alloc_chain_def NGHTTP2_ERR_BUFFER_ERROR_def dest: buf_chain_new_answers
      split: option.splits if_splits prod.splits)
     (simp add: buf_chain_new_def NGHTTP2_ERR_NOMEM_def split: option.splits prod.splits if_splits)

text \<open>
  The loop ends because every round either writes bytes, goes on to a chunk that is already
  there, or takes a chunk from the allocator.
\<close>

function nghttp2_bufs_add :: "nghttp2_bufs \<Rightarrow> bytes \<Rightarrow> memory \<Rightarrow> (int \<times> nghttp2_bufs \<times> memory) res" where
  "nghttp2_bufs_add bufs data m =
     (if data = [] then Inr (0, bufs, m)
      else
        res_bind (bufs_cur_buf bufs) (\<lambda>buf.
        (let nwrite = min (nghttp2_buf_avail buf) (length data)
         in if nwrite = 0 then
              (case bufs_alloc_chain bufs m of
                 Inl e \<Rightarrow> Inl e
               | Inr (rv, bufs1, m1) \<Rightarrow>
                   if rv \<noteq> 0 then Inr (rv, bufs1, m1) else nghttp2_bufs_add bufs1 data m1)
            else
              res_bind (buf_cpy buf (take nwrite data)) (\<lambda>buf1.
              nghttp2_bufs_add (bufs_set_cur bufs buf1) (drop nwrite data) m))))"
  by pat_completeness auto

termination nghttp2_bufs_add
  by (relation "measures [\<lambda>(bufs, data, m). length data,
      \<lambda>(bufs, data, m). length (mem_answers m) + (length (bufs_head bufs) - bufs_cur bufs)]")
     (auto dest: alloc_chain_measure)

declare nghttp2_bufs_add.simps [simp del]

definition bufs_ensure_addb :: "nghttp2_bufs \<Rightarrow> memory \<Rightarrow> (int \<times> nghttp2_bufs \<times> memory) res" where
  "bufs_ensure_addb bufs m =
     res_bind (bufs_cur_buf bufs) (\<lambda>buf.
     if 0 < nghttp2_buf_avail buf then Inr (0, bufs, m) else bufs_alloc_chain bufs m)"

text \<open>
  The four writers of one byte share their shape: make room, then combine the byte at \<open>last\<close>
  with the argument, and move on unless they hold.
\<close>

definition bufs_put1 :: "(byte \<Rightarrow> byte) \<Rightarrow> bool \<Rightarrow> nghttp2_bufs \<Rightarrow> memory \<Rightarrow> (int \<times> nghttp2_bufs \<times> memory) res" where
  "bufs_put1 f hold bufs m =
     res_bind (bufs_ensure_addb bufs m) (\<lambda>(rv, bufs1, m1).
     if rv \<noteq> 0 then Inr (rv, bufs1, m1)
     else
       res_bind (bufs_cur_buf bufs1) (\<lambda>buf.
       res_bind (rd (buf_store buf) (buf_last buf) 1) (\<lambda>old.
       res_bind (buf_poke buf (buf_last buf) (map f old)) (\<lambda>buf1.
       Inr (0, bufs_set_cur bufs1 (if hold then buf1 else buf1\<lparr>buf_last := buf_last buf1 + 1\<rparr>), m1)))))"

definition nghttp2_bufs_addb :: "nghttp2_bufs \<Rightarrow> byte \<Rightarrow> memory \<Rightarrow> (int \<times> nghttp2_bufs \<times> memory) res" where
  "nghttp2_bufs_addb bufs b m = bufs_put1 (\<lambda>_. b) False bufs m"

definition nghttp2_bufs_addb_hold :: "nghttp2_bufs \<Rightarrow> byte \<Rightarrow> memory \<Rightarrow> (int \<times> nghttp2_bufs \<times> memory) res" where
  "nghttp2_bufs_addb_hold bufs b m = bufs_put1 (\<lambda>_. b) True bufs m"

definition nghttp2_bufs_orb :: "nghttp2_bufs \<Rightarrow> byte \<Rightarrow> memory \<Rightarrow> (int \<times> nghttp2_bufs \<times> memory) res" where
  "nghttp2_bufs_orb bufs b m = bufs_put1 (\<lambda>x. x OR b) False bufs m"

definition nghttp2_bufs_orb_hold :: "nghttp2_bufs \<Rightarrow> byte \<Rightarrow> memory \<Rightarrow> (int \<times> nghttp2_bufs \<times> memory) res" where
  "nghttp2_bufs_orb_hold bufs b m = bufs_put1 (\<lambda>x. x OR b) True bufs m"

section \<open>Reading and resetting a chain\<close>

fun remove_copy :: "nghttp2_buf \<Rightarrow> nghttp2_buf list \<Rightarrow> nghttp2_buf res" where
  "remove_copy resbuf [] = Inr resbuf"
| "remove_copy resbuf (b # bs) =
     res_bind (buf_read b) (\<lambda>d. res_bind (buf_cpy resbuf d) (\<lambda>resbuf1. remove_copy resbuf1 bs))"

text \<open>The pointer of the caller, \<open>out\<close>, is set only when there is something to copy and memory for it.\<close>

definition nghttp2_bufs_remove :: "nghttp2_bufs \<Rightarrow> bytes option \<Rightarrow> memory \<Rightarrow> (int \<times> bytes option \<times> memory) res" where
  "nghttp2_bufs_remove bufs out m =
     (let len = nghttp2_bufs_len bufs
      in if len = 0 then Inr (0, out, m)
         else
           (case nghttp2_mem_malloc len m of
              (None, m1) \<Rightarrow> Inr (NGHTTP2_ERR_NOMEM, out, m1)
            | (Some r, m1) \<Rightarrow>
                res_bind (remove_copy (nghttp2_buf_wrap_init (Some r)) (bufs_head bufs)) (\<lambda>resbuf.
                Inr (ssize_t_of len, buf_block resbuf, m1))))"

definition nghttp2_bufs_remove_copy :: "nghttp2_bufs \<Rightarrow> bytes \<Rightarrow> (nat \<times> bytes) res" where
  "nghttp2_bufs_remove_copy bufs out =
     res_bind (remove_copy (nghttp2_buf_wrap_init (Some out)) (bufs_head bufs)) (\<lambda>resbuf.
     Inr (nghttp2_bufs_len bufs, buf_store resbuf))"

text \<open>The chunks that are kept, those that are not, and whether the count reached zero.\<close>

fun reset_chunks :: "nat \<Rightarrow> nat \<Rightarrow> nghttp2_buf list \<Rightarrow> (nghttp2_buf list \<times> nghttp2_buf list \<times> bool) res" where
  "reset_chunks offset k [] = Inr ([], [], False)"
| "reset_chunks offset k (b # bs) =
     res_bind (nghttp2_buf_shift_right (nghttp2_buf_reset b) offset) (\<lambda>b1.
     if size_sub k 1 = 0 then Inr ([b1], bs, True)
     else
       res_bind (reset_chunks offset (size_sub k 1) bs) (\<lambda>(kept, rest, broke).
       Inr (b1 # kept, rest, broke)))"

definition nghttp2_bufs_reset :: "nghttp2_bufs \<Rightarrow> memory \<Rightarrow> (nghttp2_bufs \<times> memory) res" where
  "nghttp2_bufs_reset bufs m =
     res_bind (reset_chunks (bufs_offset bufs) (bufs_chunk_keep bufs) (bufs_head bufs)) (\<lambda>(kept, rest, broke).
     if broke
     then Inr (bufs\<lparr>bufs_head := kept, bufs_chunk_used := bufs_chunk_keep bufs, bufs_cur := 0\<rparr>,
            fold buf_chain_del rest m)
     else Inr (bufs\<lparr>bufs_head := kept, bufs_cur := 0\<rparr>, m))"

definition nghttp2_bufs_next_present :: "nghttp2_bufs \<Rightarrow> bool" where
  "nghttp2_bufs_next_present bufs \<longleftrightarrow>
     bufs_cur bufs + 1 < length (bufs_head bufs) \<and> nghttp2_buf_len (bufs_head bufs ! (bufs_cur bufs + 1)) \<noteq> 0"

definition nghttp2_bufs_rewind :: "nghttp2_bufs \<Rightarrow> nghttp2_bufs" where
  "nghttp2_bufs_rewind bufs = bufs\<lparr>bufs_cur := 0\<rparr>"

section \<open>Well-formed buffers and what they hold\<close>

definition buf_wf :: "nghttp2_buf \<Rightarrow> bool" where
  "buf_wf b \<longleftrightarrow> buf_pos b \<le> buf_last b \<and> buf_last b \<le> nghttp2_buf_cap b"

definition buf_data :: "nghttp2_buf \<Rightarrow> bytes" where
  "buf_data b = take (buf_last b - buf_pos b) (drop (buf_pos b) (buf_store b))"

definition chain_blocks :: "nghttp2_buf \<Rightarrow> int" where
  "chain_blocks b = (if buf_block b = None then 1 else 2)"

definition bufs_blocks :: "nghttp2_bufs \<Rightarrow> int" where
  "bufs_blocks bufs = sum_list (map chain_blocks (bufs_head bufs))"

definition bufs_content :: "nghttp2_bufs \<Rightarrow> bytes" where
  "bufs_content bufs = concat (map buf_data (bufs_head bufs))"

text \<open>
  The current chunk exists, the count of chunks is right and within its limit, every chunk has
  room for the offset, and nothing is behind the current chunk.
\<close>

definition bufs_wf :: "nghttp2_bufs \<Rightarrow> bool" where
  "bufs_wf bufs \<longleftrightarrow>
     bufs_cur bufs < length (bufs_head bufs) \<and>
     length (bufs_head bufs) = bufs_chunk_used bufs \<and> bufs_chunk_used bufs \<le> bufs_max_chunk bufs \<and>
     1 \<le> bufs_chunk_keep bufs \<and> bufs_chunk_keep bufs \<le> bufs_max_chunk bufs \<and>
     bufs_offset bufs \<le> bufs_chunk_length bufs \<and>
     (\<forall>c \<in> set (bufs_head bufs). buf_wf c \<and> bufs_offset bufs \<le> nghttp2_buf_cap c) \<and>
     (\<forall>c \<in> set (drop (bufs_cur bufs + 1) (bufs_head bufs)). buf_pos c = buf_last c)"

text \<open>The part of it that the memory needs; a chain that is rewound for reading keeps it.\<close>

definition bufs_sound :: "nghttp2_bufs \<Rightarrow> bool" where
  "bufs_sound bufs \<longleftrightarrow>
     bufs_cur bufs < length (bufs_head bufs) \<and>
     length (bufs_head bufs) = bufs_chunk_used bufs \<and> bufs_chunk_used bufs \<le> bufs_max_chunk bufs \<and>
     1 \<le> bufs_chunk_keep bufs \<and> bufs_chunk_keep bufs \<le> bufs_max_chunk bufs \<and>
     bufs_offset bufs \<le> bufs_chunk_length bufs \<and>
     (\<forall>c \<in> set (bufs_head bufs). buf_wf c \<and> bufs_offset bufs \<le> nghttp2_buf_cap c)"

lemma bufs_wf_sound: "bufs_wf bufs \<Longrightarrow> bufs_sound bufs"
  by (simp add: bufs_wf_def bufs_sound_def)

lemma buf_len_wf [simp]: "buf_wf b \<Longrightarrow> nghttp2_buf_len b = buf_last b - buf_pos b"
  by (simp add: nghttp2_buf_len_def size_sub_def buf_wf_def)

lemma buf_avail_wf [simp]: "buf_wf b \<Longrightarrow> nghttp2_buf_avail b = nghttp2_buf_cap b - buf_last b"
  by (simp add: nghttp2_buf_avail_def size_sub_def buf_wf_def)

lemma length_buf_data [simp]: "buf_wf b \<Longrightarrow> length (buf_data b) = buf_last b - buf_pos b"
  by (auto simp: buf_data_def buf_wf_def nghttp2_buf_cap_def)

lemma buf_read_wf [simp]: "buf_wf b \<Longrightarrow> buf_read b = Inr (buf_data b)"
  by (auto simp: buf_read_def rd_def buf_data_def buf_wf_def nghttp2_buf_cap_def nghttp2_buf_len_def size_sub_def)

lemma buf_data_Nil: "buf_pos b = buf_last b \<Longrightarrow> buf_data b = []"
  by (simp add: buf_data_def)

lemma buf_cpy_wf:
  assumes "buf_wf b" and "length d \<le> nghttp2_buf_cap b - buf_last b"
  obtains b' where "buf_cpy b d = Inr b'" and "buf_wf b'" and "buf_data b' = buf_data b @ d"
    and "nghttp2_buf_cap b' = nghttp2_buf_cap b" and "buf_pos b' = buf_pos b" and "buf_mark b' = buf_mark b"
    and "buf_last b' = buf_last b + length d" and "chain_blocks b' = chain_blocks b"
proof (cases "d = []")
  case True
  then show ?thesis using assms by (intro that [of b]) (auto simp: buf_cpy_def nghttp2_cpymem_def)
next
  case False
  let ?s = "buf_store b"
  have fit: "buf_last b + length d \<le> length ?s" using assms by (auto simp: buf_wf_def nghttp2_buf_cap_def)
  have pos: "buf_pos b \<le> buf_last b" "buf_last b \<le> length ?s" using assms by (auto simp: buf_wf_def nghttp2_buf_cap_def)
  have blk: "buf_block b \<noteq> None" using fit False by (auto simp: buf_store_def split: option.splits)
  let ?b = "b\<lparr>buf_block := Some (take (buf_last b) ?s @ d @ drop (buf_last b + length d) ?s),
    buf_last := buf_last b + length d\<rparr>"
  have cpy: "buf_cpy b d = Inr ?b"
    using False fit by (simp add: buf_cpy_def nghttp2_cpymem_def wr_def)
  have st: "buf_store ?b = take (buf_last b) ?s @ d @ drop (buf_last b + length d) ?s"
    by (simp add: buf_store_def)
  have dat: "buf_data ?b = buf_data b @ d"
  proof -
    have "buf_last b + length d - buf_pos b = (buf_last b - buf_pos b) + length d" using pos by simp
    then show ?thesis
      unfolding buf_data_def st using pos by (simp add: drop_take)
  qed
  show ?thesis
    by (rule that [OF cpy])
      (use fit pos blk dat in \<open>auto simp: buf_wf_def nghttp2_buf_cap_def st chain_blocks_def\<close>)
qed

lemma buf_chain_newE:
  obtains (none) m' where "buf_chain_new n m = (NGHTTP2_ERR_NOMEM, None, m')" and "mem_live m' = mem_live m"
  | (some) c m' where "buf_chain_new n m = (0, Some c, m')" and "nghttp2_buf_cap c = n"
      and "buf_pos c = 0" and "buf_last c = 0" and "mem_live m' = mem_live m + chain_blocks c"
proof (cases "mem_answers m")
  case Nil
  then show ?thesis by (intro none [of m]) (auto simp: buf_chain_new_def nghttp2_mem_malloc_def)
next
  case (Cons a as)
  show ?thesis
  proof (cases a)
    case None
    then show ?thesis
      using Cons by (intro none [of "m\<lparr>mem_answers := as\<rparr>"]) (auto simp: buf_chain_new_def nghttp2_mem_malloc_def)
  next
    case (Some f)
    then have a1: "nghttp2_mem_malloc SIZEOF_BUF_CHAIN m =
        (Some (map f [0..<SIZEOF_BUF_CHAIN]), m\<lparr>mem_answers := as, mem_live := mem_live m + 1\<rparr>)"
      using Cons by (simp add: nghttp2_mem_malloc_def)
    show ?thesis
    proof (cases "n = 0")
      case True
      have "buf_chain_new n m = (0, Some nghttp2_buf_init, m\<lparr>mem_answers := as, mem_live := mem_live m + 1\<rparr>)"
        by (simp add: buf_chain_new_def a1 nghttp2_buf_init2_def nghttp2_buf_reserve_def True)
      then show ?thesis
        by (rule some) (auto simp: True nghttp2_buf_cap_def buf_store_def nghttp2_buf_init_def chain_blocks_def)
    next
      case False
      have cap0: "nghttp2_buf_cap nghttp2_buf_init = 0" and blk0: "buf_block nghttp2_buf_init = None"
        by (simp_all add: nghttp2_buf_cap_def buf_store_def nghttp2_buf_init_def)
      let ?m1 = "m\<lparr>mem_answers := as, mem_live := mem_live m + 1\<rparr>"
      show ?thesis
      proof (cases "nghttp2_mem_malloc n ?m1")
        case (Pair s m2)
        show ?thesis
        proof (cases s)
          case None
          have live: "mem_live m2 = mem_live m + 1"
            using Pair None by (auto simp: nghttp2_mem_malloc_def split: list.splits option.splits)
          have "buf_chain_new n m = (NGHTTP2_ERR_NOMEM, None, nghttp2_mem_free (Some []) m2)"
            using False Pair None
            by (simp add: buf_chain_new_def a1 nghttp2_buf_init2_def nghttp2_buf_reserve_def cap0 blk0
                nghttp2_mem_realloc_def nghttp2_mem_free_def NGHTTP2_ERR_NOMEM_def)
          then show ?thesis by (rule none) (simp add: nghttp2_mem_free_def live)
        next
          case (Some blk)
          have blk: "length blk = n" "mem_live m2 = mem_live m + 2"
            using Pair Some by (auto simp: nghttp2_mem_malloc_def split: list.splits option.splits)
          have "buf_chain_new n m = (0, Some (nghttp2_buf_init\<lparr>buf_block := Some blk\<rparr>), m2)"
            using False Pair Some
            by (simp add: buf_chain_new_def a1 nghttp2_buf_init2_def nghttp2_buf_reserve_def cap0 blk0
                nghttp2_mem_realloc_def)
          then show ?thesis
            by (rule some) (auto simp: blk nghttp2_buf_cap_def buf_store_def nghttp2_buf_init_def chain_blocks_def)
        qed
      qed
    qed
  qed
qed

lemma shift_fresh:
  assumes "buf_pos c = 0" "buf_last c = 0" "n \<le> nghttp2_buf_cap c"
  shows "nghttp2_buf_shift_right c n = Inr (c\<lparr>buf_pos := n, buf_last := n\<rparr>)"
  using assms by (simp add: nghttp2_buf_shift_right_def)

lemma cap_upd [simp]:
  "nghttp2_buf_cap (c\<lparr>buf_pos := p\<rparr>) = nghttp2_buf_cap c"
  "nghttp2_buf_cap (c\<lparr>buf_last := p\<rparr>) = nghttp2_buf_cap c"
  "nghttp2_buf_cap (c\<lparr>buf_mark := p\<rparr>) = nghttp2_buf_cap c"
  by (simp_all add: nghttp2_buf_cap_def buf_store_def)

lemma chain_blocks_upd [simp]:
  "chain_blocks (c\<lparr>buf_pos := p\<rparr>) = chain_blocks c"
  "chain_blocks (c\<lparr>buf_last := p\<rparr>) = chain_blocks c"
  "chain_blocks (c\<lparr>buf_mark := p\<rparr>) = chain_blocks c"
  by (simp_all add: chain_blocks_def)

definition bufs_full :: "nghttp2_bufs \<Rightarrow> bool" where
  "bufs_full b \<longleftrightarrow> bufs_cur b + 1 = bufs_max_chunk b \<and> bufs_chunk_used b = bufs_max_chunk b"

lemma alloc_chainE:
  assumes "bufs_wf b"
  obtains (advance) b' m' where "bufs_alloc_chain b m = Inr (0, b', m')" and "bufs_wf b'"
      and "bufs_content b' = bufs_content b" and "mem_live m' - bufs_blocks b' = mem_live m - bufs_blocks b"
      and "bufs_cur b' = bufs_cur b + 1"
      and "bufs_max_chunk b' = bufs_max_chunk b"
  | (fail) rv m' where "bufs_alloc_chain b m = Inr (rv, b, m')" and "mem_live m' = mem_live m"
      and "rv = NGHTTP2_ERR_NOMEM \<or> rv = NGHTTP2_ERR_BUFFER_ERROR \<and> bufs_full b"
proof -
  have cur: "bufs_cur b < length (bufs_head b)" and used: "bufs_chunk_used b = length (bufs_head b)"
    and le: "length (bufs_head b) \<le> bufs_max_chunk b"
    using assms by (auto simp: bufs_wf_def)
  show ?thesis
  proof (cases "bufs_cur b + 1 < length (bufs_head b)")
    case True
    have "bufs_wf (b\<lparr>bufs_cur := bufs_cur b + 1\<rparr>)"
      using assms True set_drop_subset_set_drop [of "bufs_cur b + 1" "bufs_cur b + 1 + 1" "bufs_head b"]
      unfolding bufs_wf_def by auto
    then show ?thesis
      using True by (intro advance [of "b\<lparr>bufs_cur := bufs_cur b + 1\<rparr>" m])
        (auto simp: bufs_alloc_chain_def bufs_content_def bufs_blocks_def)
  next
    case False
    then have at_end: "bufs_cur b + 1 = length (bufs_head b)" using cur by simp
    show ?thesis
    proof (cases "bufs_max_chunk b = bufs_chunk_used b")
      case True
      then show ?thesis
        using cur at_end used
        by (intro fail [of NGHTTP2_ERR_BUFFER_ERROR m]) (auto simp: bufs_alloc_chain_def bufs_full_def)
    next
      case room: False
      show ?thesis
      proof (cases rule: buf_chain_newE [of "bufs_chunk_length b" m])
        case (none m')
        then show ?thesis
          using cur at_end room by (intro fail [of NGHTTP2_ERR_NOMEM m']) (auto simp: bufs_alloc_chain_def)
      next
        case (some c m')
        let ?c = "c\<lparr>buf_pos := bufs_offset b, buf_last := bufs_offset b\<rparr>"
        have off: "bufs_offset b \<le> nghttp2_buf_cap c" using assms some by (simp add: bufs_wf_def)
        let ?b = "b\<lparr>bufs_chunk_used := bufs_chunk_used b + 1, bufs_head := bufs_head b @ [?c],
          bufs_cur := bufs_cur b + 1\<rparr>"
        have eq: "bufs_alloc_chain b m = Inr (0, ?b, m')"
          using cur at_end room some off
          by (simp add: bufs_alloc_chain_def shift_fresh)
        have "bufs_wf ?b"
          using assms room at_end off le used by (auto simp: bufs_wf_def buf_wf_def)
        then show ?thesis
          by (rule advance [OF eq])
            (use some in \<open>simp_all add: bufs_content_def bufs_blocks_def buf_data_Nil\<close>)
      qed
    qed
  qed
qed

lemma split_at_cur:
  assumes "bufs_wf b"
  shows "bufs_content b = concat (map buf_data (take (bufs_cur b) (bufs_head b))) @ buf_data (bufs_head b ! bufs_cur b)"
proof -
  let ?h = "bufs_head b" and ?i = "bufs_cur b"
  have i: "?i < length ?h" and e: "\<forall>c \<in> set (drop (?i + 1) ?h). buf_pos c = buf_last c"
    using assms by (auto simp: bufs_wf_def)
  have tl: "concat (map buf_data (drop (?i + 1) ?h)) = []"
    using e by (auto intro: buf_data_Nil)
  have "concat (map buf_data ?h) =
      concat (map buf_data (take ?i ?h @ ?h ! ?i # drop (?i + 1) ?h))"
    using id_take_nth_drop [OF i] by simp
  then show ?thesis using tl by (simp add: bufs_content_def)
qed

lemma set_curE:
  assumes "bufs_wf b" and "buf_wf c" and "nghttp2_buf_cap c = nghttp2_buf_cap (bufs_head b ! bufs_cur b)"
    and "chain_blocks c = chain_blocks (bufs_head b ! bufs_cur b)"
  shows "bufs_wf (bufs_set_cur b c)" and "bufs_blocks (bufs_set_cur b c) = bufs_blocks b"
    and "buf_data c = buf_data (bufs_head b ! bufs_cur b) @ d \<Longrightarrow> bufs_content (bufs_set_cur b c) = bufs_content b @ d"
proof -
  let ?h = "bufs_head b" and ?i = "bufs_cur b"
  have i: "?i < length ?h" using assms by (simp add: bufs_wf_def)
  then have "?h ! ?i \<in> set ?h" by simp
  then have off: "bufs_offset b \<le> nghttp2_buf_cap c" using assms by (auto simp: bufs_wf_def)
  have dr: "drop (?i + 1) (?h[?i := c]) = drop (?i + 1) ?h" by simp
  show wf: "bufs_wf (bufs_set_cur b c)"
    using assms(1,2) off set_update_subset_insert [of ?h ?i c] dr
    by (auto simp: bufs_wf_def bufs_set_cur_def)
  show "bufs_blocks (bufs_set_cur b c) = bufs_blocks b"
    using i assms(4) list_update_id [of "map chain_blocks ?h" ?i]
    by (simp add: bufs_blocks_def bufs_set_cur_def map_update)
  show "bufs_content (bufs_set_cur b c) = bufs_content b @ d"
    if "buf_data c = buf_data (bufs_head b ! bufs_cur b) @ d"
    using that i split_at_cur [OF assms(1)] split_at_cur [OF wf] by (simp add: bufs_set_cur_def)
qed

section \<open>Adding bytes\<close>

text \<open>
  What a writer may do to a chain: its contents grow by a prefix of the bytes, by all of them
  when it reports success, and the blocks stay accounted for.
\<close>

definition appends :: "nghttp2_bufs \<Rightarrow> memory \<Rightarrow> bytes \<Rightarrow> int \<Rightarrow> nghttp2_bufs \<Rightarrow> memory \<Rightarrow> bool" where
  "appends b m d rv b' m' \<longleftrightarrow>
     bufs_wf b' \<and> mem_live m' - bufs_blocks b' = mem_live m - bufs_blocks b \<and>
     bufs_max_chunk b' = bufs_max_chunk b \<and>
     (if rv = 0 then bufs_content b' = bufs_content b @ d
      else (rv = NGHTTP2_ERR_NOMEM \<or> rv = NGHTTP2_ERR_BUFFER_ERROR \<and> bufs_full b') \<and>
        (\<exists>k < length d. bufs_content b' = bufs_content b @ take k d))"

lemma bufs_err_nonzero [simp]:
  "NGHTTP2_ERR_NOMEM \<noteq> 0" "NGHTTP2_ERR_BUFFER_ERROR \<noteq> 0" "NGHTTP2_ERR_INVALID_ARGUMENT \<noteq> 0"
  by (simp_all add: NGHTTP2_ERR_NOMEM_def NGHTTP2_ERR_BUFFER_ERROR_def NGHTTP2_ERR_INVALID_ARGUMENT_def)

lemma appends_trans:
  assumes "bufs_content b1 = bufs_content b @ take n d" and "n \<le> length d"
    and "mem_live m1 - bufs_blocks b1 = mem_live m - bufs_blocks b" and "bufs_max_chunk b1 = bufs_max_chunk b"
    and "appends b1 m1 (drop n d) rv b' m'"
  shows "appends b m d rv b' m'"
proof (cases "rv = 0")
  case True
  then show ?thesis using assms by (auto simp: appends_def)
next
  case False
  then obtain k where k: "k < length (drop n d)" "bufs_content b' = bufs_content b1 @ take k (drop n d)"
    using assms(5) by (auto simp: appends_def)
  have "bufs_content b' = bufs_content b @ take (n + k) d" "n + k < length d"
    using k assms(1,2) by (auto simp: take_add)
  then show ?thesis using assms(3,4,5) False unfolding appends_def by auto
qed

lemma set_cur_max [simp]: "bufs_max_chunk (bufs_set_cur b c) = bufs_max_chunk b"
  by (simp add: bufs_set_cur_def)

lemma bufs_add_total:
  assumes "bufs_wf b"
  shows "\<exists>rv b' m'. nghttp2_bufs_add b d m = Inr (rv, b', m') \<and> appends b m d rv b' m'"
  using assms
proof (induction b d m rule: nghttp2_bufs_add.induct)
  case (1 b d m)
  let ?c = "bufs_head b ! bufs_cur b"
  have cur: "bufs_cur_buf b = Inr ?c" and cwf: "buf_wf ?c"
    using 1(3) by (auto simp: bufs_wf_def bufs_cur_buf_def)
  show ?case
  proof (cases "d = []")
    case True
    then show ?thesis
      using 1(3) by (simp add: nghttp2_bufs_add.simps appends_def)
  next
    case ne: False
    let ?n = "min (nghttp2_buf_avail ?c) (length d)"
    show ?thesis
    proof (cases "?n = 0")
      case True
      show ?thesis
      proof (cases rule: alloc_chainE [OF 1(3), of m])
        case (1 b1 m1)
        then obtain rv b' m' where r: "nghttp2_bufs_add b1 d m1 = Inr (rv, b', m')" "appends b1 m1 d rv b' m'"
          using "1.IH"(1) [OF ne cur refl True 1(1) refl refl _ 1(2)] by blast
        have "nghttp2_bufs_add b d m = Inr (rv, b', m')"
          by (subst nghttp2_bufs_add.simps) (simp only: ne cur res_bind_Inr Let_def True 1(1) r if_False if_True
              sum.case prod.case simp_thms)
        moreover have "appends b m d rv b' m'"
          by (rule appends_trans [of b1 b 0 d m1 m rv b' m']) (use 1 r in auto)
        ultimately show ?thesis by blast
      next
        case (2 rv m1)
        have rv: "rv \<noteq> 0" using 2 by auto
        have "nghttp2_bufs_add b d m = Inr (rv, b, m1)"
          by (subst nghttp2_bufs_add.simps) (simp only: ne cur res_bind_Inr Let_def True 2(1) rv if_False if_True
              sum.case prod.case simp_thms)
        moreover have "appends b m d rv b m1"
          using 2 rv ne 1(3) by (auto simp: appends_def)
        ultimately show ?thesis by blast
      qed
    next
      case False
      obtain c1 where c1: "buf_cpy ?c (take ?n d) = Inr c1" "buf_wf c1" "buf_data c1 = buf_data ?c @ take ?n d"
        "nghttp2_buf_cap c1 = nghttp2_buf_cap ?c" "chain_blocks c1 = chain_blocks ?c"
        by (rule buf_cpy_wf [OF cwf, of "take ?n d"]) (use cwf in auto)
      note set = set_curE [OF 1(3) c1(2,4,5)]
      obtain rv b' m' where r: "nghttp2_bufs_add (bufs_set_cur b c1) (drop ?n d) m = Inr (rv, b', m')"
          "appends (bufs_set_cur b c1) m (drop ?n d) rv b' m'"
        using "1.IH"(2) [OF ne cur refl False c1(1) set(1)] by blast
      have "nghttp2_bufs_add b d m = Inr (rv, b', m')"
        by (subst nghttp2_bufs_add.simps) (simp only: ne cur res_bind_Inr Let_def False c1(1) r if_False if_True
            sum.case prod.case simp_thms)
      moreover have "appends b m d rv b' m'"
        by (rule appends_trans [OF set(3) [OF c1(3)] _ _ _ r(2)]) (simp_all add: set)
      ultimately show ?thesis by blast
    qed
  qed
qed

section \<open>Adding one byte\<close>

lemma ensure_addbE:
  assumes "bufs_wf b"
  obtains (room) b' m' where "bufs_ensure_addb b m = Inr (0, b', m')" and "bufs_wf b'"
      and "bufs_content b' = bufs_content b" and "mem_live m' - bufs_blocks b' = mem_live m - bufs_blocks b"
      and "bufs_max_chunk b' = bufs_max_chunk b"
  | (fail) rv m' where "bufs_ensure_addb b m = Inr (rv, b, m')" and "mem_live m' = mem_live m"
      and "rv = NGHTTP2_ERR_NOMEM \<or> rv = NGHTTP2_ERR_BUFFER_ERROR \<and> bufs_full b"
proof -
  have cur: "bufs_cur_buf b = Inr (bufs_head b ! bufs_cur b)"
    using assms by (simp add: bufs_wf_def bufs_cur_buf_def)
  show ?thesis
  proof (cases "0 < nghttp2_buf_avail (bufs_head b ! bufs_cur b)")
    case True
    then show ?thesis using assms by (intro room [of b m]) (auto simp: bufs_ensure_addb_def cur)
  next
    case False
    then have eq: "bufs_ensure_addb b m = bufs_alloc_chain b m" by (simp add: bufs_ensure_addb_def cur)
    show ?thesis
      by (cases rule: alloc_chainE [OF assms, of m]) (auto simp: eq intro: room fail)
  qed
qed

text \<open>
  After a chunk was allocated there is room in it unless the offset takes all of it, so the byte
  writers need chunks longer than their offset, or all chunks there already.
\<close>

definition bufs_roomy :: "nghttp2_bufs \<Rightarrow> bool" where
  "bufs_roomy b \<longleftrightarrow> (bufs_offset b < bufs_chunk_length b \<or> bufs_chunk_used b = bufs_max_chunk b) \<and>
     (\<forall>c \<in> set (drop (bufs_cur b + 1) (bufs_head b)). 0 < nghttp2_buf_avail c)"

lemma alloc_chain_room:
  assumes "bufs_wf b" and "bufs_roomy b" and "bufs_alloc_chain b m = Inr (0, b', m')"
  shows "0 < nghttp2_buf_avail (bufs_head b' ! bufs_cur b')" and "bufs_roomy b'"
proof -
  have cur: "bufs_cur b < length (bufs_head b)" using assms(1) by (simp add: bufs_wf_def)
  have "0 < nghttp2_buf_avail (bufs_head b' ! bufs_cur b') \<and> bufs_roomy b'"
  proof (cases "bufs_cur b + 1 < length (bufs_head b)")
    case True
    then have b': "b' = b\<lparr>bufs_cur := bufs_cur b + 1\<rparr>"
      using assms(3) cur by (simp add: bufs_alloc_chain_def)
    have "bufs_head b ! (bufs_cur b + 1) \<in> set (drop (bufs_cur b + 1) (bufs_head b))"
      by (subst Cons_nth_drop_Suc [OF True, symmetric]) simp
    moreover have "set (drop (bufs_cur b + 1 + 1) (bufs_head b)) \<subseteq> set (drop (bufs_cur b + 1) (bufs_head b))"
      by (rule set_drop_subset_set_drop) simp
    ultimately show ?thesis using assms(2) unfolding b' bufs_roomy_def by auto
  next
    case False
    then have at_end: "length (bufs_head b) = bufs_cur b + 1" using cur by simp
    show ?thesis
    proof (cases rule: buf_chain_newE [of "bufs_chunk_length b" m])
      case (none m1)
      then show ?thesis using assms(3) cur at_end by (auto simp: bufs_alloc_chain_def split: if_splits)
    next
      case (some c m1)
      have "bufs_offset b \<le> nghttp2_buf_cap c" using assms(1) some by (simp add: bufs_wf_def)
      then have b': "b' = b\<lparr>bufs_chunk_used := bufs_chunk_used b + 1,
          bufs_head := bufs_head b @ [c\<lparr>buf_pos := bufs_offset b, buf_last := bufs_offset b\<rparr>],
          bufs_cur := bufs_cur b + 1\<rparr>"
        using assms(3) cur at_end some by (auto simp: bufs_alloc_chain_def shift_fresh split: if_splits)
      have "bufs_max_chunk b \<noteq> bufs_chunk_used b"
        using assms(3) cur at_end by (auto simp: bufs_alloc_chain_def split: if_splits)
      then show ?thesis
        using assms(2) some at_end
        by (auto simp: b' bufs_roomy_def nth_append nghttp2_buf_avail_def size_sub_def)
    qed
  qed
  then show "0 < nghttp2_buf_avail (bufs_head b' ! bufs_cur b')" and "bufs_roomy b'" by auto
qed

lemma ensure_addb_room:
  assumes "bufs_wf b" and "bufs_roomy b" and "bufs_ensure_addb b m = Inr (0, b', m')"
  shows "0 < nghttp2_buf_avail (bufs_head b' ! bufs_cur b')" and "bufs_roomy b'"
proof -
  have cur: "bufs_cur_buf b = Inr (bufs_head b ! bufs_cur b)"
    using assms by (simp add: bufs_wf_def bufs_cur_buf_def)
  then show "0 < nghttp2_buf_avail (bufs_head b' ! bufs_cur b')" and "bufs_roomy b'"
    using assms alloc_chain_room [OF assms(1,2), of m b' m']
    by (auto simp: bufs_ensure_addb_def split: if_splits)
qed

lemma poke_is_cpy:
  assumes "buf_last b < nghttp2_buf_cap b"
  shows "res_bind (buf_poke b (buf_last b) [x]) (\<lambda>b1. Inr (b1\<lparr>buf_last := buf_last b1 + 1\<rparr>)) = buf_cpy b [x]"
  using assms by (simp add: buf_poke_def buf_cpy_def nghttp2_cpymem_def wr_def nghttp2_buf_cap_def)

lemma addb_inr:
  assumes "bufs_wf b" and "nghttp2_bufs_addb b x m = Inr (rv, b', m')"
  shows "appends b m [x] rv b' m'"
proof (cases rule: ensure_addbE [OF assms(1), of m])
  case (1 b1 m1)
  let ?c = "bufs_head b1 ! bufs_cur b1"
  have cwf: "buf_wf ?c" and cur: "bufs_cur_buf b1 = Inr ?c"
    using 1(2) by (auto simp: bufs_wf_def bufs_cur_buf_def)
  have "\<exists>old. rd (buf_store ?c) (buf_last ?c) 1 = Inr old"
    using assms(2) by (auto simp: nghttp2_bufs_addb_def bufs_put1_def 1(1) cur)
  then have lt: "buf_last ?c < nghttp2_buf_cap ?c"
    by (auto simp: rd_def nghttp2_buf_cap_def split: if_splits)
  obtain c1 where c1: "buf_cpy ?c [x] = Inr c1" "buf_wf c1" "buf_data c1 = buf_data ?c @ [x]"
      "nghttp2_buf_cap c1 = nghttp2_buf_cap ?c" "chain_blocks c1 = chain_blocks ?c"
    by (rule buf_cpy_wf [OF cwf, of "[x]"]) (use lt in auto)
  obtain p where p: "buf_poke ?c (buf_last ?c) [x] = Inr p" "c1 = p\<lparr>buf_last := buf_last p + 1\<rparr>"
    using c1(1) poke_is_cpy [OF lt, of x] by (cases "buf_poke ?c (buf_last ?c) [x]") auto
  obtain old where old: "rd (buf_store ?c) (buf_last ?c) 1 = Inr [old]"
    using lt by (auto simp: rd_def nghttp2_buf_cap_def take_Suc_conv_app_nth Suc_le_eq dest!: Cons_nth_drop_Suc [symmetric])
  have eq: "nghttp2_bufs_addb b x m = Inr (0, bufs_set_cur b1 c1, m1)"
    using p old cur by (simp add: nghttp2_bufs_addb_def bufs_put1_def 1(1))
  have "appends b m [x] 0 (bufs_set_cur b1 c1) m1"
    using set_curE [OF 1(2) c1(2,4,5)] c1(3) 1 by (simp add: appends_def)
  with eq show ?thesis using assms(2) by simp
next
  case (2 rv' m1)
  then have "nghttp2_bufs_addb b x m = Inr (rv', b, m1)"
    by (auto simp: nghttp2_bufs_addb_def bufs_put1_def)
  moreover have "appends b m [x] rv' b m1" using 2 assms(1) by (auto simp: appends_def)
  ultimately show ?thesis using assms(2) by simp
qed

lemma addb_total:
  assumes "bufs_wf b" and "bufs_roomy b"
  shows "\<exists>rv b' m'. nghttp2_bufs_addb b x m = Inr (rv, b', m')"
proof (cases rule: ensure_addbE [OF assms(1), of m])
  case (1 b1 m1)
  let ?c = "bufs_head b1 ! bufs_cur b1"
  have cwf: "buf_wf ?c" and cur: "bufs_cur_buf b1 = Inr ?c"
    using 1(2) by (auto simp: bufs_wf_def bufs_cur_buf_def)
  have "buf_last ?c < nghttp2_buf_cap ?c" using ensure_addb_room(1) [OF assms 1(1)] cwf by simp
  then show ?thesis
    by (simp add: nghttp2_bufs_addb_def bufs_put1_def 1(1) cur rd_def buf_poke_def wr_def nghttp2_buf_cap_def)
next
  case (2 rv m1)
  then show ?thesis by (auto simp: nghttp2_bufs_addb_def bufs_put1_def)
qed

section \<open>Length and removal\<close>

lemma foldl_len:
  assumes "\<forall>c \<in> set bs. buf_wf c" and "n < 2 ^ 64"
  shows "foldl (\<lambda>len b. (len + nghttp2_buf_len b) mod 2 ^ 64) n bs = (n + length (concat (map buf_data bs))) mod 2 ^ 64"
  using assms
proof (induction bs arbitrary: n)
  case (Cons c bs)
  have "foldl (\<lambda>len b. (len + nghttp2_buf_len b) mod 2 ^ 64) ((n + nghttp2_buf_len c) mod 2 ^ 64) bs =
      ((n + nghttp2_buf_len c) mod 2 ^ 64 + length (concat (map buf_data bs))) mod 2 ^ 64"
    by (rule Cons.IH) (use Cons.prems in auto)
  then show ?case using Cons.prems by (simp add: mod_simps add.assoc)
qed simp

lemma bufs_len_content:
  assumes "bufs_wf b" and "length (bufs_content b) < 2 ^ 64"
  shows "nghttp2_bufs_len b = length (bufs_content b)"
  using foldl_len [of "bufs_head b" 0] assms by (simp add: nghttp2_bufs_len_def bufs_content_def bufs_wf_def)

lemma remove_copy_ok:
  assumes "\<forall>c \<in> set bs. buf_wf c" and "buf_wf r" and "buf_pos r = 0"
    and "length (concat (map buf_data bs)) \<le> nghttp2_buf_cap r - buf_last r"
  shows "\<exists>r'. remove_copy r bs = Inr r' \<and> buf_wf r' \<and> buf_data r' = buf_data r @ concat (map buf_data bs) \<and>
    nghttp2_buf_cap r' = nghttp2_buf_cap r \<and> buf_pos r' = 0 \<and> (buf_block r = None \<longleftrightarrow> buf_block r' = None) \<and>
    buf_last r' = buf_last r + length (concat (map buf_data bs))"
  using assms
proof (induction bs arbitrary: r)
  case Nil
  then show ?case by simp
next
  case (Cons c bs)
  obtain r1 where r1: "buf_cpy r (buf_data c) = Inr r1" "buf_wf r1" "buf_data r1 = buf_data r @ buf_data c"
      "nghttp2_buf_cap r1 = nghttp2_buf_cap r" "buf_pos r1 = buf_pos r"
      "buf_last r1 = buf_last r + length (buf_data c)" "chain_blocks r1 = chain_blocks r"
    by (rule buf_cpy_wf [OF Cons.prems(2), of "buf_data c"]) (use Cons.prems in auto)
  have "buf_block r = None \<longleftrightarrow> buf_block r1 = None"
    using r1(7) by (auto simp: chain_blocks_def split: if_splits)
  moreover have "length (concat (map buf_data bs)) \<le> nghttp2_buf_cap r1 - buf_last r1"
    using Cons.prems r1(4,6) by simp
  moreover from this obtain r' where "remove_copy r1 bs = Inr r'" "buf_wf r'"
      "buf_data r' = buf_data r1 @ concat (map buf_data bs)" "nghttp2_buf_cap r' = nghttp2_buf_cap r1"
      "buf_pos r' = 0" "buf_block r1 = None \<longleftrightarrow> buf_block r' = None"
      "buf_last r' = buf_last r1 + length (concat (map buf_data bs))"
    using Cons.IH [of r1] Cons.prems(1,3) r1(2,5) by (metis list.set_intros(2))
  ultimately show ?case using r1 Cons.prems(1) by simp
qed

text \<open>Removing hands out the contents in one block, or reports that there is no memory for it.\<close>

lemma bufs_remove_content:
  assumes "bufs_wf b" and "length (bufs_content b) < 2 ^ 63"
  shows "\<exists>rv out' m'. nghttp2_bufs_remove b out m = Inr (rv, out', m') \<and>
    (if 0 < rv then out' = Some (bufs_content b) \<and> rv = int (length (bufs_content b)) \<and> mem_live m' = mem_live m + 1
     else out' = out \<and> mem_live m' = mem_live m \<and> (bufs_content b = [] \<and> rv = 0 \<or> rv = NGHTTP2_ERR_NOMEM))"
proof -
  have len: "nghttp2_bufs_len b = length (bufs_content b)" using bufs_len_content [OF assms(1)] assms(2) by simp
  show ?thesis
  proof (cases "bufs_content b = []")
    case True
    then show ?thesis by (simp add: nghttp2_bufs_remove_def len)
  next
    case False
    show ?thesis
    proof (cases "nghttp2_mem_malloc (length (bufs_content b)) m")
      case (Pair r m1)
      show ?thesis
      proof (cases r)
        case None
        then have "mem_live m1 = mem_live m"
          using Pair by (auto simp: nghttp2_mem_malloc_def split: list.splits option.splits)
        then show ?thesis using False Pair None by (simp add: nghttp2_bufs_remove_def len NGHTTP2_ERR_NOMEM_def)
      next
        case (Some s)
        have s: "length s = length (bufs_content b)" "mem_live m1 = mem_live m + 1"
          using Pair Some by (auto simp: nghttp2_mem_malloc_def split: list.splits option.splits)
        let ?r = "nghttp2_buf_wrap_init (Some s)"
        have "\<exists>r'. remove_copy ?r (bufs_head b) = Inr r' \<and> buf_wf r' \<and>
            buf_data r' = buf_data ?r @ concat (map buf_data (bufs_head b)) \<and>
            nghttp2_buf_cap r' = nghttp2_buf_cap ?r \<and> buf_pos r' = 0 \<and> (buf_block ?r = None \<longleftrightarrow> buf_block r' = None) \<and>
            buf_last r' = buf_last ?r + length (concat (map buf_data (bufs_head b)))"
          by (rule remove_copy_ok)
            (use assms(1) s in \<open>auto simp: bufs_wf_def buf_wf_def nghttp2_buf_wrap_init_def nghttp2_buf_cap_def
              buf_store_def bufs_content_def\<close>)
        then obtain r' where r': "remove_copy ?r (bufs_head b) = Inr r'" "buf_data r' = buf_data ?r @ bufs_content b"
            "nghttp2_buf_cap r' = length s" "buf_pos r' = 0" "buf_block r' \<noteq> None" "buf_last r' = length s"
          using s by (auto simp: bufs_content_def nghttp2_buf_wrap_init_def nghttp2_buf_cap_def buf_store_def)
        have "buf_data ?r = []" by (simp add: buf_data_def nghttp2_buf_wrap_init_def)
        then have "buf_block r' = Some (bufs_content b)"
          using r' by (auto simp: buf_data_def buf_store_def nghttp2_buf_cap_def)
        then show ?thesis
          using False Pair Some r'(1) s assms(2) by (simp add: nghttp2_bufs_remove_def len ssize_t_of_def)
      qed
    qed
  qed
qed

section \<open>Initialization, release, reset\<close>

lemma chain_del_fold: "mem_live (fold buf_chain_del bs m) = mem_live m - sum_list (map chain_blocks bs)"
  by (induction bs arbitrary: m)
     (auto simp: buf_chain_del_def nghttp2_buf_free_def nghttp2_mem_free_def chain_blocks_def split: option.splits)

lemma bufs_free_live: "mem_live (snd (nghttp2_bufs_free b m)) = mem_live m - bufs_blocks b"
  by (simp add: nghttp2_bufs_free_def chain_del_fold bufs_blocks_def)

lemma bufs_init3_ok:
  assumes "nghttp2_bufs_init3 b cl mc ck off m = Inr (0, b', m')"
  shows "bufs_wf b'" and "bufs_content b' = []" and "mem_live m' - bufs_blocks b' = mem_live m"
    and "bufs_max_chunk b' = mc" and "off < cl \<Longrightarrow> bufs_roomy b'"
proof -
  have arg: "\<not> (ck = 0 \<or> mc < ck \<or> cl < off)"
    using assms by (auto simp: nghttp2_bufs_init3_def split: if_splits)
  have "bufs_wf b' \<and> bufs_content b' = [] \<and> mem_live m' - bufs_blocks b' = mem_live m \<and> bufs_max_chunk b' = mc \<and>
      (off < cl \<longrightarrow> bufs_roomy b')"
  proof (cases rule: buf_chain_newE [of cl m])
    case (none m1)
    then show ?thesis using assms arg by (simp add: nghttp2_bufs_init3_def)
  next
    case (some c m1)
    then show ?thesis
      using assms arg
      by (auto simp: nghttp2_bufs_init3_def shift_fresh bufs_wf_def buf_wf_def bufs_content_def
          buf_data_Nil bufs_blocks_def bufs_roomy_def)
  qed
  then show "bufs_wf b'" and "bufs_content b' = []" and "mem_live m' - bufs_blocks b' = mem_live m"
    and "bufs_max_chunk b' = mc" and "off < cl \<Longrightarrow> bufs_roomy b'" by auto
qed

lemma bufs_init3_fail:
  assumes "nghttp2_bufs_init3 b cl mc ck off m = Inr (rv, b', m')" and "rv \<noteq> 0"
  shows "b' = b \<and> mem_live m' = mem_live m"
  using assms
  by (cases rule: buf_chain_newE [of cl m]) (auto simp: nghttp2_bufs_init3_def shift_fresh split: if_splits)

lemma bufs_init3_total: "\<exists>rv b' m'. nghttp2_bufs_init3 b cl mc ck off m = Inr (rv, b', m')"
  by (cases rule: buf_chain_newE [of cl m]) (auto simp: nghttp2_bufs_init3_def shift_fresh)

lemma reset_chunks_split:
  assumes "1 \<le> k" and "\<forall>c \<in> set bs. off \<le> nghttp2_buf_cap c"
  shows "reset_chunks off k bs =
    Inr (map (\<lambda>c. c\<lparr>buf_pos := off, buf_last := off, buf_mark := 0\<rparr>) (take k bs), drop k bs, k \<le> length bs)"
  using assms
proof (induction bs arbitrary: k)
  case (Cons c bs)
  have shift: "nghttp2_buf_shift_right (nghttp2_buf_reset c) off = Inr (c\<lparr>buf_pos := off, buf_last := off, buf_mark := 0\<rparr>)"
    using Cons.prems by (simp add: nghttp2_buf_shift_right_def nghttp2_buf_reset_def nghttp2_buf_cap_def buf_store_def)
  show ?case
  proof (cases "k = 1")
    case True
    then show ?thesis using shift by (simp add: size_sub_def)
  next
    case False
    then obtain j where j: "k = Suc j" "1 \<le> j" using Cons.prems(1) by (cases k) auto
    then show ?thesis using shift Cons.IH [of j] Cons.prems by (simp add: size_sub_def)
  qed
qed simp

lemma sum_blocks_reset:
  "sum_list (map (\<lambda>c. chain_blocks (c\<lparr>buf_pos := off, buf_last := off, buf_mark := 0\<rparr>)) bs) = sum_list (map chain_blocks bs)"
  by simp

lemma bufs_reset_ok:
  assumes "bufs_sound b"
  shows "\<exists>b' m'. nghttp2_bufs_reset b m = Inr (b', m') \<and> bufs_wf b' \<and> bufs_content b' = [] \<and>
    mem_live m' - bufs_blocks b' = mem_live m - bufs_blocks b \<and> bufs_max_chunk b' = bufs_max_chunk b \<and>
    bufs_cur b' = 0 \<and> bufs_chunk_used b' = min (bufs_chunk_keep b) (bufs_chunk_used b)"
proof -
  let ?k = "bufs_chunk_keep b" and ?h = "bufs_head b" and ?off = "bufs_offset b"
  let ?r = "\<lambda>c :: nghttp2_buf. c\<lparr>buf_pos := ?off, buf_last := ?off, buf_mark := 0\<rparr>"
  have rs: "reset_chunks ?off ?k ?h = Inr (map ?r (take ?k ?h), drop ?k ?h, ?k \<le> length ?h)"
    by (rule reset_chunks_split) (use assms in \<open>auto simp: bufs_wf_def bufs_sound_def\<close>)
  have off: "\<forall>c \<in> set (take ?k ?h). ?off \<le> nghttp2_buf_cap c"
    using assms by (auto simp: bufs_wf_def bufs_sound_def dest: in_set_takeD)
  have sum: "sum_list (map chain_blocks ?h) = sum_list (map chain_blocks (take ?k ?h)) + sum_list (map chain_blocks (drop ?k ?h))"
    by (metis append_take_drop_id map_append sum_list_append)
  have blocks: "sum_list (map (chain_blocks \<circ> ?r) (take ?k ?h)) = sum_list (map chain_blocks (take ?k ?h))"
    by (simp add: comp_def)
  have content: "concat (map (buf_data \<circ> ?r) (take ?k ?h)) = []" by (simp add: comp_def buf_data_def)
  have pos: "?h \<noteq> []" "1 \<le> ?k" "length ?h = bufs_chunk_used b" using assms by (auto simp: bufs_wf_def bufs_sound_def)
  show ?thesis
  proof (cases "?k \<le> length ?h")
    case True
    let ?b = "b\<lparr>bufs_head := map ?r (take ?k ?h), bufs_chunk_used := ?k, bufs_cur := 0\<rparr>"
    have "nghttp2_bufs_reset b m = Inr (?b, fold buf_chain_del (drop ?k ?h) m)"
      using True by (simp add: nghttp2_bufs_reset_def rs)
    moreover have "bufs_wf ?b"
      using assms off True pos by (auto simp: bufs_wf_def bufs_sound_def buf_wf_def drop_map dest!: in_set_dropD)
    ultimately show ?thesis
      using True pos sum blocks content
      by (simp add: bufs_content_def bufs_blocks_def chain_del_fold)
  next
    case False
    then have t: "take ?k ?h = ?h" "drop ?k ?h = []" by auto
    let ?b = "b\<lparr>bufs_head := map ?r ?h, bufs_cur := 0\<rparr>"
    have "nghttp2_bufs_reset b m = Inr (?b, m)"
      using False by (simp add: nghttp2_bufs_reset_def rs t)
    moreover have "bufs_wf ?b"
      using assms off False pos t by (auto simp: bufs_wf_def bufs_sound_def buf_wf_def drop_map dest!: in_set_dropD)
    ultimately show ?thesis
      using False pos sum blocks content t
      by (simp add: bufs_content_def bufs_blocks_def)
  qed
qed

lemma bufs_realloc_ok:
  assumes "bufs_sound b"
  shows "\<exists>rv b' m'. nghttp2_bufs_realloc b cl m = Inr (rv, b', m') \<and> bufs_sound b' \<and>
    mem_live m' - bufs_blocks b' = mem_live m - bufs_blocks b \<and> bufs_max_chunk b' = bufs_max_chunk b \<and>
    (if rv = 0 then bufs_content b' = [] else b' = b)"
proof (cases rule: buf_chain_newE [of cl m])
  case (none m1)
  then show ?thesis using assms by (auto simp: nghttp2_bufs_realloc_def)
next
  case (some c m1)
  show ?thesis
  proof (cases "cl < bufs_offset b")
    case True
    then show ?thesis using assms by (auto simp: nghttp2_bufs_realloc_def)
  next
    case False
    let ?c = "c\<lparr>buf_pos := bufs_offset b, buf_last := bufs_offset b\<rparr>"
    let ?b = "b\<lparr>bufs_head := [?c], bufs_cur := 0, bufs_chunk_length := cl, bufs_chunk_used := 1\<rparr>"
    have "nghttp2_bufs_realloc b cl m = Inr (0, ?b, fold buf_chain_del (bufs_head b) m1)"
      using some False by (simp add: nghttp2_bufs_realloc_def nghttp2_bufs_free_def shift_fresh)
    moreover have "bufs_sound ?b" using assms some False by (auto simp: bufs_wf_def bufs_sound_def buf_wf_def)
    ultimately show ?thesis
      using some by (simp add: bufs_content_def bufs_blocks_def chain_del_fold buf_data_Nil)
  qed
qed

section \<open>Life of a chain\<close>

lemma case3E:
  assumes "case x of Inl e \<Rightarrow> False | Inr (rv, b, m) \<Rightarrow> P rv b m"
  obtains rv b m where "x = Inr (rv, b, m)" and "P rv b m"
  using assms by (auto split: sum.splits)

text \<open>
  The operations a user performs between the initialization and the release. What \<open>remove\<close> hands
  out is the user's to free.
\<close>

inductive bufs_step :: "nghttp2_bufs \<times> memory \<Rightarrow> nghttp2_bufs \<times> memory \<Rightarrow> bool" where
  add: "nghttp2_bufs_add b d m = Inr (rv, b', m') \<Longrightarrow> bufs_step (b, m) (b', m')"
| addb: "nghttp2_bufs_addb b x m = Inr (rv, b', m') \<Longrightarrow> bufs_step (b, m) (b', m')"
| addb_hold: "nghttp2_bufs_addb_hold b x m = Inr (rv, b', m') \<Longrightarrow> bufs_step (b, m) (b', m')"
| orb: "nghttp2_bufs_orb b x m = Inr (rv, b', m') \<Longrightarrow> bufs_step (b, m) (b', m')"
| orb_hold: "nghttp2_bufs_orb_hold b x m = Inr (rv, b', m') \<Longrightarrow> bufs_step (b, m) (b', m')"
| advance: "nghttp2_bufs_advance b m = Inr (rv, b', m') \<Longrightarrow> bufs_step (b, m) (b', m')"
| rewind: "bufs_step (b, m) (nghttp2_bufs_rewind b, m)"
| seek: "bufs_step (b, m) (nghttp2_bufs_seek_last_present b, m)"
| remove: "nghttp2_bufs_remove b None m = Inr (rv, out, m') \<Longrightarrow> bufs_step (b, m) (b, nghttp2_mem_free out m')"
| reset: "nghttp2_bufs_reset b m = Inr (b', m') \<Longrightarrow> bufs_step (b, m) (b', m')"
| realloc: "nghttp2_bufs_realloc b n m = Inr (rv, b', m') \<Longrightarrow> bufs_step (b, m) (b', m')"

inductive_cases bufs_stepE: "bufs_step (b, m) (b', m')"

text \<open>What every operation keeps.\<close>

definition bufs_kept :: "nghttp2_bufs \<Rightarrow> memory \<Rightarrow> nghttp2_bufs \<Rightarrow> memory \<Rightarrow> bool" where
  "bufs_kept b m b' m' \<longleftrightarrow>
     bufs_sound b' \<and> mem_live m' - bufs_blocks b' = mem_live m - bufs_blocks b \<and> bufs_max_chunk b' = bufs_max_chunk b"

lemma kept_refl: "bufs_sound b \<Longrightarrow> bufs_kept b m b m"
  by (simp add: bufs_kept_def)

lemma kept_trans: "bufs_kept b m b1 m1 \<Longrightarrow> bufs_kept b1 m1 b2 m2 \<Longrightarrow> bufs_kept b m b2 m2"
  by (simp add: bufs_kept_def)

lemma alloc_chain_kept:
  assumes "bufs_sound b" and "bufs_alloc_chain b m = Inr (rv, b', m')"
  shows "bufs_kept b m b' m'"
proof (cases rule: buf_chain_newE [of "bufs_chunk_length b" m])
  case (none m1)
  then show ?thesis using assms
    by (auto simp: bufs_alloc_chain_def bufs_kept_def bufs_sound_def bufs_blocks_def split: if_splits)
next
  case (some c m1)
  have "bufs_offset b \<le> nghttp2_buf_cap c" using assms(1) some(2) by (simp add: bufs_sound_def)
  then show ?thesis using assms some
    by (auto simp: bufs_alloc_chain_def shift_fresh bufs_kept_def bufs_sound_def bufs_blocks_def buf_wf_def split: if_splits)
qed

lemma set_cur_kept:
  assumes "bufs_sound b" and "bufs_cur_buf b = Inr c" and "buf_wf c'" and "nghttp2_buf_cap c' = nghttp2_buf_cap c"
    and "chain_blocks c' = chain_blocks c"
  shows "bufs_kept b m (bufs_set_cur b c') m"
proof -
  let ?h = "bufs_head b" and ?i = "bufs_cur b"
  have i: "?i < length ?h" "c = ?h ! ?i" using assms(1,2) by (auto simp: bufs_sound_def bufs_cur_buf_def)
  then have "c \<in> set ?h" by simp
  then have "\<forall>x \<in> insert c' (set ?h). buf_wf x \<and> bufs_offset b \<le> nghttp2_buf_cap x"
    using assms(1,3,4) by (simp add: bufs_sound_def)
  then have "bufs_sound (bufs_set_cur b c')"
    using assms(1) set_update_subset_insert [of ?h ?i c'] by (auto simp: bufs_sound_def bufs_set_cur_def)
  moreover have "bufs_blocks (bufs_set_cur b c') = bufs_blocks b"
    using i assms(5) list_update_id [of "map chain_blocks ?h" ?i]
    by (simp add: bufs_blocks_def bufs_set_cur_def map_update)
  ultimately show ?thesis by (simp add: bufs_kept_def bufs_set_cur_def)
qed

lemma cur_buf_wf: "bufs_sound b \<Longrightarrow> bufs_cur_buf b = Inr c \<Longrightarrow> buf_wf c"
  by (auto simp: bufs_sound_def bufs_cur_buf_def split: if_splits)

lemma add_kept:
  assumes "bufs_sound b" and "nghttp2_bufs_add b d m = Inr (rv, b', m')"
  shows "bufs_kept b m b' m'"
  using assms
proof (induction b d m arbitrary: rv rule: nghttp2_bufs_add.induct)
  case (1 b d m)
  show ?case
  proof (cases "d = []")
    case True
    then have "nghttp2_bufs_add b d m = Inr (0, b, m)" by (subst nghttp2_bufs_add.simps) simp
    then show ?thesis using "1.prems" by (simp add: kept_refl)
  next
    case False
    obtain c where c: "bufs_cur_buf b = Inr c"
      using "1.prems"(2) False by (cases "bufs_cur_buf b") (auto simp: nghttp2_bufs_add.simps [of b d m])
    let ?n = "min (nghttp2_buf_avail c) (length d)"
    note step = nghttp2_bufs_add.simps [of b d m, unfolded c res_bind_Inr Let_def if_not_P [OF False]]
    show ?thesis
    proof (cases "?n = 0")
      case True
      obtain rv1 b1 m1 where a: "bufs_alloc_chain b m = Inr (rv1, b1, m1)"
        using "1.prems"(2) True unfolding step by (cases "bufs_alloc_chain b m") auto
      note k = alloc_chain_kept [OF "1.prems"(1) a]
      show ?thesis
      proof (cases "rv1 = 0")
        case r: True
        have "nghttp2_bufs_add b1 d m1 = Inr (rv, b', m')" using "1.prems"(2) True a r unfolding step by simp
        moreover have "bufs_sound b1" using k by (simp add: bufs_kept_def)
        ultimately have "bufs_kept b1 m1 b' m'" using "1.IH"(1) [OF False c refl True a refl refl] r by blast
        with k show ?thesis by (rule kept_trans)
      next
        case False
        then show ?thesis using "1.prems"(2) True a k unfolding step by simp
      qed
    next
      case n: False
      note wf = cur_buf_wf [OF "1.prems"(1) c]
      obtain c1 where c1: "buf_cpy c (take ?n d) = Inr c1" "buf_wf c1" "nghttp2_buf_cap c1 = nghttp2_buf_cap c"
        "chain_blocks c1 = chain_blocks c"
        by (rule buf_cpy_wf [OF wf, of "take ?n d"]) (use wf in auto)
      note k = set_cur_kept [OF "1.prems"(1) c c1(2-4)]
      have "nghttp2_bufs_add (bufs_set_cur b c1) (drop ?n d) m = Inr (rv, b', m')"
        using "1.prems"(2) n c1(1) unfolding step by simp
      moreover have "bufs_sound (bufs_set_cur b c1)" using k [of m] by (simp add: bufs_kept_def)
      ultimately have "bufs_kept (bufs_set_cur b c1) m b' m'" using "1.IH"(2) [OF False c refl n c1(1)] by blast
      with k show ?thesis by (rule kept_trans)
    qed
  qed
qed

lemma put1_kept:
  assumes "bufs_sound b" and "bufs_put1 f hold b m = Inr (rv, b', m')"
  shows "bufs_kept b m b' m'"
proof -
  obtain rv1 b1 m1 where e: "bufs_ensure_addb b m = Inr (rv1, b1, m1)"
    using assms(2) by (cases "bufs_ensure_addb b m") (auto simp: bufs_put1_def)
  have k: "bufs_kept b m b1 m1"
  proof (cases "bufs_cur_buf b")
    case (Inr c)
    then show ?thesis using e assms(1) alloc_chain_kept [OF assms(1), of m rv1 b1 m1]
      by (auto simp: bufs_ensure_addb_def kept_refl split: if_splits)
  qed (use e in \<open>simp add: bufs_ensure_addb_def\<close>)
  show ?thesis
  proof (cases "rv1 = 0")
    case False
    then show ?thesis using assms(2) e k by (simp add: bufs_put1_def)
  next
    case True
    have s1: "bufs_sound b1" using k by (simp add: bufs_kept_def)
    obtain c where c: "bufs_cur_buf b1 = Inr c" using assms(2) e True by (cases "bufs_cur_buf b1") (auto simp: bufs_put1_def)
    have lt: "buf_last c < length (buf_store c)"
      using assms(2) e True c by (auto simp: bufs_put1_def rd_def res_bind_def split: if_splits)
    let ?x = "f (buf_store c ! buf_last c)"
    let ?c = "c\<lparr>buf_block := Some (take (buf_last c) (buf_store c) @ ?x # drop (buf_last c + 1) (buf_store c))\<rparr>"
    have rd: "rd (buf_store c) (buf_last c) 1 = Inr [buf_store c ! buf_last c]"
      using lt by (simp add: rd_def Cons_nth_drop_Suc [symmetric])
    have "buf_poke c (buf_last c) [?x] = Inr ?c" using lt by (simp add: buf_poke_def wr_def)
    then have eq: "b' = bufs_set_cur b1 (if hold then ?c else ?c\<lparr>buf_last := buf_last ?c + 1\<rparr>)" "m' = m1"
      using assms(2) e True c rd by (cases hold; simp add: bufs_put1_def)+
    have cap: "nghttp2_buf_cap ?c = nghttp2_buf_cap c" using lt by (simp add: nghttp2_buf_cap_def buf_store_def)
    have blk: "chain_blocks ?c = chain_blocks c" using lt by (auto simp: chain_blocks_def buf_store_def split: option.splits)
    have "buf_wf (if hold then ?c else ?c\<lparr>buf_last := buf_last ?c + 1\<rparr>)"
      using cur_buf_wf [OF s1 c] lt cap by (simp add: buf_wf_def) (simp add: nghttp2_buf_cap_def buf_store_def)
    then have "bufs_kept b1 m1 b' m'" unfolding eq
      by (rule set_cur_kept [OF s1 c]) (use cap blk in \<open>simp_all add: nghttp2_buf_cap_def buf_store_def chain_blocks_def\<close>)
    with k show ?thesis by (rule kept_trans)
  qed
qed

lemma rewind_kept: "bufs_sound b \<Longrightarrow> bufs_kept b m (nghttp2_bufs_rewind b) m"
  by (auto simp: bufs_kept_def bufs_sound_def nghttp2_bufs_rewind_def bufs_blocks_def)

lemma seek_bound: "seek_last_present bs ci cur < max (ci + length bs) (cur + 1)"
proof (induction bs arbitrary: ci cur)
  case (Cons b bs)
  then show ?case using Cons.IH [of "ci + 1" ci] by auto
qed simp

lemma seek_kept:
  assumes "bufs_sound b"
  shows "bufs_kept b m (nghttp2_bufs_seek_last_present b) m"
proof -
  have "bufs_cur b < length (bufs_head b)" using assms by (simp add: bufs_sound_def)
  then have "seek_last_present (drop (bufs_cur b) (bufs_head b)) (bufs_cur b) (bufs_cur b) < length (bufs_head b)"
    using seek_bound [of "drop (bufs_cur b) (bufs_head b)" "bufs_cur b" "bufs_cur b"] by simp
  then show ?thesis using assms by (simp add: bufs_kept_def bufs_sound_def nghttp2_bufs_seek_last_present_def bufs_blocks_def)
qed

lemma remove_kept:
  assumes "bufs_sound b" and "nghttp2_bufs_remove b None m = Inr (rv, out, m')"
  shows "bufs_kept b m b (nghttp2_mem_free out m')"
proof -
  have blk: "remove_copy r bs = Inr r' \<Longrightarrow> buf_block r \<noteq> None \<Longrightarrow> buf_block r' \<noteq> None" for r bs r'
    by (induction bs arbitrary: r) (auto simp: res_bind_def buf_cpy_def split: sum.splits)
  have "mem_live (nghttp2_mem_free out m') = mem_live m"
  proof (cases "nghttp2_mem_malloc (nghttp2_bufs_len b) m")
    case (Pair s m1)
    then have live: "mem_live m1 = (if s = None then mem_live m else mem_live m + 1)"
      by (auto simp: nghttp2_mem_malloc_def split: list.splits option.splits)
    show ?thesis using assms(2) Pair live
      by (auto simp: nghttp2_bufs_remove_def Let_def nghttp2_mem_free_def res_bind_def nghttp2_buf_wrap_init_def
          dest: blk split: if_splits option.splits sum.splits)
  qed
  then show ?thesis using assms(1) by (simp add: bufs_kept_def)
qed

lemma reset_kept: "bufs_sound b \<Longrightarrow> nghttp2_bufs_reset b m = Inr (b', m') \<Longrightarrow> bufs_kept b m b' m'"
  using bufs_reset_ok [of b m] by (auto simp: bufs_kept_def bufs_wf_sound)

lemma realloc_kept: "bufs_sound b \<Longrightarrow> nghttp2_bufs_realloc b n m = Inr (rv, b', m') \<Longrightarrow> bufs_kept b m b' m'"
  using bufs_realloc_ok [of b n m] by (auto simp: bufs_kept_def)

lemma byte_kept:
  "bufs_sound b \<Longrightarrow> nghttp2_bufs_addb b x m = Inr (rv, b', m') \<Longrightarrow> bufs_kept b m b' m'"
  "bufs_sound b \<Longrightarrow> nghttp2_bufs_addb_hold b x m = Inr (rv, b', m') \<Longrightarrow> bufs_kept b m b' m'"
  "bufs_sound b \<Longrightarrow> nghttp2_bufs_orb b x m = Inr (rv, b', m') \<Longrightarrow> bufs_kept b m b' m'"
  "bufs_sound b \<Longrightarrow> nghttp2_bufs_orb_hold b x m = Inr (rv, b', m') \<Longrightarrow> bufs_kept b m b' m'"
  "bufs_sound b \<Longrightarrow> nghttp2_bufs_advance b m = Inr (rv, b', m') \<Longrightarrow> bufs_kept b m b' m'"
  by (simp_all add: nghttp2_bufs_addb_def nghttp2_bufs_addb_hold_def nghttp2_bufs_orb_def nghttp2_bufs_orb_hold_def
      nghttp2_bufs_advance_def put1_kept alloc_chain_kept)

lemmas ops_kept = add_kept byte_kept reset_kept realloc_kept

lemma bufs_step_inv:
  assumes "bufs_step (b, m) (b', m')" and "bufs_sound b"
  shows "bufs_kept b m b' m'"
  using assms
  by (elim bufs_stepE) (blast intro: ops_kept, blast intro: ops_kept, blast intro: ops_kept, blast intro: ops_kept, blast intro: ops_kept,
    blast intro: ops_kept, simp add: rewind_kept, simp add: seek_kept, simp add: remove_kept, blast intro: ops_kept, blast intro: ops_kept)

lemma bufs_steps_inv:
  assumes "bufs_step\<^sup>*\<^sup>* s t" and "bufs_sound (fst s)"
  shows "bufs_kept (fst s) (snd s) (fst t) (snd t)"
  using assms
proof (induction rule: rtranclp_induct)
  case base
  then show ?case by (simp add: kept_refl)
next
  case (step t u)
  then have "bufs_kept (fst t) (snd t) (fst u) (snd u)"
    using bufs_step_inv [of "fst t" "snd t" "fst u" "snd u"] by (simp add: bufs_kept_def)
  with step.IH [OF step.prems] show ?case by (rule kept_trans)
qed

text \<open>
  C21. Any sequence of writes of bytes and of single bytes (add, addb, orb, each single one also without
  moving on), advancing, rewinding, seeking the last chunk with data, copying the contents out (and freeing
  the copy), resetting and reallocating on a chain that nghttp2_bufs_init3 has made keeps it sound and
  within its number of chunks, and nghttp2_bufs_free gives back every block.
\<close>

theorem bufs_lifecycle_balance:
  assumes "nghttp2_bufs_init3 b0 chunk_length max_chunk chunk_keep offset m0 = Inr (0, b1, m1)"
    and "bufs_step\<^sup>*\<^sup>* (b1, m1) (b, m)"
  shows "bufs_sound b \<and> length (bufs_head b) \<le> max_chunk \<and> mem_live (snd (nghttp2_bufs_free b m)) = mem_live m0"
proof -
  note init = bufs_init3_ok [OF assms(1)]
  have "bufs_kept b1 m1 b m" using bufs_steps_inv [OF assms(2)] bufs_wf_sound [OF init(1)] by simp
  then show ?thesis using init(3,4) by (simp add: bufs_free_live bufs_kept_def bufs_sound_def)
qed

definition two_blocks :: memory where
  "two_blocks = \<lparr>mem_answers = [Some (\<lambda>_. 0), Some (\<lambda>_. 0), Some (\<lambda>_. 0), Some (\<lambda>_. 0)], mem_live = 0\<rparr>"

definition blank_bufs :: nghttp2_bufs where
  "blank_bufs = \<lparr>bufs_head = [], bufs_cur = 0, bufs_chunk_length = 0, bufs_max_chunk = 0,
     bufs_chunk_used = 0, bufs_chunk_keep = 0, bufs_offset = 0\<rparr>"

theorem bufs_lifecycle_balance_witness:
  "\<exists>b1 m1 b2 m2. nghttp2_bufs_init3 blank_bufs 4 2 1 1 two_blocks = Inr (0, b1, m1) \<and>
     nghttp2_bufs_add b1 [1, 2, 3, 4, 5] m1 = Inr (0, b2, m2) \<and> length (bufs_head b2) = 2 \<and>
     mem_live m2 = 4 \<and> mem_live (snd (nghttp2_bufs_free b2 m2)) = 0"
proof -
  have "case nghttp2_bufs_init3 blank_bufs 4 2 1 1 two_blocks of Inl e \<Rightarrow> False
    | Inr (rv, b1, m1) \<Rightarrow> rv = 0 \<and> (case nghttp2_bufs_add b1 [1, 2, 3, 4, 5] m1 of Inl e \<Rightarrow> False
      | Inr (rv2, b2, m2) \<Rightarrow> rv2 = 0 \<and> length (bufs_head b2) = 2 \<and> mem_live m2 = 4)"
    by code_simp
  from case3E [OF this] obtain rv b1 m1 where 1: "nghttp2_bufs_init3 blank_bufs 4 2 1 1 two_blocks = Inr (rv, b1, m1)"
    and "rv = 0 \<and> (case nghttp2_bufs_add b1 [1, 2, 3, 4, 5] m1 of Inl e \<Rightarrow> False
      | Inr (rv2, b2, m2) \<Rightarrow> rv2 = 0 \<and> length (bufs_head b2) = 2 \<and> mem_live m2 = 4)" by blast
  then have rv: "rv = 0" and 2: "case nghttp2_bufs_add b1 [1, 2, 3, 4, 5] m1 of Inl e \<Rightarrow> False
      | Inr (rv2, b2, m2) \<Rightarrow> rv2 = 0 \<and> length (bufs_head b2) = 2 \<and> mem_live m2 = 4" by blast+
  obtain b2 m2 where run: "nghttp2_bufs_init3 blank_bufs 4 2 1 1 two_blocks = Inr (0, b1, m1)"
      "nghttp2_bufs_add b1 [1, 2, 3, 4, 5] m1 = Inr (0, b2, m2)" "length (bufs_head b2) = 2" "mem_live m2 = 4"
    using case3E [OF 2] 1 rv by metis
  have "bufs_step\<^sup>*\<^sup>* (b1, m1) (b2, m2)" using bufs_step.add [OF run(2)] by blast
  then have "mem_live (snd (nghttp2_bufs_free b2 m2)) = 0"
    using bufs_lifecycle_balance [OF run(1)] by (auto simp: two_blocks_def)
  then show ?thesis using run by blast
qed

text \<open>
  C18. nghttp2_bufs_add appends the bytes to the chain, or a proper prefix of them and an error; it stays
  inside its memory and keeps the invariant.
\<close>

theorem bufs_add_appends:
  assumes "bufs_wf b"
  shows "\<exists>rv b' m'. nghttp2_bufs_add b d m = Inr (rv, b', m') \<and> bufs_wf b' \<and>
    (if rv = 0 then bufs_content b' = bufs_content b @ d
     else (rv = NGHTTP2_ERR_NOMEM \<or> rv = NGHTTP2_ERR_BUFFER_ERROR \<and> bufs_cur b' + 1 = bufs_max_chunk b') \<and>
       (\<exists>k < length d. bufs_content b' = bufs_content b @ take k d))"
  using bufs_add_total [OF assms, of d m]
  unfolding appends_def bufs_full_def by meson

definition small_bufs :: nghttp2_bufs where
  "small_bufs = \<lparr>bufs_head = [\<lparr>buf_block = Some [0, 0, 0], buf_pos = 1, buf_last = 1, buf_mark = 0\<rparr>],
     bufs_cur = 0, bufs_chunk_length = 3, bufs_max_chunk = 1, bufs_chunk_used = 1, bufs_chunk_keep = 1,
     bufs_offset = 1\<rparr>"

theorem bufs_add_appends_witness:
  "\<exists>rv b' m'. nghttp2_bufs_add small_bufs [7, 8] two_blocks = Inr (rv, b', m') \<and> bufs_wf b' \<and>
     (rv = 0 \<longrightarrow> bufs_content b' = [7, 8])"
proof -
  have wf: "bufs_wf small_bufs" by code_simp
  have c: "bufs_content small_bufs = []" by code_simp
  show ?thesis using bufs_add_appends [OF wf, of "[7, 8]" two_blocks] c by (auto split: if_splits)
qed

end
