(* ===== verification/Httpc2.thy ===== *)
theory Httpc2
  imports Httpc_Lifecycle Nghttp2_Buf "HOL-Library.Multiset"
begin

text \<open>
  The HTTP/2 client on top of nghttp2: the callbacks that connect a session to the transport
  (\<open>httpc2_send_callback\<close>, \<open>httpc2_recv_callback\<close> and the others), the two loops of nghttp2
  that call them (\<open>nghttp2_session_send\<close>, \<open>nghttp2_session_recv\<close>), and the life of the client
  (\<open>httpc2_init\<close>, \<open>httpc2_submit_request\<close>, \<open>httpc2_core_run\<close>, \<open>httpc2_deinit\<close>). Of the session itself the
  buffers of the frame that is being sent are modelled; the functions that fill them and that
  process what is received (\<open>nghttp2_session_mem_send_internal\<close>, \<open>nghttp2_session_mem_recv\<close>) are
  parameters, about which nothing is assumed in what is shown of the receiving side.
\<close>

unbundle bit_operations_syntax

section \<open>Codes\<close>

definition MBEDTLS_ERR_SSL_WANT_READ :: int where
  "MBEDTLS_ERR_SSL_WANT_READ = - 0x6900"

definition MBEDTLS_ERR_SSL_WANT_WRITE :: int where
  "MBEDTLS_ERR_SSL_WANT_WRITE = - 0x6880"

definition NGHTTP2_DATA_FLAG_EOF :: "32 word" where
  "NGHTTP2_DATA_FLAG_EOF = 1"

definition NGHTTP2_INBOUND_BUFFER_LENGTH :: nat where
  "NGHTTP2_INBOUND_BUFFER_LENGTH = 16384"

definition O_NONBLOCK :: int where
  "O_NONBLOCK = 2048"

lemmas h2_err_defs =
  MBEDTLS_ERR_SSL_WANT_READ_def MBEDTLS_ERR_SSL_WANT_WRITE_def NGHTTP2_ERR_WOULDBLOCK_def
  NGHTTP2_ERR_EOF_def NGHTTP2_ERR_NOMEM_def NGHTTP2_ERR_CALLBACK_FAILURE_def

section \<open>Data\<close>

text \<open>
  \<open>'s\<close> is the state of the framing engine, \<open>'u\<close> what the user's callbacks work on.
\<close>

type_synonym 'u write_callback = "int \<Rightarrow> string \<Rightarrow> nat \<Rightarrow> 'u \<Rightarrow> 'u"
type_synonym read_callback = "int \<Rightarrow> nat \<Rightarrow> 32 word \<Rightarrow> int \<times> string \<times> 32 word"
type_synonym nv = "block \<times> block"

record ('s, 'u) httpc2 =
  h2_httpc :: "httpc ptr"
  h2_session :: "'s ptr"
  h2_write :: "'u write_callback option"

datatype h2_frame = H2_Headers bool "nv list" | H2_Rst_Stream | H2_Other

text \<open>
  A session: the buffers of the frame that is being sent, \<open>aob.framebufs\<close>, and everything else.
\<close>

record 's nghttp2_session =
  aob_framebufs :: nghttp2_bufs
  session_more :: 's

text \<open>
  The engine: the next bytes to send (a negative count is an error), the processing of received
  bytes, and the submission of a request.
\<close>

record 's h2_engine =
  mem_send :: "'s nghttp2_session \<Rightarrow> int \<times> string \<times> 's nghttp2_session"
  mem_recv :: "string \<Rightarrow> 's nghttp2_session \<Rightarrow> int \<times> 's nghttp2_session"
  submit_request :: "nv list \<Rightarrow> read_callback option \<Rightarrow> 's nghttp2_session \<Rightarrow> int \<times> 's nghttp2_session"

section \<open>The callbacks\<close>

definition h2_client :: "('s, 'u) httpc2 \<Rightarrow> httpc option" where
  "h2_client h2 = map_option snd (h2_httpc h2)"

definition httpc2_send_callback ::
  "block \<Rightarrow> nat \<Rightarrow> ('s, 'u) httpc2 option \<Rightarrow> world \<Rightarrow> (int \<times> world) res" where
  "httpc2_send_callback data len user_data w =
     res_bind (case user_data of None \<Rightarrow> Inr (0, w)
               | Some h2 \<Rightarrow> httpc_send (h2_client h2) (Some data) (int32_of (int len)) w) (\<lambda>(ret, w).
     Inr (if ret \<le> 0 then
            (if ret = MBEDTLS_ERR_SSL_WANT_READ \<or> ret = MBEDTLS_ERR_SSL_WANT_WRITE
             then NGHTTP2_ERR_WOULDBLOCK else NGHTTP2_ERR_CALLBACK_FAILURE)
          else ret, w))"

definition httpc2_recv_callback ::
  "block \<Rightarrow> nat \<Rightarrow> ('s, 'u) httpc2 option \<Rightarrow> world \<Rightarrow> (int \<times> block \<times> world) res" where
  "httpc2_recv_callback b len user_data w =
     res_bind (case user_data of None \<Rightarrow> Inr (0, Some b, w)
               | Some h2 \<Rightarrow> httpc_recv (h2_client h2) (Some b) (int32_of (int len)) w) (\<lambda>(ret, b', w).
     Inr (if ret < 0 then
            (if ret = MBEDTLS_ERR_SSL_WANT_READ \<or> ret = MBEDTLS_ERR_SSL_WANT_WRITE
             then NGHTTP2_ERR_WOULDBLOCK else NGHTTP2_ERR_CALLBACK_FAILURE)
          else if ret = 0 then NGHTTP2_ERR_EOF
          else ret, case b' of None \<Rightarrow> b | Some b' \<Rightarrow> b', w))"

text \<open>The names and values of a header frame are printed as strings.\<close>

fun print_nva :: "nv list \<Rightarrow> unit res" where
  "print_nva [] = Inr ()"
| "print_nva ((n, v) # nva) =
     res_bind (str_at n 0) (\<lambda>_. res_bind (str_at v 0) (\<lambda>_. print_nva nva))"

definition httpc2_on_frame_send_callback :: "h2_frame \<Rightarrow> int res" where
  "httpc2_on_frame_send_callback frame =
     (case frame of
        H2_Headers _ nva \<Rightarrow> res_bind (print_nva nva) (\<lambda>_. Inr 0)
      | H2_Rst_Stream \<Rightarrow> Inr 0
      | H2_Other \<Rightarrow> Inr 0)"

definition httpc2_on_frame_recv_callback :: "h2_frame \<Rightarrow> int res" where
  "httpc2_on_frame_recv_callback frame =
     (case frame of
        H2_Headers response nva \<Rightarrow> res_bind (if response then print_nva nva else Inr ()) (\<lambda>_. Inr 0)
      | H2_Rst_Stream \<Rightarrow> Inr 0
      | H2_Other \<Rightarrow> Inr 0)"

definition httpc2_on_stream_close_callback :: "int \<Rightarrow> 32 word \<Rightarrow> int" where
  "httpc2_on_stream_close_callback stream_id error_code = 0"

definition httpc2_on_data_chunk_recv_callback ::
  "nat \<Rightarrow> int \<Rightarrow> string \<Rightarrow> ('s, 'u) httpc2 option \<Rightarrow> 'u \<Rightarrow> int \<times> 'u" where
  "httpc2_on_data_chunk_recv_callback flags stream_id data user_data u =
     (case user_data of None \<Rightarrow> (0, u) | Some h2 \<Rightarrow>
       (case h2_write h2 of None \<Rightarrow> (0, u) | Some f \<Rightarrow> (0, f stream_id data flags u)))"

definition httpc2_data_source_read_callback ::
  "read_callback option \<Rightarrow> int \<Rightarrow> nat \<Rightarrow> 32 word \<Rightarrow> int \<times> string \<times> 32 word" where
  "httpc2_data_source_read_callback source stream_id len data_flags =
     (case source of
        Some f \<Rightarrow> f stream_id len data_flags
      | None \<Rightarrow> (0, [], data_flags OR NGHTTP2_DATA_FLAG_EOF))"

section \<open>The loops of the session\<close>

text \<open>
  Both loops go on as long as the engine and the transport do; a loop that does not end is the
  value \<open>None\<close>. The session is the one of the client that is the user data of the callbacks.
  Bytes that were not sent are given back by moving the position of the current buffer.
\<close>

definition framebufs_rewind :: "int \<Rightarrow> 's nghttp2_session \<Rightarrow> 's nghttp2_session res" where
  "framebufs_rewind k s =
     res_bind (bufs_cur_buf (aob_framebufs s)) (\<lambda>b.
     (let p = int (buf_pos b) - k
      in if 0 \<le> p \<and> p \<le> int (nghttp2_buf_cap b)
         then Inr (s\<lparr>aob_framebufs := bufs_set_cur (aob_framebufs s) (b\<lparr>buf_pos := nat p\<rparr>)\<rparr>)
         else Inl Out_Of_Bounds))"

partial_function (option) nghttp2_session_send ::
  "'s h2_engine \<Rightarrow> ('s nghttp2_session, 'u) httpc2 option \<Rightarrow> 's nghttp2_session \<Rightarrow> world \<Rightarrow> (int \<times> 's nghttp2_session \<times> world) res option" where
  "nghttp2_session_send e h2 s w =
     (case mem_send e s of
        (datalen, data, s1) \<Rightarrow>
          if datalen \<le> 0 then Some (Inr (datalen, s1, w))
          else
            (case httpc2_send_callback data (nat datalen) h2 w of
               Inl f \<Rightarrow> Some (Inl f)
             | Inr (sentlen, w1) \<Rightarrow>
                 if sentlen < 0 then
                   (if sentlen = NGHTTP2_ERR_WOULDBLOCK
                    then Some (res_bind (framebufs_rewind datalen s1) (\<lambda>s2. Inr (0, s2, w1)))
                    else Some (Inr (NGHTTP2_ERR_CALLBACK_FAILURE, s1, w1)))
                 else
                   (case framebufs_rewind (datalen - sentlen) s1 of
                      Inl f \<Rightarrow> Some (Inl f)
                    | Inr s2 \<Rightarrow> nghttp2_session_send e h2 s2 w1)))"

definition session_recv ::
  "block \<Rightarrow> nat \<Rightarrow> ('s, 'u) httpc2 option \<Rightarrow> world \<Rightarrow> (int \<times> block \<times> world) res" where
  "session_recv b len h2 w =
     res_bind (httpc2_recv_callback b len h2 w) (\<lambda>(rv, b, w).
     Inr (if 0 < rv then (if len < nat rv then NGHTTP2_ERR_CALLBACK_FAILURE else rv)
          else if rv < 0 \<and> rv \<noteq> NGHTTP2_ERR_WOULDBLOCK \<and> rv \<noteq> NGHTTP2_ERR_EOF
          then NGHTTP2_ERR_CALLBACK_FAILURE
          else rv, b, w))"

partial_function (option) session_recv_loop ::
  "'s h2_engine \<Rightarrow> ('s nghttp2_session, 'u) httpc2 option \<Rightarrow> block \<Rightarrow> 's nghttp2_session \<Rightarrow> world \<Rightarrow> (int \<times> 's nghttp2_session \<times> world) res option" where
  "session_recv_loop e h2 b s w =
     (case session_recv b (length b) h2 w of
        Inl f \<Rightarrow> Some (Inl f)
      | Inr (readlen, b1, w1) \<Rightarrow>
          if 0 < readlen then
            (case mem_recv e (take (nat readlen) b1) s of
               (proclen, s1) \<Rightarrow>
                 if proclen < 0 then Some (Inr (proclen, s1, w1))
                 else if proclen \<noteq> readlen then Some (Inl Assert_Failed)
                 else session_recv_loop e h2 b1 s1 w1)
          else if readlen = 0 \<or> readlen = NGHTTP2_ERR_WOULDBLOCK then Some (Inr (0, s, w1))
          else if readlen = NGHTTP2_ERR_EOF then Some (Inr (NGHTTP2_ERR_EOF, s, w1))
          else Some (Inr (NGHTTP2_ERR_CALLBACK_FAILURE, s, w1)))"

definition nghttp2_session_recv ::
  "'s h2_engine \<Rightarrow> ('s nghttp2_session, 'u) httpc2 option \<Rightarrow> 's nghttp2_session \<Rightarrow> world \<Rightarrow> (int \<times> 's nghttp2_session \<times> world) res option" where
  "nghttp2_session_recv e h2 s w =
     session_recv_loop e h2 (replicate NGHTTP2_INBOUND_BUFFER_LENGTH NUL) s w"

section \<open>The client\<close>

definition httpc2_submit_request ::
  "'s h2_engine \<Rightarrow> ('s nghttp2_session, 'u) httpc2 option \<Rightarrow> nv list option \<Rightarrow> read_callback option \<Rightarrow>
   'u write_callback option \<Rightarrow> (int \<times> ('s nghttp2_session, 'u) httpc2 option) res" where
  "httpc2_submit_request e p nva rcb wcb =
     (case (p, nva) of
        (Some h2, Some nva) \<Rightarrow>
          (let h2 = h2\<lparr>h2_write := wcb\<rparr>;
               data_prd = map_option (\<lambda>f. httpc2_data_source_read_callback (Some f)) rcb
           in case h2_session h2 of
                None \<Rightarrow> Inl Null_Deref
              | Some (k, s) \<Rightarrow>
                  (case submit_request e nva data_prd s of
                     (stream_id, s) \<Rightarrow> Inr (stream_id, Some (h2\<lparr>h2_session := Some (k, s)\<rparr>))))
      | _ \<Rightarrow> Inr (-1, p))"

definition httpc2_core_run ::
  "'s h2_engine \<Rightarrow> ('s nghttp2_session, 'u) httpc2 option \<Rightarrow> world \<Rightarrow> (int \<times> ('s nghttp2_session, 'u) httpc2 option \<times> world) res option" where
  "httpc2_core_run e p w =
     (case p of None \<Rightarrow> Some (Inr (HTTPC_ERR_PARAM, p, w)) | Some h2 \<Rightarrow>
       (case h2_session h2 of None \<Rightarrow> Some (Inl Null_Deref) | Some (k, s) \<Rightarrow>
         (case nghttp2_session_send e p s w of
            None \<Rightarrow> None
          | Some (Inl f) \<Rightarrow> Some (Inl f)
          | Some (Inr (ret, s, w)) \<Rightarrow>
              (let p = Some (h2\<lparr>h2_session := Some (k, s)\<rparr>)
               in if ret \<noteq> 0 then Some (Inr (HTTPC_ERR_FAIL, p, w))
                  else
                    (case nghttp2_session_recv e p s w of
                       None \<Rightarrow> None
                     | Some (Inl f) \<Rightarrow> Some (Inl f)
                     | Some (Inr (ret, s, w)) \<Rightarrow>
                         Some (Inr (if ret \<noteq> 0 then HTTPC_ERR_FAIL else HTTPC_ERR_OK,
                                    Some (h2\<lparr>h2_session := Some (k, s)\<rparr>), w)))))))"

definition httpc2_deinit :: "(nat \<times> ('s, 'u) httpc2) option \<Rightarrow> world \<Rightarrow> world res" where
  "httpc2_deinit p w =
     (case p of None \<Rightarrow> Inr w | Some (i, h2) \<Rightarrow>
        res_bind (safe_free (h2_session h2) w) (\<lambda>(_, w).
        res_bind (httpc_deinit (h2_httpc h2) w) (\<lambda>w.
        res_bind (safe_free (Some (i, h2)) w) (\<lambda>(_, w). Inr w))))"

text \<open>The labels \<open>malloc_fail\<close> and \<open>httpc_init_fail\<close>; the pointer still has its value after \<open>httpc2_deinit\<close>.\<close>

definition h2_malloc_fail :: "(nat \<times> ('s, 'u) httpc2) option \<Rightarrow> world \<Rightarrow> ((nat \<times> ('s, 'u) httpc2) option \<times> world) res" where
  "h2_malloc_fail p w = safe_free p w"

definition h2_init_fail :: "(nat \<times> ('s, 'u) httpc2) option \<Rightarrow> world \<Rightarrow> ((nat \<times> ('s, 'u) httpc2) option \<times> world) res" where
  "h2_init_fail p w = res_bind (httpc2_deinit p w) (\<lambda>w. h2_malloc_fail p w)"

text \<open>\<open>nghttp2_session_client_new\<close> allocates the session, whose first state is \<open>s0\<close>.\<close>

definition session_client_new :: "ext \<Rightarrow> 's \<Rightarrow> world \<Rightarrow> int \<times> 's ptr \<times> world" where
  "session_client_new X s0 w =
     (if x_session_client_new X \<noteq> 0 then (x_session_client_new X, None, w)
      else (case httpc_calloc s0 w of
              (None, w) \<Rightarrow> (NGHTTP2_ERR_NOMEM, None, w)
            | (Some p, w) \<Rightarrow> (0, Some p, w)))"

definition h2_nonblock ::
  "ext \<Rightarrow> nat \<Rightarrow> ('s, 'u) httpc2 \<Rightarrow> httpc \<Rightarrow> world \<Rightarrow> ((nat \<times> ('s, 'u) httpc2) option \<times> world) res" where
  "h2_nonblock X i h2 c w =
     (let flags = x_fcntl_getfl X (socket c)
      in if flags = -1 then h2_init_fail (Some (i, h2)) w
         else
           (let ret = x_fcntl_setfl X (socket c) (flags OR O_NONBLOCK);
                w = log_call (Sys_fcntl_nonblock (socket c)) w
            in if ret = -1 then h2_init_fail (Some (i, h2)) w
               else Inr (Some (i, h2), log_call H2_submit_settings w)))"

definition httpc2_init ::
  "ext \<Rightarrow> 's \<Rightarrow> string option \<Rightarrow> string option \<Rightarrow> httpc_tls_info option \<Rightarrow> world \<Rightarrow>
   ((nat \<times> ('s, 'u) httpc2) option \<times> world) res" where
  "httpc2_init X s0 uri port ssl_info w =
     (if uri = None \<or> port = None then Inr (None, w)
      else
        (case httpc_calloc \<lparr>h2_httpc = None, h2_session = None, h2_write = None\<rparr> w of
           (None, w) \<Rightarrow> h2_malloc_fail None w
         | (Some (i, h2), w) \<Rightarrow>
             (case httpc_calloc () w of
                (None, w) \<Rightarrow> Inl Null_Deref
              | (Some callbacks, w) \<Rightarrow>
                  (case session_client_new X s0 w of
                     (ret, s, w) \<Rightarrow>
                       (let h2 = h2\<lparr>h2_session := s\<rparr>
                        in res_bind (safe_free (Some callbacks) w) (\<lambda>(_, w).
                           if ret \<noteq> 0 then h2_malloc_fail (Some (i, h2)) w
                           else
                             res_bind (httpc_init X uri port None HTTP_VER_2_0 ssl_info w) (\<lambda>(p, w).
                             (let h2 = h2\<lparr>h2_httpc := p\<rparr>
                              in case p of
                                   None \<Rightarrow> h2_init_fail (Some (i, h2)) w
                                 | Some (_, c) \<Rightarrow> h2_nonblock X i h2 c w))))))))"

section \<open>The transport below the session\<close>

lemma h2_send_ready:
  assumes "h2_client h2 = Some c" and "transport_ready c" and "int (length d) \<le> INT_MAX"
  shows "httpc2_send_callback d (length d) (Some h2) w =
    (case conn_write d w of (r, w') \<Rightarrow>
       Inr (if r \<le> 0 then
              (if r = MBEDTLS_ERR_SSL_WANT_READ \<or> r = MBEDTLS_ERR_SSL_WANT_WRITE
               then NGHTTP2_ERR_WOULDBLOCK else NGHTTP2_ERR_CALLBACK_FAILURE)
            else r, w'))"
proof -
  have i: "int32_of (int (length d)) = int (length d)"
    using assms(3) by (intro int32_of_id) (simp_all add: INT_MAX_def)
  show ?thesis
    using httpc_send_ready [OF assms(2), of "length d" d w] assms(1,3)
    by (simp add: httpc2_send_callback_def i split: prod.split)
qed

lemma conn_write_facts:
  assumes "conn_write d w = (r, w')"
  shows "r \<le> int (length d)" "sent w' = sent w @ take (nat r) d" "rx w' = rx w" "live w' = live w"
  using assms by (auto simp: conn_write_def Let_def split: list.splits)

section \<open>Sending\<close>

text \<open>
  What is asked of \<open>nghttp2_session_mem_send_internal\<close>: the bytes it hands out are those in front of
  the position of the current buffer, and they are the first of what is still to be sent, which
  is the rest of this buffer and what is queued behind it.
\<close>

definition chars_of :: "bytes \<Rightarrow> string" where
  "chars_of bs = map (\<lambda>b. char_of (unat b)) bs"

lemma chars_of_simps [simp]:
  "chars_of [] = []" "chars_of (xs @ ys) = chars_of xs @ chars_of ys" "length (chars_of xs) = length xs"
  "take n (chars_of xs) = chars_of (take n xs)" "drop n (chars_of xs) = chars_of (drop n xs)"
  by (simp_all add: chars_of_def take_map drop_map)

definition session_pending :: "('s \<Rightarrow> string) \<Rightarrow> 's nghttp2_session \<Rightarrow> string" where
  "session_pending queue s =
     (case bufs_cur_buf (aob_framebufs s) of Inl _ \<Rightarrow> [] | Inr b \<Rightarrow> chars_of (buf_data b)) @ queue (session_more s)"

definition handed_out :: "int \<Rightarrow> string \<Rightarrow> 's nghttp2_session \<Rightarrow> bool" where
  "handed_out n d s \<longleftrightarrow> n = int (length d) \<and> n \<le> INT_MAX \<and>
     (\<exists>b. bufs_cur_buf (aob_framebufs s) = Inr b \<and> buf_wf b \<and> length d \<le> buf_pos b \<and>
        d = chars_of (take (length d) (drop (buf_pos b - length d) (buf_store b))))"

definition engine_sends :: "'s h2_engine \<Rightarrow> ('s \<Rightarrow> string) \<Rightarrow> bool" where
  "engine_sends e queue \<longleftrightarrow>
     (\<forall>s n d s'. mem_send e s = (n, d, s') \<longrightarrow>
        (if n \<le> 0 then session_pending queue s' = session_pending queue s
         else handed_out n d s' \<and> session_pending queue s = d @ session_pending queue s'))"

lemma engine_sendsD:
  assumes "engine_sends e queue" and "mem_send e s = (n, d, s')"
  shows "n \<le> 0 \<Longrightarrow> session_pending queue s' = session_pending queue s"
    "\<not> n \<le> 0 \<Longrightarrow> handed_out n d s' \<and> session_pending queue s = d @ session_pending queue s'"
  using assms unfolding engine_sends_def by metis+

text \<open>Moving the position back makes the last bytes that were handed out pending again.\<close>

lemma rewind_pending:
  assumes "handed_out n d s" and k: "0 \<le> k" "k \<le> n"
  obtains s' where "framebufs_rewind k s = Inr s'"
    "session_pending queue s' = drop (length d - nat k) d @ session_pending queue s"
proof -
  obtain b where b: "bufs_cur_buf (aob_framebufs s) = Inr b" "buf_wf b" "length d \<le> buf_pos b"
    "d = chars_of (take (length d) (drop (buf_pos b - length d) (buf_store b)))" and n: "n = int (length d)"
    using assms(1) by (auto simp: handed_out_def)
  define j where "j = nat k"
  have j: "j \<le> length d" "j \<le> buf_pos b" "k = int j" using k n b(3) by (simp_all add: j_def)
  have pos: "buf_pos b \<le> buf_last b" "buf_last b \<le> length (buf_store b)" using b(2) by (auto simp: buf_wf_def nghttp2_buf_cap_def)
  let ?b = "b\<lparr>buf_pos := buf_pos b - j\<rparr>"
  let ?s = "s\<lparr>aob_framebufs := bufs_set_cur (aob_framebufs s) ?b\<rparr>"
  have "nat (int (buf_pos b) - k) = buf_pos b - j" using j by simp
  then have eq: "framebufs_rewind k s = Inr ?s"
    using b(1) j pos by (simp add: framebufs_rewind_def nghttp2_buf_cap_def Let_def)
  have cur: "bufs_cur_buf (bufs_set_cur (aob_framebufs s) ?b) = Inr ?b"
    using b(1) by (auto simp: bufs_cur_buf_def bufs_set_cur_def split: if_splits)
  have split: "take (buf_last b - (buf_pos b - j)) (drop (buf_pos b - j) (buf_store b)) =
      take j (drop (buf_pos b - j) (buf_store b)) @ take (buf_last b - buf_pos b) (drop (buf_pos b) (buf_store b))"
  proof -
    have "buf_last b - (buf_pos b - j) = j + (buf_last b - buf_pos b)" using pos j by simp
    moreover have "drop j (drop (buf_pos b - j) (buf_store b)) = drop (buf_pos b) (buf_store b)" using j by simp
    ultimately show ?thesis by (simp only: take_add)
  qed
  have "drop (length d - j) d = chars_of (drop (length d - j) (take (length d) (drop (buf_pos b - length d) (buf_store b))))"
    by (subst b(4)) simp
  also have "drop (length d - j) (take (length d) (drop (buf_pos b - length d) (buf_store b))) =
      take j (drop (buf_pos b - j) (buf_store b))"
    using j b(3) by (simp add: drop_take)
  finally have tail: "drop (length d - j) d = chars_of (take j (drop (buf_pos b - j) (buf_store b)))" .
  have st: "buf_store ?b = buf_store b" by (simp add: buf_store_def)
  have "session_pending queue ?s = drop (length d - j) d @ session_pending queue s"
    by (simp add: session_pending_def b(1) cur tail buf_data_def st split)
  then show ?thesis using that eq by (simp add: j_def)
qed

lemma session_send_run:
  assumes e: "engine_sends e queue" and c: "h2_client h2 = Some c" "transport_ready c"
  shows "\<exists>r s' w'. nghttp2_session_send e (Some h2) s w = Some (Inr (r, s', w')) \<and>
      (r \<noteq> NGHTTP2_ERR_CALLBACK_FAILURE \<longrightarrow> sent w' @ session_pending queue s' = sent w @ session_pending queue s) \<and>
      prefix (sent w') (sent w @ session_pending queue s) \<and> rx w' = rx w"
proof (induction "length (session_pending queue s)" arbitrary: s w rule: less_induct)
  case less
  let ?p = "session_pending queue"
  note step = nghttp2_session_send.simps [of e "Some h2" s w]
  obtain dl d s1 where m: "mem_send e s = (dl, d, s1)" by (cases "mem_send e s") auto
  show ?case
  proof (cases "dl \<le> 0")
    case True
    then show ?thesis using m engine_sendsD(1) [OF e m] step by auto
  next
    case False
    from engine_sendsD(2) [OF e m False] have out: "handed_out dl d s1" and p: "?p s = d @ ?p s1" by simp_all
    then have dl: "dl = int (length d)" "dl \<le> INT_MAX" by (simp_all add: handed_out_def)
    obtain r w1 where w1: "conn_write d w = (r, w1)" by (cases "conn_write d w") auto
    note wf = conn_write_facts [OF w1]
    have cb: "httpc2_send_callback d (nat dl) (Some h2) w =
        Inr (if r \<le> 0 then (if r = MBEDTLS_ERR_SSL_WANT_READ \<or> r = MBEDTLS_ERR_SSL_WANT_WRITE
               then NGHTTP2_ERR_WOULDBLOCK else NGHTTP2_ERR_CALLBACK_FAILURE) else r, w1)"
      using h2_send_ready [OF c, of d w] dl w1 by simp
    show ?thesis
    proof (cases "r \<le> 0")
      case True
      let ?would = "r = MBEDTLS_ERR_SSL_WANT_READ \<or> r = MBEDTLS_ERR_SSL_WANT_WRITE"
      obtain s2 where s2: "framebufs_rewind dl s1 = Inr s2" "?p s2 = drop (length d - nat dl) d @ ?p s1"
        by (rule rewind_pending [OF out, of dl]) (use False in auto)
      have stop: "nghttp2_session_send e (Some h2) s w = Some (Inr
          (if ?would then (0, s2, w1) else (NGHTTP2_ERR_CALLBACK_FAILURE, s1, w1)))"
        using m False cb True s2(1) step by (simp add: h2_err_defs)
      have "?p s2 = ?p s" using s2(2) p dl(1) by simp
      moreover have "sent w1 = sent w" "rx w1 = rx w" using wf(2,3) True by simp_all
      ultimately show ?thesis using stop by (cases ?would) simp_all
    next
      case pos: False
      obtain s2 where s2: "framebufs_rewind (dl - r) s1 = Inr s2" "?p s2 = drop (length d - nat (dl - r)) d @ ?p s1"
        by (rule rewind_pending [OF out, of "dl - r"]) (use wf(1) dl pos in auto)
      have k: "length d - nat (dl - r) = nat r" using wf(1) dl(1) pos by auto
      have all: "sent w1 @ ?p s2 = sent w @ ?p s"
        unfolding wf(2) s2(2) k p append.assoc by (simp only: append_take_drop_id append.assoc [symmetric])
      have "0 < nat r" "0 < length d" using pos dl False by auto
      then have "length (?p s2) < length (?p s)" unfolding s2(2) k p by simp
      from less.hyps [OF this, of w1] obtain r' s' w' where
        "nghttp2_session_send e (Some h2) s2 w1 = Some (Inr (r', s', w'))"
        "r' \<noteq> NGHTTP2_ERR_CALLBACK_FAILURE \<longrightarrow> sent w' @ ?p s' = sent w @ ?p s"
        "prefix (sent w') (sent w @ ?p s)" "rx w' = rx w"
        unfolding all wf(3) by blast
      then show ?thesis using m False cb pos s2(1) step by simp
    qed
  qed
qed

text \<open>
  Sending a session returns and loses no byte: with short writes and with a transport that would
  block, what was sent followed by what is still pending is what was to be sent.
\<close>

theorem session_send_no_loss:
  assumes "engine_sends e queue" and "h2_client h2 = Some c" "transport_ready c"
  shows "\<exists>r s' w'. nghttp2_session_send e (Some h2) s w = Some (Inr (r, s', w')) \<and>
      (r \<noteq> NGHTTP2_ERR_CALLBACK_FAILURE \<longrightarrow> sent w' @ session_pending queue s' = sent w @ session_pending queue s) \<and>
      prefix (sent w') (sent w @ session_pending queue s)"
  using session_send_run [OF assms, of s w] by blast

text \<open>
  A concrete engine that does what the state \<open>NGHTTP2_OB_SEND_DATA\<close> of the code does: the current buffer is
  handed out as a whole, and when it is used up the next frame is put into it.
\<close>

definition frame_bufs :: "bytes \<Rightarrow> nat \<Rightarrow> nghttp2_bufs" where
  "frame_bufs f p = \<lparr>bufs_head = [\<lparr>buf_block = Some f, buf_pos = p, buf_last = length f, buf_mark = 0\<rparr>], bufs_cur = 0,
     bufs_chunk_length = length f, bufs_max_chunk = 1, bufs_chunk_used = 1, bufs_chunk_keep = 1, bufs_offset = 0\<rparr>"

definition demo_session :: "bytes list \<Rightarrow> bytes list nghttp2_session" where
  "demo_session fs = \<lparr>aob_framebufs = frame_bufs [] 0, session_more = fs\<rparr>"

definition demo_send :: "bytes list nghttp2_session \<Rightarrow> int \<times> string \<times> bytes list nghttp2_session" where
  "demo_send s =
     (case bufs_cur_buf (aob_framebufs s) of
        Inl _ \<Rightarrow> (-1, [], s)
      | Inr b \<Rightarrow>
          (let n = nghttp2_buf_len b
           in if \<not> buf_wf b \<or> INT_MAX < int n then (-1, [], s)
              else if 0 < n then
                (int n, chars_of (buf_data b), s\<lparr>aob_framebufs := bufs_set_cur (aob_framebufs s) (b\<lparr>buf_pos := buf_last b\<rparr>)\<rparr>)
              else
                (case session_more s of
                   [] \<Rightarrow> (0, [], s)
                 | f # fs \<Rightarrow>
                     if INT_MAX < int (length f) then (-1, [], s)
                     else (int (length f), chars_of f, \<lparr>aob_framebufs = frame_bufs f (length f), session_more = fs\<rparr>))))"

definition demo_engine :: "bytes list h2_engine" where
  "demo_engine =
     \<lparr>mem_send = demo_send, mem_recv = (\<lambda>d s. (int (length d), s)), submit_request = (\<lambda>nva rd s. (1, s))\<rparr>"

lemma frame_pending:
  "session_pending queue \<lparr>aob_framebufs = frame_bufs f (length f), session_more = fs\<rparr> = queue fs"
  by (simp add: session_pending_def frame_bufs_def bufs_cur_buf_def buf_data_def)

lemma demo_engine_sends: "engine_sends demo_engine (\<lambda>fs. chars_of (concat fs))"
  unfolding engine_sends_def
proof (intro allI impI)
  fix s n d s' assume "mem_send demo_engine s = (n, d, s')"
  then have r: "demo_send s = (n, d, s')" by (simp add: demo_engine_def)
  let ?p = "session_pending (\<lambda>fs. chars_of (concat fs))"
  show "if n \<le> 0 then ?p s' = ?p s else handed_out n d s' \<and> ?p s = d @ ?p s'"
  proof (cases "bufs_cur_buf (aob_framebufs s)")
    case (Inl f)
    then show ?thesis using r by (simp add: demo_send_def)
  next
    case b: (Inr b)
    consider (bad) "\<not> buf_wf b \<or> INT_MAX < int (nghttp2_buf_len b)"
      | (send) "buf_wf b" "int (nghttp2_buf_len b) \<le> INT_MAX" "0 < nghttp2_buf_len b"
      | (load) "buf_wf b" "nghttp2_buf_len b = 0" by fastforce
    then show ?thesis
    proof cases
      case bad
      then show ?thesis using r b by (auto simp: demo_send_def Let_def)
    next
      case send
      let ?b = "b\<lparr>buf_pos := buf_last b\<rparr>"
      let ?s = "s\<lparr>aob_framebufs := bufs_set_cur (aob_framebufs s) ?b\<rparr>"
      have eq: "n = int (nghttp2_buf_len b)" "d = chars_of (buf_data b)" "s' = ?s"
        using r b send by (simp_all add: demo_send_def Let_def)
      have cur: "bufs_cur_buf (aob_framebufs ?s) = Inr ?b"
        using b by (auto simp: bufs_cur_buf_def bufs_set_cur_def split: if_splits)
      have st: "buf_store ?b = buf_store b" by (simp add: buf_store_def)
      have pos: "buf_pos b \<le> buf_last b" "buf_last b \<le> length (buf_store b)" using send(1) by (auto simp: buf_wf_def nghttp2_buf_cap_def)
      have "handed_out n d ?s"
        unfolding handed_out_def using cur eq send pos
        by (auto simp: buf_data_def buf_wf_def nghttp2_buf_cap_def st)
      moreover have "?p s = d @ ?p ?s" using b cur eq by (simp add: session_pending_def buf_data_Nil)
      ultimately show ?thesis using eq send(3) by simp
    next
      case load
      then have nil: "buf_data b = []" by (simp add: buf_data_def)
      have no: "\<not> (\<not> buf_wf b \<or> INT_MAX < int (nghttp2_buf_len b))" "\<not> 0 < nghttp2_buf_len b"
        using load by (simp_all add: INT_MAX_def)
      note r = r [unfolded demo_send_def b sum.case Let_def if_not_P [OF no(1)] if_not_P [OF no(2)]]
      show ?thesis
      proof (cases "session_more s")
        case Nil
        then show ?thesis using r by simp
      next
        case (Cons f fs)
        show ?thesis
        proof (cases "INT_MAX < int (length f)")
          case True
          then show ?thesis using r Cons by auto
        next
          case False
          let ?s = "\<lparr>aob_framebufs = frame_bufs f (length f), session_more = fs\<rparr>"
          have eq: "n = int (length f)" "d = chars_of f" "s' = ?s"
            using r Cons False by simp_all
          have "handed_out n d ?s" using False eq
            by (simp add: handed_out_def frame_bufs_def bufs_cur_buf_def buf_wf_def nghttp2_buf_cap_def buf_store_def)
          moreover have pp: "?p s = d @ ?p ?s"
            unfolding frame_pending eq(2) unfolding session_pending_def b sum.case nil Cons by simp
          moreover have "n \<le> 0 \<Longrightarrow> d = []" using eq(1,2) by simp
          then have "n \<le> 0 \<Longrightarrow> ?p ?s = ?p s" using pp by simp
          ultimately show ?thesis unfolding eq(3) by (simp only: if_bool_eq_conj simp_thms) blast
        qed
      qed
    qed
  qed
qed

definition h2_demo :: "(bytes list nghttp2_session, unit) httpc2" where
  "h2_demo = \<lparr>h2_httpc = Some (0, client_up), h2_session = Some (1, demo_session [[104, 105], [33]]), h2_write = None\<rparr>"

lemma h2_demo_client: "h2_client h2_demo = Some client_up" "transport_ready client_up"
  by (simp_all add: h2_demo_def h2_client_def transport_ready_def demo_defs)

text \<open>A short write and one that would block: the engine's three bytes stay in order.\<close>

lemma session_send_example:
  "\<exists>r s' w'. nghttp2_session_send demo_engine (Some h2_demo) (demo_session [[104, 105], [33]]) (world_init\<lparr>tx_plan := [1, - 0x6880]\<rparr>) =
      Some (Inr (r, s', w')) \<and> prefix (sent w') ''hi!''"
proof -
  have "session_pending (\<lambda>fs. chars_of (concat fs)) (demo_session [[104, 105], [33]]) = ''hi!''" by code_simp
  then show ?thesis
    using session_send_run [OF demo_engine_sends h2_demo_client, of "demo_session [[104, 105], [33]]" "world_init\<lparr>tx_plan := [1, - 0x6880]\<rparr>"]
    by (auto simp: world_init_def)
qed

section \<open>Receiving\<close>

lemma session_recv_ready:
  assumes c: "h2_client h2 = Some c" "transport_ready c" and b: "0 < length b" "int (length b) \<le> INT_MAX"
    and r: "conn_read (length b) w = (r, d, w')"
  shows "session_recv b (length b) (Some h2) w =
    Inr (if 0 < r then r
         else if r = 0 then NGHTTP2_ERR_EOF
         else if r = MBEDTLS_ERR_SSL_WANT_READ \<or> r = MBEDTLS_ERR_SSL_WANT_WRITE then NGHTTP2_ERR_WOULDBLOCK
         else NGHTTP2_ERR_CALLBACK_FAILURE,
      d @ drop (length d) b, w')"
proof -
  have i: "int32_of (int (length b)) = int (length b)"
    using b(2) by (intro int32_of_id) (simp_all add: INT_MAX_def)
  have s: "size_t_of (int (length b)) = length b" using b(2) by (subst size_t_of_nonneg) simp_all
  note f = conn_read_facts [OF r]
  have put: "put_bytes b 0 d = Inr (d @ drop (length d) b)" using f(1) by (rule put_bytes_front)
  have cb: "httpc2_recv_callback b (length b) (Some h2) w =
      Inr (if r < 0 then (if r = MBEDTLS_ERR_SSL_WANT_READ \<or> r = MBEDTLS_ERR_SSL_WANT_WRITE
             then NGHTTP2_ERR_WOULDBLOCK else NGHTTP2_ERR_CALLBACK_FAILURE)
           else if r = 0 then NGHTTP2_ERR_EOF else r, d @ drop (length d) b, w')"
    by (simp add: httpc2_recv_callback_def c(1) i httpc_recv_def httpc_recv_data_ready [OF c(2)] s r put)
  have "0 < r \<longrightarrow> nat r \<le> length b" using f(1,2,3) by (cases "d = []") auto
  then show ?thesis by (auto simp: session_recv_def cb h2_err_defs)
qed

text \<open>
  What the engine makes of the runs of bytes it is fed, one after the other: it answers with their
  lengths, or the feeding stops at the first other answer.
\<close>

inductive fed :: "'s h2_engine \<Rightarrow> 's nghttp2_session \<Rightarrow> string list \<Rightarrow> int option \<Rightarrow> 's nghttp2_session \<Rightarrow> bool" for e where
  fed_all: "fed e s [] None s"
| fed_next: "mem_recv e d s = (int (length d), s1) \<Longrightarrow> fed e s1 ds k s' \<Longrightarrow> fed e s (d # ds) k s'"
| fed_stop: "mem_recv e d s = (k, s1) \<Longrightarrow> k \<noteq> int (length d) \<Longrightarrow> fed e s [d] (Some k) s1"

inductive_cases fed_NilE: "fed e s [] k s'"

text \<open>
  How a receiving loop ends, with nothing assumed of the engine: it returns the engine's error, or fails the
  assertion that the engine has taken all the bytes, or the stream is at an end.
\<close>

definition recv_ends :: "world \<Rightarrow> int option \<Rightarrow> 's nghttp2_session \<Rightarrow> world \<Rightarrow> (int \<times> 's nghttp2_session \<times> world) res \<Rightarrow> bool" where
  "recv_ends w k s' w' out \<longleftrightarrow>
     (case k of
        Some n \<Rightarrow> out = (if n < 0 then Inr (n, s', w') else Inl Assert_Failed)
      | None \<Rightarrow> (\<exists>r \<in> {0, NGHTTP2_ERR_EOF, NGHTTP2_ERR_CALLBACK_FAILURE}. out = Inr (r, s', w')) \<and>
          (rx_intact (rx w) \<longrightarrow> rx_bytes (rx w') = []))"

lemma recv_ends_later:
  assumes "recv_ends w1 k s' w' out" "rx_intact (rx w) \<longrightarrow> rx_intact (rx w1)"
  shows "recv_ends w k s' w' out"
  using assms by (auto simp: recv_ends_def split: option.splits)

lemma session_recv_loop_run:
  assumes c: "h2_client h2 = Some c" "transport_ready c" and N: "0 < N" "int N \<le> INT_MAX"
  shows "length b = N \<Longrightarrow>
    \<exists>out ds k s' w'. session_recv_loop e (Some h2) b s w = Some out \<and> fed e s ds k s' \<and>
      rx_bytes (rx w) = concat ds @ rx_bytes (rx w') \<and> sent w' = sent w \<and> recv_ends w k s' w' out"
proof (induction "length (rx_bytes (rx w))" arbitrary: b s w rule: less_induct)
  case less
  note step = session_recv_loop.simps [of e "Some h2" b s w]
  have b: "0 < length b" "int (length b) \<le> INT_MAX" using N less.prems by simp_all
  obtain r d w1 where r: "conn_read (length b) w = (r, d, w1)" by (cases "conn_read (length b) w") auto
  note f = conn_read_facts [OF r]
  note sr = session_recv_ready [OF c b r]
  have se: "sent w1 = sent w" using f(6) by (metis world.select_convs(3) world.surjective world.update_convs(1))
  show ?case
  proof (cases "0 < r")
    case False
    then have d: "d = []" using f(2) by auto
    have "\<exists>r'. session_recv_loop e (Some h2) b s w = Some (Inr (r', s, w1)) \<and>
        r' \<in> {0, NGHTTP2_ERR_EOF, NGHTTP2_ERR_CALLBACK_FAILURE}"
      using False step by (auto simp: sr h2_err_defs)
    then obtain r' where stop: "session_recv_loop e (Some h2) b s w = Some (Inr (r', s, w1))"
      "r' \<in> {0, NGHTTP2_ERR_EOF, NGHTTP2_ERR_CALLBACK_FAILURE}" by blast
    have "rx_intact (rx w) \<longrightarrow> rx_bytes (rx w1) = []" using f(4,5) b(1) d by auto
    then have "recv_ends w None s w1 (Inr (r', s, w1))" using stop(2) by (auto simp: recv_ends_def)
    moreover have "rx_bytes (rx w) = concat [] @ rx_bytes (rx w1)" using f(4) d by simp
    ultimately show ?thesis using stop(1) fed_all se by blast
  next
    case True
    then have d: "d \<noteq> []" "r = int (length d)" using f(2,3) by auto
    have intact: "rx_intact (rx w) \<longrightarrow> rx_intact (rx w1)" using f(4,5) b(1) d(1) by auto
    obtain pl s1 where m: "mem_recv e d s = (pl, s1)" by (cases "mem_recv e d s") auto
    let ?b = "d @ drop (length d) b"
    show ?thesis
    proof (cases "pl = int (length d)")
      case pl: True
      have go: "session_recv_loop e (Some h2) b s w = session_recv_loop e (Some h2) ?b s1 w1"
        using True d m pl by (subst step) (simp add: sr)
      have "length (rx_bytes (rx w1)) < length (rx_bytes (rx w))" using f(4) d(1) by (cases d) auto
      moreover have "length ?b = N" using f(1) less.prems by simp
      ultimately obtain out ds k s' w' where i: "session_recv_loop e (Some h2) ?b s1 w1 = Some out" "fed e s1 ds k s'"
        "rx_bytes (rx w1) = concat ds @ rx_bytes (rx w')" "sent w' = sent w1" "recv_ends w1 k s' w' out"
        using less.hyps [of w1 ?b s1] by blast
      have "fed e s (d # ds) k s'" using fed_next [OF m [unfolded pl] i(2)] .
      moreover have "rx_bytes (rx w) = concat (d # ds) @ rx_bytes (rx w')" using f(4) i(3) by simp
      moreover have "recv_ends w k s' w' out" by (rule recv_ends_later [OF i(5) intact])
      ultimately show ?thesis using go i(1,4) se by metis
    next
      case False
      have "session_recv_loop e (Some h2) b s w = Some (if pl < 0 then Inr (pl, s1, w1) else Inl Assert_Failed)"
        using True d m False by (subst step) (simp add: sr)
      moreover have "fed e s [d] (Some pl) s1" by (rule fed_stop [OF m False])
      moreover have "rx_bytes (rx w) = concat [d] @ rx_bytes (rx w1)" using f(4) by simp
      moreover have "recv_ends w (Some pl) s1 w1 (if pl < 0 then Inr (pl, s1, w1) else Inl Assert_Failed)"
        by (simp add: recv_ends_def)
      ultimately show ?thesis using se by blast
    qed
  qed
qed

text \<open>
  C37. For every engine and a connected client nghttp2_session_recv returns and hands the bytes of the
  stream to nghttp2_session_mem_recv in order, each once, without sending: until the engine returns an
  error, which it returns, or takes another number of bytes than it was given, which is the failed
  assertion, or a read brings nothing, which for a stream without errors means that all of it was fed.
\<close>

theorem session_recv_in_order:
  assumes "h2_client h2 = Some c" "transport_ready c"
  shows "\<exists>out ds k s' w'. nghttp2_session_recv e (Some h2) s w = Some out \<and> fed e s ds k s' \<and>
      rx_bytes (rx w) = concat ds @ rx_bytes (rx w') \<and> sent w' = sent w \<and> recv_ends w k s' w' out"
proof -
  let ?N = NGHTTP2_INBOUND_BUFFER_LENGTH
  have N: "0 < ?N" "int ?N \<le> INT_MAX" by (simp_all add: NGHTTP2_INBOUND_BUFFER_LENGTH_def INT_MAX_def)
  show ?thesis
    unfolding nghttp2_session_recv_def by (rule session_recv_loop_run [OF assms N]) simp
qed

text \<open>An engine that refuses the second run of bytes.\<close>

definition picky_engine :: "nat h2_engine" where
  "picky_engine =
     \<lparr>mem_send = (\<lambda>s. (0, [], s)),
      mem_recv = (\<lambda>d s. if session_more s = 0 then (int (length d), s\<lparr>session_more := 1\<rparr>) else (- 505, s)),
      submit_request = (\<lambda>nva rd s. (1, s))\<rparr>"

definition picky_client :: "(nat nghttp2_session, unit) httpc2" where
  "picky_client = \<lparr>h2_httpc = Some (0, client_up), h2_session = None, h2_write = None\<rparr>"

theorem session_recv_in_order_witness:
  "\<exists>out ds k s' w'. nghttp2_session_recv picky_engine (Some picky_client) \<lparr>aob_framebufs = frame_bufs [] 0, session_more = 0\<rparr>
      (world_init\<lparr>rx := [Rx_Data ''he'', Rx_Data ''llo'']\<rparr>) = Some out \<and>
    fed picky_engine \<lparr>aob_framebufs = frame_bufs [] 0, session_more = 0\<rparr> ds k s' \<and>
    rx_bytes [Rx_Data ''he'', Rx_Data ''llo''] = concat ds @ rx_bytes (rx w') \<and>
    recv_ends (world_init\<lparr>rx := [Rx_Data ''he'', Rx_Data ''llo'']\<rparr>) k s' w' out"
proof -
  have c: "h2_client picky_client = Some client_up" "transport_ready client_up"
    by (simp_all add: picky_client_def h2_client_def transport_ready_def demo_defs)
  let ?s = "\<lparr>aob_framebufs = frame_bufs [] 0, session_more = 0\<rparr>" and ?w = "world_init\<lparr>rx := [Rx_Data ''he'', Rx_Data ''llo'']\<rparr>"
  from session_recv_in_order [OF c, of picky_engine ?s ?w] obtain out ds k s' w' where
    r: "nghttp2_session_recv picky_engine (Some picky_client) ?s ?w = Some out" "fed picky_engine ?s ds k s'"
      "rx_bytes (rx ?w) = concat ds @ rx_bytes (rx w')" "recv_ends ?w k s' w' out" by blast
  have "rx_bytes [Rx_Data ''he'', Rx_Data ''llo''] = concat ds @ rx_bytes (rx w')" using r(3) by simp
  with r(1,2,4) show ?thesis by blast
qed

text \<open>
  A turn of httpc2_core_run with nothing to send and a failing read is fine exactly for the two TLS codes of a read that
  would block. The code of a plain socket that would block, -1, is not among them.
\<close>

theorem core_run_idle:
  assumes c: "h2_httpc h2 = Some (i, c)" "transport_ready c" and s: "h2_session h2 = Some (j, s)"
    and idle: "mem_send e s = (0, d, s)" and rx: "rx w = Rx_Err k # es" "k < 0"
  shows "\<exists>r w'. httpc2_core_run e (Some h2) w = Some (Inr (r, Some h2, w')) \<and> rx w' = es \<and>
    (r = HTTPC_ERR_OK \<longleftrightarrow> k = MBEDTLS_ERR_SSL_WANT_READ \<or> k = MBEDTLS_ERR_SSL_WANT_WRITE) \<and>
    (r \<noteq> HTTPC_ERR_OK \<longrightarrow> r = HTTPC_ERR_FAIL)"
proof -
  have cl: "h2_client h2 = Some c" using c(1) by (simp add: h2_client_def)
  have send: "nghttp2_session_send e (Some h2) s w = Some (Inr (0, s, w))"
    using idle by (subst nghttp2_session_send.simps) simp
  let ?N = NGHTTP2_INBOUND_BUFFER_LENGTH
  have N: "0 < length (replicate ?N NUL)" "int (length (replicate ?N NUL)) \<le> INT_MAX"
    by (simp_all add: NGHTTP2_INBOUND_BUFFER_LENGTH_def INT_MAX_def)
  have read: "conn_read (length (replicate ?N NUL)) w = (k, [], w\<lparr>rx := es\<rparr>)"
    using rx by (simp add: conn_read_def)
  have h2: "h2\<lparr>h2_session := Some (j, s)\<rparr> = h2" using s by simp
  have recv: "nghttp2_session_recv e (Some h2) s w = Some (Inr
      (if k = MBEDTLS_ERR_SSL_WANT_READ \<or> k = MBEDTLS_ERR_SSL_WANT_WRITE then 0 else NGHTTP2_ERR_CALLBACK_FAILURE,
       s, w\<lparr>rx := es\<rparr>))"
    unfolding nghttp2_session_recv_def
    by (subst session_recv_loop.simps) (use rx(2) session_recv_ready [OF cl c(2) N read] in \<open>simp add: h2_err_defs\<close>)
  show ?thesis
    unfolding httpc2_core_run_def option.case s prod.case send sum.case Let_def h2 recv
    by (simp add: h2_err_defs httpc_err_defs)
qed

theorem core_run_idle_witness:
  "\<exists>r w'. httpc2_core_run demo_engine (Some (h2_demo\<lparr>h2_session := Some (1, demo_session [])\<rparr>)) (world_init\<lparr>rx := [Rx_Err (-1)]\<rparr>) =
      Some (Inr (r, Some (h2_demo\<lparr>h2_session := Some (1, demo_session [])\<rparr>), w')) \<and> r = HTTPC_ERR_FAIL"
proof -
  have "\<exists>r w'. httpc2_core_run demo_engine (Some (h2_demo\<lparr>h2_session := Some (1, demo_session [])\<rparr>)) (world_init\<lparr>rx := [Rx_Err (-1)]\<rparr>) =
      Some (Inr (r, Some (h2_demo\<lparr>h2_session := Some (1, demo_session [])\<rparr>), w')) \<and> rx w' = [] \<and>
    (r = HTTPC_ERR_OK \<longleftrightarrow> (-1 :: int) = MBEDTLS_ERR_SSL_WANT_READ \<or> (-1 :: int) = MBEDTLS_ERR_SSL_WANT_WRITE) \<and>
    (r \<noteq> HTTPC_ERR_OK \<longrightarrow> r = HTTPC_ERR_FAIL)"
    by (rule core_run_idle [where i = 0 and c = client_up and j = 1 and s = "demo_session []" and d = "[]"])
      (simp_all add: h2_demo_def demo_engine_def demo_send_def demo_session_def frame_bufs_def bufs_cur_buf_def buf_wf_def
        nghttp2_buf_cap_def buf_store_def nghttp2_buf_len_def size_sub_def INT_MAX_def transport_ready_def demo_defs)
  then show ?thesis by (auto simp: h2_err_defs)
qed

section \<open>The life of the client\<close>








text \<open>
  When the connection cannot be set up, the error path frees the client twice: \<open>httpc2_deinit\<close>
  nulls only its own copy of the pointer.
\<close>

text \<open>
  When the connection cannot be set up, httpc2_init frees its client twice.
\<close>

theorem h2_init_double_free:
  assumes nosock: "x_socket X < 0" and w: "alloc_plan w = []" "world_wf w" and new: "x_session_client_new X = 0"
  shows "(httpc2_init X s0 (Some u) (Some port) info w :: ((nat \<times> ('s, 'u) httpc2) option \<times> world) res) = Inl Bad_Free"
proof -
  have i: "next_id w \<notin> set (live w)" using w(2) by (auto simp: world_wf_def)
  show ?thesis
    using nosock i
    by (simp add: httpc2_init_def session_client_new_def new w(1) safe_free_def httpc_init_def init_malloc_fail_def Let_def
        h2_init_fail_def httpc2_deinit_def httpc_deinit_def h2_malloc_fail_def)
qed

theorem h2_init_double_free_witness:
  "(httpc2_init (ext_up\<lparr>x_socket := -1\<rparr>) (0 :: nat) (Some ''http://a.org'') (Some ''80'') None world_init ::
     ((nat \<times> (nat, unit) httpc2) option \<times> world) res) = Inl Bad_Free"
  by (rule h2_init_double_free) (simp_all add: demo_defs world_wf_def)

end
