(* ===== verification/Nghttp2_Frame.thy ===== *)
theory Nghttp2_Frame
  imports Nghttp2_Buf
begin

unbundle bit_operations_syntax

text \<open>
  Frames of HTTP/2 (nghttp2_frame.c, nghttp2_priority_spec.c, nghttp2_extpri.c): the structures,
  their initializers, and how each is written to the buffers and read back.
\<close>

section \<open>Priorities\<close>

record nghttp2_priority_spec =
  pri_stream_id :: int
  pri_weight :: int
  pri_exclusive :: int

definition NGHTTP2_DEFAULT_WEIGHT :: int where
  "NGHTTP2_DEFAULT_WEIGHT = 16"

definition NGHTTP2_MAX_WEIGHT :: int where
  "NGHTTP2_MAX_WEIGHT = 256"

definition NGHTTP2_MIN_WEIGHT :: int where
  "NGHTTP2_MIN_WEIGHT = 1"

definition nghttp2_priority_spec_init :: "int \<Rightarrow> int \<Rightarrow> int \<Rightarrow> nghttp2_priority_spec" where
  "nghttp2_priority_spec_init stream_id weight exclusive =
     \<lparr>pri_stream_id = stream_id, pri_weight = weight, pri_exclusive = (if exclusive \<noteq> 0 then 1 else 0)\<rparr>"

definition nghttp2_priority_spec_default_init :: nghttp2_priority_spec where
  "nghttp2_priority_spec_default_init =
     \<lparr>pri_stream_id = 0, pri_weight = NGHTTP2_DEFAULT_WEIGHT, pri_exclusive = 0\<rparr>"

definition nghttp2_priority_spec_check_default :: "nghttp2_priority_spec \<Rightarrow> bool" where
  "nghttp2_priority_spec_check_default p \<longleftrightarrow>
     pri_stream_id p = 0 \<and> pri_weight p = NGHTTP2_DEFAULT_WEIGHT \<and> pri_exclusive p = 0"

definition nghttp2_priority_spec_normalize_weight :: "nghttp2_priority_spec \<Rightarrow> nghttp2_priority_spec" where
  "nghttp2_priority_spec_normalize_weight p =
     (if pri_weight p < NGHTTP2_MIN_WEIGHT then p\<lparr>pri_weight := NGHTTP2_MIN_WEIGHT\<rparr>
      else if NGHTTP2_MAX_WEIGHT < pri_weight p then p\<lparr>pri_weight := NGHTTP2_MAX_WEIGHT\<rparr>
      else p)"

lemmas weight_defs = NGHTTP2_MIN_WEIGHT_def NGHTTP2_MAX_WEIGHT_def NGHTTP2_DEFAULT_WEIGHT_def

text \<open>The extensible priority: an urgency and the incremental flag, packed into one byte.\<close>

record nghttp2_extpri =
  urgency :: "32 word"
  extpri_inc :: int

definition nghttp2_extpri_to_uint8 :: "nghttp2_extpri \<Rightarrow> byte" where
  "nghttp2_extpri_to_uint8 e = ucast (push_bit 7 (word_of_int (extpri_inc e)) OR urgency e)"

definition nghttp2_extpri_from_uint8 :: "byte \<Rightarrow> nghttp2_extpri" where
  "nghttp2_extpri_from_uint8 b =
     \<lparr>urgency = ucast (b AND NOT 0x80), extpri_inc = (if b AND 0x80 \<noteq> 0 then 1 else 0)\<rparr>"

lemma bit_80: "bit (0x80 :: byte) n \<longleftrightarrow> n = 7"
proof -
  have "(0x80 :: byte) = 2 ^ 7" by simp
  then show ?thesis by (simp only: bit_exp_iff) auto
qed

lemma bit_128: "bit (128 :: int) n \<longleftrightarrow> n = 7" "bit (128 :: nat) n \<longleftrightarrow> n = 7"
proof -
  have "(128 :: int) = 2 ^ 7" "(128 :: nat) = 2 ^ 7" by simp_all
  then show "bit (128 :: int) n \<longleftrightarrow> n = 7" "bit (128 :: nat) n \<longleftrightarrow> n = 7"
    by (simp_all only: bit_exp_iff) auto
qed

lemma extpri_roundtrip:
  fixes u :: "32 word"
  assumes "u < 128" and "i = 0 \<or> i = 1"
  shows "nghttp2_extpri_from_uint8 (nghttp2_extpri_to_uint8 \<lparr>urgency = u, extpri_inc = i\<rparr>) = \<lparr>urgency = u, extpri_inc = i\<rparr>"
proof -
  have b: "\<not> bit u n" if "7 \<le> n" for n
  proof -
    have "uint u < 2 ^ 7" using assms(1) by (simp add: word_less_def)
    then have "take_bit 7 (uint u) = uint u" by (simp add: take_bit_int_eq_self)
    then have "\<not> bit (uint u) n" using that by (metis bit_take_bit_iff leD)
    then show ?thesis by (auto simp: bit_uint_iff dest: bit_imp_le_length)
  qed
  show ?thesis
    using assms(2)
  proof
    assume i: "i = 0"
    have "ucast ((ucast u :: byte) AND NOT 0x80) = u"
    proof (rule bit_word_eqI)
      fix n
      assume n: "n < LENGTH(32)"
      have "bit u n \<longrightarrow> n < 7" using b [of n] by (cases "n < 7") auto
      then show "bit (ucast ((ucast u :: byte) AND NOT 0x80) :: 32 word) n = bit u n"
        unfolding bit_ucast_iff bit_and_iff bit_not_iff bit_80 using n by auto
    qed
    moreover have "(ucast u :: byte) AND 0x80 = 0"
    proof (rule bit_word_eqI)
      fix n
      show "bit ((ucast u :: byte) AND 0x80) n = bit (0 :: byte) n"
        using b [of 7] unfolding bit_and_iff bit_80 bit_ucast_iff by auto
    qed
    ultimately show ?thesis by (simp add: i nghttp2_extpri_to_uint8_def nghttp2_extpri_from_uint8_def)
  next
    assume i: "i = 1"
    have "ucast (ucast (push_bit 7 (1 :: 32 word) OR u) AND NOT (0x80 :: byte)) = u"
    proof (rule bit_word_eqI)
      fix n
      assume n: "n < LENGTH(32)"
      have "bit u n \<longrightarrow> n < 7" using b [of n] by (cases "n < 7") auto
      then show "bit (ucast (ucast (push_bit 7 (1 :: 32 word) OR u) AND NOT (0x80 :: byte)) :: 32 word) n = bit u n"
        unfolding bit_ucast_iff bit_and_iff bit_not_iff bit_or_iff bit_push_bit_iff bit_80 bit_1_iff using n by auto
    qed
    moreover have "bit (ucast (push_bit 7 (1 :: 32 word) OR u) AND 0x80 :: byte) 7"
      unfolding bit_ucast_iff bit_and_iff bit_or_iff bit_push_bit_iff bit_80 bit_1_iff by simp
    then have "(ucast (push_bit 7 (1 :: 32 word) OR u) AND 0x80 :: byte) \<noteq> 0" by auto
    ultimately show ?thesis by (simp add: i nghttp2_extpri_to_uint8_def nghttp2_extpri_from_uint8_def)
  qed
qed

section \<open>Frame headers\<close>

record nghttp2_frame_hd =
  hd_length :: nat
  hd_stream_id :: int
  hd_type :: byte
  hd_flags :: byte
  hd_reserved :: byte

definition NGHTTP2_DATA :: byte where "NGHTTP2_DATA = 0"
definition NGHTTP2_HEADERS :: byte where "NGHTTP2_HEADERS = 1"
definition NGHTTP2_PRIORITY :: byte where "NGHTTP2_PRIORITY = 2"
definition NGHTTP2_RST_STREAM :: byte where "NGHTTP2_RST_STREAM = 3"
definition NGHTTP2_SETTINGS :: byte where "NGHTTP2_SETTINGS = 4"
definition NGHTTP2_PUSH_PROMISE :: byte where "NGHTTP2_PUSH_PROMISE = 5"
definition NGHTTP2_PING :: byte where "NGHTTP2_PING = 6"
definition NGHTTP2_GOAWAY :: byte where "NGHTTP2_GOAWAY = 7"
definition NGHTTP2_WINDOW_UPDATE :: byte where "NGHTTP2_WINDOW_UPDATE = 8"
definition NGHTTP2_CONTINUATION :: byte where "NGHTTP2_CONTINUATION = 9"
definition NGHTTP2_ALTSVC :: byte where "NGHTTP2_ALTSVC = 10"
definition NGHTTP2_ORIGIN :: byte where "NGHTTP2_ORIGIN = 12"
definition NGHTTP2_PRIORITY_UPDATE :: byte where "NGHTTP2_PRIORITY_UPDATE = 16"

definition NGHTTP2_FLAG_NONE :: byte where "NGHTTP2_FLAG_NONE = 0"
definition NGHTTP2_FLAG_END_STREAM :: byte where "NGHTTP2_FLAG_END_STREAM = 1"
definition NGHTTP2_FLAG_END_HEADERS :: byte where "NGHTTP2_FLAG_END_HEADERS = 4"
definition NGHTTP2_FLAG_ACK :: byte where "NGHTTP2_FLAG_ACK = 1"
definition NGHTTP2_FLAG_PADDED :: byte where "NGHTTP2_FLAG_PADDED = 8"
definition NGHTTP2_FLAG_PRIORITY :: byte where "NGHTTP2_FLAG_PRIORITY = 32"

definition NGHTTP2_STREAM_ID_MASK :: "32 word" where "NGHTTP2_STREAM_ID_MASK = 0x7FFFFFFF"
definition NGHTTP2_WINDOW_SIZE_INCREMENT_MASK :: "32 word" where "NGHTTP2_WINDOW_SIZE_INCREMENT_MASK = 0x7FFFFFFF"
definition NGHTTP2_FRAME_HDLEN :: nat where "NGHTTP2_FRAME_HDLEN = 9"
definition NGHTTP2_PRIORITY_SPECLEN :: nat where "NGHTTP2_PRIORITY_SPECLEN = 5"
definition NGHTTP2_FRAME_SETTINGS_ENTRY_LENGTH :: nat where "NGHTTP2_FRAME_SETTINGS_ENTRY_LENGTH = 6"

lemmas frame_len_defs = NGHTTP2_FRAME_HDLEN_def NGHTTP2_PRIORITY_SPECLEN_def NGHTTP2_FRAME_SETTINGS_ENTRY_LENGTH_def

text \<open>Reading one byte behind a pointer.\<close>

definition byte_at :: "bytes \<Rightarrow> nat \<Rightarrow> byte res" where
  "byte_at bs i = (if i < length bs then Inr (bs ! i) else Inl Out_Of_Bounds)"

text \<open>Values of the C type \<open>uint32_t\<close> that are known to be below \<open>2\<^sup>3\<^sup>1\<close>, read as \<open>int32_t\<close>.\<close>

definition masked_id :: "32 word \<Rightarrow> int" where
  "masked_id w = uint (w AND NGHTTP2_STREAM_ID_MASK)"

definition nghttp2_frame_hd_init :: "nat \<Rightarrow> byte \<Rightarrow> byte \<Rightarrow> int \<Rightarrow> nghttp2_frame_hd" where
  "nghttp2_frame_hd_init len type flags stream_id =
     \<lparr>hd_length = len, hd_stream_id = stream_id, hd_type = type, hd_flags = flags, hd_reserved = 0\<rparr>"

text \<open>
  The 24-bit length is written as a 32-bit number moved up by a byte; the type overwrites its
  last byte.
\<close>

definition nghttp2_frame_pack_frame_hd :: "nghttp2_frame_hd \<Rightarrow> bytes" where
  "nghttp2_frame_pack_frame_hd h =
     (nghttp2_put_uint32be (word_of_nat (hd_length h * 2 ^ 8)))[3 := hd_type h] @
     [hd_flags h] @ nghttp2_put_uint32be (word_of_int (hd_stream_id h))"

definition nghttp2_frame_unpack_frame_hd :: "bytes \<Rightarrow> nghttp2_frame_hd res" where
  "nghttp2_frame_unpack_frame_hd buf =
     res_bind (nghttp2_get_uint32 buf) (\<lambda>len.
     res_bind (byte_at buf 3) (\<lambda>type.
     res_bind (byte_at buf 4) (\<lambda>flags.
     res_bind (nghttp2_get_uint32 (drop 5 buf)) (\<lambda>sid.
     Inr \<lparr>hd_length = unat (drop_bit 8 len), hd_stream_id = masked_id sid, hd_type = type,
       hd_flags = flags, hd_reserved = 0\<rparr>))))"

lemma mask31: "w AND 0x7FFFFFFF = take_bit 31 (w :: 32 word)"
  by (simp add: take_bit_eq_mask mask_eq_exp_minus_1)

lemma masked_id_range: "0 \<le> masked_id w" "masked_id w < 2 ^ 31"
  unfolding masked_id_def NGHTTP2_STREAM_ID_MASK_def mask31 unsigned_take_bit_eq
  using take_bit_int_less_exp [of 31 "uint w"] by simp_all

lemma masked_id_word [simp]: "0 \<le> n \<Longrightarrow> n < 2 ^ 31 \<Longrightarrow> masked_id (word_of_int n) = n"
  unfolding masked_id_def NGHTTP2_STREAM_ID_MASK_def mask31 unsigned_take_bit_eq uint_word_of_int_eq
  by (simp add: take_bit_eq_mod)

lemma hd_pack_length [simp]: "length (nghttp2_frame_pack_frame_hd h) = 9"
  by (simp add: nghttp2_frame_pack_frame_hd_def)

lemma pack_hd_bytes:
  "nghttp2_frame_pack_frame_hd h =
    [ucast (drop_bit 24 (word_of_nat (hd_length h * 2 ^ 8) :: 32 word)),
     ucast (drop_bit 16 (word_of_nat (hd_length h * 2 ^ 8) :: 32 word)),
     ucast (drop_bit 8 (word_of_nat (hd_length h * 2 ^ 8) :: 32 word)), hd_type h, hd_flags h] @
    nghttp2_put_uint32be (word_of_int (hd_stream_id h))"
  by (simp add: nghttp2_frame_pack_frame_hd_def nghttp2_put_uint32be_def numeral_eq_Suc)

lemma len24:
  fixes w :: "32 word" and t :: byte
  shows "drop_bit 8 (push_bit 24 (ucast (ucast (drop_bit 24 w) :: byte)) OR push_bit 16 (ucast (ucast (drop_bit 16 w) :: byte)) OR
    push_bit 8 (ucast (ucast (drop_bit 8 w) :: byte)) OR ucast t :: 32 word) = drop_bit 8 w"
proof (rule bit_word_eqI)
  fix m assume "m < LENGTH(32)"
  then consider "m < 8" | "8 \<le> m" "m < 16" | "16 \<le> m" "m < 24" | "24 \<le> m" "m < 32" by fastforce
  then show "bit (drop_bit 8 (push_bit 24 (ucast (ucast (drop_bit 24 w) :: byte)) OR push_bit 16 (ucast (ucast (drop_bit 16 w) :: byte)) OR
    push_bit 8 (ucast (ucast (drop_bit 8 w) :: byte)) OR ucast t :: 32 word)) m = bit (drop_bit 8 w) m"
    by cases (auto simp: bit_simps dest: bit_imp_le_length)
qed

lemma len24_value:
  assumes "n < 2 ^ 24"
  shows "unat (drop_bit 8 (word_of_nat (n * 2 ^ 8) :: 32 word)) = n"
proof -
  have "unat (word_of_nat (n * 2 ^ 8) :: 32 word) = n * 2 ^ 8"
    unfolding unat_of_nat using assms by simp
  then show ?thesis by (simp only: drop_bit_eq_div unat_div unat_of_nat) simp
qed

lemma hd_roundtrip:
  assumes "hd_length h < 2 ^ 24" and "0 \<le> hd_stream_id h" and "hd_stream_id h < 2 ^ 31"
  shows "nghttp2_frame_unpack_frame_hd (nghttp2_frame_pack_frame_hd h @ r) = Inr (h\<lparr>hd_reserved := 0\<rparr>)"
proof -
  define w where "w = (word_of_nat (hd_length h * 2 ^ 8) :: 32 word)"
  define s where "s = nghttp2_put_uint32be (word_of_int (hd_stream_id h))"
  have sid: "nghttp2_get_uint32 (s @ r) = Inr (word_of_int (hd_stream_id h))"
    by (simp add: s_def)
  have len: "unat (drop_bit 8 w) = hd_length h"
    unfolding w_def by (rule len24_value) (rule assms(1))
  have p: "nghttp2_frame_pack_frame_hd h @ r = ucast (drop_bit 24 w) # ucast (drop_bit 16 w) # ucast (drop_bit 8 w) #
      hd_type h # hd_flags h # s @ r"
    by (simp add: pack_hd_bytes w_def s_def)
  show ?thesis
    using assms(2,3)
    by (simp only: p nghttp2_frame_unpack_frame_hd_def nghttp2_get_uint32.simps res_bind_Inr len24 len)
       (simp add: byte_at_def sid)
qed

section \<open>Writing frames to the buffers\<close>

text \<open>Steps that every frame shares, on the first buffer of the chain.\<close>

definition bufs_first :: "nghttp2_bufs \<Rightarrow> nghttp2_buf res" where
  "bufs_first bufs = (case bufs_head bufs of [] \<Rightarrow> Inl Null_Deref | c # _ \<Rightarrow> Inr c)"

definition bufs_set_first :: "nghttp2_bufs \<Rightarrow> nghttp2_buf \<Rightarrow> nghttp2_bufs" where
  "bufs_set_first bufs c = bufs\<lparr>bufs_head := (bufs_head bufs)[0 := c]\<rparr>"

definition c_assert :: "bool \<Rightarrow> unit res" where
  "c_assert P = (if P then Inr () else Inl Assert_Failed)"

text \<open>\<open>buf->pos -= NGHTTP2_FRAME_HDLEN; nghttp2_frame_pack_frame_hd(buf->pos, hd)\<close>\<close>

definition put_frame_hd :: "nghttp2_buf \<Rightarrow> nghttp2_frame_hd \<Rightarrow> nghttp2_buf res" where
  "put_frame_hd buf h =
     (if buf_pos buf < NGHTTP2_FRAME_HDLEN then Inl Out_Of_Bounds
      else
        (let pos = buf_pos buf - NGHTTP2_FRAME_HDLEN
         in buf_poke (buf\<lparr>buf_pos := pos\<rparr>) pos (nghttp2_frame_pack_frame_hd h)))"

text \<open>Writing some bytes at \<open>last\<close> and moving \<open>last\<close> behind them.\<close>

definition put_last :: "nghttp2_buf \<Rightarrow> bytes \<Rightarrow> nghttp2_buf res" where
  "put_last buf d = res_bind (buf_poke buf (buf_last buf) d) (\<lambda>b. Inr (b\<lparr>buf_last := buf_last b + length d\<rparr>))"

definition nghttp2_frame_pack_priority_spec :: "nghttp2_priority_spec \<Rightarrow> bytes" where
  "nghttp2_frame_pack_priority_spec p =
     (let b = nghttp2_put_uint32be (word_of_int (pri_stream_id p));
          b = (if pri_exclusive p \<noteq> 0 then b[0 := b ! 0 OR 0x80] else b)
      in b @ [word_of_int (pri_weight p - 1)])"

definition nghttp2_frame_unpack_priority_spec :: "bytes \<Rightarrow> nghttp2_priority_spec res" where
  "nghttp2_frame_unpack_priority_spec payload =
     res_bind (nghttp2_get_uint32 payload) (\<lambda>dep.
     res_bind (byte_at payload 0) (\<lambda>b0.
     res_bind (byte_at payload 4) (\<lambda>w.
     Inr (nghttp2_priority_spec_init (masked_id dep) (uint w + 1) (if b0 AND 0x80 \<noteq> 0 then 1 else 0)))))"

subsection \<open>PRIORITY, RST_STREAM, PING, WINDOW_UPDATE\<close>

record nghttp2_priority =
  priority_hd :: nghttp2_frame_hd
  priority_spec :: nghttp2_priority_spec

record nghttp2_rst_stream =
  rst_hd :: nghttp2_frame_hd
  rst_error_code :: "32 word"

record nghttp2_ping =
  ping_hd :: nghttp2_frame_hd
  ping_opaque_data :: bytes

record nghttp2_window_update =
  wu_hd :: nghttp2_frame_hd
  wu_increment :: int
  wu_reserved :: byte

definition nghttp2_frame_priority_init :: "int \<Rightarrow> nghttp2_priority_spec \<Rightarrow> nghttp2_priority" where
  "nghttp2_frame_priority_init stream_id p =
     \<lparr>priority_hd = nghttp2_frame_hd_init NGHTTP2_PRIORITY_SPECLEN NGHTTP2_PRIORITY NGHTTP2_FLAG_NONE stream_id,
      priority_spec = p\<rparr>"

definition nghttp2_frame_rst_stream_init :: "int \<Rightarrow> 32 word \<Rightarrow> nghttp2_rst_stream" where
  "nghttp2_frame_rst_stream_init stream_id code =
     \<lparr>rst_hd = nghttp2_frame_hd_init 4 NGHTTP2_RST_STREAM NGHTTP2_FLAG_NONE stream_id, rst_error_code = code\<rparr>"

definition nghttp2_frame_ping_init :: "byte \<Rightarrow> bytes option \<Rightarrow> nghttp2_ping res" where
  "nghttp2_frame_ping_init flags opq =
     res_bind (case opq of Some d \<Rightarrow> rd d 0 8 | None \<Rightarrow> Inr (replicate 8 0)) (\<lambda>d.
     Inr \<lparr>ping_hd = nghttp2_frame_hd_init 8 NGHTTP2_PING flags 0, ping_opaque_data = d\<rparr>)"

definition nghttp2_frame_window_update_init :: "byte \<Rightarrow> int \<Rightarrow> int \<Rightarrow> nghttp2_window_update" where
  "nghttp2_frame_window_update_init flags stream_id inc =
     \<lparr>wu_hd = nghttp2_frame_hd_init 4 NGHTTP2_WINDOW_UPDATE flags stream_id, wu_increment = inc, wu_reserved = 0\<rparr>"

definition nghttp2_frame_pack_priority :: "nghttp2_bufs \<Rightarrow> nghttp2_priority \<Rightarrow> (int \<times> nghttp2_bufs) res" where
  "nghttp2_frame_pack_priority bufs frame =
     res_bind (c_assert (bufs_cur bufs = 0)) (\<lambda>_.
     res_bind (bufs_first bufs) (\<lambda>buf.
     res_bind (c_assert (NGHTTP2_PRIORITY_SPECLEN \<le> nghttp2_buf_avail buf)) (\<lambda>_.
     res_bind (put_frame_hd buf (priority_hd frame)) (\<lambda>buf1.
     res_bind (put_last buf1 (nghttp2_frame_pack_priority_spec (priority_spec frame))) (\<lambda>buf2.
     Inr (0, bufs_set_first bufs buf2))))))"

definition nghttp2_frame_unpack_priority_payload :: "nghttp2_priority \<Rightarrow> bytes \<Rightarrow> nghttp2_priority res" where
  "nghttp2_frame_unpack_priority_payload frame payload =
     res_bind (nghttp2_frame_unpack_priority_spec payload) (\<lambda>p. Inr (frame\<lparr>priority_spec := p\<rparr>))"

definition nghttp2_frame_pack_rst_stream :: "nghttp2_bufs \<Rightarrow> nghttp2_rst_stream \<Rightarrow> (int \<times> nghttp2_bufs) res" where
  "nghttp2_frame_pack_rst_stream bufs frame =
     res_bind (c_assert (bufs_cur bufs = 0)) (\<lambda>_.
     res_bind (bufs_first bufs) (\<lambda>buf.
     res_bind (c_assert (4 \<le> nghttp2_buf_avail buf)) (\<lambda>_.
     res_bind (put_frame_hd buf (rst_hd frame)) (\<lambda>buf1.
     res_bind (put_last buf1 (nghttp2_put_uint32be (rst_error_code frame))) (\<lambda>buf2.
     Inr (0, bufs_set_first bufs buf2))))))"

definition nghttp2_frame_unpack_rst_stream_payload :: "nghttp2_rst_stream \<Rightarrow> bytes \<Rightarrow> nghttp2_rst_stream res" where
  "nghttp2_frame_unpack_rst_stream_payload frame payload =
     res_bind (nghttp2_get_uint32 payload) (\<lambda>c. Inr (frame\<lparr>rst_error_code := c\<rparr>))"

definition nghttp2_frame_pack_ping :: "nghttp2_bufs \<Rightarrow> nghttp2_ping \<Rightarrow> (int \<times> nghttp2_bufs) res" where
  "nghttp2_frame_pack_ping bufs frame =
     res_bind (c_assert (bufs_cur bufs = 0)) (\<lambda>_.
     res_bind (bufs_first bufs) (\<lambda>buf.
     res_bind (c_assert (8 \<le> nghttp2_buf_avail buf)) (\<lambda>_.
     res_bind (put_frame_hd buf (ping_hd frame)) (\<lambda>buf1.
     res_bind (buf_cpy buf1 (ping_opaque_data frame)) (\<lambda>buf2.
     Inr (0, bufs_set_first bufs buf2))))))"

definition nghttp2_frame_unpack_ping_payload :: "nghttp2_ping \<Rightarrow> bytes \<Rightarrow> nghttp2_ping res" where
  "nghttp2_frame_unpack_ping_payload frame payload =
     res_bind (rd payload 0 8) (\<lambda>d. Inr (frame\<lparr>ping_opaque_data := d\<rparr>))"

definition nghttp2_frame_pack_window_update ::
  "nghttp2_bufs \<Rightarrow> nghttp2_window_update \<Rightarrow> (int \<times> nghttp2_bufs) res" where
  "nghttp2_frame_pack_window_update bufs frame =
     res_bind (c_assert (bufs_cur bufs = 0)) (\<lambda>_.
     res_bind (bufs_first bufs) (\<lambda>buf.
     res_bind (c_assert (4 \<le> nghttp2_buf_avail buf)) (\<lambda>_.
     res_bind (put_frame_hd buf (wu_hd frame)) (\<lambda>buf1.
     res_bind (put_last buf1 (nghttp2_put_uint32be (word_of_int (wu_increment frame)))) (\<lambda>buf2.
     Inr (0, bufs_set_first bufs buf2))))))"

definition nghttp2_frame_unpack_window_update_payload ::
  "nghttp2_window_update \<Rightarrow> bytes \<Rightarrow> nghttp2_window_update res" where
  "nghttp2_frame_unpack_window_update_payload frame payload =
     res_bind (nghttp2_get_uint32 payload) (\<lambda>n.
     Inr (frame\<lparr>wu_increment := uint (n AND NGHTTP2_WINDOW_SIZE_INCREMENT_MASK)\<rparr>))"

subsection \<open>SETTINGS\<close>

record nghttp2_settings_entry =
  settings_id :: int
  settings_value :: "32 word"

record nghttp2_settings =
  settings_hd :: nghttp2_frame_hd
  settings_niv :: nat
  settings_iv :: "nghttp2_settings_entry list option"

definition SIZEOF_SETTINGS_ENTRY :: nat where
  "SIZEOF_SETTINGS_ENTRY = 8"

definition nghttp2_frame_settings_init ::
  "byte \<Rightarrow> nghttp2_settings_entry list option \<Rightarrow> nat \<Rightarrow> nghttp2_settings" where
  "nghttp2_frame_settings_init flags iv niv =
     \<lparr>settings_hd = nghttp2_frame_hd_init (niv * NGHTTP2_FRAME_SETTINGS_ENTRY_LENGTH) NGHTTP2_SETTINGS flags 0,
      settings_niv = niv, settings_iv = iv\<rparr>"

definition nghttp2_frame_settings_free :: "nghttp2_settings \<Rightarrow> memory \<Rightarrow> memory" where
  "nghttp2_frame_settings_free frame m = nghttp2_mem_free (map_option (\<lambda>_. []) (settings_iv frame)) m"

text \<open>Reading the first \<open>n\<close> elements of an array behind a pointer that may be null.\<close>

definition arr_take :: "'a list option \<Rightarrow> nat \<Rightarrow> 'a list res" where
  "arr_take p n =
     (if n = 0 then Inr []
      else (case p of None \<Rightarrow> Inl Null_Deref
            | Some xs \<Rightarrow> if n \<le> length xs then Inr (take n xs) else Inl Out_Of_Bounds))"

fun pack_entries :: "nghttp2_settings_entry list \<Rightarrow> bytes" where
  "pack_entries [] = []"
| "pack_entries (e # es) =
     nghttp2_put_uint16be (word_of_int (settings_id e)) @ nghttp2_put_uint32be (settings_value e) @ pack_entries es"

definition nghttp2_frame_pack_settings_payload :: "nghttp2_settings_entry list option \<Rightarrow> nat \<Rightarrow> bytes res" where
  "nghttp2_frame_pack_settings_payload iv niv = res_bind (arr_take iv niv) (\<lambda>es. Inr (pack_entries es))"

definition nghttp2_frame_pack_settings :: "nghttp2_bufs \<Rightarrow> nghttp2_settings \<Rightarrow> (int \<times> nghttp2_bufs) res" where
  "nghttp2_frame_pack_settings bufs frame =
     res_bind (c_assert (bufs_cur bufs = 0)) (\<lambda>_.
     res_bind (bufs_first bufs) (\<lambda>buf.
     if nghttp2_buf_avail buf < hd_length (settings_hd frame) then Inr (NGHTTP2_ERR_FRAME_SIZE_ERROR, bufs)
     else
       res_bind (put_frame_hd buf (settings_hd frame)) (\<lambda>buf1.
       res_bind (nghttp2_frame_pack_settings_payload (settings_iv frame) (settings_niv frame)) (\<lambda>d.
       res_bind (buf_cpy buf1 d) (\<lambda>buf2.
       Inr (0, bufs_set_first bufs buf2))))))"

definition nghttp2_frame_unpack_settings_payload ::
  "nghttp2_settings \<Rightarrow> nghttp2_settings_entry list option \<Rightarrow> nat \<Rightarrow> nghttp2_settings" where
  "nghttp2_frame_unpack_settings_payload frame iv niv = frame\<lparr>settings_iv := iv, settings_niv := niv\<rparr>"

definition nghttp2_frame_unpack_settings_entry :: "bytes \<Rightarrow> nghttp2_settings_entry res" where
  "nghttp2_frame_unpack_settings_entry payload =
     res_bind (nghttp2_get_uint16 payload) (\<lambda>i.
     res_bind (nghttp2_get_uint32 (drop 2 payload)) (\<lambda>v.
     Inr \<lparr>settings_id = uint i, settings_value = v\<rparr>))"

fun unpack_entries :: "nat \<Rightarrow> bytes \<Rightarrow> nghttp2_settings_entry list res" where
  "unpack_entries 0 payload = Inr []"
| "unpack_entries (Suc n) payload =
     res_bind (nghttp2_frame_unpack_settings_entry payload) (\<lambda>e.
     res_bind (unpack_entries n (drop NGHTTP2_FRAME_SETTINGS_ENTRY_LENGTH payload)) (\<lambda>es. Inr (e # es)))"

text \<open>The entries go to a new block; the pointer and the count are results.\<close>

definition nghttp2_frame_unpack_settings_payload2 ::
  "bytes \<Rightarrow> nat \<Rightarrow> memory \<Rightarrow> (int \<times> nghttp2_settings_entry list option \<times> nat \<times> memory) res" where
  "nghttp2_frame_unpack_settings_payload2 payload payloadlen m =
     (let niv = payloadlen div NGHTTP2_FRAME_SETTINGS_ENTRY_LENGTH
      in if niv = 0 then Inr (0, None, niv, m)
         else
           (case nghttp2_mem_malloc (niv * SIZEOF_SETTINGS_ENTRY) m of
              (None, m1) \<Rightarrow> Inr (NGHTTP2_ERR_NOMEM, None, niv, m1)
            | (Some _, m1) \<Rightarrow> res_bind (unpack_entries niv payload) (\<lambda>es. Inr (0, Some es, niv, m1))))"

definition nghttp2_frame_iv_copy ::
  "nghttp2_settings_entry list option \<Rightarrow> nat \<Rightarrow> memory \<Rightarrow> (nghttp2_settings_entry list option \<times> memory) res" where
  "nghttp2_frame_iv_copy iv niv m =
     (if niv * SIZEOF_SETTINGS_ENTRY = 0 then Inr (None, m)
      else
        (case nghttp2_mem_malloc (niv * SIZEOF_SETTINGS_ENTRY) m of
           (None, m1) \<Rightarrow> Inr (None, m1)
         | (Some _, m1) \<Rightarrow> res_bind (arr_take iv niv) (\<lambda>es. Inr (Some es, m1))))"

definition NGHTTP2_SETTINGS_HEADER_TABLE_SIZE :: int where "NGHTTP2_SETTINGS_HEADER_TABLE_SIZE = 1"
definition NGHTTP2_SETTINGS_ENABLE_PUSH :: int where "NGHTTP2_SETTINGS_ENABLE_PUSH = 2"
definition NGHTTP2_SETTINGS_MAX_CONCURRENT_STREAMS :: int where "NGHTTP2_SETTINGS_MAX_CONCURRENT_STREAMS = 3"
definition NGHTTP2_SETTINGS_INITIAL_WINDOW_SIZE :: int where "NGHTTP2_SETTINGS_INITIAL_WINDOW_SIZE = 4"
definition NGHTTP2_SETTINGS_MAX_FRAME_SIZE :: int where "NGHTTP2_SETTINGS_MAX_FRAME_SIZE = 5"
definition NGHTTP2_SETTINGS_MAX_HEADER_LIST_SIZE :: int where "NGHTTP2_SETTINGS_MAX_HEADER_LIST_SIZE = 6"
definition NGHTTP2_SETTINGS_ENABLE_CONNECT_PROTOCOL :: int where "NGHTTP2_SETTINGS_ENABLE_CONNECT_PROTOCOL = 8"
definition NGHTTP2_SETTINGS_NO_RFC7540_PRIORITIES :: int where "NGHTTP2_SETTINGS_NO_RFC7540_PRIORITIES = 9"
definition NGHTTP2_MAX_FRAME_SIZE_MIN :: "32 word" where "NGHTTP2_MAX_FRAME_SIZE_MIN = 16384"
definition NGHTTP2_MAX_FRAME_SIZE_MAX :: "32 word" where "NGHTTP2_MAX_FRAME_SIZE_MAX = 16777215"

lemmas settings_id_defs = NGHTTP2_SETTINGS_HEADER_TABLE_SIZE_def NGHTTP2_SETTINGS_ENABLE_PUSH_def
  NGHTTP2_SETTINGS_MAX_CONCURRENT_STREAMS_def NGHTTP2_SETTINGS_INITIAL_WINDOW_SIZE_def
  NGHTTP2_SETTINGS_MAX_FRAME_SIZE_def NGHTTP2_SETTINGS_MAX_HEADER_LIST_SIZE_def
  NGHTTP2_SETTINGS_ENABLE_CONNECT_PROTOCOL_def NGHTTP2_SETTINGS_NO_RFC7540_PRIORITIES_def
  NGHTTP2_MAX_FRAME_SIZE_MIN_def NGHTTP2_MAX_FRAME_SIZE_MAX_def

text \<open>The switch of the check: each case either leaves the loop with 0 or goes on.\<close>

fun nghttp2_iv_check :: "nghttp2_settings_entry list \<Rightarrow> bool" where
  "nghttp2_iv_check [] = True"
| "nghttp2_iv_check (e # es) =
     (let i = settings_id e; v = settings_value e
      in if i = NGHTTP2_SETTINGS_HEADER_TABLE_SIZE then nghttp2_iv_check es
         else if i = NGHTTP2_SETTINGS_MAX_CONCURRENT_STREAMS then nghttp2_iv_check es
         else if i = NGHTTP2_SETTINGS_ENABLE_PUSH then
           (if v \<noteq> 0 \<and> v \<noteq> 1 then False else nghttp2_iv_check es)
         else if i = NGHTTP2_SETTINGS_INITIAL_WINDOW_SIZE then
           (if 0x7FFFFFFF < v then False else nghttp2_iv_check es)
         else if i = NGHTTP2_SETTINGS_MAX_FRAME_SIZE then
           (if v < NGHTTP2_MAX_FRAME_SIZE_MIN \<or> NGHTTP2_MAX_FRAME_SIZE_MAX < v then False else nghttp2_iv_check es)
         else if i = NGHTTP2_SETTINGS_MAX_HEADER_LIST_SIZE then nghttp2_iv_check es
         else if i = NGHTTP2_SETTINGS_ENABLE_CONNECT_PROTOCOL then
           (if v \<noteq> 0 \<and> v \<noteq> 1 then False else nghttp2_iv_check es)
         else if i = NGHTTP2_SETTINGS_NO_RFC7540_PRIORITIES then
           (if v \<noteq> 0 \<and> v \<noteq> 1 then False else nghttp2_iv_check es)
         else nghttp2_iv_check es)"

subsection \<open>GOAWAY\<close>

record nghttp2_goaway =
  goaway_hd :: nghttp2_frame_hd
  goaway_last_stream_id :: int
  goaway_error_code :: "32 word"
  goaway_opaque_data :: "bytes option"
  goaway_opaque_data_len :: nat
  goaway_reserved :: byte

definition nghttp2_frame_goaway_init :: "int \<Rightarrow> 32 word \<Rightarrow> bytes option \<Rightarrow> nat \<Rightarrow> nghttp2_goaway" where
  "nghttp2_frame_goaway_init last_stream_id code opq len =
     \<lparr>goaway_hd = nghttp2_frame_hd_init (8 + len) NGHTTP2_GOAWAY NGHTTP2_FLAG_NONE 0,
      goaway_last_stream_id = last_stream_id, goaway_error_code = code,
      goaway_opaque_data = opq, goaway_opaque_data_len = len, goaway_reserved = 0\<rparr>"

definition nghttp2_frame_goaway_free :: "nghttp2_goaway \<Rightarrow> memory \<Rightarrow> memory" where
  "nghttp2_frame_goaway_free frame m = nghttp2_mem_free (goaway_opaque_data frame) m"

definition nghttp2_frame_pack_goaway ::
  "nghttp2_bufs \<Rightarrow> nghttp2_goaway \<Rightarrow> memory \<Rightarrow> (int \<times> nghttp2_bufs \<times> memory) res" where
  "nghttp2_frame_pack_goaway bufs frame m =
     res_bind (c_assert (bufs_cur bufs = 0)) (\<lambda>_.
     res_bind (bufs_first bufs) (\<lambda>buf.
     res_bind (put_frame_hd buf (goaway_hd frame)) (\<lambda>buf1.
     res_bind (put_last buf1 (nghttp2_put_uint32be (word_of_int (goaway_last_stream_id frame)))) (\<lambda>buf2.
     res_bind (put_last buf2 (nghttp2_put_uint32be (goaway_error_code frame))) (\<lambda>buf3.
     res_bind (arr_take (goaway_opaque_data frame) (goaway_opaque_data_len frame)) (\<lambda>d.
     res_bind (nghttp2_bufs_add (bufs_set_first bufs buf3) d m) (\<lambda>(rv, bufs1, m1).
     if rv = NGHTTP2_ERR_BUFFER_ERROR then Inr (NGHTTP2_ERR_FRAME_SIZE_ERROR, bufs1, m1)
     else if rv \<noteq> 0 then Inr (rv, bufs1, m1)
     else Inr (0, bufs1, m1))))))))"

definition nghttp2_frame_unpack_goaway_payload ::
  "nghttp2_goaway \<Rightarrow> bytes \<Rightarrow> bytes option \<Rightarrow> nat \<Rightarrow> nghttp2_goaway res" where
  "nghttp2_frame_unpack_goaway_payload frame payload var_gift len =
     res_bind (nghttp2_get_uint32 payload) (\<lambda>sid.
     res_bind (nghttp2_get_uint32 (drop 4 payload)) (\<lambda>code.
     Inr (frame\<lparr>goaway_last_stream_id := masked_id sid, goaway_error_code := code,
       goaway_opaque_data := var_gift, goaway_opaque_data_len := len\<rparr>)))"

definition nghttp2_frame_unpack_goaway_payload2 ::
  "nghttp2_goaway \<Rightarrow> bytes \<Rightarrow> nat \<Rightarrow> memory \<Rightarrow> (int \<times> nghttp2_goaway \<times> memory) res" where
  "nghttp2_frame_unpack_goaway_payload2 frame payload payloadlen m =
     (let len = (if 8 < payloadlen then payloadlen - 8 else 0)
      in if len = 0 then
           res_bind (nghttp2_frame_unpack_goaway_payload frame payload None len) (\<lambda>f. Inr (0, f, m))
         else
           (case nghttp2_mem_malloc len m of
              (None, m1) \<Rightarrow> Inr (NGHTTP2_ERR_NOMEM, frame, m1)
            | (Some _, m1) \<Rightarrow>
                res_bind (rd payload 8 len) (\<lambda>d.
                res_bind (nghttp2_frame_unpack_goaway_payload frame payload (Some d) len) (\<lambda>f. Inr (0, f, m1)))))"

section \<open>Codecs\<close>

text \<open>
  The contract of a pair of routines that write a value as bytes and read it back from the
  front of a longer input.
\<close>

locale codec =
  fixes enc :: "'a \<Rightarrow> bytes" and dec :: "bytes \<Rightarrow> 'a res" and ok :: "'a \<Rightarrow> bool"
  assumes dec_enc: "ok x \<Longrightarrow> dec (enc x @ r) = Inr x"
begin

lemma unambiguous:
  assumes "ok x" and "ok y" and "enc x @ r = enc y @ s"
  shows "x = y \<and> r = s"
  using assms dec_enc [of x r] dec_enc [of y s] by auto

lemma dec_enc_exact: "ok x \<Longrightarrow> dec (enc x) = Inr x"
  using dec_enc [of x "[]"] by simp

end

text \<open>Reading \<open>n\<close> values of a fixed width one after the other.\<close>

fun decode_n :: "(bytes \<Rightarrow> 'a res) \<Rightarrow> nat \<Rightarrow> nat \<Rightarrow> bytes \<Rightarrow> 'a list res" where
  "decode_n dec w 0 bs = Inr []"
| "decode_n dec w (Suc n) bs = res_bind (dec bs) (\<lambda>x. res_bind (decode_n dec w n (drop w bs)) (\<lambda>xs. Inr (x # xs)))"

locale fixed_codec = codec +
  fixes width :: nat
  assumes enc_width: "length (enc x) = width"
begin

lemma decode_n_concat:
  "list_all ok xs \<Longrightarrow> decode_n dec width (length xs) (concat (map enc xs) @ r) = Inr xs"
  by (induction xs) (simp_all add: dec_enc enc_width)

lemma concat_length: "length (concat (map enc xs)) = width * length xs"
  by (induction xs) (simp_all add: enc_width)

end

definition hd_ok :: "nghttp2_frame_hd \<Rightarrow> bool" where
  "hd_ok h \<longleftrightarrow> hd_length h < 2 ^ 24 \<and> 0 \<le> hd_stream_id h \<and> hd_stream_id h < 2 ^ 31 \<and> hd_reserved h = 0"

interpretation frame_hd: fixed_codec nghttp2_frame_pack_frame_hd nghttp2_frame_unpack_frame_hd hd_ok 9
  by unfold_locales (auto simp: hd_roundtrip hd_ok_def)

definition priority_spec_ok :: "nghttp2_priority_spec \<Rightarrow> bool" where
  "priority_spec_ok p \<longleftrightarrow> 0 \<le> pri_stream_id p \<and> pri_stream_id p < 2 ^ 31 \<and>
     NGHTTP2_MIN_WEIGHT \<le> pri_weight p \<and> pri_weight p \<le> NGHTTP2_MAX_WEIGHT \<and>
     (pri_exclusive p = 0 \<or> pri_exclusive p = 1)"

lemma stream_id_top_bit:
  assumes "0 \<le> n" and "n < 2 ^ 31"
  shows "\<not> bit (word_of_int n :: 32 word) 31"
proof -
  have "take_bit 31 n = n" using assms by (simp add: take_bit_int_eq_self)
  then have "\<not> bit n 31" by (metis bit_take_bit_iff order_less_irrefl)
  then show ?thesis by (simp add: bit_word_of_int_iff)
qed

lemma top_byte_bit: "bit (ucast (drop_bit 24 w) :: byte) 7 = bit (w :: 32 word) 31"
  by (simp add: bit_simps)

lemma and80_iff: "(b :: byte) AND 0x80 \<noteq> 0 \<longleftrightarrow> bit b 7"
proof
  assume "b AND 0x80 \<noteq> 0"
  then obtain n where "bit (b AND 0x80) n" by (metis bit_eqI bit_0_eq bot_apply bot_bool_def)
  then show "bit b 7" unfolding bit_and_iff bit_80 by auto
next
  assume "bit b 7"
  then have "bit (b AND 0x80) 7" unfolding bit_and_iff bit_80 by simp
  then show "b AND 0x80 \<noteq> 0" by auto
qed

lemma masked_or80:
  "nghttp2_get_uint32 (a # b # c # d # r) = Inr w \<Longrightarrow>
   \<exists>w'. nghttp2_get_uint32 ((a OR 0x80) # b # c # d # r) = Inr w' \<and> masked_id w' = masked_id w"
proof -
  assume w: "nghttp2_get_uint32 (a # b # c # d # r) = Inr w"
  have "(push_bit 24 (ucast (a OR 0x80)) OR push_bit 16 (ucast b) OR push_bit 8 (ucast c) OR ucast d) AND 0x7FFFFFFF
      = (w AND 0x7FFFFFFF :: 32 word)"
    using w unfolding nghttp2_get_uint32.simps sum.inject mask31
    by (intro bit_word_eqI)
      (auto simp: bit_take_bit_iff bit_or_iff bit_push_bit_iff bit_ucast_iff bit_128)
  then show ?thesis by (simp add: masked_id_def NGHTTP2_STREAM_ID_MASK_def)
qed


lemma put32_cons: "\<exists>a b c d. nghttp2_put_uint32be w = [a, b, c, d] \<and> a = ucast (drop_bit 24 w)"
  by (simp add: nghttp2_put_uint32be_def)

lemma weight_byte: "1 \<le> w \<Longrightarrow> w \<le> 256 \<Longrightarrow> uint (word_of_int (w - 1) :: byte) + 1 = w"
  unfolding uint_word_of_int_eq by (simp add: take_bit_int_eq_self)

lemma priority_spec_roundtrip:
  assumes "priority_spec_ok p"
  shows "nghttp2_frame_unpack_priority_spec (nghttp2_frame_pack_priority_spec p @ r) = Inr p"
proof -
  let ?w = "word_of_int (pri_stream_id p) :: 32 word"
  obtain a b c d where put: "nghttp2_put_uint32be ?w = [a, b, c, d]" and a: "a = ucast (drop_bit 24 ?w)"
    using put32_cons by blast
  have sid: "0 \<le> pri_stream_id p" "pri_stream_id p < 2 ^ 31" and w: "1 \<le> pri_weight p" "pri_weight p \<le> 256"
    and ex: "pri_exclusive p = 0 \<or> pri_exclusive p = 1"
    using assms by (auto simp: priority_spec_ok_def weight_defs)
  have a7: "\<not> bit a 7" unfolding a top_byte_bit by (rule stream_id_top_bit [OF sid])
  have get: "nghttp2_get_uint32 (a # b # c # d # s) = Inr ?w" for s
    using get_put_uint32 [of ?w s] by (simp add: put del: nghttp2_get_uint32.simps)
  note defs = nghttp2_frame_unpack_priority_spec_def nghttp2_frame_pack_priority_spec_def put
    byte_at_def nghttp2_priority_spec_init_def Let_def
  show ?thesis
  proof (cases "pri_exclusive p = 0")
    case True
    have "a AND 0x80 = 0" using a7 and80_iff by blast
    then show ?thesis
      using True w sid weight_byte [OF w] by (simp add: defs get del: nghttp2_get_uint32.simps)
  next
    case False
    obtain w' where w': "nghttp2_get_uint32 ((a OR 0x80) # b # c # d # word_of_int (pri_weight p - 1) # r) = Inr w'"
        "masked_id w' = masked_id ?w"
      using masked_or80 [OF get] by blast
    have "bit (a OR 0x80) 7" unfolding bit_or_iff bit_80 by simp
    then have "(a OR 0x80) AND 0x80 \<noteq> 0" using and80_iff by blast
    then show ?thesis
      using False ex w sid weight_byte [OF w] w' by (simp add: defs del: nghttp2_get_uint32.simps)
  qed
qed

lemma pack_priority_spec_length [simp]: "length (nghttp2_frame_pack_priority_spec p) = 5"
  by (simp add: nghttp2_frame_pack_priority_spec_def Let_def)

interpretation priority_codec: fixed_codec nghttp2_frame_pack_priority_spec nghttp2_frame_unpack_priority_spec
  priority_spec_ok 5
  by unfold_locales (auto simp: priority_spec_roundtrip)

definition pack_entry :: "nghttp2_settings_entry \<Rightarrow> bytes" where
  "pack_entry e = nghttp2_put_uint16be (word_of_int (settings_id e)) @ nghttp2_put_uint32be (settings_value e)"

definition entry_ok :: "nghttp2_settings_entry \<Rightarrow> bool" where
  "entry_ok e \<longleftrightarrow> 0 \<le> settings_id e \<and> settings_id e < 2 ^ 16"

lemma entry_roundtrip:
  assumes "entry_ok e"
  shows "nghttp2_frame_unpack_settings_entry (pack_entry e @ r) = Inr e"
proof -
  have "uint (word_of_int (settings_id e) :: 16 word) = settings_id e"
    using assms by (simp add: entry_ok_def uint_word_of_int take_bit_int_eq_self)
  then show ?thesis
    by (simp add: nghttp2_frame_unpack_settings_entry_def pack_entry_def del: nghttp2_get_uint16.simps nghttp2_get_uint32.simps)
qed

interpretation entry_codec: fixed_codec pack_entry nghttp2_frame_unpack_settings_entry entry_ok 6
  by unfold_locales (auto simp: entry_roundtrip, simp add: pack_entry_def)

lemma pack_entries_concat: "pack_entries es = concat (map pack_entry es)"
  by (induction es) (simp_all add: pack_entry_def)

lemma unpack_entries_decode: "unpack_entries n bs = decode_n nghttp2_frame_unpack_settings_entry 6 n bs"
  by (induction n arbitrary: bs) (simp_all add: NGHTTP2_FRAME_SETTINGS_ENTRY_LENGTH_def)

section \<open>A packed frame is its header and its payload\<close>

text \<open>
  A chain ready to take a frame: nothing in it, the current chunk is the first, and there is
  room for the frame header in front of the position.
\<close>

definition frame_ready :: "nghttp2_bufs \<Rightarrow> bool" where
  "frame_ready b \<longleftrightarrow> bufs_wf b \<and> bufs_cur b = 0 \<and>
     buf_pos (bufs_head b ! 0) = buf_last (bufs_head b ! 0) \<and> NGHTTP2_FRAME_HDLEN \<le> buf_pos (bufs_head b ! 0)"

definition first_room :: "nghttp2_bufs \<Rightarrow> nat" where
  "first_room b = nghttp2_buf_avail (bufs_head b ! 0)"

text \<open>What a chain holds after a frame was packed.\<close>

definition frame_in :: "nghttp2_bufs \<Rightarrow> nghttp2_frame_hd \<Rightarrow> bytes \<Rightarrow> nghttp2_bufs \<Rightarrow> bool" where
  "frame_in b h d b' \<longleftrightarrow> bufs_wf b' \<and> bufs_content b' = nghttp2_frame_pack_frame_hd h @ d \<and>
     bufs_blocks b' = bufs_blocks b \<and> bufs_cur b' = 0"

lemma frame_readyE:
  assumes "frame_ready b"
  obtains c where "bufs_first b = Inr c" and "bufs_head b ! 0 = c" and "bufs_wf b" and "buf_wf c"
    and "buf_pos c = buf_last c" and "9 \<le> buf_pos c" and "bufs_cur b = 0" and "bufs_content b = []"
    and "first_room b = nghttp2_buf_cap c - buf_last c"
proof -
  have wf: "bufs_wf b" using assms by (simp add: frame_ready_def)
  then obtain c cs where h: "bufs_head b = c # cs" by (cases "bufs_head b") (auto simp: bufs_wf_def)
  have "bufs_content b = []"
    using split_at_cur [OF wf] assms h by (simp add: frame_ready_def buf_data_Nil)
  then show ?thesis
    using assms wf h
    by (intro that [of c]) (auto simp: frame_ready_def bufs_first_def bufs_wf_def frame_len_defs first_room_def)
qed

lemma put_frame_hd_ok:
  assumes "buf_wf c" and "9 \<le> buf_pos c"
  obtains c' where "put_frame_hd c h = Inr c'" and "buf_wf c'" and "buf_data c' = nghttp2_frame_pack_frame_hd h @ buf_data c"
    and "nghttp2_buf_cap c' = nghttp2_buf_cap c" and "buf_last c' = buf_last c" and "chain_blocks c' = chain_blocks c"
    and "buf_pos c' = buf_pos c - 9"
proof -
  let ?p = "buf_pos c - 9" and ?h = "nghttp2_frame_pack_frame_hd h" and ?s = "buf_store c"
  have pos: "9 \<le> buf_pos c" "buf_pos c \<le> buf_last c" "buf_last c \<le> length ?s"
    using assms by (auto simp: buf_wf_def nghttp2_buf_cap_def)
  have blk: "buf_block c \<noteq> None" using pos by (auto simp: buf_store_def split: option.splits)
  let ?c = "c\<lparr>buf_pos := ?p, buf_block := Some (take ?p ?s @ ?h @ drop (buf_pos c) ?s)\<rparr>"
  have st: "buf_store (c\<lparr>buf_pos := x\<rparr>) = ?s" for x by (simp add: buf_store_def)
  have put: "put_frame_hd c h = Inr ?c"
    using pos by (simp add: put_frame_hd_def frame_len_defs buf_poke_def wr_def st Let_def)
  have st': "buf_store ?c = take ?p ?s @ ?h @ drop (buf_pos c) ?s" by (simp add: buf_store_def)
  have dat: "buf_data ?c = ?h @ buf_data c"
  proof -
    have "buf_last c - ?p = 9 + (buf_last c - buf_pos c)" using pos by simp
    then show ?thesis unfolding buf_data_def st' using pos by simp
  qed
  show ?thesis
    by (rule that [OF put]) (use pos blk dat in \<open>auto simp: buf_wf_def nghttp2_buf_cap_def st' chain_blocks_def\<close>)
qed

lemma put_last_cpy:
  assumes "buf_last c + length d \<le> nghttp2_buf_cap c" and "d \<noteq> []"
  shows "put_last c d = buf_cpy c d"
  using assms by (simp add: put_last_def buf_poke_def buf_cpy_def nghttp2_cpymem_def wr_def nghttp2_buf_cap_def)

lemma set_first_cur: "bufs_cur b = 0 \<Longrightarrow> bufs_set_first b c = bufs_set_cur b c"
  by (simp add: bufs_set_first_def bufs_set_cur_def)

text \<open>The common shape of the frames that fit into the first chunk.\<close>

lemma pack_frame:
  assumes "frame_ready b" and "length d \<le> first_room b"
  obtains c c1 c2 where "bufs_first b = Inr c" and "nghttp2_buf_avail c = first_room b"
    and "put_frame_hd c h = Inr c1" and "buf_cpy c1 d = Inr c2" and "d \<noteq> [] \<Longrightarrow> put_last c1 d = Inr c2"
    and "frame_in b h d (bufs_set_first b c2)"
proof -
  obtain c where c: "bufs_first b = Inr c" "bufs_head b ! 0 = c" "bufs_wf b" "buf_wf c" "buf_pos c = buf_last c"
      "9 \<le> buf_pos c" "bufs_cur b = 0" "bufs_content b = []" "first_room b = nghttp2_buf_cap c - buf_last c"
    using frame_readyE [OF assms(1)] by metis
  have le: "buf_last c \<le> nghttp2_buf_cap c" using c(4) by (simp add: buf_wf_def)
  obtain c1 where c1: "put_frame_hd c h = Inr c1" "buf_wf c1" "buf_data c1 = nghttp2_frame_pack_frame_hd h @ buf_data c"
      "nghttp2_buf_cap c1 = nghttp2_buf_cap c" "buf_last c1 = buf_last c" "chain_blocks c1 = chain_blocks c"
    using put_frame_hd_ok [OF c(4,6)] by metis
  have fit: "length d \<le> nghttp2_buf_cap c1 - buf_last c1" using assms(2) c(9) c1(4,5) by simp
  obtain c2 where c2: "buf_cpy c1 d = Inr c2" "buf_wf c2" "buf_data c2 = buf_data c1 @ d"
      "nghttp2_buf_cap c2 = nghttp2_buf_cap c1" "chain_blocks c2 = chain_blocks c1"
    by (rule buf_cpy_wf [OF c1(2) fit])
  have cur: "bufs_head b ! bufs_cur b = c" using c(2,7) by simp
  have "buf_data c2 = buf_data (bufs_head b ! bufs_cur b) @ (nghttp2_frame_pack_frame_hd h @ d)"
    using c2(3) c1(3) cur buf_data_Nil [OF c(5)] by simp
  moreover have "nghttp2_buf_cap c2 = nghttp2_buf_cap (bufs_head b ! bufs_cur b)"
    "chain_blocks c2 = chain_blocks (bufs_head b ! bufs_cur b)"
    using cur c1(4,6) c2(4,5) by simp_all
  note set = set_curE [OF c(3) c2(2) this]
  ultimately have "frame_in b h d (bufs_set_cur b c2)"
    using set(1,2) set(3) [of "nghttp2_frame_pack_frame_hd h @ d"] c(7,8)
    by (simp add: frame_in_def bufs_set_cur_def)
  moreover have "put_last c1 d = Inr c2" if "d \<noteq> []"
    using put_last_cpy [OF _ that, of c1] fit le c1(4,5) c2(1) by simp
  ultimately show ?thesis
    using that [OF c(1) _ c1(1) c2(1)] set_first_cur [OF c(7)] c(4,9) by simp
qed

lemma c_assert_True [simp]: "c_assert True = Inr ()"
  by (simp add: c_assert_def)

lemma frame_ready_cur: "frame_ready b \<Longrightarrow> bufs_cur b = 0"
  by (simp add: frame_ready_def)

lemma pack_priority_in:
  assumes "frame_ready b" and "5 \<le> first_room b"
  shows "\<exists>b'. nghttp2_frame_pack_priority b f = Inr (0, b') \<and>
    frame_in b (priority_hd f) (nghttp2_frame_pack_priority_spec (priority_spec f)) b'"
  by (rule pack_frame [OF assms(1), of "nghttp2_frame_pack_priority_spec (priority_spec f)" "priority_hd f"])
    (use assms frame_ready_cur [OF assms(1)] in
      \<open>auto simp: nghttp2_frame_pack_priority_def frame_len_defs c_assert_def nghttp2_frame_pack_priority_spec_def Let_def\<close>)

lemma pack_rst_in:
  assumes "frame_ready b" and "4 \<le> first_room b"
  shows "\<exists>b'. nghttp2_frame_pack_rst_stream b f = Inr (0, b') \<and>
    frame_in b (rst_hd f) (nghttp2_put_uint32be (rst_error_code f)) b'"
  by (rule pack_frame [OF assms(1), of "nghttp2_put_uint32be (rst_error_code f)" "rst_hd f"])
    (use assms frame_ready_cur [OF assms(1)] in
      \<open>auto simp: nghttp2_frame_pack_rst_stream_def c_assert_def nghttp2_put_uint32be_def\<close>)

lemma pack_window_update_in:
  assumes "frame_ready b" and "4 \<le> first_room b"
  shows "\<exists>b'. nghttp2_frame_pack_window_update b f = Inr (0, b') \<and>
    frame_in b (wu_hd f) (nghttp2_put_uint32be (word_of_int (wu_increment f))) b'"
  by (rule pack_frame [OF assms(1), of "nghttp2_put_uint32be (word_of_int (wu_increment f))" "wu_hd f"])
    (use assms frame_ready_cur [OF assms(1)] in
      \<open>auto simp: nghttp2_frame_pack_window_update_def c_assert_def nghttp2_put_uint32be_def\<close>)

lemma pack_ping_in:
  assumes "frame_ready b" and "8 \<le> first_room b" and "length (ping_opaque_data f) = 8"
  shows "\<exists>b'. nghttp2_frame_pack_ping b f = Inr (0, b') \<and> frame_in b (ping_hd f) (ping_opaque_data f) b'"
  by (rule pack_frame [OF assms(1), of "ping_opaque_data f" "ping_hd f"])
    (use assms frame_ready_cur [OF assms(1)] in \<open>auto simp: nghttp2_frame_pack_ping_def c_assert_def\<close>)

lemma pack_settings_in:
  assumes "frame_ready b" and "6 * settings_niv f \<le> first_room b" and "hd_length (settings_hd f) \<le> first_room b"
    and "arr_take (settings_iv f) (settings_niv f) = Inr es" and "length es = settings_niv f"
  shows "\<exists>b'. nghttp2_frame_pack_settings b f = Inr (0, b') \<and> frame_in b (settings_hd f) (pack_entries es) b'"
proof -
  have len: "length (pack_entries es) = 6 * settings_niv f"
    unfolding pack_entries_concat entry_codec.concat_length using assms(5) by simp
  show ?thesis
    by (rule pack_frame [OF assms(1), of "pack_entries es" "settings_hd f"])
      (use assms len frame_ready_cur [OF assms(1)] in
        \<open>auto simp: nghttp2_frame_pack_settings_def nghttp2_frame_pack_settings_payload_def c_assert_def\<close>)
qed

section \<open>Round trips\<close>

text \<open>
  A receiver that reads nine bytes of header and the payload from a packed frame gets the
  frame back.
\<close>

definition frame_payload :: "nghttp2_bufs \<Rightarrow> (nghttp2_frame_hd \<times> bytes) res" where
  "frame_payload b =
     res_bind (nghttp2_frame_unpack_frame_hd (bufs_content b)) (\<lambda>h. Inr (h, drop 9 (bufs_content b)))"

lemma frame_payload_in:
  assumes "frame_in b h d b'" and "hd_ok h"
  shows "frame_payload b' = Inr (h, d)"
  using assms frame_hd.dec_enc [of h d] by (simp add: frame_payload_def frame_in_def)

text \<open>
  Header: every header in range survives, and reading clears the reserved bit only.
\<close>

theorem frame_hd_roundtrip:
  assumes "hd_length h < 2 ^ 24" and "0 \<le> hd_stream_id h" and "hd_stream_id h < 2 ^ 31"
  shows "nghttp2_frame_unpack_frame_hd (nghttp2_frame_pack_frame_hd h @ r) = Inr (h\<lparr>hd_reserved := 0\<rparr>) \<and>
    length (nghttp2_frame_pack_frame_hd h) = 9"
  using hd_roundtrip [OF assms] by simp

theorem frame_hd_roundtrip_witness:
  "nghttp2_frame_unpack_frame_hd (nghttp2_frame_pack_frame_hd (nghttp2_frame_hd_init 70000 NGHTTP2_DATA NGHTTP2_FLAG_END_STREAM 7)
     @ [1, 2]) = Inr (nghttp2_frame_hd_init 70000 NGHTTP2_DATA NGHTTP2_FLAG_END_STREAM 7)"
  using frame_hd_roundtrip [of "nghttp2_frame_hd_init 70000 NGHTTP2_DATA NGHTTP2_FLAG_END_STREAM 7" "[1, 2]"]
  by (simp add: nghttp2_frame_hd_init_def)

text \<open>
  A packed PRIORITY frame is read back with its dependency, weight and exclusive flag.
\<close>

theorem priority_frame_roundtrip:
  assumes "frame_ready b" and "5 \<le> first_room b" and "priority_spec_ok p" and "0 \<le> sid" and "sid < 2 ^ 31"
  shows "\<exists>b' h payload. nghttp2_frame_pack_priority b (nghttp2_frame_priority_init sid p) = Inr (0, b') \<and>
    frame_payload b' = Inr (h, payload) \<and> h = nghttp2_frame_hd_init 5 NGHTTP2_PRIORITY NGHTTP2_FLAG_NONE sid \<and>
    length payload = hd_length h \<and>
    nghttp2_frame_unpack_priority_payload \<lparr>priority_hd = h, priority_spec = q\<rparr> payload =
      Inr (nghttp2_frame_priority_init sid p)"
proof -
  let ?f = "nghttp2_frame_priority_init sid p"
  obtain b' where b': "nghttp2_frame_pack_priority b ?f = Inr (0, b')"
      "frame_in b (priority_hd ?f) (nghttp2_frame_pack_priority_spec p) b'"
    using pack_priority_in [OF assms(1,2), of ?f] by (auto simp: nghttp2_frame_priority_init_def)
  have "hd_ok (priority_hd ?f)"
    using assms(4,5) by (simp add: hd_ok_def nghttp2_frame_priority_init_def nghttp2_frame_hd_init_def frame_len_defs)
  then show ?thesis
    using b'(1) frame_payload_in [OF b'(2)] priority_codec.dec_enc_exact [OF assms(3)]
    by (simp add: nghttp2_frame_unpack_priority_payload_def nghttp2_frame_priority_init_def
        nghttp2_frame_hd_init_def frame_len_defs)
qed

text \<open>A chain of one chunk with room for a frame header and 64 bytes.\<close>

definition frame_bufs :: nghttp2_bufs where
  "frame_bufs = \<lparr>bufs_head = [\<lparr>buf_block = Some (replicate 74 0), buf_pos = 10, buf_last = 10, buf_mark = 0\<rparr>],
     bufs_cur = 0, bufs_chunk_length = 74, bufs_max_chunk = 1, bufs_chunk_used = 1, bufs_chunk_keep = 1,
     bufs_offset = 10\<rparr>"

lemma frame_bufs_ready: "frame_ready frame_bufs" "first_room frame_bufs = 64"
  by code_simp+

theorem priority_frame_roundtrip_witness:
  "\<exists>b' h payload. nghttp2_frame_pack_priority frame_bufs
       (nghttp2_frame_priority_init 3 (nghttp2_priority_spec_init 1 256 1)) = Inr (0, b') \<and>
     frame_payload b' = Inr (h, payload) \<and> length payload = 5"
proof -
  have ok: "priority_spec_ok (nghttp2_priority_spec_init 1 256 1)" by code_simp
  show ?thesis
    using priority_frame_roundtrip [OF frame_bufs_ready(1) _ ok, of 3] frame_bufs_ready(2)
    by (fastforce simp: nghttp2_frame_hd_init_def)
qed

text \<open>
  C32. A packed SETTINGS frame is read back with its header and all its entries.
\<close>

theorem settings_frame_roundtrip:
  assumes "frame_ready b" and "6 * length es \<le> first_room b" and "6 * length es < 2 ^ 24"
    and "list_all entry_ok es" and "mem_answers m = Some g # ans"
  shows "\<exists>b' h payload m'.
    nghttp2_frame_pack_settings b (nghttp2_frame_settings_init flags (Some es) (length es)) = Inr (0, b') \<and>
    frame_payload b' = Inr (h, payload) \<and>
    h = nghttp2_frame_hd_init (6 * length es) NGHTTP2_SETTINGS flags 0 \<and> length payload = hd_length h \<and>
    nghttp2_frame_unpack_settings_payload2 payload (length payload) m =
      Inr (0, if es = [] then None else Some es, length es, m')"
proof -
  let ?f = "nghttp2_frame_settings_init flags (Some es) (length es)"
  have take: "arr_take (settings_iv ?f) (settings_niv ?f) = Inr es"
    by (simp add: arr_take_def nghttp2_frame_settings_init_def)
  obtain b' where b': "nghttp2_frame_pack_settings b ?f = Inr (0, b')"
      "frame_in b (settings_hd ?f) (pack_entries es) b'"
    using pack_settings_in [OF assms(1) _ _ take] assms(2)
    by (auto simp: nghttp2_frame_settings_init_def nghttp2_frame_hd_init_def frame_len_defs mult.commute)
  have h: "settings_hd ?f = nghttp2_frame_hd_init (6 * length es) NGHTTP2_SETTINGS flags 0"
    by (simp add: nghttp2_frame_settings_init_def frame_len_defs mult.commute)
  have "hd_ok (settings_hd ?f)"
    unfolding h using assms(3) by (simp add: hd_ok_def nghttp2_frame_hd_init_def)
  then have pay: "frame_payload b' = Inr (settings_hd ?f, pack_entries es)"
    by (rule frame_payload_in [OF b'(2)])
  have len: "length (pack_entries es) = 6 * length es"
    unfolding pack_entries_concat by (rule entry_codec.concat_length)
  have "unpack_entries (length es) (pack_entries es) = Inr es"
    using entry_codec.decode_n_concat [OF assms(4), of "[]"] unfolding unpack_entries_decode pack_entries_concat by simp
  then have "\<exists>m'. nghttp2_frame_unpack_settings_payload2 (pack_entries es) (6 * length es) m =
      Inr (0, if es = [] then None else Some es, length es, m')"
    using assms(5) by (simp add: nghttp2_frame_unpack_settings_payload2_def Let_def frame_len_defs nghttp2_mem_malloc_def)
  then show ?thesis
    using b'(1) pay len unfolding h by (auto simp: nghttp2_frame_hd_init_def)
qed

definition two_settings :: "nghttp2_settings_entry list" where
  "two_settings = [\<lparr>settings_id = 3, settings_value = 100\<rparr>, \<lparr>settings_id = 4, settings_value = 65535\<rparr>]"

theorem settings_frame_roundtrip_witness:
  "\<exists>b' h payload m'.
     nghttp2_frame_pack_settings frame_bufs (nghttp2_frame_settings_init NGHTTP2_FLAG_NONE (Some two_settings) 2) = Inr (0, b') \<and>
     frame_payload b' = Inr (h, payload) \<and> length payload = 12 \<and>
     nghttp2_frame_unpack_settings_payload2 payload 12 two_blocks = Inr (0, Some two_settings, 2, m')"
proof -
  have ok: "list_all entry_ok two_settings" and len: "length two_settings = 2" and ne: "two_settings \<noteq> []"
    by code_simp+
  obtain g ans where m: "mem_answers two_blocks = Some g # ans" by (simp add: two_blocks_def)
  show ?thesis
    using settings_frame_roundtrip [OF frame_bufs_ready(1) _ _ ok m, of NGHTTP2_FLAG_NONE] len ne frame_bufs_ready(2)
    by (fastforce simp: nghttp2_frame_hd_init_def)
qed

section \<open>GOAWAY\<close>

lemma buf_cpy_append:
  assumes "buf_wf c" and "length d + length e \<le> nghttp2_buf_cap c - buf_last c"
  obtains c1 c2 where "buf_cpy c d = Inr c1" and "buf_cpy c1 e = Inr c2" and "buf_wf c2"
    and "buf_data c2 = buf_data c @ d @ e" and "nghttp2_buf_cap c2 = nghttp2_buf_cap c" and "chain_blocks c2 = chain_blocks c"
    and "buf_last c1 = buf_last c + length d" and "nghttp2_buf_cap c1 = nghttp2_buf_cap c"
proof -
  obtain c1 where c1: "buf_cpy c d = Inr c1" "buf_wf c1" "buf_data c1 = buf_data c @ d"
      "nghttp2_buf_cap c1 = nghttp2_buf_cap c" "buf_last c1 = buf_last c + length d" "chain_blocks c1 = chain_blocks c"
    by (rule buf_cpy_wf [OF assms(1), of d]) (use assms(2) in auto)
  obtain c2 where c2: "buf_cpy c1 e = Inr c2" "buf_wf c2" "buf_data c2 = buf_data c1 @ e"
      "nghttp2_buf_cap c2 = nghttp2_buf_cap c1" "chain_blocks c2 = chain_blocks c1"
    by (rule buf_cpy_wf [OF c1(2), of e]) (use assms(2) c1(4,5) in auto)
  show ?thesis by (rule that [OF c1(1) c2(1,2)]) (use c1 c2 in simp_all)
qed

text \<open>The header and the two fixed fields of a GOAWAY frame in the first chunk.\<close>

lemma pack_goaway_fixed:
  assumes "frame_ready b" and "8 \<le> first_room b"
  obtains c c1 c2 c3 where "bufs_first b = Inr c" and "put_frame_hd c h = Inr c1"
    and "put_last c1 (nghttp2_put_uint32be x) = Inr c2" and "put_last c2 (nghttp2_put_uint32be y) = Inr c3"
    and "bufs_wf (bufs_set_first b c3)"
    and "bufs_content (bufs_set_first b c3) = nghttp2_frame_pack_frame_hd h @ nghttp2_put_uint32be x @ nghttp2_put_uint32be y"
proof -
  obtain c where c: "bufs_first b = Inr c" "bufs_head b ! 0 = c" "bufs_wf b" "buf_wf c" "buf_pos c = buf_last c"
      "9 \<le> buf_pos c" "bufs_cur b = 0" "bufs_content b = []" "first_room b = nghttp2_buf_cap c - buf_last c"
    using frame_readyE [OF assms(1)] by metis
  have le: "buf_last c \<le> nghttp2_buf_cap c" using c(4) by (simp add: buf_wf_def)
  obtain c1 where c1: "put_frame_hd c h = Inr c1" "buf_wf c1" "buf_data c1 = nghttp2_frame_pack_frame_hd h @ buf_data c"
      "nghttp2_buf_cap c1 = nghttp2_buf_cap c" "buf_last c1 = buf_last c" "chain_blocks c1 = chain_blocks c"
    using put_frame_hd_ok [OF c(4,6)] by metis
  let ?x = "nghttp2_put_uint32be x" and ?y = "nghttp2_put_uint32be y"
  have ne: "?x \<noteq> []" "?y \<noteq> []" by (simp_all add: nghttp2_put_uint32be_def)
  obtain c2 c3 where c3: "buf_cpy c1 ?x = Inr c2" "buf_cpy c2 ?y = Inr c3" "buf_wf c3"
      "buf_data c3 = buf_data c1 @ ?x @ ?y" "nghttp2_buf_cap c3 = nghttp2_buf_cap c1" "chain_blocks c3 = chain_blocks c1"
      "buf_last c2 = buf_last c1 + length ?x" "nghttp2_buf_cap c2 = nghttp2_buf_cap c1"
    by (rule buf_cpy_append [OF c1(2), of ?x ?y]) (use assms(2) c(9) c1(4,5) in auto)
  have p: "put_last c1 ?x = Inr c2" "put_last c2 ?y = Inr c3"
    using put_last_cpy [OF _ ne(1), of c1] put_last_cpy [OF _ ne(2), of c2] c3 c1(4,5) le assms(2) c(9) by simp_all
  have cur: "bufs_head b ! bufs_cur b = c" using c(2,7) by simp
  have eqs: "nghttp2_buf_cap c3 = nghttp2_buf_cap (bufs_head b ! bufs_cur b)"
      "chain_blocks c3 = chain_blocks (bufs_head b ! bufs_cur b)"
    using cur c1(4,6) c3(5,6) by simp_all
  have dat: "buf_data c3 = buf_data (bufs_head b ! bufs_cur b) @ (nghttp2_frame_pack_frame_hd h @ ?x @ ?y)"
    using c3(4) c1(3) cur buf_data_Nil [OF c(5)] by simp
  show ?thesis
    using that [OF c(1) c1(1) p] set_curE(1) [OF c(3) c3(3) eqs] set_curE(3) [OF c(3) c3(3) eqs dat] c(8)
      set_first_cur [OF c(7)] by simp
qed

text \<open>
  A GOAWAY frame that was packed is read back with its debug data, however many chunks these
  take; a frame that does not fit is refused.
\<close>

theorem goaway_frame_roundtrip:
  assumes "frame_ready b" and "8 \<le> first_room b" and "length d + 8 < 2 ^ 24" and "0 \<le> last_id" and "last_id < 2 ^ 31"
    and "mem_answers m2 = Some g # ans"
  shows "\<exists>rv b' m'. nghttp2_frame_pack_goaway b (nghttp2_frame_goaway_init last_id code (Some d) (length d)) m = Inr (rv, b', m') \<and>
    (if rv = 0 then
       (\<exists>h payload m3. frame_payload b' = Inr (h, payload) \<and> hd_length h = length payload \<and> hd_type h = NGHTTP2_GOAWAY \<and>
         nghttp2_frame_unpack_goaway_payload2 (nghttp2_frame_goaway_init 0 0 None 0) payload (length payload) m2 =
           Inr (0, (nghttp2_frame_goaway_init 0 0 None 0)\<lparr>goaway_last_stream_id := last_id, goaway_error_code := code,
             goaway_opaque_data := (if d = [] then None else Some d), goaway_opaque_data_len := length d\<rparr>, m3))
     else rv = NGHTTP2_ERR_FRAME_SIZE_ERROR \<or> rv = NGHTTP2_ERR_NOMEM)"
proof -
  let ?f = "nghttp2_frame_goaway_init last_id code (Some d) (length d)"
  let ?x = "nghttp2_put_uint32be (word_of_int last_id)" and ?y = "nghttp2_put_uint32be code"
  let ?h = "nghttp2_frame_hd_init (8 + length d) NGHTTP2_GOAWAY NGHTTP2_FLAG_NONE 0"
  have cur: "bufs_cur b = 0" using assms(1) by (rule frame_ready_cur)
  have fields: "goaway_hd ?f = ?h" "goaway_last_stream_id ?f = last_id" "goaway_error_code ?f = code"
      "goaway_opaque_data ?f = Some d" "goaway_opaque_data_len ?f = length d"
    by (simp_all add: nghttp2_frame_goaway_init_def)
  obtain c c1 c2 c3 where s: "bufs_first b = Inr c" "put_frame_hd c ?h = Inr c1" "put_last c1 ?x = Inr c2"
      "put_last c2 ?y = Inr c3" "bufs_wf (bufs_set_first b c3)"
      "bufs_content (bufs_set_first b c3) = nghttp2_frame_pack_frame_hd ?h @ ?x @ ?y"
    by (rule pack_goaway_fixed [OF assms(1,2)])
  have tk: "arr_take (Some d) (length d) = Inr d" by (simp add: arr_take_def)
  obtain rv b' m' where add: "nghttp2_bufs_add (bufs_set_first b c3) d m = Inr (rv, b', m')"
      "appends (bufs_set_first b c3) m d rv b' m'"
    using bufs_add_total [OF s(5), of d m] by blast
  have pack: "nghttp2_frame_pack_goaway b ?f m =
      Inr (if rv = NGHTTP2_ERR_BUFFER_ERROR then NGHTTP2_ERR_FRAME_SIZE_ERROR else rv, b', m')"
    using cur by (simp add: nghttp2_frame_pack_goaway_def fields s tk add(1))
  show ?thesis
  proof (cases "rv = 0")
    case True
    let ?p = "?x @ ?y @ d"
    have content: "bufs_content b' = nghttp2_frame_pack_frame_hd ?h @ ?p"
      using add(2) s(6) True by (simp add: appends_def)
    have "hd_ok ?h" using assms(3) by (simp add: hd_ok_def nghttp2_frame_hd_init_def)
    then have pay: "frame_payload b' = Inr (?h, ?p)"
      using frame_hd.dec_enc [of ?h ?p] by (simp add: frame_payload_def content)
    have "nghttp2_get_uint32 ?p = Inr (word_of_int last_id)" "nghttp2_get_uint32 (drop 4 ?p) = Inr code"
      by simp_all
    then have "\<exists>m3. nghttp2_frame_unpack_goaway_payload2 (nghttp2_frame_goaway_init 0 0 None 0) ?p (length ?p) m2 =
           Inr (0, (nghttp2_frame_goaway_init 0 0 None 0)\<lparr>goaway_last_stream_id := last_id, goaway_error_code := code,
             goaway_opaque_data := (if d = [] then None else Some d), goaway_opaque_data_len := length d\<rparr>, m3)"
      using assms(4-6)
      by (auto simp: nghttp2_frame_unpack_goaway_payload2_def nghttp2_frame_unpack_goaway_payload_def Let_def
          nghttp2_mem_malloc_def rd_def)
    then show ?thesis
      using pack pay True by (auto simp: nghttp2_frame_hd_init_def)
  next
    case False
    then show ?thesis using pack add(2) by (auto simp: appends_def NGHTTP2_ERR_FRAME_SIZE_ERROR_def)
  qed
qed

theorem goaway_frame_roundtrip_witness:
  "\<exists>rv b' m'. nghttp2_frame_pack_goaway frame_bufs (nghttp2_frame_goaway_init 5 2 (Some [1, 2, 3]) (length [1, 2, 3 :: byte])) two_blocks = Inr (rv, b', m') \<and>
     (rv = 0 \<longrightarrow> (\<exists>h payload. frame_payload b' = Inr (h, payload) \<and> hd_type h = NGHTTP2_GOAWAY))"
proof -
  obtain g ans where m: "mem_answers two_blocks = Some g # ans" by (simp add: two_blocks_def)
  have room: "8 \<le> first_room frame_bufs" and len: "length [1, 2, 3 :: byte] + 8 < 2 ^ 24"
    and id: "0 \<le> (5 :: int)" "(5 :: int) < 2 ^ 31"
    using frame_bufs_ready(2) by simp_all
  show ?thesis
    using goaway_frame_roundtrip [OF frame_bufs_ready(1) room _ _ _ m, of "[1, 2, 3]" 5 2 two_blocks, OF len id]
    by meson
qed

section \<open>Validation of SETTINGS\<close>

definition setting_valid :: "nghttp2_settings_entry \<Rightarrow> bool" where
  "setting_valid e =
     (case settings_id e of
        i \<Rightarrow> if i \<in> {2, 8, 9} then unat (settings_value e) \<le> 1
             else if i = 4 then unat (settings_value e) \<le> 2 ^ 31 - 1
             else if i = 5 then 2 ^ 14 \<le> unat (settings_value e) \<and> unat (settings_value e) \<le> 2 ^ 24 - 1
             else True)"

lemma word_le_nat: "(v :: 32 word) \<le> w \<longleftrightarrow> unat v \<le> unat w"
  by (simp add: word_le_nat_alt)

lemma value01: "((v :: 32 word) \<noteq> 0 \<and> v \<noteq> 1) \<longleftrightarrow> 1 < unat v"
proof -
  have "unat v \<le> 1 \<longleftrightarrow> unat v = unat (0 :: 32 word) \<or> unat v = unat (1 :: 32 word)" by auto
  then show ?thesis unfolding word_unat_eq_iff by auto
qed

lemma value_range:
  "(0x7FFFFFFF :: 32 word) < v \<longleftrightarrow> 2147483647 < unat v"
  "v < (16384 :: 32 word) \<longleftrightarrow> unat v < 16384" "(16777215 :: 32 word) < v \<longleftrightarrow> 16777215 < unat v"
  by (simp_all add: word_less_nat_alt)

lemma iv_check_step: "nghttp2_iv_check (e # es) \<longleftrightarrow> setting_valid e \<and> nghttp2_iv_check es"
  unfolding nghttp2_iv_check.simps Let_def settings_id_defs setting_valid_def value01 value_range
  by (cases "nghttp2_iv_check es") auto

text \<open>
  The check of a SETTINGS frame accepts exactly the entries whose values the standard allows.
\<close>

theorem iv_check_iff: "nghttp2_iv_check iv = list_all setting_valid iv"
  by (induction iv) (simp_all add: iv_check_step del: nghttp2_iv_check.simps(2))

end
