(* ===== verification/Nghttp2_Headers.thy ===== *)
theory Nghttp2_Headers
  imports Nghttp2_Frame
begin

text \<open>
  Frames with a header block or with padding (nghttp2_frame.c): HEADERS, PUSH_PROMISE and
  their CONTINUATION frames, DATA, and the padding of a packed frame.
\<close>

section \<open>Structures\<close>

record nghttp2_nv =
  nv_name :: "bytes option"
  nv_value :: "bytes option"
  nv_namelen :: nat
  nv_valuelen :: nat
  nv_flags :: byte

datatype nghttp2_headers_category =
  NGHTTP2_HCAT_REQUEST | NGHTTP2_HCAT_RESPONSE | NGHTTP2_HCAT_PUSH_RESPONSE | NGHTTP2_HCAT_HEADERS

record nghttp2_headers =
  headers_hd :: nghttp2_frame_hd
  headers_padlen :: nat
  headers_pri_spec :: nghttp2_priority_spec
  headers_nva :: "nghttp2_nv list option"
  headers_nvlen :: nat
  headers_cat :: nghttp2_headers_category

record nghttp2_push_promise =
  pp_hd :: nghttp2_frame_hd
  pp_padlen :: nat
  pp_nva :: "nghttp2_nv list option"
  pp_nvlen :: nat
  pp_promised_stream_id :: int
  pp_reserved :: byte

record nghttp2_data =
  data_hd :: nghttp2_frame_hd
  data_padlen :: nat

definition nghttp2_frame_headers_init ::
  "byte \<Rightarrow> int \<Rightarrow> nghttp2_headers_category \<Rightarrow> nghttp2_priority_spec option \<Rightarrow> nghttp2_nv list option \<Rightarrow> nat \<Rightarrow> nghttp2_headers" where
  "nghttp2_frame_headers_init flags stream_id cat pri nva nvlen =
     \<lparr>headers_hd = nghttp2_frame_hd_init 0 NGHTTP2_HEADERS flags stream_id, headers_padlen = 0,
      headers_pri_spec = (case pri of Some p \<Rightarrow> p | None \<Rightarrow> nghttp2_priority_spec_default_init),
      headers_nva = nva, headers_nvlen = nvlen, headers_cat = cat\<rparr>"

definition nghttp2_frame_push_promise_init ::
  "byte \<Rightarrow> int \<Rightarrow> int \<Rightarrow> nghttp2_nv list option \<Rightarrow> nat \<Rightarrow> nghttp2_push_promise" where
  "nghttp2_frame_push_promise_init flags stream_id promised_stream_id nva nvlen =
     \<lparr>pp_hd = nghttp2_frame_hd_init 0 NGHTTP2_PUSH_PROMISE flags stream_id, pp_padlen = 0, pp_nva = nva,
      pp_nvlen = nvlen, pp_promised_stream_id = promised_stream_id, pp_reserved = 0\<rparr>"

definition nghttp2_frame_data_init :: "byte \<Rightarrow> int \<Rightarrow> nghttp2_data" where
  "nghttp2_frame_data_init flags stream_id =
     \<lparr>data_hd = nghttp2_frame_hd_init 0 NGHTTP2_DATA flags stream_id, data_padlen = 0\<rparr>"

definition nghttp2_nv_array_del :: "nghttp2_nv list option \<Rightarrow> memory \<Rightarrow> memory" where
  "nghttp2_nv_array_del nva m = nghttp2_mem_free (map_option (\<lambda>_. []) nva) m"

definition nghttp2_frame_headers_free :: "nghttp2_headers \<Rightarrow> memory \<Rightarrow> memory" where
  "nghttp2_frame_headers_free frame m = nghttp2_nv_array_del (headers_nva frame) m"

definition nghttp2_frame_push_promise_free :: "nghttp2_push_promise \<Rightarrow> memory \<Rightarrow> memory" where
  "nghttp2_frame_push_promise_free frame m = nghttp2_nv_array_del (pp_nva frame) m"

definition nghttp2_frame_trail_padlen :: "nghttp2_frame_hd \<Rightarrow> nat \<Rightarrow> nat" where
  "nghttp2_frame_trail_padlen h padlen =
     (if padlen = 0 then 0
      else size_sub padlen (if hd_flags h AND NGHTTP2_FLAG_PADDED \<noteq> 0 then 1 else 0))"

definition nghttp2_frame_priority_len :: "byte \<Rightarrow> nat" where
  "nghttp2_frame_priority_len flags = (if flags AND NGHTTP2_FLAG_PRIORITY \<noteq> 0 then NGHTTP2_PRIORITY_SPECLEN else 0)"

definition nghttp2_frame_headers_payload_nv_offset :: "nghttp2_headers \<Rightarrow> nat" where
  "nghttp2_frame_headers_payload_nv_offset frame = nghttp2_frame_priority_len (hd_flags (headers_hd frame))"

section \<open>HEADERS, PUSH_PROMISE and CONTINUATION\<close>

text \<open>The header of one chunk: the length is that of the chunk.\<close>

definition put_chunk_hd :: "nghttp2_buf \<Rightarrow> nghttp2_frame_hd \<Rightarrow> nghttp2_buf res" where
  "put_chunk_hd buf h = put_frame_hd buf (h\<lparr>hd_length := nghttp2_buf_len buf\<rparr>)"

text \<open>The chunks behind the first one, up to the current one.\<close>

fun pack_continuations :: "nghttp2_frame_hd \<Rightarrow> nghttp2_buf list \<Rightarrow> nghttp2_buf list res" where
  "pack_continuations h [] = Inl Null_Deref"
| "pack_continuations h [ce] =
     res_bind (put_chunk_hd ce (h\<lparr>hd_flags := NGHTTP2_FLAG_END_HEADERS\<rparr>)) (\<lambda>b. Inr [b])"
| "pack_continuations h (ci # cs) =
     res_bind (put_chunk_hd ci h) (\<lambda>b. res_bind (pack_continuations h cs) (\<lambda>bs. Inr (b # bs)))"

definition frame_pack_headers_shared :: "nghttp2_bufs \<Rightarrow> nghttp2_frame_hd \<Rightarrow> (int \<times> nghttp2_bufs) res" where
  "frame_pack_headers_shared bufs frame_hd =
     (case bufs_head bufs of
        [] \<Rightarrow> Inl Null_Deref
      | buf # chain \<Rightarrow>
          (let h = (if bufs_cur bufs \<noteq> 0
                    then frame_hd\<lparr>hd_flags := hd_flags frame_hd AND NOT NGHTTP2_FLAG_END_HEADERS\<rparr> else frame_hd)
           in res_bind (put_chunk_hd buf h) (\<lambda>buf1.
              if bufs_cur bufs \<noteq> 0
              then res_bind (pack_continuations (h\<lparr>hd_type := NGHTTP2_CONTINUATION, hd_flags := NGHTTP2_FLAG_NONE\<rparr>)
                     (take (bufs_cur bufs) chain)) (\<lambda>bs.
                   Inr (0, bufs\<lparr>bufs_head := buf1 # bs @ drop (bufs_cur bufs) chain\<rparr>))
              else Inr (0, bufs\<lparr>bufs_head := buf1 # chain\<rparr>))))"

text \<open>
  The deflater is an argument: from the name/value pairs and the chain it gives a return value
  and the chain with the header block added. Its positions are left to it.
\<close>

type_synonym deflate = "nghttp2_nv list option \<Rightarrow> nat \<Rightarrow> nghttp2_bufs \<Rightarrow> memory \<Rightarrow> (int \<times> nghttp2_bufs \<times> memory) res"

definition buf_move :: "nghttp2_buf \<Rightarrow> int \<Rightarrow> nghttp2_buf res" where
  "buf_move buf n =
     (if 0 \<le> int (buf_pos buf) + n \<and> int (buf_pos buf) + n \<le> int (nghttp2_buf_cap buf)
      then Inr (buf\<lparr>buf_pos := nat (int (buf_pos buf) + n)\<rparr>) else Inl Out_Of_Bounds)"

definition nghttp2_frame_pack_headers ::
  "deflate \<Rightarrow> nghttp2_bufs \<Rightarrow> nghttp2_headers \<Rightarrow> memory \<Rightarrow> (int \<times> nghttp2_headers \<times> nghttp2_bufs \<times> memory) res" where
  "nghttp2_frame_pack_headers deflate bufs frame m =
     res_bind (c_assert (bufs_cur bufs = 0)) (\<lambda>_.
     (let nv_offset = nghttp2_frame_headers_payload_nv_offset frame
      in res_bind (bufs_first bufs) (\<lambda>buf.
         res_bind (buf_move buf (int nv_offset)) (\<lambda>buf1.
         res_bind (deflate (headers_nva frame) (headers_nvlen frame)
           (bufs_set_first bufs (buf1\<lparr>buf_last := buf_pos buf1\<rparr>)) m) (\<lambda>(rv0, bufs1, m1).
         (let rv = (if rv0 = NGHTTP2_ERR_BUFFER_ERROR then NGHTTP2_ERR_HEADER_COMP else rv0)
          in res_bind (bufs_first bufs1) (\<lambda>buf2.
             res_bind (buf_move buf2 (- int nv_offset)) (\<lambda>buf3.
             if rv \<noteq> 0 then Inr (rv, frame, bufs_set_first bufs1 buf3, m1)
             else
               res_bind (if hd_flags (headers_hd frame) AND NGHTTP2_FLAG_PRIORITY \<noteq> 0
                         then buf_poke buf3 (buf_pos buf3) (nghttp2_frame_pack_priority_spec (headers_pri_spec frame))
                         else Inr buf3) (\<lambda>buf4.
               (let bufs2 = bufs_set_first bufs1 buf4;
                    frame1 = frame\<lparr>headers_padlen := 0,
                      headers_hd := (headers_hd frame)\<lparr>hd_length := nghttp2_bufs_len bufs2\<rparr>\<rparr>
                in res_bind (frame_pack_headers_shared bufs2 (headers_hd frame1)) (\<lambda>(rv1, bufs3).
                   Inr (rv1, frame1, bufs3, m1))))))))))))"

definition nghttp2_frame_pack_push_promise ::
  "deflate \<Rightarrow> nghttp2_bufs \<Rightarrow> nghttp2_push_promise \<Rightarrow> memory \<Rightarrow> (int \<times> nghttp2_push_promise \<times> nghttp2_bufs \<times> memory) res" where
  "nghttp2_frame_pack_push_promise deflate bufs frame m =
     res_bind (c_assert (bufs_cur bufs = 0)) (\<lambda>_.
     res_bind (bufs_first bufs) (\<lambda>buf.
     res_bind (buf_move buf 4) (\<lambda>buf1.
     res_bind (deflate (pp_nva frame) (pp_nvlen frame)
       (bufs_set_first bufs (buf1\<lparr>buf_last := buf_pos buf1\<rparr>)) m) (\<lambda>(rv0, bufs1, m1).
     (let rv = (if rv0 = NGHTTP2_ERR_BUFFER_ERROR then NGHTTP2_ERR_HEADER_COMP else rv0)
      in res_bind (bufs_first bufs1) (\<lambda>buf2.
         res_bind (buf_move buf2 (- 4)) (\<lambda>buf3.
         if rv \<noteq> 0 then Inr (rv, frame, bufs_set_first bufs1 buf3, m1)
         else
           res_bind (buf_poke buf3 (buf_pos buf3) (nghttp2_put_uint32be (word_of_int (pp_promised_stream_id frame)))) (\<lambda>buf4.
           (let bufs2 = bufs_set_first bufs1 buf4;
                frame1 = frame\<lparr>pp_padlen := 0, pp_hd := (pp_hd frame)\<lparr>hd_length := nghttp2_bufs_len bufs2\<rparr>\<rparr>
            in res_bind (frame_pack_headers_shared bufs2 (pp_hd frame1)) (\<lambda>(rv1, bufs3).
               Inr (rv1, frame1, bufs3, m1)))))))))))"

definition nghttp2_frame_unpack_headers_payload :: "nghttp2_headers \<Rightarrow> bytes \<Rightarrow> (int \<times> nghttp2_headers) res" where
  "nghttp2_frame_unpack_headers_payload frame payload =
     res_bind (if hd_flags (headers_hd frame) AND NGHTTP2_FLAG_PRIORITY \<noteq> 0
               then nghttp2_frame_unpack_priority_spec payload
               else Inr nghttp2_priority_spec_default_init) (\<lambda>p.
     Inr (0, frame\<lparr>headers_pri_spec := p, headers_nva := None, headers_nvlen := 0\<rparr>))"

definition nghttp2_frame_unpack_push_promise_payload ::
  "nghttp2_push_promise \<Rightarrow> bytes \<Rightarrow> (int \<times> nghttp2_push_promise) res" where
  "nghttp2_frame_unpack_push_promise_payload frame payload =
     res_bind (nghttp2_get_uint32 payload) (\<lambda>sid.
     Inr (0, frame\<lparr>pp_promised_stream_id := masked_id sid, pp_nva := None, pp_nvlen := 0\<rparr>))"

section \<open>Padding\<close>

definition frame_set_pad :: "nghttp2_buf \<Rightarrow> nat \<Rightarrow> bool \<Rightarrow> nghttp2_buf res" where
  "frame_set_pad buf padlen framehd_only =
     (if buf_pos buf = 0 then Inl Out_Of_Bounds
      else
        (let p = buf_pos buf - 1
         in res_bind (rd (buf_store buf) (buf_pos buf) NGHTTP2_FRAME_HDLEN) (\<lambda>h.
            res_bind (buf_poke (buf\<lparr>buf_pos := p\<rparr>) p h) (\<lambda>b1.
            res_bind (byte_at (buf_store b1) (p + 4)) (\<lambda>fl.
            res_bind (buf_poke b1 (p + 4) [fl OR NGHTTP2_FLAG_PADDED]) (\<lambda>b2.
            res_bind (nghttp2_get_uint32 (drop p (buf_store b2))) (\<lambda>n.
            res_bind (byte_at (buf_store b2) (p + 3)) (\<lambda>type.
            (let newlen = unat (drop_bit 8 n) + padlen
             in res_bind (buf_poke b2 p (nghttp2_put_uint32be (word_of_nat (newlen * 2 ^ 8 + unat type)))) (\<lambda>b3.
                if framehd_only then Inr b3
                else
                  (let trail_padlen = size_sub padlen 1
                   in res_bind (buf_poke b3 (p + NGHTTP2_FRAME_HDLEN) [word_of_nat trail_padlen]) (\<lambda>b4.
                      put_last b4 (replicate trail_padlen 0)))))))))))))"

definition nghttp2_frame_add_pad ::
  "nghttp2_bufs \<Rightarrow> nghttp2_frame_hd \<Rightarrow> nat \<Rightarrow> bool \<Rightarrow> (int \<times> nghttp2_frame_hd \<times> nghttp2_bufs) res" where
  "nghttp2_frame_add_pad bufs h padlen framehd_only =
     (if padlen = 0 then Inr (0, h, bufs)
      else
        res_bind (bufs_first bufs) (\<lambda>buf.
        res_bind (c_assert (padlen - 1 \<le> nghttp2_buf_avail buf)) (\<lambda>_.
        res_bind (frame_set_pad buf padlen framehd_only) (\<lambda>buf1.
        Inr (0, h\<lparr>hd_length := hd_length h + padlen, hd_flags := hd_flags h OR NGHTTP2_FLAG_PADDED\<rparr>,
          bufs_set_first bufs buf1)))))"

section \<open>A header block on the wire\<close>

text \<open>A receiver that cuts the bytes of a connection into frames.\<close>

function read_frames :: "bytes \<Rightarrow> (nghttp2_frame_hd \<times> bytes) list res" where
  "read_frames bs =
     (if bs = [] then Inr []
      else
        (case nghttp2_frame_unpack_frame_hd bs of
           Inl e \<Rightarrow> Inl e
         | Inr h \<Rightarrow>
             if length bs < 9 + hd_length h then Inl Out_Of_Bounds
             else res_bind (read_frames (drop (9 + hd_length h) bs)) (\<lambda>fs. Inr ((h, take (hd_length h) (drop 9 bs)) # fs))))"
  by pat_completeness auto

termination read_frames
  by (relation "measure length") auto

declare read_frames.simps [simp del]

definition frames_bytes :: "(nghttp2_frame_hd \<times> bytes) list \<Rightarrow> bytes" where
  "frames_bytes fs = concat (map (\<lambda>(h, d). nghttp2_frame_pack_frame_hd h @ d) fs)"

definition frame_ok :: "nghttp2_frame_hd \<times> bytes \<Rightarrow> bool" where
  "frame_ok = (\<lambda>(h, d). hd_ok h \<and> hd_length h = length d)"

lemma frames_bytes_simps [simp]:
  "frames_bytes [] = []" "frames_bytes ((h, d) # fs) = nghttp2_frame_pack_frame_hd h @ d @ frames_bytes fs"
  by (simp_all add: frames_bytes_def)

lemma read_frames_bytes: "list_all frame_ok fs \<Longrightarrow> read_frames (frames_bytes fs) = Inr fs"
proof (induction fs)
  case Nil
  show ?case by (simp add: read_frames.simps [of "[]"])
next
  case (Cons f fs)
  obtain h d where f: "f = (h, d)" by (cases f)
  have ok: "hd_ok h" "hd_length h = length d" and rest: "read_frames (frames_bytes fs) = Inr fs"
    using Cons f by (simp_all add: frame_ok_def)
  have ne: "nghttp2_frame_pack_frame_hd h \<noteq> []" using hd_pack_length [of h] by fastforce
  show ?case
    using ne rest ok frame_hd.dec_enc [OF ok(1), of "d @ frames_bytes fs"]
    by (simp add: f read_frames.simps [of "nghttp2_frame_pack_frame_hd h @ d @ frames_bytes fs"])
qed

subsection \<open>The frames of a chain\<close>

definition sized_hd :: "nghttp2_frame_hd \<Rightarrow> bytes \<Rightarrow> nghttp2_frame_hd" where
  "sized_hd h d = h\<lparr>hd_length := length d, hd_reserved := 0\<rparr>"

fun cont_frames :: "nghttp2_frame_hd \<Rightarrow> bytes list \<Rightarrow> (nghttp2_frame_hd \<times> bytes) list" where
  "cont_frames h [] = []"
| "cont_frames h [d] = [(sized_hd (h\<lparr>hd_flags := NGHTTP2_FLAG_END_HEADERS\<rparr>) d, d)]"
| "cont_frames h (d # ds) = (sized_hd h d, d) # cont_frames h ds"

lemma pack_hd_reserved [simp]: "nghttp2_frame_pack_frame_hd (h\<lparr>hd_reserved := x\<rparr>) = nghttp2_frame_pack_frame_hd h"
  by (simp add: nghttp2_frame_pack_frame_hd_def)

lemma put_chunk_hd_ok:
  assumes "buf_wf c" and "9 \<le> buf_pos c"
  obtains c' where "put_chunk_hd c h = Inr c'" and "buf_wf c'"
    and "buf_data c' = nghttp2_frame_pack_frame_hd (sized_hd h (buf_data c)) @ buf_data c"
    and "nghttp2_buf_cap c' = nghttp2_buf_cap c" and "chain_blocks c' = chain_blocks c"
proof -
  have "h\<lparr>hd_length := nghttp2_buf_len c\<rparr> = (sized_hd h (buf_data c))\<lparr>hd_reserved := hd_reserved h\<rparr>"
    using assms(1) by (simp add: sized_hd_def)
  then have "nghttp2_frame_pack_frame_hd (h\<lparr>hd_length := nghttp2_buf_len c\<rparr>) = nghttp2_frame_pack_frame_hd (sized_hd h (buf_data c))"
    by (simp only: pack_hd_reserved)
  then show ?thesis
    using put_frame_hd_ok [OF assms, of "h\<lparr>hd_length := nghttp2_buf_len c\<rparr>"] that
    unfolding put_chunk_hd_def by metis
qed

definition chunk_ok :: "nghttp2_buf \<Rightarrow> bool" where
  "chunk_ok c \<longleftrightarrow> buf_wf c \<and> 9 \<le> buf_pos c"

lemma pack_continuations_ok:
  assumes "list_all chunk_ok cs" and "cs \<noteq> []"
  shows "\<exists>cs'. pack_continuations h cs = Inr cs' \<and> length cs' = length cs \<and> list_all buf_wf cs' \<and>
    concat (map buf_data cs') = frames_bytes (cont_frames h (map buf_data cs)) \<and>
    map nghttp2_buf_cap cs' = map nghttp2_buf_cap cs"
  using assms
proof (induction h cs rule: pack_continuations.induct)
  case (1 h)
  then show ?case by simp
next
  case (2 h c)
  then obtain c' where "put_chunk_hd c (h\<lparr>hd_flags := NGHTTP2_FLAG_END_HEADERS\<rparr>) = Inr c'" "buf_wf c'"
      "buf_data c' = nghttp2_frame_pack_frame_hd (sized_hd (h\<lparr>hd_flags := NGHTTP2_FLAG_END_HEADERS\<rparr>) (buf_data c)) @ buf_data c"
      "nghttp2_buf_cap c' = nghttp2_buf_cap c"
    using put_chunk_hd_ok [of c "h\<lparr>hd_flags := NGHTTP2_FLAG_END_HEADERS\<rparr>"] by (auto simp: chunk_ok_def)
  then show ?case by simp
next
  case (3 h c d cs)
  have "buf_wf c" "9 \<le> buf_pos c" using "3.prems" by (simp_all add: chunk_ok_def)
  then obtain c' where c': "put_chunk_hd c h = Inr c'" "buf_wf c'"
      "buf_data c' = nghttp2_frame_pack_frame_hd (sized_hd h (buf_data c)) @ buf_data c"
      "nghttp2_buf_cap c' = nghttp2_buf_cap c"
    by (rule put_chunk_hd_ok)
  obtain cs' where "pack_continuations h (d # cs) = Inr cs'" "length cs' = length (d # cs)" "list_all buf_wf cs'"
      "concat (map buf_data cs') = frames_bytes (cont_frames h (map buf_data (d # cs)))"
      "map nghttp2_buf_cap cs' = map nghttp2_buf_cap (d # cs)"
    using "3.IH" [OF c'(1)] "3.prems" by auto
  then show ?case using c' by simp
qed

lemma cont_frames_props:
  assumes "ds \<noteq> []"
  shows "length (cont_frames h ds) = length ds" and "map snd (cont_frames h ds) = ds"
    and "list_all (\<lambda>(g, _). hd_type g = hd_type h \<and> hd_stream_id g = hd_stream_id h) (cont_frames h ds)"
    and "list_all (\<lambda>(g, _). hd_flags g = hd_flags h) (butlast (cont_frames h ds))"
    and "hd_flags (fst (last (cont_frames h ds))) = NGHTTP2_FLAG_END_HEADERS"
    and "0 \<le> hd_stream_id h \<Longrightarrow> hd_stream_id h < 2 ^ 31 \<Longrightarrow> list_all (\<lambda>d. length d < 2 ^ 24) ds \<Longrightarrow>
      list_all frame_ok (cont_frames h ds)"
proof -
  have ne: "cont_frames h (d # ds) \<noteq> []" for d ds by (cases ds) auto
  have "length (cont_frames h ds) = length ds \<and> map snd (cont_frames h ds) = ds \<and>
    list_all (\<lambda>(g, _). hd_type g = hd_type h \<and> hd_stream_id g = hd_stream_id h) (cont_frames h ds) \<and>
    list_all (\<lambda>(g, _). hd_flags g = hd_flags h) (butlast (cont_frames h ds)) \<and>
    hd_flags (fst (last (cont_frames h ds))) = NGHTTP2_FLAG_END_HEADERS \<and>
    (0 \<le> hd_stream_id h \<longrightarrow> hd_stream_id h < 2 ^ 31 \<longrightarrow> list_all (\<lambda>d. length d < 2 ^ 24) ds \<longrightarrow>
      list_all frame_ok (cont_frames h ds))"
    using assms
    by (induction h ds rule: cont_frames.induct) (auto simp: ne sized_hd_def frame_ok_def hd_ok_def)
  then show "length (cont_frames h ds) = length ds" and "map snd (cont_frames h ds) = ds"
    and "list_all (\<lambda>(g, _). hd_type g = hd_type h \<and> hd_stream_id g = hd_stream_id h) (cont_frames h ds)"
    and "list_all (\<lambda>(g, _). hd_flags g = hd_flags h) (butlast (cont_frames h ds))"
    and "hd_flags (fst (last (cont_frames h ds))) = NGHTTP2_FLAG_END_HEADERS"
    and "0 \<le> hd_stream_id h \<Longrightarrow> hd_stream_id h < 2 ^ 31 \<Longrightarrow> list_all (\<lambda>d. length d < 2 ^ 24) ds \<Longrightarrow>
      list_all frame_ok (cont_frames h ds)" by auto
qed

lemma no_end_headers: "(x AND NOT NGHTTP2_FLAG_END_HEADERS) AND NGHTTP2_FLAG_END_HEADERS = (0 :: byte)"
  by (metis and.assoc and.commute and.right_idem bit.conj_cancel_left bit.conj_zero_left)

text \<open>
  C5. A header block that spans several chunks goes out as one HEADERS or PUSH_PROMISE frame and
  CONTINUATION frames of the same stream; cutting the bytes into frames gives the block back, and only the
  last frame has END_HEADERS.
\<close>

theorem header_block_frames:
  assumes "bufs_wf b" and "list_all chunk_ok (take (bufs_cur b + 1) (bufs_head b))"
    and "list_all (\<lambda>c. nghttp2_buf_len c < 2 ^ 24) (take (bufs_cur b + 1) (bufs_head b))"
    and "0 \<le> hd_stream_id h" and "hd_stream_id h < 2 ^ 31"
  shows "\<exists>b' fs. frame_pack_headers_shared b h = Inr (0, b') \<and> read_frames (bufs_content b') = Inr fs \<and>
    length fs = bufs_cur b + 1 \<and> concat (map snd fs) = bufs_content b \<and>
    hd_type (fst (hd fs)) = hd_type h \<and> list_all (\<lambda>(g, _). hd_type g = NGHTTP2_CONTINUATION) (tl fs) \<and>
    list_all (\<lambda>(g, _). hd_stream_id g = hd_stream_id h) fs \<and>
    list_all (\<lambda>(g, _). hd_flags g AND NGHTTP2_FLAG_END_HEADERS = 0) (butlast fs) \<and>
    hd_flags (fst (last fs)) = (if bufs_cur b = 0 then hd_flags h else NGHTTP2_FLAG_END_HEADERS)"
proof -
  obtain c chain where head: "bufs_head b = c # chain" using assms(1) by (cases "bufs_head b") (auto simp: bufs_wf_def)
  let ?k = "bufs_cur b"
  have k: "?k \<le> length chain" using assms(1) head by (simp add: bufs_wf_def)
  have c: "buf_wf c" "9 \<le> buf_pos c" using assms(2) head by (simp_all add: chunk_ok_def)
  have lenc: "length (buf_data c) < 2 ^ 24" using assms(3) head c(1) by simp
  have tail: "concat (map buf_data (drop ?k chain)) = []"
    using assms(1) head by (auto simp: bufs_wf_def intro: buf_data_Nil)
  have content: "bufs_content b = buf_data c @ concat (map buf_data (take ?k chain))"
  proof -
    have "concat (map buf_data chain) = concat (map buf_data (take ?k chain)) @ concat (map buf_data (drop ?k chain))"
      by (metis append_take_drop_id concat_append map_append)
    then show ?thesis using tail head by (simp add: bufs_content_def)
  qed
  show ?thesis
  proof (cases "?k = 0")
    case True
    obtain c' where c': "put_chunk_hd c h = Inr c'"
        "buf_data c' = nghttp2_frame_pack_frame_hd (sized_hd h (buf_data c)) @ buf_data c"
      using put_chunk_hd_ok [OF c] by metis
    let ?b = "b\<lparr>bufs_head := c' # chain\<rparr>" and ?fs = "[(sized_hd h (buf_data c), buf_data c)]"
    have "frame_pack_headers_shared b h = Inr (0, ?b)"
      using True by (simp add: frame_pack_headers_shared_def head c'(1))
    moreover have "bufs_content ?b = frames_bytes ?fs"
      using tail True c'(2) by (simp add: bufs_content_def)
    moreover have "read_frames (frames_bytes ?fs) = Inr ?fs"
      by (rule read_frames_bytes) (use lenc assms(4,5) in \<open>simp add: frame_ok_def hd_ok_def sized_hd_def\<close>)
    ultimately show ?thesis
      using True content by (intro exI [of _ ?b] exI [of _ ?fs]) (simp add: sized_hd_def)
  next
    case False
    let ?h1 = "h\<lparr>hd_flags := hd_flags h AND NOT NGHTTP2_FLAG_END_HEADERS\<rparr>"
    let ?h2 = "h\<lparr>hd_type := NGHTTP2_CONTINUATION, hd_flags := NGHTTP2_FLAG_NONE\<rparr>"
    let ?cs = "take ?k chain" and ?ds = "map buf_data (take ?k chain)"
    obtain c' where c': "put_chunk_hd c ?h1 = Inr c'"
        "buf_data c' = nghttp2_frame_pack_frame_hd (sized_hd ?h1 (buf_data c)) @ buf_data c"
      using put_chunk_hd_ok [OF c] by metis
    have ne: "?cs \<noteq> []" "?ds \<noteq> []" using False k by auto
    have ok: "list_all chunk_ok ?cs" using assms(2) head by simp
    then obtain cs' where cs': "pack_continuations ?h2 ?cs = Inr cs'"
        "concat (map buf_data cs') = frames_bytes (cont_frames ?h2 ?ds)"
      using pack_continuations_ok [OF ok ne(1)] by blast
    let ?b = "b\<lparr>bufs_head := c' # cs' @ drop ?k chain\<rparr>"
    let ?fs = "(sized_hd ?h1 (buf_data c), buf_data c) # cont_frames ?h2 ?ds"
    have lens: "list_all (\<lambda>d. length d < 2 ^ 24) ?ds"
      using assms(3) head ok by (auto simp: list_all_iff chunk_ok_def)
    have id2: "0 \<le> hd_stream_id ?h2" "hd_stream_id ?h2 < 2 ^ 31" using assms(4,5) by simp_all
    note props = cont_frames_props(1-5) [OF ne(2), of ?h2] cont_frames_props(6) [OF ne(2) id2 lens]
    have "frame_pack_headers_shared b h = Inr (0, ?b)"
      using False by (simp add: frame_pack_headers_shared_def head c'(1) cs'(1))
    moreover have "bufs_content ?b = frames_bytes ?fs"
      using tail c'(2) cs'(2) by (simp add: bufs_content_def)
    moreover have "read_frames (frames_bytes ?fs) = Inr ?fs"
      by (rule read_frames_bytes)
        (use lenc assms(4,5) props(6) in \<open>simp add: frame_ok_def hd_ok_def sized_hd_def\<close>)
    moreover have nef: "cont_frames ?h2 ?ds \<noteq> []" using props(1) ne(2) by (metis length_0_conv)
    moreover have "length ?fs = ?k + 1" using props(1) k by simp
    moreover have "concat (map snd ?fs) = bufs_content b" using props(2) content by simp
    moreover have "list_all (\<lambda>(g, _). hd_type g = NGHTTP2_CONTINUATION) (tl ?fs)"
      "list_all (\<lambda>(g, _). hd_stream_id g = hd_stream_id h) ?fs"
      using props(3) by (auto simp: list_all_iff sized_hd_def)
    moreover have "list_all (\<lambda>(g, _). hd_flags g AND NGHTTP2_FLAG_END_HEADERS = 0) (butlast ?fs)"
      using props(4) nef no_end_headers [of "hd_flags h"] by (auto simp: list_all_iff sized_hd_def NGHTTP2_FLAG_NONE_def)
    ultimately show ?thesis
      using False props(5) by (intro exI [of _ ?b] exI [of _ ?fs]) (simp add: sized_hd_def)
  qed
qed

definition two_chunks :: nghttp2_bufs where
  "two_chunks = \<lparr>bufs_head =
      [\<lparr>buf_block = Some ([0, 0, 0, 0, 0, 0, 0, 0, 0] @ [1, 2, 3]), buf_pos = 9, buf_last = 12, buf_mark = 0\<rparr>,
       \<lparr>buf_block = Some ([0, 0, 0, 0, 0, 0, 0, 0, 0] @ [4, 5, 0]), buf_pos = 9, buf_last = 11, buf_mark = 0\<rparr>],
     bufs_cur = 1, bufs_chunk_length = 12, bufs_max_chunk = 2, bufs_chunk_used = 2, bufs_chunk_keep = 1,
     bufs_offset = 9\<rparr>"

theorem header_block_frames_witness:
  "\<exists>b' fs. frame_pack_headers_shared two_chunks (nghttp2_frame_hd_init 0 NGHTTP2_HEADERS NGHTTP2_FLAG_END_HEADERS 1) = Inr (0, b') \<and>
     read_frames (bufs_content b') = Inr fs \<and> length fs = 1 + 1 \<and> concat (map snd fs) = [1, 2, 3, 4, 5]"
proof -
  have wf: "bufs_wf two_chunks" and content: "bufs_content two_chunks = [1, 2, 3, 4, 5]"
    and ok: "list_all chunk_ok (take (bufs_cur two_chunks + 1) (bufs_head two_chunks))"
    and cur: "bufs_cur two_chunks = 1"
    by code_simp+
  have len: "list_all (\<lambda>c. nghttp2_buf_len c < 2 ^ 24) (take (bufs_cur two_chunks + 1) (bufs_head two_chunks))"
    by (simp add: two_chunks_def nghttp2_buf_len_def size_sub_def)
  have id: "0 \<le> hd_stream_id (nghttp2_frame_hd_init 0 NGHTTP2_HEADERS NGHTTP2_FLAG_END_HEADERS 1)"
    "hd_stream_id (nghttp2_frame_hd_init 0 NGHTTP2_HEADERS NGHTTP2_FLAG_END_HEADERS 1) < 2 ^ 31"
    by (simp_all add: nghttp2_frame_hd_init_def)
  show ?thesis
    using header_block_frames [OF wf ok len id] unfolding cur content by blast
qed

section \<open>Padding a packed frame\<close>

lemma wr_mid: "n = length pre \<Longrightarrow> length d = length q \<Longrightarrow> wr (pre @ q @ r) n d = Inr (pre @ d @ r)"
  by (simp add: wr_def)

lemma rd_mid: "n = length pre \<Longrightarrow> k = length q \<Longrightarrow> rd (pre @ q @ r) n k = Inr q"
  by (simp add: rd_def)

lemma byte_at_mid: "n = length pre \<Longrightarrow> byte_at (pre @ x # r) n = Inr x"
  by (simp add: byte_at_def)

lemma len_type_word:
  fixes t :: byte
  shows "(word_of_nat (n * 2 ^ 8 + unat t) :: 32 word) = word_of_nat (n * 2 ^ 8) OR ucast t"
proof -
  have a: "(word_of_nat (n * 2 ^ 8) :: 32 word) = push_bit 8 (word_of_nat n)"
    by (simp add: push_bit_eq_mult mult.commute)
  have t: "(word_of_nat (unat t) :: 32 word) = ucast t" by simp
  have "\<not> bit (push_bit 8 (word_of_nat n) :: 32 word) k \<or> \<not> bit (ucast t :: 32 word) k" for k
    by (auto simp: bit_push_bit_iff bit_ucast_iff dest: bit_imp_le_length)
  then have "push_bit 8 (word_of_nat n) + (ucast t :: 32 word) = push_bit 8 (word_of_nat n) OR ucast t"
    by (rule disjunctive_add)
  then show ?thesis unfolding of_nat_add a t .
qed

lemma put_len_type:
  fixes t :: byte
  shows "nghttp2_put_uint32be (word_of_nat (n * 2 ^ 8 + unat t)) =
    [ucast (drop_bit 24 (word_of_nat (n * 2 ^ 8) :: 32 word)), ucast (drop_bit 16 (word_of_nat (n * 2 ^ 8) :: 32 word)),
     ucast (drop_bit 8 (word_of_nat (n * 2 ^ 8) :: 32 word)), t]"
proof -
  have b: "\<not> bit t k" if "8 \<le> k" for k using that by (auto dest: bit_imp_le_length)
  have z: "\<not> bit (word_of_nat (n * 2 ^ 8) :: 32 word) k" if "k < 8" for k
  proof -
    have "(word_of_nat (n * 2 ^ 8) :: 32 word) = push_bit 8 (word_of_nat n)" by (simp add: push_bit_eq_mult mult.commute)
    then show ?thesis using that by (simp only: bit_push_bit_iff) simp
  qed
  have "nghttp2_put_uint32be (w OR ucast t) =
      [ucast (drop_bit 24 w), ucast (drop_bit 16 w), ucast (drop_bit 8 w), t]"
    if "\<And>k. k < 8 \<Longrightarrow> \<not> bit w k" for w :: "32 word"
    unfolding nghttp2_put_uint32be_def
    by (auto intro!: bit_word_eqI simp: bit_or_iff bit_ucast_iff bit_drop_bit_eq b that)
  then show ?thesis unfolding len_type_word using z by blast
qed

lemma unpack_len:
  assumes "hd_length h < 2 ^ 24"
  shows "\<exists>n. nghttp2_get_uint32 (nghttp2_frame_pack_frame_hd h @ r) = Inr n \<and> unat (drop_bit 8 n) = hd_length h"
  unfolding pack_hd_bytes append_Cons append_Nil nghttp2_get_uint32.simps
  by (intro exI conjI, rule refl) (simp only: len24 len24_value [OF assms])

text \<open>
  Padding moves the frame header by one byte, puts the number of trailing bytes in front of the
  payload and that many zeros behind it; the header says so.
\<close>

definition padded_hd :: "nghttp2_frame_hd \<Rightarrow> nat \<Rightarrow> nghttp2_frame_hd" where
  "padded_hd h padlen = h\<lparr>hd_length := hd_length h + padlen, hd_flags := hd_flags h OR NGHTTP2_FLAG_PADDED\<rparr>"

lemma take_split: "k \<le> length s \<Longrightarrow> \<exists>u v. s = u @ v \<and> length u = k"
  by (metis append_take_drop_id length_take min.absorb2)

lemma buf_split:
  assumes "buf_wf c" and "1 \<le> buf_pos c" and "buf_data c = q"
  obtains pre x post where "buf_store c = pre @ x # q @ post" and "length pre = buf_pos c - 1"
    and "buf_last c = buf_pos c + length q" and "length post = nghttp2_buf_cap c - buf_last c"
proof -
  let ?s = "buf_store c"
  have l: "buf_pos c \<le> buf_last c" "buf_last c \<le> length ?s" using assms(1) by (auto simp: buf_wf_def nghttp2_buf_cap_def)
  have q: "length q = buf_last c - buf_pos c" using assms(1,3) by auto
  have "?s = take (buf_pos c - 1) ?s @ drop (buf_pos c - 1) ?s" by simp
  also have "drop (buf_pos c - 1) ?s = ?s ! (buf_pos c - 1) # drop (buf_pos c) ?s"
    using l assms(2) Cons_nth_drop_Suc [of "buf_pos c - 1" ?s] by simp
  also have "drop (buf_pos c) ?s = take (buf_last c - buf_pos c) (drop (buf_pos c) ?s) @ drop (buf_last c) ?s"
    using l append_take_drop_id [of "buf_last c - buf_pos c" "drop (buf_pos c) ?s"] by simp
  finally have "?s = take (buf_pos c - 1) ?s @ ?s ! (buf_pos c - 1) # q @ drop (buf_last c) ?s"
    using assms(3) by (simp add: buf_data_def)
  then show ?thesis
    by (rule that) (use l q assms(2) in \<open>auto simp: nghttp2_buf_cap_def\<close>)
qed

lemma buf_store_upd [simp]:
  "buf_store (b\<lparr>buf_block := Some s\<rparr>) = s" "buf_store (b\<lparr>buf_pos := p\<rparr>) = buf_store b"
  "buf_store (b\<lparr>buf_last := l\<rparr>) = buf_store b"
  "buf_store (b\<lparr>buf_block := Some s, buf_last := l\<rparr>) = s"
  by (simp_all add: buf_store_def)

lemma poke_mid:
  "buf_store b = pre @ q @ r \<Longrightarrow> n = length pre \<Longrightarrow> length d = length q \<Longrightarrow>
   buf_poke b n d = Inr (b\<lparr>buf_block := Some (pre @ d @ r)\<rparr>)"
  by (simp add: buf_poke_def wr_mid)

definition len3 :: "nat \<Rightarrow> bytes" where
  "len3 n = (let w = word_of_nat (n * 2 ^ 8) :: 32 word in [ucast (drop_bit 24 w), ucast (drop_bit 16 w), ucast (drop_bit 8 w)])"

lemma len3_length [simp]: "length (len3 n) = 3"
  by (simp add: len3_def Let_def)

lemma pack_hd_len3:
  "nghttp2_frame_pack_frame_hd h = len3 (hd_length h) @ hd_type h # hd_flags h # nghttp2_put_uint32be (word_of_int (hd_stream_id h))"
  by (simp only: pack_hd_bytes len3_def Let_def append_Cons append_Nil)

lemma put_len3: "nghttp2_put_uint32be (word_of_nat (n * 2 ^ 8 + unat t)) = len3 n @ [t :: byte]"
  by (simp only: put_len_type len3_def Let_def append_Cons append_Nil)

lemma get_len3:
  assumes "n < 2 ^ 24"
  shows "\<exists>w. nghttp2_get_uint32 (len3 n @ t # r) = Inr w \<and> unat (drop_bit 8 w) = n"
  unfolding len3_def Let_def append_Cons append_Nil nghttp2_get_uint32.simps
  by (intro exI conjI, rule refl) (simp only: len24 len24_value [OF assms])

lemma frame_set_pad_ok:
  assumes "buf_wf c" and "1 \<le> buf_pos c" and "buf_data c = nghttp2_frame_pack_frame_hd h @ payload"
    and "1 \<le> padlen" and "padlen - 1 \<le> nghttp2_buf_cap c - buf_last c" and "hd_length h < 2 ^ 24"
  obtains c' where "frame_set_pad c padlen False = Inr c'" and "buf_wf c'"
    and "buf_data c' = nghttp2_frame_pack_frame_hd (padded_hd h padlen) @ word_of_nat (padlen - 1) # payload @ replicate (padlen - 1) 0"
    and "nghttp2_buf_cap c' = nghttp2_buf_cap c" and "chain_blocks c' = chain_blocks c"
proof -
  let ?L = "len3 (hd_length h)" and ?p = "buf_pos c - 1" and ?k = "padlen - 1"
  let ?t = "hd_type h" and ?f = "hd_flags h" and ?F = "hd_flags h OR NGHTTP2_FLAG_PADDED"
  let ?L' = "len3 (hd_length h + padlen)"
  define S where "S = nghttp2_put_uint32be (word_of_int (hd_stream_id h))"
  have S4: "length S = 4" by (simp add: S_def)
  then obtain S3 s where S: "S = S3 @ [s]" "length S3 = 3"
    by (metis append_butlast_last_id length_0_conv length_butlast numeral_eq_Suc diff_Suc_1 pred_numeral_simps(2) semiring_norm(26,27) zero_neq_numeral)
  have H: "nghttp2_frame_pack_frame_hd h = ?L @ ?t # ?f # S" by (simp add: pack_hd_len3 S_def)
  have H': "nghttp2_frame_pack_frame_hd (padded_hd h padlen) = ?L' @ ?t # ?F # S"
    by (simp add: pack_hd_len3 S_def padded_hd_def)
  obtain pre x post where st0: "buf_store c = pre @ x # (nghttp2_frame_pack_frame_hd h @ payload) @ post"
    and pre: "length pre = ?p" and last: "buf_last c = buf_pos c + length (nghttp2_frame_pack_frame_hd h @ payload)"
    and post: "length post = nghttp2_buf_cap c - buf_last c"
    by (rule buf_split [OF assms(1-3)])
  have st: "buf_store c = pre @ (x # ?L @ ?t # ?f # S3) @ s # payload @ post"
    using st0 by (simp add: H S(1))
  obtain z post' where z: "post = z @ post'" "length z = ?k"
    using take_split [of ?k post] assms(5) post by auto
  have p1: "buf_pos c = length (pre @ [x])" using pre assms(2) by simp
  have r: "rd (buf_store c) (buf_pos c) NGHTTP2_FRAME_HDLEN = Inr (?L @ ?t # ?f # S)"
    using rd_mid [of "buf_pos c" "pre @ [x]" 9 "?L @ ?t # ?f # S" "payload @ post"] p1 S4 st
    by (simp add: S(1) NGHTTP2_FRAME_HDLEN_def)
  define b0 where "b0 = c\<lparr>buf_pos := ?p\<rparr>"
  define b1 where "b1 = b0\<lparr>buf_block := Some (pre @ (?L @ ?t # ?f # S) @ s # payload @ post)\<rparr>"
  have e1: "buf_poke b0 ?p (?L @ ?t # ?f # S) = Inr b1"
    unfolding b1_def by (rule poke_mid [of _ _ "x # ?L @ ?t # ?f # S3"]) (use st pre S S4 in \<open>simp_all add: b0_def\<close>)
  have f: "byte_at (buf_store b1) (?p + 4) = Inr ?f"
    using byte_at_mid [of "?p + 4" "pre @ ?L @ [?t]"] pre by (simp add: b1_def)
  define b2 where "b2 = b0\<lparr>buf_block := Some (pre @ ?L @ ?t # ?F # S @ s # payload @ post)\<rparr>"
  have e2: "buf_poke b1 (?p + 4) [?F] = Inr b2"
    using poke_mid [of b1 "pre @ ?L @ [?t]" "[?f]" "S @ s # payload @ post" "?p + 4" "[?F]"] pre
    by (simp add: b1_def b2_def)
  obtain n where n: "nghttp2_get_uint32 (drop ?p (buf_store b2)) = Inr n" "unat (drop_bit 8 n) = hd_length h"
    using get_len3 [OF assms(6), of ?t "?F # S @ s # payload @ post"] pre by (auto simp: b2_def)
  have ty: "byte_at (buf_store b2) (?p + 3) = Inr ?t"
    using byte_at_mid [of "?p + 3" "pre @ ?L"] pre by (simp add: b2_def)
  define b3 where "b3 = b0\<lparr>buf_block := Some (pre @ ?L' @ ?t # ?F # S @ s # payload @ post)\<rparr>"
  have e3: "buf_poke b2 ?p (?L' @ [?t]) = Inr b3"
    using poke_mid [of b2 pre "?L @ [?t]" "?F # S @ s # payload @ post" ?p "?L' @ [?t]"] pre
    by (simp add: b2_def b3_def)
  define b4 where "b4 = b0\<lparr>buf_block := Some (pre @ ?L' @ ?t # ?F # S @ word_of_nat ?k # payload @ post)\<rparr>"
  have e4: "buf_poke b3 (?p + 9) [word_of_nat ?k] = Inr b4"
    using poke_mid [of b3 "pre @ ?L' @ ?t # ?F # S" "[s]" "payload @ post" "?p + 9" "[word_of_nat ?k]"] pre S4
    by (simp add: b3_def b4_def)
  define s5 where "s5 = pre @ ?L' @ ?t # ?F # S @ word_of_nat ?k # payload @ replicate ?k 0 @ post'"
  define c' where "c' = b0\<lparr>buf_block := Some s5, buf_last := buf_last c + ?k\<rparr>"
  have l4: "buf_last b4 = length (pre @ ?L' @ ?t # ?F # S @ word_of_nat ?k # payload)"
    using last pre S4 assms(2) by (simp add: b4_def b0_def)
  have "buf_poke b4 (buf_last b4) (replicate ?k 0) = Inr (b4\<lparr>buf_block := Some s5\<rparr>)"
    using poke_mid [of b4 "pre @ ?L' @ ?t # ?F # S @ word_of_nat ?k # payload" z post' "buf_last b4" "replicate ?k 0"] z l4
    by (simp add: b4_def s5_def)
  then have e5: "put_last b4 (replicate ?k 0) = Inr c'"
    by (simp add: put_last_def b4_def c'_def b0_def)
  have put: "nghttp2_put_uint32be (word_of_nat ((hd_length h + padlen) * 2 ^ 8 + unat ?t)) = ?L' @ [?t]"
    by (rule put_len3)
  have sub: "size_sub padlen 1 = ?k" using assms(4) by (simp add: size_sub_def)
  have run: "frame_set_pad c padlen False = Inr c'"
    using assms(2) r e1 f e2 n ty e3 e4 e5 put sub
    by (simp only: frame_set_pad_def Let_def b0_def [symmetric] res_bind_Inr NGHTTP2_FRAME_HDLEN_def) simp
  have st': "buf_store c' = s5" by (simp add: c'_def)
  have "buf_pos c' = ?p" "buf_last c' = buf_last c + ?k" by (simp_all add: c'_def b0_def)
  moreover have "length s5 = length (buf_store c)"
    using st z S S4 by (simp add: s5_def)
  ultimately have wf: "buf_wf c'" and cap: "nghttp2_buf_cap c' = nghttp2_buf_cap c"
    using assms(1,2,5) st' by (auto simp: buf_wf_def nghttp2_buf_cap_def)
  define X where "X = ?L' @ ?t # ?F # S @ word_of_nat ?k # payload @ replicate ?k 0"
  have "buf_last c' - buf_pos c' = length X" "buf_pos c' = length pre"
    using last pre S4 assms(2) by (simp_all add: X_def c'_def b0_def)
  moreover have "s5 = pre @ X @ post'" by (simp add: s5_def X_def)
  ultimately have dat: "buf_data c' = X"
    by (simp add: buf_data_def st')
  have blk: "buf_block c \<noteq> None" using st by (auto simp: buf_store_def split: option.splits)
  show ?thesis
    by (rule that [OF run wf _ cap]) (use dat H' blk in \<open>simp_all add: X_def chain_blocks_def c'_def b0_def\<close>)
qed

text \<open>The payload of a padded frame without the padding, as a receiver computes it.\<close>

definition unpad :: "nghttp2_frame_hd \<times> bytes \<Rightarrow> bytes" where
  "unpad = (\<lambda>(h, p).
     (if hd_flags h AND NGHTTP2_FLAG_PADDED \<noteq> 0
      then (let trail = nghttp2_frame_trail_padlen h (unat (hd p) + 1) in take (length p - 1 - trail) (tl p))
      else p))"

lemma or_padded: "(x OR NGHTTP2_FLAG_PADDED) AND NGHTTP2_FLAG_PADDED \<noteq> (0 :: byte)"
proof -
  have "(x OR NGHTTP2_FLAG_PADDED) AND NGHTTP2_FLAG_PADDED = NGHTTP2_FLAG_PADDED"
    by (rule bit_word_eqI) (auto simp: bit_and_iff bit_or_iff)
  then show ?thesis by (simp add: NGHTTP2_FLAG_PADDED_def)
qed

text \<open>
  C29. A padded frame is one frame longer by the padding, and its payload without the padding is the one
  before.
\<close>

theorem add_pad_roundtrip:
  assumes "bufs_wf b" and "bufs_cur b = 0" and "bufs_first b = Inr c" and "1 \<le> buf_pos c"
    and "bufs_content b = nghttp2_frame_pack_frame_hd h @ payload" and "hd_length h = length payload"
    and "0 \<le> hd_stream_id h" and "hd_stream_id h < 2 ^ 31" and "hd_reserved h = 0"
    and "1 \<le> padlen" and "padlen \<le> 256" and "padlen - 1 \<le> nghttp2_buf_avail c"
    and "length payload + padlen < 2 ^ 24"
  shows "\<exists>h' b' p. nghttp2_frame_add_pad b h padlen False = Inr (0, h', b') \<and>
    read_frames (bufs_content b') = Inr [(h', p)] \<and> length p = length payload + padlen \<and> unpad (h', p) = payload"
proof -
  have wf: "buf_wf c" and hd0: "bufs_head b ! 0 = c"
    using assms(1,3) by (auto simp: bufs_first_def bufs_wf_def split: list.splits)
  have curc: "bufs_head b ! bufs_cur b = c" using hd0 assms(2) by simp
  have dat: "buf_data c = nghttp2_frame_pack_frame_hd h @ payload"
    using split_at_cur [OF assms(1)] assms(2,5) hd0 by simp
  have room: "padlen - 1 \<le> nghttp2_buf_cap c - buf_last c" and short: "hd_length h < 2 ^ 24"
    using assms(6,12,13) wf by simp_all
  let ?h = "padded_hd h padlen" and ?p = "word_of_nat (padlen - 1) # payload @ replicate (padlen - 1) 0"
  obtain c' where c': "frame_set_pad c padlen False = Inr c'" "buf_wf c'"
      "buf_data c' = nghttp2_frame_pack_frame_hd ?h @ ?p"
      "nghttp2_buf_cap c' = nghttp2_buf_cap c" "chain_blocks c' = chain_blocks c"
    by (rule frame_set_pad_ok [OF wf assms(4) dat assms(10) room short])
  let ?b = "bufs_set_first b c'"
  have run: "nghttp2_frame_add_pad b h padlen False = Inr (0, ?h, ?b)"
    using assms(3,10,12) c'(1) by (simp add: nghttp2_frame_add_pad_def padded_hd_def)
  have wf': "bufs_wf ?b"
    using set_curE(1) [OF assms(1) c'(2)] c'(4,5) curc set_first_cur [OF assms(2)] by simp
  have "bufs_head ?b ! bufs_cur ?b = c'" "bufs_cur ?b = 0"
    using assms(1,2) by (cases "bufs_head b"; simp add: bufs_set_first_def bufs_wf_def)+
  then have content: "bufs_content ?b = frames_bytes [(?h, ?p)]"
    using split_at_cur [OF wf'] c'(3) by simp
  have lenp: "length ?p = length payload + padlen" using assms(10) by simp
  have "read_frames (bufs_content ?b) = Inr [(?h, ?p)]"
    unfolding content
    by (rule read_frames_bytes)
      (use assms(6-10,13) in \<open>simp add: frame_ok_def hd_ok_def padded_hd_def\<close>)
  moreover have "unpad (?h, ?p) = payload"
  proof -
    have n: "unat (word_of_nat (padlen - 1) :: byte) = padlen - 1"
      unfolding unat_of_nat using assms(11) by simp
    have "nghttp2_frame_trail_padlen ?h padlen = padlen - 1"
      using assms(10) or_padded [of "hd_flags h"] by (simp add: nghttp2_frame_trail_padlen_def padded_hd_def size_sub_def)
    then show ?thesis
      using n assms(10) or_padded [of "hd_flags h"] by (simp add: unpad_def Let_def padded_hd_def)
  qed
  ultimately show ?thesis using run lenp by blast
qed

definition data_frame_bufs :: nghttp2_bufs where
  "data_frame_bufs = \<lparr>bufs_head =
      [\<lparr>buf_block = Some ([0] @ nghttp2_frame_pack_frame_hd (nghttp2_frame_hd_init 2 NGHTTP2_DATA NGHTTP2_FLAG_NONE 1) @ [7, 8]
          @ replicate 8 0), buf_pos = 1, buf_last = 12, buf_mark = 0\<rparr>],
     bufs_cur = 0, bufs_chunk_length = 20, bufs_max_chunk = 1, bufs_chunk_used = 1, bufs_chunk_keep = 1, bufs_offset = 10\<rparr>"

theorem add_pad_roundtrip_witness:
  "\<exists>h' b' p. nghttp2_frame_add_pad data_frame_bufs (nghttp2_frame_hd_init 2 NGHTTP2_DATA NGHTTP2_FLAG_NONE 1) 5 False = Inr (0, h', b') \<and>
     read_frames (bufs_content b') = Inr [(h', p)] \<and> unpad (h', p) = [7, 8]"
proof -
  let ?h = "nghttp2_frame_hd_init 2 NGHTTP2_DATA NGHTTP2_FLAG_NONE 1"
  define c where "c = bufs_head data_frame_bufs ! 0"
  have c: "bufs_first data_frame_bufs = Inr c" by (simp add: c_def data_frame_bufs_def bufs_first_def)
  have wf: "bufs_wf data_frame_bufs" and cur: "bufs_cur data_frame_bufs = 0"
    by code_simp+
  have content: "bufs_content data_frame_bufs = nghttp2_frame_pack_frame_hd ?h @ [7, 8]"
    by code_simp
  have pos: "1 \<le> buf_pos c" and av: "5 - 1 \<le> nghttp2_buf_avail c"
    by (simp_all add: c_def data_frame_bufs_def nghttp2_buf_avail_def size_sub_def nghttp2_buf_cap_def buf_store_def)
  show ?thesis
    using add_pad_roundtrip [OF wf cur c pos content _ _ _ _ _ _ av]
    by (auto simp: nghttp2_frame_hd_init_def)
qed

end
