(* ===== verification/Nghttp2_Helper.thy ===== *)
theory Nghttp2_Helper
  imports Nghttp2_Base
begin

text \<open>
  \<open>nghttp2_helper.c\<close>: lower-casing, the checks of header names and values with their character
  tables, and the arithmetic of flow-control windows.
\<close>

section \<open>Character tables\<close>

definition DOWNCASE_TBL :: "nat list" where
  "DOWNCASE_TBL =
     [0, 1, 2, 3, 4, 5, 6, 7, 8, 9, 10, 11, 12, 13, 14, 15,
      16, 17, 18, 19, 20, 21, 22, 23, 24, 25, 26, 27, 28, 29, 30, 31,
      32, 33, 34, 35, 36, 37, 38, 39, 40, 41, 42, 43, 44, 45, 46, 47,
      48, 49, 50, 51, 52, 53, 54, 55, 56, 57, 58, 59, 60, 61, 62, 63,
      64, 97, 98, 99, 100, 101, 102, 103, 104, 105, 106, 107, 108, 109, 110, 111,
      112, 113, 114, 115, 116, 117, 118, 119, 120, 121, 122, 91, 92, 93, 94, 95,
      96, 97, 98, 99, 100, 101, 102, 103, 104, 105, 106, 107, 108, 109, 110, 111,
      112, 113, 114, 115, 116, 117, 118, 119, 120, 121, 122, 123, 124, 125, 126, 127,
      128, 129, 130, 131, 132, 133, 134, 135, 136, 137, 138, 139, 140, 141, 142, 143,
      144, 145, 146, 147, 148, 149, 150, 151, 152, 153, 154, 155, 156, 157, 158, 159,
      160, 161, 162, 163, 164, 165, 166, 167, 168, 169, 170, 171, 172, 173, 174, 175,
      176, 177, 178, 179, 180, 181, 182, 183, 184, 185, 186, 187, 188, 189, 190, 191,
      192, 193, 194, 195, 196, 197, 198, 199, 200, 201, 202, 203, 204, 205, 206, 207,
      208, 209, 210, 211, 212, 213, 214, 215, 216, 217, 218, 219, 220, 221, 222, 223,
      224, 225, 226, 227, 228, 229, 230, 231, 232, 233, 234, 235, 236, 237, 238, 239,
      240, 241, 242, 243, 244, 245, 246, 247, 248, 249, 250, 251, 252, 253, 254, 255]"

definition VALID_HD_NAME_CHARS :: "nat list" where
  "VALID_HD_NAME_CHARS =
     [0, 0, 0, 0, 0, 0, 0, 0, 0, 0, 0, 0, 0, 0, 0, 0,
      0, 0, 0, 0, 0, 0, 0, 0, 0, 0, 0, 0, 0, 0, 0, 0,
      0, 1, 0, 1, 1, 1, 1, 1, 0, 0, 1, 1, 0, 1, 1, 0,
      1, 1, 1, 1, 1, 1, 1, 1, 1, 1, 0, 0, 0, 0, 0, 0,
      0, 0, 0, 0, 0, 0, 0, 0, 0, 0, 0, 0, 0, 0, 0, 0,
      0, 0, 0, 0, 0, 0, 0, 0, 0, 0, 0, 0, 0, 0, 1, 1,
      1, 1, 1, 1, 1, 1, 1, 1, 1, 1, 1, 1, 1, 1, 1, 1,
      1, 1, 1, 1, 1, 1, 1, 1, 1, 1, 1, 0, 1, 0, 1, 0,
      0, 0, 0, 0, 0, 0, 0, 0, 0, 0, 0, 0, 0, 0, 0, 0,
      0, 0, 0, 0, 0, 0, 0, 0, 0, 0, 0, 0, 0, 0, 0, 0,
      0, 0, 0, 0, 0, 0, 0, 0, 0, 0, 0, 0, 0, 0, 0, 0,
      0, 0, 0, 0, 0, 0, 0, 0, 0, 0, 0, 0, 0, 0, 0, 0,
      0, 0, 0, 0, 0, 0, 0, 0, 0, 0, 0, 0, 0, 0, 0, 0,
      0, 0, 0, 0, 0, 0, 0, 0, 0, 0, 0, 0, 0, 0, 0, 0,
      0, 0, 0, 0, 0, 0, 0, 0, 0, 0, 0, 0, 0, 0, 0, 0,
      0, 0, 0, 0, 0, 0, 0, 0, 0, 0, 0, 0, 0, 0, 0, 0]"

definition VALID_HD_VALUE_CHARS :: "nat list" where
  "VALID_HD_VALUE_CHARS =
     [0, 0, 0, 0, 0, 0, 0, 0, 0, 1, 0, 0, 0, 0, 0, 0,
      0, 0, 0, 0, 0, 0, 0, 0, 0, 0, 0, 0, 0, 0, 0, 0,
      1, 1, 1, 1, 1, 1, 1, 1, 1, 1, 1, 1, 1, 1, 1, 1,
      1, 1, 1, 1, 1, 1, 1, 1, 1, 1, 1, 1, 1, 1, 1, 1,
      1, 1, 1, 1, 1, 1, 1, 1, 1, 1, 1, 1, 1, 1, 1, 1,
      1, 1, 1, 1, 1, 1, 1, 1, 1, 1, 1, 1, 1, 1, 1, 1,
      1, 1, 1, 1, 1, 1, 1, 1, 1, 1, 1, 1, 1, 1, 1, 1,
      1, 1, 1, 1, 1, 1, 1, 1, 1, 1, 1, 1, 1, 1, 1, 0,
      1, 1, 1, 1, 1, 1, 1, 1, 1, 1, 1, 1, 1, 1, 1, 1,
      1, 1, 1, 1, 1, 1, 1, 1, 1, 1, 1, 1, 1, 1, 1, 1,
      1, 1, 1, 1, 1, 1, 1, 1, 1, 1, 1, 1, 1, 1, 1, 1,
      1, 1, 1, 1, 1, 1, 1, 1, 1, 1, 1, 1, 1, 1, 1, 1,
      1, 1, 1, 1, 1, 1, 1, 1, 1, 1, 1, 1, 1, 1, 1, 1,
      1, 1, 1, 1, 1, 1, 1, 1, 1, 1, 1, 1, 1, 1, 1, 1,
      1, 1, 1, 1, 1, 1, 1, 1, 1, 1, 1, 1, 1, 1, 1, 1,
      1, 1, 1, 1, 1, 1, 1, 1, 1, 1, 1, 1, 1, 1, 1, 1]"

definition VALID_METHOD_CHARS :: "nat list" where
  "VALID_METHOD_CHARS =
     [0, 0, 0, 0, 0, 0, 0, 0, 0, 0, 0, 0, 0, 0, 0, 0,
      0, 0, 0, 0, 0, 0, 0, 0, 0, 0, 0, 0, 0, 0, 0, 0,
      0, 1, 0, 1, 1, 1, 1, 1, 0, 0, 1, 1, 0, 1, 1, 0,
      1, 1, 1, 1, 1, 1, 1, 1, 1, 1, 0, 0, 0, 0, 0, 0,
      0, 1, 1, 1, 1, 1, 1, 1, 1, 1, 1, 1, 1, 1, 1, 1,
      1, 1, 1, 1, 1, 1, 1, 1, 1, 1, 1, 0, 0, 0, 1, 1,
      1, 1, 1, 1, 1, 1, 1, 1, 1, 1, 1, 1, 1, 1, 1, 1,
      1, 1, 1, 1, 1, 1, 1, 1, 1, 1, 1, 0, 1, 0, 1, 0,
      0, 0, 0, 0, 0, 0, 0, 0, 0, 0, 0, 0, 0, 0, 0, 0,
      0, 0, 0, 0, 0, 0, 0, 0, 0, 0, 0, 0, 0, 0, 0, 0,
      0, 0, 0, 0, 0, 0, 0, 0, 0, 0, 0, 0, 0, 0, 0, 0,
      0, 0, 0, 0, 0, 0, 0, 0, 0, 0, 0, 0, 0, 0, 0, 0,
      0, 0, 0, 0, 0, 0, 0, 0, 0, 0, 0, 0, 0, 0, 0, 0,
      0, 0, 0, 0, 0, 0, 0, 0, 0, 0, 0, 0, 0, 0, 0, 0,
      0, 0, 0, 0, 0, 0, 0, 0, 0, 0, 0, 0, 0, 0, 0, 0,
      0, 0, 0, 0, 0, 0, 0, 0, 0, 0, 0, 0, 0, 0, 0, 0]"

definition VALID_PATH_CHARS :: "nat list" where
  "VALID_PATH_CHARS =
     [0, 0, 0, 0, 0, 0, 0, 0, 0, 0, 0, 0, 0, 0, 0, 0,
      0, 0, 0, 0, 0, 0, 0, 0, 0, 0, 0, 0, 0, 0, 0, 0,
      0, 1, 1, 1, 1, 1, 1, 1, 1, 1, 1, 1, 1, 1, 1, 1,
      1, 1, 1, 1, 1, 1, 1, 1, 1, 1, 1, 1, 1, 1, 1, 1,
      1, 1, 1, 1, 1, 1, 1, 1, 1, 1, 1, 1, 1, 1, 1, 1,
      1, 1, 1, 1, 1, 1, 1, 1, 1, 1, 1, 1, 1, 1, 1, 1,
      1, 1, 1, 1, 1, 1, 1, 1, 1, 1, 1, 1, 1, 1, 1, 1,
      1, 1, 1, 1, 1, 1, 1, 1, 1, 1, 1, 1, 1, 1, 1, 0,
      1, 1, 1, 1, 1, 1, 1, 1, 1, 1, 1, 1, 1, 1, 1, 1,
      1, 1, 1, 1, 1, 1, 1, 1, 1, 1, 1, 1, 1, 1, 1, 1,
      1, 1, 1, 1, 1, 1, 1, 1, 1, 1, 1, 1, 1, 1, 1, 1,
      1, 1, 1, 1, 1, 1, 1, 1, 1, 1, 1, 1, 1, 1, 1, 1,
      1, 1, 1, 1, 1, 1, 1, 1, 1, 1, 1, 1, 1, 1, 1, 1,
      1, 1, 1, 1, 1, 1, 1, 1, 1, 1, 1, 1, 1, 1, 1, 1,
      1, 1, 1, 1, 1, 1, 1, 1, 1, 1, 1, 1, 1, 1, 1, 1,
      1, 1, 1, 1, 1, 1, 1, 1, 1, 1, 1, 1, 1, 1, 1, 1]"

definition VALID_AUTHORITY_CHARS :: "nat list" where
  "VALID_AUTHORITY_CHARS =
     [0, 0, 0, 0, 0, 0, 0, 0, 0, 0, 0, 0, 0, 0, 0, 0,
      0, 0, 0, 0, 0, 0, 0, 0, 0, 0, 0, 0, 0, 0, 0, 0,
      0, 1, 0, 0, 1, 1, 1, 1, 1, 1, 1, 1, 1, 1, 1, 0,
      1, 1, 1, 1, 1, 1, 1, 1, 1, 1, 1, 1, 0, 1, 0, 0,
      1, 1, 1, 1, 1, 1, 1, 1, 1, 1, 1, 1, 1, 1, 1, 1,
      1, 1, 1, 1, 1, 1, 1, 1, 1, 1, 1, 1, 0, 1, 0, 1,
      0, 1, 1, 1, 1, 1, 1, 1, 1, 1, 1, 1, 1, 1, 1, 1,
      1, 1, 1, 1, 1, 1, 1, 1, 1, 1, 1, 0, 0, 0, 1, 0,
      0, 0, 0, 0, 0, 0, 0, 0, 0, 0, 0, 0, 0, 0, 0, 0,
      0, 0, 0, 0, 0, 0, 0, 0, 0, 0, 0, 0, 0, 0, 0, 0,
      0, 0, 0, 0, 0, 0, 0, 0, 0, 0, 0, 0, 0, 0, 0, 0,
      0, 0, 0, 0, 0, 0, 0, 0, 0, 0, 0, 0, 0, 0, 0, 0,
      0, 0, 0, 0, 0, 0, 0, 0, 0, 0, 0, 0, 0, 0, 0, 0,
      0, 0, 0, 0, 0, 0, 0, 0, 0, 0, 0, 0, 0, 0, 0, 0,
      0, 0, 0, 0, 0, 0, 0, 0, 0, 0, 0, 0, 0, 0, 0, 0,
      0, 0, 0, 0, 0, 0, 0, 0, 0, 0, 0, 0, 0, 0, 0, 0]"

section \<open>Names and values\<close>

definition tbl :: "nat list \<Rightarrow> byte \<Rightarrow> bool" where
  "tbl t b \<longleftrightarrow> t ! unat b \<noteq> 0"

definition nghttp2_downcase :: "byte list \<Rightarrow> byte list" where
  "nghttp2_downcase s = map (\<lambda>b. word_of_nat (DOWNCASE_TBL ! unat b)) s"

definition nghttp2_check_header_name :: "byte list \<Rightarrow> bool" where
  "nghttp2_check_header_name name =
     (if name = [] then False
      else if hd name = 58
      then (if length name = 1 then False else list_all (tbl VALID_HD_NAME_CHARS) (tl name))
      else list_all (tbl VALID_HD_NAME_CHARS) name)"

definition nghttp2_check_header_value :: "byte list \<Rightarrow> bool" where
  "nghttp2_check_header_value v = list_all (tbl VALID_HD_VALUE_CHARS) v"

definition nghttp2_check_header_value_rfc9113 :: "byte list \<Rightarrow> bool" where
  "nghttp2_check_header_value_rfc9113 v =
     (if v = [] then True
      else if hd v = 32 \<or> hd v = 9 \<or> last v = 32 \<or> last v = 9 then False
      else nghttp2_check_header_value v)"

definition nghttp2_check_method :: "byte list \<Rightarrow> bool" where
  "nghttp2_check_method v = (if v = [] then False else list_all (tbl VALID_METHOD_CHARS) v)"

definition nghttp2_check_path :: "byte list \<Rightarrow> bool" where
  "nghttp2_check_path v = list_all (tbl VALID_PATH_CHARS) v"

definition nghttp2_check_authority :: "byte list \<Rightarrow> bool" where
  "nghttp2_check_authority v = list_all (tbl VALID_AUTHORITY_CHARS) v"

section \<open>Flow-control windows\<close>

text \<open>
  The four quantities \<open>local_window_size\<close>, \<open>recv_window_size\<close>, \<open>recv_reduction\<close> and \<open>delta\<close>, all
  32-bit \<open>int\<close> behind pointers.
\<close>

record windows =
  local_window_size :: int
  recv_window_size :: int
  recv_reduction :: int
  win_delta :: int

definition NGHTTP2_MAX_WINDOW_SIZE :: int where
  "NGHTTP2_MAX_WINDOW_SIZE = 2147483647"

definition nghttp2_adjust_local_window_size :: "windows \<Rightarrow> (int \<times> windows) res" where
  "nghttp2_adjust_local_window_size v =
     (if 0 < win_delta v then
        res_bind (i32 (max 0 (recv_window_size v) - win_delta v)) (\<lambda>new_recv_window_size.
        if 0 \<le> new_recv_window_size then Inr (0, v\<lparr>recv_window_size := new_recv_window_size\<rparr>)
        else
          res_bind (i32 (- new_recv_window_size)) (\<lambda>delta.
          res_bind (i32 (NGHTTP2_MAX_WINDOW_SIZE - delta)) (\<lambda>room.
          if room < local_window_size v then Inr (NGHTTP2_ERR_FLOW_CONTROL, v)
          else
            res_bind (i32 (local_window_size v + delta)) (\<lambda>l.
            (let recv_reduction_delta = min (recv_reduction v) delta
             in res_bind (i32 (recv_reduction v - recv_reduction_delta)) (\<lambda>red.
                res_bind (if recv_window_size v < 0 then i32 (recv_window_size v + recv_reduction_delta)
                          else Inr recv_reduction_delta) (\<lambda>r.
                res_bind (i32 (win_delta v - recv_reduction_delta)) (\<lambda>d.
                Inr (0, \<lparr>local_window_size = l, recv_window_size = r, recv_reduction = red, win_delta = d\<rparr>)))))))))
      else
        res_bind (i32 (local_window_size v + win_delta v)) (\<lambda>l.
        res_bind (i32 (INT32_MIN - win_delta v)) (\<lambda>lo.
        res_bind (i32 (INT32_MAX + win_delta v)) (\<lambda>hi.
        if l < 0 \<or> recv_window_size v < lo \<or> hi < recv_reduction v then Inr (NGHTTP2_ERR_FLOW_CONTROL, v)
        else
          res_bind (i32 (recv_window_size v + win_delta v)) (\<lambda>r.
          res_bind (i32 (recv_reduction v - win_delta v)) (\<lambda>red.
          Inr (0, \<lparr>local_window_size = l, recv_window_size = r, recv_reduction = red, win_delta = 0\<rparr>)))))))"

definition nghttp2_increase_local_window_size :: "windows \<Rightarrow> (int \<times> windows) res" where
  "nghttp2_increase_local_window_size v =
     (let delta = win_delta v
      in if delta < 0 then Inl Assert_Failed
         else
           res_bind (i32 (NGHTTP2_MAX_WINDOW_SIZE - delta)) (\<lambda>room.
           if room < local_window_size v then Inr (NGHTTP2_ERR_FLOW_CONTROL, v)
           else
             res_bind (i32 (local_window_size v + delta)) (\<lambda>l.
             (let recv_reduction_delta = min (recv_reduction v) delta
              in res_bind (i32 (recv_reduction v - recv_reduction_delta)) (\<lambda>red.
                 res_bind (i32 (recv_window_size v + recv_reduction_delta)) (\<lambda>r.
                 res_bind (i32 (win_delta v - recv_reduction_delta)) (\<lambda>d.
                 Inr (0, \<lparr>local_window_size = l, recv_window_size = r, recv_reduction = red, win_delta = d\<rparr>))))))))"

text \<open>C division of a non-negative size by 2 rounds down; a negative one rounds towards zero.\<close>

definition nghttp2_should_send_window_update :: "int \<Rightarrow> int \<Rightarrow> bool" where
  "nghttp2_should_send_window_update local_size recv_size =
     (0 < recv_size \<and> sgn local_size * (\<bar>local_size\<bar> div 2) \<le> recv_size)"

section \<open>What the tables hold\<close>

definition token_char :: "nat \<Rightarrow> bool" where
  "token_char n \<longleftrightarrow> 48 \<le> n \<and> n \<le> 57 \<or> 65 \<le> n \<and> n \<le> 90 \<or> 97 \<le> n \<and> n \<le> 122 \<or>
     n \<in> set [33, 35, 36, 37, 38, 39, 42, 43, 45, 46, 94, 95, 96, 124, 126]"

definition upper_char :: "nat \<Rightarrow> bool" where
  "upper_char n \<longleftrightarrow> 65 \<le> n \<and> n \<le> 90"

text \<open>Going through a table from an index on.\<close>

fun table_all :: "(nat \<Rightarrow> nat \<Rightarrow> bool) \<Rightarrow> nat \<Rightarrow> nat list \<Rightarrow> bool" where
  "table_all P i [] \<longleftrightarrow> True"
| "table_all P i (x # xs) \<longleftrightarrow> P i x \<and> table_all P (i + 1) xs"

lemma table_all_nth: "table_all P i xs \<Longrightarrow> k < length xs \<Longrightarrow> P (i + k) (xs ! k)"
proof (induction P i xs arbitrary: k rule: table_all.induct)
  case (2 P i x xs)
  then show ?case by (cases k) auto
qed simp

lemma table_byte: "table_all P 0 t \<Longrightarrow> length t = 256 \<Longrightarrow> P (unat (b :: byte)) (t ! unat b)"
  using table_all_nth [of P 0 t "unat b"] unsigned_less [of b, where ?'a = nat] by simp

lemma name_table: "tbl VALID_HD_NAME_CHARS b \<longleftrightarrow> token_char (unat b) \<and> \<not> upper_char (unat b)"
  unfolding tbl_def
  by (rule table_byte [of "\<lambda>n x. (x \<noteq> 0) = (token_char n \<and> \<not> upper_char n)"]) code_simp+

lemma method_table: "tbl VALID_METHOD_CHARS b \<longleftrightarrow> token_char (unat b)"
  unfolding tbl_def
  by (rule table_byte [of "\<lambda>n x. (x \<noteq> 0) = token_char n"]) code_simp+

lemma value_table: "tbl VALID_HD_VALUE_CHARS b \<longleftrightarrow> unat b = 9 \<or> 32 \<le> unat b \<and> unat b \<noteq> 127"
  unfolding tbl_def
  by (rule table_byte [of "\<lambda>n x. (x \<noteq> 0) = (n = 9 \<or> 32 \<le> n \<and> n \<noteq> 127)"]) code_simp+

lemma downcase_table: "DOWNCASE_TBL ! unat (b :: byte) = (if upper_char (unat b) then unat b + 32 else unat b)"
  by (rule table_byte [of "\<lambda>n x. x = (if upper_char n then n + 32 else n)"]) code_simp+

text \<open>
  A header name passes the check exactly when it is an optional colon and then a non-empty
  token without capital letters.
\<close>

theorem check_header_name_iff:
  "nghttp2_check_header_name name \<longleftrightarrow>
     (\<exists>t. t \<noteq> [] \<and> (name = t \<or> name = 58 # t) \<and> list_all (\<lambda>b. token_char (unat b) \<and> \<not> upper_char (unat b)) t)"
proof -
  have colon: "\<not> token_char (unat (58 :: byte))" by code_simp
  show ?thesis
    unfolding nghttp2_check_header_name_def list_all_iff name_table
    by (cases name) (use colon in \<open>auto simp: neq_Nil_conv\<close>)
qed

text \<open>Lower-casing moves capital letters by 32 and keeps every other byte.\<close>

lemma downcase_byte:
  "unat (word_of_nat (DOWNCASE_TBL ! unat (b :: byte)) :: byte) = (if upper_char (unat b) then unat b + 32 else unat b)"
  using unsigned_less [of b, where ?'a = nat]
  by (auto simp: downcase_table unat_of_nat upper_char_def)

lemma downcase_not_upper: "\<not> upper_char (unat (word_of_nat (DOWNCASE_TBL ! unat (b :: byte)) :: byte))"
  unfolding downcase_byte by (auto simp: upper_char_def)

lemma downcase_keeps: "\<not> upper_char (unat (b :: byte)) \<Longrightarrow> (word_of_nat (DOWNCASE_TBL ! unat b) :: byte) = b"
  by (simp add: downcase_table)

lemma downcase_token:
  "token_char (unat (b :: byte)) \<Longrightarrow> token_char (unat (word_of_nat (DOWNCASE_TBL ! unat b) :: byte))"
  unfolding downcase_byte by (auto simp: upper_char_def token_char_def)

text \<open>
  Lower-casing makes a method name a valid header name, and is idempotent.
\<close>

theorem downcase_makes_valid:
  assumes "nghttp2_check_method s"
  shows "nghttp2_check_header_name (nghttp2_downcase s) \<and>
    nghttp2_downcase (nghttp2_downcase s) = nghttp2_downcase s \<and>
    length (nghttp2_downcase s) = length s"
proof -
  have s: "s \<noteq> []" "\<forall>b \<in> set s. token_char (unat b)"
    using assms by (auto simp: nghttp2_check_method_def list_all_iff method_table split: if_splits)
  have all: "list_all (tbl VALID_HD_NAME_CHARS) (nghttp2_downcase s)"
    using s(2) downcase_token downcase_not_upper
    by (auto simp: list_all_iff name_table nghttp2_downcase_def)
  have idem: "nghttp2_downcase (nghttp2_downcase s) = nghttp2_downcase s"
    by (simp add: nghttp2_downcase_def downcase_keeps downcase_not_upper)
  have colon: "\<not> tbl VALID_HD_NAME_CHARS 58" by code_simp
  have ne: "nghttp2_downcase s \<noteq> []" using s(1) by (simp add: nghttp2_downcase_def)
  then have "hd (nghttp2_downcase s) \<noteq> 58"
    using all colon by (cases "nghttp2_downcase s") auto
  then have "nghttp2_check_header_name (nghttp2_downcase s)"
    using all ne by (simp add: nghttp2_check_header_name_def)
  then show ?thesis using idem by (simp add: nghttp2_downcase_def)
qed

theorem downcase_makes_valid_witness:
  "nghttp2_check_method [71, 69, 84] \<and> nghttp2_check_header_name (nghttp2_downcase [71, 69, 84])"
proof -
  have m: "nghttp2_check_method [71, 69, 84]" by code_simp
  show ?thesis using downcase_makes_valid [OF m] m by blast
qed

section \<open>Windows\<close>

definition windows_ok :: "windows \<Rightarrow> bool" where
  "windows_ok v \<longleftrightarrow> 0 \<le> local_window_size v \<and> is_i32 (local_window_size v) \<and> is_i32 (recv_window_size v) \<and>
     0 \<le> recv_reduction v \<and> is_i32 (recv_reduction v) \<and> 0 \<le> recv_window_size v + recv_reduction v"

text \<open>
  C39. nghttp2_adjust_local_window_size keeps the windows in range; what the window grows by is accounted
  for between the local window and the receive counter, or the windows are unchanged and a flow-control
  error is returned.
\<close>

theorem adjust_local_window_conserves:
  assumes "windows_ok v" and "is_i32 (win_delta v)"
  shows "\<exists>r v'. nghttp2_adjust_local_window_size v = Inr (r, v') \<and> windows_ok v' \<and>
    (if r = 0
     then 0 \<le> win_delta v' \<and> win_delta v' \<le> max 0 (win_delta v) \<and>
       local_window_size v' - recv_window_size v' = local_window_size v - recv_window_size v + win_delta v'
     else r = NGHTTP2_ERR_FLOW_CONTROL \<and> v' = v)"
proof (cases "0 < win_delta v")
  case True
  then show ?thesis
    using assms
    by (auto simp: nghttp2_adjust_local_window_size_def windows_ok_def NGHTTP2_ERR_FLOW_CONTROL_def
        NGHTTP2_MAX_WINDOW_SIZE_def i32_def i32_defs Let_def)
next
  case False
  then show ?thesis
    using assms
    by (auto simp: nghttp2_adjust_local_window_size_def windows_ok_def NGHTTP2_ERR_FLOW_CONTROL_def
        NGHTTP2_MAX_WINDOW_SIZE_def i32_def i32_defs Let_def)
qed


theorem adjust_local_window_conserves_witness:
  "\<exists>r v'. nghttp2_adjust_local_window_size \<lparr>local_window_size = 65535, recv_window_size = 100, recv_reduction = 50,
      win_delta = 1000\<rparr> = Inr (r, v') \<and> windows_ok v'"
  using adjust_local_window_conserves [of "\<lparr>local_window_size = 65535, recv_window_size = 100, recv_reduction = 50,
      win_delta = 1000\<rparr>"]
  by (auto simp: windows_ok_def i32_defs)

lemma increase_local_window_conserves:
  assumes "windows_ok v" and "0 \<le> win_delta v" and "is_i32 (win_delta v)"
    and "recv_window_size v + win_delta v \<le> INT32_MAX"
  shows "\<exists>r v'. nghttp2_increase_local_window_size v = Inr (r, v') \<and> windows_ok v' \<and>
    (if r = 0
     then 0 \<le> win_delta v' \<and> win_delta v' \<le> win_delta v \<and>
       local_window_size v' = local_window_size v + win_delta v \<and>
       local_window_size v' - recv_window_size v' = local_window_size v - recv_window_size v + win_delta v'
     else r = NGHTTP2_ERR_FLOW_CONTROL \<and> v' = v)"
  using assms
  by (auto simp: nghttp2_increase_local_window_size_def windows_ok_def NGHTTP2_ERR_FLOW_CONTROL_def
      NGHTTP2_MAX_WINDOW_SIZE_def i32_def i32_defs Let_def)

lemma should_send_window_update_half:
  assumes "0 \<le> l"
  shows "nghttp2_should_send_window_update l r \<longleftrightarrow> 0 < r \<and> l \<le> 2 * r + 1"
  using assms by (auto simp: nghttp2_should_send_window_update_def sgn_if)

end
