(* ===== verification/Nghttp2_Nv.thy ===== *)
theory Nghttp2_Nv
  imports Nghttp2_Headers Nghttp2_Helper
begin

text \<open>
  Name/value pairs (nghttp2_frame.c): comparison, the order they are sorted by, and the copy
  that a frame owns.
\<close>

section \<open>Comparison\<close>

text \<open>The sign of \<open>memcmp\<close>: that of the first difference.\<close>

fun cmp_bytes :: "bytes \<Rightarrow> bytes \<Rightarrow> int" where
  "cmp_bytes (x # xs) (y # ys) = (if x < y then - 1 else if y < x then 1 else cmp_bytes xs ys)"
| "cmp_bytes _ _ = 0"

definition c_memcmp :: "bytes option \<Rightarrow> bytes option \<Rightarrow> nat \<Rightarrow> int res" where
  "c_memcmp a b n = res_bind (arr_take a n) (\<lambda>x. res_bind (arr_take b n) (\<lambda>y. Inr (cmp_bytes x y)))"

definition nghttp2_nv_equal :: "nghttp2_nv \<Rightarrow> nghttp2_nv \<Rightarrow> bool res" where
  "nghttp2_nv_equal a b =
     (if nv_namelen a \<noteq> nv_namelen b \<or> nv_valuelen a \<noteq> nv_valuelen b then Inr False
      else
        res_bind
          (if nv_name a = None \<or> nv_name b = None
           then res_bind (c_assert (nv_namelen a = 0)) (\<lambda>_. res_bind (c_assert (nv_namelen b = 0)) (\<lambda>_. Inr 0))
           else c_memcmp (nv_name a) (nv_name b) (nv_namelen a)) (\<lambda>n.
        if n \<noteq> 0 then Inr False
        else
          res_bind
            (if nv_value a = None \<or> nv_value b = None
             then res_bind (c_assert (nv_valuelen a = 0)) (\<lambda>_. res_bind (c_assert (nv_valuelen b = 0)) (\<lambda>_. Inr 0))
             else c_memcmp (nv_value a) (nv_value b) (nv_valuelen a)) (\<lambda>v.
          Inr (v = 0))))"

definition bytes_compar :: "bytes option \<Rightarrow> nat \<Rightarrow> bytes option \<Rightarrow> nat \<Rightarrow> int res" where
  "bytes_compar a alen b blen =
     (if alen = blen then c_memcmp a b alen
      else if alen < blen then
        res_bind (c_memcmp a b alen) (\<lambda>rv. if rv = 0 then Inr (- 1) else Inr rv)
      else
        res_bind (c_memcmp a b blen) (\<lambda>rv. if rv = 0 then Inr 1 else Inr rv))"

definition nghttp2_nv_compare_name :: "nghttp2_nv \<Rightarrow> nghttp2_nv \<Rightarrow> int res" where
  "nghttp2_nv_compare_name lhs rhs = bytes_compar (nv_name lhs) (nv_namelen lhs) (nv_name rhs) (nv_namelen rhs)"

definition nv_compar :: "nghttp2_nv \<Rightarrow> nghttp2_nv \<Rightarrow> int res" where
  "nv_compar a b =
     res_bind (bytes_compar (nv_name a) (nv_namelen a) (nv_name b) (nv_namelen b)) (\<lambda>rv.
     if rv = 0 then bytes_compar (nv_value a) (nv_valuelen a) (nv_value b) (nv_valuelen b) else Inr rv)"

text \<open>A pair whose pointers have the bytes its lengths promise.\<close>

definition nv_wf :: "nghttp2_nv \<Rightarrow> bool" where
  "nv_wf v \<longleftrightarrow> (\<exists>n. arr_take (nv_name v) (nv_namelen v) = Inr n) \<and> (\<exists>w. arr_take (nv_value v) (nv_valuelen v) = Inr w)"

definition ptr_bytes :: "bytes option \<Rightarrow> nat \<Rightarrow> bytes" where
  "ptr_bytes p n = (case p of None \<Rightarrow> [] | Some s \<Rightarrow> take n s)"

definition nv_key :: "nghttp2_nv \<Rightarrow> bytes \<times> bytes" where
  "nv_key v = (ptr_bytes (nv_name v) (nv_namelen v), ptr_bytes (nv_value v) (nv_valuelen v))"

lemma arr_take_ptr: "arr_take p n = Inr x \<Longrightarrow> x = ptr_bytes p n \<and> length x = n"
  by (auto simp: arr_take_def ptr_bytes_def split: option.splits if_splits)

lemma arr_take_shorter: "arr_take p n = Inr x \<Longrightarrow> k \<le> n \<Longrightarrow> arr_take p k = Inr (take k x)"
  by (auto simp: arr_take_def split: option.splits if_splits)

text \<open>Reference: lexicographic comparison of byte strings, a proper prefix being smaller.\<close>

fun lex_less :: "bytes \<Rightarrow> bytes \<Rightarrow> bool" where
  "lex_less _ [] = False"
| "lex_less [] (_ # _) = True"
| "lex_less (x # xs) (y # ys) = (x < y \<or> x = y \<and> lex_less xs ys)"

lemma lex_less_irrefl: "\<not> lex_less x x"
  by (induction x) auto

lemma lex_less_trans: "lex_less x y \<Longrightarrow> lex_less y z \<Longrightarrow> lex_less x z"
proof (induction x y arbitrary: z rule: lex_less.induct)
  case (2 y ys)
  then show ?case by (cases z) auto
next
  case (3 x xs y ys)
  then show ?case by (cases z) auto
qed simp

lemma lex_less_total: "lex_less x y \<or> x = y \<or> lex_less y x"
proof (induction x y rule: lex_less.induct)
  case (1 x)
  then show ?case by (cases x) auto
next
  case (3 x xs y ys)
  then show ?case by auto
qed simp

lemma lex_less_Nil [simp]: "lex_less [] x \<longleftrightarrow> x \<noteq> []"
  by (cases x) auto

lemma cmp_bytes_lex:
  assumes "length x = length y"
  shows "cmp_bytes x y = (if x = y then 0 else if lex_less x y then - 1 else 1)"
  using assms by (induction x y rule: cmp_bytes.induct) auto

lemma lex_less_prefix:
  "length x = length y \<Longrightarrow> lex_less (x @ u) (y @ w) \<longleftrightarrow> lex_less x y \<or> x = y \<and> lex_less u w"
  by (induction x y rule: cmp_bytes.induct) auto

definition lex_sign :: "bytes \<Rightarrow> bytes \<Rightarrow> int" where
  "lex_sign x y = (if x = y then 0 else if lex_less x y then - 1 else 1)"

lemma lex_sign_prefix:
  assumes "length x = length y"
  shows "lex_sign (x @ u) (y @ w) = (if x = y then lex_sign u w else lex_sign x y)"
  using assms by (auto simp: lex_sign_def lex_less_prefix lex_less_irrefl)

lemma bytes_compar_lex:
  assumes "arr_take a m = Inr x" and "arr_take b n = Inr y"
  shows "bytes_compar a m b n = Inr (lex_sign x y)"
proof -
  have len: "length x = m" "length y = n" using arr_take_ptr assms by blast+
  consider "m = n" | "m < n" | "n < m" by linarith
  then show ?thesis
  proof cases
    case 1
    then show ?thesis
      using assms len by (simp add: bytes_compar_def c_memcmp_def cmp_bytes_lex lex_sign_def)
  next
    case 2
    have t: "arr_take b m = Inr (take m y)" by (rule arr_take_shorter [OF assms(2)]) (use 2 in simp)
    have ne: "drop m y \<noteq> []" using 2 len by simp
    have "lex_sign x (take m y @ drop m y) = (if x = take m y then - 1 else lex_sign x (take m y))"
      using lex_sign_prefix [of x "take m y" "[]" "drop m y"] ne 2 len
      by (auto simp: lex_sign_def)
    then show ?thesis
      using 2 assms t len cmp_bytes_lex [of x "take m y"]
      by (auto simp: bytes_compar_def c_memcmp_def lex_sign_def)
  next
    case 3
    have t: "arr_take a n = Inr (take n x)" by (rule arr_take_shorter [OF assms(1)]) (use 3 in simp)
    have ne: "drop n x \<noteq> []" using 3 len by simp
    have "lex_sign (take n x @ drop n x) y = (if take n x = y then 1 else lex_sign (take n x) y)"
      using lex_sign_prefix [of "take n x" y "drop n x" "[]"] ne 3 len
      by (auto simp: lex_sign_def)
    then show ?thesis
      using 3 assms t len cmp_bytes_lex [of "take n x" y]
      by (auto simp: bytes_compar_def c_memcmp_def lex_sign_def)
  qed
qed

text \<open>
  The comparison handed to the sort is the lexicographic order of name and then value: it never
  leaves the memory of well-formed pairs, is antisymmetric and transitive, and calls two pairs
  equal exactly when their names and values are.
\<close>

definition pair_less :: "bytes \<times> bytes \<Rightarrow> bytes \<times> bytes \<Rightarrow> bool" where
  "pair_less p q \<longleftrightarrow> lex_less (fst p) (fst q) \<or> fst p = fst q \<and> lex_less (snd p) (snd q)"

text \<open>
  The comparison used to sort name/value pairs is the lexicographic order of name and value, antisymmetric, and zero exactly on equal pairs.
\<close>

theorem nv_compar_lex:
  assumes "nv_wf a" and "nv_wf b"
  shows "\<exists>r. nv_compar a b = Inr r \<and> (r < 0 \<longleftrightarrow> pair_less (nv_key a) (nv_key b)) \<and> (r = 0 \<longleftrightarrow> nv_key a = nv_key b) \<and>
    nv_compar b a = Inr (- r)"
proof -
  obtain n w n' w' where t: "arr_take (nv_name a) (nv_namelen a) = Inr n" "arr_take (nv_value a) (nv_valuelen a) = Inr w"
      "arr_take (nv_name b) (nv_namelen b) = Inr n'" "arr_take (nv_value b) (nv_valuelen b) = Inr w'"
    using assms by (auto simp: nv_wf_def)
  have k: "nv_key a = (n, w)" "nv_key b = (n', w')" using arr_take_ptr t by (auto simp: nv_key_def)
  have asym: "\<not> lex_less y x" if "lex_less x y" for x y
    using lex_less_trans [OF that, of x] lex_less_irrefl [of x] by blast
  have anti: "lex_sign y x = - lex_sign x y" for x y
    using lex_less_total [of x y] asym [of x y] lex_less_irrefl [of x] by (auto simp: lex_sign_def)
  have z: "lex_sign x y = 0 \<longleftrightarrow> x = y" and s: "lex_sign x y < 0 \<longleftrightarrow> lex_less x y" for x y
    by (auto simp: lex_sign_def lex_less_irrefl)
  have ab: "nv_compar a b = Inr (if n = n' then lex_sign w w' else lex_sign n n')"
    "nv_compar b a = Inr (- (if n = n' then lex_sign w w' else lex_sign n n'))"
    using t anti [of n n'] anti [of w w'] by (auto simp: nv_compar_def bytes_compar_lex z)
  show ?thesis
    unfolding ab k pair_less_def by (auto simp: z s lex_less_irrefl)
qed

theorem nv_compar_lex_witness:
  "\<exists>r. nv_compar \<lparr>nv_name = Some [97], nv_value = Some [49], nv_namelen = 1, nv_valuelen = 1, nv_flags = 0\<rparr>
       \<lparr>nv_name = Some [97, 98], nv_value = None, nv_namelen = 2, nv_valuelen = 0, nv_flags = 0\<rparr> = Inr r \<and> r < 0"
proof -
  let ?a = "\<lparr>nv_name = Some [97], nv_value = Some [49], nv_namelen = 1, nv_valuelen = 1, nv_flags = 0\<rparr>"
  let ?b = "\<lparr>nv_name = Some [97, 98], nv_value = None, nv_namelen = 2, nv_valuelen = 0, nv_flags = 0\<rparr>"
  have "nv_wf ?a" "nv_wf ?b" by (simp_all add: nv_wf_def arr_take_def)
  moreover have "pair_less (nv_key ?a) (nv_key ?b)" by code_simp
  ultimately show ?thesis using nv_compar_lex [of ?a ?b] by blast
qed

section \<open>The copy of an array of pairs\<close>

text \<open>
  A copied string is an offset into the new block; one that is not copied stays the pointer of
  the caller.
\<close>

datatype nv_ref = In_Block nat | Borrowed "bytes option"

record nv_copy =
  copy_name :: nv_ref
  copy_value :: nv_ref
  copy_namelen :: nat
  copy_valuelen :: nat
  copy_flags :: byte

definition NGHTTP2_NV_FLAG_NO_COPY_NAME :: byte where "NGHTTP2_NV_FLAG_NO_COPY_NAME = 2"
definition NGHTTP2_NV_FLAG_NO_COPY_VALUE :: byte where "NGHTTP2_NV_FLAG_NO_COPY_VALUE = 4"
definition SIZEOF_NV :: nat where "SIZEOF_NV = 40"

definition no_copy_name :: "nghttp2_nv \<Rightarrow> bool" where
  "no_copy_name v \<longleftrightarrow> nv_flags v AND NGHTTP2_NV_FLAG_NO_COPY_NAME \<noteq> 0"

definition no_copy_value :: "nghttp2_nv \<Rightarrow> bool" where
  "no_copy_value v \<longleftrightarrow> nv_flags v AND NGHTTP2_NV_FLAG_NO_COPY_VALUE \<noteq> 0"

fun nv_buflen :: "nghttp2_nv list \<Rightarrow> nat" where
  "nv_buflen [] = 0"
| "nv_buflen (v # vs) =
     (if no_copy_name v then 0 else nv_namelen v + 1) + (if no_copy_value v then 0 else nv_valuelen v + 1) + nv_buflen vs"

text \<open>One string: its bytes and a terminating zero at \<open>data\<close>.\<close>

definition copy_string :: "bytes \<Rightarrow> nat \<Rightarrow> bytes option \<Rightarrow> nat \<Rightarrow> bytes res" where
  "copy_string blk data p n =
     res_bind (if n \<noteq> 0 then res_bind (arr_take p n) (\<lambda>d. wr blk data d) else Inr blk) (\<lambda>blk1.
     wr blk1 (data + n) [0])"

fun nv_copy_loop :: "nghttp2_nv list \<Rightarrow> bytes \<Rightarrow> nat \<Rightarrow> (nv_copy list \<times> bytes) res" where
  "nv_copy_loop [] blk data = Inr ([], blk)"
| "nv_copy_loop (v # vs) blk data =
     res_bind
       (if no_copy_name v then Inr (Borrowed (nv_name v), blk, data)
        else
          res_bind (copy_string blk data (nv_name v) (nv_namelen v)) (\<lambda>blk1.
          res_bind (rd blk1 data (nv_namelen v)) (\<lambda>s.
          res_bind (wr blk1 data (nghttp2_downcase s)) (\<lambda>blk2.
          Inr (In_Block data, blk2, data + nv_namelen v + 1))))) (\<lambda>(name, blk1, data1).
     res_bind
       (if no_copy_value v then Inr (Borrowed (nv_value v), blk1, data1)
        else
          res_bind (copy_string blk1 data1 (nv_value v) (nv_valuelen v)) (\<lambda>blk2.
          Inr (In_Block data1, blk2, data1 + nv_valuelen v + 1))) (\<lambda>(value, blk2, data2).
     res_bind (nv_copy_loop vs blk2 data2) (\<lambda>(cs, blk3).
     Inr (\<lparr>copy_name = name, copy_value = value, copy_namelen = nv_namelen v, copy_valuelen = nv_valuelen v,
       copy_flags = nv_flags v\<rparr> # cs, blk3))))"

definition nghttp2_nv_array_copy ::
  "nghttp2_nv list option \<Rightarrow> nat \<Rightarrow> memory \<Rightarrow> (int \<times> (nv_copy list \<times> bytes) option \<times> memory) res" where
  "nghttp2_nv_array_copy nva nvlen m =
     (if nvlen = 0 then Inr (0, None, m)
      else
        res_bind (arr_take nva nvlen) (\<lambda>vs.
        (case nghttp2_mem_malloc (nv_buflen vs + SIZEOF_NV * nvlen) m of
           (None, m1) \<Rightarrow> Inr (NGHTTP2_ERR_NOMEM, None, m1)
         | (Some blk, m1) \<Rightarrow>
             res_bind (nv_copy_loop vs blk (SIZEOF_NV * nvlen)) (\<lambda>(cs, blk1). Inr (0, Some (cs, blk1), m1)))))"

text \<open>What the loop writes for a pair, and what it records.\<close>

definition copy_bytes :: "nghttp2_nv \<Rightarrow> bytes" where
  "copy_bytes v =
     (if no_copy_name v then [] else nghttp2_downcase (fst (nv_key v)) @ [0]) @
     (if no_copy_value v then [] else snd (nv_key v) @ [0])"

definition copy_of :: "nat \<Rightarrow> nghttp2_nv \<Rightarrow> nv_copy" where
  "copy_of data v =
     \<lparr>copy_name = (if no_copy_name v then Borrowed (nv_name v) else In_Block data),
      copy_value = (if no_copy_value v then Borrowed (nv_value v)
        else In_Block (data + (if no_copy_name v then 0 else nv_namelen v + 1))),
      copy_namelen = nv_namelen v, copy_valuelen = nv_valuelen v, copy_flags = nv_flags v\<rparr>"

fun copies_of :: "nat \<Rightarrow> nghttp2_nv list \<Rightarrow> nv_copy list" where
  "copies_of data [] = []"
| "copies_of data (v # vs) = copy_of data v # copies_of (data + length (copy_bytes v)) vs"

lemma downcase_length [simp]: "length (nghttp2_downcase s) = length s"
  by (simp add: nghttp2_downcase_def)

lemma nv_wf_key:
  assumes "nv_wf v"
  shows "arr_take (nv_name v) (nv_namelen v) = Inr (fst (nv_key v))" and "length (fst (nv_key v)) = nv_namelen v"
    and "arr_take (nv_value v) (nv_valuelen v) = Inr (snd (nv_key v))" and "length (snd (nv_key v)) = nv_valuelen v"
  using assms arr_take_ptr by (auto simp: nv_wf_def nv_key_def)

lemma copy_bytes_length: "nv_wf v \<Longrightarrow> nv_buflen (v # vs) = length (copy_bytes v) + nv_buflen vs"
  using nv_wf_key [of v] by (simp add: copy_bytes_def)

lemma copy_string_ok:
  assumes "arr_take p n = Inr s" and "length s = n" and "data + n + 1 \<le> length blk"
  shows "copy_string blk data p n = Inr (take data blk @ s @ 0 # drop (data + n + 1) blk)"
  using assms by (auto simp: copy_string_def wr_def)

lemma copy_pair:
  assumes "nv_wf v" and "data + length (copy_bytes v) \<le> length blk"
  shows "nv_copy_loop (v # vs) blk data =
    res_bind (nv_copy_loop vs (take data blk @ copy_bytes v @ drop (data + length (copy_bytes v)) blk)
      (data + length (copy_bytes v))) (\<lambda>(cs, blk3). Inr (copy_of data v # cs, blk3))"
proof -
  let ?n = "fst (nv_key v)" and ?w = "snd (nv_key v)" and ?nl = "nv_namelen v" and ?vl = "nv_valuelen v"
  note key = nv_wf_key [OF assms(1)]
  define nb where "nb = (if no_copy_name v then [] else nghttp2_downcase ?n @ [0 :: byte])"
  define vb where "vb = (if no_copy_value v then [] else ?w @ [0 :: byte])"
  have cb: "copy_bytes v = nb @ vb" by (simp add: copy_bytes_def nb_def vb_def)
  define blk1 where "blk1 = take data blk @ nb @ drop (data + length nb) blk"
  have len1: "length blk1 = length blk" using assms(2) cb by (simp add: blk1_def)
  have name: "(if no_copy_name v then Inr (Borrowed (nv_name v), blk, data)
        else
          res_bind (copy_string blk data (nv_name v) ?nl) (\<lambda>blk1.
          res_bind (rd blk1 data ?nl) (\<lambda>s.
          res_bind (wr blk1 data (nghttp2_downcase s)) (\<lambda>blk2.
          Inr (In_Block data, blk2, data + ?nl + 1))))) =
      Inr (copy_name (copy_of data v), blk1, data + length nb)"
  proof (cases "no_copy_name v")
    case True
    then show ?thesis by (simp add: copy_of_def blk1_def nb_def)
  next
    case False
    have fit: "data + ?nl + 1 \<le> length blk" using assms(2) cb False key(2) by (simp add: nb_def)
    have "copy_string blk data (nv_name v) ?nl = Inr (take data blk @ ?n @ 0 # drop (data + ?nl + 1) blk)"
      by (rule copy_string_ok [OF key(1,2) fit])
    moreover have "rd (take data blk @ ?n @ 0 # drop (data + ?nl + 1) blk) data ?nl = Inr ?n"
      using fit key(2) by (intro rd_mid) simp_all
    moreover have "wr (take data blk @ ?n @ 0 # drop (data + ?nl + 1) blk) data (nghttp2_downcase ?n) =
        Inr (take data blk @ nghttp2_downcase ?n @ 0 # drop (data + ?nl + 1) blk)"
      using fit by (intro wr_mid) simp_all
    ultimately show ?thesis using False key(2) by (simp add: copy_of_def blk1_def nb_def)
  qed
  have valu: "(if no_copy_value v then Inr (Borrowed (nv_value v), blk1, data + length nb)
        else
          res_bind (copy_string blk1 (data + length nb) (nv_value v) ?vl) (\<lambda>blk2.
          Inr (In_Block (data + length nb), blk2, data + length nb + ?vl + 1))) =
      Inr (copy_value (copy_of data v), take data blk @ copy_bytes v @ drop (data + length (copy_bytes v)) blk,
        data + length (copy_bytes v))"
  proof (cases "no_copy_value v")
    case True
    then show ?thesis by (simp add: copy_of_def cb blk1_def vb_def)
  next
    case False
    have fit: "data + length nb + ?vl + 1 \<le> length blk1" using assms(2) cb False key(4) len1 by (simp add: vb_def)
    have "copy_string blk1 (data + length nb) (nv_value v) ?vl =
        Inr (take (data + length nb) blk1 @ ?w @ 0 # drop (data + length nb + ?vl + 1) blk1)"
      by (rule copy_string_ok [OF key(3,4) fit])
    moreover have "take (data + length nb) blk1 = take data blk @ nb"
      using assms(2) cb by (simp add: blk1_def)
    moreover have "drop (data + length nb + ?vl + 1) blk1 = drop (data + length nb + ?vl + 1) blk"
      using assms(2) cb by (simp add: blk1_def ac_simps)
    moreover have "length nb = (if no_copy_name v then 0 else ?nl + 1)" using key(2) by (simp add: nb_def)
    ultimately show ?thesis using False key(4) by (simp add: copy_of_def cb vb_def add.assoc)
  qed
  have rec: "\<lparr>copy_name = copy_name (copy_of data v), copy_value = copy_value (copy_of data v), copy_namelen = ?nl,
      copy_valuelen = ?vl, copy_flags = nv_flags v\<rparr> = copy_of data v"
    by (simp add: copy_of_def)
  show ?thesis
    unfolding nv_copy_loop.simps name res_bind_Inr prod.case valu rec by (rule refl)
qed

lemma nv_copy_loop_ok:
  assumes "list_all nv_wf vs" and "data + nv_buflen vs \<le> length blk"
  shows "nv_copy_loop vs blk data =
    Inr (copies_of data vs, take data blk @ concat (map copy_bytes vs) @ drop (data + nv_buflen vs) blk)"
  using assms
proof (induction vs arbitrary: blk data)
  case (Cons v vs)
  let ?c = "copy_bytes v"
  have wf: "nv_wf v" using Cons.prems(1) by simp
  have bl: "nv_buflen (v # vs) = length ?c + nv_buflen vs" by (rule copy_bytes_length [OF wf])
  have fit: "data + length ?c + nv_buflen vs \<le> length blk" using Cons.prems(2) bl by simp
  let ?blk = "take data blk @ ?c @ drop (data + length ?c) blk"
  have "nv_copy_loop vs ?blk (data + length ?c) =
      Inr (copies_of (data + length ?c) vs, take (data + length ?c) ?blk @ concat (map copy_bytes vs) @
        drop (data + length ?c + nv_buflen vs) ?blk)"
    by (rule Cons.IH) (use Cons.prems(1) fit in auto)
  moreover have "take (data + length ?c) ?blk = take data blk @ ?c" using fit by simp
  moreover have "drop (data + length ?c + nv_buflen vs) ?blk = drop (data + nv_buflen (v # vs)) blk"
    unfolding bl using fit by (simp add: ac_simps)
  ultimately show ?case
    using copy_pair [OF wf, of data blk vs] fit by (simp del: nv_copy_loop.simps nv_buflen.simps)
qed simp

text \<open>A copied string: its bytes in the block and a zero behind them.\<close>

definition ref_holds :: "bytes \<Rightarrow> nv_ref \<Rightarrow> nat \<Rightarrow> bool \<Rightarrow> bytes option \<Rightarrow> bytes \<Rightarrow> bool" where
  "ref_holds blk r n borrowed p s \<longleftrightarrow>
     (case r of
        Borrowed q \<Rightarrow> borrowed \<and> q = p
      | In_Block off \<Rightarrow> \<not> borrowed \<and> off + n < length blk \<and> take n (drop off blk) = s \<and> blk ! (off + n) = 0)"

definition copy_good :: "bytes \<Rightarrow> nv_copy \<Rightarrow> nghttp2_nv \<Rightarrow> bool" where
  "copy_good blk c v \<longleftrightarrow>
     copy_namelen c = nv_namelen v \<and> copy_valuelen c = nv_valuelen v \<and> copy_flags c = nv_flags v \<and>
     ref_holds blk (copy_name c) (nv_namelen v) (no_copy_name v) (nv_name v) (nghttp2_downcase (fst (nv_key v))) \<and>
     ref_holds blk (copy_value c) (nv_valuelen v) (no_copy_value v) (nv_value v) (snd (nv_key v))"

lemma copy_of_good:
  assumes "nv_wf v" and "length pre = data"
  shows "copy_good (pre @ copy_bytes v @ post) (copy_of data v) v"
  using nv_wf_key(2,4) [OF assms(1)] assms(2)
  by (auto simp: copy_good_def copy_of_def copy_bytes_def ref_holds_def nth_append)

lemma copies_of_good:
  assumes "list_all nv_wf vs" and "length pre = data"
  shows "list_all2 (copy_good (pre @ concat (map copy_bytes vs) @ post)) (copies_of data vs) vs"
  using assms
proof (induction vs arbitrary: pre data)
  case (Cons v vs)
  have "copy_good (pre @ copy_bytes v @ concat (map copy_bytes vs) @ post) (copy_of data v) v"
    by (rule copy_of_good) (use Cons.prems in simp_all)
  moreover have "list_all2 (copy_good ((pre @ copy_bytes v) @ concat (map copy_bytes vs) @ post))
      (copies_of (data + length (copy_bytes v)) vs) vs"
    by (rule Cons.IH) (use Cons.prems in simp_all)
  ultimately show ?case by simp
qed simp

text \<open>
  C31. Copying an array of pairs stays inside the block sized for it and gives zero-terminated lower-cased
  names and values, or the borrowed pointers that the flags ask for.
\<close>

theorem nv_array_copy_spec:
  assumes "arr_take nva n = Inr vs" and "list_all nv_wf vs" and "n \<noteq> 0"
  shows "\<exists>rv out m'. nghttp2_nv_array_copy nva n m = Inr (rv, out, m') \<and>
    (case out of
       None \<Rightarrow> rv = NGHTTP2_ERR_NOMEM
     | Some (cs, blk) \<Rightarrow> rv = 0 \<and> list_all2 (copy_good blk) cs vs)"
proof (cases "nghttp2_mem_malloc (nv_buflen vs + SIZEOF_NV * n) m")
  case (Pair p m1)
  show ?thesis
  proof (cases p)
    case None
    then show ?thesis using Pair assms by (simp add: nghttp2_nv_array_copy_def)
  next
    case (Some blk)
    have len: "length blk = nv_buflen vs + SIZEOF_NV * n"
      using Pair Some by (auto simp: nghttp2_mem_malloc_def split: list.splits option.splits)
    let ?d = "SIZEOF_NV * n"
    have run: "nv_copy_loop vs blk ?d = Inr (copies_of ?d vs, take ?d blk @ concat (map copy_bytes vs) @ drop (?d + nv_buflen vs) blk)"
      by (rule nv_copy_loop_ok [OF assms(2)]) (use len in simp)
    have "list_all2 (copy_good (take ?d blk @ concat (map copy_bytes vs) @ drop (?d + nv_buflen vs) blk)) (copies_of ?d vs) vs"
      by (rule copies_of_good [OF assms(2)]) (use len in simp)
    then show ?thesis using Pair Some assms run by (simp add: nghttp2_nv_array_copy_def)
  qed
qed

theorem nv_array_copy_spec_witness:
  "\<exists>rv out m'. nghttp2_nv_array_copy (Some [\<lparr>nv_name = Some [72, 105], nv_value = Some [49], nv_namelen = 2, nv_valuelen = 1,
       nv_flags = 4\<rparr>]) 1 two_blocks = Inr (rv, out, m') \<and> (out = None \<longrightarrow> rv = NGHTTP2_ERR_NOMEM)"
proof -
  let ?v = "\<lparr>nv_name = Some [72, 105], nv_value = Some [49], nv_namelen = 2, nv_valuelen = 1, nv_flags = 4\<rparr>"
  have "arr_take (Some [?v]) 1 = Inr [?v]" "list_all nv_wf [?v]" "(1 :: nat) \<noteq> 0"
    by (simp_all add: arr_take_def nv_wf_def)
  then show ?thesis using nv_array_copy_spec [of "Some [?v]" 1 "[?v]" two_blocks] by (auto split: option.splits)
qed

end
