(* ===== verification/Nghttp2_Frame_Ext.thy ===== *)
theory Nghttp2_Frame_Ext
  imports Nghttp2_Frame
begin

text \<open>
  The extension frames ALTSVC, ORIGIN and PRIORITY_UPDATE (nghttp2_frame.c).
\<close>

section \<open>Structures\<close>

text \<open>
  A pointer into a block is the memory from there to the end of the block; the payload of an
  extension frame is a pointer to one of the structures.
\<close>

record 'p nghttp2_extension =
  ext_hd :: nghttp2_frame_hd
  ext_payload :: "'p option"

record nghttp2_ext_altsvc =
  altsvc_origin :: "bytes option"
  altsvc_origin_len :: nat
  altsvc_field_value :: "bytes option"
  altsvc_field_value_len :: nat

record nghttp2_ext_priority_update =
  pu_stream_id :: int
  pu_field_value :: "bytes option"
  pu_field_value_len :: nat

record nghttp2_origin_entry =
  oe_origin :: "bytes option"
  oe_origin_len :: nat

record nghttp2_ext_origin =
  origin_nov :: nat
  origin_ov :: "nghttp2_origin_entry list option"

definition deref :: "'a option \<Rightarrow> 'a res" where
  "deref p = (case p of None \<Rightarrow> Inl Null_Deref | Some x \<Rightarrow> Inr x)"

lemma deref_Some [simp]: "deref (Some x) = Inr x"
  by (simp add: deref_def)

definition nghttp2_frame_extension_init :: "byte \<Rightarrow> byte \<Rightarrow> int \<Rightarrow> 'p option \<Rightarrow> 'p nghttp2_extension" where
  "nghttp2_frame_extension_init type flags stream_id payload =
     \<lparr>ext_hd = nghttp2_frame_hd_init 0 type flags stream_id, ext_payload = payload\<rparr>"

section \<open>ALTSVC\<close>

definition nghttp2_frame_altsvc_init ::
  "nghttp2_ext_altsvc nghttp2_extension \<Rightarrow> int \<Rightarrow> bytes option \<Rightarrow> nat \<Rightarrow> bytes option \<Rightarrow> nat
    \<Rightarrow> nghttp2_ext_altsvc nghttp2_extension res" where
  "nghttp2_frame_altsvc_init frame stream_id origin origin_len field_value field_value_len =
     res_bind (deref (ext_payload frame)) (\<lambda>_.
     Inr (frame\<lparr>ext_hd := nghttp2_frame_hd_init (2 + origin_len + field_value_len) NGHTTP2_ALTSVC NGHTTP2_FLAG_NONE stream_id,
       ext_payload := Some \<lparr>altsvc_origin = origin, altsvc_origin_len = origin_len,
         altsvc_field_value = field_value, altsvc_field_value_len = field_value_len\<rparr>\<rparr>))"

definition nghttp2_frame_altsvc_free :: "nghttp2_ext_altsvc nghttp2_extension \<Rightarrow> memory \<Rightarrow> memory" where
  "nghttp2_frame_altsvc_free frame m =
     (case ext_payload frame of None \<Rightarrow> m | Some a \<Rightarrow> nghttp2_mem_free (altsvc_origin a) m)"

definition nghttp2_frame_pack_altsvc ::
  "nghttp2_bufs \<Rightarrow> nghttp2_ext_altsvc nghttp2_extension \<Rightarrow> memory \<Rightarrow> (int \<times> nghttp2_bufs \<times> memory) res" where
  "nghttp2_frame_pack_altsvc bufs frame m =
     res_bind (bufs_first bufs) (\<lambda>buf.
     res_bind (deref (ext_payload frame)) (\<lambda>a.
     res_bind (c_assert (2 + altsvc_origin_len a + altsvc_field_value_len a \<le> nghttp2_buf_avail buf)) (\<lambda>_.
     res_bind (put_frame_hd buf (ext_hd frame)) (\<lambda>buf1.
     res_bind (put_last buf1 (nghttp2_put_uint16be (word_of_nat (altsvc_origin_len a)))) (\<lambda>buf2.
     res_bind (arr_take (altsvc_origin a) (altsvc_origin_len a)) (\<lambda>origin.
     res_bind (nghttp2_bufs_add (bufs_set_first bufs buf2) origin m) (\<lambda>(rv, bufs1, m1).
     res_bind (c_assert (rv = 0)) (\<lambda>_.
     res_bind (arr_take (altsvc_field_value a) (altsvc_field_value_len a)) (\<lambda>field_value.
     res_bind (nghttp2_bufs_add bufs1 field_value m1) (\<lambda>(rv, bufs2, m2).
     res_bind (c_assert (rv = 0)) (\<lambda>_.
     Inr (0, bufs2, m2))))))))))))"

text \<open>The payload is cut at \<open>origin_len\<close>: a pointer behind the payload leaves its block.\<close>

definition nghttp2_frame_unpack_altsvc_payload ::
  "nghttp2_ext_altsvc nghttp2_extension \<Rightarrow> nat \<Rightarrow> bytes \<Rightarrow> nat \<Rightarrow> nghttp2_ext_altsvc nghttp2_extension res" where
  "nghttp2_frame_unpack_altsvc_payload frame origin_len payload payloadlen =
     res_bind (deref (ext_payload frame)) (\<lambda>_.
     if length payload < origin_len then Inl Out_Of_Bounds
     else
       Inr (frame\<lparr>ext_payload := Some \<lparr>altsvc_origin = Some payload, altsvc_origin_len = origin_len,
         altsvc_field_value = Some (drop origin_len payload),
         altsvc_field_value_len = size_sub payloadlen origin_len\<rparr>\<rparr>))"

definition nghttp2_frame_unpack_altsvc_payload2 ::
  "nghttp2_ext_altsvc nghttp2_extension \<Rightarrow> bytes \<Rightarrow> nat \<Rightarrow> memory
    \<Rightarrow> (int \<times> nghttp2_ext_altsvc nghttp2_extension \<times> memory) res" where
  "nghttp2_frame_unpack_altsvc_payload2 frame payload payloadlen m =
     (if payloadlen < 2 then Inr (int NGHTTP2_FRAME_SIZE_ERROR, frame, m)
      else
        res_bind (nghttp2_get_uint16 payload) (\<lambda>origin_len.
        (case nghttp2_mem_malloc (payloadlen - 2) m of
           (None, m1) \<Rightarrow> Inr (NGHTTP2_ERR_NOMEM, frame, m1)
         | (Some buf, m1) \<Rightarrow>
             res_bind (rd payload 2 (payloadlen - 2)) (\<lambda>d.
             res_bind (nghttp2_cpymem buf 0 d) (\<lambda>(buf1, _).
             res_bind (nghttp2_frame_unpack_altsvc_payload frame (unat origin_len) buf1 (payloadlen - 2)) (\<lambda>f.
             Inr (0, f, m1)))))))"

section \<open>PRIORITY_UPDATE\<close>

definition nghttp2_frame_priority_update_init ::
  "nghttp2_ext_priority_update nghttp2_extension \<Rightarrow> int \<Rightarrow> bytes option \<Rightarrow> nat
    \<Rightarrow> nghttp2_ext_priority_update nghttp2_extension res" where
  "nghttp2_frame_priority_update_init frame stream_id field_value field_value_len =
     res_bind (deref (ext_payload frame)) (\<lambda>_.
     Inr (frame\<lparr>ext_hd := nghttp2_frame_hd_init (4 + field_value_len) NGHTTP2_PRIORITY_UPDATE NGHTTP2_FLAG_NONE 0,
       ext_payload := Some \<lparr>pu_stream_id = stream_id, pu_field_value = field_value, pu_field_value_len = field_value_len\<rparr>\<rparr>))"

definition nghttp2_frame_priority_update_free :: "nghttp2_ext_priority_update nghttp2_extension \<Rightarrow> memory \<Rightarrow> memory" where
  "nghttp2_frame_priority_update_free frame m =
     (case ext_payload frame of None \<Rightarrow> m | Some a \<Rightarrow> nghttp2_mem_free (pu_field_value a) m)"

definition nghttp2_frame_pack_priority_update ::
  "nghttp2_bufs \<Rightarrow> nghttp2_ext_priority_update nghttp2_extension \<Rightarrow> memory \<Rightarrow> (int \<times> nghttp2_bufs \<times> memory) res" where
  "nghttp2_frame_pack_priority_update bufs frame m =
     res_bind (deref (ext_payload frame)) (\<lambda>a.
     res_bind (bufs_first bufs) (\<lambda>buf.
     res_bind (c_assert (4 + pu_field_value_len a \<le> nghttp2_buf_avail buf)) (\<lambda>_.
     res_bind (put_frame_hd buf (ext_hd frame)) (\<lambda>buf1.
     res_bind (put_last buf1 (nghttp2_put_uint32be (word_of_int (pu_stream_id a)))) (\<lambda>buf2.
     res_bind (arr_take (pu_field_value a) (pu_field_value_len a)) (\<lambda>d.
     res_bind (nghttp2_bufs_add (bufs_set_first bufs buf2) d m) (\<lambda>(rv, bufs1, m1).
     res_bind (c_assert (rv = 0)) (\<lambda>_. Inr (0, bufs1, m1)))))))))"

definition nghttp2_frame_unpack_priority_update_payload ::
  "nghttp2_ext_priority_update nghttp2_extension \<Rightarrow> bytes \<Rightarrow> nat \<Rightarrow> nghttp2_ext_priority_update nghttp2_extension res" where
  "nghttp2_frame_unpack_priority_update_payload frame payload payloadlen =
     res_bind (c_assert (4 \<le> payloadlen)) (\<lambda>_.
     res_bind (deref (ext_payload frame)) (\<lambda>_.
     res_bind (nghttp2_get_uint32 payload) (\<lambda>sid.
     Inr (frame\<lparr>ext_payload := Some
       (if 4 < payloadlen
        then \<lparr>pu_stream_id = masked_id sid, pu_field_value = Some (drop 4 payload), pu_field_value_len = payloadlen - 4\<rparr>
        else \<lparr>pu_stream_id = masked_id sid, pu_field_value = None, pu_field_value_len = 0\<rparr>)\<rparr>))))"

section \<open>ORIGIN\<close>

definition SIZEOF_ORIGIN_ENTRY :: nat where
  "SIZEOF_ORIGIN_ENTRY = 16"

definition nghttp2_frame_origin_init ::
  "nghttp2_ext_origin nghttp2_extension \<Rightarrow> nghttp2_origin_entry list option \<Rightarrow> nat \<Rightarrow> nghttp2_ext_origin nghttp2_extension res" where
  "nghttp2_frame_origin_init frame ov nov =
     res_bind (arr_take ov nov) (\<lambda>os.
     res_bind (deref (ext_payload frame)) (\<lambda>_.
     Inr (frame\<lparr>ext_hd := nghttp2_frame_hd_init (sum_list (map (\<lambda>e. 2 + oe_origin_len e) os)) NGHTTP2_ORIGIN NGHTTP2_FLAG_NONE 0,
       ext_payload := Some \<lparr>origin_nov = nov, origin_ov = ov\<rparr>\<rparr>)))"

definition nghttp2_frame_origin_free :: "nghttp2_ext_origin nghttp2_extension \<Rightarrow> memory \<Rightarrow> memory" where
  "nghttp2_frame_origin_free frame m =
     (case ext_payload frame of None \<Rightarrow> m | Some a \<Rightarrow> nghttp2_mem_free (map_option (\<lambda>_. []) (origin_ov a)) m)"

fun pack_origins :: "nghttp2_buf \<Rightarrow> nghttp2_origin_entry list \<Rightarrow> nghttp2_buf res" where
  "pack_origins buf [] = Inr buf"
| "pack_origins buf (orig # os) =
     res_bind (put_last buf (nghttp2_put_uint16be (word_of_nat (oe_origin_len orig)))) (\<lambda>buf1.
     res_bind (arr_take (oe_origin orig) (oe_origin_len orig)) (\<lambda>d.
     res_bind (buf_cpy buf1 d) (\<lambda>buf2. pack_origins buf2 os)))"

definition nghttp2_frame_pack_origin ::
  "nghttp2_bufs \<Rightarrow> nghttp2_ext_origin nghttp2_extension \<Rightarrow> (int \<times> nghttp2_bufs) res" where
  "nghttp2_frame_pack_origin bufs frame =
     res_bind (deref (ext_payload frame)) (\<lambda>origin.
     res_bind (bufs_first bufs) (\<lambda>buf.
     if nghttp2_buf_avail buf < hd_length (ext_hd frame) then Inr (NGHTTP2_ERR_FRAME_SIZE_ERROR, bufs)
     else
       res_bind (put_frame_hd buf (ext_hd frame)) (\<lambda>buf1.
       res_bind (arr_take (origin_ov origin) (origin_nov origin)) (\<lambda>os.
       res_bind (pack_origins buf1 os) (\<lambda>buf2.
       res_bind (c_assert (nghttp2_buf_len buf2 = NGHTTP2_FRAME_HDLEN + hd_length (ext_hd frame))) (\<lambda>_.
       Inr (0, bufs_set_first bufs buf2)))))))"

text \<open>
  First pass over the payload: \<open>rest\<close> is \<open>end - p\<close>. The result is the number of entries and
  the bytes their copies need, or none for a malformed payload.
\<close>

function origin_scan :: "bytes \<Rightarrow> nat \<Rightarrow> nat \<Rightarrow> nat \<Rightarrow> (nat \<times> nat) option res" where
  "origin_scan p rest nov len =
     (if rest = 0 then Inr (Some (nov, len))
      else if rest < 2 then Inr None
      else
        (case nghttp2_get_uint16 p of
           Inl e \<Rightarrow> Inl e
         | Inr w \<Rightarrow>
             (let originlen = unat w
              in if originlen = 0 then origin_scan (drop 2 p) (rest - 2) nov len
                 else if rest - 2 < originlen then Inr None
                 else origin_scan (drop originlen (drop 2 p)) (rest - 2 - originlen) (nov + 1) (len + (originlen + 1)))))"
  by pat_completeness auto

termination origin_scan
  by (relation "measure (\<lambda>(p, rest, nov, len). rest)") auto

declare origin_scan.simps [simp del]

text \<open>
  Second pass: every entry gets the offset of its copy in the block and its length; the copies
  go to \<open>dst\<close>, each with a terminating zero. There are \<open>slots\<close> entries left in the array.
\<close>

function origin_copy :: "bytes \<Rightarrow> nat \<Rightarrow> bytes \<Rightarrow> nat \<Rightarrow> nat \<Rightarrow> ((nat \<times> nat) list \<times> bytes) res" where
  "origin_copy p rest blk dst slots =
     (if rest = 0 then Inr ([], blk)
      else if rest < 2 then Inl Out_Of_Bounds
      else
        (case nghttp2_get_uint16 p of
           Inl e \<Rightarrow> Inl e
         | Inr w \<Rightarrow>
             (let originlen = unat w
              in if originlen = 0 then origin_copy (drop 2 p) (rest - 2) blk dst slots
                 else if slots = 0 \<or> rest - 2 < originlen then Inl Out_Of_Bounds
                 else
                   (case nghttp2_cpymem blk dst (take originlen (drop 2 p)) of
                      Inl e \<Rightarrow> Inl e
                    | Inr (blk1, dst1) \<Rightarrow>
                        (case wr blk1 dst1 [0] of
                           Inl e \<Rightarrow> Inl e
                         | Inr blk2 \<Rightarrow>
                             res_bind (origin_copy (drop originlen (drop 2 p)) (rest - 2 - originlen) blk2 (dst1 + 1) (slots - 1))
                               (\<lambda>(es, blk3). Inr ((dst, originlen) # es, blk3)))))))"
  by pat_completeness auto

termination origin_copy
  by (relation "measure (\<lambda>(p, rest, blk, dst, slots). rest)") auto

declare origin_copy.simps [simp del]

definition nghttp2_frame_unpack_origin_payload ::
  "nghttp2_ext_origin nghttp2_extension \<Rightarrow> bytes \<Rightarrow> nat \<Rightarrow> memory
    \<Rightarrow> (int \<times> nghttp2_ext_origin nghttp2_extension \<times> bytes option \<times> memory) res" where
  "nghttp2_frame_unpack_origin_payload frame payload payloadlen m =
     res_bind (origin_scan payload payloadlen 0 0) (\<lambda>scan.
     (case scan of
        None \<Rightarrow> Inr (NGHTTP2_ERR_FRAME_SIZE_ERROR, frame, None, m)
      | Some (nov, len) \<Rightarrow>
          res_bind (deref (ext_payload frame)) (\<lambda>_.
          if nov = 0
          then Inr (0, frame\<lparr>ext_payload := Some \<lparr>origin_nov = 0, origin_ov = None\<rparr>\<rparr>, None, m)
          else
            (case nghttp2_mem_malloc (len + nov * SIZEOF_ORIGIN_ENTRY) m of
               (None, m1) \<Rightarrow> Inr (NGHTTP2_ERR_NOMEM, frame, None, m1)
             | (Some blk, m1) \<Rightarrow>
                 res_bind (origin_copy payload payloadlen blk (nov * SIZEOF_ORIGIN_ENTRY) nov) (\<lambda>(es, blk1).
                 Inr (0, frame\<lparr>ext_payload := Some \<lparr>origin_nov = nov,
                   origin_ov = Some (map (\<lambda>(off, n). \<lparr>oe_origin = Some (drop off blk1), oe_origin_len = n\<rparr>) es)\<rparr>\<rparr>,
                   Some blk1, m1))))))"

section \<open>Reading ORIGIN payloads\<close>

text \<open>
  Reference: the payload as a sequence of length-prefixed strings, empty ones skipped; none for
  a payload that breaks off.
\<close>

function parse_origins :: "bytes \<Rightarrow> bytes list option" where
  "parse_origins [] = Some []"
| "parse_origins [x] = None"
| "parse_origins (a # b # r) =
     (let n = unat (push_bit 8 (ucast a) OR ucast b :: 16 word)
      in if n = 0 then parse_origins r
         else if length r < n then None
         else map_option ((#) (take n r)) (parse_origins (drop n r)))"
  by pat_completeness auto

termination parse_origins
  by (relation "measure length") auto

definition strings_len :: "bytes list \<Rightarrow> nat" where
  "strings_len os = sum_list (map (\<lambda>s. length s + 1) os)"

lemma strings_len_simps [simp]:
  "strings_len [] = 0" "strings_len (s # os) = length s + 1 + strings_len os"
  by (simp_all add: strings_len_def)

lemma origin_scan_parse:
  "origin_scan (p @ r) (length p) nov len =
     Inr (map_option (\<lambda>os. (nov + length os, len + strings_len os)) (parse_origins p))"
proof (induction p arbitrary: nov len rule: parse_origins.induct)
  case 1
  show ?case by (simp add: origin_scan.simps [of r])
next
  case (2 x)
  show ?case by (simp add: origin_scan.simps [of "x # r"])
next
  case (3 a b q)
  let ?n = "unat (push_bit 8 (ucast a) OR ucast b :: 16 word)"
  consider (zero) "?n = 0" | (short) "?n \<noteq> 0" "length q < ?n" | (ok) "?n \<noteq> 0" "?n \<le> length q"
    by linarith
  then show ?case
  proof cases
    case zero
    then show ?thesis
      using "3.IH"(1) [OF refl zero] by (simp add: origin_scan.simps [of "a # b # q @ r"])
  next
    case short
    then show ?thesis by (simp add: origin_scan.simps [of "a # b # q @ r"])
  next
    case ok
    have "origin_scan (drop ?n q @ r) (length q - ?n) (nov + 1) (len + (?n + 1)) =
        Inr (map_option (\<lambda>os. (nov + 1 + length os, len + (?n + 1) + strings_len os)) (parse_origins (drop ?n q)))"
      using "3.IH"(2) [OF refl ok(1), of "nov + 1" "len + (?n + 1)"] ok(2) by simp
    moreover have "\<not> length q < ?n" using ok(2) by simp
    ultimately show ?thesis
      using ok by (simp add: origin_scan.simps [of "a # b # q @ r"] Let_def option.map_comp comp_def min_absorb2 add.assoc)
  qed
qed

fun string_offsets :: "nat \<Rightarrow> bytes list \<Rightarrow> (nat \<times> nat) list" where
  "string_offsets dst [] = []"
| "string_offsets dst (s # os) = (dst, length s) # string_offsets (dst + length s + 1) os"

definition strings_nul :: "bytes list \<Rightarrow> bytes" where
  "strings_nul os = concat (map (\<lambda>s. s @ [0]) os)"

lemma strings_nul_simps [simp]: "strings_nul [] = []" "strings_nul (s # os) = s @ 0 # strings_nul os"
  by (simp_all add: strings_nul_def)

lemma strings_nul_length [simp]: "length (strings_nul os) = strings_len os"
  by (induction os) simp_all

lemma origin_copy_parse:
  assumes "parse_origins p = Some os" and "length os \<le> slots" and "dst + strings_len os \<le> length blk"
  shows "origin_copy (p @ r) (length p) blk dst slots =
    Inr (string_offsets dst os, take dst blk @ strings_nul os @ drop (dst + strings_len os) blk)"
  using assms
proof (induction p arbitrary: os blk dst slots rule: parse_origins.induct)
  case 1
  then show ?case by (simp add: origin_copy.simps [of r])
next
  case (2 x)
  then show ?case by simp
next
  case (3 a b q)
  let ?n = "unat (push_bit 8 (ucast a) OR ucast b :: 16 word)"
  show ?case
  proof (cases "?n = 0")
    case True
    then show ?thesis
      using "3.IH"(1) [OF refl True, of os slots dst blk] "3.prems"
      by (simp add: origin_copy.simps [of "a # b # q @ r"])
  next
    case False
    have le: "?n \<le> length q" using "3.prems"(1) False by (auto simp: Let_def split: if_splits)
    obtain os' where os': "parse_origins (drop ?n q) = Some os'" "os = take ?n q # os'"
      using "3.prems"(1) False le by (auto simp: Let_def)
    let ?s = "take ?n q"
    have s: "length ?s = ?n" "?s \<noteq> []" using le False by auto
    have slots: "slots \<noteq> 0" "length os' \<le> slots - 1" using "3.prems"(2) os'(2) by auto
    have fit: "dst + ?n + 1 + strings_len os' \<le> length blk" using "3.prems"(3) os'(2) s(1) by simp
    let ?b1 = "take dst blk @ ?s @ drop (dst + ?n) blk"
    let ?b2 = "take dst blk @ ?s @ 0 # drop (dst + ?n + 1) blk"
    have c: "nghttp2_cpymem blk dst ?s = Inr (?b1, dst + ?n)"
      using fit s by (simp add: nghttp2_cpymem_def wr_def)
    have w: "wr ?b1 (dst + ?n) [0] = Inr ?b2"
      using fit s by (simp add: wr_def)
    have "origin_copy (drop ?n q @ r) (length q - ?n) ?b2 (dst + ?n + 1) (slots - 1) =
        Inr (string_offsets (dst + ?n + 1) os', take (dst + ?n + 1) ?b2 @ strings_nul os' @
          drop (dst + ?n + 1 + strings_len os') ?b2)"
      using "3.IH"(2) [OF refl False _ os'(1) slots(2), of "dst + ?n + 1" ?b2] fit s le by simp
    moreover have "take (dst + ?n + 1) ?b2 = take dst blk @ ?s @ [0]"
      using fit s by simp
    moreover have "drop (dst + ?n + 1 + strings_len os') ?b2 = drop (dst + ?n + 1 + strings_len os') blk"
      using fit s by (simp add: ac_simps)
    moreover have "take ?n (drop 2 (a # b # q @ r)) = ?s" "drop ?n (drop 2 (a # b # q @ r)) = drop ?n q @ r"
      using le by simp_all
    ultimately show ?thesis
      using False le slots(1) s os'(2) c w
      by (simp add: origin_copy.simps [of "a # b # q @ r"] Let_def add.assoc)
  qed
qed

text \<open>The string of an entry: its bytes, provided a zero byte follows them in its block.\<close>

definition entry_string :: "nghttp2_origin_entry \<Rightarrow> bytes option" where
  "entry_string e =
     (case oe_origin e of
        None \<Rightarrow> None
      | Some s \<Rightarrow> if oe_origin_len e < length s \<and> s ! oe_origin_len e = 0 then Some (take (oe_origin_len e) s) else None)"

definition entry_at :: "bytes \<Rightarrow> nat \<times> nat \<Rightarrow> nghttp2_origin_entry" where
  "entry_at blk = (\<lambda>(off, n). \<lparr>oe_origin = Some (drop off blk), oe_origin_len = n\<rparr>)"

lemma entry_strings:
  "length pre = dst \<Longrightarrow>
   map (\<lambda>x. entry_string (entry_at (pre @ strings_nul os @ post) x)) (string_offsets dst os) = map Some os"
proof (induction os arbitrary: pre dst)
  case (Cons s os)
  have "map (\<lambda>x. entry_string (entry_at ((pre @ s @ [0]) @ strings_nul os @ post) x)) (string_offsets (dst + length s + 1) os) =
      map Some os"
    by (rule Cons.IH) (use Cons.prems in simp)
  then show ?case
    using Cons.prems by (simp add: entry_string_def entry_at_def)
qed simp

lemma malloc_cases:
  obtains (none) m' where "nghttp2_mem_malloc n m = (None, m')"
  | (some) s m' where "nghttp2_mem_malloc n m = (Some s, m')" and "length s = n"
  by (cases "nghttp2_mem_malloc n m"; cases "fst (nghttp2_mem_malloc n m)")
     (auto simp: nghttp2_mem_malloc_def split: list.splits option.splits)

text \<open>
  C22. Reading an ORIGIN payload is total on arbitrary bytes; it refuses malformed payloads, and otherwise
  the entries are the non-empty strings of the payload, zero-terminated.
\<close>

theorem origin_unpack_spec:
  assumes "ext_payload f = Some q"
  shows "\<exists>rv f' blk m'. nghttp2_frame_unpack_origin_payload f p (length p) m = Inr (rv, f', blk, m') \<and>
    (case parse_origins p of
       None \<Rightarrow> rv = NGHTTP2_ERR_FRAME_SIZE_ERROR \<and> f' = f
     | Some os \<Rightarrow>
         rv = NGHTTP2_ERR_NOMEM \<and> f' = f \<and> os \<noteq> [] \<or>
         rv = 0 \<and> (\<exists>o'. ext_payload f' = Some o' \<and> origin_nov o' = length os \<and>
           (case origin_ov o' of None \<Rightarrow> os = [] | Some es \<Rightarrow> map entry_string es = map Some os)))"
proof -
  have scan: "origin_scan p (length p) 0 0 = Inr (map_option (\<lambda>os. (length os, strings_len os)) (parse_origins p))"
    using origin_scan_parse [of p "[]" 0 0] by simp
  show ?thesis
  proof (cases "parse_origins p")
    case None
    then show ?thesis using scan by (simp add: nghttp2_frame_unpack_origin_payload_def)
  next
    case (Some os)
    show ?thesis
    proof (cases "os = []")
      case True
      then show ?thesis using scan Some assms by (simp add: nghttp2_frame_unpack_origin_payload_def)
    next
      case ne: False
      let ?d = "length os * SIZEOF_ORIGIN_ENTRY"
      show ?thesis
      proof (cases rule: malloc_cases [of "strings_len os + ?d" m])
        case (none m1)
        then show ?thesis using scan Some assms ne by (simp add: nghttp2_frame_unpack_origin_payload_def)
      next
        case (some blk m1)
        let ?blk = "take ?d blk @ strings_nul os @ drop (?d + strings_len os) blk"
        have "origin_copy p (length p) blk ?d (length os) = Inr (string_offsets ?d os, ?blk)"
          using origin_copy_parse [OF Some, of "length os" ?d blk "[]"] some(2) by simp
        then have run: "nghttp2_frame_unpack_origin_payload f p (length p) m =
            Inr (0, f\<lparr>ext_payload := Some \<lparr>origin_nov = length os, origin_ov = Some (map (entry_at ?blk) (string_offsets ?d os))\<rparr>\<rparr>,
              Some ?blk, m1)"
          using scan Some assms ne some by (simp add: nghttp2_frame_unpack_origin_payload_def entry_at_def)
        have "map (\<lambda>x. entry_string (entry_at ?blk x)) (string_offsets ?d os) = map Some os"
          by (rule entry_strings) (use some(2) in simp)
        then show ?thesis using run Some by (simp add: comp_def)
      qed
    qed
  qed
qed

definition blank_origin :: "nghttp2_ext_origin nghttp2_extension" where
  "blank_origin = nghttp2_frame_extension_init NGHTTP2_ORIGIN NGHTTP2_FLAG_NONE 0 (Some \<lparr>origin_nov = 0, origin_ov = None\<rparr>)"

theorem origin_unpack_spec_witness:
  "\<exists>rv f' blk m'. nghttp2_frame_unpack_origin_payload blank_origin [0, 2, 104, 105, 0, 9, 1] (length [0, 2, 104, 105, 0, 9, 1 :: byte]) two_blocks
     = Inr (rv, f', blk, m') \<and> rv = NGHTTP2_ERR_FRAME_SIZE_ERROR"
proof -
  have "parse_origins [0, 2, 104, 105, 0, 9, 1] = None" by code_simp
  moreover have "ext_payload blank_origin = Some \<lparr>origin_nov = 0, origin_ov = None\<rparr>"
    by (simp add: blank_origin_def nghttp2_frame_extension_init_def)
  ultimately show ?thesis
    using origin_unpack_spec [of blank_origin _ "[0, 2, 104, 105, 0, 9, 1]" two_blocks] by fastforce
qed

section \<open>Round trip of ORIGIN frames\<close>

definition origin_bytes :: "bytes \<Rightarrow> bytes" where
  "origin_bytes s = nghttp2_put_uint16be (word_of_nat (length s)) @ s"

definition origin_entry :: "bytes \<Rightarrow> nghttp2_origin_entry" where
  "origin_entry s = \<lparr>oe_origin = Some s, oe_origin_len = length s\<rparr>"

lemma origin_bytes_length [simp]: "length (origin_bytes s) = length s + 2"
  by (simp add: origin_bytes_def)

lemma parse_origin_bytes:
  assumes "s \<noteq> []" and "length s < 2 ^ 16"
  shows "parse_origins (origin_bytes s @ r) = map_option ((#) s) (parse_origins r)"
proof -
  obtain a b where ab: "nghttp2_put_uint16be (word_of_nat (length s)) = [a, b]"
    by (simp add: nghttp2_put_uint16be_def)
  have "nghttp2_get_uint16 ([a, b] @ []) = Inr (word_of_nat (length s))"
    unfolding ab [symmetric] by (rule get_put_uint16)
  then have w: "push_bit 8 (ucast a) OR ucast b = (word_of_nat (length s) :: 16 word)" by simp
  have n: "unat (word_of_nat (length s) :: 16 word) = length s"
    unfolding unat_of_nat using assms(2) by simp
  show ?thesis
    using assms(1) by (simp add: origin_bytes_def ab w n)
qed

lemma parse_origins_concat:
  "list_all (\<lambda>s. s \<noteq> [] \<and> length s < 2 ^ 16) os \<Longrightarrow> parse_origins (concat (map origin_bytes os)) = Some os"
  by (induction os) (simp_all add: parse_origin_bytes)

lemma pack_origins_ok:
  assumes "buf_wf c" and "length (concat (map origin_bytes os)) \<le> nghttp2_buf_cap c - buf_last c"
  shows "\<exists>c'. pack_origins c (map origin_entry os) = Inr c' \<and> buf_wf c' \<and>
    buf_data c' = buf_data c @ concat (map origin_bytes os) \<and> nghttp2_buf_cap c' = nghttp2_buf_cap c \<and>
    chain_blocks c' = chain_blocks c"
  using assms
proof (induction os arbitrary: c)
  case (Cons s os)
  let ?x = "nghttp2_put_uint16be (word_of_nat (length s))"
  have le: "buf_last c \<le> nghttp2_buf_cap c" using Cons.prems(1) by (simp add: buf_wf_def)
  have len: "length ?x + length s + length (concat (map origin_bytes os)) \<le> nghttp2_buf_cap c - buf_last c"
    using Cons.prems(2) by simp
  obtain c1 where c1: "buf_cpy c ?x = Inr c1" "buf_wf c1" "buf_data c1 = buf_data c @ ?x"
      "nghttp2_buf_cap c1 = nghttp2_buf_cap c" "buf_last c1 = buf_last c + length ?x" "chain_blocks c1 = chain_blocks c"
    by (rule buf_cpy_wf [OF Cons.prems(1), of ?x]) (use len in auto)
  obtain c2 where c2: "buf_cpy c1 s = Inr c2" "buf_wf c2" "buf_data c2 = buf_data c1 @ s"
      "nghttp2_buf_cap c2 = nghttp2_buf_cap c1" "buf_last c2 = buf_last c1 + length s" "chain_blocks c2 = chain_blocks c1"
    by (rule buf_cpy_wf [OF c1(2), of s]) (use len c1(4,5) in auto)
  have p: "put_last c ?x = Inr c1"
    using put_last_cpy [of c ?x] len le c1(1) by (simp add: nghttp2_put_uint16be_def)
  have t: "arr_take (Some s) (length s) = Inr s" by (simp add: arr_take_def)
  have fit: "length (concat (map origin_bytes os)) \<le> nghttp2_buf_cap c2 - buf_last c2"
    using len c1(4,5) c2(4,5) by simp
  obtain c' where "pack_origins c2 (map origin_entry os) = Inr c'" "buf_wf c'"
      "buf_data c' = buf_data c2 @ concat (map origin_bytes os)" "nghttp2_buf_cap c' = nghttp2_buf_cap c2"
      "chain_blocks c' = chain_blocks c2"
    using Cons.IH [OF c2(2) fit] by blast
  then show ?case
    using p t c1 c2 by (simp add: origin_entry_def [of s] origin_bytes_def [of s])
qed simp

text \<open>
  Packing the origins of a server and reading the frame gives them back in order.
\<close>

theorem origin_frame_roundtrip:
  assumes "frame_ready b" and "length (concat (map origin_bytes os)) \<le> first_room b"
    and "length (concat (map origin_bytes os)) < 2 ^ 24" and "list_all (\<lambda>s. s \<noteq> [] \<and> length s < 2 ^ 16) os"
  shows "\<exists>f b' h payload. nghttp2_frame_origin_init blank_origin (Some (map origin_entry os)) (length os) = Inr f \<and>
    nghttp2_frame_pack_origin b f = Inr (0, b') \<and> frame_payload b' = Inr (h, payload) \<and>
    hd_type h = NGHTTP2_ORIGIN \<and> hd_length h = length payload \<and> parse_origins payload = Some os"
proof -
  let ?d = "concat (map origin_bytes os)"
  let ?h = "nghttp2_frame_hd_init (length ?d) NGHTTP2_ORIGIN NGHTTP2_FLAG_NONE 0"
  let ?f = "blank_origin\<lparr>ext_hd := ?h, ext_payload := Some \<lparr>origin_nov = length os, origin_ov = Some (map origin_entry os)\<rparr>\<rparr>"
  have take: "arr_take (Some (map origin_entry os)) (length os) = Inr (map origin_entry os)"
    by (simp add: arr_take_def)
  have sum: "sum_list (map (\<lambda>e. 2 + oe_origin_len e) (map origin_entry os)) = length ?d"
    by (induction os) (simp_all add: origin_entry_def origin_bytes_def)
  have init: "nghttp2_frame_origin_init blank_origin (Some (map origin_entry os)) (length os) = Inr ?f"
    by (simp only: nghttp2_frame_origin_init_def take res_bind_Inr sum)
       (simp add: blank_origin_def nghttp2_frame_extension_init_def)
  obtain c where c: "bufs_first b = Inr c" "bufs_head b ! 0 = c" "bufs_wf b" "buf_wf c" "buf_pos c = buf_last c"
      "9 \<le> buf_pos c" "bufs_cur b = 0" "bufs_content b = []" "first_room b = nghttp2_buf_cap c - buf_last c"
    using frame_readyE [OF assms(1)] by metis
  obtain c1 where c1: "put_frame_hd c ?h = Inr c1" "buf_wf c1" "buf_data c1 = nghttp2_frame_pack_frame_hd ?h @ buf_data c"
      "nghttp2_buf_cap c1 = nghttp2_buf_cap c" "buf_last c1 = buf_last c" "chain_blocks c1 = chain_blocks c"
    using put_frame_hd_ok [OF c(4,6)] by metis
  obtain c2 where c2: "pack_origins c1 (map origin_entry os) = Inr c2" "buf_wf c2" "buf_data c2 = buf_data c1 @ ?d"
      "nghttp2_buf_cap c2 = nghttp2_buf_cap c1" "chain_blocks c2 = chain_blocks c1"
    using pack_origins_ok [OF c1(2), of os] assms(2) c(9) c1(4,5) by auto
  have dat: "buf_data c2 = nghttp2_frame_pack_frame_hd ?h @ ?d"
    using c2(3) c1(3) buf_data_Nil [OF c(5)] by simp
  then have "nghttp2_buf_len c2 = 9 + length ?d"
    using buf_len_wf [OF c2(2)] length_buf_data [OF c2(2)] by simp
  then have pack: "nghttp2_frame_pack_origin b ?f = Inr (0, bufs_set_first b c2)"
    using c(1,4,9) assms(2) take c1(1) c2(1)
    by (simp add: nghttp2_frame_pack_origin_def nghttp2_frame_hd_init_def frame_len_defs)
  have cur: "bufs_head b ! bufs_cur b = c" using c(2,7) by simp
  have eqs: "nghttp2_buf_cap c2 = nghttp2_buf_cap (bufs_head b ! bufs_cur b)"
      "chain_blocks c2 = chain_blocks (bufs_head b ! bufs_cur b)"
    using cur c1(4,6) c2(4,5) by simp_all
  have "buf_data c2 = buf_data (bufs_head b ! bufs_cur b) @ (nghttp2_frame_pack_frame_hd ?h @ ?d)"
    using dat cur buf_data_Nil [OF c(5)] by simp
  from set_curE(3) [OF c(3) c2(2) eqs this]
  have content: "bufs_content (bufs_set_first b c2) = nghttp2_frame_pack_frame_hd ?h @ ?d"
    using c(8) set_first_cur [OF c(7)] by simp
  have "hd_ok ?h" using assms(3) by (simp add: hd_ok_def nghttp2_frame_hd_init_def)
  then have "frame_payload (bufs_set_first b c2) = Inr (?h, ?d)"
    using frame_hd.dec_enc [of ?h ?d] by (simp add: frame_payload_def content)
  moreover have "hd_type ?h = NGHTTP2_ORIGIN" "hd_length ?h = length ?d" by (simp_all add: nghttp2_frame_hd_init_def)
  ultimately show ?thesis using init pack parse_origins_concat [OF assms(4)] by blast
qed

theorem origin_frame_roundtrip_witness:
  "\<exists>f b' h payload. nghttp2_frame_pack_origin frame_bufs f = Inr (0, b') \<and> frame_payload b' = Inr (h, payload) \<and>
     parse_origins payload = Some [[104, 105], [120]]"
proof -
  have d: "concat (map origin_bytes [[104, 105], [120]]) = [0, 2, 104, 105, 0, 1, 120]" by code_simp
  show ?thesis
    using origin_frame_roundtrip [OF frame_bufs_ready(1), of "[[104, 105], [120]]"] frame_bufs_ready(2)
    unfolding d by auto
qed

section \<open>ALTSVC payloads\<close>

text \<open>
  The unpacking routine does not compare the length of the origin with the payload: a longer
  one moves the pointer to the field value out of the block. A payload of less than two bytes
  gets the positive code 6 of the protocol, not the negative library error.
\<close>

theorem altsvc_payload2_overrun:
  assumes "ext_payload f = Some q" and "2 \<le> length p" and "nghttp2_get_uint16 p = Inr n" and "length p - 2 < unat n"
  shows "nghttp2_frame_unpack_altsvc_payload2 f p (length p) m = Inl Out_Of_Bounds \<or>
    (\<exists>m'. nghttp2_frame_unpack_altsvc_payload2 f p (length p) m = Inr (NGHTTP2_ERR_NOMEM, f, m'))"
proof (cases rule: malloc_cases [of "length p - 2" m])
  case (none m1)
  then show ?thesis using assms by (simp add: nghttp2_frame_unpack_altsvc_payload2_def)
next
  case (some blk m1)
  have "\<exists>blk1 l. nghttp2_cpymem blk 0 (drop 2 p) = Inr (blk1, l) \<and> length blk1 = length p - 2"
    using some(2) by (auto simp: nghttp2_cpymem_def wr_def)
  then show ?thesis
    using assms some by (auto simp: nghttp2_frame_unpack_altsvc_payload2_def rd_def nghttp2_frame_unpack_altsvc_payload_def)
qed

definition blank_altsvc :: "nghttp2_ext_altsvc nghttp2_extension" where
  "blank_altsvc = nghttp2_frame_extension_init NGHTTP2_ALTSVC NGHTTP2_FLAG_NONE 0 (Some \<lparr>altsvc_origin = None,
     altsvc_origin_len = 0, altsvc_field_value = None, altsvc_field_value_len = 0\<rparr>)"

theorem altsvc_payload2_overrun_witness:
  "nghttp2_frame_unpack_altsvc_payload2 blank_altsvc [0, 5, 65] (length [0, 5, 65 :: byte]) two_blocks = Inl Out_Of_Bounds"
proof -
  have q: "ext_payload blank_altsvc = Some \<lparr>altsvc_origin = None, altsvc_origin_len = 0, altsvc_field_value = None,
      altsvc_field_value_len = 0\<rparr>"
    by (simp add: blank_altsvc_def nghttp2_frame_extension_init_def)
  have g: "nghttp2_get_uint16 [0, 5, 65] = Inr 5" by simp
  have "case nghttp2_frame_unpack_altsvc_payload2 blank_altsvc [0, 5, 65] (length [0, 5, 65 :: byte]) two_blocks of Inl _ \<Rightarrow> True | Inr _ \<Rightarrow> False"
    by code_simp
  then show ?thesis
    using altsvc_payload2_overrun [OF q _ g, of two_blocks] by (auto split: sum.splits)
qed

lemma altsvc_payload2_short:
  "nghttp2_frame_unpack_altsvc_payload2 f [x] 1 m = Inr (6, f, m)"
  by (simp add: nghttp2_frame_unpack_altsvc_payload2_def NGHTTP2_FRAME_SIZE_ERROR_def)

end
