(* ===== verification/Nghttp2_Hd_Int.thy ===== *)
theory Nghttp2_Hd_Int
  imports Nghttp2_Nv
begin

text \<open>
  The integers of HPACK (nghttp2_hd.c): a prefix of the first byte and then groups of seven
  bits, lowest group first, with the top bit set in all but the last.
\<close>

unbundle bit_operations_syntax

section \<open>Operations\<close>

function count_loop :: "nat \<Rightarrow> nat \<Rightarrow> nat" where
  "count_loop n len = (if 128 \<le> n then count_loop (n div 2 ^ 7) (len + 1) else len)"
  by pat_completeness auto
termination by (relation "measure fst") auto

definition prefix_max :: "nat \<Rightarrow> nat" where
  "prefix_max pfx = 2 ^ pfx - 1"

definition count_encoded_length :: "nat \<Rightarrow> nat \<Rightarrow> nat" where
  "count_encoded_length n pfx =
     (let k = prefix_max pfx in if n < k then 1 else count_loop (n - k) 1 + 1)"

function encode_loop :: "bytes \<Rightarrow> nat \<Rightarrow> nat \<Rightarrow> (bytes \<times> nat) res" where
  "encode_loop buf pos n =
     (if 128 \<le> n
      then res_bind (wr buf pos [push_bit 7 1 OR (word_of_nat n AND 0x7f)]) (\<lambda>buf1.
           encode_loop buf1 (pos + 1) (n div 2 ^ 7))
      else res_bind (wr buf pos [word_of_nat n]) (\<lambda>buf1. Inr (buf1, pos + 1)))"
  by pat_completeness auto
termination by (relation "measure (\<lambda>(buf, pos, n). n)") auto

definition encode_length :: "bytes \<Rightarrow> nat \<Rightarrow> nat \<Rightarrow> (bytes \<times> nat) res" where
  "encode_length buf n pfx =
     (let k = prefix_max pfx
      in res_bind (byte_at buf 0) (\<lambda>b0.
         (let b1 = b0 AND NOT (word_of_nat k)
          in if n < k then res_bind (wr buf 0 [b1 OR word_of_nat n]) (\<lambda>buf1. Inr (buf1, 1))
             else res_bind (wr buf 0 [b1 OR word_of_nat k]) (\<lambda>buf1. encode_loop buf1 1 (n - k)))))"

definition UINT32_MAX :: "32 word" where
  "UINT32_MAX = - 1"

text \<open>
  The loop of \<open>decode_length\<close>. It ends with an error, or with the number read so far, the shift
  and whether the last byte of the number was seen; \<open>cnt\<close> counts the bytes read.
\<close>

datatype decoded =
    Overflow
  | Partial "32 word" nat nat
  | Complete "32 word" nat nat

fun decode_loop :: "32 word \<Rightarrow> nat \<Rightarrow> bytes \<Rightarrow> nat \<Rightarrow> decoded" where
  "decode_loop n shift [] cnt = Partial n shift cnt"
| "decode_loop n shift (b # ds) cnt =
     (let add = ucast (b AND 0x7f)
      in if 32 \<le> shift then Overflow
         else if drop_bit shift UINT32_MAX < add then Overflow
         else
           (let add = push_bit shift add
            in if UINT32_MAX - add < n then Overflow
               else if b AND push_bit 7 1 = 0 then Complete (n + add) shift (cnt + 1)
               else decode_loop (n + add) (shift + 7) ds (cnt + 1)))"

text \<open>
  The result of \<open>decode_length\<close>: the return value, the number (none when it is not written), the
  shift for the next call, and whether the number is complete.
\<close>

definition decode_length ::
  "32 word \<Rightarrow> nat \<Rightarrow> bytes \<Rightarrow> nat \<Rightarrow> (int \<times> 32 word option \<times> nat \<times> bool) res" where
  "decode_length initial shift inp pfx =
     (let k = word_of_nat (prefix_max pfx);
          loop = (\<lambda>n ds cnt.
            case decode_loop n shift ds cnt of
              Overflow \<Rightarrow> (-1, None, 0, False)
            | Partial n sh cnt \<Rightarrow> (int cnt, Some n, sh, False)
            | Complete n sh cnt \<Rightarrow> (int cnt, Some n, sh, True))
      in if initial = 0 then
           res_bind (byte_at inp 0) (\<lambda>b.
           if ucast b AND k \<noteq> k then Inr (1, Some (ucast b AND k), 0, True)
           else if length inp = 1 then Inr (1, Some k, 0, False)
           else Inr (loop k (tl inp) 1))
         else Inr (loop initial inp 0))"

section \<open>The encoding\<close>

text \<open>The groups of seven bits.\<close>

function seven_bits :: "nat \<Rightarrow> bytes" where
  "seven_bits n =
     (if 128 \<le> n then (push_bit 7 1 OR (word_of_nat n AND 0x7f)) # seven_bits (n div 2 ^ 7) else [word_of_nat n])"
  by pat_completeness auto
termination by (relation "measure id") auto

declare count_loop.simps [simp del] encode_loop.simps [simp del] seven_bits.simps [simp del]

text \<open>The bytes of a number behind the bits \<open>first\<close> of the first byte.\<close>

definition hd_int :: "byte \<Rightarrow> nat \<Rightarrow> nat \<Rightarrow> bytes" where
  "hd_int first n pfx =
     (if n < prefix_max pfx then [first OR word_of_nat n]
      else (first OR word_of_nat (prefix_max pfx)) # seven_bits (n - prefix_max pfx))"

lemma count_loop_add: "count_loop n len = len + length (seven_bits n) - 1"
proof (induction n len rule: count_loop.induct)
  case (1 n len)
  then show ?case
    by (subst count_loop.simps, subst seven_bits.simps) (auto simp: Suc_le_eq split: if_splits)
qed

lemma seven_bits_nonempty [simp]: "seven_bits n \<noteq> []"
  by (subst seven_bits.simps) simp

lemma count_encoded: "count_encoded_length n pfx = length (hd_int first n pfx)"
  using length_greater_0_conv [of "seven_bits (n - prefix_max pfx)"]
  by (simp add: count_encoded_length_def hd_int_def Let_def count_loop_add)

lemma seven_bits_length: "n < 2 ^ (7 * k) \<Longrightarrow> 0 < k \<Longrightarrow> length (seven_bits n) \<le> k"
proof (induction n arbitrary: k rule: seven_bits.induct)
  case (1 n)
  show ?case
  proof (cases "128 \<le> n")
    case True
    then obtain j where k: "k = Suc j" "0 < j" using 1(2,3) by (cases k; cases "k - 1") auto
    then have "n div 2 ^ 7 < 2 ^ (7 * j)" using 1(2) by (simp add: less_mult_imp_div_less power_add mult.commute)
    with 1(1) [OF True] k True show ?thesis by (subst seven_bits.simps) simp
  qed (use 1(3) in \<open>subst seven_bits.simps, simp\<close>)
qed

text \<open>Sixteen bytes are enough for every number of 64 bits.\<close>

lemma hd_int_length: "n < 2 ^ 64 \<Longrightarrow> length (hd_int first n pfx) \<le> 11"
  using seven_bits_length [of "n - prefix_max pfx" 10] by (simp add: hd_int_def)

lemma wr_append1: "pos = length pre \<Longrightarrow> wr (pre @ x # q) pos [y] = Inr (pre @ y # q)"
  by (simp add: wr_def)

lemma encode_loop_ok:
  assumes "length (seven_bits n) \<le> length q"
  shows "encode_loop (pre @ q) (length pre) n =
    Inr (pre @ seven_bits n @ drop (length (seven_bits n)) q, length pre + length (seven_bits n))"
  using assms
proof (induction n arbitrary: pre q rule: seven_bits.induct)
  case (1 n)
  obtain x r where q: "q = x # r" using 1(2) length_greater_0_conv [of "seven_bits n"] by (cases q) auto
  show ?case
  proof (cases "128 \<le> n")
    case True
    let ?b = "push_bit 7 1 OR (word_of_nat n AND 0x7f) :: byte"
    have s: "seven_bits n = ?b # seven_bits (n div 2 ^ 7)" using True by (subst seven_bits.simps) simp
    with 1(1) [OF True, of r "pre @ [?b]"] 1(2) q True show ?thesis
      by (subst encode_loop.simps) (simp add: wr_append1)
  next
    case False
    then have "seven_bits n = [word_of_nat n]" by (subst seven_bits.simps) simp
    then show ?thesis using False q by (subst encode_loop.simps) (simp add: wr_append1)
  qed
qed

lemma encode_length_ok:
  assumes "first AND word_of_nat (prefix_max pfx) = 0" "length (hd_int first n pfx) \<le> length q + 1"
  shows "encode_length (first # q) n pfx =
    Inr (hd_int first n pfx @ drop (length (hd_int first n pfx) - 1) q, length (hd_int first n pfx))"
proof -
  have "first AND NOT (word_of_nat (prefix_max pfx)) = first"
  proof (rule bit_word_eqI)
    fix i assume i: "i < LENGTH(8)"
    have "\<not> bit (first AND word_of_nat (prefix_max pfx)) i" unfolding assms(1) by simp
    with i show "bit (first AND NOT (word_of_nat (prefix_max pfx))) i = bit first i"
      by (auto simp: bit_and_iff bit_not_iff)
  qed
  then show ?thesis
  proof (cases "n < prefix_max pfx")
    case False
    let ?b = "first OR word_of_nat (prefix_max pfx)"
    have "encode_loop (?b # q) (Suc 0) (n - prefix_max pfx) =
        Inr (?b # seven_bits (n - prefix_max pfx) @ drop (length (seven_bits (n - prefix_max pfx))) q,
          Suc (length (seven_bits (n - prefix_max pfx))))"
      using encode_loop_ok [of "n - prefix_max pfx" q "[?b]"] assms(2) False by (simp add: hd_int_def)
    then show ?thesis
      using \<open>first AND NOT (word_of_nat (prefix_max pfx)) = first\<close> wr_append1 [of 0 "[]" first q] False
      by (simp add: encode_length_def byte_at_def Let_def hd_int_def)
  qed (use wr_append1 [of 0 "[]" first q] in \<open>simp add: encode_length_def byte_at_def Let_def hd_int_def\<close>)
qed

section \<open>Decoding\<close>

lemma mask_7: "(0x7f :: byte) = mask 7"
  by (simp add: mask_eq_exp_minus_1)

lemma unat_low7: "unat (x :: byte) mod 128 = unat (take_bit 7 x)"
proof -
  have "unat (take_bit 7 x) = take_bit 7 (unat x)" by (rule unsigned_take_bit_eq)
  also have "\<dots> = unat x mod 2 ^ 7" by (rule take_bit_eq_mod)
  finally show ?thesis by simp
qed

lemma ucast_low7: "unat (ucast ((b :: byte) AND 0x7f) :: 32 word) = unat b mod 128"
  unfolding mask_7 take_bit_eq_mask [symmetric] unat_low7
  by (simp add: unsigned_ucast_eq unsigned_take_bit_eq take_bit_take_bit)

lemma seven_bits_byte:
  "unat (push_bit 7 1 OR (word_of_nat n AND 0x7f) :: byte) mod 128 = n mod 128"
  "(push_bit 7 1 OR (word_of_nat n AND 0x7f) :: byte) AND push_bit 7 1 \<noteq> 0"
proof -
  have "take_bit 7 (push_bit 7 1 OR (word_of_nat n AND 0x7f) :: byte) = take_bit 7 (word_of_nat n)"
    unfolding mask_7 by (rule bit_word_eqI) (auto simp: bit_take_bit_iff bit_or_iff bit_and_iff bit_push_bit_iff bit_mask_iff bit_1_iff)
  then show "unat (push_bit 7 1 OR (word_of_nat n AND 0x7f) :: byte) mod 128 = n mod 128"
    unfolding unat_low7 [of "_ OR _"] by (simp add: unat_low7 [symmetric] unat_of_nat mod_mod_cancel)
  have "bit ((push_bit 7 1 OR (word_of_nat n AND 0x7f) :: byte) AND push_bit 7 1) 7"
    by (simp add: bit_and_iff bit_or_iff bit_push_bit_iff)
  then show "(push_bit 7 1 OR (word_of_nat n AND 0x7f) :: byte) AND push_bit 7 1 \<noteq> 0"
    by (metis bit_0_eq bot_apply bot_bool_def)
qed

lemma low_byte:
  assumes "n < 128"
  shows "unat (word_of_nat n :: byte) mod 128 = n" "(word_of_nat n :: byte) AND push_bit 7 1 = 0"
proof -
  show "unat (word_of_nat n :: byte) mod 128 = n" using assms by (simp add: unat_of_nat)
  show "(word_of_nat n :: byte) AND push_bit 7 1 = 0"
  proof (rule bit_word_eqI)
    fix i
    have "unat (word_of_nat n :: byte) = n" using assms by (simp add: unat_of_nat)
    moreover have "\<not> bit n 7" using assms by (simp add: bit_iff_odd)
    ultimately have "\<not> bit (word_of_nat n :: byte) 7" by (metis bit_unsigned_iff possible_bit_nat)
    then show "bit ((word_of_nat n :: byte) AND push_bit 7 1) i = bit (0 :: byte) i"
      unfolding bit_and_iff bit_push_bit_iff bit_1_iff bit_0_eq by (metis bot_apply bot_bool_def le_antisym diff_is_0_eq)
  qed
qed

text \<open>One step of the loop on numbers that fit 32 bits.\<close>

lemma decode_step:
  assumes sh: "sh < 32" and fits: "unat n + unat b mod 128 * 2 ^ sh < 2 ^ 32"
  shows "decode_loop n sh (b # ds) cnt =
    (let n1 = n + word_of_nat (unat b mod 128 * 2 ^ sh)
     in if b AND push_bit 7 1 = 0 then Complete n1 sh (cnt + 1) else decode_loop n1 (sh + 7) ds (cnt + 1))"
    "unat (n + word_of_nat (unat b mod 128 * 2 ^ sh)) = unat n + unat b mod 128 * 2 ^ sh"
proof -
  define a where "a = unat b mod 128"
  let ?add = "ucast (b AND 0x7f) :: 32 word"
  have add: "unat ?add = a" by (simp add: ucast_low7 a_def)
  have fits: "unat n + a * 2 ^ sh < 2 ^ 32" using fits by (simp add: a_def)
  have max: "unat UINT32_MAX = 2 ^ 32 - 1" by (simp add: UINT32_MAX_def unsigned_minus_1_eq_mask mask_eq_exp_minus_1)
  have "unat (drop_bit sh UINT32_MAX) = (2 ^ 32 - 1) div 2 ^ sh"
  proof -
    have "unat (drop_bit sh UINT32_MAX) = drop_bit sh (take_bit LENGTH(32) (unat UINT32_MAX))"
      by (rule unsigned_drop_bit_eq)
    then show ?thesis unfolding max by (simp add: drop_bit_eq_div take_bit_nat_eq_self)
  qed
  moreover have "a \<le> (2 ^ 32 - 1) div 2 ^ sh" using fits by (simp add: less_eq_div_iff_mult_less_eq)
  ultimately have 1: "\<not> drop_bit sh UINT32_MAX < ?add" by (simp add: word_less_nat_alt add)
  have push: "unat (push_bit sh ?add) = a * 2 ^ sh"
  proof -
    have "unat (push_bit sh ?add) = take_bit LENGTH(32) (push_bit sh (unat ?add))" by (rule unsigned_push_bit_eq)
    then show ?thesis using fits unfolding add by (simp add: push_bit_eq_mult take_bit_nat_eq_self)
  qed
  then have eq: "push_bit sh ?add = word_of_nat (a * 2 ^ sh)" by (metis of_nat_unat ucast_id)
  have "unat (UINT32_MAX - push_bit sh ?add) = 2 ^ 32 - 1 - a * 2 ^ sh"
    using fits by (simp add: unat_sub_if' max push)
  then have 2: "\<not> UINT32_MAX - push_bit sh ?add < n" using fits by (simp add: word_less_nat_alt)
  have "unat (n + push_bit sh ?add) = unat n + a * 2 ^ sh" using fits push by (simp add: unat_word_ariths)
  then show "unat (n + word_of_nat (unat b mod 128 * 2 ^ sh)) = unat n + unat b mod 128 * 2 ^ sh"
    unfolding eq a_def .
  show "decode_loop n sh (b # ds) cnt =
    (let n1 = n + word_of_nat (unat b mod 128 * 2 ^ sh)
     in if b AND push_bit 7 1 = 0 then Complete n1 sh (cnt + 1) else decode_loop n1 (sh + 7) ds (cnt + 1))"
    using sh 1 2 unfolding decode_loop.simps Let_def eq a_def by simp
qed

lemma decode_seven_bits:
  assumes "unat n + m * 2 ^ sh < 2 ^ 32" "sh = 0 \<or> 0 < m"
  shows "\<exists>sh'. decode_loop n sh (seven_bits m @ ds) cnt =
    Complete (n + word_of_nat (m * 2 ^ sh)) sh' (cnt + length (seven_bits m))"
  using assms
proof (induction m arbitrary: n sh cnt rule: seven_bits.induct)
  case (1 m)
  have sh: "sh < 32"
  proof (rule ccontr)
    assume "\<not> sh < 32"
    then have "(2 :: nat) ^ 32 \<le> 2 ^ sh" by (intro power_increasing) auto
    moreover have "0 < m" using 1(3) \<open>\<not> sh < 32\<close> by auto
    then have "(2 :: nat) ^ sh \<le> m * 2 ^ sh" by simp
    ultimately show False using 1(2) by linarith
  qed
  show ?case
  proof (cases "128 \<le> m")
    case True
    let ?b = "push_bit 7 1 OR (word_of_nat m AND 0x7f) :: byte"
    have s: "seven_bits m = ?b # seven_bits (m div 2 ^ 7)" using True by (subst seven_bits.simps) simp
    have b: "unat ?b mod 128 = m mod 128" "?b AND push_bit 7 1 \<noteq> 0" by (rule seven_bits_byte)+
    have split: "m * 2 ^ sh = m mod 128 * 2 ^ sh + m div 2 ^ 7 * 2 ^ (sh + 7)"
    proof -
      have "(r + q * 128) * 2 ^ sh = r * 2 ^ sh + q * 2 ^ (sh + 7)" for r q :: nat
        by (simp add: algebra_simps power_add)
      from this [of "m mod 128" "m div 128"] show ?thesis by simp
    qed
    have lt: "unat n + unat ?b mod 128 * 2 ^ sh < 2 ^ 32" unfolding b(1) using 1(2) split by linarith
    note step = decode_step [OF sh lt]
    let ?n = "n + word_of_nat (unat ?b mod 128 * 2 ^ sh)"
    have "unat ?n + m div 2 ^ 7 * 2 ^ (sh + 7) < 2 ^ 32" unfolding step(2) unfolding b(1) using 1(2) split by linarith
    moreover have "sh + 7 = 0 \<or> 0 < m div 2 ^ 7" using True by simp
    ultimately obtain sh' where "decode_loop ?n (sh + 7) (seven_bits (m div 2 ^ 7) @ ds) (cnt + 1) =
        Complete (?n + word_of_nat (m div 2 ^ 7 * 2 ^ (sh + 7))) sh' (cnt + 1 + length (seven_bits (m div 2 ^ 7)))"
      using 1(1) [OF True] by blast
    moreover have "?n + word_of_nat (m div 2 ^ 7 * 2 ^ (sh + 7)) = n + word_of_nat (m * 2 ^ sh)"
      unfolding split b(1) by (simp only: of_nat_add add.assoc)
    ultimately show ?thesis unfolding s using step(1) b(2) by (simp add: Let_def)
  next
    case False
    then have s: "seven_bits m = [word_of_nat m]" by (subst seven_bits.simps) simp
    from False have m: "m < 128" by simp
    note b = low_byte [OF m]
    have lt: "unat n + unat (word_of_nat m :: byte) mod 128 * 2 ^ sh < 2 ^ 32" unfolding b(1) by (rule 1(2))
    show ?thesis unfolding s using decode_step(1) [OF sh lt] b by (simp add: Let_def)
  qed
qed

lemma prefix_max_word: "word_of_nat (prefix_max pfx) = (mask pfx :: 'a :: len word)"
  by (simp add: prefix_max_def mask_eq_exp_minus_1 of_nat_diff)

lemma prefix_byte:
  fixes first :: byte
  assumes p: "pfx < 8" and f: "first AND word_of_nat (prefix_max pfx) = 0" and n: "n \<le> prefix_max pfx"
  shows "(ucast (first OR word_of_nat n) :: 32 word) AND word_of_nat (prefix_max pfx) = word_of_nat n"
proof -
  have "(2 :: nat) ^ pfx \<le> 128" using power_increasing [of pfx 7 "2 :: nat"] p by simp
  moreover have "(0 :: nat) < 2 ^ pfx" by simp
  ultimately have n': "n < 2 ^ pfx" "n < 256" using n unfolding prefix_max_def by linarith+
  have fm: "take_bit pfx first = 0" using f by (simp add: prefix_max_word take_bit_eq_mask)
  have "unat (take_bit pfx (ucast (first OR word_of_nat n) :: 32 word)) = take_bit pfx (unat (first OR word_of_nat n))"
    using p by (simp add: unsigned_take_bit_eq unsigned_ucast_eq min_def)
  also have "\<dots> = unat (take_bit pfx (first OR word_of_nat n))" by (simp only: unsigned_take_bit_eq)
  also have "take_bit pfx (first OR word_of_nat n) = (word_of_nat n :: byte)"
    using fm n' by (simp add: take_bit_of_nat take_bit_nat_eq_self)
  also have "unat (word_of_nat n :: byte) = n" using n' by (simp add: unat_of_nat)
  finally have "take_bit pfx (ucast (first OR word_of_nat n) :: 32 word) = word_of_nat n" by (metis of_nat_unat ucast_id)
  then show ?thesis unfolding prefix_max_word by (simp add: take_bit_eq_mask)
qed

text \<open>A number that fits 32 bits is decoded from its encoding, whatever follows.\<close>

lemma hd_int_decode:
  assumes p: "0 < pfx" "pfx < 8" and f: "first AND word_of_nat (prefix_max pfx) = 0" and n: "n < 2 ^ 32"
  shows "\<exists>sh. decode_length 0 0 (hd_int first n pfx @ ds) pfx =
    Inr (int (length (hd_int first n pfx)), Some (word_of_nat n), sh, True)"
proof -
  let ?k = "prefix_max pfx"
  have "(2 :: nat) ^ pfx \<le> 2 ^ 7" using p by (intro power_increasing) auto
  moreover have "(2 :: nat) \<le> 2 ^ pfx" using p power_increasing [of 1 pfx "2 :: nat"] by simp
  ultimately have k: "0 < ?k" "?k < 128" by (auto simp: prefix_max_def)
  show ?thesis
  proof (cases "n < ?k")
    case True
    have "unat (word_of_nat n :: 32 word) \<noteq> unat (word_of_nat ?k :: 32 word)"
      using True k by (simp add: unat_of_nat)
    then have "(word_of_nat n :: 32 word) \<noteq> word_of_nat ?k" by metis
    then show ?thesis
      using True prefix_byte [OF p(2) f, of n]
      by (simp add: decode_length_def hd_int_def byte_at_def Let_def)
  next
    case False
    have u: "unat (word_of_nat ?k :: 32 word) = ?k" using k by (simp add: unat_of_nat)
    have "unat (word_of_nat ?k :: 32 word) + (n - ?k) * 2 ^ 0 < 2 ^ 32" using u False n by simp
    from decode_seven_bits [OF this, of ds 1] obtain sh' where
      "decode_loop (word_of_nat ?k) 0 (seven_bits (n - ?k) @ ds) 1 =
        Complete (word_of_nat ?k + word_of_nat ((n - ?k) * 2 ^ 0)) sh' (1 + length (seven_bits (n - ?k)))" by auto
    moreover have "(word_of_nat ?k + word_of_nat ((n - ?k) * 2 ^ 0) :: 32 word) = word_of_nat n"
      using False by (simp flip: of_nat_add)
    moreover have "Suc 0 < length (seven_bits (n - ?k) @ ds) + 1" by (simp add: Suc_le_eq)
    ultimately show ?thesis
      using False prefix_byte [OF p(2) f order_refl]
      by (simp add: decode_length_def hd_int_def byte_at_def Let_def)
  qed
qed

section \<open>Decoding in pieces\<close>

lemma decode_loop_append:
  "decode_loop n sh (xs @ ys) cnt =
    (case decode_loop n sh xs cnt of Partial n' sh' cnt' \<Rightarrow> decode_loop n' sh' ys cnt' | r \<Rightarrow> r)"
  by (induction n sh xs cnt rule: decode_loop.induct) (simp_all add: Let_def)

lemma decode_loop_count:
  "decode_loop n sh ds (cnt + k) =
    (case decode_loop n sh ds cnt of Overflow \<Rightarrow> Overflow | Partial n' sh' c \<Rightarrow> Partial n' sh' (c + k)
     | Complete n' sh' c \<Rightarrow> Complete n' sh' (c + k))"
proof (induction n sh ds cnt rule: decode_loop.induct)
  case (2 n sh b ds cnt)
  then show ?case by (simp add: Let_def)
qed simp

lemma decode_loop_partial: "decode_loop n sh ds cnt = Partial n' sh' cnt' \<Longrightarrow> cnt' = cnt + length ds \<and> n \<le> n'"
proof (induction n sh ds cnt rule: decode_loop.induct)
  case (2 n sh b ds cnt)
  let ?add = "push_bit sh (ucast (b AND 0x7f)) :: 32 word"
  have le: "\<not> UINT32_MAX - ?add < n" and rest: "decode_loop (n + ?add) (sh + 7) ds (cnt + 1) = Partial n' sh' cnt'"
    using 2(2) by (auto simp: Let_def split: if_splits)
  from 2(1) [OF refl _ _ refl le _ rest] 2(2) have *: "cnt' = cnt + 1 + length ds" "n + ?add \<le> n'"
    by (auto simp: Let_def split: if_splits)
  have small: "unat ?add < 2 ^ 32" using unsigned_less [of ?add, where ?'a = nat] by simp
  then have "unat (UINT32_MAX - ?add) = 2 ^ 32 - 1 - unat ?add"
    by (simp add: unat_sub_if' UINT32_MAX_def unsigned_minus_1_eq_mask mask_eq_exp_minus_1)
  then have "unat n + unat ?add < 2 ^ 32" using le small by (simp add: word_less_nat_alt)
  then have "unat (n + ?add) = unat n + unat ?add" by (simp add: unat_word_ariths)
  then have "n \<le> n + ?add" by (simp add: word_le_nat_alt)
  with * show ?case by auto
qed simp

declare decode_loop.simps(2) [simp del]

text \<open>
  C27. Decoding an integer that arrives in pieces, with the number and the shift carried from call to call,
  gives what one call on all the bytes gives.
\<close>

theorem decode_length_resumes:
  assumes "decode_length initial (if initial = 0 then 0 else sh) xs pfx = Inr (c, Some n, sh1, False)" "0 < pfx" "pfx < 8"
  shows "c = int (length xs) \<and> n \<noteq> 0 \<and>
    (ys \<noteq> [] \<longrightarrow>
      decode_length initial (if initial = 0 then 0 else sh) (xs @ ys) pfx =
      res_bind (decode_length n sh1 ys pfx) (\<lambda>(c', r, sh2, fin). Inr (if c' < 0 then c' else c + c', r, sh2, fin)))"
proof -
  let ?k = "word_of_nat (prefix_max pfx) :: 32 word"
  have "(2 :: nat) ^ pfx \<le> 2 ^ 7" using assms(2,3) by (intro power_increasing) auto
  moreover have "(2 :: nat) \<le> 2 ^ pfx" using assms(2) power_increasing [of 1 pfx "2 :: nat"] by simp
  ultimately have "0 < prefix_max pfx" "prefix_max pfx < 128" by (auto simp: prefix_max_def)
  then have "unat ?k \<noteq> 0" by (simp add: unat_of_nat)
  then have k: "?k \<noteq> 0" by auto
  have go: "(case decode_loop m s (us @ ys) c0 of
        Overflow \<Rightarrow> (-1, None, 0, False) | Partial n sh cnt \<Rightarrow> (int cnt, Some n, sh, False) | Complete n sh cnt \<Rightarrow> (int cnt, Some n, sh, True)) =
      (case decode_loop n' s' ys 0 of
        Overflow \<Rightarrow> (-1, None, 0, False) | Partial n sh cnt \<Rightarrow> (int cnt + int c1, Some n, sh, False) | Complete n sh cnt \<Rightarrow> (int cnt + int c1, Some n, sh, True))"
    if "decode_loop m s us c0 = Partial n' s' c1" for m s us c0 n' s' c1
    using that decode_loop_count [of n' s' ys 0 c1] by (simp add: decode_loop_append split: decoded.splits)
  show ?thesis
  proof (cases "initial = 0")
    case False
    obtain c1 where run: "decode_loop initial sh xs 0 = Partial n sh1 c1" "c = int c1"
      using assms(1) False by (auto simp: decode_length_def Let_def split: decoded.splits)
    from decode_loop_partial [OF run(1)] False have "c1 = length xs" "n \<noteq> 0" by auto
    then show ?thesis using go [OF run(1)] run(2) False
      by (auto simp: decode_length_def Let_def split: decoded.splits)
  next
    case True
    then obtain b us where xs: "xs = b # us" using assms(1) by (cases xs) (auto simp: decode_length_def byte_at_def)
    have full: "ucast b AND ?k = ?k" and us: "us = [] \<longrightarrow> n = ?k \<and> sh1 = 0 \<and> c = 1"
      using assms(1) True xs by (auto simp: decode_length_def byte_at_def Let_def split: if_splits)
    have "\<exists>c1. decode_loop ?k 0 us 1 = Partial n sh1 c1 \<and> c = int c1"
      using assms(1) True xs full us by (cases us) (auto simp: decode_length_def byte_at_def Let_def split: decoded.splits)
    then obtain c1 where run: "decode_loop ?k 0 us 1 = Partial n sh1 c1" "c = int c1" by blast
    from decode_loop_partial [OF run(1)] k have "c1 = length xs" "n \<noteq> 0" using xs by auto
    then show ?thesis using go [OF run(1)] run(2) True xs full
      by (auto simp: decode_length_def byte_at_def Let_def split: decoded.splits)
  qed
qed

section \<open>Witness of decoding in pieces, and the round trip\<close>

theorem decode_length_resumes_witness:
  "decode_length 0 0 ([0x7f, 0x9a] @ [0x0a]) 7 =
    res_bind (decode_length 153 7 [0x0a] 7) (\<lambda>(c', r, sh2, fin). Inr (if c' < 0 then c' else 2 + c', r, sh2, fin))"
proof -
  have "decode_length 0 (if (0 :: 32 word) = 0 then 0 else 0) [0x7f, 0x9a] 7 = Inr (2, Some 153, 7, False)" by code_simp
  from decode_length_resumes [OF this, of "[0x0a]"] show ?thesis by simp
qed

text \<open>
  C26. A number of 32 bits that encode_length writes with a prefix of 1 to 7 bits takes the length that
  count_encoded_length gives and is read back by decode_length.
\<close>

theorem hd_int_roundtrip:
  assumes "0 < pfx" "pfx < 8" "first AND word_of_nat (prefix_max pfx) = 0" "n < 2 ^ 32" "10 \<le> length q"
  shows "\<exists>buf sh. encode_length (first # q) n pfx = Inr (buf, count_encoded_length n pfx) \<and>
    decode_length 0 0 (take (count_encoded_length n pfx) buf @ ds) pfx =
      Inr (int (count_encoded_length n pfx), Some (word_of_nat n), sh, True)"
proof -
  let ?e = "hd_int first n pfx"
  have "length ?e \<le> length q + 1" using hd_int_length [of n first pfx] assms(4,5) by simp
  from encode_length_ok [OF assms(3) this] hd_int_decode [OF assms(1-4), of ds]
  show ?thesis by (auto simp: count_encoded [of n pfx first])
qed

theorem hd_int_roundtrip_witness:
  "\<exists>buf sh. encode_length (0x80 # [0, 0, 0, 0, 0, 0, 0, 0, 0, 0]) 1337 7 = Inr (buf, count_encoded_length 1337 7) \<and>
    decode_length 0 0 (take (count_encoded_length 1337 7) buf @ [0x42]) 7 =
      Inr (int (count_encoded_length 1337 7), Some (word_of_nat 1337), sh, True)"
  by (rule hd_int_roundtrip) (simp_all add: prefix_max_def)

end
