(* ===== verification/Nghttp2_Huffman_Tables.thy ===== *)
theory Nghttp2_Huffman_Tables
  imports Nghttp2_Huffman_Data
begin

text \<open>
  What the two tables of nghttp2_hd_huffman_data.c have to do with each other. Every state of
  the automaton stands for a proper prefix of a code; a transition is right if the prefix of
  its state followed by the four bits is the code of the symbol it emits, if any, followed by
  the prefix of the next state. The lemmas check this for every entry, and that the codes are
  those of a prefix code. A string of bits is its length and its value here.
\<close>

unbundle bit_operations_syntax

section \<open>Prefixes of the states, codes of the symbols\<close>

definition huff_prefix_0 :: "(int \<times> int) list" where
  "huff_prefix_0 =
    [(0, 0), (1, 0), (2, 0), (3, 0), (4, 0), (4, 1), (3, 1), (4, 2), (4, 3), (2, 1), (3, 2), (4, 4), (4, 5),
     (5, 10), (5, 11), (3, 3)]"

definition huff_prefix_1 :: "(int \<times> int) list" where
  "huff_prefix_1 =
    [(4, 6), (5, 12), (5, 13), (4, 7), (5, 14), (5, 15), (1, 1), (2, 2), (3, 4), (4, 8), (5, 16), (5, 17),
     (4, 9), (5, 18), (5, 19), (3, 5)]"

definition huff_prefix_2 :: "(int \<times> int) list" where
  "huff_prefix_2 =
    [(4, 10), (5, 20), (5, 21), (4, 11), (5, 22), (5, 23), (6, 46), (6, 47), (2, 3), (3, 6), (4, 12),
     (5, 24), (6, 48), (6, 49), (5, 25), (6, 50)]"

definition huff_prefix_3 :: "(int \<times> int) list" where
  "huff_prefix_3 =
    [(6, 51), (4, 13), (5, 26), (6, 52), (6, 53), (5, 27), (6, 54), (6, 55), (3, 7), (4, 14), (5, 28),
     (6, 56), (6, 57), (5, 29), (6, 58), (6, 59)]"

definition huff_prefix_4 :: "(int \<times> int) list" where
  "huff_prefix_4 =
    [(4, 15), (5, 30), (6, 60), (6, 61), (5, 31), (6, 62), (7, 124), (7, 125), (6, 63), (7, 126), (7, 127),
     (8, 254), (9, 508), (9, 509), (8, 255), (9, 510)]"

definition huff_prefix_5 :: "(int \<times> int) list" where
  "huff_prefix_5 =
    [(10, 1021), (9, 511), (10, 1022), (11, 2045), (10, 1023), (11, 2046), (12, 4092), (12, 4093),
     (11, 2047), (12, 4094), (12, 4095), (13, 8190), (13, 8191), (14, 16382), (14, 16383), (15, 32767)]"

definition huff_prefix_6 :: "(int \<times> int) list" where
  "huff_prefix_6 =
    [(16, 65534), (17, 131068), (18, 262136), (18, 262137), (19, 524275), (17, 131069), (18, 262138),
     (19, 524276), (19, 524277), (18, 262139), (19, 524278), (19, 524279), (20, 1048558), (20, 1048559),
     (16, 65535), (17, 131070)]"

definition huff_prefix_7 :: "(int \<times> int) list" where
  "huff_prefix_7 =
    [(18, 262140), (19, 524280), (20, 1048560), (20, 1048561), (19, 524281), (20, 1048562), (20, 1048563),
     (18, 262141), (19, 524282), (20, 1048564), (21, 2097129), (20, 1048565), (21, 2097130), (21, 2097131),
     (19, 524283), (20, 1048566)]"

definition huff_prefix_8 :: "(int \<times> int) list" where
  "huff_prefix_8 =
    [(21, 2097132), (21, 2097133), (20, 1048567), (21, 2097134), (21, 2097135), (17, 131071), (18, 262142),
     (19, 524284), (20, 1048568), (21, 2097136), (21, 2097137), (20, 1048569), (21, 2097138), (21, 2097139),
     (19, 524285), (20, 1048570)]"

definition huff_prefix_9 :: "(int \<times> int) list" where
  "huff_prefix_9 =
    [(21, 2097140), (21, 2097141), (20, 1048571), (21, 2097142), (22, 4194284), (22, 4194285),
     (21, 2097143), (22, 4194286), (22, 4194287), (18, 262143), (19, 524286), (20, 1048572), (21, 2097144),
     (22, 4194288), (22, 4194289), (21, 2097145)]"

definition huff_prefix_10 :: "(int \<times> int) list" where
  "huff_prefix_10 =
    [(22, 4194290), (22, 4194291), (20, 1048573), (21, 2097146), (22, 4194292), (22, 4194293),
     (21, 2097147), (22, 4194294), (22, 4194295), (19, 524287), (20, 1048574), (21, 2097148), (22, 4194296),
     (22, 4194297), (21, 2097149), (22, 4194298)]"

definition huff_prefix_11 :: "(int \<times> int) list" where
  "huff_prefix_11 =
    [(23, 8388597), (22, 4194299), (23, 8388598), (23, 8388599), (20, 1048575), (21, 2097150),
     (22, 4194300), (23, 8388600), (23, 8388601), (22, 4194301), (23, 8388602), (23, 8388603),
     (24, 16777206), (24, 16777207), (21, 2097151), (22, 4194302)]"

definition huff_prefix_12 :: "(int \<times> int) list" where
  "huff_prefix_12 =
    [(23, 8388604), (24, 16777208), (25, 33554416), (25, 33554417), (24, 16777209), (25, 33554418),
     (25, 33554419), (23, 8388605), (24, 16777210), (25, 33554420), (25, 33554421), (24, 16777211),
     (25, 33554422), (25, 33554423), (26, 67108847), (22, 4194303)]"

definition huff_prefix_13 :: "(int \<times> int) list" where
  "huff_prefix_13 =
    [(23, 8388606), (24, 16777212), (25, 33554424), (26, 67108848), (26, 67108849), (25, 33554425),
     (26, 67108850), (26, 67108851), (24, 16777213), (25, 33554426), (26, 67108852), (26, 67108853),
     (25, 33554427), (26, 67108854), (26, 67108855), (23, 8388607)]"

definition huff_prefix_14 :: "(int \<times> int) list" where
  "huff_prefix_14 =
    [(24, 16777214), (25, 33554428), (26, 67108856), (27, 134217713), (26, 67108857), (27, 134217714),
     (27, 134217715), (25, 33554429), (26, 67108858), (27, 134217716), (27, 134217717), (26, 67108859),
     (27, 134217718), (27, 134217719), (24, 16777215), (25, 33554430)]"

definition huff_prefix_15 :: "(int \<times> int) list" where
  "huff_prefix_15 =
    [(26, 67108860), (27, 134217720), (27, 134217721), (26, 67108861), (27, 134217722), (27, 134217723),
     (25, 33554431), (26, 67108862), (27, 134217724), (27, 134217725), (26, 67108863), (27, 134217726),
     (27, 134217727), (28, 268435455), (29, 536870910), (29, 536870911)]"

definition huff_prefix :: "int \<Rightarrow> int \<times> int" where
  "huff_prefix n =
    [huff_prefix_0, huff_prefix_1, huff_prefix_2, huff_prefix_3, huff_prefix_4, huff_prefix_5,
     huff_prefix_6, huff_prefix_7, huff_prefix_8, huff_prefix_9, huff_prefix_10, huff_prefix_11,
     huff_prefix_12, huff_prefix_13, huff_prefix_14, huff_prefix_15] ! nat (n div 16) ! nat (n mod 16)"

lemma huff_prefix_row_0:
  "huff_prefix 0 = (0, 0)" "huff_prefix 1 = (1, 0)" "huff_prefix 2 = (2, 0)" "huff_prefix 3 = (3, 0)"
  "huff_prefix 4 = (4, 0)" "huff_prefix 5 = (4, 1)" "huff_prefix 6 = (3, 1)" "huff_prefix 7 = (4, 2)"
  "huff_prefix 8 = (4, 3)" "huff_prefix 9 = (2, 1)" "huff_prefix 10 = (3, 2)" "huff_prefix 11 = (4, 4)"
  "huff_prefix 12 = (4, 5)" "huff_prefix 13 = (5, 10)" "huff_prefix 14 = (5, 11)"
  "huff_prefix 15 = (3, 3)"
  by (simp_all add: huff_prefix_def huff_prefix_0_def)

lemma huff_prefix_row_1:
  "huff_prefix 16 = (4, 6)" "huff_prefix 17 = (5, 12)" "huff_prefix 18 = (5, 13)"
  "huff_prefix 19 = (4, 7)" "huff_prefix 20 = (5, 14)" "huff_prefix 21 = (5, 15)"
  "huff_prefix 22 = (1, 1)" "huff_prefix 23 = (2, 2)" "huff_prefix 24 = (3, 4)" "huff_prefix 25 = (4, 8)"
  "huff_prefix 26 = (5, 16)" "huff_prefix 27 = (5, 17)" "huff_prefix 28 = (4, 9)"
  "huff_prefix 29 = (5, 18)" "huff_prefix 30 = (5, 19)" "huff_prefix 31 = (3, 5)"
  by (simp_all add: huff_prefix_def huff_prefix_1_def)

lemma huff_prefix_row_2:
  "huff_prefix 32 = (4, 10)" "huff_prefix 33 = (5, 20)" "huff_prefix 34 = (5, 21)"
  "huff_prefix 35 = (4, 11)" "huff_prefix 36 = (5, 22)" "huff_prefix 37 = (5, 23)"
  "huff_prefix 38 = (6, 46)" "huff_prefix 39 = (6, 47)" "huff_prefix 40 = (2, 3)"
  "huff_prefix 41 = (3, 6)" "huff_prefix 42 = (4, 12)" "huff_prefix 43 = (5, 24)"
  "huff_prefix 44 = (6, 48)" "huff_prefix 45 = (6, 49)" "huff_prefix 46 = (5, 25)"
  "huff_prefix 47 = (6, 50)"
  by (simp_all add: huff_prefix_def huff_prefix_2_def)

lemma huff_prefix_row_3:
  "huff_prefix 48 = (6, 51)" "huff_prefix 49 = (4, 13)" "huff_prefix 50 = (5, 26)"
  "huff_prefix 51 = (6, 52)" "huff_prefix 52 = (6, 53)" "huff_prefix 53 = (5, 27)"
  "huff_prefix 54 = (6, 54)" "huff_prefix 55 = (6, 55)" "huff_prefix 56 = (3, 7)"
  "huff_prefix 57 = (4, 14)" "huff_prefix 58 = (5, 28)" "huff_prefix 59 = (6, 56)"
  "huff_prefix 60 = (6, 57)" "huff_prefix 61 = (5, 29)" "huff_prefix 62 = (6, 58)"
  "huff_prefix 63 = (6, 59)"
  by (simp_all add: huff_prefix_def huff_prefix_3_def)

lemma huff_prefix_row_4:
  "huff_prefix 64 = (4, 15)" "huff_prefix 65 = (5, 30)" "huff_prefix 66 = (6, 60)"
  "huff_prefix 67 = (6, 61)" "huff_prefix 68 = (5, 31)" "huff_prefix 69 = (6, 62)"
  "huff_prefix 70 = (7, 124)" "huff_prefix 71 = (7, 125)" "huff_prefix 72 = (6, 63)"
  "huff_prefix 73 = (7, 126)" "huff_prefix 74 = (7, 127)" "huff_prefix 75 = (8, 254)"
  "huff_prefix 76 = (9, 508)" "huff_prefix 77 = (9, 509)" "huff_prefix 78 = (8, 255)"
  "huff_prefix 79 = (9, 510)"
  by (simp_all add: huff_prefix_def huff_prefix_4_def)

lemma huff_prefix_row_5:
  "huff_prefix 80 = (10, 1021)" "huff_prefix 81 = (9, 511)" "huff_prefix 82 = (10, 1022)"
  "huff_prefix 83 = (11, 2045)" "huff_prefix 84 = (10, 1023)" "huff_prefix 85 = (11, 2046)"
  "huff_prefix 86 = (12, 4092)" "huff_prefix 87 = (12, 4093)" "huff_prefix 88 = (11, 2047)"
  "huff_prefix 89 = (12, 4094)" "huff_prefix 90 = (12, 4095)" "huff_prefix 91 = (13, 8190)"
  "huff_prefix 92 = (13, 8191)" "huff_prefix 93 = (14, 16382)" "huff_prefix 94 = (14, 16383)"
  "huff_prefix 95 = (15, 32767)"
  by (simp_all add: huff_prefix_def huff_prefix_5_def)

lemma huff_prefix_row_6:
  "huff_prefix 96 = (16, 65534)" "huff_prefix 97 = (17, 131068)" "huff_prefix 98 = (18, 262136)"
  "huff_prefix 99 = (18, 262137)" "huff_prefix 100 = (19, 524275)" "huff_prefix 101 = (17, 131069)"
  "huff_prefix 102 = (18, 262138)" "huff_prefix 103 = (19, 524276)" "huff_prefix 104 = (19, 524277)"
  "huff_prefix 105 = (18, 262139)" "huff_prefix 106 = (19, 524278)" "huff_prefix 107 = (19, 524279)"
  "huff_prefix 108 = (20, 1048558)" "huff_prefix 109 = (20, 1048559)" "huff_prefix 110 = (16, 65535)"
  "huff_prefix 111 = (17, 131070)"
  by (simp_all add: huff_prefix_def huff_prefix_6_def)

lemma huff_prefix_row_7:
  "huff_prefix 112 = (18, 262140)" "huff_prefix 113 = (19, 524280)" "huff_prefix 114 = (20, 1048560)"
  "huff_prefix 115 = (20, 1048561)" "huff_prefix 116 = (19, 524281)" "huff_prefix 117 = (20, 1048562)"
  "huff_prefix 118 = (20, 1048563)" "huff_prefix 119 = (18, 262141)" "huff_prefix 120 = (19, 524282)"
  "huff_prefix 121 = (20, 1048564)" "huff_prefix 122 = (21, 2097129)" "huff_prefix 123 = (20, 1048565)"
  "huff_prefix 124 = (21, 2097130)" "huff_prefix 125 = (21, 2097131)" "huff_prefix 126 = (19, 524283)"
  "huff_prefix 127 = (20, 1048566)"
  by (simp_all add: huff_prefix_def huff_prefix_7_def)

lemma huff_prefix_row_8:
  "huff_prefix 128 = (21, 2097132)" "huff_prefix 129 = (21, 2097133)" "huff_prefix 130 = (20, 1048567)"
  "huff_prefix 131 = (21, 2097134)" "huff_prefix 132 = (21, 2097135)" "huff_prefix 133 = (17, 131071)"
  "huff_prefix 134 = (18, 262142)" "huff_prefix 135 = (19, 524284)" "huff_prefix 136 = (20, 1048568)"
  "huff_prefix 137 = (21, 2097136)" "huff_prefix 138 = (21, 2097137)" "huff_prefix 139 = (20, 1048569)"
  "huff_prefix 140 = (21, 2097138)" "huff_prefix 141 = (21, 2097139)" "huff_prefix 142 = (19, 524285)"
  "huff_prefix 143 = (20, 1048570)"
  by (simp_all add: huff_prefix_def huff_prefix_8_def)

lemma huff_prefix_row_9:
  "huff_prefix 144 = (21, 2097140)" "huff_prefix 145 = (21, 2097141)" "huff_prefix 146 = (20, 1048571)"
  "huff_prefix 147 = (21, 2097142)" "huff_prefix 148 = (22, 4194284)" "huff_prefix 149 = (22, 4194285)"
  "huff_prefix 150 = (21, 2097143)" "huff_prefix 151 = (22, 4194286)" "huff_prefix 152 = (22, 4194287)"
  "huff_prefix 153 = (18, 262143)" "huff_prefix 154 = (19, 524286)" "huff_prefix 155 = (20, 1048572)"
  "huff_prefix 156 = (21, 2097144)" "huff_prefix 157 = (22, 4194288)" "huff_prefix 158 = (22, 4194289)"
  "huff_prefix 159 = (21, 2097145)"
  by (simp_all add: huff_prefix_def huff_prefix_9_def)

lemma huff_prefix_row_10:
  "huff_prefix 160 = (22, 4194290)" "huff_prefix 161 = (22, 4194291)" "huff_prefix 162 = (20, 1048573)"
  "huff_prefix 163 = (21, 2097146)" "huff_prefix 164 = (22, 4194292)" "huff_prefix 165 = (22, 4194293)"
  "huff_prefix 166 = (21, 2097147)" "huff_prefix 167 = (22, 4194294)" "huff_prefix 168 = (22, 4194295)"
  "huff_prefix 169 = (19, 524287)" "huff_prefix 170 = (20, 1048574)" "huff_prefix 171 = (21, 2097148)"
  "huff_prefix 172 = (22, 4194296)" "huff_prefix 173 = (22, 4194297)" "huff_prefix 174 = (21, 2097149)"
  "huff_prefix 175 = (22, 4194298)"
  by (simp_all add: huff_prefix_def huff_prefix_10_def)

lemma huff_prefix_row_11:
  "huff_prefix 176 = (23, 8388597)" "huff_prefix 177 = (22, 4194299)" "huff_prefix 178 = (23, 8388598)"
  "huff_prefix 179 = (23, 8388599)" "huff_prefix 180 = (20, 1048575)" "huff_prefix 181 = (21, 2097150)"
  "huff_prefix 182 = (22, 4194300)" "huff_prefix 183 = (23, 8388600)" "huff_prefix 184 = (23, 8388601)"
  "huff_prefix 185 = (22, 4194301)" "huff_prefix 186 = (23, 8388602)" "huff_prefix 187 = (23, 8388603)"
  "huff_prefix 188 = (24, 16777206)" "huff_prefix 189 = (24, 16777207)" "huff_prefix 190 = (21, 2097151)"
  "huff_prefix 191 = (22, 4194302)"
  by (simp_all add: huff_prefix_def huff_prefix_11_def)

lemma huff_prefix_row_12:
  "huff_prefix 192 = (23, 8388604)" "huff_prefix 193 = (24, 16777208)" "huff_prefix 194 = (25, 33554416)"
  "huff_prefix 195 = (25, 33554417)" "huff_prefix 196 = (24, 16777209)"
  "huff_prefix 197 = (25, 33554418)" "huff_prefix 198 = (25, 33554419)" "huff_prefix 199 = (23, 8388605)"
  "huff_prefix 200 = (24, 16777210)" "huff_prefix 201 = (25, 33554420)"
  "huff_prefix 202 = (25, 33554421)" "huff_prefix 203 = (24, 16777211)"
  "huff_prefix 204 = (25, 33554422)" "huff_prefix 205 = (25, 33554423)"
  "huff_prefix 206 = (26, 67108847)" "huff_prefix 207 = (22, 4194303)"
  by (simp_all add: huff_prefix_def huff_prefix_12_def)

lemma huff_prefix_row_13:
  "huff_prefix 208 = (23, 8388606)" "huff_prefix 209 = (24, 16777212)" "huff_prefix 210 = (25, 33554424)"
  "huff_prefix 211 = (26, 67108848)" "huff_prefix 212 = (26, 67108849)"
  "huff_prefix 213 = (25, 33554425)" "huff_prefix 214 = (26, 67108850)"
  "huff_prefix 215 = (26, 67108851)" "huff_prefix 216 = (24, 16777213)"
  "huff_prefix 217 = (25, 33554426)" "huff_prefix 218 = (26, 67108852)"
  "huff_prefix 219 = (26, 67108853)" "huff_prefix 220 = (25, 33554427)"
  "huff_prefix 221 = (26, 67108854)" "huff_prefix 222 = (26, 67108855)" "huff_prefix 223 = (23, 8388607)"
  by (simp_all add: huff_prefix_def huff_prefix_13_def)

lemma huff_prefix_row_14:
  "huff_prefix 224 = (24, 16777214)" "huff_prefix 225 = (25, 33554428)"
  "huff_prefix 226 = (26, 67108856)" "huff_prefix 227 = (27, 134217713)"
  "huff_prefix 228 = (26, 67108857)" "huff_prefix 229 = (27, 134217714)"
  "huff_prefix 230 = (27, 134217715)" "huff_prefix 231 = (25, 33554429)"
  "huff_prefix 232 = (26, 67108858)" "huff_prefix 233 = (27, 134217716)"
  "huff_prefix 234 = (27, 134217717)" "huff_prefix 235 = (26, 67108859)"
  "huff_prefix 236 = (27, 134217718)" "huff_prefix 237 = (27, 134217719)"
  "huff_prefix 238 = (24, 16777215)" "huff_prefix 239 = (25, 33554430)"
  by (simp_all add: huff_prefix_def huff_prefix_14_def)

lemma huff_prefix_row_15:
  "huff_prefix 240 = (26, 67108860)" "huff_prefix 241 = (27, 134217720)"
  "huff_prefix 242 = (27, 134217721)" "huff_prefix 243 = (26, 67108861)"
  "huff_prefix 244 = (27, 134217722)" "huff_prefix 245 = (27, 134217723)"
  "huff_prefix 246 = (25, 33554431)" "huff_prefix 247 = (26, 67108862)"
  "huff_prefix 248 = (27, 134217724)" "huff_prefix 249 = (27, 134217725)"
  "huff_prefix 250 = (26, 67108863)" "huff_prefix 251 = (27, 134217726)"
  "huff_prefix 252 = (27, 134217727)" "huff_prefix 253 = (28, 268435455)"
  "huff_prefix 254 = (29, 536870910)" "huff_prefix 255 = (29, 536870911)"
  by (simp_all add: huff_prefix_def huff_prefix_15_def)

lemmas huff_prefix_simps =
  huff_prefix_row_0 huff_prefix_row_1 huff_prefix_row_2 huff_prefix_row_3 huff_prefix_row_4
  huff_prefix_row_5 huff_prefix_row_6 huff_prefix_row_7 huff_prefix_row_8 huff_prefix_row_9
  huff_prefix_row_10 huff_prefix_row_11 huff_prefix_row_12 huff_prefix_row_13 huff_prefix_row_14
  huff_prefix_row_15


definition huff_code_0 :: "(int \<times> int) list" where
  "huff_code_0 =
    [(13, 8184), (23, 8388568), (28, 268435426), (28, 268435427), (28, 268435428), (28, 268435429),
     (28, 268435430), (28, 268435431), (28, 268435432), (24, 16777194), (30, 1073741820), (28, 268435433),
     (28, 268435434), (30, 1073741821), (28, 268435435), (28, 268435436)]"

definition huff_code_1 :: "(int \<times> int) list" where
  "huff_code_1 =
    [(28, 268435437), (28, 268435438), (28, 268435439), (28, 268435440), (28, 268435441), (28, 268435442),
     (30, 1073741822), (28, 268435443), (28, 268435444), (28, 268435445), (28, 268435446), (28, 268435447),
     (28, 268435448), (28, 268435449), (28, 268435450), (28, 268435451)]"

definition huff_code_2 :: "(int \<times> int) list" where
  "huff_code_2 =
    [(6, 20), (10, 1016), (10, 1017), (12, 4090), (13, 8185), (6, 21), (8, 248), (11, 2042), (10, 1018),
     (10, 1019), (8, 249), (11, 2043), (8, 250), (6, 22), (6, 23), (6, 24)]"

definition huff_code_3 :: "(int \<times> int) list" where
  "huff_code_3 =
    [(5, 0), (5, 1), (5, 2), (6, 25), (6, 26), (6, 27), (6, 28), (6, 29), (6, 30), (6, 31), (7, 92),
     (8, 251), (15, 32764), (6, 32), (12, 4091), (10, 1020)]"

definition huff_code_4 :: "(int \<times> int) list" where
  "huff_code_4 =
    [(13, 8186), (6, 33), (7, 93), (7, 94), (7, 95), (7, 96), (7, 97), (7, 98), (7, 99), (7, 100), (7, 101),
     (7, 102), (7, 103), (7, 104), (7, 105), (7, 106)]"

definition huff_code_5 :: "(int \<times> int) list" where
  "huff_code_5 =
    [(7, 107), (7, 108), (7, 109), (7, 110), (7, 111), (7, 112), (7, 113), (7, 114), (8, 252), (7, 115),
     (8, 253), (13, 8187), (19, 524272), (13, 8188), (14, 16380), (6, 34)]"

definition huff_code_6 :: "(int \<times> int) list" where
  "huff_code_6 =
    [(15, 32765), (5, 3), (6, 35), (5, 4), (6, 36), (5, 5), (6, 37), (6, 38), (6, 39), (5, 6), (7, 116),
     (7, 117), (6, 40), (6, 41), (6, 42), (5, 7)]"

definition huff_code_7 :: "(int \<times> int) list" where
  "huff_code_7 =
    [(6, 43), (7, 118), (6, 44), (5, 8), (5, 9), (6, 45), (7, 119), (7, 120), (7, 121), (7, 122), (7, 123),
     (15, 32766), (11, 2044), (14, 16381), (13, 8189), (28, 268435452)]"

definition huff_code_8 :: "(int \<times> int) list" where
  "huff_code_8 =
    [(20, 1048550), (22, 4194258), (20, 1048551), (20, 1048552), (22, 4194259), (22, 4194260),
     (22, 4194261), (23, 8388569), (22, 4194262), (23, 8388570), (23, 8388571), (23, 8388572),
     (23, 8388573), (23, 8388574), (24, 16777195), (23, 8388575)]"

definition huff_code_9 :: "(int \<times> int) list" where
  "huff_code_9 =
    [(24, 16777196), (24, 16777197), (22, 4194263), (23, 8388576), (24, 16777198), (23, 8388577),
     (23, 8388578), (23, 8388579), (23, 8388580), (21, 2097116), (22, 4194264), (23, 8388581),
     (22, 4194265), (23, 8388582), (23, 8388583), (24, 16777199)]"

definition huff_code_10 :: "(int \<times> int) list" where
  "huff_code_10 =
    [(22, 4194266), (21, 2097117), (20, 1048553), (22, 4194267), (22, 4194268), (23, 8388584),
     (23, 8388585), (21, 2097118), (23, 8388586), (22, 4194269), (22, 4194270), (24, 16777200),
     (21, 2097119), (22, 4194271), (23, 8388587), (23, 8388588)]"

definition huff_code_11 :: "(int \<times> int) list" where
  "huff_code_11 =
    [(21, 2097120), (21, 2097121), (22, 4194272), (21, 2097122), (23, 8388589), (22, 4194273),
     (23, 8388590), (23, 8388591), (20, 1048554), (22, 4194274), (22, 4194275), (22, 4194276),
     (23, 8388592), (22, 4194277), (22, 4194278), (23, 8388593)]"

definition huff_code_12 :: "(int \<times> int) list" where
  "huff_code_12 =
    [(26, 67108832), (26, 67108833), (20, 1048555), (19, 524273), (22, 4194279), (23, 8388594),
     (22, 4194280), (25, 33554412), (26, 67108834), (26, 67108835), (26, 67108836), (27, 134217694),
     (27, 134217695), (26, 67108837), (24, 16777201), (25, 33554413)]"

definition huff_code_13 :: "(int \<times> int) list" where
  "huff_code_13 =
    [(19, 524274), (21, 2097123), (26, 67108838), (27, 134217696), (27, 134217697), (26, 67108839),
     (27, 134217698), (24, 16777202), (21, 2097124), (21, 2097125), (26, 67108840), (26, 67108841),
     (28, 268435453), (27, 134217699), (27, 134217700), (27, 134217701)]"

definition huff_code_14 :: "(int \<times> int) list" where
  "huff_code_14 =
    [(20, 1048556), (24, 16777203), (20, 1048557), (21, 2097126), (22, 4194281), (21, 2097127),
     (21, 2097128), (23, 8388595), (22, 4194282), (22, 4194283), (25, 33554414), (25, 33554415),
     (24, 16777204), (24, 16777205), (26, 67108842), (23, 8388596)]"

definition huff_code_15 :: "(int \<times> int) list" where
  "huff_code_15 =
    [(26, 67108843), (27, 134217702), (26, 67108844), (26, 67108845), (27, 134217703), (27, 134217704),
     (27, 134217705), (27, 134217706), (27, 134217707), (28, 268435454), (27, 134217708), (27, 134217709),
     (27, 134217710), (27, 134217711), (27, 134217712), (26, 67108846)]"

definition huff_code :: "int \<Rightarrow> int \<times> int" where
  "huff_code n =
    [huff_code_0, huff_code_1, huff_code_2, huff_code_3, huff_code_4, huff_code_5, huff_code_6, huff_code_7,
     huff_code_8, huff_code_9, huff_code_10, huff_code_11, huff_code_12, huff_code_13, huff_code_14,
     huff_code_15] ! nat (n div 16) ! nat (n mod 16)"

lemma huff_code_row_0:
  "huff_code 0 = (13, 8184)" "huff_code 1 = (23, 8388568)" "huff_code 2 = (28, 268435426)"
  "huff_code 3 = (28, 268435427)" "huff_code 4 = (28, 268435428)" "huff_code 5 = (28, 268435429)"
  "huff_code 6 = (28, 268435430)" "huff_code 7 = (28, 268435431)" "huff_code 8 = (28, 268435432)"
  "huff_code 9 = (24, 16777194)" "huff_code 10 = (30, 1073741820)" "huff_code 11 = (28, 268435433)"
  "huff_code 12 = (28, 268435434)" "huff_code 13 = (30, 1073741821)" "huff_code 14 = (28, 268435435)"
  "huff_code 15 = (28, 268435436)"
  by (simp_all add: huff_code_def huff_code_0_def)

lemma huff_code_row_1:
  "huff_code 16 = (28, 268435437)" "huff_code 17 = (28, 268435438)" "huff_code 18 = (28, 268435439)"
  "huff_code 19 = (28, 268435440)" "huff_code 20 = (28, 268435441)" "huff_code 21 = (28, 268435442)"
  "huff_code 22 = (30, 1073741822)" "huff_code 23 = (28, 268435443)" "huff_code 24 = (28, 268435444)"
  "huff_code 25 = (28, 268435445)" "huff_code 26 = (28, 268435446)" "huff_code 27 = (28, 268435447)"
  "huff_code 28 = (28, 268435448)" "huff_code 29 = (28, 268435449)" "huff_code 30 = (28, 268435450)"
  "huff_code 31 = (28, 268435451)"
  by (simp_all add: huff_code_def huff_code_1_def)

lemma huff_code_row_2:
  "huff_code 32 = (6, 20)" "huff_code 33 = (10, 1016)" "huff_code 34 = (10, 1017)"
  "huff_code 35 = (12, 4090)" "huff_code 36 = (13, 8185)" "huff_code 37 = (6, 21)"
  "huff_code 38 = (8, 248)" "huff_code 39 = (11, 2042)" "huff_code 40 = (10, 1018)"
  "huff_code 41 = (10, 1019)" "huff_code 42 = (8, 249)" "huff_code 43 = (11, 2043)"
  "huff_code 44 = (8, 250)" "huff_code 45 = (6, 22)" "huff_code 46 = (6, 23)" "huff_code 47 = (6, 24)"
  by (simp_all add: huff_code_def huff_code_2_def)

lemma huff_code_row_3:
  "huff_code 48 = (5, 0)" "huff_code 49 = (5, 1)" "huff_code 50 = (5, 2)" "huff_code 51 = (6, 25)"
  "huff_code 52 = (6, 26)" "huff_code 53 = (6, 27)" "huff_code 54 = (6, 28)" "huff_code 55 = (6, 29)"
  "huff_code 56 = (6, 30)" "huff_code 57 = (6, 31)" "huff_code 58 = (7, 92)" "huff_code 59 = (8, 251)"
  "huff_code 60 = (15, 32764)" "huff_code 61 = (6, 32)" "huff_code 62 = (12, 4091)"
  "huff_code 63 = (10, 1020)"
  by (simp_all add: huff_code_def huff_code_3_def)

lemma huff_code_row_4:
  "huff_code 64 = (13, 8186)" "huff_code 65 = (6, 33)" "huff_code 66 = (7, 93)" "huff_code 67 = (7, 94)"
  "huff_code 68 = (7, 95)" "huff_code 69 = (7, 96)" "huff_code 70 = (7, 97)" "huff_code 71 = (7, 98)"
  "huff_code 72 = (7, 99)" "huff_code 73 = (7, 100)" "huff_code 74 = (7, 101)" "huff_code 75 = (7, 102)"
  "huff_code 76 = (7, 103)" "huff_code 77 = (7, 104)" "huff_code 78 = (7, 105)" "huff_code 79 = (7, 106)"
  by (simp_all add: huff_code_def huff_code_4_def)

lemma huff_code_row_5:
  "huff_code 80 = (7, 107)" "huff_code 81 = (7, 108)" "huff_code 82 = (7, 109)" "huff_code 83 = (7, 110)"
  "huff_code 84 = (7, 111)" "huff_code 85 = (7, 112)" "huff_code 86 = (7, 113)" "huff_code 87 = (7, 114)"
  "huff_code 88 = (8, 252)" "huff_code 89 = (7, 115)" "huff_code 90 = (8, 253)"
  "huff_code 91 = (13, 8187)" "huff_code 92 = (19, 524272)" "huff_code 93 = (13, 8188)"
  "huff_code 94 = (14, 16380)" "huff_code 95 = (6, 34)"
  by (simp_all add: huff_code_def huff_code_5_def)

lemma huff_code_row_6:
  "huff_code 96 = (15, 32765)" "huff_code 97 = (5, 3)" "huff_code 98 = (6, 35)" "huff_code 99 = (5, 4)"
  "huff_code 100 = (6, 36)" "huff_code 101 = (5, 5)" "huff_code 102 = (6, 37)" "huff_code 103 = (6, 38)"
  "huff_code 104 = (6, 39)" "huff_code 105 = (5, 6)" "huff_code 106 = (7, 116)"
  "huff_code 107 = (7, 117)" "huff_code 108 = (6, 40)" "huff_code 109 = (6, 41)"
  "huff_code 110 = (6, 42)" "huff_code 111 = (5, 7)"
  by (simp_all add: huff_code_def huff_code_6_def)

lemma huff_code_row_7:
  "huff_code 112 = (6, 43)" "huff_code 113 = (7, 118)" "huff_code 114 = (6, 44)" "huff_code 115 = (5, 8)"
  "huff_code 116 = (5, 9)" "huff_code 117 = (6, 45)" "huff_code 118 = (7, 119)"
  "huff_code 119 = (7, 120)" "huff_code 120 = (7, 121)" "huff_code 121 = (7, 122)"
  "huff_code 122 = (7, 123)" "huff_code 123 = (15, 32766)" "huff_code 124 = (11, 2044)"
  "huff_code 125 = (14, 16381)" "huff_code 126 = (13, 8189)" "huff_code 127 = (28, 268435452)"
  by (simp_all add: huff_code_def huff_code_7_def)

lemma huff_code_row_8:
  "huff_code 128 = (20, 1048550)" "huff_code 129 = (22, 4194258)" "huff_code 130 = (20, 1048551)"
  "huff_code 131 = (20, 1048552)" "huff_code 132 = (22, 4194259)" "huff_code 133 = (22, 4194260)"
  "huff_code 134 = (22, 4194261)" "huff_code 135 = (23, 8388569)" "huff_code 136 = (22, 4194262)"
  "huff_code 137 = (23, 8388570)" "huff_code 138 = (23, 8388571)" "huff_code 139 = (23, 8388572)"
  "huff_code 140 = (23, 8388573)" "huff_code 141 = (23, 8388574)" "huff_code 142 = (24, 16777195)"
  "huff_code 143 = (23, 8388575)"
  by (simp_all add: huff_code_def huff_code_8_def)

lemma huff_code_row_9:
  "huff_code 144 = (24, 16777196)" "huff_code 145 = (24, 16777197)" "huff_code 146 = (22, 4194263)"
  "huff_code 147 = (23, 8388576)" "huff_code 148 = (24, 16777198)" "huff_code 149 = (23, 8388577)"
  "huff_code 150 = (23, 8388578)" "huff_code 151 = (23, 8388579)" "huff_code 152 = (23, 8388580)"
  "huff_code 153 = (21, 2097116)" "huff_code 154 = (22, 4194264)" "huff_code 155 = (23, 8388581)"
  "huff_code 156 = (22, 4194265)" "huff_code 157 = (23, 8388582)" "huff_code 158 = (23, 8388583)"
  "huff_code 159 = (24, 16777199)"
  by (simp_all add: huff_code_def huff_code_9_def)

lemma huff_code_row_10:
  "huff_code 160 = (22, 4194266)" "huff_code 161 = (21, 2097117)" "huff_code 162 = (20, 1048553)"
  "huff_code 163 = (22, 4194267)" "huff_code 164 = (22, 4194268)" "huff_code 165 = (23, 8388584)"
  "huff_code 166 = (23, 8388585)" "huff_code 167 = (21, 2097118)" "huff_code 168 = (23, 8388586)"
  "huff_code 169 = (22, 4194269)" "huff_code 170 = (22, 4194270)" "huff_code 171 = (24, 16777200)"
  "huff_code 172 = (21, 2097119)" "huff_code 173 = (22, 4194271)" "huff_code 174 = (23, 8388587)"
  "huff_code 175 = (23, 8388588)"
  by (simp_all add: huff_code_def huff_code_10_def)

lemma huff_code_row_11:
  "huff_code 176 = (21, 2097120)" "huff_code 177 = (21, 2097121)" "huff_code 178 = (22, 4194272)"
  "huff_code 179 = (21, 2097122)" "huff_code 180 = (23, 8388589)" "huff_code 181 = (22, 4194273)"
  "huff_code 182 = (23, 8388590)" "huff_code 183 = (23, 8388591)" "huff_code 184 = (20, 1048554)"
  "huff_code 185 = (22, 4194274)" "huff_code 186 = (22, 4194275)" "huff_code 187 = (22, 4194276)"
  "huff_code 188 = (23, 8388592)" "huff_code 189 = (22, 4194277)" "huff_code 190 = (22, 4194278)"
  "huff_code 191 = (23, 8388593)"
  by (simp_all add: huff_code_def huff_code_11_def)

lemma huff_code_row_12:
  "huff_code 192 = (26, 67108832)" "huff_code 193 = (26, 67108833)" "huff_code 194 = (20, 1048555)"
  "huff_code 195 = (19, 524273)" "huff_code 196 = (22, 4194279)" "huff_code 197 = (23, 8388594)"
  "huff_code 198 = (22, 4194280)" "huff_code 199 = (25, 33554412)" "huff_code 200 = (26, 67108834)"
  "huff_code 201 = (26, 67108835)" "huff_code 202 = (26, 67108836)" "huff_code 203 = (27, 134217694)"
  "huff_code 204 = (27, 134217695)" "huff_code 205 = (26, 67108837)" "huff_code 206 = (24, 16777201)"
  "huff_code 207 = (25, 33554413)"
  by (simp_all add: huff_code_def huff_code_12_def)

lemma huff_code_row_13:
  "huff_code 208 = (19, 524274)" "huff_code 209 = (21, 2097123)" "huff_code 210 = (26, 67108838)"
  "huff_code 211 = (27, 134217696)" "huff_code 212 = (27, 134217697)" "huff_code 213 = (26, 67108839)"
  "huff_code 214 = (27, 134217698)" "huff_code 215 = (24, 16777202)" "huff_code 216 = (21, 2097124)"
  "huff_code 217 = (21, 2097125)" "huff_code 218 = (26, 67108840)" "huff_code 219 = (26, 67108841)"
  "huff_code 220 = (28, 268435453)" "huff_code 221 = (27, 134217699)" "huff_code 222 = (27, 134217700)"
  "huff_code 223 = (27, 134217701)"
  by (simp_all add: huff_code_def huff_code_13_def)

lemma huff_code_row_14:
  "huff_code 224 = (20, 1048556)" "huff_code 225 = (24, 16777203)" "huff_code 226 = (20, 1048557)"
  "huff_code 227 = (21, 2097126)" "huff_code 228 = (22, 4194281)" "huff_code 229 = (21, 2097127)"
  "huff_code 230 = (21, 2097128)" "huff_code 231 = (23, 8388595)" "huff_code 232 = (22, 4194282)"
  "huff_code 233 = (22, 4194283)" "huff_code 234 = (25, 33554414)" "huff_code 235 = (25, 33554415)"
  "huff_code 236 = (24, 16777204)" "huff_code 237 = (24, 16777205)" "huff_code 238 = (26, 67108842)"
  "huff_code 239 = (23, 8388596)"
  by (simp_all add: huff_code_def huff_code_14_def)

lemma huff_code_row_15:
  "huff_code 240 = (26, 67108843)" "huff_code 241 = (27, 134217702)" "huff_code 242 = (26, 67108844)"
  "huff_code 243 = (26, 67108845)" "huff_code 244 = (27, 134217703)" "huff_code 245 = (27, 134217704)"
  "huff_code 246 = (27, 134217705)" "huff_code 247 = (27, 134217706)" "huff_code 248 = (27, 134217707)"
  "huff_code 249 = (28, 268435454)" "huff_code 250 = (27, 134217708)" "huff_code 251 = (27, 134217709)"
  "huff_code 252 = (27, 134217710)" "huff_code 253 = (27, 134217711)" "huff_code 254 = (27, 134217712)"
  "huff_code 255 = (26, 67108846)"
  by (simp_all add: huff_code_def huff_code_15_def)

lemmas huff_code_simps =
  huff_code_row_0 huff_code_row_1 huff_code_row_2 huff_code_row_3 huff_code_row_4 huff_code_row_5
  huff_code_row_6 huff_code_row_7 huff_code_row_8 huff_code_row_9 huff_code_row_10 huff_code_row_11
  huff_code_row_12 huff_code_row_13 huff_code_row_14 huff_code_row_15


section \<open>The checks\<close>

text \<open>State 256 is entered when the bits go on from thirty ones, which is the code of EOS.\<close>

fun move_ok :: "int \<Rightarrow> int \<Rightarrow> int \<times> int \<Rightarrow> int \<times> int \<Rightarrow> bool \<Rightarrow> bool" where
  "move_ok l x (l', p') (n, c) acc \<longleftrightarrow>
     l + 4 = n + l' \<and> x = c * 2 ^ nat l' + p' \<and> (acc \<longleftrightarrow> l' < 8 \<and> p' + 1 = 2 ^ nat l')"

definition entry_ok :: "int \<Rightarrow> int \<Rightarrow> int \<Rightarrow> int \<Rightarrow> bool" where
  "entry_ok l x f sy \<longleftrightarrow>
     (if f = 256 then 26 \<le> l \<and> x div 2 ^ nat (l - 26) = 1073741823
      else if f < 256 then move_ok l x (huff_prefix f) (0, 0) False
      else if f < 32768 then 16384 \<le> f \<and> f < 16640 \<and> move_ok l x (huff_prefix (f - 16384)) (0, 0) True
      else if f < 49152 then 32768 \<le> f \<and> f < 33024 \<and> move_ok l x (huff_prefix (f - 32768)) (huff_code sy) False
      else 49152 \<le> f \<and> f < 49408 \<and> move_ok l x (huff_prefix (f - 49152)) (huff_code sy) True)"

fun row_ok :: "int \<times> int \<Rightarrow> int \<Rightarrow> nghttp2_huff_decode list \<Rightarrow> bool" where
  "row_ok q v [] = (v = 16)"
| "row_ok (l, p) v ((f, sy) # ts) = (entry_ok l (p * 16 + v) (uint f) (uint sy) \<and> row_ok (l, p) (v + 1) ts)"

fun rows_ok :: "int \<Rightarrow> nghttp2_huff_decode list list \<Rightarrow> bool" where
  "rows_ok s [] = True"
| "rows_ok s (r # rs) = (row_ok (huff_prefix s) 0 r \<and> rows_ok (s + 1) rs)"

text \<open>The table of the symbols: codes of 5 to 30 bits, aligned to the most significant bit.\<close>

fun syms_ok :: "int \<Rightarrow> nghttp2_huff_sym list \<Rightarrow> bool" where
  "syms_ok i [] = True"
| "syms_ok i ((n, c) # ts) =
    (5 \<le> n \<and> n \<le> 30 \<and> uint c = snd (huff_code i) * 2 ^ (32 - n) \<and> fst (huff_code i) = int n \<and> syms_ok (i + 1) ts)"

text \<open>
  In this order every code, filled up to thirty bits, starts where the one in front of it
  ends; the last one ends in front of EOS.
\<close>

fun order_ok :: "int \<Rightarrow> int list \<Rightarrow> bool" where
  "order_ok e [] = (e \<le> 1073741823)"
| "order_ok e (i # is) =
    (let (n, v) = huff_code i; w = 2 ^ nat (30 - n) in e \<le> v * w \<and> 0 \<le> i \<and> i < 256 \<and> order_ok (v * w + w) is)"

text \<open>The prefix of every state goes on to the code of a symbol.\<close>

fun prefixes_ok :: "int \<Rightarrow> int list \<Rightarrow> bool" where
  "prefixes_ok s [] = (s = 256)"
| "prefixes_ok s (i # is) =
    (let (l, p) = huff_prefix s; (n, v) = huff_code i
     in 0 \<le> l \<and> l < n \<and> v div 2 ^ nat (n - l) = p \<and> 0 \<le> p \<and> 0 \<le> i \<and> i < 256 \<and> prefixes_ok (s + 1) is)"

definition huff_order :: "int list" where
  "huff_order =
    [48, 49, 50, 97, 99, 101, 105, 111, 115, 116, 32, 37, 45, 46, 47, 51, 52, 53, 54, 55, 56, 57, 61, 65,
     95, 98, 100, 102, 103, 104, 108, 109, 110, 112, 114, 117, 58, 66, 67, 68, 69, 70, 71, 72, 73, 74, 75,
     76, 77, 78, 79, 80, 81, 82, 83, 84, 85, 86, 87, 89, 106, 107, 113, 118, 119, 120, 121, 122, 38, 42, 44,
     59, 88, 90, 33, 34, 40, 41, 63, 39, 43, 124, 35, 62, 0, 36, 64, 91, 93, 126, 94, 125, 60, 96, 123, 92,
     195, 208, 128, 130, 131, 162, 184, 194, 224, 226, 153, 161, 167, 172, 176, 177, 179, 209, 216, 217,
     227, 229, 230, 129, 132, 133, 134, 136, 146, 154, 156, 160, 163, 164, 169, 170, 173, 178, 181, 185,
     186, 187, 189, 190, 196, 198, 228, 232, 233, 1, 135, 137, 138, 139, 140, 141, 143, 147, 149, 150, 151,
     152, 155, 157, 158, 165, 166, 168, 174, 175, 180, 182, 183, 188, 191, 197, 231, 239, 9, 142, 144, 145,
     148, 159, 171, 206, 215, 225, 236, 237, 199, 207, 234, 235, 192, 193, 200, 201, 202, 205, 210, 213,
     218, 219, 238, 240, 242, 243, 255, 203, 204, 211, 212, 214, 221, 222, 223, 241, 244, 245, 246, 247,
     248, 250, 251, 252, 253, 254, 2, 3, 4, 5, 6, 7, 8, 11, 12, 14, 15, 16, 17, 18, 19, 20, 21, 23, 24, 25,
     26, 27, 28, 29, 30, 31, 127, 220, 249, 10, 13, 22]"

definition huff_goes_on :: "int list" where
  "huff_goes_on =
    [0, 32, 48, 48, 48, 50, 99, 99, 105, 32, 32, 115, 32, 32, 45, 47, 47, 47, 52, 54, 54, 56, 0, 58, 61, 61,
     61, 95, 100, 100, 103, 58, 108, 108, 110, 58, 114, 58, 58, 67, 0, 69, 69, 69, 69, 71, 73, 73, 75, 77,
     77, 77, 79, 81, 81, 83, 0, 85, 85, 85, 87, 106, 106, 113, 0, 119, 119, 121, 0, 38, 38, 44, 0, 88, 0,
     33, 33, 40, 0, 39, 39, 0, 35, 35, 0, 0, 0, 64, 1, 93, 1, 94, 1, 60, 1, 1, 92, 92, 92, 128, 128, 131,
     131, 131, 184, 153, 224, 153, 153, 167, 1, 129, 176, 176, 176, 179, 216, 216, 227, 129, 129, 129, 129,
     133, 133, 136, 154, 154, 154, 160, 164, 164, 170, 1, 1, 178, 178, 178, 185, 187, 187, 190, 1, 198, 198,
     232, 1, 1, 1, 137, 139, 139, 141, 2, 147, 147, 147, 147, 150, 152, 152, 157, 165, 165, 165, 168, 175,
     175, 182, 2, 9, 188, 188, 197, 9, 9, 9, 144, 144, 148, 2, 171, 171, 171, 215, 199, 236, 199, 199, 234,
     2, 192, 192, 192, 192, 200, 202, 202, 210, 203, 218, 218, 238, 203, 242, 203, 203, 2, 211, 211, 211,
     211, 214, 222, 222, 241, 245, 245, 245, 247, 250, 250, 252, 2, 2, 2, 2, 2, 4, 4, 6, 8, 8, 8, 12, 15,
     15, 17, 10, 19, 19, 19, 21, 24, 24, 26, 10, 28, 28, 30, 10, 127, 10, 10, 10, 22]"

lemmas entry_simps = entry_ok_def huff_prefix_simps huff_code_simps

lemma syms_ok: "syms_ok 0 (take 256 huff_sym_table)"
  by (simp add: huff_sym_table_def huff_code_simps)

lemma order_ok: "order_ok 0 huff_order"
  by (simp add: huff_order_def huff_code_simps Let_def)

lemma prefixes_ok: "prefixes_ok 0 huff_goes_on"
  by (simp add: huff_goes_on_def huff_code_simps huff_prefix_simps Let_def)

lemma rows_ok_0: "rows_ok 0 huff_decode_rows_0"
  by (simp add: huff_decode_rows_0_def entry_simps)

lemma rows_ok_1: "rows_ok 8 huff_decode_rows_1"
  by (simp add: huff_decode_rows_1_def entry_simps)

lemma rows_ok_2: "rows_ok 16 huff_decode_rows_2"
  by (simp add: huff_decode_rows_2_def entry_simps)

lemma rows_ok_3: "rows_ok 24 huff_decode_rows_3"
  by (simp add: huff_decode_rows_3_def entry_simps)

lemma rows_ok_4: "rows_ok 32 huff_decode_rows_4"
  by (simp add: huff_decode_rows_4_def entry_simps)

lemma rows_ok_5: "rows_ok 40 huff_decode_rows_5"
  by (simp add: huff_decode_rows_5_def entry_simps)

lemma rows_ok_6: "rows_ok 48 huff_decode_rows_6"
  by (simp add: huff_decode_rows_6_def entry_simps)

lemma rows_ok_7: "rows_ok 56 huff_decode_rows_7"
  by (simp add: huff_decode_rows_7_def entry_simps)

lemma rows_ok_8: "rows_ok 64 huff_decode_rows_8"
  by (simp add: huff_decode_rows_8_def entry_simps)

lemma rows_ok_9: "rows_ok 72 huff_decode_rows_9"
  by (simp add: huff_decode_rows_9_def entry_simps)

lemma rows_ok_10: "rows_ok 80 huff_decode_rows_10"
  by (simp add: huff_decode_rows_10_def entry_simps)

lemma rows_ok_11: "rows_ok 88 huff_decode_rows_11"
  by (simp add: huff_decode_rows_11_def entry_simps)

lemma rows_ok_12: "rows_ok 96 huff_decode_rows_12"
  by (simp add: huff_decode_rows_12_def entry_simps)

lemma rows_ok_13: "rows_ok 104 huff_decode_rows_13"
  by (simp add: huff_decode_rows_13_def entry_simps)

lemma rows_ok_14: "rows_ok 112 huff_decode_rows_14"
  by (simp add: huff_decode_rows_14_def entry_simps)

lemma rows_ok_15: "rows_ok 120 huff_decode_rows_15"
  by (simp add: huff_decode_rows_15_def entry_simps)

lemma rows_ok_16: "rows_ok 128 huff_decode_rows_16"
  by (simp add: huff_decode_rows_16_def entry_simps)

lemma rows_ok_17: "rows_ok 136 huff_decode_rows_17"
  by (simp add: huff_decode_rows_17_def entry_simps)

lemma rows_ok_18: "rows_ok 144 huff_decode_rows_18"
  by (simp add: huff_decode_rows_18_def entry_simps)

lemma rows_ok_19: "rows_ok 152 huff_decode_rows_19"
  by (simp add: huff_decode_rows_19_def entry_simps)

lemma rows_ok_20: "rows_ok 160 huff_decode_rows_20"
  by (simp add: huff_decode_rows_20_def entry_simps)

lemma rows_ok_21: "rows_ok 168 huff_decode_rows_21"
  by (simp add: huff_decode_rows_21_def entry_simps)

lemma rows_ok_22: "rows_ok 176 huff_decode_rows_22"
  by (simp add: huff_decode_rows_22_def entry_simps)

lemma rows_ok_23: "rows_ok 184 huff_decode_rows_23"
  by (simp add: huff_decode_rows_23_def entry_simps)

lemma rows_ok_24: "rows_ok 192 huff_decode_rows_24"
  by (simp add: huff_decode_rows_24_def entry_simps)

lemma rows_ok_25: "rows_ok 200 huff_decode_rows_25"
  by (simp add: huff_decode_rows_25_def entry_simps)

lemma rows_ok_26: "rows_ok 208 huff_decode_rows_26"
  by (simp add: huff_decode_rows_26_def entry_simps)

lemma rows_ok_27: "rows_ok 216 huff_decode_rows_27"
  by (simp add: huff_decode_rows_27_def entry_simps)

lemma rows_ok_28: "rows_ok 224 huff_decode_rows_28"
  by (simp add: huff_decode_rows_28_def entry_simps)

lemma rows_ok_29: "rows_ok 232 huff_decode_rows_29"
  by (simp add: huff_decode_rows_29_def entry_simps)

lemma rows_ok_30: "rows_ok 240 huff_decode_rows_30"
  by (simp add: huff_decode_rows_30_def entry_simps)

lemma rows_ok_31: "rows_ok 248 huff_decode_rows_31"
  by (simp add: huff_decode_rows_31_def entry_simps)

section \<open>What the checks give\<close>

lemma rows_append: "rows_ok s (rs @ rs') \<longleftrightarrow> rows_ok s rs \<and> rows_ok (s + int (length rs)) rs'"
  by (induction rs arbitrary: s) (auto simp: algebra_simps)

lemmas rows_defs =
  huff_decode_rows_0_def huff_decode_rows_1_def huff_decode_rows_2_def huff_decode_rows_3_def
  huff_decode_rows_4_def huff_decode_rows_5_def huff_decode_rows_6_def huff_decode_rows_7_def
  huff_decode_rows_8_def huff_decode_rows_9_def huff_decode_rows_10_def huff_decode_rows_11_def
  huff_decode_rows_12_def huff_decode_rows_13_def huff_decode_rows_14_def huff_decode_rows_15_def
  huff_decode_rows_16_def huff_decode_rows_17_def huff_decode_rows_18_def huff_decode_rows_19_def
  huff_decode_rows_20_def huff_decode_rows_21_def huff_decode_rows_22_def huff_decode_rows_23_def
  huff_decode_rows_24_def huff_decode_rows_25_def huff_decode_rows_26_def huff_decode_rows_27_def
  huff_decode_rows_28_def huff_decode_rows_29_def huff_decode_rows_30_def huff_decode_rows_31_def
  huff_decode_rows_32_def

lemma rows_length:
  "length huff_decode_rows_0 = 8" "length huff_decode_rows_1 = 8" "length huff_decode_rows_2 = 8"
  "length huff_decode_rows_3 = 8" "length huff_decode_rows_4 = 8" "length huff_decode_rows_5 = 8"
  "length huff_decode_rows_6 = 8" "length huff_decode_rows_7 = 8" "length huff_decode_rows_8 = 8"
  "length huff_decode_rows_9 = 8" "length huff_decode_rows_10 = 8" "length huff_decode_rows_11 = 8"
  "length huff_decode_rows_12 = 8" "length huff_decode_rows_13 = 8" "length huff_decode_rows_14 = 8"
  "length huff_decode_rows_15 = 8" "length huff_decode_rows_16 = 8" "length huff_decode_rows_17 = 8"
  "length huff_decode_rows_18 = 8" "length huff_decode_rows_19 = 8" "length huff_decode_rows_20 = 8"
  "length huff_decode_rows_21 = 8" "length huff_decode_rows_22 = 8" "length huff_decode_rows_23 = 8"
  "length huff_decode_rows_24 = 8" "length huff_decode_rows_25 = 8" "length huff_decode_rows_26 = 8"
  "length huff_decode_rows_27 = 8" "length huff_decode_rows_28 = 8" "length huff_decode_rows_29 = 8"
  "length huff_decode_rows_30 = 8" "length huff_decode_rows_31 = 8" "length huff_decode_rows_32 = 1"
  by (simp_all add: rows_defs)

lemma huff_decode_table_rows: "\<exists>rs. huff_decode_table = rs @ [replicate 16 (256, 0)] \<and> length rs = 256 \<and> rows_ok 0 rs"
proof -
  let ?rs = "concat
    [huff_decode_rows_0, huff_decode_rows_1, huff_decode_rows_2, huff_decode_rows_3, huff_decode_rows_4,
     huff_decode_rows_5, huff_decode_rows_6, huff_decode_rows_7, huff_decode_rows_8, huff_decode_rows_9,
     huff_decode_rows_10, huff_decode_rows_11, huff_decode_rows_12, huff_decode_rows_13,
     huff_decode_rows_14, huff_decode_rows_15, huff_decode_rows_16, huff_decode_rows_17,
     huff_decode_rows_18, huff_decode_rows_19, huff_decode_rows_20, huff_decode_rows_21,
     huff_decode_rows_22, huff_decode_rows_23, huff_decode_rows_24, huff_decode_rows_25,
     huff_decode_rows_26, huff_decode_rows_27, huff_decode_rows_28, huff_decode_rows_29,
     huff_decode_rows_30, huff_decode_rows_31]"
  have "huff_decode_table = ?rs @ huff_decode_rows_32" by (simp add: huff_decode_table_def)
  moreover have "huff_decode_rows_32 = [replicate 16 (256, 0)]" by (simp add: huff_decode_rows_32_def numeral_eq_Suc)
  moreover have "length ?rs = 256" by (simp add: rows_length)
  moreover have "rows_ok 0 ?rs"
    by (simp add: rows_append rows_length rows_ok_0 rows_ok_1 rows_ok_2 rows_ok_3 rows_ok_4 rows_ok_5 rows_ok_6 rows_ok_7 rows_ok_8 rows_ok_9
      rows_ok_10 rows_ok_11 rows_ok_12 rows_ok_13 rows_ok_14 rows_ok_15 rows_ok_16 rows_ok_17 rows_ok_18
      rows_ok_19 rows_ok_20 rows_ok_21 rows_ok_22 rows_ok_23 rows_ok_24 rows_ok_25 rows_ok_26 rows_ok_27
      rows_ok_28 rows_ok_29 rows_ok_30 rows_ok_31)
  ultimately show ?thesis by metis
qed

lemma rows_nth: "rows_ok s rs \<Longrightarrow> i < length rs \<Longrightarrow> row_ok (huff_prefix (s + int i)) 0 (rs ! i)"
proof (induction rs arbitrary: s i)
  case (Cons r rs)
  show ?case
  proof (cases i)
    case (Suc j)
    then have "row_ok (huff_prefix (s + 1 + int j)) 0 (rs ! j)" using Cons.IH [of "s + 1" j] Cons.prems by simp
    then show ?thesis using Suc by (simp add: algebra_simps)
  qed (use Cons.prems in simp)
qed simp

lemma row_nth:
  "row_ok q v ts \<Longrightarrow> length ts = nat (16 - v) \<and>
    (\<forall>i < length ts. entry_ok (fst q) (snd q * 16 + (v + int i)) (uint (fst (ts ! i))) (uint (snd (ts ! i))))"
proof (induction q v ts rule: row_ok.induct)
  case (2 l p v f sy ts)
  then have r: "row_ok (l, p) (v + 1) ts" and e: "entry_ok l (p * 16 + v) (uint f) (uint sy)" by auto
  have "v + 1 \<le> 16" using r
  proof (induction ts arbitrary: v)
    case (Cons t ts)
    then show ?case using Cons.IH [of "v + 1"] by (cases t) auto
  qed simp
  with 2(1) [OF r] e show ?case
    by (auto simp: nth_Cons algebra_simps split: nat.split)
qed simp

text \<open>Row 256 leads to itself, every other row is right.\<close>

lemma huff_failure_row: "huff_decode_table ! 256 = replicate 16 (256, 0)"
  using huff_decode_table_rows nth_append_length by metis

lemma huff_row:
  assumes "s < 256" "v < 16"
  shows "length (huff_decode_table ! s) = 16"
    "entry_ok (fst (huff_prefix (int s))) (snd (huff_prefix (int s)) * 16 + int v)
      (uint (fst (huff_decode_table ! s ! v))) (uint (snd (huff_decode_table ! s ! v)))"
proof -
  obtain rs where rs: "huff_decode_table = rs @ [replicate 16 (256, 0)]" "length rs = 256" "rows_ok 0 rs"
    using huff_decode_table_rows by blast
  have "row_ok (huff_prefix (int s)) 0 (huff_decode_table ! s)"
    unfolding rs(1) using rows_nth [OF rs(3), of s] rs(2) assms by (simp add: nth_append)
  from row_nth [OF this] assms show "length (huff_decode_table ! s) = 16"
    "entry_ok (fst (huff_prefix (int s))) (snd (huff_prefix (int s)) * 16 + int v)
      (uint (fst (huff_decode_table ! s ! v))) (uint (snd (huff_decode_table ! s ! v)))"
    by auto
qed

lemma syms_nth:
  "syms_ok s ts \<Longrightarrow> i < length ts \<Longrightarrow>
    5 \<le> fst (ts ! i) \<and> fst (ts ! i) \<le> 30 \<and> fst (huff_code (s + int i)) = int (fst (ts ! i)) \<and>
    uint (snd (ts ! i)) = snd (huff_code (s + int i)) * 2 ^ (32 - fst (ts ! i))"
proof (induction s ts arbitrary: i rule: syms_ok.induct)
  case (2 s n c ts)
  then show ?case by (cases i) (auto simp: algebra_simps dest: 2(1))
qed simp

lemma huff_sym_table_length: "length huff_sym_table = 257"
  by (simp add: huff_sym_table_def)

lemma huff_sym_nth:
  assumes "i < 256"
  shows "5 \<le> fst (huff_sym_table ! i)" "fst (huff_sym_table ! i) \<le> 30"
    "fst (huff_code (int i)) = int (fst (huff_sym_table ! i))"
    "uint (snd (huff_sym_table ! i)) = snd (huff_code (int i)) * 2 ^ (32 - fst (huff_sym_table ! i))"
  using syms_nth [OF syms_ok, of i] assms by (simp_all add: huff_sym_table_length)

text \<open>Where a code starts and how wide it is, when it is filled up to thirty bits.\<close>

definition code_start :: "int \<Rightarrow> int" where
  "code_start i = snd (huff_code i) * 2 ^ nat (30 - fst (huff_code i))"

definition code_width :: "int \<Rightarrow> int" where
  "code_width i = 2 ^ nat (30 - fst (huff_code i))"

lemma code_width_pos: "0 < code_width i"
  by (simp add: code_width_def)

lemma order_step:
  "order_ok e (i # is) \<longleftrightarrow> e \<le> code_start i \<and> 0 \<le> i \<and> i < 256 \<and> order_ok (code_start i + code_width i) is"
  by (simp add: code_start_def code_width_def Let_def split_beta)

declare order_ok.simps(2) [simp del]

lemma order_le_eos: "order_ok e is \<Longrightarrow> e \<le> 1073741823"
proof (induction "is" arbitrary: e)
  case (Cons k ks)
  from Cons.IH [of "code_start k + code_width k"] Cons.prems code_width_pos [of k] show ?case
    by (simp add: order_step)
qed simp

lemma order_bounds:
  "order_ok e is \<Longrightarrow> i \<in> set is \<Longrightarrow> e \<le> code_start i \<and> code_start i + code_width i \<le> 1073741823 \<and> i \<in> {0..<256}"
proof (induction "is" arbitrary: e)
  case (Cons j js)
  then have o: "order_ok (code_start j + code_width j) js" and s: "e \<le> code_start j" "j \<in> {0..<256}"
    by (auto simp: order_step)
  from Cons.IH [OF o] order_le_eos [OF o] s Cons.prems(2) code_width_pos [of j] show ?case by auto
qed simp

lemma order_disjoint:
  "order_ok e is \<Longrightarrow> i \<in> set is \<Longrightarrow> j \<in> set is \<Longrightarrow> i \<noteq> j \<Longrightarrow>
    code_start i + code_width i \<le> code_start j \<or> code_start j + code_width j \<le> code_start i"
proof (induction "is" arbitrary: e)
  case (Cons k ks)
  then have "order_ok (code_start k + code_width k) ks" by (simp add: order_step)
  from order_bounds [OF this] Cons.IH [OF this] Cons.prems show ?case by auto
qed simp

lemma order_distinct: "order_ok e is \<Longrightarrow> distinct is"
proof (induction "is" arbitrary: e)
  case (Cons k ks)
  then have "order_ok (code_start k + code_width k) ks" by (simp add: order_step)
  from order_bounds [OF this, of k] Cons.IH [OF this] show ?case using code_width_pos [of k] by auto
qed simp

lemma order_set: "set huff_order = {0..<256}"
proof (rule card_subset_eq)
  show "set huff_order \<subseteq> {0..<256}" using order_bounds [OF order_ok] by blast
  have "length huff_order = 256" by (simp add: huff_order_def)
  then show "card (set huff_order) = card {0::int..<256}"
    using distinct_card [OF order_distinct [OF order_ok]] by simp
qed simp

lemma codes_disjoint:
  assumes "0 \<le> i" "i < 256" "0 \<le> j" "j < 256" "i \<noteq> j"
  shows "code_start i + code_width i \<le> code_start j \<or> code_start j + code_width j \<le> code_start i"
  using order_disjoint [OF order_ok, of i j] assms by (simp add: order_set)

lemma codes_below_eos:
  assumes "0 \<le> i" "i < 256"
  shows "0 \<le> code_start i" "code_start i + code_width i \<le> 1073741823"
  using order_bounds [OF order_ok, of i] assms by (simp_all add: order_set)

lemma prefixes_nth:
  "prefixes_ok s is \<Longrightarrow> i < length is \<Longrightarrow>
    (let (l, p) = huff_prefix (s + int i); (n, v) = huff_code (is ! i)
     in 0 \<le> l \<and> l < n \<and> v div 2 ^ nat (n - l) = p \<and> 0 \<le> p \<and> 0 \<le> is ! i \<and> is ! i < 256)"
proof (induction "is" arbitrary: i s)
  case (Cons k ks)
  show ?case
  proof (cases i)
    case (Suc j)
    then have *: "prefixes_ok (s + 1) ks" "j < length ks" and eq: "s + int i = s + 1 + int j"
      using Cons.prems by (auto simp: Let_def split_beta)
    from Cons.IH [OF *] Suc show ?thesis unfolding eq by simp
  qed (use Cons.prems in \<open>simp add: Let_def split_beta\<close>)
qed simp

lemma prefix_goes_on:
  assumes "s < 256"
  shows "\<exists>c. 0 \<le> c \<and> c < 256 \<and> 0 \<le> fst (huff_prefix (int s)) \<and> fst (huff_prefix (int s)) < fst (huff_code c) \<and>
    snd (huff_code c) div 2 ^ nat (fst (huff_code c) - fst (huff_prefix (int s))) = snd (huff_prefix (int s)) \<and>
    0 \<le> snd (huff_prefix (int s))"
proof -
  have "length huff_goes_on = 256" by (simp add: huff_goes_on_def)
  with prefixes_nth [OF prefixes_ok, of s] assms show ?thesis
    by (intro exI [of _ "huff_goes_on ! s"]) (auto simp: Let_def split_beta)
qed

end
