(* ===== verification/Nghttp2_Huffman.thy ===== *)
theory Nghttp2_Huffman
  imports Nghttp2_Huffman_Tables "HOL-Library.Sublist"
begin

text \<open>
  Huffman coding of header strings (nghttp2_hd_huffman.c): the encoder writes to a chain of
  buffers and keeps up to 61 bits in a 64-bit word; the decoder walks the automaton of the
  table and writes to one buffer.
\<close>

unbundle bit_operations_syntax

section \<open>Operations\<close>

definition NGHTTP2_HUFF_ACCEPTED :: "16 word" where
  "NGHTTP2_HUFF_ACCEPTED = push_bit 14 1"

definition NGHTTP2_HUFF_SYM :: "16 word" where
  "NGHTTP2_HUFF_SYM = push_bit 15 1"

definition nghttp2_hd_huff_encode_count :: "bytes \<Rightarrow> nat" where
  "nghttp2_hd_huff_encode_count src =
     (let nbits = foldl (\<lambda>nbits c. (nbits + fst (huff_sym_table ! unat c)) mod 2 ^ 64) 0 src
      in (nbits + 7) mod 2 ^ 64 div 8)"

text \<open>The two inner loops of the encoder: whole bytes are written one by one.\<close>

function huff_put_bytes ::
  "64 word \<Rightarrow> nat \<Rightarrow> nghttp2_bufs \<Rightarrow> memory \<Rightarrow> (int \<times> 64 word \<times> nat \<times> nghttp2_bufs \<times> memory) res" where
  "huff_put_bytes code nbits bufs m =
     (if 8 \<le> nbits then
        res_bind (nghttp2_bufs_addb bufs (ucast (drop_bit 56 code)) m) (\<lambda>(rv, bufs1, m1).
        if rv \<noteq> 0 then Inr (rv, code, nbits, bufs1, m1)
        else huff_put_bytes (push_bit 8 code) (nbits - 8) bufs1 m1)
      else Inr (0, code, nbits, bufs, m))"
  by pat_completeness auto
termination by (relation "measure (\<lambda>(code, nbits, bufs, m). nbits)") auto

declare huff_put_bytes.simps [simp del]

text \<open>
  The outer loop. Fewer than 32 bits are pending at the start of a round, so a code of at most
  30 bits fits, and the shift by \<open>32 - nbits\<close> does not wrap.
\<close>

fun huff_encode_loop ::
  "bytes \<Rightarrow> 64 word \<Rightarrow> nat \<Rightarrow> nat \<Rightarrow> nghttp2_bufs \<Rightarrow> memory \<Rightarrow> (int \<times> 64 word \<times> nat \<times> nghttp2_bufs \<times> memory) res" where
  "huff_encode_loop [] code nbits avail bufs m = Inr (0, code, nbits, bufs, m)"
| "huff_encode_loop (c # src) code nbits avail bufs m =
     (let sym = huff_sym_table ! unat c;
          code = code OR push_bit (32 - nbits) (ucast (snd sym));
          nbits = nbits + fst sym
      in if nbits < 32 then huff_encode_loop src code nbits avail bufs m
         else if 4 \<le> avail then
           res_bind (bufs_cur_buf bufs) (\<lambda>buf.
           res_bind (buf_cpy buf (nghttp2_put_uint32be (ucast (drop_bit 32 code)))) (\<lambda>buf1.
           huff_encode_loop src (push_bit 32 code) (nbits - 32) (avail - 4) (bufs_set_cur bufs buf1) m))
         else
           res_bind (huff_put_bytes code nbits bufs m) (\<lambda>(rv, code1, nbits1, bufs1, m1).
           if rv \<noteq> 0 then Inr (rv, code1, nbits1, bufs1, m1)
           else
             res_bind (bufs_cur_buf bufs1) (\<lambda>buf.
             huff_encode_loop src code1 nbits1 (nghttp2_buf_avail buf) bufs1 m1)))"

definition nghttp2_hd_huff_encode :: "nghttp2_bufs \<Rightarrow> bytes \<Rightarrow> memory \<Rightarrow> (int \<times> nghttp2_bufs \<times> memory) res" where
  "nghttp2_hd_huff_encode bufs src m =
     res_bind (bufs_cur_buf bufs) (\<lambda>buf.
     res_bind (huff_encode_loop src 0 0 (nghttp2_buf_avail buf) bufs m) (\<lambda>(rv, code, nbits, bufs1, m1).
     if rv \<noteq> 0 then Inr (rv, bufs1, m1)
     else
       res_bind (huff_put_bytes code nbits bufs1 m1) (\<lambda>(rv, code2, nbits2, bufs2, m2).
       if rv \<noteq> 0 then Inr (rv, bufs2, m2)
       else if nbits2 \<noteq> 0 then
         nghttp2_bufs_addb bufs2 (ucast (drop_bit 56 code2) OR (push_bit (8 - nbits2) 1 - 1)) m2
       else Inr (0, bufs2, m2))))"

text \<open>The decoder: its context is the state of the automaton with its flags.\<close>

type_synonym nghttp2_hd_huff_decode_context = "16 word"

definition nghttp2_hd_huff_decode_context_init :: nghttp2_hd_huff_decode_context where
  "nghttp2_hd_huff_decode_context_init = NGHTTP2_HUFF_ACCEPTED"

text \<open>Four bits of input; the byte of a symbol is written at \<open>last\<close> without a look at \<open>end\<close>.\<close>

definition huff_decode_step :: "16 word \<Rightarrow> nat \<Rightarrow> nghttp2_buf \<Rightarrow> (16 word \<times> nghttp2_buf) res" where
  "huff_decode_step f v buf =
     (let row = unat (f AND 0x1ff)
      in if length huff_decode_table \<le> row then Inl Out_Of_Bounds
         else
           (let t = huff_decode_table ! row ! v
            in if fst t AND NGHTTP2_HUFF_SYM \<noteq> 0 then res_bind (buf_cpy buf [snd t]) (\<lambda>buf1. Inr (fst t, buf1))
               else Inr (fst t, buf)))"

fun huff_decode_loop :: "16 word \<Rightarrow> bytes \<Rightarrow> nghttp2_buf \<Rightarrow> (16 word \<times> nghttp2_buf) res" where
  "huff_decode_loop f [] buf = Inr (f, buf)"
| "huff_decode_loop f (c # src) buf =
     res_bind (huff_decode_step f (unat (drop_bit 4 c)) buf) (\<lambda>(f1, buf1).
     res_bind (huff_decode_step f1 (unat (c AND 0xf)) buf1) (\<lambda>(f2, buf2).
     huff_decode_loop f2 src buf2))"

definition nghttp2_hd_huff_decode ::
  "nghttp2_hd_huff_decode_context \<Rightarrow> nghttp2_buf \<Rightarrow> bytes \<Rightarrow> bool \<Rightarrow>
    (int \<times> nghttp2_hd_huff_decode_context \<times> nghttp2_buf) res" where
  "nghttp2_hd_huff_decode ctx buf src final =
     res_bind (huff_decode_loop ctx src buf) (\<lambda>(ctx1, buf1).
     if final \<and> ctx1 AND NGHTTP2_HUFF_ACCEPTED = 0 then Inr (NGHTTP2_ERR_HEADER_COMP, ctx1, buf1)
     else Inr (ssize_t_of (length src), ctx1, buf1))"

definition nghttp2_hd_huff_decode_failure_state :: "nghttp2_hd_huff_decode_context \<Rightarrow> bool" where
  "nghttp2_hd_huff_decode_failure_state ctx \<longleftrightarrow> ctx = 0x100"

section \<open>Strings of bits\<close>

text \<open>The low \<open>n\<close> bits of a number, the most significant one first.\<close>

definition bits_of :: "nat \<Rightarrow> nat \<Rightarrow> bool list" where
  "bits_of n v = map (\<lambda>i. bit v (n - 1 - i)) [0..<n]"

lemma bits_of_length [simp]: "length (bits_of n v) = n"
  by (simp add: bits_of_def)

lemma bits_of_nth [simp]: "i < n \<Longrightarrow> bits_of n v ! i = bit v (n - 1 - i)"
  by (simp add: bits_of_def)

lemma bits_of_0 [simp]: "bits_of 0 v = []"
  by (simp add: bits_of_def)

lemma bits_of_append: "w < 2 ^ m \<Longrightarrow> bits_of (n + m) (v * 2 ^ m + w) = bits_of n v @ bits_of m w"
proof (rule nth_equalityI)
  fix i assume w: "w < 2 ^ m" and i: "i < length (bits_of (n + m) (v * 2 ^ m + w))"
  have hi: "(v * 2 ^ m + w) div 2 ^ m = v" using w by simp
  have lo: "(v * 2 ^ m + w) mod 2 ^ m = w" using w by simp
  show "bits_of (n + m) (v * 2 ^ m + w) ! i = (bits_of n v @ bits_of m w) ! i"
  proof (cases "i < n")
    case True
    then have "n + m - 1 - i = n - 1 - i + m" by simp
    then have "bit (v * 2 ^ m + w) (n + m - 1 - i) = bit ((v * 2 ^ m + w) div 2 ^ m) (n - 1 - i)"
      by (simp flip: drop_bit_eq_div add: bit_drop_bit_eq add.commute)
    then show ?thesis using True i by (simp add: nth_append hi)
  next
    case False
    then have k: "n + m - 1 - i = m - 1 - (i - n)" "m - 1 - (i - n) < m" using i by auto
    have "bit ((v * 2 ^ m + w) mod 2 ^ m) (m - 1 - (i - n)) = bit (v * 2 ^ m + w) (m - 1 - (i - n))"
      using k(2) by (simp flip: take_bit_eq_mod add: bit_take_bit_iff)
    then have "bit (v * 2 ^ m + w) (m - 1 - (i - n)) = bit w (m - 1 - (i - n))" unfolding lo by simp
    moreover have "i - n < m" using False i by auto
    ultimately show ?thesis using False i k(1) by (simp add: nth_append)
  qed
qed simp

lemma bits_of_inj: "bits_of n v = bits_of n w \<Longrightarrow> v < 2 ^ n \<Longrightarrow> w < 2 ^ n \<Longrightarrow> v = w"
proof (rule bit_eqI)
  fix k assume eq: "bits_of n v = bits_of n w" and v: "v < 2 ^ n" and w: "w < 2 ^ n"
  show "bit v k = bit w k"
  proof (cases "k < n")
    case True
    then have "bits_of n v ! (n - 1 - k) = bit v k" "bits_of n w ! (n - 1 - k) = bit w k" by simp_all
    then show ?thesis using eq by simp
  next
    case False
    have "take_bit n v = v" "take_bit n w = w" using v w by (simp_all add: take_bit_nat_eq_self)
    then show ?thesis using False by (metis bit_take_bit_iff)
  qed
qed

text \<open>The first bits of a number are those of a quotient.\<close>

lemma bits_of_take: "n \<le> m \<Longrightarrow> v < 2 ^ m \<Longrightarrow> take n (bits_of m v) = bits_of n (v div 2 ^ (m - n))"
proof -
  assume m: "n \<le> m"
  have v: "v div 2 ^ (m - n) * 2 ^ (m - n) + v mod 2 ^ (m - n) = v" by (rule div_mult_mod_eq)
  have "bits_of m v = bits_of n (v div 2 ^ (m - n)) @ bits_of (m - n) (v mod 2 ^ (m - n))"
    using bits_of_append [of "v mod 2 ^ (m - n)" "m - n" n "v div 2 ^ (m - n)"] m unfolding v by simp
  then show ?thesis by simp
qed

lemma bits_of_ones: "bits_of n (2 ^ n - 1) = replicate n True"
  unfolding mask_eq_exp_minus_1 [symmetric] by (rule nth_equalityI) (auto simp: bit_mask_iff)

lemma ones_value: "bits_of n v = replicate n True \<Longrightarrow> v < 2 ^ n \<Longrightarrow> v + 1 = 2 ^ n"
proof -
  assume "bits_of n v = replicate n True" "v < 2 ^ n"
  then have "v = 2 ^ n - 1" using bits_of_inj [of n v "2 ^ n - 1"] bits_of_ones [of n] by simp
  then show ?thesis by simp
qed

text \<open>Bytes as bits.\<close>

definition byte_bits :: "byte \<Rightarrow> bool list" where
  "byte_bits b = bits_of 8 (unat b)"

definition bytes_bits :: "bytes \<Rightarrow> bool list" where
  "bytes_bits bs = concat (map byte_bits bs)"

lemma byte_bits_length [simp]: "length (byte_bits b) = 8"
  by (simp add: byte_bits_def)

lemma byte_bits_nth: "i < 8 \<Longrightarrow> byte_bits b ! i = bit b (7 - i)"
  by (simp add: byte_bits_def bit_unsigned_iff)

lemma byte_bits_inj: "byte_bits a = byte_bits b \<Longrightarrow> a = b"
  unfolding byte_bits_def
  by (drule bits_of_inj) (use unsigned_less [of a, where ?'a = nat] unsigned_less [of b, where ?'a = nat] in \<open>simp_all add: word_unat_eq_iff\<close>)

lemma bytes_bits_simps [simp]:
  "bytes_bits [] = []" "bytes_bits (b # bs) = byte_bits b @ bytes_bits bs" "bytes_bits (as @ bs) = bytes_bits as @ bytes_bits bs"
  by (simp_all add: bytes_bits_def)

lemma bytes_bits_length [simp]: "length (bytes_bits bs) = 8 * length bs"
  by (induction bs) auto

lemma bytes_bits_inj: "bytes_bits as = bytes_bits bs \<Longrightarrow> as = bs"
proof (induction as arbitrary: bs)
  case Nil
  then have "length (bytes_bits bs) = 0" by (metis bytes_bits_simps(1) list.size(3))
  then show ?case by simp
next
  case (Cons a as)
  have "length (bytes_bits (a # as)) = length (bytes_bits bs)" using Cons.prems by simp
  then obtain b cs where "bs = b # cs" by (cases bs) auto
  then show ?case using Cons by (auto dest: byte_bits_inj)
qed

text \<open>Packing bits into bytes.\<close>

fun bits_value :: "nat \<Rightarrow> bool list \<Rightarrow> nat" where
  "bits_value n [] = n"
| "bits_value n (b # bs) = bits_value (2 * n + of_bool b) bs"

function pack_bits :: "bool list \<Rightarrow> bytes" where
  "pack_bits bs = (if bs = [] then [] else word_of_nat (bits_value 0 (take 8 bs)) # pack_bits (drop 8 bs))"
  by pat_completeness auto
termination by (relation "measure length") auto

declare pack_bits.simps [simp del]

lemma bits_value_bits: "bits_of (n + length bs) (bits_value v bs) = bits_of n v @ bs"
proof (induction bs arbitrary: n v)
  case (Cons b bs)
  have "bits_of (Suc n) (2 * v + of_bool b) = bits_of n v @ [b]"
  proof -
    have "bits_of (n + 1) (v * 2 ^ 1 + of_bool b) = bits_of n v @ bits_of 1 (of_bool b)"
      by (rule bits_of_append) simp
    moreover have "bits_of 1 (of_bool b) = [b]" by (cases b) (simp_all add: bits_of_def bit_0)
    moreover have "v * 2 ^ 1 + of_bool b = 2 * v + of_bool b" by simp
    ultimately show ?thesis by (metis Suc_eq_plus1)
  qed
  with Cons [of "Suc n" "2 * v + of_bool b"] show ?case by simp
qed simp

lemma bits_value_less: "v < 2 ^ n \<Longrightarrow> bits_value v bs < 2 ^ (n + length bs)"
proof (induction bs arbitrary: n v)
  case (Cons b bs)
  then have "2 * v + of_bool b < 2 ^ Suc n" by (cases b) auto
  from Cons.IH [OF this] show ?case by simp
qed simp

lemma byte_of_bits: "length bs = 8 \<Longrightarrow> byte_bits (word_of_nat (bits_value 0 bs)) = bs"
  using bits_value_bits [of 0 bs 0] bits_value_less [of 0 0 bs] by (simp add: byte_bits_def unat_of_nat)

lemma pack_bits_ok: "8 dvd length bs \<Longrightarrow> bytes_bits (pack_bits bs) = bs"
proof (induction bs rule: pack_bits.induct)
  case (1 bs)
  show ?case
  proof (cases "bs = []")
    case False
    then have len: "8 \<le> length bs" using 1(2) by (simp add: dvd_imp_le)
    then have "8 dvd length (drop 8 bs)" using 1(2) by (simp add: dvd_diff_nat)
    with 1(1) [OF False] False len show ?thesis by (subst pack_bits.simps) (simp add: byte_of_bits)
  qed (simp add: pack_bits.simps)
qed

section \<open>The code\<close>

text \<open>The code of a byte, from the table of the encoder, and of a string with its padding.\<close>

definition code_bits :: "byte \<Rightarrow> bool list" where
  "code_bits b = (let (n, c) = huff_sym_table ! unat b in take n (bits_of 32 (unat c)))"

definition huff_bits :: "bytes \<Rightarrow> bool list" where
  "huff_bits src = concat (map code_bits src)"

definition huff_pad :: "nat \<Rightarrow> bool list" where
  "huff_pad n = replicate ((8 - n mod 8) mod 8) True"

definition huff_bytes :: "bytes \<Rightarrow> bytes" where
  "huff_bytes src = pack_bits (huff_bits src @ huff_pad (length (huff_bits src)))"

lemma huff_bits_simps [simp]:
  "huff_bits [] = []" "huff_bits (b # bs) = code_bits b @ huff_bits bs" "huff_bits (as @ bs) = huff_bits as @ huff_bits bs"
  by (simp_all add: huff_bits_def)

lemma huff_pad_length: "8 dvd n + length (huff_pad n)" "length (huff_pad n) < 8"
proof -
  define q r where "q = n div 8" and "r = n mod 8"
  have n: "n = 8 * q + r" "r < 8" by (simp_all add: q_def r_def)
  moreover have "length (huff_pad n) = (if r = 0 then 0 else 8 - r)" by (simp add: huff_pad_def r_def)
  ultimately have "n + length (huff_pad n) = 8 * (q + (if r = 0 then 0 else 1))" by (cases "r = 0") simp_all
  then show "8 dvd n + length (huff_pad n)" by (metis dvd_triv_left)
  show "length (huff_pad n) < 8" by (simp add: huff_pad_def)
qed

lemma huff_bytes_bits: "bytes_bits (huff_bytes src) = huff_bits src @ huff_pad (length (huff_bits src))"
  unfolding huff_bytes_def by (rule pack_bits_ok) (simp add: huff_pad_length)

text \<open>Length and value of the code of a byte.\<close>

definition code_len :: "byte \<Rightarrow> nat" where
  "code_len b = fst (huff_sym_table ! unat b)"

definition code_val :: "byte \<Rightarrow> nat" where
  "code_val b = nat (snd (huff_code (int (unat b))))"

lemma unat_byte: "unat (b :: byte) < 256"
  using unsigned_less [of b, where ?'a = nat] by simp

lemma code_facts:
  "5 \<le> code_len b" "code_len b \<le> 30" "fst (huff_code (uint b)) = int (code_len b)"
  "snd (huff_code (uint b)) = int (code_val b)" "code_val b < 2 ^ code_len b" "code_bits b = bits_of (code_len b) (code_val b)"
proof -
  note sym = huff_sym_nth [OF unat_byte [of b], folded code_len_def]
  show n: "5 \<le> code_len b" "code_len b \<le> 30" "fst (huff_code (uint b)) = int (code_len b)" using sym by simp_all
  let ?c = "snd (huff_sym_table ! unat b)" and ?v = "snd (huff_code (int (unat b)))"
  have "0 \<le> ?v * 2 ^ (32 - code_len b)" unfolding sym(4) [symmetric] by simp
  then have pos: "0 \<le> ?v" by (simp add: zero_le_mult_iff)
  then show v: "snd (huff_code (uint b)) = int (code_val b)" by (simp add: code_val_def)
  have "int (unat ?c) = int (code_val b * 2 ^ (32 - code_len b))" using sym(4) v by simp
  then have c: "unat ?c = code_val b * 2 ^ (32 - code_len b)" by (simp only: of_nat_eq_iff)
  have lt: "unat ?c < 2 ^ 32" using unsigned_less [of ?c, where ?'a = nat] by simp
  have "(2 :: nat) ^ 32 = 2 ^ code_len b * 2 ^ (32 - code_len b)" using n by (simp flip: power_add)
  with lt have "code_val b * 2 ^ (32 - code_len b) < 2 ^ code_len b * 2 ^ (32 - code_len b)" unfolding c by simp
  then show "code_val b < 2 ^ code_len b" by (simp only: mult_less_cancel2)
  have "unat ?c div 2 ^ (32 - code_len b) = code_val b" unfolding c by simp
  then show "code_bits b = bits_of (code_len b) (code_val b)"
    using bits_of_take [of "code_len b" 32 "unat ?c"] lt n
    by (simp add: code_bits_def code_len_def split_beta)
qed

lemma code_bits_length [simp]: "length (code_bits b) = code_len b"
  by (simp add: code_facts)

text \<open>The intervals of the codes as natural numbers.\<close>

lemma code_interval:
  "code_start (uint b) = int (code_val b * 2 ^ (30 - code_len b))" "code_width (uint b) = int (2 ^ (30 - code_len b))"
  using code_facts [of b] by (simp_all add: code_start_def code_width_def nat_diff_distrib)

lemma uint_byte: "0 \<le> uint (b :: byte)" "uint (b :: byte) < 256"
  using uint_bounded [of b] by simp_all

lemma codes_apart:
  assumes "a \<noteq> b"
  shows "(code_val a + 1) * 2 ^ (30 - code_len a) \<le> code_val b * 2 ^ (30 - code_len b) \<or>
    (code_val b + 1) * 2 ^ (30 - code_len b) \<le> code_val a * 2 ^ (30 - code_len a)"
proof -
  have "uint a \<noteq> uint b" using assms by (simp add: word_uint_eq_iff)
  from codes_disjoint [OF uint_byte [of a] uint_byte [of b] this]
  have "int (code_val a * 2 ^ (30 - code_len a) + 2 ^ (30 - code_len a)) \<le> int (code_val b * 2 ^ (30 - code_len b)) \<or>
    int (code_val b * 2 ^ (30 - code_len b) + 2 ^ (30 - code_len b)) \<le> int (code_val a * 2 ^ (30 - code_len a))"
    unfolding code_interval by (simp only: of_nat_add)
  then show ?thesis unfolding of_nat_le_iff by (simp add: algebra_simps)
qed

lemma code_below_eos: "(code_val b + 1) * 2 ^ (30 - code_len b) < 2 ^ 30"
proof -
  have "int (code_val b * 2 ^ (30 - code_len b) + 2 ^ (30 - code_len b)) \<le> int 1073741823"
    using codes_below_eos(2) [OF uint_byte [of b]] unfolding code_interval by (simp only: of_nat_add of_nat_numeral)
  then show ?thesis unfolding of_nat_le_iff by (simp add: algebra_simps)
qed

text \<open>A value that starts with the bits of a shorter one lies in its interval.\<close>

lemma nested:
  fixes v w :: nat
  assumes "v div 2 ^ (m - n) = w" "n \<le> m" "m \<le> 30"
  shows "w * 2 ^ (30 - n) \<le> v * 2 ^ (30 - m)" "(v + 1) * 2 ^ (30 - m) \<le> (w + 1) * 2 ^ (30 - n)"
proof -
  have e: "(2 :: nat) ^ (30 - n) = 2 ^ (m - n) * 2 ^ (30 - m)" using assms by (simp flip: power_add)
  have "w * 2 ^ (m - n) \<le> v" using assms(1) by (metis div_times_less_eq_dividend)
  then show "w * 2 ^ (30 - n) \<le> v * 2 ^ (30 - m)" unfolding e by (simp flip: mult.assoc)
  have "v < (w + 1) * 2 ^ (m - n)" using assms(1) dividend_less_div_times [of "2 ^ (m - n)" v] by simp
  then have "(v + 1) * 2 ^ (30 - m) \<le> (w + 1) * 2 ^ (m - n) * 2 ^ (30 - m)" by (intro mult_le_mono) auto
  then show "(v + 1) * 2 ^ (30 - m) \<le> (w + 1) * 2 ^ (30 - n)" unfolding e by (simp only: mult.assoc)
qed

lemma prefix_div:
  assumes "prefix (bits_of n w) (bits_of m v)" "v < 2 ^ m" "w < 2 ^ n"
  shows "n \<le> m" "v div 2 ^ (m - n) = w"
proof -
  show n: "n \<le> m" using prefix_length_le [OF assms(1)] by simp
  have "bits_of n w = take n (bits_of m v)" using assms(1) by (metis bits_of_length append_eq_conv_conj prefix_def)
  then have "bits_of n w = bits_of n (v div 2 ^ (m - n))" using bits_of_take [OF n assms(2)] by simp
  moreover have "v div 2 ^ (m - n) < 2 ^ n"
    using assms(2) n by (simp add: less_mult_imp_div_less flip: power_add)
  ultimately show "v div 2 ^ (m - n) = w" using bits_of_inj assms(3) by blast
qed

text \<open>No code is the beginning of another one, and none is a run of ones.\<close>

lemma code_prefix_free:
  assumes "prefix (code_bits a) (code_bits b)"
  shows "a = b"
proof (rule ccontr)
  assume ne: "a \<noteq> b"
  have n: "code_len a \<le> code_len b" and d: "code_val b div 2 ^ (code_len b - code_len a) = code_val a"
    using prefix_div assms code_facts(5,6) by metis+
  note i = nested [OF d n code_facts(2)]
  have "code_val b * 2 ^ (30 - code_len b) < (code_val b + 1) * 2 ^ (30 - code_len b)" by simp
  with codes_apart [OF ne] i show False by (meson leD le_less_trans le_trans not_le)
qed

lemma code_not_ones: "code_bits b \<noteq> replicate k True"
proof
  assume eq: "code_bits b = replicate k True"
  then have "k = code_len b" by (metis code_bits_length length_replicate)
  with eq have "code_val b + 1 = 2 ^ code_len b" using ones_value code_facts(5,6) by metis
  then have "(code_val b + 1) * 2 ^ (30 - code_len b) = 2 ^ 30" using code_facts(2) [of b] by (simp flip: power_add)
  with code_below_eos [of b] show False by simp
qed

lemma ones_prefix: "prefix bs (replicate k True) \<longleftrightarrow> (\<exists>j \<le> k. bs = replicate j True)"
proof
  assume "prefix bs (replicate k True)"
  then obtain zs where eq: "replicate k True = bs @ zs" by (auto simp: prefix_def)
  have "k = length bs + length zs" using arg_cong [OF eq, of length] by simp
  moreover have "take (length bs) (replicate k True) = bs" unfolding eq by simp
  ultimately have "bs = replicate (length bs) True" "length bs \<le> k" by (simp_all add: take_replicate)
  then show "\<exists>j \<le> k. bs = replicate j True" by blast
next
  assume "\<exists>j \<le> k. bs = replicate j True"
  then show "prefix bs (replicate k True)" 
  proof (elim exE conjE)
    fix j assume "j \<le> k" "bs = replicate j True"
    then have "replicate k True = bs @ replicate (k - j) True" by (simp flip: replicate_add)
    then show ?thesis by (rule prefixI)
  qed
qed

lemma code_prefix_ones: "\<not> prefix (code_bits b) (replicate k True)"
  using code_not_ones by (auto simp: ones_prefix)

section \<open>The automaton\<close>

definition state_bits :: "nat \<Rightarrow> bool list" where
  "state_bits s = bits_of (nat (fst (huff_prefix (int s)))) (nat (snd (huff_prefix (int s))))"

lemma state_facts:
  assumes "s < 256"
  obtains l p c where "huff_prefix (int s) = (int l, int p)" "state_bits s = bits_of l p" "p < 2 ^ l"
    "l < code_len c" "take l (code_bits c) = state_bits s"
proof -
  let ?l = "fst (huff_prefix (int s))" and ?p = "snd (huff_prefix (int s))"
  from prefix_goes_on [OF assms] obtain i where i: "0 \<le> i" "i < 256" "0 \<le> ?l" "?l < fst (huff_code i)"
      "snd (huff_code i) div 2 ^ nat (fst (huff_code i) - ?l) = ?p" "0 \<le> ?p" by blast
  define c :: byte where "c = word_of_int i"
  have c: "uint c = i" using i by (simp add: c_def uint_word_of_int)
  note cf = code_facts [of c, unfolded c]
  have l: "nat ?l < code_len c" using i cf by simp
  have "nat (fst (huff_code i) - ?l) = code_len c - nat ?l" using i cf by (simp add: nat_diff_distrib)
  then have "int (code_val c) div 2 ^ (code_len c - nat ?l) = ?p" using i(5) cf by simp
  then have "int (code_val c div 2 ^ (code_len c - nat ?l)) = ?p" by (simp add: zdiv_int)
  then have p: "code_val c div 2 ^ (code_len c - nat ?l) = nat ?p" by (metis nat_int)
  have "nat ?p < 2 ^ nat ?l"
    unfolding p [symmetric] using cf(5) l by (simp add: less_mult_imp_div_less flip: power_add)
  moreover have "take (nat ?l) (code_bits c) = state_bits s"
    using bits_of_take [of "nat ?l" "code_len c" "code_val c"] l p cf by (simp add: state_bits_def)
  ultimately show ?thesis using that [of "nat ?l" "nat ?p" c] i l by (simp add: state_bits_def)
qed

lemma state_bits_0 [simp]: "state_bits 0 = []"
  by (simp add: state_bits_def huff_prefix_simps)

text \<open>No state has read a whole code.\<close>

lemma state_no_code:
  assumes "s < 256"
  shows "\<not> prefix (code_bits b) (state_bits s)"
proof
  assume b: "prefix (code_bits b) (state_bits s)"
  obtain l p c where c: "l < code_len c" "take l (code_bits c) = state_bits s" by (rule state_facts [OF assms])
  then have "prefix (state_bits s) (code_bits c)" by (metis take_is_prefix)
  with b have "prefix (code_bits b) (code_bits c)" by (rule prefix_order.trans)
  then have "b = c" by (rule code_prefix_free)
  with prefix_length_le [OF b] c show False by (metis code_bits_length le_trans length_take linorder_not_le min.cobounded2)
qed

lemma state_bits_length: "s < 256 \<Longrightarrow> length (state_bits s) < 30"
  by (rule state_facts [of s]) (auto intro: less_le_trans [OF _ code_facts(2)])

section \<open>One transition\<close>

abbreviation huff_state :: "16 word \<Rightarrow> nat" where
  "huff_state f \<equiv> unat (f AND 0x1ff)"

lemma huff_state_mod: "huff_state f = nat (uint f mod 512)"
proof -
  have m: "(0x1ff :: 16 word) = mask 9" by (simp add: mask_eq_exp_minus_1)
  have "unat (take_bit 9 f) = take_bit 9 (unat f)" by (rule unsigned_take_bit_eq)
  then show ?thesis unfolding m by (simp add: take_bit_eq_mod nat_mod_distrib flip: take_bit_eq_mask)
qed

lemma flag_bit: "(f :: 16 word) AND push_bit n 1 \<noteq> 0 \<longleftrightarrow> bit f n"
proof
  have "\<not> bit f n \<Longrightarrow> f AND push_bit n 1 = 0"
    by (rule bit_eqI) (simp only: bit_and_iff bit_push_bit_iff bit_1_iff bit_0_eq bot_apply bot_bool_def, metis le_antisym diff_is_0_eq)
  then show "f AND push_bit n 1 \<noteq> 0 \<Longrightarrow> bit f n" by blast
next
  assume b: "bit f n"
  then have "n < 16" using bit_imp_le_length [of f n] by simp
  then have "bit (f AND push_bit n 1) n"
    using b unfolding bit_and_iff bit_push_bit_iff bit_1_iff by simp
  then show "f AND push_bit n 1 \<noteq> 0" by (metis bit_0_eq bot_apply bot_bool_def)
qed

lemma mod_less_off: "0 \<le> r \<Longrightarrow> r < d \<Longrightarrow> (r + k * d) mod d = r" for r d k :: int
  by simp

lemma odd_div: "0 \<le> u \<Longrightarrow> u < 2 * d \<Longrightarrow> odd (u div d) \<longleftrightarrow> d \<le> u" for u d :: int
proof (cases "d \<le> u")
  case True
  assume "0 \<le> u" "u < 2 * d"
  then have "u div d = 1" using True by (intro int_div_pos_eq [of _ _ _ "u - d"]) auto
  then show ?thesis using True by simp
qed simp

lemma huff_flags:
  "f AND NGHTTP2_HUFF_SYM \<noteq> 0 \<longleftrightarrow> 32768 \<le> uint f"
  "f AND NGHTTP2_HUFF_ACCEPTED \<noteq> 0 \<longleftrightarrow> 16384 \<le> uint f mod 32768"
proof -
  have u: "0 \<le> uint f" "uint f < 2 * 2 ^ 15" using uint_bounded [of f] by simp_all
  have "bit f 15 \<longleftrightarrow> odd (uint f div 2 ^ 15)" using bit_iff_odd [of "uint f" 15] by (simp only: bit_uint_iff) simp
  then show "f AND NGHTTP2_HUFF_SYM \<noteq> 0 \<longleftrightarrow> 32768 \<le> uint f"
    unfolding NGHTTP2_HUFF_SYM_def flag_bit odd_div [OF u] by simp
  have "bit f 14 \<longleftrightarrow> bit (take_bit 15 (uint f)) 14" by (simp add: bit_uint_iff bit_take_bit_iff)
  then have "bit f 14 \<longleftrightarrow> odd (uint f mod 2 ^ 15 div 2 ^ 14)" by (simp add: take_bit_eq_mod bit_iff_odd)
  moreover have "0 \<le> uint f mod 2 ^ 15" "uint f mod 2 ^ 15 < 2 * 2 ^ 14" by simp_all
  ultimately show "f AND NGHTTP2_HUFF_ACCEPTED \<noteq> 0 \<longleftrightarrow> 16384 \<le> uint f mod 32768"
    unfolding NGHTTP2_HUFF_ACCEPTED_def flag_bit by (simp add: odd_div)
qed

text \<open>The accepting states are those that have read at most seven bits of padding.\<close>

definition flag_ok :: "16 word \<Rightarrow> bool" where
  "flag_ok f \<longleftrightarrow> (f AND NGHTTP2_HUFF_ACCEPTED \<noteq> 0 \<longleftrightarrow>
     huff_state f < 256 \<and> (\<exists>j < 8. state_bits (huff_state f) = replicate j True))"

definition huff_ok :: "16 word \<Rightarrow> bool" where
  "huff_ok f \<longleftrightarrow> flag_ok f \<and> (huff_state f < 256 \<or> f = 0x100)"

lemma move_bits:
  assumes "s < 256" "v < 16" "s' < 256" and q: "huff_prefix (int s) = (int l, int p)" "state_bits s = bits_of l p"
    and m: "move_ok (int l) (int p * 16 + int v) (huff_prefix (int s')) (n, c) acc"
    and n: "n = int n'" "c = int c'" "c' < 2 ^ n'"
  shows "state_bits s @ bits_of 4 v = bits_of n' c' @ state_bits s'"
    "acc \<longleftrightarrow> (\<exists>j < 8. state_bits s' = replicate j True)"
proof -
  obtain l' p' where q': "huff_prefix (int s') = (int l', int p')" "state_bits s' = bits_of l' p'" "p' < 2 ^ l'"
    by (rule state_facts [OF assms(3)])
  have len: "int (l + 4) = int (n' + l')" and val: "int (p * 2 ^ 4 + v) = int (c' * 2 ^ l' + p')"
    and acc: "acc \<longleftrightarrow> int l' < 8 \<and> int p' + 1 = 2 ^ l'"
    using m n unfolding q'(1) by simp_all
  have "state_bits s @ bits_of 4 v = bits_of (l + 4) (p * 2 ^ 4 + v)"
    using bits_of_append [of v 4 l p] assms(2) q(2) by simp
  also have "\<dots> = bits_of (n' + l') (c' * 2 ^ l' + p')" using len val by (simp only: of_nat_eq_iff)
  also have "\<dots> = bits_of n' c' @ state_bits s'" using bits_of_append [OF q'(3), of n' c'] q'(2) by simp
  finally show "state_bits s @ bits_of 4 v = bits_of n' c' @ state_bits s'" .
  have "int p' + 1 = 2 ^ l' \<longleftrightarrow> p' + 1 = 2 ^ l'" by (metis of_nat_1 of_nat_add of_nat_eq_iff of_nat_numeral of_nat_power)
  then have "acc \<longleftrightarrow> l' < 8 \<and> p' + 1 = 2 ^ l'" using acc by simp
  also have "\<dots> \<longleftrightarrow> l' < 8 \<and> state_bits s' = replicate l' True"
    using ones_value [of l' p'] bits_of_ones [of l'] q'(2,3) by (metis add_diff_cancel_right')
  also have "\<dots> \<longleftrightarrow> (\<exists>j < 8. state_bits s' = replicate j True)"
    using q'(2) by (metis bits_of_length length_replicate)
  finally show "acc \<longleftrightarrow> (\<exists>j < 8. state_bits s' = replicate j True)" .
qed

text \<open>What a row of the table does with four bits.\<close>

lemma huff_transition:
  assumes "s < 256" "v < 16" "huff_decode_table ! s ! v = (f, sy)"
  shows "flag_ok f \<and>
    (f = 0x100 \<and> (\<exists>z. state_bits s @ bits_of 4 v = replicate 30 True @ z) \<or>
     huff_state f < 256 \<and>
       state_bits s @ bits_of 4 v = (if f AND NGHTTP2_HUFF_SYM \<noteq> 0 then code_bits sy else []) @ state_bits (huff_state f))"
proof -
  obtain l p where q: "huff_prefix (int s) = (int l, int p)" "state_bits s = bits_of l p" "p < 2 ^ l"
    by (rule state_facts [OF assms(1)])
  have e: "entry_ok (int l) (int p * 16 + int v) (uint f) (uint sy)"
    using huff_row(2) [OF assms(1,2)] assms(3) q(1) by simp
  note mv = move_bits [OF assms(1,2) _ q(1,2)]
  have u: "0 \<le> uint f" "uint f < 65536" using uint_bounded [of f] by simp_all
  show ?thesis
  proof (cases "uint f = 256")
    case True
    then have f: "f = 0x100" by (simp add: word_uint_eq_iff)
    have "26 \<le> int l" "(int p * 16 + int v) div 2 ^ nat (int l - 26) = 1073741823" using e True by (simp_all add: entry_ok_def)
    then have l: "26 \<le> l" and "int ((p * 2 ^ 4 + v) div 2 ^ (l + 4 - 30)) = int 1073741823"
      by (simp_all add: zdiv_int nat_diff_distrib)
    then have d: "(p * 2 ^ 4 + v) div 2 ^ (l + 4 - 30) = 2 ^ 30 - 1" by (simp only: of_nat_eq_iff) simp
    have "p * 2 ^ 4 + v < 2 ^ (l + 4)"
    proof -
      have "(p + 1) * 2 ^ 4 \<le> 2 ^ l * 2 ^ 4" using q(3) by (intro mult_le_mono) auto
      then show ?thesis using assms(2) by (simp add: power_add)
    qed
    from bits_of_take [OF _ this, of 30] l have "take 30 (bits_of (l + 4) (p * 2 ^ 4 + v)) = replicate 30 True"
      unfolding d by (simp only: bits_of_ones)
    moreover have "bits_of (l + 4) (p * 2 ^ 4 + v) = state_bits s @ bits_of 4 v"
      using bits_of_append [of v 4 l p] assms(2) q(2) by simp
    ultimately have "\<exists>z. state_bits s @ bits_of 4 v = replicate 30 True @ z" by (metis append_take_drop_id)
    moreover have "flag_ok f" unfolding flag_ok_def huff_flags huff_state_mod using True by simp
    ultimately show ?thesis using f by blast
  next
    case False
    define s' where "s' = huff_state f"
    have s': "s' < 256 \<and> move_ok (int l) (int p * 16 + int v) (huff_prefix (int s'))
        (if 32768 \<le> uint f then huff_code (uint sy) else (0, 0)) (16384 \<le> uint f mod 32768)"
    proof -
      have m: "int s' = uint f mod 512" unfolding s'_def huff_state_mod by simp
      consider "uint f < 256" | "16384 \<le> uint f" "uint f < 16640" | "32768 \<le> uint f" "uint f < 33024"
        | "49152 \<le> uint f" "uint f < 49408"
        using e False unfolding entry_ok_def by (auto split: if_splits)
      then show ?thesis
      proof cases
        case 1
        then have "int s' = uint f" "uint f mod 32768 = uint f" using m u by simp_all
        with e 1 show ?thesis by (simp add: entry_ok_def)
      next
        case 2
        then have "int s' = uint f - 16384" "uint f mod 32768 = uint f"
          using m mod_less_off [of "uint f - 16384" 512 32] by simp_all
        with e 2 show ?thesis by (simp add: entry_ok_def)
      next
        case 3
        then have "int s' = uint f - 32768" "uint f mod 32768 = uint f - 32768"
          using m mod_less_off [of "uint f - 32768" 512 64] mod_less_off [of "uint f - 32768" 32768 1] by simp_all
        with e 3 show ?thesis by (simp add: entry_ok_def)
      next
        case 4
        then have "int s' = uint f - 49152" "uint f mod 32768 = uint f - 32768"
          using m mod_less_off [of "uint f - 49152" 512 96] mod_less_off [of "uint f - 32768" 32768 1] by simp_all
        with e 4 show ?thesis by (simp add: entry_ok_def)
      qed
    qed
    show ?thesis
    proof (cases "32768 \<le> uint f")
      case True
      have "huff_code (uint sy) = (int (code_len sy), int (code_val sy))" using code_facts(3,4) [of sy] by (simp add: prod_eq_iff)
      with s' True have "move_ok (int l) (int p * 16 + int v) (huff_prefix (int s')) (int (code_len sy), int (code_val sy)) (16384 \<le> uint f mod 32768)"
        by simp
      from mv [OF _ this refl refl code_facts(5)] s' True show ?thesis
        unfolding flag_ok_def huff_flags s'_def [symmetric] by (simp add: code_facts(6))
    next
      case no: False
      with s' have "move_ok (int l) (int p * 16 + int v) (huff_prefix (int s')) (0, 0) (16384 \<le> uint f mod 32768)" by simp
      from mv [OF _ this, of 0 0] s' no show ?thesis
        unfolding flag_ok_def huff_flags s'_def [symmetric] by simp
    qed
  qed
qed

section \<open>Unique decoding\<close>

definition no_code :: "bool list \<Rightarrow> bool" where
  "no_code x \<longleftrightarrow> (\<forall>b. \<not> prefix (code_bits b) x)"

lemma huff_bits_unique:
  assumes "no_code x" "no_code y" "huff_bits as @ x = huff_bits bs @ y"
  shows "as = bs \<and> x = y"
  using assms(3)
proof (induction as arbitrary: bs)
  case Nil
  then show ?case using assms(1) by (cases bs) (auto simp: no_code_def prefix_def)
next
  case (Cons a as)
  then obtain b cs where bs: "bs = b # cs" using assms(2) by (cases bs) (auto simp: no_code_def prefix_def)
  have eq: "code_bits a @ huff_bits as @ x = code_bits b @ huff_bits cs @ y" using Cons.prems bs by simp
  then have "prefix (code_bits a) (code_bits b) \<or> prefix (code_bits b) (code_bits a)"
    by (metis prefixI prefix_same_cases)
  then have "a = b" using code_prefix_free by blast
  with Cons.IH [of cs] eq bs show ?case by simp
qed

lemma no_code_state: "s < 256 \<Longrightarrow> no_code (state_bits s)"
  by (simp add: no_code_def state_no_code)

lemma no_code_ones: "no_code (replicate k True)"
  by (simp add: no_code_def code_prefix_ones)

lemma no_code_eos: "no_code (replicate 30 True @ z)"
  unfolding no_code_def
proof (intro allI notI)
  fix b assume b: "prefix (code_bits b) (replicate 30 True @ z)"
  have "length (code_bits b) \<le> 30" using code_facts(2) [of b] by simp
  with b have "prefix (code_bits b) (replicate 30 True)"
    by (metis length_replicate prefix_length_prefix prefixI)
  then show False using code_prefix_ones by blast
qed

section \<open>The decoder\<close>

text \<open>
  What the decoder has made of the bits it was given: they are the codes of its output and the
  bits of its state, or it has seen thirty ones where a code should start.
\<close>

definition decoded_to :: "bool list \<Rightarrow> bytes \<Rightarrow> 16 word \<Rightarrow> bool" where
  "decoded_to bits out f \<longleftrightarrow>
     (if huff_state f < 256 then bits = huff_bits out @ state_bits (huff_state f)
      else f = 0x100 \<and> (\<exists>z. bits = huff_bits out @ replicate 30 True @ z))"

lemma state_256 [simp]: "huff_state 0x100 = 256"
  by (simp add: huff_state_mod)

lemma huff_decode_table_length [simp]: "length huff_decode_table = 257"
proof -
  obtain rs where rs: "huff_decode_table = rs @ [replicate 16 (256, 0)]" "length rs = 256"
    using huff_decode_table_rows by blast
  show ?thesis unfolding rs(1) using rs(2) by simp
qed

lemma failure_step:
  assumes "v < 16"
  shows "huff_decode_step 0x100 v buf = Inr (0x100, buf)"
proof -
  have "(256 :: 16 word) AND NGHTTP2_HUFF_SYM = 0" using huff_flags(1) [of 256] by auto
  then show ?thesis
    using assms unfolding huff_decode_step_def Let_def state_256 huff_failure_row by simp
qed

lemma huff_decode_step_ok:
  assumes f: "huff_ok f" and v: "v < 16" and b: "buf_wf buf" "buf_last buf < nghttp2_buf_cap buf" and d: "decoded_to bits out f"
  obtains f' buf' o1 where "huff_decode_step f v buf = Inr (f', buf')" "huff_ok f'" "buf_wf buf'"
    "buf_data buf' = buf_data buf @ o1" "length o1 \<le> 1" "nghttp2_buf_cap buf' = nghttp2_buf_cap buf"
    "chain_blocks buf' = chain_blocks buf" "buf_last buf' = buf_last buf + length o1" "buf_pos buf' = buf_pos buf"
    "decoded_to (bits @ bits_of 4 v) (out @ o1) f'"
proof (cases "huff_state f < 256")
  case False
  then have f256: "f = 0x100" using f by (auto simp: huff_ok_def)
  then obtain z where "bits = huff_bits out @ replicate 30 True @ z" using d by (auto simp: decoded_to_def)
  then have "decoded_to (bits @ bits_of 4 v) (out @ []) 0x100" by (auto simp: decoded_to_def)
  with that [of f buf "[]"] failure_step [OF v] f b f256 show ?thesis by simp
next
  case True
  let ?s = "huff_state f"
  obtain f' sy where t: "huff_decode_table ! ?s ! v = (f', sy)" by (meson surj_pair)
  have tr: "flag_ok f'" "f' = 0x100 \<and> (\<exists>z. state_bits ?s @ bits_of 4 v = replicate 30 True @ z) \<or>
     huff_state f' < 256 \<and>
       state_bits ?s @ bits_of 4 v = (if f' AND NGHTTP2_HUFF_SYM \<noteq> 0 then code_bits sy else []) @ state_bits (huff_state f')"
    using huff_transition [OF True v t] by auto
  then have ok: "huff_ok f'" by (auto simp: huff_ok_def)
  have bits: "bits = huff_bits out @ state_bits ?s" using d True by (simp add: decoded_to_def)
  have len: "\<not> length huff_decode_table \<le> ?s" using True by simp
  show ?thesis
  proof (cases "f' AND NGHTTP2_HUFF_SYM = 0")
    case no: True
    have "huff_decode_step f v buf = Inr (f', buf)" using len t no by (simp add: huff_decode_step_def Let_def)
    moreover have "decoded_to (bits @ bits_of 4 v) (out @ []) f'"
      using tr(2) bits no unfolding decoded_to_def by (cases "f' = 0x100", auto)
    ultimately show ?thesis using that [of f' buf "[]"] ok b by simp
  next
    case sym: False
    then have "f' \<noteq> 0x100" using huff_flags(1) [of 256] by auto
    then have s': "huff_state f' < 256" "state_bits ?s @ bits_of 4 v = code_bits sy @ state_bits (huff_state f')"
      using tr(2) sym by auto
    have "length [sy] \<le> nghttp2_buf_cap buf - buf_last buf" using b by simp
    from buf_cpy_wf [OF b(1) this] obtain buf' where buf': "buf_cpy buf [sy] = Inr buf'" "buf_wf buf'"
      "buf_data buf' = buf_data buf @ [sy]" "nghttp2_buf_cap buf' = nghttp2_buf_cap buf" "chain_blocks buf' = chain_blocks buf"
      by metis
    have pos: "buf_last buf' = buf_last buf + 1" "buf_pos buf' = buf_pos buf"
      using buf'(1) b by (auto simp: buf_cpy_def nghttp2_cpymem_def wr_def nghttp2_buf_cap_def split: if_splits)
    have "huff_decode_step f v buf = Inr (f', buf')" using len t sym buf'(1) by (simp add: huff_decode_step_def Let_def)
    moreover have "decoded_to (bits @ bits_of 4 v) (out @ [sy]) f'"
      using s' bits unfolding decoded_to_def by simp
    ultimately show ?thesis using that [of f' buf' "[sy]"] ok buf' pos by simp
  qed
qed

lemma byte_nibbles:
  fixes c :: byte
  shows "unat (drop_bit 4 c) < 16" "unat (c AND 0xf) < 16"
    "byte_bits c = bits_of 4 (unat (drop_bit 4 c)) @ bits_of 4 (unat (c AND 0xf))"
proof -
  have m: "(0xf :: byte) = mask 4" by (simp add: mask_eq_exp_minus_1)
  have hi: "unat (drop_bit 4 c) = unat c div 16" 
  proof -
    have "unat (drop_bit 4 c) = drop_bit 4 (take_bit LENGTH(8) (unat c))" by (rule unsigned_drop_bit_eq)
    then show ?thesis using unat_byte [of c] by (simp add: drop_bit_eq_div take_bit_nat_eq_self)
  qed
  have "unat (take_bit 4 c) = take_bit 4 (unat c)" by (rule unsigned_take_bit_eq)
  then have lo: "unat (c AND 0xf) = unat c mod 16" unfolding m by (simp add: take_bit_eq_mod flip: take_bit_eq_mask)
  show "unat (drop_bit 4 c) < 16" unfolding hi using unat_byte [of c] by simp
  show "unat (c AND 0xf) < 16" unfolding lo by simp
  show "byte_bits c = bits_of 4 (unat (drop_bit 4 c)) @ bits_of 4 (unat (c AND 0xf))"
    unfolding hi lo byte_bits_def using bits_of_append [of "unat c mod 16" 4 4 "unat c div 16"] by simp
qed

lemma huff_decode_loop_ok:
  assumes "huff_ok f" "buf_wf buf" "buf_last buf + 2 * length src \<le> nghttp2_buf_cap buf" "decoded_to bits out f"
  shows "\<exists>f' buf' o1. huff_decode_loop f src buf = Inr (f', buf') \<and> huff_ok f' \<and> buf_wf buf' \<and>
    buf_data buf' = buf_data buf @ o1 \<and> length o1 \<le> 2 * length src \<and> nghttp2_buf_cap buf' = nghttp2_buf_cap buf \<and>
    chain_blocks buf' = chain_blocks buf \<and> decoded_to (bits @ bytes_bits src) (out @ o1) f' \<and>
    buf_last buf' = buf_last buf + length o1 \<and> buf_pos buf' = buf_pos buf"
  using assms
proof (induction src arbitrary: f buf bits out)
  case (Cons c src)
  note nib = byte_nibbles [of c]
  have "buf_last buf < nghttp2_buf_cap buf" using Cons.prems(3) by simp
  from huff_decode_step_ok [OF Cons.prems(1) nib(1) Cons.prems(2) this Cons.prems(4)]
  obtain f1 b1 o1 where s1: "huff_decode_step f (unat (drop_bit 4 c)) buf = Inr (f1, b1)" "huff_ok f1" "buf_wf b1"
    "buf_data b1 = buf_data buf @ o1" "length o1 \<le> 1" "nghttp2_buf_cap b1 = nghttp2_buf_cap buf"
    "chain_blocks b1 = chain_blocks buf" "buf_last b1 = buf_last buf + length o1" "buf_pos b1 = buf_pos buf"
    "decoded_to (bits @ bits_of 4 (unat (drop_bit 4 c))) (out @ o1) f1" by metis
  have "buf_last b1 < nghttp2_buf_cap b1" using Cons.prems(3) s1 by simp
  from huff_decode_step_ok [OF s1(2) nib(2) s1(3) this s1(10)]
  obtain f2 b2 o2 where s2: "huff_decode_step f1 (unat (c AND 0xf)) b1 = Inr (f2, b2)" "huff_ok f2" "buf_wf b2"
    "buf_data b2 = buf_data b1 @ o2" "length o2 \<le> 1" "nghttp2_buf_cap b2 = nghttp2_buf_cap b1"
    "chain_blocks b2 = chain_blocks b1" "buf_last b2 = buf_last b1 + length o2" "buf_pos b2 = buf_pos b1"
    "decoded_to ((bits @ bits_of 4 (unat (drop_bit 4 c))) @ bits_of 4 (unat (c AND 0xf))) ((out @ o1) @ o2) f2" by metis
  have "buf_last b2 + 2 * length src \<le> nghttp2_buf_cap b2" using Cons.prems(3) s1 s2 by simp
  from Cons.IH [OF s2(2,3) this s2(10)] obtain f' buf' o3 where
    "huff_decode_loop f2 src b2 = Inr (f', buf')" "huff_ok f'" "buf_wf buf'" "buf_data buf' = buf_data b2 @ o3"
    "length o3 \<le> 2 * length src" "nghttp2_buf_cap buf' = nghttp2_buf_cap b2" "chain_blocks buf' = chain_blocks b2"
    "decoded_to (((bits @ bits_of 4 (unat (drop_bit 4 c))) @ bits_of 4 (unat (c AND 0xf))) @ bytes_bits src) (((out @ o1) @ o2) @ o3) f'"
    "buf_last buf' = buf_last b2 + length o3" "buf_pos buf' = buf_pos b2"
    by blast
  with s1 s2 nib(3) show ?case by (intro exI [of _ f'] exI [of _ buf'] exI [of _ "o1 @ o2 @ o3"]) simp
qed auto

lemma huff_ok_init [simp]: "huff_ok nghttp2_hd_huff_decode_context_init" "decoded_to [] [] nghttp2_hd_huff_decode_context_init"
proof -
  have u: "uint NGHTTP2_HUFF_ACCEPTED = 16384" by (simp add: NGHTTP2_HUFF_ACCEPTED_def)
  then have "huff_state NGHTTP2_HUFF_ACCEPTED = 0" by (simp add: huff_state_mod)
  with u show "huff_ok nghttp2_hd_huff_decode_context_init" "decoded_to [] [] nghttp2_hd_huff_decode_context_init"
    by (auto simp: huff_ok_def flag_ok_def huff_flags decoded_to_def nghttp2_hd_huff_decode_context_init_def)
qed

text \<open>The end is accepted exactly if all the input is a coded string with its padding.\<close>

lemma accepted_iff:
  assumes "huff_ok f" "decoded_to bits out f"
  shows "f AND NGHTTP2_HUFF_ACCEPTED \<noteq> 0 \<longleftrightarrow> (\<exists>j < 8. bits = huff_bits out @ replicate j True)"
proof (cases "huff_state f < 256")
  case True
  then show ?thesis using assms by (auto simp: huff_ok_def flag_ok_def decoded_to_def)
next
  case False
  then obtain z where z: "bits = huff_bits out @ replicate 30 True @ z" using assms(2) by (auto simp: decoded_to_def)
  have "bits \<noteq> huff_bits out @ replicate j True" if "j < 8" for j
  proof
    assume "bits = huff_bits out @ replicate j True"
    then have "length (replicate 30 True @ z) = length (replicate j True)" using z by (metis same_append_eq)
    then show False using that by simp
  qed
  then show ?thesis using False assms(1) by (auto simp: huff_ok_def flag_ok_def)
qed

lemma decoded_unique:
  assumes "decoded_to bits out f" "j < 8" "bits = huff_bits src @ replicate j True"
  shows "out = src"
proof (cases "huff_state f < 256")
  case True
  then have "bits = huff_bits out @ state_bits (huff_state f)" using assms(1) by (simp add: decoded_to_def)
  then have "huff_bits out @ state_bits (huff_state f) = huff_bits src @ replicate j True" using assms(3) by (rule subst)
  from huff_bits_unique [OF no_code_state [OF True] no_code_ones this] show ?thesis by blast
next
  case False
  then obtain z where "bits = huff_bits out @ replicate 30 True @ z" using assms(1) by (auto simp: decoded_to_def)
  then have "huff_bits out @ replicate 30 True @ z = huff_bits src @ replicate j True" using assms(3) by (rule subst)
  from huff_bits_unique [OF no_code_eos no_code_ones this] show ?thesis by blast
qed

lemma coded_iff: "(\<exists>j < 8. bytes_bits bs = huff_bits src @ replicate j True) \<longleftrightarrow> bs = huff_bytes src"
proof
  assume "\<exists>j < 8. bytes_bits bs = huff_bits src @ replicate j True"
  then obtain j where j: "j < 8" "bytes_bits bs = huff_bits src @ replicate j True" by blast
  then have "8 * length bs = length (huff_bits src) + j" by (metis bytes_bits_length length_append length_replicate)
  then have "(length (huff_bits src) + j) mod 8 = 0" by (metis mod_mult_self1_is_0)
  then have "(length (huff_bits src) mod 8 + j) mod 8 = 0" by (simp add: mod_simps)
  then obtain q where q: "length (huff_bits src) mod 8 + j = 8 * q" by (metis mod_eq_0_iff_dvd dvdE)
  moreover have "length (huff_bits src) mod 8 < 8" by simp
  ultimately have "q = 0 \<or> q = 1" using j(1) by linarith
  then have "j = (8 - length (huff_bits src) mod 8) mod 8"
  proof
    assume "q = 1"
    then have "j = 8 - length (huff_bits src) mod 8" using q by simp
    with j(1) show ?thesis by simp
  qed (use q in simp)
  then have "bytes_bits bs = bytes_bits (huff_bytes src)" using j(2) by (simp add: huff_bytes_bits huff_pad_def)
  then show "bs = huff_bytes src" by (rule bytes_bits_inj)
next
  assume "bs = huff_bytes src"
  then show "\<exists>j < 8. bytes_bits bs = huff_bits src @ replicate j True"
    using huff_pad_length(2) [of "length (huff_bits src)"] unfolding huff_pad_def length_replicate
    by (intro exI [of _ "(8 - length (huff_bits src) mod 8) mod 8"]) (simp add: huff_bytes_bits huff_pad_def)
qed

section \<open>The pending bits of the encoder\<close>

text \<open>The word holds the pending bits at its top, and zeros below.\<close>

definition word_holds :: "64 word \<Rightarrow> bool list \<Rightarrow> bool" where
  "word_holds code pend \<longleftrightarrow> (\<forall>i < 64. bit code (63 - i) \<longleftrightarrow> i < length pend \<and> pend ! i)"

lemma word_holds_0 [simp]: "word_holds 0 []"
  by (simp add: word_holds_def)

lemma sym_bits:
  assumes "k < 32"
  shows "bit (snd (huff_sym_table ! unat b)) (31 - k) \<longleftrightarrow> k < code_len b \<and> code_bits b ! k"
proof (cases "k < code_len b")
  case True
  have "code_bits b ! k = bits_of 32 (unat (snd (huff_sym_table ! unat b))) ! k"
    using True by (simp add: code_bits_def code_len_def split_beta)
  then show ?thesis using True assms by (simp add: bit_unsigned_iff)
next
  case False
  have "unat (snd (huff_sym_table ! unat b)) = code_val b * 2 ^ (32 - code_len b)"
  proof -
    have "int (unat (snd (huff_sym_table ! unat b))) = int (code_val b * 2 ^ (32 - code_len b))"
      using huff_sym_nth(4) [OF unat_byte [of b], folded code_len_def] code_facts(4) [of b] by simp
    then show ?thesis by (simp only: of_nat_eq_iff)
  qed
  then have "unat (snd (huff_sym_table ! unat b)) = push_bit (32 - code_len b) (code_val b)" by (simp add: push_bit_eq_mult)
  moreover have "\<not> bit (push_bit (32 - code_len b) (code_val b)) (31 - k)" using False assms by (auto simp: bit_push_bit_iff)
  ultimately have "\<not> bit (unat (snd (huff_sym_table ! unat b))) (31 - k)" by simp
  then show ?thesis using False by (simp add: bit_unsigned_iff)
qed

lemma word_holds_or:
  assumes "word_holds code pend" "length pend < 32"
  shows "word_holds (code OR push_bit (32 - length pend) (ucast (snd (huff_sym_table ! unat b)))) (pend @ code_bits b)"
  unfolding word_holds_def
proof (intro allI impI)
  fix i :: nat assume i: "i < 64"
  let ?s = "snd (huff_sym_table ! unat b)"
  have c: "bit code (63 - i) \<longleftrightarrow> i < length pend \<and> pend ! i" using assms(1) i by (simp add: word_holds_def)
  have p: "bit (push_bit (32 - length pend) (ucast ?s :: 64 word)) (63 - i) \<longleftrightarrow>
      32 - length pend \<le> 63 - i \<and> bit ?s (63 - i - (32 - length pend))"
    using i by (auto simp: bit_push_bit_iff bit_ucast_iff dest: bit_imp_le_length)
  show "bit (code OR push_bit (32 - length pend) (ucast ?s)) (63 - i) \<longleftrightarrow>
      i < length (pend @ code_bits b) \<and> (pend @ code_bits b) ! i"
  proof (cases "i < length pend")
    case True
    then have "32 \<le> 63 - i - (32 - length pend)" using assms(2) by simp
    then have "\<not> bit ?s (63 - i - (32 - length pend))" by (auto dest: bit_imp_le_length)
    then show ?thesis using True c p by (simp add: bit_or_iff nth_append)
  next
    case False
    show ?thesis
    proof (cases "i - length pend < 32")
      case True
      then have "63 - i - (32 - length pend) = 31 - (i - length pend)" "32 - length pend \<le> 63 - i"
        using False assms(2) by auto
      then show ?thesis using False c p sym_bits [OF True, of b] by (auto simp: bit_or_iff nth_append)
    next
      case no: False
      then have "\<not> 32 - length pend \<le> 63 - i" using assms(2) i by simp
      moreover have "\<not> i < length (pend @ code_bits b)" using no code_facts(2) [of b] by simp
      ultimately show ?thesis using False c p by (simp add: bit_or_iff)
    qed
  qed
qed

lemma word_holds_push:
  assumes "word_holds code pend" "k \<le> length pend" "length pend \<le> 64"
  shows "word_holds (push_bit k code) (drop k pend)"
  unfolding word_holds_def
proof (intro allI impI)
  fix i :: nat assume i: "i < 64"
  show "bit (push_bit k code) (63 - i) \<longleftrightarrow> i < length (drop k pend) \<and> drop k pend ! i"
  proof (cases "k + i < 64")
    case True
    then have "bit code (63 - (k + i)) \<longleftrightarrow> k + i < length pend \<and> pend ! (k + i)" using assms(1) by (simp add: word_holds_def)
    moreover have "63 - i - k = 63 - (k + i)" "k \<le> 63 - i" using True by auto
    ultimately show ?thesis using assms(2) by (auto simp: bit_push_bit_iff)
  next
    case False
    then have "\<not> k \<le> 63 - i" using i by simp
    moreover have "\<not> i < length (drop k pend)" using False assms(3) by simp
    ultimately show ?thesis by (simp add: bit_push_bit_iff)
  qed
qed

lemma word_holds_top:
  assumes "word_holds code pend" "8 \<le> length pend"
  shows "byte_bits (ucast (drop_bit 56 code)) = take 8 pend"
proof (rule nth_equalityI)
  fix i assume "i < length (byte_bits (ucast (drop_bit 56 code)))"
  then have i: "i < 8" by simp
  then have "56 + (7 - i) = 63 - i" and le: "7 - i < 8" by simp_all
  then have "bit (ucast (drop_bit 56 code) :: byte) (7 - i) = bit code (63 - i)"
    using i le by (simp add: bit_ucast_iff bit_drop_bit_eq)
  then show "byte_bits (ucast (drop_bit 56 code)) ! i = take 8 pend ! i"
    using assms i by (simp add: byte_bits_nth word_holds_def)
qed (use assms in simp)

lemma word_holds_last:
  assumes "word_holds code pend" "length pend < 8"
  shows "byte_bits (ucast (drop_bit 56 code) OR (push_bit (8 - length pend) 1 - 1)) = pend @ replicate (8 - length pend) True"
proof (rule nth_equalityI)
  let ?n = "8 - length pend"
  fix i assume "i < length (byte_bits (ucast (drop_bit 56 code) OR (push_bit ?n 1 - 1)))"
  then have i: "i < 8" by simp
  then have "56 + (7 - i) = 63 - i" and le: "7 - i < 8" by simp_all
  then have "bit (ucast (drop_bit 56 code) :: byte) (7 - i) = bit code (63 - i)"
    using i le by (simp add: bit_ucast_iff bit_drop_bit_eq)
  moreover have "push_bit ?n 1 - 1 = (mask ?n :: byte)" by (simp add: mask_eq_exp_minus_1 push_bit_eq_mult)
  moreover have "bit (mask ?n :: byte) (7 - i) \<longleftrightarrow> length pend \<le> i" using i assms(2) by (auto simp: bit_mask_iff)
  ultimately show "byte_bits (ucast (drop_bit 56 code) OR (push_bit ?n 1 - 1)) ! i = (pend @ replicate ?n True) ! i"
    using assms i by (auto simp: byte_bits_nth word_holds_def bit_or_iff nth_append)
qed (use assms in simp)

lemma word_holds_top4:
  assumes "word_holds code pend" "32 \<le> length pend"
  shows "bytes_bits (nghttp2_put_uint32be (ucast (drop_bit 32 code))) = take 32 pend"
proof -
  let ?w = "ucast (drop_bit 32 code) :: 32 word"
  have part: "byte_bits (ucast (drop_bit (24 - 8 * j) ?w)) = take 8 (drop (8 * j) pend)" if j: "j < 4" for j
  proof (rule nth_equalityI)
    fix i assume "i < length (byte_bits (ucast (drop_bit (24 - 8 * j) ?w)))"
    then have i: "i < 8" by simp
    then have le: "7 - i < 8" by simp
    from i have e: "32 + (24 - 8 * j + (7 - i)) = 63 - (8 * j + i)" "24 - 8 * j + (7 - i) < 32" using j by auto
    have "bit (ucast (drop_bit (24 - 8 * j) ?w) :: byte) (7 - i) = bit code (32 + (24 - 8 * j + (7 - i)))"
      using i e(2) le by (simp add: bit_ucast_iff bit_drop_bit_eq)
    then show "byte_bits (ucast (drop_bit (24 - 8 * j) ?w)) ! i = take 8 (drop (8 * j) pend) ! i"
      unfolding e(1) using assms i j by (simp add: byte_bits_nth word_holds_def)
  qed (use assms j in simp)
  have "take 32 pend = take 8 pend @ take 8 (drop 8 pend) @ take 8 (drop 16 pend) @ take 8 (drop 24 pend)"
    using take_add [of 8 24 pend] take_add [of 8 16 "drop 8 pend"] take_add [of 8 8 "drop 16 pend"] by simp
  with part [of 0] part [of 1] part [of 2] part [of 3] show ?thesis
    by (simp add: nghttp2_put_uint32be_def)
qed

section \<open>The encoder\<close>

lemma roomy_set_cur [simp]: "bufs_roomy (bufs_set_cur b c) = bufs_roomy b"
  by (simp add: bufs_roomy_def bufs_set_cur_def)

lemma addb_roomy:
  assumes "bufs_wf b" "bufs_roomy b" "nghttp2_bufs_addb b x m = Inr (0, b', m')"
  shows "bufs_roomy b'"
proof -
  obtain rv b1 m1 where e: "bufs_ensure_addb b m = Inr (rv, b1, m1)"
    using assms(3) by (cases "bufs_ensure_addb b m") (auto simp: nghttp2_bufs_addb_def bufs_put1_def)
  with assms(3) have "rv = 0" by (auto simp: nghttp2_bufs_addb_def bufs_put1_def split: if_splits)
  with e have r: "bufs_roomy b1" using ensure_addb_room(2) [OF assms(1,2)] by blast
  from assms(3) e \<open>rv = 0\<close> obtain c where "b' = bufs_set_cur b1 c"
    by (auto simp: nghttp2_bufs_addb_def bufs_put1_def elim!: res_bind_InrE)
  with r show ?thesis by simp
qed

lemma appends_seq:
  assumes "appends b m (take k d) 0 b1 m1" "k \<le> length d" "appends b1 m1 (drop k d) rv b2 m2"
  shows "appends b m d rv b2 m2"
  by (rule appends_trans [OF _ assms(2) _ _ assms(3)]) (use assms(1) in \<open>simp_all add: appends_def\<close>)

lemma appends_nothing: "bufs_wf b \<Longrightarrow> appends b m [] 0 b m"
  by (simp add: appends_def)

text \<open>
  An intermediate result: the bytes \<open>D\<close> are to be written. On success a part of them is, and the
  bits of the others are the pending bits and \<open>rest\<close>.
\<close>

definition enc_result ::
  "nat \<Rightarrow> nghttp2_bufs \<Rightarrow> memory \<Rightarrow> bytes \<Rightarrow> bool list \<Rightarrow> (int \<times> 64 word \<times> nat \<times> nghttp2_bufs \<times> memory) res \<Rightarrow> bool" where
  "enc_result n b m D rest r \<longleftrightarrow>
     (\<exists>rv code nbits b' m'. r = Inr (rv, code, nbits, b', m') \<and>
        (if rv = 0
         then \<exists>k \<le> length D. \<exists>pend. appends b m (take k D) 0 b' m' \<and> bufs_roomy b' \<and> word_holds code pend \<and>
            nbits = length pend \<and> length pend < n \<and> bytes_bits (drop k D) = pend @ rest
         else appends b m D rv b' m'))"

lemma enc_result_seq:
  assumes "appends b m (take k D) 0 b1 m1" "k \<le> length D" "enc_result n b1 m1 (drop k D) rest r"
  shows "enc_result n b m D rest r"
proof -
  obtain rv code nbits b' m' where r: "r = Inr (rv, code, nbits, b', m')"
    and c: "if rv = 0
         then \<exists>j \<le> length (drop k D). \<exists>pend. appends b1 m1 (take j (drop k D)) 0 b' m' \<and> bufs_roomy b' \<and> word_holds code pend \<and>
            nbits = length pend \<and> length pend < n \<and> bytes_bits (drop j (drop k D)) = pend @ rest
         else appends b1 m1 (drop k D) rv b' m'"
    using assms(3) unfolding enc_result_def by blast
  show ?thesis
  proof (cases "rv = 0")
    case True
    then obtain j pend where j: "j \<le> length D - k" "appends b1 m1 (take j (drop k D)) 0 b' m'" "bufs_roomy b'" "word_holds code pend"
        "nbits = length pend" "length pend < n" "bytes_bits (drop j (drop k D)) = pend @ rest" using c by auto
    have "take k (take (k + j) D) = take k D" "drop k (take (k + j) D) = take j (drop k D)" "k \<le> length (take (k + j) D)"
      using assms(2) by (simp_all add: drop_take)
    with appends_seq [of b m k "take (k + j) D" b1 m1 0 b' m'] assms(1) j(2)
    have "appends b m (take (k + j) D) 0 b' m'" by simp
    then show ?thesis using j True r assms(2) unfolding enc_result_def
      by (intro exI [of _ rv] exI [of _ code] exI [of _ nbits] exI [of _ b'] exI [of _ m'])
         (auto intro!: exI [of _ "k + j"] simp: add.commute)
  next
    case False
    with c appends_seq [OF assms(1,2)] r show ?thesis unfolding enc_result_def by auto
  qed
qed

text \<open>The bits that come first are those of the bytes that come first.\<close>

lemma bytes_bits_split:
  assumes "bytes_bits D = bytes_bits x @ rest"
  shows "take (length x) D = x" "length x \<le> length D" "bytes_bits (drop (length x) D) = rest"
proof -
  have "length (bytes_bits D) = length (bytes_bits x @ rest)" using assms by simp
  then show len: "length x \<le> length D" by simp
  have "bytes_bits (take (length x) D) @ bytes_bits (drop (length x) D) = bytes_bits x @ rest"
    using assms by (simp flip: bytes_bits_simps(3))
  then have "bytes_bits (take (length x) D) = bytes_bits x \<and> bytes_bits (drop (length x) D) = rest"
    using len by (intro append_eq_append_conv [THEN iffD1]) auto
  then show "take (length x) D = x" "bytes_bits (drop (length x) D) = rest" by (auto dest: bytes_bits_inj)
qed

lemma huff_put_bytes_ok:
  assumes "bufs_wf b" "bufs_roomy b" "word_holds code pend" "length pend \<le> 64" "bytes_bits D = pend @ rest"
  shows "enc_result 8 b m D rest (huff_put_bytes code (length pend) b m)"
  using assms
proof (induction "length pend" arbitrary: code pend b m D rule: less_induct)
  case less
  show ?case
  proof (cases "8 \<le> length pend")
    case False
    then have "huff_put_bytes code (length pend) b m = Inr (0, code, length pend, b, m)" by (simp add: huff_put_bytes.simps)
    moreover have "appends b m (take 0 D) 0 b m" using less.prems(1) by (simp add: appends_nothing)
    ultimately show ?thesis using less.prems False unfolding enc_result_def by (auto intro!: exI [of _ 0])
  next
    case True
    let ?x = "ucast (drop_bit 56 code) :: byte"
    have "bytes_bits D = bytes_bits [?x] @ drop 8 pend @ rest"
      using less.prems(5) word_holds_top [OF less.prems(3) True] by simp
    note D = bytes_bits_split [OF this]
    obtain rv b1 m1 where a: "nghttp2_bufs_addb b ?x m = Inr (rv, b1, m1)" using addb_total [OF less.prems(1,2)] by blast
    note ap = addb_inr [OF less.prems(1) a]
    show ?thesis
    proof (cases "rv = 0")
      case rv: True
      have ap0: "appends b m (take 1 D) 0 b1 m1" using ap rv D(1) by simp
      have "enc_result 8 b1 m1 (drop 1 D) rest (huff_put_bytes (push_bit 8 code) (length (drop 8 pend)) b1 m1)"
        by (rule less.hyps)
          (use True less.prems ap rv addb_roomy [OF less.prems(1,2)] a D(3) word_holds_push [OF less.prems(3) True less.prems(4)]
           in \<open>auto simp: appends_def\<close>)
      from enc_result_seq [OF ap0 _ this] D(2) True a rv show ?thesis
        by (subst huff_put_bytes.simps) simp
    next
      case rv: False
      have "appends b m D rv b1 m1"
      proof -
        obtain y D' where D': "D = ?x # D'" using D(1,2) by (cases D) auto
        from ap rv D' show ?thesis by (auto simp: appends_def)
      qed
      then show ?thesis using True a rv unfolding enc_result_def by (subst huff_put_bytes.simps) simp
    qed
  qed
qed

lemma cpy4_ok:
  assumes "bufs_wf b" "length d \<le> nghttp2_buf_avail (bufs_head b ! bufs_cur b)"
  shows "\<exists>c. buf_cpy (bufs_head b ! bufs_cur b) d = Inr c \<and> appends b m d 0 (bufs_set_cur b c) m \<and>
    nghttp2_buf_avail (bufs_head (bufs_set_cur b c) ! bufs_cur (bufs_set_cur b c)) =
      nghttp2_buf_avail (bufs_head b ! bufs_cur b) - length d"
proof -
  let ?c = "bufs_head b ! bufs_cur b"
  have cur: "bufs_cur b < length (bufs_head b)" and cwf: "buf_wf ?c" using assms(1) by (auto simp: bufs_wf_def)
  from buf_cpy_wf [OF cwf, of d] assms(2) cwf obtain c where c: "buf_cpy ?c d = Inr c" "buf_wf c"
    "buf_data c = buf_data ?c @ d" "nghttp2_buf_cap c = nghttp2_buf_cap ?c" "chain_blocks c = chain_blocks ?c"
    by (metis buf_avail_wf)
  have "buf_last c = buf_last ?c + length d"
    using c(1) by (auto simp: buf_cpy_def nghttp2_cpymem_def elim!: res_bind_InrE split: if_splits)
  then have "nghttp2_buf_avail c = nghttp2_buf_avail ?c - length d" using c cwf by simp
  moreover have "appends b m d 0 (bufs_set_cur b c) m"
    using set_curE [OF assms(1) c(2,4,5)] c(3) by (simp add: appends_def)
  ultimately show ?thesis using c(1) cur by (auto simp: bufs_set_cur_def)
qed

lemma huff_encode_loop_ok:
  assumes "bufs_wf b" "bufs_roomy b" "word_holds code pend" "length pend < 32"
    "bytes_bits D = pend @ huff_bits src @ rest" "avail = nghttp2_buf_avail (bufs_head b ! bufs_cur b)"
  shows "enc_result 32 b m D rest (huff_encode_loop src code (length pend) avail b m)"
  using assms
proof (induction src arbitrary: code pend b m D avail)
  case Nil
  have "appends b m (take 0 D) 0 b m" using Nil.prems(1) by (simp add: appends_nothing)
  then show ?case using Nil.prems unfolding enc_result_def by (auto intro!: exI [of _ 0])
next
  case (Cons c src)
  let ?code = "code OR push_bit (32 - length pend) (ucast (snd (huff_sym_table ! unat c)))"
  let ?pend = "pend @ code_bits c"
  have h: "word_holds ?code ?pend" by (rule word_holds_or [OF Cons.prems(3,4)])
  have n: "length pend + fst (huff_sym_table ! unat c) = length ?pend" by (simp add: code_len_def)
  have le: "length ?pend \<le> 64" using Cons.prems(4) code_facts(2) [of c] by simp
  have D: "bytes_bits D = ?pend @ huff_bits src @ rest" using Cons.prems(5) by simp
  have cur: "bufs_cur_buf b = Inr (bufs_head b ! bufs_cur b)" using Cons.prems(1) by (simp add: bufs_wf_def bufs_cur_buf_def)
  show ?case
  proof (cases "length ?pend < 32")
    case True
    from Cons.IH [OF Cons.prems(1,2) h True D Cons.prems(6)] True show ?thesis by (simp add: Let_def n del: length_append)
  next
    case big: False
    show ?thesis
    proof (cases "4 \<le> avail")
      case True
      let ?x = "nghttp2_put_uint32be (ucast (drop_bit 32 ?code))"
      have bits: "bytes_bits D = bytes_bits ?x @ drop 32 ?pend @ huff_bits src @ rest"
        using D word_holds_top4 [OF h] big by (metis append.assoc append_take_drop_id not_less)
      note D4 = bytes_bits_split [OF this]
      have "length ?x \<le> nghttp2_buf_avail (bufs_head b ! bufs_cur b)" using True Cons.prems(6) by simp
      from cpy4_ok [OF Cons.prems(1) this, of m] obtain b1 where b1: "buf_cpy (bufs_head b ! bufs_cur b) ?x = Inr b1"
        "appends b m ?x 0 (bufs_set_cur b b1) m"
        "nghttp2_buf_avail (bufs_head (bufs_set_cur b b1) ! bufs_cur (bufs_set_cur b b1)) = avail - 4"
        using Cons.prems(6) by auto
      have "enc_result 32 (bufs_set_cur b b1) m (drop 4 D) rest
          (huff_encode_loop src (push_bit 32 ?code) (length (drop 32 ?pend)) (avail - 4) (bufs_set_cur b b1) m)"
      proof (rule Cons.IH)
        show "word_holds (push_bit 32 ?code) (drop 32 ?pend)" using word_holds_push [OF h] big le by simp
        show "length (drop 32 ?pend) < 32" using Cons.prems(4) code_facts(2) [of c] by simp
      qed (use b1 D4 Cons.prems(2) in \<open>auto simp: appends_def\<close>)
      then have "enc_result 32 b m D rest
          (huff_encode_loop src (push_bit 32 ?code) (length (drop 32 ?pend)) (avail - 4) (bufs_set_cur b b1) m)"
        by (rule enc_result_seq [of _ _ 4, rotated 2]) (use b1(2) D4 in simp_all)
      moreover have "huff_encode_loop (c # src) code (length pend) avail b m =
          huff_encode_loop src (push_bit 32 ?code) (length (drop 32 ?pend)) (avail - 4) (bufs_set_cur b b1) m"
      proof -
        have "length (drop 32 ?pend) = length pend + code_len c - 32" by (simp only: length_drop length_append code_bits_length)
        then show ?thesis using big True cur b1(1) n by (simp add: Let_def del: length_drop)
      qed
      ultimately show ?thesis by simp
    next
      case False
      from huff_put_bytes_ok [OF Cons.prems(1,2) h le D, of m]
      obtain rv code1 nbits1 b1 m1 where p: "huff_put_bytes ?code (length ?pend) b m = Inr (rv, code1, nbits1, b1, m1)"
        and r: "if rv = 0
         then \<exists>k \<le> length D. \<exists>pend. appends b m (take k D) 0 b1 m1 \<and> bufs_roomy b1 \<and> word_holds code1 pend \<and>
            nbits1 = length pend \<and> length pend < 8 \<and> bytes_bits (drop k D) = pend @ huff_bits src @ rest
         else appends b m D rv b1 m1"
        unfolding enc_result_def by blast
      have step: "huff_encode_loop (c # src) code (length pend) avail b m =
          (if rv \<noteq> 0 then Inr (rv, code1, nbits1, b1, m1)
           else res_bind (bufs_cur_buf b1) (\<lambda>buf. huff_encode_loop src code1 nbits1 (nghttp2_buf_avail buf) b1 m1))"
        using big False p n by (simp add: Let_def)
      show ?thesis
      proof (cases "rv = 0")
        case True
        then obtain k pend1 where k: "k \<le> length D" "appends b m (take k D) 0 b1 m1" "bufs_roomy b1" "word_holds code1 pend1"
            "nbits1 = length pend1" "length pend1 < 8" "bytes_bits (drop k D) = pend1 @ huff_bits src @ rest" using r by auto
        have wf: "bufs_wf b1" using k(2) by (simp add: appends_def)
        then have "bufs_cur_buf b1 = Inr (bufs_head b1 ! bufs_cur b1)" by (simp add: bufs_wf_def bufs_cur_buf_def)
        moreover have "length pend1 < 32" using k(6) by simp
        ultimately show ?thesis
          using enc_result_seq [OF k(2,1) Cons.IH [OF wf k(3,4) _ k(7) refl]] step True k(5) by simp
      next
        case no: False
        with r step show ?thesis unfolding enc_result_def by auto
      qed
    qed
  qed
qed

lemma huff_encode_ok:
  assumes "bufs_wf b" "bufs_roomy b"
  shows "\<exists>rv b' m'. nghttp2_hd_huff_encode b src m = Inr (rv, b', m') \<and> appends b m (huff_bytes src) rv b' m' \<and>
    (rv = 0 \<longrightarrow> bufs_roomy b')"
proof -
  let ?D = "huff_bytes src" and ?pad = "huff_pad (length (huff_bits src))"
  have cur: "bufs_cur_buf b = Inr (bufs_head b ! bufs_cur b)" using assms(1) by (simp add: bufs_wf_def bufs_cur_buf_def)
  have "enc_result 32 b m ?D ?pad (huff_encode_loop src 0 (length ([] :: bool list)) (nghttp2_buf_avail (bufs_head b ! bufs_cur b)) b m)"
    by (rule huff_encode_loop_ok [OF assms]) (simp_all add: huff_bytes_bits)
  then obtain rv code nbits b1 m1 where
    l: "huff_encode_loop src 0 0 (nghttp2_buf_avail (bufs_head b ! bufs_cur b)) b m = Inr (rv, code, nbits, b1, m1)"
    and r: "if rv = 0
         then \<exists>k \<le> length ?D. \<exists>pend. appends b m (take k ?D) 0 b1 m1 \<and> bufs_roomy b1 \<and> word_holds code pend \<and>
            nbits = length pend \<and> length pend < 32 \<and> bytes_bits (drop k ?D) = pend @ ?pad
         else appends b m ?D rv b1 m1"
    unfolding enc_result_def by auto
  show ?thesis
  proof (cases "rv = 0")
    case False
    then show ?thesis using l r cur by (auto simp: nghttp2_hd_huff_encode_def)
  next
    case rv: True
    then obtain k pend where k: "k \<le> length ?D" "appends b m (take k ?D) 0 b1 m1" "bufs_roomy b1" "word_holds code pend"
      "nbits = length pend" "length pend < 32" "bytes_bits (drop k ?D) = pend @ ?pad" using r by auto
    have wf1: "bufs_wf b1" using k(2) by (simp add: appends_def)
    have "enc_result 8 b1 m1 (drop k ?D) ?pad (huff_put_bytes code (length pend) b1 m1)"
      by (rule huff_put_bytes_ok [OF wf1 k(3,4) _ k(7)]) (use k(6) in simp)
    from enc_result_seq [OF k(2,1) this]
    obtain rv2 code2 nbits2 b2 m2 where
      p: "huff_put_bytes code (length pend) b1 m1 = Inr (rv2, code2, nbits2, b2, m2)"
      and r2: "if rv2 = 0
         then \<exists>k \<le> length ?D. \<exists>pend. appends b m (take k ?D) 0 b2 m2 \<and> bufs_roomy b2 \<and> word_holds code2 pend \<and>
            nbits2 = length pend \<and> length pend < 8 \<and> bytes_bits (drop k ?D) = pend @ ?pad
         else appends b m ?D rv2 b2 m2"
      unfolding enc_result_def by blast
    show ?thesis
    proof (cases "rv2 = 0")
      case False
      then show ?thesis using l rv p r2 k(5) cur by (auto simp: nghttp2_hd_huff_encode_def)
    next
      case rv2: True
      then obtain j pend2 where j: "j \<le> length ?D" "appends b m (take j ?D) 0 b2 m2" "bufs_roomy b2" "word_holds code2 pend2"
        "nbits2 = length pend2" "length pend2 < 8" "bytes_bits (drop j ?D) = pend2 @ ?pad" using r2 by auto
      have wf2: "bufs_wf b2" using j(2) by (simp add: appends_def)
      have len: "8 * (length ?D - j) = length pend2 + length ?pad"
        using arg_cong [OF j(7), of length] by simp
      moreover have "length ?pad < 8" by (rule huff_pad_length)
      ultimately have small: "length ?D - j \<le> 1" using j(6) by linarith
      show ?thesis
      proof (cases "pend2 = []")
        case True
        then have "length ?D - j = 0" using len \<open>length ?pad < 8\<close> by auto
        then have "appends b m ?D 0 b2 m2" using j(2) by simp
        moreover have "nghttp2_hd_huff_encode b src m = Inr (0, b2, m2)"
          using l rv p rv2 k(5) j(5) True cur by (simp add: nghttp2_hd_huff_encode_def)
        ultimately show ?thesis using j(3) by auto
      next
        case False
        then have "length ?D - j = 1" using len small by (cases "length ?D - j") auto
        then have d: "length (drop j ?D) = 1" and pad: "?pad = replicate (8 - length pend2) True"
          using len by (auto simp: huff_pad_def)
        let ?x = "ucast (drop_bit 56 code2) OR (push_bit (8 - length pend2) 1 - 1) :: byte"
        from d obtain y where y: "drop j ?D = [y]" by (metis One_nat_def length_0_conv length_Suc_conv)
        then have "byte_bits y = byte_bits ?x" using j(7) pad word_holds_last [OF j(4,6)] by simp
        then have "y = ?x" by (rule byte_bits_inj)
        obtain rv3 b3 m3 where a: "nghttp2_bufs_addb b2 ?x m2 = Inr (rv3, b3, m3)" using addb_total [OF wf2 j(3)] by blast
        have "appends b m ?D rv3 b3 m3"
          by (rule appends_seq [OF j(2,1)]) (use addb_inr [OF wf2 a] y \<open>y = ?x\<close> in simp)
        moreover have "nghttp2_hd_huff_encode b src m = Inr (rv3, b3, m3)"
          using l rv p rv2 k(5) j(5) False cur a by (simp add: nghttp2_hd_huff_encode_def)
        moreover have "rv3 = 0 \<longrightarrow> bufs_roomy b3" using addb_roomy [OF wf2 j(3)] a by auto
        ultimately show ?thesis by blast
      qed
    qed
  qed
qed

section \<open>What the coder does\<close>

lemma encode_count_fold:
  "foldl (\<lambda>nbits c. (nbits + fst (huff_sym_table ! unat c)) mod 2 ^ 64) (n mod 2 ^ 64) src = (n + length (huff_bits src)) mod 2 ^ 64"
proof (induction src arbitrary: n)
  case (Cons c src)
  have "(n mod 2 ^ 64 + fst (huff_sym_table ! unat c)) mod 2 ^ 64 = (n + code_len c) mod 2 ^ 64"
    by (simp add: code_len_def mod_simps)
  with Cons [of "n + code_len c"] show ?case by (simp add: add.assoc)
qed simp

lemma huff_bits_length: "length (huff_bits src) \<le> 30 * length src" "5 * length src \<le> length (huff_bits src)"
proof (induction src)
  case (Cons c src)
  { case 1 show ?case using Cons(1) code_facts(2) [of c] by simp }
  { case 2 show ?case using Cons(2) code_facts(1) [of c] by simp }
qed simp_all

lemma encode_count:
  assumes "length src < 2 ^ 58"
  shows "nghttp2_hd_huff_encode_count src = length (huff_bytes src)"
proof -
  let ?n = "length (huff_bits src)"
  have small: "?n + 7 < 2 ^ 64" using huff_bits_length(1) [of src] assms by simp
  have "8 * length (huff_bytes src) = ?n + length (huff_pad ?n)"
    using arg_cong [OF huff_bytes_bits [of src], of length] by simp
  then have "(?n + 7) div 8 = length (huff_bytes src)" using huff_pad_length(2) [of ?n] by linarith
  with small show ?thesis
    using encode_count_fold [of 0 src] by (simp add: nghttp2_hd_huff_encode_count_def Let_def)
qed

lemma huff_decode_loop_append:
  "huff_decode_loop f (xs @ ys) buf = res_bind (huff_decode_loop f xs buf) (\<lambda>(f, buf). huff_decode_loop f ys buf)"
proof (induction xs arbitrary: f buf)
  case (Cons x xs)
  show ?case
    by (cases "huff_decode_step f (unat (drop_bit 4 x)) buf")
       (auto simp: Cons split_beta res_bind_assoc intro!: arg_cong2 [where f = res_bind] split: sum.splits)
qed simp

text \<open>The decoder on a whole string, started anew.\<close>

lemma huff_decode_whole:
  assumes "buf_wf buf" "2 * length bs \<le> nghttp2_buf_avail buf"
  obtains ctx buf' out where "huff_decode_loop nghttp2_hd_huff_decode_context_init bs buf = Inr (ctx, buf')"
    "buf_wf buf'" "buf_data buf' = buf_data buf @ out" "length out \<le> 2 * length bs"
    "ctx AND NGHTTP2_HUFF_ACCEPTED \<noteq> 0 \<longleftrightarrow> bs = huff_bytes out" "\<And>src. bs = huff_bytes src \<Longrightarrow> out = src"
    "nghttp2_buf_cap buf' = nghttp2_buf_cap buf" "chain_blocks buf' = chain_blocks buf"
proof -
  have room: "buf_last buf + 2 * length bs \<le> nghttp2_buf_cap buf" using assms by (auto simp: buf_wf_def)
  from huff_decode_loop_ok [OF huff_ok_init(1) assms(1) room huff_ok_init(2)]
  obtain ctx buf' out where r: "huff_decode_loop nghttp2_hd_huff_decode_context_init bs buf = Inr (ctx, buf')"
    "huff_ok ctx" "buf_wf buf'" "buf_data buf' = buf_data buf @ out" "length out \<le> 2 * length bs"
    "nghttp2_buf_cap buf' = nghttp2_buf_cap buf" "chain_blocks buf' = chain_blocks buf" "decoded_to (bytes_bits bs) out ctx"
    by auto
  show ?thesis
  proof (rule that [OF r(1,3,4,5) _ _ r(6,7)])
    show "ctx AND NGHTTP2_HUFF_ACCEPTED \<noteq> 0 \<longleftrightarrow> bs = huff_bytes out"
      unfolding accepted_iff [OF r(2,8)] by (rule coded_iff)
    show "out = src" if "bs = huff_bytes src" for src
      using decoded_unique [OF r(8)] coded_iff [of bs src] that by blast
  qed
qed

text \<open>
  Encoding a string adds its code, in order, whatever the chunks of the chain; the length is the
  one that was counted for it.
\<close>

theorem huff_encode_writes:
  assumes "bufs_wf b" "bufs_roomy b" "length src < 2 ^ 58"
  shows "\<exists>rv b' m'. nghttp2_hd_huff_encode b src m = Inr (rv, b', m') \<and> appends b m (huff_bytes src) rv b' m' \<and>
    length (huff_bytes src) = nghttp2_hd_huff_encode_count src"
  using huff_encode_ok [OF assms(1,2), of src m] encode_count [OF assms(3)] by metis

theorem huff_encode_writes_witness:
  "\<exists>rv b' m'. nghttp2_hd_huff_encode small_bufs [0x61, 0x0a] two_blocks = Inr (rv, b', m') \<and>
    appends small_bufs two_blocks (huff_bytes [0x61, 0x0a]) rv b' m' \<and>
    length (huff_bytes [0x61, 0x0a]) = nghttp2_hd_huff_encode_count [0x61, 0x0a]"
  by (rule huff_encode_writes) (simp_all add: small_bufs_def bufs_wf_def bufs_roomy_def buf_wf_def nghttp2_buf_cap_def buf_store_def)

text \<open>
  C8. The Huffman decoder accepts exactly the codes of strings with their padding and returns the string;
  every other input is NGHTTP2_ERR_HEADER_COMP, and nothing is written outside two bytes of room for a byte
  of input.
\<close>

theorem huff_decode_exact:
  assumes "buf_wf buf" "2 * length bs \<le> nghttp2_buf_avail buf" "length bs < 2 ^ 63"
  shows "\<exists>rv ctx buf' out. nghttp2_hd_huff_decode nghttp2_hd_huff_decode_context_init buf bs True = Inr (rv, ctx, buf') \<and>
    buf_data buf' = buf_data buf @ out \<and>
    (if rv = NGHTTP2_ERR_HEADER_COMP then \<forall>src. bs \<noteq> huff_bytes src else rv = int (length bs) \<and> bs = huff_bytes out)"
proof -
  from huff_decode_whole [OF assms(1,2)] obtain ctx buf' out where
    r: "huff_decode_loop nghttp2_hd_huff_decode_context_init bs buf = Inr (ctx, buf')" "buf_data buf' = buf_data buf @ out"
    "ctx AND NGHTTP2_HUFF_ACCEPTED \<noteq> 0 \<longleftrightarrow> bs = huff_bytes out" "\<And>src. bs = huff_bytes src \<Longrightarrow> out = src" by metis
  show ?thesis
  proof (cases "ctx AND NGHTTP2_HUFF_ACCEPTED = 0")
    case True
    then have "\<forall>src. bs \<noteq> huff_bytes src" using r(3,4) by blast
    with True r show ?thesis by (simp add: nghttp2_hd_huff_decode_def)
  next
    case False
    then have "bs = huff_bytes out" using r(3) by blast
    then show ?thesis using False r(1,2) assms(3)
      by (intro exI [of _ "int (length bs)"] exI [of _ ctx] exI [of _ buf'] exI [of _ out])
         (simp add: nghttp2_hd_huff_decode_def ssize_t_of_def NGHTTP2_ERR_HEADER_COMP_def)
  qed
qed

text \<open>
  C9. A string that nghttp2_hd_huff_encode has written to a chain of buffers takes the length that was
  counted and is decoded from the bytes that were added.
\<close>

theorem huff_roundtrip:
  assumes "bufs_wf b" "bufs_roomy b" "nghttp2_hd_huff_encode b src m = Inr (0, b', m')" "length src < 2 ^ 58"
    "buf_wf buf" "2 * nghttp2_hd_huff_encode_count src \<le> nghttp2_buf_avail buf"
  shows "\<exists>coded ctx buf'. bufs_content b' = bufs_content b @ coded \<and> length coded = nghttp2_hd_huff_encode_count src \<and>
    nghttp2_hd_huff_decode nghttp2_hd_huff_decode_context_init buf coded True = Inr (ssize_t_of (length coded), ctx, buf') \<and>
    buf_data buf' = buf_data buf @ src"
proof -
  let ?c = "huff_bytes src"
  have c: "bufs_content b' = bufs_content b @ ?c"
    using huff_encode_ok [OF assms(1,2), of src m] assms(3) by (auto simp: appends_def)
  have len: "length ?c = nghttp2_hd_huff_encode_count src" using encode_count [OF assms(4)] by simp
  from huff_decode_whole [OF assms(5), of ?c] assms(6) len obtain ctx buf' out where
    r: "huff_decode_loop nghttp2_hd_huff_decode_context_init ?c buf = Inr (ctx, buf')" "buf_data buf' = buf_data buf @ out"
    "ctx AND NGHTTP2_HUFF_ACCEPTED \<noteq> 0 \<longleftrightarrow> ?c = huff_bytes out" "\<And>src'. ?c = huff_bytes src' \<Longrightarrow> out = src'" by metis
  from r(4) [of src] have out: "out = src" by simp
  then have acc: "ctx AND NGHTTP2_HUFF_ACCEPTED \<noteq> 0" using r(3) by simp
  show ?thesis
    by (intro exI [of _ ?c] exI [of _ ctx] exI [of _ buf'])
      (use c len r(1,2) out acc in \<open>simp add: nghttp2_hd_huff_decode_def\<close>)
qed

definition empty_buf :: nghttp2_buf where
  "empty_buf = \<lparr>buf_block = Some [0, 0, 0, 0, 0, 0, 0, 0], buf_pos = 0, buf_last = 0, buf_mark = 0\<rparr>"

lemma empty_buf_facts: "buf_wf empty_buf" "nghttp2_buf_avail empty_buf = 8" "buf_data empty_buf = []"
  by (simp_all add: empty_buf_def buf_wf_def nghttp2_buf_cap_def buf_store_def nghttp2_buf_avail_def size_sub_def buf_data_def)

theorem huff_decode_exact_witness:
  "\<exists>rv ctx buf' out. nghttp2_hd_huff_decode nghttp2_hd_huff_decode_context_init empty_buf [0x1f, 0xff] True = Inr (rv, ctx, buf') \<and>
    buf_data buf' = buf_data empty_buf @ out \<and>
    (if rv = NGHTTP2_ERR_HEADER_COMP then \<forall>src. [0x1f, 0xff] \<noteq> huff_bytes src
     else rv = int (length [0x1f :: byte, 0xff]) \<and> [0x1f, 0xff] = huff_bytes out)"
  by (rule huff_decode_exact) (simp_all add: empty_buf_facts del: buf_avail_wf)

text \<open>A chunk with room behind its offset, and the letter a.\<close>

definition room_bufs :: nghttp2_bufs where
  "room_bufs = \<lparr>bufs_head = [\<lparr>buf_block = Some [0, 0, 0, 0, 0], buf_pos = 1, buf_last = 1, buf_mark = 0\<rparr>],
     bufs_cur = 0, bufs_chunk_length = 3, bufs_max_chunk = 1, bufs_chunk_used = 1, bufs_chunk_keep = 1,
     bufs_offset = 1\<rparr>"

lemma sym_a: "huff_sym_table ! 97 = (5, 0x18000000)"
  by (simp add: huff_sym_table_def)

lemma room_bufs_run: "\<exists>b m. nghttp2_hd_huff_encode room_bufs [0x61] two_blocks = Inr (0, b, m)"
  by (simp add: nghttp2_hd_huff_encode_def room_bufs_def bufs_cur_buf_def sym_a huff_put_bytes.simps Let_def
      nghttp2_bufs_addb_def bufs_put1_def bufs_ensure_addb_def rd_def buf_poke_def wr_def nghttp2_buf_avail_def
      nghttp2_buf_cap_def buf_store_def size_sub_def)

theorem huff_roundtrip_witness:
  "\<exists>b' m' coded ctx buf'. nghttp2_hd_huff_encode room_bufs [0x61] two_blocks = Inr (0, b', m') \<and>
    bufs_content b' = bufs_content room_bufs @ coded \<and>
    nghttp2_hd_huff_decode nghttp2_hd_huff_decode_context_init empty_buf coded True = Inr (ssize_t_of (length coded), ctx, buf') \<and>
    buf_data buf' = [0x61]"
proof -
  obtain b' m' where run: "nghttp2_hd_huff_encode room_bufs [0x61] two_blocks = Inr (0, b', m')" using room_bufs_run by blast
  have "bufs_wf room_bufs" "bufs_roomy room_bufs" "length [0x61 :: byte] < 2 ^ 58"
    by (simp_all add: room_bufs_def bufs_wf_def bufs_roomy_def buf_wf_def nghttp2_buf_cap_def buf_store_def)
  moreover have "2 * nghttp2_hd_huff_encode_count [0x61] \<le> nghttp2_buf_avail empty_buf"
    by (simp add: empty_buf_facts nghttp2_hd_huff_encode_count_def sym_a del: buf_avail_wf)
  ultimately show ?thesis
    using huff_roundtrip [OF _ _ run _ empty_buf_facts(1)] run empty_buf_facts(3) by fastforce
qed

end
