(* ===== verification/Nghttp2_Rcbuf.thy ===== *)
theory Nghttp2_Rcbuf
  imports Nghttp2_Buf "HOL-Library.Multiset"
begin

text \<open>
  Strings with a reference count (nghttp2_rcbuf.c), on an explicit heap. Every holder of a
  pointer is counted; the invariant says that the count of a string is the number of its holders.
\<close>

section \<open>Heap and operations\<close>

text \<open>
  A string is a block of memory with a length and a count. The strings of the static table are
  constants of the program: a pointer to one of them is the string itself, and its count is -1.
\<close>

record nghttp2_rcbuf =
  rc_base :: bytes
  rc_len :: nat
  rc_ref :: int

datatype rcptr = Rc nat | Rc_Static bytes

text \<open>
  The heap: the allocator, the strings that are alive, the addresses of the other blocks that are
  alive, and the next address.
\<close>

record rc_heap =
  hp_mem :: memory
  hp_bufs :: "nat \<Rightarrow> nghttp2_rcbuf option"
  hp_blocks :: "nat set"
  hp_next :: nat

definition SIZEOF_RCBUF :: nat where
  "SIZEOF_RCBUF = 40"

definition rc_get :: "rc_heap \<Rightarrow> rcptr \<Rightarrow> nghttp2_rcbuf res" where
  "rc_get h p =
     (case p of
        Rc_Static s \<Rightarrow> Inr \<lparr>rc_base = s, rc_len = length s, rc_ref = -1\<rparr>
      | Rc a \<Rightarrow> (case hp_bufs h a of None \<Rightarrow> Inl Out_Of_Bounds | Some r \<Rightarrow> Inr r))"

definition rc_put :: "rc_heap \<Rightarrow> rcptr \<Rightarrow> nghttp2_rcbuf \<Rightarrow> rc_heap" where
  "rc_put h p r = (case p of Rc_Static s \<Rightarrow> h | Rc a \<Rightarrow> h\<lparr>hp_bufs := (hp_bufs h)(a \<mapsto> r)\<rparr>)"

definition nghttp2_rcbuf_new :: "nat \<Rightarrow> rc_heap \<Rightarrow> int \<times> rcptr option \<times> rc_heap" where
  "nghttp2_rcbuf_new sz h =
     (case nghttp2_mem_malloc (SIZEOF_RCBUF + sz) (hp_mem h) of
        (None, m) \<Rightarrow> (NGHTTP2_ERR_NOMEM, None, h\<lparr>hp_mem := m\<rparr>)
      | (Some p, m) \<Rightarrow>
          (0, Some (Rc (hp_next h)),
           h\<lparr>hp_mem := m, hp_bufs := (hp_bufs h)(hp_next h \<mapsto> \<lparr>rc_base = drop SIZEOF_RCBUF p, rc_len = sz, rc_ref = 1\<rparr>),
             hp_next := hp_next h + 1\<rparr>))"

definition nghttp2_rcbuf_new2 :: "bytes \<Rightarrow> rc_heap \<Rightarrow> (int \<times> rcptr option \<times> rc_heap) res" where
  "nghttp2_rcbuf_new2 src h =
     (case nghttp2_rcbuf_new (length src + 1) h of
        (rv, None, h1) \<Rightarrow> Inr (rv, None, h1)
      | (rv, Some p, h1) \<Rightarrow>
          res_bind (rc_get h1 p) (\<lambda>r.
          res_bind (nghttp2_cpymem (rc_base r) 0 src) (\<lambda>(s, l).
          res_bind (wr s l [0]) (\<lambda>s1.
          Inr (0, Some p, rc_put h1 p (r\<lparr>rc_len := length src, rc_base := s1\<rparr>))))))"

definition nghttp2_rcbuf_del :: "rcptr \<Rightarrow> rc_heap \<Rightarrow> rc_heap res" where
  "nghttp2_rcbuf_del p h =
     (case p of
        Rc_Static s \<Rightarrow> Inl Bad_Free
      | Rc a \<Rightarrow>
          if hp_bufs h a = None then Inl Bad_Free
          else Inr (h\<lparr>hp_mem := nghttp2_mem_free (Some []) (hp_mem h), hp_bufs := (hp_bufs h)(a := None)\<rparr>))"

definition nghttp2_rcbuf_incref :: "rcptr \<Rightarrow> rc_heap \<Rightarrow> rc_heap res" where
  "nghttp2_rcbuf_incref p h =
     res_bind (rc_get h p) (\<lambda>r.
     if rc_ref r = -1 then Inr h else Inr (rc_put h p (r\<lparr>rc_ref := rc_ref r + 1\<rparr>)))"

definition nghttp2_rcbuf_decref :: "rcptr option \<Rightarrow> rc_heap \<Rightarrow> rc_heap res" where
  "nghttp2_rcbuf_decref q h =
     (case q of
        None \<Rightarrow> Inr h
      | Some p \<Rightarrow>
          res_bind (rc_get h p) (\<lambda>r.
          if rc_ref r = -1 then Inr h
          else
            res_bind (if 0 < rc_ref r then Inr () else Inl Assert_Failed) (\<lambda>_.
            (let h1 = rc_put h p (r\<lparr>rc_ref := rc_ref r - 1\<rparr>)
             in if rc_ref r - 1 = 0 then nghttp2_rcbuf_del p h1 else Inr h1))))"

definition nghttp2_rcbuf_get_buf :: "rcptr \<Rightarrow> rc_heap \<Rightarrow> bytes res" where
  "nghttp2_rcbuf_get_buf p h = res_bind (rc_get h p) (\<lambda>r. rd (rc_base r) 0 (rc_len r))"

definition nghttp2_rcbuf_is_static :: "rcptr \<Rightarrow> rc_heap \<Rightarrow> bool res" where
  "nghttp2_rcbuf_is_static p h = res_bind (rc_get h p) (\<lambda>r. Inr (rc_ref r = -1))"

text \<open>
  The other structures of the same allocator (entries, rings, deflaters) are known by their
  addresses here; what is in them is data of the model. A block can be freed when it is alive.
\<close>

definition hp_alloc :: "nat \<Rightarrow> rc_heap \<Rightarrow> nat option \<times> rc_heap" where
  "hp_alloc sz h =
     (case nghttp2_mem_malloc sz (hp_mem h) of
        (None, m) \<Rightarrow> (None, h\<lparr>hp_mem := m\<rparr>)
      | (Some p, m) \<Rightarrow>
          (Some (hp_next h), h\<lparr>hp_mem := m, hp_blocks := insert (hp_next h) (hp_blocks h), hp_next := hp_next h + 1\<rparr>))"

definition hp_free :: "nat \<Rightarrow> rc_heap \<Rightarrow> rc_heap res" where
  "hp_free a h =
     (if a \<in> hp_blocks h
      then Inr (h\<lparr>hp_mem := nghttp2_mem_free (Some []) (hp_mem h), hp_blocks := hp_blocks h - {a}\<rparr>)
      else Inl Bad_Free)"

section \<open>Holders\<close>

text \<open>What the parts of the program own: a reference to a string, or a block.\<close>

datatype owned = Held rcptr | Block nat

text \<open>
  The invariant for a multiset of owned things: a string is alive iff it is held, and is counted
  right; every other block that is alive has exactly one owner. So nothing is leaked, and nothing is
  freed while it is in use or twice.
\<close>

definition string_ok :: "rc_heap \<Rightarrow> owned multiset \<Rightarrow> nat \<Rightarrow> bool" where
  "string_ok h R a \<longleftrightarrow>
     (case hp_bufs h a of
        None \<Rightarrow> count R (Held (Rc a)) = 0
      | Some r \<Rightarrow> rc_ref r = int (count R (Held (Rc a))) \<and> 0 < count R (Held (Rc a)) \<and> rc_len r \<le> length (rc_base r) \<and> a < hp_next h)"

definition block_ok :: "rc_heap \<Rightarrow> owned multiset \<Rightarrow> nat \<Rightarrow> bool" where
  "block_ok h R a \<longleftrightarrow> count R (Block a) = (if a \<in> hp_blocks h then 1 else 0) \<and> (a \<in> hp_blocks h \<longrightarrow> a < hp_next h)"

definition rc_ok :: "rc_heap \<Rightarrow> owned multiset \<Rightarrow> bool" where
  "rc_ok h R \<longleftrightarrow> (\<forall>a. string_ok h R a \<and> block_ok h R a)"

lemma rc_okI: "(\<And>a. string_ok h R a) \<Longrightarrow> (\<And>a. block_ok h R a) \<Longrightarrow> rc_ok h R"
  by (simp add: rc_ok_def)

lemma rc_okD: "rc_ok h R \<Longrightarrow> string_ok h R a" "rc_ok h R \<Longrightarrow> block_ok h R a"
  by (simp_all add: rc_ok_def)

text \<open>References do not matter to the blocks.\<close>

lemma block_ok_held [simp]:
  "block_ok h (add_mset (Held p) R) a = block_ok h R a" "block_ok (h\<lparr>hp_mem := m\<rparr>) R a = block_ok h R a"
  "block_ok (h\<lparr>hp_bufs := f\<rparr>) R a = block_ok h R a"
  by (simp_all add: block_ok_def)

lemma block_ok_put [simp]: "block_ok (rc_put h p r) R a = block_ok h R a"
  by (cases p) (simp_all add: rc_put_def)

lemma block_ok_next: "block_ok h R a \<Longrightarrow> hp_next h \<le> n \<Longrightarrow> block_ok (h\<lparr>hp_next := n\<rparr>) R a"
  by (auto simp: block_ok_def)

text \<open>The string behind a pointer.\<close>

definition rc_str :: "rc_heap \<Rightarrow> rcptr \<Rightarrow> bytes" where
  "rc_str h p =
     (case p of Rc_Static s \<Rightarrow> s | Rc a \<Rightarrow> (case hp_bufs h a of None \<Rightarrow> [] | Some r \<Rightarrow> take (rc_len r) (rc_base r)))"

definition rc_same :: "rc_heap \<Rightarrow> rc_heap \<Rightarrow> owned multiset \<Rightarrow> bool" where
  "rc_same h h' R \<longleftrightarrow> (\<forall>p. Held p \<in># R \<longrightarrow> rc_str h' p = rc_str h p)"

lemma rc_same_refl [simp]: "rc_same h h R"
  by (simp add: rc_same_def)

lemma rc_same_trans: "rc_same h h1 R \<Longrightarrow> rc_same h1 h2 R' \<Longrightarrow> R \<subseteq># R' \<Longrightarrow> rc_same h h2 R"
  unfolding rc_same_def by (metis mset_subset_eqD)

lemma rc_same_mono: "rc_same h h' R' \<Longrightarrow> R \<subseteq># R' \<Longrightarrow> rc_same h h' R"
  unfolding rc_same_def by (metis mset_subset_eqD)

lemma rc_same_str: "rc_same h h' R \<Longrightarrow> Held p \<in># R \<Longrightarrow> rc_str h' p = rc_str h p"
  by (simp add: rc_same_def)

lemma rc_str_static [simp]: "rc_str h (Rc_Static s) = s"
  by (simp add: rc_str_def)

lemma rc_held:
  assumes "rc_ok h R" "Held (Rc a) \<in># R"
  obtains r where "hp_bufs h a = Some r" "rc_ref r = int (count R (Held (Rc a)))" "rc_len r \<le> length (rc_base r)" "a < hp_next h"
proof -
  have "0 < count R (Held (Rc a))" using assms(2) by simp
  with rc_okD(1) [OF assms(1), of a] that show ?thesis by (cases "hp_bufs h a") (auto simp: string_ok_def)
qed

lemma rc_get_buf: "rc_ok h R \<Longrightarrow> Held p \<in># R \<Longrightarrow> nghttp2_rcbuf_get_buf p h = Inr (rc_str h p)"
  by (cases p) (auto simp: nghttp2_rcbuf_get_buf_def rc_get_def rc_str_def rd_def elim!: rc_held)

lemma rc_ok_mem [simp]: "rc_ok (h\<lparr>hp_mem := m\<rparr>) R = rc_ok h R" "rc_str (h\<lparr>hp_mem := m\<rparr>) = rc_str h"
  by (auto simp: rc_ok_def string_ok_def rc_str_def fun_eq_iff split: option.splits rcptr.splits)

lemma rc_same_mem [simp]: "rc_same h (h'\<lparr>hp_mem := m\<rparr>) R = rc_same h h' R" "rc_same (h\<lparr>hp_mem := m\<rparr>) h' R = rc_same h h' R"
  by (simp_all add: rc_same_def)

text \<open>A holder that gives up a static string changes nothing.\<close>

lemma rc_ok_static [simp]: "rc_ok h (add_mset (Held (Rc_Static s)) R) = rc_ok h R"
  by (simp add: rc_ok_def string_ok_def split: option.splits)

lemma rc_ok_fresh: "rc_ok h R \<Longrightarrow> count R (Held (Rc (hp_next h))) = 0 \<and> hp_bufs h (hp_next h) = None"
  using rc_okD(1) [of h R "hp_next h"] by (auto simp: string_ok_def split: option.splits)

text \<open>New strings, before and after their contents are there.\<close>

lemma rc_new:
  assumes "rc_ok h R"
  obtains (none) h' where "nghttp2_rcbuf_new sz h = (NGHTTP2_ERR_NOMEM, None, h')" "rc_ok h' R" "rc_same h h' R"
  | (some) p h' r where "nghttp2_rcbuf_new sz h = (0, Some p, h')" "rc_ok h' (add_mset (Held p) R)" "rc_same h h' R" "Held p \<notin># R"
      "rc_get h' p = Inr r" "length (rc_base r) = sz" "rc_len r = sz" "rc_ref r = 1"
proof (cases "nghttp2_mem_malloc (SIZEOF_RCBUF + sz) (hp_mem h)")
  case (Pair b m)
  show ?thesis
  proof (cases b)
    case None
    show ?thesis by (rule none [of "h\<lparr>hp_mem := m\<rparr>"]) (use None Pair assms in \<open>auto simp: nghttp2_rcbuf_new_def\<close>)
  next
    case (Some blk)
    have len: "length blk = SIZEOF_RCBUF + sz"
      using Pair Some by (auto simp: nghttp2_mem_malloc_def split: list.splits option.splits)
    note fresh = rc_ok_fresh [OF assms]
    let ?r = "\<lparr>rc_base = drop SIZEOF_RCBUF blk, rc_len = sz, rc_ref = 1\<rparr>"
    let ?h = "h\<lparr>hp_mem := m, hp_bufs := (hp_bufs h)(hp_next h \<mapsto> ?r), hp_next := hp_next h + 1\<rparr>"
    have "rc_ok ?h (add_mset (Held (Rc (hp_next h))) R)"
    proof (rule rc_okI)
      fix a
      show "string_ok ?h (add_mset (Held (Rc (hp_next h))) R) a"
        using rc_okD(1) [OF assms, of a] fresh len
        by (cases "a = hp_next h") (auto simp: string_ok_def split: option.splits)
      show "block_ok ?h (add_mset (Held (Rc (hp_next h))) R) a"
        using rc_okD(2) [OF assms, of a] by (auto simp: block_ok_def)
    qed
    moreover have "rc_same h ?h R"
      unfolding rc_same_def using fresh by (auto simp: rc_str_def count_eq_zero_iff split: rcptr.splits)
    moreover have "Held (Rc (hp_next h)) \<notin># R" using fresh by (simp add: count_eq_zero_iff)
    ultimately show ?thesis
      by (intro some [of "Rc (hp_next h)" ?h ?r])
        (use Pair Some len in \<open>auto simp: nghttp2_rcbuf_new_def rc_get_def\<close>)
  qed
qed

text \<open>Writing to a string does not change who holds it, nor the other strings.\<close>

lemma rc_put_ok:
  assumes "rc_ok h R" "rc_get h p = Inr r" "Held p \<in># R" "rc_ref r' = rc_ref r" "rc_len r' \<le> length (rc_base r')" "rc_ref r \<noteq> -1"
  shows "rc_ok (rc_put h p r') R" "q \<noteq> p \<Longrightarrow> rc_str (rc_put h p r') q = rc_str h q"
    "rc_get (rc_put h p r') p = Inr r'" "rc_str (rc_put h p r') p = take (rc_len r') (rc_base r')"
proof -
  obtain a where p: "p = Rc a" using assms(2,6) by (cases p) (auto simp: rc_get_def)
  have a: "hp_bufs h a = Some r" using assms(2) p by (auto simp: rc_get_def split: option.splits)
  show "rc_ok (rc_put h p r') R"
  proof (rule rc_okI)
    fix b
    show "string_ok (rc_put h p r') R b"
      using rc_okD(1) [OF assms(1), of b] assms(4,5) a p
      by (cases "b = a") (auto simp: rc_put_def string_ok_def split: option.splits)
    show "block_ok (rc_put h p r') R b" using rc_okD(2) [OF assms(1), of b] by simp
  qed
  show "q \<noteq> p \<Longrightarrow> rc_str (rc_put h p r') q = rc_str h q"
    using p by (auto simp: rc_put_def rc_str_def split: rcptr.splits)
  show "rc_get (rc_put h p r') p = Inr r'" "rc_str (rc_put h p r') p = take (rc_len r') (rc_base r')"
    using p by (simp_all add: rc_put_def rc_get_def rc_str_def)
qed

lemma rc_new2:
  assumes "rc_ok h R"
  obtains (none) h' where "nghttp2_rcbuf_new2 src h = Inr (NGHTTP2_ERR_NOMEM, None, h')" "rc_ok h' R" "rc_same h h' R"
  | (some) p h' where "nghttp2_rcbuf_new2 src h = Inr (0, Some p, h')" "rc_ok h' (add_mset (Held p) R)" "rc_same h h' R" "Held p \<notin># R"
      "rc_str h' p = src"
proof (cases rule: rc_new [OF assms, of "length src + 1"])
  case (1 h1)
  show ?thesis by (rule none) (use 1 in \<open>auto simp: nghttp2_rcbuf_new2_def\<close>)
next
  case (2 p h1 r)
  have cpy: "nghttp2_cpymem (rc_base r) 0 src = Inr (src @ drop (length src) (rc_base r), length src)"
    using 2 by (auto simp: nghttp2_cpymem_def wr_def)
  have "wr (src @ drop (length src) (rc_base r)) (length src) [0] =
      Inr (src @ 0 # drop (Suc (length src)) (rc_base r))" (is "_ = Inr ?s")
    using 2 by (simp add: wr_def)
  then have eq: "nghttp2_rcbuf_new2 src h = Inr (0, Some p, rc_put h1 p (r\<lparr>rc_len := length src, rc_base := ?s\<rparr>))"
    using 2 cpy by (simp add: nghttp2_rcbuf_new2_def)
  have "Held p \<in># add_mset (Held p) R" "rc_ref (r\<lparr>rc_len := length src, rc_base := ?s\<rparr>) = rc_ref r"
    "rc_len (r\<lparr>rc_len := length src, rc_base := ?s\<rparr>) \<le> length (rc_base (r\<lparr>rc_len := length src, rc_base := ?s\<rparr>))" "rc_ref r \<noteq> -1"
    using 2 by simp_all
  note put = rc_put_ok [OF 2(2) 2(5) this]
  show ?thesis
  proof (rule some [OF eq put(1)])
    show "rc_same h (rc_put h1 p (r\<lparr>rc_len := length src, rc_base := ?s\<rparr>)) R"
      unfolding rc_same_def using put(2) 2(3,4) by (metis rc_same_str)
  qed (use put(4) 2(4) in simp_all)
qed

lemma rc_incref:
  assumes "rc_ok h R" "Held p \<in># R"
  obtains h' where "nghttp2_rcbuf_incref p h = Inr h'" "rc_ok h' (add_mset (Held p) R)" "rc_str h' = rc_str h"
proof (cases p)
  case (Rc a)
  from assms Rc obtain r where r: "hp_bufs h a = Some r" "rc_ref r = int (count R (Held (Rc a)))" "rc_len r \<le> length (rc_base r)" "a < hp_next h"
    by (metis rc_held)
  let ?h = "h\<lparr>hp_bufs := (hp_bufs h)(a \<mapsto> r\<lparr>rc_ref := rc_ref r + 1\<rparr>)\<rparr>"
  have "rc_ok ?h (add_mset (Held p) R)"
  proof (rule rc_okI)
    fix b
    show "string_ok ?h (add_mset (Held p) R) b"
      using rc_okD(1) [OF assms(1), of b] r Rc by (cases "b = a") (auto simp: string_ok_def split: option.splits)
    show "block_ok ?h (add_mset (Held p) R) b" using rc_okD(2) [OF assms(1), of b] by simp
  qed
  moreover have "rc_str ?h = rc_str h" using r by (auto simp: rc_str_def fun_eq_iff split: rcptr.splits)
  ultimately show ?thesis
    by (intro that [of ?h]) (use r Rc in \<open>auto simp: nghttp2_rcbuf_incref_def rc_get_def rc_put_def\<close>)
next
  case (Rc_Static s)
  show ?thesis by (rule that [of h]) (use assms Rc_Static in \<open>auto simp: nghttp2_rcbuf_incref_def rc_get_def\<close>)
qed

lemma rc_decref:
  assumes "rc_ok h (add_mset (Held p) R)"
  obtains h' where "nghttp2_rcbuf_decref (Some p) h = Inr h'" "rc_ok h' R" "rc_same h h' R"
proof (cases p)
  case (Rc a)
  from assms Rc obtain r where r: "hp_bufs h a = Some r" "rc_ref r = int (count (add_mset (Held p) R) (Held (Rc a)))"
      "rc_len r \<le> length (rc_base r)" "a < hp_next h"
    using rc_held [of h "add_mset (Held p) R" a] by auto
  then have ref: "rc_ref r = int (count R (Held (Rc a))) + 1" using Rc by simp
  let ?h = "if count R (Held (Rc a)) = 0
    then h\<lparr>hp_mem := nghttp2_mem_free (Some []) (hp_mem h), hp_bufs := (hp_bufs h)(a := None)\<rparr>
    else h\<lparr>hp_bufs := (hp_bufs h)(a \<mapsto> r\<lparr>rc_ref := rc_ref r - 1\<rparr>)\<rparr>"
  have "rc_ok ?h R"
  proof (rule rc_okI)
    fix b
    show "string_ok ?h R b"
      using rc_okD(1) [OF assms(1), of b] r ref Rc by (cases "b = a") (auto simp: string_ok_def split: option.splits)
    show "block_ok ?h R b" using rc_okD(2) [OF assms(1), of b] by simp
  qed
  moreover have "rc_same h ?h R"
    using r by (cases "count R (Held (Rc a)) = 0") (auto simp: rc_same_def rc_str_def count_eq_zero_iff split: rcptr.splits)
  moreover have "nghttp2_rcbuf_decref (Some p) h = Inr ?h"
    using r(1) ref Rc by (cases "count R (Held (Rc a)) = 0") (auto simp: count_eq_zero_iff nghttp2_rcbuf_decref_def rc_get_def rc_put_def nghttp2_rcbuf_del_def Let_def)
  ultimately show ?thesis using that by blast
next
  case (Rc_Static s)
  show ?thesis by (rule that [of h]) (use assms Rc_Static in \<open>auto simp: nghttp2_rcbuf_decref_def rc_get_def\<close>)
qed

lemma rc_decref_None [simp]: "nghttp2_rcbuf_decref None h = Inr h"
  by (simp add: nghttp2_rcbuf_decref_def)

section \<open>Blocks\<close>

text \<open>A new block is owned by the caller; an owned block can be freed once.\<close>

lemma hp_alloc_ok:
  assumes "rc_ok h R"
  obtains (none) h' where "hp_alloc n h = (None, h')" "rc_ok h' R" "rc_str h' = rc_str h" "hp_next h' = hp_next h"
  | (some) a h' where "hp_alloc n h = (Some a, h')" "rc_ok h' (add_mset (Block a) R)" "rc_str h' = rc_str h"
      "a = hp_next h" "hp_next h' = hp_next h + 1"
proof (cases "nghttp2_mem_malloc n (hp_mem h)")
  case (Pair p m)
  show ?thesis
  proof (cases p)
    case None
    then show ?thesis using Pair assms by (intro none [of "h\<lparr>hp_mem := m\<rparr>"]) (simp_all add: hp_alloc_def)
  next
    case (Some q)
    let ?h = "h\<lparr>hp_mem := m, hp_blocks := insert (hp_next h) (hp_blocks h), hp_next := hp_next h + 1\<rparr>"
    have "rc_ok ?h (add_mset (Block (hp_next h)) R)"
    proof (rule rc_okI)
      fix a
      show "string_ok ?h (add_mset (Block (hp_next h)) R) a"
        using rc_okD(1) [OF assms, of a] by (auto simp: string_ok_def split: option.splits)
      show "block_ok ?h (add_mset (Block (hp_next h)) R) a"
        using rc_okD(2) [OF assms, of a] by (auto simp: block_ok_def)
    qed
    then show ?thesis using Pair Some
      by (intro some [of "hp_next h" ?h]) (auto simp: hp_alloc_def rc_str_def fun_eq_iff split: rcptr.splits)
  qed
qed

lemma hp_free_ok:
  assumes "rc_ok h (add_mset (Block a) R)"
  obtains h' where "hp_free a h = Inr h'" "rc_ok h' R" "rc_str h' = rc_str h" "hp_next h' = hp_next h"
proof -
  have a: "a \<in> hp_blocks h" using rc_okD(2) [OF assms, of a] by (auto simp: block_ok_def split: if_splits)
  let ?h = "h\<lparr>hp_mem := nghttp2_mem_free (Some []) (hp_mem h), hp_blocks := hp_blocks h - {a}\<rparr>"
  have "rc_ok ?h R"
  proof (rule rc_okI)
    fix b
    show "string_ok ?h R b" using rc_okD(1) [OF assms, of b] by (auto simp: string_ok_def split: option.splits)
    show "block_ok ?h R b" using rc_okD(2) [OF assms, of b] a by (auto simp: block_ok_def split: if_splits)
  qed
  then show ?thesis using a
    by (intro that [of ?h]) (auto simp: hp_free_def rc_str_def fun_eq_iff split: rcptr.splits)
qed

end
