(* ===== verification/Nghttp2_Hd_Static.thy ===== *)
theory Nghttp2_Hd_Static
  imports Nghttp2_Buf
begin

text \<open>
  The tokens of header names, the static table of HPACK and the search for the token of a name
  (nghttp2_hd.h, nghttp2_hd.c). The names of the tokens of pseudo header fields, which have two
  underscores in the source, have \<open>C_\<close> for the second one.
\<close>

section \<open>Tokens\<close>

definition NGHTTP2_TOKEN_C_AUTHORITY :: int where
  "NGHTTP2_TOKEN_C_AUTHORITY = 0"

definition NGHTTP2_TOKEN_C_METHOD :: int where
  "NGHTTP2_TOKEN_C_METHOD = 1"

definition NGHTTP2_TOKEN_C_PATH :: int where
  "NGHTTP2_TOKEN_C_PATH = 3"

definition NGHTTP2_TOKEN_C_SCHEME :: int where
  "NGHTTP2_TOKEN_C_SCHEME = 5"

definition NGHTTP2_TOKEN_C_STATUS :: int where
  "NGHTTP2_TOKEN_C_STATUS = 7"

definition NGHTTP2_TOKEN_ACCEPT_CHARSET :: int where
  "NGHTTP2_TOKEN_ACCEPT_CHARSET = 14"

definition NGHTTP2_TOKEN_ACCEPT_ENCODING :: int where
  "NGHTTP2_TOKEN_ACCEPT_ENCODING = 15"

definition NGHTTP2_TOKEN_ACCEPT_LANGUAGE :: int where
  "NGHTTP2_TOKEN_ACCEPT_LANGUAGE = 16"

definition NGHTTP2_TOKEN_ACCEPT_RANGES :: int where
  "NGHTTP2_TOKEN_ACCEPT_RANGES = 17"

definition NGHTTP2_TOKEN_ACCEPT :: int where
  "NGHTTP2_TOKEN_ACCEPT = 18"

definition NGHTTP2_TOKEN_ACCESS_CONTROL_ALLOW_ORIGIN :: int where
  "NGHTTP2_TOKEN_ACCESS_CONTROL_ALLOW_ORIGIN = 19"

definition NGHTTP2_TOKEN_AGE :: int where
  "NGHTTP2_TOKEN_AGE = 20"

definition NGHTTP2_TOKEN_ALLOW :: int where
  "NGHTTP2_TOKEN_ALLOW = 21"

definition NGHTTP2_TOKEN_AUTHORIZATION :: int where
  "NGHTTP2_TOKEN_AUTHORIZATION = 22"

definition NGHTTP2_TOKEN_CACHE_CONTROL :: int where
  "NGHTTP2_TOKEN_CACHE_CONTROL = 23"

definition NGHTTP2_TOKEN_CONTENT_DISPOSITION :: int where
  "NGHTTP2_TOKEN_CONTENT_DISPOSITION = 24"

definition NGHTTP2_TOKEN_CONTENT_ENCODING :: int where
  "NGHTTP2_TOKEN_CONTENT_ENCODING = 25"

definition NGHTTP2_TOKEN_CONTENT_LANGUAGE :: int where
  "NGHTTP2_TOKEN_CONTENT_LANGUAGE = 26"

definition NGHTTP2_TOKEN_CONTENT_LENGTH :: int where
  "NGHTTP2_TOKEN_CONTENT_LENGTH = 27"

definition NGHTTP2_TOKEN_CONTENT_LOCATION :: int where
  "NGHTTP2_TOKEN_CONTENT_LOCATION = 28"

definition NGHTTP2_TOKEN_CONTENT_RANGE :: int where
  "NGHTTP2_TOKEN_CONTENT_RANGE = 29"

definition NGHTTP2_TOKEN_CONTENT_TYPE :: int where
  "NGHTTP2_TOKEN_CONTENT_TYPE = 30"

definition NGHTTP2_TOKEN_COOKIE :: int where
  "NGHTTP2_TOKEN_COOKIE = 31"

definition NGHTTP2_TOKEN_DATE :: int where
  "NGHTTP2_TOKEN_DATE = 32"

definition NGHTTP2_TOKEN_ETAG :: int where
  "NGHTTP2_TOKEN_ETAG = 33"

definition NGHTTP2_TOKEN_EXPECT :: int where
  "NGHTTP2_TOKEN_EXPECT = 34"

definition NGHTTP2_TOKEN_EXPIRES :: int where
  "NGHTTP2_TOKEN_EXPIRES = 35"

definition NGHTTP2_TOKEN_FROM :: int where
  "NGHTTP2_TOKEN_FROM = 36"

definition NGHTTP2_TOKEN_HOST :: int where
  "NGHTTP2_TOKEN_HOST = 37"

definition NGHTTP2_TOKEN_IF_MATCH :: int where
  "NGHTTP2_TOKEN_IF_MATCH = 38"

definition NGHTTP2_TOKEN_IF_MODIFIED_SINCE :: int where
  "NGHTTP2_TOKEN_IF_MODIFIED_SINCE = 39"

definition NGHTTP2_TOKEN_IF_NONE_MATCH :: int where
  "NGHTTP2_TOKEN_IF_NONE_MATCH = 40"

definition NGHTTP2_TOKEN_IF_RANGE :: int where
  "NGHTTP2_TOKEN_IF_RANGE = 41"

definition NGHTTP2_TOKEN_IF_UNMODIFIED_SINCE :: int where
  "NGHTTP2_TOKEN_IF_UNMODIFIED_SINCE = 42"

definition NGHTTP2_TOKEN_LAST_MODIFIED :: int where
  "NGHTTP2_TOKEN_LAST_MODIFIED = 43"

definition NGHTTP2_TOKEN_LINK :: int where
  "NGHTTP2_TOKEN_LINK = 44"

definition NGHTTP2_TOKEN_LOCATION :: int where
  "NGHTTP2_TOKEN_LOCATION = 45"

definition NGHTTP2_TOKEN_MAX_FORWARDS :: int where
  "NGHTTP2_TOKEN_MAX_FORWARDS = 46"

definition NGHTTP2_TOKEN_PROXY_AUTHENTICATE :: int where
  "NGHTTP2_TOKEN_PROXY_AUTHENTICATE = 47"

definition NGHTTP2_TOKEN_PROXY_AUTHORIZATION :: int where
  "NGHTTP2_TOKEN_PROXY_AUTHORIZATION = 48"

definition NGHTTP2_TOKEN_RANGE :: int where
  "NGHTTP2_TOKEN_RANGE = 49"

definition NGHTTP2_TOKEN_REFERER :: int where
  "NGHTTP2_TOKEN_REFERER = 50"

definition NGHTTP2_TOKEN_REFRESH :: int where
  "NGHTTP2_TOKEN_REFRESH = 51"

definition NGHTTP2_TOKEN_RETRY_AFTER :: int where
  "NGHTTP2_TOKEN_RETRY_AFTER = 52"

definition NGHTTP2_TOKEN_SERVER :: int where
  "NGHTTP2_TOKEN_SERVER = 53"

definition NGHTTP2_TOKEN_SET_COOKIE :: int where
  "NGHTTP2_TOKEN_SET_COOKIE = 54"

definition NGHTTP2_TOKEN_STRICT_TRANSPORT_SECURITY :: int where
  "NGHTTP2_TOKEN_STRICT_TRANSPORT_SECURITY = 55"

definition NGHTTP2_TOKEN_TRANSFER_ENCODING :: int where
  "NGHTTP2_TOKEN_TRANSFER_ENCODING = 56"

definition NGHTTP2_TOKEN_USER_AGENT :: int where
  "NGHTTP2_TOKEN_USER_AGENT = 57"

definition NGHTTP2_TOKEN_VARY :: int where
  "NGHTTP2_TOKEN_VARY = 58"

definition NGHTTP2_TOKEN_VIA :: int where
  "NGHTTP2_TOKEN_VIA = 59"

definition NGHTTP2_TOKEN_WWW_AUTHENTICATE :: int where
  "NGHTTP2_TOKEN_WWW_AUTHENTICATE = 60"

definition NGHTTP2_TOKEN_TE :: int where
  "NGHTTP2_TOKEN_TE = 61"

definition NGHTTP2_TOKEN_CONNECTION :: int where
  "NGHTTP2_TOKEN_CONNECTION = 62"

definition NGHTTP2_TOKEN_KEEP_ALIVE :: int where
  "NGHTTP2_TOKEN_KEEP_ALIVE = 63"

definition NGHTTP2_TOKEN_PROXY_CONNECTION :: int where
  "NGHTTP2_TOKEN_PROXY_CONNECTION = 64"

definition NGHTTP2_TOKEN_UPGRADE :: int where
  "NGHTTP2_TOKEN_UPGRADE = 65"

definition NGHTTP2_TOKEN_C_PROTOCOL :: int where
  "NGHTTP2_TOKEN_C_PROTOCOL = 66"

definition NGHTTP2_TOKEN_PRIORITY :: int where
  "NGHTTP2_TOKEN_PRIORITY = 67"

lemmas token_defs =
  NGHTTP2_TOKEN_C_AUTHORITY_def NGHTTP2_TOKEN_C_METHOD_def NGHTTP2_TOKEN_C_PATH_def
  NGHTTP2_TOKEN_C_SCHEME_def NGHTTP2_TOKEN_C_STATUS_def NGHTTP2_TOKEN_ACCEPT_CHARSET_def
  NGHTTP2_TOKEN_ACCEPT_ENCODING_def NGHTTP2_TOKEN_ACCEPT_LANGUAGE_def NGHTTP2_TOKEN_ACCEPT_RANGES_def
  NGHTTP2_TOKEN_ACCEPT_def NGHTTP2_TOKEN_ACCESS_CONTROL_ALLOW_ORIGIN_def NGHTTP2_TOKEN_AGE_def
  NGHTTP2_TOKEN_ALLOW_def NGHTTP2_TOKEN_AUTHORIZATION_def NGHTTP2_TOKEN_CACHE_CONTROL_def
  NGHTTP2_TOKEN_CONTENT_DISPOSITION_def NGHTTP2_TOKEN_CONTENT_ENCODING_def
  NGHTTP2_TOKEN_CONTENT_LANGUAGE_def NGHTTP2_TOKEN_CONTENT_LENGTH_def
  NGHTTP2_TOKEN_CONTENT_LOCATION_def NGHTTP2_TOKEN_CONTENT_RANGE_def NGHTTP2_TOKEN_CONTENT_TYPE_def
  NGHTTP2_TOKEN_COOKIE_def NGHTTP2_TOKEN_DATE_def NGHTTP2_TOKEN_ETAG_def NGHTTP2_TOKEN_EXPECT_def
  NGHTTP2_TOKEN_EXPIRES_def NGHTTP2_TOKEN_FROM_def NGHTTP2_TOKEN_HOST_def NGHTTP2_TOKEN_IF_MATCH_def
  NGHTTP2_TOKEN_IF_MODIFIED_SINCE_def NGHTTP2_TOKEN_IF_NONE_MATCH_def NGHTTP2_TOKEN_IF_RANGE_def
  NGHTTP2_TOKEN_IF_UNMODIFIED_SINCE_def NGHTTP2_TOKEN_LAST_MODIFIED_def NGHTTP2_TOKEN_LINK_def
  NGHTTP2_TOKEN_LOCATION_def NGHTTP2_TOKEN_MAX_FORWARDS_def NGHTTP2_TOKEN_PROXY_AUTHENTICATE_def
  NGHTTP2_TOKEN_PROXY_AUTHORIZATION_def NGHTTP2_TOKEN_RANGE_def NGHTTP2_TOKEN_REFERER_def
  NGHTTP2_TOKEN_REFRESH_def NGHTTP2_TOKEN_RETRY_AFTER_def NGHTTP2_TOKEN_SERVER_def
  NGHTTP2_TOKEN_SET_COOKIE_def NGHTTP2_TOKEN_STRICT_TRANSPORT_SECURITY_def
  NGHTTP2_TOKEN_TRANSFER_ENCODING_def NGHTTP2_TOKEN_USER_AGENT_def NGHTTP2_TOKEN_VARY_def
  NGHTTP2_TOKEN_VIA_def NGHTTP2_TOKEN_WWW_AUTHENTICATE_def NGHTTP2_TOKEN_TE_def
  NGHTTP2_TOKEN_CONNECTION_def NGHTTP2_TOKEN_KEEP_ALIVE_def NGHTTP2_TOKEN_PROXY_CONNECTION_def
  NGHTTP2_TOKEN_UPGRADE_def NGHTTP2_TOKEN_C_PROTOCOL_def NGHTTP2_TOKEN_PRIORITY_def

section \<open>The static table\<close>

text \<open>The bytes of a string literal.\<close>

definition bytes_of :: "string \<Rightarrow> bytes" where
  "bytes_of s = map of_char s"

definition NGHTTP2_STATIC_TABLE_LENGTH :: nat where
  "NGHTTP2_STATIC_TABLE_LENGTH = 61"

record nghttp2_hd_static_entry =
  se_name :: bytes
  se_value :: bytes
  se_token :: int
  se_hash :: "32 word"

definition make_static_ent :: "string \<Rightarrow> string \<Rightarrow> int \<Rightarrow> 32 word \<Rightarrow> nghttp2_hd_static_entry" where
  "make_static_ent N V T H = \<lparr>se_name = bytes_of N, se_value = bytes_of V, se_token = T, se_hash = H\<rparr>"

definition static_table :: "nghttp2_hd_static_entry list" where
  "static_table =
    [make_static_ent '':authority'' '''' 0 3153725150,
     make_static_ent '':method'' ''GET'' 1 695666056,
     make_static_ent '':method'' ''POST'' 1 695666056,
     make_static_ent '':path'' ''/'' 3 3292848686,
     make_static_ent '':path'' ''/index.html'' 3 3292848686,
     make_static_ent '':scheme'' ''http'' 5 2510477674,
     make_static_ent '':scheme'' ''https'' 5 2510477674,
     make_static_ent '':status'' ''200'' 7 4000288983,
     make_static_ent '':status'' ''204'' 7 4000288983,
     make_static_ent '':status'' ''206'' 7 4000288983,
     make_static_ent '':status'' ''304'' 7 4000288983,
     make_static_ent '':status'' ''400'' 7 4000288983,
     make_static_ent '':status'' ''404'' 7 4000288983,
     make_static_ent '':status'' ''500'' 7 4000288983,
     make_static_ent ''accept-charset'' '''' 14 3664010344,
     make_static_ent ''accept-encoding'' ''gzip, deflate'' 15 3379649177,
     make_static_ent ''accept-language'' '''' 16 1979086614,
     make_static_ent ''accept-ranges'' '''' 17 1713753958,
     make_static_ent ''accept'' '''' 18 136609321,
     make_static_ent ''access-control-allow-origin'' '''' 19 2710797292,
     make_static_ent ''age'' '''' 20 742476188,
     make_static_ent ''allow'' '''' 21 2930878514,
     make_static_ent ''authorization'' '''' 22 2436257726,
     make_static_ent ''cache-control'' '''' 23 1355326669,
     make_static_ent ''content-disposition'' '''' 24 3889184348,
     make_static_ent ''content-encoding'' '''' 25 65203592,
     make_static_ent ''content-language'' '''' 26 24973587,
     make_static_ent ''content-length'' '''' 27 1308181789,
     make_static_ent ''content-location'' '''' 28 2302364718,
     make_static_ent ''content-range'' '''' 29 3555523146,
     make_static_ent ''content-type'' '''' 30 4244048277,
     make_static_ent ''cookie'' '''' 31 2007449791,
     make_static_ent ''date'' '''' 32 3564297305,
     make_static_ent ''etag'' '''' 33 113792960,
     make_static_ent ''expect'' '''' 34 2530896728,
     make_static_ent ''expires'' '''' 35 1049544579,
     make_static_ent ''from'' '''' 36 2513272949,
     make_static_ent ''host'' '''' 37 2952701295,
     make_static_ent ''if-match'' '''' 38 3597694698,
     make_static_ent ''if-modified-since'' '''' 39 2213050793,
     make_static_ent ''if-none-match'' '''' 40 2536202615,
     make_static_ent ''if-range'' '''' 41 2340978238,
     make_static_ent ''if-unmodified-since'' '''' 42 3794814858,
     make_static_ent ''last-modified'' '''' 43 3226950251,
     make_static_ent ''link'' '''' 44 232457833,
     make_static_ent ''location'' '''' 45 200649126,
     make_static_ent ''max-forwards'' '''' 46 1826162134,
     make_static_ent ''proxy-authenticate'' '''' 47 2709445359,
     make_static_ent ''proxy-authorization'' '''' 48 2686392507,
     make_static_ent ''range'' '''' 49 4208725202,
     make_static_ent ''referer'' '''' 50 3969579366,
     make_static_ent ''refresh'' '''' 51 3572655668,
     make_static_ent ''retry-after'' '''' 52 3336180598,
     make_static_ent ''server'' '''' 53 1085029842,
     make_static_ent ''set-cookie'' '''' 54 1848371000,
     make_static_ent ''strict-transport-security'' '''' 55 4138147361,
     make_static_ent ''transfer-encoding'' '''' 56 3719590988,
     make_static_ent ''user-agent'' '''' 57 606444526,
     make_static_ent ''vary'' '''' 58 1085005381,
     make_static_ent ''via'' '''' 59 1762798611,
     make_static_ent ''www-authenticate'' '''' 60 779865858]"

section \<open>The token of a name\<close>

text \<open>The search looks at the length, at the last byte and then at the bytes in front of it.\<close>

definition memeq :: "string \<Rightarrow> bytes \<Rightarrow> nat \<Rightarrow> bool" where
  "memeq s name n \<longleftrightarrow> take n name = bytes_of s"

definition lookup_token_2_6 :: "bytes \<Rightarrow> nat \<Rightarrow> int" where
  "lookup_token_2_6 name namelen =
     (if namelen = 2 then
       (let c = name ! 1
        in if c = of_char (CHR ''e'') then
            (if memeq ''t'' name 1 then NGHTTP2_TOKEN_TE else -1)
          else -1)
      else if namelen = 3 then
       (let c = name ! 2
        in if c = of_char (CHR ''a'') then
            (if memeq ''vi'' name 2 then NGHTTP2_TOKEN_VIA else -1)
          else if c = of_char (CHR ''e'') then
            (if memeq ''ag'' name 2 then NGHTTP2_TOKEN_AGE else -1)
          else -1)
      else if namelen = 4 then
       (let c = name ! 3
        in if c = of_char (CHR ''e'') then
            (if memeq ''dat'' name 3 then NGHTTP2_TOKEN_DATE else -1)
          else if c = of_char (CHR ''g'') then
            (if memeq ''eta'' name 3 then NGHTTP2_TOKEN_ETAG else -1)
          else if c = of_char (CHR ''k'') then
            (if memeq ''lin'' name 3 then NGHTTP2_TOKEN_LINK else -1)
          else if c = of_char (CHR ''m'') then
            (if memeq ''fro'' name 3 then NGHTTP2_TOKEN_FROM else -1)
          else if c = of_char (CHR ''t'') then
            (if memeq ''hos'' name 3 then NGHTTP2_TOKEN_HOST else -1)
          else if c = of_char (CHR ''y'') then
            (if memeq ''var'' name 3 then NGHTTP2_TOKEN_VARY else -1)
          else -1)
      else if namelen = 5 then
       (let c = name ! 4
        in if c = of_char (CHR ''e'') then
            (if memeq ''rang'' name 4 then NGHTTP2_TOKEN_RANGE else -1)
          else if c = of_char (CHR ''h'') then
            (if memeq '':pat'' name 4 then NGHTTP2_TOKEN_C_PATH else -1)
          else if c = of_char (CHR ''w'') then
            (if memeq ''allo'' name 4 then NGHTTP2_TOKEN_ALLOW else -1)
          else -1)
      else if namelen = 6 then
       (let c = name ! 5
        in if c = of_char (CHR ''e'') then
            (if memeq ''cooki'' name 5 then NGHTTP2_TOKEN_COOKIE else -1)
          else if c = of_char (CHR ''r'') then
            (if memeq ''serve'' name 5 then NGHTTP2_TOKEN_SERVER else -1)
          else if c = of_char (CHR ''t'') then
            (if memeq ''accep'' name 5 then NGHTTP2_TOKEN_ACCEPT else 
             if memeq ''expec'' name 5 then NGHTTP2_TOKEN_EXPECT else -1)
          else -1)
      else -1)"

definition lookup_token_7_12 :: "bytes \<Rightarrow> nat \<Rightarrow> int" where
  "lookup_token_7_12 name namelen =
     (if namelen = 7 then
       (let c = name ! 6
        in if c = of_char (CHR ''d'') then
            (if memeq '':metho'' name 6 then NGHTTP2_TOKEN_C_METHOD else -1)
          else if c = of_char (CHR ''e'') then
            (if memeq '':schem'' name 6 then NGHTTP2_TOKEN_C_SCHEME else 
             if memeq ''upgrad'' name 6 then NGHTTP2_TOKEN_UPGRADE else -1)
          else if c = of_char (CHR ''h'') then
            (if memeq ''refres'' name 6 then NGHTTP2_TOKEN_REFRESH else -1)
          else if c = of_char (CHR ''r'') then
            (if memeq ''refere'' name 6 then NGHTTP2_TOKEN_REFERER else -1)
          else if c = of_char (CHR ''s'') then
            (if memeq '':statu'' name 6 then NGHTTP2_TOKEN_C_STATUS else 
             if memeq ''expire'' name 6 then NGHTTP2_TOKEN_EXPIRES else -1)
          else -1)
      else if namelen = 8 then
       (let c = name ! 7
        in if c = of_char (CHR ''e'') then
            (if memeq ''if-rang'' name 7 then NGHTTP2_TOKEN_IF_RANGE else -1)
          else if c = of_char (CHR ''h'') then
            (if memeq ''if-matc'' name 7 then NGHTTP2_TOKEN_IF_MATCH else -1)
          else if c = of_char (CHR ''n'') then
            (if memeq ''locatio'' name 7 then NGHTTP2_TOKEN_LOCATION else -1)
          else if c = of_char (CHR ''y'') then
            (if memeq ''priorit'' name 7 then NGHTTP2_TOKEN_PRIORITY else -1)
          else -1)
      else if namelen = 9 then
       (let c = name ! 8
        in if c = of_char (CHR ''l'') then
            (if memeq '':protoco'' name 8 then NGHTTP2_TOKEN_C_PROTOCOL else -1)
          else -1)
      else if namelen = 10 then
       (let c = name ! 9
        in if c = of_char (CHR ''e'') then
            (if memeq ''keep-aliv'' name 9 then NGHTTP2_TOKEN_KEEP_ALIVE else 
             if memeq ''set-cooki'' name 9 then NGHTTP2_TOKEN_SET_COOKIE else -1)
          else if c = of_char (CHR ''n'') then
            (if memeq ''connectio'' name 9 then NGHTTP2_TOKEN_CONNECTION else -1)
          else if c = of_char (CHR ''t'') then
            (if memeq ''user-agen'' name 9 then NGHTTP2_TOKEN_USER_AGENT else -1)
          else if c = of_char (CHR ''y'') then
            (if memeq '':authorit'' name 9 then NGHTTP2_TOKEN_C_AUTHORITY else -1)
          else -1)
      else if namelen = 11 then
       (let c = name ! 10
        in if c = of_char (CHR ''r'') then
            (if memeq ''retry-afte'' name 10 then NGHTTP2_TOKEN_RETRY_AFTER else -1)
          else -1)
      else if namelen = 12 then
       (let c = name ! 11
        in if c = of_char (CHR ''e'') then
            (if memeq ''content-typ'' name 11 then NGHTTP2_TOKEN_CONTENT_TYPE else -1)
          else if c = of_char (CHR ''s'') then
            (if memeq ''max-forward'' name 11 then NGHTTP2_TOKEN_MAX_FORWARDS else -1)
          else -1)
      else -1)"

definition lookup_token_13_18 :: "bytes \<Rightarrow> nat \<Rightarrow> int" where
  "lookup_token_13_18 name namelen =
     (if namelen = 13 then
       (let c = name ! 12
        in if c = of_char (CHR ''d'') then
            (if memeq ''last-modifie'' name 12 then NGHTTP2_TOKEN_LAST_MODIFIED else -1)
          else if c = of_char (CHR ''e'') then
            (if memeq ''content-rang'' name 12 then NGHTTP2_TOKEN_CONTENT_RANGE else -1)
          else if c = of_char (CHR ''h'') then
            (if memeq ''if-none-matc'' name 12 then NGHTTP2_TOKEN_IF_NONE_MATCH else -1)
          else if c = of_char (CHR ''l'') then
            (if memeq ''cache-contro'' name 12 then NGHTTP2_TOKEN_CACHE_CONTROL else -1)
          else if c = of_char (CHR ''n'') then
            (if memeq ''authorizatio'' name 12 then NGHTTP2_TOKEN_AUTHORIZATION else -1)
          else if c = of_char (CHR ''s'') then
            (if memeq ''accept-range'' name 12 then NGHTTP2_TOKEN_ACCEPT_RANGES else -1)
          else -1)
      else if namelen = 14 then
       (let c = name ! 13
        in if c = of_char (CHR ''h'') then
            (if memeq ''content-lengt'' name 13 then NGHTTP2_TOKEN_CONTENT_LENGTH else -1)
          else if c = of_char (CHR ''t'') then
            (if memeq ''accept-charse'' name 13 then NGHTTP2_TOKEN_ACCEPT_CHARSET else -1)
          else -1)
      else if namelen = 15 then
       (let c = name ! 14
        in if c = of_char (CHR ''e'') then
            (if memeq ''accept-languag'' name 14 then NGHTTP2_TOKEN_ACCEPT_LANGUAGE else -1)
          else if c = of_char (CHR ''g'') then
            (if memeq ''accept-encodin'' name 14 then NGHTTP2_TOKEN_ACCEPT_ENCODING else -1)
          else -1)
      else if namelen = 16 then
       (let c = name ! 15
        in if c = of_char (CHR ''e'') then
            (if memeq ''content-languag'' name 15 then NGHTTP2_TOKEN_CONTENT_LANGUAGE else 
             if memeq ''www-authenticat'' name 15 then NGHTTP2_TOKEN_WWW_AUTHENTICATE else -1)
          else if c = of_char (CHR ''g'') then
            (if memeq ''content-encodin'' name 15 then NGHTTP2_TOKEN_CONTENT_ENCODING else -1)
          else if c = of_char (CHR ''n'') then
            (if memeq ''content-locatio'' name 15 then NGHTTP2_TOKEN_CONTENT_LOCATION else 
             if memeq ''proxy-connectio'' name 15 then NGHTTP2_TOKEN_PROXY_CONNECTION else -1)
          else -1)
      else if namelen = 17 then
       (let c = name ! 16
        in if c = of_char (CHR ''e'') then
            (if memeq ''if-modified-sinc'' name 16 then NGHTTP2_TOKEN_IF_MODIFIED_SINCE else -1)
          else if c = of_char (CHR ''g'') then
            (if memeq ''transfer-encodin'' name 16 then NGHTTP2_TOKEN_TRANSFER_ENCODING else -1)
          else -1)
      else if namelen = 18 then
       (let c = name ! 17
        in if c = of_char (CHR ''e'') then
            (if memeq ''proxy-authenticat'' name 17 then NGHTTP2_TOKEN_PROXY_AUTHENTICATE else -1)
          else -1)
      else -1)"

definition lookup_token_19_27 :: "bytes \<Rightarrow> nat \<Rightarrow> int" where
  "lookup_token_19_27 name namelen =
     (if namelen = 19 then
       (let c = name ! 18
        in if c = of_char (CHR ''e'') then
            (if memeq ''if-unmodified-sinc'' name 18 then NGHTTP2_TOKEN_IF_UNMODIFIED_SINCE else -1)
          else if c = of_char (CHR ''n'') then
            (if memeq ''content-dispositio'' name 18 then NGHTTP2_TOKEN_CONTENT_DISPOSITION else 
             if memeq ''proxy-authorizatio'' name 18 then NGHTTP2_TOKEN_PROXY_AUTHORIZATION else -1)
          else -1)
      else if namelen = 25 then
       (let c = name ! 24
        in if c = of_char (CHR ''y'') then
            (if memeq ''strict-transport-securit'' name 24 then NGHTTP2_TOKEN_STRICT_TRANSPORT_SECURITY else -1)
          else -1)
      else if namelen = 27 then
       (let c = name ! 26
        in if c = of_char (CHR ''n'') then
            (if memeq ''access-control-allow-origi'' name 26 then NGHTTP2_TOKEN_ACCESS_CONTROL_ALLOW_ORIGIN else -1)
          else -1)
      else -1)"

definition lookup_token :: "bytes \<Rightarrow> int" where
  "lookup_token name =
     (let namelen = length name
      in if namelen \<le> 6 then lookup_token_2_6 name namelen
         else if namelen \<le> 12 then lookup_token_7_12 name namelen
         else if namelen \<le> 18 then lookup_token_13_18 name namelen
         else lookup_token_19_27 name namelen)"

text \<open>The names that have a token.\<close>

definition token_names :: "(string \<times> int) list" where
  "token_names =
    [(''te'', NGHTTP2_TOKEN_TE), (''via'', NGHTTP2_TOKEN_VIA), (''age'', NGHTTP2_TOKEN_AGE),
     (''date'', NGHTTP2_TOKEN_DATE), (''etag'', NGHTTP2_TOKEN_ETAG), (''link'', NGHTTP2_TOKEN_LINK),
     (''from'', NGHTTP2_TOKEN_FROM), (''host'', NGHTTP2_TOKEN_HOST), (''vary'', NGHTTP2_TOKEN_VARY),
     (''range'', NGHTTP2_TOKEN_RANGE), ('':path'', NGHTTP2_TOKEN_C_PATH),
     (''allow'', NGHTTP2_TOKEN_ALLOW), (''cookie'', NGHTTP2_TOKEN_COOKIE),
     (''server'', NGHTTP2_TOKEN_SERVER), (''accept'', NGHTTP2_TOKEN_ACCEPT),
     (''expect'', NGHTTP2_TOKEN_EXPECT), ('':method'', NGHTTP2_TOKEN_C_METHOD),
     ('':scheme'', NGHTTP2_TOKEN_C_SCHEME), (''upgrade'', NGHTTP2_TOKEN_UPGRADE),
     (''refresh'', NGHTTP2_TOKEN_REFRESH), (''referer'', NGHTTP2_TOKEN_REFERER),
     ('':status'', NGHTTP2_TOKEN_C_STATUS), (''expires'', NGHTTP2_TOKEN_EXPIRES),
     (''if-range'', NGHTTP2_TOKEN_IF_RANGE), (''if-match'', NGHTTP2_TOKEN_IF_MATCH),
     (''location'', NGHTTP2_TOKEN_LOCATION), (''priority'', NGHTTP2_TOKEN_PRIORITY),
     ('':protocol'', NGHTTP2_TOKEN_C_PROTOCOL), (''keep-alive'', NGHTTP2_TOKEN_KEEP_ALIVE),
     (''set-cookie'', NGHTTP2_TOKEN_SET_COOKIE), (''connection'', NGHTTP2_TOKEN_CONNECTION),
     (''user-agent'', NGHTTP2_TOKEN_USER_AGENT), ('':authority'', NGHTTP2_TOKEN_C_AUTHORITY),
     (''retry-after'', NGHTTP2_TOKEN_RETRY_AFTER), (''content-type'', NGHTTP2_TOKEN_CONTENT_TYPE),
     (''max-forwards'', NGHTTP2_TOKEN_MAX_FORWARDS), (''last-modified'', NGHTTP2_TOKEN_LAST_MODIFIED),
     (''content-range'', NGHTTP2_TOKEN_CONTENT_RANGE), (''if-none-match'', NGHTTP2_TOKEN_IF_NONE_MATCH),
     (''cache-control'', NGHTTP2_TOKEN_CACHE_CONTROL), (''authorization'', NGHTTP2_TOKEN_AUTHORIZATION),
     (''accept-ranges'', NGHTTP2_TOKEN_ACCEPT_RANGES),
     (''content-length'', NGHTTP2_TOKEN_CONTENT_LENGTH),
     (''accept-charset'', NGHTTP2_TOKEN_ACCEPT_CHARSET),
     (''accept-language'', NGHTTP2_TOKEN_ACCEPT_LANGUAGE),
     (''accept-encoding'', NGHTTP2_TOKEN_ACCEPT_ENCODING),
     (''content-language'', NGHTTP2_TOKEN_CONTENT_LANGUAGE),
     (''www-authenticate'', NGHTTP2_TOKEN_WWW_AUTHENTICATE),
     (''content-encoding'', NGHTTP2_TOKEN_CONTENT_ENCODING),
     (''content-location'', NGHTTP2_TOKEN_CONTENT_LOCATION),
     (''proxy-connection'', NGHTTP2_TOKEN_PROXY_CONNECTION),
     (''if-modified-since'', NGHTTP2_TOKEN_IF_MODIFIED_SINCE),
     (''transfer-encoding'', NGHTTP2_TOKEN_TRANSFER_ENCODING),
     (''proxy-authenticate'', NGHTTP2_TOKEN_PROXY_AUTHENTICATE),
     (''if-unmodified-since'', NGHTTP2_TOKEN_IF_UNMODIFIED_SINCE),
     (''content-disposition'', NGHTTP2_TOKEN_CONTENT_DISPOSITION),
     (''proxy-authorization'', NGHTTP2_TOKEN_PROXY_AUTHORIZATION),
     (''strict-transport-security'', NGHTTP2_TOKEN_STRICT_TRANSPORT_SECURITY),
     (''access-control-allow-origin'', NGHTTP2_TOKEN_ACCESS_CONTROL_ALLOW_ORIGIN)]"

lemma bytes_of_length [simp]: "length (bytes_of s) = length s"
  by (simp add: bytes_of_def)

lemma of_char_byte_inj: "(of_char c :: byte) = of_char d \<Longrightarrow> c = d"
proof -
  have n: "(of_char x :: byte) = word_of_nat (of_char x)" for x by (rule of_nat_of_char [symmetric])
  have lt: "(of_char x :: nat) < 256" for x by (rule nat_of_char_less_256)
  assume "(of_char c :: byte) = of_char d"
  then have "unat (word_of_nat (of_char c) :: byte) = unat (word_of_nat (of_char d) :: byte)" by (simp only: n)
  then have "(of_char c :: nat) = of_char d" using lt [of c] lt [of d] by (simp add: unat_of_nat)
  then show "c = d" by simp
qed

lemma bytes_of_inj [simp]: "bytes_of s = bytes_of s' \<longleftrightarrow> s = s'"
  unfolding bytes_of_def by (rule inj_map_eq_map) (auto intro: injI of_char_byte_inj)

lemma memeq_name:
  assumes "memeq s name n" "name ! n = of_char c" "length name = m" "m = Suc n"
  shows "name = bytes_of (s @ [c])"
proof -
  have "name = take n name @ [name ! n]" using assms(3,4) take_Suc_conv_app_nth [of n name] by simp
  then show ?thesis using assms(1,2) by (simp add: memeq_def bytes_of_def)
qed

text \<open>Every answer of the search is in the list.\<close>

definition named :: "bytes \<Rightarrow> int \<Rightarrow> bool" where
  "named name t \<longleftrightarrow> t = -1 \<or> (\<exists>s. (s, t) \<in> set token_names \<and> name = bytes_of s)"

lemma named_none: "named name (-1)"
  by (simp add: named_def)

lemma named_if: "(P \<Longrightarrow> named name a) \<Longrightarrow> (\<not> P \<Longrightarrow> named name b) \<Longrightarrow> named name (if P then a else b)"
  by simp

lemma named_case:
  assumes "memeq s name n" "name ! n = of_char c" "length name = m" "m = Suc n" "(s @ [c], t) \<in> set token_names"
  shows "named name t"
  using memeq_name [OF assms(1-4)] assms(5) unfolding named_def by blast

lemmas token_mem = append_Cons append_Nil token_names_def list.set insert_iff refl simp_thms

lemma lookup_2_6: "named name (lookup_token_2_6 name (length name))"
  unfolding lookup_token_2_6_def Let_def
  by (intro named_if named_none; (rule named_case, assumption, assumption, assumption, simp, simp only: token_mem))

lemma lookup_7_12: "named name (lookup_token_7_12 name (length name))"
  unfolding lookup_token_7_12_def Let_def
  by (intro named_if named_none; (rule named_case, assumption, assumption, assumption, simp, simp only: token_mem))

lemma lookup_13_18: "named name (lookup_token_13_18 name (length name))"
  unfolding lookup_token_13_18_def Let_def
  by (intro named_if named_none; (rule named_case, assumption, assumption, assumption, simp, simp only: token_mem))

lemma lookup_19_27: "named name (lookup_token_19_27 name (length name))"
  unfolding lookup_token_19_27_def Let_def
  by (intro named_if named_none; (rule named_case, assumption, assumption, assumption, simp, simp only: token_mem))

lemma lookup_named: "named name (lookup_token name)"
  by (simp add: lookup_token_def Let_def lookup_2_6 lookup_7_12 lookup_13_18 lookup_19_27)

lemma listed_names: "list_all (\<lambda>(s, t). lookup_token (bytes_of s) = t) token_names"
  by (simp add: token_names_def lookup_token_def lookup_token_2_6_def lookup_token_7_12_def lookup_token_13_18_def
      lookup_token_19_27_def memeq_def bytes_of_def)

lemma tokens_distinct: "distinct (map snd token_names)"
  by (simp add: token_names_def token_defs)

lemma tokens_range: "list_all (\<lambda>(s, t). 0 \<le> t \<and> t \<le> 67) token_names"
  by (simp add: token_names_def token_defs)

lemma static_named:
  "list_all (\<lambda>(s, t). t \<le> NGHTTP2_TOKEN_WWW_AUTHENTICATE \<longrightarrow> se_name (static_table ! nat t) = bytes_of s) token_names"
  by (simp add: token_names_def token_defs static_table_def make_static_ent_def)

lemma static_tokens: "list_all (\<lambda>e. lookup_token (se_name e) = se_token e) static_table"
  by (simp add: static_table_def make_static_ent_def lookup_token_def lookup_token_2_6_def lookup_token_7_12_def lookup_token_13_18_def
      lookup_token_19_27_def memeq_def bytes_of_def token_defs)

lemma static_first: "list_all (\<lambda>e. 0 \<le> se_token e \<and> se_token e \<le> 60) static_table"
  by (simp add: static_table_def make_static_ent_def)

lemma static_length [simp]: "length static_table = 61"
  by (simp add: static_table_def)

lemma lookup_range: "lookup_token name = -1 \<or> 0 \<le> lookup_token name \<and> lookup_token name \<le> 67"
  using lookup_named [of name] tokens_range unfolding named_def list_all_iff by fastforce

lemma lookup_inj:
  assumes "lookup_token a = lookup_token b" "lookup_token a \<noteq> -1"
  shows "a = b"
proof -
  obtain s where s: "(s, lookup_token a) \<in> set token_names" "a = bytes_of s"
    using lookup_named [of a] assms(2) by (auto simp: named_def)
  obtain s' where s': "(s', lookup_token a) \<in> set token_names" "b = bytes_of s'"
    using lookup_named [of b] assms by (auto simp: named_def)
  have "inj_on snd (set token_names)" using tokens_distinct by (simp add: distinct_map)
  from inj_onD [OF this, of "(s, lookup_token a)" "(s', lookup_token a)"] s(1) s'(1) have "s = s'" by simp
  then show ?thesis using s(2) s'(2) by simp
qed

text \<open>A token of the static table is the first index of its name.\<close>

lemma static_token_name:
  assumes "0 \<le> lookup_token name" "lookup_token name \<le> NGHTTP2_TOKEN_WWW_AUTHENTICATE"
  shows "se_name (static_table ! nat (lookup_token name)) = name"
proof -
  obtain s where "(s, lookup_token name) \<in> set token_names" "name = bytes_of s"
    using lookup_named [of name] assms(1) by (auto simp: named_def)
  with static_named assms(2) show ?thesis by (auto simp: list_all_iff)
qed

lemma static_entry:
  assumes "i < 61"
  shows "lookup_token (se_name (static_table ! i)) = se_token (static_table ! i)" "0 \<le> se_token (static_table ! i)"
    "se_token (static_table ! i) \<le> 60"
  using static_tokens static_first assms by (simp_all add: list_all_length)

text \<open>
  C17. lookup_token, a search by length, last byte and rest, is the look-up in the list of the names that
  have a token.
\<close>

theorem lookup_token_spec:
  "lookup_token name = (case map_of (map (\<lambda>(s, t). (bytes_of s, t)) token_names) name of Some t \<Rightarrow> t | None \<Rightarrow> -1)"
proof (cases "map_of (map (\<lambda>(s, t). (bytes_of s, t)) token_names) name")
  case None
  then have "\<forall>s t. (s, t) \<in> set token_names \<longrightarrow> name \<noteq> bytes_of s"
    by (force simp: map_of_eq_None_iff)
  then show ?thesis using None lookup_named [of name] by (auto simp: named_def)
next
  case (Some t)
  from map_of_SomeD [OF Some] obtain s where "(s, t) \<in> set token_names" "name = bytes_of s" by auto
  with listed_names Some show ?thesis by (auto simp: list_all_iff)
qed

end
