(* ===== verification/Nghttp2_Hd_Table.thy ===== *)
theory Nghttp2_Hd_Table
  imports Nghttp2_Hd_Int Nghttp2_Huffman Nghttp2_Rcbuf Nghttp2_Hd_Static
begin

text \<open>
  The dynamic table of HPACK (nghttp2_hd.c): a ring buffer of entries, newest first, with the
  sum of their sizes, and the hash table by which the deflater finds an entry.
\<close>

unbundle bit_operations_syntax

section \<open>Structures\<close>

definition NGHTTP2_HD_ENTRY_OVERHEAD :: nat where
  "NGHTTP2_HD_ENTRY_OVERHEAD = 32"

definition NGHTTP2_HD_DEFAULT_MAX_BUFFER_SIZE :: nat where
  "NGHTTP2_HD_DEFAULT_MAX_BUFFER_SIZE = 2 ^ 12"

definition HD_MAP_SIZE :: nat where
  "HD_MAP_SIZE = 128"

definition SIZEOF_HD_ENTRY :: nat where
  "SIZEOF_HD_ENTRY = 80"

record nghttp2_hd_nv =
  hn_name :: rcptr
  hn_value :: rcptr
  hn_token :: int
  hn_flags :: byte

text \<open>
  An entry is known by its address; the entries of a bucket of the hash table are a list, so the
  link to the next one is not a field. The copy of the pair that is kept for the callers of an
  older interface has the pointers of the strings.
\<close>

record nghttp2_hd_entry =
  he_nv :: nghttp2_hd_nv
  he_seq :: "32 word"
  he_hash :: "32 word"
  he_addr :: nat

text \<open>The ring: the address of its buffer, and the buffer; a cell that was never written has no entry.\<close>

record nghttp2_hd_ringbuf =
  rb_addr :: nat
  rb_buffer :: "nghttp2_hd_entry option list"
  rb_mask :: nat
  rb_first :: "64 word"
  rb_len :: nat

type_synonym nghttp2_hd_map = "nghttp2_hd_entry list list"

record nghttp2_hd_context =
  hc_table :: nghttp2_hd_ringbuf
  hc_bufsize :: nat
  hc_bufsize_max :: nat
  hc_next_seq :: "32 word"
  hc_bad :: bool

section \<open>Entries and the hash table\<close>

definition nghttp2_hd_entry_init :: "nat \<Rightarrow> nghttp2_hd_nv \<Rightarrow> rc_heap \<Rightarrow> (nghttp2_hd_entry \<times> rc_heap) res" where
  "nghttp2_hd_entry_init addr nv h =
     res_bind (nghttp2_rcbuf_incref (hn_name nv) h) (\<lambda>h1.
     res_bind (nghttp2_rcbuf_incref (hn_value nv) h1) (\<lambda>h2.
     Inr (\<lparr>he_nv = nv, he_seq = 0, he_hash = 0, he_addr = addr\<rparr>, h2)))"

definition nghttp2_hd_entry_free :: "nghttp2_hd_entry \<Rightarrow> rc_heap \<Rightarrow> rc_heap res" where
  "nghttp2_hd_entry_free ent h =
     res_bind (nghttp2_rcbuf_decref (Some (hn_value (he_nv ent))) h) (\<lambda>h1.
     nghttp2_rcbuf_decref (Some (hn_name (he_nv ent))) h1)"

definition name_eq :: "rc_heap \<Rightarrow> nghttp2_hd_nv \<Rightarrow> bytes \<Rightarrow> bool res" where
  "name_eq h a name =
     res_bind (rc_get h (hn_name a)) (\<lambda>r.
     if rc_len r \<noteq> length name then Inr False
     else res_bind (rd (rc_base r) 0 (length name)) (\<lambda>s. Inr (s = name)))"

definition value_eq :: "rc_heap \<Rightarrow> nghttp2_hd_nv \<Rightarrow> bytes \<Rightarrow> bool res" where
  "value_eq h a val =
     res_bind (rc_get h (hn_value a)) (\<lambda>r.
     if rc_len r \<noteq> length val then Inr False
     else res_bind (rd (rc_base r) 0 (length val)) (\<lambda>s. Inr (s = val)))"

definition name_hash :: "bytes \<Rightarrow> 32 word" where
  "name_hash name =
     foldl (\<lambda>h b. let h = h XOR ucast b
                  in h + (push_bit 1 h + push_bit 4 h + push_bit 7 h + push_bit 8 h + push_bit 24 h)) 2166136261 name"

text \<open>The hash that the deflater gives a name: the static table has those of the names in it.\<close>

definition nv_hash :: "bytes \<Rightarrow> int \<Rightarrow> 32 word" where
  "nv_hash name token =
     (if token = -1 then name_hash name
      else if token \<le> NGHTTP2_TOKEN_WWW_AUTHENTICATE then se_hash (static_table ! nat token) else 0)"

definition hd_bucket :: "32 word \<Rightarrow> nat" where
  "hd_bucket hash = unat (hash AND word_of_nat (HD_MAP_SIZE - 1))"

definition hd_map_init :: nghttp2_hd_map where
  "hd_map_init = replicate HD_MAP_SIZE []"

definition hd_map_insert :: "nghttp2_hd_map \<Rightarrow> nghttp2_hd_entry \<Rightarrow> nghttp2_hd_map" where
  "hd_map_insert hmap ent = (let b = hd_bucket (he_hash ent) in hmap[b := ent # hmap ! b])"

fun hd_map_find_loop ::
  "rc_heap \<Rightarrow> bytes \<Rightarrow> bytes \<Rightarrow> int \<Rightarrow> 32 word \<Rightarrow> bool \<Rightarrow> nghttp2_hd_entry list \<Rightarrow> nghttp2_hd_entry option \<Rightarrow>
    (nghttp2_hd_entry option \<times> bool) res" where
  "hd_map_find_loop h name val token hash name_only [] res = Inr (res, False)"
| "hd_map_find_loop h name val token hash name_only (p # ps) res =
     res_bind
       (if token \<noteq> hn_token (he_nv p) then Inr True
        else if token = -1 then
          (if hash \<noteq> he_hash p then Inr True
           else res_bind (name_eq h (he_nv p) name) (\<lambda>eq. Inr (\<not> eq)))
        else Inr False) (\<lambda>skip.
     if skip then hd_map_find_loop h name val token hash name_only ps res
     else if res = None \<and> name_only then Inr (Some p, False)
     else
       (let res = (if res = None then Some p else res)
        in res_bind (value_eq h (he_nv p) val) (\<lambda>eq.
           if eq then Inr (Some p, True)
           else hd_map_find_loop h name val token hash name_only ps res)))"

definition hd_map_find ::
  "rc_heap \<Rightarrow> nghttp2_hd_map \<Rightarrow> bytes \<Rightarrow> bytes \<Rightarrow> int \<Rightarrow> 32 word \<Rightarrow> bool \<Rightarrow> (nghttp2_hd_entry option \<times> bool) res" where
  "hd_map_find h hmap name val token hash name_only =
     hd_map_find_loop h name val token hash name_only (hmap ! hd_bucket hash) None"

fun hd_map_unlink :: "nat \<Rightarrow> nghttp2_hd_entry list \<Rightarrow> nghttp2_hd_entry list" where
  "hd_map_unlink addr [] = []"
| "hd_map_unlink addr (e # es) = (if he_addr e \<noteq> addr then e # hd_map_unlink addr es else es)"

definition hd_map_remove :: "nghttp2_hd_map \<Rightarrow> nghttp2_hd_entry \<Rightarrow> nghttp2_hd_map" where
  "hd_map_remove hmap ent = (let b = hd_bucket (he_hash ent) in hmap[b := hd_map_unlink (he_addr ent) (hmap ! b)])"

section \<open>The ring buffer\<close>

text \<open>The sizes are those of tables in memory, so doubling does not wrap around.\<close>

function ring_double :: "nat \<Rightarrow> nat \<Rightarrow> nat" where
  "ring_double sz bufsize = (if 0 < sz \<and> sz < bufsize then ring_double (sz * 2) bufsize else sz)"
  by pat_completeness auto
termination by (relation "measure (\<lambda>(sz, bufsize). bufsize - sz)") auto

declare ring_double.simps [simp del]

definition hd_ringbuf_init :: "nat \<Rightarrow> rc_heap \<Rightarrow> int \<times> nghttp2_hd_ringbuf option \<times> rc_heap" where
  "hd_ringbuf_init bufsize h =
     (let sz = ring_double 1 bufsize
      in case hp_alloc (8 * sz) h of
           (None, h1) \<Rightarrow> (NGHTTP2_ERR_NOMEM, None, h1)
         | (Some a, h1) \<Rightarrow>
             (0, Some \<lparr>rb_addr = a, rb_buffer = replicate sz None, rb_mask = sz - 1, rb_first = 0, rb_len = 0\<rparr>, h1))"

definition ring_cell :: "nghttp2_hd_ringbuf \<Rightarrow> 64 word \<Rightarrow> nat" where
  "ring_cell rb pos = unat (pos AND word_of_nat (rb_mask rb))"

definition hd_ringbuf_get :: "nghttp2_hd_ringbuf \<Rightarrow> nat \<Rightarrow> nghttp2_hd_entry res" where
  "hd_ringbuf_get rb idx =
     res_bind (c_assert (idx < rb_len rb)) (\<lambda>_.
     (let c = ring_cell rb (rb_first rb + word_of_nat idx)
      in if c < length (rb_buffer rb)
         then (case rb_buffer rb ! c of None \<Rightarrow> Inl Out_Of_Bounds | Some e \<Rightarrow> Inr e)
         else Inl Out_Of_Bounds))"

text \<open>The copy of the entries to a new buffer; \<open>n\<close> is the number of those to come.\<close>

fun ring_copy :: "nghttp2_hd_ringbuf \<Rightarrow> nat \<Rightarrow> nat \<Rightarrow> nghttp2_hd_entry option list \<Rightarrow> nghttp2_hd_entry option list res" where
  "ring_copy rb i 0 buffer = Inr buffer"
| "ring_copy rb i (Suc n) buffer =
     res_bind (hd_ringbuf_get rb i) (\<lambda>e.
     if i < length buffer then ring_copy rb (i + 1) n (buffer[i := Some e]) else Inl Out_Of_Bounds)"

definition hd_ringbuf_reserve ::
  "nghttp2_hd_ringbuf \<Rightarrow> nat \<Rightarrow> rc_heap \<Rightarrow> (int \<times> nghttp2_hd_ringbuf \<times> rc_heap) res" where
  "hd_ringbuf_reserve rb bufsize h =
     (if bufsize \<le> rb_mask rb + 1 then Inr (0, rb, h)
      else
        (let sz = ring_double 1 bufsize
         in case hp_alloc (8 * sz) h of
              (None, h1) \<Rightarrow> Inr (NGHTTP2_ERR_NOMEM, rb, h1)
            | (Some a, h1) \<Rightarrow>
                res_bind (ring_copy rb 0 (rb_len rb) (replicate sz None)) (\<lambda>buffer.
                res_bind (hp_free (rb_addr rb) h1) (\<lambda>h2.
                Inr (0, rb\<lparr>rb_addr := a, rb_buffer := buffer, rb_mask := sz - 1, rb_first := 0\<rparr>, h2)))))"

fun ring_free_loop :: "nghttp2_hd_ringbuf \<Rightarrow> nat \<Rightarrow> nat \<Rightarrow> rc_heap \<Rightarrow> rc_heap res" where
  "ring_free_loop rb i 0 h = Inr h"
| "ring_free_loop rb i (Suc n) h =
     res_bind (hd_ringbuf_get rb i) (\<lambda>ent.
     res_bind (nghttp2_hd_entry_free ent h) (\<lambda>h1.
     res_bind (hp_free (he_addr ent) h1) (\<lambda>h2. ring_free_loop rb (i + 1) n h2)))"

definition hd_ringbuf_free :: "nghttp2_hd_ringbuf \<Rightarrow> rc_heap \<Rightarrow> rc_heap res" where
  "hd_ringbuf_free rb h = res_bind (ring_free_loop rb 0 (rb_len rb) h) (\<lambda>h1. hp_free (rb_addr rb) h1)"

definition hd_ringbuf_push_front ::
  "nghttp2_hd_ringbuf \<Rightarrow> nghttp2_hd_entry \<Rightarrow> rc_heap \<Rightarrow> (int \<times> nghttp2_hd_ringbuf \<times> rc_heap) res" where
  "hd_ringbuf_push_front rb ent h =
     res_bind (hd_ringbuf_reserve rb (rb_len rb + 1) h) (\<lambda>(rv, rb1, h1).
     if rv \<noteq> 0 then Inr (rv, rb1, h1)
     else
       (let first = rb_first rb1 - 1; c = ring_cell rb1 first
        in if c < length (rb_buffer rb1)
           then Inr (0, rb1\<lparr>rb_first := first, rb_buffer := (rb_buffer rb1)[c := Some ent], rb_len := rb_len rb1 + 1\<rparr>, h1)
           else Inl Out_Of_Bounds))"

definition hd_ringbuf_pop_back :: "nghttp2_hd_ringbuf \<Rightarrow> nghttp2_hd_ringbuf res" where
  "hd_ringbuf_pop_back rb = res_bind (c_assert (0 < rb_len rb)) (\<lambda>_. Inr (rb\<lparr>rb_len := rb_len rb - 1\<rparr>))"

section \<open>The context\<close>

definition hd_context_init :: "rc_heap \<Rightarrow> int \<times> nghttp2_hd_context option \<times> rc_heap" where
  "hd_context_init h =
     (case hd_ringbuf_init (NGHTTP2_HD_DEFAULT_MAX_BUFFER_SIZE div NGHTTP2_HD_ENTRY_OVERHEAD) h of
        (rv, None, h1) \<Rightarrow> (rv, None, h1)
      | (rv, Some rb, h1) \<Rightarrow>
          (0, Some \<lparr>hc_table = rb, hc_bufsize = 0, hc_bufsize_max = NGHTTP2_HD_DEFAULT_MAX_BUFFER_SIZE,
            hc_next_seq = 0, hc_bad = False\<rparr>, h1))"

definition hd_context_free :: "nghttp2_hd_context \<Rightarrow> rc_heap \<Rightarrow> rc_heap res" where
  "hd_context_free ctx h = hd_ringbuf_free (hc_table ctx) h"

definition entry_room :: "nat \<Rightarrow> nat \<Rightarrow> nat" where
  "entry_room namelen valuelen = NGHTTP2_HD_ENTRY_OVERHEAD + namelen + valuelen"

definition nv_room :: "rc_heap \<Rightarrow> nghttp2_hd_nv \<Rightarrow> nat res" where
  "nv_room h nv =
     res_bind (rc_get h (hn_name nv)) (\<lambda>n. res_bind (rc_get h (hn_value nv)) (\<lambda>v. Inr (entry_room (rc_len n) (rc_len v))))"

text \<open>
  The oldest entries go until \<open>room\<close> more bytes fit. The loop that makes place for an entry and
  the one that shrinks the table, with no room to make, have the same body.
\<close>

function hd_evict_loop ::
  "nat \<Rightarrow> nghttp2_hd_context \<Rightarrow> nghttp2_hd_map option \<Rightarrow> rc_heap \<Rightarrow> (nghttp2_hd_context \<times> nghttp2_hd_map option \<times> rc_heap) res" where
  "hd_evict_loop room ctx hmap h =
     (if hc_bufsize_max ctx < hc_bufsize ctx + room \<and> 0 < rb_len (hc_table ctx)
      then
        res_bind (hd_ringbuf_get (hc_table ctx) (rb_len (hc_table ctx) - 1)) (\<lambda>ent.
        res_bind (nv_room h (he_nv ent)) (\<lambda>r.
        res_bind (hd_ringbuf_pop_back (hc_table ctx)) (\<lambda>rb.
        res_bind (nghttp2_hd_entry_free ent h) (\<lambda>h1.
        res_bind (hp_free (he_addr ent) h1) (\<lambda>h2.
        if rb_len rb < rb_len (hc_table ctx)
        then hd_evict_loop room (ctx\<lparr>hc_bufsize := size_sub (hc_bufsize ctx) r, hc_table := rb\<rparr>)
               (map_option (\<lambda>m. hd_map_remove m ent) hmap) h2
        else Inl Assert_Failed)))))
      else Inr (ctx, hmap, h))"
  by pat_completeness auto
termination by (relation "measure (\<lambda>(room, ctx, hmap, h). rb_len (hc_table ctx))") auto

declare hd_evict_loop.simps [simp del]

text \<open>
  The sequence number and the hash are stored after the entry is in the ring, which holds its
  address; here the ring holds the entry itself, so they are stored first.
\<close>

definition hd_table_put ::
  "nghttp2_hd_context \<Rightarrow> nghttp2_hd_nv \<Rightarrow> nghttp2_hd_map option \<Rightarrow> 32 word \<Rightarrow> nat \<Rightarrow> rc_heap \<Rightarrow>
    (int \<times> nghttp2_hd_context \<times> nghttp2_hd_map option \<times> rc_heap) res" where
  "hd_table_put ctx nv hmap hash room h =
     (case hp_alloc SIZEOF_HD_ENTRY h of
        (None, h1) \<Rightarrow> Inr (NGHTTP2_ERR_NOMEM, ctx, hmap, h1)
      | (Some addr, h1) \<Rightarrow>
          res_bind (nghttp2_hd_entry_init addr nv h1) (\<lambda>(ent0, h2).
          (let ent = ent0\<lparr>he_seq := hc_next_seq ctx, he_hash := hash\<rparr>
           in res_bind (hd_ringbuf_push_front (hc_table ctx) ent h2) (\<lambda>(rv, rb, h3).
              if rv \<noteq> 0 then
                res_bind (nghttp2_hd_entry_free ent h3) (\<lambda>h4.
                res_bind (hp_free addr h4) (\<lambda>h5. Inr (rv, ctx\<lparr>hc_table := rb\<rparr>, hmap, h5)))
              else
                Inr (0, ctx\<lparr>hc_table := rb, hc_next_seq := hc_next_seq ctx + 1, hc_bufsize := hc_bufsize ctx + room\<rparr>,
                  map_option (\<lambda>m. hd_map_insert m ent) hmap, h3)))))"

definition add_hd_table_incremental ::
  "nghttp2_hd_context \<Rightarrow> nghttp2_hd_nv \<Rightarrow> nghttp2_hd_map option \<Rightarrow> 32 word \<Rightarrow> rc_heap \<Rightarrow>
    (int \<times> nghttp2_hd_context \<times> nghttp2_hd_map option \<times> rc_heap) res" where
  "add_hd_table_incremental ctx nv hmap hash h =
     res_bind (nv_room h nv) (\<lambda>room.
     res_bind (hd_evict_loop room ctx hmap h) (\<lambda>(ctx1, hmap1, h1).
     if hc_bufsize_max ctx1 < room then Inr (0, ctx1, hmap1, h1) else hd_table_put ctx1 nv hmap1 hash room h1))"

definition hd_context_shrink_table_size ::
  "nghttp2_hd_context \<Rightarrow> nghttp2_hd_map option \<Rightarrow> rc_heap \<Rightarrow> (nghttp2_hd_context \<times> nghttp2_hd_map option \<times> rc_heap) res" where
  "hd_context_shrink_table_size ctx hmap h = hd_evict_loop 0 ctx hmap h"

section \<open>Reading the tables\<close>

definition index_range_valid :: "nghttp2_hd_context \<Rightarrow> nat \<Rightarrow> bool" where
  "index_range_valid ctx idx \<longleftrightarrow> idx < rb_len (hc_table ctx) + NGHTTP2_STATIC_TABLE_LENGTH"

definition get_max_index :: "nghttp2_hd_context \<Rightarrow> nat" where
  "get_max_index ctx = rb_len (hc_table ctx) + NGHTTP2_STATIC_TABLE_LENGTH"

definition nghttp2_hd_table_get :: "nghttp2_hd_context \<Rightarrow> nat \<Rightarrow> nghttp2_hd_nv res" where
  "nghttp2_hd_table_get ctx idx =
     res_bind (c_assert (index_range_valid ctx idx)) (\<lambda>_.
     if NGHTTP2_STATIC_TABLE_LENGTH \<le> idx
     then res_bind (hd_ringbuf_get (hc_table ctx) (idx - NGHTTP2_STATIC_TABLE_LENGTH)) (\<lambda>e. Inr (he_nv e))
     else
       (let e = static_table ! idx
        in Inr \<lparr>hn_name = Rc_Static (se_name e), hn_value = Rc_Static (se_value e), hn_token = se_token e, hn_flags = 0\<rparr>))"

text \<open>The pair behind an entry, as the old interface gives it: the strings themselves.\<close>

definition nghttp2_hd_table_get2 :: "nghttp2_hd_context \<Rightarrow> nat \<Rightarrow> rc_heap \<Rightarrow> (bytes \<times> bytes) res" where
  "nghttp2_hd_table_get2 ctx idx h =
     res_bind (c_assert (index_range_valid ctx idx)) (\<lambda>_.
     if NGHTTP2_STATIC_TABLE_LENGTH \<le> idx
     then
       res_bind (hd_ringbuf_get (hc_table ctx) (idx - NGHTTP2_STATIC_TABLE_LENGTH)) (\<lambda>e.
       res_bind (nghttp2_rcbuf_get_buf (hn_name (he_nv e)) h) (\<lambda>n.
       res_bind (nghttp2_rcbuf_get_buf (hn_value (he_nv e)) h) (\<lambda>v. Inr (n, v))))
     else Inr (se_name (static_table ! idx), se_value (static_table ! idx)))"

definition hd_get_table_entry :: "nghttp2_hd_context \<Rightarrow> nat \<Rightarrow> rc_heap \<Rightarrow> (bytes \<times> bytes) option res" where
  "hd_get_table_entry ctx idx h =
     (if idx = 0 then Inr None
      else if \<not> index_range_valid ctx (idx - 1) then Inr None
      else res_bind (nghttp2_hd_table_get2 ctx (idx - 1) h) (\<lambda>p. Inr (Some p)))"

section \<open>Searching\<close>

function static_scan :: "bytes \<Rightarrow> int \<Rightarrow> nat \<Rightarrow> nat option" where
  "static_scan val token i =
     (if int i \<le> NGHTTP2_TOKEN_WWW_AUTHENTICATE \<and> se_token (static_table ! i) = token
      then (if se_value (static_table ! i) = val then Some i else static_scan val token (i + 1))
      else None)"
  by pat_completeness auto
termination by (relation "measure (\<lambda>(val, token, i). 61 - i)") (auto simp: NGHTTP2_TOKEN_WWW_AUTHENTICATE_def)

declare static_scan.simps [simp del]

text \<open>The result of a search: the index, or -1, and whether the value matched too.\<close>

definition search_static_table :: "bytes \<Rightarrow> int \<Rightarrow> bool \<Rightarrow> int \<times> bool" where
  "search_static_table val token name_only =
     (if name_only then (token, False)
      else (case static_scan val token (nat token) of Some i \<Rightarrow> (int i, True) | None \<Rightarrow> (token, False)))"

datatype nghttp2_hd_indexing_mode =
  NGHTTP2_HD_WITH_INDEXING | NGHTTP2_HD_WITHOUT_INDEXING | NGHTTP2_HD_NEVER_INDEXING

definition search_hd_table ::
  "nghttp2_hd_context \<Rightarrow> bytes \<Rightarrow> bytes \<Rightarrow> int \<Rightarrow> nghttp2_hd_indexing_mode \<Rightarrow> nghttp2_hd_map \<Rightarrow> 32 word \<Rightarrow> rc_heap \<Rightarrow>
    (int \<times> bool) res" where
  "search_hd_table ctx name val token indexing_mode hmap hash h =
     (let name_only = (indexing_mode = NGHTTP2_HD_NEVER_INDEXING)
      in res_bind (hd_map_find h hmap name val token hash name_only) (\<lambda>(ent, exact_match).
         if \<not> exact_match \<and> 0 \<le> token \<and> token \<le> NGHTTP2_TOKEN_WWW_AUTHENTICATE
         then Inr (search_static_table val token name_only)
         else
           (case ent of
              None \<Rightarrow> Inr (-1, False)
            | Some e \<Rightarrow> Inr (int (unat (hc_next_seq ctx - 1 - he_seq e + word_of_nat NGHTTP2_STATIC_TABLE_LENGTH)), exact_match))))"

section \<open>The ring buffer holds a list\<close>

definition ring_holds :: "nghttp2_hd_ringbuf \<Rightarrow> nghttp2_hd_entry list \<Rightarrow> bool" where
  "ring_holds rb es \<longleftrightarrow>
     (\<exists>k < 64. length (rb_buffer rb) = 2 ^ k \<and> rb_mask rb = 2 ^ k - 1 \<and> length es \<le> 2 ^ k) \<and> rb_len rb = length es \<and>
     (\<forall>i < length es. rb_buffer rb ! ring_cell rb (rb_first rb + word_of_nat i) = Some (es ! i))"

lemma ring_cell_mod: "rb_mask rb = 2 ^ k - 1 \<Longrightarrow> k < 64 \<Longrightarrow> ring_cell rb pos = unat pos mod 2 ^ k"
proof -
  assume "rb_mask rb = 2 ^ k - 1" "k < 64"
  then have "word_of_nat (rb_mask rb) = (mask k :: 64 word)"
    by (simp add: mask_eq_exp_minus_1 of_nat_diff)
  then show ?thesis
    by (simp add: ring_cell_def unsigned_take_bit_eq take_bit_eq_mod [where ?'a = nat] flip: take_bit_eq_mask)
qed

lemma mod_add_left_inj: "(a + i) mod m = (a + j) mod m \<Longrightarrow> i < m \<Longrightarrow> j < m \<Longrightarrow> i = (j::nat)"
proof (induction i j rule: linorder_wlog)
  case (le i j)
  then have "m dvd (a + j) - (a + i)" by (metis add_le_mono1 add.commute mod_eq_dvd_iff_nat)
  then have "m dvd j - i" by simp
  then show ?case using le by (cases "i = j") (auto dest: dvd_imp_le)
next
  case (sym i j)
  then show ?case by metis
qed

lemma ring_cell_inj:
  assumes "rb_mask rb = 2 ^ k - 1" "k < 64" "i < 2 ^ k" "j < 2 ^ k"
    "ring_cell rb (pos + word_of_nat i) = ring_cell rb (pos + word_of_nat j)"
  shows "i = j"
proof -
  have u: "unat (pos + word_of_nat n :: 64 word) mod 2 ^ k = (unat pos + n) mod 2 ^ k" for n
  proof -
    have d: "(2::nat) ^ k dvd 2 ^ 64" by (rule le_imp_power_dvd) (use assms(2) in simp)
    have "unat (pos + word_of_nat n :: 64 word) = (unat pos + n) mod 2 ^ 64"
      by (simp add: unat_word_ariths unat_of_nat mod_simps)
    then show ?thesis using d by (simp only: mod_mod_cancel)
  qed
  have "(unat pos + i) mod 2 ^ k = (unat pos + j) mod 2 ^ k"
    using assms u by (metis ring_cell_mod)
  then show ?thesis using assms(3,4) by (rule mod_add_left_inj)
qed

lemma ring_double_pow: "0 < n \<Longrightarrow> \<exists>j. ring_double (2 ^ i) n = 2 ^ j \<and> n \<le> 2 ^ j \<and> (2 ^ j < 2 * n \<or> j = i)"
proof (induction "n - 2 ^ i" arbitrary: i rule: less_induct)
  case less
  show ?case
  proof (cases "(2::nat) ^ i < n")
    case True
    then have "n - 2 ^ (i + 1) < n - 2 ^ i" by (simp add: diff_less_mono2)
    from less(1) [OF this less(2)] obtain j where
      j: "ring_double (2 ^ (i + 1)) n = 2 ^ j" "n \<le> 2 ^ j" "2 ^ j < 2 * n \<or> j = i + 1" by blast
    have "ring_double (2 ^ i) n = 2 ^ j" using True j(1) by (subst ring_double.simps) (simp add: mult.commute)
    then show ?thesis using j True by auto
  next
    case False
    then show ?thesis by (subst ring_double.simps) auto
  qed
qed

lemma ring_double_1:
  assumes "0 < n" "n \<le> 2 ^ 62"
  obtains j where "ring_double 1 n = 2 ^ j" "n \<le> 2 ^ j" "j < 64"
proof -
  obtain j where j: "ring_double 1 n = 2 ^ j" "n \<le> 2 ^ j" "2 ^ j < 2 * n \<or> j = 0"
    using ring_double_pow [OF assms(1), of 0] by auto
  have "j < 64"
  proof (rule ccontr)
    assume "\<not> j < 64"
    then have "(2::nat) ^ 64 \<le> 2 ^ j" by (intro power_increasing) auto
    with j(3) assms \<open>\<not> j < 64\<close> show False by auto
  qed
  with j that show ?thesis by blast
qed

lemma ring_get: "ring_holds rb es \<Longrightarrow> i < length es \<Longrightarrow> hd_ringbuf_get rb i = Inr (es ! i)"
  by (auto simp: ring_holds_def hd_ringbuf_get_def c_assert_def ring_cell_mod)

lemma ring_init:
  assumes "0 < n" "n \<le> 2 ^ 62" "hd_ringbuf_init n h = (rv, Some rb, h')"
  shows "rv = 0 \<and> ring_holds rb []"
proof -
  obtain j where j: "ring_double 1 n = 2 ^ j" "n \<le> 2 ^ j" "j < 64" using ring_double_1 [OF assms(1,2)] by blast
  have "rv = 0 \<and> (\<exists>a. rb = \<lparr>rb_addr = a, rb_buffer = replicate (2 ^ j) None, rb_mask = 2 ^ j - 1, rb_first = 0, rb_len = 0\<rparr>)"
    using assms(3) unfolding hd_ringbuf_init_def Let_def j(1) by (auto split: prod.splits option.splits)
  then show ?thesis using j(3) by (auto simp: ring_holds_def)
qed

lemma ring_copy_list:
  "ring_holds rb es \<Longrightarrow> i + n = length es \<Longrightarrow> length es \<le> length buf \<Longrightarrow> take i buf = map Some (take i es) \<Longrightarrow>
   \<exists>buf'. ring_copy rb i n buf = Inr buf' \<and> length buf' = length buf \<and> take (length es) buf' = map Some es"
proof (induction n arbitrary: i buf)
  case 0
  then show ?case by simp
next
  case (Suc n)
  then have i: "i < length es" by simp
  have "take (i + 1) (buf[i := Some (es ! i)]) = map Some (take (i + 1) es)"
    using Suc.prems(3,4) i by (simp add: take_Suc_conv_app_nth)
  moreover have "i + 1 + n = length es" "length es \<le> length (buf[i := Some (es ! i)])" using Suc.prems(2,3) by simp_all
  ultimately obtain buf' where buf': "ring_copy rb (i + 1) n (buf[i := Some (es ! i)]) = Inr buf'" "length buf' = length buf"
      "take (length es) buf' = map Some es"
    using Suc.IH [OF Suc.prems(1), of "i + 1" "buf[i := Some (es ! i)]"] by (metis length_list_update)
  have "i < length buf" using i Suc.prems(3) by simp
  then have "ring_copy rb i (Suc n) buf = Inr buf'"
    unfolding ring_copy.simps ring_get [OF Suc.prems(1) i] using buf'(1) by simp
  then show ?case using buf'(2,3) by blast
qed

text \<open>The buffer of the ring is owned; a bigger one takes its place.\<close>

lemma ring_reserve:
  assumes "ring_holds rb es" "length es < n" "n \<le> 2 ^ 62" "rc_ok h (add_mset (Block (rb_addr rb)) R)"
  obtains (none) h' where "hd_ringbuf_reserve rb n h = Inr (NGHTTP2_ERR_NOMEM, rb, h')" "rc_ok h' (add_mset (Block (rb_addr rb)) R)"
      "rc_str h' = rc_str h" "hp_next h \<le> hp_next h'"
  | (some) rb' h' k where "hd_ringbuf_reserve rb n h = Inr (0, rb', h')" "rc_ok h' (add_mset (Block (rb_addr rb')) R)"
      "rc_str h' = rc_str h" "hp_next h \<le> hp_next h'" "ring_holds rb' es"
      "length (rb_buffer rb') = 2 ^ k" "rb_mask rb' = 2 ^ k - 1" "n \<le> 2 ^ k" "k < 64"
proof (cases "n \<le> rb_mask rb + 1")
  case True
  from assms(1) obtain k where k: "k < 64" "length (rb_buffer rb) = 2 ^ k" "rb_mask rb = 2 ^ k - 1"
    by (auto simp: ring_holds_def)
  then show ?thesis using True assms(1,4) by (intro some [of rb h k]) (auto simp: hd_ringbuf_reserve_def)
next
  case False
  from assms obtain j where j: "ring_double 1 n = 2 ^ j" "n \<le> 2 ^ j" "j < 64"
    using ring_double_1 [of n] by auto
  show ?thesis
  proof (cases rule: hp_alloc_ok [OF assms(4), of "8 * 2 ^ j"])
    case (1 h1)
    show ?thesis by (rule none [of h1]) (use 1 j False in \<open>auto simp: hd_ringbuf_reserve_def\<close>)
  next
    case (2 a h1)
    obtain buf where buf: "ring_copy rb 0 (length es) (replicate (2 ^ j) None) = Inr buf" "length buf = 2 ^ j"
        "take (length es) buf = map Some es"
      using ring_copy_list [OF assms(1), of 0 "length es" "replicate (2 ^ j) None"] j assms(2) by auto
    let ?rb = "rb\<lparr>rb_addr := a, rb_buffer := buf, rb_mask := 2 ^ j - 1, rb_first := 0\<rparr>"
    have len: "rb_len rb = length es" using assms(1) by (simp add: ring_holds_def)
    have cell: "ring_cell ?rb (word_of_nat i) = i" if "i < 2 ^ j" for i
    proof -
      have "(2::nat) ^ j \<le> 2 ^ 64" using j(3) by (intro power_increasing) auto
      then show ?thesis using that j(3) by (subst ring_cell_mod [of _ j]) (auto simp: unat_of_nat)
    qed
    have "buf ! i = Some (es ! i)" if "i < length es" for i
      using arg_cong [OF buf(3), of "\<lambda>l. l ! i"] that by simp
    then have holds: "ring_holds ?rb es"
      unfolding ring_holds_def using cell buf(2) j assms(2) len
      by (auto intro!: exI [of _ j])
    have "rc_ok h1 (add_mset (Block (rb_addr rb)) (add_mset (Block a) R))" using 2(2) by (simp add: add_mset_commute)
    from hp_free_ok [OF this] obtain h2 where h2: "hp_free (rb_addr rb) h1 = Inr h2" "rc_ok h2 (add_mset (Block a) R)"
      "rc_str h2 = rc_str h1" "hp_next h2 = hp_next h1" by blast
    show ?thesis
    proof (rule some [of ?rb h2 j])
      show "hd_ringbuf_reserve rb n h = Inr (0, ?rb, h2)"
        using False j 2(1) buf(1) len h2(1) by (simp add: hd_ringbuf_reserve_def)
    qed (use holds buf(2) j h2 2 in simp_all)
  qed
qed

lemma ring_push:
  assumes "ring_holds rb es" "length es < 2 ^ 60" "rc_ok h (add_mset (Block (rb_addr rb)) R)"
  obtains (none) h' where "hd_ringbuf_push_front rb ent h = Inr (NGHTTP2_ERR_NOMEM, rb, h')" "rc_ok h' (add_mset (Block (rb_addr rb)) R)"
      "rc_str h' = rc_str h" "hp_next h \<le> hp_next h'"
  | (some) rb' h' where "hd_ringbuf_push_front rb ent h = Inr (0, rb', h')" "rc_ok h' (add_mset (Block (rb_addr rb')) R)"
      "rc_str h' = rc_str h" "hp_next h \<le> hp_next h'" "ring_holds rb' (ent # es)"
proof -
  have len: "rb_len rb = length es" using assms(1) by (simp add: ring_holds_def)
  have n: "length es < length es + 1" "length es + 1 \<le> 2 ^ 62" using assms(2) by simp_all
  show ?thesis
  proof (cases rule: ring_reserve [OF assms(1) n assms(3)])
    case (1 h')
    show ?thesis by (rule none) (use 1 len in \<open>simp_all add: hd_ringbuf_push_front_def NGHTTP2_ERR_NOMEM_def\<close>)
  next
    case (2 rb1 h1 k)
    have len1: "rb_len rb1 = length es" using 2(5) by (simp add: ring_holds_def)
    let ?first = "rb_first rb1 - 1"
    let ?c = "ring_cell rb1 ?first"
    let ?rb = "rb1\<lparr>rb_first := ?first, rb_buffer := (rb_buffer rb1)[?c := Some ent], rb_len := rb_len rb1 + 1\<rparr>"
    have c: "?c < length (rb_buffer rb1)" using 2 by (simp add: ring_cell_mod)
    have cell: "ring_cell ?rb = ring_cell rb1" by (simp add: ring_cell_def fun_eq_iff)
    have step: "rb_first rb1 - 1 + word_of_nat (Suc i) = rb_first rb1 + word_of_nat i" for i by simp
    have "rb_buffer ?rb ! ring_cell ?rb (?first + word_of_nat i) = Some ((ent # es) ! i)" if "i < length (ent # es)" for i
    proof (cases i)
      case 0
      then show ?thesis using c unfolding cell by simp
    next
      case (Suc i')
      then have i': "i' < length es" using that by simp
      have "ring_cell rb1 (?first + word_of_nat i) \<noteq> ?c"
        using ring_cell_inj [of rb1 k i 0 ?first] 2 Suc i' by auto
      moreover have "rb_buffer rb1 ! ring_cell rb1 (rb_first rb1 + word_of_nat i') = Some (es ! i')"
        using 2(5) i' by (simp add: ring_holds_def)
      ultimately show ?thesis unfolding Suc cell step by simp
    qed
    then have "ring_holds ?rb (ent # es)"
      unfolding ring_holds_def using 2 len1 by (auto intro!: exI [of _ k])
    then show ?thesis
      by (intro some [of ?rb h1]) (use 2 len c in \<open>simp_all add: hd_ringbuf_push_front_def Let_def\<close>)
  qed
qed

lemma ring_pop:
  assumes "ring_holds rb (es @ [e])"
  shows "hd_ringbuf_pop_back rb = Inr (rb\<lparr>rb_len := length es\<rparr>)" "ring_holds (rb\<lparr>rb_len := length es\<rparr>) es"
proof -
  have cell: "ring_cell (rb\<lparr>rb_len := length es\<rparr>) = ring_cell rb" by (simp add: ring_cell_def fun_eq_iff)
  show "ring_holds (rb\<lparr>rb_len := length es\<rparr>) es"
    using assms unfolding ring_holds_def cell by (force simp: nth_append)
qed (use assms in \<open>auto simp: hd_ringbuf_pop_back_def ring_holds_def c_assert_def\<close>)

section \<open>The dynamic table\<close>

text \<open>
  What the standard calls the dynamic table: a list of pairs, newest first. An entry costs 32
  bytes more than its strings; the table keeps the longest prefix that fits its limit.
\<close>

type_synonym hd_pair = "bytes \<times> bytes"

definition pair_room :: "hd_pair \<Rightarrow> nat" where
  "pair_room p = entry_room (length (fst p)) (length (snd p))"

definition dt_size :: "hd_pair list \<Rightarrow> nat" where
  "dt_size T = sum_list (map pair_room T)"

fun dt_fit :: "nat \<Rightarrow> hd_pair list \<Rightarrow> hd_pair list" where
  "dt_fit n [] = []"
| "dt_fit n (p # T) = (if pair_room p \<le> n then p # dt_fit (n - pair_room p) T else [])"

definition dt_add :: "nat \<Rightarrow> hd_pair \<Rightarrow> hd_pair list \<Rightarrow> hd_pair list" where
  "dt_add limit p T = dt_fit limit (p # T)"

lemma dt_size_simps [simp]: "dt_size [] = 0" "dt_size (p # T) = pair_room p + dt_size T" "dt_size (T @ U) = dt_size T + dt_size U"
  by (simp_all add: dt_size_def)

lemma pair_room_pos: "32 \<le> pair_room p"
  by (simp add: pair_room_def entry_room_def NGHTTP2_HD_ENTRY_OVERHEAD_def)

lemma dt_size_length: "32 * length T \<le> dt_size T"
  by (induction T) (use pair_room_pos in \<open>auto simp: add_mono\<close>)

lemma dt_fit_all: "dt_size T \<le> n \<Longrightarrow> dt_fit n T = T"
  by (induction T arbitrary: n) auto

lemma dt_fit_snoc: "dt_fit n (T @ [p]) = (if dt_size (T @ [p]) \<le> n then T @ [p] else dt_fit n T)"
  by (induction T arbitrary: n) auto

lemma dt_fit_size: "dt_size (dt_fit n T) \<le> n"
proof (induction T arbitrary: n)
  case (Cons p T)
  have "dt_size (dt_fit (n - pair_room p) T) \<le> n - pair_room p" by (rule Cons.IH)
  then show ?case by (simp only: dt_fit.simps dt_size_simps split: if_split) linarith
qed simp

lemma dt_fit_0 [simp]: "dt_fit 0 T = []"
proof (cases T)
  case (Cons p T')
  then show ?thesis using pair_room_pos [of p] by simp
qed simp

section \<open>The table in the heap\<close>

definition he_pair :: "rc_heap \<Rightarrow> nghttp2_hd_entry \<Rightarrow> hd_pair" where
  "he_pair h e = (rc_str h (hn_name (he_nv e)), rc_str h (hn_value (he_nv e)))"

text \<open>An entry holds its two strings, and the table owns the block of the entry.\<close>

definition table_refs :: "nghttp2_hd_entry list \<Rightarrow> owned multiset" where
  "table_refs es = mset (concat (map (\<lambda>e. [Held (hn_name (he_nv e)), Held (hn_value (he_nv e)), Block (he_addr e)]) es))"

definition map_holds :: "rc_heap \<Rightarrow> nghttp2_hd_map \<Rightarrow> nghttp2_hd_entry list \<Rightarrow> bool" where
  "map_holds h m es \<longleftrightarrow>
     length m = HD_MAP_SIZE \<and> (\<forall>b < HD_MAP_SIZE. m ! b = filter (\<lambda>e. hd_bucket (he_hash e) = b) es) \<and>
     (\<forall>e \<in> set es. he_hash e = nv_hash (fst (he_pair h e)) (hn_token (he_nv e)))"

text \<open>\<open>X\<close> is what is owned outside the entries of the table.\<close>

definition context_holds ::
  "nghttp2_hd_context \<Rightarrow> nghttp2_hd_map option \<Rightarrow> rc_heap \<Rightarrow> owned multiset \<Rightarrow> nghttp2_hd_entry list \<Rightarrow> bool" where
  "context_holds ctx hmap h X es \<longleftrightarrow>
     ring_holds (hc_table ctx) es \<and> hc_bufsize ctx = dt_size (map (he_pair h) es) \<and> hc_bufsize_max ctx < 2 ^ 64 \<and>
     (\<forall>i < length es. he_seq (es ! i) = hc_next_seq ctx - 1 - word_of_nat i) \<and>
     (\<forall>e \<in> set es. hn_token (he_nv e) = lookup_token (fst (he_pair h e))) \<and>
     distinct (map he_addr es) \<and> (\<forall>e \<in> set es. he_addr e < hp_next h) \<and> rc_ok h (table_refs es + X) \<and>
     (case hmap of None \<Rightarrow> True | Some m \<Rightarrow> map_holds h m es)"

lemma context_holdsD:
  assumes "context_holds ctx hmap h X es"
  shows "ring_holds (hc_table ctx) es" "hc_bufsize ctx = dt_size (map (he_pair h) es)" "hc_bufsize_max ctx < 2 ^ 64"
    "\<forall>i < length es. he_seq (es ! i) = hc_next_seq ctx - 1 - word_of_nat i"
    "\<forall>e \<in> set es. hn_token (he_nv e) = lookup_token (fst (he_pair h e))"
    "distinct (map he_addr es)" "\<forall>e \<in> set es. he_addr e < hp_next h" "rc_ok h (table_refs es + X)"
    "hmap = Some m \<Longrightarrow> map_holds h m es"
  using assms by (simp_all add: context_holds_def)

lemma table_refs_simps [simp]:
  "table_refs [] = {#}"
  "table_refs (e # es) = {#Held (hn_name (he_nv e)), Held (hn_value (he_nv e)), Block (he_addr e)#} + table_refs es"
  "table_refs (es @ fs) = table_refs es + table_refs fs"
  by (simp_all add: table_refs_def)

lemma table_refs_mem: "e \<in> set es \<Longrightarrow> Held (hn_name (he_nv e)) \<in># table_refs es \<and> Held (hn_value (he_nv e)) \<in># table_refs es"
  by (auto simp: table_refs_def)

lemma he_pair_same: "rc_same h h' (table_refs es) \<Longrightarrow> e \<in> set es \<Longrightarrow> he_pair h' e = he_pair h e"
  unfolding he_pair_def by (simp add: table_refs_mem rc_same_str)

lemma table_same: "rc_same h h' (table_refs es) \<Longrightarrow> map (he_pair h') es = map (he_pair h) es"
  by (auto intro: he_pair_same)

text \<open>The next free address is left alone by the counts.\<close>

lemma decref_next: "nghttp2_rcbuf_decref q h = Inr h' \<Longrightarrow> hp_next h' = hp_next h"
  by (auto simp: nghttp2_rcbuf_decref_def nghttp2_rcbuf_del_def rc_put_def Let_def res_bind_def
      split: option.splits rcptr.splits sum.splits if_splits)

lemma incref_next: "nghttp2_rcbuf_incref p h = Inr h' \<Longrightarrow> hp_next h' = hp_next h"
  by (auto simp: nghttp2_rcbuf_incref_def rc_put_def res_bind_def split: rcptr.splits sum.splits if_splits)

lemma rc_read:
  assumes "rc_ok h R" "Held p \<in># R"
  obtains r where "rc_get h p = Inr r" "rc_len r = length (rc_str h p)" "rd (rc_base r) 0 (rc_len r) = Inr (rc_str h p)"
proof (cases p)
  case (Rc a)
  with assms obtain r where "hp_bufs h a = Some r" "rc_len r \<le> length (rc_base r)" by (metis rc_held)
  with Rc that [of r] show ?thesis by (auto simp: rc_get_def rc_str_def rd_def)
next
  case (Rc_Static s)
  with that show ?thesis by (auto simp: rc_get_def rd_def)
qed

lemma nv_room_str:
  assumes "rc_ok h R" "Held (hn_name nv) \<in># R" "Held (hn_value nv) \<in># R"
  shows "nv_room h nv = Inr (pair_room (rc_str h (hn_name nv), rc_str h (hn_value nv)))"
  using rc_read [OF assms(1,2)] rc_read [OF assms(1,3)] by (metis (no_types, lifting) nv_room_def pair_room_def fst_conv snd_conv res_bind_Inr)

lemma name_eq_str: "rc_ok h R \<Longrightarrow> Held (hn_name nv) \<in># R \<Longrightarrow> name_eq h nv s = Inr (rc_str h (hn_name nv) = s)"
  by (rule rc_read [of h R "hn_name nv"]) (auto simp: name_eq_def)

lemma value_eq_str: "rc_ok h R \<Longrightarrow> Held (hn_value nv) \<in># R \<Longrightarrow> value_eq h nv s = Inr (rc_str h (hn_value nv) = s)"
  by (rule rc_read [of h R "hn_value nv"]) (auto simp: value_eq_def)

lemma entry_free:
  assumes "rc_ok h ({#Held (hn_name (he_nv e)), Held (hn_value (he_nv e))#} + R)"
  obtains h' where "nghttp2_hd_entry_free e h = Inr h'" "rc_ok h' R" "rc_same h h' R" "hp_next h' = hp_next h"
proof -
  have "rc_ok h (add_mset (Held (hn_value (he_nv e))) (add_mset (Held (hn_name (he_nv e))) R))"
    using assms by (simp add: add_mset_commute)
  from rc_decref [OF this] obtain h1 where h1: "nghttp2_rcbuf_decref (Some (hn_value (he_nv e))) h = Inr h1"
    "rc_ok h1 (add_mset (Held (hn_name (he_nv e))) R)" "rc_same h h1 (add_mset (Held (hn_name (he_nv e))) R)" by blast
  from rc_decref [OF h1(2)] obtain h2 where h2: "nghttp2_rcbuf_decref (Some (hn_name (he_nv e))) h1 = Inr h2"
    "rc_ok h2 R" "rc_same h1 h2 R" by blast
  have "rc_same h h2 R" using rc_same_mono [OF h1(3), of R] rc_same_trans [OF _ h2(3)] by simp
  then show ?thesis
    using that [of h2] h1 h2 by (simp add: nghttp2_hd_entry_free_def decref_next)
qed

lemma entry_del:
  assumes "rc_ok h ({#Held (hn_name (he_nv e)), Held (hn_value (he_nv e)), Block (he_addr e)#} + R)"
  obtains h1 h' where "nghttp2_hd_entry_free e h = Inr h1" "hp_free (he_addr e) h1 = Inr h'" "rc_ok h' R" "rc_same h h' R"
    "hp_next h' = hp_next h"
proof -
  have "rc_ok h ({#Held (hn_name (he_nv e)), Held (hn_value (he_nv e))#} + add_mset (Block (he_addr e)) R)"
    using assms by (simp add: add_mset_commute)
  from entry_free [OF this] obtain h1 where h1: "nghttp2_hd_entry_free e h = Inr h1" "rc_ok h1 (add_mset (Block (he_addr e)) R)"
    "rc_same h h1 (add_mset (Block (he_addr e)) R)" "hp_next h1 = hp_next h" by blast
  from hp_free_ok [OF h1(2)] obtain h2 where h2: "hp_free (he_addr e) h1 = Inr h2" "rc_ok h2 R" "rc_str h2 = rc_str h1"
    "hp_next h2 = hp_next h1" by blast
  have "rc_same h h2 R" using h1(3) h2(3) by (simp add: rc_same_def)
  then show ?thesis using that h1(1,4) h2 by simp
qed

lemma entry_init:
  assumes "rc_ok h R" "Held (hn_name nv) \<in># R" "Held (hn_value nv) \<in># R"
  obtains h' where "nghttp2_hd_entry_init a nv h = Inr (\<lparr>he_nv = nv, he_seq = 0, he_hash = 0, he_addr = a\<rparr>, h')"
    "rc_ok h' ({#Held (hn_name nv), Held (hn_value nv)#} + R)" "rc_str h' = rc_str h" "hp_next h' = hp_next h"
proof -
  from rc_incref [OF assms(1,2)] obtain h1 where h1: "nghttp2_rcbuf_incref (hn_name nv) h = Inr h1"
    "rc_ok h1 (add_mset (Held (hn_name nv)) R)" "rc_str h1 = rc_str h" by blast
  have "Held (hn_value nv) \<in># add_mset (Held (hn_name nv)) R" using assms(3) by simp
  from rc_incref [OF h1(2) this] obtain h2 where h2: "nghttp2_rcbuf_incref (hn_value nv) h1 = Inr h2"
    "rc_ok h2 (add_mset (Held (hn_value nv)) (add_mset (Held (hn_name nv)) R))" "rc_str h2 = rc_str h1" by blast
  show ?thesis
    using that [of h2] h1 h2 by (simp add: nghttp2_hd_entry_init_def incref_next add_mset_commute)
qed

section \<open>The hash table\<close>

lemma bucket_bound [simp]: "hd_bucket w < HD_MAP_SIZE"
proof -
  have "hd_bucket w = unat (take_bit 7 w)" by (simp add: hd_bucket_def HD_MAP_SIZE_def take_bit_eq_mask mask_eq_exp_minus_1)
  also have "\<dots> = take_bit 7 (unat w)" by (simp add: unsigned_take_bit_eq)
  also have "\<dots> < 2 ^ 7" by (rule take_bit_nat_less_exp)
  finally show ?thesis by (simp add: HD_MAP_SIZE_def)
qed

lemma unlink_last: "he_addr e \<notin> set (map he_addr es) \<Longrightarrow> hd_map_unlink (he_addr e) (es @ [e]) = es"
  by (induction es) auto

lemma map_remove_holds:
  assumes "map_holds h m (es @ [e])" "distinct (map he_addr (es @ [e]))"
  shows "map_holds h (hd_map_remove m e) es"
proof -
  have "he_addr e \<notin> set (map he_addr (filter P es))" for P using assms(2) by auto
  then show ?thesis
    using assms(1) by (auto simp: map_holds_def hd_map_remove_def Let_def nth_list_update unlink_last)
qed

lemma map_insert_holds:
  assumes "map_holds h m es" "he_hash e = nv_hash (fst (he_pair h e)) (hn_token (he_nv e))"
  shows "map_holds h (hd_map_insert m e) (e # es)"
  using assms by (auto simp: map_holds_def hd_map_insert_def Let_def nth_list_update)

lemma map_init_holds: "map_holds h hd_map_init []"
  by (simp add: map_holds_def hd_map_init_def)

lemma map_holds_same: "map_holds h m es \<Longrightarrow> rc_same h h' (table_refs es) \<Longrightarrow> map_holds h' m es"
  unfolding map_holds_def by (metis he_pair_same)

section \<open>Eviction and insertion\<close>

lemma context_frame:
  assumes "context_holds ctx hmap h X es" "rc_ok h' (table_refs es + X')" "rc_same h h' (table_refs es)" "hp_next h \<le> hp_next h'"
  shows "context_holds ctx hmap h' X' es"
proof -
  note D = context_holdsD [OF assms(1)]
  have "case hmap of None \<Rightarrow> True | Some m \<Rightarrow> map_holds h' m es"
    using D(9) map_holds_same [OF _ assms(3)] by (cases hmap) auto
  moreover have "\<forall>e \<in> set es. he_addr e < hp_next h'" using D(7) assms(4) by fastforce
  moreover have "\<forall>e \<in> set es. hn_token (he_nv e) = lookup_token (fst (he_pair h' e))"
    using D(5) he_pair_same [OF assms(3)] by simp
  moreover have "hc_bufsize ctx = dt_size (map (he_pair h') es)" unfolding table_same [OF assms(3)] by (rule D(2))
  ultimately show ?thesis using D(1,3,4,6) assms(2) by (simp add: context_holds_def)
qed

lemma context_own:
  assumes "context_holds ctx hmap h X es" "rc_ok h' (table_refs es + X')" "rc_str h' = rc_str h" "hp_next h \<le> hp_next h'"
  shows "context_holds ctx hmap h' X' es"
  by (rule context_frame [OF assms(1,2) _ assms(4)]) (simp add: rc_same_def assms(3))

lemma context_length: "context_holds ctx hmap h X es \<Longrightarrow> rb_len (hc_table ctx) = length es"
  by (simp add: context_holds_def ring_holds_def)

lemma context_entries:
  assumes "context_holds ctx hmap h X es" "hc_bufsize ctx < 2 ^ 64"
  shows "length es < 2 ^ 60"
  using dt_size_length [of "map (he_pair h) es"] context_holdsD(2) [OF assms(1)] assms(2) by simp

lemma evict_step:
  assumes "context_holds ctx hmap h X (es @ [e])"
  obtains rb h1 h2 where "hd_ringbuf_get (hc_table ctx) (rb_len (hc_table ctx) - 1) = Inr e"
    "nv_room h (he_nv e) = Inr (pair_room (he_pair h e))" "hd_ringbuf_pop_back (hc_table ctx) = Inr rb"
    "nghttp2_hd_entry_free e h = Inr h1" "hp_free (he_addr e) h1 = Inr h2" "rb_len rb < rb_len (hc_table ctx)"
    "context_holds (ctx\<lparr>hc_bufsize := size_sub (hc_bufsize ctx) (pair_room (he_pair h e)), hc_table := rb\<rparr>)
       (map_option (\<lambda>m. hd_map_remove m e) hmap) h2 X es"
    "rc_same h h2 (table_refs es + X)" "hp_next h \<le> hp_next h2" "rb_addr rb = rb_addr (hc_table ctx)"
proof -
  note D = context_holdsD [OF assms]
  let ?own = "{#Held (hn_name (he_nv e)), Held (hn_value (he_nv e)), Block (he_addr e)#}"
  have ok: "rc_ok h (?own + (table_refs es + X))" using D(8) by (simp add: add_ac)
  from entry_del [OF ok] obtain h1 h2 where h2: "nghttp2_hd_entry_free e h = Inr h1" "hp_free (he_addr e) h1 = Inr h2"
    "rc_ok h2 (table_refs es + X)" "rc_same h h2 (table_refs es + X)" "hp_next h2 = hp_next h" by blast
  have len: "rb_len (hc_table ctx) = length es + 1" using context_length [OF assms] by simp
  note pop = ring_pop [OF D(1)]
  let ?rb = "(hc_table ctx)\<lparr>rb_len := length es\<rparr>"
  let ?ctx = "ctx\<lparr>hc_bufsize := size_sub (hc_bufsize ctx) (pair_room (he_pair h e)), hc_table := ?rb\<rparr>"
  have "map_holds h (hd_map_remove m e) es" if "hmap = Some m" for m
    using map_remove_holds D(6,9) that by blast
  moreover have "\<forall>i < length es. he_seq (es ! i) = hc_next_seq ctx - 1 - word_of_nat i"
  proof (intro allI impI)
    fix i assume "i < length es"
    then show "he_seq (es ! i) = hc_next_seq ctx - 1 - word_of_nat i"
      using spec [OF D(4), of i] by (simp add: nth_append)
  qed
  moreover have "rc_ok h (table_refs es + (?own + X))"
    using D(8) by (simp add: add_ac)
  ultimately have "context_holds ?ctx (map_option (\<lambda>m. hd_map_remove m e) hmap) h (?own + X) es"
    using D(2,3,5,6,7) pop(2) unfolding context_holds_def
    by (auto simp: size_sub_def split: option.splits)
  then have "context_holds ?ctx (map_option (\<lambda>m. hd_map_remove m e) hmap) h2 X es"
    by (rule context_frame) (use h2 in \<open>auto intro: rc_same_mono\<close>)
  moreover have "hd_ringbuf_get (hc_table ctx) (rb_len (hc_table ctx) - 1) = Inr e"
    using ring_get [OF D(1), of "length es"] len by simp
  moreover have "nv_room h (he_nv e) = Inr (pair_room (he_pair h e))"
    using nv_room_str [OF ok] by (simp add: he_pair_def)
  ultimately show ?thesis using that [of ?rb h1 h2] pop(1) h2 len by simp
qed

lemma hd_evict:
  assumes "context_holds ctx hmap h X es"
  obtains ctx' hmap' h' es' where "hd_evict_loop room ctx hmap h = Inr (ctx', hmap', h')" "context_holds ctx' hmap' h' X es'"
    "map (he_pair h') es' =
      (if room \<le> hc_bufsize_max ctx then dt_fit (hc_bufsize_max ctx - room) (map (he_pair h) es) else [])"
    "hc_bufsize_max ctx' = hc_bufsize_max ctx" "hc_bad ctx' = hc_bad ctx" "rc_same h h' X" "(hmap' = None) = (hmap = None)"
    "rb_addr (hc_table ctx') = rb_addr (hc_table ctx)"
  using assms
proof (induction es arbitrary: ctx hmap h thesis rule: rev_induct)
  case Nil
  have "hd_evict_loop room ctx hmap h = Inr (ctx, hmap, h)"
    using context_length [OF Nil.prems(2)] by (subst hd_evict_loop.simps) simp
  then show ?case by (rule Nil.prems(1)) (use Nil.prems(2) in simp_all)
next
  case (snoc e es)
  note D = context_holdsD [OF snoc.prems(2)]
  note len = context_length [OF snoc.prems(2)]
  have sz: "hc_bufsize ctx = dt_size (map (he_pair h) (es @ [e]))" by (rule D(2))
  show ?case
  proof (cases "hc_bufsize_max ctx < hc_bufsize ctx + room")
    case False
    have "hd_evict_loop room ctx hmap h = Inr (ctx, hmap, h)" using False by (subst hd_evict_loop.simps) simp
    moreover have "room \<le> hc_bufsize_max ctx" "dt_size (map (he_pair h) (es @ [e])) \<le> hc_bufsize_max ctx - room"
      using False sz by linarith+
    ultimately show ?thesis
      by (intro snoc.prems(1) [OF _ snoc.prems(2)]) (simp_all only: dt_fit_all if_True rc_same_refl simp_thms)
  next
    case True
    obtain rb h1 h2 where st: "hd_ringbuf_get (hc_table ctx) (rb_len (hc_table ctx) - 1) = Inr e"
      "nv_room h (he_nv e) = Inr (pair_room (he_pair h e))" "hd_ringbuf_pop_back (hc_table ctx) = Inr rb"
      "nghttp2_hd_entry_free e h = Inr h1" "hp_free (he_addr e) h1 = Inr h2" "rb_len rb < rb_len (hc_table ctx)"
      "context_holds (ctx\<lparr>hc_bufsize := size_sub (hc_bufsize ctx) (pair_room (he_pair h e)), hc_table := rb\<rparr>)
         (map_option (\<lambda>m. hd_map_remove m e) hmap) h2 X es"
      "rc_same h h2 (table_refs es + X)" "hp_next h \<le> hp_next h2" "rb_addr rb = rb_addr (hc_table ctx)"
      using evict_step [OF snoc.prems(2)] by blast
    let ?ctx = "ctx\<lparr>hc_bufsize := size_sub (hc_bufsize ctx) (pair_room (he_pair h e)), hc_table := rb\<rparr>"
    obtain ctx' hmap' h' es' where r:
      "hd_evict_loop room ?ctx (map_option (\<lambda>m. hd_map_remove m e) hmap) h2 = Inr (ctx', hmap', h')"
      "context_holds ctx' hmap' h' X es'"
      "map (he_pair h') es' =
        (if room \<le> hc_bufsize_max ?ctx then dt_fit (hc_bufsize_max ?ctx - room) (map (he_pair h2) es) else [])"
      "hc_bufsize_max ctx' = hc_bufsize_max ?ctx" "hc_bad ctx' = hc_bad ?ctx" "rc_same h2 h' X"
      "(hmap' = None) = (map_option (\<lambda>m. hd_map_remove m e) hmap = None)" "rb_addr (hc_table ctx') = rb_addr (hc_table ?ctx)"
      using snoc.IH [OF _ st(7)] by blast
    have "hd_evict_loop room ctx hmap h = Inr (ctx', hmap', h')"
      using True len st(1-6) r(1) by (subst hd_evict_loop.simps) simp
    moreover have "map (he_pair h') es' =
        (if room \<le> hc_bufsize_max ctx then dt_fit (hc_bufsize_max ctx - room) (map (he_pair h) (es @ [e])) else [])"
    proof (cases "room \<le> hc_bufsize_max ctx")
      case fits: True
      have same: "map (he_pair h2) es = map (he_pair h) es"
        by (rule table_same [OF rc_same_mono [OF st(8)]]) simp
      have "\<not> dt_size (map (he_pair h) es @ [he_pair h e]) \<le> hc_bufsize_max ctx - room"
        using True sz fits by simp
      then show ?thesis using r(3) fits unfolding same by (simp add: dt_fit_snoc)
    qed (use r(3) in simp)
    moreover have "rc_same h h' X" using rc_same_trans [OF rc_same_mono [OF st(8)] r(6)] by simp
    ultimately show ?thesis using r(2,4,5,7,8) st(10) by (intro snoc.prems(1) [of ctx' hmap' h' es']) simp_all
  qed
qed

text \<open>Shrinking the table to a new limit.\<close>

lemma hd_shrink:
  assumes "context_holds ctx hmap h X es"
  obtains ctx' hmap' h' es' where "hd_context_shrink_table_size ctx hmap h = Inr (ctx', hmap', h')" "context_holds ctx' hmap' h' X es'"
    "map (he_pair h') es' = dt_fit (hc_bufsize_max ctx) (map (he_pair h) es)"
    "hc_bufsize_max ctx' = hc_bufsize_max ctx" "hc_bad ctx' = hc_bad ctx" "rc_same h h' X" "(hmap' = None) = (hmap = None)"
    "rb_addr (hc_table ctx') = rb_addr (hc_table ctx)"
  by (rule hd_evict [OF assms, of 0]) (simp_all add: hd_context_shrink_table_size_def)

lemma context_add_entry:
  assumes "context_holds ctx hmap h Y es" "rc_ok h (table_refs (e # es) + X)" "ring_holds rb (e # es)"
    "he_seq e = hc_next_seq ctx" "hn_token (he_nv e) = lookup_token (fst (he_pair h e))"
    "he_addr e \<notin> set (map he_addr es)" "he_addr e < hp_next h" "hc_bufsize ctx + pair_room (he_pair h e) \<le> hc_bufsize_max ctx"
    "hmap = None \<or> he_hash e = nv_hash (fst (he_pair h e)) (hn_token (he_nv e))"
  shows "context_holds (ctx\<lparr>hc_table := rb, hc_next_seq := hc_next_seq ctx + 1, hc_bufsize := hc_bufsize ctx + pair_room (he_pair h e)\<rparr>)
    (map_option (\<lambda>m. hd_map_insert m e) hmap) h X (e # es)"
proof -
  note D = context_holdsD [OF assms(1)]
  have "map_holds h (hd_map_insert m e) (e # es)" if "hmap = Some m" for m
    using map_insert_holds D(9) assms(9) that by auto
  moreover have "(e # es) ! i \<in> set (e # es)" "he_seq ((e # es) ! i) = hc_next_seq ctx + 1 - 1 - word_of_nat i"
    if "i < length (e # es)" for i
    using that assms(4) spec [OF D(4), of "i - 1"] by (cases i; simp)+
  ultimately show ?thesis
    using D(2,3,5,6,7) assms(2,3,5,6,7) unfolding context_holds_def
    by (auto split: option.splits)
qed

text \<open>An entry whose strings are held elsewhere too; if the ring cannot grow, it is given up again.\<close>

lemma entry_take_back:
  assumes "context_holds ctx hmap h X es" "rc_same h h1 (table_refs es + X)" "hp_next h \<le> hp_next h1"
    "rc_ok h1 ({#Held (hn_name (he_nv e)), Held (hn_value (he_nv e)), Block (he_addr e)#} + (table_refs es + X))"
  obtains h2 h3 where "nghttp2_hd_entry_free e h1 = Inr h2" "hp_free (he_addr e) h2 = Inr h3" "context_holds ctx hmap h3 X es"
    "rc_same h h3 (table_refs es + X)"
proof -
  from entry_del [OF assms(4)] obtain h2 h3 where h3: "nghttp2_hd_entry_free e h1 = Inr h2" "hp_free (he_addr e) h2 = Inr h3"
    "rc_ok h3 (table_refs es + X)" "rc_same h1 h3 (table_refs es + X)" "hp_next h3 = hp_next h1" by blast
  have same: "rc_same h h3 (table_refs es + X)" using rc_same_trans [OF assms(2) h3(4)] by simp
  have "context_holds ctx hmap h3 X es"
    by (rule context_frame [OF assms(1) h3(3) rc_same_mono [OF same]]) (use h3(5) assms(3) in simp_all)
  then show ?thesis using that h3(1,2) same by blast
qed

text \<open>The ring is owned beside the entries, at its address before and after.\<close>

abbreviation ring_own :: "nghttp2_hd_context \<Rightarrow> owned multiset \<Rightarrow> owned multiset" where
  "ring_own ctx X \<equiv> add_mset (Block (rb_addr (hc_table ctx))) X"

lemma hd_put:
  assumes "context_holds ctx hmap h (ring_own ctx X) es" "Held (hn_name nv) \<in># X" "Held (hn_value nv) \<in># X"
    and p: "p = (rc_str h (hn_name nv), rc_str h (hn_value nv))"
    and tok: "hn_token nv = lookup_token (fst p)" and hash: "hmap = None \<or> hash = nv_hash (fst p) (hn_token nv)"
    and le: "hc_bufsize ctx + pair_room p \<le> hc_bufsize_max ctx"
  obtains rv ctx' hmap' h' es' where "hd_table_put ctx nv hmap hash (pair_room p) h = Inr (rv, ctx', hmap', h')"
    "context_holds ctx' hmap' h' (ring_own ctx' X) es'" "rv = 0 \<or> rv = NGHTTP2_ERR_NOMEM"
    "map (he_pair h') es' = (if rv = 0 then p # map (he_pair h) es else map (he_pair h) es)"
    "hc_bufsize_max ctx' = hc_bufsize_max ctx" "hc_bad ctx' = hc_bad ctx" "rc_same h h' X" "(hmap' = None) = (hmap = None)"
proof -
  note D = context_holdsD [OF assms(1)]
  have nomem: "NGHTTP2_ERR_NOMEM \<noteq> 0" by (simp add: NGHTTP2_ERR_NOMEM_def)
  have pairs: "he_pair h' = he_pair h" if "rc_str h' = rc_str h" for h' by (simp add: he_pair_def fun_eq_iff that)
  show ?thesis
  proof (cases rule: hp_alloc_ok [OF D(8), of SIZEOF_HD_ENTRY])
    case (1 h1)
    have "context_holds ctx hmap h1 (ring_own ctx X) es" by (rule context_own [OF assms(1) 1(2,3)]) (simp add: 1(4))
    moreover have "hd_table_put ctx nv hmap hash (pair_room p) h = Inr (NGHTTP2_ERR_NOMEM, ctx, hmap, h1)"
      using 1(1) by (simp add: hd_table_put_def)
    ultimately show ?thesis
      by (intro that [of NGHTTP2_ERR_NOMEM ctx hmap h1 es]) (simp_all add: nomem rc_same_def 1(3) pairs [OF 1(3)] del: map_eq_conv)
  next
    case (2 addr h1)
    let ?ent = "\<lparr>he_nv = nv, he_seq = hc_next_seq ctx, he_hash = hash, he_addr = addr\<rparr>"
    let ?R = "add_mset (Block addr) (table_refs es + ring_own ctx X)"
    have in1: "Held (hn_name nv) \<in># ?R" "Held (hn_value nv) \<in># ?R" using assms(2,3) by simp_all
    obtain h2 where h2: "nghttp2_hd_entry_init addr nv h1 = Inr (\<lparr>he_nv = nv, he_seq = 0, he_hash = 0, he_addr = addr\<rparr>, h2)"
      "rc_ok h2 ({#Held (hn_name nv), Held (hn_value nv)#} + ?R)" "rc_str h2 = rc_str h1" "hp_next h2 = hp_next h1"
      using entry_init [OF 2(2) in1] by blast
    have len: "length es < 2 ^ 60" using context_entries [OF assms(1)] le D(3) by simp
    let ?own = "{#Held (hn_name nv), Held (hn_value nv), Block addr#} + (table_refs es + X)"
    have ok2: "rc_ok h2 (add_mset (Block (rb_addr (hc_table ctx))) ?own)"
      using h2(2) by (simp add: add_mset_commute)
    show ?thesis
    proof (cases rule: ring_push [OF D(1) len ok2, of ?ent])
      case push: (1 h3)
      have same: "rc_same h h3 (table_refs es + ring_own ctx X)" by (simp add: rc_same_def push(3) h2(3) 2(3))
      have nx: "hp_next h \<le> hp_next h3" using push(4) h2(4) 2(5) by simp
      have "rc_ok h3 ({#Held (hn_name (he_nv ?ent)), Held (hn_value (he_nv ?ent)), Block (he_addr ?ent)#} + (table_refs es + ring_own ctx X))"
        using push(2) by (simp add: add_mset_commute)
      from entry_take_back [OF assms(1) same nx this] obtain h4 h5 where h5: "nghttp2_hd_entry_free ?ent h3 = Inr h4"
        "hp_free (he_addr ?ent) h4 = Inr h5" "context_holds ctx hmap h5 (ring_own ctx X) es"
        "rc_same h h5 (table_refs es + ring_own ctx X)" by blast
      have "hd_table_put ctx nv hmap hash (pair_room p) h = Inr (NGHTTP2_ERR_NOMEM, ctx, hmap, h5)"
        using 2(1) h2(1) push(1) h5(1,2) nomem by (simp add: hd_table_put_def Let_def)
      moreover have "map (he_pair h5) es = map (he_pair h) es"
        by (rule table_same [OF rc_same_mono [OF h5(4)]]) simp
      moreover have "rc_same h h5 X" by (rule rc_same_mono [OF h5(4)]) (simp add: subset_mset.add_increasing)
      ultimately show ?thesis using h5(3) nomem
        by (intro that [of NGHTTP2_ERR_NOMEM ctx hmap h5 es]) simp_all
    next
      case push: (2 rb h3)
      have str3: "rc_str h3 = rc_str h" using push(3) h2(3) 2(3) by simp
      have nx3: "hp_next h1 \<le> hp_next h3" using push(4) h2(4) by simp
      let ?X = "add_mset (Block (rb_addr rb)) X"
      have ok3: "rc_ok h3 (table_refs (?ent # es) + ?X)" using push(2) by (simp add: add_mset_commute)
      have hold3: "context_holds ctx hmap h3 ({#Held (hn_name nv), Held (hn_value nv), Block addr#} + ?X) es"
        by (rule context_own [OF assms(1) _ str3]) (use ok3 nx3 2(5) in \<open>simp_all add: add_ac\<close>)
      have pair: "he_pair h3 ?ent = p" by (simp add: he_pair_def str3 p)
      have fresh: "he_addr ?ent \<notin> set (map he_addr es)" using D(7) 2(4) by fastforce
      have "context_holds (ctx\<lparr>hc_table := rb, hc_next_seq := hc_next_seq ctx + 1, hc_bufsize := hc_bufsize ctx + pair_room p\<rparr>)
          (map_option (\<lambda>m. hd_map_insert m ?ent) hmap) h3 ?X (?ent # es)"
        unfolding pair [symmetric]
        by (rule context_add_entry [OF hold3 ok3 push(5)]) (use tok hash fresh 2(4,5) nx3 pair le in simp_all)
      moreover have "hd_table_put ctx nv hmap hash (pair_room p) h = Inr (0, ctx\<lparr>hc_table := rb, hc_next_seq := hc_next_seq ctx + 1,
          hc_bufsize := hc_bufsize ctx + pair_room p\<rparr>, map_option (\<lambda>m. hd_map_insert m ?ent) hmap, h3)"
        using 2(1) h2(1) push(1) by (simp add: hd_table_put_def Let_def)
      ultimately show ?thesis using pair pairs [OF str3]
        by (intro that [of 0 "ctx\<lparr>hc_table := rb, hc_next_seq := hc_next_seq ctx + 1, hc_bufsize := hc_bufsize ctx + pair_room p\<rparr>" _ h3 "?ent # es"])
          (assumption | simp add: rc_same_def str3)+
    qed
  qed
qed

text \<open>Adding an entry keeps the longest prefix that fits.\<close>

lemma hd_add:
  assumes "context_holds ctx hmap h (ring_own ctx X) es" "Held (hn_name nv) \<in># X" "Held (hn_value nv) \<in># X"
    and p: "p = (rc_str h (hn_name nv), rc_str h (hn_value nv))"
    and tok: "hn_token nv = lookup_token (fst p)" and hash: "hmap = None \<or> hash = nv_hash (fst p) (hn_token nv)"
  obtains rv ctx' hmap' h' es' where "add_hd_table_incremental ctx nv hmap hash h = Inr (rv, ctx', hmap', h')"
    "context_holds ctx' hmap' h' (ring_own ctx' X) es'" "rv = 0 \<or> rv = NGHTTP2_ERR_NOMEM"
    "map (he_pair h') es' =
      (if rv = 0 then dt_add (hc_bufsize_max ctx) p (map (he_pair h) es)
       else dt_fit (hc_bufsize_max ctx - pair_room p) (map (he_pair h) es))"
    "hc_bufsize_max ctx' = hc_bufsize_max ctx" "hc_bad ctx' = hc_bad ctx" "rc_same h h' X" "(hmap' = None) = (hmap = None)"
proof -
  let ?max = "hc_bufsize_max ctx"
  have room: "nv_room h nv = Inr (pair_room p)"
    using nv_room_str [OF context_holdsD(8) [OF assms(1)], of nv] assms(2,3) p by simp
  obtain ctx1 hmap1 h1 es1 where ev: "hd_evict_loop (pair_room p) ctx hmap h = Inr (ctx1, hmap1, h1)"
    "context_holds ctx1 hmap1 h1 (ring_own ctx X) es1"
    "map (he_pair h1) es1 = (if pair_room p \<le> ?max then dt_fit (?max - pair_room p) (map (he_pair h) es) else [])"
    "hc_bufsize_max ctx1 = ?max" "hc_bad ctx1 = hc_bad ctx" "rc_same h h1 (ring_own ctx X)" "(hmap1 = None) = (hmap = None)"
    "rb_addr (hc_table ctx1) = rb_addr (hc_table ctx)"
    using hd_evict [OF assms(1)] by metis
  have hold1: "context_holds ctx1 hmap1 h1 (ring_own ctx1 X) es1" using ev(2,8) by simp
  have same1: "rc_same h h1 X" by (rule rc_same_mono [OF ev(6)]) simp
  have p1: "p = (rc_str h1 (hn_name nv), rc_str h1 (hn_value nv))"
    using rc_same_str [OF same1] assms(2,3) p by simp
  show ?thesis
  proof (cases "?max < pair_room p")
    case True
    have "add_hd_table_incremental ctx nv hmap hash h = Inr (0, ctx1, hmap1, h1)"
      using room ev(1,4) True by (simp add: add_hd_table_incremental_def)
    then show ?thesis using ev(3-5,7) hold1 same1 True by (intro that [of 0 ctx1 hmap1 h1 es1]) (simp_all add: dt_add_def)
  next
    case False
    then have fits: "map (he_pair h1) es1 = dt_fit (?max - pair_room p) (map (he_pair h) es)" using ev(3) by simp
    have "hc_bufsize ctx1 \<le> ?max - pair_room p" unfolding context_holdsD(2) [OF ev(2)] fits by (rule dt_fit_size)
    then have le: "hc_bufsize ctx1 + pair_room p \<le> hc_bufsize_max ctx1" using False ev(4) by linarith
    have hash1: "hmap1 = None \<or> hash = nv_hash (fst p) (hn_token nv)" using hash ev(7) by simp
    obtain rv ctx' hmap' h' es' where put: "hd_table_put ctx1 nv hmap1 hash (pair_room p) h1 = Inr (rv, ctx', hmap', h')"
      "context_holds ctx' hmap' h' (ring_own ctx' X) es'" "rv = 0 \<or> rv = NGHTTP2_ERR_NOMEM"
      "map (he_pair h') es' = (if rv = 0 then p # map (he_pair h1) es1 else map (he_pair h1) es1)"
      "hc_bufsize_max ctx' = hc_bufsize_max ctx1" "hc_bad ctx' = hc_bad ctx1" "rc_same h1 h' X" "(hmap' = None) = (hmap1 = None)"
      using hd_put [OF hold1 assms(2,3) p1 tok hash1 le] by blast
    have "add_hd_table_incremental ctx nv hmap hash h = Inr (rv, ctx', hmap', h')"
      using room ev(1,4) False put(1) by (simp add: add_hd_table_incremental_def)
    moreover have "rc_same h h' X" by (rule rc_same_trans [OF same1 put(7)]) simp
    ultimately show ?thesis using put(2-6,8) ev(4,5,7) fits False
      by (intro that [of rv ctx' hmap' h' es']) (simp_all add: dt_add_def split: if_splits)
  qed
qed

section \<open>Making and releasing a table\<close>

lemma hd_init:
  assumes "rc_ok h X"
  obtains (none) h' where "hd_context_init h = (NGHTTP2_ERR_NOMEM, None, h')" "rc_ok h' X" "rc_str h' = rc_str h" "hp_next h \<le> hp_next h'"
  | (some) ctx h' where "hd_context_init h = (0, Some ctx, h')" "context_holds ctx None h' (ring_own ctx X) []"
      "context_holds ctx (Some hd_map_init) h' (ring_own ctx X) []" "hc_bufsize_max ctx = 4096" "hc_bad ctx = False"
      "rc_str h' = rc_str h" "hp_next h \<le> hp_next h'"
proof (cases rule: hp_alloc_ok [OF assms, of "8 * ring_double 1 128"])
  case (1 h1)
  then show ?thesis
    by (intro none [of h1]) (simp_all add: hd_context_init_def hd_ringbuf_init_def Let_def
        NGHTTP2_HD_DEFAULT_MAX_BUFFER_SIZE_def NGHTTP2_HD_ENTRY_OVERHEAD_def)
next
  case (2 a h1)
  obtain rb where rb: "hd_ringbuf_init 128 h = (0, Some rb, h1)" "rb_addr rb = a"
    using 2(1) by (simp add: hd_ringbuf_init_def Let_def)
  let ?ctx = "\<lparr>hc_table = rb, hc_bufsize = 0, hc_bufsize_max = 4096, hc_next_seq = 0, hc_bad = False\<rparr>"
  have "hd_context_init h = (0, Some ?ctx, h1)"
    using rb(1) by (simp add: hd_context_init_def NGHTTP2_HD_DEFAULT_MAX_BUFFER_SIZE_def NGHTTP2_HD_ENTRY_OVERHEAD_def)
  moreover have "ring_holds rb []" using ring_init [OF _ _ rb(1)] by simp
  ultimately show ?thesis using 2 rb(2)
    by (intro some [of ?ctx h1]) (simp_all add: context_holds_def map_init_holds)
qed

lemma ring_free:
  "ring_holds rb es \<Longrightarrow> i + n = length es \<Longrightarrow> rc_ok h (table_refs (drop i es) + X) \<Longrightarrow>
   \<exists>h'. ring_free_loop rb i n h = Inr h' \<and> rc_ok h' X \<and> rc_same h h' X"
proof (induction n arbitrary: i h)
  case 0
  then show ?case by simp
next
  case (Suc n)
  then have i: "i < length es" by simp
  have ok: "rc_ok h ({#Held (hn_name (he_nv (es ! i))), Held (hn_value (he_nv (es ! i))), Block (he_addr (es ! i))#} +
      (table_refs (drop (i + 1) es) + X))"
    using Suc.prems(3) i by (simp add: Cons_nth_drop_Suc [symmetric] add_ac)
  from entry_del [OF ok] obtain h1 h2 where h2: "nghttp2_hd_entry_free (es ! i) h = Inr h1" "hp_free (he_addr (es ! i)) h1 = Inr h2"
    "rc_ok h2 (table_refs (drop (i + 1) es) + X)" "rc_same h h2 (table_refs (drop (i + 1) es) + X)" by blast
  obtain h' where h': "ring_free_loop rb (i + 1) n h2 = Inr h'" "rc_ok h' X" "rc_same h2 h' X"
    using Suc.IH [OF Suc.prems(1) _ h2(3)] Suc.prems(2) by auto
  have "rc_same h h' X" using rc_same_trans [OF rc_same_mono [OF h2(4)] h'(3), of X] by simp
  moreover have "ring_free_loop rb i (Suc n) h = Inr h'"
    using h'(1) h2(1,2) ring_get [OF Suc.prems(1) i] by simp
  ultimately show ?case using h'(2) by blast
qed

lemma hd_free:
  assumes "context_holds ctx hmap h (ring_own ctx X) es"
  obtains h' where "hd_context_free ctx h = Inr h'" "rc_ok h' X" "rc_same h h' X"
proof -
  note D = context_holdsD [OF assms]
  have "rc_ok h (table_refs (drop 0 es) + ring_own ctx X)" using D(8) by simp
  from ring_free [OF D(1) _ this] obtain h1 where h1: "ring_free_loop (hc_table ctx) 0 (length es) h = Inr h1"
    "rc_ok h1 (ring_own ctx X)" "rc_same h h1 (ring_own ctx X)" by auto
  from hp_free_ok [OF h1(2)] obtain h2 where h2: "hp_free (rb_addr (hc_table ctx)) h1 = Inr h2" "rc_ok h2 X" "rc_str h2 = rc_str h1" by blast
  have "rc_same h h2 X" using rc_same_mono [OF h1(3), of X] h2(3) by (simp add: rc_same_def)
  then show ?thesis
    using that [of h2] h1(1) h2(1,2) context_length [OF assms]
    by (simp add: hd_context_free_def hd_ringbuf_free_def)
qed

section \<open>Reading\<close>

text \<open>Both tables behind one index.\<close>

definition static_pairs :: "hd_pair list" where
  "static_pairs = map (\<lambda>e. (se_name e, se_value e)) static_table"

definition dt_get :: "hd_pair list \<Rightarrow> nat \<Rightarrow> hd_pair" where
  "dt_get T idx = (static_pairs @ T) ! idx"

lemma static_pairs_length [simp]: "length static_pairs = 61"
  by (simp add: static_pairs_def)

lemma table_get:
  assumes "context_holds ctx hmap h X es" "idx < 61 + length es"
  obtains nv where "nghttp2_hd_table_get ctx idx = Inr nv"
    "(rc_str h (hn_name nv), rc_str h (hn_value nv)) = dt_get (map (he_pair h) es) idx"
    "hn_token nv = lookup_token (rc_str h (hn_name nv))"
    "if idx < 61 then \<exists>n v. hn_name nv = Rc_Static n \<and> hn_value nv = Rc_Static v
     else Held (hn_name nv) \<in># table_refs es \<and> Held (hn_value nv) \<in># table_refs es"
proof (cases "idx < 61")
  case True
  let ?e = "static_table ! idx"
  have "lookup_token (se_name ?e) = se_token ?e" using static_tokens True by (simp add: list_all_length)
  moreover have "idx < rb_len (hc_table ctx) + 61" using True by simp
  ultimately show ?thesis
    by (intro that [of "\<lparr>hn_name = Rc_Static (se_name ?e), hn_value = Rc_Static (se_value ?e), hn_token = se_token ?e, hn_flags = 0\<rparr>"])
      (use True in \<open>simp_all add: nghttp2_hd_table_get_def index_range_valid_def c_assert_def NGHTTP2_STATIC_TABLE_LENGTH_def
        Let_def dt_get_def nth_append static_pairs_def\<close>)
next
  case False
  note D = context_holdsD [OF assms(1)]
  let ?e = "es ! (idx - 61)"
  have i: "idx - 61 < length es" using False assms(2) by linarith
  have get: "hd_ringbuf_get (hc_table ctx) (idx - 61) = Inr ?e" by (rule ring_get [OF D(1) i])
  have "nghttp2_hd_table_get ctx idx = Inr (he_nv ?e)"
    using get False assms(2) context_length [OF assms(1)]
    by (simp add: nghttp2_hd_table_get_def index_range_valid_def c_assert_def NGHTTP2_STATIC_TABLE_LENGTH_def)
  moreover have "(rc_str h (hn_name (he_nv ?e)), rc_str h (hn_value (he_nv ?e))) = dt_get (map (he_pair h) es) idx"
    using False i by (simp add: dt_get_def nth_append he_pair_def)
  moreover have "hn_token (he_nv ?e) = lookup_token (rc_str h (hn_name (he_nv ?e)))"
    using D(5) i by (simp add: he_pair_def)
  ultimately show ?thesis using that False table_refs_mem [OF nth_mem [OF i]] by simp
qed

lemma get_table_entry:
  assumes "context_holds ctx hmap h X es"
  shows "hd_get_table_entry ctx idx h =
    Inr (if 0 < idx \<and> idx \<le> 61 + length es then Some (dt_get (map (he_pair h) es) (idx - 1)) else None)"
proof (cases "0 < idx \<and> idx \<le> 61 + length es \<and> \<not> idx \<le> 61")
  case True
  note D = context_holdsD [OF assms]
  let ?e = "es ! (idx - 1 - 61)"
  have i: "idx - 1 - 61 < length es" using True by linarith
  have get: "hd_ringbuf_get (hc_table ctx) (idx - 1 - 61) = Inr ?e" by (rule ring_get [OF D(1) i])
  have "Held (hn_name (he_nv ?e)) \<in># table_refs es + X" "Held (hn_value (he_nv ?e)) \<in># table_refs es + X"
    using table_refs_mem [OF nth_mem [OF i]] by simp_all
  note bufs = rc_get_buf [OF D(8) this(1)] rc_get_buf [OF D(8) this(2)]
  have "dt_get (map (he_pair h) es) (idx - 1) = he_pair h ?e"
  proof -
    have "\<not> idx - 1 < 61" using True by linarith
    then show ?thesis using i by (simp add: dt_get_def nth_append)
  qed
  moreover have "61 \<le> idx - 1" "idx - 1 < length es + 61" using True i by linarith+
  ultimately show ?thesis using True get bufs context_length [OF assms]
    by (simp add: hd_get_table_entry_def nghttp2_hd_table_get2_def index_range_valid_def c_assert_def
        NGHTTP2_STATIC_TABLE_LENGTH_def he_pair_def)
next
  case False
  then show ?thesis using context_length [OF assms]
    by (auto simp: hd_get_table_entry_def nghttp2_hd_table_get2_def index_range_valid_def c_assert_def
        NGHTTP2_STATIC_TABLE_LENGTH_def dt_get_def nth_append static_pairs_def)
qed

section \<open>Searching\<close>

text \<open>The entries of the static table come in the order of their tokens, and carry the hash of their names.\<close>

lemma static_sorted: "sorted (map se_token static_table)"
  by (simp add: static_table_def make_static_ent_def)

lemma static_at_token: "list_all (\<lambda>e. se_token (static_table ! nat (se_token e)) = se_token e) static_table"
  by (simp add: static_table_def make_static_ent_def)

lemma static_run:
  assumes "k < 61" "se_token (static_table ! k) = t" "nat t \<le> j" "j \<le> k"
  shows "se_token (static_table ! j) = t"
proof -
  have t: "0 \<le> t" "t \<le> 60" using static_entry [OF assms(1)] assms(2) by simp_all
  have "se_token (static_table ! nat t) = t" using static_at_token assms(1,2) by (auto simp: list_all_length)
  moreover have "se_token (static_table ! nat t) \<le> se_token (static_table ! j)" "se_token (static_table ! j) \<le> se_token (static_table ! k)"
    using sorted_nth_mono [OF static_sorted, of "nat t" j] sorted_nth_mono [OF static_sorted, of j k] assms t by simp_all
  ultimately show ?thesis using assms(2) by simp
qed

lemma static_before: "k < 61 \<Longrightarrow> se_token (static_table ! k) = t \<Longrightarrow> nat t \<le> k"
proof (rule ccontr)
  assume k: "k < 61" "se_token (static_table ! k) = t" and "\<not> nat t \<le> k"
  have t: "0 \<le> t" "t \<le> 60" using static_entry [OF k(1)] k(2) by simp_all
  have "se_token (static_table ! nat t) = t" using static_at_token k by (auto simp: list_all_length)
  have "list_all (\<lambda>i. se_token (static_table ! i) \<le> int i) [0..<61]"
    by (simp add: static_table_def make_static_ent_def upt_rec)
  then have "se_token (static_table ! k) \<le> int k" using k(1) by (simp add: list_all_iff)
  then show False using k(2) \<open>\<not> nat t \<le> k\<close> by linarith
qed

lemma scan_Some:
  "static_scan val t i = Some k \<Longrightarrow> i \<le> k \<and> k < 61 \<and> se_token (static_table ! k) = t \<and> se_value (static_table ! k) = val"
proof (induction val t i rule: static_scan.induct)
  case (1 val t i)
  show ?case using "1.prems" "1.IH" by (subst (asm) static_scan.simps) (auto simp: NGHTTP2_TOKEN_WWW_AUTHENTICATE_def split: if_splits)
qed

lemma scan_None:
  "static_scan val t i = None \<Longrightarrow> k < 61 \<Longrightarrow> i \<le> k \<Longrightarrow> nat t \<le> i \<Longrightarrow> se_token (static_table ! k) = t \<Longrightarrow>
   se_value (static_table ! k) \<noteq> val"
proof (induction val t i rule: static_scan.induct)
  case (1 val t i)
  have t: "se_token (static_table ! i) = t" by (rule static_run [OF "1.prems"(2,5,4,3)])
  have le: "int i \<le> NGHTTP2_TOKEN_WWW_AUTHENTICATE" using "1.prems"(2,3) by (simp add: NGHTTP2_TOKEN_WWW_AUTHENTICATE_def)
  have v: "se_value (static_table ! i) \<noteq> val" and r: "static_scan val t (i + 1) = None"
    using "1.prems"(1) t le by (subst (asm) static_scan.simps; simp split: if_splits)+
  show ?case
  proof (cases "i = k")
    case False
    then show ?thesis using "1.IH" [OF _ _ r] t le v "1.prems" by auto
  qed (use v in simp)
qed

text \<open>The search in the static table for a name that has a token there.\<close>

lemma search_static:
  assumes tok: "0 \<le> lookup_token name" "lookup_token name \<le> NGHTTP2_TOKEN_WWW_AUTHENTICATE"
  obtains idx where "search_static_table val (lookup_token name) no = (int idx, \<not> no \<and> (name, val) \<in> set static_pairs)"
    "idx < 61" "fst (static_pairs ! idx) = name" "\<not> no \<Longrightarrow> (name, val) \<in> set static_pairs \<Longrightarrow> snd (static_pairs ! idx) = val"
proof -
  let ?t = "lookup_token name"
  have name: "se_name (static_table ! k) = name \<longleftrightarrow> se_token (static_table ! k) = ?t" if "k < 61" for k
    using static_entry(1) [OF that] lookup_inj [of name "se_name (static_table ! k)"] tok(1) by auto
  have first: "fst (static_pairs ! nat ?t) = name" "nat ?t < 61"
    using static_token_name [OF tok] tok by (simp_all add: static_pairs_def NGHTTP2_TOKEN_WWW_AUTHENTICATE_def)
  show ?thesis
  proof (cases "no \<or> static_scan val ?t (nat ?t) = None")
    case True
    have "(name, val) \<notin> set static_pairs" if "\<not> no"
    proof
      assume "(name, val) \<in> set static_pairs"
      then obtain k where k: "k < 61" "se_name (static_table ! k) = name" "se_value (static_table ! k) = val"
        by (auto simp: static_pairs_def in_set_conv_nth)
      have "se_token (static_table ! k) = ?t" using name k by simp
      from scan_None [OF _ k(1) static_before [OF k(1) this] _ this, of val] True that k(3) show False by auto
    qed
    then show ?thesis using that [of "nat ?t"] True first tok(1) by (auto simp: search_static_table_def)
  next
    case False
    then obtain k where k: "static_scan val ?t (nat ?t) = Some k" by auto
    from scan_Some [OF this] have "k < 61" "se_name (static_table ! k) = name" "se_value (static_table ! k) = val"
      using name by auto
    moreover from this have "(name, val) \<in> set static_pairs" by (force simp: static_pairs_def in_set_conv_nth)
    ultimately show ?thesis using that [of k] False k by (simp add: search_static_table_def static_pairs_def)
  qed
qed

text \<open>The loop over a bucket: the first entry that matches in full, or else the first one with the name.\<close>

lemma find_loop:
  assumes "rc_ok h R" "\<forall>e \<in> set ps. Held (hn_name (he_nv e)) \<in># R \<and> Held (hn_value (he_nv e)) \<in># R \<and>
      hn_token (he_nv e) = lookup_token (fst (he_pair h e)) \<and> he_hash e = nv_hash (fst (he_pair h e)) (hn_token (he_nv e))"
    "no \<longrightarrow> res = None"
  shows "hd_map_find_loop h name val (lookup_token name) (nv_hash name (lookup_token name)) no ps res =
    Inr (if no then (List.find (\<lambda>e. fst (he_pair h e) = name) ps, False)
         else (case List.find (\<lambda>e. he_pair h e = (name, val)) ps of
             Some e \<Rightarrow> (Some e, True)
           | None \<Rightarrow> (if res = None then List.find (\<lambda>e. fst (he_pair h e) = name) ps else res, False)))"
  using assms(2,3)
proof (induction ps arbitrary: res)
  case (Cons e ps)
  have e: "Held (hn_name (he_nv e)) \<in># R" "Held (hn_value (he_nv e)) \<in># R" "hn_token (he_nv e) = lookup_token (fst (he_pair h e))"
    "he_hash e = nv_hash (fst (he_pair h e)) (lookup_token (fst (he_pair h e)))" using Cons.prems(1) by auto
  have n: "name_eq h (he_nv e) s = Inr (fst (he_pair h e) = s)" and v: "value_eq h (he_nv e) s = Inr (snd (he_pair h e) = s)" for s
    using name_eq_str [OF assms(1) e(1)] value_eq_str [OF assms(1) e(2)] by (simp_all add: he_pair_def)
  have skip: "(if lookup_token name \<noteq> hn_token (he_nv e) then Inr True
      else if lookup_token name = -1 then
        (if nv_hash name (lookup_token name) \<noteq> he_hash e then Inr True else res_bind (name_eq h (he_nv e) name) (\<lambda>eq. Inr (\<not> eq)))
      else Inr False) = Inr (fst (he_pair h e) \<noteq> name)"
    using e(3,4) n lookup_inj [of name "fst (he_pair h e)"] by auto
  have ps: "\<forall>e \<in> set ps. Held (hn_name (he_nv e)) \<in># R \<and> Held (hn_value (he_nv e)) \<in># R \<and>
      hn_token (he_nv e) = lookup_token (fst (he_pair h e)) \<and> he_hash e = nv_hash (fst (he_pair h e)) (hn_token (he_nv e))"
    using Cons.prems(1) by simp
  show ?case
  proof (cases "fst (he_pair h e) = name")
    case False
    then have "he_pair h e \<noteq> (name, val)" by auto
    then show ?thesis using Cons.IH [OF ps Cons.prems(2)] False unfolding hd_map_find_loop.simps skip
      by (cases res) (simp_all split: option.splits)
  next
    case True
    show ?thesis
    proof (cases no)
      case False
      then have "no \<longrightarrow> (if res = None then Some e else res) = None" by simp
      from Cons.IH [OF ps this] True False show ?thesis
        unfolding hd_map_find_loop.simps skip v
        by (cases res) (simp_all add: prod_eq_iff Let_def split: option.splits)
    qed (use True Cons.prems(2) in \<open>unfold hd_map_find_loop.simps skip, simp\<close>)
  qed
qed simp

lemma find_filter: "List.find P (filter Q xs) = List.find (\<lambda>x. Q x \<and> P x) xs"
  by (induction xs) auto

lemma map_find:
  assumes "context_holds ctx (Some hmap) h X es"
  shows "hd_map_find h hmap name val (lookup_token name) (nv_hash name (lookup_token name)) no =
    Inr (if no then (List.find (\<lambda>e. fst (he_pair h e) = name) es, False)
         else (case List.find (\<lambda>e. he_pair h e = (name, val)) es of
             Some e \<Rightarrow> (Some e, True)
           | None \<Rightarrow> (List.find (\<lambda>e. fst (he_pair h e) = name) es, False)))"
proof -
  note D = context_holdsD [OF assms]
  let ?b = "hd_bucket (nv_hash name (lookup_token name))"
  have m: "map_holds h hmap es" using D(9) by simp
  then have b: "hmap ! ?b = filter (\<lambda>e. hd_bucket (he_hash e) = ?b) es" by (simp add: map_holds_def)
  have hash: "he_hash e = nv_hash (fst (he_pair h e)) (lookup_token (fst (he_pair h e)))" if "e \<in> set es" for e
    using m D(5) that by (simp add: map_holds_def)
  have "List.find (\<lambda>e. hd_bucket (he_hash e) = ?b \<and> fst (he_pair h e) = name) es = List.find (\<lambda>e. fst (he_pair h e) = name) es"
    "List.find (\<lambda>e. hd_bucket (he_hash e) = ?b \<and> he_pair h e = (name, val)) es = List.find (\<lambda>e. he_pair h e = (name, val)) es"
    by (rule find_cong; use hash in auto)+
  note finds = this
  have all: "\<forall>e \<in> set (hmap ! ?b). Held (hn_name (he_nv e)) \<in># table_refs es + X \<and> Held (hn_value (he_nv e)) \<in># table_refs es + X \<and>
      hn_token (he_nv e) = lookup_token (fst (he_pair h e)) \<and> he_hash e = nv_hash (fst (he_pair h e)) (hn_token (he_nv e))"
    unfolding b
  proof
    fix e assume "e \<in> set (filter (\<lambda>e. hd_bucket (he_hash e) = ?b) es)"
    then have "e \<in> set es" by simp
    with D(5) hash [OF this] table_refs_mem [OF this]
    show "Held (hn_name (he_nv e)) \<in># table_refs es + X \<and> Held (hn_value (he_nv e)) \<in># table_refs es + X \<and>
      hn_token (he_nv e) = lookup_token (fst (he_pair h e)) \<and> he_hash e = nv_hash (fst (he_pair h e)) (hn_token (he_nv e))"
      by simp
  qed
  show ?thesis
    unfolding hd_map_find_def find_loop [OF D(8) all, of no None name val, simplified] unfolding b find_filter finds
    by simp
qed

text \<open>
  The index that a search returns is that of a pair with the name, and with the value if the match is
  exact; the match is exact if and only if the pair is in one of the tables, unless the value is
  never to be indexed, and without a name there is no index.
\<close>

lemma find_SomeD: "List.find P xs = Some x \<Longrightarrow> \<exists>i < length xs. x = xs ! i \<and> P (xs ! i)"
  by (auto simp: find_Some_iff)

lemma entry_index:
  assumes "context_holds ctx hmap h X es" "i < length es" "length es \<le> 2 ^ 31"
  shows "int (unat (hc_next_seq ctx - 1 - he_seq (es ! i) + word_of_nat NGHTTP2_STATIC_TABLE_LENGTH)) = int (i + 61)"
proof -
  have "hc_next_seq ctx - 1 - he_seq (es ! i) = word_of_nat i"
    using context_holdsD(4) [OF assms(1)] assms(2) by simp
  then have "hc_next_seq ctx - 1 - he_seq (es ! i) + word_of_nat NGHTTP2_STATIC_TABLE_LENGTH = word_of_nat (i + 61)"
    by (simp add: NGHTTP2_STATIC_TABLE_LENGTH_def)
  then show ?thesis using assms(2,3) by (simp only: unat_of_nat) simp
qed

lemma search_hd_table_found:
  assumes "context_holds ctx (Some hmap) h X es" "length es \<le> 2 ^ 31"
  obtains idx exact where
    "search_hd_table ctx name val (lookup_token name) mode hmap (nv_hash name (lookup_token name)) h = Inr (idx, exact)"
    "exact \<longleftrightarrow> mode \<noteq> NGHTTP2_HD_NEVER_INDEXING \<and> (name, val) \<in> set (static_pairs @ map (he_pair h) es)"
    "if idx = -1 then name \<notin> fst ` set (static_pairs @ map (he_pair h) es)
     else 0 \<le> idx \<and> idx < int (61 + length es) \<and> fst (dt_get (map (he_pair h) es) (nat idx)) = name \<and>
       (exact \<longrightarrow> snd (dt_get (map (he_pair h) es) (nat idx)) = val)"
proof -
  let ?no = "mode = NGHTTP2_HD_NEVER_INDEXING"
  let ?named = "List.find (\<lambda>e. fst (he_pair h e) = name) es"
  let ?same = "List.find (\<lambda>e. he_pair h e = (name, val)) es"
  let ?search = "search_hd_table ctx name val (lookup_token name) mode hmap (nv_hash name (lookup_token name)) h"
  note find = map_find [OF assms(1), of name val ?no]
  have at: "dt_get (map (he_pair h) es) (i + 61) = he_pair h (es ! i)" if "i < length es" for i
    using that by (simp add: dt_get_def nth_append)
  show ?thesis
  proof (cases "\<not> ?no \<and> ?same \<noteq> None")
    case True
    then obtain e where e: "?same = Some e" by auto
    from find_SomeD [OF this] obtain i where i: "i < length es" "e = es ! i" "he_pair h e = (name, val)" by auto
    have "?search = Inr (int (i + 61), True)"
      using find True e entry_index [OF assms(1) i(1) assms(2)] i(2) by (simp add: search_hd_table_def)
    moreover have "(name, val) \<in> he_pair h ` set es" using i by (metis image_eqI nth_mem)
    ultimately show ?thesis using True i at [OF i(1)] by (intro that [of "int (i + 61)" True]) (simp_all add: nat_add_distrib)
  next
    case False
    have notin: "(name, val) \<notin> he_pair h ` set es" if "\<not> ?no" using False that by (auto simp: find_None_iff)
    have inexact: "hd_map_find h hmap name val (lookup_token name) (nv_hash name (lookup_token name)) ?no = Inr (?named, False)"
      using find False by (auto split: option.splits)
    show ?thesis
    proof (cases "0 \<le> lookup_token name \<and> lookup_token name \<le> NGHTTP2_TOKEN_WWW_AUTHENTICATE")
      case tok: True
      then obtain idx where idx: "search_static_table val (lookup_token name) ?no = (int idx, \<not> ?no \<and> (name, val) \<in> set static_pairs)"
        "idx < 61" "fst (static_pairs ! idx) = name" "\<not> ?no \<Longrightarrow> (name, val) \<in> set static_pairs \<Longrightarrow> snd (static_pairs ! idx) = val"
        using search_static by blast
      have "?search = Inr (int idx, \<not> ?no \<and> (name, val) \<in> set static_pairs)"
        using inexact tok idx(1) by (simp add: search_hd_table_def)
      then show ?thesis using notin idx(2-4)
        by (intro that [of "int idx" "\<not> ?no \<and> (name, val) \<in> set static_pairs"]) (auto simp: dt_get_def nth_append)
    next
      case tok: False
      have static: "name \<notin> fst ` set static_pairs"
      proof
        assume "name \<in> fst ` set static_pairs"
        then obtain k where k: "k < 61" "se_name (static_table ! k) = name" by (auto simp: static_pairs_def in_set_conv_nth)
        then show False using static_entry [OF k(1)] tok by (simp add: NGHTTP2_TOKEN_WWW_AUTHENTICATE_def)
      qed
      show ?thesis
      proof (cases ?named)
        case None
        have "?search = Inr (-1, False)" using inexact tok None by (auto simp: search_hd_table_def Let_def)
        moreover have no: "name \<notin> fst ` set (static_pairs @ map (he_pair h) es)"
          using None static by (auto simp: find_None_iff)
        moreover have "(name, val) \<notin> set (static_pairs @ map (he_pair h) es)" using no by (metis fst_conv image_eqI)
        ultimately show ?thesis by (intro that [of "-1" False]) simp_all
      next
        case (Some e)
        from find_SomeD [OF this] obtain i where i: "i < length es" "e = es ! i" "fst (he_pair h e) = name" by auto
        have "?search = Inr (int (i + 61), False)"
          using inexact tok Some entry_index [OF assms(1) i(1) assms(2)] i(2) by (auto simp: search_hd_table_def Let_def)
        moreover have "(name, val) \<notin> set static_pairs" using static by (metis fst_conv image_eqI)
        ultimately show ?thesis using notin i at [OF i(1)]
          by (intro that [of "int (i + 61)" False]) (auto simp: nat_add_distrib)
      qed
    qed
  qed
qed

section \<open>The table as a list\<close>

text \<open>
  The context, with the hash table of a deflater, stands for the list of pairs \<open>T\<close>. It owns its ring,
  its entries and the strings of the entries; the rest of what is alive in the heap is \<open>X\<close>.
\<close>

definition hd_table :: "nghttp2_hd_context \<Rightarrow> nghttp2_hd_map option \<Rightarrow> rc_heap \<Rightarrow> owned multiset \<Rightarrow> hd_pair list \<Rightarrow> bool" where
  "hd_table ctx hmap h X T \<longleftrightarrow> (\<exists>es. context_holds ctx hmap h (ring_own ctx X) es \<and> map (he_pair h) es = T)"

lemma hd_tableI: "context_holds ctx hmap h (ring_own ctx X) es \<Longrightarrow> map (he_pair h) es = T \<Longrightarrow> hd_table ctx hmap h X T"
  by (auto simp: hd_table_def)

lemma hd_tableE:
  assumes "hd_table ctx hmap h X T"
  obtains es where "context_holds ctx hmap h (ring_own ctx X) es" "map (he_pair h) es = T" "length es = length T"
  using assms by (auto simp: hd_table_def)

lemma hd_table_add:
  assumes "hd_table ctx hmap h X T" "Held (hn_name nv) \<in># X" "Held (hn_value nv) \<in># X"
    "p = (rc_str h (hn_name nv), rc_str h (hn_value nv))" "hn_token nv = lookup_token (fst p)"
    "hmap = None \<or> hash = nv_hash (fst p) (hn_token nv)"
  obtains rv ctx' hmap' h' where "add_hd_table_incremental ctx nv hmap hash h = Inr (rv, ctx', hmap', h')"
    "rv = 0 \<or> rv = NGHTTP2_ERR_NOMEM"
    "hd_table ctx' hmap' h' X (if rv = 0 then dt_add (hc_bufsize_max ctx) p T else dt_fit (hc_bufsize_max ctx - pair_room p) T)"
    "hc_bufsize_max ctx' = hc_bufsize_max ctx" "hc_bad ctx' = hc_bad ctx" "rc_same h h' X" "(hmap' = None) = (hmap = None)"
proof -
  obtain es where es: "context_holds ctx hmap h (ring_own ctx X) es" "map (he_pair h) es = T" by (rule hd_tableE [OF assms(1)])
  from hd_add [OF es(1) assms(2-6)] obtain rv ctx' hmap' h' es' where
    "add_hd_table_incremental ctx nv hmap hash h = Inr (rv, ctx', hmap', h')"
    "context_holds ctx' hmap' h' (ring_own ctx' X) es'" "rv = 0 \<or> rv = NGHTTP2_ERR_NOMEM"
    "map (he_pair h') es' =
      (if rv = 0 then dt_add (hc_bufsize_max ctx) p (map (he_pair h) es)
       else dt_fit (hc_bufsize_max ctx - pair_room p) (map (he_pair h) es))"
    "hc_bufsize_max ctx' = hc_bufsize_max ctx" "hc_bad ctx' = hc_bad ctx" "rc_same h h' X" "(hmap' = None) = (hmap = None)"
    by blast
  then show ?thesis using that es(2) unfolding hd_table_def by blast
qed

lemma hd_table_shrink:
  assumes "hd_table ctx hmap h X T"
  obtains ctx' hmap' h' where "hd_context_shrink_table_size ctx hmap h = Inr (ctx', hmap', h')"
    "hd_table ctx' hmap' h' X (dt_fit (hc_bufsize_max ctx) T)"
    "hc_bufsize_max ctx' = hc_bufsize_max ctx" "hc_bad ctx' = hc_bad ctx" "rc_same h h' X" "(hmap' = None) = (hmap = None)"
proof -
  obtain es where es: "context_holds ctx hmap h (ring_own ctx X) es" "map (he_pair h) es = T" by (rule hd_tableE [OF assms])
  from hd_shrink [OF es(1)] obtain ctx' hmap' h' es' where r:
    "hd_context_shrink_table_size ctx hmap h = Inr (ctx', hmap', h')" "context_holds ctx' hmap' h' (ring_own ctx X) es'"
    "map (he_pair h') es' = dt_fit (hc_bufsize_max ctx) (map (he_pair h) es)"
    "hc_bufsize_max ctx' = hc_bufsize_max ctx" "hc_bad ctx' = hc_bad ctx" "rc_same h h' (ring_own ctx X)"
    "(hmap' = None) = (hmap = None)" "rb_addr (hc_table ctx') = rb_addr (hc_table ctx)" by metis
  have "hd_table ctx' hmap' h' X (dt_fit (hc_bufsize_max ctx) T)"
    by (rule hd_tableI [of _ _ _ _ es']) (use r(2,3,8) es(2) in simp_all)
  moreover have "rc_same h h' X" by (rule rc_same_mono [OF r(6)]) simp
  ultimately show ?thesis using that r(1,4,5,7) by blast
qed

lemma hd_table_get:
  assumes "hd_table ctx hmap h X T" "idx < 61 + length T"
  obtains nv where "nghttp2_hd_table_get ctx idx = Inr nv" "(rc_str h (hn_name nv), rc_str h (hn_value nv)) = dt_get T idx"
    "hn_token nv = lookup_token (rc_str h (hn_name nv))"
    "\<exists>R. X \<subseteq># R \<and> rc_ok h R \<and> (\<forall>p \<in> {hn_name nv, hn_value nv}. Held p \<in># R \<or> (\<exists>s. p = Rc_Static s))"
proof -
  obtain es where es: "context_holds ctx hmap h (ring_own ctx X) es" "map (he_pair h) es = T" by (rule hd_tableE [OF assms(1)])
  then have "idx < 61 + length es" using assms(2) by auto
  from table_get [OF es(1) this] obtain nv where nv: "nghttp2_hd_table_get ctx idx = Inr nv"
    "(rc_str h (hn_name nv), rc_str h (hn_value nv)) = dt_get (map (he_pair h) es) idx"
    "hn_token nv = lookup_token (rc_str h (hn_name nv))"
    "if idx < 61 then \<exists>n v. hn_name nv = Rc_Static n \<and> hn_value nv = Rc_Static v
     else Held (hn_name nv) \<in># table_refs es \<and> Held (hn_value nv) \<in># table_refs es" by blast
  have "\<forall>p \<in> {hn_name nv, hn_value nv}. Held p \<in># table_refs es + ring_own ctx X \<or> (\<exists>s. p = Rc_Static s)"
    using nv(4) by (cases "idx < 61") auto
  then have "\<exists>R. X \<subseteq># R \<and> rc_ok h R \<and> (\<forall>p \<in> {hn_name nv, hn_value nv}. Held p \<in># R \<or> (\<exists>s. p = Rc_Static s))"
    using context_holdsD(8) [OF es(1)] by (intro exI [of _ "table_refs es + ring_own ctx X"]) (simp add: subset_mset.add_increasing)
  then show ?thesis using that nv(1-3) es(2) by simp
qed

lemma hd_table_index:
  "hd_table ctx hmap h X T \<Longrightarrow> get_max_index ctx = 61 + length T \<and> (index_range_valid ctx idx \<longleftrightarrow> idx < 61 + length T)"
  by (auto simp: hd_table_def get_max_index_def index_range_valid_def NGHTTP2_STATIC_TABLE_LENGTH_def context_length)

lemma hd_table_frame:
  assumes "hd_table ctx hmap h X T" "\<And>R. rc_ok h (R + X) \<Longrightarrow> rc_ok h' (R + X') \<and> rc_same h h' R" "hp_next h \<le> hp_next h'"
  shows "hd_table ctx hmap h' X' T"
proof -
  obtain es where es: "context_holds ctx hmap h (ring_own ctx X) es" "map (he_pair h) es = T" by (rule hd_tableE [OF assms(1)])
  have "rc_ok h (ring_own ctx (table_refs es) + X)" using context_holdsD(8) [OF es(1)] by simp
  from assms(2) [OF this] have ok: "rc_ok h' (table_refs es + ring_own ctx X')" "rc_same h h' (ring_own ctx (table_refs es))" by simp_all
  have same: "rc_same h h' (table_refs es)" by (rule rc_same_mono [OF ok(2)]) simp
  have "context_holds ctx hmap h' (ring_own ctx X') es" by (rule context_frame [OF es(1) ok(1) same assms(3)])
  then show ?thesis by (rule hd_tableI) (use table_same [OF same] es(2) in simp)
qed

text \<open>
  C15. Adding a pair whose strings are held elsewhere to the dynamic table, with its evictions and its hash
  table, gives the longest prefix of the new list of pairs that fits the limit; without memory the pair is
  left out, but the pairs that were evicted for it are gone. In both cases the strings, the entries and the
  ring that are alive are exactly those that the new table and the others own: every evicted entry is
  released, once.
\<close>

theorem add_entry_refines:
  assumes "hd_table ctx hmap h X T" "Held (hn_name nv) \<in># X" "Held (hn_value nv) \<in># X"
    "hn_token nv = lookup_token (rc_str h (hn_name nv))" "hash = nv_hash (rc_str h (hn_name nv)) (hn_token nv)"
  shows "\<exists>rv ctx' hmap' h'. add_hd_table_incremental ctx nv hmap hash h = Inr (rv, ctx', hmap', h') \<and> rc_same h h' X \<and>
    (let p = (rc_str h (hn_name nv), rc_str h (hn_value nv)); limit = hc_bufsize_max ctx
     in if rv = 0 then hd_table ctx' hmap' h' X (dt_fit limit (p # T))
        else rv = NGHTTP2_ERR_NOMEM \<and> hd_table ctx' hmap' h' X (dt_fit (limit - pair_room p) T))"
proof -
  let ?p = "(rc_str h (hn_name nv), rc_str h (hn_value nv))"
  have tok: "hn_token nv = lookup_token (fst ?p)" and hash: "hmap = None \<or> hash = nv_hash (fst ?p) (hn_token nv)"
    using assms(4,5) by simp_all
  obtain rv ctx' hmap' h' where r: "add_hd_table_incremental ctx nv hmap hash h = Inr (rv, ctx', hmap', h')"
    "rv = 0 \<or> rv = NGHTTP2_ERR_NOMEM"
    "hd_table ctx' hmap' h' X (if rv = 0 then dt_add (hc_bufsize_max ctx) ?p T else dt_fit (hc_bufsize_max ctx - pair_room ?p) T)"
    "hc_bufsize_max ctx' = hc_bufsize_max ctx" "hc_bad ctx' = hc_bad ctx" "rc_same h h' X" "(hmap' = None) = (hmap = None)"
    by (rule hd_table_add [OF assms(1-3) refl tok hash])
  show ?thesis
    by (intro exI conjI, rule r(1), rule r(6)) (use r(2,3) in \<open>cases "rv = 0"; simp add: dt_add_def Let_def\<close>)
qed

lemma search_hd_table_ex:
  assumes "hd_table ctx (Some hmap) h X T" "length T \<le> 2 ^ 31"
  shows "\<exists>idx exact. search_hd_table ctx name val (lookup_token name) mode hmap (nv_hash name (lookup_token name)) h = Inr (idx, exact) \<and>
    (exact = (mode \<noteq> NGHTTP2_HD_NEVER_INDEXING \<and> (name, val) \<in> set (static_pairs @ T))) \<and>
    (if idx = -1 then name \<notin> fst ` set (static_pairs @ T)
     else 0 \<le> idx \<and> idx < int (61 + length T) \<and>
       (if exact then dt_get T (nat idx) = (name, val) else fst (dt_get T (nat idx)) = name))"
proof -
  obtain es where es: "context_holds ctx (Some hmap) h (ring_own ctx X) es" "map (he_pair h) es = T" and len: "length es = length T"
    by (rule hd_tableE [OF assms(1)])
  then have "length es \<le> 2 ^ 31" using assms(2) by simp
  from search_hd_table_found [OF es(1) this, of name val mode] obtain idx exact where s:
    "search_hd_table ctx name val (lookup_token name) mode hmap (nv_hash name (lookup_token name)) h = Inr (idx, exact)"
    "exact \<longleftrightarrow> mode \<noteq> NGHTTP2_HD_NEVER_INDEXING \<and> (name, val) \<in> set (static_pairs @ map (he_pair h) es)"
    "if idx = -1 then name \<notin> fst ` set (static_pairs @ map (he_pair h) es)
     else 0 \<le> idx \<and> idx < int (61 + length es) \<and> fst (dt_get (map (he_pair h) es) (nat idx)) = name \<and>
       (exact \<longrightarrow> snd (dt_get (map (he_pair h) es) (nat idx)) = val)" by blast
  then show ?thesis unfolding es(2) len by (auto simp: prod_eq_iff split: if_splits)
qed

text \<open>
  C16. The search of the deflater finds a pair if and only if one of the tables has it, unless the value
  must not be indexed, and a name if and only if one of them has it, and the index it returns is a place
  where it stands.
\<close>

theorem search_hd_table_spec:
  assumes "hd_table ctx (Some hmap) h X T" "length T \<le> 2 ^ 31"
  shows "\<exists>idx exact. search_hd_table ctx name val (lookup_token name) mode hmap (nv_hash name (lookup_token name)) h = Inr (idx, exact) \<and>
    (exact = (mode \<noteq> NGHTTP2_HD_NEVER_INDEXING \<and> (name, val) \<in> set (static_pairs @ T))) \<and>
    (if idx = -1 then name \<notin> fst ` set (static_pairs @ T)
     else 0 \<le> idx \<and> idx < int (61 + length T) \<and>
       (if exact then dt_get T (nat idx) = (name, val) else fst (dt_get T (nat idx)) = name))"
  by (rule search_hd_table_ex [OF assms])

text \<open>A new table on a heap without strings.\<close>

definition wit_heap :: rc_heap where
  "wit_heap = \<lparr>hp_mem = \<lparr>mem_answers = [Some (\<lambda>i. 0), Some (\<lambda>i. 0), Some (\<lambda>i. 0), Some (\<lambda>i. 0)], mem_live = 0\<rparr>, hp_bufs = \<lambda>a. None, hp_blocks = {}, hp_next = 0\<rparr>"

definition wit_ctx :: nghttp2_hd_context where
  "wit_ctx = (case hd_context_init wit_heap of (rv, Some c, h) \<Rightarrow> c)"

definition wit_heap1 :: rc_heap where
  "wit_heap1 = (case hd_context_init wit_heap of (rv, c, h) \<Rightarrow> h)"

lemma wit_size: "ring_double 1 128 = 128"
  by (simp add: ring_double.simps)

lemma wit_init: "hd_context_init wit_heap = (0, Some wit_ctx, wit_heap1)"
  by (simp add: wit_ctx_def wit_heap1_def hd_context_init_def hd_ringbuf_init_def hp_alloc_def wit_heap_def nghttp2_mem_malloc_def
      NGHTTP2_HD_DEFAULT_MAX_BUFFER_SIZE_def NGHTTP2_HD_ENTRY_OVERHEAD_def wit_size [simplified] Let_def)

lemma wit_ok: "rc_ok wit_heap {#}"
  by (simp add: rc_ok_def string_ok_def block_ok_def wit_heap_def)

definition wit_nv :: nghttp2_hd_nv where
  "wit_nv = \<lparr>hn_name = Rc_Static (bytes_of ''x''), hn_value = Rc_Static (bytes_of ''1''), hn_token = -1, hn_flags = 0\<rparr>"

lemma wit_table: "hd_table wit_ctx (Some hd_map_init) wit_heap1 {#Held (hn_name wit_nv), Held (hn_value wit_nv)#} []"
proof -
  have "rc_ok wit_heap {#Held (hn_name wit_nv), Held (hn_value wit_nv)#}" using wit_ok by (simp add: wit_nv_def)
  then show ?thesis by (cases rule: hd_init) (simp_all add: wit_init hd_table_def)
qed

lemma wit_limit: "hc_bufsize_max wit_ctx = 4096"
  using wit_ok by (cases rule: hd_init) (simp_all add: wit_init)

lemma wit_token: "lookup_token (bytes_of ''x'') = -1"
  by (simp add: lookup_token_def bytes_of_def lookup_token_2_6_def)

theorem add_entry_refines_witness:
  "\<exists>rv ctx hmap h. add_hd_table_incremental wit_ctx wit_nv (Some hd_map_init) (nv_hash (bytes_of ''x'') (-1)) wit_heap1 = Inr (rv, ctx, hmap, h) \<and>
    (rv = 0 \<longrightarrow> hd_table ctx hmap h {#Held (hn_name wit_nv), Held (hn_value wit_nv)#} [(bytes_of ''x'', bytes_of ''1'')])"
proof -
  have str: "rc_str wit_heap1 (hn_name wit_nv) = bytes_of ''x''" "rc_str wit_heap1 (hn_value wit_nv) = bytes_of ''1''" "hn_token wit_nv = -1"
    by (simp_all add: wit_nv_def)
  have "dt_fit (hc_bufsize_max wit_ctx) [(bytes_of ''x'', bytes_of ''1'')] = [(bytes_of ''x'', bytes_of ''1'')]"
    by (simp add: wit_limit pair_room_def entry_room_def NGHTTP2_HD_ENTRY_OVERHEAD_def)
  then show ?thesis
    using add_entry_refines [OF wit_table, of wit_nv "nv_hash (bytes_of ''x'') (-1)"] str wit_token by (auto simp: Let_def)
qed

theorem search_hd_table_spec_witness:
  "\<exists>idx exact. search_hd_table wit_ctx (bytes_of '':path'') (bytes_of ''/'') (lookup_token (bytes_of '':path'')) NGHTTP2_HD_WITH_INDEXING
      hd_map_init (nv_hash (bytes_of '':path'') (lookup_token (bytes_of '':path''))) wit_heap1 = Inr (idx, exact) \<and>
    exact \<and> dt_get [] (nat idx) = (bytes_of '':path'', bytes_of ''/'')"
proof -
  have "(bytes_of '':path'', bytes_of ''/'') \<in> set static_pairs" by (simp add: static_pairs_def static_table_def make_static_ent_def)
  moreover from this have "bytes_of '':path'' \<in> fst ` set static_pairs" by (metis fst_conv image_eqI)
  ultimately show ?thesis
    using search_hd_table_spec [OF wit_table, of "bytes_of '':path''" "bytes_of ''/''" NGHTTP2_HD_WITH_INDEXING] by (auto split: if_splits)
qed

section \<open>Strings beside the table\<close>

text \<open>Strings are made, shared and released by the users of the table, and it stays as it is.\<close>

lemma new2_next: "nghttp2_rcbuf_new2 s h = Inr (rv, p, h') \<Longrightarrow> hp_next h \<le> hp_next h'"
  by (auto simp: nghttp2_rcbuf_new2_def nghttp2_rcbuf_new_def rc_put_def
      split: option.splits prod.splits rcptr.splits elim!: res_bind_InrE)

lemma he_pair_str: "rc_str h' = rc_str h \<Longrightarrow> he_pair h' = he_pair h"
  by (simp add: he_pair_def fun_eq_iff)

lemma table_same_sub: "rc_same h h' (table_refs es + X) \<Longrightarrow> map (he_pair h') es = map (he_pair h) es"
  by (rule table_same, erule rc_same_mono) simp

lemma table_new2:
  assumes "hd_table ctx hmap h X T"
  obtains (none) h' where "nghttp2_rcbuf_new2 s h = Inr (NGHTTP2_ERR_NOMEM, None, h')" "hd_table ctx hmap h' X T" "rc_same h h' X"
  | (some) p h' where "nghttp2_rcbuf_new2 s h = Inr (0, Some p, h')" "hd_table ctx hmap h' (add_mset (Held p) X) T" "rc_same h h' X"
      "rc_str h' p = s"
proof -
  obtain es where es: "context_holds ctx hmap h (ring_own ctx X) es" "map (he_pair h) es = T" by (rule hd_tableE [OF assms])
  have sub: "rc_same h h' X" if "rc_same h h' (table_refs es + ring_own ctx X)" for h'
    by (rule rc_same_mono [OF that]) (simp add: subset_mset.add_increasing)
  show ?thesis
  proof (cases rule: rc_new2 [OF context_holdsD(8) [OF es(1)], of s])
    case (1 h')
    have "context_holds ctx hmap h' (ring_own ctx X) es"
      by (rule context_frame [OF es(1) 1(2) rc_same_mono [OF 1(3)] new2_next [OF 1(1)]]) simp
    moreover have "map (he_pair h') es = T" using table_same_sub [OF 1(3)] es(2) by (rule trans)
    ultimately show ?thesis by (intro none [OF 1(1)] hd_tableI sub [OF 1(3)])
  next
    case (2 p h')
    have "rc_ok h' (table_refs es + ring_own ctx (add_mset (Held p) X))" using 2(2) by (simp add: add_mset_commute)
    then have "context_holds ctx hmap h' (ring_own ctx (add_mset (Held p) X)) es"
      by (rule context_frame [OF es(1) _ rc_same_mono [OF 2(3)] new2_next [OF 2(1)]]) simp
    moreover have "map (he_pair h') es = T" using table_same_sub [OF 2(3)] es(2) by (rule trans)
    ultimately show ?thesis by (intro some [OF 2(1)] hd_tableI sub [OF 2(3)] 2(5))
  qed
qed

lemma table_decref:
  assumes "hd_table ctx hmap h (add_mset (Held p) X) T"
  obtains h' where "nghttp2_rcbuf_decref (Some p) h = Inr h'" "hd_table ctx hmap h' X T" "rc_same h h' X"
proof -
  obtain es where es: "context_holds ctx hmap h (ring_own ctx (add_mset (Held p) X)) es" "map (he_pair h) es = T"
    by (rule hd_tableE [OF assms])
  have "rc_ok h (add_mset (Held p) (table_refs es + ring_own ctx X))"
    using context_holdsD(8) [OF es(1)] by (simp add: add_mset_commute)
  from rc_decref [OF this] obtain h' where h': "nghttp2_rcbuf_decref (Some p) h = Inr h'" "rc_ok h' (table_refs es + ring_own ctx X)"
    "rc_same h h' (table_refs es + ring_own ctx X)" by blast
  have "hp_next h \<le> hp_next h'" using decref_next [OF h'(1)] by simp
  from context_frame [OF es(1) h'(2) rc_same_mono [OF h'(3)] this] have "context_holds ctx hmap h' (ring_own ctx X) es" by simp
  moreover have "map (he_pair h') es = T" using table_same_sub [OF h'(3)] es(2) by (rule trans)
  moreover have "rc_same h h' X" by (rule rc_same_mono [OF h'(3)]) (simp add: subset_mset.add_increasing)
  ultimately show ?thesis by (intro that [OF h'(1)] hd_tableI)
qed

text \<open>Sharing the name of an entry.\<close>

lemma table_get_name:
  assumes "hd_table ctx hmap h X T" "idx < 61 + length T"
  obtains nv h' where "nghttp2_hd_table_get ctx idx = Inr nv" "rc_str h (hn_name nv) = fst (dt_get T idx)"
    "rc_str h (hn_value nv) = snd (dt_get T idx)" "hn_token nv = lookup_token (rc_str h (hn_name nv))"
    "nghttp2_rcbuf_incref (hn_name nv) h = Inr h'" "hd_table ctx hmap h' (add_mset (Held (hn_name nv)) X) T" "rc_str h' = rc_str h"
proof -
  obtain es where es: "context_holds ctx hmap h (ring_own ctx X) es" "map (he_pair h) es = T" "length es = length T"
    by (rule hd_tableE [OF assms(1)])
  then have "idx < 61 + length es" using assms(2) by simp
  from table_get [OF es(1) this] obtain nv where nv: "nghttp2_hd_table_get ctx idx = Inr nv"
    "(rc_str h (hn_name nv), rc_str h (hn_value nv)) = dt_get (map (he_pair h) es) idx"
    "hn_token nv = lookup_token (rc_str h (hn_name nv))"
    "if idx < 61 then \<exists>n v. hn_name nv = Rc_Static n \<and> hn_value nv = Rc_Static v
     else Held (hn_name nv) \<in># table_refs es \<and> Held (hn_value nv) \<in># table_refs es" by blast
  have strs: "rc_str h (hn_name nv) = fst (dt_get T idx)" "rc_str h (hn_value nv) = snd (dt_get T idx)"
    using nv(2) es(2) by (metis fst_conv, metis snd_conv)
  let ?X = "add_mset (Held (hn_name nv)) X"
  show ?thesis
  proof (cases "idx < 61")
    case True
    with nv(4) obtain s where s: "hn_name nv = Rc_Static s" by auto
    have "rc_ok h (table_refs es + ring_own ctx ?X)"
      using context_holdsD(8) [OF es(1)] by (simp add: s add_mset_commute [of "Block _" "Held _"])
    from context_own [OF es(1) this] have "hd_table ctx hmap h ?X T" by (intro hd_tableI [of _ _ _ _ es] es(2)) simp
    moreover have "nghttp2_rcbuf_incref (hn_name nv) h = Inr h" by (simp add: s nghttp2_rcbuf_incref_def rc_get_def)
    ultimately show ?thesis using that [OF nv(1) strs nv(3)] by blast
  next
    case False
    then have "Held (hn_name nv) \<in># table_refs es + ring_own ctx X" using nv(4) by simp
    from rc_incref [OF context_holdsD(8) [OF es(1)] this] obtain h' where h': "nghttp2_rcbuf_incref (hn_name nv) h = Inr h'"
      "rc_ok h' (add_mset (Held (hn_name nv)) (table_refs es + ring_own ctx X))" "rc_str h' = rc_str h" by blast
    have nx: "hp_next h \<le> hp_next h'" using incref_next [OF h'(1)] by simp
    have "rc_ok h' (table_refs es + ring_own ctx ?X)" using h'(2) by (simp add: add_mset_commute)
    from context_own [OF es(1) this h'(3) nx] have "hd_table ctx hmap h' ?X T"
      by (rule hd_tableI) (use es(2) he_pair_str [OF h'(3)] in simp)
    then show ?thesis using that [OF nv(1) strs nv(3) h'(1) _ h'(3)] by blast
  qed
qed

lemma table_mem: "hd_table ctx hmap h X T \<Longrightarrow> hd_table ctx hmap (h\<lparr>hp_mem := m\<rparr>) X T"
  by (erule hd_table_frame) simp_all

text \<open>A block beside the table.\<close>

lemma table_block_free:
  assumes "hd_table ctx hmap h (add_mset (Block a) X) T"
  obtains h' where "hp_free a h = Inr h'" "hd_table ctx hmap h' X T" "rc_str h' = rc_str h"
proof -
  obtain es where es: "context_holds ctx hmap h (ring_own ctx (add_mset (Block a) X)) es" "map (he_pair h) es = T"
    by (rule hd_tableE [OF assms])
  have "rc_ok h (add_mset (Block a) (table_refs es + ring_own ctx X))"
    using context_holdsD(8) [OF es(1)] by (simp add: add_mset_commute)
  from hp_free_ok [OF this] obtain h' where h': "hp_free a h = Inr h'" "rc_ok h' (table_refs es + ring_own ctx X)"
    "rc_str h' = rc_str h" "hp_next h' = hp_next h" by blast
  from context_own [OF es(1) h'(2,3)] have "hd_table ctx hmap h' X T"
    by (intro hd_tableI [of _ _ _ _ es]) (use h'(4) es(2) he_pair_str [OF h'(3)] in simp_all)
  then show ?thesis using that h'(1,3) by blast
qed

lemma table_free:
  assumes "hd_table ctx hmap h X T"
  obtains h' where "hd_context_free ctx h = Inr h'" "rc_ok h' X" "rc_same h h' X"
proof -
  obtain es where es: "context_holds ctx hmap h (ring_own ctx X) es" by (rule hd_tableE [OF assms])
  then show ?thesis by (rule hd_free) (rule that)
qed

lemma table_strings: "hd_table ctx hmap h X T \<Longrightarrow> \<exists>R. rc_ok h (R + X)"
proof (erule hd_tableE)
  fix es assume "context_holds ctx hmap h (ring_own ctx X) es"
  from context_holdsD(8) [OF this] have "rc_ok h (ring_own ctx (table_refs es) + X)" by simp
  then show ?thesis by blast
qed

lemma table_bad [simp]: "hd_table (ctx\<lparr>hc_bad := b\<rparr>) hmap h X T = hd_table ctx hmap h X T"
  by (simp add: hd_table_def context_holds_def)

text \<open>A new limit, before the table is made to fit it.\<close>

lemma table_limit: "hd_table ctx hmap h X T \<Longrightarrow> n < 2 ^ 64 \<Longrightarrow> hd_table (ctx\<lparr>hc_bufsize_max := n\<rparr>) hmap h X T"
  by (auto simp: hd_table_def context_holds_def)

lemma table_size: "hd_table ctx hmap h X T \<Longrightarrow> hc_bufsize ctx = dt_size T \<and> hc_bufsize_max ctx < 2 ^ 64"
  by (auto simp: hd_table_def dest: context_holdsD(2,3))

end
