(* ===== verification/Nghttp2_Hd_Deflate.thy ===== *)
theory Nghttp2_Hd_Deflate
  imports Nghttp2_Hd_Table Nghttp2_Nv
begin

text \<open>
  The deflater of HPACK (nghttp2_hd.c): the choice of a representation for every pair, the bytes
  it is written as, and the changes of the table size.
\<close>

unbundle bit_operations_syntax

section \<open>Representations\<close>

text \<open>
  The functions that write an integer have a local array of 16 bytes. Its first byte is stored before
  the number is encoded; the bytes behind the number are not used.
\<close>

definition emit_int :: "nghttp2_bufs \<Rightarrow> byte \<Rightarrow> nat \<Rightarrow> nat \<Rightarrow> memory \<Rightarrow> (int \<times> nghttp2_bufs \<times> memory) res" where
  "emit_int bufs first n pfx m =
     (let blocklen = count_encoded_length n pfx
      in if 16 < blocklen then Inr (NGHTTP2_ERR_HEADER_COMP, bufs, m)
         else
           res_bind (encode_length (first # replicate 15 0) n pfx) (\<lambda>(sb, _).
           res_bind (rd sb 0 blocklen) (\<lambda>d. nghttp2_bufs_add bufs d m)))"

definition emit_table_size :: "nghttp2_bufs \<Rightarrow> nat \<Rightarrow> memory \<Rightarrow> (int \<times> nghttp2_bufs \<times> memory) res" where
  "emit_table_size bufs table_size m = emit_int bufs 0x20 table_size 5 m"

definition emit_indexed_block :: "nghttp2_bufs \<Rightarrow> nat \<Rightarrow> memory \<Rightarrow> (int \<times> nghttp2_bufs \<times> memory) res" where
  "emit_indexed_block bufs idx m = emit_int bufs 0x80 (idx + 1) 7 m"

definition emit_string :: "nghttp2_bufs \<Rightarrow> bytes \<Rightarrow> memory \<Rightarrow> (int \<times> nghttp2_bufs \<times> memory) res" where
  "emit_string bufs str m =
     (let len = length str;
          count = nghttp2_hd_huff_encode_count str;
          huffman = (count < len);
          enclen = (if huffman then count else len)
      in res_bind (emit_int bufs (if huffman then push_bit 7 1 else 0) enclen 7 m) (\<lambda>(rv, bufs1, m1).
         if rv \<noteq> 0 then Inr (rv, bufs1, m1)
         else if huffman then nghttp2_hd_huff_encode bufs1 str m1
         else res_bind (c_assert (enclen = len)) (\<lambda>_. nghttp2_bufs_add bufs1 str m1)))"

definition pack_first_byte :: "nghttp2_hd_indexing_mode \<Rightarrow> byte" where
  "pack_first_byte mode =
     (case mode of
        NGHTTP2_HD_WITH_INDEXING \<Rightarrow> 0x40
      | NGHTTP2_HD_WITHOUT_INDEXING \<Rightarrow> 0
      | NGHTTP2_HD_NEVER_INDEXING \<Rightarrow> 0x10)"

definition emit_indname_block ::
  "nghttp2_bufs \<Rightarrow> nat \<Rightarrow> bytes \<Rightarrow> nghttp2_hd_indexing_mode \<Rightarrow> memory \<Rightarrow> (int \<times> nghttp2_bufs \<times> memory) res" where
  "emit_indname_block bufs idx val mode m =
     (let prefixlen = (if mode = NGHTTP2_HD_WITH_INDEXING then 6 else 4)
      in res_bind (emit_int bufs (pack_first_byte mode) (idx + 1) prefixlen m) (\<lambda>(rv, bufs1, m1).
         if rv \<noteq> 0 then Inr (rv, bufs1, m1) else emit_string bufs1 val m1))"

definition emit_newname_block ::
  "nghttp2_bufs \<Rightarrow> bytes \<Rightarrow> bytes \<Rightarrow> nghttp2_hd_indexing_mode \<Rightarrow> memory \<Rightarrow> (int \<times> nghttp2_bufs \<times> memory) res" where
  "emit_newname_block bufs name val mode m =
     res_bind (nghttp2_bufs_addb bufs (pack_first_byte mode) m) (\<lambda>(rv, bufs1, m1).
     if rv \<noteq> 0 then Inr (rv, bufs1, m1)
     else
       res_bind (emit_string bufs1 name m1) (\<lambda>(rv, bufs2, m2).
       if rv \<noteq> 0 then Inr (rv, bufs2, m2) else emit_string bufs2 val m2))"

section \<open>The deflater\<close>

record nghttp2_hd_deflater =
  df_ctx :: nghttp2_hd_context
  df_map :: nghttp2_hd_map
  df_table_max :: nat
  df_min :: nat
  df_notify :: bool

definition MAX_UINT32 :: nat where
  "MAX_UINT32 = 2 ^ 32 - 1"

definition NGHTTP2_HD_DEFAULT_MAX_DEFLATE_BUFFER_SIZE :: nat where
  "NGHTTP2_HD_DEFAULT_MAX_DEFLATE_BUFFER_SIZE = 2 ^ 12"

definition NGHTTP2_NV_FLAG_NO_INDEX :: byte where
  "NGHTTP2_NV_FLAG_NO_INDEX = 1"

definition SIZEOF_HD_DEFLATER :: nat where
  "SIZEOF_HD_DEFLATER = 1112"

definition nghttp2_hd_deflate_init2 :: "nat \<Rightarrow> rc_heap \<Rightarrow> int \<times> nghttp2_hd_deflater option \<times> rc_heap" where
  "nghttp2_hd_deflate_init2 max_deflate_dynamic_table_size h =
     (case hd_context_init h of
        (rv, None, h1) \<Rightarrow> (rv, None, h1)
      | (rv, Some ctx, h1) \<Rightarrow>
          (let small = (max_deflate_dynamic_table_size < NGHTTP2_HD_DEFAULT_MAX_BUFFER_SIZE)
           in (0, Some \<lparr>df_ctx = (if small then ctx\<lparr>hc_bufsize_max := max_deflate_dynamic_table_size\<rparr> else ctx),
                df_map = hd_map_init, df_table_max = max_deflate_dynamic_table_size, df_min = MAX_UINT32,
                df_notify = small\<rparr>, h1)))"

definition nghttp2_hd_deflate_init :: "rc_heap \<Rightarrow> int \<times> nghttp2_hd_deflater option \<times> rc_heap" where
  "nghttp2_hd_deflate_init h = nghttp2_hd_deflate_init2 NGHTTP2_HD_DEFAULT_MAX_DEFLATE_BUFFER_SIZE h"

definition nghttp2_hd_deflate_free :: "nghttp2_hd_deflater \<Rightarrow> rc_heap \<Rightarrow> rc_heap res" where
  "nghttp2_hd_deflate_free d h = hd_context_free (df_ctx d) h"

text \<open>The function that sets the limit of the table always returns 0.\<close>

definition nghttp2_hd_deflate_change_table_size :: "nghttp2_hd_deflater \<Rightarrow> nat \<Rightarrow> rc_heap \<Rightarrow> (int \<times> nghttp2_hd_deflater \<times> rc_heap) res" where
  "nghttp2_hd_deflate_change_table_size d settings_max_dynamic_table_size h =
     (let next_bufsize = min settings_max_dynamic_table_size (df_table_max d);
          d1 = d\<lparr>df_ctx := (df_ctx d)\<lparr>hc_bufsize_max := next_bufsize\<rparr>, df_min := min (df_min d) next_bufsize, df_notify := True\<rparr>
      in res_bind (hd_context_shrink_table_size (df_ctx d1) (Some (df_map d1)) h) (\<lambda>(ctx, hmap, h1).
         Inr (0, d1\<lparr>df_ctx := ctx, df_map := (case hmap of None \<Rightarrow> df_map d1 | Some m \<Rightarrow> m)\<rparr>, h1)))"

definition hd_deflate_decide_indexing :: "nghttp2_hd_deflater \<Rightarrow> nat \<Rightarrow> nat \<Rightarrow> int \<Rightarrow> nghttp2_hd_indexing_mode" where
  "hd_deflate_decide_indexing d namelen valuelen token =
     (if token = NGHTTP2_TOKEN_C_PATH \<or> token = NGHTTP2_TOKEN_AGE \<or> token = NGHTTP2_TOKEN_CONTENT_LENGTH \<or>
         token = NGHTTP2_TOKEN_ETAG \<or> token = NGHTTP2_TOKEN_IF_MODIFIED_SINCE \<or> token = NGHTTP2_TOKEN_IF_NONE_MATCH \<or>
         token = NGHTTP2_TOKEN_LOCATION \<or> token = NGHTTP2_TOKEN_SET_COOKIE \<or>
         hc_bufsize_max (df_ctx d) * 3 div 4 < entry_room namelen valuelen
      then NGHTTP2_HD_WITHOUT_INDEXING else NGHTTP2_HD_WITH_INDEXING)"

definition deflate_mode :: "nghttp2_hd_deflater \<Rightarrow> nat \<Rightarrow> nat \<Rightarrow> byte \<Rightarrow> int \<Rightarrow> nghttp2_hd_indexing_mode" where
  "deflate_mode d namelen valuelen flags token =
     (if token = NGHTTP2_TOKEN_AUTHORIZATION \<or> token = NGHTTP2_TOKEN_COOKIE \<and> valuelen < 20 \<or>
         flags AND NGHTTP2_NV_FLAG_NO_INDEX \<noteq> 0
      then NGHTTP2_HD_NEVER_INDEXING else hd_deflate_decide_indexing d namelen valuelen token)"

text \<open>A pair goes to the table: its name is that of the entry found, or a new string.\<close>

definition deflate_index ::
  "nghttp2_hd_deflater \<Rightarrow> bytes \<Rightarrow> bytes \<Rightarrow> int \<Rightarrow> int \<Rightarrow> 32 word \<Rightarrow> rc_heap \<Rightarrow> (int \<times> nghttp2_hd_deflater \<times> rc_heap) res" where
  "deflate_index d name val idx token hash h =
     res_bind
       (if idx \<noteq> -1 then
          res_bind (nghttp2_hd_table_get (df_ctx d) (nat idx)) (\<lambda>e.
          res_bind (nghttp2_rcbuf_incref (hn_name e) h) (\<lambda>h1. Inr (0, Some (hn_name e), h1)))
        else nghttp2_rcbuf_new2 name h) (\<lambda>(rv, p, h1).
     case p of
       None \<Rightarrow> Inr (rv, d, h1)
     | Some name_ptr \<Rightarrow>
         res_bind (nghttp2_rcbuf_new2 val h1) (\<lambda>(rv, q, h2).
         case q of
           None \<Rightarrow> res_bind (nghttp2_rcbuf_decref (Some name_ptr) h2) (\<lambda>h3. Inr (rv, d, h3))
         | Some value_ptr \<Rightarrow>
             res_bind (add_hd_table_incremental (df_ctx d)
                 \<lparr>hn_name = name_ptr, hn_value = value_ptr, hn_token = token, hn_flags = 0\<rparr> (Some (df_map d)) hash h2)
               (\<lambda>(rv, ctx, hmap, h3).
             res_bind (nghttp2_rcbuf_decref (Some value_ptr) h3) (\<lambda>h4.
             res_bind (nghttp2_rcbuf_decref (Some name_ptr) h4) (\<lambda>h5.
             Inr (if rv \<noteq> 0 then NGHTTP2_ERR_HEADER_COMP else 0,
                  d\<lparr>df_ctx := ctx, df_map := (case hmap of None \<Rightarrow> df_map d | Some m \<Rightarrow> m)\<rparr>, h5))))))"

definition nv_string :: "bytes option \<Rightarrow> nat \<Rightarrow> bytes res" where
  "nv_string p n = arr_take p n"

definition deflate_nv :: "nghttp2_hd_deflater \<Rightarrow> nghttp2_bufs \<Rightarrow> nghttp2_nv \<Rightarrow> rc_heap \<Rightarrow>
    (int \<times> nghttp2_hd_deflater \<times> nghttp2_bufs \<times> rc_heap) res" where
  "deflate_nv d bufs nv h =
     res_bind (nv_string (nv_name nv) (nv_namelen nv)) (\<lambda>name.
     res_bind (nv_string (nv_value nv) (nv_valuelen nv)) (\<lambda>val.
     (let token = lookup_token name;
          hash = nv_hash name token;
          mode = deflate_mode d (nv_namelen nv) (nv_valuelen nv) (nv_flags nv) token
      in res_bind (search_hd_table (df_ctx d) name val token mode (df_map d) hash h) (\<lambda>(idx, exact).
         if exact then
           res_bind (emit_indexed_block bufs (nat idx) (hp_mem h)) (\<lambda>(rv, bufs1, m). Inr (rv, d, bufs1, h\<lparr>hp_mem := m\<rparr>))
         else
           res_bind (if mode = NGHTTP2_HD_WITH_INDEXING then deflate_index d name val idx token hash h
                     else Inr (0, d, h)) (\<lambda>(rv, d1, h1).
           if rv \<noteq> 0 then Inr (rv, d1, bufs, h1)
           else
             res_bind (if idx = -1 then emit_newname_block bufs name val mode (hp_mem h1)
                       else emit_indname_block bufs (nat idx) val mode (hp_mem h1)) (\<lambda>(rv, bufs1, m).
             Inr (rv, d1, bufs1, h1\<lparr>hp_mem := m\<rparr>)))))))"

fun deflate_nvs :: "nghttp2_hd_deflater \<Rightarrow> nghttp2_bufs \<Rightarrow> nghttp2_nv list \<Rightarrow> rc_heap \<Rightarrow>
    (int \<times> nghttp2_hd_deflater \<times> nghttp2_bufs \<times> rc_heap) res" where
  "deflate_nvs d bufs [] h = Inr (0, d, bufs, h)"
| "deflate_nvs d bufs (nv # nva) h =
     res_bind (deflate_nv d bufs nv h) (\<lambda>(rv, d1, bufs1, h1).
     if rv \<noteq> 0 then Inr (rv, d1, bufs1, h1) else deflate_nvs d1 bufs1 nva h1)"

text \<open>The sizes are sent if the table size was changed: the least since the last block, and the last one.\<close>

definition deflate_sizes :: "nghttp2_hd_deflater \<Rightarrow> nghttp2_bufs \<Rightarrow> memory \<Rightarrow> (int \<times> nghttp2_hd_deflater \<times> nghttp2_bufs \<times> memory) res" where
  "deflate_sizes d bufs m =
     (if df_notify d then
        (let least = df_min d; d1 = d\<lparr>df_notify := False, df_min := MAX_UINT32\<rparr>
         in res_bind (if least < hc_bufsize_max (df_ctx d1) then emit_table_size bufs least m else Inr (0, bufs, m)) (\<lambda>(rv, bufs1, m1).
            if rv \<noteq> 0 then Inr (rv, d1, bufs1, m1)
            else res_bind (emit_table_size bufs1 (hc_bufsize_max (df_ctx d1)) m1) (\<lambda>(rv, bufs2, m2). Inr (rv, d1, bufs2, m2))))
      else Inr (0, d, bufs, m))"

definition nghttp2_hd_deflate_hd_bufs :: "nghttp2_hd_deflater \<Rightarrow> nghttp2_bufs \<Rightarrow> nghttp2_nv list \<Rightarrow> rc_heap \<Rightarrow>
    (int \<times> nghttp2_hd_deflater \<times> nghttp2_bufs \<times> rc_heap) res" where
  "nghttp2_hd_deflate_hd_bufs d bufs nva h =
     (if hc_bad (df_ctx d) then Inr (NGHTTP2_ERR_HEADER_COMP, d, bufs, h)
      else
        res_bind (deflate_sizes d bufs (hp_mem h)) (\<lambda>(rv, d1, bufs1, m).
        res_bind (if rv \<noteq> 0 then Inr (rv, d1, bufs1, h\<lparr>hp_mem := m\<rparr>) else deflate_nvs d1 bufs1 nva (h\<lparr>hp_mem := m\<rparr>))
          (\<lambda>(rv, d2, bufs2, h2).
        if rv \<noteq> 0 then Inr (rv, d2\<lparr>df_ctx := (df_ctx d2)\<lparr>hc_bad := True\<rparr>\<rparr>, bufs2, h2)
        else Inr (0, d2, bufs2, h2))))"

text \<open>The chain of the two functions for memory of the caller is local; \<open>bufs0\<close> is what it holds at first.\<close>

definition deflate_wrapped ::
  "(nghttp2_bufs \<Rightarrow> memory \<Rightarrow> int \<times> nghttp2_bufs \<times> memory) \<Rightarrow> nghttp2_hd_deflater \<Rightarrow> nghttp2_bufs \<Rightarrow> nghttp2_nv list \<Rightarrow> rc_heap \<Rightarrow>
    (int \<times> nghttp2_hd_deflater \<times> nghttp2_bufs \<times> rc_heap) res" where
  "deflate_wrapped wrap d bufs0 nva h =
     (case wrap bufs0 (hp_mem h) of
        (rv, bufs, m) \<Rightarrow>
          if rv \<noteq> 0 then Inr (rv, d, bufs, h\<lparr>hp_mem := m\<rparr>)
          else
            res_bind (nghttp2_hd_deflate_hd_bufs d bufs nva (h\<lparr>hp_mem := m\<rparr>)) (\<lambda>(rv, d1, bufs1, h1).
            (let buflen = nghttp2_bufs_len bufs1; h2 = h1\<lparr>hp_mem := nghttp2_bufs_wrap_free bufs1 (hp_mem h1)\<rparr>
             in if rv = NGHTTP2_ERR_BUFFER_ERROR then Inr (NGHTTP2_ERR_INSUFF_BUFSIZE, d1, bufs1, h2)
                else if rv \<noteq> 0 then Inr (rv, d1, bufs1, h2)
                else Inr (ssize_t_of buflen, d1, bufs1, h2))))"

definition nghttp2_hd_deflate_hd :: "nghttp2_hd_deflater \<Rightarrow> nghttp2_bufs \<Rightarrow> bytes option \<Rightarrow> nghttp2_nv list \<Rightarrow> rc_heap \<Rightarrow>
    (int \<times> nghttp2_hd_deflater \<times> nghttp2_bufs \<times> rc_heap) res" where
  "nghttp2_hd_deflate_hd d bufs0 buf nva h = deflate_wrapped (\<lambda>b m. nghttp2_bufs_wrap_init b buf m) d bufs0 nva h"

definition nghttp2_hd_deflate_hd_vec :: "nghttp2_hd_deflater \<Rightarrow> nghttp2_bufs \<Rightarrow> bytes option list \<Rightarrow> nghttp2_nv list \<Rightarrow> rc_heap \<Rightarrow>
    (int \<times> nghttp2_hd_deflater \<times> nghttp2_bufs \<times> rc_heap) res" where
  "nghttp2_hd_deflate_hd_vec d bufs0 vec nva h = deflate_wrapped (\<lambda>b m. nghttp2_bufs_wrap_init2 b vec m) d bufs0 nva h"

definition nghttp2_hd_deflate_bound :: "nghttp2_nv list \<Rightarrow> nat" where
  "nghttp2_hd_deflate_bound nva = 12 + 6 * 2 * length nva + sum_list (map (\<lambda>nv. nv_namelen nv + nv_valuelen nv) nva)"

text \<open>A deflater that the library makes: the address of its block, and what is in it.\<close>

definition nghttp2_hd_deflate_new2 :: "nat \<Rightarrow> rc_heap \<Rightarrow> (int \<times> (nat \<times> nghttp2_hd_deflater) option \<times> rc_heap) res" where
  "nghttp2_hd_deflate_new2 deflate_hd_table_bufsize_max h =
     (case hp_alloc SIZEOF_HD_DEFLATER h of
        (None, h1) \<Rightarrow> Inr (NGHTTP2_ERR_NOMEM, None, h1)
      | (Some deflater, h1) \<Rightarrow>
          (case nghttp2_hd_deflate_init2 deflate_hd_table_bufsize_max h1 of
             (rv, None, h2) \<Rightarrow> res_bind (hp_free deflater h2) (\<lambda>h3. Inr (rv, None, h3))
           | (rv, Some d, h2) \<Rightarrow> Inr (0, Some (deflater, d), h2)))"

definition nghttp2_hd_deflate_new :: "nat \<Rightarrow> rc_heap \<Rightarrow> (int \<times> (nat \<times> nghttp2_hd_deflater) option \<times> rc_heap) res" where
  "nghttp2_hd_deflate_new deflate_hd_table_bufsize_max h = nghttp2_hd_deflate_new2 deflate_hd_table_bufsize_max h"

definition nghttp2_hd_deflate_del :: "nat \<Rightarrow> nghttp2_hd_deflater \<Rightarrow> rc_heap \<Rightarrow> rc_heap res" where
  "nghttp2_hd_deflate_del deflater d h = res_bind (nghttp2_hd_deflate_free d h) (\<lambda>h1. hp_free deflater h1)"

text \<open>What the interface shows of a deflater, and the writers under their names for the tests.\<close>

definition nghttp2_hd_deflate_get_num_table_entries :: "nghttp2_hd_deflater \<Rightarrow> nat" where
  "nghttp2_hd_deflate_get_num_table_entries d = get_max_index (df_ctx d)"

definition nghttp2_hd_deflate_get_table_entry :: "nghttp2_hd_deflater \<Rightarrow> nat \<Rightarrow> rc_heap \<Rightarrow> (bytes \<times> bytes) option res" where
  "nghttp2_hd_deflate_get_table_entry d idx h = hd_get_table_entry (df_ctx d) idx h"

definition nghttp2_hd_deflate_get_dynamic_table_size :: "nghttp2_hd_deflater \<Rightarrow> nat" where
  "nghttp2_hd_deflate_get_dynamic_table_size d = hc_bufsize (df_ctx d)"

definition nghttp2_hd_deflate_get_max_dynamic_table_size :: "nghttp2_hd_deflater \<Rightarrow> nat" where
  "nghttp2_hd_deflate_get_max_dynamic_table_size d = hc_bufsize_max (df_ctx d)"

definition nghttp2_hd_emit_indname_block ::
  "nghttp2_bufs \<Rightarrow> nat \<Rightarrow> bytes \<Rightarrow> nghttp2_hd_indexing_mode \<Rightarrow> memory \<Rightarrow> (int \<times> nghttp2_bufs \<times> memory) res" where
  "nghttp2_hd_emit_indname_block bufs idx val mode m = emit_indname_block bufs idx val mode m"

definition nghttp2_hd_emit_newname_block ::
  "nghttp2_bufs \<Rightarrow> bytes \<Rightarrow> bytes \<Rightarrow> nghttp2_hd_indexing_mode \<Rightarrow> memory \<Rightarrow> (int \<times> nghttp2_bufs \<times> memory) res" where
  "nghttp2_hd_emit_newname_block bufs name val mode m = emit_newname_block bufs name val mode m"

definition nghttp2_hd_emit_table_size :: "nghttp2_bufs \<Rightarrow> nat \<Rightarrow> memory \<Rightarrow> (int \<times> nghttp2_bufs \<times> memory) res" where
  "nghttp2_hd_emit_table_size bufs table_size m = emit_table_size bufs table_size m"

section \<open>What is written\<close>

text \<open>A representation of a pair, with indices from 0, or a change of the table size.\<close>

datatype hd_repr =
    Repr_Index nat
  | Repr_Name nghttp2_hd_indexing_mode nat bytes
  | Repr_New nghttp2_hd_indexing_mode bytes bytes
  | Repr_Size nat

definition str_bytes :: "bytes \<Rightarrow> bytes" where
  "str_bytes s =
     (if length (huff_bytes s) < length s then hd_int (push_bit 7 1) (length (huff_bytes s)) 7 @ huff_bytes s
      else hd_int 0 (length s) 7 @ s)"

fun repr_bytes :: "hd_repr \<Rightarrow> bytes" where
  "repr_bytes (Repr_Index i) = hd_int 0x80 (i + 1) 7"
| "repr_bytes (Repr_Name mode i val) =
     hd_int (pack_first_byte mode) (i + 1) (if mode = NGHTTP2_HD_WITH_INDEXING then 6 else 4) @ str_bytes val"
| "repr_bytes (Repr_New mode name val) = pack_first_byte mode # str_bytes name @ str_bytes val"
| "repr_bytes (Repr_Size n) = hd_int 0x20 n 5"

text \<open>The pair behind a representation, and what it does to the dynamic table.\<close>

fun repr_pair :: "hd_pair list \<Rightarrow> hd_repr \<Rightarrow> hd_pair option" where
  "repr_pair T (Repr_Index i) = Some (dt_get T i)"
| "repr_pair T (Repr_Name mode i val) = Some (fst (dt_get T i), val)"
| "repr_pair T (Repr_New mode name val) = Some (name, val)"
| "repr_pair T (Repr_Size n) = None"

fun repr_mode :: "hd_repr \<Rightarrow> nghttp2_hd_indexing_mode option" where
  "repr_mode (Repr_Name mode i val) = Some mode"
| "repr_mode (Repr_New mode name val) = Some mode"
| "repr_mode r = None"

fun repr_index :: "hd_repr \<Rightarrow> nat option" where
  "repr_index (Repr_Index i) = Some i"
| "repr_index (Repr_Name mode i val) = Some i"
| "repr_index r = None"

definition repr_table :: "nat \<Rightarrow> hd_pair list \<Rightarrow> hd_repr \<Rightarrow> hd_pair list" where
  "repr_table limit T r =
     (if repr_mode r = Some NGHTTP2_HD_WITH_INDEXING then dt_add limit (the (repr_pair T r)) T else T)"

definition repr_ok :: "hd_pair list \<Rightarrow> hd_repr \<Rightarrow> bool" where
  "repr_ok T r \<longleftrightarrow> (case repr_index r of None \<Rightarrow> True | Some i \<Rightarrow> i < 61 + length T)"

section \<open>Writing\<close>

text \<open>The result of a writer that is to append \<open>D\<close>.\<close>

definition emits :: "nghttp2_bufs \<Rightarrow> memory \<Rightarrow> bytes \<Rightarrow> (int \<times> nghttp2_bufs \<times> memory) res \<Rightarrow> bool" where
  "emits b m D r \<longleftrightarrow> (\<exists>rv b' m'. r = Inr (rv, b', m') \<and> appends b m D rv b' m' \<and> (rv = 0 \<longrightarrow> bufs_roomy b'))"

lemma roomy_alloc: "bufs_wf b \<Longrightarrow> bufs_roomy b \<Longrightarrow> bufs_alloc_chain b m = Inr (0, b', m') \<Longrightarrow> bufs_roomy b'"
  by (rule alloc_chain_room(2))

lemma add_roomy: "bufs_wf b \<Longrightarrow> bufs_roomy b \<Longrightarrow> nghttp2_bufs_add b d m = Inr (0, b', m') \<Longrightarrow> bufs_roomy b'"
proof (induction b d m rule: nghttp2_bufs_add.induct)
  case (1 b d m)
  show ?case
  proof (cases "d = []")
    case True
    then show ?thesis using "1.prems" by (simp add: nghttp2_bufs_add.simps)
  next
    case False
    let ?c = "bufs_head b ! bufs_cur b"
    have cur: "bufs_cur_buf b = Inr ?c" and cwf: "buf_wf ?c"
      using "1.prems"(1) by (auto simp: bufs_wf_def bufs_cur_buf_def)
    show ?thesis
    proof (cases "min (nghttp2_buf_avail ?c) (length d) = 0")
      case z: True
      obtain rv b1 m1 where al: "bufs_alloc_chain b m = Inr (rv, b1, m1)" "rv = 0"
        and r: "nghttp2_bufs_add b1 d m1 = Inr (0, b', m')"
        using "1.prems"(3) False cur z
        by (subst (asm) nghttp2_bufs_add.simps) (auto simp: Let_def split: sum.splits if_splits)
      have "bufs_wf b1" using al by (cases rule: alloc_chainE [OF "1.prems"(1), of m]) auto
      then show ?thesis
        using "1.IH"(1) [OF False cur refl z al(1) refl refl _ _ _ r] al roomy_alloc [OF "1.prems"(1,2)] by auto
    next
      case z: False
      let ?n = "min (nghttp2_buf_avail ?c) (length d)"
      obtain c1 where c1: "buf_cpy ?c (take ?n d) = Inr c1" "buf_wf c1" "nghttp2_buf_cap c1 = nghttp2_buf_cap ?c"
        "chain_blocks c1 = chain_blocks ?c"
        by (rule buf_cpy_wf [OF cwf, of "take ?n d"]) (use cwf in auto)
      have r: "nghttp2_bufs_add (bufs_set_cur b c1) (drop ?n d) m = Inr (0, b', m')"
        using "1.prems"(3) False cur z c1(1) by (subst (asm) nghttp2_bufs_add.simps) (simp add: Let_def)
      have "bufs_wf (bufs_set_cur b c1)" by (rule set_curE(1) [OF "1.prems"(1) c1(2,3,4)])
      then show ?thesis using "1.IH"(2) [OF False cur refl z c1(1) _ _ r] "1.prems"(2) by simp
    qed
  qed
qed

lemma emits_add: "bufs_wf b \<Longrightarrow> bufs_roomy b \<Longrightarrow> emits b m d (nghttp2_bufs_add b d m)"
  using bufs_add_total [of b d m] add_roomy unfolding emits_def by blast

lemma emits_addb: "bufs_wf b \<Longrightarrow> bufs_roomy b \<Longrightarrow> emits b m [x] (nghttp2_bufs_addb b x m)"
  using addb_total [of b x m] addb_inr addb_roomy unfolding emits_def by blast

lemma emits_huff: "bufs_wf b \<Longrightarrow> bufs_roomy b \<Longrightarrow> emits b m (huff_bytes s) (nghttp2_hd_huff_encode b s m)"
  using huff_encode_ok [of b s m] unfolding emits_def by blast

lemma emits_seq:
  assumes "emits b m D r" "\<And>b1 m1. bufs_wf b1 \<Longrightarrow> bufs_roomy b1 \<Longrightarrow> emits b1 m1 E (f b1 m1)"
  shows "emits b m (D @ E) (res_bind r (\<lambda>(rv, b1, m1). if rv \<noteq> 0 then Inr (rv, b1, m1) else f b1 m1))"
proof -
  obtain rv b1 m1 where r: "r = Inr (rv, b1, m1)" "appends b m D rv b1 m1" "rv = 0 \<longrightarrow> bufs_roomy b1"
    using assms(1) by (auto simp: emits_def)
  show ?thesis
  proof (cases "rv = 0")
    case True
    then have "emits b1 m1 E (f b1 m1)" using r by (intro assms(2)) (auto simp: appends_def)
    then obtain rv2 b2 m2 where f: "f b1 m1 = Inr (rv2, b2, m2)" "appends b1 m1 E rv2 b2 m2" "rv2 = 0 \<longrightarrow> bufs_roomy b2"
      by (auto simp: emits_def)
    have "appends b m (D @ E) rv2 b2 m2"
      by (rule appends_seq [of b m "length D" "D @ E" b1 m1]) (use r(2) f(2) True in simp_all)
    then show ?thesis using r(1) f True by (auto simp: emits_def)
  next
    case False
    have "appends b m (D @ E) rv b1 m1"
      using r(2) False by (auto simp: appends_def) (metis (no_types) append_Nil2 diff_is_0_eq' less_imp_le_nat take0 take_append trans_less_add1)+
    then show ?thesis using r(1) False by (auto simp: emits_def)
  qed
qed

lemma emit_int_ok:
  assumes "bufs_wf b" "bufs_roomy b" "n < 2 ^ 64" "first AND word_of_nat (prefix_max pfx) = 0"
  shows "emits b m (hd_int first n pfx) (emit_int b first n pfx m)"
proof -
  let ?D = "hd_int first n pfx"
  have len: "count_encoded_length n pfx = length ?D" by (rule count_encoded)
  have short: "length ?D \<le> 11" by (rule hd_int_length [OF assms(3)])
  have "encode_length (first # replicate 15 0) n pfx = Inr (?D @ drop (length ?D - 1) (replicate 15 0), length ?D)"
    by (rule encode_length_ok [OF assms(4)]) (use short in simp)
  moreover have "length ?D \<le> length ?D + 15 - (length ?D - 1)" using short by linarith
  ultimately have "emit_int b first n pfx m = nghttp2_bufs_add b ?D m"
    using short by (simp add: emit_int_def len rd_def Let_def)
  then show ?thesis using emits_add [OF assms(1,2)] by simp
qed

lemma first_bits [simp]:
  "(0x80 :: byte) AND word_of_nat (prefix_max 7) = 0" "(0x20 :: byte) AND word_of_nat (prefix_max 5) = 0"
  "(push_bit 7 1 :: byte) AND word_of_nat (prefix_max 7) = 0"
  "pack_first_byte NGHTTP2_HD_WITH_INDEXING AND word_of_nat (prefix_max 6) = 0"
  "mode \<noteq> NGHTTP2_HD_WITH_INDEXING \<Longrightarrow> pack_first_byte mode AND word_of_nat (prefix_max 4) = 0"
  by (cases mode; simp add: prefix_max_def pack_first_byte_def)+

lemma huff_short: "length s < 2 ^ 58 \<Longrightarrow> nghttp2_hd_huff_encode_count s = length (huff_bytes s)"
  by (rule encode_count)

lemma emit_string_ok:
  assumes "bufs_wf b" "bufs_roomy b" "length s < 2 ^ 58"
  shows "emits b m (str_bytes s) (emit_string b s m)"
proof -
  let ?huff = "length (huff_bytes s) < length s"
  let ?n = "if ?huff then length (huff_bytes s) else length s"
  have "emits b m (hd_int (if ?huff then push_bit 7 1 else 0) ?n 7) (emit_int b (if ?huff then push_bit 7 1 else 0) ?n 7 m)"
    by (rule emit_int_ok [OF assms(1,2)]) (use assms(3) in auto)
  note int = this
  show ?thesis
  proof (cases ?huff)
    case True
    from emits_seq [OF int [unfolded if_P [OF True]], of "huff_bytes s" "\<lambda>b1 m1. nghttp2_hd_huff_encode b1 s m1"]
    show ?thesis using True by (simp add: emit_string_def str_bytes_def huff_short [OF assms(3)] Let_def emits_huff cong: if_cong)
  next
    case False
    from emits_seq [OF int [unfolded if_not_P [OF False]], of s "\<lambda>b1 m1. nghttp2_bufs_add b1 s m1"]
    show ?thesis using False
      by (simp add: emit_string_def str_bytes_def huff_short [OF assms(3)] Let_def c_assert_def emits_add cong: if_cong)
  qed
qed

section \<open>A pair\<close>

lemma emit_indexed_ok: "bufs_wf b \<Longrightarrow> bufs_roomy b \<Longrightarrow> i < 2 ^ 63 \<Longrightarrow> emits b m (repr_bytes (Repr_Index i)) (emit_indexed_block b i m)"
  unfolding emit_indexed_block_def repr_bytes.simps by (rule emit_int_ok) simp_all

lemma emit_size_ok: "bufs_wf b \<Longrightarrow> bufs_roomy b \<Longrightarrow> n < 2 ^ 64 \<Longrightarrow> emits b m (repr_bytes (Repr_Size n)) (emit_table_size b n m)"
  unfolding emit_table_size_def repr_bytes.simps by (rule emit_int_ok) simp_all

lemma emit_indname_ok:
  assumes "bufs_wf b" "bufs_roomy b" "i < 2 ^ 63" "length val < 2 ^ 58"
  shows "emits b m (repr_bytes (Repr_Name mode i val)) (emit_indname_block b i val mode m)"
proof -
  let ?p = "if mode = NGHTTP2_HD_WITH_INDEXING then 6 else 4"
  have "emits b m (hd_int (pack_first_byte mode) (i + 1) ?p) (emit_int b (pack_first_byte mode) (i + 1) ?p m)"
    by (rule emit_int_ok [OF assms(1,2)]) (use assms(3) in auto)
  from emits_seq [OF this, of "str_bytes val" "\<lambda>b1 m1. emit_string b1 val m1"] emit_string_ok [OF _ _ assms(4)]
  show ?thesis by (simp add: emit_indname_block_def Let_def)
qed

lemma emit_newname_ok:
  assumes "bufs_wf b" "bufs_roomy b" "length name < 2 ^ 58" "length val < 2 ^ 58"
  shows "emits b m (repr_bytes (Repr_New mode name val)) (emit_newname_block b name val mode m)"
proof -
  have "emits b1 m1 (str_bytes name @ str_bytes val)
      (res_bind (emit_string b1 name m1) (\<lambda>(rv, b2, m2). if rv \<noteq> 0 then Inr (rv, b2, m2) else emit_string b2 val m2))"
    if "bufs_wf b1" "bufs_roomy b1" for b1 m1
    by (rule emits_seq [OF emit_string_ok [OF that assms(3)]]) (rule emit_string_ok [OF _ _ assms(4)])
  from emits_seq [OF emits_addb [OF assms(1,2), of m "pack_first_byte mode"] this] show ?thesis
    by (simp add: emit_newname_block_def)
qed

text \<open>
  The deflater and the list that its table stands for. The limits of a connection are 32-bit numbers, so
  the number of the entries is.
\<close>

definition deflater_holds :: "nghttp2_hd_deflater \<Rightarrow> rc_heap \<Rightarrow> owned multiset \<Rightarrow> hd_pair list \<Rightarrow> bool" where
  "deflater_holds d h X T \<longleftrightarrow>
     hd_table (df_ctx d) (Some (df_map d)) h X T \<and> dt_size T \<le> hc_bufsize_max (df_ctx d) \<and>
     hc_bufsize_max (df_ctx d) \<le> df_table_max d \<and> df_table_max d \<le> MAX_UINT32 \<and> df_min d \<le> MAX_UINT32 \<and>
     (df_notify d \<or> df_min d = MAX_UINT32)"

definition df_limit :: "nghttp2_hd_deflater \<Rightarrow> nat" where
  "df_limit d = hc_bufsize_max (df_ctx d)"

lemma deflater_length: "deflater_holds d h X T \<Longrightarrow> length T \<le> 2 ^ 31"
  using dt_size_length [of T] by (simp add: deflater_holds_def MAX_UINT32_def)

lemma dt_add_size: "dt_size (dt_add n p T) \<le> n"
  unfolding dt_add_def by (rule dt_fit_size)

text \<open>The name of the new entry: that of an entry, or a new string.\<close>

lemma index_name:
  assumes "hd_table ctx hmap h X T" "idx = -1 \<or> 0 \<le> idx \<and> idx < int (61 + length T) \<and> fst (dt_get T (nat idx)) = name"
  obtains (none) h' where "(if idx \<noteq> -1 then
          res_bind (nghttp2_hd_table_get ctx (nat idx)) (\<lambda>e.
          res_bind (nghttp2_rcbuf_incref (hn_name e) h) (\<lambda>h1. Inr (0, Some (hn_name e), h1)))
        else nghttp2_rcbuf_new2 name h) = Inr (NGHTTP2_ERR_NOMEM, None, h')" "hd_table ctx hmap h' X T" "rc_same h h' X"
  | (some) p h' where "(if idx \<noteq> -1 then
          res_bind (nghttp2_hd_table_get ctx (nat idx)) (\<lambda>e.
          res_bind (nghttp2_rcbuf_incref (hn_name e) h) (\<lambda>h1. Inr (0, Some (hn_name e), h1)))
        else nghttp2_rcbuf_new2 name h) = Inr (0, Some p, h')" "hd_table ctx hmap h' (add_mset (Held p) X) T" "rc_same h h' X"
      "rc_str h' p = name"
proof (cases "idx = -1")
  case True
  show ?thesis by (cases rule: table_new2 [OF assms(1), of name]) (use True none some in auto)
next
  case False
  then have "nat idx < 61 + length T" using assms(2) by auto
  then obtain nv h' where "nghttp2_hd_table_get ctx (nat idx) = Inr nv" "rc_str h (hn_name nv) = fst (dt_get T (nat idx))"
    "nghttp2_rcbuf_incref (hn_name nv) h = Inr h'" "hd_table ctx hmap h' (add_mset (Held (hn_name nv)) X) T" "rc_str h' = rc_str h"
    by (rule table_get_name [OF assms(1)])
  then show ?thesis using some [of "hn_name nv" h'] False assms(2) by (simp add: rc_same_def)
qed

lemma deflate_index_ok:
  assumes "deflater_holds d h X T" "idx = -1 \<or> 0 \<le> idx \<and> idx < int (61 + length T) \<and> fst (dt_get T (nat idx)) = name"
    "token = lookup_token name" "hash = nv_hash name token"
  obtains rv d' h' T' where "deflate_index d name val idx token hash h = Inr (rv, d', h')" "deflater_holds d' h' X T'"
    "rv = 0 \<longrightarrow> T' = dt_add (df_limit d) (name, val) T" "rv = 0 \<or> rv = NGHTTP2_ERR_NOMEM \<or> rv = NGHTTP2_ERR_HEADER_COMP"
    "df_limit d' = df_limit d" "hc_bad (df_ctx d') = hc_bad (df_ctx d)" "df_notify d' = df_notify d" "rc_same h h' X"
proof -
  have tab: "hd_table (df_ctx d) (Some (df_map d)) h X T" and lim: "dt_size T \<le> df_limit d"
    using assms(1) by (simp_all add: deflater_holds_def df_limit_def)
  have stay: "deflater_holds d h1 X T" if "hd_table (df_ctx d) (Some (df_map d)) h1 X T" for h1
    using that assms(1) by (simp add: deflater_holds_def)
  show ?thesis
  proof (cases rule: index_name [OF tab assms(2)])
    case (1 h1)
    have "deflate_index d name val idx token hash h = Inr (NGHTTP2_ERR_NOMEM, d, h1)"
      unfolding deflate_index_def 1(1) by simp
    then show ?thesis by (rule that [OF _ stay [OF 1(2)]]) (simp_all add: 1(3))
  next
    case (2 p h1)
    show ?thesis
    proof (cases rule: table_new2 [OF 2(2), of val])
      case 21: (1 h2)
      from table_decref [OF 21(2)] obtain h3 where h3: "nghttp2_rcbuf_decref (Some p) h2 = Inr h3"
        "hd_table (df_ctx d) (Some (df_map d)) h3 X T" "rc_same h2 h3 X" by blast
      have eq: "deflate_index d name val idx token hash h = Inr (NGHTTP2_ERR_NOMEM, d, h3)"
        unfolding deflate_index_def 2(1) using 21(1) h3(1) by simp
      have "rc_same h h3 X"
        using rc_same_trans [OF rc_same_trans [OF 2(3) 21(3)] h3(3)] by simp
      then show ?thesis by (intro that [OF eq stay [OF h3(2)]]) simp_all
    next
      case 22: (2 q h2)
      let ?nv = "\<lparr>hn_name = p, hn_value = q, hn_token = token, hn_flags = 0\<rparr>"
      let ?X = "add_mset (Held q) (add_mset (Held p) X)"
      have strs: "rc_str h2 p = name" using 22(3) 2(4) rc_same_str [OF 22(3), of p] by simp
      obtain rv ctx hmap h3 where r: "add_hd_table_incremental (df_ctx d) ?nv (Some (df_map d)) hash h2 = Inr (rv, ctx, hmap, h3)"
        "rv = 0 \<or> rv = NGHTTP2_ERR_NOMEM"
        "hd_table ctx hmap h3 ?X (if rv = 0 then dt_add (hc_bufsize_max (df_ctx d)) (name, val) T
           else dt_fit (hc_bufsize_max (df_ctx d) - pair_room (name, val)) T)"
        "hc_bufsize_max ctx = hc_bufsize_max (df_ctx d)" "hc_bad ctx = hc_bad (df_ctx d)" "rc_same h2 h3 ?X"
        "(hmap = None) = (Some (df_map d) = None)"
        by (rule hd_table_add [OF 22(2), of ?nv "(name, val)" hash]) (use strs 22(4) assms(3,4) in auto)
      obtain m where m: "hmap = Some m" using r(7) by auto
      let ?T = "if rv = 0 then dt_add (hc_bufsize_max (df_ctx d)) (name, val) T
         else dt_fit (hc_bufsize_max (df_ctx d) - pair_room (name, val)) T"
      from table_decref [OF r(3)] obtain h4 where h4: "nghttp2_rcbuf_decref (Some q) h3 = Inr h4"
        "hd_table ctx hmap h4 (add_mset (Held p) X) ?T" "rc_same h3 h4 (add_mset (Held p) X)" by blast
      from table_decref [OF h4(2)] obtain h5 where h5: "nghttp2_rcbuf_decref (Some p) h4 = Inr h5"
        "hd_table ctx hmap h5 X ?T" "rc_same h4 h5 X" by blast
      let ?d = "d\<lparr>df_ctx := ctx, df_map := m\<rparr>"
      have eq: "deflate_index d name val idx token hash h = Inr (if rv \<noteq> 0 then NGHTTP2_ERR_HEADER_COMP else 0, ?d, h5)"
        unfolding deflate_index_def 2(1) using 22(1) r(1) h4(1) h5(1) m by simp
      have "dt_size ?T \<le> hc_bufsize_max (df_ctx d)"
        using dt_add_size [of "hc_bufsize_max (df_ctx d)" "(name, val)" T]
          le_trans [OF dt_fit_size [of "hc_bufsize_max (df_ctx d) - pair_room (name, val)" T] diff_le_self] by simp
      then have hold: "deflater_holds ?d h5 X ?T" using assms(1) h5(2) r(4) m by (simp add: deflater_holds_def)
      have "rc_same h h2 X" by (rule rc_same_trans [OF 2(3) 22(3)]) simp
      then have "rc_same h h3 X" by (rule rc_same_trans [OF _ r(6)]) (simp add: subset_mset.add_increasing)
      then have "rc_same h h4 X" by (rule rc_same_trans [OF _ h4(3)]) simp
      then have same: "rc_same h h5 X" by (rule rc_same_trans [OF _ h5(3)]) simp
      show ?thesis
        by (rule that [OF eq hold]) (use r(4,5) same in \<open>auto simp: df_limit_def NGHTTP2_ERR_HEADER_COMP_def split: if_splits\<close>)
    qed
  qed
qed

definition nv_holds :: "nghttp2_nv \<Rightarrow> hd_pair \<Rightarrow> bool" where
  "nv_holds nv p \<longleftrightarrow>
     nv_string (nv_name nv) (nv_namelen nv) = Inr (fst p) \<and> nv_string (nv_value nv) (nv_valuelen nv) = Inr (snd p)"

lemma arr_take_length: "arr_take p n = Inr s \<Longrightarrow> length s = n"
  by (auto simp: arr_take_def split: if_splits option.splits)

lemma nv_holds_length: "nv_holds nv p \<Longrightarrow> nv_namelen nv = length (fst p) \<and> nv_valuelen nv = length (snd p)"
  using arr_take_length unfolding nv_holds_def nv_string_def by metis

definition nv_mode :: "nghttp2_hd_deflater \<Rightarrow> nghttp2_nv \<Rightarrow> hd_pair \<Rightarrow> nghttp2_hd_indexing_mode" where
  "nv_mode d nv p = deflate_mode d (nv_namelen nv) (nv_valuelen nv) (nv_flags nv) (lookup_token (fst p))"

definition pair_small :: "hd_pair \<Rightarrow> bool" where
  "pair_small p \<longleftrightarrow> length (fst p) < 2 ^ 58 \<and> length (snd p) < 2 ^ 58"

lemma pair_smallD: "pair_small p \<Longrightarrow> length (fst p) < 2 ^ 58 \<and> length (snd p) < 2 ^ 58"
  by (simp only: pair_small_def)

text \<open>What a step of the deflater keeps, whatever it returns.\<close>

definition deflate_keeps ::
  "nghttp2_hd_deflater \<Rightarrow> nghttp2_bufs \<Rightarrow> rc_heap \<Rightarrow> owned multiset \<Rightarrow> nghttp2_hd_deflater \<Rightarrow> nghttp2_bufs \<Rightarrow> rc_heap \<Rightarrow> int \<Rightarrow> hd_pair list \<Rightarrow> bool" where
  "deflate_keeps d b h X d' b' h' rv T' \<longleftrightarrow>
     deflater_holds d' h' X T' \<and> rc_same h h' X \<and> bufs_wf b' \<and> bufs_max_chunk b' = bufs_max_chunk b \<and>
     (rv = 0 \<longrightarrow> bufs_roomy b') \<and> df_limit d' = df_limit d \<and> hc_bad (df_ctx d') = hc_bad (df_ctx d) \<and>
     (rv = 0 \<or> rv = NGHTTP2_ERR_NOMEM \<or> rv = NGHTTP2_ERR_HEADER_COMP \<or> rv = NGHTTP2_ERR_BUFFER_ERROR)"

lemma deflater_mem: "deflater_holds d h X T \<Longrightarrow> deflater_holds d (h\<lparr>hp_mem := m\<rparr>) X T"
  by (simp add: deflater_holds_def table_mem)

lemma emits_keeps:
  assumes "emits b (hp_mem h1) D r" "deflater_holds d1 h1 X T1" "rc_same h h1 X" "df_limit d1 = df_limit d" "hc_bad (df_ctx d1) = hc_bad (df_ctx d)"
  obtains rv b' h' where "res_bind r (\<lambda>(rv, b, m). Inr (rv, d1, b, h1\<lparr>hp_mem := m\<rparr>)) = Inr (rv, d1, b', h')"
    "deflate_keeps d b h X d1 b' h' rv T1" "rv = 0 \<longrightarrow> bufs_content b' = bufs_content b @ D" "rv = 0 \<longrightarrow> bufs_roomy b'"
proof -
  obtain rv b' m' where r: "r = Inr (rv, b', m')" "appends b (hp_mem h1) D rv b' m'" "rv = 0 \<longrightarrow> bufs_roomy b'"
    using assms(1) by (auto simp: emits_def)
  have "deflate_keeps d b h X d1 b' (h1\<lparr>hp_mem := m'\<rparr>) rv T1"
    using r(2,3) deflater_mem [OF assms(2)] assms(3-5) by (auto simp: deflate_keeps_def appends_def split: if_splits)
  then show ?thesis using that r by (auto simp: appends_def)
qed

lemma deflate_nv_ok:
  assumes hold: "deflater_holds d h X T" and b: "bufs_wf b" "bufs_roomy b" and nv: "nv_holds nv p" and small: "pair_small p"
  obtains rv d' b' h' T' where "deflate_nv d b nv h = Inr (rv, d', b', h')" "deflate_keeps d b h X d' b' h' rv T'"
    "df_notify d' = df_notify d"
    "rv = 0 \<longrightarrow> (\<exists>r. repr_ok T r \<and> repr_pair T r = Some p \<and> (repr_mode r = None \<or> repr_mode r = Some (nv_mode d nv p)) \<and>
      (nv_mode d nv p = NGHTTP2_HD_NEVER_INDEXING \<longrightarrow> repr_mode r \<noteq> None) \<and>
      bufs_content b' = bufs_content b @ repr_bytes r \<and> T' = repr_table (df_limit d) T r)"
proof -
  let ?n = "fst p" and ?v = "snd p" and ?mode = "nv_mode d nv p"
  let ?token = "lookup_token ?n"
  note len = pair_smallD [OF small]
  have T: "length T \<le> 2 ^ 31" by (rule deflater_length [OF hold])
  have tab: "hd_table (df_ctx d) (Some (df_map d)) h X T" using hold by (simp add: deflater_holds_def)
  obtain idx exact where s:
    "search_hd_table (df_ctx d) ?n ?v ?token ?mode (df_map d) (nv_hash ?n ?token) h = Inr (idx, exact)"
    "exact = (?mode \<noteq> NGHTTP2_HD_NEVER_INDEXING \<and> (?n, ?v) \<in> set (static_pairs @ T))"
    "if idx = -1 then ?n \<notin> fst ` set (static_pairs @ T)
     else 0 \<le> idx \<and> idx < int (61 + length T) \<and>
       (if exact then dt_get T (nat idx) = (?n, ?v) else fst (dt_get T (nat idx)) = ?n)"
    using search_hd_table_ex [OF tab T, of ?n ?v ?mode] by blast
  have idx: "idx = -1 \<or> 0 \<le> idx \<and> idx < int (61 + length T) \<and> fst (dt_get T (nat idx)) = ?n"
    using s(3) by (auto split: if_splits)
  have bound: "nat idx < 2 ^ 63" using idx T by auto
  note start = deflate_nv_def [of d b nv h, unfolded nv_holds_def [THEN iffD1, OF nv, THEN conjunct1] nv_holds_def [THEN iffD1, OF nv, THEN conjunct2]
      res_bind_Inr Let_def nv_mode_def [symmetric] s(1) prod.case]
  show ?thesis
  proof (cases exact)
    case True
    then have "idx \<noteq> -1" using s(2,3) by (metis fst_conv image_eqI)
    then have i: "repr_ok T (Repr_Index (nat idx))" "repr_pair T (Repr_Index (nat idx)) = Some p"
      using s(3) True by (auto simp: repr_ok_def)
    obtain rv b' h' where
      r: "res_bind (emit_indexed_block b (nat idx) (hp_mem h)) (\<lambda>(rv, b, m). Inr (rv, d, b, h\<lparr>hp_mem := m\<rparr>)) = Inr (rv, d, b', h')"
      "deflate_keeps d b h X d b' h' rv T" "rv = 0 \<longrightarrow> bufs_content b' = bufs_content b @ repr_bytes (Repr_Index (nat idx))" "rv = 0 \<longrightarrow> bufs_roomy b'"
      by (rule emits_keeps [OF emit_indexed_ok [OF b bound] hold rc_same_refl refl refl])
    show ?thesis
      by (rule that [OF _ r(2)])
        (use start r(1,3) True i s(2) in \<open>auto intro!: exI [of _ "Repr_Index (nat idx)"] simp: repr_table_def\<close>)
  next
    case False
    let ?r = "if idx = -1 then Repr_New ?mode ?n ?v else Repr_Name ?mode (nat idx) ?v"
    have ok: "repr_ok T ?r" "repr_pair T ?r = Some p" "repr_mode ?r = Some ?mode"
      using idx by (auto simp: repr_ok_def)
    obtain rv1 d1 h1 T1 where x:
      "(if ?mode = NGHTTP2_HD_WITH_INDEXING then deflate_index d ?n ?v idx ?token (nv_hash ?n ?token) h else Inr (0, d, h)) = Inr (rv1, d1, h1)"
      "deflater_holds d1 h1 X T1" "rv1 = 0 \<longrightarrow> T1 = repr_table (df_limit d) T ?r"
      "rv1 = 0 \<or> rv1 = NGHTTP2_ERR_NOMEM \<or> rv1 = NGHTTP2_ERR_HEADER_COMP" "df_limit d1 = df_limit d"
      "hc_bad (df_ctx d1) = hc_bad (df_ctx d)" "df_notify d1 = df_notify d" "rc_same h h1 X"
    proof (cases "?mode = NGHTTP2_HD_WITH_INDEXING")
      case True
      obtain rv1 d1 h1 T1 where
        "deflate_index d ?n ?v idx ?token (nv_hash ?n ?token) h = Inr (rv1, d1, h1)" "deflater_holds d1 h1 X T1"
        "rv1 = 0 \<longrightarrow> T1 = dt_add (df_limit d) (?n, ?v) T" "rv1 = 0 \<or> rv1 = NGHTTP2_ERR_NOMEM \<or> rv1 = NGHTTP2_ERR_HEADER_COMP"
        "df_limit d1 = df_limit d" "hc_bad (df_ctx d1) = hc_bad (df_ctx d)" "df_notify d1 = df_notify d" "rc_same h h1 X"
        by (rule deflate_index_ok [OF hold idx refl refl])
      then show ?thesis using that [of rv1 d1 h1 T1] True ok unfolding repr_table_def by simp
    next
      case False
      then show ?thesis using that [of 0 d h T] hold ok unfolding repr_table_def by simp
    qed
    show ?thesis
    proof (cases "rv1 = 0")
      case zero: True
      have "emits b (hp_mem h1) (repr_bytes ?r)
          (if idx = -1 then emit_newname_block b ?n ?v ?mode (hp_mem h1) else emit_indname_block b (nat idx) ?v ?mode (hp_mem h1))"
        using emit_newname_ok [OF b] emit_indname_ok [OF b bound] len by simp
      note em = this
      obtain rv b' h' where
        r: "res_bind (if idx = -1 then emit_newname_block b ?n ?v ?mode (hp_mem h1) else emit_indname_block b (nat idx) ?v ?mode (hp_mem h1))
            (\<lambda>(rv, b, m). Inr (rv, d1, b, h1\<lparr>hp_mem := m\<rparr>)) = Inr (rv, d1, b', h')"
        "deflate_keeps d b h X d1 b' h' rv T1" "rv = 0 \<longrightarrow> bufs_content b' = bufs_content b @ repr_bytes ?r" "rv = 0 \<longrightarrow> bufs_roomy b'"
        by (rule emits_keeps [OF em x(2,8,5,6)])
      have "deflate_nv d b nv h = Inr (rv, d1, b', h')"
        unfolding start if_not_P [OF False] x(1) res_bind_Inr prod.case using zero r(1) by simp
      then show ?thesis by (rule that [OF _ r(2) x(7)]) (use r(3) ok x(3) zero in blast)
    next
      case err: False
      have "deflate_nv d b nv h = Inr (rv1, d1, b, h1)"
        unfolding start if_not_P [OF False] x(1) res_bind_Inr prod.case using err by simp
      moreover have "deflate_keeps d b h X d1 b h1 rv1 T1" using x b err by (auto simp: deflate_keeps_def)
      ultimately show ?thesis by (rule that) (use x(7) err in simp_all)
    qed
  qed
qed

section \<open>A block\<close>

text \<open>The representations of a list of pairs, from a table to the table behind them.\<close>

fun reprs_for :: "nat \<Rightarrow> hd_pair list \<Rightarrow> hd_repr list \<Rightarrow> hd_pair list \<Rightarrow> hd_pair list \<Rightarrow> bool" where
  "reprs_for limit T [] ps T' \<longleftrightarrow> ps = [] \<and> T' = T"
| "reprs_for limit T (r # rs) ps T' \<longleftrightarrow>
     (case ps of [] \<Rightarrow> False
      | p # ps \<Rightarrow> repr_ok T r \<and> repr_pair T r = Some p \<and> reprs_for limit (repr_table limit T r) rs ps T')"

definition block_bytes :: "hd_repr list \<Rightarrow> bytes" where
  "block_bytes rs = concat (map repr_bytes rs)"

lemma block_bytes_simps [simp]:
  "block_bytes [] = []" "block_bytes (r # rs) = repr_bytes r @ block_bytes rs" "block_bytes (rs @ ss) = block_bytes rs @ block_bytes ss"
  by (simp_all add: block_bytes_def)

text \<open>A pair that must not be indexed is written as a literal that says so.\<close>

definition repr_private :: "nghttp2_hd_deflater \<Rightarrow> nghttp2_nv \<Rightarrow> hd_pair \<Rightarrow> hd_repr \<Rightarrow> bool" where
  "repr_private d nv p r \<longleftrightarrow> (nv_mode d nv p = NGHTTP2_HD_NEVER_INDEXING \<longrightarrow> repr_mode r = Some NGHTTP2_HD_NEVER_INDEXING)"

fun all_private :: "nghttp2_hd_deflater \<Rightarrow> nghttp2_nv list \<Rightarrow> hd_pair list \<Rightarrow> hd_repr list \<Rightarrow> bool" where
  "all_private d (nv # nva) (p # ps) (r # rs) \<longleftrightarrow> repr_private d nv p r \<and> all_private d nva ps rs"
| "all_private d nva ps rs \<longleftrightarrow> nva = [] \<and> ps = [] \<and> rs = []"

lemma nv_mode_limit: "df_limit d' = df_limit d \<Longrightarrow> nv_mode d' = nv_mode d"
  by (simp add: nv_mode_def deflate_mode_def hd_deflate_decide_indexing_def df_limit_def fun_eq_iff)

lemma all_private_limit: "df_limit d' = df_limit d \<Longrightarrow> all_private d' nva ps rs = all_private d nva ps rs"
proof (induction d nva ps rs rule: all_private.induct)
  case (1 d nv nva p ps r rs)
  then show ?case using nv_mode_limit [of d' d] by (simp only: all_private.simps repr_private_def)
qed simp_all

lemma keeps_trans:
  assumes "deflate_keeps d b h X d1 b1 h1 0 T1" "deflate_keeps d1 b1 h1 X d2 b2 h2 rv T2"
  shows "deflate_keeps d b h X d2 b2 h2 rv T2"
  using assms rc_same_trans [of h h1 X h2 X] by (simp add: deflate_keeps_def)

lemma deflate_nvs_ok:
  assumes "deflater_holds d h X T" "bufs_wf b" "bufs_roomy b" "list_all2 nv_holds nva ps" "list_all pair_small ps"
  obtains rv d' b' h' T' where "deflate_nvs d b nva h = Inr (rv, d', b', h')" "deflate_keeps d b h X d' b' h' rv T'"
    "df_notify d' = df_notify d"
    "rv = 0 \<longrightarrow> (\<exists>rs. reprs_for (df_limit d) T rs ps T' \<and> all_private d nva ps rs \<and>
      bufs_content b' = bufs_content b @ block_bytes rs)"
  using assms
proof (induction nva arbitrary: d b h T ps thesis)
  case Nil
  have "deflate_keeps d b h X d b h 0 T" using Nil.prems by (simp add: deflate_keeps_def)
  then show ?case by (intro Nil.prems(1) [of 0 d b h T]) (use Nil.prems in \<open>auto intro!: exI [of _ "[]"]\<close>)
next
  case (Cons nv nva)
  from Cons.prems(5) obtain p qs where ps: "ps = p # qs" "nv_holds nv p" "list_all2 nv_holds nva qs"
    by (auto simp: list_all2_Cons1)
  have small: "pair_small p" "list_all pair_small qs" using Cons.prems(6) ps by simp_all
  obtain rv1 d1 b1 h1 T1 where st: "deflate_nv d b nv h = Inr (rv1, d1, b1, h1)" "deflate_keeps d b h X d1 b1 h1 rv1 T1"
    "df_notify d1 = df_notify d"
    "rv1 = 0 \<longrightarrow> (\<exists>r. repr_ok T r \<and> repr_pair T r = Some p \<and> (repr_mode r = None \<or> repr_mode r = Some (nv_mode d nv p)) \<and>
      (nv_mode d nv p = NGHTTP2_HD_NEVER_INDEXING \<longrightarrow> repr_mode r \<noteq> None) \<and>
      bufs_content b1 = bufs_content b @ repr_bytes r \<and> T1 = repr_table (df_limit d) T r)"
    by (rule deflate_nv_ok [OF Cons.prems(2-4) ps(2) small(1)])
  show ?case
  proof (cases "rv1 = 0")
    case True
    from mp [OF st(4) True] obtain r where r: "repr_ok T r" "repr_pair T r = Some p" "repr_private d nv p r"
      "bufs_content b1 = bufs_content b @ repr_bytes r" "T1 = repr_table (df_limit d) T r" by (auto simp: repr_private_def)
    have k1: "deflater_holds d1 h1 X T1" "bufs_wf b1" "bufs_roomy b1" "df_limit d1 = df_limit d"
      using st(2) True by (simp_all add: deflate_keeps_def)
    obtain rv2 d2 b2 h2 T2 where st2: "deflate_nvs d1 b1 nva h1 = Inr (rv2, d2, b2, h2)" "deflate_keeps d1 b1 h1 X d2 b2 h2 rv2 T2"
      "df_notify d2 = df_notify d1"
      "rv2 = 0 \<longrightarrow> (\<exists>rs. reprs_for (df_limit d1) T1 rs qs T2 \<and> all_private d1 nva qs rs \<and> bufs_content b2 = bufs_content b1 @ block_bytes rs)"
      by (rule Cons.IH [OF _ k1(1-3) ps(3) small(2)])
    have "deflate_nvs d b (nv # nva) h = Inr (rv2, d2, b2, h2)" using st(1) True st2(1) by simp
    moreover have "deflate_keeps d b h X d2 b2 h2 rv2 T2" using keeps_trans st(2) st2(2) True by blast
    moreover have "\<exists>rs. reprs_for (df_limit d) T rs ps T2 \<and> all_private d (nv # nva) ps rs \<and> bufs_content b2 = bufs_content b @ block_bytes rs"
      if zero: "rv2 = 0"
    proof -
      from mp [OF st2(4) zero] obtain rs where "reprs_for (df_limit d1) T1 rs qs T2" "all_private d1 nva qs rs"
        "bufs_content b2 = bufs_content b1 @ block_bytes rs" by blast
      then show ?thesis using r k1(4) all_private_limit [OF k1(4)] ps(1) by (intro exI [of _ "r # rs"]) simp
    qed
    ultimately show ?thesis using st(3) st2(3) by (intro Cons.prems(1) [of rv2 d2 b2 h2 T2]) simp_all
  next
    case False
    then show ?thesis using st by (intro Cons.prems(1) [of rv1 d1 b1 h1 T1]) simp_all
  qed
qed

text \<open>The sizes that go in front of a block.\<close>

definition df_sizes :: "nghttp2_hd_deflater \<Rightarrow> hd_repr list" where
  "df_sizes d =
     (if df_notify d then (if df_min d < df_limit d then [Repr_Size (df_min d)] else []) @ [Repr_Size (df_limit d)] else [])"

lemma deflate_sizes_ok:
  assumes "deflater_holds d h X T" "bufs_wf b" "bufs_roomy b"
  obtains rv d' b' m' where "deflate_sizes d b (hp_mem h) = Inr (rv, d', b', m')" "deflate_keeps d b h X d' b' (h\<lparr>hp_mem := m'\<rparr>) rv T"
    "rv = 0 \<longrightarrow> bufs_content b' = bufs_content b @ block_bytes (df_sizes d)" "df_notify d' = False"
proof (cases "df_notify d")
  case True
  let ?d = "d\<lparr>df_notify := False, df_min := MAX_UINT32\<rparr>"
  have lim: "df_limit d < 2 ^ 64" "df_min d < 2 ^ 64" "hc_bufsize_max (df_ctx ?d) = df_limit d"
    using assms(1) by (simp_all add: deflater_holds_def df_limit_def MAX_UINT32_def)
  have hold: "deflater_holds ?d h X T" using assms(1) by (simp add: deflater_holds_def)
  let ?first = "if df_min d < df_limit d then [Repr_Size (df_min d)] else []"
  let ?r = "if df_min d < df_limit d then emit_table_size b (df_min d) (hp_mem h) else Inr (0, b, hp_mem h)"
  have "emits b (hp_mem h) (block_bytes ?first) ?r"
    using emit_size_ok [OF assms(2,3) lim(2)] appends_nothing [OF assms(2)] assms(3) by (simp add: emits_def)
  from emits_seq [OF this, of "block_bytes [Repr_Size (df_limit d)]" "\<lambda>b1 m1. emit_table_size b1 (df_limit d) m1"] emit_size_ok [OF _ _ lim(1)]
  have all: "emits b (hp_mem h) (block_bytes ?first @ block_bytes [Repr_Size (df_limit d)])
      (res_bind ?r (\<lambda>(rv, b1, m1). if rv \<noteq> 0 then Inr (rv, b1, m1) else emit_table_size b1 (df_limit d) m1))" by simp
  let ?all = "res_bind ?r (\<lambda>(rv, b1, m1). if rv \<noteq> 0 then Inr (rv, b1, m1) else emit_table_size b1 (df_limit d) m1)"
  obtain rv b' m' where r: "?all = Inr (rv, b', m')" using all by (auto simp: emits_def)
  have e: "df_limit ?d = df_limit d" "hc_bad (df_ctx ?d) = hc_bad (df_ctx d)" by (simp_all add: df_limit_def)
  obtain rv2 b2 h2 where
    k: "res_bind ?all (\<lambda>(rv, b, m). Inr (rv, ?d, b, h\<lparr>hp_mem := m\<rparr>)) = Inr (rv2, ?d, b2, h2)"
    "deflate_keeps d b h X ?d b2 h2 rv2 T" "rv2 = 0 \<longrightarrow> bufs_content b2 = bufs_content b @ block_bytes ?first @ block_bytes [Repr_Size (df_limit d)]"
    "rv2 = 0 \<longrightarrow> bufs_roomy b2"
    by (rule emits_keeps [OF all hold rc_same_refl e])
  have k': "rv2 = rv" "b2 = b'" "h2 = h\<lparr>hp_mem := m'\<rparr>" using k(1) unfolding r by simp_all
  obtain rv0 b0 m0 where r0: "?r = Inr (rv0, b0, m0)" using r by (cases ?r) auto
  have "deflate_sizes d b (hp_mem h) = res_bind ?r (\<lambda>(rv, b1, m1). if rv \<noteq> 0 then Inr (rv, ?d, b1, m1)
      else res_bind (emit_table_size b1 (df_limit d) m1) (\<lambda>(rv, b2, m2). Inr (rv, ?d, b2, m2)))"
    unfolding deflate_sizes_def if_P [OF True] Let_def lim(3) by (rule refl)
  also have "\<dots> = Inr (rv, ?d, b', m')"
    using r unfolding r0 res_bind_Inr prod.case by (cases "rv0 = 0") simp_all
  finally have "deflate_sizes d b (hp_mem h) = Inr (rv, ?d, b', m')" .
  then show ?thesis using that [of rv ?d b' m'] k(2,3) k' True by (simp add: df_sizes_def)
next
  case False
  have "deflate_keeps d b h X d b (h\<lparr>hp_mem := hp_mem h\<rparr>) 0 T" using assms by (simp add: deflate_keeps_def)
  then show ?thesis using that [of 0 d b "hp_mem h"] False by (simp add: deflate_sizes_def df_sizes_def)
qed

lemma df_limit_bad [simp]: "df_limit (d\<lparr>df_ctx := (df_ctx d)\<lparr>hc_bad := x\<rparr>\<rparr>) = df_limit d"
  by (simp add: df_limit_def)

lemma holds_bad [simp]: "deflater_holds (d\<lparr>df_ctx := (df_ctx d)\<lparr>hc_bad := x\<rparr>\<rparr>) h X T = deflater_holds d h X T"
  by (simp add: deflater_holds_def)

lemma sizes_limit: "df_limit d' = df_limit d \<Longrightarrow> reprs_for (df_limit d') = reprs_for (df_limit d)"
  by simp

lemma deflate_bufs_ok:
  assumes "deflater_holds d h X T" "hc_bad (df_ctx d) = False" "bufs_wf b" "bufs_roomy b" "list_all2 nv_holds nva ps"
    "list_all pair_small ps"
  obtains rv d' b' h' T' where "nghttp2_hd_deflate_hd_bufs d b nva h = Inr (rv, d', b', h')" "deflater_holds d' h' X T'"
    "rc_same h h' X" "bufs_wf b'" "df_limit d' = df_limit d"
    "rv = 0 \<or> rv = NGHTTP2_ERR_NOMEM \<or> rv = NGHTTP2_ERR_HEADER_COMP \<or> rv = NGHTTP2_ERR_BUFFER_ERROR"
    "hc_bad (df_ctx d') = (rv \<noteq> 0)" "df_notify d' = False"
    "rv = 0 \<longrightarrow> (\<exists>rs. reprs_for (df_limit d) T rs ps T' \<and> all_private d nva ps rs \<and>
      bufs_content b' = bufs_content b @ block_bytes (df_sizes d @ rs))"
proof -
  obtain rv1 d1 b1 m1 where s: "deflate_sizes d b (hp_mem h) = Inr (rv1, d1, b1, m1)"
    "deflate_keeps d b h X d1 b1 (h\<lparr>hp_mem := m1\<rparr>) rv1 T" "rv1 = 0 \<longrightarrow> bufs_content b1 = bufs_content b @ block_bytes (df_sizes d)"
    "df_notify d1 = False"
    by (rule deflate_sizes_ok [OF assms(1,3,4)])
  let ?h1 = "h\<lparr>hp_mem := m1\<rparr>"
  show ?thesis
  proof (cases "rv1 = 0")
    case True
    have k1: "deflater_holds d1 ?h1 X T" "bufs_wf b1" "bufs_roomy b1" "df_limit d1 = df_limit d"
      using s(2) True by (simp_all add: deflate_keeps_def)
    obtain rv2 d2 b2 h2 T2 where r: "deflate_nvs d1 b1 nva ?h1 = Inr (rv2, d2, b2, h2)" "deflate_keeps d1 b1 ?h1 X d2 b2 h2 rv2 T2"
      "df_notify d2 = df_notify d1"
      "rv2 = 0 \<longrightarrow> (\<exists>rs. reprs_for (df_limit d1) T rs ps T2 \<and> all_private d1 nva ps rs \<and> bufs_content b2 = bufs_content b1 @ block_bytes rs)"
      by (rule deflate_nvs_ok [OF k1(1-3) assms(5,6)])
    have k2: "deflate_keeps d b h X d2 b2 h2 rv2 T2" using keeps_trans s(2) r(2) True by blast
    let ?d = "if rv2 \<noteq> 0 then d2\<lparr>df_ctx := (df_ctx d2)\<lparr>hc_bad := True\<rparr>\<rparr> else d2"
    have eq: "nghttp2_hd_deflate_hd_bufs d b nva h = Inr (rv2, ?d, b2, h2)"
      using assms(2) s(1) True r(1) by (simp add: nghttp2_hd_deflate_hd_bufs_def)
    have bad: "hc_bad (df_ctx d2) = False" using k2 assms(2) by (simp add: deflate_keeps_def)
    have hold: "deflater_holds ?d h2 X T2" using k2 by (simp add: deflate_keeps_def)
    have "rv2 = 0 \<longrightarrow> (\<exists>rs. reprs_for (df_limit d) T rs ps T2 \<and> all_private d nva ps rs \<and>
        bufs_content b2 = bufs_content b @ block_bytes (df_sizes d @ rs))"
      using r(4) s(3) True k1(4) all_private_limit [OF k1(4)] by auto
    then show ?thesis
      by (intro that [OF eq hold]) (use k2 bad r(3) s(4) in \<open>simp_all add: deflate_keeps_def\<close>)
  next
    case False
    let ?d = "d1\<lparr>df_ctx := (df_ctx d1)\<lparr>hc_bad := True\<rparr>\<rparr>"
    have eq: "nghttp2_hd_deflate_hd_bufs d b nva h = Inr (rv1, ?d, b1, ?h1)"
      using assms(2) s(1) False by (simp add: nghttp2_hd_deflate_hd_bufs_def)
    have hold: "deflater_holds ?d ?h1 X T" using s(2) by (simp add: deflate_keeps_def)
    show ?thesis by (rule that [OF eq hold]) (use s(2,4) False in \<open>simp_all add: deflate_keeps_def\<close>)
  qed
qed

section \<open>Making a deflater, and the limit of its table\<close>

lemma deflate_init_ok:
  assumes "rc_ok h X" "n \<le> MAX_UINT32"
  obtains (none) h' where "nghttp2_hd_deflate_init2 n h = (NGHTTP2_ERR_NOMEM, None, h')" "rc_ok h' X" "rc_str h' = rc_str h"
  | (some) d h' where "nghttp2_hd_deflate_init2 n h = (0, Some d, h')" "deflater_holds d h' X []" "df_table_max d = n"
      "df_limit d = min n 4096"
      "df_notify d = (n < 4096)" "df_min d = MAX_UINT32" "hc_bad (df_ctx d) = False" "rc_str h' = rc_str h"
proof (cases rule: hd_init [OF assms(1)])
  case (1 h')
  then show ?thesis by (intro none [of h']) (simp_all add: nghttp2_hd_deflate_init2_def)
next
  case (2 ctx h')
  have t: "hd_table ctx (Some hd_map_init) h' X []" using 2(3) by (simp add: hd_tableI)
  have t': "hd_table (ctx\<lparr>hc_bufsize_max := n\<rparr>) (Some hd_map_init) h' X []"
    by (rule table_limit [OF t]) (use assms(2) in \<open>simp add: MAX_UINT32_def\<close>)
  let ?d = "\<lparr>df_ctx = (if n < 4096 then ctx\<lparr>hc_bufsize_max := n\<rparr> else ctx), df_map = hd_map_init, df_table_max = n,
    df_min = MAX_UINT32, df_notify = n < 4096\<rparr>"
  have "nghttp2_hd_deflate_init2 n h = (0, Some ?d, h')"
    using 2(1) by (simp add: nghttp2_hd_deflate_init2_def Let_def NGHTTP2_HD_DEFAULT_MAX_BUFFER_SIZE_def)
  moreover have "deflater_holds ?d h' X []" using 2(4) t t' assms(2) by (auto simp: deflater_holds_def)
  moreover have "df_limit ?d = min n 4096" using 2(4) by (simp add: df_limit_def)
  moreover have "\<not> hc_bad (df_ctx ?d)" using 2(5) by simp
  ultimately show ?thesis using 2(6) by (intro some [of ?d h']) simp_all
qed

text \<open>A deflater that the library makes is a block of its own; without memory nothing is left of it.\<close>

lemma deflate_new_ok:
  assumes "rc_ok h X" "n \<le> MAX_UINT32"
  obtains (none) h' where "nghttp2_hd_deflate_new n h = Inr (NGHTTP2_ERR_NOMEM, None, h')" "rc_ok h' X" "rc_str h' = rc_str h"
  | (some) a d h' where "nghttp2_hd_deflate_new n h = Inr (0, Some (a, d), h')" "deflater_holds d h' (add_mset (Block a) X) []"
      "df_table_max d = n" "df_limit d = min n 4096" "df_notify d = (n < 4096)" "df_min d = MAX_UINT32" "hc_bad (df_ctx d) = False" "rc_str h' = rc_str h"
proof (cases rule: hp_alloc_ok [OF assms(1), of SIZEOF_HD_DEFLATER])
  case (1 h1)
  then show ?thesis by (intro none [of h1]) (simp_all add: nghttp2_hd_deflate_new_def nghttp2_hd_deflate_new2_def)
next
  case (2 a h1)
  note new = nghttp2_hd_deflate_new_def nghttp2_hd_deflate_new2_def 2(1)
  show ?thesis
  proof (cases rule: deflate_init_ok [OF 2(2) assms(2)])
    case init: (1 h2)
    from hp_free_ok [OF init(2)] obtain h3 where h3: "hp_free a h2 = Inr h3" "rc_ok h3 X" "rc_str h3 = rc_str h2" by blast
    then show ?thesis using init(1,3) 2(3) by (intro none [of h3]) (simp_all add: new)
  next
    case init: (2 d h2)
    show ?thesis by (rule some [of a d h2]) (use init 2(3) in \<open>simp_all add: new\<close>)
  qed
qed

lemma dt_fit_fit: "dt_fit a (dt_fit b T) = dt_fit (min a b) T"
  by (induction T arbitrary: a b) (auto simp: min_def)

lemma change_size_ok:
  assumes "deflater_holds d h X T"
  obtains d' h' where "nghttp2_hd_deflate_change_table_size d n h = Inr (0, d', h')"
    "deflater_holds d' h' X (dt_fit (min n (df_table_max d)) T)" "df_limit d' = min n (df_table_max d)"
    "df_min d' = min (df_min d) (min n (df_table_max d))" "df_notify d'" "rc_same h h' X" "hc_bad (df_ctx d') = hc_bad (df_ctx d)"
    "df_table_max d' = df_table_max d"
proof -
  let ?n = "min n (df_table_max d)"
  let ?ctx = "(df_ctx d)\<lparr>hc_bufsize_max := ?n\<rparr>"
  have small: "?n \<le> MAX_UINT32" by (rule le_trans [OF min.cobounded2]) (use assms in \<open>simp add: deflater_holds_def\<close>)
  have "hd_table ?ctx (Some (df_map d)) h X T"
    by (rule table_limit) (use assms small in \<open>simp_all add: deflater_holds_def MAX_UINT32_def\<close>)
  from hd_table_shrink [OF this] obtain ctx hmap h' where r:
    "hd_context_shrink_table_size ?ctx (Some (df_map d)) h = Inr (ctx, hmap, h')"
    "hd_table ctx hmap h' X (dt_fit ?n T)" "hc_bufsize_max ctx = ?n" "hc_bad ctx = hc_bad (df_ctx d)" "rc_same h h' X"
    "hmap \<noteq> None" by auto
  obtain m where m: "hmap = Some m" using r(6) by auto
  let ?d = "d\<lparr>df_ctx := ctx, df_min := min (df_min d) ?n, df_notify := True, df_map := m\<rparr>"
  have eq: "nghttp2_hd_deflate_change_table_size d n h = Inr (0, ?d, h')"
    using r(1) m by (simp add: nghttp2_hd_deflate_change_table_size_def Let_def)
  have "deflater_holds ?d h' X (dt_fit ?n T)"
    using r(2,3) m small assms dt_fit_size [of ?n T] by (simp add: deflater_holds_def)
  then show ?thesis by (rule that [OF eq]) (use r(3,4,5) in \<open>simp_all add: df_limit_def\<close>)
qed

lemma deflate_free_ok:
  assumes "deflater_holds d h X T"
  obtains h' where "nghttp2_hd_deflate_free d h = Inr h'" "rc_ok h' X" "rc_same h h' X"
  using assms table_free unfolding deflater_holds_def nghttp2_hd_deflate_free_def by metis

lemma deflate_del_ok:
  assumes "deflater_holds d h (add_mset (Block a) X) T"
  obtains h' where "nghttp2_hd_deflate_del a d h = Inr h'" "rc_ok h' X" "rc_same h h' X"
proof -
  from deflate_free_ok [OF assms] obtain h1 where h1: "nghttp2_hd_deflate_free d h = Inr h1"
    "rc_ok h1 (add_mset (Block a) X)" "rc_same h h1 (add_mset (Block a) X)" by blast
  from hp_free_ok [OF h1(2)] obtain h2 where h2: "hp_free a h1 = Inr h2" "rc_ok h2 X" "rc_str h2 = rc_str h1" by blast
  have "rc_same h h2 X" using h1(3) h2(3) by (simp add: rc_same_def)
  then show ?thesis using that [of h2] h1(1) h2(1,2) by (simp add: nghttp2_hd_deflate_del_def)
qed

text \<open>
  What the peer has, a limit and a table, while changes of the limit are not sent yet. A
  deflater that starts with a smaller limit than the standard one has the same empty table.
\<close>

definition peer_of :: "nghttp2_hd_deflater \<Rightarrow> hd_pair list \<Rightarrow> nat \<Rightarrow> hd_pair list \<Rightarrow> bool" where
  "peer_of d T L S \<longleftrightarrow>
     (if df_notify d then T = dt_fit (min (df_min d) (df_limit d)) S \<and> (df_min d \<le> df_limit d \<or> S = [])
      else L = df_limit d \<and> S = T)"

definition dec_size :: "hd_repr \<Rightarrow> nat \<times> hd_pair list \<Rightarrow> nat \<times> hd_pair list" where
  "dec_size r s = (case r of Repr_Size n \<Rightarrow> (n, dt_fit n (snd s)) | _ \<Rightarrow> s)"

lemma peer_sizes: "peer_of d T L S \<Longrightarrow> fold dec_size (df_sizes d) (L, S) = (df_limit d, T)"
  by (auto simp: peer_of_def df_sizes_def dec_size_def dt_fit_fit min_def split: if_splits)

lemma peer_change:
  assumes "peer_of d T L S" "deflater_holds d h X T" "n \<le> MAX_UINT32"
    "df_limit d' = n" "df_min d' = min (df_min d) n" "df_notify d'"
  shows "peer_of d' (dt_fit n T) L S"
  using assms by (auto simp: peer_of_def deflater_holds_def dt_fit_fit min_def split: if_splits)

section \<open>The length of a block\<close>

lemma hd_int_short:
  assumes "n < prefix_max pfx + 2 ^ (7 * k)" "0 < k"
  shows "length (hd_int first n pfx) \<le> k + 1"
  using seven_bits_length [of "n - prefix_max pfx" k] assms by (simp add: hd_int_def)

lemma str_bytes_length: "length s < 2 ^ 28 \<Longrightarrow> length (str_bytes s) \<le> 5 + length s"
proof (cases "length (huff_bytes s) < length s")
  case True
  assume "length s < 2 ^ 28"
  with True have "length (hd_int (push_bit 7 1) (length (huff_bytes s)) 7) \<le> 4 + 1" by (intro hd_int_short) simp_all
  then show ?thesis using True by (simp add: str_bytes_def)
next
  case False
  assume "length s < 2 ^ 28"
  then have "length (hd_int 0 (length s) 7) \<le> 4 + 1" by (intro hd_int_short) simp_all
  then show ?thesis using False by (simp add: str_bytes_def)
qed

lemma repr_bytes_length:
  assumes "repr_ok T r" "repr_pair T r = Some p" "length T \<le> 2 ^ 31" "length (fst p) < 2 ^ 28" "length (snd p) < 2 ^ 28"
  shows "length (repr_bytes r) \<le> 12 + length (fst p) + length (snd p)"
proof (cases r)
  case (Repr_Index i)
  then show ?thesis using assms(1,3) hd_int_short [of "i + 1" 7 5 "0x80"] by (simp add: repr_ok_def)
next
  case (Repr_Name mode i val)
  let ?pfx = "if mode = NGHTTP2_HD_WITH_INDEXING then 6 else 4 :: nat"
  have "length (hd_int (pack_first_byte mode) (i + 1) ?pfx) \<le> 6"
    using Repr_Name assms(1,3) hd_int_short [of "i + 1" ?pfx 5 "pack_first_byte mode"] by (simp add: repr_ok_def)
  then show ?thesis using Repr_Name assms(2,5) str_bytes_length [of val] by auto
next
  case (Repr_New mode name val)
  then show ?thesis using assms(2,4,5) str_bytes_length [of name] str_bytes_length [of val] by auto
next
  case (Repr_Size n)
  then show ?thesis using assms(2) by simp
qed

lemma repr_table_length: "length T \<le> 2 ^ 31 \<Longrightarrow> limit \<le> MAX_UINT32 \<Longrightarrow> length (repr_table limit T r) \<le> 2 ^ 31"
  using dt_size_length [of "repr_table limit T r"] dt_add_size [of limit "the (repr_pair T r)" T]
  by (simp add: repr_table_def MAX_UINT32_def split: if_splits)

definition pair_short :: "hd_pair \<Rightarrow> bool" where
  "pair_short p \<longleftrightarrow> length (fst p) < 2 ^ 28 \<and> length (snd p) < 2 ^ 28"

lemma reprs_length:
  assumes "reprs_for limit T rs ps T'" "list_all pair_short ps" "length T \<le> 2 ^ 31" "limit \<le> MAX_UINT32"
  shows "length (block_bytes rs) \<le> 12 * length ps + sum_list (map (\<lambda>p. length (fst p) + length (snd p)) ps)"
  using assms
proof (induction limit T rs ps T' rule: reprs_for.induct)
  case (2 limit T r rs ps T')
  from "2.prems"(1) obtain p qs where ps: "ps = p # qs" "repr_ok T r" "repr_pair T r = Some p"
    "reprs_for limit (repr_table limit T r) rs qs T'" by (auto split: list.splits)
  have "length (repr_bytes r) \<le> 12 + length (fst p) + length (snd p)"
    by (rule repr_bytes_length [OF ps(2,3) "2.prems"(3)]) (use "2.prems"(2) ps(1) in \<open>simp_all add: pair_short_def\<close>)
  moreover have "length (block_bytes rs) \<le> 12 * length qs + sum_list (map (\<lambda>p. length (fst p) + length (snd p)) qs)"
    by (rule "2.IH" [OF ps(1,4) _ repr_table_length [OF "2.prems"(3,4)] "2.prems"(4)]) (use "2.prems"(2) ps(1) in simp)
  ultimately show ?case using ps(1) by simp
qed simp

lemma df_sizes_length:
  assumes "deflater_holds d h X T"
  shows "length (block_bytes (df_sizes d)) \<le> 12"
proof -
  have "length (hd_int 0x20 n 5) \<le> 6" if "n \<le> MAX_UINT32" for n
    using hd_int_short [of n 5 5 "0x20"] that by (simp add: MAX_UINT32_def)
  moreover have "df_min d \<le> MAX_UINT32" "df_limit d \<le> MAX_UINT32"
    using assms by (simp_all add: deflater_holds_def df_limit_def)
  ultimately have "length (hd_int 0x20 (df_min d) 5) \<le> 6" "length (hd_int 0x20 (df_limit d) 5) \<le> 6" by blast+
  then show ?thesis by (simp add: df_sizes_def)
qed

lemma bound_pairs:
  assumes "list_all2 nv_holds nva ps"
  shows "nghttp2_hd_deflate_bound nva = 12 + 12 * length ps + sum_list (map (\<lambda>p. length (fst p) + length (snd p)) ps)"
  using assms
proof (induction nva ps rule: list_all2_induct)
  case (Cons nv nva p ps)
  then show ?case using nv_holds_length [OF Cons(1)] by (simp add: nghttp2_hd_deflate_bound_def)
qed (simp add: nghttp2_hd_deflate_bound_def)

section \<open>Properties\<close>

lemma pair_short_small: "list_all pair_short ps \<Longrightarrow> list_all pair_small ps"
  by (auto simp: list_all_iff pair_short_def pair_small_def)

text \<open>
  The pairs that must stay out of the tables: credentials, short cookies, which could be guessed from
  the length of the block, and what the application has marked.
\<close>

lemma secret_tokens:
  "lookup_token (bytes_of ''authorization'') = NGHTTP2_TOKEN_AUTHORIZATION" "lookup_token (bytes_of ''cookie'') = NGHTTP2_TOKEN_COOKIE"
  by code_simp+

definition secret :: "nghttp2_nv \<Rightarrow> hd_pair \<Rightarrow> bool" where
  "secret nv p \<longleftrightarrow> fst p = bytes_of ''authorization'' \<or> fst p = bytes_of ''cookie'' \<and> length (snd p) < 20 \<or> nv_flags nv AND 1 \<noteq> 0"

fun all_hidden :: "nghttp2_nv list \<Rightarrow> hd_pair list \<Rightarrow> hd_repr list \<Rightarrow> bool" where
  "all_hidden (nv # nva) (p # ps) (r # rs) \<longleftrightarrow>
     (if secret nv p then repr_mode r = Some NGHTTP2_HD_NEVER_INDEXING else True) \<and> all_hidden nva ps rs"
| "all_hidden nva ps rs \<longleftrightarrow> nva = [] \<and> ps = [] \<and> rs = []"

lemma secret_never: "nv_holds nv p \<Longrightarrow> secret nv p \<Longrightarrow> nv_mode d nv p = NGHTTP2_HD_NEVER_INDEXING"
  using nv_holds_length [of nv p]
  by (auto simp: secret_def nv_mode_def deflate_mode_def NGHTTP2_NV_FLAG_NO_INDEX_def secret_tokens)

lemma private_hidden: "list_all2 nv_holds nva ps \<Longrightarrow> all_private d nva ps rs \<Longrightarrow> all_hidden nva ps rs"
  by (induction d nva ps rs rule: all_private.induct) (auto simp: repr_private_def dest: secret_never)

text \<open>
  C12. For a usable deflater in any state, a well-formed chain with room in every chunk, and pairs whose
  strings are shorter than 2^58 bytes, the deflater returns whatever memory it gets: on success it has
  appended the pending table sizes and for each pair a representation that stands for it in the table as it
  is then, with never-indexed literals for the pairs that must not be indexed; an error makes the context
  bad; and in every case what is alive in the heap is exactly what the table and the others own, so nothing
  leaks or is released twice.
\<close>

theorem deflate_block_spec:
  assumes "deflater_holds d h X T" "hc_bad (df_ctx d) = False" "bufs_wf b" "bufs_roomy b" "list_all2 nv_holds nva ps"
    "list_all pair_small ps"
  shows "\<exists>rv d' b' h' T'. nghttp2_hd_deflate_hd_bufs d b nva h = Inr (rv, d', b', h') \<and> deflater_holds d' h' X T' \<and>
    rc_same h h' X \<and> bufs_wf b' \<and> hc_bad (df_ctx d') = (rv \<noteq> 0) \<and>
    rv \<in> {0, NGHTTP2_ERR_NOMEM, NGHTTP2_ERR_HEADER_COMP, NGHTTP2_ERR_BUFFER_ERROR} \<and>
    (if rv = 0 then \<exists>rs. reprs_for (df_limit d) T rs ps T' \<and> all_hidden nva ps rs \<and>
       bufs_content b' = bufs_content b @ block_bytes (df_sizes d @ rs) else True)"
proof -
  obtain rv d' b' h' T' where "nghttp2_hd_deflate_hd_bufs d b nva h = Inr (rv, d', b', h')" "deflater_holds d' h' X T'"
    "rc_same h h' X" "bufs_wf b'" "df_limit d' = df_limit d"
    "rv = 0 \<or> rv = NGHTTP2_ERR_NOMEM \<or> rv = NGHTTP2_ERR_HEADER_COMP \<or> rv = NGHTTP2_ERR_BUFFER_ERROR"
    "hc_bad (df_ctx d') = (rv \<noteq> 0)" "df_notify d' = False"
    "rv = 0 \<longrightarrow> (\<exists>rs. reprs_for (df_limit d) T rs ps T' \<and> all_private d nva ps rs \<and>
      bufs_content b' = bufs_content b @ block_bytes (df_sizes d @ rs))"
    by (rule deflate_bufs_ok [OF assms])
  then show ?thesis by (intro exI [of _ rv] exI [of _ d'] exI [of _ b'] exI [of _ h'] exI [of _ T']) (auto dest: private_hidden [OF assms(5)])
qed

text \<open>
  What a block takes is at most what \<open>nghttp2_hd_deflate_bound\<close> has promised, for names and values shorter
  than 2 ^ 28 bytes.
\<close>

text \<open>
  C13. A block takes at most the bytes that nghttp2_hd_deflate_bound gives for the pairs, including pending
  table sizes, for strings shorter than 2^28 bytes.
\<close>

theorem deflate_bound_holds:
  assumes "deflater_holds d h X T" "hc_bad (df_ctx d) = False" "bufs_wf b" "bufs_roomy b" "list_all2 nv_holds nva ps"
    "list_all pair_short ps"
  shows "\<exists>rv d' b' h'. nghttp2_hd_deflate_hd_bufs d b nva h = Inr (rv, d', b', h') \<and>
    (if rv = 0 then length (bufs_content b') \<le> length (bufs_content b) + nghttp2_hd_deflate_bound nva else rv < 0)"
proof -
  obtain rv d' b' h' T' where r: "nghttp2_hd_deflate_hd_bufs d b nva h = Inr (rv, d', b', h')" "deflater_holds d' h' X T'"
    "rc_same h h' X" "bufs_wf b'" "df_limit d' = df_limit d"
    "rv = 0 \<or> rv = NGHTTP2_ERR_NOMEM \<or> rv = NGHTTP2_ERR_HEADER_COMP \<or> rv = NGHTTP2_ERR_BUFFER_ERROR"
    "hc_bad (df_ctx d') = (rv \<noteq> 0)" "df_notify d' = False"
    "rv = 0 \<longrightarrow> (\<exists>rs. reprs_for (df_limit d) T rs ps T' \<and> all_private d nva ps rs \<and>
      bufs_content b' = bufs_content b @ block_bytes (df_sizes d @ rs))"
    by (rule deflate_bufs_ok [OF assms(1-5) pair_short_small [OF assms(6)]])
  have "length (bufs_content b') \<le> length (bufs_content b) + nghttp2_hd_deflate_bound nva" if zero: "rv = 0"
  proof -
    from mp [OF r(9) zero] obtain rs where rs: "reprs_for (df_limit d) T rs ps T'"
      "bufs_content b' = bufs_content b @ block_bytes (df_sizes d @ rs)" by blast
    have "df_limit d \<le> MAX_UINT32" using assms(1) by (simp add: deflater_holds_def df_limit_def)
    from reprs_length [OF rs(1) assms(6) deflater_length [OF assms(1)] this] df_sizes_length [OF assms(1)]
    show ?thesis using rs(2) bound_pairs [OF assms(5)] by simp
  qed
  then show ?thesis using r(1,6)
    by (intro exI [of _ rv] exI [of _ d'] exI [of _ b'] exI [of _ h'])
      (auto simp: NGHTTP2_ERR_NOMEM_def NGHTTP2_ERR_HEADER_COMP_def NGHTTP2_ERR_BUFFER_ERROR_def)
qed

text \<open>A new deflater, memory of the caller, and a pair that must not be indexed.\<close>

definition wit_deflater :: nghttp2_hd_deflater where
  "wit_deflater = \<lparr>df_ctx = wit_ctx, df_map = hd_map_init, df_table_max = 4096, df_min = MAX_UINT32, df_notify = False\<rparr>"

definition wit_bufs :: "nat \<Rightarrow> nghttp2_bufs" where
  "wit_bufs n = \<lparr>bufs_head = [nghttp2_buf_wrap_init (Some (replicate n 0))], bufs_cur = 0, bufs_chunk_length = n, bufs_max_chunk = 1,
     bufs_chunk_used = 1, bufs_chunk_keep = 1, bufs_offset = 0\<rparr>"

definition wit_secret :: nghttp2_nv where
  "wit_secret = \<lparr>nv_name = Some (bytes_of ''x''), nv_value = Some (bytes_of ''1''), nv_namelen = 1, nv_valuelen = 1, nv_flags = 1\<rparr>"

abbreviation wit_pair :: hd_pair where
  "wit_pair \<equiv> (bytes_of ''x'', bytes_of ''1'')"

lemma wit_deflater_init: "nghttp2_hd_deflate_init wit_heap = (0, Some wit_deflater, wit_heap1)"
  by (simp add: nghttp2_hd_deflate_init_def nghttp2_hd_deflate_init2_def wit_init wit_deflater_def Let_def
      NGHTTP2_HD_DEFAULT_MAX_BUFFER_SIZE_def NGHTTP2_HD_DEFAULT_MAX_DEFLATE_BUFFER_SIZE_def)

lemma wit_deflater_holds: "deflater_holds wit_deflater wit_heap1 {#} []" "hc_bad (df_ctx wit_deflater) = False"
  by (rule deflate_init_ok [OF wit_ok, of 4096]; use wit_deflater_init in \<open>simp add: nghttp2_hd_deflate_init_def NGHTTP2_HD_DEFAULT_MAX_DEFLATE_BUFFER_SIZE_def MAX_UINT32_def\<close>)+

lemma wit_bufs_ok: "bufs_wf (wit_bufs n)" "bufs_roomy (wit_bufs n)" "bufs_content (wit_bufs n) = []"
  by (simp_all add: wit_bufs_def bufs_wf_def bufs_roomy_def bufs_content_def nghttp2_buf_wrap_init_def buf_wf_def buf_data_def
      nghttp2_buf_cap_def buf_store_def)

lemma wit_secret_holds: "nv_holds wit_secret wit_pair"
  by (simp add: nv_holds_def nv_string_def wit_secret_def arr_take_def bytes_of_def)

lemma wit_secret_mode: "nv_mode d wit_secret wit_pair = NGHTTP2_HD_NEVER_INDEXING"
  by (simp add: nv_mode_def deflate_mode_def wit_secret_def NGHTTP2_NV_FLAG_NO_INDEX_def)

lemma wit_name_new: "fst wit_pair \<notin> fst ` set static_pairs"
  by (simp add: static_pairs_def static_table_def make_static_ent_def bytes_of_def)

theorem deflate_block_spec_witness:
  "\<exists>rv d b h T. nghttp2_hd_deflate_hd_bufs wit_deflater (wit_bufs 64) [wit_secret] wit_heap1 = Inr (rv, d, b, h) \<and>
    deflater_holds d h {#} T \<and> (rv = 0 \<longrightarrow> T = [])"
proof -
  have "list_all2 nv_holds [wit_secret] [wit_pair]" "list_all pair_small [wit_pair]"
    using wit_secret_holds by (simp_all add: pair_small_def bytes_of_def)
  from deflate_block_spec [OF wit_deflater_holds wit_bufs_ok(1,2) this, of 64] obtain rv d b h T where
    r: "nghttp2_hd_deflate_hd_bufs wit_deflater (wit_bufs 64) [wit_secret] wit_heap1 = Inr (rv, d, b, h)" "deflater_holds d h {#} T"
      "if rv = 0 then \<exists>rs. reprs_for (df_limit wit_deflater) [] rs [wit_pair] T \<and> all_hidden [wit_secret] [wit_pair] rs \<and>
         bufs_content b = bufs_content (wit_bufs 64) @ block_bytes (df_sizes wit_deflater @ rs) else True" by blast
  have "T = []" if zero: "rv = 0"
  proof -
    from r(3) zero obtain rs where rs: "reprs_for (df_limit wit_deflater) [] rs [wit_pair] T"
      "all_hidden [wit_secret] [wit_pair] rs" by auto
    then obtain q qs where q: "rs = q # qs" by (cases rs) auto
    then have "repr_mode q = Some NGHTTP2_HD_NEVER_INDEXING" using rs(2) by (simp add: secret_def wit_secret_def)
    then show ?thesis using rs(1) q by (cases qs) (simp_all add: repr_table_def)
  qed
  then show ?thesis using r(1,2) by blast
qed

definition wit_packer :: nghttp2_hd_deflater where
  "wit_packer = (case nghttp2_hd_deflate_new 100 wit_heap of Inr (rv, Some (a, d), h) \<Rightarrow> d)"

definition wit_packer_addr :: nat where
  "wit_packer_addr = (case nghttp2_hd_deflate_new 100 wit_heap of Inr (rv, Some (a, d), h) \<Rightarrow> a)"

definition wit_packer_heap :: rc_heap where
  "wit_packer_heap = (case nghttp2_hd_deflate_new 100 wit_heap of Inr (rv, d, h) \<Rightarrow> h)"

lemma wit_packer_new: "nghttp2_hd_deflate_new 100 wit_heap = Inr (0, Some (wit_packer_addr, wit_packer), wit_packer_heap)"
  by (simp add: wit_packer_def wit_packer_addr_def wit_packer_heap_def nghttp2_hd_deflate_new_def nghttp2_hd_deflate_new2_def nghttp2_hd_deflate_init2_def
      hd_context_init_def hd_ringbuf_init_def hp_alloc_def wit_heap_def nghttp2_mem_malloc_def
      NGHTTP2_HD_DEFAULT_MAX_BUFFER_SIZE_def NGHTTP2_HD_ENTRY_OVERHEAD_def wit_size [simplified] Let_def)

theorem deflate_bound_holds_witness:
  "\<exists>rv d b h. nghttp2_hd_deflate_hd_bufs wit_deflater (wit_bufs 64) [wit_secret] wit_heap1 = Inr (rv, d, b, h) \<and>
    (if rv = 0 then length (bufs_content b) \<le> 26 else rv < 0)"
proof -
  have "list_all2 nv_holds [wit_secret] [wit_pair]" "list_all pair_short [wit_pair]"
    using wit_secret_holds by (simp_all add: pair_short_def bytes_of_def)
  note bound = deflate_bound_holds [OF wit_deflater_holds wit_bufs_ok(1,2) this, of 64]
  have n: "nghttp2_hd_deflate_bound [wit_secret] = 26" by (simp add: nghttp2_hd_deflate_bound_def wit_secret_def)
  show ?thesis using bound unfolding wit_bufs_ok(3) n list.size add_0 by blast
qed

text \<open>
  The life of a deflater: blocks of pairs into chains of the caller, and changes of the limit, also
  after an error.
\<close>

datatype deflate_op = Pack "nghttp2_nv list" nghttp2_bufs | Change nat

fun deflate_run :: "nghttp2_hd_deflater \<Rightarrow> deflate_op list \<Rightarrow> rc_heap \<Rightarrow> (nghttp2_hd_deflater \<times> rc_heap) res" where
  "deflate_run d [] h = Inr (d, h)"
| "deflate_run d (Pack nva bufs # ops) h =
     res_bind (nghttp2_hd_deflate_hd_bufs d bufs nva h) (\<lambda>(_, d1, _, h1). deflate_run d1 ops h1)"
| "deflate_run d (Change n # ops) h =
     res_bind (nghttp2_hd_deflate_change_table_size d n h) (\<lambda>(_, d1, h1). deflate_run d1 ops h1)"

text \<open>Pairs whose strings are there, shorter than 2 ^ 58 bytes, and a chain with room in every chunk.\<close>

fun deflate_op_ok :: "deflate_op \<Rightarrow> bool" where
  "deflate_op_ok (Pack nva bufs) \<longleftrightarrow> bufs_wf bufs \<and> bufs_roomy bufs \<and> (\<exists>ps. list_all2 nv_holds nva ps \<and> list_all pair_small ps)"
| "deflate_op_ok (Change n) \<longleftrightarrow> True"

text \<open>The limit that a deflater was made with stays.\<close>

lemma index_table_max: "deflate_index d name val idx token hash h = Inr (rv, d', h') \<Longrightarrow> df_table_max d' = df_table_max d"
  by (auto simp: deflate_index_def split: prod.splits option.splits elim!: res_bind_InrE)

lemma nv_table_max: "deflate_nv d b nv h = Inr (rv, d', b', h') \<Longrightarrow> df_table_max d' = df_table_max d"
  by (auto simp: deflate_nv_def Let_def split: prod.splits if_splits elim!: res_bind_InrE dest!: index_table_max)

lemma nvs_table_max: "deflate_nvs d b nva h = Inr (rv, d', b', h') \<Longrightarrow> df_table_max d' = df_table_max d"
  by (induction nva arbitrary: d b h) (auto split: prod.splits if_splits elim!: res_bind_InrE dest!: nv_table_max)

lemma sizes_table_max: "deflate_sizes d b m = Inr (rv, d', b', m') \<Longrightarrow> df_table_max d' = df_table_max d"
  by (auto simp: deflate_sizes_def Let_def split: prod.splits if_splits elim!: res_bind_InrE)

lemma bufs_table_max:
  assumes "nghttp2_hd_deflate_hd_bufs d b nva h = Inr (rv, d', b', h')"
  shows "df_table_max d' = df_table_max d"
proof (cases "hc_bad (df_ctx d)")
  case True
  then show ?thesis using assms by (simp add: nghttp2_hd_deflate_hd_bufs_def)
next
  case False
  then obtain rv1 d1 b1 m rv2 d2 b2 h2 where r: "deflate_sizes d b (hp_mem h) = Inr (rv1, d1, b1, m)"
    "(if rv1 \<noteq> 0 then Inr (rv1, d1, b1, h\<lparr>hp_mem := m\<rparr>) else deflate_nvs d1 b1 nva (h\<lparr>hp_mem := m\<rparr>)) = Inr (rv2, d2, b2, h2)"
    "df_table_max d' = df_table_max d2"
    using assms unfolding nghttp2_hd_deflate_hd_bufs_def if_not_P [OF False]
    by (auto split: prod.splits if_split_asm)
  have "df_table_max d2 = df_table_max d1" using r(2) nvs_table_max by (cases "rv1 = 0") auto
  then show ?thesis using sizes_table_max [OF r(1)] r(3) by simp
qed

lemma deflate_run_ok:
  assumes "deflater_holds d h X T" "list_all deflate_op_ok ops"
  obtains d' h' T' where "deflate_run d ops h = Inr (d', h')" "deflater_holds d' h' X T'" "rc_same h h' X" "df_table_max d' = df_table_max d"
  using assms
proof (induction d ops h arbitrary: T thesis rule: deflate_run.induct)
  case (1 d h)
  then show ?case by simp
next
  case (2 d nva bufs ops h)
  obtain rv d1 b1 h1 T1 where r: "nghttp2_hd_deflate_hd_bufs d bufs nva h = Inr (rv, d1, b1, h1)" "deflater_holds d1 h1 X T1" "rc_same h h1 X"
    "df_table_max d1 = df_table_max d"
  proof (cases "hc_bad (df_ctx d)")
    case True
    then have "nghttp2_hd_deflate_hd_bufs d bufs nva h = Inr (NGHTTP2_ERR_HEADER_COMP, d, bufs, h)"
      by (simp add: nghttp2_hd_deflate_hd_bufs_def)
    then show ?thesis by (rule that [OF _ "2.prems"(2)]) simp_all
  next
    case False
    obtain ps where "bufs_wf bufs" "bufs_roomy bufs" "list_all2 nv_holds nva ps" "list_all pair_small ps" using "2.prems"(3) by auto
    note ok = this
    have "hc_bad (df_ctx d) = False" using False by simp
    from deflate_bufs_ok [OF "2.prems"(2) this ok] obtain rv d1 b1 h1 T1 where
      r: "nghttp2_hd_deflate_hd_bufs d bufs nva h = Inr (rv, d1, b1, h1)" "deflater_holds d1 h1 X T1" "rc_same h h1 X" by metis
    then show ?thesis by (rule that) (rule bufs_table_max [OF r(1)])
  qed
  obtain d2 h2 T2 where s: "deflate_run d1 ops h1 = Inr (d2, h2)" "deflater_holds d2 h2 X T2" "rc_same h1 h2 X" "df_table_max d2 = df_table_max d1"
    by (rule "2.IH" [OF r(1) refl refl refl _ r(2)]) (use "2.prems"(3) in simp_all)
  have "rc_same h h2 X" by (rule rc_same_trans [OF r(3) s(3)]) simp
  then show ?case by (intro "2.prems"(1) [OF _ s(2)]) (use r(1,4) s(1,4) in simp_all)
next
  case (3 d n ops h)
  obtain d1 h1 where r: "nghttp2_hd_deflate_change_table_size d n h = Inr (0, d1, h1)" "deflater_holds d1 h1 X (dt_fit (min n (df_table_max d)) T)"
    "rc_same h h1 X" "df_table_max d1 = df_table_max d"
    by (rule change_size_ok [OF "3.prems"(2), of n])
  obtain d2 h2 T2 where s: "deflate_run d1 ops h1 = Inr (d2, h2)" "deflater_holds d2 h2 X T2" "rc_same h1 h2 X" "df_table_max d2 = df_table_max d1"
    by (rule "3.IH" [OF r(1) refl refl _ r(2)]) (use "3.prems"(3) in simp_all)
  have "rc_same h h2 X" by (rule rc_same_trans [OF r(3) s(3)]) simp
  then show ?case by (intro "3.prems"(1) [OF _ s(2)]) (use r(1,4) s(1,4) in simp_all)
qed

text \<open>
  C36. A deflater from nghttp2_hd_deflate_new for a limit n of at most 2^32-1, with any sequence of blocks
  and of changes of the limit, also after errors (the chains well-formed with room in every chunk, the
  strings shorter than 2^58 bytes): every call returns without an undefined operation, the table stays
  within its limit and that within n, and nghttp2_hd_deflate_del gives back exactly what the deflater owned,
  every string, every entry, the ring and its own block, each once.
\<close>

theorem deflater_life:
  assumes "nghttp2_hd_deflate_new n h = Inr (0, Some (a, d), h1)" "rc_ok h X" "n \<le> MAX_UINT32" "list_all deflate_op_ok ops"
  shows "\<exists>d' h2 h3. deflate_run d ops h1 = Inr (d', h2) \<and>
    nghttp2_hd_deflate_get_dynamic_table_size d' \<le> nghttp2_hd_deflate_get_max_dynamic_table_size d' \<and>
    nghttp2_hd_deflate_get_max_dynamic_table_size d' \<le> n \<and>
    nghttp2_hd_deflate_del a d' h2 = Inr h3 \<and> rc_ok h3 X \<and> rc_same h h3 X"
proof -
  have new: "deflater_holds d h1 (add_mset (Block a) X) []" "rc_str h1 = rc_str h" "df_table_max d = n"
    by (rule deflate_new_ok [OF assms(2,3)]; use assms(1) in simp)+
  obtain d' h2 T' where r: "deflate_run d ops h1 = Inr (d', h2)" "deflater_holds d' h2 (add_mset (Block a) X) T'"
    "rc_same h1 h2 (add_mset (Block a) X)" "df_table_max d' = df_table_max d"
    by (rule deflate_run_ok [OF new(1) assms(4)])
  obtain h3 where f: "nghttp2_hd_deflate_del a d' h2 = Inr h3" "rc_ok h3 X" "rc_same h2 h3 X"
    by (rule deflate_del_ok [OF r(2)])
  have "hc_bufsize (df_ctx d') = dt_size T'" using r(2) by (auto simp: deflater_holds_def dest: table_size)
  then have size: "nghttp2_hd_deflate_get_dynamic_table_size d' \<le> nghttp2_hd_deflate_get_max_dynamic_table_size d'"
      "nghttp2_hd_deflate_get_max_dynamic_table_size d' \<le> n"
    using r(2,4) new(3) by (simp_all add: deflater_holds_def nghttp2_hd_deflate_get_dynamic_table_size_def
      nghttp2_hd_deflate_get_max_dynamic_table_size_def)
  have "rc_same h h3 X" using r(3) f(3) new(2) by (simp add: rc_same_def)
  then show ?thesis using r(1) size f(1,2) by blast
qed

text \<open>A literal with a new name starts with one byte, behind a first look for room.\<close>

lemma newname_overrun:
  "emit_newname_block \<lparr>bufs_head = map nghttp2_buf_wrap_init (Some [] # Some [] # vec), bufs_cur = 0, bufs_chunk_length = l,
      bufs_max_chunk = c, bufs_chunk_used = u, bufs_chunk_keep = k, bufs_offset = off\<rparr> name val mode m = Inl Out_Of_Bounds"
  by (simp add: emit_newname_block_def nghttp2_bufs_addb_def bufs_put1_def bufs_ensure_addb_def bufs_cur_buf_def bufs_alloc_chain_def
      nghttp2_buf_wrap_init_def nghttp2_buf_avail_def buf_store_def rd_def)

text \<open>
  C14. For nghttp2_hd_deflate_hd_vec on pieces of memory of which the first two are empty (any pieces may
  follow), a usable deflater with no table size to send, and a first pair that is not to be put into the
  table and whose name neither table has: the first byte of the literal is written outside the memory of the
  caller, unless the chain cannot be allocated, which is reported as NGHTTP2_ERR_NOMEM.
\<close>

theorem deflate_vec_overrun:
  assumes "deflater_holds d h X T" "hc_bad (df_ctx d) = False" "df_notify d = False" "nv_holds nv p"
    "fst p \<notin> fst ` set (static_pairs @ T)" "nv_mode d nv p \<noteq> NGHTTP2_HD_WITH_INDEXING"
  shows "if fst (nghttp2_mem_malloc (SIZEOF_BUF_CHAIN * (2 + length vec)) (hp_mem h)) = None
    then \<exists>h'. nghttp2_hd_deflate_hd_vec d bufs0 (Some [] # Some [] # vec) (nv # nva) h = Inr (NGHTTP2_ERR_NOMEM, d, bufs0, h')
    else nghttp2_hd_deflate_hd_vec d bufs0 (Some [] # Some [] # vec) (nv # nva) h = Inl Out_Of_Bounds"
proof (cases "nghttp2_mem_malloc (SIZEOF_BUF_CHAIN * (2 + length vec)) (hp_mem h)")
  case (Pair q m)
  show ?thesis
  proof (cases q)
    case None
    then show ?thesis using Pair by (simp add: nghttp2_hd_deflate_hd_vec_def deflate_wrapped_def nghttp2_bufs_wrap_init2_def NGHTTP2_ERR_NOMEM_def)
  next
    case (Some blk)
    let ?b = "\<lparr>bufs_head = map nghttp2_buf_wrap_init (Some [] # Some [] # vec), bufs_cur = 0, bufs_chunk_length = 0,
      bufs_max_chunk = 2 + length vec, bufs_chunk_used = 2 + length vec, bufs_chunk_keep = 2 + length vec, bufs_offset = 0\<rparr>"
    let ?h = "h\<lparr>hp_mem := m\<rparr>"
    let ?n = "fst p" and ?v = "snd p" and ?mode = "nv_mode d nv p"
    have wrap: "nghttp2_bufs_wrap_init2 bufs0 (Some [] # Some [] # vec) (hp_mem h) = (0, ?b, m)"
      using Pair Some by (simp add: nghttp2_bufs_wrap_init2_def)
    have hold: "deflater_holds d ?h X T" by (rule deflater_mem [OF assms(1)])
    then have tab: "hd_table (df_ctx d) (Some (df_map d)) ?h X T" by (simp add: deflater_holds_def)
    obtain idx exact where s:
      "search_hd_table (df_ctx d) ?n ?v (lookup_token ?n) ?mode (df_map d) (nv_hash ?n (lookup_token ?n)) ?h = Inr (idx, exact)"
      "exact = (?mode \<noteq> NGHTTP2_HD_NEVER_INDEXING \<and> (?n, ?v) \<in> set (static_pairs @ T))"
      "if idx = -1 then ?n \<notin> fst ` set (static_pairs @ T)
       else 0 \<le> idx \<and> idx < int (61 + length T) \<and>
         (if exact then dt_get T (nat idx) = (?n, ?v) else fst (dt_get T (nat idx)) = ?n)"
      using search_hd_table_ex [OF tab deflater_length [OF hold], of ?n ?v ?mode] by blast
    have ex: "\<not> exact" using s(2) assms(5) by (metis fst_conv image_eqI)
    have idx: "idx = -1"
    proof (rule ccontr)
      assume "idx \<noteq> -1"
      then have "nat idx < length (static_pairs @ T)" "fst ((static_pairs @ T) ! nat idx) = ?n"
        using s(3) ex by (auto simp: dt_get_def)
      then show False using assms(5) by (metis image_eqI nth_mem)
    qed
    note start = deflate_nv_def [of d ?b nv ?h, unfolded nv_holds_def [THEN iffD1, OF assms(4), THEN conjunct1]
        nv_holds_def [THEN iffD1, OF assms(4), THEN conjunct2] res_bind_Inr Let_def nv_mode_def [symmetric] s(1) prod.case]
    have "deflate_nv d ?b nv ?h = Inl Out_Of_Bounds"
      unfolding start if_not_P [OF ex] if_not_P [OF assms(6)] res_bind_Inr prod.case using idx newname_overrun by simp
    then have "nghttp2_hd_deflate_hd_vec d bufs0 (Some [] # Some [] # vec) (nv # nva) h = Inl Out_Of_Bounds"
      unfolding nghttp2_hd_deflate_hd_vec_def deflate_wrapped_def wrap prod.case nghttp2_hd_deflate_hd_bufs_def deflate_sizes_def
      using assms(2,3) by simp
    then show ?thesis using Pair Some by simp
  qed
qed

lemma wit_op_ok: "deflate_op_ok (Pack [wit_secret] (wit_bufs 64))"
proof -
  have "list_all2 nv_holds [wit_secret] [wit_pair]" "list_all pair_small [wit_pair]"
    using wit_secret_holds by (simp_all add: pair_small_def bytes_of_def)
  then show ?thesis using wit_bufs_ok(1,2) [of 64] unfolding deflate_op_ok.simps by blast
qed

theorem deflater_life_witness:
  "\<exists>d' h2 h3. deflate_run wit_packer [Pack [wit_secret] (wit_bufs 64), Change 0, Pack [wit_secret] (wit_bufs 64), Change 100] wit_packer_heap =
      Inr (d', h2) \<and> nghttp2_hd_deflate_get_max_dynamic_table_size d' \<le> 100 \<and>
    nghttp2_hd_deflate_del wit_packer_addr d' h2 = Inr h3 \<and> rc_ok h3 {#}"
proof -
  have "list_all deflate_op_ok [Pack [wit_secret] (wit_bufs 64), Change 0, Pack [wit_secret] (wit_bufs 64), Change 100]"
    using wit_op_ok by (simp del: deflate_op_ok.simps(1))
  moreover have "100 \<le> MAX_UINT32" by (simp add: MAX_UINT32_def)
  ultimately obtain d' h2 h3 where
    "deflate_run wit_packer [Pack [wit_secret] (wit_bufs 64), Change 0, Pack [wit_secret] (wit_bufs 64), Change 100] wit_packer_heap = Inr (d', h2)"
    "nghttp2_hd_deflate_get_max_dynamic_table_size d' \<le> 100" "nghttp2_hd_deflate_del wit_packer_addr d' h2 = Inr h3" "rc_ok h3 {#}"
    using deflater_life [OF wit_packer_new wit_ok] by metis
  then show ?thesis by blast
qed

theorem deflate_vec_overrun_witness:
  "nghttp2_hd_deflate_hd_vec wit_deflater (wit_bufs 64) [Some [], Some [], Some (replicate 4096 0)] [wit_secret] wit_heap1 = Inl Out_Of_Bounds"
proof -
  have "fst wit_pair \<notin> fst ` set (static_pairs @ [])" using wit_name_new by simp
  moreover have "nv_mode wit_deflater wit_secret wit_pair \<noteq> NGHTTP2_HD_WITH_INDEXING" by (simp add: wit_secret_mode)
  moreover have "df_notify wit_deflater = False" by (simp add: wit_deflater_def)
  moreover have "fst (nghttp2_mem_malloc k (hp_mem wit_heap1)) \<noteq> None" for k
    by (simp add: wit_heap1_def hd_context_init_def hd_ringbuf_init_def hp_alloc_def wit_heap_def nghttp2_mem_malloc_def Let_def)
  ultimately show ?thesis
    using deflate_vec_overrun [OF wit_deflater_holds _ wit_secret_holds, of "[Some (replicate 4096 0)]" "wit_bufs 64" "[]"] by simp
qed

end
