(* ===== verification/Nghttp2_Hd_Inflate.thy ===== *)
theory Nghttp2_Hd_Inflate
  imports Nghttp2_Hd_Deflate
begin

text \<open>
  The inflater of HPACK (nghttp2_hd.c): a state machine that takes a header block in pieces and
  emits one pair per call.
\<close>

unbundle bit_operations_syntax

section \<open>State\<close>

datatype nghttp2_hd_opcode =
  NGHTTP2_HD_OPCODE_NONE | NGHTTP2_HD_OPCODE_INDEXED | NGHTTP2_HD_OPCODE_NEWNAME | NGHTTP2_HD_OPCODE_INDNAME

datatype nghttp2_hd_inflate_state =
    NGHTTP2_HD_STATE_EXPECT_TABLE_SIZE
  | NGHTTP2_HD_STATE_INFLATE_START
  | NGHTTP2_HD_STATE_OPCODE
  | NGHTTP2_HD_STATE_READ_TABLE_SIZE
  | NGHTTP2_HD_STATE_READ_INDEX
  | NGHTTP2_HD_STATE_NEWNAME_CHECK_NAMELEN
  | NGHTTP2_HD_STATE_NEWNAME_READ_NAMELEN
  | NGHTTP2_HD_STATE_NEWNAME_READ_NAMEHUFF
  | NGHTTP2_HD_STATE_NEWNAME_READ_NAME
  | NGHTTP2_HD_STATE_CHECK_VALUELEN
  | NGHTTP2_HD_STATE_READ_VALUELEN
  | NGHTTP2_HD_STATE_READ_VALUEHUFF
  | NGHTTP2_HD_STATE_READ_VALUE

text \<open>
  The buffers for name and value are wrapped around the blocks of the two strings and start at
  their first byte, so of each only \<open>last\<close> is state.
\<close>

record nghttp2_hd_inflater =
  if_ctx :: nghttp2_hd_context
  if_huff :: nghttp2_hd_huff_decode_context
  if_name_last :: nat
  if_value_last :: nat
  if_namercbuf :: "rcptr option"
  if_valuercbuf :: "rcptr option"
  if_name_keep :: "rcptr option"
  if_value_keep :: "rcptr option"
  if_left :: nat
  if_index :: nat
  if_settings_max :: nat
  if_min :: nat
  if_shift :: nat
  if_opcode :: nghttp2_hd_opcode
  if_state :: nghttp2_hd_inflate_state
  if_huffman :: bool
  if_index_required :: bool
  if_no_index :: bool

definition NGHTTP2_HD_MAX_NV :: nat where
  "NGHTTP2_HD_MAX_NV = 65536"

definition SIZEOF_HD_INFLATER :: nat where
  "SIZEOF_HD_INFLATER = 240"

definition NGHTTP2_HD_INFLATE_NONE :: int where
  "NGHTTP2_HD_INFLATE_NONE = 0"

definition NGHTTP2_HD_INFLATE_FINAL :: int where
  "NGHTTP2_HD_INFLATE_FINAL = 1"

definition NGHTTP2_HD_INFLATE_EMIT :: int where
  "NGHTTP2_HD_INFLATE_EMIT = 2"

definition nghttp2_hd_inflate_init :: "rc_heap \<Rightarrow> int \<times> nghttp2_hd_inflater option \<times> rc_heap" where
  "nghttp2_hd_inflate_init h =
     (case hd_context_init h of
        (rv, None, h1) \<Rightarrow> (rv, None, h1)
      | (rv, Some ctx, h1) \<Rightarrow>
          (0, Some \<lparr>if_ctx = ctx, if_huff = 0, if_name_last = 0, if_value_last = 0, if_namercbuf = None, if_valuercbuf = None,
            if_name_keep = None, if_value_keep = None, if_left = 0, if_index = 0,
            if_settings_max = NGHTTP2_HD_DEFAULT_MAX_BUFFER_SIZE, if_min = MAX_UINT32, if_shift = 0,
            if_opcode = NGHTTP2_HD_OPCODE_NONE, if_state = NGHTTP2_HD_STATE_INFLATE_START, if_huffman = False,
            if_index_required = False, if_no_index = False\<rparr>, h1))"

definition hd_inflate_keep_free :: "nghttp2_hd_inflater \<Rightarrow> rc_heap \<Rightarrow> (nghttp2_hd_inflater \<times> rc_heap) res" where
  "hd_inflate_keep_free ifl h =
     res_bind (nghttp2_rcbuf_decref (if_value_keep ifl) h) (\<lambda>h1.
     res_bind (nghttp2_rcbuf_decref (if_name_keep ifl) h1) (\<lambda>h2.
     Inr (ifl\<lparr>if_value_keep := None, if_name_keep := None\<rparr>, h2)))"

definition nghttp2_hd_inflate_free :: "nghttp2_hd_inflater \<Rightarrow> rc_heap \<Rightarrow> rc_heap res" where
  "nghttp2_hd_inflate_free ifl h =
     res_bind (hd_inflate_keep_free ifl h) (\<lambda>(ifl1, h1).
     res_bind (nghttp2_rcbuf_decref (if_valuercbuf ifl1) h1) (\<lambda>h2.
     res_bind (nghttp2_rcbuf_decref (if_namercbuf ifl1) h2) (\<lambda>h3.
     hd_context_free (if_ctx ifl1) h3)))"

definition nghttp2_hd_inflate_change_table_size :: "nghttp2_hd_inflater \<Rightarrow> nat \<Rightarrow> rc_heap \<Rightarrow> (int \<times> nghttp2_hd_inflater \<times> rc_heap) res" where
  "nghttp2_hd_inflate_change_table_size ifl settings_max h =
     (if if_state ifl \<noteq> NGHTTP2_HD_STATE_EXPECT_TABLE_SIZE \<and> if_state ifl \<noteq> NGHTTP2_HD_STATE_INFLATE_START
      then Inr (NGHTTP2_ERR_INVALID_STATE, ifl, h)
      else
        (let ifl1 = ifl\<lparr>if_settings_max := settings_max\<rparr>
         in if settings_max < hc_bufsize_max (if_ctx ifl1) then
              (let ifl2 = ifl1\<lparr>if_state := NGHTTP2_HD_STATE_EXPECT_TABLE_SIZE, if_min := settings_max,
                     if_ctx := (if_ctx ifl1)\<lparr>hc_bufsize_max := settings_max\<rparr>\<rparr>
               in res_bind (hd_context_shrink_table_size (if_ctx ifl2) None h) (\<lambda>(ctx, _, h1).
                  Inr (0, ifl2\<lparr>if_ctx := ctx\<rparr>, h1)))
            else Inr (0, ifl1, h)))"

section \<open>Reading integers and strings\<close>

definition hd_inflate_set_huffman_encoded :: "nghttp2_hd_inflater \<Rightarrow> bytes \<Rightarrow> nghttp2_hd_inflater res" where
  "hd_inflate_set_huffman_encoded ifl inp =
     res_bind (byte_at inp 0) (\<lambda>b. Inr (ifl\<lparr>if_huffman := (b AND push_bit 7 1 \<noteq> 0)\<rparr>))"

text \<open>The result: the number of bytes read or an error, and whether the number is complete.\<close>

definition hd_inflate_read_len :: "nghttp2_hd_inflater \<Rightarrow> bytes \<Rightarrow> nat \<Rightarrow> nat \<Rightarrow> (int \<times> bool \<times> nghttp2_hd_inflater) res" where
  "hd_inflate_read_len ifl inp pfx maxlen =
     res_bind (decode_length (word_of_nat (if_left ifl)) (if_shift ifl) inp pfx) (\<lambda>(rv, out, shift, fin).
     (let ifl1 = ifl\<lparr>if_shift := shift\<rparr>
      in case out of
           None \<Rightarrow> Inr (NGHTTP2_ERR_HEADER_COMP, fin, ifl1)
         | Some n \<Rightarrow>
             if maxlen < unat n then Inr (NGHTTP2_ERR_HEADER_COMP, fin, ifl1)
             else Inr (rv, fin, ifl1\<lparr>if_left := unat n\<rparr>)))"

text \<open>The buffer around a string, for an operation on it: its block is the memory of the string.\<close>

definition with_string ::
  "rcptr option \<Rightarrow> nat \<Rightarrow> (nghttp2_buf \<Rightarrow> ('a \<times> nghttp2_buf) res) \<Rightarrow> rc_heap \<Rightarrow> ('a \<times> nat \<times> rc_heap) res" where
  "with_string q lst f h =
     (case q of
        None \<Rightarrow> Inl Null_Deref
      | Some p \<Rightarrow>
          res_bind (rc_get h p) (\<lambda>r.
          res_bind (f \<lparr>buf_block = Some (rc_base r), buf_pos = 0, buf_last = lst, buf_mark = 0\<rparr>) (\<lambda>(x, buf).
          Inr (x, buf_last buf, rc_put h p (r\<lparr>rc_base := buf_store buf\<rparr>)))))"

text \<open>
  \<open>left\<close> bytes of a coded string, or as many as there are. The result is the number of bytes or an
  error; the decoder context and \<open>left\<close> are in the inflater.
\<close>

definition hd_inflate_read_huff :: "nghttp2_hd_inflater \<Rightarrow> bytes \<Rightarrow> nghttp2_buf \<Rightarrow> ((int \<times> nghttp2_hd_inflater) \<times> nghttp2_buf) res" where
  "hd_inflate_read_huff ifl inp buf =
     (let fin = (if_left ifl \<le> length inp);
          src = (if fin then take (if_left ifl) inp else inp)
      in res_bind (nghttp2_hd_huff_decode (if_huff ifl) buf src fin) (\<lambda>(readlen, ctx, buf1).
         (let ifl1 = ifl\<lparr>if_huff := ctx\<rparr>
          in if readlen < 0 then Inr ((readlen, ifl1), buf1)
             else if nghttp2_hd_huff_decode_failure_state ctx then Inr ((NGHTTP2_ERR_HEADER_COMP, ifl1), buf1)
             else Inr ((readlen, ifl1\<lparr>if_left := size_sub (if_left ifl1) (nat readlen)\<rparr>), buf1))))"

definition hd_inflate_read :: "nghttp2_hd_inflater \<Rightarrow> bytes \<Rightarrow> nghttp2_buf \<Rightarrow> ((int \<times> nghttp2_hd_inflater) \<times> nghttp2_buf) res" where
  "hd_inflate_read ifl inp buf =
     (let len = min (length inp) (if_left ifl)
      in res_bind (buf_cpy buf (take len inp)) (\<lambda>buf1.
         Inr ((ssize_t_of len, ifl\<lparr>if_left := size_sub (if_left ifl) len\<rparr>), buf1)))"

text \<open>The end of a string: a zero byte behind it, and its length.\<close>

definition close_string :: "rcptr option \<Rightarrow> nat \<Rightarrow> rc_heap \<Rightarrow> rc_heap res" where
  "close_string q lst h =
     (case q of
        None \<Rightarrow> Inl Null_Deref
      | Some p \<Rightarrow>
          res_bind (rc_get h p) (\<lambda>r.
          res_bind (wr (rc_base r) lst [0]) (\<lambda>s. Inr (rc_put h p (r\<lparr>rc_base := s, rc_len := lst\<rparr>)))))"

section \<open>Committing a pair\<close>

definition nv_flags_of :: "nghttp2_hd_inflater \<Rightarrow> byte" where
  "nv_flags_of ifl = (if if_no_index ifl then NGHTTP2_NV_FLAG_NO_INDEX else 0)"

definition hd_inflate_commit_indexed :: "nghttp2_hd_inflater \<Rightarrow> nghttp2_hd_nv res" where
  "hd_inflate_commit_indexed ifl = nghttp2_hd_table_get (if_ctx ifl) (if_index ifl)"

definition hd_inflate_commit_newname :: "nghttp2_hd_inflater \<Rightarrow> rc_heap \<Rightarrow> (int \<times> nghttp2_hd_nv option \<times> nghttp2_hd_inflater \<times> rc_heap) res" where
  "hd_inflate_commit_newname ifl h =
     (case (if_namercbuf ifl, if_valuercbuf ifl) of
        (Some n, Some v) \<Rightarrow>
          res_bind (nghttp2_rcbuf_get_buf n h) (\<lambda>name.
          (let nv = \<lparr>hn_name = n, hn_value = v, hn_token = lookup_token name, hn_flags = nv_flags_of ifl\<rparr>
           in res_bind (if if_index_required ifl then
                  res_bind (add_hd_table_incremental (if_ctx ifl) nv None 0 h) (\<lambda>(rv, ctx, _, h1).
                  Inr (rv, ifl\<lparr>if_ctx := ctx\<rparr>, h1))
                else Inr (0, ifl, h)) (\<lambda>(rv, ifl1, h1).
              if rv \<noteq> 0 then Inr (rv, None, ifl1, h1)
              else Inr (0, Some nv, ifl1\<lparr>if_name_keep := Some n, if_value_keep := Some v, if_namercbuf := None, if_valuercbuf := None\<rparr>, h1))))
      | _ \<Rightarrow> Inl Null_Deref)"

definition hd_inflate_commit_indname :: "nghttp2_hd_inflater \<Rightarrow> rc_heap \<Rightarrow> (int \<times> nghttp2_hd_nv option \<times> nghttp2_hd_inflater \<times> rc_heap) res" where
  "hd_inflate_commit_indname ifl h =
     res_bind (nghttp2_hd_table_get (if_ctx ifl) (if_index ifl)) (\<lambda>e.
     res_bind (nghttp2_rcbuf_incref (hn_name e) h) (\<lambda>h1.
     case if_valuercbuf ifl of
       None \<Rightarrow> Inl Null_Deref
     | Some v \<Rightarrow>
         (let nv = e\<lparr>hn_flags := nv_flags_of ifl, hn_value := v\<rparr>
          in res_bind (if if_index_required ifl then
                 res_bind (add_hd_table_incremental (if_ctx ifl) nv None 0 h1) (\<lambda>(rv, ctx, _, h2).
                 Inr (rv, ifl\<lparr>if_ctx := ctx\<rparr>, h2))
               else Inr (0, ifl, h1)) (\<lambda>(rv, ifl1, h2).
             if rv \<noteq> 0 then
               res_bind (nghttp2_rcbuf_decref (Some (hn_name nv)) h2) (\<lambda>h3. Inr (NGHTTP2_ERR_NOMEM, None, ifl1, h3))
             else Inr (0, Some nv, ifl1\<lparr>if_name_keep := Some (hn_name nv), if_value_keep := Some v, if_valuercbuf := None\<rparr>, h2)))))"

section \<open>The cases of the state machine\<close>

text \<open>
  How a case ends: the loop goes on, with \<open>busy\<close> or without; the input is used up in the middle
  of something; an error; a pair is emitted.
\<close>

datatype inflate_step =
    Go bool
  | Almost_Ok
  | Failed int
  | Emitted nghttp2_hd_nv

type_synonym inflate_result = "inflate_step \<times> nghttp2_hd_inflater \<times> bytes \<times> rc_heap"

definition inflate_opcode :: "nghttp2_hd_inflater \<Rightarrow> bytes \<Rightarrow> rc_heap \<Rightarrow> inflate_result res" where
  "inflate_opcode ifl inp h =
     res_bind (byte_at inp 0) (\<lambda>b.
     if if_state ifl = NGHTTP2_HD_STATE_EXPECT_TABLE_SIZE \<and> b AND 0xe0 \<noteq> 0x20 then Inr (Failed NGHTTP2_ERR_HEADER_COMP, ifl, inp, h)
     else if b AND 0xe0 = 0x20 then
       (if if_state ifl = NGHTTP2_HD_STATE_OPCODE then Inr (Failed NGHTTP2_ERR_HEADER_COMP, ifl, inp, h)
        else Inr (Go False, ifl\<lparr>if_opcode := NGHTTP2_HD_OPCODE_INDEXED, if_state := NGHTTP2_HD_STATE_READ_TABLE_SIZE,
               if_left := 0, if_shift := 0\<rparr>, inp, h))
     else if b AND 0x80 \<noteq> 0 then
       Inr (Go False, ifl\<lparr>if_opcode := NGHTTP2_HD_OPCODE_INDEXED, if_state := NGHTTP2_HD_STATE_READ_INDEX,
              if_left := 0, if_shift := 0\<rparr>, inp, h)
     else
       (let newname = (b = 0x40 \<or> b = 0 \<or> b = 0x10)
        in Inr (Go False, ifl\<lparr>
               if_opcode := (if newname then NGHTTP2_HD_OPCODE_NEWNAME else NGHTTP2_HD_OPCODE_INDNAME),
               if_state := (if newname then NGHTTP2_HD_STATE_NEWNAME_CHECK_NAMELEN else NGHTTP2_HD_STATE_READ_INDEX),
               if_index_required := (b AND 0x40 \<noteq> 0), if_no_index := (b AND 0xf0 = 0x10), if_left := 0, if_shift := 0\<rparr>,
             if newname then drop 1 inp else inp, h)))"

definition inflate_table_size :: "nghttp2_hd_inflater \<Rightarrow> bytes \<Rightarrow> rc_heap \<Rightarrow> inflate_result res" where
  "inflate_table_size ifl inp h =
     res_bind (hd_inflate_read_len ifl inp 5 (min (if_min ifl) (if_settings_max ifl))) (\<lambda>(rv, rfin, ifl1).
     if rv < 0 then Inr (Failed rv, ifl1, inp, h)
     else if \<not> rfin then Inr (Almost_Ok, ifl1, drop (nat rv) inp, h)
     else
       (let ifl2 = ifl1\<lparr>if_min := MAX_UINT32, if_ctx := (if_ctx ifl1)\<lparr>hc_bufsize_max := if_left ifl1\<rparr>\<rparr>
        in res_bind (hd_context_shrink_table_size (if_ctx ifl2) None h) (\<lambda>(ctx, _, h1).
           Inr (Go False, ifl2\<lparr>if_ctx := ctx, if_state := NGHTTP2_HD_STATE_INFLATE_START\<rparr>, drop (nat rv) inp, h1))))"

definition inflate_index :: "nghttp2_hd_inflater \<Rightarrow> bytes \<Rightarrow> rc_heap \<Rightarrow> inflate_result res" where
  "inflate_index ifl inp h =
     (let prefixlen = (if if_opcode ifl = NGHTTP2_HD_OPCODE_INDEXED then 7 else if if_index_required ifl then 6 else 4)
      in res_bind (hd_inflate_read_len ifl inp prefixlen (get_max_index (if_ctx ifl))) (\<lambda>(rv, rfin, ifl1).
         if rv < 0 then Inr (Failed rv, ifl1, inp, h)
         else if \<not> rfin then Inr (Almost_Ok, ifl1, drop (nat rv) inp, h)
         else if if_left ifl1 = 0 then Inr (Failed NGHTTP2_ERR_HEADER_COMP, ifl1, drop (nat rv) inp, h)
         else
           (let ifl2 = ifl1\<lparr>if_index := if_left ifl1 - 1\<rparr>
            in if if_opcode ifl2 = NGHTTP2_HD_OPCODE_INDEXED then
                 res_bind (hd_inflate_commit_indexed ifl2) (\<lambda>nv.
                 Inr (Emitted nv, ifl2\<lparr>if_state := NGHTTP2_HD_STATE_OPCODE\<rparr>, drop (nat rv) inp, h))
               else Inr (Go False, ifl2\<lparr>if_state := NGHTTP2_HD_STATE_CHECK_VALUELEN\<rparr>, drop (nat rv) inp, h))))"

text \<open>The length of a string; the case for a first byte falls through to the one for the others.\<close>

definition inflate_name_len :: "nghttp2_hd_inflater \<Rightarrow> bytes \<Rightarrow> rc_heap \<Rightarrow> inflate_result res" where
  "inflate_name_len ifl inp h =
     res_bind (hd_inflate_read_len ifl inp 7 NGHTTP2_HD_MAX_NV) (\<lambda>(rv, rfin, ifl1).
     if rv < 0 then Inr (Failed rv, ifl1, inp, h)
     else if \<not> rfin then Inr (Almost_Ok, ifl1, drop (nat rv) inp, h)
     else
       (let ifl2 = (if if_huffman ifl1
              then ifl1\<lparr>if_huff := nghttp2_hd_huff_decode_context_init, if_state := NGHTTP2_HD_STATE_NEWNAME_READ_NAMEHUFF\<rparr>
              else ifl1\<lparr>if_state := NGHTTP2_HD_STATE_NEWNAME_READ_NAME\<rparr>);
            sz = (if if_huffman ifl1 then if_left ifl1 * 2 + 1 else if_left ifl1 + 1)
        in case nghttp2_rcbuf_new sz h of
             (rv1, None, h1) \<Rightarrow> Inr (Failed rv1, ifl2, drop (nat rv) inp, h1)
           | (rv1, Some p, h1) \<Rightarrow>
               Inr (Go False, ifl2\<lparr>if_namercbuf := Some p, if_name_last := 0\<rparr>, drop (nat rv) inp, h1)))"

definition inflate_check_name_len :: "nghttp2_hd_inflater \<Rightarrow> bytes \<Rightarrow> rc_heap \<Rightarrow> inflate_result res" where
  "inflate_check_name_len ifl inp h =
     res_bind (hd_inflate_set_huffman_encoded ifl inp) (\<lambda>ifl1.
     inflate_name_len (ifl1\<lparr>if_state := NGHTTP2_HD_STATE_NEWNAME_READ_NAMELEN, if_left := 0, if_shift := 0\<rparr>) inp h)"

definition inflate_name ::
  "(nghttp2_hd_inflater \<Rightarrow> bytes \<Rightarrow> nghttp2_buf \<Rightarrow> ((int \<times> nghttp2_hd_inflater) \<times> nghttp2_buf) res) \<Rightarrow>
    nghttp2_hd_inflater \<Rightarrow> bytes \<Rightarrow> rc_heap \<Rightarrow> inflate_result res" where
  "inflate_name reader ifl inp h =
     res_bind (with_string (if_namercbuf ifl) (if_name_last ifl) (reader ifl inp) h) (\<lambda>((rv, ifl0), lst, h1).
     (let ifl1 = ifl0\<lparr>if_name_last := lst\<rparr>
      in if rv < 0 then Inr (Failed rv, ifl1, inp, h1)
         else if 0 < if_left ifl1 then Inr (Almost_Ok, ifl1, drop (nat rv) inp, h1)
         else
           res_bind (close_string (if_namercbuf ifl1) lst h1) (\<lambda>h2.
           Inr (Go False, ifl1\<lparr>if_state := NGHTTP2_HD_STATE_CHECK_VALUELEN\<rparr>, drop (nat rv) inp, h2))))"

definition inflate_value_len :: "nghttp2_hd_inflater \<Rightarrow> bytes \<Rightarrow> rc_heap \<Rightarrow> inflate_result res" where
  "inflate_value_len ifl inp h =
     res_bind (hd_inflate_read_len ifl inp 7 NGHTTP2_HD_MAX_NV) (\<lambda>(rv, rfin, ifl1).
     if rv < 0 then Inr (Failed rv, ifl1, inp, h)
     else if \<not> rfin then Inr (Almost_Ok, ifl1, drop (nat rv) inp, h)
     else
       (let ifl2 = (if if_huffman ifl1
              then ifl1\<lparr>if_huff := nghttp2_hd_huff_decode_context_init, if_state := NGHTTP2_HD_STATE_READ_VALUEHUFF\<rparr>
              else ifl1\<lparr>if_state := NGHTTP2_HD_STATE_READ_VALUE\<rparr>);
            sz = (if if_huffman ifl1 then if_left ifl1 * 2 + 1 else if_left ifl1 + 1)
        in case nghttp2_rcbuf_new sz h of
             (rv1, None, h1) \<Rightarrow> Inr (Failed rv1, ifl2, drop (nat rv) inp, h1)
           | (rv1, Some p, h1) \<Rightarrow>
               Inr (Go True, ifl2\<lparr>if_valuercbuf := Some p, if_value_last := 0\<rparr>, drop (nat rv) inp, h1)))"

definition inflate_check_value_len :: "nghttp2_hd_inflater \<Rightarrow> bytes \<Rightarrow> rc_heap \<Rightarrow> inflate_result res" where
  "inflate_check_value_len ifl inp h =
     res_bind (hd_inflate_set_huffman_encoded ifl inp) (\<lambda>ifl1.
     inflate_value_len (ifl1\<lparr>if_state := NGHTTP2_HD_STATE_READ_VALUELEN, if_left := 0, if_shift := 0\<rparr>) inp h)"

definition inflate_value ::
  "(nghttp2_hd_inflater \<Rightarrow> bytes \<Rightarrow> nghttp2_buf \<Rightarrow> ((int \<times> nghttp2_hd_inflater) \<times> nghttp2_buf) res) \<Rightarrow>
    nghttp2_hd_inflater \<Rightarrow> bytes \<Rightarrow> rc_heap \<Rightarrow> inflate_result res" where
  "inflate_value reader ifl inp h =
     res_bind (with_string (if_valuercbuf ifl) (if_value_last ifl) (reader ifl inp) h) (\<lambda>((rv, ifl0), lst, h1).
     (let ifl1 = ifl0\<lparr>if_value_last := lst\<rparr>
      in if rv < 0 then Inr (Failed rv, ifl1, inp, h1)
         else if 0 < if_left ifl1 then Inr (Almost_Ok, ifl1, drop (nat rv) inp, h1)
         else
           res_bind (close_string (if_valuercbuf ifl1) lst h1) (\<lambda>h2.
           res_bind (if if_opcode ifl1 = NGHTTP2_HD_OPCODE_NEWNAME then hd_inflate_commit_newname ifl1 h2
                     else hd_inflate_commit_indname ifl1 h2) (\<lambda>(rv1, nv, ifl2, h3).
           case nv of
             None \<Rightarrow> Inr (Failed rv1, ifl2, drop (nat rv) inp, h3)
           | Some e \<Rightarrow> Inr (Emitted e, ifl2\<lparr>if_state := NGHTTP2_HD_STATE_OPCODE\<rparr>, drop (nat rv) inp, h3)))))"

definition inflate_case :: "nghttp2_hd_inflater \<Rightarrow> bytes \<Rightarrow> rc_heap \<Rightarrow> inflate_result res" where
  "inflate_case ifl inp h =
     (case if_state ifl of
        NGHTTP2_HD_STATE_EXPECT_TABLE_SIZE \<Rightarrow> inflate_opcode ifl inp h
      | NGHTTP2_HD_STATE_INFLATE_START \<Rightarrow> inflate_opcode ifl inp h
      | NGHTTP2_HD_STATE_OPCODE \<Rightarrow> inflate_opcode ifl inp h
      | NGHTTP2_HD_STATE_READ_TABLE_SIZE \<Rightarrow> inflate_table_size ifl inp h
      | NGHTTP2_HD_STATE_READ_INDEX \<Rightarrow> inflate_index ifl inp h
      | NGHTTP2_HD_STATE_NEWNAME_CHECK_NAMELEN \<Rightarrow> inflate_check_name_len ifl inp h
      | NGHTTP2_HD_STATE_NEWNAME_READ_NAMELEN \<Rightarrow> inflate_name_len ifl inp h
      | NGHTTP2_HD_STATE_NEWNAME_READ_NAMEHUFF \<Rightarrow> inflate_name hd_inflate_read_huff ifl inp h
      | NGHTTP2_HD_STATE_NEWNAME_READ_NAME \<Rightarrow> inflate_name hd_inflate_read ifl inp h
      | NGHTTP2_HD_STATE_CHECK_VALUELEN \<Rightarrow> inflate_check_value_len ifl inp h
      | NGHTTP2_HD_STATE_READ_VALUELEN \<Rightarrow> inflate_value_len ifl inp h
      | NGHTTP2_HD_STATE_READ_VALUEHUFF \<Rightarrow> inflate_value hd_inflate_read_huff ifl inp h
      | NGHTTP2_HD_STATE_READ_VALUE \<Rightarrow> inflate_value hd_inflate_read ifl inp h)"

section \<open>The loop\<close>

text \<open>A case that goes on has read input, or is nearer to a state that must read.\<close>

definition state_rank :: "nghttp2_hd_inflate_state \<Rightarrow> nat" where
  "state_rank s =
     (case s of
        NGHTTP2_HD_STATE_EXPECT_TABLE_SIZE \<Rightarrow> 2 | NGHTTP2_HD_STATE_INFLATE_START \<Rightarrow> 2 | NGHTTP2_HD_STATE_OPCODE \<Rightarrow> 2
      | NGHTTP2_HD_STATE_NEWNAME_READ_NAMEHUFF \<Rightarrow> 2 | NGHTTP2_HD_STATE_NEWNAME_READ_NAME \<Rightarrow> 2 | _ \<Rightarrow> 0)"

lemma read_len_progress:
  assumes "hd_inflate_read_len ifl inp pfx m = Inr (rv, True, ifl')" "0 \<le> rv"
  shows "0 < rv \<and> inp \<noteq> []"
proof -
  have loop: "decode_loop n sh ds cnt = Complete n' sh' c \<Longrightarrow> cnt < c \<and> ds \<noteq> []" for n sh ds cnt n' sh' c
  proof (induction n sh ds cnt rule: decode_loop.induct)
    case (2 n sh b ds cnt)
    from 2(2) "2.IH" [OF refl _ _ refl] show ?case by (auto simp: decode_loop.simps(2) Let_def split: if_splits)
  qed simp
  show ?thesis
    using assms
    by (auto simp: hd_inflate_read_len_def decode_length_def Let_def byte_at_def NGHTTP2_ERR_HEADER_COMP_def
        dest!: loop elim!: res_bind_InrE split: if_splits option.splits decoded.splits)
qed

lemma byte_at_0: "byte_at inp 0 = Inr b \<Longrightarrow> inp \<noteq> []"
  by (auto simp: byte_at_def split: if_splits)

lemma len_drop: "0 < rv \<Longrightarrow> inp \<noteq> [] \<Longrightarrow> length (drop (nat rv) inp) < length inp"
  by (cases inp) auto

lemma case_progress:
  assumes "inflate_case ifl inp h = Inr (Go busy, ifl', inp', h')"
  shows "length inp' < length inp \<or> length inp' = length inp \<and> state_rank (if_state ifl') < state_rank (if_state ifl)"
proof -
  have opcode: "length inp' < length inp \<or> length inp' = length inp \<and> state_rank (if_state ifl') = 0"
    if "inflate_opcode ifl inp h = Inr (Go busy, ifl', inp', h')" for ifl
    using that by (auto simp: inflate_opcode_def Let_def state_rank_def dest!: byte_at_0 elim!: res_bind_InrE split: if_splits)
  have name_len: "length inp' < length inp" if "inflate_name_len ifl inp h = Inr (Go busy, ifl', inp', h')" for ifl
    using that by (auto simp: inflate_name_len_def Let_def dest!: read_len_progress intro!: len_drop elim!: res_bind_InrE split: if_splits prod.splits option.splits)
  have value_len: "length inp' < length inp" if "inflate_value_len ifl inp h = Inr (Go busy, ifl', inp', h')" for ifl
    using that by (auto simp: inflate_value_len_def Let_def dest!: read_len_progress intro!: len_drop elim!: res_bind_InrE split: if_splits prod.splits option.splits)
  have name: "length inp' < length inp \<or> length inp' = length inp \<and> state_rank (if_state ifl') = 0"
    if "inflate_name reader ifl inp h = Inr (Go busy, ifl', inp', h')" for reader ifl
    using that by (auto simp: inflate_name_def Let_def state_rank_def elim!: res_bind_InrE split: if_splits)
  have size: "length inp' < length inp" if "inflate_table_size ifl inp h = Inr (Go busy, ifl', inp', h')" for ifl
    using that by (auto simp: inflate_table_size_def Let_def dest!: read_len_progress intro!: len_drop elim!: res_bind_InrE split: if_splits)
  have index: "length inp' < length inp" if "inflate_index ifl inp h = Inr (Go busy, ifl', inp', h')" for ifl
    using that by (auto simp: inflate_index_def Let_def dest!: read_len_progress intro!: len_drop elim!: res_bind_InrE split: if_splits)
  have never: "inflate_value reader ifl inp h \<noteq> Inr (Go busy, ifl', inp', h')" for reader ifl
    by (auto simp: inflate_value_def Let_def elim!: res_bind_InrE split: if_splits option.splits)
  show ?thesis
    using assms opcode [of ifl] name_len name [of _ ifl] size [of ifl] index [of ifl] value_len never
    by (cases "if_state ifl")
      (auto simp: inflate_case_def inflate_check_name_len_def inflate_check_value_len_def state_rank_def elim!: res_bind_InrE)
qed

text \<open>A call ends with the result, the flags and the pair that was emitted.\<close>

definition inflate_fail :: "int \<Rightarrow> nghttp2_hd_inflater \<Rightarrow> rc_heap \<Rightarrow> (int \<times> int \<times> nghttp2_hd_nv option \<times> nghttp2_hd_inflater \<times> rc_heap) res" where
  "inflate_fail rv ifl h = Inr (rv, NGHTTP2_HD_INFLATE_NONE, None, ifl\<lparr>if_ctx := (if_ctx ifl)\<lparr>hc_bad := True\<rparr>\<rparr>, h)"

function inflate_loop ::
  "nat \<Rightarrow> bool \<Rightarrow> bool \<Rightarrow> nghttp2_hd_inflater \<Rightarrow> bytes \<Rightarrow> rc_heap \<Rightarrow>
    (int \<times> int \<times> nghttp2_hd_nv option \<times> nghttp2_hd_inflater \<times> rc_heap) res" where
  "inflate_loop inlen in_final busy ifl inp h =
     (if inp = [] \<and> \<not> busy then
        (if in_final then
           (if if_state ifl \<noteq> NGHTTP2_HD_STATE_OPCODE \<and> if_state ifl \<noteq> NGHTTP2_HD_STATE_INFLATE_START
            then inflate_fail NGHTTP2_ERR_HEADER_COMP ifl h
            else Inr (ssize_t_of inlen, NGHTTP2_HD_INFLATE_FINAL, None, ifl, h))
         else Inr (ssize_t_of inlen, NGHTTP2_HD_INFLATE_NONE, None, ifl, h))
      else
        (case inflate_case ifl inp h of
           Inl e \<Rightarrow> Inl e
         | Inr (Go busy1, ifl1, inp1, h1) \<Rightarrow> inflate_loop inlen in_final busy1 ifl1 inp1 h1
         | Inr (Almost_Ok, ifl1, inp1, h1) \<Rightarrow>
             (if in_final then inflate_fail NGHTTP2_ERR_HEADER_COMP ifl1 h1
              else Inr (ssize_t_of (inlen - length inp1), NGHTTP2_HD_INFLATE_NONE, None, ifl1, h1))
         | Inr (Failed rv, ifl1, inp1, h1) \<Rightarrow> inflate_fail rv ifl1 h1
         | Inr (Emitted nv, ifl1, inp1, h1) \<Rightarrow>
             Inr (ssize_t_of (inlen - length inp1), NGHTTP2_HD_INFLATE_EMIT, Some nv, ifl1, h1)))"
  by pat_completeness auto
termination
  by (relation "measures [\<lambda>(inlen, in_final, busy, ifl, inp, h). length inp,
      \<lambda>(inlen, in_final, busy, ifl, inp, h). state_rank (if_state ifl)]") (auto dest: case_progress)

declare inflate_loop.simps [simp del]

definition nghttp2_hd_inflate_hd_nv ::
  "nghttp2_hd_inflater \<Rightarrow> bytes \<Rightarrow> bool \<Rightarrow> rc_heap \<Rightarrow> (int \<times> int \<times> nghttp2_hd_nv option \<times> nghttp2_hd_inflater \<times> rc_heap) res" where
  "nghttp2_hd_inflate_hd_nv ifl inp in_final h =
     (if hc_bad (if_ctx ifl) then Inr (NGHTTP2_ERR_HEADER_COMP, NGHTTP2_HD_INFLATE_NONE, None, ifl, h)
      else
        res_bind (hd_inflate_keep_free ifl h) (\<lambda>(ifl1, h1).
        inflate_loop (length inp) in_final False ifl1 inp h1))"

text \<open>The interface with the strings themselves: name, value and flags.\<close>

definition nghttp2_hd_inflate_hd2 ::
  "nghttp2_hd_inflater \<Rightarrow> bytes \<Rightarrow> bool \<Rightarrow> rc_heap \<Rightarrow>
    (int \<times> int \<times> (bytes \<times> bytes \<times> byte) option \<times> nghttp2_hd_inflater \<times> rc_heap) res" where
  "nghttp2_hd_inflate_hd2 ifl inp in_final h =
     res_bind (nghttp2_hd_inflate_hd_nv ifl inp in_final h) (\<lambda>(rv, flags, nv, ifl1, h1).
     if rv < 0 then Inr (rv, flags, None, ifl1, h1)
     else
       (case nv of
          None \<Rightarrow> Inr (rv, flags, None, ifl1, h1)
        | Some e \<Rightarrow>
            res_bind (nghttp2_rcbuf_get_buf (hn_name e) h1) (\<lambda>n.
            res_bind (nghttp2_rcbuf_get_buf (hn_value e) h1) (\<lambda>v.
            Inr (rv, flags, Some (n, v, hn_flags e), ifl1, h1)))))"

definition nghttp2_hd_inflate_hd ::
  "nghttp2_hd_inflater \<Rightarrow> bytes \<Rightarrow> bool \<Rightarrow> rc_heap \<Rightarrow>
    (int \<times> int \<times> (bytes \<times> bytes \<times> byte) option \<times> nghttp2_hd_inflater \<times> rc_heap) res" where
  "nghttp2_hd_inflate_hd ifl inp in_final h = nghttp2_hd_inflate_hd2 ifl inp in_final h"

definition nghttp2_hd_inflate_end_headers :: "nghttp2_hd_inflater \<Rightarrow> rc_heap \<Rightarrow> (int \<times> nghttp2_hd_inflater \<times> rc_heap) res" where
  "nghttp2_hd_inflate_end_headers ifl h =
     res_bind (hd_inflate_keep_free ifl h) (\<lambda>(ifl1, h1).
     Inr (0, ifl1\<lparr>if_state := NGHTTP2_HD_STATE_INFLATE_START\<rparr>, h1))"

text \<open>An inflater that the library makes: the address of its block, and what is in it.\<close>

definition nghttp2_hd_inflate_new2 :: "rc_heap \<Rightarrow> (int \<times> (nat \<times> nghttp2_hd_inflater) option \<times> rc_heap) res" where
  "nghttp2_hd_inflate_new2 h =
     (case hp_alloc SIZEOF_HD_INFLATER h of
        (None, h1) \<Rightarrow> Inr (NGHTTP2_ERR_NOMEM, None, h1)
      | (Some inflater, h1) \<Rightarrow>
          (case nghttp2_hd_inflate_init h1 of
             (rv, None, h2) \<Rightarrow> res_bind (hp_free inflater h2) (\<lambda>h3. Inr (rv, None, h3))
           | (rv, Some ifl, h2) \<Rightarrow> Inr (0, Some (inflater, ifl), h2)))"

definition nghttp2_hd_inflate_new :: "rc_heap \<Rightarrow> (int \<times> (nat \<times> nghttp2_hd_inflater) option \<times> rc_heap) res" where
  "nghttp2_hd_inflate_new h = nghttp2_hd_inflate_new2 h"

definition nghttp2_hd_inflate_del :: "nat \<Rightarrow> nghttp2_hd_inflater \<Rightarrow> rc_heap \<Rightarrow> rc_heap res" where
  "nghttp2_hd_inflate_del inflater ifl h = res_bind (nghttp2_hd_inflate_free ifl h) (\<lambda>h1. hp_free inflater h1)"

definition nghttp2_hd_inflate_get_num_table_entries :: "nghttp2_hd_inflater \<Rightarrow> nat" where
  "nghttp2_hd_inflate_get_num_table_entries ifl = get_max_index (if_ctx ifl)"

definition nghttp2_hd_inflate_get_table_entry :: "nghttp2_hd_inflater \<Rightarrow> nat \<Rightarrow> rc_heap \<Rightarrow> (bytes \<times> bytes) option res" where
  "nghttp2_hd_inflate_get_table_entry ifl idx h = hd_get_table_entry (if_ctx ifl) idx h"

definition nghttp2_hd_inflate_get_dynamic_table_size :: "nghttp2_hd_inflater \<Rightarrow> nat" where
  "nghttp2_hd_inflate_get_dynamic_table_size ifl = hc_bufsize (if_ctx ifl)"

definition nghttp2_hd_inflate_get_max_dynamic_table_size :: "nghttp2_hd_inflater \<Rightarrow> nat" where
  "nghttp2_hd_inflate_get_max_dynamic_table_size ifl = hc_bufsize_max (if_ctx ifl)"

section \<open>What the inflater holds\<close>

definition opt_ref :: "rcptr option \<Rightarrow> owned multiset" where
  "opt_ref q = (case q of None \<Rightarrow> {#} | Some p \<Rightarrow> {#Held p#})"

lemma opt_ref_simps [simp]: "opt_ref None = {#}" "opt_ref (Some p) = {#Held p#}"
  by (simp_all add: opt_ref_def)

definition if_refs :: "nghttp2_hd_inflater \<Rightarrow> owned multiset" where
  "if_refs ifl = opt_ref (if_namercbuf ifl) + opt_ref (if_valuercbuf ifl) + opt_ref (if_name_keep ifl) + opt_ref (if_value_keep ifl)"

definition inflater_owns :: "nghttp2_hd_inflater \<Rightarrow> rc_heap \<Rightarrow> owned multiset \<Rightarrow> hd_pair list \<Rightarrow> bool" where
  "inflater_owns ifl h X T \<longleftrightarrow>
     hd_table (if_ctx ifl) None h (if_refs ifl + X) T \<and> dt_size T \<le> hc_bufsize_max (if_ctx ifl) \<and>
     hc_bufsize_max (if_ctx ifl) \<le> if_settings_max ifl \<and> if_settings_max ifl \<le> MAX_UINT32"

text \<open>A string that is being read: nobody else has it, and there is room for \<open>n\<close> bytes.\<close>

definition open_string :: "rc_heap \<Rightarrow> rcptr option \<Rightarrow> nat \<Rightarrow> bool" where
  "open_string h q n \<longleftrightarrow> (\<exists>p r. q = Some p \<and> rc_get h p = Inr r \<and> rc_ref r = 1 \<and> rc_len r \<le> length (rc_base r) \<and> n \<le> length (rc_base r))"

text \<open>A state of the Huffman decoder that some input leads to.\<close>

definition huff_live :: "nghttp2_hd_huff_decode_context \<Rightarrow> bool" where
  "huff_live f \<longleftrightarrow> huff_ok f \<and> (\<exists>bits out. decoded_to bits out f)"

text \<open>The states between a first byte and the end of a value, for a name that is new or one that is indexed.\<close>

definition name_known :: "nghttp2_hd_inflater \<Rightarrow> hd_pair list \<Rightarrow> bool" where
  "name_known ifl T \<longleftrightarrow>
     (if if_opcode ifl = NGHTTP2_HD_OPCODE_NEWNAME then if_namercbuf ifl \<noteq> None
      else if_namercbuf ifl = None \<and> if_index ifl < 61 + length T)"

definition inflate_shape :: "nghttp2_hd_inflater \<Rightarrow> rc_heap \<Rightarrow> hd_pair list \<Rightarrow> bool" where
  "inflate_shape ifl h T \<longleftrightarrow>
     (case if_state ifl of
        NGHTTP2_HD_STATE_NEWNAME_READ_NAMEHUFF \<Rightarrow>
          if_opcode ifl = NGHTTP2_HD_OPCODE_NEWNAME \<and> if_valuercbuf ifl = None \<and> huff_live (if_huff ifl) \<and>
          open_string h (if_namercbuf ifl) (if_name_last ifl + 2 * if_left ifl + 1)
      | NGHTTP2_HD_STATE_NEWNAME_READ_NAME \<Rightarrow>
          if_opcode ifl = NGHTTP2_HD_OPCODE_NEWNAME \<and> if_valuercbuf ifl = None \<and>
          open_string h (if_namercbuf ifl) (if_name_last ifl + if_left ifl + 1)
      | NGHTTP2_HD_STATE_CHECK_VALUELEN \<Rightarrow> name_known ifl T \<and> if_valuercbuf ifl = None
      | NGHTTP2_HD_STATE_READ_VALUELEN \<Rightarrow> name_known ifl T \<and> if_valuercbuf ifl = None
      | NGHTTP2_HD_STATE_READ_VALUEHUFF \<Rightarrow>
          name_known ifl T \<and> huff_live (if_huff ifl) \<and> open_string h (if_valuercbuf ifl) (if_value_last ifl + 2 * if_left ifl + 1)
      | NGHTTP2_HD_STATE_READ_VALUE \<Rightarrow>
          name_known ifl T \<and> open_string h (if_valuercbuf ifl) (if_value_last ifl + if_left ifl + 1)
      | _ \<Rightarrow> if_namercbuf ifl = None \<and> if_valuercbuf ifl = None \<and>
          (if_state ifl = NGHTTP2_HD_STATE_NEWNAME_CHECK_NAMELEN \<or> if_state ifl = NGHTTP2_HD_STATE_NEWNAME_READ_NAMELEN \<longrightarrow>
             if_opcode ifl = NGHTTP2_HD_OPCODE_NEWNAME) \<and>
          (if_state ifl = NGHTTP2_HD_STATE_READ_INDEX \<longrightarrow> if_opcode ifl \<noteq> NGHTTP2_HD_OPCODE_NEWNAME))"

text \<open>In a call the pair of the last call is released.\<close>

definition inflating :: "nghttp2_hd_inflater \<Rightarrow> rc_heap \<Rightarrow> owned multiset \<Rightarrow> hd_pair list \<Rightarrow> bool" where
  "inflating ifl h X T \<longleftrightarrow>
     inflater_owns ifl h X T \<and> if_name_keep ifl = None \<and> if_value_keep ifl = None \<and> if_left ifl < 2 ^ 32 \<and> inflate_shape ifl h T"

section \<open>Writing to a string\<close>

lemma table_put:
  assumes "hd_table ctx hmap h (add_mset (Held p) X) T" "rc_get h p = Inr r" "rc_ref r = 1" "rc_ref r' = 1" "rc_len r' \<le> length (rc_base r')"
  shows "hd_table ctx hmap (rc_put h p r') (add_mset (Held p) X) T" "rc_same h (rc_put h p r') X"
    "rc_get (rc_put h p r') p = Inr r'" "rc_str (rc_put h p r') p = take (rc_len r') (rc_base r')"
proof -
  obtain es where es: "context_holds ctx hmap h (ring_own ctx (add_mset (Held p) X)) es" "map (he_pair h) es = T"
    by (rule hd_tableE [OF assms(1)])
  let ?R = "table_refs es + ring_own ctx X"
  have ok: "rc_ok h (add_mset (Held p) ?R)" using context_holdsD(8) [OF es(1)] by (simp add: add_mset_commute)
  have r: "rc_ref r' = rc_ref r" "rc_ref r \<noteq> -1" "Held p \<in># add_mset (Held p) ?R" using assms(3,4) by simp_all
  note put = rc_put_ok [OF ok assms(2) r(3) r(1) assms(5) r(2)]
  obtain a where p: "p = Rc a" "hp_bufs h a = Some r"
    using assms(2) r(2) by (cases p) (auto simp: rc_get_def split: option.splits)
  have "rc_ref r = int (count (add_mset (Held p) ?R) (Held (Rc a)))"
    using rc_okD(1) [OF ok, of a] p(2) by (simp add: string_ok_def)
  then have "count ?R (Held p) = 0" using assms(3) p(1) by simp
  then have notin: "q \<noteq> p" if "Held q \<in># ?R" for q using that by (metis count_eq_zero_iff)
  have same: "rc_same h (rc_put h p r') ?R"
    unfolding rc_same_def using put(2) notin by blast
  have nx: "hp_next h \<le> hp_next (rc_put h p r')" using p by (simp add: rc_put_def)
  have "rc_ok (rc_put h p r') (table_refs es + ring_own ctx (add_mset (Held p) X))" using put(1) by (simp add: add_mset_commute)
  then have "context_holds ctx hmap (rc_put h p r') (ring_own ctx (add_mset (Held p) X)) es"
    by (rule context_frame [OF es(1) _ rc_same_mono [OF same] nx]) simp
  moreover have "map (he_pair (rc_put h p r')) es = T" using table_same_sub [OF same] es(2) by (rule trans)
  ultimately show "hd_table ctx hmap (rc_put h p r') (add_mset (Held p) X) T" by (rule hd_tableI)
  show "rc_same h (rc_put h p r') X" by (rule rc_same_mono [OF same]) (simp add: subset_mset.add_increasing)
  show "rc_get (rc_put h p r') p = Inr r'" "rc_str (rc_put h p r') p = take (rc_len r') (rc_base r')" by (fact put)+
qed

text \<open>An operation on the buffer of a string that keeps the block.\<close>

definition reads_into :: "nat \<Rightarrow> ('a \<times> nghttp2_buf) res \<Rightarrow> nghttp2_buf \<Rightarrow> 'a \<Rightarrow> bytes \<Rightarrow> bool" where
  "reads_into n r buf x out \<longleftrightarrow>
     (\<exists>buf'. r = Inr (x, buf') \<and> buf_wf buf' \<and> nghttp2_buf_cap buf' = nghttp2_buf_cap buf \<and> buf_pos buf' = 0 \<and>
       buf_data buf' = buf_data buf @ out \<and> buf_last buf' = buf_last buf + length out \<and> length out \<le> n)"

lemma with_string_ok:
  assumes "hd_table ctx hmap h (add_mset (Held p) X) T" "rc_get h p = Inr r" "rc_ref r = 1" "rc_len r \<le> length (rc_base r)"
    "lst \<le> length (rc_base r)"
    "reads_into n (f \<lparr>buf_block = Some (rc_base r), buf_pos = 0, buf_last = lst, buf_mark = 0\<rparr>)
       \<lparr>buf_block = Some (rc_base r), buf_pos = 0, buf_last = lst, buf_mark = 0\<rparr> x out"
  obtains h' r' where "with_string (Some p) lst f h = Inr (x, lst + length out, h')" "hd_table ctx hmap h' (add_mset (Held p) X) T"
    "rc_same h h' X" "rc_get h' p = Inr r'" "rc_ref r' = 1" "rc_len r' \<le> length (rc_base r')" "length (rc_base r') = length (rc_base r)"
    "take (lst + length out) (rc_base r') = take lst (rc_base r) @ out"
proof -
  let ?b = "\<lparr>buf_block = Some (rc_base r), buf_pos = 0, buf_last = lst, buf_mark = 0\<rparr>"
  obtain buf' where b: "f ?b = Inr (x, buf')" "buf_wf buf'" "nghttp2_buf_cap buf' = length (rc_base r)" "buf_pos buf' = 0"
    "buf_data buf' = buf_data ?b @ out" "buf_last buf' = lst + length out"
    using assms(6) by (auto simp: reads_into_def nghttp2_buf_cap_def buf_store_def)
  let ?r = "r\<lparr>rc_base := buf_store buf'\<rparr>"
  have len: "length (buf_store buf') = length (rc_base r)" using b(3) by (simp add: nghttp2_buf_cap_def)
  have "rc_ref ?r = 1" "rc_len ?r \<le> length (rc_base ?r)" using assms(3,4) len by simp_all
  note put = table_put [OF assms(1-3) this]
  have "take (lst + length out) (buf_store buf') = buf_data buf'" using b(4,6) by (simp add: buf_data_def)
  also have "\<dots> = take lst (rc_base r) @ out" using b(5) by (simp add: buf_data_def buf_store_def)
  finally have data: "take (lst + length out) (rc_base ?r) = take lst (rc_base r) @ out" by simp
  show ?thesis
    by (rule that [OF _ put(1,2,3)]) (use assms(2-4) b(1,6) len data in \<open>simp_all add: with_string_def\<close>)
qed

lemma close_string_ok:
  assumes "hd_table ctx hmap h (add_mset (Held p) X) T" "rc_get h p = Inr r" "rc_ref r = 1" "lst < length (rc_base r)"
  obtains h' where "close_string (Some p) lst h = Inr h'" "hd_table ctx hmap h' (add_mset (Held p) X) T" "rc_same h h' X"
    "rc_str h' p = take lst (rc_base r)"
proof -
  let ?s = "take lst (rc_base r) @ 0 # drop (lst + 1) (rc_base r)"
  let ?r = "r\<lparr>rc_base := ?s, rc_len := lst\<rparr>"
  have "rc_ref ?r = 1" "rc_len ?r \<le> length (rc_base ?r)" using assms(3,4) by simp_all
  note put = table_put [OF assms(1-3) this]
  have "close_string (Some p) lst h = Inr (rc_put h p ?r)"
    using assms(2,4) by (simp add: close_string_def wr_def)
  then show ?thesis by (rule that [OF _ put(1,2)]) (use put(4) assms(4) in simp)
qed

section \<open>Reading strings\<close>

definition reader_ok ::
  "nat \<Rightarrow> (nghttp2_hd_inflater \<Rightarrow> bytes \<Rightarrow> nghttp2_buf \<Rightarrow> ((int \<times> nghttp2_hd_inflater) \<times> nghttp2_buf) res) \<Rightarrow>
    nghttp2_hd_inflater \<Rightarrow> bytes \<Rightarrow> bool" where
  "reader_ok c reader ifl inp \<longleftrightarrow>
     (\<forall>b. buf_wf b \<and> buf_pos b = 0 \<and> buf_last b + c * if_left ifl + 1 \<le> nghttp2_buf_cap b \<longrightarrow>
       (\<exists>rv hf out. let k = min (length inp) (if_left ifl) in
          reads_into (c * k) (reader ifl inp b) b
            (rv, ifl\<lparr>if_huff := hf, if_left := (if rv < 0 then if_left ifl else if_left ifl - k)\<rparr>) out \<and>
          (rv = int k \<and> (c = 2 \<longrightarrow> huff_live hf) \<or> rv = NGHTTP2_ERR_HEADER_COMP)))"

lemma ssize_small: "n < 2 ^ 63 \<Longrightarrow> ssize_t_of n = int n"
  by (simp add: ssize_t_of_def)

lemma header_comp_neg [simp]: "NGHTTP2_ERR_HEADER_COMP < 0" "NGHTTP2_ERR_HEADER_COMP \<noteq> 0" "NGHTTP2_ERR_HEADER_COMP \<noteq> int k"
  by (simp_all add: NGHTTP2_ERR_HEADER_COMP_def)

lemma read_raw:
  assumes "buf_wf b" "buf_pos b = 0" "buf_last b + if_left ifl \<le> nghttp2_buf_cap b" "if_left ifl < 2 ^ 32"
    and k: "k = min (length inp) (if_left ifl)"
  shows "reads_into k (hd_inflate_read ifl inp b) b (int k, ifl\<lparr>if_left := if_left ifl - k\<rparr>) (take k inp)"
proof -
  have fit: "length (take k inp) \<le> nghttp2_buf_cap b - buf_last b" using assms(3) k by auto
  obtain b' where b': "buf_cpy b (take k inp) = Inr b'" "buf_wf b'" "buf_data b' = buf_data b @ take k inp"
    "nghttp2_buf_cap b' = nghttp2_buf_cap b" "buf_pos b' = buf_pos b" "buf_last b' = buf_last b + length (take k inp)"
    by (rule buf_cpy_wf [OF assms(1) fit])
  have "hd_inflate_read ifl inp b = Inr ((int k, ifl\<lparr>if_left := if_left ifl - k\<rparr>), b')"
    using b'(1) k assms(4) by (simp add: hd_inflate_read_def Let_def size_sub_def ssize_small)
  then show ?thesis using b' assms(2) k by (auto simp: reads_into_def)
qed

lemma read_raw_ok: "if_left ifl < 2 ^ 32 \<Longrightarrow> reader_ok 1 hd_inflate_read ifl inp"
  unfolding reader_ok_def Let_def
proof (intro allI impI)
  fix b assume left: "if_left ifl < 2 ^ 32" and b: "buf_wf b \<and> buf_pos b = 0 \<and> buf_last b + 1 * if_left ifl + 1 \<le> nghttp2_buf_cap b"
  let ?k = "min (length inp) (if_left ifl)"
  have "reads_into ?k (hd_inflate_read ifl inp b) b (int ?k, ifl\<lparr>if_left := if_left ifl - ?k\<rparr>) (take ?k inp)"
    by (rule read_raw) (use b left in auto)
  then show "\<exists>rv hf out. reads_into (1 * ?k) (hd_inflate_read ifl inp b) b
      (rv, ifl\<lparr>if_huff := hf, if_left := (if rv < 0 then if_left ifl else if_left ifl - ?k)\<rparr>) out \<and>
      (rv = int ?k \<and> ((1::nat) = 2 \<longrightarrow> huff_live hf) \<or> rv = NGHTTP2_ERR_HEADER_COMP)"
    by (intro exI [of _ "int ?k"] exI [of _ "if_huff ifl"] exI [of _ "take ?k inp"]) simp
qed

lemma read_coded_ok:
  assumes "if_left ifl < 2 ^ 32" "huff_live (if_huff ifl)"
  shows "reader_ok 2 hd_inflate_read_huff ifl inp"
  unfolding reader_ok_def Let_def
proof (intro allI impI)
  fix b assume b: "buf_wf b \<and> buf_pos b = 0 \<and> buf_last b + 2 * if_left ifl + 1 \<le> nghttp2_buf_cap b"
  let ?k = "min (length inp) (if_left ifl)"
  let ?fin = "if_left ifl \<le> length inp"
  let ?src = "if ?fin then take (if_left ifl) inp else inp"
  have len: "length ?src = ?k" "ssize_t_of (length ?src) = int ?k" using assms(1) by (auto simp: ssize_small)
  obtain bits out where live: "huff_ok (if_huff ifl)" "decoded_to bits out (if_huff ifl)" using assms(2) by (auto simp: huff_live_def)
  have room: "buf_last b + 2 * length ?src \<le> nghttp2_buf_cap b" using b len(1) by auto
  obtain ctx buf' o1 where r: "huff_decode_loop (if_huff ifl) ?src b = Inr (ctx, buf')" "huff_ok ctx" "buf_wf buf'"
    "buf_data buf' = buf_data b @ o1" "length o1 \<le> 2 * length ?src" "nghttp2_buf_cap buf' = nghttp2_buf_cap b"
    "decoded_to (bits @ bytes_bits ?src) (out @ o1) ctx" "buf_last buf' = buf_last b + length o1" "buf_pos buf' = buf_pos b"
    using huff_decode_loop_ok [OF live(1) conjunct1 [OF b] room live(2)] by blast
  have lv: "huff_live ctx" using r(2,7) by (auto simp: huff_live_def)
  let ?rv = "if ?fin \<and> ctx AND NGHTTP2_HUFF_ACCEPTED = 0 \<or> nghttp2_hd_huff_decode_failure_state ctx then NGHTTP2_ERR_HEADER_COMP else int ?k"
  have "hd_inflate_read_huff ifl inp b =
      Inr ((?rv, ifl\<lparr>if_huff := ctx, if_left := (if ?rv < 0 then if_left ifl else if_left ifl - ?k)\<rparr>), buf')"
  proof (cases "?fin \<and> ctx AND NGHTTP2_HUFF_ACCEPTED = 0")
    case True
    then show ?thesis using r(1) by (simp add: hd_inflate_read_huff_def nghttp2_hd_huff_decode_def Let_def)
  next
    case False
    then have "nghttp2_hd_huff_decode (if_huff ifl) b ?src ?fin = Inr (int ?k, ctx, buf')"
      using r(1) len(2) by (simp add: nghttp2_hd_huff_decode_def)
    then show ?thesis unfolding hd_inflate_read_huff_def Let_def using False by (auto simp: size_sub_def)
  qed
  then have "reads_into (2 * ?k) (hd_inflate_read_huff ifl inp b) b
      (?rv, ifl\<lparr>if_huff := ctx, if_left := (if ?rv < 0 then if_left ifl else if_left ifl - ?k)\<rparr>) o1"
    using r(3-6,8,9) b len(1) by (simp add: reads_into_def)
  then show "\<exists>rv hf out. reads_into (2 * ?k) (hd_inflate_read_huff ifl inp b) b
      (rv, ifl\<lparr>if_huff := hf, if_left := (if rv < 0 then if_left ifl else if_left ifl - ?k)\<rparr>) out \<and>
      (rv = int ?k \<and> ((2::nat) = 2 \<longrightarrow> huff_live hf) \<or> rv = NGHTTP2_ERR_HEADER_COMP)"
    by (intro exI [of _ ?rv] exI [of _ ctx] exI [of _ o1] conjI, assumption) (use lv in auto)
qed

section \<open>Committing\<close>

lemma commit_newname_ok:
  assumes own: "inflater_owns ifl h X T" and bufs: "if_namercbuf ifl = Some n" "if_valuercbuf ifl = Some v"
    and keeps: "if_name_keep ifl = None" "if_value_keep ifl = None"
  obtains (fail) ctx h' T' where "hd_inflate_commit_newname ifl h = Inr (NGHTTP2_ERR_NOMEM, None, ifl\<lparr>if_ctx := ctx\<rparr>, h')"
      "inflater_owns (ifl\<lparr>if_ctx := ctx\<rparr>) h' X T'" "rc_same h h' X" "hc_bad ctx = hc_bad (if_ctx ifl)"
  | (okay) ctx h' T' e where
      "hd_inflate_commit_newname ifl h = Inr (0, Some e, ifl\<lparr>if_ctx := ctx, if_name_keep := Some n, if_value_keep := Some v,
        if_namercbuf := None, if_valuercbuf := None\<rparr>, h')"
      "inflater_owns (ifl\<lparr>if_ctx := ctx, if_name_keep := Some n, if_value_keep := Some v, if_namercbuf := None, if_valuercbuf := None\<rparr>) h' X T'"
      "rc_same h h' X" "hc_bad ctx = hc_bad (if_ctx ifl)" "hc_bufsize_max ctx = hc_bufsize_max (if_ctx ifl)"
      "T' = (if if_index_required ifl then dt_add (hc_bufsize_max (if_ctx ifl)) (rc_str h n, rc_str h v) T else T)"
      "hn_name e = n" "hn_value e = v" "rc_str h' n = rc_str h n" "rc_str h' v = rc_str h v" "hn_flags e = nv_flags_of ifl"
proof -
  have tab: "hd_table (if_ctx ifl) None h ({#Held n, Held v#} + X) T"
    using own bufs keeps by (simp add: inflater_owns_def if_refs_def add_mset_commute)
  obtain R where R: "rc_ok h (R + ({#Held n, Held v#} + X))" using table_strings [OF tab] by blast
  have buf: "nghttp2_rcbuf_get_buf n h = Inr (rc_str h n)" by (rule rc_get_buf [OF R]) simp
  let ?e = "\<lparr>hn_name = n, hn_value = v, hn_token = lookup_token (rc_str h n), hn_flags = nv_flags_of ifl\<rparr>"
  let ?done = "\<lambda>ctx. ifl\<lparr>if_ctx := ctx, if_name_keep := Some n, if_value_keep := Some v, if_namercbuf := None, if_valuercbuf := None\<rparr>"
  show ?thesis
  proof (cases "if_index_required ifl")
    case True
    obtain rv ctx hmap h' where r: "add_hd_table_incremental (if_ctx ifl) ?e None 0 h = Inr (rv, ctx, hmap, h')"
      "rv = 0 \<or> rv = NGHTTP2_ERR_NOMEM"
      "hd_table ctx hmap h' ({#Held n, Held v#} + X) (if rv = 0 then dt_add (hc_bufsize_max (if_ctx ifl)) (rc_str h n, rc_str h v) T
         else dt_fit (hc_bufsize_max (if_ctx ifl) - pair_room (rc_str h n, rc_str h v)) T)"
      "hc_bufsize_max ctx = hc_bufsize_max (if_ctx ifl)" "hc_bad ctx = hc_bad (if_ctx ifl)" "rc_same h h' ({#Held n, Held v#} + X)"
      "(hmap = None) = (None = (None :: nghttp2_hd_map option))"
      by (rule hd_table_add [OF tab, of ?e "(rc_str h n, rc_str h v)" 0]) simp_all
    have none: "hmap = None" using r(7) by simp
    have same: "rc_same h h' X" "rc_str h' n = rc_str h n" "rc_str h' v = rc_str h v"
      using rc_same_mono [OF r(6)] rc_same_str [OF r(6)] by simp_all
    show ?thesis
    proof (cases "rv = 0")
      case zero: True
      have eq: "hd_inflate_commit_newname ifl h = Inr (0, Some ?e, ?done ctx, h')"
        using bufs buf True r(1) zero by (simp add: hd_inflate_commit_newname_def)
      have "inflater_owns (?done ctx) h' X (dt_add (hc_bufsize_max (if_ctx ifl)) (rc_str h n, rc_str h v) T)"
        using r(3,4) none zero own dt_add_size by (simp add: inflater_owns_def if_refs_def add_mset_commute)
      then show ?thesis by (rule okay [OF eq]) (use r(4,5) same True in simp_all)
    next
      case False
      then have rv: "rv = NGHTTP2_ERR_NOMEM" using r(2) by simp
      have eq: "hd_inflate_commit_newname ifl h = Inr (NGHTTP2_ERR_NOMEM, None, ifl\<lparr>if_ctx := ctx\<rparr>, h')"
        using bufs buf True r(1) rv by (simp add: hd_inflate_commit_newname_def)
      let ?T = "dt_fit (hc_bufsize_max (if_ctx ifl) - pair_room (rc_str h n, rc_str h v)) T"
      have "inflater_owns (ifl\<lparr>if_ctx := ctx\<rparr>) h' X ?T"
        using r(3,4) none False own bufs keeps le_trans [OF dt_fit_size diff_le_self] by (simp add: inflater_owns_def if_refs_def add_mset_commute)
      then show ?thesis by (rule fail [OF eq]) (use r(5) same in simp_all)
    qed
  next
    case False
    have eq: "hd_inflate_commit_newname ifl h = Inr (0, Some ?e, ?done (if_ctx ifl), h)"
      using bufs buf False by (simp add: hd_inflate_commit_newname_def)
    have "inflater_owns (?done (if_ctx ifl)) h X T" using tab own by (simp add: inflater_owns_def if_refs_def add_mset_commute)
    then show ?thesis by (rule okay [OF eq]) (use False in simp_all)
  qed
qed

lemma commit_indname_ok:
  assumes own: "inflater_owns ifl h X T" and bufs: "if_namercbuf ifl = None" "if_valuercbuf ifl = Some v"
    and keeps: "if_name_keep ifl = None" "if_value_keep ifl = None" and idx: "if_index ifl < 61 + length T"
  obtains (fail) ctx h' T' where "hd_inflate_commit_indname ifl h = Inr (NGHTTP2_ERR_NOMEM, None, ifl\<lparr>if_ctx := ctx\<rparr>, h')"
      "inflater_owns (ifl\<lparr>if_ctx := ctx\<rparr>) h' X T'" "rc_same h h' X" "hc_bad ctx = hc_bad (if_ctx ifl)"
  | (okay) ctx h' T' e where
      "hd_inflate_commit_indname ifl h = Inr (0, Some e, ifl\<lparr>if_ctx := ctx, if_name_keep := Some (hn_name e), if_value_keep := Some v,
        if_valuercbuf := None\<rparr>, h')"
      "inflater_owns (ifl\<lparr>if_ctx := ctx, if_name_keep := Some (hn_name e), if_value_keep := Some v, if_valuercbuf := None\<rparr>) h' X T'"
      "rc_same h h' X" "hc_bad ctx = hc_bad (if_ctx ifl)" "hc_bufsize_max ctx = hc_bufsize_max (if_ctx ifl)"
      "T' = (if if_index_required ifl then dt_add (hc_bufsize_max (if_ctx ifl)) (fst (dt_get T (if_index ifl)), rc_str h v) T else T)"
      "hn_value e = v" "rc_str h' (hn_name e) = fst (dt_get T (if_index ifl))" "rc_str h' v = rc_str h v" "hn_flags e = nv_flags_of ifl"
proof -
  have tab: "hd_table (if_ctx ifl) None h (add_mset (Held v) X) T"
    using own bufs keeps by (simp add: inflater_owns_def if_refs_def)
  obtain e0 h1 where e0: "nghttp2_hd_table_get (if_ctx ifl) (if_index ifl) = Inr e0" "rc_str h (hn_name e0) = fst (dt_get T (if_index ifl))"
    "rc_str h (hn_value e0) = snd (dt_get T (if_index ifl))" "hn_token e0 = lookup_token (rc_str h (hn_name e0))"
    "nghttp2_rcbuf_incref (hn_name e0) h = Inr h1" "hd_table (if_ctx ifl) None h1 (add_mset (Held (hn_name e0)) (add_mset (Held v) X)) T" "rc_str h1 = rc_str h"
    by (rule table_get_name [OF tab idx])
  let ?n = "hn_name e0" and ?e = "e0\<lparr>hn_flags := nv_flags_of ifl, hn_value := v\<rparr>"
  let ?X = "add_mset (Held ?n) (add_mset (Held v) X)" and ?p = "(rc_str h ?n, rc_str h v)"
  let ?done = "\<lambda>ctx. ifl\<lparr>if_ctx := ctx, if_name_keep := Some ?n, if_value_keep := Some v, if_valuercbuf := None\<rparr>"
  have refs: "if_refs (?done ctx) + X = ?X" for ctx using bufs by (simp add: if_refs_def)
  have same1: "rc_same h h1 X" using e0(7) by (simp add: rc_same_def)
  show ?thesis
  proof (cases "if_index_required ifl")
    case True
    obtain rv ctx hmap h' where r: "add_hd_table_incremental (if_ctx ifl) ?e None 0 h1 = Inr (rv, ctx, hmap, h')"
      "rv = 0 \<or> rv = NGHTTP2_ERR_NOMEM"
      "hd_table ctx hmap h' ?X (if rv = 0 then dt_add (hc_bufsize_max (if_ctx ifl)) ?p T
         else dt_fit (hc_bufsize_max (if_ctx ifl) - pair_room ?p) T)"
      "hc_bufsize_max ctx = hc_bufsize_max (if_ctx ifl)" "hc_bad ctx = hc_bad (if_ctx ifl)" "rc_same h1 h' ?X"
      "(hmap = None) = (None = (None :: nghttp2_hd_map option))"
      by (rule hd_table_add [OF e0(6), of ?e ?p 0]) (use e0(4,7) in simp_all)
    have none: "hmap = None" using r(7) by simp
    have same: "rc_same h h' X"
      by (rule rc_same_trans [OF same1 r(6)]) (simp add: subset_mset.add_increasing)
    have strs: "rc_str h' ?n = rc_str h ?n" "rc_str h' v = rc_str h v"
      using rc_same_str [OF r(6)] e0(7) by simp_all
    show ?thesis
    proof (cases "rv = 0")
      case zero: True
      have eq: "hd_inflate_commit_indname ifl h = Inr (0, Some ?e, ?done ctx, h')"
        using bufs e0(1,5) True r(1) zero by (simp add: hd_inflate_commit_indname_def Let_def)
      have "inflater_owns (?done ctx) h' X (dt_add (hc_bufsize_max (if_ctx ifl)) ?p T)"
        unfolding inflater_owns_def refs using r(3,4) none zero own dt_add_size by (simp add: inflater_owns_def)
      then show ?thesis using eq by (intro okay [of ?e ctx h']) (use r(4,5) same strs True e0(2) in simp_all)
    next
      case False
      then have rv: "rv = NGHTTP2_ERR_NOMEM" using r(2) by simp
      let ?T = "dt_fit (hc_bufsize_max (if_ctx ifl) - pair_room ?p) T"
      have "hd_table ctx None h' (add_mset (Held ?n) (add_mset (Held v) X)) ?T" using r(3) none False by simp
      from table_decref [OF this] obtain h2 where h2: "nghttp2_rcbuf_decref (Some ?n) h' = Inr h2"
        "hd_table ctx None h2 (add_mset (Held v) X) ?T" "rc_same h' h2 (add_mset (Held v) X)" by blast
      have eq: "hd_inflate_commit_indname ifl h = Inr (NGHTTP2_ERR_NOMEM, None, ifl\<lparr>if_ctx := ctx\<rparr>, h2)"
        using bufs e0(1,5) True r(1) rv h2(1) by (simp add: hd_inflate_commit_indname_def Let_def)
      have "inflater_owns (ifl\<lparr>if_ctx := ctx\<rparr>) h2 X ?T"
        using h2(2) r(4) own bufs keeps le_trans [OF dt_fit_size diff_le_self] by (simp add: inflater_owns_def if_refs_def)
      moreover have "rc_same h h2 X" by (rule rc_same_trans [OF same h2(3)]) simp
      ultimately show ?thesis by (intro fail [OF eq]) (use r(5) in simp_all)
    qed
  next
    case False
    have eq: "hd_inflate_commit_indname ifl h = Inr (0, Some ?e, ?done (if_ctx ifl), h1)"
      using bufs e0(1,5) False by (simp add: hd_inflate_commit_indname_def Let_def)
    have "inflater_owns (?done (if_ctx ifl)) h1 X T"
      unfolding inflater_owns_def refs using e0(6) own by (simp add: inflater_owns_def)
    then show ?thesis using eq by (intro okay [of ?e "if_ctx ifl" h1]) (use same1 e0(2,7) False in simp_all)
  qed
qed

section \<open>A step\<close>

lemma rcbuf_new_next: "nghttp2_rcbuf_new sz h = (rv, p, h') \<Longrightarrow> hp_next h \<le> hp_next h'"
  by (auto simp: nghttp2_rcbuf_new_def split: prod.splits option.splits)

lemma table_new:
  assumes "hd_table ctx hmap h X T"
  obtains (none) h' where "nghttp2_rcbuf_new sz h = (NGHTTP2_ERR_NOMEM, None, h')" "hd_table ctx hmap h' X T" "rc_same h h' X"
  | (some) p h' r where "nghttp2_rcbuf_new sz h = (0, Some p, h')" "hd_table ctx hmap h' (add_mset (Held p) X) T" "rc_same h h' X"
      "rc_get h' p = Inr r" "length (rc_base r) = sz" "rc_len r = sz" "rc_ref r = 1"
proof -
  obtain es where es: "context_holds ctx hmap h (ring_own ctx X) es" "map (he_pair h) es = T" by (rule hd_tableE [OF assms])
  have sub: "rc_same h h' X" if "rc_same h h' (table_refs es + ring_own ctx X)" for h'
    by (rule rc_same_mono [OF that]) (simp add: subset_mset.add_increasing)
  show ?thesis
  proof (cases rule: rc_new [OF context_holdsD(8) [OF es(1)], of sz])
    case (1 h')
    have "context_holds ctx hmap h' (ring_own ctx X) es"
      by (rule context_frame [OF es(1) 1(2) rc_same_mono [OF 1(3)] rcbuf_new_next [OF 1(1)]]) simp
    moreover have "map (he_pair h') es = T" using table_same_sub [OF 1(3)] es(2) by (rule trans)
    ultimately show ?thesis by (intro none [OF 1(1)] hd_tableI sub [OF 1(3)])
  next
    case (2 p h' r)
    have "rc_ok h' (table_refs es + ring_own ctx (add_mset (Held p) X))" using 2(2) by (simp add: add_mset_commute)
    then have "context_holds ctx hmap h' (ring_own ctx (add_mset (Held p) X)) es"
      by (rule context_frame [OF es(1) _ rc_same_mono [OF 2(3)] rcbuf_new_next [OF 2(1)]]) simp
    moreover have "map (he_pair h') es = T" using table_same_sub [OF 2(3)] es(2) by (rule trans)
    ultimately show ?thesis by (intro some [OF 2(1) _ _ 2(5-8)] hd_tableI sub [OF 2(3)])
  qed
qed

lemma decode_loop_complete: "decode_loop n sh ds cnt = Complete n' sh' c \<Longrightarrow> cnt < c \<and> c \<le> cnt + length ds"
proof (induction n sh ds cnt rule: decode_loop.induct)
  case (2 n sh b ds cnt)
  from 2(2) "2.IH" [OF refl _ _ refl] show ?case by (auto simp: decode_loop.simps(2) Let_def split: if_splits)
qed simp

lemma read_len_ok:
  assumes "inp \<noteq> []"
  obtains (fail) fin sh where "hd_inflate_read_len ifl inp pfx maxlen = Inr (NGHTTP2_ERR_HEADER_COMP, fin, ifl\<lparr>if_shift := sh\<rparr>)"
  | (okay) n fin sh m where "hd_inflate_read_len ifl inp pfx maxlen = Inr (int n, fin, ifl\<lparr>if_shift := sh, if_left := m\<rparr>)"
      "n \<le> length inp" "m \<le> maxlen" "m < 2 ^ 32" "fin \<or> n = length inp"
proof -
  obtain rv out sh fin where d: "decode_length (word_of_nat (if_left ifl)) (if_shift ifl) inp pfx = Inr (rv, out, sh, fin)"
  proof (cases "decode_length (word_of_nat (if_left ifl)) (if_shift ifl) inp pfx")
    case (Inl e)
    then show ?thesis using assms by (auto simp: decode_length_def byte_at_def Let_def split: if_splits)
  next
    case (Inr x)
    then show ?thesis using that by (cases x) auto
  qed
  have count: "\<exists>n. rv = int n \<and> n \<le> length inp \<and> (fin \<or> n = length inp)" if "out \<noteq> None"
    using d assms that
    by (auto simp: decode_length_def byte_at_def Let_def Suc_le_eq dest: decode_loop_complete decode_loop_partial split: if_splits decoded.splits)
  show ?thesis
  proof (cases "\<exists>w. out = Some w \<and> unat w \<le> maxlen")
    case True
    then obtain w where w: "out = Some w" "unat w \<le> maxlen" by blast
    obtain n where n: "rv = int n" "n \<le> length inp" "fin \<or> n = length inp" using count w(1) by auto
    have "unat w < 2 ^ 32" using unsigned_less [of w, where ?'a = nat] by simp
    then show ?thesis
      by (intro okay [of n fin "unat w" sh]) (use d w n in \<open>simp_all add: hd_inflate_read_len_def\<close>)
  next
    case False
    then show ?thesis
      by (intro fail [of fin sh]) (use d in \<open>auto simp: hd_inflate_read_len_def Let_def split: option.splits\<close>)
  qed
qed

text \<open>The strings of a pair can be read.\<close>

lemma readable: "hd_table ctx hmap h R T \<Longrightarrow> Held p \<in># R \<Longrightarrow> nghttp2_rcbuf_get_buf p h = Inr (rc_str h p)"
  using table_strings rc_get_buf by (metis union_iff)

lemma readable_static: "hd_table ctx hmap h R T \<Longrightarrow> nghttp2_rcbuf_get_buf (Rc_Static s) h = Inr s"
  using table_strings [of ctx hmap h R T] rc_get_buf [of h _ "Rc_Static s"] by (metis add_mset_add_single rc_ok_static rc_str_static union_single_eq_member)

definition emits_pair :: "nghttp2_hd_nv \<Rightarrow> rc_heap \<Rightarrow> hd_pair \<Rightarrow> bool" where
  "emits_pair e h p \<longleftrightarrow> nghttp2_rcbuf_get_buf (hn_name e) h = Inr (fst p) \<and> nghttp2_rcbuf_get_buf (hn_value e) h = Inr (snd p)"

text \<open>How a case may end.\<close>

definition reads_value :: "nghttp2_hd_inflater \<Rightarrow> bool" where
  "reads_value ifl \<longleftrightarrow> if_state ifl = NGHTTP2_HD_STATE_READ_VALUEHUFF \<or> if_state ifl = NGHTTP2_HD_STATE_READ_VALUE"

definition between :: "nghttp2_hd_inflater \<Rightarrow> bool" where
  "between ifl \<longleftrightarrow> if_state ifl = NGHTTP2_HD_STATE_OPCODE \<and> if_namercbuf ifl = None \<and> if_valuercbuf ifl = None \<and> if_left ifl < 2 ^ 32"

definition step_ends :: "inflate_step \<Rightarrow> nghttp2_hd_inflater \<Rightarrow> bytes \<Rightarrow> rc_heap \<Rightarrow> owned multiset \<Rightarrow> hd_pair list \<Rightarrow> bool" where
  "step_ends st ifl inp h X T \<longleftrightarrow>
     (case st of
        Go busy \<Rightarrow> inflating ifl h X T \<and> (busy \<longrightarrow> reads_value ifl)
      | Almost_Ok \<Rightarrow> inflating ifl h X T \<and> inp = []
      | Failed rv \<Rightarrow> rv = NGHTTP2_ERR_HEADER_COMP \<or> rv = NGHTTP2_ERR_NOMEM
      | Emitted e \<Rightarrow> between ifl \<and> (\<exists>p. emits_pair e h p))"

definition step_ok :: "nghttp2_hd_inflater \<Rightarrow> bytes \<Rightarrow> rc_heap \<Rightarrow> owned multiset \<Rightarrow> inflate_result res \<Rightarrow> bool" where
  "step_ok ifl inp h X r \<longleftrightarrow>
     (\<exists>st ifl' k h' T'. r = Inr (st, ifl', drop k inp, h') \<and> inflater_owns ifl' h' X T' \<and> rc_same h h' X \<and>
        hc_bad (if_ctx ifl') = hc_bad (if_ctx ifl) \<and> if_settings_max ifl' = if_settings_max ifl \<and> step_ends st ifl' (drop k inp) h' X T')"

lemma step_okI:
  assumes "r = Inr (st, ifl', drop k inp, h')" "inflater_owns ifl' h' X T'" "rc_same h h' X"
    "hc_bad (if_ctx ifl') = hc_bad (if_ctx ifl)" "if_settings_max ifl' = if_settings_max ifl" "step_ends st ifl' (drop k inp) h' X T'"
  shows "step_ok ifl inp h X r"
  using assms unfolding step_ok_def by blast

lemmas step_okR = step_okI [OF refl]

lemma step_ok0:
  "inflater_owns ifl' h' X T' \<Longrightarrow> rc_same h h' X \<Longrightarrow> hc_bad (if_ctx ifl') = hc_bad (if_ctx ifl) \<Longrightarrow>
    if_settings_max ifl' = if_settings_max ifl \<Longrightarrow> step_ends st ifl' inp h' X T' \<Longrightarrow> step_ok ifl inp h X (Inr (st, ifl', inp, h'))"
  using step_okR [of ifl' h' X T' h ifl st 0 inp] by simp

section \<open>Every case\<close>

lemma inflatingD:
  assumes "inflating ifl h X T"
  shows "inflater_owns ifl h X T" "if_name_keep ifl = None" "if_value_keep ifl = None" "if_left ifl < 2 ^ 32" "inflate_shape ifl h T"
  using assms by (simp_all add: inflating_def)

lemma owns_put [simp]:
  "inflater_owns (ifl\<lparr>if_state := a\<rparr>) h X T = inflater_owns ifl h X T" "inflater_owns (ifl\<lparr>if_left := b\<rparr>) h X T = inflater_owns ifl h X T"
  "inflater_owns (ifl\<lparr>if_shift := c\<rparr>) h X T = inflater_owns ifl h X T" "inflater_owns (ifl\<lparr>if_opcode := d\<rparr>) h X T = inflater_owns ifl h X T"
  "inflater_owns (ifl\<lparr>if_index := e\<rparr>) h X T = inflater_owns ifl h X T" "inflater_owns (ifl\<lparr>if_huffman := f\<rparr>) h X T = inflater_owns ifl h X T"
  "inflater_owns (ifl\<lparr>if_index_required := g\<rparr>) h X T = inflater_owns ifl h X T" "inflater_owns (ifl\<lparr>if_no_index := i\<rparr>) h X T = inflater_owns ifl h X T"
  "inflater_owns (ifl\<lparr>if_huff := j\<rparr>) h X T = inflater_owns ifl h X T" "inflater_owns (ifl\<lparr>if_min := k\<rparr>) h X T = inflater_owns ifl h X T"
  "inflater_owns (ifl\<lparr>if_name_last := m\<rparr>) h X T = inflater_owns ifl h X T" "inflater_owns (ifl\<lparr>if_value_last := n\<rparr>) h X T = inflater_owns ifl h X T"
  by (simp_all add: inflater_owns_def if_refs_def)

lemma opcode_ok:
  assumes "inflating ifl h X T" "inp \<noteq> []" "if_namercbuf ifl = None" "if_valuercbuf ifl = None"
  shows "step_ok ifl inp h X (inflate_opcode ifl inp h)"
proof -
  obtain b inp' where b: "inp = b # inp'" using assms(2) by (cases inp) auto
  note own = inflatingD(1) [OF assms(1)] and keep = inflatingD(2,3) [OF assms(1)]
  have fail: "step_ok ifl inp h X (Inr (Failed NGHTTP2_ERR_HEADER_COMP, ifl, inp, h))"
    by (rule step_ok0 [where T' = T]) (use own in \<open>simp_all add: step_ends_def\<close>)
  have go: "step_ok ifl inp h X (Inr (Go False, ifl', drop k inp, h))"
    if "inflating ifl' h X T" "if_ctx ifl' = if_ctx ifl" "if_settings_max ifl' = if_settings_max ifl" for ifl' k
    by (rule step_okR [where T' = T]) (use that in \<open>simp_all add: step_ends_def inflating_def\<close>)
  let ?i = "\<lambda>opc st ir ni. ifl\<lparr>if_opcode := opc, if_state := st, if_index_required := ir, if_no_index := ni, if_left := 0, if_shift := 0\<rparr>"
  let ?j = "\<lambda>st. ifl\<lparr>if_opcode := NGHTTP2_HD_OPCODE_INDEXED, if_state := st, if_left := 0, if_shift := 0\<rparr>"
  have i: "inflating (?i NGHTTP2_HD_OPCODE_NEWNAME NGHTTP2_HD_STATE_NEWNAME_CHECK_NAMELEN ir ni) h X T"
    "inflating (?i NGHTTP2_HD_OPCODE_INDNAME NGHTTP2_HD_STATE_READ_INDEX ir ni) h X T"
    "inflating (?j NGHTTP2_HD_STATE_READ_TABLE_SIZE) h X T" "inflating (?j NGHTTP2_HD_STATE_READ_INDEX) h X T" for ir ni
    using own keep assms(3,4) by (simp_all add: inflating_def inflate_shape_def)
  show ?thesis
    using fail go [OF i(1), of _ _ 1] go [OF i(2), of _ _ 0] go [OF i(3), of 0] go [OF i(4), of 0]
    by (simp add: inflate_opcode_def b byte_at_def Let_def)
qed

lemma read_len_fails:
  assumes "inflater_owns ifl h X T"
  shows "step_ok ifl inp h X (Inr (Failed NGHTTP2_ERR_HEADER_COMP, ifl\<lparr>if_shift := sh\<rparr>, inp, h))"
  by (rule step_ok0 [where T' = T]) (use assms in \<open>simp_all add: step_ends_def\<close>)

text \<open>A number that is not complete takes all of the input.\<close>

lemma read_len_waits:
  assumes "inflating ifl h X T" "\<not> reads_value ifl" "if_state ifl \<noteq> NGHTTP2_HD_STATE_NEWNAME_READ_NAMEHUFF"
    "if_state ifl \<noteq> NGHTTP2_HD_STATE_NEWNAME_READ_NAME" "m < 2 ^ 32" "n = length inp"
  shows "step_ok ifl inp h X (Inr (Almost_Ok, ifl\<lparr>if_shift := sh, if_left := m\<rparr>, drop n inp, h))"
proof -
  have "inflate_shape (ifl\<lparr>if_shift := sh, if_left := m\<rparr>) h T"
    using assms(2-4) inflatingD(5) [OF assms(1)]
    by (auto simp: inflate_shape_def name_known_def reads_value_def split: nghttp2_hd_inflate_state.splits)
  then have "inflating (ifl\<lparr>if_shift := sh, if_left := m\<rparr>) h X T"
    using assms(1,5) by (simp add: inflating_def)
  then show ?thesis
    by (intro step_okR [where T' = T]) (use assms(6) in \<open>simp_all add: step_ends_def inflating_def\<close>)
qed

lemma table_size_ok:
  assumes "inflating ifl h X T" "inp \<noteq> []" "if_state ifl = NGHTTP2_HD_STATE_READ_TABLE_SIZE"
  shows "step_ok ifl inp h X (inflate_table_size ifl inp h)"
proof (cases rule: read_len_ok [OF assms(2), of ifl 5 "min (if_min ifl) (if_settings_max ifl)"])
  case (1 fin sh)
  then show ?thesis using read_len_fails [OF inflatingD(1) [OF assms(1)]] by (simp add: inflate_table_size_def)
next
  case (2 n fin sh m)
  show ?thesis
  proof (cases fin)
    case False
    then have "n = length inp" using 2(5) by simp
    then show ?thesis
      using 2 False read_len_waits [OF assms(1)] assms(3) by (simp add: inflate_table_size_def reads_value_def)
  next
    case True
    note own = inflatingD(1) [OF assms(1)]
    have bufs: "if_namercbuf ifl = None" "if_valuercbuf ifl = None" using inflatingD(5) [OF assms(1)] assms(3) by (simp_all add: inflate_shape_def)
    let ?c = "(if_ctx ifl)\<lparr>hc_bufsize_max := m\<rparr>"
    have "hd_table ?c None h (if_refs ifl + X) T"
      by (rule table_limit) (use own 2(4) in \<open>simp_all add: inflater_owns_def\<close>)
    from hd_table_shrink [OF this] obtain ctx hmap h' where s: "hd_context_shrink_table_size ?c None h = Inr (ctx, hmap, h')"
      "hd_table ctx hmap h' (if_refs ifl + X) (dt_fit m T)" "hc_bufsize_max ctx = m" "hc_bad ctx = hc_bad (if_ctx ifl)"
      "rc_same h h' (if_refs ifl + X)" "hmap = None" by auto
    let ?i = "ifl\<lparr>if_shift := sh, if_left := m, if_min := MAX_UINT32, if_ctx := ctx, if_state := NGHTTP2_HD_STATE_INFLATE_START\<rparr>"
    have eq: "inflate_table_size ifl inp h = Inr (Go False, ?i, drop n inp, h')"
      using 2(1) True s(1) by (simp add: inflate_table_size_def Let_def)
    have refs: "if_refs ?i = if_refs ifl" by (simp add: if_refs_def)
    have "m \<le> if_settings_max ifl" using 2(3) by simp
    then have o2: "inflater_owns ?i h' X (dt_fit m T)"
      using own s(2,3,6) refs dt_fit_size [of m T] by (simp add: inflater_owns_def)
    then have "inflating ?i h' X (dt_fit m T)"
      using inflatingD [OF assms(1)] 2(4) bufs by (simp add: inflating_def inflate_shape_def)
    then show ?thesis
      by (intro step_okI [OF eq o2 rc_same_mono [OF s(5)]]) (use s(4) in \<open>simp_all add: step_ends_def\<close>)
  qed
qed

lemma index_ok:
  assumes "inflating ifl h X T" "inp \<noteq> []" "if_state ifl = NGHTTP2_HD_STATE_READ_INDEX"
  shows "step_ok ifl inp h X (inflate_index ifl inp h)"
proof -
  let ?pfx = "if if_opcode ifl = NGHTTP2_HD_OPCODE_INDEXED then 7 else if if_index_required ifl then 6 else 4"
  note own = inflatingD(1) [OF assms(1)]
  have bufs: "if_namercbuf ifl = None" "if_valuercbuf ifl = None" "if_opcode ifl \<noteq> NGHTTP2_HD_OPCODE_NEWNAME"
    using inflatingD(5) [OF assms(1)] assms(3) by (simp_all add: inflate_shape_def)
  have tab: "hd_table (if_ctx ifl) None h (if_refs ifl + X) T" using own by (simp add: inflater_owns_def)
  show ?thesis
  proof (cases rule: read_len_ok [OF assms(2), of ifl ?pfx "get_max_index (if_ctx ifl)"])
    case (1 fin sh)
    then show ?thesis using read_len_fails [OF own] by (simp add: inflate_index_def Let_def)
  next
    case (2 n fin sh m)
    let ?i = "ifl\<lparr>if_shift := sh, if_left := m\<rparr>"
    show ?thesis
    proof (cases "fin \<and> m \<noteq> 0")
      case False
      have "step_ok ifl inp h X (Inr (Failed NGHTTP2_ERR_HEADER_COMP, ?i, drop n inp, h))"
        by (rule step_okR [where T' = T]) (use own in \<open>simp_all add: step_ends_def\<close>)
      then show ?thesis
        using 2 False read_len_waits [OF assms(1), of m n] assms(3) by (cases fin) (simp_all add: inflate_index_def Let_def reads_value_def)
    next
      case True
      have m: "m - 1 < 61 + length T" using 2(3) True hd_table_index [OF tab] by auto
      let ?j = "?i\<lparr>if_index := m - 1\<rparr>"
      show ?thesis
      proof (cases "if_opcode ifl = NGHTTP2_HD_OPCODE_INDEXED")
        case ind: True
        obtain nv where nv: "nghttp2_hd_table_get (if_ctx ifl) (m - 1) = Inr nv"
          "\<exists>R. if_refs ifl + X \<subseteq># R \<and> rc_ok h R \<and> (\<forall>p \<in> {hn_name nv, hn_value nv}. Held p \<in># R \<or> (\<exists>s. p = Rc_Static s))"
          by (rule hd_table_get [OF tab m])
        have "nghttp2_rcbuf_get_buf p h = Inr (rc_str h p)" if "p \<in> {hn_name nv, hn_value nv}" for p
          using nv(2) that rc_get_buf [of h _ p] readable_static [OF tab] by (metis rc_str_static)
        then have "emits_pair nv h (rc_str h (hn_name nv), rc_str h (hn_value nv))" by (simp add: emits_pair_def)
        moreover have "inflate_index ifl inp h = Inr (Emitted nv, ?j\<lparr>if_state := NGHTTP2_HD_STATE_OPCODE\<rparr>, drop n inp, h)"
          using 2(1) True ind nv(1) by (simp add: inflate_index_def hd_inflate_commit_indexed_def Let_def)
        moreover have "step_ok ifl inp h X (Inr (Emitted nv, ?j\<lparr>if_state := NGHTTP2_HD_STATE_OPCODE\<rparr>, drop n inp, h))"
          by (rule step_okR [where T' = T]) (use own bufs 2(4) calculation(1) in \<open>auto simp: step_ends_def between_def\<close>)
        ultimately show ?thesis by simp
      next
        case nam: False
        let ?l = "?j\<lparr>if_state := NGHTTP2_HD_STATE_CHECK_VALUELEN\<rparr>"
        have eq: "inflate_index ifl inp h = Inr (Go False, ?l, drop n inp, h)"
          using 2(1) True nam by (simp add: inflate_index_def Let_def)
        have "inflating ?l h X T"
          using inflatingD [OF assms(1)] 2(4) bufs m by (simp add: inflating_def inflate_shape_def name_known_def)
        then show ?thesis
          by (intro step_okI [OF eq, where T' = T]) (use own in \<open>simp_all add: step_ends_def\<close>)
      qed
    qed
  qed
qed

lemma string_new:
  assumes "hd_table ctx None h R T"
  obtains (none) h' where "nghttp2_rcbuf_new sz h = (NGHTTP2_ERR_NOMEM, None, h')" "hd_table ctx None h' R T" "rc_same h h' R"
  | (some) p h' where "nghttp2_rcbuf_new sz h = (0, Some p, h')" "hd_table ctx None h' (add_mset (Held p) R) T" "rc_same h h' R"
      "open_string h' (Some p) sz"
proof (cases rule: table_new [OF assms, of sz])
  case (1 h')
  then show ?thesis by (rule none)
next
  case (2 p h' r)
  then show ?thesis by (intro some [of p h']) (auto simp: open_string_def)
qed

lemma string_read:
  assumes "hd_table ctx None h (add_mset (Held p) R) T" "open_string h (Some p) (lst + c * if_left ifl + 1)" "reader_ok c reader ifl inp"
  obtains (fail) hf lst' h' where
      "with_string (Some p) lst (reader ifl inp) h = Inr ((NGHTTP2_ERR_HEADER_COMP, ifl\<lparr>if_huff := hf\<rparr>), lst', h')"
      "hd_table ctx None h' (add_mset (Held p) R) T" "rc_same h h' R"
  | (okay) k hf lst' h' where
      "with_string (Some p) lst (reader ifl inp) h = Inr ((int k, ifl\<lparr>if_huff := hf, if_left := if_left ifl - k\<rparr>), lst', h')"
      "hd_table ctx None h' (add_mset (Held p) R) T" "rc_same h h' R"
      "k \<le> length inp" "if_left ifl - k > 0 \<longrightarrow> k = length inp" "c = 2 \<longrightarrow> huff_live hf"
      "open_string h' (Some p) (lst' + c * (if_left ifl - k) + 1)"
proof -
  obtain r where r: "rc_get h p = Inr r" "rc_ref r = 1" "rc_len r \<le> length (rc_base r)" "lst + c * if_left ifl + 1 \<le> length (rc_base r)"
    using assms(2) by (auto simp: open_string_def)
  let ?b = "\<lparr>buf_block = Some (rc_base r), buf_pos = 0, buf_last = lst, buf_mark = 0\<rparr>"
  have cap: "nghttp2_buf_cap ?b = length (rc_base r)" by (simp add: nghttp2_buf_cap_def buf_store_def)
  have b: "buf_wf ?b \<and> buf_pos ?b = 0 \<and> buf_last ?b + c * if_left ifl + 1 \<le> nghttp2_buf_cap ?b"
    using r(4) cap by (simp add: buf_wf_def)
  let ?k = "min (length inp) (if_left ifl)"
  from assms(3) [unfolded reader_ok_def, rule_format, OF b] obtain rv hf out where
    rd: "reads_into (c * ?k) (reader ifl inp ?b) ?b
           (rv, ifl\<lparr>if_huff := hf, if_left := (if rv < 0 then if_left ifl else if_left ifl - ?k)\<rparr>) out"
    and rv: "rv = int ?k \<and> (c = 2 \<longrightarrow> huff_live hf) \<or> rv = NGHTTP2_ERR_HEADER_COMP" unfolding Let_def by blast
  have "lst \<le> length (rc_base r)" using r(4) by simp
  from with_string_ok [where f = "reader ifl inp", OF assms(1) r(1-3) this rd] obtain h' r' where
    w: "with_string (Some p) lst (reader ifl inp) h =
          Inr ((rv, ifl\<lparr>if_huff := hf, if_left := (if rv < 0 then if_left ifl else if_left ifl - ?k)\<rparr>), lst + length out, h')"
      "hd_table ctx None h' (add_mset (Held p) R) T" "rc_same h h' R" "rc_get h' p = Inr r'" "rc_ref r' = 1"
      "rc_len r' \<le> length (rc_base r')" "length (rc_base r') = length (rc_base r)" by metis
  have out: "length out \<le> c * ?k" using rd by (auto simp: reads_into_def)
  have "ifl\<lparr>if_huff := hf, if_left := if_left ifl\<rparr> = ifl\<lparr>if_huff := hf\<rparr>" by simp
  note same_left = this
  show ?thesis
  proof (cases "rv = NGHTTP2_ERR_HEADER_COMP")
    case True
    then show ?thesis using fail [of hf "lst + length out" h'] w(1-3) same_left by simp
  next
    case False
    have "c * ?k + c * (if_left ifl - ?k) = c * if_left ifl"
      by (simp add: add_mult_distrib2 [symmetric])
    then have "lst + length out + c * (if_left ifl - ?k) + 1 \<le> length (rc_base r')" using out r(4) w(7) by linarith
    then have "open_string h' (Some p) (lst + length out + c * (if_left ifl - ?k) + 1)"
      using w(4-6) by (auto simp: open_string_def)
    then show ?thesis using False rv w(1-3) by (intro okay [of ?k hf "lst + length out" h']) auto
  qed
qed

lemma string_close:
  assumes "hd_table ctx None h (add_mset (Held p) R) T" "open_string h (Some p) (lst + 1)"
  obtains h' where "close_string (Some p) lst h = Inr h'" "hd_table ctx None h' (add_mset (Held p) R) T" "rc_same h h' R"
proof -
  obtain r where r: "rc_get h p = Inr r" "rc_ref r = 1" "lst < length (rc_base r)"
    using assms(2) by (auto simp: open_string_def)
  from close_string_ok [OF assms(1) r] that show ?thesis by metis
qed

lemma huff_live_init [simp]: "huff_live nghttp2_hd_huff_decode_context_init"
  unfolding huff_live_def using huff_ok_init by blast

lemma set_huffman:
  assumes "inp \<noteq> []"
  shows "hd_inflate_set_huffman_encoded ifl inp = Inr (ifl\<lparr>if_huffman := (hd inp AND push_bit 7 1 \<noteq> 0)\<rparr>)"
  using assms by (cases inp) (simp_all add: hd_inflate_set_huffman_encoded_def byte_at_def)

lemma step_ok_from:
  "step_ok ifl' inp h X r \<Longrightarrow> if_ctx ifl' = if_ctx ifl \<Longrightarrow> if_settings_max ifl' = if_settings_max ifl \<Longrightarrow> step_ok ifl inp h X r"
  by (simp add: step_ok_def)

lemma name_len_ok:
  assumes "inflating ifl h X T" "inp \<noteq> []" "if_state ifl = NGHTTP2_HD_STATE_NEWNAME_READ_NAMELEN"
  shows "step_ok ifl inp h X (inflate_name_len ifl inp h)"
proof (cases rule: read_len_ok [OF assms(2), of ifl 7 NGHTTP2_HD_MAX_NV])
  case (1 fin sh)
  then show ?thesis using read_len_fails [OF inflatingD(1) [OF assms(1)]] by (simp add: inflate_name_len_def)
next
  case (2 n fin sh m)
  note own = inflatingD(1) [OF assms(1)]
  have bufs: "if_namercbuf ifl = None" "if_valuercbuf ifl = None" "if_opcode ifl = NGHTTP2_HD_OPCODE_NEWNAME"
    using inflatingD(5) [OF assms(1)] assms(3) by (simp_all add: inflate_shape_def)
  have X: "if_refs ifl + X = X" using bufs inflatingD(2,3) [OF assms(1)] by (simp add: if_refs_def)
  then have tab: "hd_table (if_ctx ifl) None h X T" using own by (simp add: inflater_owns_def)
  show ?thesis
  proof (cases fin)
    case False
    then have "n = length inp" using 2(5) by simp
    then show ?thesis
      using 2 False read_len_waits [OF assms(1)] assms(3) by (simp add: inflate_name_len_def reads_value_def)
  next
    case True
    let ?sz = "if if_huffman ifl then m * 2 + 1 else m + 1"
    let ?i = "if if_huffman ifl
      then ifl\<lparr>if_shift := sh, if_left := m, if_huff := nghttp2_hd_huff_decode_context_init, if_state := NGHTTP2_HD_STATE_NEWNAME_READ_NAMEHUFF\<rparr>
      else ifl\<lparr>if_shift := sh, if_left := m, if_state := NGHTTP2_HD_STATE_NEWNAME_READ_NAME\<rparr>"
    show ?thesis
    proof (cases rule: string_new [OF tab, of ?sz])
      case n: (1 h')
      have "inflate_name_len ifl inp h = Inr (Failed NGHTTP2_ERR_NOMEM, ?i, drop n inp, h')"
        using 2(1) True n(1) by (cases "if_huffman ifl") (simp_all add: inflate_name_len_def Let_def)
      moreover have "inflater_owns ?i h' X T" using own n(2) X by (simp add: inflater_owns_def if_refs_def)
      ultimately show ?thesis
        by (rule step_okI) (use n(3) in \<open>simp_all add: step_ends_def\<close>)
    next
      case s: (2 p h')
      let ?j = "?i\<lparr>if_namercbuf := Some p, if_name_last := 0\<rparr>"
      have eq: "inflate_name_len ifl inp h = Inr (Go False, ?j, drop n inp, h')"
        using 2(1) True s(1) by (cases "if_huffman ifl") (simp_all add: inflate_name_len_def Let_def)
      have o2: "inflater_owns ?j h' X T" using own s(2) bufs inflatingD(2,3) [OF assms(1)] by (simp add: inflater_owns_def if_refs_def)
      have "inflate_shape ?j h' T" using s(4) bufs by (cases "if_huffman ifl") (simp_all add: inflate_shape_def mult.commute)
      then have "inflating ?j h' X T" using o2 2(4) inflatingD(2,3) [OF assms(1)] by (simp add: inflating_def)
      then show ?thesis
        by (intro step_okI [OF eq o2 s(3)]) (simp_all add: step_ends_def)
    qed
  qed
qed

lemma check_name_len_ok:
  assumes "inflating ifl h X T" "inp \<noteq> []" "if_state ifl = NGHTTP2_HD_STATE_NEWNAME_CHECK_NAMELEN"
  shows "step_ok ifl inp h X (inflate_check_name_len ifl inp h)"
proof -
  let ?i = "ifl\<lparr>if_huffman := (hd inp AND push_bit 7 1 \<noteq> 0), if_state := NGHTTP2_HD_STATE_NEWNAME_READ_NAMELEN, if_left := 0, if_shift := 0\<rparr>"
  have "inflating ?i h X T" using assms(1,3) by (simp add: inflating_def inflate_shape_def)
  from name_len_ok [OF this assms(2)] have "step_ok ifl inp h X (inflate_name_len ?i inp h)"
    by (rule step_ok_from) simp_all
  then show ?thesis using set_huffman [OF assms(2)] by (simp add: inflate_check_name_len_def)
qed

lemma value_len_ok:
  assumes "inflating ifl h X T" "inp \<noteq> []" "if_state ifl = NGHTTP2_HD_STATE_READ_VALUELEN"
  shows "step_ok ifl inp h X (inflate_value_len ifl inp h)"
proof (cases rule: read_len_ok [OF assms(2), of ifl 7 NGHTTP2_HD_MAX_NV])
  case (1 fin sh)
  then show ?thesis using read_len_fails [OF inflatingD(1) [OF assms(1)]] by (simp add: inflate_value_len_def)
next
  case (2 n fin sh m)
  note own = inflatingD(1) [OF assms(1)]
  have bufs: "if_valuercbuf ifl = None" "name_known ifl T"
    using inflatingD(5) [OF assms(1)] assms(3) by (simp_all add: inflate_shape_def)
  have tab: "hd_table (if_ctx ifl) None h (if_refs ifl + X) T" using own by (simp add: inflater_owns_def)
  show ?thesis
  proof (cases fin)
    case False
    then have "n = length inp" using 2(5) by simp
    then show ?thesis
      using 2 False read_len_waits [OF assms(1)] assms(3) by (simp add: inflate_value_len_def reads_value_def)
  next
    case True
    let ?sz = "if if_huffman ifl then m * 2 + 1 else m + 1"
    let ?i = "if if_huffman ifl
      then ifl\<lparr>if_shift := sh, if_left := m, if_huff := nghttp2_hd_huff_decode_context_init, if_state := NGHTTP2_HD_STATE_READ_VALUEHUFF\<rparr>
      else ifl\<lparr>if_shift := sh, if_left := m, if_state := NGHTTP2_HD_STATE_READ_VALUE\<rparr>"
    show ?thesis
    proof (cases rule: string_new [OF tab, of ?sz])
      case n: (1 h')
      have "inflate_value_len ifl inp h = Inr (Failed NGHTTP2_ERR_NOMEM, ?i, drop n inp, h')"
        using 2(1) True n(1) by (cases "if_huffman ifl") (simp_all add: inflate_value_len_def Let_def)
      moreover have "inflater_owns ?i h' X T" using own n(2) by (simp add: inflater_owns_def if_refs_def)
      moreover have "rc_same h h' X" by (rule rc_same_mono [OF n(3)]) simp
      ultimately show ?thesis
        by (rule step_okI) (simp_all add: step_ends_def)
    next
      case s: (2 p h')
      let ?j = "?i\<lparr>if_valuercbuf := Some p, if_value_last := 0\<rparr>"
      have eq: "inflate_value_len ifl inp h = Inr (Go True, ?j, drop n inp, h')"
        using 2(1) True s(1) by (cases "if_huffman ifl") (simp_all add: inflate_value_len_def Let_def)
      have "if_refs ?j = add_mset (Held p) (if_refs ifl)" using bufs by (simp add: if_refs_def)
      then have o2: "inflater_owns ?j h' X T" using own s(2) by (simp add: inflater_owns_def)
      have "inflate_shape ?j h' T" using s(4) bufs by (cases "if_huffman ifl") (simp_all add: inflate_shape_def name_known_def mult.commute)
      then have inf2: "inflating ?j h' X T" using o2 2(4) inflatingD(2,3) [OF assms(1)] by (simp add: inflating_def)
      have "rc_same h h' X" by (rule rc_same_mono [OF s(3)]) simp
      then show ?thesis
        by (intro step_okI [OF eq o2]) (use inf2 in \<open>simp_all add: step_ends_def reads_value_def\<close>)
    qed
  qed
qed

lemma check_value_len_ok:
  assumes "inflating ifl h X T" "inp \<noteq> []" "if_state ifl = NGHTTP2_HD_STATE_CHECK_VALUELEN"
  shows "step_ok ifl inp h X (inflate_check_value_len ifl inp h)"
proof -
  let ?i = "ifl\<lparr>if_huffman := (hd inp AND push_bit 7 1 \<noteq> 0), if_state := NGHTTP2_HD_STATE_READ_VALUELEN, if_left := 0, if_shift := 0\<rparr>"
  have "inflating ?i h X T" using assms(1,3) by (simp add: inflating_def inflate_shape_def name_known_def)
  from value_len_ok [OF this assms(2)] have "step_ok ifl inp h X (inflate_value_len ?i inp h)"
    by (rule step_ok_from) simp_all
  then show ?thesis using set_huffman [OF assms(2)] by (simp add: inflate_check_value_len_def)
qed

lemma name_ok:
  assumes "inflating ifl h X T" "if_state ifl = (if c = 2 then NGHTTP2_HD_STATE_NEWNAME_READ_NAMEHUFF else NGHTTP2_HD_STATE_NEWNAME_READ_NAME)"
    "if_opcode ifl = NGHTTP2_HD_OPCODE_NEWNAME" "if_valuercbuf ifl = None" "if_namercbuf ifl = Some p"
    "open_string h (Some p) (if_name_last ifl + c * if_left ifl + 1)" "reader_ok c reader ifl inp" "c = 1 \<or> c = 2"
  shows "step_ok ifl inp h X (inflate_name reader ifl inp h)"
proof -
  note own = inflatingD(1) [OF assms(1)] and keeps = inflatingD(2,3) [OF assms(1)]
  have tab: "hd_table (if_ctx ifl) None h (add_mset (Held p) X) T" and lim: "dt_size T \<le> hc_bufsize_max (if_ctx ifl)"
      "hc_bufsize_max (if_ctx ifl) \<le> if_settings_max ifl" "if_settings_max ifl \<le> MAX_UINT32"
    using own keeps assms(4,5) by (simp_all add: inflater_owns_def if_refs_def)
  have refs: "if_refs (ifl\<lparr>if_huff := hf, if_left := l, if_name_last := lst, if_state := st\<rparr>) + X = add_mset (Held p) X" for hf l lst st
    using keeps assms(4,5) by (simp add: if_refs_def)
  have own2: "inflater_owns (ifl\<lparr>if_huff := hf, if_left := l, if_name_last := lst, if_state := st\<rparr>) h2 X T"
    if "hd_table (if_ctx ifl) None h2 (add_mset (Held p) X) T" for hf l lst st h2
    using that lim unfolding inflater_owns_def refs by simp
  show ?thesis
  proof (cases rule: string_read [OF tab assms(6,7)])
    case (1 hf lst' h')
    let ?i = "ifl\<lparr>if_huff := hf, if_name_last := lst'\<rparr>"
    have eq: "inflate_name reader ifl inp h = Inr (Failed NGHTTP2_ERR_HEADER_COMP, ?i, drop 0 inp, h')"
      using 1(1) assms(5) by (simp add: inflate_name_def Let_def)
    have "inflater_owns ?i h' X T" using own2 [OF 1(2), where hf = hf and l = "if_left ifl" and lst = lst' and st = "if_state ifl"] by simp
    then show ?thesis by (rule step_okI [OF eq _ 1(3)]) (simp_all add: step_ends_def)
  next
    case (2 k hf lst' h')
    let ?l = "if_left ifl - k"
    let ?i = "ifl\<lparr>if_huff := hf, if_left := ?l, if_name_last := lst'\<rparr>"
    have o1: "inflater_owns ?i h' X T" using own2 [OF 2(2), where hf = hf and l = ?l and lst = lst' and st = "if_state ifl"] by simp
    show ?thesis
    proof (cases "0 < ?l")
      case True
      have eq: "inflate_name reader ifl inp h = Inr (Almost_Ok, ?i, drop k inp, h')"
        using 2(1) assms(5) True by (simp add: inflate_name_def Let_def)
      have "inflating ?i h' X T"
        using o1 assms(2-5,8) keeps 2(6,7) inflatingD(4) [OF assms(1)] by (auto simp: inflating_def inflate_shape_def)
      then show ?thesis by (intro step_okI [OF eq o1 2(3)]) (use 2(5) True in \<open>simp_all add: step_ends_def\<close>)
    next
      case False
      then have "open_string h' (Some p) (lst' + 1)" using 2(7) by simp
      from string_close [OF 2(2) this] obtain h2 where h2: "close_string (Some p) lst' h' = Inr h2"
        "hd_table (if_ctx ifl) None h2 (add_mset (Held p) X) T" "rc_same h' h2 X" by blast
      let ?j = "?i\<lparr>if_state := NGHTTP2_HD_STATE_CHECK_VALUELEN\<rparr>"
      have eq: "inflate_name reader ifl inp h = Inr (Go False, ?j, drop k inp, h2)"
        using 2(1) assms(5) False h2(1) by (simp add: inflate_name_def Let_def)
      have o2: "inflater_owns ?j h2 X T" by (rule own2 [OF h2(2)])
      have "inflating ?j h2 X T"
        using o2 assms(3-5) keeps inflatingD(4) [OF assms(1)] by (simp add: inflating_def inflate_shape_def name_known_def)
      moreover have "rc_same h h2 X" by (rule rc_same_trans [OF 2(3) h2(3)]) simp
      ultimately show ?thesis by (intro step_okI [OF eq o2]) (simp_all add: step_ends_def)
    qed
  qed
qed

text \<open>The pair is committed when its value is complete.\<close>

lemma commit_ok:
  assumes own: "inflater_owns ifl h X T" and v: "if_valuercbuf ifl = Some v" and known: "name_known ifl T"
    and keeps: "if_name_keep ifl = None" "if_value_keep ifl = None" and left: "if_left ifl < 2 ^ 32"
  shows "step_ok ifl inp h X
    (res_bind (if if_opcode ifl = NGHTTP2_HD_OPCODE_NEWNAME then hd_inflate_commit_newname ifl h else hd_inflate_commit_indname ifl h)
      (\<lambda>(rv1, nv, ifl2, h3). case nv of None \<Rightarrow> Inr (Failed rv1, ifl2, drop k inp, h3)
         | Some e \<Rightarrow> Inr (Emitted e, ifl2\<lparr>if_state := NGHTTP2_HD_STATE_OPCODE\<rparr>, drop k inp, h3)))"
    (is "step_ok ifl inp h X (res_bind ?c ?f)")
proof -
  have failed: "step_ok ifl inp h X (Inr (Failed NGHTTP2_ERR_NOMEM, ifl\<lparr>if_ctx := ctx\<rparr>, drop k inp, h'))"
    if "inflater_owns (ifl\<lparr>if_ctx := ctx\<rparr>) h' X T'" "rc_same h h' X" "hc_bad ctx = hc_bad (if_ctx ifl)" for ctx h' T'
    by (rule step_okR [OF that(1,2)]) (use that(3) in \<open>simp_all add: step_ends_def\<close>)
  have emitted: "step_ok ifl inp h X (Inr (Emitted e, ifl'\<lparr>if_state := NGHTTP2_HD_STATE_OPCODE\<rparr>, drop k inp, h'))"
    if "inflater_owns ifl' h' X T'" "rc_same h h' X" "hc_bad (if_ctx ifl') = hc_bad (if_ctx ifl)" "if_settings_max ifl' = if_settings_max ifl"
      "if_name_keep ifl' = Some (hn_name e)" "if_value_keep ifl' = Some (hn_value e)" "if_namercbuf ifl' = None" "if_valuercbuf ifl' = None"
      "if_left ifl' = if_left ifl" for ifl' h' T' e
  proof -
    have tab: "hd_table (if_ctx ifl') None h' (add_mset (Held (hn_name e)) (add_mset (Held (hn_value e)) X)) T'"
      using that(1,5-8) by (simp add: inflater_owns_def if_refs_def add_mset_commute)
    have "emits_pair e h' (rc_str h' (hn_name e), rc_str h' (hn_value e))"
      using readable [OF tab] by (simp add: emits_pair_def)
    then show ?thesis
      by (intro step_okR [where T' = T']) (use that left in \<open>auto simp: step_ends_def between_def\<close>)
  qed
  show ?thesis
  proof (cases "if_opcode ifl = NGHTTP2_HD_OPCODE_NEWNAME")
    case True
    then obtain n where n: "if_namercbuf ifl = Some n" using known by (auto simp: name_known_def)
    show ?thesis
    proof (cases rule: commit_newname_ok [OF own n v keeps])
      case (1 ctx h' T')
      then show ?thesis using True failed by simp
    next
      case (2 ctx h' T' e)
      show ?thesis using True 2(1,7,8) emitted [OF 2(2,3), of e] 2(4) by simp
    qed
  next
    case False
    then have n: "if_namercbuf ifl = None" "if_index ifl < 61 + length T" using known by (simp_all add: name_known_def)
    show ?thesis
    proof (cases rule: commit_indname_ok [OF own n(1) v keeps n(2)])
      case (1 ctx h' T')
      then show ?thesis using False failed by simp
    next
      case (2 ctx h' T' e)
      show ?thesis using False 2(1,7) emitted [OF 2(2,3), of e] 2(4) n by simp
    qed
  qed
qed

lemma value_ok:
  assumes "inflating ifl h X T" "if_state ifl = (if c = 2 then NGHTTP2_HD_STATE_READ_VALUEHUFF else NGHTTP2_HD_STATE_READ_VALUE)"
    "name_known ifl T" "if_valuercbuf ifl = Some p"
    "open_string h (Some p) (if_value_last ifl + c * if_left ifl + 1)" "reader_ok c reader ifl inp" "c = 1 \<or> c = 2"
  shows "step_ok ifl inp h X (inflate_value reader ifl inp h)"
proof -
  note own = inflatingD(1) [OF assms(1)] and keeps = inflatingD(2,3) [OF assms(1)]
  let ?R = "opt_ref (if_namercbuf ifl) + X"
  have refs: "if_refs (ifl\<lparr>if_huff := hf, if_left := l, if_value_last := lst\<rparr>) + X = add_mset (Held p) ?R" for hf l lst
    using keeps assms(4) by (simp add: if_refs_def)
  have tab: "hd_table (if_ctx ifl) None h (add_mset (Held p) ?R) T" and lim: "dt_size T \<le> hc_bufsize_max (if_ctx ifl)"
      "hc_bufsize_max (if_ctx ifl) \<le> if_settings_max ifl" "if_settings_max ifl \<le> MAX_UINT32"
    using own refs [where hf = "if_huff ifl" and l = "if_left ifl" and lst = "if_value_last ifl"] by (simp_all add: inflater_owns_def)
  have own2: "inflater_owns (ifl\<lparr>if_huff := hf, if_left := l, if_value_last := lst\<rparr>) h2 X T"
    if "hd_table (if_ctx ifl) None h2 (add_mset (Held p) ?R) T" for hf l lst h2
    using that lim unfolding inflater_owns_def refs by simp
  have sub: "X \<subseteq># ?R" by simp
  show ?thesis
  proof (cases rule: string_read [OF tab assms(5,6)])
    case (1 hf lst' h')
    let ?i = "ifl\<lparr>if_huff := hf, if_value_last := lst'\<rparr>"
    have eq: "inflate_value reader ifl inp h = Inr (Failed NGHTTP2_ERR_HEADER_COMP, ?i, drop 0 inp, h')"
      using 1(1) assms(4) by (simp add: inflate_value_def Let_def)
    have "inflater_owns ?i h' X T" using own2 [OF 1(2), where hf = hf and l = "if_left ifl" and lst = lst'] by simp
    then show ?thesis by (rule step_okI [OF eq _ rc_same_mono [OF 1(3) sub]]) (simp_all add: step_ends_def)
  next
    case (2 k hf lst' h')
    let ?l = "if_left ifl - k"
    let ?i = "ifl\<lparr>if_huff := hf, if_left := ?l, if_value_last := lst'\<rparr>"
    have o1: "inflater_owns ?i h' X T" by (rule own2 [OF 2(2)])
    have known: "name_known ?i T" using assms(3) by (simp add: name_known_def)
    show ?thesis
    proof (cases "0 < ?l")
      case True
      have eq: "inflate_value reader ifl inp h = Inr (Almost_Ok, ?i, drop k inp, h')"
        using 2(1) assms(4) True by (simp add: inflate_value_def Let_def)
      have "inflating ?i h' X T"
        using o1 assms(2,4,7) known keeps 2(6,7) inflatingD(4) [OF assms(1)] by (auto simp: inflating_def inflate_shape_def)
      then show ?thesis by (intro step_okI [OF eq o1 rc_same_mono [OF 2(3) sub]]) (use 2(5) True in \<open>simp_all add: step_ends_def\<close>)
    next
      case False
      then have "open_string h' (Some p) (lst' + 1)" using 2(7) by simp
      from string_close [OF 2(2) this] obtain h2 where h2: "close_string (Some p) lst' h' = Inr h2"
        "hd_table (if_ctx ifl) None h2 (add_mset (Held p) ?R) T" "rc_same h' h2 ?R" by blast
      let ?c = "res_bind (if if_opcode ?i = NGHTTP2_HD_OPCODE_NEWNAME then hd_inflate_commit_newname ?i h2 else hd_inflate_commit_indname ?i h2)
        (\<lambda>(rv1, nv, ifl2, h3). case nv of None \<Rightarrow> Inr (Failed rv1, ifl2, drop (nat (int k)) inp, h3)
           | Some e \<Rightarrow> Inr (Emitted e, ifl2\<lparr>if_state := NGHTTP2_HD_STATE_OPCODE\<rparr>, drop (nat (int k)) inp, h3))"
      have eq: "inflate_value reader ifl inp h = ?c"
        using 2(1) assms(4) False h2(1) by (simp add: inflate_value_def Let_def)
      have "step_ok ?i inp h2 X ?c"
        by (rule commit_ok [OF own2 [OF h2(2)] _ known]) (use assms(4) keeps inflatingD(4) [OF assms(1)] in simp_all)
      moreover have "rc_same h h2 X" using rc_same_trans [OF 2(3) h2(3)] rc_same_mono [OF _ sub] by blast
      ultimately show ?thesis unfolding eq step_ok_def using rc_same_trans [of h h2 X _ X] by fastforce
    qed
  qed
qed

lemma case_ok:
  assumes "inflating ifl h X T" "inp \<noteq> [] \<or> reads_value ifl"
  shows "step_ok ifl inp h X (inflate_case ifl inp h)"
proof (cases "if_state ifl")
  case NGHTTP2_HD_STATE_NEWNAME_READ_NAMEHUFF
  with inflatingD(5) [OF assms(1)] obtain p where "if_opcode ifl = NGHTTP2_HD_OPCODE_NEWNAME" "if_valuercbuf ifl = None"
    "huff_live (if_huff ifl)" "if_namercbuf ifl = Some p" "open_string h (Some p) (if_name_last ifl + 2 * if_left ifl + 1)"
    by (auto simp: inflate_shape_def open_string_def)
  then show ?thesis
    using name_ok [OF assms(1), of 2 p hd_inflate_read_huff inp] read_coded_ok [OF inflatingD(4) [OF assms(1)]] NGHTTP2_HD_STATE_NEWNAME_READ_NAMEHUFF
    by (simp add: inflate_case_def)
next
  case NGHTTP2_HD_STATE_NEWNAME_READ_NAME
  with inflatingD(5) [OF assms(1)] obtain p where "if_opcode ifl = NGHTTP2_HD_OPCODE_NEWNAME" "if_valuercbuf ifl = None"
    "if_namercbuf ifl = Some p" "open_string h (Some p) (if_name_last ifl + if_left ifl + 1)"
    by (auto simp: inflate_shape_def open_string_def)
  then show ?thesis
    using name_ok [OF assms(1), of 1 p hd_inflate_read inp] read_raw_ok [OF inflatingD(4) [OF assms(1)]] NGHTTP2_HD_STATE_NEWNAME_READ_NAME
    by (simp add: inflate_case_def)
next
  case NGHTTP2_HD_STATE_READ_VALUEHUFF
  with inflatingD(5) [OF assms(1)] obtain p where "name_known ifl T"
    "huff_live (if_huff ifl)" "if_valuercbuf ifl = Some p" "open_string h (Some p) (if_value_last ifl + 2 * if_left ifl + 1)"
    by (auto simp: inflate_shape_def open_string_def)
  then show ?thesis
    using value_ok [OF assms(1), of 2 p hd_inflate_read_huff inp] read_coded_ok [OF inflatingD(4) [OF assms(1)]] NGHTTP2_HD_STATE_READ_VALUEHUFF
    by (simp add: inflate_case_def)
next
  case NGHTTP2_HD_STATE_READ_VALUE
  with inflatingD(5) [OF assms(1)] obtain p where "name_known ifl T"
    "if_valuercbuf ifl = Some p" "open_string h (Some p) (if_value_last ifl + if_left ifl + 1)"
    by (auto simp: inflate_shape_def open_string_def)
  then show ?thesis
    using value_ok [OF assms(1), of 1 p hd_inflate_read inp] read_raw_ok [OF inflatingD(4) [OF assms(1)]] NGHTTP2_HD_STATE_READ_VALUE
    by (simp add: inflate_case_def)
qed (use assms opcode_ok [OF assms(1), of inp] table_size_ok [OF assms(1), of inp] index_ok [OF assms(1), of inp] name_len_ok [OF assms(1), of inp]
      check_name_len_ok [OF assms(1), of inp] value_len_ok [OF assms(1), of inp] check_value_len_ok [OF assms(1), of inp]
      inflatingD(5) [OF assms(1)] in \<open>simp_all add: inflate_case_def reads_value_def inflate_shape_def\<close>)

section \<open>A call\<close>

text \<open>
  Between calls the pair of the last one is kept, and only in front of a field. After an
  error nothing is known but what must be given back.
\<close>

definition inflater_ready :: "nghttp2_hd_inflater \<Rightarrow> rc_heap \<Rightarrow> owned multiset \<Rightarrow> hd_pair list \<Rightarrow> bool" where
  "inflater_ready ifl h X T \<longleftrightarrow>
     inflater_owns ifl h X T \<and>
     (if hc_bad (if_ctx ifl) then True
      else if_left ifl < 2 ^ 32 \<and> inflate_shape ifl h T \<and>
        (if if_name_keep ifl = None \<and> if_value_keep ifl = None then True else if_state ifl = NGHTTP2_HD_STATE_OPCODE))"

definition call_ok ::
  "nghttp2_hd_inflater \<Rightarrow> nat \<Rightarrow> rc_heap \<Rightarrow> owned multiset \<Rightarrow> (int \<times> int \<times> nghttp2_hd_nv option \<times> nghttp2_hd_inflater \<times> rc_heap) res \<Rightarrow> bool" where
  "call_ok ifl inlen h X r \<longleftrightarrow>
     (\<exists>rv flags nv ifl' h' T'. r = Inr (rv, flags, nv, ifl', h') \<and> inflater_ready ifl' h' X T' \<and> rc_same h h' X \<and>
        if_settings_max ifl' = if_settings_max ifl \<and>
        (if rv < 0 then (rv = NGHTTP2_ERR_HEADER_COMP \<or> rv = NGHTTP2_ERR_NOMEM) \<and> hc_bad (if_ctx ifl') \<and> nv = None
         else \<not> hc_bad (if_ctx ifl') \<and> rv \<le> int inlen \<and>
           (case nv of None \<Rightarrow> rv = int inlen | Some e \<Rightarrow> \<exists>p. emits_pair e h' p)))"

lemma ready_bad: "inflater_owns ifl h X T \<Longrightarrow> inflater_ready (ifl\<lparr>if_ctx := (if_ctx ifl)\<lparr>hc_bad := True\<rparr>\<rparr>) h X T"
  by (simp add: inflater_ready_def inflater_owns_def if_refs_def)

lemma inflating_ready: "inflating ifl h X T \<Longrightarrow> inflater_ready ifl h X T"
  by (simp add: inflating_def inflater_ready_def)

lemma call_okI:
  assumes "inflater_ready ifl' h' X T'" "rc_same h h' X" "if_settings_max ifl' = if_settings_max ifl"
    "if rv < 0 then (rv = NGHTTP2_ERR_HEADER_COMP \<or> rv = NGHTTP2_ERR_NOMEM) \<and> hc_bad (if_ctx ifl') \<and> nv = None
     else \<not> hc_bad (if_ctx ifl') \<and> rv \<le> int inlen \<and> (case nv of None \<Rightarrow> rv = int inlen | Some e \<Rightarrow> \<exists>p. emits_pair e h' p)"
  shows "call_ok ifl inlen h X (Inr (rv, flags, nv, ifl', h'))"
  unfolding call_ok_def using assms
  by (intro exI [of _ rv] exI [of _ flags] exI [of _ nv] exI [of _ ifl'] exI [of _ h'] exI [of _ T']) (intro conjI refl; assumption)

lemma fail_call:
  assumes "inflater_owns ifl' h' X T" "rc_same h h' X" "if_settings_max ifl' = if_settings_max ifl"
    "rv = NGHTTP2_ERR_HEADER_COMP \<or> rv = NGHTTP2_ERR_NOMEM"
  shows "call_ok ifl inlen h X (inflate_fail rv ifl' h')"
  unfolding inflate_fail_def
  by (rule call_okI [OF ready_bad [OF assms(1)] assms(2)])
    (use assms(3,4) in \<open>auto simp: NGHTTP2_ERR_HEADER_COMP_def NGHTTP2_ERR_NOMEM_def\<close>)

lemma call_ok_from:
  assumes "call_ok ifl1 inlen h1 X r" "rc_same h h1 X" "if_settings_max ifl1 = if_settings_max ifl"
  shows "call_ok ifl inlen h X r"
proof -
  from assms(1) obtain rv flags nv ifl' h' T' where r: "r = Inr (rv, flags, nv, ifl', h')" "inflater_ready ifl' h' X T'" "rc_same h1 h' X"
    "if_settings_max ifl' = if_settings_max ifl1"
    "if rv < 0 then (rv = NGHTTP2_ERR_HEADER_COMP \<or> rv = NGHTTP2_ERR_NOMEM) \<and> hc_bad (if_ctx ifl') \<and> nv = None
     else \<not> hc_bad (if_ctx ifl') \<and> rv \<le> int inlen \<and> (case nv of None \<Rightarrow> rv = int inlen | Some e \<Rightarrow> \<exists>p. emits_pair e h' p)"
    unfolding call_ok_def by blast
  have "rc_same h h' X" by (rule rc_same_trans [OF assms(2) r(3)]) simp
  then show ?thesis unfolding call_ok_def using r assms(3) by (intro exI [of _ rv] exI [of _ flags] exI [of _ nv] exI [of _ ifl'] exI [of _ h'] exI [of _ T']) simp
qed

lemma inflate_loop_ok:
  assumes "inflating ifl h X T" "busy \<longrightarrow> reads_value ifl" "length inp \<le> inlen" "inlen < 2 ^ 63" "\<not> hc_bad (if_ctx ifl)"
  shows "call_ok ifl inlen h X (inflate_loop inlen fin busy ifl inp h)"
  using assms
proof (induction inlen fin busy ifl inp h arbitrary: T rule: inflate_loop.induct)
  case (1 inlen fin busy ifl inp h)
  note own = inflatingD(1) [OF "1.prems"(1)]
  have size: "ssize_t_of n = int n" if "n \<le> inlen" for n using ssize_small [of n] that "1.prems"(4) by simp
  have calm: "call_ok ifl inlen h X (Inr (ssize_t_of inlen, flags, None, ifl, h))" for flags
    by (rule call_okI [OF inflating_ready [OF "1.prems"(1)]]) (use "1.prems"(5) size [of inlen] in simp_all)
  show ?case
  proof (cases "inp = [] \<and> \<not> busy")
    case True
    then show ?thesis
      using calm fail_call [OF own rc_same_refl refl] by (subst inflate_loop.simps) simp
  next
    case False
    then have more: "inp \<noteq> [] \<or> reads_value ifl" using "1.prems"(2) by auto
    from case_ok [OF "1.prems"(1) more] obtain st ifl1 k h1 T1 where s:
      "inflate_case ifl inp h = Inr (st, ifl1, drop k inp, h1)" "inflater_owns ifl1 h1 X T1" "rc_same h h1 X"
      "hc_bad (if_ctx ifl1) = hc_bad (if_ctx ifl)" "if_settings_max ifl1 = if_settings_max ifl" "step_ends st ifl1 (drop k inp) h1 X T1"
      unfolding step_ok_def by blast
    note loop = inflate_loop.simps [of inlen fin busy ifl inp h, unfolded if_not_P [OF False] s(1) sum.case prod.case]
    have len: "length (drop k inp) \<le> inlen" using "1.prems"(3) by simp
    show ?thesis
    proof (cases st)
      case (Go busy1)
      have "call_ok ifl1 inlen h1 X (inflate_loop inlen fin busy1 ifl1 (drop k inp) h1)"
        by (rule "1.IH" [OF False s(1) refl Go refl refl, of T1])
          (use s(4,6) Go len "1.prems"(4,5) in \<open>simp_all add: step_ends_def\<close>)
      then show ?thesis using call_ok_from s(3,5) Go loop by simp
    next
      case Almost_Ok
      then have i: "inflating ifl1 h1 X T1" "drop k inp = []" using s(6) by (simp_all add: step_ends_def)
      have "call_ok ifl inlen h X (Inr (ssize_t_of inlen, NGHTTP2_HD_INFLATE_NONE, None, ifl1, h1))"
        by (rule call_okI [OF inflating_ready [OF i(1)] s(3)]) (use s(4,5) "1.prems"(5) size [of inlen] in simp_all)
      then show ?thesis using fail_call [OF s(2,3,5)] loop Almost_Ok i(2) by simp
    next
      case (Failed rv)
      then show ?thesis using fail_call [OF s(2,3,5)] loop s(6) by (simp add: step_ends_def)
    next
      case (Emitted e)
      let ?n = "inlen - length (drop k inp)"
      have e: "between ifl1" "\<exists>p. emits_pair e h1 p" using s(6) Emitted by (simp_all add: step_ends_def)
      have "inflater_ready ifl1 h1 X T1"
        using s(2) e(1) by (simp add: inflater_ready_def between_def inflate_shape_def)
      then have "call_ok ifl inlen h X (Inr (ssize_t_of ?n, NGHTTP2_HD_INFLATE_EMIT, Some e, ifl1, h1))"
        by (rule call_okI [OF _ s(3)]) (use s(4,5) "1.prems"(5) e(2) size [of ?n] in simp_all)
      then show ?thesis using loop Emitted by simp
    qed
  qed
qed

lemma shape_keep [simp]: "inflate_shape (ifl\<lparr>if_value_keep := a, if_name_keep := b\<rparr>) h T = inflate_shape ifl h T"
  by (cases "if_state ifl") (simp_all add: inflate_shape_def name_known_def)

lemma table_decref_opt:
  assumes "hd_table ctx hmap h (opt_ref q + R) T"
  obtains h' where "nghttp2_rcbuf_decref q h = Inr h'" "hd_table ctx hmap h' R T" "rc_same h h' R" "q = None \<longrightarrow> h' = h"
proof (cases q)
  case None
  then show ?thesis using assms that [of h] by simp
next
  case (Some p)
  then have "hd_table ctx hmap h (add_mset (Held p) R) T" using assms by simp
  then obtain h' where "nghttp2_rcbuf_decref (Some p) h = Inr h'" "hd_table ctx hmap h' R T" "rc_same h h' R"
    by (rule table_decref)
  then show ?thesis using that [of h'] Some by simp
qed

lemma keep_free_ok:
  assumes "inflater_owns ifl h X T"
  obtains h' where "hd_inflate_keep_free ifl h = Inr (ifl\<lparr>if_value_keep := None, if_name_keep := None\<rparr>, h')"
    "inflater_owns (ifl\<lparr>if_value_keep := None, if_name_keep := None\<rparr>) h' X T" "rc_same h h' X"
    "if_name_keep ifl = None \<and> if_value_keep ifl = None \<longrightarrow> h' = h"
proof -
  let ?B = "opt_ref (if_namercbuf ifl) + opt_ref (if_valuercbuf ifl) + X"
  have tab: "hd_table (if_ctx ifl) None h (opt_ref (if_value_keep ifl) + (opt_ref (if_name_keep ifl) + ?B)) T"
    using assms by (simp add: inflater_owns_def if_refs_def ac_simps)
  obtain h1 where h1: "nghttp2_rcbuf_decref (if_value_keep ifl) h = Inr h1"
    "hd_table (if_ctx ifl) None h1 (opt_ref (if_name_keep ifl) + ?B) T" "rc_same h h1 (opt_ref (if_name_keep ifl) + ?B)"
    "if_value_keep ifl = None \<longrightarrow> h1 = h" by (rule table_decref_opt [OF tab])
  obtain h2 where h2: "nghttp2_rcbuf_decref (if_name_keep ifl) h1 = Inr h2"
    "hd_table (if_ctx ifl) None h2 ?B T" "rc_same h1 h2 ?B" "if_name_keep ifl = None \<longrightarrow> h2 = h1"
    by (rule table_decref_opt [OF h1(2)])
  have "rc_same h h2 ?B" by (rule rc_same_trans [OF rc_same_mono [OF h1(3)] h2(3)]) simp_all
  then have "rc_same h h2 X" by (rule rc_same_mono) simp
  moreover have "inflater_owns (ifl\<lparr>if_value_keep := None, if_name_keep := None\<rparr>) h2 X T"
    using h2(2) assms by (simp add: inflater_owns_def if_refs_def)
  ultimately show ?thesis
    by (intro that [of h2]) (use h1(1,4) h2(1,4) in \<open>simp_all add: hd_inflate_keep_free_def\<close>)
qed

lemma inflate_call_ok:
  assumes "inflater_ready ifl h X T" "length inp < 2 ^ 63"
  shows "call_ok ifl (length inp) h X (nghttp2_hd_inflate_hd_nv ifl inp fin h)"
proof (cases "hc_bad (if_ctx ifl)")
  case True
  show ?thesis
    unfolding nghttp2_hd_inflate_hd_nv_def if_P [OF True]
    by (rule call_okI [OF assms(1)]) (use True in \<open>simp_all add: NGHTTP2_ERR_HEADER_COMP_def\<close>)
next
  case False
  have own: "inflater_owns ifl h X T" using assms(1) by (simp add: inflater_ready_def)
  from keep_free_ok [OF own] obtain h' where k: "hd_inflate_keep_free ifl h = Inr (ifl\<lparr>if_value_keep := None, if_name_keep := None\<rparr>, h')"
    "inflater_owns (ifl\<lparr>if_value_keep := None, if_name_keep := None\<rparr>) h' X T" "rc_same h h' X"
    "if_name_keep ifl = None \<and> if_value_keep ifl = None \<longrightarrow> h' = h" by blast
  let ?i = "ifl\<lparr>if_value_keep := None, if_name_keep := None\<rparr>"
  have r: "if_left ifl < 2 ^ 32" "inflate_shape ifl h T"
    "if_name_keep ifl = None \<and> if_value_keep ifl = None \<or> if_state ifl = NGHTTP2_HD_STATE_OPCODE"
    using assms(1) False by (auto simp: inflater_ready_def split: if_splits)
  have "inflate_shape ?i h T" using r(2) by simp
  then have "inflate_shape ?i h' T" using r(3) k(4) by (auto simp: inflate_shape_def)
  then have "inflating ?i h' X T" using k(2) r(1) by (simp add: inflating_def)
  from inflate_loop_ok [OF this, of False inp "length inp" fin] assms(2) False
  have "call_ok ?i (length inp) h' X (inflate_loop (length inp) fin False ?i inp h')" by simp
  then show ?thesis using call_ok_from k(1,3) False by (simp add: nghttp2_hd_inflate_hd_nv_def)
qed

section \<open>A session of the inflater\<close>

text \<open>What the owner of an inflater does: feed it bytes, in any pieces, finish a block, change the limit.\<close>

datatype inflate_op = Feed bytes bool | Finish | Resize nat

fun inflate_run :: "nghttp2_hd_inflater \<Rightarrow> inflate_op list \<Rightarrow> rc_heap \<Rightarrow> (nghttp2_hd_inflater \<times> rc_heap) res" where
  "inflate_run ifl [] h = Inr (ifl, h)"
| "inflate_run ifl (Feed inp fin # ops) h =
     res_bind (nghttp2_hd_inflate_hd2 ifl inp fin h) (\<lambda>(rv, flags, pair, ifl1, h1). inflate_run ifl1 ops h1)"
| "inflate_run ifl (Finish # ops) h =
     (if if_state ifl = NGHTTP2_HD_STATE_OPCODE \<or> if_state ifl = NGHTTP2_HD_STATE_INFLATE_START then
        res_bind (nghttp2_hd_inflate_end_headers ifl h) (\<lambda>(rv, ifl1, h1). inflate_run ifl1 ops h1)
      else inflate_run ifl ops h)"
| "inflate_run ifl (Resize n # ops) h =
     res_bind (nghttp2_hd_inflate_change_table_size ifl n h) (\<lambda>(rv, ifl1, h1). inflate_run ifl1 ops h1)"

fun op_small :: "inflate_op \<Rightarrow> bool" where
  "op_small (Feed inp fin) \<longleftrightarrow> length inp < 2 ^ 63"
| "op_small Finish \<longleftrightarrow> True"
| "op_small (Resize n) \<longleftrightarrow> n \<le> MAX_UINT32"

lemma hd2_ok:
  assumes "inflater_ready ifl h X T" "length inp < 2 ^ 63"
  obtains rv flags pair ifl' h' T' where "nghttp2_hd_inflate_hd2 ifl inp fin h = Inr (rv, flags, pair, ifl', h')"
    "inflater_ready ifl' h' X T'" "rc_same h h' X" "if_settings_max ifl' = if_settings_max ifl"
    "if rv < 0 then rv = NGHTTP2_ERR_HEADER_COMP \<or> rv = NGHTTP2_ERR_NOMEM else rv \<le> int (length inp) \<and> (pair = None \<longrightarrow> rv = int (length inp))"
proof -
  from inflate_call_ok [OF assms, of fin] obtain rv flags nv ifl' h' T' where
    r: "nghttp2_hd_inflate_hd_nv ifl inp fin h = Inr (rv, flags, nv, ifl', h')" "inflater_ready ifl' h' X T'" "rc_same h h' X"
      "if_settings_max ifl' = if_settings_max ifl"
      "if rv < 0 then (rv = NGHTTP2_ERR_HEADER_COMP \<or> rv = NGHTTP2_ERR_NOMEM) \<and> hc_bad (if_ctx ifl') \<and> nv = None
       else \<not> hc_bad (if_ctx ifl') \<and> rv \<le> int (length inp) \<and> (case nv of None \<Rightarrow> rv = int (length inp) | Some e \<Rightarrow> \<exists>p. emits_pair e h' p)"
    unfolding call_ok_def by blast
  show ?thesis
  proof (cases "rv < 0 \<or> nv = None")
    case True
    then have "nghttp2_hd_inflate_hd2 ifl inp fin h = Inr (rv, flags, None, ifl', h')"
      using r(1) by (auto simp: nghttp2_hd_inflate_hd2_def)
    then show ?thesis by (rule that [OF _ r(2-4)]) (use r(5) True in \<open>auto split: if_splits\<close>)
  next
    case False
    then obtain e p where e: "nv = Some e" "emits_pair e h' p" using r(5) by auto
    have "nghttp2_hd_inflate_hd2 ifl inp fin h = Inr (rv, flags, Some (fst p, snd p, hn_flags e), ifl', h')"
      using r(1) False e by (simp add: nghttp2_hd_inflate_hd2_def emits_pair_def)
    then show ?thesis by (rule that [OF _ r(2-4)]) (use r(5) False in \<open>auto split: if_splits\<close>)
  qed
qed

lemma end_headers_ok:
  assumes "inflater_ready ifl h X T" "if_state ifl = NGHTTP2_HD_STATE_OPCODE \<or> if_state ifl = NGHTTP2_HD_STATE_INFLATE_START"
  obtains ifl' h' where "nghttp2_hd_inflate_end_headers ifl h = Inr (0, ifl', h')" "inflater_ready ifl' h' X T" "rc_same h h' X"
    "if_settings_max ifl' = if_settings_max ifl"
proof -
  have own: "inflater_owns ifl h X T" using assms(1) by (simp add: inflater_ready_def)
  let ?i = "ifl\<lparr>if_value_keep := None, if_name_keep := None\<rparr>"
  obtain h' where k: "hd_inflate_keep_free ifl h = Inr (?i, h')" "inflater_owns ?i h' X T" "rc_same h h' X"
    "if_name_keep ifl = None \<and> if_value_keep ifl = None \<longrightarrow> h' = h"
    by (rule keep_free_ok [OF own])
  let ?j = "?i\<lparr>if_state := NGHTTP2_HD_STATE_INFLATE_START\<rparr>"
  have eq: "nghttp2_hd_inflate_end_headers ifl h = Inr (0, ?j, h')" using k(1) by (simp add: nghttp2_hd_inflate_end_headers_def)
  have "inflater_ready ?j h' X T"
    using k(2) assms by (auto simp: inflater_ready_def inflate_shape_def)
  then show ?thesis by (rule that [OF eq _ k(3)]) simp
qed

lemma resize_ok:
  assumes "inflater_ready ifl h X T" "n \<le> MAX_UINT32"
  obtains rv ifl' h' T' where "nghttp2_hd_inflate_change_table_size ifl n h = Inr (rv, ifl', h')" "inflater_ready ifl' h' X T'" "rc_same h h' X"
proof (cases "if_state ifl \<noteq> NGHTTP2_HD_STATE_EXPECT_TABLE_SIZE \<and> if_state ifl \<noteq> NGHTTP2_HD_STATE_INFLATE_START")
  case True
  then have "nghttp2_hd_inflate_change_table_size ifl n h = Inr (NGHTTP2_ERR_INVALID_STATE, ifl, h)"
    by (simp add: nghttp2_hd_inflate_change_table_size_def)
  then show ?thesis by (rule that [OF _ assms(1)]) simp
next
  case False
  have own: "inflater_owns ifl h X T" using assms(1) by (simp add: inflater_ready_def)
  have calm: "hc_bad (if_ctx ifl) \<or> if_left ifl < 2 ^ 32 \<and> if_namercbuf ifl = None \<and> if_valuercbuf ifl = None \<and>
      if_name_keep ifl = None \<and> if_value_keep ifl = None"
    using assms(1) False by (auto simp: inflater_ready_def inflate_shape_def split: if_splits)
  show ?thesis
  proof (cases "n < hc_bufsize_max (if_ctx ifl)")
    case less: True
    let ?c = "(if_ctx ifl)\<lparr>hc_bufsize_max := n\<rparr>"
    have "hd_table ?c None h (if_refs ifl + X) T"
      by (rule table_limit) (use own assms(2) in \<open>simp_all add: inflater_owns_def MAX_UINT32_def\<close>)
    from hd_table_shrink [OF this] obtain ctx hmap h' where s: "hd_context_shrink_table_size ?c None h = Inr (ctx, hmap, h')"
      "hd_table ctx hmap h' (if_refs ifl + X) (dt_fit n T)" "hc_bufsize_max ctx = n" "hc_bad ctx = hc_bad (if_ctx ifl)"
      "rc_same h h' (if_refs ifl + X)" "hmap = None" by auto
    let ?i = "ifl\<lparr>if_settings_max := n, if_state := NGHTTP2_HD_STATE_EXPECT_TABLE_SIZE, if_min := n, if_ctx := ctx\<rparr>"
    have eq: "nghttp2_hd_inflate_change_table_size ifl n h = Inr (0, ?i, h')"
      unfolding nghttp2_hd_inflate_change_table_size_def if_not_P [OF False] using less s(1) by simp
    have "inflater_owns ?i h' X (dt_fit n T)"
      using s(2,3,6) assms(2) dt_fit_size [of n T] by (simp add: inflater_owns_def if_refs_def)
    then have "inflater_ready ?i h' X (dt_fit n T)"
      using calm s(4) by (auto simp: inflater_ready_def inflate_shape_def)
    then show ?thesis by (rule that [OF eq _ rc_same_mono [OF s(5)]]) simp
  next
    case more: False
    let ?i = "ifl\<lparr>if_settings_max := n\<rparr>"
    have eq: "nghttp2_hd_inflate_change_table_size ifl n h = Inr (0, ?i, h)"
      unfolding nghttp2_hd_inflate_change_table_size_def if_not_P [OF False] using more by simp
    have "inflater_owns ?i h X T" using own more assms(2) by (simp add: inflater_owns_def if_refs_def)
    then have "inflater_ready ?i h X T"
      using calm False by (auto simp: inflater_ready_def inflate_shape_def)
    then show ?thesis by (rule that [OF eq]) simp
  qed
qed

lemma inflate_run_ok:
  assumes "inflater_ready ifl h X T" "list_all op_small ops"
  obtains ifl' h' T' where "inflate_run ifl ops h = Inr (ifl', h')" "inflater_ready ifl' h' X T'" "rc_same h h' X"
  using assms
proof (induction ifl ops h arbitrary: T thesis rule: inflate_run.induct)
  case (1 ifl h)
  then show ?case by simp
next
  case (2 ifl inp fin ops h)
  have "length inp < 2 ^ 63" using "2.prems"(3) by simp
  from hd2_ok [OF "2.prems"(2) this] obtain rv flags pair ifl1 h1 T1 where
    r: "nghttp2_hd_inflate_hd2 ifl inp fin h = Inr (rv, flags, pair, ifl1, h1)" "inflater_ready ifl1 h1 X T1" "rc_same h h1 X" by metis
  obtain ifl2 h2 T2 where s: "inflate_run ifl1 ops h1 = Inr (ifl2, h2)" "inflater_ready ifl2 h2 X T2" "rc_same h1 h2 X"
    by (rule "2.IH" [OF r(1) refl refl refl refl _ r(2)]) (use "2.prems"(3) in simp_all)
  have "rc_same h h2 X" by (rule rc_same_trans [OF r(3) s(3)]) simp
  then show ?case by (intro "2.prems"(1) [OF _ s(2)]) (use r(1) s(1) in simp_all)
next
  case (3 ifl ops h)
  show ?case
  proof (cases "if_state ifl = NGHTTP2_HD_STATE_OPCODE \<or> if_state ifl = NGHTTP2_HD_STATE_INFLATE_START")
    case True
    obtain ifl1 h1 where r: "nghttp2_hd_inflate_end_headers ifl h = Inr (0, ifl1, h1)" "inflater_ready ifl1 h1 X T" "rc_same h h1 X"
      by (rule end_headers_ok [OF "3.prems"(2) True])
    obtain ifl2 h2 T2 where s: "inflate_run ifl1 ops h1 = Inr (ifl2, h2)" "inflater_ready ifl2 h2 X T2" "rc_same h1 h2 X"
      by (rule "3.IH"(1) [OF True r(1) refl refl _ r(2)]) (use "3.prems"(3) in simp_all)
    have "rc_same h h2 X" by (rule rc_same_trans [OF r(3) s(3)]) simp
    then show ?thesis by (intro "3.prems"(1) [OF _ s(2)]) (use r(1) s(1) True in simp_all)
  next
    case False
    show ?thesis by (rule "3.IH"(2) [OF False "3.prems"(1) "3.prems"(2)]) (use "3.prems"(3) False in simp_all)
  qed
next
  case (4 ifl n ops h)
  have "n \<le> MAX_UINT32" using "4.prems"(3) by simp
  then obtain rv ifl1 h1 T1 where r: "nghttp2_hd_inflate_change_table_size ifl n h = Inr (rv, ifl1, h1)" "inflater_ready ifl1 h1 X T1" "rc_same h h1 X"
    by (rule resize_ok [OF "4.prems"(2)])
  obtain ifl2 h2 T2 where s: "inflate_run ifl1 ops h1 = Inr (ifl2, h2)" "inflater_ready ifl2 h2 X T2" "rc_same h1 h2 X"
    by (rule "4.IH" [OF r(1) refl refl _ r(2)]) (use "4.prems"(3) in simp_all)
  have "rc_same h h2 X" by (rule rc_same_trans [OF r(3) s(3)]) simp
  then show ?case by (intro "4.prems"(1) [OF _ s(2)]) (use r(1) s(1) in simp_all)
qed

text \<open>A new inflater, and its end.\<close>

lemma inflate_init_ok:
  assumes "rc_ok h X"
  obtains (none) h' where "nghttp2_hd_inflate_init h = (NGHTTP2_ERR_NOMEM, None, h')" "rc_ok h' X" "rc_str h' = rc_str h"
  | (some) ifl h' where "nghttp2_hd_inflate_init h = (0, Some ifl, h')" "inflating ifl h' X []" "rc_str h' = rc_str h"
      "if_settings_max ifl = 4096" "hc_bufsize_max (if_ctx ifl) = 4096" "if_state ifl = NGHTTP2_HD_STATE_INFLATE_START"
      "hc_bad (if_ctx ifl) = False" "if_min ifl = MAX_UINT32"
proof (cases rule: hd_init [OF assms])
  case (1 h')
  then show ?thesis by (intro none [of h']) (simp_all add: nghttp2_hd_inflate_init_def)
next
  case (2 ctx h')
  obtain ifl where init: "nghttp2_hd_inflate_init h = (0, Some ifl, h')" and ifl: "if_ctx ifl = ctx" "if_namercbuf ifl = None"
      "if_valuercbuf ifl = None" "if_name_keep ifl = None" "if_value_keep ifl = None" "if_left ifl = 0" "if_settings_max ifl = 4096"
      "if_state ifl = NGHTTP2_HD_STATE_INFLATE_START" "if_min ifl = MAX_UINT32"
    using 2(1) by (simp add: nghttp2_hd_inflate_init_def NGHTTP2_HD_DEFAULT_MAX_BUFFER_SIZE_def)
  have "hd_table ctx None h' X []" using 2(2) by (simp add: hd_tableI)
  then have own: "inflater_owns ifl h' X []" using ifl 2(4) by (simp add: inflater_owns_def if_refs_def MAX_UINT32_def dt_size_def)
  have "inflating ifl h' X []" using own ifl by (simp add: inflating_def inflate_shape_def)
  then show ?thesis by (intro some [OF init]) (use 2 ifl in simp_all)
qed

lemma inflate_new_ok:
  assumes "rc_ok h X"
  obtains (none) h' where "nghttp2_hd_inflate_new h = Inr (NGHTTP2_ERR_NOMEM, None, h')" "rc_ok h' X" "rc_str h' = rc_str h"
  | (some) a ifl h' where "nghttp2_hd_inflate_new h = Inr (0, Some (a, ifl), h')" "inflating ifl h' (add_mset (Block a) X) []"
      "rc_str h' = rc_str h" "if_settings_max ifl = 4096" "hc_bufsize_max (if_ctx ifl) = 4096"
      "if_state ifl = NGHTTP2_HD_STATE_INFLATE_START" "hc_bad (if_ctx ifl) = False" "if_min ifl = MAX_UINT32"
proof (cases rule: hp_alloc_ok [OF assms(1), of SIZEOF_HD_INFLATER])
  case (1 h1)
  then show ?thesis by (intro none [of h1]) (simp_all add: nghttp2_hd_inflate_new_def nghttp2_hd_inflate_new2_def)
next
  case (2 a h1)
  note new = nghttp2_hd_inflate_new_def nghttp2_hd_inflate_new2_def 2(1)
  show ?thesis
  proof (cases rule: inflate_init_ok [OF 2(2)])
    case init: (1 h2)
    from hp_free_ok [OF init(2)] obtain h3 where h3: "hp_free a h2 = Inr h3" "rc_ok h3 X" "rc_str h3 = rc_str h2" by blast
    then show ?thesis using init(1,3) 2(3) by (intro none [of h3]) (simp_all add: new)
  next
    case init: (2 ifl h2)
    show ?thesis by (rule some [of a ifl h2]) (use init 2(3) in \<open>simp_all add: new\<close>)
  qed
qed

lemma inflate_free_ok:
  assumes "inflater_owns ifl h X T"
  obtains h' where "nghttp2_hd_inflate_free ifl h = Inr h'" "rc_ok h' X" "rc_same h h' X"
proof -
  let ?i = "ifl\<lparr>if_value_keep := None, if_name_keep := None\<rparr>"
  obtain h1 where k: "hd_inflate_keep_free ifl h = Inr (?i, h1)" "inflater_owns ?i h1 X T" "rc_same h h1 X"
    by (rule keep_free_ok [OF assms])
  have tab: "hd_table (if_ctx ifl) None h1 (opt_ref (if_valuercbuf ifl) + (opt_ref (if_namercbuf ifl) + X)) T"
    using k(2) by (simp add: inflater_owns_def if_refs_def ac_simps)
  obtain h2 where h2: "nghttp2_rcbuf_decref (if_valuercbuf ifl) h1 = Inr h2" "hd_table (if_ctx ifl) None h2 (opt_ref (if_namercbuf ifl) + X) T"
    "rc_same h1 h2 (opt_ref (if_namercbuf ifl) + X)" by (rule table_decref_opt [OF tab])
  obtain h3 where h3: "nghttp2_rcbuf_decref (if_namercbuf ifl) h2 = Inr h3" "hd_table (if_ctx ifl) None h3 X T" "rc_same h2 h3 X"
    by (rule table_decref_opt [OF h2(2)])
  obtain h4 where h4: "hd_context_free (if_ctx ifl) h3 = Inr h4" "rc_ok h4 X" "rc_same h3 h4 X"
    by (rule table_free [OF h3(2)])
  have "rc_same h h2 X" by (rule rc_same_trans [OF k(3) h2(3)]) simp
  then have "rc_same h h3 X" by (rule rc_same_trans [OF _ h3(3)]) simp
  then have "rc_same h h4 X" by (rule rc_same_trans [OF _ h4(3)]) simp
  then show ?thesis by (intro that [OF _ h4(2)]) (use k(1) h2(1) h3(1) h4(1) in \<open>simp_all add: nghttp2_hd_inflate_free_def\<close>)
qed

lemma inflate_del_ok:
  assumes "inflater_owns ifl h (add_mset (Block a) X) T"
  obtains h' where "nghttp2_hd_inflate_del a ifl h = Inr h'" "rc_ok h' X" "rc_same h h' X"
proof -
  obtain h1 where h1: "nghttp2_hd_inflate_free ifl h = Inr h1" "rc_ok h1 (add_mset (Block a) X)" "rc_same h h1 (add_mset (Block a) X)"
    by (rule inflate_free_ok [OF assms])
  from hp_free_ok [OF h1(2)] obtain h2 where h2: "hp_free a h1 = Inr h2" "rc_ok h2 X" "rc_str h2 = rc_str h1" by blast
  have "rc_same h h2 X" using h1(3) h2(3) by (simp add: rc_same_def)
  then show ?thesis using that [of h2] h1(1) h2(1,2) by (simp add: nghttp2_hd_inflate_del_def)
qed

text \<open>
  C10. Whatever bytes a peer sends, in whatever pieces, with blocks finished and limits changed in between,
  the inflater performs no undefined operation and returns, its table stays within the announced limit, and
  deleting it gives every string back.
\<close>

theorem inflate_safe:
  assumes "nghttp2_hd_inflate_new h = Inr (0, Some (a, ifl), h1)" "rc_ok h X" "list_all op_small ops"
  shows "\<exists>ifl' h2 h3. inflate_run ifl ops h1 = Inr (ifl', h2) \<and>
    nghttp2_hd_inflate_get_dynamic_table_size ifl' \<le> nghttp2_hd_inflate_get_max_dynamic_table_size ifl' \<and>
    nghttp2_hd_inflate_get_max_dynamic_table_size ifl' \<le> if_settings_max ifl' \<and>
    nghttp2_hd_inflate_del a ifl' h2 = Inr h3 \<and> rc_ok h3 X \<and> rc_same h h3 X"
proof -
  have new: "inflating ifl h1 (add_mset (Block a) X) []" "rc_str h1 = rc_str h"
    by (rule inflate_new_ok [OF assms(2)]; use assms(1) in simp)+
  obtain ifl' h2 T' where r: "inflate_run ifl ops h1 = Inr (ifl', h2)" "inflater_ready ifl' h2 (add_mset (Block a) X) T'"
    "rc_same h1 h2 (add_mset (Block a) X)"
    by (rule inflate_run_ok [OF inflating_ready [OF new(1)] assms(3)])
  have own: "inflater_owns ifl' h2 (add_mset (Block a) X) T'" using r(2) by (simp add: inflater_ready_def)
  obtain h3 where f: "nghttp2_hd_inflate_del a ifl' h2 = Inr h3" "rc_ok h3 X" "rc_same h2 h3 X"
    by (rule inflate_del_ok [OF own])
  have "hc_bufsize (if_ctx ifl') = dt_size T'" using own by (auto simp: inflater_owns_def dest: table_size)
  then have size: "nghttp2_hd_inflate_get_dynamic_table_size ifl' \<le> nghttp2_hd_inflate_get_max_dynamic_table_size ifl'"
      "nghttp2_hd_inflate_get_max_dynamic_table_size ifl' \<le> if_settings_max ifl'"
    using own by (simp_all add: inflater_owns_def nghttp2_hd_inflate_get_dynamic_table_size_def nghttp2_hd_inflate_get_max_dynamic_table_size_def)
  have "rc_same h h3 X"
    using r(3) f(3) new(2) by (simp add: rc_same_def)
  then show ?thesis using r(1) size f(1,2) by blast
qed

definition wit_inflater :: nghttp2_hd_inflater where
  "wit_inflater = (case nghttp2_hd_inflate_new wit_heap of Inr (rv, Some (a, i), h) \<Rightarrow> i)"

definition wit_inflater_addr :: nat where
  "wit_inflater_addr = (case nghttp2_hd_inflate_new wit_heap of Inr (rv, Some (a, i), h) \<Rightarrow> a)"

definition wit_inflater_heap :: rc_heap where
  "wit_inflater_heap = (case nghttp2_hd_inflate_new wit_heap of Inr (rv, i, h) \<Rightarrow> h)"

lemma wit_inflater_new: "nghttp2_hd_inflate_new wit_heap = Inr (0, Some (wit_inflater_addr, wit_inflater), wit_inflater_heap)"
  by (simp add: wit_inflater_def wit_inflater_addr_def wit_inflater_heap_def nghttp2_hd_inflate_new_def nghttp2_hd_inflate_new2_def nghttp2_hd_inflate_init_def
      hd_context_init_def hd_ringbuf_init_def hp_alloc_def wit_heap_def nghttp2_mem_malloc_def
      NGHTTP2_HD_DEFAULT_MAX_BUFFER_SIZE_def NGHTTP2_HD_ENTRY_OVERHEAD_def wit_size [simplified] Let_def)

text \<open>An indexed field, a new one in two pieces, the end of the block, no table any more, and a broken block.\<close>

theorem inflate_safe_witness:
  "\<exists>ifl h2 h3. inflate_run wit_inflater
      [Feed [0x82, 0x40, 0x01] False, Feed [0x78, 0x01, 0x31] False, Feed [0x01, 0x31] True, Feed [] True, Finish, Resize 0, Feed [0xff] True]
      wit_inflater_heap = Inr (ifl, h2) \<and>
    nghttp2_hd_inflate_del wit_inflater_addr ifl h2 = Inr h3 \<and> rc_ok h3 {#}"
  using inflate_safe [OF wit_inflater_new wit_ok,
      of "[Feed [0x82, 0x40, 0x01] False, Feed [0x78, 0x01, 0x31] False, Feed [0x01, 0x31] True, Feed [] True, Finish, Resize 0, Feed [0xff] True]"]
  by (auto simp: MAX_UINT32_def)

end
