(* ===== verification/Nghttp2_Hpack.thy ===== *)
theory Nghttp2_Hpack
  imports Nghttp2_Hd_Inflate
begin

text \<open>
  The two sides of HPACK together: what the deflater writes, the inflater reads, and their dynamic
  tables stay the same over a whole connection.
\<close>

unbundle bit_operations_syntax

section \<open>First bytes\<close>

lemma head_byte: "hd_int first n pfx = (first OR word_of_nat (min n (prefix_max pfx))) # tl (hd_int first n pfx)"
  by (simp add: hd_int_def min_def)

lemma prefix_max_values: "prefix_max 7 = 127" "prefix_max 6 = 63" "prefix_max 5 = 31" "prefix_max 4 = 15"
  by (simp_all add: prefix_max_def)

text \<open>What the inflater looks at in a first byte.\<close>

lemma index_bytes: "list_all (\<lambda>k. (0x80 OR word_of_nat k :: byte) AND 0xe0 \<noteq> 0x20 \<and> (0x80 OR word_of_nat k :: byte) AND 0x80 \<noteq> 0) [0..<128]"
  by code_simp

lemma size_bytes: "list_all (\<lambda>k. (0x20 OR word_of_nat k :: byte) AND 0xe0 = 0x20) [0..<32]"
  by code_simp

definition literal_byte :: "byte \<Rightarrow> bool \<Rightarrow> bool \<Rightarrow> bool" where
  "literal_byte b with_index never \<longleftrightarrow> b AND 0xe0 \<noteq> 0x20 \<and> b AND 0x80 = 0 \<and> (b AND 0x40 \<noteq> 0) = with_index \<and> (b AND 0xf0 = 0x10) = never"

lemma name_bytes:
  "list_all (\<lambda>k. literal_byte (0x40 OR word_of_nat k) True False \<and> (0x40 OR word_of_nat k :: byte) \<notin> {0x40, 0, 0x10}) [1..<64]"
  "list_all (\<lambda>k. literal_byte (0 OR word_of_nat k) False False \<and> (0 OR word_of_nat k :: byte) \<notin> {0x40, 0, 0x10}) [1..<16]"
  "list_all (\<lambda>k. literal_byte (0x10 OR word_of_nat k) False True \<and> (0x10 OR word_of_nat k :: byte) \<notin> {0x40, 0, 0x10}) [1..<16]"
  by code_simp+

lemma new_bytes: "literal_byte 0x40 True False" "literal_byte 0 False False" "literal_byte 0x10 False True"
  by code_simp+

lemma flag_bytes:
  "list_all (\<lambda>k. (push_bit 7 1 OR word_of_nat k :: byte) AND push_bit 7 1 \<noteq> 0) [0..<128]"
  "list_all (\<lambda>k. (0 OR word_of_nat k :: byte) AND push_bit 7 1 = 0) [0..<128]"
  by code_simp+

lemma upt_all: "list_all P [a..<b] \<Longrightarrow> a \<le> k \<Longrightarrow> k < b \<Longrightarrow> P k"
  by (simp add: list_all_iff)

section \<open>Numbers and strings\<close>

lemma read_len_int:
  assumes "0 < pfx" "pfx < 8" "first AND word_of_nat (prefix_max pfx) = 0" "n < 2 ^ 32" "n \<le> maxlen" "if_left ifl = 0" "if_shift ifl = 0"
  obtains sh where "hd_inflate_read_len ifl (hd_int first n pfx @ ds) pfx maxlen =
    Inr (int (length (hd_int first n pfx)), True, ifl\<lparr>if_shift := sh, if_left := n\<rparr>)"
proof -
  obtain sh where "decode_length 0 0 (hd_int first n pfx @ ds) pfx = Inr (int (length (hd_int first n pfx)), Some (word_of_nat n), sh, True)"
    using hd_int_decode [OF assms(1-4), of ds] by blast
  moreover have "unat (word_of_nat n :: 32 word) = n" using assms(4) by (simp add: unat_of_nat)
  ultimately show ?thesis
    using that [of sh] assms(5-7) by (simp add: hd_inflate_read_len_def)
qed

definition str_coded :: "bytes \<Rightarrow> bool" where
  "str_coded s \<longleftrightarrow> length (huff_bytes s) < length s"

definition str_body :: "bytes \<Rightarrow> bytes" where
  "str_body s = (if str_coded s then huff_bytes s else s)"

lemma str_bytes_body: "str_bytes s = hd_int (if str_coded s then push_bit 7 1 else 0) (length (str_body s)) 7 @ str_body s"
  by (simp add: str_bytes_def str_body_def str_coded_def)

lemma str_body_length: "length (str_body s) \<le> length s"
  by (simp add: str_body_def str_coded_def)

lemma str_flag: "hd_inflate_set_huffman_encoded ifl (str_bytes s @ rest) = Inr (ifl\<lparr>if_huffman := str_coded s\<rparr>)"
proof -
  let ?k = "min (length (str_body s)) (prefix_max 7)"
  have k: "?k < 128" by (simp add: prefix_max_values min_def)
  have "byte_at (str_bytes s @ rest) 0 = Inr ((if str_coded s then push_bit 7 1 else 0) OR word_of_nat ?k)"
    unfolding str_bytes_body by (subst head_byte) (simp add: byte_at_def)
  then show ?thesis
    using upt_all [OF flag_bytes(1) _ k] upt_all [OF flag_bytes(2) _ k] by (simp add: hd_inflate_set_huffman_encoded_def)
qed

lemma str_length:
  assumes "length s \<le> NGHTTP2_HD_MAX_NV" "if_left ifl = 0" "if_shift ifl = 0"
  obtains sh n where "hd_inflate_read_len ifl (str_bytes s @ rest) 7 NGHTTP2_HD_MAX_NV =
      Inr (int n, True, ifl\<lparr>if_shift := sh, if_left := length (str_body s)\<rparr>)" "drop n (str_bytes s @ rest) = str_body s @ rest"
proof -
  have small: "length (str_body s) \<le> NGHTTP2_HD_MAX_NV" using str_body_length [of s] assms(1) by simp
  then have "length (str_body s) < 2 ^ 32" by (simp add: NGHTTP2_HD_MAX_NV_def)
  note small32 = this
  let ?f = "if str_coded s then push_bit 7 1 else 0 :: byte"
  have f: "?f AND word_of_nat (prefix_max 7) = 0" using first_bits(3) by (simp split: if_splits)
  obtain sh where "hd_inflate_read_len ifl (hd_int ?f (length (str_body s)) 7 @ str_body s @ rest) 7 NGHTTP2_HD_MAX_NV =
      Inr (int (length (hd_int ?f (length (str_body s)) 7)), True, ifl\<lparr>if_shift := sh, if_left := length (str_body s)\<rparr>)"
    by (rule read_len_int [OF _ _ f small32 small assms(2,3)]) simp_all
  then show ?thesis by (rule that [unfolded str_bytes_body append_assoc]) simp
qed

text \<open>The reader that the flag selects gives back the string.\<close>

definition str_reader ::
  "bytes \<Rightarrow> nghttp2_hd_inflater \<Rightarrow> bytes \<Rightarrow> nghttp2_buf \<Rightarrow> ((int \<times> nghttp2_hd_inflater) \<times> nghttp2_buf) res" where
  "str_reader s = (if str_coded s then hd_inflate_read_huff else hd_inflate_read)"

lemma accepted_256: "(0x100 :: 16 word) AND NGHTTP2_HUFF_ACCEPTED = 0"
  by code_simp

lemma str_read:
  assumes "buf_wf b" "buf_pos b = 0" "buf_last b + 2 * length (str_body s) \<le> nghttp2_buf_cap b \<or> \<not> str_coded s \<and> buf_last b + length s \<le> nghttp2_buf_cap b"
    "if_left ifl = length (str_body s)" "length s \<le> NGHTTP2_HD_MAX_NV" "str_coded s \<longrightarrow> if_huff ifl = nghttp2_hd_huff_decode_context_init"
  obtains hf where "reads_into (length s) (str_reader s ifl (str_body s @ rest) b) b
    (int (length (str_body s)), ifl\<lparr>if_huff := hf, if_left := 0\<rparr>) s" "str_coded s \<longrightarrow> length s \<le> 2 * length (str_body s)"
proof (cases "str_coded s")
  case False
  then have body: "str_body s = s" by (simp add: str_body_def)
  have "length s < 2 ^ 32" using assms(5) by (simp add: NGHTTP2_HD_MAX_NV_def)
  then have left: "if_left ifl = length s" "if_left ifl < 2 ^ 32" using assms(4) body by simp_all
  have k: "length s = min (length (s @ rest)) (if_left ifl)" using left by simp
  have "buf_last b + if_left ifl \<le> nghttp2_buf_cap b" using assms(3) left body by auto
  from read_raw [OF assms(1,2) this left(2) k] left
  have r: "reads_into (length s) (hd_inflate_read ifl (s @ rest) b) b (int (length s), ifl\<lparr>if_left := 0\<rparr>) s" by simp
  have "ifl\<lparr>if_huff := if_huff ifl, if_left := 0\<rparr> = ifl\<lparr>if_left := 0\<rparr>" by simp
  then show ?thesis using that [of "if_huff ifl"] r False body by (simp add: str_reader_def)
next
  case True
  then have body: "str_body s = huff_bytes s" by (simp add: str_body_def)
  let ?bs = "huff_bytes s"
  have room: "2 * length ?bs \<le> nghttp2_buf_avail b" using assms(1,3) True body by simp
  from huff_decode_whole [OF assms(1) room] obtain ctx buf' out where
    r: "huff_decode_loop nghttp2_hd_huff_decode_context_init ?bs b = Inr (ctx, buf')" "buf_wf buf'"
    "buf_data buf' = buf_data b @ out" "length out \<le> 2 * length ?bs" "ctx AND NGHTTP2_HUFF_ACCEPTED \<noteq> 0 \<longleftrightarrow> ?bs = huff_bytes out"
    "\<And>src. ?bs = huff_bytes src \<Longrightarrow> out = src" "nghttp2_buf_cap buf' = nghttp2_buf_cap b" by metis
  have out: "out = s" by (rule r(6)) simp
  have acc: "ctx AND NGHTTP2_HUFF_ACCEPTED \<noteq> 0" using r(5) out by simp
  have "\<not> nghttp2_hd_huff_decode_failure_state ctx" using acc accepted_256 by (auto simp: nghttp2_hd_huff_decode_failure_state_def)
  moreover have "length ?bs < 2 ^ 63" using str_body_length [of s] body assms(5) by (simp add: NGHTTP2_HD_MAX_NV_def)
  ultimately have eq: "hd_inflate_read_huff ifl (?bs @ rest) b = Inr ((int (length ?bs), ifl\<lparr>if_huff := ctx, if_left := 0\<rparr>), buf')"
    using r(1) acc assms(4,6) True body
    by (simp add: hd_inflate_read_huff_def nghttp2_hd_huff_decode_def ssize_small size_sub_def Let_def)
  have "buf_last b + 2 * length ?bs \<le> nghttp2_buf_cap b" using assms(3) True body by simp
  from huff_decode_loop_ok [OF huff_ok_init(1) assms(1) this huff_ok_init(2)] r(1) obtain o1 where
    "buf_data buf' = buf_data b @ o1" "buf_last buf' = buf_last b + length o1" "buf_pos buf' = buf_pos b" by auto
  then have "buf_pos buf' = 0 \<and> buf_last buf' = buf_last b + length s" using r(3) out assms(2) by simp
  then show ?thesis
    by (intro that [of ctx]) (use eq r(2,3,4,7) out True body in \<open>simp_all add: str_reader_def reads_into_def\<close>)
qed

section \<open>A string in a block\<close>

lemma body_ok:
  assumes tab: "hd_table ctx None h (add_mset (Held p) R) T"
    and room: "open_string h (Some p) (if str_coded s then length (str_body s) * 2 + 1 else length (str_body s) + 1)"
    and ifl: "if_left ifl = length (str_body s)" "length s \<le> NGHTTP2_HD_MAX_NV" "str_coded s \<longrightarrow> if_huff ifl = nghttp2_hd_huff_decode_context_init"
  obtains hf h1 h2 where
    "with_string (Some p) 0 (str_reader s ifl (str_body s @ rest)) h =
       Inr ((int (length (str_body s)), ifl\<lparr>if_huff := hf, if_left := 0\<rparr>), length s, h1)"
    "close_string (Some p) (length s) h1 = Inr h2" "hd_table ctx None h2 (add_mset (Held p) R) T" "rc_same h h2 R" "rc_str h2 p = s"
proof -
  obtain r where r: "rc_get h p = Inr r" "rc_ref r = 1" "rc_len r \<le> length (rc_base r)"
    "(if str_coded s then length (str_body s) * 2 + 1 else length (str_body s) + 1) \<le> length (rc_base r)"
    using room by (auto simp: open_string_def)
  let ?b = "\<lparr>buf_block = Some (rc_base r), buf_pos = 0, buf_last = 0, buf_mark = 0\<rparr>"
  have cap: "nghttp2_buf_cap ?b = length (rc_base r)" by (simp add: nghttp2_buf_cap_def buf_store_def)
  have wf: "buf_wf ?b" "buf_pos ?b = 0" by (simp_all add: buf_wf_def)
  have "\<not> str_coded s \<Longrightarrow> str_body s = s" by (simp add: str_body_def)
  then have fits: "buf_last ?b + 2 * length (str_body s) \<le> nghttp2_buf_cap ?b \<or> \<not> str_coded s \<and> buf_last ?b + length s \<le> nghttp2_buf_cap ?b"
    using r(4) cap by (auto split: if_splits)
  obtain hf where rd: "reads_into (length s) (str_reader s ifl (str_body s @ rest) ?b) ?b (int (length (str_body s)), ifl\<lparr>if_huff := hf, if_left := 0\<rparr>) s"
    and two: "str_coded s \<longrightarrow> length s \<le> 2 * length (str_body s)"
    by (rule str_read [OF wf fits ifl])
  have zero: "0 \<le> length (rc_base r)" by simp
  from with_string_ok [where f = "str_reader s ifl (str_body s @ rest)", OF tab r(1-3) zero rd] obtain h1 r1 where
    w: "with_string (Some p) 0 (str_reader s ifl (str_body s @ rest)) h =
          Inr ((int (length (str_body s)), ifl\<lparr>if_huff := hf, if_left := 0\<rparr>), 0 + length s, h1)"
      "hd_table ctx None h1 (add_mset (Held p) R) T" "rc_same h h1 R" "rc_get h1 p = Inr r1" "rc_ref r1 = 1"
      "length (rc_base r1) = length (rc_base r)" "take (0 + length s) (rc_base r1) = take 0 (rc_base r) @ s" by metis
  have "length s < length (rc_base r1)"
    using r(4) w(6) two by (cases "str_coded s") (auto simp: str_body_def)
  from close_string_ok [OF w(2,4,5) this] obtain h2 where
    c: "close_string (Some p) (length s) h1 = Inr h2" "hd_table ctx None h2 (add_mset (Held p) R) T" "rc_same h1 h2 R"
      "rc_str h2 p = take (length s) (rc_base r1)" by metis
  have "rc_same h h2 R" by (rule rc_same_trans [OF w(3) c(3)]) simp
  then show ?thesis using that [of hf h1 h2] w(1,7) c by simp
qed

text \<open>The loop takes one case after the other.\<close>

lemma loop_go:
  "inflate_case ifl inp h = Inr (Go b, ifl1, inp1, h1) \<Longrightarrow> inp \<noteq> [] \<or> busy \<Longrightarrow>
    inflate_loop inlen fin busy ifl inp h = inflate_loop inlen fin b ifl1 inp1 h1"
  by (subst inflate_loop.simps) auto

lemma loop_failed:
  "inflate_case ifl inp h = Inr (Failed rv, ifl1, inp1, h1) \<Longrightarrow> inp \<noteq> [] \<or> busy \<Longrightarrow>
    inflate_loop inlen fin busy ifl inp h = inflate_fail rv ifl1 h1"
  by (subst inflate_loop.simps) auto

lemma loop_emitted:
  "inflate_case ifl inp h = Inr (Emitted e, ifl1, inp1, h1) \<Longrightarrow> inp \<noteq> [] \<or> busy \<Longrightarrow>
    inflate_loop inlen fin busy ifl inp h = Inr (ssize_t_of (inlen - length inp1), NGHTTP2_HD_INFLATE_EMIT, Some e, ifl1, h1)"
  by (subst inflate_loop.simps) auto

definition no_memory :: "(int \<times> int \<times> nghttp2_hd_nv option \<times> nghttp2_hd_inflater \<times> rc_heap) res \<Rightarrow> bool" where
  "no_memory r \<longleftrightarrow> (\<exists>ifl h. r = inflate_fail NGHTTP2_ERR_NOMEM ifl h)"

text \<open>In front of a name and in front of a value; what a field does not change.\<close>

definition at_rest :: "nghttp2_hd_inflater \<Rightarrow> rc_heap \<Rightarrow> owned multiset \<Rightarrow> hd_pair list \<Rightarrow> bool" where
  "at_rest ifl h X T \<longleftrightarrow>
     inflater_owns ifl h X T \<and> if_name_keep ifl = None \<and> if_value_keep ifl = None \<and> if_valuercbuf ifl = None"

definition at_name :: "nghttp2_hd_inflater \<Rightarrow> rc_heap \<Rightarrow> owned multiset \<Rightarrow> hd_pair list \<Rightarrow> bool" where
  "at_name ifl h X T \<longleftrightarrow> at_rest ifl h X T \<and> if_namercbuf ifl = None \<and> if_opcode ifl = NGHTTP2_HD_OPCODE_NEWNAME \<and>
     if_state ifl = NGHTTP2_HD_STATE_NEWNAME_CHECK_NAMELEN"

definition at_value :: "nghttp2_hd_inflater \<Rightarrow> rc_heap \<Rightarrow> owned multiset \<Rightarrow> hd_pair list \<Rightarrow> bytes \<Rightarrow> bool" where
  "at_value ifl h X T nm \<longleftrightarrow> at_rest ifl h X T \<and> if_state ifl = NGHTTP2_HD_STATE_CHECK_VALUELEN \<and>
     (if if_opcode ifl = NGHTTP2_HD_OPCODE_NEWNAME then \<exists>n. if_namercbuf ifl = Some n \<and> rc_str h n = nm
      else if_namercbuf ifl = None \<and> if_index ifl < 61 + length T \<and> fst (dt_get T (if_index ifl)) = nm)"

definition same_field :: "nghttp2_hd_inflater \<Rightarrow> nghttp2_hd_inflater \<Rightarrow> bool" where
  "same_field ifl ifl' \<longleftrightarrow> if_ctx ifl' = if_ctx ifl \<and> if_index_required ifl' = if_index_required ifl \<and> if_no_index ifl' = if_no_index ifl \<and>
     if_settings_max ifl' = if_settings_max ifl \<and> if_min ifl' = if_min ifl"

lemma str_bytes_nonempty [simp]: "str_bytes s \<noteq> []"
  unfolding str_bytes_body by (subst head_byte) simp

lemma name_reads:
  assumes at: "at_name ifl h X T" and s: "length s \<le> NGHTTP2_HD_MAX_NV" and rest: "rest \<noteq> []"
  shows "no_memory (inflate_loop inlen fin busy ifl (str_bytes s @ rest) h) \<or>
    (\<exists>ifl' h'. inflate_loop inlen fin busy ifl (str_bytes s @ rest) h = inflate_loop inlen fin False ifl' rest h' \<and>
       at_value ifl' h' X T s \<and> same_field ifl ifl' \<and> rc_same h h' X)"
proof -
  let ?inp = "str_bytes s @ rest"
  have st: "if_state ifl = NGHTTP2_HD_STATE_NEWNAME_CHECK_NAMELEN" "if_opcode ifl = NGHTTP2_HD_OPCODE_NEWNAME"
    "if_namercbuf ifl = None" "if_valuercbuf ifl = None" "if_name_keep ifl = None" "if_value_keep ifl = None"
    and own: "inflater_owns ifl h X T"
    using at by (simp_all add: at_name_def at_rest_def)
  have tab: "hd_table (if_ctx ifl) None h X T" using own st by (simp add: inflater_owns_def if_refs_def)
  let ?i1 = "ifl\<lparr>if_huffman := str_coded s, if_state := NGHTTP2_HD_STATE_NEWNAME_READ_NAMELEN, if_left := 0, if_shift := 0\<rparr>"
  have zero: "if_left ?i1 = 0" "if_shift ?i1 = 0" by simp_all
  obtain sh n where len: "hd_inflate_read_len ?i1 ?inp 7 NGHTTP2_HD_MAX_NV =
      Inr (int n, True, ?i1\<lparr>if_shift := sh, if_left := length (str_body s)\<rparr>)" "drop n ?inp = str_body s @ rest"
    by (rule str_length [OF s zero, of rest])
  let ?i2 = "?i1\<lparr>if_shift := sh, if_left := length (str_body s)\<rparr>"
  let ?i3 = "if str_coded s then ?i2\<lparr>if_huff := nghttp2_hd_huff_decode_context_init, if_state := NGHTTP2_HD_STATE_NEWNAME_READ_NAMEHUFF\<rparr>
    else ?i2\<lparr>if_state := NGHTTP2_HD_STATE_NEWNAME_READ_NAME\<rparr>"
  let ?sz = "if str_coded s then length (str_body s) * 2 + 1 else length (str_body s) + 1"
  note open_defs = inflate_case_def inflate_check_name_len_def inflate_name_len_def Let_def
  show ?thesis
  proof (cases rule: string_new [OF tab, of ?sz])
    case (1 h1)
    have "inflate_case ifl ?inp h = Inr (Failed NGHTTP2_ERR_NOMEM, ?i3, str_body s @ rest, h1)"
      using st(1) str_flag [of ifl s rest] len 1(1) by (cases "str_coded s") (simp_all add: open_defs del: drop_append)
    then show ?thesis using loop_failed [of ifl ?inp h] by (auto simp: no_memory_def)
  next
    case (2 p h1)
    let ?i4 = "?i3\<lparr>if_namercbuf := Some p, if_name_last := 0\<rparr>"
    have "inflate_case ifl ?inp h = Inr (Go False, ?i4, str_body s @ rest, h1)"
      using st(1) str_flag [of ifl s rest] len 2(1) by (cases "str_coded s") (simp_all add: open_defs del: drop_append)
    then have g1: "inflate_loop inlen fin busy ifl ?inp h = inflate_loop inlen fin False ?i4 (str_body s @ rest) h1"
      by (rule loop_go) simp
    have "if_left ?i4 = length (str_body s)" "str_coded s \<longrightarrow> if_huff ?i4 = nghttp2_hd_huff_decode_context_init" by simp_all
    from body_ok [OF 2(2,4) this(1) s this(2)] obtain hf h2 h3 where
      b: "with_string (Some p) 0 (str_reader s ?i4 (str_body s @ rest)) h1 =
           Inr ((int (length (str_body s)), ?i4\<lparr>if_huff := hf, if_left := 0\<rparr>), length s, h2)"
        "close_string (Some p) (length s) h2 = Inr h3" "hd_table (if_ctx ifl) None h3 (add_mset (Held p) X) T" "rc_same h1 h3 X" "rc_str h3 p = s"
      by metis
    let ?i5 = "?i4\<lparr>if_huff := hf, if_left := 0, if_name_last := length s, if_state := NGHTTP2_HD_STATE_CHECK_VALUELEN\<rparr>"
    have "inflate_case ?i4 (str_body s @ rest) h1 = inflate_name (str_reader s) ?i4 (str_body s @ rest) h1"
      by (simp add: inflate_case_def str_reader_def)
    also have "\<dots> = Inr (Go False, ?i5, rest, h3)"
      using b(1,2) by (simp add: inflate_name_def Let_def)
    finally have "inflate_loop inlen fin False ?i4 (str_body s @ rest) h1 = inflate_loop inlen fin False ?i5 rest h3"
      by (rule loop_go) (use rest in simp)
    note g2 = g1 [unfolded this]
    have "if_refs ?i5 + X = add_mset (Held p) X" using st by (simp add: if_refs_def)
    then have "inflater_owns ?i5 h3 X T" using own b(3) unfolding inflater_owns_def by simp
    then have "at_value ?i5 h3 X T s" using st b(5) by (simp add: at_value_def at_rest_def)
    moreover have "same_field ifl ?i5" by (simp add: same_field_def)
    moreover have "rc_same h h3 X" by (rule rc_same_trans [OF 2(3) b(4)]) simp
    ultimately show ?thesis using g2 by blast
  qed
qed

definition stays :: "nghttp2_hd_inflater \<Rightarrow> nghttp2_hd_inflater \<Rightarrow> bool" where
  "stays ifl ifl' \<longleftrightarrow> hc_bufsize_max (if_ctx ifl') = hc_bufsize_max (if_ctx ifl) \<and> hc_bad (if_ctx ifl') = hc_bad (if_ctx ifl) \<and>
     if_settings_max ifl' = if_settings_max ifl \<and> if_min ifl' = if_min ifl"

text \<open>A call that has emitted a pair, and the flag of a literal that must not be indexed.\<close>

definition flag_is :: "byte \<Rightarrow> bool option \<Rightarrow> bool" where
  "flag_is f never \<longleftrightarrow> (case never of None \<Rightarrow> True | Some b \<Rightarrow> (f AND NGHTTP2_NV_FLAG_NO_INDEX \<noteq> 0) = b)"

definition emitted ::
  "nghttp2_hd_inflater \<Rightarrow> rc_heap \<Rightarrow> owned multiset \<Rightarrow> hd_pair list \<Rightarrow> hd_pair \<Rightarrow> bool option \<Rightarrow> nat \<Rightarrow>
    (int \<times> int \<times> nghttp2_hd_nv option \<times> nghttp2_hd_inflater \<times> rc_heap) res \<Rightarrow> bool" where
  "emitted ifl h X T p never n r \<longleftrightarrow>
     (\<exists>e ifl' h'. r = Inr (ssize_t_of n, NGHTTP2_HD_INFLATE_EMIT, Some e, ifl', h') \<and> between ifl' \<and> inflater_owns ifl' h' X T \<and>
        emits_pair e h' p \<and> flag_is (hn_flags e) never \<and> rc_same h h' X \<and> stays ifl ifl')"

lemma emittedI:
  assumes "r = Inr (ssize_t_of n, NGHTTP2_HD_INFLATE_EMIT, Some e, ifl', h')" "between ifl'" "inflater_owns ifl' h' X T"
    "emits_pair e h' p" "flag_is (hn_flags e) never" "rc_same h h' X" "stays ifl ifl'"
  shows "emitted ifl h X T p never n r"
  using assms unfolding emitted_def by blast

lemma nv_flags_never: "(nv_flags_of ifl AND NGHTTP2_NV_FLAG_NO_INDEX \<noteq> 0) = if_no_index ifl"
  by (simp add: nv_flags_of_def NGHTTP2_NV_FLAG_NO_INDEX_def)

text \<open>The commit of a pair whose strings are complete.\<close>

lemma commit_reads:
  assumes own: "inflater_owns ifl h X T" and v: "if_valuercbuf ifl = Some v" "rc_str h v = val"
    and keeps: "if_name_keep ifl = None" "if_value_keep ifl = None" and left: "if_left ifl < 2 ^ 32"
    and known: "if if_opcode ifl = NGHTTP2_HD_OPCODE_NEWNAME then \<exists>n. if_namercbuf ifl = Some n \<and> rc_str h n = nm
      else if_namercbuf ifl = None \<and> if_index ifl < 61 + length T \<and> fst (dt_get T (if_index ifl)) = nm"
  defines "r \<equiv> if if_opcode ifl = NGHTTP2_HD_OPCODE_NEWNAME then hd_inflate_commit_newname ifl h else hd_inflate_commit_indname ifl h"
  shows "(\<exists>ifl' h'. r = Inr (NGHTTP2_ERR_NOMEM, None, ifl', h')) \<or>
    (\<exists>e ifl' h'. r = Inr (0, Some e, ifl', h') \<and> between (ifl'\<lparr>if_state := NGHTTP2_HD_STATE_OPCODE\<rparr>) \<and>
       inflater_owns ifl' h' X (if if_index_required ifl then dt_add (hc_bufsize_max (if_ctx ifl)) (nm, val) T else T) \<and>
       emits_pair e h' (nm, val) \<and> hn_flags e = nv_flags_of ifl \<and> rc_same h h' X \<and> stays ifl ifl')"
proof (cases "if_opcode ifl = NGHTTP2_HD_OPCODE_NEWNAME")
  case True
  then obtain n where n: "if_namercbuf ifl = Some n" "rc_str h n = nm" using known by auto
  show ?thesis
  proof (cases rule: commit_newname_ok [OF own n(1) v(1) keeps])
    case (1 ctx h' T')
    then show ?thesis using True by (auto simp: r_def)
  next
    case (2 ctx h' T' e)
    let ?i = "ifl\<lparr>if_ctx := ctx, if_name_keep := Some n, if_value_keep := Some v, if_namercbuf := None, if_valuercbuf := None\<rparr>"
    have tab: "hd_table ctx None h' (add_mset (Held n) (add_mset (Held v) X)) T'"
      using 2(2) by (simp add: inflater_owns_def if_refs_def add_mset_commute)
    have "emits_pair e h' (nm, val)"
      using readable [OF tab] 2(7-10) n(2) v(2) by (simp add: emits_pair_def)
    moreover have "between (?i\<lparr>if_state := NGHTTP2_HD_STATE_OPCODE\<rparr>)" using left by (simp add: between_def)
    moreover have "stays ifl ?i" using 2(4,5) by (simp add: stays_def)
    moreover have "r = Inr (0, Some e, ?i, h')" using True 2(1) by (simp add: r_def)
    moreover have "inflater_owns ?i h' X (if if_index_required ifl then dt_add (hc_bufsize_max (if_ctx ifl)) (nm, val) T else T)"
      using 2(2) unfolding 2(6) n(2) v(2) .
    ultimately show ?thesis using 2(3,11) by blast
  qed
next
  case False
  then have n: "if_namercbuf ifl = None" "if_index ifl < 61 + length T" "fst (dt_get T (if_index ifl)) = nm" using known by simp_all
  show ?thesis
  proof (cases rule: commit_indname_ok [OF own n(1) v(1) keeps n(2)])
    case (1 ctx h' T')
    then show ?thesis using False by (auto simp: r_def)
  next
    case (2 ctx h' T' e)
    let ?i = "ifl\<lparr>if_ctx := ctx, if_name_keep := Some (hn_name e), if_value_keep := Some v, if_valuercbuf := None\<rparr>"
    have tab: "hd_table ctx None h' (add_mset (Held (hn_name e)) (add_mset (Held v) X)) T'"
      using 2(2) n(1) by (simp add: inflater_owns_def if_refs_def add_mset_commute)
    have "emits_pair e h' (nm, val)"
      using readable [OF tab] 2(7-9) n(3) v(2) by (simp add: emits_pair_def)
    moreover have "between (?i\<lparr>if_state := NGHTTP2_HD_STATE_OPCODE\<rparr>)" using left n(1) by (simp add: between_def)
    moreover have "stays ifl ?i" using 2(4,5) by (simp add: stays_def)
    moreover have "r = Inr (0, Some e, ?i, h')" using False 2(1) by (simp add: r_def)
    moreover have "inflater_owns ?i h' X (if if_index_required ifl then dt_add (hc_bufsize_max (if_ctx ifl)) (nm, val) T else T)"
      using 2(2) unfolding 2(6) n(3) v(2) .
    ultimately show ?thesis using 2(3,10) by blast
  qed
qed

lemma value_reads:
  assumes at: "at_value ifl h X T nm" and s: "length s \<le> NGHTTP2_HD_MAX_NV"
    and r_def: "r = inflate_loop inlen fin busy ifl (str_bytes s @ rest) h"
  shows "no_memory r \<or>
    emitted ifl h X (if if_index_required ifl then dt_add (hc_bufsize_max (if_ctx ifl)) (nm, s) T else T) (nm, s) (Some (if_no_index ifl))
      (inlen - length rest) r"
proof -
  let ?inp = "str_bytes s @ rest" and ?R = "opt_ref (if_namercbuf ifl) + X"
  have st: "if_state ifl = NGHTTP2_HD_STATE_CHECK_VALUELEN" "if_valuercbuf ifl = None" "if_name_keep ifl = None" "if_value_keep ifl = None"
    and own: "inflater_owns ifl h X T"
    and known: "if if_opcode ifl = NGHTTP2_HD_OPCODE_NEWNAME then \<exists>n. if_namercbuf ifl = Some n \<and> rc_str h n = nm
      else if_namercbuf ifl = None \<and> if_index ifl < 61 + length T \<and> fst (dt_get T (if_index ifl)) = nm"
    using at by (simp_all add: at_value_def at_rest_def)
  have tab: "hd_table (if_ctx ifl) None h ?R T" using own st by (simp add: inflater_owns_def if_refs_def)
  let ?i1 = "ifl\<lparr>if_huffman := str_coded s, if_state := NGHTTP2_HD_STATE_READ_VALUELEN, if_left := 0, if_shift := 0\<rparr>"
  have zero: "if_left ?i1 = 0" "if_shift ?i1 = 0" by simp_all
  obtain sh n where len: "hd_inflate_read_len ?i1 ?inp 7 NGHTTP2_HD_MAX_NV =
      Inr (int n, True, ?i1\<lparr>if_shift := sh, if_left := length (str_body s)\<rparr>)" "drop n ?inp = str_body s @ rest"
    by (rule str_length [OF s zero, of rest])
  let ?i2 = "?i1\<lparr>if_shift := sh, if_left := length (str_body s)\<rparr>"
  let ?i3 = "if str_coded s then ?i2\<lparr>if_huff := nghttp2_hd_huff_decode_context_init, if_state := NGHTTP2_HD_STATE_READ_VALUEHUFF\<rparr>
    else ?i2\<lparr>if_state := NGHTTP2_HD_STATE_READ_VALUE\<rparr>"
  let ?sz = "if str_coded s then length (str_body s) * 2 + 1 else length (str_body s) + 1"
  note open_defs = inflate_case_def inflate_check_value_len_def inflate_value_len_def Let_def
  show ?thesis
  proof (cases rule: string_new [OF tab, of ?sz])
    case (1 h1)
    have "inflate_case ifl ?inp h = Inr (Failed NGHTTP2_ERR_NOMEM, ?i3, str_body s @ rest, h1)"
      using st(1) str_flag [of ifl s rest] len 1(1) by (cases "str_coded s") (simp_all add: open_defs del: drop_append)
    then show ?thesis using loop_failed [of ifl ?inp h] by (auto simp: no_memory_def r_def)
  next
    case (2 p h1)
    let ?i4 = "?i3\<lparr>if_valuercbuf := Some p, if_value_last := 0\<rparr>"
    have "inflate_case ifl ?inp h = Inr (Go True, ?i4, str_body s @ rest, h1)"
      using st(1) str_flag [of ifl s rest] len 2(1) by (cases "str_coded s") (simp_all add: open_defs del: drop_append)
    then have g1: "r = inflate_loop inlen fin True ?i4 (str_body s @ rest) h1"
      unfolding r_def by (rule loop_go) simp
    have "if_left ?i4 = length (str_body s)" "str_coded s \<longrightarrow> if_huff ?i4 = nghttp2_hd_huff_decode_context_init" by simp_all
    from body_ok [OF 2(2,4) this(1) s this(2)] obtain hf h2 h3 where
      b: "with_string (Some p) 0 (str_reader s ?i4 (str_body s @ rest)) h1 =
           Inr ((int (length (str_body s)), ?i4\<lparr>if_huff := hf, if_left := 0\<rparr>), length s, h2)"
        "close_string (Some p) (length s) h2 = Inr h3" "hd_table (if_ctx ifl) None h3 (add_mset (Held p) ?R) T" "rc_same h1 h3 ?R" "rc_str h3 p = s"
      by metis
    let ?i5 = "?i4\<lparr>if_huff := hf, if_left := 0, if_value_last := length s\<rparr>"
    let ?c = "if if_opcode ?i5 = NGHTTP2_HD_OPCODE_NEWNAME then hd_inflate_commit_newname ?i5 h3 else hd_inflate_commit_indname ?i5 h3"
    have "inflate_case ?i4 (str_body s @ rest) h1 = inflate_value (str_reader s) ?i4 (str_body s @ rest) h1"
      by (simp add: inflate_case_def str_reader_def)
    also have "\<dots> = res_bind ?c (\<lambda>(rv1, nv, ifl2, h3). case nv of
        None \<Rightarrow> Inr (Failed rv1, ifl2, drop (nat (int (length (str_body s)))) (str_body s @ rest), h3)
      | Some e \<Rightarrow> Inr (Emitted e, ifl2\<lparr>if_state := NGHTTP2_HD_STATE_OPCODE\<rparr>, drop (nat (int (length (str_body s)))) (str_body s @ rest), h3))"
      using b(1,2) by (simp add: inflate_value_def Let_def del: nat_int drop_append)
    finally have c: "inflate_case ?i4 (str_body s @ rest) h1 = \<dots>" .
    have "rc_same h h3 ?R" by (rule rc_same_trans [OF 2(3) b(4)]) simp
    then have same: "rc_same h h3 X" and nm: "\<And>n. if_namercbuf ifl = Some n \<Longrightarrow> rc_str h3 n = rc_str h n"
      using rc_same_mono [of h h3 ?R X] rc_same_str [of h h3 ?R] by simp_all
    have "if_refs ?i5 + X = add_mset (Held p) ?R" using st by (simp add: if_refs_def)
    then have o5: "inflater_owns ?i5 h3 X T" using own b(3) unfolding inflater_owns_def by simp
    have v5: "if_valuercbuf ?i5 = Some p" "if_name_keep ?i5 = None" "if_value_keep ?i5 = None" "if_left ?i5 < 2 ^ 32" using st by simp_all
    have k5: "if if_opcode ?i5 = NGHTTP2_HD_OPCODE_NEWNAME then \<exists>n. if_namercbuf ?i5 = Some n \<and> rc_str h3 n = nm
        else if_namercbuf ?i5 = None \<and> if_index ?i5 < 61 + length T \<and> fst (dt_get T (if_index ?i5)) = nm"
      using known nm by (auto split: if_splits)
    from commit_reads [OF o5 v5(1) b(5) v5(2-4) k5] show ?thesis
    proof (elim disjE exE conjE)
      fix ifl' h'
      assume "?c = Inr (NGHTTP2_ERR_NOMEM, None, ifl', h')"
      then have "inflate_case ?i4 (str_body s @ rest) h1 = Inr (Failed NGHTTP2_ERR_NOMEM, ifl', rest, h')" using c by simp
      then show ?thesis unfolding g1 using loop_failed [of ?i4 "str_body s @ rest" h1 NGHTTP2_ERR_NOMEM ifl' rest h' True] by (auto simp: no_memory_def)
    next
      fix e ifl' h'
      assume e: "?c = Inr (0, Some e, ifl', h')" "between (ifl'\<lparr>if_state := NGHTTP2_HD_STATE_OPCODE\<rparr>)"
        "inflater_owns ifl' h' X (if if_index_required ?i5 then dt_add (hc_bufsize_max (if_ctx ?i5)) (nm, s) T else T)"
        "emits_pair e h' (nm, s)" "hn_flags e = nv_flags_of ?i5" "rc_same h3 h' X" "stays ?i5 ifl'"
      have "inflate_case ?i4 (str_body s @ rest) h1 = Inr (Emitted e, ifl'\<lparr>if_state := NGHTTP2_HD_STATE_OPCODE\<rparr>, rest, h')" using c e(1) by simp
      then have g2: "r = Inr (ssize_t_of (inlen - length rest), NGHTTP2_HD_INFLATE_EMIT, Some e, ifl'\<lparr>if_state := NGHTTP2_HD_STATE_OPCODE\<rparr>, h')"
        unfolding g1 by (rule loop_emitted) simp
      have "rc_same h h' X" by (rule rc_same_trans [OF same e(6)]) simp
      moreover have "if_ctx ?i5 = if_ctx ifl" "if_index_required ?i5 = if_index_required ifl" "if_no_index ?i5 = if_no_index ifl"
        "if_settings_max ?i5 = if_settings_max ifl" "if_min ?i5 = if_min ifl" by simp_all
      note i5 = this
      have "stays ifl ifl'" using e(7) unfolding stays_def i5 .
      moreover have "flag_is (hn_flags e) (Some (if_no_index ifl))" unfolding flag_is_def option.case e(5) nv_flags_never i5 ..
      moreover have "inflater_owns ifl' h' X (if if_index_required ifl then dt_add (hc_bufsize_max (if_ctx ifl)) (nm, s) T else T)"
        using e(3) unfolding i5 .
      ultimately show ?thesis
        by (intro disjI2 emittedI [OF g2 e(2) _ e(4)]) (simp_all add: stays_def)
    qed
  qed
qed

section \<open>A field\<close>

definition at_field :: "nghttp2_hd_inflater \<Rightarrow> rc_heap \<Rightarrow> owned multiset \<Rightarrow> hd_pair list \<Rightarrow> bool" where
  "at_field ifl h X T \<longleftrightarrow> at_rest ifl h X T \<and> if_namercbuf ifl = None \<and>
     (if_state ifl = NGHTTP2_HD_STATE_OPCODE \<or> if_state ifl = NGHTTP2_HD_STATE_INFLATE_START)"

definition pair_fits :: "hd_pair \<Rightarrow> bool" where
  "pair_fits p \<longleftrightarrow> length (fst p) \<le> NGHTTP2_HD_MAX_NV \<and> length (snd p) \<le> NGHTTP2_HD_MAX_NV"

lemma case_index:
  assumes "at_field ifl h X T"
  shows "inflate_case ifl (hd_int 0x80 n 7 @ rest) h =
    Inr (Go False, ifl\<lparr>if_opcode := NGHTTP2_HD_OPCODE_INDEXED, if_state := NGHTTP2_HD_STATE_READ_INDEX, if_left := 0, if_shift := 0\<rparr>,
      hd_int 0x80 n 7 @ rest, h)"
proof -
  let ?k = "min n (prefix_max 7)"
  have k: "?k < 128" by (simp add: prefix_max_values min_def)
  have b: "byte_at (hd_int 0x80 n 7 @ rest) 0 = Inr (0x80 OR word_of_nat ?k)" by (subst head_byte) (simp add: byte_at_def)
  have i: "inflate_case ifl (hd_int 0x80 n 7 @ rest) h = inflate_opcode ifl (hd_int 0x80 n 7 @ rest) h"
    using assms by (auto simp: at_field_def inflate_case_def)
  show ?thesis unfolding i inflate_opcode_def b res_bind_Inr
    using upt_all [OF index_bytes _ k] assms by (auto simp: at_field_def)
qed

text \<open>The first byte of a literal.\<close>

lemma case_literal:
  assumes "at_field ifl h X T" "literal_byte b with_index never" "new = (b \<in> {0x40, 0, 0x10})"
  shows "inflate_case ifl (b # inp) h =
    Inr (Go False, ifl\<lparr>if_opcode := (if new then NGHTTP2_HD_OPCODE_NEWNAME else NGHTTP2_HD_OPCODE_INDNAME),
        if_state := (if new then NGHTTP2_HD_STATE_NEWNAME_CHECK_NAMELEN else NGHTTP2_HD_STATE_READ_INDEX),
        if_index_required := with_index, if_no_index := never, if_left := 0, if_shift := 0\<rparr>,
      if new then inp else b # inp, h)"
proof -
  have i: "inflate_case ifl (b # inp) h = inflate_opcode ifl (b # inp) h"
    using assms(1) by (auto simp: at_field_def inflate_case_def)
  have l: "b AND 0xe0 \<noteq> 0x20" "b AND 0x80 = 0" "(b AND 0x40 \<noteq> 0) = with_index" "(b AND 0xf0 = 0x10) = never"
    using assms(2) by (simp_all add: literal_byte_def)
  have n: "(b = 0x40 \<or> b = 0 \<or> b = 0x10) = new" using assms(3) by auto
  have b: "byte_at (b # inp) 0 = Inr b" by (simp add: byte_at_def)
  have "if_state ifl \<noteq> NGHTTP2_HD_STATE_EXPECT_TABLE_SIZE" using assms(1) by (auto simp: at_field_def)
  then show ?thesis unfolding i inflate_opcode_def b res_bind_Inr Let_def n l(3,4) using l(1,2)
    by (cases new) simp_all
qed

lemma name_byte:
  assumes "0 < n" and k_def: "k = min n (prefix_max (if mode = NGHTTP2_HD_WITH_INDEXING then 6 else 4))"
  shows "literal_byte (pack_first_byte mode OR word_of_nat k) (mode = NGHTTP2_HD_WITH_INDEXING) (mode = NGHTTP2_HD_NEVER_INDEXING)"
    "(pack_first_byte mode OR word_of_nat k :: byte) \<notin> {0x40, 0, 0x10}"
proof -
  have k: "1 \<le> k" "k < (if mode = NGHTTP2_HD_WITH_INDEXING then 64 else 16)"
    using assms(1) by (simp_all add: k_def prefix_max_values min_def)
  show "literal_byte (pack_first_byte mode OR word_of_nat k) (mode = NGHTTP2_HD_WITH_INDEXING) (mode = NGHTTP2_HD_NEVER_INDEXING)"
    "(pack_first_byte mode OR word_of_nat k :: byte) \<notin> {0x40, 0, 0x10}"
    using k upt_all [OF name_bytes(1), of k] upt_all [OF name_bytes(2), of k] upt_all [OF name_bytes(3), of k]
    by (cases mode; simp add: pack_first_byte_def)+
qed

text \<open>The index behind it.\<close>

lemma index_number:
  assumes own: "inflater_owns ifl h X T" and st: "if_left ifl = 0" "if_shift ifl = 0" and i: "i < 61 + length T"
    and pfx: "0 < pfx" "pfx < 8" "first AND word_of_nat (prefix_max pfx) = 0"
  obtains sh n where "hd_inflate_read_len ifl (hd_int first (i + 1) pfx @ rest) pfx (get_max_index (if_ctx ifl)) =
      Inr (int n, True, ifl\<lparr>if_shift := sh, if_left := i + 1\<rparr>)" "drop n (hd_int first (i + 1) pfx @ rest) = rest"
proof -
  have tab: "hd_table (if_ctx ifl) None h (if_refs ifl + X) T" "dt_size T \<le> MAX_UINT32" using own by (simp_all add: inflater_owns_def)
  have "length T \<le> 2 ^ 31" using dt_size_length [of T] tab(2) by (simp add: MAX_UINT32_def)
  then have small: "i + 1 < 2 ^ 32" using i by simp
  have max: "i + 1 \<le> get_max_index (if_ctx ifl)" using hd_table_index [OF tab(1)] i by simp
  obtain sh where "hd_inflate_read_len ifl (hd_int first (i + 1) pfx @ rest) pfx (get_max_index (if_ctx ifl)) =
      Inr (int (length (hd_int first (i + 1) pfx)), True, ifl\<lparr>if_shift := sh, if_left := i + 1\<rparr>)"
    by (rule read_len_int [OF pfx small max st])
  then show ?thesis by (rule that) simp
qed

text \<open>What an earlier case has not changed is still the same at the end.\<close>

lemma emitted_from:
  assumes "emitted ifl1 h1 X T p never n r" "stays ifl ifl1" "rc_same h h1 X"
  shows "emitted ifl h X T p never n r"
proof -
  from assms(1) obtain e ifl' h' where e: "r = Inr (ssize_t_of n, NGHTTP2_HD_INFLATE_EMIT, Some e, ifl', h')" "between ifl'"
    "inflater_owns ifl' h' X T" "emits_pair e h' p" "flag_is (hn_flags e) never" "rc_same h1 h' X" "stays ifl1 ifl'"
    unfolding emitted_def by blast
  have "rc_same h h' X" by (rule rc_same_trans [OF assms(3) e(6)]) simp
  moreover have "stays ifl ifl'" using e(7) assms(2) by (simp add: stays_def)
  ultimately show ?thesis by (intro emittedI [OF e(1-5)])
qed

lemma reads_from:
  assumes "no_memory r \<or> emitted ifl1 h1 X T p never n r" "stays ifl ifl1" "rc_same h h1 X" "T' = T" "never' = never"
  shows "no_memory r \<or> emitted ifl h X T' p never' n r"
  using assms emitted_from [OF _ assms(2,3)] by metis

lemma index_reads:
  assumes at: "at_field ifl h X T" and i: "i < 61 + length T"
  shows "emitted ifl h X T (dt_get T i) None (inlen - length rest) (inflate_loop inlen fin False ifl (repr_bytes (Repr_Index i) @ rest) h)"
proof -
  let ?inp = "hd_int 0x80 (i + 1) 7 @ rest"
  let ?i1 = "ifl\<lparr>if_opcode := NGHTTP2_HD_OPCODE_INDEXED, if_state := NGHTTP2_HD_STATE_READ_INDEX, if_left := 0, if_shift := 0\<rparr>"
  have st: "if_namercbuf ifl = None" "if_valuercbuf ifl = None" "if_name_keep ifl = None" "if_value_keep ifl = None"
    and own: "inflater_owns ifl h X T"
    using at by (simp_all add: at_field_def at_rest_def)
  have ne: "hd_int f n k \<noteq> []" for f n k by (subst head_byte) simp
  have g1: "inflate_loop inlen fin False ifl ?inp h = inflate_loop inlen fin False ?i1 ?inp h"
    by (rule loop_go [OF case_index [OF at]]) (simp add: ne)
  have own1: "inflater_owns ?i1 h X T" using own by simp
  have zero: "if_left ?i1 = 0" "if_shift ?i1 = 0" by simp_all
  have pfx: "0 < (7 :: nat)" "(7 :: nat) < 8" "(0x80 :: byte) AND word_of_nat (prefix_max 7) = 0" by simp_all
  obtain sh n where num: "hd_inflate_read_len ?i1 ?inp 7 (get_max_index (if_ctx ?i1)) =
      Inr (int n, True, ?i1\<lparr>if_shift := sh, if_left := i + 1\<rparr>)" "drop n ?inp = rest"
    by (rule index_number [OF own1 zero i pfx])
  have tab: "hd_table (if_ctx ifl) None h X T" using own st by (simp add: inflater_owns_def if_refs_def)
  obtain nv where nv: "nghttp2_hd_table_get (if_ctx ifl) i = Inr nv" "(rc_str h (hn_name nv), rc_str h (hn_value nv)) = dt_get T i"
    "\<exists>R. X \<subseteq># R \<and> rc_ok h R \<and> (\<forall>p \<in> {hn_name nv, hn_value nv}. Held p \<in># R \<or> (\<exists>s. p = Rc_Static s))"
    by (rule hd_table_get [OF tab i])
  have "nghttp2_rcbuf_get_buf p h = Inr (rc_str h p)" if "p \<in> {hn_name nv, hn_value nv}" for p
    using nv(3) that rc_get_buf [of h _ p] readable_static [OF tab] by (metis rc_str_static)
  then have em: "emits_pair nv h (dt_get T i)" using nv(2) by (simp add: emits_pair_def flip: nv(2))
  let ?i2 = "?i1\<lparr>if_shift := sh, if_left := i + 1, if_index := i, if_state := NGHTTP2_HD_STATE_OPCODE\<rparr>"
  have "inflate_case ?i1 ?inp h = inflate_index ?i1 ?inp h" by (simp add: inflate_case_def)
  also have "\<dots> = Inr (Emitted nv, ?i2, rest, h)"
    unfolding inflate_index_def Let_def using num nv(1) by (simp add: hd_inflate_commit_indexed_def del: drop_append)
  finally have "inflate_loop inlen fin False ?i1 ?inp h = Inr (ssize_t_of (inlen - length rest), NGHTTP2_HD_INFLATE_EMIT, Some nv, ?i2, h)"
    by (rule loop_emitted) (simp add: ne)
  note g2 = g1 [unfolded this]
  have "length T \<le> 2 ^ 31" using dt_size_length [of T] own by (simp add: inflater_owns_def MAX_UINT32_def)
  then have "between ?i2" using st i by (simp add: between_def)
  then show ?thesis unfolding repr_bytes.simps
    by (rule emittedI [OF g2]) (use own em in \<open>simp_all add: flag_is_def rc_same_def stays_def\<close>)
qed

lemma literal_name_reads:
  assumes at: "at_field ifl h X T" and i: "i < 61 + length T" and s: "length s \<le> NGHTTP2_HD_MAX_NV"
    and r_def: "r = inflate_loop inlen fin False ifl (repr_bytes (Repr_Name mode i s) @ rest) h"
  shows "no_memory r \<or> emitted ifl h X (repr_table (hc_bufsize_max (if_ctx ifl)) T (Repr_Name mode i s)) (fst (dt_get T i), s)
    (Some (mode = NGHTTP2_HD_NEVER_INDEXING)) (inlen - length rest) r"
proof -
  let ?wi = "mode = NGHTTP2_HD_WITH_INDEXING" and ?nv = "mode = NGHTTP2_HD_NEVER_INDEXING"
  let ?pfx = "if ?wi then 6 else 4 :: nat"
  let ?int = "hd_int (pack_first_byte mode) (i + 1) ?pfx"
  let ?inp = "?int @ str_bytes s @ rest"
  let ?i1 = "ifl\<lparr>if_opcode := NGHTTP2_HD_OPCODE_INDNAME, if_state := NGHTTP2_HD_STATE_READ_INDEX,
    if_index_required := ?wi, if_no_index := ?nv, if_left := 0, if_shift := 0\<rparr>"
  have st: "if_namercbuf ifl = None" "if_valuercbuf ifl = None" "if_name_keep ifl = None" "if_value_keep ifl = None"
    and own: "inflater_owns ifl h X T"
    using at by (simp_all add: at_field_def at_rest_def)
  have ne: "?int \<noteq> []" by (subst head_byte) simp
  have pos: "0 < i + 1" by simp
  note byte = name_byte [OF pos refl, of mode]
  obtain b bs where b: "?int = b # bs" "b = pack_first_byte mode OR word_of_nat (min (i + 1) (prefix_max ?pfx))"
    using head_byte [of "pack_first_byte mode" "i + 1" ?pfx] by blast
  have "inflate_case ifl ?inp h = Inr (Go False, ?i1, ?inp, h)"
    unfolding b(1) append_Cons using case_literal [OF at byte(1) refl, of "bs @ str_bytes s @ rest"] byte(2) b(2) by simp
  then have g1: "r = inflate_loop inlen fin False ?i1 ?inp h"
    unfolding r_def repr_bytes.simps append_assoc by (rule loop_go) (simp add: ne)
  have own1: "inflater_owns ?i1 h X T" using own by simp
  have zero: "if_left ?i1 = 0" "if_shift ?i1 = 0" by simp_all
  have pfx: "0 < ?pfx" "?pfx < 8" "pack_first_byte mode AND word_of_nat (prefix_max ?pfx) = 0"
    by (cases "mode = NGHTTP2_HD_WITH_INDEXING"; simp)+
  obtain sh n where num: "hd_inflate_read_len ?i1 ?inp ?pfx (get_max_index (if_ctx ?i1)) =
      Inr (int n, True, ?i1\<lparr>if_shift := sh, if_left := i + 1\<rparr>)" "drop n ?inp = str_bytes s @ rest"
    by (rule index_number [OF own1 zero i pfx])
  let ?i2 = "?i1\<lparr>if_shift := sh, if_left := i + 1, if_index := i, if_state := NGHTTP2_HD_STATE_CHECK_VALUELEN\<rparr>"
  have p1: "(if if_opcode ?i1 = NGHTTP2_HD_OPCODE_INDEXED then 7 else if if_index_required ?i1 then 6 else 4) = ?pfx" by simp
  have "inflate_case ?i1 ?inp h = inflate_index ?i1 ?inp h" by (simp add: inflate_case_def)
  also have "\<dots> = Inr (Go False, ?i2, str_bytes s @ rest, h)"
    unfolding inflate_index_def Let_def p1 num(1) using num(2) by (simp del: drop_append)
  finally have "inflate_loop inlen fin False ?i1 ?inp h = inflate_loop inlen fin False ?i2 (str_bytes s @ rest) h"
    by (rule loop_go) (simp add: ne)
  note g2 = g1 [unfolded this]
  have "at_value ?i2 h X T (fst (dt_get T i))" using st own i by (simp add: at_value_def at_rest_def)
  from value_reads [OF this s g2] show ?thesis
    by (rule reads_from) (simp_all add: stays_def rc_same_def repr_table_def)
qed

lemma new_byte: "literal_byte (pack_first_byte mode) (mode = NGHTTP2_HD_WITH_INDEXING) (mode = NGHTTP2_HD_NEVER_INDEXING)"
    "pack_first_byte mode \<in> {0x40, 0, 0x10}"
  using new_bytes by (cases mode; simp add: pack_first_byte_def)+

lemma literal_new_reads:
  assumes at: "at_field ifl h X T" and s: "length nm \<le> NGHTTP2_HD_MAX_NV" "length s \<le> NGHTTP2_HD_MAX_NV"
    and r_def: "r = inflate_loop inlen fin False ifl (repr_bytes (Repr_New mode nm s) @ rest) h"
  shows "no_memory r \<or> emitted ifl h X (repr_table (hc_bufsize_max (if_ctx ifl)) T (Repr_New mode nm s)) (nm, s)
    (Some (mode = NGHTTP2_HD_NEVER_INDEXING)) (inlen - length rest) r"
proof -
  let ?wi = "mode = NGHTTP2_HD_WITH_INDEXING" and ?nv = "mode = NGHTTP2_HD_NEVER_INDEXING"
  let ?i1 = "ifl\<lparr>if_opcode := NGHTTP2_HD_OPCODE_NEWNAME, if_state := NGHTTP2_HD_STATE_NEWNAME_CHECK_NAMELEN,
    if_index_required := ?wi, if_no_index := ?nv, if_left := 0, if_shift := 0\<rparr>"
  have c: "inflate_case ifl (pack_first_byte mode # str_bytes nm @ str_bytes s @ rest) h = Inr (Go False, ?i1, str_bytes nm @ str_bytes s @ rest, h)"
    using case_literal [OF at new_byte(1) refl, of mode "str_bytes nm @ str_bytes s @ rest"] new_byte(2) [of mode] by simp
  have g1: "r = inflate_loop inlen fin False ?i1 (str_bytes nm @ str_bytes s @ rest) h"
    unfolding r_def repr_bytes.simps append_assoc append_Cons by (rule loop_go [OF c]) simp
  have at1: "at_name ?i1 h X T" using at by (simp add: at_name_def at_field_def at_rest_def)
  have "str_bytes s @ rest \<noteq> []" by simp
  from name_reads [where inlen = inlen and fin = fin and busy = False, OF at1 s(1) this] show ?thesis
  proof (elim disjE exE conjE)
    assume "no_memory (inflate_loop inlen fin False ?i1 (str_bytes nm @ str_bytes s @ rest) h)"
    then show ?thesis using g1 by simp
  next
    fix ifl' h'
    assume n: "inflate_loop inlen fin False ?i1 (str_bytes nm @ str_bytes s @ rest) h = inflate_loop inlen fin False ifl' (str_bytes s @ rest) h'"
      "at_value ifl' h' X T nm" "same_field ?i1 ifl'" "rc_same h h' X"
    from value_reads [OF n(2) s(2) g1 [unfolded n(1)]] show ?thesis
      by (rule reads_from) (use n(3,4) in \<open>simp_all add: same_field_def stays_def repr_table_def\<close>)
  qed
qed

lemma repr_reads:
  assumes at: "at_field ifl h X T" and ok: "repr_ok T q" "repr_pair T q = Some p" and fits: "pair_fits p"
    and r_def: "r = inflate_loop inlen fin False ifl (repr_bytes q @ rest) h"
  shows "no_memory r \<or> emitted ifl h X (repr_table (hc_bufsize_max (if_ctx ifl)) T q) p
    (map_option (\<lambda>m. m = NGHTTP2_HD_NEVER_INDEXING) (repr_mode q)) (inlen - length rest) r"
proof (cases q)
  case (Repr_Index i)
  then have "i < 61 + length T" "p = dt_get T i" using ok by (simp_all add: repr_ok_def)
  then show ?thesis using index_reads [OF at, of i inlen rest fin] Repr_Index r_def by (simp add: repr_table_def)
next
  case (Repr_Name mode i s)
  then have i: "i < 61 + length T" "length s \<le> NGHTTP2_HD_MAX_NV" using ok fits by (auto simp: repr_ok_def pair_fits_def)
  show ?thesis using literal_name_reads [OF at i r_def [unfolded Repr_Name]] Repr_Name ok(2) by simp
next
  case (Repr_New mode nm s)
  then have "length nm \<le> NGHTTP2_HD_MAX_NV" "length s \<le> NGHTTP2_HD_MAX_NV" using ok(2) fits by (auto simp: pair_fits_def)
  from literal_new_reads [OF at this r_def [unfolded Repr_New]] show ?thesis using Repr_New ok(2) by simp
next
  case (Repr_Size n)
  then show ?thesis using ok(2) by simp
qed

section \<open>A table size\<close>

text \<open>The table and its limit, at the beginning of a block.\<close>

definition at_start :: "nghttp2_hd_inflater \<Rightarrow> rc_heap \<Rightarrow> owned multiset \<Rightarrow> hd_pair list \<Rightarrow> bool" where
  "at_start ifl h X T \<longleftrightarrow> at_rest ifl h X T \<and> if_namercbuf ifl = None \<and>
     (if_state ifl = NGHTTP2_HD_STATE_EXPECT_TABLE_SIZE \<or> if_state ifl = NGHTTP2_HD_STATE_INFLATE_START)"

lemma case_size:
  assumes "at_start ifl h X T"
  shows "inflate_case ifl (hd_int 0x20 n 5 @ rest) h =
    Inr (Go False, ifl\<lparr>if_opcode := NGHTTP2_HD_OPCODE_INDEXED, if_state := NGHTTP2_HD_STATE_READ_TABLE_SIZE, if_left := 0, if_shift := 0\<rparr>,
      hd_int 0x20 n 5 @ rest, h)"
proof -
  let ?k = "min n (prefix_max 5)"
  have k: "?k < 32" by (simp add: prefix_max_values min_def)
  have b: "byte_at (hd_int 0x20 n 5 @ rest) 0 = Inr (0x20 OR word_of_nat ?k)" by (subst head_byte) (simp add: byte_at_def)
  have i: "inflate_case ifl (hd_int 0x20 n 5 @ rest) h = inflate_opcode ifl (hd_int 0x20 n 5 @ rest) h"
    using assms by (auto simp: at_start_def inflate_case_def)
  show ?thesis unfolding i inflate_opcode_def b res_bind_Inr
    using upt_all [OF size_bytes _ k] assms by (auto simp: at_start_def)
qed

lemma size_reads:
  assumes at: "at_start ifl h X T" and n: "n \<le> if_min ifl" "n \<le> if_settings_max ifl"
  obtains ifl' h' where
    "inflate_loop inlen fin False ifl (repr_bytes (Repr_Size n) @ rest) h = inflate_loop inlen fin False ifl' rest h'"
    "at_start ifl' h' X (dt_fit n T)" "rc_same h h' X" "hc_bufsize_max (if_ctx ifl') = n" "if_min ifl' = MAX_UINT32"
    "if_settings_max ifl' = if_settings_max ifl" "hc_bad (if_ctx ifl') = hc_bad (if_ctx ifl)" "if_state ifl' = NGHTTP2_HD_STATE_INFLATE_START"
proof -
  let ?inp = "hd_int 0x20 n 5 @ rest"
  let ?i1 = "ifl\<lparr>if_opcode := NGHTTP2_HD_OPCODE_INDEXED, if_state := NGHTTP2_HD_STATE_READ_TABLE_SIZE, if_left := 0, if_shift := 0\<rparr>"
  have st: "if_namercbuf ifl = None" "if_valuercbuf ifl = None" "if_name_keep ifl = None" "if_value_keep ifl = None"
    and own: "inflater_owns ifl h X T"
    using at by (simp_all add: at_start_def at_rest_def)
  have ne: "?inp \<noteq> []" by (subst head_byte) simp
  have g1: "inflate_loop inlen fin False ifl ?inp h = inflate_loop inlen fin False ?i1 ?inp h"
    by (rule loop_go [OF case_size [OF at]]) (use ne in blast)
  have tab: "hd_table (if_ctx ifl) None h X T" and lim: "if_settings_max ifl \<le> MAX_UINT32"
    using own st by (simp_all add: inflater_owns_def if_refs_def)
  have small: "n < 2 ^ 32" using n(2) lim by (simp add: MAX_UINT32_def)
  have pfx: "0 < (5 :: nat)" "(5 :: nat) < 8" "(0x20 :: byte) AND word_of_nat (prefix_max 5) = 0" by simp_all
  have max: "n \<le> min (if_min ?i1) (if_settings_max ?i1)" using n by simp
  have zero: "if_left ?i1 = 0" "if_shift ?i1 = 0" by simp_all
  obtain sh where len: "hd_inflate_read_len ?i1 ?inp 5 (min (if_min ?i1) (if_settings_max ?i1)) =
      Inr (int (length (hd_int 0x20 n 5)), True, ?i1\<lparr>if_shift := sh, if_left := n\<rparr>)"
    by (rule read_len_int [OF pfx small max zero])
  let ?c = "(if_ctx ifl)\<lparr>hc_bufsize_max := n\<rparr>"
  have "hd_table ?c None h X T" by (rule table_limit [OF tab]) (use small in simp)
  from hd_table_shrink [OF this] obtain ctx hmap h' where s: "hd_context_shrink_table_size ?c None h = Inr (ctx, hmap, h')"
    "hd_table ctx hmap h' X (dt_fit n T)" "hc_bufsize_max ctx = n" "hc_bad ctx = hc_bad (if_ctx ifl)" "rc_same h h' X" "hmap = None" by auto
  let ?i2 = "?i1\<lparr>if_shift := sh, if_left := n, if_min := MAX_UINT32, if_ctx := ctx, if_state := NGHTTP2_HD_STATE_INFLATE_START\<rparr>"
  have "inflate_case ?i1 ?inp h = inflate_table_size ?i1 ?inp h" by (simp add: inflate_case_def)
  also have "\<dots> = Inr (Go False, ?i2, rest, h')"
    unfolding inflate_table_size_def Let_def len using s(1) by simp
  finally have g2: "inflate_loop inlen fin False ?i1 ?inp h = inflate_loop inlen fin False ?i2 rest h'"
    by (rule loop_go) (use ne in blast)
  have "inflater_owns ?i2 h' X (dt_fit n T)"
    using s(2,3,6) st n(2) lim dt_fit_size [of n T] by (simp add: inflater_owns_def if_refs_def)
  then have at2: "at_start ?i2 h' X (dt_fit n T)" using st by (simp add: at_start_def at_rest_def)
  show ?thesis
    by (rule that [of ?i2 h', unfolded repr_bytes.simps, OF trans [OF g1 g2] at2 s(5)]) (use s(3,4) in simp_all)
qed

lemma sizes_read:
  assumes at: "at_start ifl h X S"
    and lim: "df_notify d \<longrightarrow> min (df_min d) (df_limit d) \<le> if_min ifl \<and> df_limit d \<le> if_settings_max ifl \<and> df_limit d \<le> MAX_UINT32"
    and L: "L = hc_bufsize_max (if_ctx ifl)"
  obtains ifl' h' where
    "inflate_loop inlen fin False ifl (block_bytes (df_sizes d) @ rest) h = inflate_loop inlen fin False ifl' rest h'"
    "at_start ifl' h' X (snd (fold dec_size (df_sizes d) (L, S)))" "hc_bufsize_max (if_ctx ifl') = fst (fold dec_size (df_sizes d) (L, S))"
    "rc_same h h' X" "if_min ifl' = (if df_notify d then MAX_UINT32 else if_min ifl)"
    "if_settings_max ifl' = if_settings_max ifl" "hc_bad (if_ctx ifl') = hc_bad (if_ctx ifl)"
    "df_notify d \<longrightarrow> if_state ifl' = NGHTTP2_HD_STATE_INFLATE_START" "\<not> df_notify d \<longrightarrow> if_state ifl' = if_state ifl"
proof -
  consider (none) "\<not> df_notify d" | (one) "df_notify d" "\<not> df_min d < df_limit d" | (two) "df_notify d" "df_min d < df_limit d" by blast
  then show ?thesis
  proof cases
    case none
    then have "df_sizes d = []" by (simp add: df_sizes_def)
    then show ?thesis by (intro that [of ifl h]) (use none at L in \<open>simp_all add: rc_same_def\<close>)
  next
    case one
    have "df_limit d \<le> if_min ifl" "df_limit d \<le> if_settings_max ifl" using lim one by simp_all
    then obtain ifl1 h1 where r: "inflate_loop inlen fin False ifl (repr_bytes (Repr_Size (df_limit d)) @ rest) h = inflate_loop inlen fin False ifl1 rest h1"
      "at_start ifl1 h1 X (dt_fit (df_limit d) S)" "rc_same h h1 X" "hc_bufsize_max (if_ctx ifl1) = df_limit d" "if_min ifl1 = MAX_UINT32"
      "if_settings_max ifl1 = if_settings_max ifl" "hc_bad (if_ctx ifl1) = hc_bad (if_ctx ifl)" "if_state ifl1 = NGHTTP2_HD_STATE_INFLATE_START"
      by (rule size_reads [OF at])
    show ?thesis by (rule that [of ifl1 h1]) (use r one in \<open>simp_all add: df_sizes_def dec_size_def del: repr_bytes.simps\<close>)
  next
    case two
    have n: "df_min d \<le> if_min ifl" "df_min d \<le> if_settings_max ifl" using lim two by simp_all
    obtain ifl1 h1 where r: "inflate_loop inlen fin False ifl (repr_bytes (Repr_Size (df_min d)) @ repr_bytes (Repr_Size (df_limit d)) @ rest) h =
        inflate_loop inlen fin False ifl1 (repr_bytes (Repr_Size (df_limit d)) @ rest) h1"
      "at_start ifl1 h1 X (dt_fit (df_min d) S)" "rc_same h h1 X" "hc_bufsize_max (if_ctx ifl1) = df_min d" "if_min ifl1 = MAX_UINT32"
      "if_settings_max ifl1 = if_settings_max ifl" "hc_bad (if_ctx ifl1) = hc_bad (if_ctx ifl)" "if_state ifl1 = NGHTTP2_HD_STATE_INFLATE_START"
      by (rule size_reads [OF at n])
    have n1: "df_limit d \<le> if_min ifl1" "df_limit d \<le> if_settings_max ifl1" using lim two r(5,6) by simp_all
    obtain ifl2 h2 where s: "inflate_loop inlen fin False ifl1 (repr_bytes (Repr_Size (df_limit d)) @ rest) h1 = inflate_loop inlen fin False ifl2 rest h2"
      "at_start ifl2 h2 X (dt_fit (df_limit d) (dt_fit (df_min d) S))" "rc_same h1 h2 X" "hc_bufsize_max (if_ctx ifl2) = df_limit d" "if_min ifl2 = MAX_UINT32"
      "if_settings_max ifl2 = if_settings_max ifl1" "hc_bad (if_ctx ifl2) = hc_bad (if_ctx ifl1)" "if_state ifl2 = NGHTTP2_HD_STATE_INFLATE_START"
      by (rule size_reads [OF r(2) n1])
    have "rc_same h h2 X" by (rule rc_same_trans [OF r(3) s(3)]) simp
    then show ?thesis using r s two
      by (intro that [of ifl2 h2]) (simp_all add: df_sizes_def dec_size_def del: repr_bytes.simps)
  qed
qed

section \<open>A block, as examples/deflate.c reads it\<close>

text \<open>
  What the loop prints: a field, whose flags it does not print, or the code of an error. The loop of C
  has no bound of its own.
\<close>

datatype printed =
    Field bytes bytes byte
  | Inflate_Failed int

partial_function (option) inflate_header_block ::
  "nghttp2_hd_inflater \<Rightarrow> bytes \<Rightarrow> bool \<Rightarrow> printed list \<Rightarrow> rc_heap \<Rightarrow>
    (int \<times> printed list \<times> nghttp2_hd_inflater \<times> rc_heap) res option" where
  "inflate_header_block ifl inp fin out h =
     (case nghttp2_hd_inflate_hd ifl inp fin h of
        Inl e \<Rightarrow> Some (Inl e)
      | Inr (rv, flags, nv, ifl1, h1) \<Rightarrow>
          if rv < 0 then Some (Inr (-1, out @ [Inflate_Failed rv], ifl1, h1))
          else
            (let inp1 = drop (nat rv) inp;
                 out1 = (if flags AND NGHTTP2_HD_INFLATE_EMIT \<noteq> 0 then out @ (case nv of None \<Rightarrow> [] | Some (n, v, f) \<Rightarrow> [Field n v f]) else out)
             in if flags AND NGHTTP2_HD_INFLATE_FINAL \<noteq> 0 then
                  Some (res_bind (nghttp2_hd_inflate_end_headers ifl1 h1) (\<lambda>(_, ifl2, h2). Inr (0, out1, ifl2, h2)))
                else if flags AND NGHTTP2_HD_INFLATE_EMIT = 0 \<and> inp1 = [] then Some (Inr (0, out1, ifl1, h1))
                else inflate_header_block ifl1 inp1 fin out1 h1))"

declare inflate_header_block.simps [code]

definition waiting :: "nghttp2_hd_inflater \<Rightarrow> rc_heap \<Rightarrow> owned multiset \<Rightarrow> hd_pair list \<Rightarrow> bool" where
  "waiting ifl h X T \<longleftrightarrow> inflater_owns ifl h X T \<and> if_namercbuf ifl = None \<and> if_valuercbuf ifl = None \<and>
     \<not> hc_bad (if_ctx ifl)"

text \<open>A call first lets go of the pair of the last one.\<close>

lemma call_starts:
  assumes "waiting ifl h X T"
  obtains ifl1 h1 where "nghttp2_hd_inflate_hd_nv ifl inp fin h = inflate_loop (length inp) fin False ifl1 inp h1"
    "at_rest ifl1 h1 X T" "if_namercbuf ifl1 = None" "rc_same h h1 X" "stays ifl ifl1" "if_state ifl1 = if_state ifl"
proof -
  have own: "inflater_owns ifl h X T" using assms by (simp add: waiting_def)
  let ?i = "ifl\<lparr>if_value_keep := None, if_name_keep := None\<rparr>"
  obtain h' where k: "hd_inflate_keep_free ifl h = Inr (?i, h')" "inflater_owns ?i h' X T" "rc_same h h' X"
    "if_name_keep ifl = None \<and> if_value_keep ifl = None \<longrightarrow> h' = h"
    by (rule keep_free_ok [OF own])
  have eq: "nghttp2_hd_inflate_hd_nv ifl inp fin h = inflate_loop (length inp) fin False ?i inp h'"
    using assms k(1) by (simp add: nghttp2_hd_inflate_hd_nv_def waiting_def)
  show ?thesis
    by (rule that [OF eq _ _ k(3)]) (use k(2) assms in \<open>simp_all add: waiting_def at_rest_def stays_def\<close>)
qed

lemma flag_values [simp]:
  "NGHTTP2_HD_INFLATE_EMIT \<noteq> 0" "NGHTTP2_HD_INFLATE_FINAL \<noteq> 0" "NGHTTP2_HD_INFLATE_EMIT AND NGHTTP2_HD_INFLATE_FINAL = 0"
  "NGHTTP2_HD_INFLATE_FINAL AND NGHTTP2_HD_INFLATE_EMIT = 0"
  "NGHTTP2_HD_INFLATE_NONE AND NGHTTP2_HD_INFLATE_EMIT = 0" "NGHTTP2_HD_INFLATE_NONE AND NGHTTP2_HD_INFLATE_FINAL = 0"
  by (simp_all add: NGHTTP2_HD_INFLATE_EMIT_def NGHTTP2_HD_INFLATE_FINAL_def NGHTTP2_HD_INFLATE_NONE_def)

lemma block_emits:
  assumes "nghttp2_hd_inflate_hd_nv ifl (pre @ rest) fin h = Inr (ssize_t_of (length (pre @ rest) - length rest), NGHTTP2_HD_INFLATE_EMIT, Some e, ifl1, h1)"
    "emits_pair e h1 p" "length pre < 2 ^ 63"
  shows "inflate_header_block ifl (pre @ rest) fin out h = inflate_header_block ifl1 rest fin (out @ [Field (fst p) (snd p) (hn_flags e)]) h1"
proof -
  have rv: "ssize_t_of (length (pre @ rest) - length rest) = int (length pre)" using ssize_small [OF assms(3)] by simp
  have "nghttp2_hd_inflate_hd ifl (pre @ rest) fin h = Inr (int (length pre), NGHTTP2_HD_INFLATE_EMIT, Some (fst p, snd p, hn_flags e), ifl1, h1)"
    using assms(1,2) unfolding rv by (simp add: nghttp2_hd_inflate_hd_def nghttp2_hd_inflate_hd2_def emits_pair_def)
  then show ?thesis by (subst inflate_header_block.simps) simp
qed

lemma block_fails:
  assumes "nghttp2_hd_inflate_hd_nv ifl inp fin h = inflate_fail NGHTTP2_ERR_NOMEM ifl1 h1"
  shows "\<exists>ifl1 h1. inflate_header_block ifl inp fin out h = Some (Inr (-1, out @ [Inflate_Failed NGHTTP2_ERR_NOMEM], ifl1, h1))"
proof -
  have "nghttp2_hd_inflate_hd ifl inp fin h =
      Inr (NGHTTP2_ERR_NOMEM, NGHTTP2_HD_INFLATE_NONE, None, ifl1\<lparr>if_ctx := (if_ctx ifl1)\<lparr>hc_bad := True\<rparr>\<rparr>, h1)"
    using assms by (simp add: nghttp2_hd_inflate_hd_def nghttp2_hd_inflate_hd2_def inflate_fail_def NGHTTP2_ERR_NOMEM_def)
  then show ?thesis by (subst inflate_header_block.simps) (simp add: NGHTTP2_ERR_NOMEM_def)
qed

lemma block_ends:
  assumes "nghttp2_hd_inflate_hd_nv ifl inp True h = inflate_loop (length inp) True False ifl1 [] h1" "at_field ifl1 h1 X T"
    "\<not> hc_bad (if_ctx ifl1)" "length inp < 2 ^ 63"
  obtains ifl2 where "inflate_header_block ifl inp True out h = Some (Inr (0, out, ifl2, h1))"
    "waiting ifl2 h1 X T" "if_state ifl2 = NGHTTP2_HD_STATE_INFLATE_START" "stays ifl1 ifl2"
proof -
  have st: "if_name_keep ifl1 = None" "if_value_keep ifl1 = None" "if_namercbuf ifl1 = None" "if_valuercbuf ifl1 = None" "inflater_owns ifl1 h1 X T"
    using assms(2) by (simp_all add: at_field_def at_rest_def)
  have "nghttp2_hd_inflate_hd ifl inp True h = Inr (int (length inp), NGHTTP2_HD_INFLATE_FINAL, None, ifl1, h1)"
    using assms by (subst (asm) inflate_loop.simps) (auto simp: nghttp2_hd_inflate_hd_def nghttp2_hd_inflate_hd2_def at_field_def ssize_small)
  moreover have "hd_inflate_keep_free ifl1 h1 = Inr (ifl1, h1)"
    using st by (simp add: hd_inflate_keep_free_def nghttp2_rcbuf_decref_def)
  ultimately have "inflate_header_block ifl inp True out h = Some (Inr (0, out, ifl1\<lparr>if_state := NGHTTP2_HD_STATE_INFLATE_START\<rparr>, h1))"
    by (subst inflate_header_block.simps) (simp add: nghttp2_hd_inflate_end_headers_def)
  then show ?thesis
    by (rule that) (use st assms(3) in \<open>simp_all add: waiting_def stays_def\<close>)
qed

text \<open>The fields of a block, from the first of them.\<close>

fun pair_of :: "printed \<Rightarrow> hd_pair" where
  "pair_of (Field n v f) = (n, v)"
| "pair_of (Inflate_Failed rv) = ([], [])"

fun flags_of :: "printed \<Rightarrow> byte" where
  "flags_of (Field n v f) = f"
| "flags_of (Inflate_Failed rv) = 0"

definition shows_repr :: "hd_repr \<Rightarrow> printed \<Rightarrow> bool" where
  "shows_repr q x \<longleftrightarrow> flag_is (flags_of x) (map_option (\<lambda>m. m = NGHTTP2_HD_NEVER_INDEXING) (repr_mode q))"

text \<open>Memory may run out; then some of the pairs have been printed.\<close>

definition block_read ::
  "nghttp2_hd_inflater \<Rightarrow> rc_heap \<Rightarrow> owned multiset \<Rightarrow> printed list \<Rightarrow> hd_repr list \<Rightarrow> hd_pair list \<Rightarrow> hd_pair list \<Rightarrow>
    (int \<times> printed list \<times> nghttp2_hd_inflater \<times> rc_heap) res option \<Rightarrow> bool" where
  "block_read ifl h X out rs ps T r \<longleftrightarrow>
     (\<exists>k xs ifl' h'. r = Some (Inr (-1, out @ xs @ [Inflate_Failed NGHTTP2_ERR_NOMEM], ifl', h')) \<and> map pair_of xs = take k ps) \<or>
     (\<exists>xs ifl' h'. r = Some (Inr (0, out @ xs, ifl', h')) \<and> map pair_of xs = ps \<and> list_all2 shows_repr rs xs \<and>
        waiting ifl' h' X T \<and> if_state ifl' = NGHTTP2_HD_STATE_INFLATE_START \<and> rc_same h h' X \<and> stays ifl ifl')"

lemma block_readI1: "r = Some (Inr (-1, out @ xs @ [Inflate_Failed NGHTTP2_ERR_NOMEM], ifl', h')) \<Longrightarrow> map pair_of xs = take k ps \<Longrightarrow> block_read ifl h X out rs ps T r"
  unfolding block_read_def by (intro disjI1 exI conjI)

lemma block_readI2:
  "r = Some (Inr (0, out @ xs, ifl', h')) \<Longrightarrow> map pair_of xs = ps \<Longrightarrow> list_all2 shows_repr rs xs \<Longrightarrow> waiting ifl' h' X T \<Longrightarrow>
    if_state ifl' = NGHTTP2_HD_STATE_INFLATE_START \<Longrightarrow> rc_same h h' X \<Longrightarrow> stays ifl ifl' \<Longrightarrow> block_read ifl h X out rs ps T r"
  unfolding block_read_def by (intro disjI2 exI conjI)

lemma block_read_failed: "r = Some (Inr (-1, out @ [Inflate_Failed NGHTTP2_ERR_NOMEM], ifl', h')) \<Longrightarrow> block_read ifl h X out rs ps T r"
  by (rule block_readI1 [of _ _ "[]" _ _ 0]) simp_all

lemma block_read_more:
  assumes "block_read ifl1 h1 X (out @ [x]) rs ps T r" "pair_of x = p" "shows_repr q x" "rc_same h h1 X" "stays ifl ifl1"
  shows "block_read ifl h X out (q # rs) (p # ps) T r"
  using assms(1) [unfolded block_read_def]
proof (elim disjE exE conjE)
  fix k xs ifl' h'
  assume r: "r = Some (Inr (-1, (out @ [x]) @ xs @ [Inflate_Failed NGHTTP2_ERR_NOMEM], ifl', h'))" "map pair_of xs = take k ps"
  show ?thesis by (rule block_readI1 [of _ _ "x # xs" ifl' h' "Suc k"]) (use r assms(2) in simp_all)
next
  fix xs ifl' h'
  assume r: "r = Some (Inr (0, (out @ [x]) @ xs, ifl', h'))" "map pair_of xs = ps" "list_all2 shows_repr rs xs" "waiting ifl' h' X T"
    "if_state ifl' = NGHTTP2_HD_STATE_INFLATE_START" "rc_same h1 h' X" "stays ifl1 ifl'"
  have "rc_same h h' X" by (rule rc_same_trans [OF assms(4) r(6)]) simp
  moreover have "stays ifl ifl'" using assms(5) r(7) by (simp add: stays_def)
  ultimately show ?thesis
    by (intro block_readI2 [OF _ _ _ r(4,5), of _ _ "x # xs"]) (use r(1-3) assms(2,3) in simp_all)
qed

lemma fields_read:
  assumes "reprs_for limit T rs ps T'" "list_all pair_fits ps"
    "nghttp2_hd_inflate_hd_nv ifl (pre @ block_bytes rs) True h = inflate_loop (length (pre @ block_bytes rs)) True False ifl1 (block_bytes rs) h1"
    "at_field ifl1 h1 X T" "\<not> hc_bad (if_ctx ifl1)" "hc_bufsize_max (if_ctx ifl1) = limit" "length (pre @ block_bytes rs) < 2 ^ 63"
  shows "block_read ifl1 h1 X out rs ps T' (inflate_header_block ifl (pre @ block_bytes rs) True out h)"
  using assms
proof (induction limit T rs ps T' arbitrary: ifl pre h ifl1 h1 out rule: reprs_for.induct)
  case (1 limit T ps T')
  have loop: "nghttp2_hd_inflate_hd_nv ifl pre True h = inflate_loop (length pre) True False ifl1 [] h1" using "1.prems"(3) by simp
  have len: "length pre < 2 ^ 63" using "1.prems"(7) by simp
  obtain ifl2 where e: "inflate_header_block ifl pre True out h = Some (Inr (0, out, ifl2, h1))"
    "waiting ifl2 h1 X T" "if_state ifl2 = NGHTTP2_HD_STATE_INFLATE_START" "stays ifl1 ifl2"
    by (rule block_ends [OF loop "1.prems"(4,5) len])
  have z: "ps = []" "T' = T" "pre @ block_bytes [] = pre" using "1.prems"(1) by simp_all
  have "block_read ifl1 h1 X out [] [] T (Some (Inr (0, out, ifl2, h1)))"
    by (rule block_readI2 [of _ _ "[]" ifl2 h1]) (use e(2-4) in \<open>simp_all add: rc_same_def\<close>)
  then show ?case unfolding z e(1) .
next
  case (2 limit T q rs ps T')
  from "2.prems"(1) obtain p qs where ps: "ps = p # qs" "repr_ok T q" "repr_pair T q = Some p"
    "reprs_for limit (repr_table limit T q) rs qs T'" by (auto split: list.splits)
  let ?pre = "pre @ repr_bytes q"
  have inp: "pre @ block_bytes (q # rs) = ?pre @ block_bytes rs" by simp
  let ?r = "inflate_loop (length (?pre @ block_bytes rs)) True False ifl1 (repr_bytes q @ block_bytes rs) h1"
  have hd: "nghttp2_hd_inflate_hd_nv ifl (?pre @ block_bytes rs) True h = ?r" using "2.prems"(3) unfolding inp by simp
  have fits: "pair_fits p" using "2.prems"(2) ps(1) by simp
  from repr_reads [OF "2.prems"(4) ps(2,3) fits refl, of "length (?pre @ block_bytes rs)" True "block_bytes rs"] show ?case
  proof
    assume "no_memory ?r"
    then obtain i g where "nghttp2_hd_inflate_hd_nv ifl (?pre @ block_bytes rs) True h = inflate_fail NGHTTP2_ERR_NOMEM i g"
      using hd by (auto simp: no_memory_def)
    from block_fails [OF this, of out] show ?case unfolding inp using block_read_failed by blast
  next
    assume "emitted ifl1 h1 X (repr_table (hc_bufsize_max (if_ctx ifl1)) T q) p
      (map_option (\<lambda>m. m = NGHTTP2_HD_NEVER_INDEXING) (repr_mode q)) (length (?pre @ block_bytes rs) - length (block_bytes rs)) ?r"
    then obtain e ifl2 h2 where e: "?r = Inr (ssize_t_of (length (?pre @ block_bytes rs) - length (block_bytes rs)), NGHTTP2_HD_INFLATE_EMIT, Some e, ifl2, h2)"
      "between ifl2" "inflater_owns ifl2 h2 X (repr_table limit T q)" "emits_pair e h2 p"
      "flag_is (hn_flags e) (map_option (\<lambda>m. m = NGHTTP2_HD_NEVER_INDEXING) (repr_mode q))" "rc_same h1 h2 X" "stays ifl1 ifl2"
      unfolding emitted_def "2.prems"(6) by blast
    have len: "length ?pre < 2 ^ 63" "length ([] @ block_bytes rs) < 2 ^ 63" using "2.prems"(7) by simp_all
    have step: "inflate_header_block ifl (?pre @ block_bytes rs) True out h =
        inflate_header_block ifl2 (block_bytes rs) True (out @ [Field (fst p) (snd p) (hn_flags e)]) h2"
      by (rule block_emits [OF trans [OF hd e(1)] e(4) len(1)])
    have w: "waiting ifl2 h2 X (repr_table limit T q)"
      using e(2,3,7) "2.prems"(5) by (simp add: waiting_def between_def stays_def)
    obtain ifl3 h3 where c: "nghttp2_hd_inflate_hd_nv ifl2 ([] @ block_bytes rs) True h2 = inflate_loop (length ([] @ block_bytes rs)) True False ifl3 (block_bytes rs) h3"
      "at_rest ifl3 h3 X (repr_table limit T q)" "if_namercbuf ifl3 = None" "rc_same h2 h3 X" "stays ifl2 ifl3" "if_state ifl3 = if_state ifl2"
      using call_starts [OF w, of "block_bytes rs" True] by auto
    have at: "at_field ifl3 h3 X (repr_table limit T q)" using c(2,3,6) e(2) by (simp add: at_field_def between_def)
    have good: "\<not> hc_bad (if_ctx ifl3)" "hc_bufsize_max (if_ctx ifl3) = limit" using c(5) e(7) "2.prems"(5,6) by (simp_all add: stays_def)
    have ih: "block_read ifl3 h3 X (out @ [Field (fst p) (snd p) (hn_flags e)]) rs qs T'
        (inflate_header_block ifl2 ([] @ block_bytes rs) True (out @ [Field (fst p) (snd p) (hn_flags e)]) h2)"
      by (rule "2.IH" [OF ps(1,4) _ c(1) at good len(2)]) (use "2.prems"(2) ps(1) in simp)
    have "rc_same h1 h3 X" by (rule rc_same_trans [OF e(6) c(4)]) simp
    moreover have "stays ifl1 ifl3" using e(7) c(5) by (simp add: stays_def)
    ultimately have "block_read ifl1 h1 X out (q # rs) (p # qs) T' (inflate_header_block ifl2 (block_bytes rs) True (out @ [Field (fst p) (snd p) (hn_flags e)]) h2)"
      using ih e(5) by (intro block_read_more [where x = "Field (fst p) (snd p) (hn_flags e)"]) (auto simp: shows_repr_def)
    then show ?case unfolding inp ps(1) step .
  qed
qed

section \<open>Two ends of a connection\<close>

text \<open>
  The deflater of one end and the inflater of the other, between two blocks. Until the deflater has
  sent the change of a limit, the inflater's table is the older one.
\<close>

definition connected ::
  "nghttp2_hd_deflater \<Rightarrow> rc_heap \<Rightarrow> owned multiset \<Rightarrow> hd_pair list \<Rightarrow> nghttp2_hd_inflater \<Rightarrow> rc_heap \<Rightarrow> owned multiset \<Rightarrow> hd_pair list \<Rightarrow> bool" where
  "connected d h X T ifl hi Y S \<longleftrightarrow>
     deflater_holds d h X T \<and> hc_bad (df_ctx d) = False \<and> waiting ifl hi Y S \<and>
     (if if_state ifl = NGHTTP2_HD_STATE_EXPECT_TABLE_SIZE then df_notify d else if_state ifl = NGHTTP2_HD_STATE_INFLATE_START) \<and>
     peer_of d T (hc_bufsize_max (if_ctx ifl)) S \<and> df_min d \<le> if_min ifl \<and> df_limit d \<le> if_settings_max ifl"

lemma connectedD:
  assumes "connected d h X T ifl hi Y S"
  shows "deflater_holds d h X T" "hc_bad (df_ctx d) = False" "waiting ifl hi Y S" "peer_of d T (hc_bufsize_max (if_ctx ifl)) S"
    "df_min d \<le> if_min ifl" "df_limit d \<le> if_settings_max ifl"
    "if if_state ifl = NGHTTP2_HD_STATE_EXPECT_TABLE_SIZE then df_notify d else if_state ifl = NGHTTP2_HD_STATE_INFLATE_START"
  using assms by (simp_all add: connected_def)

text \<open>A block with the sizes in front of it.\<close>

lemma block_received:
  assumes "connected d h X T ifl hi Y S" "reprs_for (df_limit d) T rs ps T'" "list_all pair_fits ps"
    "length (block_bytes (df_sizes d @ rs)) < 2 ^ 63"
  obtains ifl0 hi0 where "block_read ifl0 hi0 Y out rs ps T' (inflate_header_block ifl (block_bytes (df_sizes d @ rs)) True out hi)"
    "rc_same hi hi0 Y" "hc_bufsize_max (if_ctx ifl0) = df_limit d" "if_settings_max ifl0 = if_settings_max ifl"
    "if_min ifl0 = (if df_notify d then MAX_UINT32 else if_min ifl)"
proof -
  note c = connectedD [OF assms(1)]
  let ?inp = "block_bytes (df_sizes d) @ block_bytes rs"
  obtain ifl1 h1 where r: "nghttp2_hd_inflate_hd_nv ifl ?inp True hi = inflate_loop (length ?inp) True False ifl1 ?inp h1"
    "at_rest ifl1 h1 Y S" "if_namercbuf ifl1 = None" "rc_same hi h1 Y" "stays ifl ifl1" "if_state ifl1 = if_state ifl"
    by (rule call_starts [OF c(3)])
  have at: "at_start ifl1 h1 Y S" using r(2,3,6) c(7) by (auto simp: at_start_def split: if_splits)
  have st: "hc_bufsize_max (if_ctx ifl1) = hc_bufsize_max (if_ctx ifl)" "if_settings_max ifl1 = if_settings_max ifl" "if_min ifl1 = if_min ifl"
    "hc_bad (if_ctx ifl1) = hc_bad (if_ctx ifl)"
    using r(5) by (simp_all add: stays_def)
  have small: "df_limit d \<le> MAX_UINT32" using c(1) by (simp add: deflater_holds_def df_limit_def)
  have lim: "df_notify d \<longrightarrow> min (df_min d) (df_limit d) \<le> if_min ifl1 \<and> df_limit d \<le> if_settings_max ifl1 \<and> df_limit d \<le> MAX_UINT32"
    using c(5,6) st small by (simp add: min_le_iff_disj)
  obtain ifl2 h2 where s: "inflate_loop (length ?inp) True False ifl1 ?inp h1 = inflate_loop (length ?inp) True False ifl2 (block_bytes rs) h2"
    "at_start ifl2 h2 Y (snd (fold dec_size (df_sizes d) (hc_bufsize_max (if_ctx ifl), S)))"
    "hc_bufsize_max (if_ctx ifl2) = fst (fold dec_size (df_sizes d) (hc_bufsize_max (if_ctx ifl), S))"
    "rc_same h1 h2 Y" "if_min ifl2 = (if df_notify d then MAX_UINT32 else if_min ifl1)"
    "if_settings_max ifl2 = if_settings_max ifl1" "hc_bad (if_ctx ifl2) = hc_bad (if_ctx ifl1)"
    "df_notify d \<longrightarrow> if_state ifl2 = NGHTTP2_HD_STATE_INFLATE_START" "\<not> df_notify d \<longrightarrow> if_state ifl2 = if_state ifl1"
    by (rule sizes_read [OF at lim st(1) [symmetric]])
  note peer = peer_sizes [OF c(4)]
  have at2: "at_field ifl2 h2 Y T"
    using s(2,8,9) peer c(7) r(6) by (auto simp: at_start_def at_field_def split: if_splits)
  have good: "\<not> hc_bad (if_ctx ifl2)" "hc_bufsize_max (if_ctx ifl2) = df_limit d"
    using s(3,7) st(4) c(3) peer by (simp_all add: waiting_def)
  have len: "length ?inp < 2 ^ 63" using assms(4) by simp
  have b: "block_read ifl2 h2 Y out rs ps T' (inflate_header_block ifl ?inp True out hi)"
    by (rule fields_read [OF assms(2,3) trans [OF r(1) s(1)] at2 good len])
  have "rc_same hi h2 Y" by (rule rc_same_trans [OF r(4) s(4)]) simp
  then show ?thesis
    by (intro that [of ifl2 h2]) (use b good(2) s(5,6) st(2,3) in simp_all)
qed

text \<open>Pairs that must not be indexed come out with the flag that says so.\<close>

fun all_marked :: "nghttp2_nv list \<Rightarrow> hd_pair list \<Rightarrow> printed list \<Rightarrow> bool" where
  "all_marked (nv # nva) (p # ps) (x # xs) \<longleftrightarrow>
     (if secret nv p then flags_of x AND NGHTTP2_NV_FLAG_NO_INDEX \<noteq> 0 else True) \<and> all_marked nva ps xs"
| "all_marked nva ps xs \<longleftrightarrow> nva = [] \<and> ps = [] \<and> xs = []"

lemma hidden_marked: "all_hidden nva ps rs \<Longrightarrow> list_all2 shows_repr rs xs \<Longrightarrow> all_marked nva ps xs"
  by (induction nva ps rs arbitrary: xs rule: all_hidden.induct)
    (auto simp: list_all2_Cons1 shows_repr_def flag_is_def)

lemma pair_fits_short: "list_all pair_fits ps \<Longrightarrow> list_all pair_short ps"
  by (auto simp: list_all_iff pair_fits_def pair_short_def NGHTTP2_HD_MAX_NV_def)

lemma block_both:
  assumes con: "connected d h X T ifl hi Y S" and b: "bufs_wf b" "bufs_roomy b" "bufs_content b = []"
    and ps: "list_all2 nv_holds nva ps" "list_all pair_fits ps" and bound: "nghttp2_hd_deflate_bound nva < 2 ^ 63"
  obtains (deflate) rv d' b' h' where "nghttp2_hd_deflate_hd_bufs d b nva h = Inr (rv, d', b', h')"
      "rv \<in> {NGHTTP2_ERR_NOMEM, NGHTTP2_ERR_HEADER_COMP, NGHTTP2_ERR_BUFFER_ERROR}"
  | (inflate) d' b' h' xs ifl' hi' where "nghttp2_hd_deflate_hd_bufs d b nva h = Inr (0, d', b', h')"
      "inflate_header_block ifl (bufs_content b') True [] hi = Some (Inr (-1, xs @ [Inflate_Failed NGHTTP2_ERR_NOMEM], ifl', hi'))"
      "map pair_of xs = take (length xs) ps"
  | (okay) d' b' h' xs ifl' hi' T' where "nghttp2_hd_deflate_hd_bufs d b nva h = Inr (0, d', b', h')"
      "inflate_header_block ifl (bufs_content b') True [] hi = Some (Inr (0, xs, ifl', hi'))" "map pair_of xs = ps"
      "all_marked nva ps xs" "connected d' h' X T' ifl' hi' Y T'"
      "length (bufs_content b') \<le> nghttp2_hd_deflate_bound nva" "rc_same h h' X" "rc_same hi hi' Y"
proof -
  note c = connectedD [OF con]
  have short: "list_all pair_short ps" by (rule pair_fits_short [OF ps(2)])
  obtain rv d' b' h' T' where r: "nghttp2_hd_deflate_hd_bufs d b nva h = Inr (rv, d', b', h')" "deflater_holds d' h' X T'"
    "rc_same h h' X" "bufs_wf b'" "df_limit d' = df_limit d"
    "rv = 0 \<or> rv = NGHTTP2_ERR_NOMEM \<or> rv = NGHTTP2_ERR_HEADER_COMP \<or> rv = NGHTTP2_ERR_BUFFER_ERROR"
    "hc_bad (df_ctx d') = (rv \<noteq> 0)" "df_notify d' = False"
    "rv = 0 \<longrightarrow> (\<exists>rs. reprs_for (df_limit d) T rs ps T' \<and> all_private d nva ps rs \<and>
      bufs_content b' = bufs_content b @ block_bytes (df_sizes d @ rs))"
    by (rule deflate_bufs_ok [OF c(1,2) b(1,2) ps(1) pair_short_small [OF short]])
  show ?thesis
  proof (cases "rv = 0")
    case False
    then have "rv \<in> {NGHTTP2_ERR_NOMEM, NGHTTP2_ERR_HEADER_COMP, NGHTTP2_ERR_BUFFER_ERROR}" using r(6) by blast
    then show ?thesis using deflate [OF r(1)] by blast
  next
    case True
    from mp [OF r(9) True] b(3) obtain rs where rs: "reprs_for (df_limit d) T rs ps T'" "all_private d nva ps rs"
      "bufs_content b' = block_bytes (df_sizes d @ rs)" by auto
    have small: "df_limit d \<le> MAX_UINT32" using c(1) by (simp add: deflater_holds_def df_limit_def)
    have "length (bufs_content b') \<le> nghttp2_hd_deflate_bound nva"
      using reprs_length [OF rs(1) short deflater_length [OF c(1)] small] df_sizes_length [OF c(1)] rs(3) bound_pairs [OF ps(1)] by simp
    note size = this
    have len: "length (block_bytes (df_sizes d @ rs)) < 2 ^ 63" using size bound rs(3) by simp
    obtain ifl0 hi0 where i: "block_read ifl0 hi0 Y [] rs ps T' (inflate_header_block ifl (block_bytes (df_sizes d @ rs)) True [] hi)"
      "rc_same hi hi0 Y" "hc_bufsize_max (if_ctx ifl0) = df_limit d" "if_settings_max ifl0 = if_settings_max ifl"
      "if_min ifl0 = (if df_notify d then MAX_UINT32 else if_min ifl)"
      by (rule block_received [OF con rs(1) ps(2) len])
    have r0: "nghttp2_hd_deflate_hd_bufs d b nva h = Inr (0, d', b', h')" using r(1) True by simp
    from i(1) [unfolded block_read_def] show ?thesis
    proof (elim disjE exE conjE)
      fix k xs ifl' hi'
      assume x: "inflate_header_block ifl (block_bytes (df_sizes d @ rs)) True [] hi = Some (Inr (-1, [] @ xs @ [Inflate_Failed NGHTTP2_ERR_NOMEM], ifl', hi'))"
        "map pair_of xs = take k ps"
      have "length xs = min k (length ps)" using arg_cong [OF x(2), of length] by (simp add: min.commute)
      then have "map pair_of xs = take (length xs) ps" using x(2) by (simp add: min_def)
      then show ?thesis using inflate [OF r0] x(1) rs(3) by simp
    next
      fix xs ifl' hi'
      assume x: "inflate_header_block ifl (block_bytes (df_sizes d @ rs)) True [] hi = Some (Inr (0, [] @ xs, ifl', hi'))"
        "map pair_of xs = ps" "list_all2 shows_repr rs xs" "waiting ifl' hi' Y T'" "if_state ifl' = NGHTTP2_HD_STATE_INFLATE_START"
        "rc_same hi0 hi' Y" "stays ifl0 ifl'"
      have same: "rc_same hi hi' Y" by (rule rc_same_trans [OF i(2) x(6)]) simp
      have marked: "all_marked nva ps xs" by (rule hidden_marked [OF private_hidden [OF ps(1) rs(2)] x(3)])
      have min: "df_min d' = MAX_UINT32" using r(2,8) by (simp add: deflater_holds_def)
      have "df_notify d \<or> df_min d = MAX_UINT32" using c(1) by (simp add: deflater_holds_def)
      then have "MAX_UINT32 \<le> if_min ifl0" using c(5) i(5) by auto
      then have "connected d' h' X T' ifl' hi' Y T'"
        using r(2,5,7,8) True x(4,5,7) i(3,4) c(6) min by (simp add: connected_def stays_def peer_of_def)
      then show ?thesis using okay [OF r0 _ x(2) marked _ size r(3) same] x(1) rs(3) by simp
    qed
  qed
qed

text \<open>The change of the limit, at both ends between the same two blocks.\<close>

lemma peer_shrink: "peer_of d T L S \<Longrightarrow> df_notify d \<Longrightarrow> df_limit d \<le> n \<Longrightarrow> peer_of d T n (dt_fit n S)"
  by (auto simp: peer_of_def dt_fit_fit min_def)

lemma limit_both:
  assumes con: "connected d h X T ifl hi Y S" and n: "n \<le> MAX_UINT32"
  obtains d' h' T' ifl' hi' S' where "nghttp2_hd_deflate_change_table_size d n h = Inr (0, d', h')"
    "nghttp2_hd_inflate_change_table_size ifl n hi = Inr (0, ifl', hi')" "connected d' h' X T' ifl' hi' Y S'" "rc_same h h' X" "rc_same hi hi' Y"
proof -
  note c = connectedD [OF con]
  obtain d' h' where d: "nghttp2_hd_deflate_change_table_size d n h = Inr (0, d', h')"
    "deflater_holds d' h' X (dt_fit (min n (df_table_max d)) T)" "df_limit d' = min n (df_table_max d)"
    "df_min d' = min (df_min d) (min n (df_table_max d))" "df_notify d'" "rc_same h h' X" "hc_bad (df_ctx d') = hc_bad (df_ctx d)"
    "df_table_max d' = df_table_max d"
    by (rule change_size_ok [OF c(1)])
  have "min n (df_table_max d) \<le> MAX_UINT32" using n by simp
  from peer_change [OF c(4,1) this d(3,4,5)]
  have peer: "peer_of d' (dt_fit (min n (df_table_max d)) T) (hc_bufsize_max (if_ctx ifl)) S" .
  have st: "\<not> (if_state ifl \<noteq> NGHTTP2_HD_STATE_EXPECT_TABLE_SIZE \<and> if_state ifl \<noteq> NGHTTP2_HD_STATE_INFLATE_START)"
    using c(7) by (auto split: if_splits)
  have own: "inflater_owns ifl hi Y S" using c(3) by (simp add: waiting_def)
  show ?thesis
  proof (cases "n < hc_bufsize_max (if_ctx ifl)")
    case less: True
    let ?c = "(if_ctx ifl)\<lparr>hc_bufsize_max := n\<rparr>"
    have "hd_table ?c None hi (if_refs ifl + Y) S"
      by (rule table_limit) (use own n in \<open>simp_all add: inflater_owns_def MAX_UINT32_def\<close>)
    from hd_table_shrink [OF this] obtain ctx hmap hi' where s: "hd_context_shrink_table_size ?c None hi = Inr (ctx, hmap, hi')"
      "hd_table ctx hmap hi' (if_refs ifl + Y) (dt_fit n S)" "hc_bufsize_max ctx = n" "hc_bad ctx = hc_bad (if_ctx ifl)"
      "rc_same hi hi' (if_refs ifl + Y)" "hmap = None" by auto
    let ?i = "ifl\<lparr>if_settings_max := n, if_state := NGHTTP2_HD_STATE_EXPECT_TABLE_SIZE, if_min := n, if_ctx := ctx\<rparr>"
    have eq: "nghttp2_hd_inflate_change_table_size ifl n hi = Inr (0, ?i, hi')"
      unfolding nghttp2_hd_inflate_change_table_size_def if_not_P [OF st] using less s(1) by simp
    have "inflater_owns ?i hi' Y (dt_fit n S)"
      using s(2,3,6) n dt_fit_size [of n S] by (simp add: inflater_owns_def if_refs_def)
    then have w: "waiting ?i hi' Y (dt_fit n S)" using c(3) s(4) by (simp add: waiting_def)
    have "peer_of d' (dt_fit (min n (df_table_max d)) T) n (dt_fit n S)"
      by (rule peer_shrink [OF peer d(5)]) (simp add: d(3))
    then have "connected d' h' X (dt_fit (min n (df_table_max d)) T) ?i hi' Y (dt_fit n S)"
      using d(2-5,7) c(2) w s(3) by (simp add: connected_def)
    then show ?thesis by (rule that [OF d(1) eq _ d(6) rc_same_mono [OF s(5)]]) simp
  next
    case more: False
    let ?i = "ifl\<lparr>if_settings_max := n\<rparr>"
    have eq: "nghttp2_hd_inflate_change_table_size ifl n hi = Inr (0, ?i, hi)"
      unfolding nghttp2_hd_inflate_change_table_size_def if_not_P [OF st] using more by simp
    have "inflater_owns ?i hi Y S" using own more n by (simp add: inflater_owns_def if_refs_def)
    then have w: "waiting ?i hi Y S" using c(3) by (simp add: waiting_def)
    have "connected d' h' X (dt_fit (min n (df_table_max d)) T) ?i hi Y S"
      using d(2-5,7) c(2,5,7) w peer by (simp add: connected_def)
    then show ?thesis by (rule that [OF d(1) eq _ d(6)]) (simp add: rc_same_def)
  qed
qed

section \<open>A connection\<close>

text \<open>What happens between the two ends: a block of pairs in a buffer, or a new limit.\<close>

datatype hpack_op =
    Block "nghttp2_nv list" nghttp2_bufs
  | Limit nat

text \<open>The lists that come out, up to the first error.\<close>

fun hpack_run ::
  "hpack_op list \<Rightarrow> nghttp2_hd_deflater \<Rightarrow> rc_heap \<Rightarrow> nghttp2_hd_inflater \<Rightarrow> rc_heap \<Rightarrow> (int \<times> printed list list) res option" where
  "hpack_run [] d h ifl hi = Some (Inr (0, []))"
| "hpack_run (Block nva b # ops) d h ifl hi =
     (case nghttp2_hd_deflate_hd_bufs d b nva h of
        Inl e \<Rightarrow> Some (Inl e)
      | Inr (rv, d1, b1, h1) \<Rightarrow>
          if rv \<noteq> 0 then Some (Inr (rv, []))
          else
            (case inflate_header_block ifl (bufs_content b1) True [] hi of
               None \<Rightarrow> None
             | Some (Inl e) \<Rightarrow> Some (Inl e)
             | Some (Inr (res, xs, ifl1, hi1)) \<Rightarrow>
                 if res \<noteq> 0 then Some (Inr (res, [xs]))
                 else map_option (\<lambda>r. res_bind r (\<lambda>(rv, outs). Inr (rv, xs # outs))) (hpack_run ops d1 h1 ifl1 hi1)))"
| "hpack_run (Limit n # ops) d h ifl hi =
     (case nghttp2_hd_deflate_change_table_size d n h of
        Inl e \<Rightarrow> Some (Inl e)
      | Inr (rv, d1, h1) \<Rightarrow>
          (case nghttp2_hd_inflate_change_table_size ifl n hi of
             Inl e \<Rightarrow> Some (Inl e)
           | Inr (rv1, ifl1, hi1) \<Rightarrow>
               if rv \<noteq> 0 then Some (Inr (rv, [])) else if rv1 \<noteq> 0 then Some (Inr (rv1, []))
               else hpack_run ops d1 h1 ifl1 hi1))"

definition nv_pair :: "nghttp2_nv \<Rightarrow> hd_pair" where
  "nv_pair nv = (case (nv_string (nv_name nv) (nv_namelen nv), nv_string (nv_value nv) (nv_valuelen nv)) of
     (Inr n, Inr v) \<Rightarrow> (n, v) | _ \<Rightarrow> ([], []))"

definition nv_fits :: "nghttp2_nv \<Rightarrow> bool" where
  "nv_fits nv \<longleftrightarrow> (case (nv_string (nv_name nv) (nv_namelen nv), nv_string (nv_value nv) (nv_valuelen nv)) of
     (Inr n, Inr v) \<Rightarrow> pair_fits (n, v) | _ \<Rightarrow> False)"

fun op_fits :: "hpack_op \<Rightarrow> bool" where
  "op_fits (Block nva b) \<longleftrightarrow>
     bufs_wf b \<and> bufs_roomy b \<and> bufs_content b = [] \<and> list_all nv_fits nva \<and> nghttp2_hd_deflate_bound nva < 2 ^ 63"
| "op_fits (Limit n) \<longleftrightarrow> n \<le> MAX_UINT32"

fun blocks_of :: "hpack_op list \<Rightarrow> nghttp2_nv list list" where
  "blocks_of [] = []"
| "blocks_of (Block nva b # ops) = nva # blocks_of ops"
| "blocks_of (Limit n # ops) = blocks_of ops"

definition block_out :: "nghttp2_nv list \<Rightarrow> printed list \<Rightarrow> bool" where
  "block_out nva xs \<longleftrightarrow> map pair_of xs = map nv_pair nva \<and> all_marked nva (map nv_pair nva) xs"

text \<open>
  Every block came out; or the deflater ended the run with an error and the blocks before did; or the
  inflater had no memory, and the last list ends with that error.
\<close>

definition cut_short :: "nghttp2_nv list \<Rightarrow> printed list \<Rightarrow> bool" where
  "cut_short nva ys \<longleftrightarrow> ys \<noteq> [] \<and> last ys = Inflate_Failed NGHTTP2_ERR_NOMEM \<and>
     map pair_of (butlast ys) = take (length ys - 1) (map nv_pair nva)"

fun delivers :: "nghttp2_nv list list \<Rightarrow> int \<Rightarrow> printed list list \<Rightarrow> bool" where
  "delivers nvas rv [] \<longleftrightarrow>
     (if rv = 0 then nvas = [] else nvas \<noteq> [] \<and> rv \<in> {NGHTTP2_ERR_NOMEM, NGHTTP2_ERR_HEADER_COMP, NGHTTP2_ERR_BUFFER_ERROR})"
| "delivers [] rv (xs # outs) \<longleftrightarrow> False"
| "delivers (nva # nvas) rv (xs # outs) \<longleftrightarrow>
     (if rv = -1 \<and> outs = [] then cut_short nva xs else block_out nva xs \<and> delivers nvas rv outs)"

lemma nv_fits_holds:
  assumes "list_all nv_fits nva"
  shows "list_all2 nv_holds nva (map nv_pair nva)" "list_all pair_fits (map nv_pair nva)"
  using assms
  by (induction nva) (auto simp: nv_fits_def nv_pair_def nv_holds_def split: sum.splits)

lemma delivers_more:
  assumes "delivers nvas rv outs" "block_out nva xs"
  shows "delivers (nva # nvas) rv (xs # outs)"
proof -
  have "\<not> (rv = -1 \<and> outs = [])" using assms(1)
    by (auto simp: NGHTTP2_ERR_NOMEM_def NGHTTP2_ERR_HEADER_COMP_def NGHTTP2_ERR_BUFFER_ERROR_def)
  then show ?thesis using assms by (simp only: delivers.simps(3) if_False)
qed

lemma hpack_run_ok:
  assumes "connected d h X T ifl hi Y S" "list_all op_fits ops"
  shows "\<exists>rv outs. hpack_run ops d h ifl hi = Some (Inr (rv, outs)) \<and> delivers (blocks_of ops) rv outs"
  using assms
proof (induction ops d h ifl hi arbitrary: T S rule: hpack_run.induct)
  case (1 d h ifl hi)
  then show ?case by simp
next
  case (2 nva b ops d h ifl hi)
  have b: "bufs_wf b" "bufs_roomy b" "bufs_content b = []" "list_all nv_fits nva" "nghttp2_hd_deflate_bound nva < 2 ^ 63"
    using "2.prems"(2) by simp_all
  show ?case
  proof (cases rule: block_both [OF "2.prems"(1) b(1-3) nv_fits_holds [OF b(4)] b(5)])
    case (1 rv d' b' h')
    moreover have "rv \<noteq> 0" using 1(2) by (auto simp: NGHTTP2_ERR_NOMEM_def NGHTTP2_ERR_HEADER_COMP_def NGHTTP2_ERR_BUFFER_ERROR_def)
    ultimately have "hpack_run (Block nva b # ops) d h ifl hi = Some (Inr (rv, []))"
      "delivers (nva # blocks_of ops) rv []" by simp_all
    then show ?thesis by simp
  next
    case (2 d' b' h' xs ifl' hi')
    then have "hpack_run (Block nva b # ops) d h ifl hi = Some (Inr (-1, [xs @ [Inflate_Failed NGHTTP2_ERR_NOMEM]]))"
      "cut_short nva (xs @ [Inflate_Failed NGHTTP2_ERR_NOMEM])" by (simp_all add: cut_short_def)
    then show ?thesis by simp
  next
    case (3 d' b' h' xs ifl' hi' T')
    have "\<exists>rv outs. hpack_run ops d' h' ifl' hi' = Some (Inr (rv, outs)) \<and> delivers (blocks_of ops) rv outs"
      by (rule "2.IH" [OF 3(1) refl refl refl _ 3(2) refl refl refl refl _ 3(5)]) (use "2.prems"(2) in simp_all)
    then obtain rv outs where r: "hpack_run ops d' h' ifl' hi' = Some (Inr (rv, outs))" "delivers (blocks_of ops) rv outs" by blast
    have "block_out nva xs" using 3(3,4) by (simp add: block_out_def)
    from delivers_more [OF r(2) this] show ?thesis using 3(1,2) r(1) by simp
  qed
next
  case (3 n ops d h ifl hi)
  have "n \<le> MAX_UINT32" using "3.prems"(2) by simp
  then obtain d' h' T' ifl' hi' S' where r: "nghttp2_hd_deflate_change_table_size d n h = Inr (0, d', h')"
    "nghttp2_hd_inflate_change_table_size ifl n hi = Inr (0, ifl', hi')" "connected d' h' X T' ifl' hi' Y S'"
    by (rule limit_both [OF "3.prems"(1)])
  have "\<exists>rv outs. hpack_run ops d' h' ifl' hi' = Some (Inr (rv, outs)) \<and> delivers (blocks_of ops) rv outs"
    by (rule "3.IH" [OF r(1) refl refl r(2) refl refl _ _ r(3)]) (use "3.prems"(2) in simp_all)
  then show ?case using r(1,2) by simp
qed

section \<open>The loop over a block returns\<close>

lemma go_value:
  assumes "inflate_case ifl inp h = Inr (Go busy, ifl', inp', h')" "reads_value ifl'"
  shows "length inp' < length inp"
proof -
  have v: "length inp' < length inp" if "inflate_value_len ifl inp h = Inr (Go busy, ifl', inp', h')" for ifl
    using that by (auto simp: inflate_value_len_def Let_def dest!: read_len_progress intro!: len_drop elim!: res_bind_InrE split: if_splits prod.splits option.splits)
  have n: "\<not> reads_value ifl'" if "inflate_name_len ifl inp h = Inr (Go busy, ifl', inp', h')" for ifl
    using that by (auto simp: inflate_name_len_def Let_def reads_value_def elim!: res_bind_InrE split: if_splits prod.splits option.splits)
  have o: "\<not> reads_value ifl'" if "inflate_opcode ifl inp h = Inr (Go busy, ifl', inp', h')" for ifl
    using that by (auto simp: inflate_opcode_def Let_def reads_value_def elim!: res_bind_InrE split: if_splits)
  have name: "\<not> reads_value ifl'" if "inflate_name reader ifl inp h = Inr (Go busy, ifl', inp', h')" for reader ifl
    using that by (auto simp: inflate_name_def Let_def reads_value_def elim!: res_bind_InrE split: if_splits)
  have size: "\<not> reads_value ifl'" if "inflate_table_size ifl inp h = Inr (Go busy, ifl', inp', h')" for ifl
    using that by (auto simp: inflate_table_size_def Let_def reads_value_def elim!: res_bind_InrE split: if_splits)
  have index: "\<not> reads_value ifl'" if "inflate_index ifl inp h = Inr (Go busy, ifl', inp', h')" for ifl
    using that by (auto simp: inflate_index_def Let_def reads_value_def elim!: res_bind_InrE split: if_splits)
  have never: "inflate_value reader ifl inp h \<noteq> Inr (Go busy, ifl', inp', h')" for reader ifl
    by (auto simp: inflate_value_def Let_def elim!: res_bind_InrE split: if_splits option.splits)
  show ?thesis
    using assms v n o name size index never
    by (cases "if_state ifl") (auto simp: inflate_case_def inflate_check_name_len_def inflate_check_value_len_def elim!: res_bind_InrE)
qed

lemma case_emits:
  assumes "inflate_case ifl inp h = Inr (Emitted e, ifl', inp', h')"
  shows "length inp' < length inp \<or> length inp' \<le> length inp \<and> reads_value ifl" "if_state ifl' = NGHTTP2_HD_STATE_OPCODE"
proof -
  have v: "inflate_value_len ifl inp h \<noteq> Inr (Emitted e, ifl', inp', h')" "inflate_name_len ifl inp h \<noteq> Inr (Emitted e, ifl', inp', h')"
    "inflate_opcode ifl inp h \<noteq> Inr (Emitted e, ifl', inp', h')" "inflate_table_size ifl inp h \<noteq> Inr (Emitted e, ifl', inp', h')"
    "inflate_name reader ifl inp h \<noteq> Inr (Emitted e, ifl', inp', h')" for ifl reader
    by (auto simp: inflate_value_len_def inflate_name_len_def inflate_opcode_def inflate_table_size_def inflate_name_def Let_def
        elim!: res_bind_InrE split: if_splits prod.splits option.splits)
  have i: "length inp' < length inp \<and> if_state ifl' = NGHTTP2_HD_STATE_OPCODE" if "inflate_index ifl inp h = Inr (Emitted e, ifl', inp', h')" for ifl
    using that by (auto simp: inflate_index_def Let_def dest!: read_len_progress intro!: len_drop elim!: res_bind_InrE split: if_splits)
  have w: "length inp' \<le> length inp \<and> if_state ifl' = NGHTTP2_HD_STATE_OPCODE" if "inflate_value reader ifl inp h = Inr (Emitted e, ifl', inp', h')" for reader ifl
    using that by (auto simp: inflate_value_def Let_def elim!: res_bind_InrE split: if_splits option.splits)
  show "length inp' < length inp \<or> length inp' \<le> length inp \<and> reads_value ifl" "if_state ifl' = NGHTTP2_HD_STATE_OPCODE"
    using assms v i w
    by (cases "if_state ifl"; auto simp: inflate_case_def reads_value_def inflate_check_name_len_def inflate_check_value_len_def elim!: res_bind_InrE)+
qed

text \<open>How the loop of a call ends.\<close>

definition loop_ends :: "nat \<Rightarrow> nghttp2_hd_inflater \<Rightarrow> bytes \<Rightarrow> int \<Rightarrow> int \<Rightarrow> nghttp2_hd_nv option \<Rightarrow> nghttp2_hd_inflater \<Rightarrow> bool" where
  "loop_ends inlen ifl inp rv flags nv ifl' \<longleftrightarrow>
     (case nv of
        None \<Rightarrow> flags = NGHTTP2_HD_INFLATE_NONE \<or>
          flags = NGHTTP2_HD_INFLATE_FINAL \<and> (if_state ifl' = NGHTTP2_HD_STATE_OPCODE \<or> if_state ifl' = NGHTTP2_HD_STATE_INFLATE_START)
      | Some e \<Rightarrow> flags = NGHTTP2_HD_INFLATE_EMIT \<and> if_state ifl' = NGHTTP2_HD_STATE_OPCODE \<and>
          (\<exists>n. rv = ssize_t_of (inlen - n) \<and> (n < length inp \<or> n \<le> length inp \<and> reads_value ifl)))"

lemma inflate_loop_ends:
  "inflate_loop inlen fin busy ifl inp h = Inr (rv, flags, nv, ifl', h') \<Longrightarrow> loop_ends inlen ifl inp rv flags nv ifl'"
proof (induction inlen fin busy ifl inp h rule: inflate_loop.induct)
  case (1 inlen fin busy ifl inp h)
  show ?case
  proof (cases "inp = [] \<and> \<not> busy")
    case True
    then show ?thesis using "1.prems" by (subst (asm) inflate_loop.simps) (auto simp: loop_ends_def inflate_fail_def split: if_splits)
  next
    case False
    then obtain st ifl1 inp1 h1 where s: "inflate_case ifl inp h = Inr (st, ifl1, inp1, h1)"
      using "1.prems" by (subst (asm) inflate_loop.simps) (auto split: sum.splits prod.splits)
    show ?thesis
    proof (cases st)
      case (Go busy1)
      have "loop_ends inlen ifl1 inp1 rv flags nv ifl'"
        by (rule "1.IH" [OF False s refl Go refl refl]) (use "1.prems" loop_go [of ifl inp h busy1] s Go False in auto)
      moreover have "length inp1 \<le> length inp" using case_progress [OF s [unfolded Go]] by auto
      moreover have "reads_value ifl1 \<Longrightarrow> length inp1 < length inp" by (rule go_value [OF s [unfolded Go]])
      ultimately show ?thesis by (auto simp: loop_ends_def split: option.splits)
    next
      case Almost_Ok
      then show ?thesis using "1.prems" s False
        by (subst (asm) inflate_loop.simps) (auto simp: loop_ends_def inflate_fail_def split: if_splits)
    next
      case (Failed e)
      then show ?thesis using "1.prems" s False loop_failed [of ifl inp h] by (auto simp: loop_ends_def inflate_fail_def)
    next
      case (Emitted e)
      then have "inflate_loop inlen fin busy ifl inp h = Inr (ssize_t_of (inlen - length inp1), NGHTTP2_HD_INFLATE_EMIT, Some e, ifl1, h1)"
        using loop_emitted [of ifl inp h] s False by auto
      then show ?thesis using "1.prems" case_emits [OF s [unfolded Emitted]] by (auto simp: loop_ends_def)
    qed
  qed
qed

lemma call_ends:
  assumes "inflater_ready ifl h X T" "nghttp2_hd_inflate_hd_nv ifl inp fin h = Inr (rv, flags, nv, ifl', h')" "0 \<le> rv"
  shows "loop_ends (length inp) ifl inp rv flags nv ifl'"
proof -
  have good: "\<not> hc_bad (if_ctx ifl)" using assms(2,3) by (auto simp: nghttp2_hd_inflate_hd_nv_def NGHTTP2_ERR_HEADER_COMP_def)
  have own: "inflater_owns ifl h X T" using assms(1) by (simp add: inflater_ready_def)
  let ?i = "ifl\<lparr>if_value_keep := None, if_name_keep := None\<rparr>"
  obtain h1 where k: "hd_inflate_keep_free ifl h = Inr (?i, h1)" by (rule keep_free_ok [OF own])
  have "inflate_loop (length inp) fin False ?i inp h1 = Inr (rv, flags, nv, ifl', h')"
    using assms(2) good k by (simp add: nghttp2_hd_inflate_hd_nv_def)
  then have "loop_ends (length inp) ?i inp rv flags nv ifl'" by (rule inflate_loop_ends)
  moreover have "reads_value ?i = reads_value ifl" by (simp add: reads_value_def)
  ultimately show ?thesis by (simp add: loop_ends_def cong: option.case_cong)
qed

text \<open>A pair that is emitted without input leaves a state in which the next one takes some.\<close>

definition block_rank :: "nghttp2_hd_inflater \<Rightarrow> bytes \<Rightarrow> nat" where
  "block_rank ifl inp = 2 * length inp + (if if_state ifl = NGHTTP2_HD_STATE_OPCODE then 0 else 1)"

lemma emit_rank:
  assumes "loop_ends (length inp) ifl inp rv flags (Some e) ifl'" "length inp < 2 ^ 63"
  shows "block_rank ifl' (drop (nat rv) inp) < block_rank ifl inp"
proof -
  obtain n where n: "rv = ssize_t_of (length inp - n)" "n < length inp \<or> n \<le> length inp \<and> reads_value ifl"
    and st: "if_state ifl' = NGHTTP2_HD_STATE_OPCODE" using assms(1) by (auto simp: loop_ends_def)
  have "ssize_t_of (length inp - n) = int (length inp - n)" by (rule ssize_small) (use assms(2) in simp)
  then have len: "length (drop (nat rv) inp) = n" using n by auto
  show ?thesis unfolding block_rank_def len using n(2) st by (auto simp: reads_value_def)
qed

lemma block_returns:
  assumes "inflater_ready ifl h X T" "length inp < 2 ^ 63"
  shows "\<exists>res xs ifl' h' T'. inflate_header_block ifl inp fin out h = Some (Inr (res, out @ xs, ifl', h')) \<and> (res = 0 \<or> res = -1) \<and>
    inflater_ready ifl' h' X T' \<and> rc_same h h' X"
  using assms
proof (induction "block_rank ifl inp" arbitrary: ifl inp h T out rule: less_induct)
  case less
  from inflate_call_ok [OF less.prems, of fin] obtain rv flags nv ifl1 h1 T1 where
    r: "nghttp2_hd_inflate_hd_nv ifl inp fin h = Inr (rv, flags, nv, ifl1, h1)" "inflater_ready ifl1 h1 X T1" "rc_same h h1 X"
      "if_settings_max ifl1 = if_settings_max ifl"
      "if rv < 0 then (rv = NGHTTP2_ERR_HEADER_COMP \<or> rv = NGHTTP2_ERR_NOMEM) \<and> hc_bad (if_ctx ifl1) \<and> nv = None
       else \<not> hc_bad (if_ctx ifl1) \<and> rv \<le> int (length inp) \<and> (case nv of None \<Rightarrow> rv = int (length inp) | Some e \<Rightarrow> \<exists>p. emits_pair e h1 p)"
    unfolding call_ok_def by blast
  show ?case
  proof (cases "rv < 0")
    case True
    then have "nghttp2_hd_inflate_hd ifl inp fin h = Inr (rv, flags, None, ifl1, h1)"
      using r(1) by (simp add: nghttp2_hd_inflate_hd_def nghttp2_hd_inflate_hd2_def)
    then have "inflate_header_block ifl inp fin out h = Some (Inr (-1, out @ [Inflate_Failed rv], ifl1, h1))"
      using True by (subst inflate_header_block.simps) simp
    then show ?thesis using r(2,3) by blast
  next
    case False
    have ends: "loop_ends (length inp) ifl inp rv flags nv ifl1" by (rule call_ends [OF less.prems(1) r(1)]) (use False in simp)
    show ?thesis
    proof (cases nv)
      case None
      have hd: "nghttp2_hd_inflate_hd ifl inp fin h = Inr (rv, flags, None, ifl1, h1)"
        using r(1) None by (simp add: nghttp2_hd_inflate_hd_def nghttp2_hd_inflate_hd2_def)
      have all: "drop (nat rv) inp = []" using r(5) False None by simp
      show ?thesis
      proof (cases "flags = NGHTTP2_HD_INFLATE_FINAL")
        case True
        then have st: "if_state ifl1 = NGHTTP2_HD_STATE_OPCODE \<or> if_state ifl1 = NGHTTP2_HD_STATE_INFLATE_START"
          using ends None by (auto simp: loop_ends_def NGHTTP2_HD_INFLATE_FINAL_def NGHTTP2_HD_INFLATE_NONE_def)
        obtain ifl2 h2 where e: "nghttp2_hd_inflate_end_headers ifl1 h1 = Inr (0, ifl2, h2)" "inflater_ready ifl2 h2 X T1" "rc_same h1 h2 X"
          by (rule end_headers_ok [OF r(2) st])
        have "inflate_header_block ifl inp fin out h = Some (Inr (0, out @ [], ifl2, h2))"
          using hd e(1) True False by (subst inflate_header_block.simps) simp
        moreover have "rc_same h h2 X" by (rule rc_same_trans [OF r(3) e(3)]) simp
        ultimately show ?thesis using e(2) by blast
      next
        case nofinal: False
        then have "flags = NGHTTP2_HD_INFLATE_NONE" using ends None by (simp add: loop_ends_def)
        then have "inflate_header_block ifl inp fin out h = Some (Inr (0, out @ [], ifl1, h1))"
          using hd all False by (subst inflate_header_block.simps) simp
        then show ?thesis using r(2,3) by blast
      qed
    next
      case (Some e)
      then obtain p where p: "emits_pair e h1 p" using r(5) False by auto
      have fl: "flags = NGHTTP2_HD_INFLATE_EMIT" using ends Some by (simp add: loop_ends_def)
      let ?x = "Field (fst p) (snd p) (hn_flags e)" and ?inp1 = "drop (nat rv) inp"
      have hd: "nghttp2_hd_inflate_hd ifl inp fin h = Inr (rv, flags, Some (fst p, snd p, hn_flags e), ifl1, h1)"
        using r(1) Some p False by (simp add: nghttp2_hd_inflate_hd_def nghttp2_hd_inflate_hd2_def emits_pair_def)
      have step: "inflate_header_block ifl inp fin out h = inflate_header_block ifl1 ?inp1 fin (out @ [?x]) h1"
        using hd fl False by (subst inflate_header_block.simps) simp
      have "length ?inp1 < 2 ^ 63" using less.prems(2) by simp
      from less.hyps [OF emit_rank [OF ends [unfolded Some] less.prems(2)] r(2) this, of "out @ [?x]"]
      obtain res xs ifl' h' T' where i: "inflate_header_block ifl1 ?inp1 fin (out @ [?x]) h1 = Some (Inr (res, (out @ [?x]) @ xs, ifl', h'))"
        "res = 0 \<or> res = -1" "inflater_ready ifl' h' X T'" "rc_same h1 h' X" by blast
      have "rc_same h h' X" by (rule rc_same_trans [OF r(3) i(4)]) simp
      moreover have "inflate_header_block ifl inp fin out h = Some (Inr (res, out @ ?x # xs, ifl', h'))" using step i(1) by simp
      ultimately show ?thesis using i(2,3) by blast
    qed
  qed
qed

section \<open>Properties\<close>

lemma connected_new:
  assumes "nghttp2_hd_deflate_new n h = Inr (0, Some (a, d), h1)" "rc_ok h X" "n \<le> MAX_UINT32"
    "nghttp2_hd_inflate_new hi = Inr (0, Some (b, ifl), hi1)" "rc_ok hi Y"
  shows "connected d h1 (add_mset (owned.Block a) X) [] ifl hi1 (add_mset (owned.Block b) Y) []"
proof -
  have d: "deflater_holds d h1 (add_mset (owned.Block a) X) []" "df_limit d = min n 4096" "df_notify d = (n < 4096)"
    "df_min d = MAX_UINT32" "hc_bad (df_ctx d) = False"
    by (rule deflate_new_ok [OF assms(2,3)]; use assms(1) in simp)+
  have i: "inflating ifl hi1 (add_mset (owned.Block b) Y) []" "if_settings_max ifl = 4096" "hc_bufsize_max (if_ctx ifl) = 4096"
    "if_state ifl = NGHTTP2_HD_STATE_INFLATE_START" "hc_bad (if_ctx ifl) = False" "if_min ifl = MAX_UINT32"
    by (rule inflate_new_ok [OF assms(5)]; use assms(4) in simp)+
  have "waiting ifl hi1 (add_mset (owned.Block b) Y) []"
    using inflating_ready [OF i(1)] i(4,5) by (simp add: waiting_def inflater_ready_def inflate_shape_def)
  moreover have "peer_of d [] (hc_bufsize_max (if_ctx ifl)) []"
    using d(2,3) i(3) by (simp add: peer_of_def)
  ultimately show ?thesis
    using d i(2,4,6) by (simp add: connected_def)
qed

text \<open>
  C4. A new deflater and a new inflater, any lists of pairs whose names and values have at most 65536 bytes
  (NGHTTP2_HD_MAX_NV), each packed into an empty well-formed chain with room in every chunk and with a bound
  below 2^63, and changes of the table limit to at most 2^32-1 in between: the loop of the receiver prints
  the same lists in the same order, with the flag on every pair that must not be indexed, until one end runs
  out of memory or of room in a buffer; then the lists before came out whole and of the last one a prefix.
\<close>

theorem hpack_session:
  assumes "nghttp2_hd_deflate_new n h = Inr (0, Some (a, d), h1)" "rc_ok h X" "n \<le> MAX_UINT32"
    "nghttp2_hd_inflate_new hi = Inr (0, Some (b, ifl), hi1)" "rc_ok hi Y" "list_all op_fits ops"
  shows "\<exists>rv outs. hpack_run ops d h1 ifl hi1 = Some (Inr (rv, outs)) \<and> delivers (blocks_of ops) rv outs"
  by (rule hpack_run_ok [OF connected_new [OF assms(1-5)] assms(6)])

text \<open>Two blocks and a limit between them, from a deflater with a smaller table than the standard one.\<close>

theorem hpack_session_witness:
  "\<exists>rv outs. hpack_run [Block [wit_secret, wit_secret] (wit_bufs 64), Limit 0, Block [wit_secret] (wit_bufs 64)] wit_packer wit_packer_heap
      wit_inflater wit_inflater_heap = Some (Inr (rv, outs)) \<and>
    delivers [[wit_secret, wit_secret], [wit_secret]] rv outs"
proof -
  have "nv_fits wit_secret" by (simp add: nv_fits_def nv_string_def wit_secret_def arr_take_def bytes_of_def pair_fits_def NGHTTP2_HD_MAX_NV_def)
  then have "list_all op_fits [Block [wit_secret, wit_secret] (wit_bufs 64), Limit 0, Block [wit_secret] (wit_bufs 64)]"
    using wit_bufs_ok [of 64] by (simp add: nghttp2_hd_deflate_bound_def wit_secret_def)
  from hpack_session [OF wit_packer_new wit_ok _ wit_inflater_new wit_ok this] show ?thesis by (simp add: MAX_UINT32_def)
qed

text \<open>
  C11. The loop of inflate_header_block, which has no bound of its own, returns 0 or -1 for every input,
  from every state an inflater can be brought into by input, ends of blocks and changes of the limit.
\<close>

theorem inflate_block_returns:
  assumes "nghttp2_hd_inflate_new h = Inr (0, Some (a, ifl), h1)" "rc_ok h X" "list_all op_small ops" "length inp < 2 ^ 63"
  shows "\<exists>ifl1 h2 res xs ifl2 h3. inflate_run ifl ops h1 = Inr (ifl1, h2) \<and>
    inflate_header_block ifl1 inp fin out h2 = Some (Inr (res, out @ xs, ifl2, h3)) \<and> (res = 0 \<or> res = -1)"
proof -
  have new: "inflating ifl h1 (add_mset (owned.Block a) X) []"
    by (rule inflate_new_ok [OF assms(2)]; use assms(1) in simp)
  obtain ifl' h2 T' where r: "inflate_run ifl ops h1 = Inr (ifl', h2)" "inflater_ready ifl' h2 (add_mset (owned.Block a) X) T'"
    by (rule inflate_run_ok [OF inflating_ready [OF new] assms(3)])
  from block_returns [OF r(2) assms(4), of fin out] r(1) show ?thesis by blast
qed

text \<open>In the middle of a value, and at the end of a block that is not the last piece.\<close>

theorem inflate_block_returns_witness:
  "\<exists>ifl1 h2 res xs ifl2 h3. inflate_run wit_inflater [Feed [0x40, 0x01, 0x78, 0x02, 0x31] False] wit_inflater_heap = Inr (ifl1, h2) \<and>
    inflate_header_block ifl1 [0x31, 0x82] False [] h2 = Some (Inr (res, xs, ifl2, h3)) \<and> (res = 0 \<or> res = -1)"
proof -
  have "list_all op_small [Feed [0x40, 0x01, 0x78, 0x02, 0x31] False]" "length [0x31, 0x82 :: byte] < 2 ^ 63" by simp_all
  from inflate_block_returns [OF wit_inflater_new wit_ok this, of False "[]"] show ?thesis by simp
qed

end
