(* ===== verification/Nghttp2_Map.thy ===== *)
theory Nghttp2_Map
  imports Nghttp2_Buf "HOL-Library.Multiset"
begin

text \<open>
  The hash table from stream identifiers to objects (nghttp2_map.c, nghttp2_map.h): open
  addressing with Robin Hood insertion, backward shift on removal and doubling at three
  quarters full. The table refines a partial map.
\<close>

unbundle bit_operations_syntax

section \<open>Data\<close>

text \<open>
  A bucket is empty when its data pointer is null. The table is null, here empty, until the
  first insertion.
\<close>

record 'a map_bucket =
  bkt_hash :: "32 word"
  bkt_key :: "32 word"
  bkt_data :: "'a option"

record 'a nghttp2_map =
  map_table :: "'a map_bucket list"
  map_size :: nat
  map_tablelen :: "32 word"
  map_tablelenbits :: "32 word"

definition NGHTTP2_INITIAL_TABLE_LENBITS :: "32 word" where
  "NGHTTP2_INITIAL_TABLE_LENBITS = 4"

definition SIZEOF_MAP_BUCKET :: nat where
  "SIZEOF_MAP_BUCKET = 16"

definition empty_bucket :: "'a map_bucket" where
  "empty_bucket = \<lparr>bkt_hash = 0, bkt_key = 0, bkt_data = None\<rparr>"

definition bucket_at :: "'a map_bucket list \<Rightarrow> 64 word \<Rightarrow> 'a map_bucket res" where
  "bucket_at table idx = (if unat idx < length table then Inr (table ! unat idx) else Inl Out_Of_Bounds)"

section \<open>Operations\<close>

definition nghttp2_map_init :: "'a nghttp2_map" where
  "nghttp2_map_init = \<lparr>map_table = [], map_size = 0, map_tablelen = 0, map_tablelenbits = 0\<rparr>"

definition nghttp2_map_free :: "'a nghttp2_map option \<Rightarrow> memory \<Rightarrow> memory" where
  "nghttp2_map_free mp m =
     (case mp of None \<Rightarrow> m
      | Some t \<Rightarrow> nghttp2_mem_free (if map_table t = [] then None else Some []) m)"

text \<open>The callbacks take the data and a state of their own, which they return with their result.\<close>

fun each_free_loop :: "('a \<Rightarrow> 's \<Rightarrow> int \<times> 's) \<Rightarrow> 'a map_bucket list \<Rightarrow> 's \<Rightarrow> 's" where
  "each_free_loop func [] s = s"
| "each_free_loop func (bkt # bkts) s =
     (case bkt_data bkt of
        None \<Rightarrow> each_free_loop func bkts s
      | Some d \<Rightarrow> each_free_loop func bkts (snd (func d s)))"

definition nghttp2_map_each_free :: "'a nghttp2_map \<Rightarrow> ('a \<Rightarrow> 's \<Rightarrow> int \<times> 's) \<Rightarrow> 's \<Rightarrow> 's" where
  "nghttp2_map_each_free mp func ptr = each_free_loop func (take (unat (map_tablelen mp)) (map_table mp)) ptr"

fun each_loop :: "('a \<Rightarrow> 's \<Rightarrow> int \<times> 's) \<Rightarrow> 'a map_bucket list \<Rightarrow> 's \<Rightarrow> int \<times> 's" where
  "each_loop func [] s = (0, s)"
| "each_loop func (bkt # bkts) s =
     (case bkt_data bkt of
        None \<Rightarrow> each_loop func bkts s
      | Some d \<Rightarrow> (let (rv, s1) = func d s in if rv \<noteq> 0 then (rv, s1) else each_loop func bkts s1))"

definition nghttp2_map_each :: "'a nghttp2_map \<Rightarrow> ('a \<Rightarrow> 's \<Rightarrow> int \<times> 's) \<Rightarrow> 's \<Rightarrow> int \<times> 's" where
  "nghttp2_map_each mp func ptr =
     (if map_size mp = 0 then (0, ptr)
      else each_loop func (take (unat (map_tablelen mp)) (map_table mp)) ptr)"

definition map_hash :: "32 word \<Rightarrow> 32 word" where
  "map_hash key = key * 2654435769"

definition h2idx :: "32 word \<Rightarrow> 32 word \<Rightarrow> 64 word" where
  "h2idx hash bits = ucast (drop_bit (unat (32 - bits)) hash)"

definition map_distance :: "32 word \<Rightarrow> 32 word \<Rightarrow> 'a map_bucket \<Rightarrow> 64 word \<Rightarrow> 64 word" where
  "map_distance tablelen tablelenbits bkt idx =
     (idx - h2idx (bkt_hash bkt) tablelenbits) AND ucast (tablelen - 1)"

text \<open>
  \<open>map_bucket_swap\<close> exchanges the bucket with the entry that is carried; it returns the new
  bucket and the new carried entry.
\<close>

definition map_bucket_swap :: "'a map_bucket \<Rightarrow> 'a map_bucket \<Rightarrow> 'a map_bucket \<times> 'a map_bucket" where
  "map_bucket_swap bkt carried = (carried, bkt)"

definition map_bucket_set_data :: "32 word \<Rightarrow> 32 word \<Rightarrow> 'a option \<Rightarrow> 'a map_bucket" where
  "map_bucket_set_data hash key data = \<lparr>bkt_hash = hash, bkt_key = key, bkt_data = data\<rparr>"

text \<open>
  The loop of \<open>insert\<close>: \<open>e\<close> is the entry that is carried, \<open>d\<close> its distance from its home. A
  loop that does not return is the value \<open>None\<close>.
\<close>

partial_function (option) insert_loop ::
  "32 word \<Rightarrow> 32 word \<Rightarrow> 'a map_bucket list \<Rightarrow> 'a map_bucket \<Rightarrow> 64 word \<Rightarrow> 64 word \<Rightarrow>
   (int \<times> 'a map_bucket list) res option" where
  "insert_loop tablelen tablelenbits table e idx d =
     (case bucket_at table idx of
        Inl f \<Rightarrow> Some (Inl f)
      | Inr bkt \<Rightarrow>
          if bkt_data bkt = None then
            Some (Inr (0, table[unat idx := map_bucket_set_data (bkt_hash e) (bkt_key e) (bkt_data e)]))
          else
            (let dd = map_distance tablelen tablelenbits bkt idx
             in if dd < d then
                  (let (bkt1, e1) = map_bucket_swap bkt e
                   in insert_loop tablelen tablelenbits (table[unat idx := bkt1]) e1
                        ((idx + 1) AND ucast (tablelen - 1)) (dd + 1))
                else if bkt_key bkt = bkt_key e then Some (Inr (NGHTTP2_ERR_INVALID_ARGUMENT, table))
                else insert_loop tablelen tablelenbits table e ((idx + 1) AND ucast (tablelen - 1)) (d + 1)))"

definition map_insert_into ::
  "'a map_bucket list \<Rightarrow> 32 word \<Rightarrow> 32 word \<Rightarrow> 32 word \<Rightarrow> 32 word \<Rightarrow> 'a \<Rightarrow> (int \<times> 'a map_bucket list) res option" where
  "map_insert_into table tablelen tablelenbits hash key data =
     insert_loop tablelen tablelenbits table (map_bucket_set_data hash key (Some data)) (h2idx hash tablelenbits) 0"

text \<open>The entries of the old table are inserted into the new one in their order.\<close>

fun resize_loop ::
  "32 word \<Rightarrow> 32 word \<Rightarrow> 'a map_bucket list \<Rightarrow> 'a map_bucket list \<Rightarrow> 'a map_bucket list res option" where
  "resize_loop new_tablelen new_tablelenbits [] new_table = Some (Inr new_table)"
| "resize_loop new_tablelen new_tablelenbits (bkt # bkts) new_table =
     (case bkt_data bkt of
        None \<Rightarrow> resize_loop new_tablelen new_tablelenbits bkts new_table
      | Some d \<Rightarrow>
          (case map_insert_into new_table new_tablelen new_tablelenbits (bkt_hash bkt) (bkt_key bkt) d of
             None \<Rightarrow> None
           | Some (Inl f) \<Rightarrow> Some (Inl f)
           | Some (Inr (rv, new_table1)) \<Rightarrow>
               if rv \<noteq> 0 then Some (Inl Assert_Failed)
               else resize_loop new_tablelen new_tablelenbits bkts new_table1))"

definition map_resize ::
  "'a nghttp2_map \<Rightarrow> 32 word \<Rightarrow> 32 word \<Rightarrow> memory \<Rightarrow> (int \<times> 'a nghttp2_map \<times> memory) res option" where
  "map_resize mp new_tablelen new_tablelenbits m =
     (case nghttp2_mem_malloc (unat new_tablelen * SIZEOF_MAP_BUCKET) m of
        (None, m1) \<Rightarrow> Some (Inr (NGHTTP2_ERR_NOMEM, mp, m1))
      | (Some _, m1) \<Rightarrow>
          (case resize_loop new_tablelen new_tablelenbits (take (unat (map_tablelen mp)) (map_table mp))
                  (replicate (unat new_tablelen) empty_bucket) of
             None \<Rightarrow> None
           | Some (Inl f) \<Rightarrow> Some (Inl f)
           | Some (Inr new_table) \<Rightarrow>
               Some (Inr (0, mp\<lparr>map_table := new_table, map_tablelen := new_tablelen,
                                 map_tablelenbits := new_tablelenbits\<rparr>,
                          nghttp2_mem_free (if map_table mp = [] then None else Some []) m1))))"

definition map_reserve :: "'a nghttp2_map \<Rightarrow> memory \<Rightarrow> (int \<times> 'a nghttp2_map \<times> memory) res option" where
  "map_reserve mp m =
     (if (map_size mp + 1) * 4 > unat (map_tablelen mp * 3) then
        (if map_tablelen mp \<noteq> 0
         then map_resize mp (map_tablelen mp * 2) (map_tablelenbits mp + 1) m
         else map_resize mp (push_bit 4 1) NGHTTP2_INITIAL_TABLE_LENBITS m)
      else Some (Inr (0, mp, m)))"

definition nghttp2_map_insert ::
  "'a nghttp2_map \<Rightarrow> 32 word \<Rightarrow> 'a option \<Rightarrow> memory \<Rightarrow> (int \<times> 'a nghttp2_map \<times> memory) res option" where
  "nghttp2_map_insert mp key data m =
     (case data of None \<Rightarrow> Some (Inl Assert_Failed)
      | Some dat \<Rightarrow>
          (case map_reserve mp m of
             None \<Rightarrow> None
           | Some (Inl f) \<Rightarrow> Some (Inl f)
           | Some (Inr (rv, mp1, m1)) \<Rightarrow>
               if rv \<noteq> 0 then Some (Inr (rv, mp1, m1))
               else
                 (case map_insert_into (map_table mp1) (map_tablelen mp1) (map_tablelenbits mp1)
                         (map_hash key) key dat of
                    None \<Rightarrow> None
                  | Some (Inl f) \<Rightarrow> Some (Inl f)
                  | Some (Inr (rv, table)) \<Rightarrow>
                      if rv \<noteq> 0 then Some (Inr (rv, mp1\<lparr>map_table := table\<rparr>, m1))
                      else Some (Inr (0, mp1\<lparr>map_table := table, map_size := map_size mp1 + 1\<rparr>, m1)))))"

text \<open>The search of \<open>nghttp2_map_find\<close> and \<open>nghttp2_map_remove\<close>: the index of the bucket with the key.\<close>

partial_function (option) probe_loop ::
  "'a nghttp2_map \<Rightarrow> 32 word \<Rightarrow> 64 word \<Rightarrow> 64 word \<Rightarrow> 64 word option res option" where
  "probe_loop mp key idx d =
     (case bucket_at (map_table mp) idx of
        Inl f \<Rightarrow> Some (Inl f)
      | Inr bkt \<Rightarrow>
          if bkt_data bkt = None \<or> map_distance (map_tablelen mp) (map_tablelenbits mp) bkt idx < d
          then Some (Inr None)
          else if bkt_key bkt = key then Some (Inr (Some idx))
          else probe_loop mp key ((idx + 1) AND ucast (map_tablelen mp - 1)) (d + 1))"

definition nghttp2_map_find :: "'a nghttp2_map \<Rightarrow> 32 word \<Rightarrow> 'a option res option" where
  "nghttp2_map_find mp key =
     (if map_size mp = 0 then Some (Inr None)
      else
        (case probe_loop mp key (h2idx (map_hash key) (map_tablelenbits mp)) 0 of
           None \<Rightarrow> None
         | Some (Inl f) \<Rightarrow> Some (Inl f)
         | Some (Inr None) \<Rightarrow> Some (Inr None)
         | Some (Inr (Some idx)) \<Rightarrow> Some (res_bind (bucket_at (map_table mp) idx) (\<lambda>bkt. Inr (bkt_data bkt)))))"

text \<open>The entries behind a removed one move back by one, up to an empty bucket or one that is at home.\<close>

partial_function (option) shift_loop ::
  "32 word \<Rightarrow> 32 word \<Rightarrow> 'a map_bucket list \<Rightarrow> 64 word \<Rightarrow> 64 word \<Rightarrow> 'a map_bucket list res option" where
  "shift_loop tablelen tablelenbits table didx idx =
     (case bucket_at table idx of
        Inl f \<Rightarrow> Some (Inl f)
      | Inr bkt \<Rightarrow>
          if bkt_data bkt = None \<or> map_distance tablelen tablelenbits bkt idx = 0 then Some (Inr table)
          else shift_loop tablelen tablelenbits
                 (table[unat didx := bkt, unat idx := map_bucket_set_data 0 0 None])
                 idx ((idx + 1) AND ucast (tablelen - 1)))"

definition nghttp2_map_remove :: "'a nghttp2_map \<Rightarrow> 32 word \<Rightarrow> (int \<times> 'a nghttp2_map) res option" where
  "nghttp2_map_remove mp key =
     (if map_size mp = 0 then Some (Inr (NGHTTP2_ERR_INVALID_ARGUMENT, mp))
      else
        (case probe_loop mp key (h2idx (map_hash key) (map_tablelenbits mp)) 0 of
           None \<Rightarrow> None
         | Some (Inl f) \<Rightarrow> Some (Inl f)
         | Some (Inr None) \<Rightarrow> Some (Inr (NGHTTP2_ERR_INVALID_ARGUMENT, mp))
         | Some (Inr (Some idx)) \<Rightarrow>
             (case shift_loop (map_tablelen mp) (map_tablelenbits mp)
                     ((map_table mp)[unat idx := map_bucket_set_data 0 0 None])
                     idx ((idx + 1) AND ucast (map_tablelen mp - 1)) of
                None \<Rightarrow> None
              | Some (Inl f) \<Rightarrow> Some (Inl f)
              | Some (Inr table) \<Rightarrow> Some (Inr (0, mp\<lparr>map_table := table, map_size := map_size mp - 1\<rparr>)))))"

definition nghttp2_map_clear :: "'a nghttp2_map \<Rightarrow> 'a nghttp2_map" where
  "nghttp2_map_clear mp =
     (if map_tablelen mp = 0 then mp
      else mp\<lparr>map_table := replicate (unat (map_tablelen mp)) empty_bucket @
                 drop (unat (map_tablelen mp)) (map_table mp), map_size := 0\<rparr>)"

section \<open>The table as a cycle\<close>

text \<open>
  A table of \<open>2 ^ b\<close> buckets is read as a function on all integers with period \<open>2 ^ b\<close>. The
  probe length of a bucket is 0 when it is empty and one more than the distance of its entry
  from its home otherwise.
\<close>

definition geometry :: "nat \<Rightarrow> 32 word \<Rightarrow> 32 word \<Rightarrow> 'a map_bucket list \<Rightarrow> bool" where
  "geometry b tablelen tablelenbits table \<longleftrightarrow>
     0 < b \<and> b < 32 \<and> tablelen = 2 ^ b \<and> tablelenbits = of_nat b \<and> length table = 2 ^ b"

definition cell :: "'a map_bucket list \<Rightarrow> int \<Rightarrow> 'a map_bucket" where
  "cell table i = table ! nat (i mod int (length table))"

definition home :: "nat \<Rightarrow> 'a map_bucket \<Rightarrow> int" where
  "home b bkt = uint (drop_bit (32 - b) (bkt_hash bkt))"

definition probe_len :: "nat \<Rightarrow> 'a map_bucket list \<Rightarrow> int \<Rightarrow> int" where
  "probe_len b table i =
     (case bkt_data (cell table i) of None \<Rightarrow> 0 | Some _ \<Rightarrow> (i - home b (cell table i)) mod 2 ^ b + 1)"

lemma geometryD:
  assumes "geometry b tlen nbits table"
  shows "0 < b" "b < 32" "tlen = 2 ^ b" "nbits = of_nat b" "length table = 2 ^ b" "int (length table) = 2 ^ b"
  using assms by (auto simp: geometry_def)

lemma geometry_update [simp]: "geometry b tlen nbits (table[k := x]) = geometry b tlen nbits table"
  by (simp add: geometry_def)

lemma uint_and_mask:
  fixes x :: "64 word"
  assumes "b < 32"
  shows "uint (x AND ucast ((2 :: 32 word) ^ b - 1)) = uint x mod 2 ^ b"
proof -
  have "ucast ((2 :: 32 word) ^ b - 1) = (mask b :: 64 word)"
    using assms by (simp add: mask_eq_exp_minus_1 [symmetric] ucast_mask_eq min_def)
  then show ?thesis by (metis take_bit_eq_mask take_bit_eq_mod unsigned_take_bit_eq)
qed

lemma mod_exp_64: "b < 32 \<Longrightarrow> (x mod 18446744073709551616) mod 2 ^ b = (x :: int) mod 2 ^ b"
  using le_imp_power_dvd [of b 64 "2 :: int"] by (intro mod_mod_cancel) simp

lemma step_idx:
  fixes idx :: "64 word"
  assumes "geometry b tlen nbits table" "uint idx = i mod 2 ^ b"
  shows "uint ((idx + 1) AND ucast (tlen - 1)) = (i + 1) mod 2 ^ b"
  using assms
  by (simp add: geometry_def uint_and_mask uint_word_ariths mod_exp_64 mod_simps)

lemma bucket_at_cell:
  assumes "geometry b tlen nbits table" "uint idx = i mod 2 ^ b"
  shows "bucket_at table idx = Inr (cell table i)" "unat idx = nat (i mod 2 ^ b)" "unat idx < length table"
proof -
  have u: "unat idx = nat (i mod 2 ^ b)" using assms(2) by (metis nat_uint_eq)
  have "nat (i mod 2 ^ b) < 2 ^ b" by (simp add: nat_less_iff)
  with u assms(1) show "unat idx < length table" by (simp add: geometry_def)
  then show "bucket_at table idx = Inr (cell table i)"
    using u assms(1) by (simp add: bucket_at_def cell_def geometry_def)
  show "unat idx = nat (i mod 2 ^ b)" by (rule u)
qed

lemma h2idx_home:
  assumes "geometry b tlen nbits table"
  shows "uint (h2idx (bkt_hash bkt) nbits) = home b bkt" "0 \<le> home b bkt" "home b bkt < 2 ^ b"
proof -
  have nbits: "unat (32 - nbits) = 32 - b"
    using assms by (simp add: geometry_def unat_sub_if' unat_of_nat)
  have "drop_bit (32 - b) (uint (bkt_hash bkt)) < 2 ^ b"
  proof -
    have "uint (bkt_hash bkt) < 2 ^ b * 2 ^ (32 - b)"
      using assms uint_lt2p [of "bkt_hash bkt"] by (simp add: geometry_def power_add [symmetric])
    moreover have "uint (bkt_hash bkt) div 2 ^ (32 - b) * 2 ^ (32 - b) \<le> uint (bkt_hash bkt)"
      by (simp flip: minus_mod_eq_div_mult)
    ultimately have "uint (bkt_hash bkt) div 2 ^ (32 - b) * 2 ^ (32 - b) < 2 ^ b * 2 ^ (32 - b)" by linarith
    then show ?thesis unfolding drop_bit_eq_div by (metis mult_less_cancel_right_pos zero_less_numeral zero_less_power)
  qed
  then show *: "home b bkt < 2 ^ b" using uint_lt2p [of "bkt_hash bkt"] by (simp add: home_def unsigned_drop_bit_eq take_bit_int_eq_self)
  show "0 \<le> home b bkt" by (simp add: home_def)
  have "(2 :: int) ^ b \<le> 2 ^ 64" using assms by (intro power_increasing) (auto simp: geometry_def)
  then show "uint (h2idx (bkt_hash bkt) nbits) = home b bkt"
    using * by (simp add: h2idx_def nbits home_def unsigned_ucast_eq take_bit_eq_mod)
qed

lemma distance_cell:
  assumes "geometry b tlen nbits table" "uint idx = i mod 2 ^ b"
  shows "uint (map_distance tlen nbits bkt idx) = (i - home b bkt) mod 2 ^ b"
  using assms h2idx_home(1) [OF assms(1), of bkt]
  by (simp add: map_distance_def geometry_def uint_and_mask uint_word_ariths mod_exp_64 mod_simps)

lemma probe_len_cell:
  assumes "geometry b tlen nbits table" "uint idx = i mod 2 ^ b" "bkt_data (cell table i) = Some x"
  shows "uint (map_distance tlen nbits (cell table i) idx) = probe_len b table i - 1"
  using distance_cell [OF assms(1,2)] assms(3) by (simp add: probe_len_def)

text \<open>The Robin Hood invariant: from one bucket to the next the probe length grows by at most one.\<close>

definition robin_hood :: "nat \<Rightarrow> 'a map_bucket list \<Rightarrow> bool" where
  "robin_hood b table \<longleftrightarrow> (\<forall>i. probe_len b table (i + 1) \<le> probe_len b table i + 1)"

definition slot_len :: "nat \<Rightarrow> int \<Rightarrow> 'a map_bucket \<Rightarrow> int" where
  "slot_len b i bkt = (case bkt_data bkt of None \<Rightarrow> 0 | Some _ \<Rightarrow> (i - home b bkt) mod 2 ^ b + 1)"

lemma probe_len_slot: "probe_len b table i = slot_len b i (cell table i)"
  by (simp add: probe_len_def slot_len_def)

lemma slot_len_range: "0 \<le> slot_len b i bkt" "slot_len b i bkt \<le> 2 ^ b"
proof -
  have "(i - home b bkt) mod 2 ^ b < 2 ^ b" by simp
  then have "(i - home b bkt) mod 2 ^ b + 1 \<le> 2 ^ b" by linarith
  moreover have "0 \<le> (i - home b bkt) mod 2 ^ b + 1" by (simp add: add_nonneg_nonneg)
  ultimately show "0 \<le> slot_len b i bkt" "slot_len b i bkt \<le> 2 ^ b"
    by (simp_all only: slot_len_def split: option.split) (auto simp only: zero_le_power zero_le_numeral order_refl)
qed

lemma slot_len_0_iff: "slot_len b i bkt = 0 \<longleftrightarrow> bkt_data bkt = None"
proof (cases "bkt_data bkt")
  case (Some x)
  have "0 \<le> (i - home b bkt) mod 2 ^ b" by simp
  then have "(i - home b bkt) mod 2 ^ b + 1 \<noteq> 0" by linarith
  then show ?thesis using Some by (simp add: slot_len_def)
qed (simp add: slot_len_def)

lemma slot_len_cong: "i mod 2 ^ b = j mod 2 ^ b \<Longrightarrow> slot_len b i bkt = slot_len b j bkt"
  by (simp add: slot_len_def split: option.split) (metis mod_diff_left_eq)

lemma cell_cong: "length table = 2 ^ b \<Longrightarrow> i mod 2 ^ b = j mod 2 ^ b \<Longrightarrow> cell table i = cell table j"
  by (simp add: cell_def)

lemma probe_len_cong:
  "length table = 2 ^ b \<Longrightarrow> i mod 2 ^ b = j mod 2 ^ b \<Longrightarrow> probe_len b table i = probe_len b table j"
  by (simp add: probe_len_slot cell_cong [of table b i j] slot_len_cong [of i b j])

lemma probe_len_range: "0 \<le> probe_len b table i" "probe_len b table i \<le> 2 ^ b"
  by (simp_all add: probe_len_slot slot_len_range)

lemma probe_len_0_iff: "probe_len b table i = 0 \<longleftrightarrow> bkt_data (cell table i) = None"
  by (simp add: probe_len_slot slot_len_0_iff)

lemma cell_update:
  assumes "length table = 2 ^ b"
  shows "cell (table[nat (i mod 2 ^ b) := x]) j = (if j mod 2 ^ b = i mod 2 ^ b then x else cell table j)"
proof -
  have "nat (i mod 2 ^ b) < 2 ^ b" for i by (simp add: nat_less_iff)
  moreover have "nat (i mod 2 ^ b) = nat (j mod 2 ^ b) \<longleftrightarrow> j mod 2 ^ b = i mod 2 ^ b" by (auto simp: eq_nat_nat_iff)
  ultimately show ?thesis using assms by (auto simp: cell_def nth_list_update)
qed

lemma probe_len_update:
  assumes "length table = 2 ^ b"
  shows "probe_len b (table[nat (i mod 2 ^ b) := x]) j =
    (if j mod 2 ^ b = i mod 2 ^ b then slot_len b i x else probe_len b table j)"
  using slot_len_cong [of j b i x] by (simp add: probe_len_slot cell_update [OF assms])

lemma mod_succ_neq: "0 < b \<Longrightarrow> (i + 1) mod (2 :: int) ^ b \<noteq> i mod 2 ^ b"
proof
  assume b: "0 < b" and "(i + 1) mod (2 :: int) ^ b = i mod 2 ^ b"
  then have "2 ^ b dvd (1 :: int)" by (metis add_diff_cancel_left' mod_eq_dvd_iff)
  moreover have "(1 :: int) < 2 ^ b" using b by simp
  ultimately show False by (metis zdvd_not_zless zero_less_one)
qed

lemma mod_succ_cong: "i mod (2 :: int) ^ b = j mod 2 ^ b \<longleftrightarrow> (i + 1) mod 2 ^ b = (j + 1) mod 2 ^ b"
  by (simp add: mod_eq_dvd_iff)

text \<open>
  Writing a bucket keeps the invariant when its new probe length fits between those of its
  neighbours.
\<close>

lemma robin_hood_update:
  assumes b: "0 < b" "length table = 2 ^ b"
    and old: "\<And>j. (j + 1) mod 2 ^ b \<noteq> i mod 2 ^ b \<Longrightarrow> j mod 2 ^ b \<noteq> i mod 2 ^ b \<Longrightarrow>
      probe_len b table (j + 1) \<le> probe_len b table j + 1"
    and before: "slot_len b i x \<le> probe_len b table (i - 1) + 1"
    and after: "probe_len b table (i + 1) \<le> slot_len b i x + 1"
  shows "robin_hood b (table[nat (i mod 2 ^ b) := x])"
  unfolding robin_hood_def
proof
  fix j
  let ?t = "table[nat (i mod 2 ^ b) := x]"
  consider "(j + 1) mod 2 ^ b = i mod 2 ^ b" | "j mod 2 ^ b = i mod 2 ^ b"
    | "(j + 1) mod 2 ^ b \<noteq> i mod 2 ^ b" "j mod 2 ^ b \<noteq> i mod 2 ^ b" by blast
  then show "probe_len b ?t (j + 1) \<le> probe_len b ?t j + 1"
  proof cases
    case 1
    then have "j mod 2 ^ b = (i - 1) mod 2 ^ b" using mod_succ_cong [of j b "i - 1"] by simp
    moreover have "(i - 1) mod 2 ^ b \<noteq> i mod 2 ^ b" using mod_succ_neq [OF b(1), of "i - 1"] by simp
    ultimately show ?thesis
      using 1 before probe_len_cong [OF b(2), of j "i - 1"] by (simp add: probe_len_update [OF b(2)])
  next
    case 2
    then have "(j + 1) mod 2 ^ b = (i + 1) mod 2 ^ b" using mod_succ_cong [of j b i] by simp
    then show ?thesis
      using 2 after mod_succ_neq [OF b(1), of i] probe_len_cong [OF b(2), of "j + 1" "i + 1"]
      by (simp add: probe_len_update [OF b(2)])
  qed (simp add: probe_len_update [OF b(2)] old)
qed

text \<open>Going back \<open>k\<close> buckets, the probe length falls by at most \<open>k\<close>.\<close>

lemma robin_hood_back: "robin_hood b table \<Longrightarrow> probe_len b table (i + int k) \<le> probe_len b table i + int k"
proof (induction k)
  case (Suc k)
  have "probe_len b table (i + int k + 1) \<le> probe_len b table (i + int k) + 1"
    using Suc.prems by (auto simp: robin_hood_def)
  then have "probe_len b table (i + int k + 1) \<le> probe_len b table i + int k + 1" using Suc by linarith
  then show ?case by (metis add.assoc of_nat_Suc add.commute)
qed simp

text \<open>No probe length reaches past the last empty bucket.\<close>

lemma probe_len_gap:
  assumes rh: "robin_hood b table" and len: "length table = 2 ^ b"
    and e: "bkt_data (cell table e) = None" and m: "m = (e - i) mod 2 ^ b"
  shows "probe_len b table (i - 1) \<le> 2 ^ b - 1 - m"
proof -
  have m': "0 \<le> m" "m < 2 ^ b" using m by simp_all
  have "(i + m - 2 ^ b) mod 2 ^ b = e mod 2 ^ b"
  proof -
    have "(i + m - 2 ^ b) mod 2 ^ b = (i + m) mod 2 ^ b" by (rule minus_mod_self2)
    also have "\<dots> = (i + (e - i)) mod 2 ^ b" unfolding m by (rule mod_add_right_eq)
    finally show ?thesis by simp
  qed
  then have "probe_len b table (i + m - 2 ^ b) = 0"
    using probe_len_cong [OF len, of _ e] e by (metis probe_len_0_iff)
  moreover obtain k where k: "int k = 2 ^ b - 1 - m" using m' zero_le_imp_eq_int [of "2 ^ b - 1 - m"] by auto
  moreover have at: "i + m - 2 ^ b + int k = i - 1" unfolding k by linarith
  ultimately show ?thesis
    using robin_hood_back [OF rh, of "i + m - 2 ^ b" k] unfolding at by linarith
qed

section \<open>Entries\<close>

definition map_entries :: "'a map_bucket list \<Rightarrow> 'a map_bucket multiset" where
  "map_entries table = filter_mset (\<lambda>bkt. bkt_data bkt \<noteq> None) (mset table)"

definition keys_once :: "'a map_bucket multiset \<Rightarrow> bool" where
  "keys_once M \<longleftrightarrow> (\<forall>k. count (image_mset bkt_key M) k \<le> 1)"

lemma entries_update:
  assumes "k < length table"
  shows "map_entries (table[k := x]) =
    (if bkt_data x = None then {#} else {#x#}) + (map_entries table - (if bkt_data (table ! k) = None then {#} else {#table ! k#}))"
  using assms by (simp add: map_entries_def mset_update)

lemma entries_mem: "bkt \<in># map_entries table \<longleftrightarrow> bkt \<in> set table \<and> bkt_data bkt \<noteq> None"
  by (simp add: map_entries_def)

lemma cell_mem: "length table = 2 ^ b \<Longrightarrow> cell table i \<in> set table"
  by (simp add: cell_def nat_less_iff)

lemma mem_cell:
  assumes "length table = 2 ^ b" "bkt \<in> set table"
  obtains i where "cell table i = bkt" "0 \<le> i" "i < 2 ^ b"
proof -
  obtain k where "k < length table" "table ! k = bkt" using assms(2) by (auto simp: in_set_conv_nth)
  then show ?thesis using that [of "int k"] assms(1) by (simp add: cell_def)
qed

lemma keys_once_add:
  "keys_once (add_mset e M) \<longleftrightarrow> keys_once M \<and> bkt_key e \<notin> bkt_key ` set_mset M"
proof
  assume *: "keys_once (add_mset e M)"
  have "count (image_mset bkt_key M) k \<le> 1" for k
    using * [unfolded keys_once_def, rule_format, of k] by (auto split: if_splits)
  moreover have "bkt_key e \<notin># image_mset bkt_key M"
    using * [unfolded keys_once_def, rule_format, of "bkt_key e"] by (simp add: count_eq_zero_iff)
  ultimately show "keys_once M \<and> bkt_key e \<notin> bkt_key ` set_mset M" by (simp add: keys_once_def)
next
  assume *: "keys_once M \<and> bkt_key e \<notin> bkt_key ` set_mset M"
  then have "count (image_mset bkt_key M) (bkt_key e) = 0" by (simp add: count_eq_zero_iff)
  with * show "keys_once (add_mset e M)" by (auto simp: keys_once_def)
qed

lemma keys_once_eq:
  assumes "keys_once M" "e1 \<in># M" "e2 \<in># M" "bkt_key e1 = bkt_key e2"
  shows "e1 = e2"
proof (rule ccontr)
  assume "e1 \<noteq> e2"
  obtain M' where M': "M = add_mset e1 M'" using assms(2) by (metis insert_DiffM)
  with \<open>e1 \<noteq> e2\<close> assms(3) have "e2 \<in># M'" by simp
  with assms(1,4) M' show False by (auto simp: keys_once_add)
qed

section \<open>The probe loop\<close>

lemma mod_pred_step:
  assumes "m = (e - i) mod (2 :: int) ^ b" "0 < m"
  shows "(e - (i + 1)) mod 2 ^ b = m - 1"
proof -
  have "(e - (i + 1)) mod 2 ^ b = (m - 1) mod 2 ^ b"
    unfolding assms(1) by (metis diff_diff_add mod_diff_left_eq)
  moreover have "m < 2 ^ b" using assms(1) by simp
  ultimately show ?thesis using assms(2) by simp
qed

lemma mod_succ_step:
  assumes "(i - h) mod (2 :: int) ^ b = d" "d + 1 < 2 ^ b"
  shows "(i + 1 - h) mod 2 ^ b = d + 1"
proof -
  have "0 \<le> d" using assms(1) by auto
  moreover have "(i + 1 - h) mod 2 ^ b = (d + 1) mod 2 ^ b"
    unfolding assms(1) [symmetric] by (metis add_diff_eq diff_add_eq mod_add_left_eq)
  ultimately show ?thesis using assms(2) by simp
qed

lemma uint_succ_64:
  fixes d :: "64 word"
  assumes "uint d < 2 ^ b" "b < 32"
  shows "uint (d + 1) = uint d + 1"
proof -
  have "(2 :: int) ^ b \<le> 2 ^ 32" using assms(2) by (intro power_increasing) auto
  then show ?thesis using assms(1) by (simp add: uint_word_ariths)
qed

lemma exp_mod_dist: "0 < m \<Longrightarrow> m = (e - i) mod (2 :: int) ^ b \<Longrightarrow> e mod 2 ^ b \<noteq> i mod 2 ^ b"
  by (auto simp: mod_eq_dvd_iff)

text \<open>
  An entry with the key is found: every bucket between its home and its place has a probe
  length that lets the search go on.
\<close>

lemma probe_loop_found:
  assumes g: "geometry b (map_tablelen mp) (map_tablelenbits mp) (map_table mp)"
    and rh: "robin_hood b (map_table mp)" and once: "keys_once (map_entries (map_table mp))"
    and e: "cell (map_table mp) (i + int k) = e" "bkt_data e = Some x" "bkt_key e = key"
    and idx: "uint idx = i mod 2 ^ b" and d: "probe_len b (map_table mp) (i + int k) = uint d + int k + 1"
  shows "\<exists>idx'. probe_loop mp key idx d = Some (Inr (Some idx')) \<and> bucket_at (map_table mp) idx' = Inr e"
  using e idx d
proof (induction k arbitrary: i idx d)
  case 0
  then show ?case
    using bucket_at_cell(1) [OF g 0(4)] probe_len_cell [OF g 0(4)]
    by (subst probe_loop.simps) (simp add: word_less_def)
next
  case (Suc k)
  let ?t = "map_table mp" and ?c = "cell (map_table mp) i"
  note len = geometryD(5) [OF g]
  have shift: "i + int (Suc k) = (i + 1) + int k" by simp
  have ge: "uint d + 1 \<le> probe_len b ?t i"
    using robin_hood_back [OF rh, of i "Suc k"] Suc.prems(5) by simp
  then obtain y where y: "bkt_data ?c = Some y" by (metis probe_len_0_iff not_None_eq add_nonneg_pos uint_ge_0 zero_less_one not_le)
  have at: "bucket_at ?t idx = Inr ?c" by (rule bucket_at_cell(1) [OF g Suc.prems(4)])
  have more: "\<not> map_distance (map_tablelen mp) (map_tablelenbits mp) ?c idx < d"
    using probe_len_cell [OF g Suc.prems(4) y] ge by (simp add: word_less_def)
  show ?case
  proof (cases "bkt_key ?c = key")
    case True
    have "?c = e"
      using keys_once_eq [OF once, of ?c e] True y Suc.prems(1-3) cell_mem [OF len] by (auto simp: entries_mem)
    then show ?thesis using at y more True by (subst probe_loop.simps) simp
  next
    case False
    have "probe_len b ?t (i + int (Suc k)) \<le> 2 ^ b" by (rule probe_len_range)
    then have "uint d < 2 ^ b" using Suc.prems(5) by simp
    then have "uint (d + 1) = uint d + 1" using geometryD(2) [OF g] by (rule uint_succ_64)
    with Suc.IH [OF _ Suc.prems(2,3) step_idx [OF g Suc.prems(4)], of "d + 1"] Suc.prems(1,5)
    show ?thesis using at y more False unfolding shift
      by (subst probe_loop.simps) simp
  qed
qed

lemma cell_gap_0:
  assumes "length table = 2 ^ b" "int 0 = (e - i) mod 2 ^ b"
  shows "cell table i = cell table e"
proof -
  have "2 ^ b dvd e - i" using assms(2) by (simp only: dvd_eq_mod_eq_0 of_nat_0)
  then have "e mod 2 ^ b = i mod 2 ^ b" by (simp only: mod_eq_dvd_iff)
  with cell_cong [OF assms(1), of e i] show ?thesis by simp
qed

text \<open>Without an entry of that key, the search ends at the latest at the next empty bucket.\<close>

lemma probe_loop_absent:
  assumes g: "geometry b (map_tablelen mp) (map_tablelenbits mp) (map_table mp)"
    and e: "bkt_data (cell (map_table mp) e) = None"
    and no: "key \<notin> bkt_key ` set_mset (map_entries (map_table mp))"
    and idx: "uint idx = i mod 2 ^ b" and m: "int m = (e - i) mod 2 ^ b" and d: "uint d + int m < 2 ^ b"
  shows "probe_loop mp key idx d = Some (Inr None)"
  using idx m d
proof (induction m arbitrary: i idx d)
  case 0
  from cell_gap_0 [OF geometryD(5) [OF g] 0(2)] show ?case using e bucket_at_cell(1) [OF g 0(1)] by (subst probe_loop.simps) simp
next
  case (Suc m)
  let ?t = "map_table mp" and ?c = "cell (map_table mp) i"
  note len = geometryD(5) [OF g]
  have at: "bucket_at ?t idx = Inr ?c" by (rule bucket_at_cell(1) [OF g Suc.prems(1)])
  show ?case
  proof (cases "bkt_data ?c = None \<or> map_distance (map_tablelen mp) (map_tablelenbits mp) ?c idx < d")
    case True
    then show ?thesis using at by (subst probe_loop.simps) simp
  next
    case False
    then obtain y where y: "bkt_data ?c = Some y" by auto
    have "?c \<in># map_entries ?t" using y cell_mem [OF len] by (simp add: entries_mem)
    then have key: "bkt_key ?c \<noteq> key" using no by auto
    have "uint d < 2 ^ b" using Suc.prems(3) by linarith
    then have d: "uint (d + 1) = uint d + 1" using geometryD(2) [OF g] by (rule uint_succ_64)
    have "(e - (i + 1)) mod 2 ^ b = int (Suc m) - 1"
      by (rule mod_pred_step [OF Suc.prems(2)]) simp
    then have "int m = (e - (i + 1)) mod 2 ^ b" by simp
    from Suc.IH [OF step_idx [OF g Suc.prems(1)] this, of "d + 1"]
    show ?thesis using at False key d Suc.prems(3) by (subst probe_loop.simps) simp
  qed
qed

section \<open>The insertion loop\<close>

lemma set_data_id [simp]: "map_bucket_set_data (bkt_hash e) (bkt_key e) (bkt_data e) = e"
  by (cases e) (simp add: map_bucket_set_data_def)

lemma cell_nth: "length table = 2 ^ b \<Longrightarrow> cell table i = table ! nat (i mod 2 ^ b)"
  by (simp add: cell_def)

lemma insert_loop_place:
  fixes d :: "64 word"
  assumes g: "geometry b tlen nbits table" and rh: "robin_hood b table" and empty: "bkt_data (cell table i) = None"
    and en: "bkt_data en = Some x" and idx: "uint idx = i mod 2 ^ b"
    and d: "(i - home b en) mod 2 ^ b = uint d" "uint d \<le> probe_len b table (i - 1)"
  shows "\<exists>table'. insert_loop tlen nbits table en idx d = Some (Inr (0, table')) \<and>
    geometry b tlen nbits table' \<and> robin_hood b table' \<and> map_entries table' = add_mset en (map_entries table)"
proof -
  note len = geometryD(5) [OF g] and at = bucket_at_cell [OF g idx]
  let ?t = "table[nat (i mod 2 ^ b) := en]"
  have slot: "slot_len b i en = uint d + 1" using en d by (simp add: slot_len_def)
  have "probe_len b table (i + 1) \<le> probe_len b table i + 1" using rh by (simp add: robin_hood_def)
  moreover have "probe_len b table i = 0" using empty by (simp add: probe_len_0_iff)
  ultimately have "probe_len b table (i + 1) \<le> slot_len b i en + 1"
    using slot_len_range(1) [of b i en] by simp
  then have "robin_hood b ?t"
    using slot d(2) rh by (intro robin_hood_update [OF geometryD(1) [OF g] len]) (auto simp: robin_hood_def)
  moreover have "map_entries ?t = add_mset en (map_entries table)"
    using entries_update [of "nat (i mod 2 ^ b)" table en] at(2,3) empty en by (simp add: cell_nth [OF len])
  moreover have "insert_loop tlen nbits table en idx d = Some (Inr (0, ?t))"
    using at(1,2) empty by (subst insert_loop.simps) simp
  ultimately show ?thesis using g by simp
qed

text \<open>Taking the place of an entry that is nearer to its home keeps the invariant.\<close>

lemma robin_hood_swap:
  assumes g: "geometry b tlen nbits table" and rh: "robin_hood b table" and en: "bkt_data en = Some x"
    and d: "(i - home b en) mod 2 ^ b = d" "d \<le> probe_len b table (i - 1)" "probe_len b table i \<le> d"
  shows "robin_hood b (table[nat (i mod 2 ^ b) := en])"
proof -
  have "slot_len b i en = d + 1" using en d by (simp add: slot_len_def)
  moreover have "probe_len b table (i + 1) \<le> probe_len b table i + 1" using rh by (simp add: robin_hood_def)
  ultimately have "probe_len b table (i + 1) \<le> slot_len b i en + 1" "slot_len b i en \<le> probe_len b table (i - 1) + 1"
    using d by linarith+
  then show ?thesis
    using rh by (intro robin_hood_update [OF geometryD(1) [OF g] geometryD(5) [OF g]]) (auto simp: robin_hood_def)
qed

lemma entries_swap:
  assumes "geometry b tlen nbits table" "bkt_data en = Some x" "bkt_data (cell table i) = Some y"
  shows "add_mset (cell table i) (map_entries (table[nat (i mod 2 ^ b) := en])) = add_mset en (map_entries table)"
proof -
  note len = geometryD(5) [OF assms(1)]
  have "nat (i mod 2 ^ b) < length table" unfolding len by (simp add: nat_less_iff)
  moreover have "cell table i \<in># map_entries table" using assms(3) cell_mem [OF len] by (simp add: entries_mem)
  ultimately show ?thesis
    using assms(2,3) by (simp add: entries_update cell_nth [OF len, symmetric] add_mset_commute [of _ en])
qed

text \<open>
  An entry with a new key goes in before the next empty bucket \<open>e\<close>. The carried entry is \<open>en\<close>;
  the bucket before the current one has a probe length of at least its distance.
\<close>

lemma insert_loop_ok:
  fixes d :: "64 word"
  assumes e: "bkt_data (cell table e) = None" and m: "int m = (e - i) mod 2 ^ b"
    and g: "geometry b tlen nbits table" and rh: "robin_hood b table"
    and once: "keys_once (add_mset en (map_entries table))" and en: "bkt_data en = Some x"
    and idx: "uint idx = i mod 2 ^ b"
    and d: "(i - home b en) mod 2 ^ b = uint d" "uint d \<le> probe_len b table (i - 1)"
  shows "\<exists>table'. insert_loop tlen nbits table en idx d = Some (Inr (0, table')) \<and>
    geometry b tlen nbits table' \<and> robin_hood b table' \<and> map_entries table' = add_mset en (map_entries table)"
  using e m g rh once en idx d
proof (induction m arbitrary: table en x i idx d)
  case 0
  from cell_gap_0 [OF geometryD(5) [OF "0"(3)] 0(2)] have "bkt_data (cell table i) = None" using 0(1) by simp
  then show ?case by (rule insert_loop_place [OF 0(3,4) _ 0(6-9)])
next
  case (Suc m)
  note g = Suc.prems(3) and rh = Suc.prems(4)
  note len = geometryD(5) [OF g]
  let ?c = "cell table i" and ?next = "(idx + 1) AND ucast (tlen - 1)"
  note at = bucket_at_cell [OF g Suc.prems(7)]
  have far: "int m = (e - (i + 1)) mod 2 ^ b"
    using mod_pred_step [OF Suc.prems(2)] by simp
  have room: "uint d + int (Suc m) \<le> 2 ^ b - 1"
    using probe_len_gap [OF rh len Suc.prems(1,2)] Suc.prems(9) by simp
  show ?case
  proof (cases "bkt_data ?c")
    case None
    then show ?thesis by (rule insert_loop_place [OF g rh _ Suc.prems(6-9)])
  next
    case (Some y)
    have dd: "uint (map_distance tlen nbits ?c idx) = probe_len b table i - 1"
      by (rule probe_len_cell [OF g Suc.prems(7) Some])
    have mem: "?c \<in># map_entries table" using Some cell_mem [OF len] by (simp add: entries_mem)
    show ?thesis
    proof (cases "map_distance tlen nbits ?c idx < d")
      case True
      let ?t = "table[nat (i mod 2 ^ b) := en]" and ?dd = "map_distance tlen nbits ?c idx"
      have lt: "uint ?dd < uint d" using True by (simp add: word_less_def)
      have dd1: "uint (?dd + 1) = uint ?dd + 1"
        using lt room geometryD(2) [OF g] by (intro uint_succ_64 [where b = b]) linarith+
      have ent: "add_mset ?c (map_entries ?t) = add_mset en (map_entries table)"
        by (rule entries_swap [OF g Suc.prems(6) Some])
      have "robin_hood b ?t"
        using robin_hood_swap [OF g rh Suc.prems(6,8,9)] lt dd by simp
      moreover have "bkt_data (cell ?t e) = None"
        using Suc.prems(1,2) exp_mod_dist [OF _ Suc.prems(2)] by (simp add: cell_update [OF len])
      moreover have "(i + 1 - home b ?c) mod 2 ^ b = uint (?dd + 1)"
        unfolding dd1 by (rule mod_succ_step) (use distance_cell [OF g Suc.prems(7), of ?c] lt room in simp_all)
      moreover have "uint (?dd + 1) \<le> probe_len b ?t (i + 1 - 1)"
        using dd1 lt Suc.prems(6,8) by (simp add: probe_len_update [OF len] slot_len_def)
      ultimately obtain t' where t': "insert_loop tlen nbits ?t ?c ?next (?dd + 1) = Some (Inr (0, t'))"
        "geometry b tlen nbits t'" "robin_hood b t'" "map_entries t' = add_mset ?c (map_entries ?t)"
        using Suc.IH [of ?t "i + 1" ?c y ?next "?dd + 1"] far g Suc.prems(5) Some step_idx [OF g Suc.prems(7)]
        unfolding ent by auto
      have "insert_loop tlen nbits table en idx d = Some (Inr (0, t'))"
        using at True Some t'(1) by (subst insert_loop.simps) (simp add: map_bucket_swap_def)
      with t'(2-4) show ?thesis unfolding ent by blast
    next
      case False
      have ge: "uint d + 1 \<le> probe_len b table i" using False dd by (simp add: word_less_def)
      have d1: "uint (d + 1) = uint d + 1"
        using room geometryD(2) [OF g] by (intro uint_succ_64 [where b = b]) linarith+
      have "bkt_key ?c \<noteq> bkt_key en" using Suc.prems(5) mem unfolding keys_once_add by (metis image_eqI)
      then have "insert_loop tlen nbits table en idx d = insert_loop tlen nbits table en ?next (d + 1)"
        using at False Some by (subst insert_loop.simps) simp
      moreover have "(i + 1 - home b en) mod 2 ^ b = uint (d + 1)"
        unfolding d1 by (rule mod_succ_step [OF Suc.prems(8)]) (use room in linarith)
      ultimately show ?thesis
        using Suc.IH [OF Suc.prems(1) far g rh Suc.prems(5,6) step_idx [OF g Suc.prems(7)]] ge d1 by simp
    qed
  qed
qed

text \<open>An entry with a key of the table is refused, and nothing is moved.\<close>

lemma insert_loop_dup:
  assumes g: "geometry b tlen nbits table" and rh: "robin_hood b table"
    and e: "bkt_data (cell table (i + int k)) = Some x" "bkt_key (cell table (i + int k)) = bkt_key en"
    and idx: "uint idx = i mod 2 ^ b" and d: "probe_len b table (i + int k) = uint d + int k + 1"
  shows "insert_loop tlen nbits table en idx d = Some (Inr (NGHTTP2_ERR_INVALID_ARGUMENT, table))"
  using e idx d
proof (induction k arbitrary: i idx d)
  case 0
  then show ?case
    using bucket_at_cell(1) [OF g 0(3)] probe_len_cell [OF g 0(3)]
    by (subst insert_loop.simps) (simp add: word_less_def)
next
  case (Suc k)
  let ?c = "cell table i"
  have shift: "i + int (Suc k) = (i + 1) + int k" by simp
  have ge: "uint d + 1 \<le> probe_len b table i"
    using robin_hood_back [OF rh, of i "Suc k"] Suc.prems(4) by simp
  then obtain y where y: "bkt_data ?c = Some y" by (metis probe_len_0_iff not_None_eq add_nonneg_pos uint_ge_0 zero_less_one not_le)
  have at: "bucket_at table idx = Inr ?c" by (rule bucket_at_cell(1) [OF g Suc.prems(3)])
  have more: "\<not> map_distance tlen nbits ?c idx < d"
    using probe_len_cell [OF g Suc.prems(3) y] ge by (simp add: word_less_def)
  have "probe_len b table (i + int (Suc k)) \<le> 2 ^ b" by (rule probe_len_range)
  then have "uint d < 2 ^ b" using Suc.prems(4) by simp
  then have "uint (d + 1) = uint d + 1" using geometryD(2) [OF g] by (rule uint_succ_64)
  with Suc.IH [OF _ _ step_idx [OF g Suc.prems(3)], of "d + 1"] Suc.prems(1,2,4)
  show ?case using at y more unfolding shift by (subst insert_loop.simps) simp
qed

section \<open>The shift loop\<close>

text \<open>A hole at \<open>i\<close>: the invariant holds but for the step out of the hole, which is at most one too large.\<close>

definition hole_at :: "nat \<Rightarrow> 'a map_bucket list \<Rightarrow> int \<Rightarrow> bool" where
  "hole_at b table i \<longleftrightarrow> bkt_data (cell table i) = None \<and>
     (\<forall>j. j mod 2 ^ b \<noteq> i mod 2 ^ b \<longrightarrow> probe_len b table (j + 1) \<le> probe_len b table j + 1) \<and>
     probe_len b table (i + 1) \<le> probe_len b table (i - 1) + 2"

lemma slot_len_empty [simp]: "slot_len b i (map_bucket_set_data h k None) = 0"
  by (simp add: slot_len_def map_bucket_set_data_def)

lemma mod_shift_cong: "i mod (2 :: int) ^ b = j mod 2 ^ b \<Longrightarrow> (i + k) mod 2 ^ b = (j + k) mod 2 ^ b"
  by (metis mod_add_left_eq)

lemma hole_made:
  assumes len: "length table = 2 ^ b" and b: "0 < b" and rh: "robin_hood b table"
  shows "hole_at b (table[nat (i mod 2 ^ b) := map_bucket_set_data h k None]) i"
proof -
  have "probe_len b table (i + 1) \<le> probe_len b table i + 1" "probe_len b table i \<le> probe_len b table (i - 1) + 1"
    using rh [unfolded robin_hood_def] by (blast, metis diff_add_cancel)
  then have "probe_len b table (i + 1) \<le> probe_len b table (i - 1) + 2" by linarith
  moreover have "(i - 1) mod 2 ^ b \<noteq> i mod 2 ^ b" "(i + 1) mod 2 ^ b \<noteq> i mod 2 ^ b"
    using mod_succ_neq [OF b, of "i - 1"] mod_succ_neq [OF b, of i] by simp_all
  moreover have "probe_len b table (j + 1) \<le> probe_len b table j + 1" "0 \<le> probe_len b table j" for j
    using rh by (simp_all add: robin_hood_def probe_len_range)
  ultimately show ?thesis
    by (simp add: hole_at_def probe_len_update [OF len] cell_update [OF len] map_bucket_set_data_def slot_len_def)
qed

lemma hole_filled: "hole_at b table i \<Longrightarrow> probe_len b table (i + 1) \<le> 1 \<Longrightarrow> length table = 2 ^ b \<Longrightarrow> robin_hood b table"
  unfolding robin_hood_def
proof
  fix j
  assume h: "hole_at b table i" and le: "probe_len b table (i + 1) \<le> 1" and len: "length table = 2 ^ b"
  show "probe_len b table (j + 1) \<le> probe_len b table j + 1"
  proof (cases "j mod 2 ^ b = i mod 2 ^ b")
    case True
    then have "probe_len b table (j + 1) = probe_len b table (i + 1)"
      by (intro probe_len_cong [OF len] mod_shift_cong)
    then show ?thesis using le probe_len_range(1) [of b table j] by linarith
  qed (use h in \<open>simp add: hole_at_def\<close>)
qed

lemma hole_moved:
  assumes len: "length table = 2 ^ b" and b: "0 < b" and h: "hole_at b table i"
    and c: "bkt_data (cell table (i + 1)) = Some x" "probe_len b table (i + 1) \<noteq> 1"
  shows "hole_at b (table[nat (i mod 2 ^ b) := cell table (i + 1), nat ((i + 1) mod 2 ^ b) := map_bucket_set_data 0 0 None]) (i + 1)"
    (is "hole_at b ?t _")
proof -
  let ?c = "cell table (i + 1)"
  have nx: "(i + 1) mod 2 ^ b \<noteq> i mod 2 ^ b" by (rule mod_succ_neq [OF b])
  define D where "D = (i + 1 - home b ?c) mod 2 ^ b"
  have D: "probe_len b table (i + 1) = D + 1" using c by (simp add: probe_len_def D_def)
  have "0 \<le> D" by (simp add: D_def)
  with c(2) D have "0 < D" by linarith
  have "(i - home b ?c) mod 2 ^ b = D - 1"
  proof -
    have "(i - home b ?c) mod 2 ^ b = (D - 1) mod 2 ^ b"
      unfolding D_def by (metis add_diff_cancel_right' diff_add_eq mod_diff_left_eq)
    moreover have "D < 2 ^ b" by (simp add: D_def)
    ultimately show ?thesis using \<open>0 < D\<close> by simp
  qed
  then have slot: "slot_len b i ?c = probe_len b table (i + 1) - 1" using c D by (simp add: slot_len_def)
  have len': "length (table[nat (i mod 2 ^ b) := ?c]) = 2 ^ b" using len by simp
  have P: "probe_len b ?t j = (if j mod 2 ^ b = (i + 1) mod 2 ^ b then 0
      else if j mod 2 ^ b = i mod 2 ^ b then probe_len b table (i + 1) - 1 else probe_len b table j)" for j
    by (simp add: probe_len_update [OF len'] probe_len_update [OF len] slot)
  have step: "probe_len b table (j + 1) \<le> probe_len b table j + 1" if "j mod 2 ^ b \<noteq> i mod 2 ^ b" for j
    using h that by (simp add: hole_at_def)
  have ge: "0 \<le> probe_len b table j" for j by (rule probe_len_range)
  have "probe_len b ?t (j + 1) \<le> probe_len b ?t j + 1" if j: "j mod 2 ^ b \<noteq> (i + 1) mod 2 ^ b" for j
  proof -
    consider "(j + 1) mod 2 ^ b = (i + 1) mod 2 ^ b" | "(j + 1) mod 2 ^ b = i mod 2 ^ b" "(j + 1) mod 2 ^ b \<noteq> (i + 1) mod 2 ^ b"
      | "(j + 1) mod 2 ^ b \<noteq> i mod 2 ^ b" "(j + 1) mod 2 ^ b \<noteq> (i + 1) mod 2 ^ b" by blast
    then show ?thesis
    proof cases
      case 1
      then show ?thesis using ge [of j] \<open>0 < D\<close> D by (simp add: P)
    next
      case 2
      then have "j mod 2 ^ b = (i - 1) mod 2 ^ b" using mod_succ_cong [of j b "i - 1"] by simp
      then have "probe_len b table j = probe_len b table (i - 1)" by (rule probe_len_cong [OF len])
      moreover have "j mod 2 ^ b \<noteq> i mod 2 ^ b" using 2 mod_succ_cong [of j b i] by simp
      ultimately show ?thesis using 2 j h by (simp add: P hole_at_def)
    next
      case 3
      then have "j mod 2 ^ b \<noteq> i mod 2 ^ b" using mod_succ_cong [of j b i] by simp
      then show ?thesis using 3 j step by (simp add: P)
    qed
  qed
  moreover have "probe_len b ?t (i + 1 + 1) \<le> probe_len b ?t (i + 1 - 1) + 2"
    using step [OF nx] nx ge \<open>0 < D\<close> D by (simp add: P) 
  moreover have "bkt_data (cell ?t (i + 1)) = None"
    by (simp add: cell_update [OF len'] map_bucket_set_data_def)
  ultimately show ?thesis by (simp add: hole_at_def)
qed

lemma entries_moved:
  assumes len: "length table = 2 ^ b" and b: "0 < b" and h: "bkt_data (cell table i) = None"
    and c: "bkt_data (cell table (i + 1)) = Some x"
  shows "map_entries (table[nat (i mod 2 ^ b) := cell table (i + 1), nat ((i + 1) mod 2 ^ b) := map_bucket_set_data 0 0 None]) =
    map_entries table"
proof -
  let ?c = "cell table (i + 1)"
  have nx: "(i + 1) mod 2 ^ b \<noteq> i mod 2 ^ b" by (rule mod_succ_neq [OF b])
  have ix: "nat (j mod 2 ^ b) < length table" for j unfolding len by (simp add: nat_less_iff)
  have ne: "nat (i mod 2 ^ b) \<noteq> nat ((i + 1) mod 2 ^ b)" using nx by (simp add: eq_nat_nat_iff)
  have "map_entries (table[nat (i mod 2 ^ b) := ?c]) = add_mset ?c (map_entries table)"
    using h c by (simp add: entries_update [OF ix] cell_nth [OF len, symmetric])
  then show ?thesis
    using c ix ne by (simp add: entries_update map_bucket_set_data_def cell_nth [OF len])
qed

lemma shift_loop_ok:
  assumes e: "bkt_data (cell table e) = None" and m: "int m = (e - (i + 1)) mod 2 ^ b"
    and g: "geometry b tlen nbits table" and h: "hole_at b table i"
    and didx: "uint didx = i mod 2 ^ b" and idx: "uint idx = (i + 1) mod 2 ^ b"
    and ne: "e mod 2 ^ b \<noteq> i mod 2 ^ b"
  shows "\<exists>table'. shift_loop tlen nbits table didx idx = Some (Inr table') \<and>
    geometry b tlen nbits table' \<and> robin_hood b table' \<and> map_entries table' = map_entries table"
  using e m g h didx idx ne
proof (induction m arbitrary: table i didx idx)
  case 0
  from cell_gap_0 [OF geometryD(5) [OF "0"(3)] 0(2)] have n: "bkt_data (cell table (i + 1)) = None" using 0(1) by simp
  then have "robin_hood b table"
    using probe_len_0_iff [of b table "i + 1"] by (intro hole_filled [OF 0(4) _ geometryD(5) [OF "0"(3)]]) simp
  then show ?case using n bucket_at_cell(1) [OF 0(3,6)] 0(3) by (subst shift_loop.simps) simp
next
  case (Suc m)
  note g = Suc.prems(3) and h = Suc.prems(4)
  note len = geometryD(5) [OF g] and b = geometryD(1) [OF g]
  let ?c = "cell table (i + 1)"
  note at = bucket_at_cell [OF g Suc.prems(6)] bucket_at_cell [OF g Suc.prems(5)]
  have far: "int m = (e - (i + 1 + 1)) mod 2 ^ b" using mod_pred_step [OF Suc.prems(2)] by simp
  show ?case
  proof (cases "bkt_data ?c = None \<or> map_distance tlen nbits ?c idx = 0")
    case True
    then have "probe_len b table (i + 1) \<le> 1"
      using probe_len_0_iff [of b table "i + 1"] probe_len_cell [OF g Suc.prems(6)] by fastforce
    then have "robin_hood b table" by (rule hole_filled [OF h _ len])
    then show ?thesis using True at(1) g by (subst shift_loop.simps) simp
  next
    case False
    then obtain y where y: "bkt_data ?c = Some y" by auto
    let ?t = "table[nat (i mod 2 ^ b) := ?c, nat ((i + 1) mod 2 ^ b) := map_bucket_set_data 0 0 None]"
    have "probe_len b table (i + 1) \<noteq> 1"
      using False probe_len_cell [OF g Suc.prems(6) y] by (auto simp: uint_0_iff)
    then have "hole_at b ?t (i + 1)" by (rule hole_moved [OF len b h y])
    moreover have "bkt_data (cell ?t e) = None"
      using Suc.prems(1,7) exp_mod_dist [OF _ Suc.prems(2)] by (simp add: cell_update len)
    moreover have "map_entries ?t = map_entries table"
      using h by (intro entries_moved [OF len b _ y]) (simp add: hole_at_def)
    moreover have "shift_loop tlen nbits table didx idx = shift_loop tlen nbits ?t idx ((idx + 1) AND ucast (tlen - 1))"
      using False y at by (subst shift_loop.simps) simp
    ultimately show ?thesis
      using Suc.IH [of ?t "i + 1" idx "(idx + 1) AND ucast (tlen - 1)"] far g Suc.prems(6) step_idx [OF g Suc.prems(6)] exp_mod_dist [OF _ Suc.prems(2)]
      by simp
  qed
qed

section \<open>Invariant and abstraction\<close>

definition hash_ok :: "'a map_bucket multiset \<Rightarrow> bool" where
  "hash_ok M \<longleftrightarrow> (\<forall>e \<in># M. bkt_hash e = map_hash (bkt_key e))"

text \<open>
  A map without a table is empty. A table has \<open>2 ^ b\<close> buckets, is at most three quarters full,
  holds every key once with its hash, and satisfies the Robin Hood invariant.
\<close>

definition table_ok :: "nat \<Rightarrow> 'a nghttp2_map \<Rightarrow> bool" where
  "table_ok b mp \<longleftrightarrow> b \<le> 30 \<and> geometry b (map_tablelen mp) (map_tablelenbits mp) (map_table mp) \<and>
     robin_hood b (map_table mp) \<and> keys_once (map_entries (map_table mp)) \<and> hash_ok (map_entries (map_table mp)) \<and>
     map_size mp = size (map_entries (map_table mp)) \<and> map_size mp * 4 \<le> 2 ^ b * 3"

definition map_inv :: "'a nghttp2_map \<Rightarrow> bool" where
  "map_inv mp \<longleftrightarrow> mp = nghttp2_map_init \<or> (\<exists>b. table_ok b mp)"

definition map_abs :: "'a nghttp2_map \<Rightarrow> 32 word \<rightharpoonup> 'a" where
  "map_abs mp = map_of (map (\<lambda>bkt. (bkt_key bkt, the (bkt_data bkt)))
     (filter (\<lambda>bkt. bkt_data bkt \<noteq> None) (map_table mp)))"

lemma map_abs_entries:
  assumes "keys_once (map_entries (map_table mp))"
  shows "map_abs mp k = Some x \<longleftrightarrow> (\<exists>e. e \<in># map_entries (map_table mp) \<and> bkt_key e = k \<and> bkt_data e = Some x)"
proof
  assume "map_abs mp k = Some x"
  then show "\<exists>e. e \<in># map_entries (map_table mp) \<and> bkt_key e = k \<and> bkt_data e = Some x"
    unfolding map_abs_def by (fastforce dest!: map_of_SomeD simp: entries_mem)
next
  assume "\<exists>e. e \<in># map_entries (map_table mp) \<and> bkt_key e = k \<and> bkt_data e = Some x"
  then obtain e where e: "e \<in># map_entries (map_table mp)" "bkt_key e = k" "bkt_data e = Some x" by blast
  then have kx: "(k, x) \<in> set (map (\<lambda>bkt. (bkt_key bkt, the (bkt_data bkt))) (filter (\<lambda>bkt. bkt_data bkt \<noteq> None) (map_table mp)))"
    by (auto simp: entries_mem intro!: image_eqI [where x = e])
  obtain y where y: "map_abs mp k = Some y"
    unfolding map_abs_def using weak_map_of_SomeI [OF kx] by blast
  then obtain e' where "e' \<in># map_entries (map_table mp)" "bkt_key e' = k" "bkt_data e' = Some y"
    unfolding map_abs_def by (auto dest!: map_of_SomeD simp: entries_mem)
  with keys_once_eq [OF assms e(1), of e'] e y show "map_abs mp k = Some x" by simp
qed

lemma map_abs_None:
  assumes "keys_once (map_entries (map_table mp))"
  shows "map_abs mp k = None \<longleftrightarrow> k \<notin> bkt_key ` set_mset (map_entries (map_table mp))"
proof -
  have "map_abs mp k \<noteq> None \<longleftrightarrow> (\<exists>e. e \<in># map_entries (map_table mp) \<and> bkt_key e = k)"
    using map_abs_entries [OF assms, of k] by (auto simp: entries_mem)
  then show ?thesis by blast
qed

lemma map_abs_same:
  assumes "keys_once (map_entries (map_table mp))" "map_entries (map_table mp') = map_entries (map_table mp)"
  shows "map_abs mp' = map_abs mp"
proof
  fix k
  show "map_abs mp' k = map_abs mp k"
    using map_abs_entries [of mp' k] map_abs_entries [of mp k] assms by (metis not_None_eq)
qed

lemma map_abs_add:
  assumes once: "keys_once (add_mset e (map_entries (map_table mp)))" and e: "bkt_data e = Some x"
    and add: "map_entries (map_table mp') = add_mset e (map_entries (map_table mp))"
  shows "map_abs mp' = (map_abs mp)(bkt_key e \<mapsto> x)"
proof
  fix k
  have k': "map_abs mp' k = Some y \<longleftrightarrow> (\<exists>d. d \<in># add_mset e (map_entries (map_table mp)) \<and> bkt_key d = k \<and> bkt_data d = Some y)" for y
    using map_abs_entries [of mp' k y] once add by simp
  have k: "map_abs mp k = Some y \<longleftrightarrow> (\<exists>d. d \<in># map_entries (map_table mp) \<and> bkt_key d = k \<and> bkt_data d = Some y)" for y
    using map_abs_entries [of mp k y] once by (simp add: keys_once_add)
  show "map_abs mp' k = ((map_abs mp)(bkt_key e \<mapsto> x)) k"
  proof (cases "k = bkt_key e")
    case True
    then show ?thesis using k' e by auto
  next
    case False
    then have "map_abs mp' k = Some y \<longleftrightarrow> map_abs mp k = Some y" for y unfolding k k' by auto
    with False show ?thesis by (metis fun_upd_other not_None_eq)
  qed
qed

lemma hash_ok_add [simp]: "hash_ok (add_mset e M) \<longleftrightarrow> bkt_hash e = map_hash (bkt_key e) \<and> hash_ok M"
  by (auto simp: hash_ok_def)

lemma empty_slot:
  assumes "length table = 2 ^ b" "size (map_entries table) < 2 ^ b"
  obtains e where "bkt_data (cell table e) = None" "0 \<le> e" "e < 2 ^ b"
proof -
  have "\<exists>bkt \<in> set table. bkt_data bkt = None"
  proof (rule ccontr)
    assume "\<not> ?thesis"
    then have "filter (\<lambda>bkt. bkt_data bkt \<noteq> None) table = table" by (simp add: filter_id_conv)
    then have "size (map_entries table) = 2 ^ b"
      unfolding map_entries_def using assms(1) by (metis mset_filter size_mset)
    with assms(2) show False by simp
  qed
  then obtain bkt where "bkt \<in> set table" "bkt_data bkt = None" by blast
  with mem_cell [OF assms(1)] that show thesis by metis
qed

lemma gap_nat: "\<exists>m. int m = (e - i) mod 2 ^ b"
  by (rule exI [of _ "nat ((e - i) mod 2 ^ b)"]) simp

lemma initial_probe:
  assumes "geometry b tlen nbits table" "robin_hood b table" "e \<in># map_entries table"
  obtains k where "cell table (home b e + int k) = e" "probe_len b table (home b e + int k) = int k + 1"
proof -
  note len = geometryD(5) [OF assms(1)]
  obtain x where x: "e \<in> set table" "bkt_data e = Some x" using assms(3) by (auto simp: entries_mem)
  obtain j where j: "cell table j = e" using mem_cell [OF len x(1)] by metis
  obtain k where k: "int k = (j - home b e) mod 2 ^ b" using gap_nat by blast
  have "(home b e + int k) mod 2 ^ b = j mod 2 ^ b" unfolding k by (metis add.commute diff_add_cancel mod_add_right_eq)
  then have "cell table (home b e + int k) = e" "probe_len b table (home b e + int k) = probe_len b table j"
    using cell_cong [OF len, of _ j] probe_len_cong [OF len, of _ j] j by metis+
  moreover have "probe_len b table j = int k + 1" using j x(2) k by (simp add: probe_len_def)
  ultimately show thesis using that by simp
qed

lemma home_idx:
  assumes "geometry b tlen nbits table"
  shows "uint (h2idx (bkt_hash e) nbits) = home b e mod 2 ^ b"
  using h2idx_home [OF assms, of e] by simp

section \<open>Operations on a table that satisfies the invariant\<close>

lemma insert_new:
  assumes g: "geometry b tlen nbits table" and rh: "robin_hood b table" and space: "size (map_entries table) < 2 ^ b"
    and once: "keys_once (add_mset (map_bucket_set_data h k (Some x)) (map_entries table))"
  shows "\<exists>table'. map_insert_into table tlen nbits h k x = Some (Inr (0, table')) \<and> geometry b tlen nbits table' \<and>
    robin_hood b table' \<and> map_entries table' = add_mset (map_bucket_set_data h k (Some x)) (map_entries table)"
proof -
  let ?e = "map_bucket_set_data h k (Some x)"
  obtain e where e: "bkt_data (cell table e) = None" by (rule empty_slot [OF geometryD(5) [OF g] space])
  obtain m where m: "int m = (e - home b ?e) mod 2 ^ b" using gap_nat by blast
  have "uint (h2idx h nbits) = home b ?e mod 2 ^ b"
    using home_idx [OF g, of ?e] by (simp add: map_bucket_set_data_def)
  from insert_loop_ok [OF e m g rh once _ this, of x 0]
  show ?thesis using probe_len_range(1) [of b table] by (simp add: map_insert_into_def map_bucket_set_data_def)
qed

lemma insert_present:
  assumes g: "geometry b tlen nbits table" and rh: "robin_hood b table" and hash: "hash_ok (map_entries table)"
    and e: "e \<in># map_entries table" "bkt_key e = k"
  shows "map_insert_into table tlen nbits (map_hash k) k x = Some (Inr (NGHTTP2_ERR_INVALID_ARGUMENT, table))"
proof -
  obtain n where n: "cell table (home b e + int n) = e" "probe_len b table (home b e + int n) = int n + 1"
    by (rule initial_probe [OF g rh e(1)])
  have "bkt_hash e = map_hash k" using hash e by (simp add: hash_ok_def)
  then have "uint (h2idx (map_hash k) nbits) = home b e mod 2 ^ b" using home_idx [OF g, of e] by simp
  moreover obtain y where "bkt_data e = Some y" using e(1) by (auto simp: entries_mem)
  ultimately show ?thesis
    using insert_loop_dup [OF g rh, of "home b e" n y "map_bucket_set_data (map_hash k) k (Some x)" _ 0] n e(2)
    by (simp add: map_insert_into_def map_bucket_set_data_def)
qed

lemma probe_present:
  assumes "table_ok b mp" "e \<in># map_entries (map_table mp)" "bkt_key e = k"
  shows "\<exists>idx. probe_loop mp k (h2idx (map_hash k) (map_tablelenbits mp)) 0 = Some (Inr (Some idx)) \<and>
    bucket_at (map_table mp) idx = Inr e"
proof -
  have g: "geometry b (map_tablelen mp) (map_tablelenbits mp) (map_table mp)" and rh: "robin_hood b (map_table mp)"
    and once: "keys_once (map_entries (map_table mp))" and "hash_ok (map_entries (map_table mp))"
    using assms(1) by (auto simp: table_ok_def)
  then have hash: "bkt_hash e = map_hash k" using assms(2,3) by (simp add: hash_ok_def)
  obtain n where n: "cell (map_table mp) (home b e + int n) = e" "probe_len b (map_table mp) (home b e + int n) = int n + 1"
    by (rule initial_probe [OF g rh assms(2)])
  obtain y where y: "bkt_data e = Some y" using assms(2) by (auto simp: entries_mem)
  show ?thesis
    using probe_loop_found [OF g rh once n(1) y assms(3) home_idx [OF g, of e], of 0] n(2) hash by simp
qed

lemma probe_missing:
  assumes "table_ok b mp" "k \<notin> bkt_key ` set_mset (map_entries (map_table mp))"
  shows "probe_loop mp k (h2idx (map_hash k) (map_tablelenbits mp)) 0 = Some (Inr None)"
proof -
  let ?e = "map_bucket_set_data (map_hash k) k None" and ?t = "map_table mp"
  have g: "geometry b (map_tablelen mp) (map_tablelenbits mp) ?t" and "size (map_entries ?t) * 4 \<le> 2 ^ b * 3"
    using assms(1) by (auto simp: table_ok_def)
  moreover have "(0 :: nat) < 2 ^ b" by simp
  ultimately have space: "size (map_entries ?t) < 2 ^ b" by linarith
  obtain e where e: "bkt_data (cell ?t e) = None" by (rule empty_slot [OF geometryD(5) [OF g] space])
  obtain m where m: "int m = (e - home b ?e) mod 2 ^ b" using gap_nat by blast
  have "int m < 2 ^ b" unfolding m by simp
  moreover have "uint (h2idx (map_hash k) (map_tablelenbits mp)) = home b ?e mod 2 ^ b"
    using home_idx [OF g, of ?e] by (simp add: map_bucket_set_data_def)
  ultimately show ?thesis using probe_loop_absent [OF g e assms(2) _ m, of _ 0] by simp
qed

section \<open>Growing\<close>

definition fresh_table :: "nat \<Rightarrow> 'a map_bucket list" where
  "fresh_table b = replicate (2 ^ b) empty_bucket"

lemma fresh_table:
  assumes "0 < b" "b < 32"
  shows "geometry b (2 ^ b) (of_nat b) (fresh_table b :: 'a map_bucket list)"
    "robin_hood b (fresh_table b :: 'a map_bucket list)" "map_entries (fresh_table b :: 'a map_bucket list) = {#}"
proof -
  let ?t = "fresh_table b :: 'a map_bucket list"
  have "nat (i mod 2 ^ b) < 2 ^ b" for i by (simp add: nat_less_iff)
  then have "cell ?t i = empty_bucket" for i
    by (simp add: cell_def fresh_table_def)
  then show "robin_hood b ?t"
    by (simp add: robin_hood_def probe_len_def empty_bucket_def)
  show "map_entries ?t = {#}"
    by (simp add: map_entries_def fresh_table_def empty_bucket_def filter_mset_eq_mempty_iff)
  show "geometry b (2 ^ b) (of_nat b) ?t" using assms by (simp add: geometry_def fresh_table_def)
qed

lemma map_entries_Cons:
  "map_entries (bkt # bkts) = (if bkt_data bkt = None then {#} else {#bkt#}) + map_entries bkts"
  by (simp add: map_entries_def)

lemma keys_once_union: "keys_once (M + N) \<Longrightarrow> keys_once M \<and> keys_once N"
  unfolding keys_once_def by (metis add_leE count_union image_mset_union)

lemma resize_loop_ok:
  assumes "geometry b tlen nbits table" "robin_hood b table"
    "keys_once (map_entries bkts + map_entries table)" "size (map_entries bkts) + size (map_entries table) < 2 ^ b"
  shows "\<exists>table'. resize_loop tlen nbits bkts table = Some (Inr table') \<and> geometry b tlen nbits table' \<and>
    robin_hood b table' \<and> map_entries table' = map_entries bkts + map_entries table"
  using assms
proof (induction bkts arbitrary: table)
  case Nil
  then show ?case by (simp add: map_entries_def)
next
  case (Cons bkt bkts)
  show ?case
  proof (cases "bkt_data bkt")
    case None
    then show ?thesis using Cons by (simp add: map_entries_Cons)
  next
    case (Some d)
    have bkt: "map_bucket_set_data (bkt_hash bkt) (bkt_key bkt) (Some d) = bkt"
      using set_data_id [of bkt] Some by simp
    have once: "keys_once (map_entries bkts + add_mset bkt (map_entries table))"
      using Cons.prems(3) Some by (simp add: map_entries_Cons)
    have size: "size (map_entries table) < 2 ^ b" using Cons.prems(4) by simp
    obtain t where t: "map_insert_into table tlen nbits (bkt_hash bkt) (bkt_key bkt) d = Some (Inr (0, t))"
      "geometry b tlen nbits t" "robin_hood b t" "map_entries t = add_mset bkt (map_entries table)"
      using insert_new [OF Cons.prems(1,2) size, of "bkt_hash bkt" "bkt_key bkt" d] keys_once_union [OF once]
      unfolding bkt by blast
    have "size (map_entries bkts) + size (map_entries t) < 2 ^ b"
      using Cons.prems(4) t(4) Some by (simp add: map_entries_Cons)
    with Cons.IH [OF t(2,3)] once t(1,4) Some show ?thesis by (simp add: map_entries_Cons)
  qed
qed

definition mem_refuses :: "memory \<Rightarrow> bool" where
  "mem_refuses m = (case mem_answers m of [] \<Rightarrow> True | a # _ \<Rightarrow> a = None)"

lemma unat_exp_32: "b < 32 \<Longrightarrow> unat ((2 :: 32 word) ^ b) = 2 ^ b"
  using power_strict_increasing [of b 32 "2 :: nat"] unat_of_nat [where ?'a = 32, of "2 ^ b"]
  by (simp only: of_nat_power of_nat_numeral len_num1 len_bit0) simp

lemma map_resize_ok:
  assumes b: "0 < b" "b < 32" and all: "unat (map_tablelen mp) = length (map_table mp)"
    and once: "keys_once (map_entries (map_table mp))" and size: "size (map_entries (map_table mp)) < 2 ^ b"
  shows "(mem_refuses m \<and> (\<exists>m'. map_resize mp (2 ^ b) (of_nat b) m = Some (Inr (NGHTTP2_ERR_NOMEM, mp, m')))) \<or>
    (\<exists>table m'. map_resize mp (2 ^ b) (of_nat b) m =
        Some (Inr (0, mp\<lparr>map_table := table, map_tablelen := 2 ^ b, map_tablelenbits := of_nat b\<rparr>, m')) \<and>
      geometry b (2 ^ b) (of_nat b) table \<and> robin_hood b table \<and> map_entries table = map_entries (map_table mp))"
proof -
  have len: "unat ((2 :: 32 word) ^ b) = 2 ^ b" by (rule unat_exp_32 [OF b(2)])
  obtain table where table: "resize_loop (2 ^ b) (of_nat b) (map_table mp) (fresh_table b) = Some (Inr table)"
    "geometry b (2 ^ b) (of_nat b) table" "robin_hood b table" "map_entries table = map_entries (map_table mp)"
    using resize_loop_ok [OF fresh_table(1,2) [OF b], of "map_table mp"] once size fresh_table(3) [OF b]
    by (metis add.right_neutral size_empty)
  show ?thesis
  proof (cases "nghttp2_mem_malloc (2 ^ b * SIZEOF_MAP_BUCKET) m")
    case (Pair r m1)
    then show ?thesis
    proof (cases r)
      case None
      then have "mem_refuses m" using Pair
        by (auto simp: nghttp2_mem_malloc_def mem_refuses_def split: list.splits option.splits)
      then show ?thesis using Pair None by (simp add: map_resize_def len)
    next
      case (Some blk)
      then obtain m' where "map_resize mp (2 ^ b) (of_nat b) m =
          Some (Inr (0, mp\<lparr>map_table := table, map_tablelen := 2 ^ b, map_tablelenbits := of_nat b\<rparr>, m'))"
        using Pair table(1) all by (simp add: map_resize_def len fresh_table_def)
      then show ?thesis using table(2-4) by blast
    qed
  qed
qed

text \<open>Room for one more entry, or no memory.\<close>

lemma map_reserve_ok:
  assumes inv: "map_inv mp" and small: "map_size mp < 3 * 2 ^ 28"
  shows "(mem_refuses m \<and> (\<exists>m'. map_reserve mp m = Some (Inr (NGHTTP2_ERR_NOMEM, mp, m')))) \<or>
    (\<exists>mp' m' b. map_reserve mp m = Some (Inr (0, mp', m')) \<and> table_ok b mp' \<and> (map_size mp' + 1) * 4 \<le> 2 ^ b * 3 \<and>
       map_size mp' = map_size mp \<and> map_entries (map_table mp') = map_entries (map_table mp))"
proof -
  have grown: "?thesis"
    if b: "0 < b" "b \<le> 30" and run: "map_reserve mp m = map_resize mp (2 ^ b) (of_nat b) m"
      and all: "unat (map_tablelen mp) = length (map_table mp)" and once: "keys_once (map_entries (map_table mp))"
      and hash: "hash_ok (map_entries (map_table mp))" and size: "map_size mp = size (map_entries (map_table mp))"
      and room: "(map_size mp + 1) * 4 \<le> 2 ^ b * 3" for b
  proof -
    have "size (map_entries (map_table mp)) < 2 ^ b"
      using room zero_less_power [of "2 :: nat" b] unfolding size by simp
    then consider (none) m' where "mem_refuses m" "map_resize mp (2 ^ b) (of_nat b) m = Some (Inr (NGHTTP2_ERR_NOMEM, mp, m'))"
      | (some) table m' where "map_resize mp (2 ^ b) (of_nat b) m =
          Some (Inr (0, mp\<lparr>map_table := table, map_tablelen := 2 ^ b, map_tablelenbits := of_nat b\<rparr>, m'))"
        "geometry b (2 ^ b) (of_nat b) table" "robin_hood b table" "map_entries table = map_entries (map_table mp)"
      using map_resize_ok [OF b(1) _ all once, of m] b(2) by auto
    then show ?thesis
    proof cases
      case none
      then show ?thesis using run by auto
    next
      case some
      let ?mp = "mp\<lparr>map_table := table, map_tablelen := 2 ^ b, map_tablelenbits := of_nat b\<rparr>"
      have "table_ok b ?mp" using some b once hash size room by (simp add: table_ok_def)
      then show ?thesis using some run room by (intro disjI2 exI [of _ ?mp] exI [of _ m'] exI [of _ b]) simp
    qed
  qed
  from inv consider "mp = nghttp2_map_init" | b where "table_ok b mp" by (auto simp: map_inv_def)
  then show ?thesis
  proof cases
    case 1
    have "map_reserve mp m = map_resize mp (2 ^ 4) (of_nat 4) m"
      unfolding 1 by (simp add: map_reserve_def nghttp2_map_init_def NGHTTP2_INITIAL_TABLE_LENBITS_def)
    then show ?thesis
      by (rule grown [rotated 2]) (simp_all add: 1 nghttp2_map_init_def map_entries_def keys_once_def hash_ok_def)
  next
    case (2 b)
    then have b: "b \<le> 30" and g: "geometry b (map_tablelen mp) (map_tablelenbits mp) (map_table mp)"
      and size: "map_size mp * 4 \<le> 2 ^ b * 3" by (simp_all add: table_ok_def)
    have "(2 :: nat) ^ b \<le> 2 ^ 30" using b by (intro power_increasing) auto
    then have len: "unat (map_tablelen mp * 3) = 2 ^ b * 3"
      using b geometryD(3) [OF g] by (simp add: unat_word_ariths unat_exp_32)
    show ?thesis
    proof (cases "(map_size mp + 1) * 4 > 2 ^ b * 3")
      case True
      have "(2 :: nat) ^ b < 2 ^ 30" using True small by simp
      then have "b < 30" using power_less_imp_less_exp [of "2 :: nat" b 30] by simp
      moreover have "map_reserve mp m = map_resize mp (2 ^ Suc b) (of_nat (Suc b)) m"
        using True len geometryD(1,3,4) [OF g] unat_exp_32 [of b] b
        by (simp add: map_reserve_def mult.commute add.commute unat_eq_0 [symmetric])
      moreover have "(2 :: nat) \<le> 2 ^ b" using geometryD(1) [OF g] power_increasing [of 1 b "2 :: nat"] by simp
      ultimately show ?thesis using 2 geometryD(2,3,5) [OF g] size
        by (intro grown [of "Suc b"]) (simp_all add: table_ok_def unat_exp_32)
    next
      case False
      then have "map_reserve mp m = Some (Inr (0, mp, m))" by (simp add: map_reserve_def len)
      then show ?thesis using 2 False by auto
    qed
  qed
qed

section \<open>The operations refine a partial map\<close>

lemma map_invE:
  assumes "map_inv mp"
  obtains "mp = nghttp2_map_init" | b where "table_ok b mp" "keys_once (map_entries (map_table mp))"
  using assms by (auto simp: map_inv_def table_ok_def)

lemma map_abs_init [simp]: "map_abs nghttp2_map_init = Map.empty"
  by (simp add: map_abs_def nghttp2_map_init_def)

lemma map_find_law:
  assumes "map_inv mp"
  shows "nghttp2_map_find mp k = Some (Inr (map_abs mp k))"
  using assms
proof (cases rule: map_invE)
  case 1
  then show ?thesis by (simp add: nghttp2_map_find_def) (simp add: nghttp2_map_init_def)
next
  case (2 b)
  have size: "map_size mp = size (map_entries (map_table mp))" using 2(1) by (simp add: table_ok_def)
  show ?thesis
  proof (cases "map_abs mp k")
    case None
    then have "k \<notin> bkt_key ` set_mset (map_entries (map_table mp))" using map_abs_None [OF 2(2)] by simp
    from probe_missing [OF 2(1) this] None show ?thesis by (simp add: nghttp2_map_find_def)
  next
    case (Some x)
    then obtain e where e: "e \<in># map_entries (map_table mp)" "bkt_key e = k" "bkt_data e = Some x"
      using map_abs_entries [OF 2(2)] by blast
    then have "map_size mp \<noteq> 0" using size by (metis size_eq_0_iff_empty empty_iff set_mset_empty)
    with probe_present [OF 2(1) e(1,2)] e(3) Some show ?thesis by (auto simp: nghttp2_map_find_def)
  qed
qed

text \<open>The result of an insertion: the entry is added, or the key is there already, or the allocator has refused.\<close>

lemma map_insert_law:
  assumes inv: "map_inv mp" and small: "map_size mp < 3 * 2 ^ 28"
  shows "\<exists>rv mp' m'. nghttp2_map_insert mp k (Some x) m = Some (Inr (rv, mp', m')) \<and> map_inv mp' \<and>
    map_size mp' \<le> map_size mp + 1 \<and>
    (rv = 0 \<and> map_abs mp k = None \<and> map_abs mp' = (map_abs mp)(k \<mapsto> x) \<or>
     rv = NGHTTP2_ERR_INVALID_ARGUMENT \<and> map_abs mp k \<noteq> None \<and> map_abs mp' = map_abs mp \<or>
     rv = NGHTTP2_ERR_NOMEM \<and> mem_refuses m \<and> mp' = mp)"
proof -
  have once0: "keys_once (map_entries (map_table mp))"
    using inv by (auto simp: map_inv_def table_ok_def nghttp2_map_init_def map_entries_def keys_once_def)
  consider (none) m' where "mem_refuses m" "map_reserve mp m = Some (Inr (NGHTTP2_ERR_NOMEM, mp, m'))"
    | (some) mp1 m' b where "map_reserve mp m = Some (Inr (0, mp1, m'))" "table_ok b mp1" "(map_size mp1 + 1) * 4 \<le> 2 ^ b * 3"
        "map_size mp1 = map_size mp" "map_entries (map_table mp1) = map_entries (map_table mp)"
    using map_reserve_ok [OF inv small, of m] by blast
  then show ?thesis
  proof cases
    case none
    then show ?thesis using inv by (simp add: nghttp2_map_insert_def nghttp2_err_defs)
  next
    case some
    then have ok: "b \<le> 30" "geometry b (map_tablelen mp1) (map_tablelenbits mp1) (map_table mp1)" "robin_hood b (map_table mp1)"
        "keys_once (map_entries (map_table mp1))" "hash_ok (map_entries (map_table mp1))"
        "map_size mp1 = size (map_entries (map_table mp1))" by (simp_all add: table_ok_def)
    have abs: "map_abs mp1 = map_abs mp" by (rule map_abs_same [OF once0 some(5)])
    show ?thesis
    proof (cases "map_abs mp1 k")
      case (Some y)
      then obtain e where e: "e \<in># map_entries (map_table mp1)" "bkt_key e = k"
        using map_abs_entries [OF ok(4)] by blast
      have "nghttp2_map_insert mp k (Some x) m = Some (Inr (NGHTTP2_ERR_INVALID_ARGUMENT, mp1, m'))"
        using some(1) insert_present [OF ok(2,3,5) e]
        by (simp add: nghttp2_map_insert_def nghttp2_err_defs)
      then show ?thesis using some(2,4) abs Some by (auto simp: map_inv_def)
    next
      case None
      let ?e = "map_bucket_set_data (map_hash k) k (Some x)"
      have once: "keys_once (add_mset ?e (map_entries (map_table mp1)))"
        using ok(4) None map_abs_None [OF ok(4)] by (simp add: keys_once_add map_bucket_set_data_def)
      have space: "size (map_entries (map_table mp1)) < 2 ^ b"
        using some(3) zero_less_power [of "2 :: nat" b] unfolding ok(6) by simp
      obtain t where t: "map_insert_into (map_table mp1) (map_tablelen mp1) (map_tablelenbits mp1) (map_hash k) k x = Some (Inr (0, t))"
        "geometry b (map_tablelen mp1) (map_tablelenbits mp1) t" "robin_hood b t" "map_entries t = add_mset ?e (map_entries (map_table mp1))"
        using insert_new [OF ok(2,3) space once] by blast
      let ?mp = "mp1\<lparr>map_table := t, map_size := map_size mp1 + 1\<rparr>"
      have "table_ok b ?mp"
        using ok t once some(3) by (simp add: table_ok_def map_bucket_set_data_def)
      moreover have "map_abs ?mp = (map_abs mp)(k \<mapsto> x)"
        using map_abs_add [OF once, of x ?mp] t(4) abs by (simp add: map_bucket_set_data_def)
      moreover have "nghttp2_map_insert mp k (Some x) m = Some (Inr (0, ?mp, m'))"
        using some(1) t(1) by (simp add: nghttp2_map_insert_def)
      ultimately show ?thesis using None abs some(4) by (auto simp: map_inv_def)
    qed
  qed
qed

lemma map_remove_law:
  assumes "map_inv mp"
  shows "\<exists>rv mp'. nghttp2_map_remove mp k = Some (Inr (rv, mp')) \<and> map_inv mp' \<and> map_size mp' \<le> map_size mp \<and>
    (if map_abs mp k = None then rv = NGHTTP2_ERR_INVALID_ARGUMENT \<and> mp' = mp
     else rv = 0 \<and> map_abs mp' = (map_abs mp)(k := None))"
  using assms
proof (cases rule: map_invE)
  case 1
  then show ?thesis using assms by (simp add: nghttp2_map_remove_def) (simp add: nghttp2_map_init_def)
next
  case (2 b)
  have g: "geometry b (map_tablelen mp) (map_tablelenbits mp) (map_table mp)" and rh: "robin_hood b (map_table mp)"
    and hash: "hash_ok (map_entries (map_table mp))" and b: "b \<le> 30"
    and size: "map_size mp = size (map_entries (map_table mp))" "map_size mp * 4 \<le> 2 ^ b * 3"
    using 2(1) by (simp_all add: table_ok_def)
  note len = geometryD(5) [OF g]
  show ?thesis
  proof (cases "map_abs mp k")
    case None
    then have "k \<notin> bkt_key ` set_mset (map_entries (map_table mp))" using map_abs_None [OF 2(2)] by simp
    from probe_missing [OF 2(1) this] None assms show ?thesis by (simp add: nghttp2_map_remove_def)
  next
    case (Some x)
    then obtain en where en: "en \<in># map_entries (map_table mp)" "bkt_key en = k" "bkt_data en = Some x"
      using map_abs_entries [OF 2(2)] by blast
    then have pos: "map_size mp \<noteq> 0" using size by (metis size_eq_0_iff_empty empty_iff set_mset_empty)
    obtain idx where idx: "probe_loop mp k (h2idx (map_hash k) (map_tablelenbits mp)) 0 = Some (Inr (Some idx))"
      "bucket_at (map_table mp) idx = Inr en"
      using probe_present [OF 2(1) en(1,2)] by blast
    define i where "i = uint idx"
    have "unat idx < length (map_table mp)" using idx(2) by (simp add: bucket_at_def split: if_splits)
    then have "uint idx < 2 ^ b"
      unfolding len by (metis int_eq_iff_numeral of_nat_less_iff of_nat_numeral of_nat_power uint_nat)
    then have i: "uint idx = i mod 2 ^ b" unfolding i_def by (intro mod_pos_pos_trivial [symmetric]) simp_all
    note at = bucket_at_cell [OF g i]
    let ?t = "(map_table mp)[nat (i mod 2 ^ b) := map_bucket_set_data 0 0 None]"
    have cell: "cell (map_table mp) i = en" using at(1) idx(2) by simp
    have "size (map_entries (map_table mp)) < 2 ^ b"
      using size(2) zero_less_power [of "2 :: nat" b] unfolding size(1) by linarith
    then obtain e where e: "bkt_data (cell (map_table mp) e) = None" by (rule empty_slot [OF len])
    have ne: "e mod 2 ^ b \<noteq> i mod 2 ^ b" using e en(3) cell cell_cong [OF len, of e i] by auto
    obtain m where m: "int m = (e - (i + 1)) mod 2 ^ b" using gap_nat by blast
    have ent: "map_entries ?t = map_entries (map_table mp) - {#en#}"
      using at(2,3) en(3) cell_nth [OF len, of i] cell by (simp add: entries_update map_bucket_set_data_def)
    have "bkt_data (cell ?t e) = None" using e ne by (simp add: cell_update [OF len])
    moreover have "geometry b (map_tablelen mp) (map_tablelenbits mp) ?t" using g by simp
    ultimately obtain t where t: "shift_loop (map_tablelen mp) (map_tablelenbits mp) ?t idx ((idx + 1) AND ucast (map_tablelen mp - 1)) = Some (Inr t)"
      "geometry b (map_tablelen mp) (map_tablelenbits mp) t" "robin_hood b t" "map_entries t = map_entries (map_table mp) - {#en#}"
      using shift_loop_ok [OF _ m _ hole_made [where h = 0 and k = 0, OF len geometryD(1) [OF g] rh] i step_idx [OF g i] ne] unfolding ent by blast
    have add: "add_mset en (map_entries t) = map_entries (map_table mp)" using t(4) en(1) by simp
    let ?mp = "mp\<lparr>map_table := t, map_size := map_size mp - 1\<rparr>"
    have f: "keys_once (map_entries t)" "k \<notin> bkt_key ` set_mset (map_entries t)"
      using 2(2) en(2) unfolding add [symmetric] keys_once_add by simp_all
    have f2: "hash_ok (map_entries t)" using hash unfolding add [symmetric] by simp
    have f3: "map_size mp = size (map_entries t) + 1" unfolding size(1) add [symmetric] by simp
    have "table_ok b ?mp" using b t(2,3) f(1) f2 f3 size(2) unfolding table_ok_def by simp
    moreover have "map_abs ?mp k = None" using map_abs_None [of ?mp k] f by simp
    moreover have "map_abs mp = (map_abs ?mp)(k \<mapsto> x)"
    proof -
      have "keys_once (add_mset en (map_entries (map_table ?mp)))" using 2(2) add by simp
      moreover have "map_entries (map_table mp) = add_mset en (map_entries (map_table ?mp))" using add by simp
      ultimately show ?thesis using map_abs_add [where mp = ?mp and mp' = mp, OF _ en(3)] en(2) by blast
    qed
    moreover have "nghttp2_map_remove mp k = Some (Inr (0, ?mp))"
      using pos idx(1) t(1) at(2) by (simp add: nghttp2_map_remove_def)
    ultimately show ?thesis using Some by (auto simp: map_inv_def fun_upd_idem)
  qed
qed

section \<open>The interface of a keyed store\<close>

text \<open>
  What the session relies on: a search returns the object of the key, an insertion adds it or
  says why not, a removal takes it away; a store of \<open>used\<close> entries takes another one as long as
  there are fewer than \<open>limit\<close>.
\<close>

locale keyed_store =
  fixes find :: "'m \<Rightarrow> 'k \<Rightarrow> 'v option res option"
    and insert :: "'m \<Rightarrow> 'k \<Rightarrow> 'v option \<Rightarrow> memory \<Rightarrow> (int \<times> 'm \<times> memory) res option"
    and remove :: "'m \<Rightarrow> 'k \<Rightarrow> (int \<times> 'm) res option"
    and inv :: "'m \<Rightarrow> bool" and contents :: "'m \<Rightarrow> 'k \<Rightarrow> 'v option" and used :: "'m \<Rightarrow> nat" and limit :: nat
  assumes find_law: "inv s \<Longrightarrow> find s k = Some (Inr (contents s k))"
    and insert_law: "inv s \<Longrightarrow> used s < limit \<Longrightarrow> \<exists>rv s' m'. insert s k (Some x) m = Some (Inr (rv, s', m')) \<and> inv s' \<and>
      used s' \<le> used s + 1 \<and>
      (rv = 0 \<and> contents s k = None \<and> contents s' = (contents s)(k \<mapsto> x) \<or>
       rv = NGHTTP2_ERR_INVALID_ARGUMENT \<and> contents s k \<noteq> None \<and> contents s' = contents s \<or>
       rv = NGHTTP2_ERR_NOMEM \<and> mem_refuses m \<and> s' = s)"
    and remove_law: "inv s \<Longrightarrow> \<exists>rv s'. remove s k = Some (Inr (rv, s')) \<and> inv s' \<and> used s' \<le> used s \<and>
      (if contents s k = None then rv = NGHTTP2_ERR_INVALID_ARGUMENT \<and> s' = s
       else rv = 0 \<and> contents s' = (contents s)(k := None))"
begin

lemma insert_find:
  assumes "inv s" "used s < limit" "insert s k (Some x) m = Some (Inr (0, s', m'))"
  shows "find s' j = Some (Inr (if j = k then Some x else contents s j))"
  using insert_law [OF assms(1,2), of k x m] assms(3)
  by (auto simp: find_law nghttp2_err_defs)

lemma insert_again:
  assumes "inv s" "used s + 1 < limit" "insert s k (Some x) m = Some (Inr (0, s1, m1))"
  shows "\<exists>rv s2 m2. insert s1 k (Some y) m1 = Some (Inr (rv, s2, m2)) \<and> rv \<noteq> 0 \<and> contents s2 = contents s1"
proof -
  from assms(2) have "used s < limit" by simp
  from insert_law [OF assms(1) this, of k x m] assms(2,3)
  have "inv s1" "used s1 < limit" "contents s1 k = Some x" by (auto simp: nghttp2_err_defs)
  from insert_law [OF this(1,2), of k y m1] this(3) show ?thesis by (auto simp: nghttp2_err_defs)
qed

lemma insert_remove:
  assumes "inv s" "used s < limit" "insert s k (Some x) m = Some (Inr (0, s1, m1))"
  shows "\<exists>s2. remove s1 k = Some (Inr (0, s2)) \<and> inv s2 \<and> contents s2 = contents s"
proof -
  from insert_law [OF assms(1,2), of k x m] assms(3)
  have "inv s1" "contents s k = None" "contents s1 = (contents s)(k \<mapsto> x)" by (auto simp: nghttp2_err_defs)
  with remove_law [OF this(1), of k] show ?thesis by (auto simp: fun_upd_idem)
qed

end

interpretation stream_map: keyed_store nghttp2_map_find nghttp2_map_insert nghttp2_map_remove map_inv map_abs map_size "3 * 2 ^ 28"
  by unfold_locales (rule map_find_law map_insert_law map_remove_law; assumption)+

section \<open>Sequences of operations\<close>

datatype 'a map_op = Map_Insert "32 word" 'a | Map_Find "32 word" | Map_Remove "32 word" | Map_Clear

datatype 'a map_answer = Returned int | Found "'a option" | Nothing_Returned

text \<open>The sequence run on the hash table.\<close>

fun map_step :: "'a map_op \<Rightarrow> 'a nghttp2_map \<Rightarrow> memory \<Rightarrow> ('a map_answer \<times> 'a nghttp2_map \<times> memory) res option" where
  "map_step (Map_Insert k x) mp m =
     map_option (map_sum id (\<lambda>(rv, mp', m'). (Returned rv, mp', m'))) (nghttp2_map_insert mp k (Some x) m)"
| "map_step (Map_Find k) mp m = map_option (map_sum id (\<lambda>r. (Found r, mp, m))) (nghttp2_map_find mp k)"
| "map_step (Map_Remove k) mp m = map_option (map_sum id (\<lambda>(rv, mp'). (Returned rv, mp', m))) (nghttp2_map_remove mp k)"
| "map_step Map_Clear mp m = Some (Inr (Nothing_Returned, nghttp2_map_clear mp, m))"

fun map_run :: "'a map_op list \<Rightarrow> 'a nghttp2_map \<Rightarrow> memory \<Rightarrow> ('a map_answer list \<times> 'a nghttp2_map \<times> memory) res option" where
  "map_run [] mp m = Some (Inr ([], mp, m))"
| "map_run (c # cs) mp m =
     (case map_step c mp m of
        Some (Inr (a, mp', m')) \<Rightarrow> map_option (map_sum id (\<lambda>(as, r). (a # as, r))) (map_run cs mp' m')
      | Some (Inl f) \<Rightarrow> Some (Inl f)
      | None \<Rightarrow> None)"

text \<open>
  The abstract store is a partial map. An insertion may also fail for lack of memory, which
  leaves the map as it is.
\<close>

inductive store_step :: "'a map_op \<Rightarrow> (32 word \<rightharpoonup> 'a) \<Rightarrow> 'a map_answer \<Rightarrow> (32 word \<rightharpoonup> 'a) \<Rightarrow> bool" where
  Insert_New: "M k = None \<Longrightarrow> store_step (Map_Insert k x) M (Returned 0) (M(k \<mapsto> x))"
| Insert_Old: "M k \<noteq> None \<Longrightarrow> store_step (Map_Insert k x) M (Returned NGHTTP2_ERR_INVALID_ARGUMENT) M"
| Insert_Nomem: "store_step (Map_Insert k x) M (Returned NGHTTP2_ERR_NOMEM) M"
| Find: "store_step (Map_Find k) M (Found (M k)) M"
| Remove_Old: "M k \<noteq> None \<Longrightarrow> store_step (Map_Remove k) M (Returned 0) (M(k := None))"
| Remove_New: "M k = None \<Longrightarrow> store_step (Map_Remove k) M (Returned NGHTTP2_ERR_INVALID_ARGUMENT) M"
| Clear: "store_step Map_Clear M Nothing_Returned Map.empty"

inductive_simps store_step_insert: "store_step (Map_Insert k x) M a M'"
inductive_simps store_step_find: "store_step (Map_Find k) M a M'"
inductive_simps store_step_remove: "store_step (Map_Remove k) M a M'"
inductive_simps store_step_clear: "store_step Map_Clear M a M'"

lemmas store_step_simps = store_step_insert store_step_find store_step_remove store_step_clear

inductive store_run :: "'a map_op list \<Rightarrow> (32 word \<rightharpoonup> 'a) \<Rightarrow> 'a map_answer list \<Rightarrow> (32 word \<rightharpoonup> 'a) \<Rightarrow> bool" where
  Run_Nil: "store_run [] M [] M"
| Run_Cons: "store_step c M a M1 \<Longrightarrow> store_run cs M1 as M2 \<Longrightarrow> store_run (c # cs) M (a # as) M2"

lemma map_clear_ok:
  assumes "map_inv mp"
  shows "map_inv (nghttp2_map_clear mp)" "map_abs (nghttp2_map_clear mp) = Map.empty" "map_size (nghttp2_map_clear mp) = 0"
proof -
  from assms consider "mp = nghttp2_map_init" | b where "table_ok b mp" by (auto simp: map_inv_def)
  then have "map_inv (nghttp2_map_clear mp) \<and> map_abs (nghttp2_map_clear mp) = Map.empty \<and> map_size (nghttp2_map_clear mp) = 0"
  proof cases
    case 1
    then show ?thesis using assms by (simp add: nghttp2_map_clear_def) (simp add: nghttp2_map_init_def)
  next
    case (2 b)
    then have g: "geometry b (map_tablelen mp) (map_tablelenbits mp) (map_table mp)" and b: "0 < b" "b \<le> 30"
      by (auto simp: table_ok_def geometry_def)
    have "nghttp2_map_clear mp = mp\<lparr>map_table := fresh_table b, map_size := 0\<rparr>"
      using b geometryD(3,5) [OF g] unat_exp_32 [of b]
      by (simp add: nghttp2_map_clear_def fresh_table_def unat_eq_0 [symmetric])
    moreover have "table_ok b (mp\<lparr>map_table := fresh_table b, map_size := 0\<rparr>)"
      using b fresh_table [of b, where ?'a = 'a] geometryD(3,4) [OF g] by (simp add: table_ok_def keys_once_def hash_ok_def)
    moreover have "map_abs (mp\<lparr>map_table := fresh_table b, map_size := 0\<rparr>) = Map.empty"
      by (simp add: map_abs_def fresh_table_def empty_bucket_def)
    ultimately show ?thesis by (auto simp: map_inv_def)
  qed
  then show "map_inv (nghttp2_map_clear mp)" "map_abs (nghttp2_map_clear mp) = Map.empty" "map_size (nghttp2_map_clear mp) = 0"
    by simp_all
qed

lemma map_step_refines:
  assumes "map_inv mp" "map_size mp < 3 * 2 ^ 28"
  shows "\<exists>a mp' m'. map_step c mp m = Some (Inr (a, mp', m')) \<and> map_inv mp' \<and> map_size mp' \<le> map_size mp + 1 \<and>
    store_step c (map_abs mp) a (map_abs mp')"
proof (cases c)
  case (Map_Insert k x)
  with stream_map.insert_law [OF assms, of k x m] show ?thesis by (force simp: store_step_simps)
next
  case (Map_Find k)
  with stream_map.find_law [OF assms(1)] assms(1) show ?thesis by (simp add: store_step_simps)
next
  case (Map_Remove k)
  obtain rv mp' where r: "nghttp2_map_remove mp k = Some (Inr (rv, mp'))" "map_inv mp'" "map_size mp' \<le> map_size mp"
    "if map_abs mp k = None then rv = NGHTTP2_ERR_INVALID_ARGUMENT \<and> mp' = mp
     else rv = 0 \<and> map_abs mp' = (map_abs mp)(k := None)"
    using stream_map.remove_law [OF assms(1), of k] by blast
  then show ?thesis using Map_Remove by (auto simp: store_step_simps split: if_splits)
next
  case Map_Clear
  then show ?thesis using map_clear_ok [OF assms(1)] by (simp add: store_step_simps)
qed

lemma map_run_from:
  assumes "map_inv mp" "map_size mp + length cs \<le> 3 * 2 ^ 28"
  shows "\<exists>as mp' m'. map_run cs mp m = Some (Inr (as, mp', m')) \<and> map_inv mp' \<and> store_run cs (map_abs mp) as (map_abs mp')"
  using assms
proof (induction cs arbitrary: mp m)
  case Nil
  then show ?case by (simp add: store_run.intros)
next
  case (Cons c cs)
  from Cons.prems(2) have "map_size mp < 3 * 2 ^ 28" by simp
  from map_step_refines [OF Cons.prems(1) this, of c m] obtain a mp1 m1 where
    s: "map_step c mp m = Some (Inr (a, mp1, m1))" "map_inv mp1" "map_size mp1 \<le> map_size mp + 1"
      "store_step c (map_abs mp) a (map_abs mp1)" by blast
  then have "map_size mp1 + length cs \<le> 3 * 2 ^ 28" using Cons.prems(2) by simp
  from Cons.IH [OF s(2) this, of m1] s(1,4) show ?case by (fastforce intro: Run_Cons)
qed

lemma map_init_ok [simp]: "map_inv nghttp2_map_init" "map_size nghttp2_map_init = 0"
  by (simp_all add: map_inv_def nghttp2_map_init_def)

text \<open>
  C6. Any sequence of insertions, searches, removals and clearings on a new hash table terminates without a
  fault and answers as a partial map does; an insertion may also fail for lack of memory.
\<close>

theorem map_run_refines:
  assumes "length cs \<le> 3 * 2 ^ 28"
  shows "\<exists>as mp m'. map_run cs nghttp2_map_init m = Some (Inr (as, mp, m')) \<and> map_inv mp \<and>
    store_run cs Map.empty as (map_abs mp)"
  using map_run_from [of nghttp2_map_init cs m] assms by simp

theorem map_run_refines_witness:
  "\<exists>as mp m'. map_run [Map_Insert 1 ''a'', Map_Insert 3 ''b'', Map_Remove 1, Map_Find 3, Map_Insert 3 ''c''] nghttp2_map_init
      \<lparr>mem_answers = [Some (\<lambda>_. 0)], mem_live = 0\<rparr> = Some (Inr (as, mp, m')) \<and> map_inv mp \<and>
    store_run [Map_Insert 1 ''a'', Map_Insert 3 ''b'', Map_Remove 1, Map_Find 3, Map_Insert 3 ''c''] Map.empty as (map_abs mp)"
  by (rule map_run_refines) simp

text \<open>
  C25. After a successful insertion the search for any key returns, with the new object or the old answer,
  and the removal of the key returns and gives back the contents from before.
\<close>

theorem map_insert_find_remove:
  assumes "map_inv mp" "map_size mp < 3 * 2 ^ 28" "nghttp2_map_insert mp k (Some x) m = Some (Inr (0, mp1, m1))"
  shows "nghttp2_map_find mp1 j = Some (Inr (if j = k then Some x else map_abs mp j)) \<and>
    (\<exists>mp2. nghttp2_map_remove mp1 k = Some (Inr (0, mp2)) \<and> map_inv mp2 \<and> map_abs mp2 = map_abs mp)"
  using stream_map.insert_find [OF assms] stream_map.insert_remove [OF assms] by simp

theorem map_insert_find_remove_witness:
  "\<exists>mp1 m1. nghttp2_map_insert nghttp2_map_init 5 (Some ''x'') \<lparr>mem_answers = [Some (\<lambda>_. 0)], mem_live = 0\<rparr> =
      Some (Inr (0, mp1, m1)) \<and> nghttp2_map_find mp1 7 = Some (Inr None) \<and>
    (\<exists>mp2. nghttp2_map_remove mp1 5 = Some (Inr (0, mp2)) \<and> map_inv mp2 \<and> map_abs mp2 = Map.empty)"
proof -
  let ?m = "\<lparr>mem_answers = [Some (\<lambda>_. 0)], mem_live = 0\<rparr>"
  obtain mp1 m1 where run: "nghttp2_map_insert nghttp2_map_init 5 (Some ''x'') ?m = Some (Inr (0, mp1, m1))"
    using map_insert_law [OF map_init_ok(1), of 5 "''x''" ?m] by (auto simp: mem_refuses_def)
  with map_insert_find_remove [OF map_init_ok(1) _ run, of 7] show ?thesis by simp
qed

section \<open>Visiting all entries\<close>

lemma each_loop_all:
  "(\<And>x s. fst (func x s) = 0) \<Longrightarrow>
   each_loop func bkts s = (0, fold (\<lambda>bkt s. snd (func (the (bkt_data bkt)) s)) (filter (\<lambda>bkt. bkt_data bkt \<noteq> None) bkts) s)"
  by (induction bkts arbitrary: s) (auto simp: Let_def case_prod_beta split: option.split)

text \<open>A callback that never stops sees every entry once: collecting them gives the contents.\<close>

lemma map_each_collects:
  assumes "map_inv mp"
  shows "\<exists>xs. nghttp2_map_each mp (\<lambda>x s. (0, x # s)) [] = (0, xs) \<and> set xs = ran (map_abs mp) \<and> length xs = map_size mp"
proof -
  let ?occ = "filter (\<lambda>bkt. bkt_data bkt \<noteq> None) (map_table mp)"
  have all: "take (unat (map_tablelen mp)) (map_table mp) = map_table mp" and size: "map_size mp = length ?occ"
    and once: "keys_once (map_entries (map_table mp))"
    using assms unat_exp_32 by (auto simp: map_inv_def table_ok_def nghttp2_map_init_def geometry_def map_entries_def keys_once_def
        simp flip: size_mset mset_filter)
  have fold: "fold (\<lambda>bkt s. the (bkt_data bkt) # s) bs [] = rev (map (\<lambda>bkt. the (bkt_data bkt)) bs)" for bs :: "'a map_bucket list"
    by (induction bs rule: rev_induct) auto
  have "nghttp2_map_each mp (\<lambda>x s. (0, x # s)) [] = (0, rev (map (\<lambda>bkt. the (bkt_data bkt)) ?occ))"
    using size by (auto simp: nghttp2_map_each_def all each_loop_all fold)
  moreover have "set (map (\<lambda>bkt. the (bkt_data bkt)) ?occ) = ran (map_abs mp)"
    using map_abs_entries [OF once] by (force simp: ran_def entries_mem)
  ultimately show ?thesis using size by simp
qed

end
