(* ===== verification/Nghttp2_Pq.thy ===== *)
theory Nghttp2_Pq
  imports Nghttp2_Buf "HOL-Library.Multiset"
begin

text \<open>
  The priority queue of nghttp2 (nghttp2_pq.c, nghttp2_pq.h): a binary heap of pointers in an
  array that grows by doubling, in which every entry keeps its own position.
\<close>

section \<open>Data\<close>

text \<open>
  The queue holds pointers \<open>'e\<close>. A cell of the array that was not written yet holds no pointer;
  reading it is a fault. The field \<open>index\<close> of the entries is a function from pointers to
  positions, which the operations return updated. The comparison \<open>less\<close>, here \<open>lt\<close>, is the callback that
  the queue was initialised with.
\<close>

record 'e nghttp2_pq =
  pq_q :: "'e option list"
  pq_length :: nat
  pq_capacity :: nat

definition SIZEOF_POINTER :: nat where
  "SIZEOF_POINTER = 8"

definition pq_get :: "'e nghttp2_pq \<Rightarrow> nat \<Rightarrow> 'e res" where
  "pq_get pq i =
     (if i < length (pq_q pq) then (case pq_q pq ! i of None \<Rightarrow> Inl Out_Of_Bounds | Some e \<Rightarrow> Inr e)
      else Inl Out_Of_Bounds)"

definition pq_put :: "'e nghttp2_pq \<Rightarrow> nat \<Rightarrow> 'e \<Rightarrow> 'e nghttp2_pq res" where
  "pq_put pq i e =
     (if i < length (pq_q pq) then Inr (pq\<lparr>pq_q := (pq_q pq)[i := Some e]\<rparr>) else Inl Out_Of_Bounds)"

section \<open>Operations\<close>

definition nghttp2_pq_init :: "'e nghttp2_pq" where
  "nghttp2_pq_init = \<lparr>pq_q = [], pq_length = 0, pq_capacity = 0\<rparr>"

definition nghttp2_pq_free :: "'e nghttp2_pq \<Rightarrow> memory \<Rightarrow> 'e nghttp2_pq \<times> memory" where
  "nghttp2_pq_free pq m = (pq\<lparr>pq_q := []\<rparr>, nghttp2_mem_free (if pq_q pq = [] then None else Some []) m)"

definition pq_swap :: "'e nghttp2_pq \<Rightarrow> ('e \<Rightarrow> nat) \<Rightarrow> nat \<Rightarrow> nat \<Rightarrow> ('e nghttp2_pq \<times> ('e \<Rightarrow> nat)) res" where
  "pq_swap pq index i j =
     res_bind (pq_get pq i) (\<lambda>a.
     res_bind (pq_get pq j) (\<lambda>b.
     res_bind (pq_put pq i b) (\<lambda>pq1.
     res_bind (pq_put pq1 j a) (\<lambda>pq2.
     Inr (pq2, index(b := i, a := j))))))"

function bubble_up ::
  "('e \<Rightarrow> 'e \<Rightarrow> bool) \<Rightarrow> 'e nghttp2_pq \<Rightarrow> ('e \<Rightarrow> nat) \<Rightarrow> nat \<Rightarrow> ('e nghttp2_pq \<times> ('e \<Rightarrow> nat)) res" where
  "bubble_up lt pq ix index =
     (if index = 0 then Inr (pq, ix)
      else
        (let parent = (index - 1) div 2
         in res_bind (pq_get pq index) (\<lambda>c.
            res_bind (pq_get pq parent) (\<lambda>p.
            if \<not> lt c p then Inr (pq, ix)
            else res_bind (pq_swap pq ix parent index) (\<lambda>(pq1, ix1). bubble_up lt pq1 ix1 parent)))))"
  by pat_completeness auto
termination
  by (relation "measure (\<lambda>(lt, pq, ix, index). index)") auto

definition nghttp2_pq_push ::
  "('e \<Rightarrow> 'e \<Rightarrow> bool) \<Rightarrow> 'e nghttp2_pq \<Rightarrow> ('e \<Rightarrow> nat) \<Rightarrow> 'e \<Rightarrow> memory \<Rightarrow>
   (int \<times> 'e nghttp2_pq \<times> ('e \<Rightarrow> nat) \<times> memory) res" where
  "nghttp2_pq_push lt pq ix item m =
     res_bind
       (if pq_capacity pq \<le> pq_length pq then
          (let ncapacity = max 4 (pq_capacity pq * 2)
           in case nghttp2_mem_realloc (if pq_q pq = [] then None else Some []) (ncapacity * SIZEOF_POINTER) m of
                (None, m1) \<Rightarrow> Inr (NGHTTP2_ERR_NOMEM, pq, m1)
              | (Some _, m1) \<Rightarrow>
                  Inr (0, pq\<lparr>pq_q := take ncapacity (pq_q pq) @ replicate (ncapacity - length (pq_q pq)) None,
                             pq_capacity := ncapacity\<rparr>, m1))
        else Inr (0, pq, m)) (\<lambda>(rv, pq1, m1).
     if rv \<noteq> 0 then Inr (rv, pq1, ix, m1)
     else
       res_bind (pq_put pq1 (pq_length pq1) item) (\<lambda>pq2.
       res_bind (bubble_up lt (pq2\<lparr>pq_length := pq_length pq2 + 1\<rparr>) (ix(item := pq_length pq2)) (pq_length pq2)) (\<lambda>(pq3, ix3).
       Inr (0, pq3, ix3, m1))))"

definition nghttp2_pq_top :: "'e nghttp2_pq \<Rightarrow> 'e option res" where
  "nghttp2_pq_top pq = (if pq_length pq = 0 then Inr None else res_bind (pq_get pq 0) (\<lambda>e. Inr (Some e)))"

text \<open>The inner loop of \<open>bubble_down\<close>: \<open>n\<close> children are left, the next one is \<open>j\<close>.\<close>

fun min_child :: "('e \<Rightarrow> 'e \<Rightarrow> bool) \<Rightarrow> 'e nghttp2_pq \<Rightarrow> nat \<Rightarrow> nat \<Rightarrow> nat \<Rightarrow> nat res" where
  "min_child lt pq 0 j minindex = Inr minindex"
| "min_child lt pq (Suc n) j minindex =
     (if pq_length pq \<le> j then Inr minindex
      else
        res_bind (pq_get pq j) (\<lambda>c.
        res_bind (pq_get pq minindex) (\<lambda>p.
        min_child lt pq n (j + 1) (if lt c p then j else minindex))))"

lemma min_child_range: "min_child lt pq n j k = Inr k' \<Longrightarrow> k' = k \<or> (j \<le> k' \<and> k' < pq_length pq)"
proof (induction n arbitrary: j k)
  case (Suc n)
  then show ?case by (fastforce split: if_splits)
qed simp

lemma pq_swap_length: "pq_swap pq ix i j = Inr (pq', ix') \<Longrightarrow> pq_length pq' = pq_length pq"
  by (auto simp: pq_swap_def pq_put_def split: if_splits)

function bubble_down ::
  "('e \<Rightarrow> 'e \<Rightarrow> bool) \<Rightarrow> 'e nghttp2_pq \<Rightarrow> ('e \<Rightarrow> nat) \<Rightarrow> nat \<Rightarrow> ('e nghttp2_pq \<times> ('e \<Rightarrow> nat)) res" where
  "bubble_down lt pq ix index =
     res_bind (min_child lt pq 2 (index * 2 + 1) index) (\<lambda>minindex.
     if minindex = index then Inr (pq, ix)
     else res_bind (pq_swap pq ix index minindex) (\<lambda>(pq1, ix1). bubble_down lt pq1 ix1 minindex))"
  by pat_completeness auto
termination
  by (relation "measure (\<lambda>(lt, pq, ix, index). pq_length pq - index)")
    (auto dest!: min_child_range pq_swap_length)

declare bubble_up.simps [simp del] bubble_down.simps [simp del]

definition nghttp2_pq_pop ::
  "('e \<Rightarrow> 'e \<Rightarrow> bool) \<Rightarrow> 'e nghttp2_pq \<Rightarrow> ('e \<Rightarrow> nat) \<Rightarrow> ('e nghttp2_pq \<times> ('e \<Rightarrow> nat)) res" where
  "nghttp2_pq_pop lt pq ix =
     (if pq_length pq > 0 then
        res_bind (pq_get pq (pq_length pq - 1)) (\<lambda>e.
        res_bind (pq_put pq 0 e) (\<lambda>pq1.
        bubble_down lt (pq1\<lparr>pq_length := pq_length pq1 - 1\<rparr>) (ix(e := 0)) 0))
      else Inr (pq, ix))"

definition nghttp2_pq_remove ::
  "('e \<Rightarrow> 'e \<Rightarrow> bool) \<Rightarrow> 'e nghttp2_pq \<Rightarrow> ('e \<Rightarrow> nat) \<Rightarrow> 'e \<Rightarrow> ('e nghttp2_pq \<times> ('e \<Rightarrow> nat)) res" where
  "nghttp2_pq_remove lt pq ix item =
     res_bind (pq_get pq (ix item)) (\<lambda>e.
     if e \<noteq> item then Inl Assert_Failed
     else if ix item = 0 then nghttp2_pq_pop lt pq ix
     else if ix item = pq_length pq - 1 then Inr (pq\<lparr>pq_length := pq_length pq - 1\<rparr>, ix)
     else
       res_bind (pq_get pq (pq_length pq - 1)) (\<lambda>l.
       res_bind (pq_put pq (ix item) l) (\<lambda>pq1.
       (let pq2 = pq1\<lparr>pq_length := pq_length pq1 - 1\<rparr>; ix2 = ix(l := ix item)
        in res_bind (pq_get pq2 (ix2 item)) (\<lambda>n.
           if lt item n then bubble_down lt pq2 ix2 (ix2 item) else bubble_up lt pq2 ix2 (ix2 item))))))"

definition nghttp2_pq_empty :: "'e nghttp2_pq \<Rightarrow> bool" where
  "nghttp2_pq_empty pq \<longleftrightarrow> pq_length pq = 0"

definition nghttp2_pq_size :: "'e nghttp2_pq \<Rightarrow> nat" where
  "nghttp2_pq_size pq = pq_length pq"

text \<open>
  \<open>nghttp2_pq_update\<close> calls \<open>fun\<close> on every entry, which may change what the comparison sees in
  the state \<open>s\<close>; when one of the calls says so, the heap is built anew from its end.
\<close>

fun pq_call_all :: "('e \<Rightarrow> 's \<Rightarrow> bool \<times> 's) \<Rightarrow> 'e nghttp2_pq \<Rightarrow> nat list \<Rightarrow> 's \<Rightarrow> (bool \<times> 's) res" where
  "pq_call_all fn pq [] s = Inr (False, s)"
| "pq_call_all fn pq (i # is) s =
     res_bind (pq_get pq i) (\<lambda>e.
     (let (rv, s1) = fn e s in res_bind (pq_call_all fn pq is s1) (\<lambda>(rv1, s2). Inr (rv \<or> rv1, s2))))"

fun pq_rebuild ::
  "('e \<Rightarrow> 'e \<Rightarrow> bool) \<Rightarrow> nat \<Rightarrow> 'e nghttp2_pq \<Rightarrow> ('e \<Rightarrow> nat) \<Rightarrow> ('e nghttp2_pq \<times> ('e \<Rightarrow> nat)) res" where
  "pq_rebuild lt 0 pq ix = Inr (pq, ix)"
| "pq_rebuild lt (Suc i) pq ix = res_bind (bubble_down lt pq ix i) (\<lambda>(pq1, ix1). pq_rebuild lt i pq1 ix1)"

definition nghttp2_pq_update ::
  "('s \<Rightarrow> 'e \<Rightarrow> 'e \<Rightarrow> bool) \<Rightarrow> 'e nghttp2_pq \<Rightarrow> ('e \<Rightarrow> nat) \<Rightarrow> ('e \<Rightarrow> 's \<Rightarrow> bool \<times> 's) \<Rightarrow> 's \<Rightarrow>
   ('e nghttp2_pq \<times> ('e \<Rightarrow> nat) \<times> 's) res" where
  "nghttp2_pq_update lt pq ix fn s =
     (if pq_length pq = 0 then Inr (pq, ix, s)
      else
        res_bind (pq_call_all fn pq [0..<pq_length pq] s) (\<lambda>(rv, s1).
        if rv then res_bind (pq_rebuild (lt s1) (pq_length pq) pq ix) (\<lambda>(pq1, ix1). Inr (pq1, ix1, s1))
        else Inr (pq, ix, s1)))"

fun pq_each_loop :: "('e \<Rightarrow> 's \<Rightarrow> bool \<times> 's) \<Rightarrow> 'e nghttp2_pq \<Rightarrow> nat list \<Rightarrow> 's \<Rightarrow> (int \<times> 's) res" where
  "pq_each_loop fn pq [] s = Inr (0, s)"
| "pq_each_loop fn pq (i # is) s =
     res_bind (pq_get pq i) (\<lambda>e. (let (rv, s1) = fn e s in if rv then Inr (1, s1) else pq_each_loop fn pq is s1))"

definition nghttp2_pq_each :: "'e nghttp2_pq \<Rightarrow> ('e \<Rightarrow> 's \<Rightarrow> bool \<times> 's) \<Rightarrow> 's \<Rightarrow> (int \<times> 's) res" where
  "nghttp2_pq_each pq fn s =
     (if pq_length pq = 0 then Inr (0, s) else pq_each_loop fn pq [0..<pq_length pq] s)"

section \<open>The heap as a list\<close>

text \<open>The queue holds the list \<open>es\<close>: its first cells are the entries, the rest of the array is not read.\<close>

definition pq_holds :: "'e nghttp2_pq \<Rightarrow> 'e list \<Rightarrow> bool" where
  "pq_holds pq es \<longleftrightarrow> pq_length pq = length es \<and> pq_capacity pq = length (pq_q pq) \<and> length es \<le> length (pq_q pq) \<and>
     (\<forall>i < length es. pq_q pq ! i = Some (es ! i))"

definition index_ok :: "('e \<Rightarrow> nat) \<Rightarrow> 'e list \<Rightarrow> bool" where
  "index_ok ix es \<longleftrightarrow> (\<forall>i < length es. ix (es ! i) = i)"

text \<open>The comparison is a strict weak order.\<close>

definition strict_weak :: "('e \<Rightarrow> 'e \<Rightarrow> bool) \<Rightarrow> bool" where
  "strict_weak lt \<longleftrightarrow> (\<forall>x y. lt x y \<longrightarrow> \<not> lt y x) \<and> (\<forall>x y z. lt x z \<longrightarrow> lt x y \<or> lt y z)"

lemma strict_weakD:
  assumes "strict_weak lt"
  shows "lt x y \<Longrightarrow> \<not> lt y x" "\<not> lt x y \<Longrightarrow> \<not> lt y z \<Longrightarrow> \<not> lt x z" "\<not> lt x x"
  using assms by (unfold strict_weak_def, blast+)

definition list_swap :: "'e list \<Rightarrow> nat \<Rightarrow> nat \<Rightarrow> 'e list" where
  "list_swap es i j = es[i := es ! j, j := es ! i]"

lemma list_swap_simps [simp]:
  "length (list_swap es i j) = length es"
  "i < length es \<Longrightarrow> j < length es \<Longrightarrow> mset (list_swap es i j) = mset es"
  by (simp_all add: list_swap_def mset_swap)

lemma list_swap_nth: "i < length es \<Longrightarrow> j < length es \<Longrightarrow> k < length es \<Longrightarrow>
  list_swap es i j ! k = (if k = j then es ! i else if k = i then es ! j else es ! k)"
  by (simp add: list_swap_def nth_list_update)

lemma pq_get_holds: "pq_holds pq es \<Longrightarrow> i < length es \<Longrightarrow> pq_get pq i = Inr (es ! i)"
  by (simp add: pq_holds_def pq_get_def)

lemma pq_put_holds:
  "pq_holds pq es \<Longrightarrow> i < length es \<Longrightarrow> \<exists>pq'. pq_put pq i e = Inr pq' \<and> pq_holds pq' (es[i := e])"
  by (auto simp: pq_holds_def pq_put_def nth_list_update)

lemma index_ok_inj: "index_ok ix es \<Longrightarrow> i < length es \<Longrightarrow> j < length es \<Longrightarrow> es ! i = es ! j \<Longrightarrow> i = j"
  by (metis index_ok_def)

lemma index_ok_distinct: "index_ok ix es \<Longrightarrow> distinct es"
  by (auto simp: distinct_conv_nth dest: index_ok_inj)

lemma pq_swap_holds:
  assumes "pq_holds pq es" "index_ok ix es" "i < length es" "j < length es" "i \<noteq> j"
  shows "\<exists>pq' ix'. pq_swap pq ix i j = Inr (pq', ix') \<and> pq_holds pq' (list_swap es i j) \<and> index_ok ix' (list_swap es i j)"
proof -
  obtain pq1 where 1: "pq_put pq i (es ! j) = Inr pq1" "pq_holds pq1 (es[i := es ! j])"
    using pq_put_holds [OF assms(1,3)] by blast
  obtain pq2 where 2: "pq_put pq1 j (es ! i) = Inr pq2" "pq_holds pq2 (list_swap es i j)"
    using pq_put_holds [OF 1(2), of j] assms(4) by (auto simp: list_swap_def)
  have "index_ok (ix(es ! j := i, es ! i := j)) (list_swap es i j)"
    using assms index_ok_inj [OF assms(2)] by (auto simp: index_ok_def list_swap_nth)
  then show ?thesis using 1 2 assms by (auto simp: pq_swap_def pq_get_holds)
qed

section \<open>Bubbling\<close>

text \<open>
  The heap order between a position and its parent, for parents from \<open>k\<close> on. While an entry
  moves, its own position is left out and its children are compared with its parent.
\<close>

abbreviation heap_parent :: "nat \<Rightarrow> nat" where
  "heap_parent i \<equiv> (i - 1) div 2"

definition heap_from :: "('e \<Rightarrow> 'e \<Rightarrow> bool) \<Rightarrow> nat \<Rightarrow> 'e list \<Rightarrow> bool" where
  "heap_from lt k es \<longleftrightarrow> (\<forall>i < length es. 0 < i \<longrightarrow> k \<le> heap_parent i \<longrightarrow> \<not> lt (es ! i) (es ! heap_parent i))"

definition heap_bridge :: "('e \<Rightarrow> 'e \<Rightarrow> bool) \<Rightarrow> nat \<Rightarrow> 'e list \<Rightarrow> nat \<Rightarrow> bool" where
  "heap_bridge lt k es p \<longleftrightarrow> (0 < p \<longrightarrow> k \<le> heap_parent p \<longrightarrow>
     (\<forall>i < length es. 0 < i \<longrightarrow> heap_parent i = p \<longrightarrow> \<not> lt (es ! i) (es ! heap_parent p)))"

definition heap_but_up :: "('e \<Rightarrow> 'e \<Rightarrow> bool) \<Rightarrow> 'e list \<Rightarrow> nat \<Rightarrow> bool" where
  "heap_but_up lt es p \<longleftrightarrow>
     (\<forall>i < length es. 0 < i \<longrightarrow> i \<noteq> p \<longrightarrow> \<not> lt (es ! i) (es ! heap_parent i)) \<and> heap_bridge lt 0 es p"

definition heap_but_down :: "('e \<Rightarrow> 'e \<Rightarrow> bool) \<Rightarrow> nat \<Rightarrow> 'e list \<Rightarrow> nat \<Rightarrow> bool" where
  "heap_but_down lt k es p \<longleftrightarrow>
     (\<forall>i < length es. 0 < i \<longrightarrow> k \<le> heap_parent i \<longrightarrow> heap_parent i \<noteq> p \<longrightarrow> \<not> lt (es ! i) (es ! heap_parent i)) \<and>
     heap_bridge lt k es p"

lemma heap_up_step:
  assumes o: "strict_weak lt" and h: "heap_but_up lt es p" and p: "0 < p" "p < length es" "lt (es ! p) (es ! heap_parent p)"
  shows "heap_but_up lt (list_swap es (heap_parent p) p) (heap_parent p)"
proof -
  let ?q = "heap_parent p" and ?es = "list_swap es (heap_parent p) p"
  have q: "?q < p" "?q < length es" using p(1,2) by linarith+
  have nth: "?es ! k = (if k = p then es ! ?q else if k = ?q then es ! p else es ! k)" if "k < length es" for k
    by (rule list_swap_nth [OF q(2) p(2) that])
  have up: "\<not> lt (es ! i) (es ! heap_parent i)" if "i < length es" "0 < i" "i \<noteq> p" for i
    using h that by (simp add: heap_but_up_def)
  have br: "\<not> lt (es ! i) (es ! ?q)" if "i < length es" "0 < i" "heap_parent i = p" for i
    using h that p(1) by (simp add: heap_but_up_def heap_bridge_def)
  have "\<not> lt (?es ! i) (?es ! heap_parent i)" if i: "i < length es" "0 < i" "i \<noteq> ?q" for i
  proof -
    have ip: "heap_parent i < i" "heap_parent i < length es" using i by linarith+
    consider "i = p" | "i \<noteq> p" "heap_parent i = p" | "i \<noteq> p" "heap_parent i = ?q" | "i \<noteq> p" "heap_parent i \<noteq> p" "heap_parent i \<noteq> ?q" by blast
    then show ?thesis
    proof cases
      case 1
      then show ?thesis using nth [OF i(1)] nth [OF ip(2)] q strict_weakD(1) [OF o p(3)] by simp
    next
      case 2
      then show ?thesis using nth [OF i(1)] nth [OF ip(2)] br [OF i(1,2)] i(3) by simp
    next
      case 3
      have "\<not> lt (es ! i) (es ! ?q)" using up [OF i(1,2) 3(1)] 3(2) by simp
      moreover have "\<not> lt (es ! ?q) (es ! p)" by (rule strict_weakD(1) [OF o p(3)])
      ultimately have "\<not> lt (es ! i) (es ! p)" by (rule strict_weakD(2) [OF o])
      moreover have "?es ! i = es ! i" using nth [OF i(1)] 3(1) i(3) by presburger
      moreover have "?es ! heap_parent i = es ! p" unfolding 3(2) using nth [OF q(2)] q(1) by presburger
      ultimately show ?thesis by (simp only: not_False_eq_True)
    next
      case 4
      then have "?es ! i = es ! i" "?es ! heap_parent i = es ! heap_parent i"
        using nth [OF i(1)] nth [OF ip(2)] i(3) by presburger+
      then show ?thesis using up [OF i(1,2) 4(1)] by (simp only: not_False_eq_True)
    qed
  qed
  moreover have "heap_bridge lt 0 ?es ?q"
    unfolding heap_bridge_def
  proof (intro impI allI)
    fix i assume a: "0 < ?q" "i < length ?es" "0 < i" "heap_parent i = ?q"
    let ?r = "heap_parent ?q"
    have r: "?r < ?q" "?r < length es" using a(1) q by linarith+
    have iq: "?q < i" using a(3,4) by linarith
    have qr: "\<not> lt (es ! ?q) (es ! ?r)" using up [of ?q] a(1) q by simp
    have "\<not> lt (?es ! i) (es ! ?r)"
    proof (cases "i = p")
      case True
      then show ?thesis using nth [of p] p(2) qr by simp
    next
      case False
      have "\<not> lt (es ! i) (es ! ?q)" using up [of i] a False by simp
      then show ?thesis using nth [of i] a iq False strict_weakD(2) [OF o _ qr] by simp
    qed
    moreover have "?r \<noteq> p" "?r \<noteq> ?q" using r(1) q(1) by linarith+
    ultimately show "\<not> lt (?es ! i) (?es ! heap_parent ?q)" unfolding nth [OF r(2)] by presburger
  qed
  ultimately show ?thesis by (simp add: heap_but_up_def)
qed

lemma bubble_up_ok:
  assumes "strict_weak lt" "pq_holds pq es" "index_ok ix es" "p < length es" "heap_but_up lt es p"
  shows "\<exists>pq' ix' es'. bubble_up lt pq ix p = Inr (pq', ix') \<and> pq_holds pq' es' \<and> index_ok ix' es' \<and>
    heap_from lt 0 es' \<and> mset es' = mset es"
  using assms(2-)
proof (induction p arbitrary: pq ix es rule: less_induct)
  case (less p)
  show ?case
  proof (cases "p = 0 \<or> \<not> lt (es ! p) (es ! heap_parent p)")
    case True
    then have "heap_from lt 0 es" using less.prems(4) by (auto simp: heap_but_up_def heap_from_def)
    moreover have "bubble_up lt pq ix p = Inr (pq, ix)"
      using True less.prems(1,3) by (auto simp: bubble_up.simps [of lt pq ix p] Let_def pq_get_holds)
    ultimately show ?thesis using less.prems by blast
  next
    case False
    then have p: "0 < p" "lt (es ! p) (es ! heap_parent p)" by simp_all
    then have q: "heap_parent p < p" "heap_parent p < length es" using less.prems(3) by linarith+
    obtain pq1 ix1 where s: "pq_swap pq ix (heap_parent p) p = Inr (pq1, ix1)"
      "pq_holds pq1 (list_swap es (heap_parent p) p)" "index_ok ix1 (list_swap es (heap_parent p) p)"
      using pq_swap_holds [OF less.prems(1,2) q(2) less.prems(3)] q(1) by auto
    have "bubble_up lt pq ix p = bubble_up lt pq1 ix1 (heap_parent p)"
      using p q s(1) less.prems(1,3) by (simp add: bubble_up.simps [of lt pq ix p] Let_def pq_get_holds)
    with less.IH [OF q(1) s(2,3) _ heap_up_step [OF assms(1) less.prems(4) p(1) less.prems(3) p(2)]] q less.prems(3)
    show ?thesis by simp
  qed
qed

lemma heap_parent_child: "heap_parent i = p \<Longrightarrow> 0 < i \<Longrightarrow> i = p * 2 + 1 \<or> i = p * 2 + 2"
  by linarith

text \<open>The child that \<open>bubble_down\<close> picks: none is less than the entry, or it is less and no child is less than it.\<close>

lemma min_child_ok:
  assumes o: "strict_weak lt" and h: "pq_holds pq es"
  obtains (stay) "min_child lt pq 2 (p * 2 + 1) p = Inr p"
      "\<And>i. i < length es \<Longrightarrow> 0 < i \<Longrightarrow> heap_parent i = p \<Longrightarrow> \<not> lt (es ! i) (es ! p)"
  | (move) m where "min_child lt pq 2 (p * 2 + 1) p = Inr m" "p < m" "m < length es" "heap_parent m = p" "lt (es ! m) (es ! p)"
      "\<And>i. i < length es \<Longrightarrow> 0 < i \<Longrightarrow> heap_parent i = p \<Longrightarrow> \<not> lt (es ! i) (es ! m)"
proof -
  let ?l = "p * 2 + 1" and ?r = "p * 2 + 2"
  have len: "pq_length pq = length es" using h by (simp add: pq_holds_def)
  have par: "heap_parent ?l = p" "heap_parent ?r = p" by simp_all
  have ch: "i = ?l \<or> i = ?r" if "heap_parent i = p" "0 < i" for i using heap_parent_child [OF that] .
  note get = pq_get_holds [OF h]
  consider "length es \<le> ?l" | "?r = length es" | "?r < length es" by linarith
  then show thesis
  proof cases
    case 1
    then have "min_child lt pq 2 ?l p = Inr p" by (simp add: numeral_2_eq_2 len)
    then show thesis by (rule stay) (use ch 1 in force)
  next
    case 2
    then have run: "min_child lt pq 2 ?l p = Inr (if lt (es ! ?l) (es ! p) then ?l else p)"
      by (simp add: numeral_2_eq_2 len get)
    have only: "i = ?l" if "i < length es" "0 < i" "heap_parent i = p" for i using ch [OF that(3,2)] that(1) 2 by linarith
    show thesis
    proof (cases "lt (es ! ?l) (es ! p)")
      case True
      show thesis
        by (rule move [of ?l]) (use run True 2 only strict_weakD(3) [OF o] in \<open>auto simp del: One_nat_def\<close>)
    next
      case False
      show thesis by (rule stay) (use run False only in auto)
    qed
  next
    case 3
    define a where "a = (if lt (es ! ?l) (es ! p) then ?l else p)"
    define m where "m = (if lt (es ! ?r) (es ! a) then ?r else a)"
    have a: "a < length es" using 3 by (simp add: a_def)
    have run: "min_child lt pq 2 ?l p = Inr m"
      using 3 get [of ?l] get [of p] get [of ?r] get [OF a] by (simp add: numeral_2_eq_2 len a_def m_def)
    show thesis
    proof (cases "m = p")
      case True
      then have "\<not> lt (es ! ?l) (es ! p)" "\<not> lt (es ! ?r) (es ! p)"
        by (auto simp: m_def a_def split: if_splits)
      with ch have "\<not> lt (es ! i) (es ! p)" if "0 < i" "heap_parent i = p" for i using that by metis
      with run True show thesis by (intro stay) simp_all
    next
      case False
      then have lr: "m = ?l \<or> m = ?r" by (auto simp: m_def a_def split: if_splits)
      have "\<not> lt (es ! ?l) (es ! m) \<and> \<not> lt (es ! ?r) (es ! m) \<and> lt (es ! m) (es ! p)"
        using False unfolding m_def a_def
        by (auto split: if_splits dest: strict_weakD(1) [OF o] simp: strict_weakD(3) [OF o])
          (blast dest: strict_weakD(1,2) [OF o])+
      moreover from this ch have "\<not> lt (es ! i) (es ! m)" if "0 < i" "heap_parent i = p" for i using that by metis
      ultimately show thesis using run lr 3 par by (intro move [of m]) auto
    qed
  qed
qed

lemma heap_down_step:
  assumes o: "strict_weak lt" and h: "heap_but_down lt k es p" and kp: "k \<le> p"
    and m: "p < m" "m < length es" "heap_parent m = p" "lt (es ! m) (es ! p)"
    and c: "\<And>i. i < length es \<Longrightarrow> 0 < i \<Longrightarrow> heap_parent i = p \<Longrightarrow> \<not> lt (es ! i) (es ! m)"
  shows "heap_but_down lt k (list_swap es p m) m"
proof -
  let ?es = "list_swap es p m"
  have p: "p < length es" using m by simp
  have nth: "?es ! i = (if i = m then es ! p else if i = p then es ! m else es ! i)" if "i < length es" for i
    by (rule list_swap_nth [OF p m(2) that])
  have up: "\<not> lt (es ! i) (es ! heap_parent i)" if "i < length es" "0 < i" "k \<le> heap_parent i" "heap_parent i \<noteq> p" for i
    using h that by (simp add: heap_but_down_def)
  have "\<not> lt (?es ! i) (?es ! heap_parent i)" if i: "i < length es" "0 < i" "k \<le> heap_parent i" "heap_parent i \<noteq> m" for i
  proof -
    have ip: "heap_parent i < i" "heap_parent i < length es" using i by linarith+
    consider "heap_parent i = p" "i = m" | "heap_parent i = p" "i \<noteq> m" | "heap_parent i \<noteq> p" "i = p" | "heap_parent i \<noteq> p" "i \<noteq> p" by blast
    then show ?thesis
    proof cases
      case 1
      have "?es ! i = es ! p" using nth [OF i(1)] 1(2) by presburger
      moreover have "?es ! heap_parent i = es ! m" unfolding 1(1) using nth [OF p] m(1) by simp
      ultimately show ?thesis using strict_weakD(1) [OF o m(4)] by (simp only: not_False_eq_True)
    next
      case 2
      then have "?es ! i = es ! i" using nth [OF i(1)] ip(1) by presburger
      moreover have "?es ! heap_parent i = es ! m" unfolding 2(1) using nth [OF p] m(1) by simp
      ultimately show ?thesis using c [OF i(1,2) 2(1)] by (simp only: not_False_eq_True)
    next
      case 3
      then have "?es ! i = es ! m" "?es ! heap_parent i = es ! heap_parent i"
        using nth [OF i(1)] nth [OF ip(2)] m(1) i(4) by presburger+
      moreover have "\<not> lt (es ! m) (es ! heap_parent p)"
        using h i(2,3) m 3(2) by (simp add: heap_but_down_def heap_bridge_def)
      ultimately show ?thesis using 3(2) by (simp only: not_False_eq_True)
    next
      case 4
      then have "i \<noteq> m" using m(3) by blast
      then have "?es ! i = es ! i" "?es ! heap_parent i = es ! heap_parent i"
        using nth [OF i(1)] nth [OF ip(2)] 4 i(4) by presburger+
      then show ?thesis using up [OF i(1-3) 4(1)] by (simp only: not_False_eq_True)
    qed
  qed
  moreover have "heap_bridge lt k ?es m"
    unfolding heap_bridge_def m(3)
  proof (intro impI allI)
    fix i assume a: "i < length ?es" "0 < i" "heap_parent i = m"
    have i: "i \<noteq> m" "i \<noteq> p" using a(2,3) m(1) by linarith+
    have "\<not> lt (es ! i) (es ! m)" using up [of i] a kp m(1) by simp
    moreover have "?es ! i = es ! i" "?es ! p = es ! m" using nth [of i] nth [OF p] a(1) i m(1) by auto
    ultimately show "\<not> lt (?es ! i) (?es ! p)" by simp
  qed
  ultimately show ?thesis by (simp add: heap_but_down_def)
qed

lemma bubble_down_ok:
  assumes "strict_weak lt" "pq_holds pq es" "index_ok ix es" "heap_but_down lt k es p" "k \<le> p"
  shows "\<exists>pq' ix' es'. bubble_down lt pq ix p = Inr (pq', ix') \<and> pq_holds pq' es' \<and> index_ok ix' es' \<and>
    heap_from lt k es' \<and> mset es' = mset es"
  using assms(2-)
proof (induction "length es - p" arbitrary: pq ix es p rule: less_induct)
  case less
  show ?case
  proof (rule min_child_ok [OF assms(1) less.prems(1), of p], goal_cases)
    case 1
    have "heap_from lt k es" using less.prems(3) 1(2) unfolding heap_from_def heap_but_down_def by metis
    moreover have "bubble_down lt pq ix p = Inr (pq, ix)"
      using 1(1) by (simp add: bubble_down.simps [of lt pq ix p])
    ultimately show ?case using less.prems by blast
  next
    case (2 m)
    obtain pq1 ix1 where s: "pq_swap pq ix p m = Inr (pq1, ix1)" "pq_holds pq1 (list_swap es p m)" "index_ok ix1 (list_swap es p m)"
      using pq_swap_holds [OF less.prems(1,2), of p m] 2(2,3) by auto
    have "bubble_down lt pq ix p = bubble_down lt pq1 ix1 m"
      using 2(1,2) s(1) by (simp add: bubble_down.simps [of lt pq ix p])
    moreover have "length (list_swap es p m) - m < length es - p" using 2(2,3) by simp
    moreover have "heap_but_down lt k (list_swap es p m) m"
      using 2 by (intro heap_down_step [OF assms(1) less.prems(3,4)])
    moreover have "k \<le> m" using 2(2) less.prems(4) by simp
    ultimately show ?case using less.hyps [of "list_swap es p m" m pq1 ix1] s(2,3) 2(2,3) by simp
  qed
qed

section \<open>Invariant\<close>

definition pq_entries :: "'e nghttp2_pq \<Rightarrow> 'e list" where
  "pq_entries pq = map the (take (pq_length pq) (pq_q pq))"

definition pq_inv :: "('e \<Rightarrow> 'e \<Rightarrow> bool) \<Rightarrow> 'e nghttp2_pq \<times> ('e \<Rightarrow> nat) \<Rightarrow> bool" where
  "pq_inv lt = (\<lambda>(pq, ix). strict_weak lt \<and> pq_holds pq (pq_entries pq) \<and> index_ok ix (pq_entries pq) \<and>
     heap_from lt 0 (pq_entries pq))"

lemma pq_holds_entries: "pq_holds pq es \<Longrightarrow> pq_entries pq = es"
  by (rule nth_equalityI) (auto simp: pq_holds_def pq_entries_def)

lemma pq_invI:
  "strict_weak lt \<Longrightarrow> pq_holds pq es \<Longrightarrow> index_ok ix es \<Longrightarrow> heap_from lt 0 es \<Longrightarrow> pq_inv lt (pq, ix) \<and> pq_entries pq = es"
  by (simp add: pq_inv_def pq_holds_entries)

lemma pq_invD:
  assumes "pq_inv lt (pq, ix)"
  shows "strict_weak lt" "pq_holds pq (pq_entries pq)" "index_ok ix (pq_entries pq)" "heap_from lt 0 (pq_entries pq)"
    "pq_length pq = length (pq_entries pq)"
  using assms by (simp_all add: pq_inv_def pq_holds_def)

lemma pq_init_inv: "strict_weak lt \<Longrightarrow> pq_inv lt (nghttp2_pq_init, ix)" "pq_entries nghttp2_pq_init = []"
  by (simp_all add: pq_inv_def pq_entries_def nghttp2_pq_init_def pq_holds_def index_ok_def heap_from_def)

text \<open>The first entry is least.\<close>

lemma heap_top:
  assumes "strict_weak lt" "heap_from lt 0 es" "i < length es"
  shows "\<not> lt (es ! i) (es ! 0)"
  using assms(3)
proof (induction i rule: less_induct)
  case (less i)
  show ?case
  proof (cases "i = 0")
    case False
    then have p: "heap_parent i < i" by linarith
    have "\<not> lt (es ! i) (es ! heap_parent i)" using assms(2) less.prems False by (simp add: heap_from_def)
    moreover have "\<not> lt (es ! heap_parent i) (es ! 0)" using less.IH [OF p] p less.prems by simp
    ultimately show ?thesis by (rule strict_weakD(2) [OF assms(1)])
  qed (simp add: strict_weakD(3) [OF assms(1)])
qed

lemma pq_top_ok:
  assumes "pq_inv lt (pq, ix)"
  shows "nghttp2_pq_top pq = Inr (if pq_entries pq = [] then None else Some (hd (pq_entries pq)))"
    "\<forall>x \<in># mset (pq_entries pq). \<not> lt x (hd (pq_entries pq))"
proof -
  note inv = pq_invD [OF assms]
  show "nghttp2_pq_top pq = Inr (if pq_entries pq = [] then None else Some (hd (pq_entries pq)))"
    using pq_get_holds [OF inv(2), of 0] inv(5) by (auto simp: nghttp2_pq_top_def hd_conv_nth)
  show "\<forall>x \<in># mset (pq_entries pq). \<not> lt x (hd (pq_entries pq))"
  proof
    fix x assume "x \<in># mset (pq_entries pq)"
    then obtain i where i: "i < length (pq_entries pq)" "pq_entries pq ! i = x" by (auto simp: in_set_conv_nth)
    then have "hd (pq_entries pq) = pq_entries pq ! 0" by (intro hd_conv_nth) auto
    with heap_top [OF inv(1,4) i(1)] i(2) show "\<not> lt x (hd (pq_entries pq))" by simp
  qed
qed

section \<open>Insertion\<close>

lemma pq_append_holds:
  assumes "pq_holds pq es" "length es < length (pq_q pq)"
  shows "\<exists>pq'. pq_put pq (pq_length pq) e = Inr pq' \<and> pq_length pq' = length es \<and>
    pq_holds (pq'\<lparr>pq_length := length es + 1\<rparr>) (es @ [e])"
  using assms by (auto simp: pq_holds_def pq_put_def nth_list_update nth_append)

lemma heap_append:
  assumes "heap_from lt 0 es"
  shows "heap_but_up lt (es @ [e]) (length es)"
proof -
  have "\<not> lt ((es @ [e]) ! i) ((es @ [e]) ! heap_parent i)" if "i < length (es @ [e])" "0 < i" "i \<noteq> length es" for i
  proof -
    from that have "i < length es" "heap_parent i < length es" by simp_all
    then show ?thesis using assms that(2) by (simp add: heap_from_def nth_append)
  qed
  moreover have "heap_bridge lt 0 (es @ [e]) (length es)"
    by (auto simp: heap_bridge_def)
  ultimately show ?thesis by (simp add: heap_but_up_def)
qed

text \<open>The array has room after \<open>pq_push\<close>'s first step, or there is no memory.\<close>

lemma pq_grow:
  assumes "pq_holds pq es" "length (pq_q pq) \<le> n"
  shows "pq_holds (pq\<lparr>pq_q := take n (pq_q pq) @ replicate (n - length (pq_q pq)) None, pq_capacity := n\<rparr>) es"
  using assms by (auto simp: pq_holds_def nth_append)

lemma pq_push_ok:
  assumes "pq_inv lt (pq, ix)" "e \<notin> set (pq_entries pq)"
  shows "\<exists>rv pq' ix' m'. nghttp2_pq_push lt pq ix e m = Inr (rv, pq', ix', m') \<and> pq_inv lt (pq', ix') \<and>
    (rv = 0 \<and> mset (pq_entries pq') = add_mset e (mset (pq_entries pq)) \<or>
     rv = NGHTTP2_ERR_NOMEM \<and> pq' = pq \<and> ix' = ix)"
proof -
  note inv = pq_invD [OF assms(1)]
  let ?es = "pq_entries pq"
  have push: "\<exists>pq' ix'. res_bind (pq_put pq1 (pq_length pq1) e) (\<lambda>pq2.
      res_bind (bubble_up lt (pq2\<lparr>pq_length := pq_length pq2 + 1\<rparr>) (ix(e := pq_length pq2)) (pq_length pq2)) (\<lambda>(pq3, ix3).
      Inr (0, pq3, ix3, m1))) = Inr (0, pq', ix', m1) \<and> pq_inv lt (pq', ix') \<and>
      mset (pq_entries pq') = add_mset e (mset ?es)"
    if h: "pq_holds pq1 ?es" "length ?es < length (pq_q pq1)" for pq1 and m1 :: memory
  proof -
    obtain pq2 where 2: "pq_put pq1 (pq_length pq1) e = Inr pq2" "pq_length pq2 = length ?es"
      "pq_holds (pq2\<lparr>pq_length := length ?es + 1\<rparr>) (?es @ [e])"
      using pq_append_holds [OF h, of e] by blast
    have "index_ok (ix(e := length ?es)) (?es @ [e])"
      using inv(3) assms(2) by (auto simp: index_ok_def nth_append)
    from bubble_up_ok [OF inv(1) 2(3) this _ heap_append [OF inv(4)]]
    obtain pq3 ix3 es3 where 3: "bubble_up lt (pq2\<lparr>pq_length := length ?es + 1\<rparr>) (ix(e := length ?es)) (length ?es) = Inr (pq3, ix3)"
      "pq_holds pq3 es3" "index_ok ix3 es3" "heap_from lt 0 es3" "mset es3 = mset (?es @ [e])"
      by auto
    then show ?thesis using 2(1,2) pq_invI [OF inv(1) 3(2-4)] by simp
  qed
  show ?thesis
  proof (cases "pq_capacity pq \<le> pq_length pq")
    case False
    then have "length ?es < length (pq_q pq)" using inv(2,5) by (simp add: pq_holds_def)
    from push [OF inv(2) this, of m] False show ?thesis by (auto simp: nghttp2_pq_push_def)
  next
    case True
    let ?n = "max 4 (pq_capacity pq * 2)"
    obtain r m1 where r: "nghttp2_mem_realloc (if pq_q pq = [] then None else Some []) (?n * SIZEOF_POINTER) m = (r, m1)"
      by fastforce
    show ?thesis
    proof (cases r)
      case None
      then show ?thesis using True r assms(1) by (simp add: nghttp2_pq_push_def Let_def nghttp2_err_defs)
    next
      case (Some b)
      let ?pq = "pq\<lparr>pq_q := take ?n (pq_q pq) @ replicate (?n - length (pq_q pq)) None, pq_capacity := ?n\<rparr>"
      have cap: "length (pq_q pq) \<le> ?n" "length ?es < length (pq_q ?pq)"
        using inv(2) True by (auto simp: pq_holds_def)
      from push [OF pq_grow [OF inv(2) cap(1)] cap(2), of m1] True r Some
      show ?thesis by (auto simp: nghttp2_pq_push_def Let_def)
    qed
  qed
qed

section \<open>Removal\<close>

text \<open>Taking out position \<open>p\<close> puts the last entry there.\<close>

definition fill_with_last :: "'e list \<Rightarrow> nat \<Rightarrow> 'e list" where
  "fill_with_last es p = butlast (es[p := last es])"

lemma mset_butlast: "xs \<noteq> [] \<Longrightarrow> mset (butlast xs) = mset xs - {#last xs#}"
  by (metis add_diff_cancel_right' append_butlast_last_id mset.simps mset_append)

lemma fill_with_last_mset:
  assumes "p < length es"
  shows "mset (fill_with_last es p) = mset es - {#es ! p#}"
proof -
  have ne: "es \<noteq> []" "es[p := last es] \<noteq> []" using assms by auto
  have "last (es[p := last es]) = last es" using assms ne(1) by (auto simp: last_list_update)
  then show ?thesis using assms ne by (simp add: fill_with_last_def mset_butlast mset_update)
qed

lemma fill_with_last_simps [simp]:
  "length (fill_with_last es p) = length es - 1"
  "i < length es - 1 \<Longrightarrow> fill_with_last es p ! i = (if i = p then last es else es ! i)"
  by (auto simp: fill_with_last_def nth_butlast nth_list_update)

lemma pq_fill_holds:
  assumes h: "pq_holds pq es" and ix: "index_ok ix es" and p: "p < length es"
  shows "\<exists>pq1. pq_get pq (pq_length pq - 1) = Inr (last es) \<and> pq_put pq p (last es) = Inr pq1 \<and>
    pq_holds (pq1\<lparr>pq_length := pq_length pq1 - 1\<rparr>) (fill_with_last es p)"
    "index_ok (ix(last es := p)) (fill_with_last es p)"
proof -
  have l: "last es = es ! (length es - 1)" using p by (intro last_conv_nth) auto
  show "\<exists>pq1. pq_get pq (pq_length pq - 1) = Inr (last es) \<and> pq_put pq p (last es) = Inr pq1 \<and>
    pq_holds (pq1\<lparr>pq_length := pq_length pq1 - 1\<rparr>) (fill_with_last es p)"
    using h p l by (auto simp: pq_holds_def pq_get_def pq_put_def nth_list_update)
  show "index_ok (ix(last es := p)) (fill_with_last es p)"
  proof -
    have "es ! i \<noteq> last es" if "i < length es - 1" for i
      using index_ok_inj [OF ix, of i "length es - 1"] that p unfolding l by fastforce
    then show ?thesis using ix p by (auto simp: index_ok_def)
  qed
qed

lemma heap_fill_root:
  assumes "heap_from lt 0 es"
  shows "heap_but_down lt 0 (fill_with_last es 0) 0"
proof -
  have "\<not> lt (fill_with_last es 0 ! i) (fill_with_last es 0 ! heap_parent i)"
    if "i < length es - 1" "0 < i" "heap_parent i \<noteq> 0" for i
  proof -
    have "heap_parent i < length es - 1" using that(1) by linarith
    then show ?thesis using that assms by (simp add: heap_from_def)
  qed
  then show ?thesis by (simp add: heap_but_down_def heap_bridge_def)
qed

lemma pq_pop_ok:
  assumes "pq_inv lt (pq, ix)" "pq_entries pq \<noteq> []"
  shows "\<exists>pq' ix'. nghttp2_pq_pop lt pq ix = Inr (pq', ix') \<and> pq_inv lt (pq', ix') \<and>
    mset (pq_entries pq') = mset (pq_entries pq) - {#hd (pq_entries pq)#}"
proof -
  note inv = pq_invD [OF assms(1)]
  let ?es = "pq_entries pq"
  have p: "0 < length ?es" using assms(2) by simp
  obtain pq1 where 1: "pq_get pq (pq_length pq - 1) = Inr (last ?es)" "pq_put pq 0 (last ?es) = Inr pq1"
    "pq_holds (pq1\<lparr>pq_length := pq_length pq1 - 1\<rparr>) (fill_with_last ?es 0)"
    using pq_fill_holds(1) [OF inv(2,3) p] by blast
  obtain pq' ix' es' where "bubble_down lt (pq1\<lparr>pq_length := pq_length pq1 - 1\<rparr>) (ix(last ?es := 0)) 0 = Inr (pq', ix')"
    "pq_holds pq' es'" "index_ok ix' es'" "heap_from lt 0 es'" "mset es' = mset (fill_with_last ?es 0)"
    using bubble_down_ok [OF inv(1) 1(3) pq_fill_holds(2) [OF inv(2,3) p] heap_fill_root [OF inv(4)]] by blast
  then show ?thesis
    using 1 p inv(5) pq_invI [OF inv(1), of pq' es' ix'] by (simp add: nghttp2_pq_pop_def fill_with_last_mset hd_conv_nth)
qed

text \<open>
  The entry that fills the hole goes down when it is greater than the removed one and up
  otherwise; either way only one side of the hole is out of order.
\<close>

lemma heap_fill_down:
  assumes o: "strict_weak lt" and h: "heap_from lt 0 es" and p: "0 < p" "p < length es - 1"
    and gt: "lt (es ! p) (last es)"
  shows "heap_but_down lt 0 (fill_with_last es p) p"
proof -
  let ?es = "fill_with_last es p"
  have up: "\<not> lt (es ! i) (es ! heap_parent i)" if "i < length es" "0 < i" for i
    using h that by (simp add: heap_from_def)
  have q: "heap_parent p < p" using p(1) by linarith
  have par: "\<not> lt (es ! p) (es ! heap_parent p)" using up [of p] p by simp
  have "\<not> lt (?es ! i) (?es ! heap_parent i)" if i: "i < length es - 1" "0 < i" "heap_parent i \<noteq> p" for i
  proof -
    have ip: "heap_parent i < length es - 1" using i(1) by linarith
    show ?thesis
    proof (cases "i = p")
      case True
      have "\<not> lt (last es) (es ! heap_parent p)"
        using strict_weakD(1) [OF o gt] par strict_weakD(2) [OF o] by blast
      then show ?thesis using True i ip q by simp
    next
      case False
      then show ?thesis using up [of i] i ip by simp
    qed
  qed
  moreover have "heap_bridge lt 0 ?es p"
    unfolding heap_bridge_def
  proof (intro impI allI)
    fix i assume a: "i < length ?es" "0 < i" "heap_parent i = p"
    have "\<not> lt (es ! i) (es ! p)" using up [of i] a by simp
    then have "\<not> lt (es ! i) (es ! heap_parent p)" using par by (rule strict_weakD(2) [OF o])
    moreover have "i \<noteq> p" using a(2,3) by linarith
    ultimately show "\<not> lt (?es ! i) (?es ! heap_parent p)" using a(1) q p(2) by simp
  qed
  ultimately show ?thesis by (simp add: heap_but_down_def)
qed

lemma heap_fill_up:
  assumes o: "strict_weak lt" and h: "heap_from lt 0 es" and p: "0 < p" "p < length es - 1"
    and le: "\<not> lt (es ! p) (last es)"
  shows "heap_but_up lt (fill_with_last es p) p"
proof -
  let ?es = "fill_with_last es p"
  have up: "\<not> lt (es ! i) (es ! heap_parent i)" if "i < length es" "0 < i" for i
    using h that by (simp add: heap_from_def)
  have q: "heap_parent p < p" using p(1) by linarith
  have "\<not> lt (?es ! i) (?es ! heap_parent i)" if i: "i < length es - 1" "0 < i" "i \<noteq> p" for i
  proof -
    have ip: "heap_parent i < length es - 1" using i(1) by linarith
    have "\<not> lt (es ! i) (es ! heap_parent i)" using up [of i] i by simp
    then show ?thesis using i ip strict_weakD(2) [OF o _ le, of "es ! i"] by auto
  qed
  moreover have "heap_bridge lt 0 ?es p"
    unfolding heap_bridge_def
  proof (intro impI allI)
    fix i assume a: "i < length ?es" "0 < i" "heap_parent i = p"
    have "\<not> lt (es ! i) (es ! p)" using up [of i] a by simp
    moreover have "\<not> lt (es ! p) (es ! heap_parent p)" using up [of p] p by simp
    ultimately have "\<not> lt (es ! i) (es ! heap_parent p)" by (rule strict_weakD(2) [OF o])
    moreover have "i \<noteq> p" using a(2,3) by linarith
    ultimately show "\<not> lt (?es ! i) (?es ! heap_parent p)" using a(1) q p(2) by simp
  qed
  ultimately show ?thesis by (simp add: heap_but_up_def)
qed

lemma heap_butlast: "heap_from lt 0 es \<Longrightarrow> heap_from lt 0 (butlast es)"
proof -
  assume h: "heap_from lt 0 es"
  have "\<not> lt (butlast es ! i) (butlast es ! heap_parent i)" if "i < length es - 1" "0 < i" for i
  proof -
    have "heap_parent i < length es - 1" using that by linarith
    then show ?thesis using h that by (simp add: heap_from_def nth_butlast)
  qed
  then show ?thesis by (simp add: heap_from_def)
qed

lemma pq_remove_ok:
  assumes "pq_inv lt (pq, ix)" "item \<in> set (pq_entries pq)"
  shows "\<exists>pq' ix'. nghttp2_pq_remove lt pq ix item = Inr (pq', ix') \<and> pq_inv lt (pq', ix') \<and>
    mset (pq_entries pq') = mset (pq_entries pq) - {#item#}"
proof -
  note inv = pq_invD [OF assms(1)]
  let ?es = "pq_entries pq"
  obtain p where p: "p < length ?es" "?es ! p = item" using assms(2) by (auto simp: in_set_conv_nth)
  have ix: "ix item = p" using inv(3) p by (auto simp: index_ok_def)
  have get: "pq_get pq p = Inr item" using pq_get_holds [OF inv(2) p(1)] p(2) by simp
  have ne: "?es \<noteq> []" using p(1) by auto
  consider "p = 0" | "0 < p" "p = length ?es - 1" | "0 < p" "p < length ?es - 1" using p(1) by linarith
  then show ?thesis
  proof cases
    case 1
    then have "nghttp2_pq_remove lt pq ix item = nghttp2_pq_pop lt pq ix"
      using ix get by (simp add: nghttp2_pq_remove_def)
    moreover have "hd ?es = item" using p 1 ne by (simp add: hd_conv_nth)
    ultimately show ?thesis using pq_pop_ok [OF assms(1) ne] by simp
  next
    case 2
    let ?pq = "pq\<lparr>pq_length := pq_length pq - 1\<rparr>"
    have "nghttp2_pq_remove lt pq ix item = Inr (?pq, ix)"
      using 2 ix get inv(5) by (simp add: nghttp2_pq_remove_def)
    moreover have "pq_holds ?pq (butlast ?es)" using inv(2) by (auto simp: pq_holds_def nth_butlast)
    moreover have "index_ok ix (butlast ?es)" using inv(3) by (simp add: index_ok_def nth_butlast)
    moreover have "last ?es = item" using 2 p ne by (simp add: last_conv_nth)
    ultimately show ?thesis
      using pq_invI [OF inv(1) _ _ heap_butlast [OF inv(4)]] mset_butlast [OF ne] by simp
  next
    case 3
    obtain pq1 where 1: "pq_get pq (pq_length pq - 1) = Inr (last ?es)" "pq_put pq p (last ?es) = Inr pq1"
      "pq_holds (pq1\<lparr>pq_length := pq_length pq1 - 1\<rparr>) (fill_with_last ?es p)"
      using pq_fill_holds(1) [OF inv(2,3) p(1)] by blast
    note ok = pq_fill_holds(2) [OF inv(2,3) p(1)]
    have "length ?es - 1 < length ?es" using p(1) by linarith
    from index_ok_inj [OF inv(3) this p(1)] have "?es ! (length ?es - 1) \<noteq> item" using p(2) 3 by auto
    then have other: "last ?es \<noteq> item" using ne by (simp add: last_conv_nth)
    have get': "pq_get (pq1\<lparr>pq_length := pq_length pq1 - 1\<rparr>) p = Inr (last ?es)"
      using pq_get_holds [OF 1(3), of p] 3 by simp
    obtain pq' ix' es' where "(if lt item (last ?es) then bubble_down lt (pq1\<lparr>pq_length := pq_length pq1 - 1\<rparr>) (ix(last ?es := p)) p
        else bubble_up lt (pq1\<lparr>pq_length := pq_length pq1 - 1\<rparr>) (ix(last ?es := p)) p) = Inr (pq', ix')"
      "pq_holds pq' es'" "index_ok ix' es'" "heap_from lt 0 es'" "mset es' = mset (fill_with_last ?es p)"
    proof (cases "lt item (last ?es)")
      case True
      then show thesis
        using bubble_down_ok [OF inv(1) 1(3) ok, of 0 p] heap_fill_down [OF inv(1,4) 3] p(2) that by auto
    next
      case False
      then show thesis
        using bubble_up_ok [OF inv(1) 1(3) ok, of p] heap_fill_up [OF inv(1,4) 3] p(2) 3 that by auto
    qed
    moreover have "nghttp2_pq_remove lt pq ix item =
        (if lt item (last ?es) then bubble_down lt (pq1\<lparr>pq_length := pq_length pq1 - 1\<rparr>) (ix(last ?es := p)) p
        else bubble_up lt (pq1\<lparr>pq_length := pq_length pq1 - 1\<rparr>) (ix(last ?es := p)) p)"
      using 3 1(1,2) ix get get' other inv(5) by (simp add: nghttp2_pq_remove_def Let_def)
    ultimately show ?thesis
      using pq_invI [OF inv(1), of pq' es' ix'] fill_with_last_mset [OF p(1)] p(2) by simp
  qed
qed

section \<open>Rebuilding\<close>

lemma pq_rebuild_ok:
  assumes "strict_weak lt" "pq_holds pq es" "index_ok ix es" "heap_from lt k es"
  shows "\<exists>pq' ix' es'. pq_rebuild lt k pq ix = Inr (pq', ix') \<and> pq_holds pq' es' \<and> index_ok ix' es' \<and>
    heap_from lt 0 es' \<and> mset es' = mset es"
  using assms(2-)
proof (induction k arbitrary: pq ix es)
  case (Suc k)
  have "heap_but_down lt k es k"
    using Suc.prems(3) by (auto simp: heap_from_def heap_but_down_def heap_bridge_def)
  from bubble_down_ok [OF assms(1) Suc.prems(1,2) this order_refl] obtain pq1 ix1 es1 where
    "bubble_down lt pq ix k = Inr (pq1, ix1)" "pq_holds pq1 es1" "index_ok ix1 es1" "heap_from lt k es1" "mset es1 = mset es"
    by blast
  with Suc.IH [of pq1 es1 ix1] show ?case by simp
qed auto

lemma pq_call_all_ok:
  assumes "pq_holds pq es" "\<forall>i \<in> set is. i < length es"
  shows "\<exists>rv s'. pq_call_all fn pq is s = Inr (rv, s')"
  using assms(2)
proof (induction "is" arbitrary: s)
  case (Cons i js)
  obtain rv s' where "pq_call_all fn pq js (snd (fn (es ! i) s)) = Inr (rv, s')"
    using Cons.IH [of "snd (fn (es ! i) s)"] Cons.prems by auto
  then show ?case using Cons.prems pq_get_holds [OF assms(1), of i] by (simp add: Let_def case_prod_beta)
qed (intro exI, rule pq_call_all.simps(1))

text \<open>
  After an update whose callbacks report a change, the queue is a heap for the comparison of
  the new state, whatever it was before.
\<close>

lemma pq_update_ok:
  assumes "pq_holds pq (pq_entries pq)" "index_ok ix (pq_entries pq)"
    and o: "\<And>s. strict_weak (lt s)" and rv: "\<And>e s. fst (fn e s)"
  shows "\<exists>pq' ix' s'. nghttp2_pq_update lt pq ix fn s = Inr (pq', ix', s') \<and> pq_inv (lt s') (pq', ix') \<and>
    mset (pq_entries pq') = mset (pq_entries pq)"
proof -
  let ?es = "pq_entries pq"
  have len: "pq_length pq = length ?es" using assms(1) by (simp add: pq_holds_def)
  show ?thesis
  proof (cases "pq_length pq = 0")
    case True
    then have "heap_from (lt s) 0 ?es" by (simp add: len heap_from_def)
    with pq_invI [OF o assms(1,2) this] True show ?thesis by (simp add: nghttp2_pq_update_def)
  next
    case False
    obtain r s1 where r: "pq_call_all fn pq [0..<pq_length pq] s = Inr (r, s1)"
      using pq_call_all_ok [OF assms(1), of "[0..<pq_length pq]" fn s] len by auto
    have "r"
    proof -
      have "pq_call_all fn pq (i # js) s = Inr (r, s1) \<Longrightarrow> r" for i js
        using rv by (auto simp: Let_def case_prod_beta)
      then show ?thesis using r False by (simp add: upt_conv_Cons)
    qed
    have "heap_from (lt s1) (length ?es) ?es" by (auto simp: heap_from_def)
    from pq_rebuild_ok [OF o assms(1,2) this] r \<open>r\<close> False len show ?thesis
      using pq_invI [OF o] by (fastforce simp: nghttp2_pq_update_def)
  qed
qed

section \<open>The contract of a priority queue\<close>

text \<open>
  A queue over a comparison: the top is a least entry, an insertion adds one entry or fails
  and changes nothing, and \<open>pop\<close> and \<open>remove\<close> take out one entry.
\<close>

locale priority_queue =
  fixes lt :: "'e \<Rightarrow> 'e \<Rightarrow> bool"
    and inv :: "'s \<Rightarrow> bool" and entries :: "'s \<Rightarrow> 'e multiset"
    and top :: "'s \<Rightarrow> 'e option res" and pop :: "'s \<Rightarrow> 's res" and remove :: "'s \<Rightarrow> 'e \<Rightarrow> 's res"
  assumes top_empty: "inv s \<Longrightarrow> entries s = {#} \<Longrightarrow> top s = Inr None"
    and top_least: "inv s \<Longrightarrow> entries s \<noteq> {#} \<Longrightarrow>
      \<exists>e. top s = Inr (Some e) \<and> e \<in># entries s \<and> (\<forall>x \<in># entries s. \<not> lt x e)"
    and pop_top: "inv s \<Longrightarrow> top s = Inr (Some e) \<Longrightarrow> \<exists>s'. pop s = Inr s' \<and> inv s' \<and> entries s' = entries s - {#e#}"
    and remove_law: "inv s \<Longrightarrow> e \<in># entries s \<Longrightarrow> \<exists>s'. remove s e = Inr s' \<and> inv s' \<and> entries s' = entries s - {#e#}"
begin

lemma top_cases:
  assumes "inv s"
  obtains "entries s = {#}" "top s = Inr None"
  | e s' where "top s = Inr (Some e)" "e \<in># entries s" "\<forall>x \<in># entries s. \<not> lt x e" "pop s = Inr s'" "inv s'"
      "entries s = add_mset e (entries s')"
proof (cases "entries s = {#}")
  case True
  then show thesis using that(1) top_empty [OF assms] by blast
next
  case False
  then obtain e where e: "top s = Inr (Some e)" "e \<in># entries s" "\<forall>x \<in># entries s. \<not> lt x e"
    using top_least [OF assms] by blast
  obtain s' where s': "pop s = Inr s'" "inv s'" "entries s' = entries s - {#e#}" using pop_top [OF assms e(1)] by blast
  have "entries s = add_mset e (entries s')" unfolding s'(3) using e(2) by simp
  then show thesis by (rule that(2) [OF e s'(1,2)])
qed

lemma remove_pop_commute:
  assumes "inv s" "top s = Inr (Some e)" "x \<in># entries s" "x \<noteq> e" "pop s = Inr s1"
  shows "\<exists>s2. remove s1 x = Inr s2 \<and> inv s2 \<and> entries s2 = entries s - {#e#} - {#x#}"
proof -
  from pop_top [OF assms(1,2)] assms(5) have s1: "inv s1" "entries s1 = entries s - {#e#}" by simp_all
  moreover have "x \<in># entries s1" unfolding s1(2) using assms(3,4) by (metis diff_single_trivial insert_DiffM insert_noteq_member)
  ultimately show ?thesis using remove_law by metis
qed

end

interpretation stream_pq: priority_queue lt "pq_inv lt" "\<lambda>(pq, ix). mset (pq_entries pq)" "\<lambda>(pq, ix). nghttp2_pq_top pq"
    "\<lambda>(pq, ix). nghttp2_pq_pop lt pq ix" "\<lambda>(pq, ix). nghttp2_pq_remove lt pq ix"
  for lt :: "'e \<Rightarrow> 'e \<Rightarrow> bool"
proof (unfold_locales, goal_cases)
  case (1 s)
  then show ?case using pq_top_ok(1) [of lt "fst s" "snd s"] by (simp add: case_prod_beta)
next
  case (2 s)
  then show ?case using pq_top_ok [of lt "fst s" "snd s"] by (auto simp: case_prod_beta)
next
  case (3 s e)
  then have "pq_entries (fst s) \<noteq> []" "hd (pq_entries (fst s)) = e"
    using pq_top_ok(1) [of lt "fst s" "snd s"] by (auto simp: case_prod_beta split: if_splits)
  then show ?case using pq_pop_ok [of lt "fst s" "snd s"] 3(1) by (auto simp: case_prod_beta)
next
  case (4 s e)
  then show ?case using pq_remove_ok [of lt "fst s" "snd s" e] by (auto simp: case_prod_beta)
qed

section \<open>Running a queue\<close>

text \<open>Pushing a list of entries, and taking \<open>n\<close> entries from the top.\<close>

fun pq_push_all ::
  "('e \<Rightarrow> 'e \<Rightarrow> bool) \<Rightarrow> 'e list \<Rightarrow> 'e nghttp2_pq \<Rightarrow> ('e \<Rightarrow> nat) \<Rightarrow> memory \<Rightarrow> ('e nghttp2_pq \<times> ('e \<Rightarrow> nat) \<times> memory) option res" where
  "pq_push_all lt [] pq ix m = Inr (Some (pq, ix, m))"
| "pq_push_all lt (e # es) pq ix m =
     res_bind (nghttp2_pq_push lt pq ix e m) (\<lambda>(rv, pq1, ix1, m1).
     if rv \<noteq> 0 then Inr None else pq_push_all lt es pq1 ix1 m1)"

fun pq_drain :: "('e \<Rightarrow> 'e \<Rightarrow> bool) \<Rightarrow> nat \<Rightarrow> 'e nghttp2_pq \<Rightarrow> ('e \<Rightarrow> nat) \<Rightarrow> 'e list res" where
  "pq_drain lt 0 pq ix = Inr []"
| "pq_drain lt (Suc n) pq ix =
     res_bind (nghttp2_pq_top pq) (\<lambda>t.
     case t of None \<Rightarrow> Inr []
     | Some e \<Rightarrow>
         res_bind (nghttp2_pq_pop lt pq ix) (\<lambda>(pq1, ix1). res_bind (pq_drain lt n pq1 ix1) (\<lambda>es. Inr (e # es))))"

lemma pq_push_all_ok:
  assumes "pq_inv lt (pq, ix)" "distinct es" "set es \<inter> set (pq_entries pq) = {}"
  shows "\<exists>r. pq_push_all lt es pq ix m = Inr r \<and>
    (case r of None \<Rightarrow> True | Some (pq', ix', m') \<Rightarrow> pq_inv lt (pq', ix') \<and> mset (pq_entries pq') = mset es + mset (pq_entries pq))"
  using assms
proof (induction es arbitrary: pq ix m)
  case (Cons e es)
  obtain rv pq1 ix1 m1 where p: "nghttp2_pq_push lt pq ix e m = Inr (rv, pq1, ix1, m1)" "pq_inv lt (pq1, ix1)"
    "rv = 0 \<and> mset (pq_entries pq1) = add_mset e (mset (pq_entries pq)) \<or> rv = NGHTTP2_ERR_NOMEM"
    using pq_push_ok [OF Cons.prems(1), of e m] Cons.prems(3) by auto
  show ?case
  proof (cases "rv = 0")
    case True
    then have m: "mset (pq_entries pq1) = add_mset e (mset (pq_entries pq))" using p(3) by (auto simp: nghttp2_err_defs)
    then have "set (pq_entries pq1) = insert e (set (pq_entries pq))" by (metis set_mset_add_mset_insert set_mset_mset)
    then have "set es \<inter> set (pq_entries pq1) = {}" using Cons.prems(2,3) by auto
    then obtain r where "pq_push_all lt es pq1 ix1 m1 = Inr r" "case r of None \<Rightarrow> True
        | Some (pq', ix', m') \<Rightarrow> pq_inv lt (pq', ix') \<and> mset (pq_entries pq') = mset es + mset (pq_entries pq1)"
      using Cons.IH [OF p(2), of m1] Cons.prems(2) by auto
    then show ?thesis using p(1) True m by (cases r) auto
  qed (use p(1) in simp)
qed simp

lemma pq_drain_ok:
  assumes "pq_inv lt (pq, ix)"
  shows "\<exists>es. pq_drain lt (length (pq_entries pq)) pq ix = Inr es \<and> mset es = mset (pq_entries pq) \<and>
    sorted_wrt (\<lambda>x y. \<not> lt y x) es"
  using assms
proof (induction "length (pq_entries pq)" arbitrary: pq ix)
  case (Suc n)
  then have "mset (pq_entries pq) \<noteq> {#}" by auto
  then obtain e s' where s': "nghttp2_pq_top pq = Inr (Some e)" "\<forall>x \<in># mset (pq_entries pq). \<not> lt x e"
    "nghttp2_pq_pop lt pq ix = Inr s'" "pq_inv lt s'" "mset (pq_entries pq) = add_mset e (mset (pq_entries (fst s')))"
    using stream_pq.top_cases [OF Suc.prems] unfolding case_prod_beta fst_conv snd_conv by metis
  obtain pq1 ix1 where "s' = (pq1, ix1)" by (cases s')
  with s' have t: "nghttp2_pq_top pq = Inr (Some e)" "\<forall>x \<in># mset (pq_entries pq). \<not> lt x e" "nghttp2_pq_pop lt pq ix = Inr (pq1, ix1)"
      "pq_inv lt (pq1, ix1)" "mset (pq_entries pq) = add_mset e (mset (pq_entries pq1))" by simp_all
  have "length (pq_entries pq) = Suc (length (pq_entries pq1))" using arg_cong [OF t(5), of size] by simp
  then obtain es where es: "pq_drain lt n pq1 ix1 = Inr es" "mset es = mset (pq_entries pq1)" "sorted_wrt (\<lambda>x y. \<not> lt y x) es"
    using Suc.hyps(1) [OF _ t(4)] Suc.hyps(2) by auto
  have "set es = set (pq_entries pq1)" using es(2) by (metis set_mset_mset)
  moreover have "set (pq_entries pq1) \<subseteq> set (pq_entries pq)" using t(5) by (metis set_mset_add_mset_insert set_mset_mset subset_insertI)
  ultimately show ?case using t(1-3,5) es unfolding Suc.hyps(2) [symmetric] by auto
qed simp

text \<open>
  C23. Distinct entries pushed on a new priority queue come off the top in the order of the comparison, each
  once.
\<close>

theorem pq_sorts:
  assumes "strict_weak lt" "distinct es" "pq_push_all lt es nghttp2_pq_init ix m = Inr (Some (pq, ix', m'))"
  shows "\<exists>out. pq_drain lt (length es) pq ix' = Inr out \<and> mset out = mset es \<and> sorted_wrt (\<lambda>x y. \<not> lt y x) out"
proof -
  from pq_push_all_ok [OF pq_init_inv(1) [OF assms(1), of ix] assms(2), of m] assms(3)
  have pq: "pq_inv lt (pq, ix')" "mset (pq_entries pq) = mset es" by (simp_all add: pq_init_inv)
  then have "length (pq_entries pq) = length es" by (metis size_mset)
  with pq_drain_ok [OF pq(1)] pq(2) show ?thesis by simp
qed

definition abundant_memory :: memory where
  "abundant_memory = \<lparr>mem_answers = [Some (\<lambda>_. 0), Some (\<lambda>_. 0)], mem_live = 0\<rparr>"

theorem pq_sorts_witness:
  "\<exists>pq ix m out. pq_push_all (<) [5, 3, 9, 1, (4 :: int)] nghttp2_pq_init (\<lambda>_. 0) abundant_memory = Inr (Some (pq, ix, m)) \<and>
    pq_drain (<) (length [5, 3, 9, 1, (4 :: int)]) pq ix = Inr out \<and> mset out = mset [5, 3, 9, 1, 4] \<and> sorted_wrt (\<lambda>x y. \<not> y < x) out"
proof -
  have ok: "strict_weak ((<) :: int \<Rightarrow> int \<Rightarrow> bool)" by (auto simp: strict_weak_def)
  have "case pq_push_all (<) [5, 3, 9, 1, (4 :: int)] nghttp2_pq_init (\<lambda>_. 0) abundant_memory of
      Inr (Some _) \<Rightarrow> True | _ \<Rightarrow> False"
    by code_simp
  then obtain pq ix m where run: "pq_push_all (<) [5, 3, 9, 1, (4 :: int)] nghttp2_pq_init (\<lambda>_. 0) abundant_memory = Inr (Some (pq, ix, m))"
    by (auto split: sum.splits option.splits)
  have "distinct [5, 3, 9, 1, (4 :: int)]" by simp
  from pq_sorts [OF ok this run] run show ?thesis by blast
qed

text \<open>
  C24. Removing an entry from inside the heap takes out exactly it, keeps the heap order and the position
  that every entry stores.
\<close>

theorem pq_remove_keeps_order:
  assumes "pq_inv lt (pq, ix)" "item \<in> set (pq_entries pq)"
  shows "\<exists>pq' ix'. nghttp2_pq_remove lt pq ix item = Inr (pq', ix') \<and> pq_inv lt (pq', ix') \<and>
    mset (pq_entries pq') = mset (pq_entries pq) - {#item#} \<and> (\<forall>i < length (pq_entries pq'). ix' (pq_entries pq' ! i) = i)"
  using pq_remove_ok [OF assms] pq_invD(3) unfolding index_ok_def by metis

definition six_entries :: "int nghttp2_pq" where
  "six_entries = \<lparr>pq_q = [Some 1, Some 7, Some 2, Some 9, Some 8, Some 3, None, None], pq_length = 6, pq_capacity = 8\<rparr>"

definition six_index :: "int \<Rightarrow> nat" where
  "six_index = (\<lambda>_. 0)(1 := 0, 7 := 1, 2 := 2, 9 := 3, 8 := 4, 3 := 5)"

lemma six_entries_list [simp]: "pq_entries six_entries = [1, 7, 2, 9, 8, 3]"
  by (simp add: pq_entries_def six_entries_def)

lemma six_cases: "P 0 \<Longrightarrow> P 1 \<Longrightarrow> P 2 \<Longrightarrow> P 3 \<Longrightarrow> P 4 \<Longrightarrow> P 5 \<Longrightarrow> \<forall>i < length [a, b, c, d, e, f]. P (i :: nat)"
proof (intro allI impI)
  fix i assume p: "P 0" "P 1" "P 2" "P 3" "P 4" "P 5" and "i < length [a, b, c, d, e, f]"
  then consider "i = 0" | "i = 1" | "i = 2" | "i = 3" | "i = 4" | "i = 5" by fastforce
  then show "P i" using p by cases simp_all
qed

lemma six_entries_inv: "pq_inv (<) (six_entries, six_index)"
proof -
  have "strict_weak ((<) :: int \<Rightarrow> int \<Rightarrow> bool)" by (auto simp: strict_weak_def)
  moreover have "heap_from (<) 0 [1, 7, 2, 9, 8, (3 :: int)]"
    unfolding heap_from_def by (rule six_cases) simp_all
  moreover have "index_ok six_index [1, 7, 2, 9, 8, 3]"
    unfolding index_ok_def by (rule six_cases) (simp_all add: six_index_def)
  moreover have "\<forall>i < length [1, 7, 2, 9, 8, (3 :: int)]. pq_q six_entries ! i = Some ([1, 7, 2, 9, 8, 3] ! i)"
    by (rule six_cases) (simp_all add: six_entries_def)
  ultimately show ?thesis by (simp add: pq_inv_def pq_holds_def) (simp add: six_entries_def)
qed

theorem pq_remove_keeps_order_witness:
  "\<exists>pq' ix'. nghttp2_pq_remove (<) six_entries six_index 9 = Inr (pq', ix') \<and> pq_inv (<) (pq', ix') \<and>
    mset (pq_entries pq') = {#1, 7, 2, 8, 3#} \<and> (\<forall>i < length (pq_entries pq'). ix' (pq_entries pq' ! i) = i)"
  using pq_remove_keeps_order [OF six_entries_inv, of 9] by simp

end
