(* ===== verification/Nghttp2_Queue.thy ===== *)
theory Nghttp2_Queue
  imports Nghttp2_Buf
begin

text \<open>
  The queue of nghttp2 (nghttp2_queue.c, nghttp2_queue.h): a singly linked list of cells on the
  heap with pointers to its first and its last cell. It refines a list.
\<close>

section \<open>Data\<close>

text \<open>
  Cells are found by their address. The allocator answers with an address, or with none when it
  has no memory; \<open>queue_heap\<close> maps the addresses of live cells to their contents.
\<close>

record 'a queue_cell =
  cell_data :: 'a
  cell_next :: "nat option"

type_synonym 'a queue_heap = "nat \<rightharpoonup> 'a queue_cell"

record nghttp2_queue =
  queue_front :: "nat option"
  queue_back :: "nat option"

definition load_cell :: "'a queue_heap \<Rightarrow> nat \<Rightarrow> 'a queue_cell res" where
  "load_cell h p = (case h p of None \<Rightarrow> Inl Out_Of_Bounds | Some c \<Rightarrow> Inr c)"

definition free_cell :: "'a queue_heap \<Rightarrow> nat \<Rightarrow> 'a queue_heap res" where
  "free_cell h p = (if h p = None then Inl Bad_Free else Inr (h(p := None)))"

section \<open>Operations\<close>

definition nghttp2_queue_init :: nghttp2_queue where
  "nghttp2_queue_init = \<lparr>queue_front = None, queue_back = None\<rparr>"



definition nghttp2_queue_push ::
  "nghttp2_queue \<Rightarrow> 'a \<Rightarrow> nat option \<Rightarrow> 'a queue_heap \<Rightarrow> (int \<times> nghttp2_queue \<times> 'a queue_heap) res" where
  "nghttp2_queue_push queue data answer h =
     (case answer of
        None \<Rightarrow> Inr (NGHTTP2_ERR_NOMEM, queue, h)
      | Some new_cell \<Rightarrow>
          (let h1 = h(new_cell \<mapsto> \<lparr>cell_data = data, cell_next = None\<rparr>)
           in case queue_back queue of
                Some b \<Rightarrow>
                  res_bind (load_cell h1 b) (\<lambda>c.
                  Inr (0, queue\<lparr>queue_back := Some new_cell\<rparr>, h1(b \<mapsto> c\<lparr>cell_next := Some new_cell\<rparr>)))
              | None \<Rightarrow> Inr (0, \<lparr>queue_front = Some new_cell, queue_back = Some new_cell\<rparr>, h1)))"

definition nghttp2_queue_pop :: "nghttp2_queue \<Rightarrow> 'a queue_heap \<Rightarrow> (nghttp2_queue \<times> 'a queue_heap) res" where
  "nghttp2_queue_pop queue h =
     (case queue_front queue of
        None \<Rightarrow> Inl Assert_Failed
      | Some front \<Rightarrow>
          res_bind (load_cell h front) (\<lambda>c.
          (let q1 = queue\<lparr>queue_front := cell_next c\<rparr>;
               q2 = (if queue_back q1 = Some front then q1\<lparr>queue_back := None\<rparr> else q1)
           in res_bind (free_cell h front) (\<lambda>h1. Inr (q2, h1)))))"

definition nghttp2_queue_front :: "nghttp2_queue \<Rightarrow> 'a queue_heap \<Rightarrow> 'a res" where
  "nghttp2_queue_front queue h =
     (case queue_front queue of None \<Rightarrow> Inl Assert_Failed
      | Some p \<Rightarrow> res_bind (load_cell h p) (\<lambda>c. Inr (cell_data c)))"

definition nghttp2_queue_back :: "nghttp2_queue \<Rightarrow> 'a queue_heap \<Rightarrow> 'a res" where
  "nghttp2_queue_back queue h =
     (case queue_back queue of None \<Rightarrow> Inl Assert_Failed
      | Some p \<Rightarrow> res_bind (load_cell h p) (\<lambda>c. Inr (cell_data c)))"

definition nghttp2_queue_empty :: "nghttp2_queue \<Rightarrow> bool" where
  "nghttp2_queue_empty queue \<longleftrightarrow> queue_front queue = None"

section \<open>Linked lists\<close>








section \<open>The operations refine a list\<close>









section \<open>A queue in use\<close>

text \<open>
  Any sequence of operations, as the session uses them: the front is looked at and popped when the
  queue is not empty. The allocator answers with an address that is not live, or with none.
\<close>

datatype 'a queue_op = Q_Push 'a "nat option" | Q_Pop | Q_Back

datatype 'a queue_answer = Pushed int | Read "'a option"

definition fresh_answer :: "'a queue_heap \<Rightarrow> nat option \<Rightarrow> nat option" where
  "fresh_answer h p = (case p of None \<Rightarrow> None | Some a \<Rightarrow> if h a = None then Some a else None)"

fun queue_do :: "'a queue_op \<Rightarrow> nghttp2_queue \<Rightarrow> 'a queue_heap \<Rightarrow> ('a queue_answer \<times> nghttp2_queue \<times> 'a queue_heap) res" where
  "queue_do (Q_Push x p) queue h =
     res_bind (nghttp2_queue_push queue x (fresh_answer h p) h) (\<lambda>(rv, queue1, h1). Inr (Pushed rv, queue1, h1))"
| "queue_do Q_Pop queue h =
     (if nghttp2_queue_empty queue then Inr (Read None, queue, h)
      else
        res_bind (nghttp2_queue_front queue h) (\<lambda>x.
        res_bind (nghttp2_queue_pop queue h) (\<lambda>(queue1, h1). Inr (Read (Some x), queue1, h1))))"
| "queue_do Q_Back queue h =
     (if nghttp2_queue_empty queue then Inr (Read None, queue, h)
      else res_bind (nghttp2_queue_back queue h) (\<lambda>x. Inr (Read (Some x), queue, h)))"

fun queue_run :: "'a queue_op list \<Rightarrow> nghttp2_queue \<Rightarrow> 'a queue_heap \<Rightarrow> ('a queue_answer list \<times> nghttp2_queue \<times> 'a queue_heap) res" where
  "queue_run [] queue h = Inr ([], queue, h)"
| "queue_run (c # cs) queue h =
     res_bind (queue_do c queue h) (\<lambda>(y, queue1, h1).
     res_bind (queue_run cs queue1 h1) (\<lambda>(ys, queue2, h2). Inr (y # ys, queue2, h2)))"







text \<open>The model runs: two elements in, one out, a third in, and the first cell's address used again.\<close>

lemma queue_run_example:
  "map_sum id fst (queue_run [Q_Push (1 :: int) (Some 10), Q_Push 2 (Some 20), Q_Pop, Q_Push 3 (Some 10), Q_Pop, Q_Pop, Q_Pop, Q_Push 4 (Some 20), Q_Back]
     nghttp2_queue_init Map.empty) =
   Inr [Pushed 0, Pushed 0, Read (Some 1), Pushed 0, Read (Some 2), Read (Some 3), Read None, Pushed 0, Read (Some 4)]"
  by (simp add: fresh_answer_def nghttp2_queue_push_def nghttp2_queue_init_def nghttp2_queue_pop_def nghttp2_queue_front_def
      nghttp2_queue_back_def nghttp2_queue_empty_def load_cell_def free_cell_def Let_def)

end
