(* ===== verification/Spec2Isabelle.thy ===== *)
theory Spec2Isabelle
  imports Httpc2 Nghttp2_Nv Nghttp2_Frame_Ext Nghttp2_Hd_Int Nghttp2_Huffman Nghttp2_Rcbuf Nghttp2_Hd_Static Nghttp2_Hd_Table Nghttp2_Hd_Deflate Nghttp2_Hpack Nghttp2_Map Nghttp2_Pq Nghttp2_Queue
begin

text \<open>
  Verification of the HTTP client \<open>httpc\<close> and of the parts of nghttp2 that it is linked with.

  \<^bold>\<open>The program.\<close> \<open>src/httpc\<close> is a small client library: \<open>httpc_init\<close> parses an address, resolves and
  connects it and, for https, makes a TLS session; the application composes a header in the
  client's buffer, \<open>httpc_send_request\<close> writes header and body and reads the header of the
  response, \<open>httpc_recv_response\<close> and \<open>httpc_chunked_recv\<close> read the body, \<open>httpc_deinit\<close> takes everything
  down. The HTTP/2 client in the same file wraps an nghttp2 session around such a connection.
  \<open>src/component/nghttp2-1.53.0/lib\<close> is the HTTP/2 library: it keeps its output in chains of
  buffers, packs and unpacks frames, and keeps its streams in a hash table, its schedule in
  priority queues.

  \<^bold>\<open>Conventions.\<close> Every function of the model returns \<open>fault + 'a\<close> (theory \<open>Prelude\<close>): \<open>Inl\<close> is the first
  operation that C leaves undefined (an access outside a block, a null pointer, a double
  free, a failed assertion), \<open>Inr\<close> the result. State is passed explicitly, as a record. Machine
  integers are words of their width, or integers with the conversion written out
  (\<open>int32_of\<close>, \<open>size_t_of\<close>, \<open>size_sub\<close>). A loop that has no bound of its own is a
  \<open>partial_function (option)\<close>, where \<open>None\<close> is a loop that does not return; every such function has a
  lemma that it returns (\<open>nghttp2_session_send\<close> for engines that have a queue of bytes to send, the
  others without a condition). The other loops are functions with termination proofs, so no fuel is
  used anywhere. What is not under \<open>src/httpc\<close> or the modelled part of nghttp2 is data: the answers
  of the allocator, of the sockets, of the resolver and of MbedTLS are lists or functions in
  the state.

  \<^bold>\<open>The client\<close> (\<open>src/httpc/src/httpc.c\<close>, \<open>src/httpc/include/httpc\<close>).
  \<^item> \<open>C_String\<close>: the string functions of the C library on bounded blocks, number parsing and printing.
  \<^item> \<open>Httpc_World\<close>: the structures of \<open>httpc.h\<close> as records and the world the client runs in, with the
    bytes sent, the bytes still to receive, the open descriptors and the live blocks.
  \<^item> \<open>Httpc_Transport\<close>: \<open>httpc_send\<close>, \<open>httpc_recv\<close>, \<open>httpc_send_header\<close>, \<open>httpc_send_data\<close>.
  \<^item> \<open>Httpc_Uri\<close>: \<open>httpc_ipv4_address_check\<close> and \<open>httpc_parse_uri\<close>; how an address is split, which address
    is connected, that the copies of host and path are released, and which host names overflow.
  \<^item> \<open>Httpc_Recv\<close>: \<open>httpc_read_one_line\<close> and \<open>httpc_chunked_recv\<close>; chunks come back as they were sent, and
    what a short read or a closed connection does.
  \<^item> \<open>Httpc_Header\<close>: \<open>httpc_header_get\<close>, \<open>httpc_header_set\<close>, \<open>httpc_handle_response\<close>; the fields of a response are
    found, the parser stays inside its buffer for responses that are shorter than it.
  \<^item> \<open>Httpc_Session\<close>: \<open>httpc_send_request\<close>, \<open>httpc_recv_response\<close>, \<open>httpc_connection_status_get\<close>.
  \<^item> \<open>Httpc_Tls\<close>, \<open>Httpc_Lifecycle\<close>: set-up and tear-down, with the balance of blocks and descriptors.
  \<^item> \<open>Httpc2\<close>: \<open>httpc2_init\<close>, \<open>httpc2_submit_request\<close>, \<open>httpc2_core_run\<close>, the callbacks, and the loops of
    \<open>nghttp2_session_send\<close> and \<open>nghttp2_session_recv\<close> that call them, with the position of the buffer
    that is being sent and the assertion on the processed bytes.

  \<^bold>\<open>nghttp2\<close> (\<open>src/component/nghttp2-1.53.0/lib\<close>).
  \<^item> \<open>Nghttp2_Base\<close>, \<open>Nghttp2_Helper\<close>: codes, network byte order, character classes, flow-control windows.
  \<^item> \<open>Nghttp2_Buf\<close>: \<open>nghttp2_buf.c\<close> with the allocator of \<open>nghttp2_mem.c\<close>; bytes are appended in order,
    any sequence of operations keeps the invariant, and every block is given back.
  \<^item> \<open>Nghttp2_Frame\<close>, \<open>Nghttp2_Frame_Ext\<close>, \<open>Nghttp2_Headers\<close>, \<open>Nghttp2_Nv\<close>: \<open>nghttp2_frame.c\<close>; what is packed
    is what is unpacked, a header block that does not fit one frame continues in the next ones,
    padding, the check of SETTINGS values, the copy and the order of name/value pairs. The
    compression of the header block is an argument of the functions that pack it.
  \<^item> \<open>Nghttp2_Hd_Int\<close>: the integers of HPACK (\<open>nghttp2_hd.c\<close>); round trip, and decoding in pieces.
  \<^item> \<open>Nghttp2_Huffman_Data\<close>, \<open>Nghttp2_Huffman_Tables\<close>, \<open>Nghttp2_Huffman\<close>: \<open>nghttp2_hd_huffman.c\<close> and its two tables. Every
    entry of the automaton is checked against the codes; the decoder accepts exactly what the
    encoder can write. Fewer than 32 bits are pending in the 64-bit word of the encoder at the
    start of a round.
  \<^item> \<open>Nghttp2_Rcbuf\<close>: \<open>nghttp2_rcbuf.c\<close>, counted strings on an explicit heap, and the other blocks of that heap
    (entries, rings, deflaters, inflaters) by their addresses. The invariant \<open>rc_ok\<close> is exact: the
    count of a string is the number of its holders, and every block that is alive has one owner;
    a block that is forgotten or freed twice breaks it.
  \<^item> \<open>Nghttp2_Hd_Static\<close>: the static table of HPACK and \<open>lookup_token\<close> (\<open>nghttp2_hd.c\<close>); the search by length and
    last byte is the look-up in the list of names.
  \<^item> \<open>Nghttp2_Hd_Table\<close>: the dynamic table of HPACK (\<open>nghttp2_hd.c\<close>), a ring buffer of entries that share
    their strings, and the deflater's hash table of them; together they stand for a list of pairs,
    adding keeps the longest prefix that fits the limit, the search finds what the list has, and
    the table owns exactly its ring, its entries and their strings.
  \<^item> \<open>Nghttp2_Hd_Deflate\<close>: the deflater of HPACK (\<open>nghttp2_hd.c\<close>). A block is a list of representations, each
    stands for a pair in the table as it is at its place; how many bytes a block takes, that
    pairs which must not be indexed are not, and that a deflater gives back all it owns.
  \<^item> \<open>Nghttp2_Hd_Inflate\<close>: the inflater of HPACK (\<open>nghttp2_hd.c\<close>), a state machine that takes a block in pieces; one
    function for each case of its switch, and the loop around them, which ends because a case that
    goes on has read input or is nearer to one that must. It is safe on every input.
  \<^item> \<open>Nghttp2_Hpack\<close>: both ends of a connection. What the deflater writes the inflater gives back, block
    after block, with changes of the table limit in between, and the two tables agree after each
    block; the loop of \<open>examples/deflate.c\<close> over a block, which always returns.
  \<^item> \<open>Nghttp2_Map\<close>: \<open>nghttp2_map.c\<close>, a Robin Hood hash table. Its invariant bounds the growth of the
    probe length from a bucket to the next; from it follow that the loops end and that the table
    refines a partial map. The bound of 3 * 2 ^ 28 entries keeps the table length inside 32 bits.
  \<^item> \<open>Nghttp2_Pq\<close>: \<open>nghttp2_pq.c\<close>, a binary heap; it refines a multiset whose least entry is on top.
  \<^item> \<open>Nghttp2_Queue\<close>: \<open>nghttp2_queue.c\<close>, a linked list on an explicit heap of cells; it refines a list.

  \<^bold>\<open>Interfaces.\<close> \<open>codec\<close> and \<open>fixed_codec\<close> (\<open>Nghttp2_Frame\<close>) state that a decoder undoes an encoder, alone and
  in a sequence; they are interpreted on the frame header, the priority field and the SETTINGS
  entry. \<open>keyed_store\<close> (\<open>Nghttp2_Map\<close>) is what the session needs of the hash table, \<open>priority_queue\<close>
  (\<open>Nghttp2_Pq\<close>) of the heap; both are interpreted on the operations of the code.

  \<^bold>\<open>Not modelled.\<close> MbedTLS is a library that the client calls; its answers are parameters. Of nghttp2, the
  session (\<open>nghttp2_session.c\<close>), the streams and the submission functions are not modelled
  but for the two loops named above: \<open>nghttp2_session_mem_send_internal\<close>, \<open>nghttp2_session_mem_recv\<close> and
  \<open>nghttp2_submit_request\<close> are fields of a record, any functions on a session. Logging, the other examples and the generated documentation are
  output only.
\<close>

end
